(* ===== verification/Rust_Num.thy ===== *)
theory Rust_Num
  imports Main "HOL-Library.Word"
begin

text \<open>
  Shared vocabulary for the machine numbers of the Rust sources: unsigned integers at their
  width, the saturating and checked operations of the standard library, \<open>i64\<close> as range-checked
  \<open>int\<close>, \<open>Duration\<close>/\<open>Instant\<close> in nanoseconds, and the part of IEEE-754 binary64 the
  sources use (division of counters, \<open>>=\<close> and \<open>total_cmp\<close>), on the 64 bits of the value.
  \<open>usize\<close> is 64 bits wide.
\<close>

named_theorems rust_num "unfolding rules for the machine-number operations"

subsection \<open>Unsigned integers\<close>

type_synonym u8 = "8 word"
type_synonym u16 = "16 word"
type_synonym u32 = "32 word"
type_synonym u64 = "64 word"
type_synonym u128 = "128 word"
type_synonym usize = "64 word"

definition saturating_add :: "u64 \<Rightarrow> u64 \<Rightarrow> u64" where
  "saturating_add a b = (if unat a + unat b < 2 ^ 64 then a + b else - 1)"

definition saturating_sub :: "u64 \<Rightarrow> u64 \<Rightarrow> u64" where
  "saturating_sub a b = (if a < b then 0 else a - b)"

definition checked_add :: "u64 \<Rightarrow> u64 \<Rightarrow> u64 option" where
  "checked_add a b = (if unat a + unat b < 2 ^ 64 then Some (a + b) else None)"

lemma unat_u64_less [simp]: "unat (x :: u64) < 18446744073709551616"
  using unsigned_less [of x] by simp

lemma unat_inc: "(p :: u64) < m \<Longrightarrow> unat (p + 1) = Suc (unat p)"
proof -
  assume "p < m"
  then have "unat p < unat m" and "unat m < 2 ^ 64"
    by (simp_all add: word_less_nat_alt)
  then have "unat p + 1 < 2 ^ 64"
    by linarith
  then show ?thesis by (simp add: unat_word_ariths)
qed

lemma unat_saturating_add: "unat (saturating_add a b) = min (unat a + unat b) (2 ^ 64 - 1)"
proof (cases "unat a + unat b < 2 ^ 64")
  case True
  then show ?thesis by (simp add: saturating_add_def unat_word_ariths)
next
  case False
  then show ?thesis
    by (simp add: saturating_add_def unsigned_minus_1_eq_mask mask_eq_exp_minus_1)
qed

lemma unat_saturating_sub: "unat (saturating_sub a b) = unat a - unat b"
  by (simp add: saturating_sub_def word_less_nat_alt unat_sub_if' not_less)

lemma checked_add_Some_iff: "checked_add a b = Some c \<longleftrightarrow> c = a + b \<and> unat c = unat a + unat b"
proof (cases "unat a + unat b < 2 ^ 64")
  case True
  then show ?thesis by (auto simp: checked_add_def unat_word_ariths)
next
  case False
  have "unat c < 2 ^ 64"
    by simp
  with False have "unat c \<noteq> unat a + unat b"
    by metis
  with False show ?thesis by (simp add: checked_add_def)
qed

lemma checked_add_None_iff: "checked_add a b = None \<longleftrightarrow> 2 ^ 64 \<le> unat a + unat b"
  by (simp add: checked_add_def not_less)

text \<open>The same for \<open>u32\<close>, and the saturating sum of a sequence.\<close>

definition saturating_add32 :: "u32 \<Rightarrow> u32 \<Rightarrow> u32" where
  "saturating_add32 a b = (if unat a + unat b < 2 ^ 32 then a + b else - 1)"

definition saturating_sum32 :: "u32 list \<Rightarrow> u32" where
  "saturating_sum32 cs = foldl saturating_add32 0 cs"

lemma unat_u32_less [simp]: "unat (x :: u32) < 4294967296"
  using unsigned_less [of x] by simp

lemma unat_u32_le [simp]: "unat (x :: u32) \<le> 4294967295"
  using unat_u32_less [of x] by linarith

lemma unat_saturating_add32: "unat (saturating_add32 a b) = min (unat a + unat b) (2 ^ 32 - 1)"
proof (cases "unat a + unat b < 2 ^ 32")
  case True
  then show ?thesis by (simp add: saturating_add32_def unat_word_ariths)
next
  case False
  then show ?thesis
    by (simp add: saturating_add32_def unsigned_minus_1_eq_mask mask_eq_exp_minus_1)
qed

lemma unat_foldl_saturating_add32:
  "unat (foldl saturating_add32 a cs) = min (unat a + sum_list (map unat cs)) (2 ^ 32 - 1)"
proof (induction cs arbitrary: a)
  case Nil
  then show ?case by simp
next
  case (Cons c cs)
  then show ?case by (simp add: unat_saturating_add32 min_def)
qed

lemma unat_saturating_sum32: "unat (saturating_sum32 cs) = min (sum_list (map unat cs)) (2 ^ 32 - 1)"
  by (simp add: saturating_sum32_def unat_foldl_saturating_add32)

lemma saturating_sum32_append:
  "saturating_sum32 (xs @ ys) = saturating_add32 (saturating_sum32 xs) (saturating_sum32 ys)"
  by (simp add: word_unat_eq_iff unat_saturating_add32 unat_saturating_sum32 min_def)

lemma saturating_sum32_Cons: "saturating_sum32 (x # xs) = saturating_add32 x (saturating_sum32 xs)"
  by (simp add: word_unat_eq_iff unat_saturating_add32 unat_saturating_sum32 min_def)

lemma saturating_sum32_Nil [simp]: "saturating_sum32 [] = 0"
  by (simp add: saturating_sum32_def)

lemma saturating_add32_0 [simp]: "saturating_add32 a 0 = a" "saturating_add32 0 a = a"
  by (simp_all add: saturating_add32_def)

lemma saturating_add32_commute: "saturating_add32 a b = saturating_add32 b a"
  by (simp add: word_unat_eq_iff unat_saturating_add32 add.commute)

lemma saturating_add32_le_mono: "a \<le> saturating_add32 a b" "b \<le> saturating_add32 a b"
  by (simp_all add: word_le_nat_alt unat_saturating_add32)

subsection \<open>\<open>i64\<close> as bounded integers\<close>

definition i64_min :: int where "i64_min = - (2 ^ 63)"
definition i64_max :: int where "i64_max = 2 ^ 63 - 1"

definition is_i64 :: "int \<Rightarrow> bool" where
  "is_i64 x \<longleftrightarrow> i64_min \<le> x \<and> x \<le> i64_max"

definition i64_saturating_sub :: "int \<Rightarrow> int \<Rightarrow> int" where
  "i64_saturating_sub a b = max i64_min (min i64_max (a - b))"

definition i64_checked_add :: "int \<Rightarrow> int \<Rightarrow> int option" where
  "i64_checked_add a b = (if is_i64 (a + b) then Some (a + b) else None)"

text \<open>Rust's \<open>/\<close> and \<open>%\<close> on signed integers truncate towards zero.\<close>

definition tdiv :: "int \<Rightarrow> int \<Rightarrow> int" where
  "tdiv a b = sgn a * sgn b * (\<bar>a\<bar> div \<bar>b\<bar>)"

definition tmod :: "int \<Rightarrow> int \<Rightarrow> int" where
  "tmod a b = a - b * tdiv a b"

lemma tdiv_nonneg: "0 \<le> a \<Longrightarrow> 0 < b \<Longrightarrow> tdiv a b = a div b"
  by (cases "a = 0") (simp_all add: tdiv_def)

lemma tmod_nonneg: "0 \<le> a \<Longrightarrow> 0 < b \<Longrightarrow> tmod a b = a mod b"
  by (simp add: tmod_def tdiv_nonneg minus_mult_div_eq_mod)

lemmas [rust_num] = is_i64_def i64_min_def i64_max_def

subsection \<open>Time\<close>

text \<open>
  A \<open>Duration\<close> is a number of nanoseconds, an \<open>Instant\<close> a number of nanoseconds from an
  arbitrary origin. \<open>Instant::checked_sub\<close> returns \<open>None\<close> when the result is not
  representable; the earliest representable instant depends on the platform and is a parameter.
\<close>

type_synonym duration = nat
type_synonym instant = int

definition from_millis :: "u64 \<Rightarrow> duration" where
  "from_millis ms = unat ms * 1000000"

definition from_secs :: "nat \<Rightarrow> duration" where
  "from_secs s = s * 1000000000"

definition as_millis_u64 :: "duration \<Rightarrow> u64" where
  "as_millis_u64 d = word_of_nat (d div 1000000)"

definition saturating_duration_since :: "instant \<Rightarrow> instant \<Rightarrow> duration" where
  "saturating_duration_since later earlier = nat (later - earlier)"

definition instant_checked_sub :: "instant \<Rightarrow> instant \<Rightarrow> duration \<Rightarrow> instant option" where
  "instant_checked_sub earliest t d =
     (if earliest \<le> t - int d then Some (t - int d) else None)"

subsection \<open>IEEE-754 binary64 on its bits\<close>

type_synonym f64 = "64 word"

definition f64_negative :: "f64 \<Rightarrow> bool" where
  "f64_negative x \<longleftrightarrow> 2 ^ 63 \<le> unat x"

definition f64_magnitude :: "f64 \<Rightarrow> nat" where
  "f64_magnitude x = unat x mod 2 ^ 63"

definition f64_is_nan :: "f64 \<Rightarrow> bool" where
  "f64_is_nan x \<longleftrightarrow> 2047 * 2 ^ 52 < f64_magnitude x"

text \<open>Finite values and infinities are ordered like their sign and magnitude.\<close>

definition f64_key :: "f64 \<Rightarrow> int" where
  "f64_key x = (if f64_negative x then - int (f64_magnitude x) else int (f64_magnitude x))"

definition f64_ge :: "f64 \<Rightarrow> f64 \<Rightarrow> bool" where
  "f64_ge x y \<longleftrightarrow> \<not> f64_is_nan x \<and> \<not> f64_is_nan y \<and> f64_key y \<le> f64_key x"

text \<open>\<open>f64::total_cmp\<close> orders the bit patterns, with \<open>-0.0\<close> below \<open>0.0\<close> and NaNs at the ends.\<close>

definition f64_total_key :: "f64 \<Rightarrow> int" where
  "f64_total_key x = (if f64_negative x then - int (f64_magnitude x) - 1 else int (f64_magnitude x))"

text \<open>
  The quotient of two counters below \<open>2^53\<close> (so that both casts to \<open>f64\<close> are exact), rounded
  to nearest, ties to even: scale the quotient into \<open>[1, 2)\<close>, round to 53 significant bits,
  and pack the exponent and the fraction. A carry out of the fraction lands in the exponent.
\<close>

fun scale_up :: "nat \<Rightarrow> nat \<Rightarrow> nat \<Rightarrow> nat" where
  "scale_up 0 a b = 0"
| "scale_up (Suc fuel) a b = (if b \<le> a then 0 else Suc (scale_up fuel (2 * a) b))"

definition round_half_even :: "nat \<Rightarrow> nat \<Rightarrow> nat" where
  "round_half_even n d =
     (let q = n div d; r = n mod d
      in if 2 * r < d then q else if d < 2 * r then Suc q else if even q then q else Suc q)"

definition f64_div_nat :: "nat \<Rightarrow> nat \<Rightarrow> f64" where
  "f64_div_nat a b =
     (if a = 0 then 0
      else let up = scale_up 64 a b;
               down = (if b \<le> a then scale_up 64 b (a div 2 + 1) else 0);
               m = round_half_even (a * 2 ^ (up + 52)) (b * 2 ^ down)
           in word_of_nat ((1023 + down - up) * 2 ^ 52 + (m - 2 ^ 52)))"

end
