(* ===== verification/Sliding_Window.thy ===== *)
theory Sliding_Window
  imports Rust_Num
begin

text \<open>
  The bounded sample window of the circuit breaker
  (\<^verbatim>\<open>xai-circuit-breaker/src/window.rs\<close>): a queue of timestamped outcomes with an
  incrementally maintained failure counter. The locale \<open>sample_window\<close> states what the breaker
  relies on, over the plain list of samples; it is interpreted on the code's operations.
\<close>

definition MAX_WINDOW_ENTRIES :: nat where
  "MAX_WINDOW_ENTRIES = 10000"

type_synonym sample = "instant \<times> bool"

record SlidingWindow =
  entries :: "sample list"
  failures :: usize

definition SlidingWindow_new :: SlidingWindow where
  "SlidingWindow_new = \<lparr>entries = [], failures = 0\<rparr>"

text \<open>\<open>self.failures -= 1\<close> wraps in a release build; the invariant below excludes the case.\<close>

definition SlidingWindow_push :: "bool \<Rightarrow> instant \<Rightarrow> SlidingWindow \<Rightarrow> SlidingWindow" where
  "SlidingWindow_push is_failure at w =
     (let w1 = (if MAX_WINDOW_ENTRIES \<le> length (entries w)
                then case entries w of
                       [] \<Rightarrow> w
                     | (_, was_failure) # rest \<Rightarrow>
                         \<lparr>entries = rest,
                          failures = (if was_failure then failures w - 1 else failures w)\<rparr>
                else w)
      in \<lparr>entries = entries w1 @ [(at, is_failure)],
          failures = (if is_failure then failures w1 + 1 else failures w1)\<rparr>)"

fun evict_before :: "instant \<Rightarrow> sample list \<Rightarrow> usize \<Rightarrow> SlidingWindow" where
  "evict_before cutoff [] n = \<lparr>entries = [], failures = n\<rparr>"
| "evict_before cutoff ((ts, was_failure) # rest) n =
     (if ts < cutoff then evict_before cutoff rest (if was_failure then n - 1 else n)
      else \<lparr>entries = (ts, was_failure) # rest, failures = n\<rparr>)"

definition SlidingWindow_evict ::
    "instant \<Rightarrow> duration \<Rightarrow> instant \<Rightarrow> SlidingWindow \<Rightarrow> SlidingWindow" where
  "SlidingWindow_evict earliest window now w =
     (case instant_checked_sub earliest now window of
        None \<Rightarrow> w
      | Some cutoff \<Rightarrow> evict_before cutoff (entries w) (failures w))"

definition SlidingWindow_error_rate :: "SlidingWindow \<Rightarrow> f64" where
  "SlidingWindow_error_rate w =
     (if entries w = [] then 0 else f64_div_nat (unat (failures w)) (length (entries w)))"

definition SlidingWindow_sample_count :: "SlidingWindow \<Rightarrow> nat" where
  "SlidingWindow_sample_count w = length (entries w)"

definition SlidingWindow_clear :: "SlidingWindow \<Rightarrow> SlidingWindow" where
  "SlidingWindow_clear w = \<lparr>entries = [], failures = 0\<rparr>"

subsection \<open>The specification over plain sample lists\<close>

definition failure_count :: "sample list \<Rightarrow> nat" where
  "failure_count xs = length (filter snd xs)"

definition push_spec :: "sample \<Rightarrow> sample list \<Rightarrow> sample list" where
  "push_spec x xs = (if MAX_WINDOW_ENTRIES \<le> length xs then tl xs else xs) @ [x]"

definition evict_spec :: "instant \<Rightarrow> duration \<Rightarrow> instant \<Rightarrow> sample list \<Rightarrow> sample list" where
  "evict_spec earliest window now xs =
     (if earliest \<le> now - int window then dropWhile (\<lambda>x. fst x < now - int window) xs else xs)"

definition rate_spec :: "sample list \<Rightarrow> f64" where
  "rate_spec xs = (if xs = [] then 0 else f64_div_nat (failure_count xs) (length xs))"

definition window_inv :: "SlidingWindow \<Rightarrow> bool" where
  "window_inv w \<longleftrightarrow>
     length (entries w) \<le> MAX_WINDOW_ENTRIES \<and> unat (failures w) = failure_count (entries w)"

lemma failure_count_simps [simp]:
  "failure_count [] = 0"
  "failure_count (x # xs) = (if snd x then Suc (failure_count xs) else failure_count xs)"
  "failure_count (xs @ ys) = failure_count xs + failure_count ys"
  by (simp_all add: failure_count_def)

lemma failure_count_le_length: "failure_count xs \<le> length xs"
  by (simp add: failure_count_def)

lemma sorted_dropWhile_filter:
  "sorted (map fst xs) \<Longrightarrow> dropWhile (\<lambda>x. fst x < (c::int)) xs = filter (\<lambda>x. c \<le> fst x) xs"
proof (induction xs)
  case (Cons x xs)
  show ?case
  proof (cases "fst x < c")
    case True
    with Cons show ?thesis by simp
  next
    case False
    with Cons.prems have "\<forall>y \<in> set xs. c \<le> fst y" by auto
    then have "filter (\<lambda>y. c \<le> fst y) xs = xs" by (simp add: filter_id_conv)
    with False show ?thesis by simp
  qed
qed simp

locale sample_window =
  fixes new :: 'w
    and push :: "bool \<Rightarrow> instant \<Rightarrow> 'w \<Rightarrow> 'w"
    and evict :: "instant \<Rightarrow> duration \<Rightarrow> instant \<Rightarrow> 'w \<Rightarrow> 'w"
    and error_rate :: "'w \<Rightarrow> f64"
    and sample_count :: "'w \<Rightarrow> nat"
    and clear :: "'w \<Rightarrow> 'w"
    and samples :: "'w \<Rightarrow> sample list"
    and inv :: "'w \<Rightarrow> bool"
  assumes inv_new: "inv new"
    and samples_new: "samples new = []"
    and inv_push: "inv w \<Longrightarrow> inv (push b t w)"
    and samples_push: "inv w \<Longrightarrow> samples (push b t w) = push_spec (t, b) (samples w)"
    and inv_evict: "inv w \<Longrightarrow> inv (evict e d t w)"
    and samples_evict: "inv w \<Longrightarrow> samples (evict e d t w) = evict_spec e d t (samples w)"
    and rate: "inv w \<Longrightarrow> error_rate w = rate_spec (samples w)"
    and count: "inv w \<Longrightarrow> sample_count w = length (samples w)"
    and inv_clear: "inv (clear w)"
    and samples_clear: "samples (clear w) = []"
    and bounded: "inv w \<Longrightarrow> length (samples w) \<le> MAX_WINDOW_ENTRIES"
begin

lemma inv_after_record: "inv w \<Longrightarrow> inv (evict e d t (push b t w))"
  by (simp add: inv_push inv_evict)

lemma samples_record:
  "inv w \<Longrightarrow> samples (evict e d t (push b t w)) = evict_spec e d t (push_spec (t, b) (samples w))"
  by (simp add: inv_push samples_evict samples_push)

text \<open>
  The trip test of the breaker, read off the window's operations, is a test on the samples; a
  freshly recorded sample is never evicted.
\<close>

lemma trip_test:
  "inv w \<Longrightarrow> (n \<le> sample_count w \<and> f64_ge (error_rate w) r) \<longleftrightarrow>
     (n \<le> length (samples w) \<and> f64_ge (rate_spec (samples w)) r)"
  by (simp add: rate count)

lemma fresh_sample_kept: "inv w \<Longrightarrow> (t, b) \<in> set (samples (evict e d t (push b t w)))"
proof -
  assume inv: "inv w"
  have "(t, b) \<in> set (dropWhile (\<lambda>x. fst x < t - int d) (xs @ [(t, b)]))" for xs
    by (induction xs) auto
  then show ?thesis
    by (simp add: samples_record [OF inv] evict_spec_def push_spec_def)
qed

end

subsection \<open>The code implements the interface\<close>

lemma evict_before_entries: "entries (evict_before c xs n) = dropWhile (\<lambda>x. fst x < c) xs"
  by (induction c xs n rule: evict_before.induct) auto

lemma unat_pred: "unat (n :: usize) = Suc k \<Longrightarrow> unat (n - 1) = k"
  by (metis diff_Suc_1 nat.distinct(1) unat_0 unat_minus_one)

lemma evict_before_failures:
  "unat n = failure_count xs \<Longrightarrow>
     unat (failures (evict_before c xs n)) = failure_count (dropWhile (\<lambda>x. fst x < c) xs)"
proof (induction c xs n rule: evict_before.induct)
  case (2 c ts b xs n)
  show ?case
  proof (cases "ts < c")
    case True
    have "unat (if b then n - 1 else n) = failure_count xs"
      using "2.prems" by (cases b) (auto simp: unat_pred)
    with True "2.IH" show ?thesis by simp
  next
    case False
    with "2.prems" show ?thesis by simp
  qed
qed simp

lemma window_inv_new [simp]: "window_inv SlidingWindow_new"
  by (simp add: window_inv_def SlidingWindow_new_def)

lemma window_inv_clear [simp]: "window_inv (SlidingWindow_clear w)"
  by (simp add: window_inv_def SlidingWindow_clear_def)

lemma entries_push: "entries (SlidingWindow_push b t w) = push_spec (t, b) (entries w)"
  by (auto simp: SlidingWindow_push_def push_spec_def Let_def split: list.splits)

lemma length_push_spec: "length xs \<le> MAX_WINDOW_ENTRIES \<Longrightarrow> length (push_spec x xs) \<le> MAX_WINDOW_ENTRIES"
  by (auto simp: push_spec_def MAX_WINDOW_ENTRIES_def)

lemma unat_succ_small: "unat (n :: usize) \<le> MAX_WINDOW_ENTRIES \<Longrightarrow> unat (n + 1) = unat n + 1"
  by (simp add: unat_word_ariths MAX_WINDOW_ENTRIES_def)

lemma window_inv_push:
  assumes "window_inv w"
  shows "window_inv (SlidingWindow_push b t w)"
proof -
  have len: "length (entries w) \<le> MAX_WINDOW_ENTRIES"
    and cnt: "unat (failures w) = failure_count (entries w)"
    using assms by (simp_all add: window_inv_def)
  have small: "unat (failures w) \<le> MAX_WINDOW_ENTRIES"
    using len cnt failure_count_le_length [of "entries w"] by simp
  have "unat (failures (SlidingWindow_push b t w)) = failure_count (push_spec (t, b) (entries w))"
  proof (cases "MAX_WINDOW_ENTRIES \<le> length (entries w)")
    case True
    then obtain ts f rest where e: "entries w = (ts, f) # rest"
      by (cases "entries w") (auto simp: MAX_WINDOW_ENTRIES_def)
    define n where "n = (if f then failures w - 1 else failures w)"
    have n: "unat n = failure_count rest"
      using cnt e by (cases f) (auto simp: n_def unat_pred)
    then have "unat n \<le> MAX_WINDOW_ENTRIES"
      using small cnt e by (simp split: if_splits)
    then have "unat (n + 1) = unat n + 1"
      by (rule unat_succ_small)
    with True e n show ?thesis
      by (simp add: SlidingWindow_push_def push_spec_def Let_def n_def)
  next
    case False
    with cnt unat_succ_small [OF small] show ?thesis
      by (simp add: SlidingWindow_push_def push_spec_def)
  qed
  with len show ?thesis
    by (simp add: window_inv_def entries_push length_push_spec)
qed

lemma entries_evict: "entries (SlidingWindow_evict e d t w) = evict_spec e d t (entries w)"
  by (simp add: SlidingWindow_evict_def instant_checked_sub_def evict_spec_def evict_before_entries)

lemma window_inv_evict: "window_inv w \<Longrightarrow> window_inv (SlidingWindow_evict e d t w)"
  using length_dropWhile_le [of "\<lambda>x. fst x < t - int d" "entries w"]
  by (auto simp: window_inv_def SlidingWindow_evict_def instant_checked_sub_def
      evict_before_entries evict_before_failures)

interpretation code_window: sample_window
  SlidingWindow_new SlidingWindow_push SlidingWindow_evict SlidingWindow_error_rate
  SlidingWindow_sample_count SlidingWindow_clear entries window_inv
proof unfold_locales
  show "entries SlidingWindow_new = []"
    by (simp add: SlidingWindow_new_def)
  show "window_inv w \<Longrightarrow> SlidingWindow_error_rate w = rate_spec (entries w)" for w
    by (simp add: window_inv_def SlidingWindow_error_rate_def rate_spec_def)
  show "entries (SlidingWindow_clear w) = []" for w
    by (simp add: SlidingWindow_clear_def)
  show "window_inv w \<Longrightarrow> length (entries w) \<le> MAX_WINDOW_ENTRIES" for w
    by (simp add: window_inv_def)
qed (simp_all add: window_inv_push entries_push window_inv_evict entries_evict
    SlidingWindow_sample_count_def)

subsection \<open>The failure rate in binary64\<close>

text \<open>
  The presets compare the rate with \<open>0.5\<close>. Within the window's capacity the rounded
  quotient compares with one half exactly as the rational one does.
\<close>

definition f64_half :: f64 where
  "f64_half = 4602678819172646912"

lemma scale_up_bounds:
  "0 < a \<Longrightarrow> a < b \<Longrightarrow> b \<le> a * 2 ^ fuel \<Longrightarrow>
     b \<le> a * 2 ^ scale_up fuel a b \<and> a * 2 ^ scale_up fuel a b < 2 * b \<and> 0 < scale_up fuel a b"
proof (induction fuel arbitrary: a)
  case (Suc fuel)
  show ?case
  proof (cases "b \<le> 2 * a")
    case True
    then have "scale_up fuel (2 * a) b = 0" by (cases fuel) auto
    with True Suc.prems show ?thesis by simp
  next
    case False
    then have "b \<le> (2 * a) * 2 ^ scale_up fuel (2 * a) b \<and>
        (2 * a) * 2 ^ scale_up fuel (2 * a) b < 2 * b \<and> 0 < scale_up fuel (2 * a) b"
      using Suc.prems by (intro Suc.IH) (auto simp: mult.assoc mult.commute mult.left_commute)
    with Suc.prems show ?thesis by (simp add: mult.assoc mult.left_commute)
  qed
qed simp

lemma scale_up_0: "b \<le> a \<Longrightarrow> scale_up fuel a b = 0"
  by (cases fuel) auto

lemma round_half_even_ge: "0 < d \<Longrightarrow> k * d \<le> n \<Longrightarrow> k \<le> round_half_even n d"
proof -
  assume "0 < d" and "k * d \<le> n"
  then have "k \<le> n div d" by (simp add: less_eq_div_iff_mult_less_eq)
  then show ?thesis by (auto simp: round_half_even_def Let_def)
qed

lemma round_half_even_le: "0 < d \<Longrightarrow> n < k * d \<Longrightarrow> round_half_even n d \<le> k"
proof -
  assume "0 < d" and "n < k * d"
  then have "n div d < k" by (simp add: less_mult_imp_div_less)
  then show ?thesis by (auto simp: round_half_even_def Let_def)
qed

lemma f64_key_small:
  "n \<le> 2046 * 2 ^ 52 \<Longrightarrow> f64_key (word_of_nat n) = int n \<and> \<not> f64_is_nan (word_of_nat n)"
proof -
  assume n: "n \<le> 2046 * 2 ^ 52"
  then have "unat (word_of_nat n :: f64) = n"
    by (simp add: unat_of_nat take_bit_eq_mod)
  with n show ?thesis
    by (simp add: f64_key_def f64_is_nan_def f64_negative_def f64_magnitude_def)
qed

lemma f64_half_key: "f64_key f64_half = 1022 * 2 ^ 52" and f64_half_not_nan: "\<not> f64_is_nan f64_half"
  by (simp_all add: f64_half_def f64_key_def f64_is_nan_def f64_negative_def f64_magnitude_def)

lemma f64_div_nat_below:
  assumes "0 < a" and "a < b" and "b \<le> MAX_WINDOW_ENTRIES"
  obtains s m where "0 < s" and "s \<le> 64" and "b \<le> a * 2 ^ s" and "a * 2 ^ s < 2 * b"
    and "m = round_half_even (a * 2 ^ (s + 52)) b" and "2 ^ 52 \<le> m" and "m \<le> 2 ^ 53"
    and "f64_div_nat a b = word_of_nat ((1023 - s) * 2 ^ 52 + (m - 2 ^ 52))"
proof -
  define s where "s = scale_up 64 a b"
  define m where "m = round_half_even (a * 2 ^ (s + 52)) b"
  have "b \<le> a * 2 ^ 64"
    using assms by (simp add: MAX_WINDOW_ENTRIES_def)
  then have s: "b \<le> a * 2 ^ s" "a * 2 ^ s < 2 * b" "0 < s"
    using scale_up_bounds [of a b 64] assms by (auto simp: s_def)
  have "scale_up f a b \<le> f" for f a
    by (induction f arbitrary: a) auto
  then have "s \<le> 64" by (simp add: s_def)
  have "2 ^ 52 * b \<le> a * 2 ^ (s + 52)" and "a * 2 ^ (s + 52) < 2 ^ 53 * b"
    using s by (simp_all add: power_add)
  then have "2 ^ 52 \<le> m" and "m \<le> 2 ^ 53"
    unfolding m_def using assms by (intro round_half_even_ge round_half_even_le; simp)+
  moreover have "f64_div_nat a b = word_of_nat ((1023 - s) * 2 ^ 52 + (m - 2 ^ 52))"
    using assms by (simp add: f64_div_nat_def Let_def s_def m_def)
  ultimately show thesis
    using that s \<open>s \<le> 64\<close> m_def by blast
qed

lemma f64_div_nat_same: "0 < b \<Longrightarrow> f64_div_nat b b = word_of_nat (1023 * 2 ^ 52)"
proof -
  assume b: "0 < b"
  have "scale_up 64 b (Suc (b div 2)) = 0"
    using b by (intro scale_up_0) linarith
  moreover have "scale_up 64 b b = 0"
    by (simp add: scale_up_0)
  moreover have "round_half_even (b * 2 ^ 52) b = 2 ^ 52"
    using b by (simp add: round_half_even_def)
  ultimately show ?thesis
    using b by (simp add: f64_div_nat_def Let_def)
qed

lemma f64_half_exact:
  assumes "a \<le> b" and "0 < b" and "b \<le> MAX_WINDOW_ENTRIES"
  shows "f64_ge (f64_div_nat a b) f64_half \<longleftrightarrow> b \<le> 2 * a"
proof -
  consider "a = 0" | "a = b" | "0 < a" "a < b"
    using assms by linarith
  then show ?thesis
  proof cases
    case 1
    with assms show ?thesis
      using f64_key_small [of 0] by (simp add: f64_div_nat_def f64_ge_def f64_half_key)
  next
    case 2
    with assms show ?thesis
      using f64_key_small [of "1023 * 2 ^ 52"]
      by (simp add: f64_div_nat_same f64_ge_def f64_half_key f64_half_not_nan)
  next
    case 3
    then obtain s m where s: "0 < s" "s \<le> 64" "b \<le> a * 2 ^ s" "a * 2 ^ s < 2 * b"
      and m: "m = round_half_even (a * 2 ^ (s + 52)) b" "2 ^ 52 \<le> m" "m \<le> 2 ^ 53"
      and div: "f64_div_nat a b = word_of_nat ((1023 - s) * 2 ^ 52 + (m - 2 ^ 52))"
      using assms(3) by (rule f64_div_nat_below)
    define n where "n = (1023 - s) * 2 ^ 52 + (m - 2 ^ 52)"
    have "n \<le> 2046 * 2 ^ 52"
      using s m by (simp add: n_def)
    then have ge: "f64_ge (f64_div_nat a b) f64_half \<longleftrightarrow> 1022 * 2 ^ 52 \<le> n"
      using f64_key_small [of n]
      by (simp add: div [folded n_def] f64_ge_def f64_half_key f64_half_not_nan)
    show ?thesis
    proof (cases "b \<le> 2 * a")
      case True
      have "s = 1"
      proof (rule ccontr)
        assume "s \<noteq> 1"
        with s(1) have "2 \<le> s" by linarith
        then have "(2::nat) ^ 2 \<le> 2 ^ s" by (rule power_increasing) simp
        then have "a * 4 \<le> a * 2 ^ s" by simp
        with s(4) True show False by linarith
      qed
      with ge True show ?thesis by (simp add: n_def)
    next
      case False
      have "s \<noteq> 1" using False s(3) by auto
      moreover have "m < 2 ^ 53" if "s = 2"
      proof -
        have "a * 2 ^ (s + 52) < (2 ^ 53 - 1) * b"
          using False assms(3) that by (simp add: MAX_WINDOW_ENTRIES_def)
        then have "m \<le> 2 ^ 53 - 1"
          unfolding m(1) using assms by (intro round_half_even_le) simp_all
        then show ?thesis by simp
      qed
      ultimately have "n < 1022 * 2 ^ 52"
        using s m by (cases "s = 2") (auto simp: n_def)
      with ge False show ?thesis by simp
    qed
  qed
qed

end
