(* ===== verification/Rust_Str.thy ===== *)
theory Rust_Str
  imports Main "HOL-Library.Word" "HOL-Library.Sublist"
begin

text \<open>
  Rust strings. A \<open>str\<close> is modelled as the list of its Unicode scalar values, so that
  \<open>char\<close>-wise operations are list operations and the byte length is the sum of the UTF-8
  widths. Only the operations of \<open>core::str\<close> and \<open>core::fmt\<close> that the modelled sources use
  are defined here, with the lemmas the components share.
\<close>

type_synonym uchar = nat
type_synonym str = "uchar list"

named_theorems str_simps "unfolding rules that evaluate string operations on literals"

definition lit :: "string \<Rightarrow> str" where
  "lit s = map of_char s"

lemma lit_Nil [simp]: "lit [] = []"
  by (simp add: lit_def)

lemma lit_Cons [simp]: "lit (c # s) = of_char c # lit s"
  by (simp add: lit_def)

lemma lit_append: "lit (s @ t) = lit s @ lit t"
  by (simp add: lit_def)

lemma length_lit [simp]: "length (lit s) = length s"
  by (simp add: lit_def)

lemma lit_inject [simp]: "lit s = lit t \<longleftrightarrow> s = t"
proof -
  have "inj (of_char :: char \<Rightarrow> nat)"
    by (rule injI) simp
  then show ?thesis
    by (auto simp: lit_def dest: map_injective)
qed

subsection \<open>UTF-8 length\<close>

definition len_utf8 :: "uchar \<Rightarrow> nat" where
  "len_utf8 c = (if c < 128 then 1 else if c < 2048 then 2 else if c < 65536 then 3 else 4)"

definition str_len :: "str \<Rightarrow> nat" where
  "str_len s = sum_list (map len_utf8 s)"

lemma len_utf8_pos [simp]: "0 < len_utf8 c" and len_utf8_le4: "len_utf8 c \<le> 4"
  by (simp_all add: len_utf8_def)

lemma len_utf8_nonzero [simp]: "len_utf8 c \<noteq> 0"
  by (simp add: len_utf8_def)

lemma str_len_simps [simp]:
  "str_len [] = 0"
  "str_len (c # s) = len_utf8 c + str_len s"
  "str_len (s @ t) = str_len s + str_len t"
  by (simp_all add: str_len_def)

lemma str_len_eq_0_iff [simp]: "str_len s = 0 \<longleftrightarrow> s = []"
  by (cases s) (simp_all add: len_utf8_def)

lemma length_le_str_len: "length s \<le> str_len s"
proof (induction s)
  case (Cons c s)
  have "1 \<le> len_utf8 c" by (simp add: len_utf8_def)
  with Cons show ?case by simp
qed simp

text \<open>The bytes of the UTF-8 encoding.\<close>

definition utf8_char :: "uchar \<Rightarrow> nat list" where
  "utf8_char c =
     (if c < 128 then [c]
      else if c < 2048 then [192 + c div 64, 128 + c mod 64]
      else if c < 65536 then [224 + c div 4096, 128 + c div 64 mod 64, 128 + c mod 64]
      else [240 + c div 262144, 128 + c div 4096 mod 64, 128 + c div 64 mod 64, 128 + c mod 64])"

definition utf8_bytes :: "str \<Rightarrow> nat list" where
  "utf8_bytes s = concat (map utf8_char s)"

lemma length_utf8_bytes: "length (utf8_bytes s) = str_len s"
  by (induction s) (simp_all add: utf8_bytes_def utf8_char_def len_utf8_def)

lemma utf8_bytes_simps [simp]:
  "utf8_bytes [] = []"
  "utf8_bytes (c # s) = utf8_char c @ utf8_bytes s"
  "utf8_bytes (s @ t) = utf8_bytes s @ utf8_bytes t"
  by (simp_all add: utf8_bytes_def)

lemma utf8_bytes_ascii: "(\<And>c. c \<in> set s \<Longrightarrow> c < 128) \<Longrightarrow> utf8_bytes s = s"
  by (induction s) (simp_all add: utf8_char_def)

lemma utf8_bytes_all_ascii: "(\<And>x. x \<in> set (utf8_bytes s) \<Longrightarrow> x < 128) \<Longrightarrow> utf8_bytes s = s"
proof (induction s)
  case (Cons c s)
  have "c < 128"
  proof (rule ccontr)
    assume "\<not> c < 128"
    then have "\<exists>x \<in> set (utf8_char c). 128 \<le> x"
      by (auto simp: utf8_char_def)
    with Cons.prems show False by fastforce
  qed
  with Cons show ?case by (simp add: utf8_char_def)
qed simp

subsection \<open>Trimming and ASCII case\<close>

text \<open>\<open>char::is_whitespace\<close>: the Unicode property \<open>White_Space\<close>.\<close>

definition is_whitespace :: "uchar \<Rightarrow> bool" where
  "is_whitespace c \<longleftrightarrow>
     9 \<le> c \<and> c \<le> 13 \<or> c = 32 \<or> c = 133 \<or> c = 160 \<or> c = 5760 \<or>
     8192 \<le> c \<and> c \<le> 8202 \<or> c = 8232 \<or> c = 8233 \<or> c = 8239 \<or> c = 8287 \<or> c = 12288"

definition trim_start :: "str \<Rightarrow> str" where
  "trim_start s = dropWhile is_whitespace s"

definition trim_end :: "str \<Rightarrow> str" where
  "trim_end s = rev (dropWhile is_whitespace (rev s))"

definition trim :: "str \<Rightarrow> str" where
  "trim s = trim_end (trim_start s)"

definition trim_start_matches :: "uchar \<Rightarrow> str \<Rightarrow> str" where
  "trim_start_matches c s = dropWhile (\<lambda>x. x = c) s"

definition to_ascii_lowercase :: "str \<Rightarrow> str" where
  "to_ascii_lowercase s = map (\<lambda>c. if 65 \<le> c \<and> c \<le> 90 then c + 32 else c) s"

definition eq_ignore_ascii_case :: "str \<Rightarrow> str \<Rightarrow> bool" where
  "eq_ignore_ascii_case s t \<longleftrightarrow> to_ascii_lowercase s = to_ascii_lowercase t"

text \<open>A string with no whitespace at either end is a fixed point of \<open>trim\<close>, and \<open>trim\<close> gives one.\<close>

definition trimmed :: "str \<Rightarrow> bool" where
  "trimmed s \<longleftrightarrow> s = [] \<or> \<not> is_whitespace (hd s) \<and> \<not> is_whitespace (last s)"

lemma trim_trimmed [simp]: "trimmed s \<Longrightarrow> trim s = s"
proof (cases "s = []")
  case False
  assume "trimmed s"
  with False have "\<not> is_whitespace (hd s)" and "\<not> is_whitespace (hd (rev s))"
    by (auto simp: trimmed_def hd_rev)
  then have "dropWhile is_whitespace s = s" and "dropWhile is_whitespace (rev s) = rev s"
    by (simp_all add: dropWhile_eq_self_iff)
  then show ?thesis
    by (simp add: trim_def trim_start_def trim_end_def)
qed (simp add: trim_def trim_start_def trim_end_def)

lemma trimmed_trim [simp]: "trimmed (trim s)"
proof -
  define t where "t = dropWhile is_whitespace s"
  have hd_t: "t = [] \<or> \<not> is_whitespace (hd t)"
    unfolding t_def using hd_dropWhile [of is_whitespace s] by blast
  define u where "u = dropWhile is_whitespace (rev t)"
  have u: "u = [] \<or> \<not> is_whitespace (hd u)"
    unfolding u_def using hd_dropWhile [of is_whitespace "rev t"] by blast
  have "suffix u (rev t)"
    by (simp add: u_def suffix_dropWhile)
  then obtain p where p: "rev t = p @ u"
    by (auto simp: suffix_def)
  then have "t = rev u @ rev p"
    by (metis rev_append rev_rev_ident)
  with hd_t have "u = [] \<or> \<not> is_whitespace (last u)"
    by (cases "u = []") (auto simp: hd_append hd_rev)
  with u show ?thesis
    by (auto simp: trim_def trim_start_def trim_end_def trimmed_def t_def [symmetric]
        u_def [symmetric] hd_rev last_rev)
qed

lemma trim_idem [simp]: "trim (trim s) = trim s"
  by simp

lemma trimmed_Nil [simp]: "trimmed []"
  by (simp add: trimmed_def)

lemma trimmedI: "(\<And>c. c \<in> set s \<Longrightarrow> \<not> is_whitespace c) \<Longrightarrow> trimmed s"
  by (cases s) (auto simp: trimmed_def)

lemma trim_eq_Nil_iff: "trim s = [] \<longleftrightarrow> (\<forall>c \<in> set s. is_whitespace c)"
proof -
  have "trim s = [] \<longleftrightarrow> (\<forall>c \<in> set (dropWhile is_whitespace s). is_whitespace c)"
    by (simp add: trim_def trim_start_def trim_end_def dropWhile_eq_Nil_conv)
  also have "\<dots> \<longleftrightarrow> (\<forall>c \<in> set s. is_whitespace c)"
  proof
    assume all: "\<forall>c \<in> set (dropWhile is_whitespace s). is_whitespace c"
    have "dropWhile is_whitespace s = []"
    proof (rule ccontr)
      assume "dropWhile is_whitespace s \<noteq> []"
      with all hd_dropWhile [of is_whitespace s] show False
        by (meson hd_in_set)
    qed
    then show "\<forall>c \<in> set s. is_whitespace c"
      by (simp add: dropWhile_eq_Nil_conv)
  next
    assume "\<forall>c \<in> set s. is_whitespace c"
    then show "\<forall>c \<in> set (dropWhile is_whitespace s). is_whitespace c"
      by (meson set_dropWhileD)
  qed
  finally show ?thesis .
qed

lemma eq_ignore_ascii_case_refl [simp]: "eq_ignore_ascii_case s s"
  by (simp add: eq_ignore_ascii_case_def)

lemma eq_ignore_ascii_case_sym: "eq_ignore_ascii_case s t \<longleftrightarrow> eq_ignore_ascii_case t s"
  by (auto simp: eq_ignore_ascii_case_def)

lemmas [str_simps] = is_whitespace_def trim_def trim_start_def trim_end_def
  to_ascii_lowercase_def eq_ignore_ascii_case_def trim_start_matches_def len_utf8_def

subsection \<open>Prefixes and splitting\<close>

definition starts_with :: "str \<Rightarrow> str \<Rightarrow> bool" where
  "starts_with s p \<longleftrightarrow> take (length p) s = p"

definition strip_prefix :: "str \<Rightarrow> str \<Rightarrow> str option" where
  "strip_prefix s p = (if take (length p) s = p then Some (drop (length p) s) else None)"

lemma strip_prefix_Some_iff: "strip_prefix s p = Some r \<longleftrightarrow> s = p @ r"
proof
  assume "strip_prefix s p = Some r"
  then have "take (length p) s = p" and "r = drop (length p) s"
    by (auto simp: strip_prefix_def split: if_splits)
  then show "s = p @ r"
    by (metis append_take_drop_id)
qed (simp add: strip_prefix_def)

lemma strip_prefix_append [simp]: "strip_prefix (p @ r) p = Some r"
  by (simp add: strip_prefix_def)

lemma strip_prefix_None_iff: "strip_prefix s p = None \<longleftrightarrow> \<not> prefix p s"
proof
  assume none: "strip_prefix s p = None"
  show "\<not> prefix p s"
  proof
    assume "prefix p s"
    then obtain r where "s = p @ r" by (auto simp: prefix_def)
    with none show False by simp
  qed
next
  assume "\<not> prefix p s"
  then have "\<And>r. s \<noteq> p @ r" by (auto simp: prefix_def)
  then show "strip_prefix s p = None"
    by (cases "strip_prefix s p") (auto simp: strip_prefix_Some_iff)
qed

text \<open>\<open>str::split_once\<close>: at the first occurrence of the pattern.\<close>

fun split_once :: "str \<Rightarrow> str \<Rightarrow> (str \<times> str) option" where
  "split_once [] p = (if p = [] then Some ([], []) else None)"
| "split_once (c # s) p =
     (case strip_prefix (c # s) p of
        Some r \<Rightarrow> Some ([], r)
      | None \<Rightarrow> map_option (\<lambda>(a, b). (c # a, b)) (split_once s p))"

lemma split_once_append: "split_once s p = Some (a, b) \<Longrightarrow> s = a @ p @ b"
proof (induction s arbitrary: a b)
  case Nil
  then show ?case by (simp split: if_splits)
next
  case (Cons c s)
  show ?case
  proof (cases "strip_prefix (c # s) p")
    case None
    with Cons show ?thesis by auto
  next
    case (Some r)
    with Cons.prems show ?thesis by (simp add: strip_prefix_Some_iff)
  qed
qed

text \<open>\<open>str::split\<close> by one character: the pieces between the separators, at least one.\<close>

fun split_char :: "uchar \<Rightarrow> str \<Rightarrow> str list" where
  "split_char d [] = [[]]"
| "split_char d (c # s) =
     (if c = d then [] # split_char d s
      else case split_char d s of [] \<Rightarrow> [[c]] | w # ws \<Rightarrow> (c # w) # ws)"

lemma split_char_not_Nil [simp]: "split_char d s \<noteq> []"
  by (induction s) (auto split: list.splits)

text \<open>\<open>str::split_inclusive\<close> at the line feed: every piece keeps its terminator.\<close>

fun split_inclusive_nl :: "str \<Rightarrow> str list" where
  "split_inclusive_nl [] = []"
| "split_inclusive_nl (c # s) =
     (if c = 10 then [c] # split_inclusive_nl s
      else case split_inclusive_nl s of [] \<Rightarrow> [[c]] | w # ws \<Rightarrow> (c # w) # ws)"

lemma concat_split_inclusive_nl [simp]: "concat (split_inclusive_nl s) = s"
  by (induction s) (auto split: list.splits)

lemma split_inclusive_nl_not_Nil: "w \<in> set (split_inclusive_nl s) \<Longrightarrow> w \<noteq> []"
  by (induction s arbitrary: w) (auto split: list.splits if_splits)

lemma split_inclusive_nl_eq_Nil_iff [simp]: "split_inclusive_nl s = [] \<longleftrightarrow> s = []"
  by (cases s) (auto split: list.splits)

text \<open>\<open>str::lines\<close>: the terminator \<open>\n\<close> or \<open>\r\n\<close> is dropped.\<close>

definition strip_line_end :: "str \<Rightarrow> str" where
  "strip_line_end l =
     (if l \<noteq> [] \<and> last l = 10
      then let l' = butlast l in if l' \<noteq> [] \<and> last l' = 13 then butlast l' else l'
      else l)"

definition lines :: "str \<Rightarrow> str list" where
  "lines s = map strip_line_end (split_inclusive_nl s)"

text \<open>\<open>str::split_whitespace\<close>: the maximal runs of non-whitespace characters.\<close>

function split_whitespace :: "str \<Rightarrow> str list" where
  "split_whitespace [] = []"
| "split_whitespace (c # s) =
     (if is_whitespace c then split_whitespace s
      else (c # takeWhile (\<lambda>x. \<not> is_whitespace x) s)
             # split_whitespace (dropWhile (\<lambda>x. \<not> is_whitespace x) s))"
  by pat_completeness auto
termination
  by (relation "measure length") (auto simp: less_Suc_eq_le length_dropWhile_le)

declare split_whitespace.simps(2) [simp del]

lemma split_whitespace_ne: "w \<in> set (split_whitespace s) \<Longrightarrow> w \<noteq> []"
  by (induction s arbitrary: w rule: split_whitespace.induct)
    (auto simp: split_whitespace.simps split: if_splits)

definition join :: "str \<Rightarrow> str list \<Rightarrow> str" where
  "join sep ws = concat (case ws of [] \<Rightarrow> [] | w # ws' \<Rightarrow> w # map (\<lambda>x. sep @ x) ws')"

lemma join_simps [simp]:
  "join sep [] = []"
  "join sep [w] = w"
  "join sep (w # v # ws) = w @ sep @ join sep (v # ws)"
  by (simp_all add: join_def)

lemma split_char_no_sep: "d \<notin> set w \<Longrightarrow> split_char d w = [w]"
  by (induction w) auto

lemma split_char_append: "d \<notin> set w \<Longrightarrow> split_char d (w @ d # s) = w # split_char d s"
  by (induction w) auto

lemma split_char_join: "ws \<noteq> [] \<Longrightarrow> \<forall>w \<in> set ws. d \<notin> set w \<Longrightarrow> split_char d (join [d] ws) = ws"
proof (induction ws)
  case (Cons w ws)
  then show ?case
    by (cases ws) (auto simp: split_char_no_sep split_char_append)
qed simp

subsection \<open>Slices\<close>

text \<open>
  \<open>&s[..n]\<close>: slicing at a byte offset that is not a character boundary panics, which is \<open>None\<close> here.
\<close>

fun slice_to :: "str \<Rightarrow> nat \<Rightarrow> str option" where
  "slice_to [] n = (if n = 0 then Some [] else None)"
| "slice_to (c # s) n =
     (if n = 0 then Some []
      else if n < len_utf8 c then None else map_option ((#) c) (slice_to s (n - len_utf8 c)))"

lemma slice_to_append: "slice_to (s @ t) (str_len s) = Some s"
proof (induction s)
  case Nil
  then show ?case by (cases t) simp_all
next
  case (Cons c s)
  then show ?case by simp
qed

lemma slice_to_Some: "slice_to s n = Some p \<Longrightarrow> prefix p s \<and> str_len p = n"
  by (induction s n arbitrary: p rule: slice_to.induct) (auto split: if_splits)

lemma slice_to_0 [simp]: "slice_to s 0 = Some []"
  by (cases s) simp_all

subsection \<open>Numbers as text\<close>

text \<open>Decimal and lower-case hexadecimal display, without leading zeros.\<close>

fun digits_of :: "nat \<Rightarrow> nat \<Rightarrow> nat list" where
  "digits_of b n = (if b \<le> 1 \<or> n < b then [n] else digits_of b (n div b) @ [n mod b])"

declare digits_of.simps [simp del]

definition hex_digit :: "nat \<Rightarrow> uchar" where
  "hex_digit d = (if d < 10 then 48 + d else 87 + d)"

definition show_nat :: "nat \<Rightarrow> str" where
  "show_nat n = map (\<lambda>d. 48 + d) (digits_of 10 n)"

definition show_int :: "int \<Rightarrow> str" where
  "show_int n = (if n < 0 then 45 # show_nat (nat (- n)) else show_nat (nat n))"

definition show_hex :: "nat \<Rightarrow> str" where
  "show_hex n = map hex_digit (digits_of 16 n)"

definition value_of :: "nat \<Rightarrow> nat list \<Rightarrow> nat" where
  "value_of b ds = foldl (\<lambda>n d. n * b + d) 0 ds"

lemma digits_of_not_Nil [simp]: "digits_of b n \<noteq> []"
  by (subst digits_of.simps) simp

lemma digits_of_less: "1 < b \<Longrightarrow> d \<in> set (digits_of b n) \<Longrightarrow> d < b"
proof (induction b n rule: digits_of.induct)
  case (1 b n)
  then show ?case
    by (cases "n < b") (auto simp: digits_of.simps [of b n])
qed

lemma value_of_digits_of [simp]: "1 < b \<Longrightarrow> value_of b (digits_of b n) = n"
proof (induction b n rule: digits_of.induct)
  case (1 b n)
  then show ?case
    by (cases "n < b") (auto simp: digits_of.simps [of b n] value_of_def)
qed

lemma digits_of_inject: "1 < b \<Longrightarrow> digits_of b m = digits_of b n \<longleftrightarrow> m = n"
  by (metis value_of_digits_of)

lemma show_nat_inject [simp]: "show_nat m = show_nat n \<longleftrightarrow> m = n"
proof -
  have "inj (\<lambda>d::nat. 48 + d)" by (rule injI) simp
  then show ?thesis
    by (auto simp: show_nat_def digits_of_inject dest: map_injective)
qed

lemma show_nat_digit: "c \<in> set (show_nat n) \<Longrightarrow> 48 \<le> c \<and> c \<le> 57"
  by (auto simp: show_nat_def dest!: digits_of_less [rotated])

lemma hex_digit_inject: "d < 16 \<Longrightarrow> e < 16 \<Longrightarrow> hex_digit d = hex_digit e \<longleftrightarrow> d = e"
  by (auto simp: hex_digit_def split: if_splits)

lemma show_hex_inject [simp]: "show_hex m = show_hex n \<longleftrightarrow> m = n"
proof
  assume eq: "show_hex m = show_hex n"
  have "inj_on hex_digit {..<16}"
    by (rule inj_onI) (simp add: hex_digit_inject)
  then have "inj_on hex_digit (set (digits_of 16 m) \<union> set (digits_of 16 n))"
    by (rule inj_on_subset) (auto dest: digits_of_less [rotated])
  with eq have "digits_of 16 m = digits_of 16 n"
    unfolding show_hex_def by (metis inj_on_map_eq_map)
  then show "m = n"
    by (simp add: digits_of_inject)
qed simp

lemma show_hex_not_Nil [simp]: "show_hex n \<noteq> []"
  by (simp add: show_hex_def)

definition is_lower_hex :: "uchar \<Rightarrow> bool" where
  "is_lower_hex c \<longleftrightarrow> 48 \<le> c \<and> c \<le> 57 \<or> 97 \<le> c \<and> c \<le> 102"

lemma show_hex_lower_hex: "c \<in> set (show_hex n) \<Longrightarrow> is_lower_hex c"
  by (auto simp: show_hex_def hex_digit_def is_lower_hex_def dest: digits_of_less [rotated])

lemma is_lower_hex_not_whitespace: "is_lower_hex c \<Longrightarrow> \<not> is_whitespace c"
  by (auto simp: is_lower_hex_def is_whitespace_def)

text \<open>
  \<open>FromStr\<close> of the unsigned integers: an optional \<open>+\<close>, then at least one decimal digit,
  and a value that fits the type.
\<close>

definition is_digit :: "uchar \<Rightarrow> bool" where
  "is_digit c \<longleftrightarrow> 48 \<le> c \<and> c \<le> 57"

definition parse_unsigned :: "nat \<Rightarrow> str \<Rightarrow> nat option" where
  "parse_unsigned maximum s =
     (let ds = (case s of c # r \<Rightarrow> if c = 43 \<and> r \<noteq> [] then r else s | [] \<Rightarrow> [])
      in if ds \<noteq> [] \<and> list_all is_digit ds \<and> value_of 10 (map (\<lambda>c. c - 48) ds) \<le> maximum
         then Some (value_of 10 (map (\<lambda>c. c - 48) ds)) else None)"

lemma parse_unsigned_le: "parse_unsigned m s = Some n \<Longrightarrow> n \<le> m"
  by (auto simp: parse_unsigned_def Let_def split: if_splits)

lemma parse_unsigned_show [simp]: "n \<le> m \<Longrightarrow> parse_unsigned m (show_nat n) = Some n"
proof -
  assume le: "n \<le> m"
  have digit: "list_all is_digit (show_nat n)"
    by (auto simp: show_nat_def list_all_iff is_digit_def dest!: digits_of_less [rotated])
  then have "show_nat n \<noteq> [] \<and> hd (show_nat n) \<noteq> 43"
    by (cases "show_nat n") (auto simp: show_nat_def is_digit_def)
  then obtain c r where cr: "show_nat n = c # r" and c: "c \<noteq> 43"
    by (cases "show_nat n") auto
  have "value_of 10 (map (\<lambda>c. c - 48) (show_nat n)) = n"
    by (simp add: show_nat_def comp_def)
  with digit le cr c show ?thesis
    by (simp add: parse_unsigned_def Let_def)
qed

end
