(* ===== verification/Circuit_Breaker.thy ===== *)
theory Circuit_Breaker
  imports Sliding_Window Rust_Str
begin

text \<open>
  The three-state circuit breaker of \<^verbatim>\<open>xai-circuit-breaker\<close>
  (\<^verbatim>\<open>state.rs\<close>, \<^verbatim>\<open>config.rs\<close> presets, \<^verbatim>\<open>breaker.rs\<close>, \<^verbatim>\<open>registry.rs\<close>), as one caller
  runs it: each method is a function on the record of the shared inner state, written access by
  access (loads, stores, \<open>fetch_add\<close>, \<open>compare_exchange\<close>), so that the lost-race branches are
  present too. The injected clock is the parameter \<open>clk\<close>: reading number \<open>i\<close> returns
  \<open>clk i\<close>. \<open>earliest\<close> is the platform's earliest representable instant. The calls made to the
  installed observer are appended to \<open>observed\<close>.
\<close>

subsection \<open>States, outcomes, configuration\<close>

datatype BreakerState = Closed | Open | HalfOpen

datatype Outcome = Success | Failure

record BreakerOpen =
  retry_after :: duration

fun BreakerState_as_u8 :: "BreakerState \<Rightarrow> u8" where
  "BreakerState_as_u8 Closed = 0"
| "BreakerState_as_u8 Open = 1"
| "BreakerState_as_u8 HalfOpen = 2"

definition BreakerState_from_u8 :: "u8 \<Rightarrow> BreakerState" where
  "BreakerState_from_u8 v =
     (if v = 0 then Closed else if v = 1 then Open else if v = 2 then HalfOpen else Closed)"

lemma from_u8_as_u8 [simp]: "BreakerState_from_u8 (BreakerState_as_u8 s) = s"
  by (cases s) (simp_all add: BreakerState_from_u8_def)

lemma as_u8_inject [simp]: "BreakerState_as_u8 s = BreakerState_as_u8 t \<longleftrightarrow> s = t"
  by (metis from_u8_as_u8)

declare BreakerState_as_u8.simps [simp del]

record BreakerConfig =
  window_duration :: duration
  min_samples :: nat
  error_rate_threshold :: f64
  open_duration :: duration
  half_open_max_probes :: usize
  failure_codes :: "u16 set"
  enabled :: bool

definition default_failure_codes :: "u16 set" where
  "default_failure_codes = {429, 500, 502, 503, 504}"

definition BreakerConfig_server :: BreakerConfig where
  "BreakerConfig_server =
     \<lparr>window_duration = from_secs 60, min_samples = 10, error_rate_threshold = f64_half,
      open_duration = from_secs 10, half_open_max_probes = 1,
      failure_codes = default_failure_codes, enabled = True\<rparr>"

definition BreakerConfig_client :: BreakerConfig where
  "BreakerConfig_client =
     \<lparr>window_duration = from_secs 60, min_samples = 5, error_rate_threshold = f64_half,
      open_duration = from_secs 60, half_open_max_probes = 1,
      failure_codes = {401}, enabled = True\<rparr>"

definition BreakerConfig_is_failure_status :: "BreakerConfig \<Rightarrow> u16 \<Rightarrow> bool" where
  "BreakerConfig_is_failure_status c status \<longleftrightarrow> status \<in> failure_codes c"

datatype ObserverCall =
    OnStateChange BreakerState BreakerState string
  | OnProbeAdmission bool
  | OnOutcome Outcome BreakerState

record CircuitBreaker =
  config :: BreakerConfig
  state_u8 :: u8
  baseline :: instant
  opened_at_millis :: u64
  half_open_probes :: usize
  probe_claimed_at_millis :: u64
  is_open_fast :: bool
  window :: SlidingWindow
  clock_reads :: nat
  observed :: "ObserverCall list"

type_synonym clock = "nat \<Rightarrow> instant"

subsection \<open>Construction and primitive accesses\<close>

definition CircuitBreaker_with_clock :: "clock \<Rightarrow> BreakerConfig \<Rightarrow> CircuitBreaker" where
  "CircuitBreaker_with_clock clk c =
     \<lparr>config = c\<lparr>half_open_max_probes := max (half_open_max_probes c) 1\<rparr>,
      state_u8 = BreakerState_as_u8 Closed, baseline = clk 0, opened_at_millis = 0,
      half_open_probes = 0, probe_claimed_at_millis = 0, is_open_fast = False,
      window = SlidingWindow_new, clock_reads = 1, observed = []\<rparr>"

definition clock_now :: "clock \<Rightarrow> CircuitBreaker \<Rightarrow> instant \<times> CircuitBreaker" where
  "clock_now clk cb = (clk (clock_reads cb), cb\<lparr>clock_reads := Suc (clock_reads cb)\<rparr>)"

definition notify :: "ObserverCall \<Rightarrow> CircuitBreaker \<Rightarrow> CircuitBreaker" where
  "notify c cb = cb\<lparr>observed := observed cb @ [c]\<rparr>"

definition CircuitBreaker_state :: "CircuitBreaker \<Rightarrow> BreakerState" where
  "CircuitBreaker_state cb = BreakerState_from_u8 (state_u8 cb)"

definition CircuitBreaker_is_open :: "CircuitBreaker \<Rightarrow> bool" where
  "CircuitBreaker_is_open cb = is_open_fast cb"

definition elapsed_millis :: "clock \<Rightarrow> CircuitBreaker \<Rightarrow> u64 \<times> CircuitBreaker" where
  "elapsed_millis clk cb =
     (let (now, cb1) = clock_now clk cb
      in (as_millis_u64 (saturating_duration_since now (baseline cb1)), cb1))"

text \<open>\<open>compare_exchange\<close> on a cell: whether it succeeded, and the cell's new value.\<close>

definition compare_exchange :: "'a \<Rightarrow> 'a \<Rightarrow> 'a \<Rightarrow> bool \<times> 'a" where
  "compare_exchange current expected new =
     (if current = expected then (True, new) else (False, current))"

definition cas_state :: "BreakerState \<Rightarrow> BreakerState \<Rightarrow> CircuitBreaker \<Rightarrow> bool \<times> CircuitBreaker" where
  "cas_state from to cb =
     (let (ok, v) = compare_exchange (state_u8 cb) (BreakerState_as_u8 from) (BreakerState_as_u8 to)
      in (ok, cb\<lparr>state_u8 := v\<rparr>))"

subsection \<open>Transitions\<close>

definition trip :: "clock \<Rightarrow> BreakerState \<Rightarrow> string \<Rightarrow> CircuitBreaker \<Rightarrow> CircuitBreaker" where
  "trip clk prev reason cb =
     (let cb1 = cb\<lparr>state_u8 := BreakerState_as_u8 Open\<rparr>;
          (ms, cb2) = elapsed_millis clk cb1;
          cb3 = cb2\<lparr>opened_at_millis := ms, half_open_probes := 0, is_open_fast := True\<rparr>
      in if prev \<noteq> Open then notify (OnStateChange prev Open reason) cb3 else cb3)"

definition close :: "BreakerState \<Rightarrow> string \<Rightarrow> CircuitBreaker \<Rightarrow> CircuitBreaker" where
  "close prev reason cb =
     (let cb1 = cb\<lparr>state_u8 := BreakerState_as_u8 Closed,
                   window := SlidingWindow_clear (window cb),
                   half_open_probes := 0, is_open_fast := False\<rparr>
      in if prev \<noteq> Closed then notify (OnStateChange prev Closed reason) cb1 else cb1)"

definition HALF_OPEN_PROBE_BACKOFF :: duration where
  "HALF_OPEN_PROBE_BACKOFF = from_millis 50"

definition try_half_open_probe ::
    "clock \<Rightarrow> CircuitBreaker \<Rightarrow> (BreakerOpen + unit) \<times> CircuitBreaker" where
  "try_half_open_probe clk cb =
     (let (now, cb1) = elapsed_millis clk cb;
          prev = half_open_probes cb1;
          cb2 = cb1\<lparr>half_open_probes := prev + 1\<rparr>
      in if prev < half_open_max_probes (config cb2)
         then (Inr (), notify (OnProbeAdmission True) (cb2\<lparr>probe_claimed_at_millis := now\<rparr>))
         else let cb3 = cb2\<lparr>half_open_probes := half_open_probes cb2 - 1\<rparr>;
                  lease_millis = as_millis_u64 (open_duration (config cb3));
                  claimed = probe_claimed_at_millis cb3;
                  (ok, v) = compare_exchange (probe_claimed_at_millis cb3) claimed now
              in if lease_millis \<le> saturating_sub now claimed \<and> ok
                 then (Inr (), notify (OnProbeAdmission True) (cb3\<lparr>probe_claimed_at_millis := v\<rparr>))
                 else (Inl \<lparr>retry_after = min HALF_OPEN_PROBE_BACKOFF (open_duration (config cb3))\<rparr>,
                       notify (OnProbeAdmission False) cb3))"

definition check_open ::
    "clock \<Rightarrow> CircuitBreaker \<Rightarrow> (BreakerOpen + unit) \<times> CircuitBreaker" where
  "check_open clk cb =
     (let opened = opened_at_millis cb;
          (now, cb1) = elapsed_millis clk cb;
          elapsed = from_millis (saturating_sub now opened)
      in if open_duration (config cb1) \<le> elapsed
         then let (ok, cb2) = cas_state Open HalfOpen cb1
              in if ok
                 then try_half_open_probe clk
                        (notify (OnStateChange Open HalfOpen ''open_elapsed'')
                          (cb2\<lparr>is_open_fast := False\<rparr>))
                 else (case CircuitBreaker_state cb2 of
                         Closed \<Rightarrow> (Inr (), cb2)
                       | HalfOpen \<Rightarrow> try_half_open_probe clk cb2
                       | Open \<Rightarrow>
                           let opened2 = opened_at_millis cb2;
                               (now2, cb3) = elapsed_millis clk cb2;
                               elapsed2 = from_millis (saturating_sub now2 opened2)
                           in (Inl \<lparr>retry_after = open_duration (config cb3) - elapsed2\<rparr>, cb3))
         else (Inl \<lparr>retry_after = open_duration (config cb1) - elapsed\<rparr>, cb1))"

definition CircuitBreaker_check ::
    "clock \<Rightarrow> CircuitBreaker \<Rightarrow> (BreakerOpen + unit) \<times> CircuitBreaker" where
  "CircuitBreaker_check clk cb =
     (if \<not> enabled (config cb) then (Inr (), cb)
      else case CircuitBreaker_state cb of
             Closed \<Rightarrow> (Inr (), cb)
           | Open \<Rightarrow> check_open clk cb
           | HalfOpen \<Rightarrow> try_half_open_probe clk cb)"

definition push_and_evict :: "instant \<Rightarrow> bool \<Rightarrow> instant \<Rightarrow> CircuitBreaker \<Rightarrow> CircuitBreaker" where
  "push_and_evict earliest is_failure now cb =
     cb\<lparr>window := SlidingWindow_evict earliest (window_duration (config cb)) now
                    (SlidingWindow_push is_failure now (window cb))\<rparr>"

definition should_trip :: "CircuitBreaker \<Rightarrow> bool" where
  "should_trip cb \<longleftrightarrow>
     min_samples (config cb) \<le> SlidingWindow_sample_count (window cb) \<and>
     f64_ge (SlidingWindow_error_rate (window cb)) (error_rate_threshold (config cb))"

definition CircuitBreaker_record ::
    "instant \<Rightarrow> clock \<Rightarrow> Outcome \<Rightarrow> CircuitBreaker \<Rightarrow> CircuitBreaker" where
  "CircuitBreaker_record earliest clk outcome cb =
     (if \<not> enabled (config cb) then cb
      else let is_failure = (outcome = Failure);
               (now, cb1) = clock_now clk cb;
               prev_state = CircuitBreaker_state cb1;
               cb3 = (case prev_state of
                        Closed \<Rightarrow>
                          let cb2 = push_and_evict earliest is_failure now cb1
                          in if should_trip cb2 then trip clk prev_state ''trip'' cb2 else cb2
                      | HalfOpen \<Rightarrow>
                          if is_failure then trip clk prev_state ''probe_failure'' cb1
                          else close prev_state ''probe_success'' cb1
                      | Open \<Rightarrow> push_and_evict earliest is_failure now cb1)
           in notify (OnOutcome outcome (CircuitBreaker_state cb3)) cb3)"

definition CircuitBreaker_error_rate ::
    "instant \<Rightarrow> clock \<Rightarrow> CircuitBreaker \<Rightarrow> f64 \<times> CircuitBreaker" where
  "CircuitBreaker_error_rate earliest clk cb =
     (let (now, cb1) = clock_now clk cb;
          cb2 = cb1\<lparr>window := SlidingWindow_evict earliest (window_duration (config cb1)) now
                                (window cb1)\<rparr>
      in (SlidingWindow_error_rate (window cb2), cb2))"

definition force_half_open :: "CircuitBreaker \<Rightarrow> CircuitBreaker" where
  "force_half_open cb =
     (let prev = CircuitBreaker_state cb;
          cb1 = cb\<lparr>state_u8 := BreakerState_as_u8 HalfOpen, is_open_fast := False,
                   half_open_probes := 0\<rparr>
      in if prev \<noteq> HalfOpen
         then notify (OnStateChange prev HalfOpen ''force_half_open'') cb1 else cb1)"

subsection \<open>Runs\<close>

datatype BreakerOp = Check | Record Outcome | ErrorRate

fun breaker_step :: "instant \<Rightarrow> clock \<Rightarrow> BreakerOp \<Rightarrow> CircuitBreaker \<Rightarrow> CircuitBreaker" where
  "breaker_step earliest clk Check cb = snd (CircuitBreaker_check clk cb)"
| "breaker_step earliest clk (Record r) cb = CircuitBreaker_record earliest clk r cb"
| "breaker_step earliest clk ErrorRate cb = snd (CircuitBreaker_error_rate earliest clk cb)"

definition breaker_run ::
    "instant \<Rightarrow> clock \<Rightarrow> BreakerOp list \<Rightarrow> CircuitBreaker \<Rightarrow> CircuitBreaker" where
  "breaker_run earliest clk ops cb = fold (breaker_step earliest clk) ops cb"

subsection \<open>The registry\<close>

text \<open>
  The registry hands out clones of an \<open>Arc\<close>: a key is bound to the address of a shared breaker,
  and the breakers live in a store.
\<close>

record CircuitBreakerRegistry =
  reg_config :: BreakerConfig
  breakers :: "str \<rightharpoonup> nat"
  store :: "CircuitBreaker list"

definition CircuitBreakerRegistry_new :: "BreakerConfig \<Rightarrow> CircuitBreakerRegistry" where
  "CircuitBreakerRegistry_new c = \<lparr>reg_config = c, breakers = Map.empty, store = []\<rparr>"

definition CircuitBreakerRegistry_get ::
    "clock \<Rightarrow> str \<Rightarrow> CircuitBreakerRegistry \<Rightarrow> nat option \<times> CircuitBreakerRegistry" where
  "CircuitBreakerRegistry_get clk key reg =
     (if \<not> enabled (reg_config reg) then (None, reg)
      else case breakers reg key of
             Some cb \<Rightarrow> (Some cb, reg)
           | None \<Rightarrow>
               let cb = length (store reg)
               in (Some cb,
                   reg\<lparr>breakers := (breakers reg)(key \<mapsto> cb),
                       store := store reg @ [CircuitBreaker_with_clock clk (reg_config reg)]\<rparr>))"

subsection \<open>Evaluation lemmas\<close>

named_theorems cb_simps "field-wise evaluation of the breaker's accesses"

definition reading :: "clock \<Rightarrow> CircuitBreaker \<Rightarrow> u64" where
  "reading clk cb =
     as_millis_u64 (saturating_duration_since (clk (clock_reads cb)) (baseline cb))"

definition tick :: "CircuitBreaker \<Rightarrow> CircuitBreaker" where
  "tick cb = cb\<lparr>clock_reads := Suc (clock_reads cb)\<rparr>"

lemma elapsed_millis_eq: "elapsed_millis clk cb = (reading clk cb, tick cb)"
  by (simp add: elapsed_millis_def clock_now_def reading_def tick_def)

lemma clock_now_eq: "clock_now clk cb = (clk (clock_reads cb), tick cb)"
  by (simp add: clock_now_def tick_def)

lemma cas_state_eq [cb_simps]:
  "cas_state from to cb =
     (if state_u8 cb = BreakerState_as_u8 from
      then (True, cb\<lparr>state_u8 := BreakerState_as_u8 to\<rparr>) else (False, cb))"
  by (simp add: cas_state_def compare_exchange_def)

lemmas [cb_simps] = elapsed_millis_eq clock_now_eq tick_def notify_def CircuitBreaker_state_def
  compare_exchange_def Let_def

lemma state_frame [simp]:
  "CircuitBreaker_state (tick cb) = CircuitBreaker_state cb"
  "CircuitBreaker_state (notify c cb) = CircuitBreaker_state cb"
  "CircuitBreaker_state (cb\<lparr>state_u8 := BreakerState_as_u8 s\<rparr>) = s"
  "CircuitBreaker_state (cb\<lparr>is_open_fast := b\<rparr>) = CircuitBreaker_state cb"
  "CircuitBreaker_state (cb\<lparr>half_open_probes := p\<rparr>) = CircuitBreaker_state cb"
  "CircuitBreaker_state (cb\<lparr>probe_claimed_at_millis := u\<rparr>) = CircuitBreaker_state cb"
  "CircuitBreaker_state (cb\<lparr>opened_at_millis := u\<rparr>) = CircuitBreaker_state cb"
  "CircuitBreaker_state (cb\<lparr>window := w\<rparr>) = CircuitBreaker_state cb"
  by (simp_all add: cb_simps)

lemma reading_update [simp]:
  "reading clk (cb\<lparr>state_u8 := a\<rparr>) = reading clk cb"
  "reading clk (cb\<lparr>is_open_fast := b\<rparr>) = reading clk cb"
  "reading clk (cb\<lparr>observed := c\<rparr>) = reading clk cb"
  "reading clk (cb\<lparr>half_open_probes := p\<rparr>) = reading clk cb"
  by (simp_all add: reading_def)

lemma word_inc_le: "(p :: usize) < m \<Longrightarrow> p + 1 \<le> m"
  by (rule inc_le)

text \<open>The three ways a probe request ends.\<close>

definition probe_fresh :: "CircuitBreaker \<Rightarrow> bool" where
  "probe_fresh cb \<longleftrightarrow> half_open_probes cb < half_open_max_probes (config cb)"

definition lease_expired :: "clock \<Rightarrow> CircuitBreaker \<Rightarrow> bool" where
  "lease_expired clk cb \<longleftrightarrow>
     as_millis_u64 (open_duration (config cb)) \<le>
       saturating_sub (reading clk cb) (probe_claimed_at_millis cb)"

lemma try_half_open_probe_cases:
  "try_half_open_probe clk cb =
     (if probe_fresh cb
      then (Inr (), notify (OnProbeAdmission True)
             ((tick cb)\<lparr>half_open_probes := half_open_probes cb + 1,
                        probe_claimed_at_millis := reading clk cb\<rparr>))
      else if lease_expired clk cb
      then (Inr (), notify (OnProbeAdmission True)
             ((tick cb)\<lparr>probe_claimed_at_millis := reading clk cb\<rparr>))
      else (Inl \<lparr>retry_after = min HALF_OPEN_PROBE_BACKOFF (open_duration (config cb))\<rparr>,
            notify (OnProbeAdmission False) (tick cb)))"
  by (simp add: try_half_open_probe_def probe_fresh_def lease_expired_def cb_simps)

definition cooled_down :: "clock \<Rightarrow> CircuitBreaker \<Rightarrow> bool" where
  "cooled_down clk cb \<longleftrightarrow>
     open_duration (config cb) \<le>
       from_millis (saturating_sub (reading clk cb) (opened_at_millis cb))"

text \<open>Run by one caller, the compare-and-swap of \<open>check_open\<close> never loses.\<close>

lemma check_open_cases:
  assumes "state_u8 cb = BreakerState_as_u8 Open"
  shows "check_open clk cb =
     (if cooled_down clk cb
      then try_half_open_probe clk
             (notify (OnStateChange Open HalfOpen ''open_elapsed'')
               ((tick cb)\<lparr>state_u8 := BreakerState_as_u8 HalfOpen, is_open_fast := False\<rparr>))
      else (Inl \<lparr>retry_after = open_duration (config cb) -
                    from_millis (saturating_sub (reading clk cb) (opened_at_millis cb))\<rparr>, tick cb))"
  using assms by (simp add: check_open_def cooled_down_def cb_simps)

subsection \<open>The invariant\<close>

definition breaker_inv :: "CircuitBreaker \<Rightarrow> bool" where
  "breaker_inv cb \<longleftrightarrow>
     window_inv (window cb) \<and>
     state_u8 cb = BreakerState_as_u8 (CircuitBreaker_state cb) \<and>
     (is_open_fast cb \<longleftrightarrow> CircuitBreaker_state cb = Open) \<and>
     1 \<le> half_open_max_probes (config cb) \<and>
     half_open_probes cb \<le> half_open_max_probes (config cb) \<and>
     (CircuitBreaker_state cb \<noteq> HalfOpen \<longrightarrow> half_open_probes cb = 0)"

lemma inv_with_clock: "breaker_inv (CircuitBreaker_with_clock clk c)"
  by (simp add: breaker_inv_def CircuitBreaker_with_clock_def CircuitBreaker_state_def)

lemma inv_notify [simp]: "breaker_inv (notify c cb) = breaker_inv cb"
  by (simp add: breaker_inv_def cb_simps)

lemma inv_tick [simp]: "breaker_inv (tick cb) = breaker_inv cb"
  by (simp add: breaker_inv_def cb_simps)

lemma inv_claimed [simp]: "breaker_inv (cb\<lparr>probe_claimed_at_millis := v\<rparr>) = breaker_inv cb"
  by (simp add: breaker_inv_def cb_simps)

lemma inv_probe:
  assumes "breaker_inv cb" and "CircuitBreaker_state cb = HalfOpen"
  shows "breaker_inv (snd (try_half_open_probe clk cb))"
proof -
  have "breaker_inv (cb\<lparr>half_open_probes := half_open_probes cb + 1\<rparr>)" if "probe_fresh cb"
    using assms that word_inc_le
    by (simp add: breaker_inv_def probe_fresh_def CircuitBreaker_state_def)
  then show ?thesis
    using assms by (simp add: try_half_open_probe_cases tick_def breaker_inv_def cb_simps)
qed

lemma inv_half_opened:
  "breaker_inv cb \<Longrightarrow> CircuitBreaker_state cb = Open \<Longrightarrow>
     breaker_inv (cb\<lparr>state_u8 := BreakerState_as_u8 HalfOpen, is_open_fast := False\<rparr>)"
  by (simp add: breaker_inv_def CircuitBreaker_state_def)

lemma inv_state_u8: "breaker_inv cb \<Longrightarrow> state_u8 cb = BreakerState_as_u8 (CircuitBreaker_state cb)"
  by (simp add: breaker_inv_def)

lemma inv_check_open:
  assumes inv: "breaker_inv cb" and st: "CircuitBreaker_state cb = Open"
  shows "breaker_inv (snd (check_open clk cb))"
proof -
  define cb' where "cb' = (tick cb)\<lparr>state_u8 := BreakerState_as_u8 HalfOpen, is_open_fast := False\<rparr>"
  have "breaker_inv cb'"
    unfolding cb'_def using inv st by (intro inv_half_opened) simp_all
  moreover have "CircuitBreaker_state (notify c cb') = HalfOpen" for c
    by (simp add: cb'_def cb_simps)
  ultimately show ?thesis
    using inv inv_state_u8 [OF inv] st
    by (simp add: check_open_cases cb'_def [symmetric] inv_probe)
qed

lemma inv_check: "breaker_inv cb \<Longrightarrow> breaker_inv (snd (CircuitBreaker_check clk cb))"
  by (simp add: CircuitBreaker_check_def inv_probe inv_check_open split: BreakerState.split)

lemma inv_push_and_evict:
  "breaker_inv cb \<Longrightarrow> breaker_inv (push_and_evict earliest b now cb)"
  by (simp add: breaker_inv_def push_and_evict_def CircuitBreaker_state_def
      window_inv_push window_inv_evict)

lemma inv_trip: "breaker_inv cb \<Longrightarrow> breaker_inv (trip clk prev reason cb)"
  by (simp add: trip_def breaker_inv_def cb_simps)

lemma inv_close: "breaker_inv cb \<Longrightarrow> breaker_inv (close prev reason cb)"
  by (simp add: close_def breaker_inv_def cb_simps)

lemma inv_record: "breaker_inv cb \<Longrightarrow> breaker_inv (CircuitBreaker_record earliest clk r cb)"
  by (simp add: CircuitBreaker_record_def clock_now_eq Let_def inv_push_and_evict inv_trip inv_close
      split: BreakerState.split)

lemma inv_error_rate:
  "breaker_inv cb \<Longrightarrow> breaker_inv (snd (CircuitBreaker_error_rate earliest clk cb))"
  by (simp add: CircuitBreaker_error_rate_def breaker_inv_def cb_simps window_inv_evict)

lemma inv_force_half_open: "breaker_inv cb \<Longrightarrow> breaker_inv (force_half_open cb)"
  by (simp add: force_half_open_def breaker_inv_def cb_simps)

lemma inv_step: "breaker_inv cb \<Longrightarrow> breaker_inv (breaker_step earliest clk x cb)"
  by (cases x) (simp_all add: inv_check inv_record inv_error_rate)

lemma inv_run: "breaker_inv cb \<Longrightarrow> breaker_inv (breaker_run earliest clk ops cb)"
  by (induction ops arbitrary: cb) (simp_all add: breaker_run_def inv_step)

subsection \<open>Tripping\<close>

lemma should_trip_half:
  assumes "window_inv (window cb)" and "entries (window cb) \<noteq> []"
    and "error_rate_threshold (config cb) = f64_half"
  shows "should_trip cb \<longleftrightarrow>
    min_samples (config cb) \<le> length (entries (window cb)) \<and>
    length (entries (window cb)) \<le> 2 * failure_count (entries (window cb))"
proof -
  have "f64_ge (rate_spec (entries (window cb))) f64_half \<longleftrightarrow>
      length (entries (window cb)) \<le> 2 * failure_count (entries (window cb))"
    using assms failure_count_le_length [of "entries (window cb)"]
    by (simp add: rate_spec_def f64_half_exact code_window.bounded)
  then show ?thesis
    using assms code_window.trip_test [OF assms(1)] by (simp add: should_trip_def)
qed

lemma state_trip [simp]: "CircuitBreaker_state (trip clk prev reason cb) = Open"
  by (simp add: trip_def Let_def elapsed_millis_eq)

lemma state_close [simp]: "CircuitBreaker_state (close prev reason cb) = Closed"
  by (simp add: close_def Let_def)

lemma record_Closed:
  assumes "enabled (config cb)" and "CircuitBreaker_state cb = Closed"
  shows "CircuitBreaker_state (CircuitBreaker_record earliest clk r cb) =
    (if should_trip (push_and_evict earliest (r = Failure) (clk (clock_reads cb)) (tick cb))
     then Open else Closed)"
  using assms
  by (simp add: CircuitBreaker_record_def clock_now_eq Let_def push_and_evict_def)

text \<open>
  C14: With the threshold \<open>0.5\<close> of both presets, recording an outcome on a closed breaker opens
  it exactly when the live window, after the new sample is added and expired ones are evicted,
  holds at least \<open>min_samples\<close> samples of which at least half are failures; otherwise it stays
  closed. The binary64 comparison of the code never misjudges the ratio.
\<close>

theorem breaker_trips_iff:
  assumes "breaker_inv cb" and "enabled (config cb)" and "CircuitBreaker_state cb = Closed"
    and "error_rate_threshold (config cb) = f64_half"
    and xs: "xs = evict_spec earliest (window_duration (config cb)) (clk (clock_reads cb))
                    (push_spec (clk (clock_reads cb), r = Failure) (entries (window cb)))"
  shows "CircuitBreaker_state (CircuitBreaker_record earliest clk r cb) =
    (if min_samples (config cb) \<le> length xs \<and> length xs \<le> 2 * failure_count xs
     then Open else Closed)"
proof -
  define t where "t = clk (clock_reads cb)"
  define cb' where "cb' = push_and_evict earliest (r = Failure) t (tick cb)"
  have inv: "window_inv (window cb)"
    using assms(1) by (simp add: breaker_inv_def)
  have w: "window cb' = SlidingWindow_evict earliest (window_duration (config cb)) t
      (SlidingWindow_push (r = Failure) t (window cb))" and c: "config cb' = config cb"
    by (simp_all add: cb'_def push_and_evict_def tick_def)
  have "entries (window cb') = xs"
    by (simp add: w xs t_def code_window.samples_record [OF inv])
  moreover have "window_inv (window cb')"
    unfolding w by (rule code_window.inv_after_record [OF inv])
  moreover have "entries (window cb') \<noteq> []"
    unfolding w using code_window.fresh_sample_kept [OF inv] by (metis empty_iff list.set(1))
  ultimately show ?thesis
    using should_trip_half [of cb'] record_Closed [OF assms(2,3), of earliest clk r] assms(4) c
    by (simp add: cb'_def t_def)
qed

text \<open>A server breaker with five successes and four failures: one more failure trips it.\<close>

definition server_example :: CircuitBreaker where
  "server_example =
     (CircuitBreaker_with_clock (\<lambda>_. 0) BreakerConfig_server)
       \<lparr>window := \<lparr>entries = [(0, False), (0, False), (0, False), (0, False), (0, False), (0, True), (0, True), (0, True), (0, True)],
                   failures = 4\<rparr>\<rparr>"

lemma server_example_inv: "breaker_inv server_example"
  by (simp add: server_example_def breaker_inv_def CircuitBreaker_with_clock_def window_inv_def
      BreakerConfig_server_def CircuitBreaker_state_def MAX_WINDOW_ENTRIES_def)

theorem breaker_trips_iff_witness:
  "CircuitBreaker_state (CircuitBreaker_record 0 (\<lambda>_. 0) Failure server_example) = Open"
proof -
  have cfg: "enabled (config server_example)" "CircuitBreaker_state server_example = Closed"
      "error_rate_threshold (config server_example) = f64_half" "min_samples (config server_example) = 10"
    by (simp_all add: server_example_def CircuitBreaker_with_clock_def BreakerConfig_server_def
        CircuitBreaker_state_def)
  have "\<not> (0 :: int) \<le> - int (window_duration (config server_example))"
    by (simp add: server_example_def CircuitBreaker_with_clock_def BreakerConfig_server_def
        from_secs_def)
  then have xs: "evict_spec 0 (window_duration (config server_example)) 0
      (push_spec (0, True) (entries (window server_example))) =
      [(0, False), (0, False), (0, False), (0, False), (0, False), (0, True), (0, True), (0, True), (0, True), (0, True)]"
    by (simp add: evict_spec_def push_spec_def server_example_def CircuitBreaker_with_clock_def
        MAX_WINDOW_ENTRIES_def)
  show ?thesis
    using breaker_trips_iff [OF server_example_inv cfg(1,2,3) refl, of 0 "\<lambda>_. 0" Failure] xs cfg(4)
    by simp
qed

subsection \<open>Shedding and recovery, in clock time\<close>

definition millis_at :: "clock \<Rightarrow> CircuitBreaker \<Rightarrow> nat \<Rightarrow> u64" where
  "millis_at clk cb i = as_millis_u64 (saturating_duration_since (clk i) (baseline cb))"

lemma reading_millis_at: "reading clk cb = millis_at clk cb (clock_reads cb)"
  by (simp add: reading_def millis_at_def)

lemma unat_millis_at:
  assumes "clk i - baseline cb < 2 ^ 64 * 1000000"
  shows "unat (millis_at clk cb i) = nat (clk i - baseline cb) div 1000000"
proof -
  have "nat (clk i - baseline cb) div 1000000 < 2 ^ 64"
    using assms by (intro less_mult_imp_div_less) simp
  then show ?thesis
    by (simp add: millis_at_def as_millis_u64_def saturating_duration_since_def unat_of_nat
        take_bit_eq_mod)
qed

text \<open>
  Millisecond truncation does not lose a whole-millisecond cool-down, and never grants one
  a full millisecond early.
\<close>

lemma elapsed_ge:
  assumes "baseline cb \<le> clk i" and "clk j - baseline cb < 2 ^ 64 * 1000000"
    and "clk i + int (k * 1000000) \<le> clk j"
  shows "k \<le> unat (saturating_sub (millis_at clk cb j) (millis_at clk cb i))"
proof -
  define a where "a = nat (clk i - baseline cb)"
  define b where "b = nat (clk j - baseline cb)"
  have ij: "clk i \<le> clk j" using assms(3) by linarith
  then have "clk i - baseline cb < 2 ^ 64 * 1000000"
    using assms(2) by linarith
  then have u: "unat (saturating_sub (millis_at clk cb j) (millis_at clk cb i)) =
      b div 1000000 - a div 1000000"
    using assms(2) by (simp add: unat_saturating_sub unat_millis_at a_def b_def)
  have "a + k * 1000000 \<le> b"
    using assms(1,3) ij by (simp add: a_def b_def)
  then show ?thesis unfolding u by linarith
qed

lemma elapsed_less:
  assumes "clk i \<le> clk j" and "clk j - baseline cb < 2 ^ 64 * 1000000"
    and "clk j + 1000000 \<le> clk i + int (k * 1000000)"
  shows "unat (saturating_sub (millis_at clk cb j) (millis_at clk cb i)) < k"
proof -
  define a where "a = nat (clk i - baseline cb)"
  define b where "b = nat (clk j - baseline cb)"
  have "clk i - baseline cb < 2 ^ 64 * 1000000"
    using assms(1,2) by linarith
  then have u: "unat (saturating_sub (millis_at clk cb j) (millis_at clk cb i)) =
      b div 1000000 - a div 1000000"
    using assms(2) by (simp add: unat_saturating_sub unat_millis_at a_def b_def)
  have "b + 1000000 \<le> a + k * 1000000" and "a \<le> b"
    using assms(1,3) by (simp_all add: a_def b_def)
  then show ?thesis unfolding u by linarith
qed

lemma unat_as_millis: "k < 2 ^ 64 \<Longrightarrow> unat (as_millis_u64 (k * 1000000)) = k"
  by (simp add: as_millis_u64_def unat_of_nat take_bit_eq_mod)

lemma cooled_down_iff:
  "open_duration (config cb) = k * 1000000 \<Longrightarrow>
     cooled_down clk cb \<longleftrightarrow> k \<le> unat (saturating_sub (reading clk cb) (opened_at_millis cb))"
  by (simp add: cooled_down_def from_millis_def)

lemma lease_expired_iff:
  "open_duration (config cb) = k * 1000000 \<Longrightarrow> k < 2 ^ 64 \<Longrightarrow>
     lease_expired clk cb \<longleftrightarrow> k \<le> unat (saturating_sub (reading clk cb) (probe_claimed_at_millis cb))"
  by (simp add: lease_expired_def word_le_nat_alt unat_as_millis)

lemma probe_admitted:
  "probe_fresh cb \<or> lease_expired clk cb \<Longrightarrow> fst (try_half_open_probe clk cb) = Inr ()"
  by (auto simp: try_half_open_probe_cases)

lemma state_probe [simp]: "CircuitBreaker_state (snd (try_half_open_probe clk cb)) = CircuitBreaker_state cb"
  by (auto simp: try_half_open_probe_cases CircuitBreaker_state_def notify_def tick_def)

text \<open>
  An open breaker sheds traffic for its whole cool-down and recovers after it. Let the breaker
  have tripped at clock reading \<open>i\<close> and let the next reading \<open>j\<close> be that of a \<open>check\<close>, with a
  cool-down of whole milliseconds. If at least the cool-down has passed, the check is admitted as
  a probe and the breaker is half-open; if the cool-down ends at least one millisecond later, the
  check is rejected with a positive \<open>retry_after\<close> no larger than the cool-down and the breaker
  stays open.
\<close>

theorem open_breaker_cools_down:
  assumes "breaker_inv cb" and "enabled (config cb)" and "CircuitBreaker_state cb = Open"
    and "opened_at_millis cb = millis_at clk cb i" and "baseline cb \<le> clk i"
    and "clk i \<le> clk (clock_reads cb)" and "clk (clock_reads cb) - baseline cb < 2 ^ 64 * 1000000"
    and od: "open_duration (config cb) = k * 1000000"
  shows "(clk i + int (open_duration (config cb)) \<le> clk (clock_reads cb) \<longrightarrow>
            fst (CircuitBreaker_check clk cb) = Inr () \<and>
            CircuitBreaker_state (snd (CircuitBreaker_check clk cb)) = HalfOpen) \<and>
         (clk (clock_reads cb) + 1000000 \<le> clk i + int (open_duration (config cb)) \<longrightarrow>
            (\<exists>d. fst (CircuitBreaker_check clk cb) = Inl \<lparr>retry_after = d\<rparr> \<and>
                 0 < d \<and> d \<le> open_duration (config cb)) \<and>
            CircuitBreaker_state (snd (CircuitBreaker_check clk cb)) = Open)"
proof -
  define cb' where "cb' = notify (OnStateChange Open HalfOpen ''open_elapsed'')
    ((tick cb)\<lparr>state_u8 := BreakerState_as_u8 HalfOpen, is_open_fast := False\<rparr>)"
  have check: "CircuitBreaker_check clk cb = check_open clk cb"
    using assms(2,3) by (simp add: CircuitBreaker_check_def)
  note cases = check_open_cases [of cb clk, folded cb'_def]
  have st: "state_u8 cb = BreakerState_as_u8 Open"
    using inv_state_u8 [OF assms(1)] assms(3) by simp
  have "probe_fresh cb'"
    using assms(1,3)
    by (auto simp: cb'_def probe_fresh_def breaker_inv_def tick_def notify_def word_less_nat_alt
        word_le_nat_alt)
  then have fresh: "fst (try_half_open_probe clk cb') = Inr ()"
    by (simp add: probe_admitted)
  have half: "CircuitBreaker_state cb' = HalfOpen"
    by (simp add: cb'_def)
  show ?thesis
  proof (intro conjI impI)
    assume "clk i + int (open_duration (config cb)) \<le> clk (clock_reads cb)"
    then have "cooled_down clk cb"
      using elapsed_ge [of cb clk i "clock_reads cb" k] assms
      by (simp add: cooled_down_iff [OF od] reading_millis_at)
    with cases [OF st] fresh half show "fst (CircuitBreaker_check clk cb) = Inr ()"
      and "CircuitBreaker_state (snd (CircuitBreaker_check clk cb)) = HalfOpen"
      by (simp_all add: check)
  next
    assume "clk (clock_reads cb) + 1000000 \<le> clk i + int (open_duration (config cb))"
    then have "\<not> cooled_down clk cb"
      using elapsed_less [of clk i "clock_reads cb" cb k] assms
      by (simp add: cooled_down_iff [OF od] reading_millis_at not_le)
    with cases [OF st] assms(3)
    show "\<exists>d. fst (CircuitBreaker_check clk cb) = Inl \<lparr>retry_after = d\<rparr> \<and>
        0 < d \<and> d \<le> open_duration (config cb)"
      and "CircuitBreaker_state (snd (CircuitBreaker_check clk cb)) = Open"
      by (simp_all add: check cooled_down_def)
  qed
qed

text \<open>A server breaker tripped at its first reading, ten seconds before the next one.\<close>

definition tripped_example :: "clock \<Rightarrow> CircuitBreaker" where
  "tripped_example clk =
     trip clk Closed ''trip'' (CircuitBreaker_with_clock clk BreakerConfig_server)"

lemma tripped_example_facts:
  "breaker_inv (tripped_example clk)" "enabled (config (tripped_example clk))"
  "CircuitBreaker_state (tripped_example clk) = Open" "baseline (tripped_example clk) = clk 0"
  "opened_at_millis (tripped_example clk) = millis_at clk (tripped_example clk) 1"
  "clock_reads (tripped_example clk) = 2"
  "open_duration (config (tripped_example clk)) = 10000 * 1000000"
  by (simp_all add: tripped_example_def inv_trip inv_with_clock)
    (simp_all add: trip_def CircuitBreaker_with_clock_def BreakerConfig_server_def cb_simps
      millis_at_def reading_def from_secs_def)

theorem open_breaker_cools_down_witness:
  "fst (CircuitBreaker_check (\<lambda>i. if i < 2 then 0 else 10000000000)
          (tripped_example (\<lambda>i. if i < 2 then 0 else 10000000000))) = Inr ()"
proof -
  let ?clk = "\<lambda>i::nat. if i < 2 then 0 else (10000000000 :: int)"
  note ex = tripped_example_facts [of ?clk]
  show ?thesis
    using open_breaker_cools_down [OF ex(1,2,3,5) _ _ _ ex(7)] ex by simp
qed

text \<open>
  A lost probe cannot strand the breaker. Whenever the last probe slot was claimed at clock
  reading \<open>i\<close> and the cool-down has passed since, the next \<open>check\<close> on the half-open breaker is
  admitted, even if every slot is still held by callers that never recorded an outcome.
\<close>

theorem half_open_lease_recovers:
  assumes "enabled (config cb)" and "CircuitBreaker_state cb = HalfOpen"
    and "probe_claimed_at_millis cb = millis_at clk cb i" and "baseline cb \<le> clk i"
    and "clk (clock_reads cb) - baseline cb < 2 ^ 64 * 1000000"
    and od: "open_duration (config cb) = k * 1000000" and k: "k < 2 ^ 64"
    and "clk i + int (open_duration (config cb)) \<le> clk (clock_reads cb)"
  shows "fst (CircuitBreaker_check clk cb) = Inr ()"
proof -
  have "lease_expired clk cb"
    using elapsed_ge [of cb clk i "clock_reads cb" k] assms
    by (simp add: lease_expired_iff [OF od k] reading_millis_at)
  with assms(1,2) show ?thesis
    by (simp add: CircuitBreaker_check_def probe_admitted)
qed

theorem half_open_lease_recovers_witness:
  "fst (CircuitBreaker_check (\<lambda>i. if i = 0 then 0 else 60000000000)
          ((CircuitBreaker_with_clock (\<lambda>_. 0) BreakerConfig_client)
             \<lparr>state_u8 := BreakerState_as_u8 HalfOpen, half_open_probes := 1\<rparr>)) = Inr ()"
proof -
  let ?clk = "\<lambda>i::nat. if i = 0 then 0 else (60000000000 :: int)"
  let ?cb = "(CircuitBreaker_with_clock (\<lambda>_. 0) BreakerConfig_client)
      \<lparr>state_u8 := BreakerState_as_u8 HalfOpen, half_open_probes := 1\<rparr>"
  have "enabled (config ?cb)" and "CircuitBreaker_state ?cb = HalfOpen"
    and "probe_claimed_at_millis ?cb = millis_at ?clk ?cb 0" and "baseline ?cb \<le> ?clk 0"
    and "?clk (clock_reads ?cb) - baseline ?cb < 2 ^ 64 * 1000000"
    and "open_duration (config ?cb) = 60000 * 1000000" and "(60000 :: nat) < 2 ^ 64"
    and "?clk 0 + int (open_duration (config ?cb)) \<le> ?clk (clock_reads ?cb)"
    by (simp_all add: CircuitBreaker_with_clock_def BreakerConfig_client_def millis_at_def
        as_millis_u64_def saturating_duration_since_def from_secs_def CircuitBreaker_state_def)
  then show ?thesis
    by (rule half_open_lease_recovers)
qed

subsection \<open>Probe admission within one lease\<close>

fun check_many :: "clock \<Rightarrow> nat \<Rightarrow> CircuitBreaker \<Rightarrow> (BreakerOpen + unit) list \<times> CircuitBreaker" where
  "check_many clk 0 cb = ([], cb)"
| "check_many clk (Suc n) cb =
     (let (r, cb1) = CircuitBreaker_check clk cb; (rs, cb2) = check_many clk n cb1 in (r # rs, cb2))"

definition admitted :: "(BreakerOpen + unit) list \<Rightarrow> nat" where
  "admitted rs = length (filter (\<lambda>r. r = Inr ()) rs)"

text \<open>All readings of the run, and the standing claim when the slots are taken, lie within a lease.\<close>

definition within_lease :: "clock \<Rightarrow> nat \<Rightarrow> CircuitBreaker \<Rightarrow> bool" where
  "within_lease clk n cb \<longleftrightarrow>
     (\<forall>i < n. \<forall>j < n. saturating_sub (millis_at clk cb (clock_reads cb + j))
                        (millis_at clk cb (clock_reads cb + i)) < as_millis_u64 (open_duration (config cb))) \<and>
     (probe_fresh cb \<or>
      (\<forall>j < n. saturating_sub (millis_at clk cb (clock_reads cb + j)) (probe_claimed_at_millis cb)
                 < as_millis_u64 (open_duration (config cb))))"

definition free_slots :: "CircuitBreaker \<Rightarrow> nat" where
  "free_slots cb = unat (half_open_max_probes (config cb)) - unat (half_open_probes cb)"

lemma millis_at_cong: "baseline cb' = baseline cb \<Longrightarrow> millis_at clk cb' i = millis_at clk cb i"
  by (simp add: millis_at_def)

lemma check_within_lease:
  assumes "enabled (config cb)" and "CircuitBreaker_state cb = HalfOpen" and "within_lease clk (Suc n) cb"
  obtains r cb' where "CircuitBreaker_check clk cb = (r, cb')"
    and "r = Inr () \<longleftrightarrow> probe_fresh cb" and "config cb' = config cb"
    and "CircuitBreaker_state cb' = HalfOpen"
    and "free_slots cb' = (if probe_fresh cb then free_slots cb - 1 else free_slots cb)"
    and "within_lease clk n cb'"
proof -
  obtain r cb' where c: "CircuitBreaker_check clk cb = (r, cb')" by fastforce
  have t: "try_half_open_probe clk cb = (r, cb')"
    using c assms(1,2) by (simp add: CircuitBreaker_check_def)
  have fresh_or: "probe_fresh cb \<or> \<not> lease_expired clk cb"
    using assms(3) by (auto simp: within_lease_def lease_expired_def reading_millis_at)
  have cb': "clock_reads cb' = Suc (clock_reads cb)" "baseline cb' = baseline cb" "config cb' = config cb"
    using t by (auto simp: try_half_open_probe_cases tick_def notify_def split: if_splits)
  have free: "free_slots cb' = (if probe_fresh cb then free_slots cb - 1 else free_slots cb)"
    using t fresh_or unat_inc
    by (auto simp: try_half_open_probe_cases tick_def notify_def free_slots_def probe_fresh_def
        split: if_splits)
  have claim: "probe_fresh cb \<Longrightarrow> probe_claimed_at_millis cb' = millis_at clk cb (clock_reads cb)"
    "\<not> probe_fresh cb \<Longrightarrow> probe_claimed_at_millis cb' = probe_claimed_at_millis cb"
    using t fresh_or
    by (auto simp: try_half_open_probe_cases tick_def notify_def reading_millis_at split: if_splits)
  let ?m = "\<lambda>i. millis_at clk cb (clock_reads cb + i)"
  let ?lease = "as_millis_u64 (open_duration (config cb))"
  have L1: "saturating_sub (?m j) (?m i) < ?lease" if "i < Suc n" "j < Suc n" for i j
    using assms(3) that by (simp add: within_lease_def)
  have L2: "saturating_sub (?m j) (probe_claimed_at_millis cb) < ?lease"
    if "\<not> probe_fresh cb" "j < Suc n" for j
    using assms(3) that by (simp add: within_lease_def)
  have "saturating_sub (?m (Suc j)) (?m (Suc i)) < ?lease" if "i < n" "j < n" for i j
    using L1 [of "Suc i" "Suc j"] that by simp
  moreover have "saturating_sub (?m (Suc j)) (probe_claimed_at_millis cb') < ?lease" if "j < n" for j
    using L1 [of 0 "Suc j"] L2 [of "Suc j"] that claim by (cases "probe_fresh cb") simp_all
  ultimately have "within_lease clk n cb'"
    by (simp add: within_lease_def millis_at_cong [OF cb'(2)] cb')
  moreover have "r = Inr () \<longleftrightarrow> probe_fresh cb"
    using t fresh_or
    by (auto simp: try_half_open_probe_cases split: if_splits)
  moreover have "CircuitBreaker_state cb' = HalfOpen"
    using t assms(2) by (metis snd_conv state_probe)
  ultimately show thesis
    using that c cb'(3) free by blast
qed

lemma free_slots_pos_iff: "0 < free_slots cb \<longleftrightarrow> probe_fresh cb"
  by (simp add: free_slots_def probe_fresh_def word_less_nat_alt)

text \<open>
  Within one lease a half-open breaker admits exactly as many of the checks made against it as
  it has free probe slots: of \<open>n\<close> consecutive checks, \<open>min n\<close> (the number of free slots), and
  never more than \<open>half_open_max_probes\<close>.
\<close>

theorem half_open_admits_free_slots:
  assumes "enabled (config cb)" and "CircuitBreaker_state cb = HalfOpen" and "within_lease clk n cb"
  shows "admitted (fst (check_many clk n cb)) = min n (free_slots cb) \<and>
    free_slots cb \<le> unat (half_open_max_probes (config cb))"
proof -
  have "admitted (fst (check_many clk n cb)) = min n (free_slots cb)"
    using assms
  proof (induction n arbitrary: cb)
    case 0
    then show ?case by (simp add: admitted_def)
  next
    case (Suc n)
    from Suc.prems obtain r cb' where c: "CircuitBreaker_check clk cb = (r, cb')"
      and r: "r = Inr () \<longleftrightarrow> probe_fresh cb" and cfg: "config cb' = config cb"
      and st: "CircuitBreaker_state cb' = HalfOpen"
      and free: "free_slots cb' = (if probe_fresh cb then free_slots cb - 1 else free_slots cb)"
      and lease: "within_lease clk n cb'"
      by (rule check_within_lease)
    have "admitted (fst (check_many clk n cb')) = min n (free_slots cb')"
      using Suc.prems cfg st lease by (intro Suc.IH) simp_all
    moreover have "admitted (fst (check_many clk (Suc n) cb)) =
        (if probe_fresh cb then 1 else 0) + admitted (fst (check_many clk n cb'))"
      using r by (simp add: c admitted_def split: prod.split)
    ultimately show ?case
      using free free_slots_pos_iff [of cb] by (auto simp: min_def)
  qed
  then show ?thesis by (simp add: free_slots_def)
qed

definition half_open_example :: CircuitBreaker where
  "half_open_example = (CircuitBreaker_with_clock (\<lambda>_. 0) BreakerConfig_server)
     \<lparr>state_u8 := BreakerState_as_u8 HalfOpen\<rparr>"

theorem half_open_admits_free_slots_witness:
  "admitted (fst (check_many (\<lambda>_. 0) 3 half_open_example)) = 1"
proof -
  have 1: "enabled (config half_open_example)" "CircuitBreaker_state half_open_example = HalfOpen"
    "within_lease (\<lambda>_. 0) 3 half_open_example" and 2: "free_slots half_open_example = 1"
    by (simp_all add: half_open_example_def CircuitBreaker_with_clock_def BreakerConfig_server_def
        CircuitBreaker_state_def within_lease_def millis_at_def as_millis_u64_def probe_fresh_def
        saturating_duration_since_def saturating_sub_def from_secs_def free_slots_def)
  show ?thesis
    using half_open_admits_free_slots [OF 1] 2 by simp
qed

subsection \<open>Every run\<close>

text \<open>
  Every sequence of \<open>check\<close>, \<open>record\<close> and \<open>error_rate\<close> calls on a new breaker keeps its
  invariant: the state byte is a valid state, the \<open>is_open\<close> flag tells exactly whether the state
  is \<open>Open\<close>, the probe counter never exceeds its limit and is zero outside \<open>HalfOpen\<close>, the
  window holds at most its capacity and its failure counter is exact.
\<close>

theorem breaker_run_inv:
  "breaker_inv (breaker_run earliest clk ops (CircuitBreaker_with_clock clk c))"
  by (simp add: inv_run inv_with_clock)

text \<open>
  The verdict of the probe decides a half-open breaker. A recorded success closes it with an
  empty window and no probe held, and the next check is admitted; a recorded failure opens it
  again, with the cool-down starting at the clock reading of the failure.
\<close>

theorem half_open_verdict:
  assumes "enabled (config cb)" and "CircuitBreaker_state cb = HalfOpen"
    and succ: "cb1 = CircuitBreaker_record earliest clk Success cb"
    and fail: "cb2 = CircuitBreaker_record earliest clk Failure cb"
  shows "(CircuitBreaker_state cb1 = Closed \<and> window cb1 = SlidingWindow_new \<and>
            half_open_probes cb1 = 0 \<and> fst (CircuitBreaker_check clk cb1) = Inr ()) \<and>
         (CircuitBreaker_state cb2 = Open \<and> half_open_probes cb2 = 0 \<and>
            opened_at_millis cb2 = millis_at clk cb (Suc (clock_reads cb)))"
proof -
  have s: "cb1 = notify (OnOutcome Success Closed) (close HalfOpen ''probe_success'' (tick cb))"
    and f: "cb2 = notify (OnOutcome Failure Open) (trip clk HalfOpen ''probe_failure'' (tick cb))"
    using assms by (simp_all add: CircuitBreaker_record_def clock_now_eq Let_def)
  then have "CircuitBreaker_state cb1 = Closed" and "CircuitBreaker_state cb2 = Open"
    by simp_all
  then show ?thesis
    by (simp add: CircuitBreaker_check_def)
      (simp add: s f close_def trip_def SlidingWindow_clear_def SlidingWindow_new_def
        notify_def Let_def elapsed_millis_eq tick_def reading_def millis_at_def)
qed

theorem half_open_verdict_witness:
  "CircuitBreaker_state (CircuitBreaker_record 0 (\<lambda>_. 0) Success half_open_example) = Closed"
proof -
  have "enabled (config half_open_example)" "CircuitBreaker_state half_open_example = HalfOpen"
    by (simp_all add: half_open_example_def CircuitBreaker_with_clock_def BreakerConfig_server_def
        CircuitBreaker_state_def)
  from half_open_verdict [OF this refl refl] show ?thesis
    by blast
qed

subsection \<open>What the observer sees\<close>

fun legal_transition :: "BreakerState \<Rightarrow> BreakerState \<Rightarrow> string \<Rightarrow> bool" where
  "legal_transition Closed Open r \<longleftrightarrow> r = ''trip''"
| "legal_transition Open HalfOpen r \<longleftrightarrow> r = ''open_elapsed''"
| "legal_transition HalfOpen Open r \<longleftrightarrow> r = ''probe_failure''"
| "legal_transition HalfOpen Closed r \<longleftrightarrow> r = ''probe_success''"
| "legal_transition _ _ _ \<longleftrightarrow> False"

text \<open>Replay the observer's calls from a state: each must be consistent with the state reached.\<close>

fun follow :: "BreakerState \<Rightarrow> ObserverCall list \<Rightarrow> BreakerState option" where
  "follow s [] = Some s"
| "follow s (OnStateChange a b r # cs) =
     (if a = s \<and> legal_transition a b r then follow b cs else None)"
| "follow s (OnProbeAdmission ok # cs) = (if s = HalfOpen then follow s cs else None)"
| "follow s (OnOutcome r st # cs) = (if st = s then follow s cs else None)"

lemma follow_append: "follow s (xs @ ys) = Option.bind (follow s xs) (\<lambda>t. follow t ys)"
  by (induction s xs rule: follow.induct) auto

definition chained :: "BreakerState \<Rightarrow> CircuitBreaker \<Rightarrow> bool" where
  "chained s cb \<longleftrightarrow> follow Closed (observed cb) = Some s"

lemma chained_notify:
  "chained s cb \<Longrightarrow> follow s [c] = Some t \<Longrightarrow> chained t (notify c cb)"
  by (simp add: chained_def notify_def follow_append)

lemma chained_update [simp]:
  "chained s (tick cb) = chained s cb"
  "chained s (cb\<lparr>state_u8 := a\<rparr>) = chained s cb"
  "chained s (cb\<lparr>is_open_fast := b\<rparr>) = chained s cb"
  "chained s (cb\<lparr>half_open_probes := p\<rparr>) = chained s cb"
  "chained s (cb\<lparr>probe_claimed_at_millis := q\<rparr>) = chained s cb"
  "chained s (cb\<lparr>opened_at_millis := u\<rparr>) = chained s cb"
  "chained s (cb\<lparr>window := w\<rparr>) = chained s cb"
  by (simp_all add: chained_def tick_def)

lemma chained_probe: "chained HalfOpen cb \<Longrightarrow> chained HalfOpen (snd (try_half_open_probe clk cb))"
  by (auto simp: try_half_open_probe_cases intro!: chained_notify)

lemma chained_check:
  assumes inv: "breaker_inv cb" and ch: "chained (CircuitBreaker_state cb) cb"
  shows "chained (CircuitBreaker_state (snd (CircuitBreaker_check clk cb))) (snd (CircuitBreaker_check clk cb))"
proof (cases "CircuitBreaker_state cb")
  case Open
  define cb' where "cb' = notify (OnStateChange Open HalfOpen ''open_elapsed'')
    ((tick cb)\<lparr>state_u8 := BreakerState_as_u8 HalfOpen, is_open_fast := False\<rparr>)"
  have "chained HalfOpen cb'"
    unfolding cb'_def by (rule chained_notify [of Open]) (use ch Open in simp_all)
  moreover have "CircuitBreaker_state cb' = HalfOpen"
    by (simp add: cb'_def)
  ultimately show ?thesis
    using ch Open inv_state_u8 [OF inv]
    by (simp add: CircuitBreaker_check_def check_open_cases [of cb clk, folded cb'_def] chained_probe)
qed (use ch in \<open>simp_all add: CircuitBreaker_check_def chained_probe\<close>)

lemma chained_trip:
  "chained prev cb \<Longrightarrow> legal_transition prev Open reason \<Longrightarrow> chained Open (trip clk prev reason cb)"
  by (cases prev) (auto simp: trip_def Let_def elapsed_millis_eq intro!: chained_notify)

lemma chained_close:
  "chained HalfOpen cb \<Longrightarrow> chained Closed (close HalfOpen ''probe_success'' cb)"
  by (auto simp: close_def Let_def intro!: chained_notify)

lemma chained_record:
  assumes "chained (CircuitBreaker_state cb) cb"
  shows "chained (CircuitBreaker_state (CircuitBreaker_record earliest clk r cb))
           (CircuitBreaker_record earliest clk r cb)"
proof (cases "CircuitBreaker_state cb")
  case Closed
  then show ?thesis
    using assms
    by (auto simp: CircuitBreaker_record_def clock_now_eq Let_def push_and_evict_def
        intro!: chained_notify chained_trip)
next
  case Open
  then show ?thesis
    using assms
    by (auto simp: CircuitBreaker_record_def clock_now_eq Let_def push_and_evict_def
        intro!: chained_notify)
next
  case HalfOpen
  then show ?thesis
    using assms
    by (auto simp: CircuitBreaker_record_def clock_now_eq Let_def
        intro!: chained_notify chained_trip chained_close)
qed

lemma chained_error_rate:
  "chained (CircuitBreaker_state cb) cb \<Longrightarrow>
     chained (CircuitBreaker_state (snd (CircuitBreaker_error_rate earliest clk cb)))
       (snd (CircuitBreaker_error_rate earliest clk cb))"
  by (simp add: CircuitBreaker_error_rate_def clock_now_eq Let_def)

lemma chained_step:
  "breaker_inv cb \<Longrightarrow> chained (CircuitBreaker_state cb) cb \<Longrightarrow>
     chained (CircuitBreaker_state (breaker_step earliest clk x cb)) (breaker_step earliest clk x cb)"
  by (cases x) (simp_all add: chained_check chained_record chained_error_rate)

lemma chained_run:
  "breaker_inv cb \<Longrightarrow> chained (CircuitBreaker_state cb) cb \<Longrightarrow>
     chained (CircuitBreaker_state (breaker_run earliest clk ops cb)) (breaker_run earliest clk ops cb)"
  by (induction ops arbitrary: cb) (simp_all add: breaker_run_def inv_step chained_step)

text \<open>
  The observer sees the whole history of the breaker. Replaying the calls it received during
  any run from a new breaker never meets an inconsistent call and ends in the breaker's state: the
  reported transitions form a chain from \<open>Closed\<close>, each is one of trip, cool-down, probe failure
  and probe success under its own reason, probe admissions are reported only while half-open, and
  every outcome is reported with the state the record left.
\<close>

theorem observer_replays_the_state:
  "follow Closed (observed (breaker_run earliest clk ops (CircuitBreaker_with_clock clk c))) =
     Some (CircuitBreaker_state (breaker_run earliest clk ops (CircuitBreaker_with_clock clk c)))"
proof -
  let ?cb = "CircuitBreaker_with_clock clk c"
  have "chained (CircuitBreaker_state ?cb) ?cb"
    by (simp add: chained_def CircuitBreaker_with_clock_def CircuitBreaker_state_def)
  from chained_run [OF inv_with_clock this] show ?thesis
    by (simp add: chained_def)
qed

subsection \<open>One breaker per key\<close>

definition registry_inv :: "CircuitBreakerRegistry \<Rightarrow> bool" where
  "registry_inv reg \<longleftrightarrow>
     (\<forall>h \<in> ran (breakers reg). h < length (store reg)) \<and> inj_on (breakers reg) (dom (breakers reg))"

lemma inj_on_map_upd_fresh:
  assumes "inj_on f (dom f)" and "v \<notin> ran f"
  shows "inj_on (f(k \<mapsto> v)) (dom (f(k \<mapsto> v)))"
proof (rule inj_onI)
  fix x y
  assume xy: "x \<in> dom (f(k \<mapsto> v))" "y \<in> dom (f(k \<mapsto> v))" "(f(k \<mapsto> v)) x = (f(k \<mapsto> v)) y"
  have no: "f z \<noteq> Some v" for z
    using assms(2) by (metis ranI)
  show "x = y"
  proof (cases "x = k \<or> y = k")
    case True
    with xy(3) no [of x] no [of y] show ?thesis
      by (metis fun_upd_other fun_upd_same)
  next
    case False
    with xy have "x \<in> dom f" "y \<in> dom f" "f x = f y"
      by (auto simp: dom_def)
    with assms(1) show ?thesis
      by (metis inj_onD)
  qed
qed

lemma registry_inv_new: "registry_inv (CircuitBreakerRegistry_new c)"
  by (simp add: registry_inv_def CircuitBreakerRegistry_new_def)

lemma registry_inv_get:
  assumes inv: "registry_inv reg"
  shows "registry_inv (snd (CircuitBreakerRegistry_get clk key reg))"
proof (cases "enabled (reg_config reg) \<and> breakers reg key = None")
  case True
  define n where "n = length (store reg)"
  have new: "snd (CircuitBreakerRegistry_get clk key reg) =
      reg\<lparr>breakers := (breakers reg)(key \<mapsto> n),
          store := store reg @ [CircuitBreaker_with_clock clk (reg_config reg)]\<rparr>"
    using True by (simp add: CircuitBreakerRegistry_get_def n_def Let_def)
  have fresh: "n \<notin> ran (breakers reg)"
    using inv by (auto simp: registry_inv_def n_def)
  have "inj_on ((breakers reg)(key \<mapsto> n)) (dom ((breakers reg)(key \<mapsto> n)))"
    by (rule inj_on_map_upd_fresh [OF _ fresh]) (use inv in \<open>simp add: registry_inv_def\<close>)
  moreover have "\<forall>h \<in> ran ((breakers reg)(key \<mapsto> n)). h < Suc n"
    using inv True by (auto simp: registry_inv_def less_Suc_eq n_def)
  ultimately show ?thesis
    unfolding new by (simp add: registry_inv_def n_def)
next
  case False
  with inv show ?thesis
    by (auto simp: CircuitBreakerRegistry_get_def split: option.splits)
qed

fun get_all :: "clock \<Rightarrow> str list \<Rightarrow> CircuitBreakerRegistry \<Rightarrow> CircuitBreakerRegistry" where
  "get_all clk [] reg = reg"
| "get_all clk (k # ks) reg = get_all clk ks (snd (CircuitBreakerRegistry_get clk k reg))"

lemma registry_inv_get_all: "registry_inv reg \<Longrightarrow> registry_inv (get_all clk ks reg)"
  by (induction ks arbitrary: reg) (simp_all add: registry_inv_get)

lemma get_keeps_binding:
  "breakers reg k = Some h \<Longrightarrow> breakers (snd (CircuitBreakerRegistry_get clk k' reg)) k = Some h"
  by (auto simp: CircuitBreakerRegistry_get_def Let_def split: option.split)

lemma get_all_keeps_binding:
  "breakers reg k = Some h \<Longrightarrow> breakers (get_all clk ks reg) k = Some h"
  by (induction ks arbitrary: reg) (simp_all add: get_keeps_binding)

lemma reg_config_get [simp]: "reg_config (snd (CircuitBreakerRegistry_get clk k reg)) = reg_config reg"
  by (auto simp: CircuitBreakerRegistry_get_def Let_def split: option.split)

lemma reg_config_get_all [simp]: "reg_config (get_all clk ks reg) = reg_config reg"
  by (induction ks arbitrary: reg) simp_all

lemma get_binds:
  "enabled (reg_config reg) \<Longrightarrow>
     \<exists>h. fst (CircuitBreakerRegistry_get clk k reg) = Some h \<and>
         breakers (snd (CircuitBreakerRegistry_get clk k reg)) k = Some h"
  by (auto simp: CircuitBreakerRegistry_get_def Let_def split: option.split)

lemma get_bound:
  "enabled (reg_config reg) \<Longrightarrow> breakers reg k = Some h \<Longrightarrow>
     fst (CircuitBreakerRegistry_get clk k reg) = Some h"
  by (simp add: CircuitBreakerRegistry_get_def)

text \<open>
  The registry hands out one breaker per key. In an enabled registry, a handle obtained for a
  key is the handle obtained for that key after any number of other requests, and a later request
  gives the same handle only for the same key: keys share a breaker exactly when they are equal.
\<close>

theorem registry_one_breaker_per_key:
  assumes "registry_inv reg" and en: "enabled (reg_config reg)"
    and get: "CircuitBreakerRegistry_get clk k reg = (h, reg')"
  shows "h \<noteq> None \<and>
    (fst (CircuitBreakerRegistry_get clk k' (get_all clk ks reg')) = h \<longleftrightarrow> k' = k)"
proof -
  define reg1 where "reg1 = get_all clk ks reg'"
  have en1: "enabled (reg_config reg1)" and inv1: "registry_inv reg1"
    using en assms(1) get reg_config_get [of clk k reg] registry_inv_get [of reg clk k]
    by (simp_all add: reg1_def registry_inv_get_all)
  obtain n where h: "h = Some n" and n: "breakers reg' k = Some n"
    using get_binds [OF en, of clk k] get by auto
  have bound: "breakers reg1 k = Some n"
    unfolding reg1_def by (rule get_all_keeps_binding [OF n])
  let ?r = "snd (CircuitBreakerRegistry_get clk k' reg1)"
  obtain m where m: "fst (CircuitBreakerRegistry_get clk k' reg1) = Some m" "breakers ?r k' = Some m"
    using get_binds [OF en1, of clk k'] by blast
  have "m = n \<longleftrightarrow> k' = k"
  proof
    assume "m = n"
    then have "breakers ?r k' = breakers ?r k"
      using m get_keeps_binding [OF bound, of clk k'] by simp
    then show "k' = k"
      using registry_inv_get [OF inv1, of clk k'] m get_keeps_binding [OF bound, of clk k']
      by (auto simp: registry_inv_def inj_on_def dom_def)
  next
    assume "k' = k"
    then show "m = n"
      using m get_bound [OF en1 bound] by simp
  qed
  with h m show ?thesis
    by (simp add: reg1_def)
qed

theorem registry_one_breaker_per_key_witness:
  "fst (CircuitBreakerRegistry_get (\<lambda>_. 0) (lit ''b'')
     (snd (CircuitBreakerRegistry_get (\<lambda>_. 0) (lit ''a'')
        (CircuitBreakerRegistry_new BreakerConfig_server)))) \<noteq>
   fst (CircuitBreakerRegistry_get (\<lambda>_. 0) (lit ''a'')
        (CircuitBreakerRegistry_new BreakerConfig_server))"
proof -
  let ?reg = "CircuitBreakerRegistry_new BreakerConfig_server"
  have "enabled (reg_config ?reg)"
    by (simp add: CircuitBreakerRegistry_new_def BreakerConfig_server_def)
  from registry_one_breaker_per_key [OF registry_inv_new this prod.collapse [symmetric],
      of "\<lambda>_. 0" "lit ''a''" "lit ''b''" "[]"]
  show ?thesis
    by simp
qed

end
