(* ===== verification/Rust_Float.thy ===== *)
theory Rust_Float
  imports Rust_Num
begin

text \<open>
  IEEE-754 binary64 arithmetic on bit patterns, as far as the program computes with it: the value
  nearest to a fraction, products, and the saturating casts between \<open>f64\<close> and the unsigned
  integers. A NaN has one representative here; no code looks at its payload.
\<close>

subsection \<open>Rounding\<close>

fun bit_length :: "nat \<Rightarrow> nat" where
  "bit_length n = (if n = 0 then 0 else Suc (bit_length (n div 2)))"

declare bit_length.simps [simp del]

text \<open>The binary64 value nearest to \<open>n / d\<close>, subnormals and overflow to infinity included.\<close>

definition f64_of_ratio :: "nat \<Rightarrow> nat \<Rightarrow> f64" where
  "f64_of_ratio n d =
     (if n = 0 then 0
      else let e0 = int (bit_length n) - int (bit_length d);
               ge = (if 0 \<le> e0 then d * 2 ^ nat e0 \<le> n else d \<le> n * 2 ^ nat (- e0));
               e = max (- 1022) (if ge then e0 else e0 - 1);
               s = 52 - e;
               m = (if 0 \<le> s then round_half_even (n * 2 ^ nat s) d
                    else round_half_even n (d * 2 ^ nat (- s)));
               bits = nat (e + 1022) * 2 ^ 52 + m
           in word_of_nat (min bits (2047 * 2 ^ 52)))"

definition f64_inf :: f64 where "f64_inf = word_of_nat (2047 * 2 ^ 52)"
definition f64_nan :: f64 where "f64_nan = word_of_nat (2047 * 2 ^ 52 + 2 ^ 51)"

subsection \<open>Products and casts\<close>

definition f64_is_inf :: "f64 \<Rightarrow> bool" where
  "f64_is_inf x \<longleftrightarrow> f64_magnitude x = 2047 * 2 ^ 52"

text \<open>A finite magnitude is \<open>m * 2 ^ e\<close>.\<close>

definition f64_parts :: "f64 \<Rightarrow> nat \<times> int" where
  "f64_parts x =
     (let biased = f64_magnitude x div 2 ^ 52; frac = f64_magnitude x mod 2 ^ 52
      in if biased = 0 then (frac, - 1074) else (2 ^ 52 + frac, int biased - 1075))"

definition f64_signed :: "bool \<Rightarrow> f64 \<Rightarrow> f64" where
  "f64_signed negative x = (if negative then x + word_of_nat (2 ^ 63) else x)"

definition f64_mul :: "f64 \<Rightarrow> f64 \<Rightarrow> f64" where
  "f64_mul x y =
     (let negative = (f64_negative x \<noteq> f64_negative y)
      in if f64_is_nan x \<or> f64_is_nan y then f64_nan
         else if f64_is_inf x \<or> f64_is_inf y
         then (if f64_magnitude x = 0 \<or> f64_magnitude y = 0 then f64_nan else f64_signed negative f64_inf)
         else let (m, d) = f64_parts x; (n, e) = f64_parts y
              in f64_signed negative
                   (if 0 \<le> d + e then f64_of_ratio (m * n * 2 ^ nat (d + e)) 1
                    else f64_of_ratio (m * n) (2 ^ nat (- (d + e)))))"

definition nat_as_f64 :: "nat \<Rightarrow> f64" where
  "nat_as_f64 n = f64_of_ratio n 1"

definition f64_floor_nat :: "f64 \<Rightarrow> nat" where
  "f64_floor_nat x =
     (let (m, e) = f64_parts x in if 0 \<le> e then m * 2 ^ nat e else m div 2 ^ nat (- e))"

definition f64_ceil_nat :: "f64 \<Rightarrow> nat" where
  "f64_ceil_nat x =
     (let (m, e) = f64_parts x
      in if 0 \<le> e then m * 2 ^ nat e else (m + 2 ^ nat (- e) - 1) div 2 ^ nat (- e))"

text \<open>\<open>as u32\<close> truncates and saturates; NaN gives zero.\<close>

definition f64_as_u32 :: "f64 \<Rightarrow> u32" where
  "f64_as_u32 x =
     (if f64_is_nan x \<or> f64_negative x then 0
      else if f64_is_inf x then - 1
      else word_of_nat (min (f64_floor_nat x) (2 ^ 32 - 1)))"

text \<open>\<open>ceil\<close> followed by \<open>as u64\<close>.\<close>

definition f64_ceil_as_u64 :: "f64 \<Rightarrow> u64" where
  "f64_ceil_as_u64 x =
     (if f64_is_nan x \<or> f64_negative x then 0
      else if f64_is_inf x then - 1
      else word_of_nat (min (f64_ceil_nat x) (2 ^ 64 - 1)))"

end
