(* ===== verification/Breaker_Config.thy ===== *)
theory Breaker_Config
  imports Circuit_Breaker Rust_Float
begin

text \<open>
  Loading the breaker's knobs from the environment (\<^verbatim>\<open>xai-circuit-breaker/src/config.rs\<close>).
  The lookup function is the code's own parameter \<open>get\<close>. \<open>FromStr\<close> of the knob types is
  modelled exactly, binary64 included: the decimal text denotes a fraction, which is rounded to
  the nearest representable value, ties to even.
\<close>

subsection \<open>\<open>FromStr\<close> of the knob types\<close>

definition digits_value :: "str \<Rightarrow> nat" where
  "digits_value ds = value_of 10 (map (\<lambda>c. c - 48) ds)"

text \<open>The decimal exponent: nothing, or \<open>e\<close>/\<open>E\<close>, an optional sign and at least one digit.\<close>

definition parse_exponent :: "str \<Rightarrow> int option" where
  "parse_exponent s =
     (case s of
        [] \<Rightarrow> Some 0
      | c # r \<Rightarrow>
          if c \<noteq> 101 \<and> c \<noteq> 69 then None
          else let neg = (r \<noteq> [] \<and> hd r = 45);
                   ds = (if r \<noteq> [] \<and> (hd r = 45 \<or> hd r = 43) then tl r else r)
               in if ds \<noteq> [] \<and> list_all is_digit ds
                  then Some (if neg then - int (digits_value ds) else int (digits_value ds)) else None)"

definition parse_f64_number :: "str \<Rightarrow> f64 option" where
  "parse_f64_number s =
     (let whole = takeWhile is_digit s;
          r1 = dropWhile is_digit s;
          (frac, r2) = (case r1 of
                          c # r \<Rightarrow> if c = 46 then (takeWhile is_digit r, dropWhile is_digit r) else ([], r1)
                        | [] \<Rightarrow> ([], []))
      in if whole = [] \<and> frac = [] then None
         else map_option
                (\<lambda>x. let n = digits_value (whole @ frac); e = x - int (length frac)
                      in if 0 \<le> e then f64_of_ratio (n * 10 ^ nat e) 1
                         else f64_of_ratio n (10 ^ nat (- e)))
                (parse_exponent r2))"

definition parse_f64 :: "str \<Rightarrow> f64 option" where
  "parse_f64 s =
     (let neg = (s \<noteq> [] \<and> hd s = 45);
          body = (if s \<noteq> [] \<and> (hd s = 45 \<or> hd s = 43) then tl s else s);
          low = to_ascii_lowercase body;
          v = (if low = lit ''inf'' \<or> low = lit ''infinity'' then Some f64_inf
               else if low = lit ''nan'' then Some f64_nan
               else parse_f64_number body)
      in map_option (\<lambda>x. if neg then x + 2 ^ 63 else x) v)"

definition parse_bool :: "str \<Rightarrow> bool option" where
  "parse_bool s = (if s = lit ''true'' then Some True else if s = lit ''false'' then Some False else None)"

subsection \<open>Loading\<close>

definition parse_failure_codes :: "str \<Rightarrow> u16 set" where
  "parse_failure_codes s =
     set (List.map_filter (\<lambda>c. map_option word_of_nat (parse_unsigned 65535 (trim c))) (split_char 44 s))"

definition lookup_or :: "(str \<Rightarrow> 'a option) \<Rightarrow> (str \<Rightarrow> str option) \<Rightarrow> str \<Rightarrow> 'a \<Rightarrow> 'a" where
  "lookup_or parse get key d =
     (case get key of
        Some v \<Rightarrow> (case parse v of Some parsed \<Rightarrow> parsed | None \<Rightarrow> d)
      | None \<Rightarrow> d)"

definition from_lookup_with_prefix :: "str \<Rightarrow> (str \<Rightarrow> str option) \<Rightarrow> BreakerConfig" where
  "from_lookup_with_prefix prfx get =
     (let key = (\<lambda>k. prfx @ lit k);
          codes = (case get (key ''FAILURE_CODES'') of
                     Some raw \<Rightarrow>
                       let codes = parse_failure_codes raw
                       in if codes = {} then default_failure_codes else codes
                   | None \<Rightarrow> default_failure_codes);
          u = parse_unsigned (2 ^ 64 - 1)
      in \<lparr>window_duration = from_secs (lookup_or u get (key ''WINDOW_SECS'') 60),
          min_samples = lookup_or u get (key ''MIN_SAMPLES'') 10,
          error_rate_threshold = lookup_or parse_f64 get (key ''ERROR_RATE_THRESHOLD'') f64_half,
          open_duration = from_secs (lookup_or u get (key ''OPEN_DURATION_SECS'') 10),
          half_open_max_probes = max (word_of_nat (lookup_or u get (key ''HALF_OPEN_MAX_PROBES'') 1)) 1,
          failure_codes = codes,
          enabled = lookup_or parse_bool get (key ''ENABLED'') True\<rparr>)"

definition from_env :: "(str \<Rightarrow> str option) \<Rightarrow> BreakerConfig" where
  "from_env env_var = from_lookup_with_prefix (lit ''CB_'') env_var"

subsection \<open>Properties\<close>

lemma dropWhile_all_append: "\<forall>c \<in> set a. P c \<Longrightarrow> dropWhile P (a @ s) = dropWhile P s"
  by (induction a) auto

lemma trim_pad:
  assumes "\<forall>c \<in> set a. is_whitespace c" and "\<forall>c \<in> set b. is_whitespace c" and "s \<noteq> []" and "trimmed s"
  shows "trim (a @ s @ b) = s"
proof -
  have "dropWhile is_whitespace (a @ s @ b) = s @ b"
    using assms by (cases s) (auto simp: trimmed_def dropWhile_all_append)
  moreover have "dropWhile is_whitespace (rev b @ rev s) = rev s"
  proof -
    have "\<not> is_whitespace (hd (rev s))"
      using assms(3,4) by (auto simp: trimmed_def hd_rev)
    then have "dropWhile is_whitespace (rev s) = rev s"
      by (cases "rev s") auto
    with assms(2) show ?thesis by (simp add: dropWhile_all_append)
  qed
  ultimately show ?thesis
    by (simp add: trim_def trim_start_def trim_end_def)
qed

lemma show_nat_not_Nil [simp]: "show_nat n \<noteq> []"
  by (simp add: show_nat_def)

lemma trimmed_show_nat [simp]: "trimmed (show_nat n)"
  by (rule trimmedI) (auto simp: is_whitespace_def dest: show_nat_digit)

text \<open>
  A failure-code list survives its text form. Written as decimal numbers separated by commas,
  with any white space around each number, a non-empty list of 16-bit codes is parsed back to
  exactly its set of codes.
\<close>

theorem parse_failure_codes_roundtrip:
  assumes ne: "xs \<noteq> []"
    and pad: "\<forall>(a, c, b) \<in> set xs. (\<forall>x \<in> set a \<union> set b. is_whitespace x)"
  shows "parse_failure_codes (join [44] (map (\<lambda>(a, c, b). a @ show_nat (unat c) @ b) xs)) =
    (\<lambda>(a, c, b). c) ` set xs"
proof -
  let ?item = "\<lambda>(a, c :: u16, b). a @ show_nat (unat c) @ b"
  let ?parse = "\<lambda>s. map_option word_of_nat (parse_unsigned 65535 (trim s)) :: u16 option"
  have no_ws: "\<not> is_whitespace 44" and no_digit: "44 \<notin> set (show_nat n)" for n
    by (auto simp: is_whitespace_def dest: show_nat_digit)
  then have "\<forall>w \<in> set (map ?item xs). 44 \<notin> set w"
    using pad by auto
  then have split: "split_char 44 (join [44] (map ?item xs)) = map ?item xs"
    using ne by (intro split_char_join) simp_all
  have item: "?parse (?item (a, c, b)) = Some c" if "(a, c, b) \<in> set xs" for a b and c :: u16
  proof -
    have "trim (a @ show_nat (unat c) @ b) = show_nat (unat c)"
      using pad that by (intro trim_pad) auto
    moreover have "unat c < 2 ^ LENGTH(16)"
      by (rule unsigned_less)
    ultimately show ?thesis by simp
  qed
  have "List.map_filter ?parse (map ?item ys) = map (\<lambda>(a, c, b). c) ys" if "set ys \<subseteq> set xs" for ys
    using that
  proof (induction ys)
    case (Cons y ys)
    obtain a c b where y: "y = (a, c, b)" by (cases y)
    with Cons item [of a c b] show ?case by (auto simp: map_filter_simps)
  qed (simp add: map_filter_simps)
  from this [of xs] show ?thesis
    by (simp add: parse_failure_codes_def split)
qed

theorem parse_failure_codes_roundtrip_witness:
  "parse_failure_codes (join [44] (map (\<lambda>(a, c, b). a @ show_nat (unat c) @ b)
      [([], 429 :: u16, [32]), ([32], 503, [])])) = {429, 503}"
  by (subst parse_failure_codes_roundtrip) (simp_all add: is_whitespace_def)

text \<open>
  No environment yields an unusable configuration. Whatever the variables hold, the loaded
  configuration allows at least one half-open probe and has a non-empty set of failure codes; a
  knob whose variable is missing or does not parse has the value of the server preset.
\<close>

theorem from_lookup_usable:
  "1 \<le> half_open_max_probes (from_lookup_with_prefix prfx get) \<and>
   failure_codes (from_lookup_with_prefix prfx get) \<noteq> {} \<and>
   ((\<forall>key v. get key = Some v \<longrightarrow>
        parse_unsigned (2 ^ 64 - 1) v = None \<and> parse_f64 v = None \<and> parse_bool v = None \<and>
        parse_failure_codes v = {}) \<longrightarrow>
      from_lookup_with_prefix prfx get = BreakerConfig_server)"
proof -
  have d: "default_failure_codes \<noteq> {}"
    by (simp add: default_failure_codes_def)
  have default: "lookup_or parse get key x = x" if "\<And>v. get key = Some v \<Longrightarrow> parse v = None"
    for parse :: "str \<Rightarrow> 'z option" and key x
    using that by (auto simp: lookup_or_def split: option.split)
  show ?thesis
    using d by (auto simp: from_lookup_with_prefix_def BreakerConfig_server_def Let_def default
        split: option.split)
qed

theorem from_lookup_usable_witness:
  "from_lookup_with_prefix (lit ''CB_'') (\<lambda>_. None) = BreakerConfig_server"
  using from_lookup_usable [of "lit ''CB_''" "\<lambda>_. None"] by simp

end
