(* ===== verification/Retry_Policy.thy ===== *)
theory Retry_Policy
  imports Rust_Num
begin

text \<open>
  What to do with a failed response: the HTTP and gRPC retry policies of
  \<^verbatim>\<open>xai-circuit-breaker\<close> (\<^verbatim>\<open>retry_policy.rs\<close>, \<^verbatim>\<open>grpc.rs\<close>). Both are
  classifiers into \<open>Disposition\<close>; the locale \<open>retry_classifier\<close> states what a retry loop
  relies on, and both policies are interpretations of it. \<open>tonic::Code\<close> is not part of the
  repository: the codes the policies name are fields of a record \<open>codes\<close> over an
  arbitrary type.
\<close>

datatype Disposition = Retryable | AuthRefresh | Terminal

record RetryPolicy =
  retryable :: "u16 list"
  auth_refresh :: "u16 list"
  terminal :: "u16 list"
  default_disposition :: Disposition

definition RetryPolicy_classify :: "RetryPolicy \<Rightarrow> u16 \<Rightarrow> Disposition option" where
  "RetryPolicy_classify p status =
     (if 200 \<le> status \<and> status < 300 then None
      else if status \<in> set (auth_refresh p) then Some AuthRefresh
      else if status \<in> set (terminal p) then Some Terminal
      else if status \<in> set (retryable p) \<or> 500 \<le> status \<and> status < 600 then Some Retryable
      else Some (default_disposition p))"

definition RetryPolicy_should_retry :: "RetryPolicy \<Rightarrow> u16 \<Rightarrow> bool" where
  "RetryPolicy_should_retry p status \<longleftrightarrow> RetryPolicy_classify p status = Some Retryable"

definition RetryPolicy_server :: RetryPolicy where
  "RetryPolicy_server =
     \<lparr>retryable = [429], auth_refresh = [], terminal = [], default_disposition = Terminal\<rparr>"

definition RetryPolicy_edge_client :: RetryPolicy where
  "RetryPolicy_edge_client =
     \<lparr>retryable = [429], auth_refresh = [], terminal = [525, 526], default_disposition = Terminal\<rparr>"

definition RetryPolicy_client_storage :: RetryPolicy where
  "RetryPolicy_client_storage =
     \<lparr>retryable = [], auth_refresh = [401], terminal = [400, 403, 404, 525, 526],
      default_disposition = Retryable\<rparr>"

record 'code codes =
  Code_Ok :: 'code
  Code_Unavailable :: 'code
  Code_Unknown :: 'code
  Code_Internal :: 'code
  Code_DeadlineExceeded :: 'code

record 'code GrpcRetryPolicy =
  grpc_retryable :: "'code list"

definition GrpcRetryPolicy_new :: "'code list \<Rightarrow> 'code GrpcRetryPolicy" where
  "GrpcRetryPolicy_new cs = \<lparr>grpc_retryable = cs\<rparr>"

definition GrpcRetryPolicy_DEFAULT :: "'code codes \<Rightarrow> 'code GrpcRetryPolicy" where
  "GrpcRetryPolicy_DEFAULT k = GrpcRetryPolicy_new [Code_Unavailable k, Code_Unknown k]"

definition GrpcRetryPolicy_PERMISSIVE :: "'code codes \<Rightarrow> 'code GrpcRetryPolicy" where
  "GrpcRetryPolicy_PERMISSIVE k =
     GrpcRetryPolicy_new [Code_Unavailable k, Code_Unknown k, Code_Internal k, Code_DeadlineExceeded k]"

definition GrpcRetryPolicy_is_retryable :: "'code GrpcRetryPolicy \<Rightarrow> 'code \<Rightarrow> bool" where
  "GrpcRetryPolicy_is_retryable p code \<longleftrightarrow> code \<in> set (grpc_retryable p)"

definition GrpcRetryPolicy_classify ::
    "'code codes \<Rightarrow> 'code GrpcRetryPolicy \<Rightarrow> 'code \<Rightarrow> Disposition option" where
  "GrpcRetryPolicy_classify k p code =
     (if code = Code_Ok k then None
      else if GrpcRetryPolicy_is_retryable p code then Some Retryable
      else Some Terminal)"

subsection \<open>The interface of a retry loop\<close>

locale retry_classifier =
  fixes classify :: "'code \<Rightarrow> Disposition option"
    and success :: "'code \<Rightarrow> bool"
  assumes classify_None_iff: "classify c = None \<longleftrightarrow> success c"
begin

lemma failure_has_one_disposition: "\<not> success c \<Longrightarrow> \<exists>!d. classify c = Some d"
  using classify_None_iff [of c] by auto

lemma retried_is_failure: "classify c = Some Retryable \<Longrightarrow> \<not> success c"
  using classify_None_iff [of c] by auto

end

interpretation http_retry: retry_classifier "RetryPolicy_classify p" "\<lambda>status. 200 \<le> status \<and> status < 300"
  by unfold_locales (simp add: RetryPolicy_classify_def)

interpretation grpc_retry: retry_classifier "GrpcRetryPolicy_classify k p" "\<lambda>code. code = Code_Ok k"
  by unfold_locales (simp add: GrpcRetryPolicy_classify_def)

lemmas retry_presets = RetryPolicy_should_retry_def RetryPolicy_classify_def RetryPolicy_server_def
  RetryPolicy_edge_client_def RetryPolicy_client_storage_def

text \<open>
  Which responses are retried. The server preset retries exactly 429 and the 5xx codes; the
  edge client retries the same codes except the origin-TLS failures 525 and 526; the storage
  client retries every response that is not a success, not 401 and not one of its terminal codes,
  and refreshes credentials exactly on 401.
\<close>

theorem retry_presets_classify:
  "(RetryPolicy_should_retry RetryPolicy_server status \<longleftrightarrow>
      status = 429 \<or> 500 \<le> status \<and> status < 600) \<and>
   (RetryPolicy_should_retry RetryPolicy_edge_client status \<longleftrightarrow>
      RetryPolicy_should_retry RetryPolicy_server status \<and> status \<noteq> 525 \<and> status \<noteq> 526) \<and>
   (RetryPolicy_should_retry RetryPolicy_client_storage status \<longleftrightarrow>
      \<not> (200 \<le> status \<and> status < 300) \<and> status \<notin> {400, 401, 403, 404, 525, 526}) \<and>
   (RetryPolicy_classify RetryPolicy_client_storage status = Some AuthRefresh \<longleftrightarrow> status = 401)"
proof (intro conjI)
  have gap: "\<not> (500 \<le> status \<and> status < 300)" "\<not> (200 \<le> (429::u16) \<and> (429::u16) < 300)"
    by (auto dest: order.strict_trans1)
  show "RetryPolicy_should_retry RetryPolicy_server status \<longleftrightarrow>
      status = 429 \<or> 500 \<le> status \<and> status < 600"
    using gap by (auto simp: retry_presets)
  then show "RetryPolicy_should_retry RetryPolicy_edge_client status \<longleftrightarrow>
      RetryPolicy_should_retry RetryPolicy_server status \<and> status \<noteq> 525 \<and> status \<noteq> 526"
    using gap by (auto simp: retry_presets)
  show "RetryPolicy_should_retry RetryPolicy_client_storage status \<longleftrightarrow>
      \<not> (200 \<le> status \<and> status < 300) \<and> status \<notin> {400, 401, 403, 404, 525, 526}"
    by (auto simp: retry_presets)
  show "RetryPolicy_classify RetryPolicy_client_storage status = Some AuthRefresh \<longleftrightarrow> status = 401"
    by (auto simp: retry_presets)
qed

lemma grpc_permissive_extends_default:
  "GrpcRetryPolicy_classify k (GrpcRetryPolicy_DEFAULT k) c = Some Retryable \<Longrightarrow>
     GrpcRetryPolicy_classify k (GrpcRetryPolicy_PERMISSIVE k) c = Some Retryable"
  by (auto simp: GrpcRetryPolicy_classify_def GrpcRetryPolicy_is_retryable_def
      GrpcRetryPolicy_DEFAULT_def GrpcRetryPolicy_PERMISSIVE_def GrpcRetryPolicy_new_def split: if_splits)

end
