(* ===== verification/Delivery_Lifecycle.thy ===== *)
theory Delivery_Lifecycle
  imports Main "HOL-Library.Multiset"
begin

text \<open>
  Turn-bound message delivery: \<^verbatim>\<open>xai-message-delivery-core\<close>, files
  \<^verbatim>\<open>lifecycle.rs\<close> and the authorisation part of \<^verbatim>\<open>envelope.rs\<close>. A delivery slot goes from
  \<open>Pending\<close> to \<open>Projecting\<close> to \<open>Delivered\<close>; a terminal transition empties the slots of
  a turn into fallbacks and completions. Runs are described by a step relation whose events record
  what each call handed out. The type parameters are the code's: identity \<open>'i\<close>, source
  \<open>'s\<close>, content \<open>'c\<close>, completion handle \<open>'k\<close>, prompt id \<open>'p\<close>, epoch \<open>'e\<close>.
\<close>

subsection \<open>Data\<close>

record ('p, 'e) TurnBinding =
  binding_prompt_id :: 'p
  binding_epoch :: 'e

record ('i, 's, 'c) DeliveryMessage =
  message_identity :: 'i
  message_source :: 's
  message_content :: 'c

record ('i, 's, 'c, 'k, 'p, 'e) OwnedDelivery =
  binding :: "('p, 'e) TurnBinding"
  message :: "('i, 's, 'c) DeliveryMessage"
  completion :: 'k

datatype ('i, 's, 'c, 'k, 'p, 'e) DeliverySlot =
    Pending "('i, 's, 'c, 'k, 'p, 'e) OwnedDelivery"
  | Projecting "('i, 's, 'c, 'k, 'p, 'e) OwnedDelivery"
  | Delivered "('i, 's, 'c, 'k, 'p, 'e) OwnedDelivery"

fun owned :: "('i, 's, 'c, 'k, 'p, 'e) DeliverySlot \<Rightarrow> ('i, 's, 'c, 'k, 'p, 'e) OwnedDelivery" where
  "owned (Pending d) = d"
| "owned (Projecting d) = d"
| "owned (Delivered d) = d"

datatype TerminalCause = Completion | SoftCancel | Rewind | HardTeardown | ActorDrop

definition falls_back :: "TerminalCause \<Rightarrow> bool" where
  "falls_back cause \<longleftrightarrow> cause = Completion \<or> cause = SoftCancel \<or> cause = Rewind"

datatype ('p, 'e) TerminalTarget = Turn "('p, 'e) TurnBinding" | All

record ('i, 's, 'c, 'k, 'p, 'e) TerminalTransition =
  fallbacks :: "('i, 's, 'c, 'k, 'p, 'e) OwnedDelivery list"
  completions :: "('i, 's, 'c, 'k, 'p, 'e) OwnedDelivery list"

record ('i, 's, 'c, 'k, 'p, 'e) MessageDeliveryLifecycle =
  slots :: "('i, 's, 'c, 'k, 'p, 'e) DeliverySlot list"

subsection \<open>Operations\<close>

definition lifecycle_default :: "('i, 's, 'c, 'k, 'p, 'e) MessageDeliveryLifecycle" where
  "lifecycle_default = \<lparr>slots = []\<rparr>"

definition lifecycle_len :: "('i, 's, 'c, 'k, 'p, 'e) MessageDeliveryLifecycle \<Rightarrow> nat" where
  "lifecycle_len l = length (slots l)"

definition lifecycle_is_empty :: "('i, 's, 'c, 'k, 'p, 'e) MessageDeliveryLifecycle \<Rightarrow> bool" where
  "lifecycle_is_empty l \<longleftrightarrow> slots l = []"

definition contains_identity :: "'i \<Rightarrow> ('i, 's, 'c, 'k, 'p, 'e) MessageDeliveryLifecycle \<Rightarrow> bool" where
  "contains_identity i l \<longleftrightarrow> (\<exists>slot \<in> set (slots l). message_identity (message (owned slot)) = i)"

definition admit_pending ::
    "('p, 'e) TurnBinding \<Rightarrow> ('i, 's, 'c) DeliveryMessage \<Rightarrow> 'k \<Rightarrow>
     ('i, 's, 'c, 'k, 'p, 'e) MessageDeliveryLifecycle \<Rightarrow>
     (('i, 's, 'c) DeliveryMessage + unit) \<times> ('i, 's, 'c, 'k, 'p, 'e) MessageDeliveryLifecycle" where
  "admit_pending b m k l =
     (if \<exists>slot \<in> set (slots l). message_identity (message (owned slot)) = message_identity m
      then (Inl m, l)
      else (Inr (), l\<lparr>slots := slots l @ [Pending \<lparr>binding = b, message = m, completion = k\<rparr>]\<rparr>))"

fun pending_message ::
    "('p, 'e) TurnBinding \<Rightarrow> ('i, 's, 'c, 'k, 'p, 'e) DeliverySlot \<Rightarrow> ('i, 's, 'c) DeliveryMessage option" where
  "pending_message b (Pending d) = (if binding d = b then Some (message d) else None)"
| "pending_message b _ = None"

definition pending_messages ::
    "('p, 'e) TurnBinding \<Rightarrow> ('i, 's, 'c, 'k, 'p, 'e) MessageDeliveryLifecycle \<Rightarrow>
     ('i, 's, 'c) DeliveryMessage list" where
  "pending_messages b l = List.map_filter (pending_message b) (slots l)"

fun project_slot ::
    "('p, 'e) TurnBinding \<Rightarrow> ('i, 's, 'c, 'k, 'p, 'e) DeliverySlot \<Rightarrow> ('i, 's, 'c, 'k, 'p, 'e) DeliverySlot" where
  "project_slot b (Pending d) = (if binding d = b then Projecting d else Pending d)"
| "project_slot b slot = slot"

definition begin_delivery ::
    "('p, 'e) TurnBinding \<Rightarrow> ('i, 's, 'c, 'k, 'p, 'e) MessageDeliveryLifecycle \<Rightarrow>
     ('i, 's, 'c) DeliveryMessage list \<times> ('i, 's, 'c, 'k, 'p, 'e) MessageDeliveryLifecycle" where
  "begin_delivery b l =
     (let messages = pending_messages b l
      in if messages = [] then (messages, l)
         else (messages, l\<lparr>slots := map (project_slot b) (slots l)\<rparr>))"

fun projecting_message ::
    "('p, 'e) TurnBinding \<Rightarrow> ('i, 's, 'c, 'k, 'p, 'e) DeliverySlot \<Rightarrow> ('i, 's, 'c) DeliveryMessage option" where
  "projecting_message b (Projecting d) = (if binding d = b then Some (message d) else None)"
| "projecting_message b _ = None"

fun deliver_slot ::
    "('p, 'e) TurnBinding \<Rightarrow> ('i, 's, 'c, 'k, 'p, 'e) DeliverySlot \<Rightarrow> ('i, 's, 'c, 'k, 'p, 'e) DeliverySlot" where
  "deliver_slot b (Projecting d) = (if binding d = b then Delivered d else Projecting d)"
| "deliver_slot b slot = slot"

text \<open>\<open>commit\<close> is the caller's closure; its own effects are the caller's.\<close>

definition finish_delivery ::
    "('p, 'e) TurnBinding \<Rightarrow> (('i, 's, 'c) DeliveryMessage list \<Rightarrow> 'err + unit) \<Rightarrow>
     ('i, 's, 'c, 'k, 'p, 'e) MessageDeliveryLifecycle \<Rightarrow>
     ('err + ('i, 's, 'c) DeliveryMessage list) \<times> ('i, 's, 'c, 'k, 'p, 'e) MessageDeliveryLifecycle" where
  "finish_delivery b commit l =
     (let messages = List.map_filter (projecting_message b) (slots l)
      in if messages = [] then (Inr messages, l)
         else case commit messages of
                Inl err \<Rightarrow> (Inl err, l)
              | Inr _ \<Rightarrow> (Inr messages, l\<lparr>slots := map (deliver_slot b) (slots l)\<rparr>))"

fun target_matches :: "('p, 'e) TerminalTarget \<Rightarrow> ('i, 's, 'c, 'k, 'p, 'e) OwnedDelivery \<Rightarrow> bool" where
  "target_matches (Turn b) d \<longleftrightarrow> binding d = b"
| "target_matches All d \<longleftrightarrow> True"

fun transition_slots ::
    "('p, 'e) TerminalTarget \<Rightarrow> TerminalCause \<Rightarrow> ('i, 's, 'c, 'k, 'p, 'e) DeliverySlot list \<Rightarrow>
     ('i, 's, 'c, 'k, 'p, 'e) TerminalTransition \<times> ('i, 's, 'c, 'k, 'p, 'e) DeliverySlot list" where
  "transition_slots target cause [] = (\<lparr>fallbacks = [], completions = []\<rparr>, [])"
| "transition_slots target cause (slot # rest) =
     (let (tr, kept) = transition_slots target cause rest
      in if \<not> target_matches target (owned slot) then (tr, slot # kept)
         else case slot of
                Pending d \<Rightarrow>
                  if falls_back cause then (tr\<lparr>fallbacks := d # fallbacks tr\<rparr>, kept)
                  else (tr\<lparr>completions := d # completions tr\<rparr>, kept)
              | Projecting d \<Rightarrow> (tr\<lparr>completions := d # completions tr\<rparr>, kept)
              | Delivered d \<Rightarrow> (tr\<lparr>completions := d # completions tr\<rparr>, kept))"

definition transition ::
    "('p, 'e) TerminalTarget \<Rightarrow> TerminalCause \<Rightarrow> ('i, 's, 'c, 'k, 'p, 'e) MessageDeliveryLifecycle \<Rightarrow>
     ('i, 's, 'c, 'k, 'p, 'e) TerminalTransition \<times> ('i, 's, 'c, 'k, 'p, 'e) MessageDeliveryLifecycle" where
  "transition target cause l =
     (let (tr, kept) = transition_slots target cause (slots l) in (tr, l\<lparr>slots := kept\<rparr>))"

subsection \<open>Runs\<close>

datatype ('i, 's, 'c, 'k, 'p, 'e) DeliveryEvent =
    Admitted "('i, 's, 'c, 'k, 'p, 'e) OwnedDelivery"
  | Refused "('i, 's, 'c) DeliveryMessage"
  | Began "('p, 'e) TurnBinding" "('i, 's, 'c) DeliveryMessage list"
  | Committed "('p, 'e) TurnBinding" "('i, 's, 'c) DeliveryMessage list"
  | CommitFailed "('p, 'e) TurnBinding"
  | Terminated "('i, 's, 'c, 'k, 'p, 'e) TerminalTransition"

inductive lifecycle_step ::
    "('i, 's, 'c, 'k, 'p, 'e) MessageDeliveryLifecycle \<Rightarrow> ('i, 's, 'c, 'k, 'p, 'e) DeliveryEvent \<Rightarrow>
     ('i, 's, 'c, 'k, 'p, 'e) MessageDeliveryLifecycle \<Rightarrow> bool" where
  admit: "admit_pending b m k l = (Inr (), l') \<Longrightarrow>
    lifecycle_step l (Admitted \<lparr>binding = b, message = m, completion = k\<rparr>) l'"
| refuse: "admit_pending b m k l = (Inl m', l') \<Longrightarrow> lifecycle_step l (Refused m') l'"
| begin_turn: "begin_delivery b l = (ms, l') \<Longrightarrow> lifecycle_step l (Began b ms) l'"
| commit: "finish_delivery b (f :: _ \<Rightarrow> unit + unit) l = (Inr ms, l') \<Longrightarrow>
    lifecycle_step l (Committed b ms) l'"
| commit_failed: "finish_delivery b (f :: _ \<Rightarrow> unit + unit) l = (Inl err, l') \<Longrightarrow>
    lifecycle_step l (CommitFailed b) l'"
| terminal: "transition target cause l = (tr, l') \<Longrightarrow> lifecycle_step l (Terminated tr) l'"

inductive lifecycle_run ::
    "('i, 's, 'c, 'k, 'p, 'e) DeliveryEvent list \<Rightarrow> ('i, 's, 'c, 'k, 'p, 'e) MessageDeliveryLifecycle \<Rightarrow> bool" where
  start: "lifecycle_run [] lifecycle_default"
| extend: "lifecycle_run evs l \<Longrightarrow> lifecycle_step l ev l' \<Longrightarrow> lifecycle_run (evs @ [ev]) l'"

fun admitted_of :: "('i, 's, 'c, 'k, 'p, 'e) DeliveryEvent \<Rightarrow> ('i, 's, 'c, 'k, 'p, 'e) OwnedDelivery list" where
  "admitted_of (Admitted d) = [d]"
| "admitted_of _ = []"

fun begun_of :: "('i, 's, 'c, 'k, 'p, 'e) DeliveryEvent \<Rightarrow> ('i, 's, 'c) DeliveryMessage list" where
  "begun_of (Began b ms) = ms"
| "begun_of _ = []"

fun committed_of :: "('i, 's, 'c, 'k, 'p, 'e) DeliveryEvent \<Rightarrow> ('i, 's, 'c) DeliveryMessage list" where
  "committed_of (Committed b ms) = ms"
| "committed_of _ = []"

fun fallbacks_of :: "('i, 's, 'c, 'k, 'p, 'e) DeliveryEvent \<Rightarrow> ('i, 's, 'c, 'k, 'p, 'e) OwnedDelivery list" where
  "fallbacks_of (Terminated tr) = fallbacks tr"
| "fallbacks_of _ = []"

fun released_of :: "('i, 's, 'c, 'k, 'p, 'e) DeliveryEvent \<Rightarrow> ('i, 's, 'c, 'k, 'p, 'e) OwnedDelivery list" where
  "released_of (Terminated tr) = fallbacks tr @ completions tr"
| "released_of _ = []"

definition gather :: "('ev \<Rightarrow> 'a list) \<Rightarrow> 'ev list \<Rightarrow> 'a multiset" where
  "gather f evs = mset (concat (map f evs))"

lemma gather_Nil [simp]: "gather f [] = {#}"
  by (simp add: gather_def)

lemma gather_snoc [simp]: "gather f (evs @ [ev]) = gather f evs + mset (f ev)"
  by (simp add: gather_def)

subsection \<open>Lemmas on the slot list\<close>

fun pending_of :: "('i, 's, 'c, 'k, 'p, 'e) DeliverySlot \<Rightarrow> ('i, 's, 'c) DeliveryMessage list" where
  "pending_of (Pending d) = [message d]"
| "pending_of _ = []"

fun projecting_of :: "('i, 's, 'c, 'k, 'p, 'e) DeliverySlot \<Rightarrow> ('i, 's, 'c) DeliveryMessage list" where
  "projecting_of (Projecting d) = [message d]"
| "projecting_of _ = []"

lemma owned_project [simp]: "owned (project_slot b slot) = owned slot"
  by (cases slot) auto

lemma owned_deliver [simp]: "owned (deliver_slot b slot) = owned slot"
  by (cases slot) auto

lemma project_id: "List.map_filter (pending_message b) xs = [] \<Longrightarrow> map (project_slot b) xs = xs"
proof (induction xs)
  case (Cons x xs)
  then show ?case by (cases x) (auto simp: map_filter_simps split: if_splits)
qed simp

lemma deliver_id: "List.map_filter (projecting_message b) xs = [] \<Longrightarrow> map (deliver_slot b) xs = xs"
proof (induction xs)
  case (Cons x xs)
  then show ?case by (cases x) (auto simp: map_filter_simps split: if_splits)
qed simp

lemma slots_begin: "begin_delivery b l = (ms, l') \<Longrightarrow> slots l' = map (project_slot b) (slots l)"
  by (auto simp: begin_delivery_def pending_messages_def Let_def project_id split: if_splits)

lemma slots_commit:
  "finish_delivery b f l = (Inr ms, l') \<Longrightarrow> slots l' = map (deliver_slot b) (slots l)"
  by (auto simp: finish_delivery_def Let_def deliver_id split: if_splits sum.splits)

lemma finish_failed_unchanged: "finish_delivery b commit l = (Inl err, l') \<Longrightarrow> l' = l"
  by (auto simp: finish_delivery_def Let_def split: if_splits sum.splits)

lemma begin_messages: "begin_delivery b l = (ms, l') \<Longrightarrow> ms = pending_messages b l"
  by (auto simp: begin_delivery_def Let_def split: if_splits)

lemma commit_messages:
  "finish_delivery b commit l = (Inr ms, l') \<Longrightarrow> ms = List.map_filter (projecting_message b) (slots l)"
  by (auto simp: finish_delivery_def Let_def split: if_splits sum.splits)

lemma pending_split:
  "mset (concat (map pending_of xs)) =
     mset (List.map_filter (pending_message b) xs) + mset (concat (map pending_of (map (project_slot b) xs)))"
proof (induction xs)
  case (Cons x xs)
  then show ?case by (cases x) (auto simp: map_filter_simps)
qed (simp add: map_filter_simps)

lemma projecting_gain:
  "mset (concat (map projecting_of (map (project_slot b) xs))) =
     mset (List.map_filter (pending_message b) xs) + mset (concat (map projecting_of xs))"
proof (induction xs)
  case (Cons x xs)
  then show ?case by (cases x) (auto simp: map_filter_simps)
qed (simp add: map_filter_simps)

lemma projecting_split:
  "mset (concat (map projecting_of xs)) =
     mset (List.map_filter (projecting_message b) xs) + mset (concat (map projecting_of (map (deliver_slot b) xs)))"
proof (induction xs)
  case (Cons x xs)
  then show ?case by (cases x) (auto simp: map_filter_simps)
qed (simp add: map_filter_simps)

lemma pending_deliver [simp]: "pending_of (deliver_slot b slot) = pending_of slot"
  by (cases slot) auto

lemma transition_kept:
  "snd (transition_slots target cause xs) = filter (\<lambda>slot. \<not> target_matches target (owned slot)) xs"
  by (induction xs) (auto simp: Let_def split: prod.splits DeliverySlot.splits)

lemma transition_conserves:
  "transition_slots target cause xs = (tr, kept) \<Longrightarrow>
     mset (map owned xs) = mset (map owned kept) + mset (fallbacks tr @ completions tr)"
proof (induction xs arbitrary: tr kept)
  case (Cons x xs)
  obtain tr0 kept0 where r: "transition_slots target cause xs = (tr0, kept0)" by fastforce
  from Cons.prems r Cons.IH [OF r] show ?case
    by (cases x) (auto split: if_splits)
qed simp

lemma transition_fallbacks:
  "transition_slots target cause xs = (tr, kept) \<Longrightarrow>
     mset (map message (fallbacks tr)) + mset (concat (map pending_of kept)) \<subseteq># mset (concat (map pending_of xs))"
proof (induction xs arbitrary: tr kept)
  case (Cons x xs)
  obtain tr0 kept0 where r: "transition_slots target cause xs = (tr0, kept0)" by fastforce
  from Cons.prems r Cons.IH [OF r] show ?case
    by (cases x) (auto split: if_splits intro: subset_mset.order_trans)
qed simp

lemma transition_projecting:
  "transition_slots target cause xs = (tr, kept) \<Longrightarrow>
     mset (concat (map projecting_of kept)) \<subseteq># mset (concat (map projecting_of xs))"
proof (induction xs arbitrary: tr kept)
  case (Cons x xs)
  obtain tr0 kept0 where r: "transition_slots target cause xs = (tr0, kept0)" by fastforce
  from Cons.prems r Cons.IH [OF r] show ?case
    by (cases x) (auto split: if_splits intro: subset_mset.order_trans)
qed simp

subsection \<open>Invariants of every run\<close>

definition distinct_identities :: "('i, 's, 'c, 'k, 'p, 'e) MessageDeliveryLifecycle \<Rightarrow> bool" where
  "distinct_identities l \<longleftrightarrow> distinct (map (\<lambda>slot. message_identity (message (owned slot))) (slots l))"

lemma slots_terminal:
  "transition target cause l = (tr, l') \<Longrightarrow> transition_slots target cause (slots l) = (tr, slots l')"
  by (auto simp: transition_def split: prod.splits)

lemma distinct_identities_step:
  assumes "lifecycle_step l ev l'" and "distinct_identities l"
  shows "distinct_identities l'"
  using assms(1)
proof (cases rule: lifecycle_step.cases)
  case (admit b m k)
  with assms(2) show ?thesis
    by (auto simp: admit_pending_def distinct_identities_def split: if_splits) blast
next
  case (refuse b m k m')
  with assms(2) show ?thesis by (auto simp: admit_pending_def split: if_splits)
next
  case (begin_turn b ms)
  with assms(2) show ?thesis
    by (simp add: distinct_identities_def slots_begin comp_def)
next
  case (commit b f ms)
  with assms(2) show ?thesis
    by (simp add: distinct_identities_def slots_commit [of b f] comp_def)
next
  case (commit_failed b f err)
  with assms(2) show ?thesis
    using finish_failed_unchanged by metis
next
  case (terminal target cause tr)
  then have "slots l' = filter (\<lambda>slot. \<not> target_matches target (owned slot)) (slots l)"
    using transition_kept slots_terminal by (metis snd_conv)
  with assms(2) show ?thesis
    by (simp add: distinct_identities_def distinct_map_filter)
qed

lemma owned_step:
  assumes "lifecycle_step l ev l'"
  shows "mset (map owned (slots l)) + mset (admitted_of ev) =
    mset (map owned (slots l')) + mset (released_of ev)"
  using assms
proof (cases rule: lifecycle_step.cases)
  case (admit b m k)
  then show ?thesis by (auto simp: admit_pending_def split: if_splits)
next
  case (refuse b m k m')
  then show ?thesis by (auto simp: admit_pending_def split: if_splits)
next
  case (begin_turn b ms)
  then show ?thesis by (simp add: slots_begin comp_def)
next
  case (commit b f ms)
  then show ?thesis by (simp add: slots_commit [of b f] comp_def)
next
  case (commit_failed b f err)
  then show ?thesis using finish_failed_unchanged by fastforce
next
  case (terminal target cause tr)
  then show ?thesis using transition_conserves [OF slots_terminal] by fastforce
qed

text \<open>Messages waiting, as a multiset: handed to a turn by \<open>begin\<close>, or projected and uncommitted.\<close>

definition waiting :: "('i, 's, 'c, 'k, 'p, 'e) MessageDeliveryLifecycle \<Rightarrow> ('i, 's, 'c) DeliveryMessage multiset" where
  "waiting l = mset (concat (map pending_of (slots l)))"

definition in_flight :: "('i, 's, 'c, 'k, 'p, 'e) MessageDeliveryLifecycle \<Rightarrow> ('i, 's, 'c) DeliveryMessage multiset" where
  "in_flight l = mset (concat (map projecting_of (slots l)))"

lemma waiting_step:
  assumes "lifecycle_step l ev l'"
  shows "mset (begun_of ev) + mset (map message (fallbacks_of ev)) + waiting l' \<subseteq>#
    waiting l + mset (map message (admitted_of ev))"
  using assms
proof (cases rule: lifecycle_step.cases)
  case (admit b m k)
  then show ?thesis by (auto simp: admit_pending_def waiting_def split: if_splits)
next
  case (refuse b m k m')
  then show ?thesis by (auto simp: admit_pending_def waiting_def split: if_splits)
next
  case (begin_turn b ms)
  have ms: "ms = List.map_filter (pending_message b) (slots l)"
    using begin_turn begin_messages by (simp add: pending_messages_def)
  show ?thesis
    using pending_split [of "slots l" b] begin_turn by (simp add: waiting_def slots_begin ms)
next
  case (commit b f ms)
  then show ?thesis by (simp add: slots_commit [of b f] waiting_def comp_def)
next
  case (commit_failed b f err)
  then show ?thesis using finish_failed_unchanged by (fastforce simp: waiting_def)
next
  case (terminal target cause tr)
  then show ?thesis using transition_fallbacks [OF slots_terminal] by (fastforce simp: waiting_def)
qed

lemma in_flight_step:
  assumes "lifecycle_step l ev l'"
  shows "mset (committed_of ev) + in_flight l' \<subseteq># in_flight l + mset (begun_of ev)"
  using assms
proof (cases rule: lifecycle_step.cases)
  case (admit b m k)
  then show ?thesis by (auto simp: admit_pending_def in_flight_def split: if_splits)
next
  case (refuse b m k m')
  then show ?thesis by (auto simp: admit_pending_def in_flight_def split: if_splits)
next
  case (begin_turn b ms)
  have ms: "ms = List.map_filter (pending_message b) (slots l)"
    using begin_turn begin_messages by (simp add: pending_messages_def)
  show ?thesis
    using projecting_gain [of b "slots l"] begin_turn by (simp add: in_flight_def slots_begin ms)
next
  case (commit b f ms)
  have ms: "ms = List.map_filter (projecting_message b) (slots l)"
    using commit commit_messages by metis
  show ?thesis
    using projecting_split [of "slots l" b] commit by (simp add: in_flight_def slots_commit [of b f] ms)
next
  case (commit_failed b f err)
  then show ?thesis using finish_failed_unchanged by (fastforce simp: in_flight_def)
next
  case (terminal target cause tr)
  then show ?thesis using transition_projecting [OF slots_terminal] by (fastforce simp: in_flight_def)
qed

lemma subseteq_mset_chain:
  fixes A B C D E :: "'a multiset"
  assumes "A + B \<subseteq># C" and "D + E \<subseteq># B + F"
  shows "A + D + E \<subseteq># C + F"
proof -
  have "A + D + E \<subseteq># A + (B + F)"
    using assms(2) by (simp add: add.assoc)
  also have "\<dots> \<subseteq># C + F"
    using assms(1) by (simp add: add.assoc [symmetric])
  finally show ?thesis .
qed

text \<open>
  C16: No delivery is lost or handed out twice. In every run of the lifecycle, the deliveries
  admitted so far are, with multiplicity, exactly those still held in a slot together with those
  released as fallbacks or completions, so each completion handle is returned at most once; and
  no two slots held at the same time have the same identity.
\<close>

theorem delivery_conservation:
  assumes "lifecycle_run evs l"
  shows "gather admitted_of evs = mset (map owned (slots l)) + gather released_of evs \<and>
    distinct_identities l"
  using assms
proof (induction rule: lifecycle_run.induct)
  case start
  then show ?case by (simp add: lifecycle_default_def distinct_identities_def)
next
  case (extend evs l ev l')
  then show ?case
    using owned_step [of l ev l'] distinct_identities_step [of l ev l']
    by (simp add: union_ac add_left_imp_eq)
qed

text \<open>
  C10: Nothing is delivered twice. In every run, the messages handed to a turn by
  \<open>begin_delivery\<close> and the messages released for fallback delivery are, counted together, among
  the admitted messages: a message is handed to a turn once, or falls back once, but never both. And
  the messages reported as committed by \<open>finish_delivery\<close> are among those handed to a turn.
\<close>

theorem delivery_at_most_once:
  assumes "lifecycle_run evs l"
  shows "gather begun_of evs + image_mset message (gather fallbacks_of evs) + waiting l \<subseteq>#
           image_mset message (gather admitted_of evs) \<and>
         gather committed_of evs + in_flight l \<subseteq># gather begun_of evs"
  using assms
proof (induction rule: lifecycle_run.induct)
  case start
  then show ?case by (simp add: waiting_def in_flight_def lifecycle_default_def)
next
  case (extend evs l ev l')
  note 1 = subseteq_mset_chain [OF conjunct1 [OF extend.IH] waiting_step [OF extend.hyps(2)]]
  note 2 = subseteq_mset_chain [OF conjunct2 [OF extend.IH] in_flight_step [OF extend.hyps(2)]]
  show ?case
    using 1 2 by (simp add: union_ac)
qed

definition example_message :: "(nat, unit, nat) DeliveryMessage" where
  "example_message = \<lparr>message_identity = 7, message_source = (), message_content = 1\<rparr>"

definition example_turn :: "(nat, nat) TurnBinding" where
  "example_turn = \<lparr>binding_prompt_id = 1, binding_epoch = 0\<rparr>"

definition example_owned :: "(nat, unit, nat, nat, nat, nat) OwnedDelivery" where
  "example_owned = \<lparr>binding = example_turn, message = example_message, completion = 3\<rparr>"

lemma example_run:
  "lifecycle_run [Admitted example_owned, Began example_turn [example_message],
     Terminated \<lparr>fallbacks = [], completions = [example_owned]\<rparr>] \<lparr>slots = []\<rparr>"
proof -
  have "lifecycle_run ([] @ [Admitted example_owned]) \<lparr>slots = [Pending example_owned]\<rparr>"
    unfolding example_owned_def
    by (rule lifecycle_run.extend [OF lifecycle_run.start], intro lifecycle_step.admit)
      (simp add: admit_pending_def lifecycle_default_def)
  then have "lifecycle_run (([] @ [Admitted example_owned]) @ [Began example_turn [example_message]])
      \<lparr>slots = [Projecting example_owned]\<rparr>"
    by (rule lifecycle_run.extend, intro lifecycle_step.intros)
      (simp add: begin_delivery_def pending_messages_def map_filter_simps example_owned_def)
  then have "lifecycle_run ((([] @ [Admitted example_owned]) @ [Began example_turn [example_message]]) @
      [Terminated \<lparr>fallbacks = [], completions = [example_owned]\<rparr>]) \<lparr>slots = []\<rparr>"
    by (rule lifecycle_run.extend, intro lifecycle_step.terminal [of All Completion])
      (simp add: transition_def)
  then show ?thesis by simp
qed

theorem delivery_conservation_witness:
  "gather admitted_of [Admitted example_owned, Began example_turn [example_message],
     Terminated \<lparr>fallbacks = [], completions = [example_owned]\<rparr>] =
   gather released_of [Admitted example_owned, Began example_turn [example_message],
     Terminated \<lparr>fallbacks = [], completions = [example_owned]\<rparr>]"
  using delivery_conservation [OF example_run] by simp

theorem delivery_at_most_once_witness:
  "gather begun_of [Admitted example_owned, Began example_turn [example_message],
     Terminated \<lparr>fallbacks = [], completions = [example_owned]\<rparr>] \<subseteq># {#example_message#}"
  using delivery_at_most_once [OF example_run]
  by (simp add: gather_def waiting_def example_owned_def)

subsection \<open>One turn\<close>

definition turn_slots ::
    "('p, 'e) TurnBinding \<Rightarrow> ('i, 's, 'c, 'k, 'p, 'e) MessageDeliveryLifecycle \<Rightarrow> ('i, 's, 'c, 'k, 'p, 'e) DeliverySlot list" where
  "turn_slots b l = filter (\<lambda>slot. binding (owned slot) = b) (slots l)"

lemma filter_map_other:
  "(\<And>x. P (f x) = P x) \<Longrightarrow> (\<And>x. P x \<Longrightarrow> f x = x) \<Longrightarrow> filter P (map f xs) = filter P xs"
  by (induction xs) auto

lemma project_other: "binding (owned slot) \<noteq> b \<Longrightarrow> project_slot b slot = slot"
  by (cases slot) auto

lemma deliver_other: "binding (owned slot) \<noteq> b \<Longrightarrow> deliver_slot b slot = slot"
  by (cases slot) auto

text \<open>
  Turns do not interfere. Beginning, finishing (with any commit outcome) or terminating one
  turn leaves the slots of every other turn as they are, in their order; and terminating a turn
  leaves none of its own slots, while terminating all turns empties the lifecycle.
\<close>

theorem turn_isolation:
  assumes other: "b' \<noteq> b"
  shows "turn_slots b' (snd (begin_delivery b l)) = turn_slots b' l \<and>
    turn_slots b' (snd (finish_delivery b commit l)) = turn_slots b' l \<and>
    turn_slots b' (snd (transition (Turn b) cause l)) = turn_slots b' l \<and>
    turn_slots b (snd (transition (Turn b) cause l)) = [] \<and>
    lifecycle_is_empty (snd (transition All cause l))"
proof (intro conjI)
  have p: "filter (\<lambda>slot. binding (owned slot) = b') (map (project_slot b) xs) =
      filter (\<lambda>slot. binding (owned slot) = b') xs" for xs :: "('c, 'd, 'e, 'f, 'a, 'b) DeliverySlot list"
    by (rule filter_map_other) (use other project_other in auto)
  have d: "filter (\<lambda>slot. binding (owned slot) = b') (map (deliver_slot b) xs) =
      filter (\<lambda>slot. binding (owned slot) = b') xs" for xs :: "('c, 'd, 'e, 'f, 'a, 'b) DeliverySlot list"
    by (rule filter_map_other) (use other deliver_other in auto)
  have t: "slots (snd (transition target cause l)) =
      filter (\<lambda>slot. \<not> target_matches target (owned slot)) (slots l)" for target
    using transition_kept [of target cause "slots l"] by (auto simp: transition_def split: prod.splits)
  show "turn_slots b' (snd (begin_delivery b l)) = turn_slots b' l"
    using p slots_begin [of b l] by (metis prod.collapse turn_slots_def)
  show "turn_slots b' (snd (finish_delivery b commit l)) = turn_slots b' l"
  proof (cases "finish_delivery b commit l")
    case (Pair res l')
    then show ?thesis
      using d slots_commit [of b commit l] finish_failed_unchanged [of b commit l]
      by (cases res) (simp_all add: turn_slots_def)
  qed
  show "turn_slots b' (snd (transition (Turn b) cause l)) = turn_slots b' l"
    using other by (auto simp: turn_slots_def t intro: filter_cong)
  show "turn_slots b (snd (transition (Turn b) cause l)) = []"
    by (simp add: turn_slots_def t filter_empty_conv)
  show "lifecycle_is_empty (snd (transition All cause l))"
    by (simp add: lifecycle_is_empty_def t)
qed

theorem turn_isolation_witness:
  "lifecycle_is_empty (snd (transition All HardTeardown \<lparr>slots = [Delivered example_owned]\<rparr>))"
proof -
  have "\<lparr>binding_prompt_id = 2, binding_epoch = 0\<rparr> \<noteq> example_turn"
    by (simp add: example_turn_def)
  from turn_isolation [OF this, of _ "\<lambda>_. Inr () :: unit + unit"] show ?thesis by blast
qed

lemma projected_messages:
  assumes "\<And>d. Projecting d \<in> set xs \<Longrightarrow> binding d \<noteq> b"
  shows "List.map_filter (projecting_message b) (map (project_slot b) xs) = List.map_filter (pending_message b) xs"
  using assms
proof (induction xs)
  case (Cons x xs)
  then show ?case by (cases x) (auto simp: map_filter_simps)
qed (simp add: map_filter_simps)

lemma nothing_projecting: "List.map_filter (projecting_message b) (map (deliver_slot b) xs) = []"
proof (induction xs)
  case (Cons x xs)
  then show ?case by (cases x) (auto simp: map_filter_simps)
qed (simp add: map_filter_simps)

lemma nothing_pending: "List.map_filter (pending_message b) (map (deliver_slot b) (map (project_slot b) xs)) = []"
proof (induction xs)
  case (Cons x xs)
  then show ?case by (cases x) (auto simp: map_filter_simps)
qed (simp add: map_filter_simps)

text \<open>
  One delivery round. When a turn with nothing in flight begins delivery and then finishes it,
  the commit closure is given exactly the messages that were handed out, in order. If it
  fails, its error is returned and the messages stay in flight for a retry; if it succeeds, they
  are returned and the turn has nothing pending or in flight. A turn with nothing pending does not
  call the closure at all.
\<close>

theorem delivery_round:
  assumes idle: "\<And>d. Projecting d \<in> set (slots l) \<Longrightarrow> binding d \<noteq> b"
    and b: "begin_delivery b l = (ms, l1)" and f: "finish_delivery b commit l1 = (res, l2)"
  shows "if ms = [] then res = Inr [] \<and> l2 = l
    else case commit ms of
           Inl err \<Rightarrow> res = Inl err \<and> l2 = l1
         | Inr _ \<Rightarrow> res = Inr ms \<and> pending_messages b l2 = [] \<and>
                    List.map_filter (projecting_message b) (slots l2) = []"
proof -
  have ms: "ms = List.map_filter (pending_message b) (slots l)"
    using begin_messages [OF b] by (simp add: pending_messages_def)
  have s1: "slots l1 = map (project_slot b) (slots l)"
    by (rule slots_begin [OF b])
  have "List.map_filter (projecting_message b) (slots l1) = ms"
    unfolding s1 ms by (rule projected_messages) (use idle in blast)
  then have fin: "finish_delivery b commit l1 =
      (if ms = [] then (Inr [], l1)
       else case commit ms of Inl err \<Rightarrow> (Inl err, l1)
            | Inr _ \<Rightarrow> (Inr ms, l1\<lparr>slots := map (deliver_slot b) (slots l1)\<rparr>))"
    by (simp add: finish_delivery_def Let_def)
  have "ms = [] \<Longrightarrow> l1 = l"
    using b ms by (simp add: begin_delivery_def pending_messages_def)
  then show ?thesis
    using f fin nothing_projecting [of b "slots l1"] nothing_pending [of b "slots l"]
    by (auto simp: pending_messages_def s1 split: sum.splits)
qed

theorem delivery_round_witness:
  "finish_delivery example_turn (\<lambda>_. Inl (5 :: nat)) \<lparr>slots = [Projecting example_owned]\<rparr> =
     (Inl 5, \<lparr>slots = [Projecting example_owned]\<rparr>)"
proof -
  let ?l = "\<lparr>slots = [Pending example_owned]\<rparr>" and ?l1 = "\<lparr>slots = [Projecting example_owned]\<rparr>"
  have b: "begin_delivery example_turn ?l = ([example_message], ?l1)"
    by (simp add: begin_delivery_def pending_messages_def map_filter_simps example_owned_def)
  show ?thesis
    using delivery_round [OF _ b prod.collapse [symmetric], of "\<lambda>_. Inl (5 :: nat)"]
    by (simp add: prod_eq_iff)
qed

end
