(* ===== verification/Agent_Identity.thy ===== *)
theory Agent_Identity
  imports Rust_Num Rust_Str
begin

text \<open>
  Names of agents in \<^verbatim>\<open>xai-message-delivery-core\<close>: child addresses and their resolution
  (\<^verbatim>\<open>address.rs\<close>), restart-stable agent ids and attempt ids (\<^verbatim>\<open>identity.rs\<close>), and the
  authorisation of delivery operations (\<^verbatim>\<open>envelope.rs\<close>). The locale \<open>opaque_token\<close> is
  the contract shared by the three minted token types.
\<close>

subsection \<open>Addresses\<close>

datatype AgentAddress = AgentAddress str

fun AgentAddress_as_str :: "AgentAddress \<Rightarrow> str" where
  "AgentAddress_as_str (AgentAddress s) = s"

definition ADDRESS_PREFIX :: str where
  "ADDRESS_PREFIX = lit ''aa1.''"

definition is_presentable :: "str \<Rightarrow> bool" where
  "is_presentable token \<longleftrightarrow>
     token \<noteq> [] \<and> \<not> eq_ignore_ascii_case token (lit ''null'') \<and>
     \<not> eq_ignore_ascii_case token (lit ''none'') \<and> \<not> eq_ignore_ascii_case token (lit ''undefined'')"

definition AgentAddress_mint :: "u128 \<Rightarrow> AgentAddress" where
  "AgentAddress_mint entropy = AgentAddress (ADDRESS_PREFIX @ show_hex (unat entropy))"

definition AgentAddress_parse :: "str \<Rightarrow> AgentAddress option" where
  "AgentAddress_parse token =
     (let token = trim token in if \<not> is_presentable token then None else Some (AgentAddress token))"

definition mint_child_address :: "bool \<Rightarrow> u128 \<Rightarrow> AgentAddress option" where
  "mint_child_address workflow entropy = (if workflow then None else Some (AgentAddress_mint entropy))"

definition advertised_address :: "str option \<Rightarrow> bool \<Rightarrow> str option" where
  "advertised_address stored workflow =
     (if workflow then None
      else case stored of
             Some token \<Rightarrow> if AgentAddress_parse token \<noteq> None then Some token else None
           | None \<Rightarrow> None)"

datatype AddressPresence = Active | Pending | Gone

record AddressCandidate =
  stored_address :: "str option"
  session_id :: str
  owner_match :: bool
  generation_current :: bool
  workflow :: bool
  presence :: AddressPresence

datatype AddressDecision =
    Owned AddressPresence
  | RawSessionId
  | Foreign
  | Stale
  | WorkflowNotAddressable
  | Unresolved

definition resolve_address :: "str \<Rightarrow> AddressCandidate option \<Rightarrow> AddressDecision" where
  "resolve_address presented candidate =
     (case candidate of
        None \<Rightarrow> Unresolved
      | Some candidate \<Rightarrow>
          let presented = trim presented;
              address_match = (case stored_address candidate of Some stored \<Rightarrow> stored = presented | None \<Rightarrow> False)
          in if session_id candidate = presented \<and> \<not> address_match then RawSessionId
             else if \<not> address_match then Unresolved
             else if workflow candidate then WorkflowNotAddressable
             else if \<not> owner_match candidate then Foreign
             else if \<not> generation_current candidate \<or> presence candidate = Gone then Stale
             else Owned (presence candidate))"

subsection \<open>Agent and attempt ids\<close>

definition AGENT_PREFIX :: str where "AGENT_PREFIX = lit ''ag1.''"
definition ATTEMPT_PREFIX :: str where "ATTEMPT_PREFIX = lit ''at1.''"
definition UUID_TOKEN_LEN :: nat where "UUID_TOKEN_LEN = 36"
definition UUID_HYPHENS :: "nat list" where "UUID_HYPHENS = [8, 13, 18, 23]"
definition UUID_V7_INDEX :: nat where "UUID_V7_INDEX = 14"
definition UUID_VARIANT_INDEX :: nat where "UUID_VARIANT_INDEX = 19"

definition is_uuid_v7 :: "str \<Rightarrow> bool" where
  "is_uuid_v7 token \<longleftrightarrow>
     (let bytes = utf8_bytes token
      in length bytes = UUID_TOKEN_LEN \<and>
         list_all (\<lambda>(index, byte). if index \<in> set UUID_HYPHENS then byte = 45 else is_lower_hex byte)
           (enumerate 0 bytes) \<and>
         bytes ! UUID_V7_INDEX = 55 \<and>
         bytes ! UUID_VARIANT_INDEX \<in> {56, 57, 97, 98})"

definition parse_prefixed :: "str \<Rightarrow> str \<Rightarrow> str option" where
  "parse_prefixed token prfx =
     (let token = trim token
      in case strip_prefix token prfx of
           None \<Rightarrow> None
         | Some rest \<Rightarrow>
             if rest = [] \<or> \<not> list_all is_lower_hex (utf8_bytes rest) then None else Some token)"

datatype AgentId = AgentId str

fun AgentId_as_str :: "AgentId \<Rightarrow> str" where
  "AgentId_as_str (AgentId s) = s"

definition AgentId_mint :: "u128 \<Rightarrow> AgentId" where
  "AgentId_mint entropy = AgentId (AGENT_PREFIX @ show_hex (unat entropy))"

definition AgentId_parse :: "str \<Rightarrow> AgentId option" where
  "AgentId_parse token =
     (let token = trim token
      in if is_uuid_v7 token then Some (AgentId token)
         else map_option AgentId (parse_prefixed token AGENT_PREFIX))"

definition AgentId_from_uuid_v7 :: "str \<Rightarrow> AgentId option" where
  "AgentId_from_uuid_v7 token = (if is_uuid_v7 token then Some (AgentId token) else None)"

datatype AttemptId = AttemptId str

fun AttemptId_as_str :: "AttemptId \<Rightarrow> str" where
  "AttemptId_as_str (AttemptId s) = s"

definition AttemptId_mint :: "u128 \<Rightarrow> AttemptId" where
  "AttemptId_mint entropy = AttemptId (ATTEMPT_PREFIX @ show_hex (unat entropy))"

definition AttemptId_parse :: "str \<Rightarrow> AttemptId option" where
  "AttemptId_parse token = map_option AttemptId (parse_prefixed token ATTEMPT_PREFIX)"

datatype IdentityAction =
    Start AgentId AttemptId
  | Resume AgentId AttemptId
  | Fork AgentId AttemptId

definition next_identity :: "AgentId option \<Rightarrow> bool \<Rightarrow> u128 \<Rightarrow> u128 \<Rightarrow> IdentityAction" where
  "next_identity previous fork agent_entropy attempt_entropy =
     (let attempt = AttemptId_mint attempt_entropy
      in case previous of
           None \<Rightarrow> Start (AgentId_mint agent_entropy) attempt
         | Some agent \<Rightarrow> if fork then Fork (AgentId_mint agent_entropy) attempt else Resume agent attempt)"

subsection \<open>Operations of an envelope\<close>

datatype Principal = Human | Agent | Runtime

datatype Operation = Queue | Steer | Interject | InterruptAndSend

datatype ('m, 'p) DeliveryIdentity = DeliveryIdentity 'm 'p

record ('g, 'c, 'i) DeliveryEnvelope =
  principal :: Principal
  operation :: Operation
  content :: 'c
  envelope_identity :: 'i
  grant :: 'g

definition from_human :: "Operation \<Rightarrow> 'c \<Rightarrow> 'i \<Rightarrow> 'g \<Rightarrow> ('g, 'c, 'i) DeliveryEnvelope" where
  "from_human op c i g =
     \<lparr>principal = Human, operation = op, content = c, envelope_identity = i, grant = g\<rparr>"

definition from_agent :: "Operation \<Rightarrow> 'c \<Rightarrow> 'i \<Rightarrow> 'g \<Rightarrow> ('g, 'c, 'i) DeliveryEnvelope" where
  "from_agent op c i g =
     \<lparr>principal = Agent, operation = op, content = c, envelope_identity = i, grant = g\<rparr>"

definition envelope_into_parts :: "('g, 'c, 'i) DeliveryEnvelope \<Rightarrow> Operation \<times> 'c \<times> 'i \<times> 'g" where
  "envelope_into_parts e = (operation e, content e, envelope_identity e, grant e)"

datatype OperationSet = OperationSet u8

definition OperationSet_QUEUE :: OperationSet where
  "OperationSet_QUEUE = OperationSet (push_bit 0 1)"

definition OperationSet_QUEUE_AND_STEER :: OperationSet where
  "OperationSet_QUEUE_AND_STEER = OperationSet (or (push_bit 0 1) (push_bit 1 1))"

fun operation_flag :: "Operation \<Rightarrow> u8" where
  "operation_flag Queue = push_bit 0 1"
| "operation_flag Steer = push_bit 1 1"
| "operation_flag Interject = push_bit 2 1"
| "operation_flag InterruptAndSend = push_bit 3 1"

fun OperationSet_contains :: "OperationSet \<Rightarrow> Operation \<Rightarrow> bool" where
  "OperationSet_contains (OperationSet bits) op \<longleftrightarrow> and bits (operation_flag op) \<noteq> 0"

datatype AuthorizedOperation = AuthorizedOperation Operation
datatype UnsupportedOperation = UnsupportedOperation Operation

definition authorize_operation ::
    "OperationSet \<Rightarrow> Operation \<Rightarrow> UnsupportedOperation + AuthorizedOperation" where
  "authorize_operation allowed requested =
     (if OperationSet_contains allowed requested then Inr (AuthorizedOperation requested)
      else Inl (UnsupportedOperation requested))"

subsection \<open>The contract of a minted token\<close>

locale opaque_token =
  fixes mint :: "u128 \<Rightarrow> 't" and parse :: "str \<Rightarrow> 't option" and as_str :: "'t \<Rightarrow> str"
  assumes parse_mint: "parse (as_str (mint e)) = Some (mint e)"
    and mint_inject: "mint e = mint e' \<Longrightarrow> e = e'"
    and parse_trim: "parse (trim s) = parse s"
    and as_str_parse: "parse s = Some t \<Longrightarrow> as_str t = trim s"
begin

lemma parse_parsed: "parse s = Some t \<Longrightarrow> parse (as_str t) = Some t"
  by (simp add: as_str_parse parse_trim)

lemma parse_padded_mint: "trim s = as_str (mint e) \<Longrightarrow> parse s = Some (mint e)"
  by (metis parse_mint parse_trim)

lemma round_trip:
  "(trim s = as_str (mint e) \<longrightarrow> parse s = Some (mint e)) \<and> (mint e = mint e' \<longleftrightarrow> e = e') \<and>
   (parse s = Some t \<longrightarrow> parse (as_str t) = Some t)"
  using parse_padded_mint parse_parsed mint_inject by blast

end

lemma lower_hex_ascii: "is_lower_hex c \<Longrightarrow> c < 128"
  by (auto simp: is_lower_hex_def)

lemma lower_hex_bytes:
  "list_all is_lower_hex (utf8_bytes s) \<longleftrightarrow> list_all is_lower_hex s"
proof
  assume *: "list_all is_lower_hex (utf8_bytes s)"
  then have "utf8_bytes s = s"
    by (intro utf8_bytes_all_ascii) (auto simp: list_all_iff dest: lower_hex_ascii)
  with * show "list_all is_lower_hex s" by simp
next
  assume *: "list_all is_lower_hex s"
  then have "utf8_bytes s = s"
    by (intro utf8_bytes_ascii) (auto simp: list_all_iff dest: lower_hex_ascii)
  with * show "list_all is_lower_hex (utf8_bytes s)" by simp
qed

definition is_prefix_char :: "uchar \<Rightarrow> bool" where
  "is_prefix_char c \<longleftrightarrow> c = 46 \<or> 48 \<le> c \<and> c \<le> 57 \<or> 97 \<le> c \<and> c \<le> 122"

lemma trimmed_token:
  assumes "\<forall>c \<in> set p. is_prefix_char c"
  shows "trimmed (p @ show_hex n)"
proof (rule trimmedI)
  fix c
  assume "c \<in> set (p @ show_hex n)"
  then have "is_prefix_char c"
    using assms show_hex_lower_hex by (fastforce simp: is_prefix_char_def is_lower_hex_def)
  then show "\<not> is_whitespace c"
    by (auto simp: is_prefix_char_def is_whitespace_def)
qed

lemma prefixes_plain [simp]:
  "\<forall>c \<in> set ADDRESS_PREFIX. is_prefix_char c" "\<forall>c \<in> set AGENT_PREFIX. is_prefix_char c"
  "\<forall>c \<in> set ATTEMPT_PREFIX. is_prefix_char c"
  by (simp_all add: ADDRESS_PREFIX_def AGENT_PREFIX_def ATTEMPT_PREFIX_def is_prefix_char_def)

lemma parse_prefixed_Some_iff:
  "parse_prefixed token p = Some s \<longleftrightarrow>
     s = trim token \<and> (\<exists>rest. trim token = p @ rest \<and> rest \<noteq> [] \<and> list_all is_lower_hex rest)"
  by (auto simp: parse_prefixed_def lower_hex_bytes strip_prefix_Some_iff Let_def split: option.splits if_splits)

lemma parse_prefixed_trim [simp]: "parse_prefixed (trim token) p = parse_prefixed token p"
  by (simp add: parse_prefixed_def)

lemma parse_prefixed_mint:
  "\<forall>c \<in> set p. is_prefix_char c \<Longrightarrow> parse_prefixed (p @ show_hex n) p = Some (p @ show_hex n)"
  by (auto simp: parse_prefixed_Some_iff trimmed_token list_all_iff dest: show_hex_lower_hex)

lemma presentable_address: "is_presentable (ADDRESS_PREFIX @ s)"
  by (simp add: is_presentable_def ADDRESS_PREFIX_def eq_ignore_ascii_case_def to_ascii_lowercase_def)

interpretation address_token: opaque_token AgentAddress_mint AgentAddress_parse AgentAddress_as_str
proof
  fix e e' :: u128 and s t
  show "AgentAddress_parse (AgentAddress_as_str (AgentAddress_mint e)) = Some (AgentAddress_mint e)"
    by (simp add: AgentAddress_mint_def AgentAddress_parse_def presentable_address trimmed_token)
  show "AgentAddress_mint e = AgentAddress_mint e' \<Longrightarrow> e = e'"
    by (simp add: AgentAddress_mint_def word_unat_eq_iff)
  show "AgentAddress_parse (trim s) = AgentAddress_parse s"
    by (simp add: AgentAddress_parse_def)
  show "AgentAddress_parse s = Some t \<Longrightarrow> AgentAddress_as_str t = trim s"
    by (auto simp: AgentAddress_parse_def Let_def split: if_splits)
qed

interpretation agent_token: opaque_token AgentId_mint AgentId_parse AgentId_as_str
proof
  fix e e' :: u128 and s t
  show "AgentId_parse (AgentId_as_str (AgentId_mint e)) = Some (AgentId_mint e)"
    by (simp add: AgentId_mint_def AgentId_parse_def parse_prefixed_mint trimmed_token Let_def)
  show "AgentId_mint e = AgentId_mint e' \<Longrightarrow> e = e'"
    by (simp add: AgentId_mint_def word_unat_eq_iff)
  show "AgentId_parse (trim s) = AgentId_parse s"
    by (simp add: AgentId_parse_def)
  show "AgentId_parse s = Some t \<Longrightarrow> AgentId_as_str t = trim s"
    by (auto simp: AgentId_parse_def Let_def parse_prefixed_Some_iff split: if_splits)
qed

interpretation attempt_token: opaque_token AttemptId_mint AttemptId_parse AttemptId_as_str
proof
  fix e e' :: u128 and s t
  show "AttemptId_parse (AttemptId_as_str (AttemptId_mint e)) = Some (AttemptId_mint e)"
    by (simp add: AttemptId_mint_def AttemptId_parse_def parse_prefixed_mint)
  show "AttemptId_mint e = AttemptId_mint e' \<Longrightarrow> e = e'"
    by (simp add: AttemptId_mint_def word_unat_eq_iff)
  show "AttemptId_parse (trim s) = AttemptId_parse s"
    by (simp add: AttemptId_parse_def)
  show "AttemptId_parse s = Some t \<Longrightarrow> AttemptId_as_str t = trim s"
    by (auto simp: AttemptId_parse_def parse_prefixed_Some_iff)
qed

text \<open>
  Minted names survive a trip through text. For addresses, agent ids and attempt ids alike, a
  minted token presented with any surrounding white space parses to itself, different entropy
  gives different tokens, and every token that was ever adopted parses to itself again.
\<close>

theorem token_round_trip:
  "((trim s = AgentAddress_as_str (AgentAddress_mint e) \<longrightarrow> AgentAddress_parse s = Some (AgentAddress_mint e)) \<and>
    (AgentAddress_mint e = AgentAddress_mint e' \<longleftrightarrow> e = e') \<and>
    (AgentAddress_parse s = Some ad \<longrightarrow> AgentAddress_parse (AgentAddress_as_str ad) = Some ad)) \<and>
   ((trim s = AgentId_as_str (AgentId_mint e) \<longrightarrow> AgentId_parse s = Some (AgentId_mint e)) \<and>
    (AgentId_mint e = AgentId_mint e' \<longleftrightarrow> e = e') \<and>
    (AgentId_parse s = Some ag \<longrightarrow> AgentId_parse (AgentId_as_str ag) = Some ag)) \<and>
   ((trim s = AttemptId_as_str (AttemptId_mint e) \<longrightarrow> AttemptId_parse s = Some (AttemptId_mint e)) \<and>
    (AttemptId_mint e = AttemptId_mint e' \<longleftrightarrow> e = e') \<and>
    (AttemptId_parse s = Some at \<longrightarrow> AttemptId_parse (AttemptId_as_str at) = Some at))"
  by (intro conjI address_token.round_trip [THEN conjunct1] address_token.round_trip [THEN conjunct2, THEN conjunct1]
      address_token.round_trip [THEN conjunct2, THEN conjunct2]
      agent_token.round_trip [THEN conjunct1] agent_token.round_trip [THEN conjunct2, THEN conjunct1]
      agent_token.round_trip [THEN conjunct2, THEN conjunct2]
      attempt_token.round_trip [THEN conjunct1] attempt_token.round_trip [THEN conjunct2, THEN conjunct1]
      attempt_token.round_trip [THEN conjunct2, THEN conjunct2])

theorem token_round_trip_witness:
  "AttemptId_parse (lit ''at1.0'') = Some (AttemptId_mint 0)"
proof -
  have "trim (lit ''at1.0'') = AttemptId_as_str (AttemptId_mint 0)"
    by (simp add: AttemptId_mint_def ATTEMPT_PREFIX_def show_hex_def digits_of.simps hex_digit_def
        str_simps)
  then show ?thesis
    using token_round_trip by blast
qed

subsection \<open>Separate name spaces\<close>

lemma uuid_chars:
  assumes "is_uuid_v7 t"
  shows "length t = 36" and "\<And>i. i < 36 \<Longrightarrow> i \<notin> {8, 13, 18, 23} \<Longrightarrow> is_lower_hex (t ! i)"
proof -
  let ?bs = "utf8_bytes t"
  have len: "length ?bs = 36" and all: "\<And>i. i < 36 \<Longrightarrow>
      if i \<in> {8, 13, 18, 23} then ?bs ! i = 45 else is_lower_hex (?bs ! i)"
    using assms
    by (auto simp: is_uuid_v7_def UUID_TOKEN_LEN_def UUID_HYPHENS_def Let_def list_all_length nth_enumerate_eq)
  have "?bs = t"
  proof (rule utf8_bytes_all_ascii)
    fix x
    assume "x \<in> set ?bs"
    then obtain i where "i < 36" "x = ?bs ! i"
      by (metis in_set_conv_nth len)
    with all [of i] show "x < 128"
      by (auto dest: lower_hex_ascii split: if_splits)
  qed
  with len show "length t = 36"
    by simp
  fix i :: nat
  assume "i < 36" and "i \<notin> {8, 13, 18, 23}"
  with all [of i] \<open>?bs = t\<close> show "is_lower_hex (t ! i)"
    by simp
qed

text \<open>
  The name spaces are separate. Nothing that parses as an agent id (a UUIDv7 or an
  \<open>ag1.\<close> token) parses as an attempt id, and a minted delivery address is neither an agent id
  nor an attempt id.
\<close>

theorem identity_spaces_disjoint:
  "(AgentId_parse s = None \<or> AttemptId_parse s = None) \<and>
   AgentId_parse (AgentAddress_as_str (AgentAddress_mint e)) = None \<and>
   AttemptId_parse (AgentAddress_as_str (AgentAddress_mint e)) = None"
proof -
  have no_uuid: "\<not> is_uuid_v7 (ADDRESS_PREFIX @ r)" "\<not> is_uuid_v7 (ATTEMPT_PREFIX @ r)" for r
    using uuid_chars(2) [of "ADDRESS_PREFIX @ r" 3] uuid_chars(2) [of "ATTEMPT_PREFIX @ r" 1]
    by (auto simp: ADDRESS_PREFIX_def ATTEMPT_PREFIX_def is_lower_hex_def)
  have other: "AGENT_PREFIX @ r \<noteq> ATTEMPT_PREFIX @ r'" "ADDRESS_PREFIX @ r \<noteq> AGENT_PREFIX @ r'"
    "ADDRESS_PREFIX @ r \<noteq> ATTEMPT_PREFIX @ r'" for r r'
    by (simp_all add: ADDRESS_PREFIX_def ATTEMPT_PREFIX_def AGENT_PREFIX_def)
  let ?a = "ADDRESS_PREFIX @ show_hex (unat e)"
  have pre: "parse_prefixed ?a AGENT_PREFIX = None" "parse_prefixed ?a ATTEMPT_PREFIX = None"
    using other by (auto simp: parse_prefixed_Some_iff trimmed_token simp flip: not_Some_eq)
  have "AgentId_parse s = None" if "AttemptId_parse s = Some t" for t
  proof -
    from that obtain r where r: "trim s = ATTEMPT_PREFIX @ r"
      by (auto simp: AttemptId_parse_def parse_prefixed_Some_iff)
    then have "parse_prefixed s AGENT_PREFIX = None"
      using other(1) by (metis not_Some_eq parse_prefixed_Some_iff)
    moreover have "\<not> is_uuid_v7 (trim s)"
      using r no_uuid by simp
    ultimately show ?thesis
      by (simp add: AgentId_parse_def)
  qed
  with pre no_uuid show ?thesis
    by (auto simp: AgentId_parse_def AttemptId_parse_def AgentAddress_mint_def trimmed_token Let_def
        simp flip: not_Some_eq)
qed

subsection \<open>Resolution, succession, authorisation\<close>

text \<open>
  A presented token reaches a child only by its address. Resolution answers \<open>Owned\<close> exactly
  when the trimmed token equals the stored address of a candidate that is not a workflow child,
  belongs to the caller, is of the current generation and is not gone; a token that matches only
  the session id is always reported as such. In particular the advertised address of a live child
  with a minted address resolves to it.
\<close>

theorem address_resolution:
  "(resolve_address s (Some c) = Owned p \<longleftrightarrow>
      stored_address c = Some (trim s) \<and> \<not> workflow c \<and> owner_match c \<and> generation_current c \<and>
      presence c = p \<and> p \<noteq> Gone) \<and>
   (resolve_address s (Some c) = RawSessionId \<longleftrightarrow>
      session_id c = trim s \<and> stored_address c \<noteq> Some (trim s)) \<and>
   resolve_address s None = Unresolved \<and>
   (stored_address c = map_option AgentAddress_as_str (mint_child_address (workflow c) e) \<and>
    advertised_address (stored_address c) (workflow c) = Some s \<and>
    owner_match c \<and> generation_current c \<and> presence c \<noteq> Gone \<longrightarrow>
      resolve_address s (Some c) = Owned (presence c))"
  by (auto simp: resolve_address_def advertised_address_def mint_child_address_def AgentAddress_mint_def
      trimmed_token Let_def split: option.splits if_splits)

theorem address_resolution_witness:
  "resolve_address (lit '' aa1.2a '')
     (Some \<lparr>stored_address = Some (lit ''aa1.2a''), session_id = lit ''s'', owner_match = True,
           generation_current = True, workflow = False, presence = Active\<rparr>) = Owned Active"
  by (subst address_resolution [THEN conjunct1]) (simp add: str_simps)

text \<open>
  Identity across activations. Without a previous agent the next activation starts a new one
  even if a fork was asked for; a resume keeps the agent; a fork with entropy other than the one
  that minted the previous agent gives a different agent; and every activation has an attempt id
  that differs from every attempt minted from other entropy.
\<close>

theorem next_identity_behaviour:
  "next_identity None fork a t = Start (AgentId_mint a) (AttemptId_mint t) \<and>
   next_identity (Some g) False a t = Resume g (AttemptId_mint t) \<and>
   (a' \<noteq> a \<longrightarrow>
      (\<exists>g'. next_identity (Some (AgentId_mint a')) True a t = Fork g' (AttemptId_mint t) \<and> g' \<noteq> AgentId_mint a')) \<and>
   (t' \<noteq> t \<longrightarrow> AttemptId_mint t' \<noteq> AttemptId_mint t)"
  using agent_token.mint_inject attempt_token.mint_inject by (auto simp: next_identity_def)

theorem next_identity_behaviour_witness:
  "\<exists>g'. next_identity (Some (AgentId_mint 1)) True 2 3 = Fork g' (AttemptId_mint 3) \<and> g' \<noteq> AgentId_mint 1"
  using next_identity_behaviour [of True 2 3 "AgentId_mint 1" 1 4] by simp

text \<open>
  An operation set authorises exactly its members: the queue set only \<open>Queue\<close>, the
  queue-and-steer set only \<open>Queue\<close> and \<open>Steer\<close>; a refused operation is returned as
  unsupported.
\<close>

theorem authorize_exactly:
  "authorize_operation OperationSet_QUEUE op =
     (if op = Queue then Inr (AuthorizedOperation op) else Inl (UnsupportedOperation op)) \<and>
   authorize_operation OperationSet_QUEUE_AND_STEER op =
     (if op = Queue \<or> op = Steer then Inr (AuthorizedOperation op) else Inl (UnsupportedOperation op))"
  by (cases op) (simp_all add: authorize_operation_def OperationSet_QUEUE_def OperationSet_QUEUE_AND_STEER_def)

end
