(* ===== verification/Interjection.thy ===== *)
theory Interjection
  imports Rust_Str
begin

text \<open>
  Mid-turn interjections: the shared event queue and the framing of drained entries
  (\<^verbatim>\<open>xai-interjection-core\<close>: \<^verbatim>\<open>events.rs\<close>, \<^verbatim>\<open>buffer.rs\<close>, \<^verbatim>\<open>format.rs\<close>).
  Every queue method runs under the queue's mutex, so a method is one step on the list of
  queued events. The locale \<open>event_queue\<close> is the contract its readers and producers rely on.
\<close>

subsection \<open>The event queue\<close>

record 'e EventQueue =
  events :: "'e list"

definition EventQueue_new :: "'e EventQueue" where
  "EventQueue_new = \<lparr>events = []\<rparr>"

definition EventQueue_push :: "'e \<Rightarrow> 'e EventQueue \<Rightarrow> 'e EventQueue" where
  "EventQueue_push event q = q\<lparr>events := events q @ [event]\<rparr>"

definition EventQueue_push_capped :: "'e \<Rightarrow> nat \<Rightarrow> 'e EventQueue \<Rightarrow> 'e EventQueue" where
  "EventQueue_push_capped event maximum q =
     (let q1 = events q @ [event]
      in if maximum < length q1 then q\<lparr>events := drop (length q1 - maximum) q1\<rparr> else q\<lparr>events := q1\<rparr>)"

definition EventQueue_len :: "'e EventQueue \<Rightarrow> nat" where
  "EventQueue_len q = length (events q)"

definition EventQueue_is_empty :: "'e EventQueue \<Rightarrow> bool" where
  "EventQueue_is_empty q \<longleftrightarrow> events q = []"

definition EventQueue_drain_matching :: "('e \<Rightarrow> bool) \<Rightarrow> 'e EventQueue \<Rightarrow> 'e list \<times> 'e EventQueue" where
  "EventQueue_drain_matching tk q =
     (let (matched, kept) = partition tk (events q) in (matched, q\<lparr>events := kept\<rparr>))"

definition EventQueue_drain_all :: "'e EventQueue \<Rightarrow> 'e list \<times> 'e EventQueue" where
  "EventQueue_drain_all q = (events q, q\<lparr>events := []\<rparr>)"

definition EventQueue_restore_front :: "'e list \<Rightarrow> 'e EventQueue \<Rightarrow> 'e EventQueue" where
  "EventQueue_restore_front evs q = (if evs = [] then q else q\<lparr>events := evs @ events q\<rparr>)"

definition EventQueue_clear :: "'e EventQueue \<Rightarrow> 'e EventQueue" where
  "EventQueue_clear q = q\<lparr>events := []\<rparr>"

definition EventQueue_snapshot :: "'e EventQueue \<Rightarrow> 'e list" where
  "EventQueue_snapshot q = events q"

locale event_queue =
  fixes push :: "'e \<Rightarrow> 'q \<Rightarrow> 'q"
    and drain_all :: "'q \<Rightarrow> 'e list \<times> 'q"
    and restore_front :: "'e list \<Rightarrow> 'q \<Rightarrow> 'q"
    and snapshot :: "'q \<Rightarrow> 'e list"
  assumes snapshot_push: "snapshot (push e q) = snapshot q @ [e]"
    and drained: "fst (drain_all q) = snapshot q"
    and emptied: "snapshot (snd (drain_all q)) = []"
    and snapshot_restore: "snapshot (restore_front es q) = es @ snapshot q"
begin

lemma snapshot_pushes: "snapshot (fold push es q) = snapshot q @ es"
  by (induction es arbitrary: q) (simp_all add: snapshot_push)

text \<open>A reader aborted after \<open>n\<close> events loses nothing and keeps the order.\<close>

lemma abort_safe:
  "drain_all q = (es, q1) \<Longrightarrow>
     snapshot (restore_front (drop n es) (fold push later q1)) = drop n (snapshot q) @ later"
  using drained [of q] emptied [of q] by (simp add: snapshot_restore snapshot_pushes)

end

interpretation code_queue: event_queue EventQueue_push EventQueue_drain_all EventQueue_restore_front
    EventQueue_snapshot
  by unfold_locales
    (simp_all add: EventQueue_push_def EventQueue_drain_all_def EventQueue_restore_front_def
      EventQueue_snapshot_def)

subsection \<open>Framing\<close>

definition LARGE_PROMPT_THRESHOLD :: nat where
  "LARGE_PROMPT_THRESHOLD = 25000"

definition INTERJECTION_NOTE :: str where
  "INTERJECTION_NOTE = lit ''The user sent a message while you were working:''"

definition INTERRUPT_NOTE :: str where
  "INTERRUPT_NOTE = lit ''The user interrupted the previous turn:''"

definition UNFINISHED_TASKS_REMINDER :: str where
  "UNFINISHED_TASKS_REMINDER = lit ''Make sure to complete any unfinished tasks from previous turns.''"

definition user_query :: "str \<Rightarrow> str" where
  "user_query user_message = lit ''<user_query>'' @ [10] @ user_message @ [10] @ lit ''</user_query>''"

definition frame_user_turn :: "str \<Rightarrow> str \<Rightarrow> str" where
  "frame_user_turn note assembled = note @ [10] @ assembled @ [10] @ UNFINISHED_TASKS_REMINDER"

text \<open>
  \<open>char_indices\<close> pairs each character with its byte offset.
\<close>

fun char_indices :: "nat \<Rightarrow> str \<Rightarrow> (nat \<times> uchar) list" where
  "char_indices i [] = []"
| "char_indices i (c # s) = (i, c) # char_indices (i + len_utf8 c) s"

definition format_steered_query :: "str \<Rightarrow> str \<Rightarrow> str option" where
  "format_steered_query note text =
     (let truncated =
            (if str_len text \<le> LARGE_PROMPT_THRESHOLD then Some text
             else let taken = takeWhile (\<lambda>(i, _). i < LARGE_PROMPT_THRESHOLD) (char_indices 0 text);
                      end = (if taken = [] then str_len text
                             else let (i, c) = last taken in i + len_utf8 c)
                  in map_option (\<lambda>s. s @ lit ''... [truncated]'') (slice_to text end))
      in map_option (\<lambda>t. frame_user_turn note (user_query t)) truncated)"

definition format_interjection :: "str \<Rightarrow> str option" where
  "format_interjection text = format_steered_query INTERJECTION_NOTE text"

definition format_interrupt :: "str \<Rightarrow> str option" where
  "format_interrupt text = format_steered_query INTERRUPT_NOTE text"

subsection \<open>The interjection buffer\<close>

record 'a PendingInterjection =
  pending_text :: str
  pending_attachments :: "'a list"

record 'a FormattedInterjection =
  formatted_text :: str
  formatted_attachments :: "'a list"

type_synonym 'a InterjectionBuffer = "'a PendingInterjection EventQueue"

fun format_entries ::
    "(str \<Rightarrow> str) \<Rightarrow> 'a PendingInterjection list \<Rightarrow> 'a FormattedInterjection list option" where
  "format_entries sanitize_text [] = Some []"
| "format_entries sanitize_text (entry # rest) =
     (case format_interjection (sanitize_text (pending_text entry)) of
        None \<Rightarrow> None
      | Some t \<Rightarrow>
          map_option ((#) \<lparr>formatted_text = t, formatted_attachments = pending_attachments entry\<rparr>)
            (format_entries sanitize_text rest))"

definition drain_formatted ::
    "(str \<Rightarrow> str) \<Rightarrow> 'a InterjectionBuffer \<Rightarrow> 'a FormattedInterjection list option \<times> 'a InterjectionBuffer" where
  "drain_formatted sanitize_text buffer =
     (let (entries, buffer1) = EventQueue_drain_all buffer
      in (format_entries sanitize_text entries, buffer1))"

subsection \<open>Truncation\<close>

fun take_bytes :: "nat \<Rightarrow> str \<Rightarrow> str" where
  "take_bytes n [] = []"
| "take_bytes n (c # s) = (if n = 0 then [] else c # take_bytes (n - len_utf8 c) s)"

lemma take_bytes_prefix: "prefix (take_bytes n s) s"
  by (induction n s rule: take_bytes.induct) auto

lemma take_bytes_len:
  "str_len (take_bytes n s) < n + 4" "n \<le> str_len s \<Longrightarrow> n \<le> str_len (take_bytes n s)"
proof -
  show "str_len (take_bytes n s) < n + 4"
  proof (induction n s rule: take_bytes.induct)
    case (2 n c s)
    have c: "len_utf8 c \<le> 4" by (rule len_utf8_le4)
    show ?case
    proof (cases "len_utf8 c \<le> n")
      case True
      with 2 show ?thesis by (cases "n = 0") auto
    next
      case False
      then have "take_bytes (n - len_utf8 c) s = []"
        by (cases s) auto
      with False c show ?thesis by auto
    qed
  qed simp
  show "n \<le> str_len s \<Longrightarrow> n \<le> str_len (take_bytes n s)"
  proof (induction n s rule: take_bytes.induct)
    case (2 n c s)
    show ?case
    proof (cases "n = 0")
      case False
      then have "n - len_utf8 c \<le> str_len (take_bytes (n - len_utf8 c) s)"
        using 2 by simp
      with False show ?thesis by simp
    qed simp
  qed simp
qed

lemma takeWhile_char_indices:
  "map snd (takeWhile (\<lambda>(j, _). j < i + n) (char_indices i s)) = take_bytes n s"
proof (induction s arbitrary: i n)
  case (Cons c s)
  show ?case
  proof (cases "n = 0")
    case False
    show ?thesis
    proof (cases "len_utf8 c \<le> n")
      case True
      with False Cons.IH [of "i + len_utf8 c" "n - len_utf8 c"] show ?thesis by simp
    next
      case F: False
      then have "takeWhile (\<lambda>(j, _). j < i + n) (char_indices (i + len_utf8 c) s) = []"
        by (cases s) auto
      moreover have "take_bytes (n - len_utf8 c) s = []"
        using F by (cases s) auto
      ultimately show ?thesis using False by simp
    qed
  qed simp
qed simp

lemma last_char_index:
  "xs \<noteq> [] \<Longrightarrow> prefix xs (char_indices i s) \<Longrightarrow>
     (let (j, c) = last xs in j + len_utf8 c) = i + str_len (map snd xs)"
proof (induction s arbitrary: i xs)
  case (Cons c s)
  then obtain ys where xs: "xs = (i, c) # ys" and ys: "prefix ys (char_indices (i + len_utf8 c) s)"
    by (cases xs) auto
  show ?case
  proof (cases "ys = []")
    case False
    with Cons.IH [OF False ys] xs show ?thesis by (simp add: Let_def)
  qed (simp add: xs)
qed simp

lemma truncation_slice:
  assumes "n < str_len msg" and "0 < n"
    and taken: "taken = takeWhile (\<lambda>(i, _). i < n) (char_indices 0 msg)"
  shows "slice_to msg (if taken = [] then str_len msg else let (i, c) = last taken in i + len_utf8 c) =
    Some (take_bytes n msg)"
proof -
  have m: "map snd taken = take_bytes n msg"
    using takeWhile_char_indices [of 0 n msg] by (simp add: taken)
  have "msg \<noteq> []" using assms(1) by auto
  then have nonempty: "taken \<noteq> []"
    using assms(2) m by (cases msg) auto
  have "(let (i, c) = last taken in i + len_utf8 c) = str_len (take_bytes n msg)"
    using last_char_index [OF nonempty, of 0 msg] m by (simp add: taken takeWhile_is_prefix)
  moreover obtain t where "msg = take_bytes n msg @ t"
    using take_bytes_prefix [of n msg] by (auto simp: prefix_def)
  ultimately show ?thesis
    using nonempty slice_to_append [of "take_bytes n msg" t] by simp
qed

lemma format_steered_query_eq:
  "format_steered_query note msg = Some (frame_user_turn note (user_query
     (if str_len msg \<le> LARGE_PROMPT_THRESHOLD then msg
      else take_bytes LARGE_PROMPT_THRESHOLD msg @ lit ''... [truncated]'')))"
proof (cases "str_len msg \<le> LARGE_PROMPT_THRESHOLD")
  case True
  then show ?thesis by (simp add: format_steered_query_def)
next
  case False
  have "0 < LARGE_PROMPT_THRESHOLD" by (simp add: LARGE_PROMPT_THRESHOLD_def)
  from truncation_slice [OF _ this refl] False show ?thesis
    by (simp add: format_steered_query_def Let_def del: if_split)
qed

text \<open>
  Framing an interjection never panics and never loses a short message. A text of at most
  25000 bytes is framed unchanged; a longer one is cut at a character boundary, keeping a prefix of
  at least 25000 and fewer than 25004 bytes, and marked as truncated.
\<close>

theorem format_interjection_total:
  "\<exists>kept. format_interjection msg = Some (frame_user_turn INTERJECTION_NOTE (user_query kept)) \<and>
     (if str_len msg \<le> LARGE_PROMPT_THRESHOLD then kept = msg
      else \<exists>p. prefix p msg \<and> kept = p @ lit ''... [truncated]'' \<and>
             LARGE_PROMPT_THRESHOLD \<le> str_len p \<and> str_len p < LARGE_PROMPT_THRESHOLD + 4)"
proof (cases "str_len msg \<le> LARGE_PROMPT_THRESHOLD")
  case True
  then show ?thesis
    by (simp add: format_interjection_def format_steered_query_eq)
next
  case False
  let ?p = "take_bytes LARGE_PROMPT_THRESHOLD msg"
  have "prefix ?p msg" "LARGE_PROMPT_THRESHOLD \<le> str_len ?p" "str_len ?p < LARGE_PROMPT_THRESHOLD + 4"
    using False take_bytes_prefix [of LARGE_PROMPT_THRESHOLD msg]
      take_bytes_len [of LARGE_PROMPT_THRESHOLD msg] by simp_all
  with False show ?thesis
    by (intro exI [of _ "?p @ lit ''... [truncated]''"] conjI)
      (auto simp: format_interjection_def format_steered_query_eq)
qed

subsection \<open>Draining\<close>

lemma format_entries_Some:
  "\<exists>out. format_entries san es = Some out \<and> length out = length es \<and>
     map formatted_attachments out = map pending_attachments es \<and>
     map (Some \<circ> formatted_text) out = map (\<lambda>e. format_interjection (san (pending_text e))) es"
proof (induction es)
  case (Cons e es)
  obtain t where "format_interjection (san (pending_text e)) = Some t"
    by (simp add: format_interjection_def format_steered_query_eq)
  with Cons show ?case by auto
qed simp

text \<open>
  Draining the buffer emits every queued interjection once, in arrival order, one message per
  entry with its own attachments and its own framed text, and leaves the buffer empty.
\<close>

theorem drain_formatted_complete:
  "\<exists>out buffer1. drain_formatted san buffer = (Some out, buffer1) \<and>
     EventQueue_is_empty buffer1 \<and> length out = EventQueue_len buffer \<and>
     map formatted_attachments out = map pending_attachments (EventQueue_snapshot buffer) \<and>
     map (Some \<circ> formatted_text) out =
       map (\<lambda>e. format_interjection (san (pending_text e))) (EventQueue_snapshot buffer)"
  using format_entries_Some [of san "events buffer"]
  by (auto simp: drain_formatted_def EventQueue_drain_all_def EventQueue_is_empty_def EventQueue_len_def
      EventQueue_snapshot_def)

text \<open>
  The queue is safe against an aborted reader. If a reader drains the queue, is cancelled after
  \<open>n\<close> events, and restores the rest after producers have pushed more, the queue holds exactly the
  unread events followed by the new ones, in order. A reader that takes only the events it is
  interested in leaves the others in order.
\<close>

theorem queue_abort_safe:
  assumes "EventQueue_drain_all q = (es, q1)"
  shows "EventQueue_snapshot (EventQueue_restore_front (drop n es) (fold EventQueue_push later q1)) =
      drop n (EventQueue_snapshot q) @ later \<and>
    EventQueue_drain_matching P q =
      (filter P (EventQueue_snapshot q), \<lparr>events = filter (\<lambda>e. \<not> P e) (EventQueue_snapshot q)\<rparr>)"
  using code_queue.abort_safe [OF assms]
  by (simp add: EventQueue_drain_matching_def EventQueue_snapshot_def comp_def)

theorem queue_abort_safe_witness:
  "EventQueue_snapshot (EventQueue_restore_front (drop 1 [1, 2]) (fold EventQueue_push [3] \<lparr>events = []\<rparr>)) =
     [2, 3 :: nat]"
proof -
  have "EventQueue_drain_all \<lparr>events = [1, 2 :: nat]\<rparr> = ([1, 2], \<lparr>events = []\<rparr>)"
    by (simp add: EventQueue_drain_all_def)
  from queue_abort_safe [OF this, of 1 "[3]"] show ?thesis
    by (simp add: EventQueue_snapshot_def)
qed

definition keep_last :: "nat \<Rightarrow> 'a list \<Rightarrow> 'a list" where
  "keep_last m xs = drop (length xs - m) xs"

lemma keep_last_append: "keep_last m (keep_last m xs @ ys) = keep_last m (xs @ ys)"
proof -
  let ?j = "length xs - m"
  have "keep_last m xs @ ys = drop ?j (xs @ ys)"
    by (simp add: keep_last_def)
  moreover have "length (xs @ ys) - ?j - m + ?j = length (xs @ ys) - m"
    by simp
  ultimately show ?thesis
    by (simp only: keep_last_def length_drop drop_drop)
qed

lemma keep_last_all: "length xs \<le> m \<Longrightarrow> keep_last m xs = xs"
  by (simp add: keep_last_def)

lemma push_capped_step: "events (EventQueue_push_capped e m q) = keep_last m (events q @ [e])"
  by (simp add: EventQueue_push_capped_def Let_def keep_last_def)

text \<open>
  A capped queue holds the newest events. However many events are pushed with a cap, a queue
  that respected the cap before keeps exactly the last \<open>max\<close> of all events, in order.
\<close>

theorem push_capped_keeps_newest:
  assumes "length (EventQueue_snapshot q) \<le> m"
  shows "EventQueue_snapshot (fold (\<lambda>e. EventQueue_push_capped e m) es q) =
    keep_last m (EventQueue_snapshot q @ es)"
  using assms
proof (induction es arbitrary: q)
  case Nil
  then show ?case by (simp add: keep_last_all)
next
  case (Cons e es)
  let ?q = "EventQueue_push_capped e m q"
  have "length (EventQueue_snapshot ?q) \<le> m"
    by (simp add: EventQueue_snapshot_def push_capped_step keep_last_def)
  from Cons.IH [OF this] show ?case
    using keep_last_append [of m "events q @ [e]" es]
    by (simp add: EventQueue_snapshot_def push_capped_step)
qed

theorem push_capped_keeps_newest_witness:
  "EventQueue_snapshot (fold (\<lambda>e. EventQueue_push_capped e 3) [0, 1, 2, 3, 4] EventQueue_new) =
     [2, 3, 4 :: nat]"
  by (subst push_capped_keeps_newest)
    (simp_all add: EventQueue_snapshot_def EventQueue_new_def keep_last_def)

end
