(* ===== verification/Json_Ops.thy ===== *)
theory Json_Ops
  imports Rust_Num Rust_Str "HOL-Library.Monad_Syntax" "HOL-Library.AList"
begin

text \<open>
  The part of \<open>serde_json\<close> the modelled code calls. The crate is not part of the repository,
  so its values are an arbitrary type \<open>'v\<close> and its operations are the fields of a record that
  the definitions take as an argument. A \<open>Map\<close> is a list of entries, used only through
  \<open>map_of\<close>, insertion and removal. \<open>json_laws\<close> collects the documented behaviour that some
  theorems rely on; \<open>sample_json\<close> at the end is an instance of the laws.
\<close>

type_synonym 'v json_map = "(str \<times> 'v) list"

record 'v json =
  json_get :: "'v \<Rightarrow> str \<Rightarrow> 'v option"
  json_as_str :: "'v \<Rightarrow> str option"
  json_as_u64 :: "'v \<Rightarrow> u64 option"
  json_as_bool :: "'v \<Rightarrow> bool option"
  json_as_array :: "'v \<Rightarrow> 'v list option"
  json_as_object :: "'v \<Rightarrow> 'v json_map option"
  json_null :: 'v
  json_string :: "str \<Rightarrow> 'v"
  json_array :: "'v list \<Rightarrow> 'v"
  json_object :: "'v json_map \<Rightarrow> 'v"
  json_to_string :: "'v \<Rightarrow> str + str"
  json_from_str :: "str \<Rightarrow> str + 'v"

text \<open>
  Constructors and accessors agree; printing a value succeeds, the printed text has no line feed,
  and the text followed by a line feed parses back to the value.
\<close>

definition json_laws :: "'v json \<Rightarrow> bool" where
  "json_laws J \<longleftrightarrow>
     (\<forall>s. json_as_str J (json_string J s) = Some s) \<and>
     (\<forall>m. \<exists>m'. json_as_object J (json_object J m) = Some m' \<and> map_of m' = map_of m) \<and>
     (\<forall>v. \<exists>s. json_to_string J v = Inr s \<and> 10 \<notin> set s \<and> json_from_str J (s @ [10]) = Inr v)"

lemma json_lawsD:
  assumes "json_laws J"
  shows "json_as_str J (json_string J s) = Some s"
    and "\<exists>m'. json_as_object J (json_object J m) = Some m' \<and> map_of m' = map_of m"
    and "\<exists>s. json_to_string J v = Inr s \<and> 10 \<notin> set s \<and> json_from_str J (s @ [10]) = Inr v"
  using assms by (simp_all add: json_laws_def)

subsection \<open>An instance of the laws\<close>

datatype sample_value = SNull | SInt int | SStr str | SObj "(str \<times> sample_value) list"

text \<open>A prefix code over scalar values from 11 upwards: a tag, then lengths and contents.\<close>

definition enc_str :: "str \<Rightarrow> str" where
  "enc_str s = (length s + 11) # map (\<lambda>c. c + 11) s"

fun enc :: "sample_value \<Rightarrow> str" where
  "enc SNull = [11]"
| "enc (SInt i) = [12, if i < 0 then 12 else 11, nat \<bar>i\<bar> + 11]"
| "enc (SStr s) = 13 # enc_str s"
| "enc (SObj kvs) = 14 # (length kvs + 11) # concat (map (\<lambda>(k, v). enc_str k @ enc v) kvs)"

definition dec_str :: "str \<Rightarrow> str \<times> str" where
  "dec_str s = (let n = hd s - 11 in (map (\<lambda>c. c - 11) (take n (tl s)), drop n (tl s)))"

fun dec :: "nat \<Rightarrow> str \<Rightarrow> (sample_value \<times> str) option"
  and dec_entries :: "nat \<Rightarrow> nat \<Rightarrow> str \<Rightarrow> ((str \<times> sample_value) list \<times> str) option" where
  "dec 0 s = None"
| "dec (Suc f) s =
     (case s of
        [] \<Rightarrow> None
      | t # r \<Rightarrow>
          if t = 11 then Some (SNull, r)
          else if t = 12 then Some (SInt (if hd r = 12 then - int (r ! 1 - 11) else int (r ! 1 - 11)), drop 2 r)
          else if t = 13 then Some (case dec_str r of (x, r') \<Rightarrow> (SStr x, r'))
          else map_option (\<lambda>(kvs, r'). (SObj kvs, r')) (dec_entries f (hd r - 11) (tl r)))"
| "dec_entries 0 n s = (if n = 0 then Some ([], s) else None)"
| "dec_entries (Suc f) n s =
     (if n = 0 then Some ([], s)
      else case dec_str s of (k, r) \<Rightarrow>
             (case dec f r of
                None \<Rightarrow> None
              | Some (v, r') \<Rightarrow> map_option (\<lambda>(kvs, r''). ((k, v) # kvs, r'')) (dec_entries f (n - 1) r')))"

lemma dec_enc_str: "dec_str (enc_str s @ r) = (s, r)"
  by (simp add: dec_str_def enc_str_def comp_def)

fun fuel_value :: "sample_value \<Rightarrow> nat" where
  "fuel_value (SObj kvs) = Suc (length kvs + sum_list (map (\<lambda>(k, v). fuel_value v) kvs))"
| "fuel_value _ = 1"

lemma dec_entries_enc:
  assumes "\<And>k v f r. (k, v) \<in> set kvs \<Longrightarrow> fuel_value v \<le> f \<Longrightarrow> dec f (enc v @ r) = Some (v, r)"
    and "length kvs + sum_list (map (\<lambda>(k, v). fuel_value v) kvs) \<le> f"
  shows "dec_entries f (length kvs) (concat (map (\<lambda>(k, v). enc_str k @ enc v) kvs) @ r) = Some (kvs, r)"
  using assms
proof (induction kvs arbitrary: f)
  case Nil
  then show ?case by (cases f) simp_all
next
  case (Cons kv kvs)
  obtain k v where kv: "kv = (k, v)" by (cases kv)
  obtain g where f: "f = Suc g" using Cons.prems(2) by (cases f) auto
  have "dec g (enc v @ x) = Some (v, x)" for x
    using Cons.prems(2) by (intro Cons.prems(1) [of k]) (simp_all add: kv f)
  moreover have "dec_entries g (length kvs) (concat (map (\<lambda>(k, v). enc_str k @ enc v) kvs) @ r) = Some (kvs, r)"
    using Cons.prems by (intro Cons.IH) (auto simp: kv f)
  ultimately show ?case
    by (simp add: kv f dec_enc_str)
qed

lemma dec_enc: "fuel_value v \<le> f \<Longrightarrow> dec f (enc v @ r) = Some (v, r)"
proof (induction v arbitrary: f r)
  case (SObj kvs)
  then obtain g where f: "f = Suc g" by (cases f) auto
  have "dec_entries g (length kvs) (concat (map (\<lambda>(k, v). enc_str k @ enc v) kvs) @ r) = Some (kvs, r)"
  proof (rule dec_entries_enc)
    fix k v f' r'
    assume "(k, v) \<in> set kvs" and "fuel_value v \<le> f'"
    then show "dec f' (enc v @ r') = Some (v, r')"
      by (intro SObj.IH [of "(k, v)" v]) simp_all
  qed (use SObj.prems f in simp)
  then show ?case by (simp add: f)
next
  case (SStr s)
  then show ?case by (cases f) (simp_all add: dec_enc_str)
qed (case_tac f; simp; fail)+

lemma enc_ge: "c \<in> set (enc v) \<Longrightarrow> 11 \<le> c"
proof (induction v)
  case (SObj kvs)
  then show ?case by (fastforce simp: enc_str_def)
qed (auto simp: enc_str_def split: if_splits)

lemma fuel_enc: "fuel_value v \<le> length (enc v)"
proof (induction v)
  case (SObj kvs)
  have "length kvs + sum_list (map (\<lambda>(k, v). fuel_value v) kvs) \<le>
      length (concat (map (\<lambda>(k, v). enc_str k @ enc v) kvs))"
    using SObj
  proof (induction kvs)
    case (Cons kv kvs)
    obtain k v where kv: "kv = (k, v)" by (cases kv)
    have "fuel_value v \<le> length (enc v)"
      using Cons.prems [of "(k, v)" v] by (simp add: kv)
    moreover have "length kvs + sum_list (map (\<lambda>(k, v). fuel_value v) kvs) \<le>
        length (concat (map (\<lambda>(k, v). enc_str k @ enc v) kvs))"
      using Cons.prems by (intro Cons.IH) auto
    ultimately show ?case by (simp add: kv enc_str_def)
  qed simp
  then show ?case by simp
qed auto

definition sample_json :: "sample_value json" where
  "sample_json =
     \<lparr>json_get = (\<lambda>v k. case v of SObj m \<Rightarrow> map_of m k | _ \<Rightarrow> None),
      json_as_str = (\<lambda>v. case v of SStr s \<Rightarrow> Some s | _ \<Rightarrow> None),
      json_as_u64 = (\<lambda>v. case v of SInt i \<Rightarrow> if 0 \<le> i \<and> i < 2 ^ 64 then Some (word_of_int i) else None | _ \<Rightarrow> None),
      json_as_bool = (\<lambda>_. None),
      json_as_array = (\<lambda>_. None),
      json_as_object = (\<lambda>v. case v of SObj m \<Rightarrow> Some m | _ \<Rightarrow> None),
      json_null = SNull, json_string = SStr, json_array = (\<lambda>_. SNull), json_object = SObj,
      json_to_string = (\<lambda>v. Inr (enc v)),
      json_from_str = (\<lambda>s. case dec (length s) s of
                             Some (v, r) \<Rightarrow> if list_all is_whitespace r then Inr v else Inl (lit ''trailing characters'')
                           | None \<Rightarrow> Inl (lit ''invalid''))\<rparr>"

lemma sample_json_laws: "json_laws sample_json"
proof -
  have "dec (length (enc v @ [10])) (enc v @ [10]) = Some (v, [10])" for v
    using fuel_enc [of v] by (intro dec_enc) simp
  moreover have "10 \<notin> set (enc v)" for v
    using enc_ge [of 10 v] by auto
  ultimately show ?thesis
    by (auto simp: json_laws_def sample_json_def is_whitespace_def)
qed

end
