(* ===== verification/Prompt_Queue.thy ===== *)
theory Prompt_Queue
  imports Json_Ops
begin

text \<open>
  Merging queued follow-up prompts (\<^verbatim>\<open>xai-prompt-queue\<close>: \<^verbatim>\<open>combine.rs\<close> and the row
  types of \<^verbatim>\<open>types.rs\<close>).
\<close>

definition COMBINED_DISPLAY_TEXTS_META :: str where
  "COMBINED_DISPLAY_TEXTS_META = lit ''combinedDisplayTexts''"

record QueueEntryMeta =
  entry_id :: str
  entry_version :: u64
  entry_owner :: "str option"
  entry_last_editor :: "str option"
  entry_kind :: str
  entry_text :: str
  entry_combined_texts :: "str list option"

record QueueEntryWire =
  wire_id :: str
  wire_version :: u64
  wire_owner :: "str option"
  wire_last_editor :: "str option"
  wire_kind :: str
  wire_text :: str
  wire_combined_texts :: "str list option"
  wire_position :: usize

record QueueChanged =
  changed_session_id :: str
  changed_entries :: "QueueEntryWire list"
  running_prompt_id :: "str option"
  running_text :: "str option"
  running_kind :: "str option"
  running_combined_texts :: "str list option"

definition TEXT_SEPARATOR :: str where
  "TEXT_SEPARATOR = [10, 10]"

record CombineGate =
  gate_id :: str
  is_plain_prompt :: bool
  is_synthetic :: bool
  is_expanded_skill :: bool
  is_bash :: bool
  has_images :: bool
  gate_text :: str

definition can_merge_front :: "CombineGate \<Rightarrow> bool" where
  "can_merge_front g \<longleftrightarrow>
     is_plain_prompt g \<and> \<not> is_synthetic g \<and> \<not> is_expanded_skill g \<and> \<not> is_bash g \<and> gate_text g \<noteq> []"

definition can_merge_follower :: "str list \<Rightarrow> CombineGate \<Rightarrow> bool" where
  "can_merge_follower skip_ids g \<longleftrightarrow>
     can_merge_front g \<and> \<not> has_images g \<and> gate_id g \<notin> set skip_ids"

fun count_followers :: "str list \<Rightarrow> CombineGate list \<Rightarrow> nat \<Rightarrow> nat" where
  "count_followers skip_ids [] n = n"
| "count_followers skip_ids (next # rest) n =
     (if \<not> can_merge_follower skip_ids next then n else count_followers skip_ids rest (n + 1))"

definition combine_prefix_len :: "CombineGate list \<Rightarrow> str list \<Rightarrow> nat" where
  "combine_prefix_len items skip_ids =
     (case items of
        [] \<Rightarrow> 0
      | front # rest \<Rightarrow> if \<not> can_merge_front front then 1 else count_followers skip_ids rest 1)"

definition join_texts :: "str list \<Rightarrow> str" where
  "join_texts texts = join TEXT_SEPARATOR (filter (\<lambda>t. t \<noteq> []) texts)"

definition is_combined :: "str list \<Rightarrow> bool" where
  "is_combined segs \<longleftrightarrow> 2 \<le> length segs"

definition stamp_combined_display_texts ::
    "'v json \<Rightarrow> str list \<Rightarrow> 'v json_map \<Rightarrow> 'v json_map" where
  "stamp_combined_display_texts J segs meta =
     (if \<not> is_combined segs then meta
      else AList.update COMBINED_DISPLAY_TEXTS_META (json_array J (map (json_string J) segs)) meta)"

subsection \<open>Properties\<close>

lemma count_followers_eq:
  "count_followers skip xs n = n + length (takeWhile (can_merge_follower skip) xs)"
  by (induction skip xs n rule: count_followers.induct) auto

lemma combine_prefix_len_eq:
  "combine_prefix_len (g # gs) skip =
     (if can_merge_front g then 1 + length (takeWhile (can_merge_follower skip) gs) else 1)"
  by (simp add: combine_prefix_len_def count_followers_eq)

text \<open>
  The merged prefix is the longest run of mergeable rows. A non-empty queue always gives up at
  least its front row and never more rows than it has; a run of two or more rows starts with a
  mergeable front and continues with rows that each pass the follower gate (no images, not held
  for editing); and the row after a merged run is one that may not join it.
\<close>

theorem combine_prefix_maximal:
  assumes "items \<noteq> []" and n: "n = combine_prefix_len items skip"
  shows "1 \<le> n \<and> n \<le> length items \<and>
    (2 \<le> n \<longrightarrow> can_merge_front (hd items)) \<and>
    (\<forall>i. 1 \<le> i \<and> i < n \<longrightarrow> can_merge_follower skip (items ! i)) \<and>
    (can_merge_front (hd items) \<and> n < length items \<longrightarrow> \<not> can_merge_follower skip (items ! n))"
proof -
  obtain g gs where items: "items = g # gs"
    using assms(1) by (cases items) auto
  let ?tw = "takeWhile (can_merge_follower skip) gs"
  have len: "n = (if can_merge_front g then 1 + length ?tw else 1)"
    by (simp add: n items combine_prefix_len_eq)
  have bound: "length ?tw \<le> length gs"
    by (rule length_takeWhile_le)
  have member: "can_merge_follower skip (gs ! j)" if "j < length ?tw" for j
    using that nth_mem [OF that] set_takeWhileD takeWhile_nth by metis
  have stop: "\<not> can_merge_follower skip (gs ! length ?tw)" if "length ?tw < length gs"
    using nth_length_takeWhile [OF that] .
  show ?thesis
    using bound member stop by (auto simp: len items nth_Cons' split: if_splits)
qed

theorem combine_prefix_maximal_witness:
  "1 \<le> combine_prefix_len [\<lparr>gate_id = lit ''a'', is_plain_prompt = True, is_synthetic = False,
      is_expanded_skill = False, is_bash = False, has_images = True, gate_text = lit ''x''\<rparr>] []"
  using combine_prefix_maximal [OF list.distinct(2) refl] by blast

lemma filter_nonempty_texts:
  "(\<And>t. t \<in> set ts \<Longrightarrow> t \<noteq> []) \<Longrightarrow> join_texts ts = join TEXT_SEPARATOR ts"
  by (simp add: join_texts_def filter_id_conv)

text \<open>
  Merging loses no text. When at least two rows are merged, the joined body is the texts of
  all merged rows, in queue order, separated by blank lines, and the stamped metadata lists
  exactly these texts; when only one row is taken, no metadata is stamped.
\<close>

theorem combine_keeps_texts:
  assumes n: "n = combine_prefix_len items skip" and texts: "texts = map gate_text (take n items)"
    and two: "2 \<le> n"
  shows "join_texts texts = join TEXT_SEPARATOR texts \<and> length texts = n \<and>
    map_of (stamp_combined_display_texts J texts meta) COMBINED_DISPLAY_TEXTS_META =
      Some (json_array J (map (json_string J) texts)) \<and>
    stamp_combined_display_texts J (map gate_text (take 1 items)) meta = meta"
proof -
  obtain g gs where items: "items = g # gs"
    using two n by (cases items) (auto simp: combine_prefix_len_def)
  let ?tw = "takeWhile (can_merge_follower skip) gs"
  have front: "can_merge_front g" and len: "n = 1 + length ?tw"
    using two n by (auto simp: items combine_prefix_len_eq split: if_splits)
  have "take (length ?tw) gs = ?tw"
    by (metis takeWhile_eq_take)
  then have texts': "texts = gate_text g # map gate_text ?tw"
    by (simp add: texts items len)
  have "t \<noteq> []" if "t \<in> set texts" for t
    using that front
    by (auto simp: texts' can_merge_front_def can_merge_follower_def dest!: set_takeWhileD)
  moreover have "length texts = n"
    by (simp add: texts' len)
  ultimately show ?thesis
    using two by (simp add: filter_nonempty_texts stamp_combined_display_texts_def is_combined_def update_conv)
qed

definition example_gate :: "string \<Rightarrow> CombineGate" where
  "example_gate s = \<lparr>gate_id = lit s, is_plain_prompt = True, is_synthetic = False,
     is_expanded_skill = False, is_bash = False, has_images = False, gate_text = lit s\<rparr>"

theorem combine_keeps_texts_witness:
  "join_texts [lit ''a'', lit ''b''] = lit ''a'' @ TEXT_SEPARATOR @ lit ''b''"
proof -
  let ?items = "[example_gate ''a'', example_gate ''b'']"
  have n: "(2 :: nat) = combine_prefix_len ?items []"
    by (simp add: combine_prefix_len_def can_merge_front_def can_merge_follower_def example_gate_def)
  have t: "[lit ''a'', lit ''b''] = map gate_text (take 2 ?items)"
    by (simp add: example_gate_def)
  show ?thesis
    using combine_keeps_texts [OF n t order.refl, THEN conjunct1] by simp
qed

end
