(* ===== verification/Bot_Core.thy ===== *)
theory Bot_Core
  imports Rust_Num Rust_Str
begin

text \<open>
  The provider-neutral vocabulary of Bot (\<^verbatim>\<open>bot-core\<close>): identifiers (\<^verbatim>\<open>id.rs\<close>),
  provider profiles (\<^verbatim>\<open>profile.rs\<close>), actions and events (\<^verbatim>\<open>action.rs\<close>,
  \<^verbatim>\<open>event.rs\<close>), session state (\<^verbatim>\<open>session.rs\<close>) and usage limits (\<^verbatim>\<open>usage.rs\<close>).
  Paths are strings. Different enumerations reuse a constructor name, as in the source; such
  constructors are written with their type's name.
\<close>

subsection \<open>Identifiers\<close>

record IdError =
  id_error_kind :: str

text \<open>The macro \<open>string_id!\<close>: one check for every identifier type, with the type's own label.\<close>

definition string_id_new :: "str \<Rightarrow> (str \<Rightarrow> 'i) \<Rightarrow> str \<Rightarrow> IdError + 'i" where
  "string_id_new kind mk value =
     (if trim value = [] then Inl \<lparr>id_error_kind = kind\<rparr> else Inr (mk value))"

datatype AccountProfileId = AccountProfileId (AccountProfileId_as_str: str)
datatype EventId = EventId (EventId_as_str: str)
datatype SessionId = SessionId (SessionId_as_str: str)
datatype TurnId = TurnId (TurnId_as_str: str)

definition AccountProfileId_new :: "str \<Rightarrow> IdError + AccountProfileId" where
  "AccountProfileId_new = string_id_new (lit ''account profile'') AccountProfileId"

definition EventId_new :: "str \<Rightarrow> IdError + EventId" where
  "EventId_new = string_id_new (lit ''event'') EventId"

definition SessionId_new :: "str \<Rightarrow> IdError + SessionId" where
  "SessionId_new = string_id_new (lit ''session'') SessionId"

definition TurnId_new :: "str \<Rightarrow> IdError + TurnId" where
  "TurnId_new = string_id_new (lit ''turn'') TurnId"

lemma string_id_new_Inr_iff: "string_id_new kind mk value = Inr i \<longleftrightarrow> i = mk value \<and> trim value \<noteq> []"
  by (auto simp: string_id_new_def)

subsection \<open>Profiles\<close>

datatype ProviderId = Codex | Grok | Gemini | Claude | Custom str

fun ProviderId_label :: "ProviderId \<Rightarrow> str" where
  "ProviderId_label Codex = lit ''Codex''"
| "ProviderId_label Grok = lit ''Grok''"
| "ProviderId_label Gemini = lit ''Gemini''"
| "ProviderId_label Claude = lit ''Claude''"
| "ProviderId_label (Custom label) = label"

fun ProviderId_key :: "ProviderId \<Rightarrow> str" where
  "ProviderId_key Codex = lit ''codex''"
| "ProviderId_key Grok = lit ''grok''"
| "ProviderId_key Gemini = lit ''gemini''"
| "ProviderId_key Claude = lit ''claude''"
| "ProviderId_key (Custom key) = key"

definition ProviderId_parse :: "str \<Rightarrow> ProviderId option" where
  "ProviderId_parse value =
     (let v = to_ascii_lowercase (trim value)
      in if v \<in> {lit ''grok'', lit ''xai''} then Some Grok
         else if v \<in> {lit ''codex'', lit ''openai'', lit ''chatgpt''} then Some Codex
         else if v \<in> {lit ''gemini'', lit ''google''} then Some Gemini
         else if v \<in> {lit ''claude'', lit ''anthropic'', lit ''claude-code''} then Some Claude
         else None)"

datatype InputModality = Text | Image | Audio | Skill | Mention

record ImageAttachment =
  image_path :: str
  image_width :: nat
  image_height :: nat

datatype ProviderCapability =
    Input InputModality
  | ModelSelection
  | EffortSelection
  | SessionResume
  | SessionFork
  | Tools
  | FileChanges
  | Approvals

record ModelInfo =
  model_id :: str
  model_display_name :: str
  model_supported_efforts :: "str list"
  model_input_modalities :: "InputModality set"

datatype LoginStatus = Unknown | SignedOut | SigningIn | SignedIn

record AccountProfile =
  profile_id :: AccountProfileId
  profile_provider :: ProviderId
  profile_label :: str
  profile_account_name :: "str option"
  profile_login_status :: LoginStatus
  profile_default_model :: "str option"
  profile_default_effort :: "str option"

subsection \<open>Actions and events\<close>

datatype Action =
    OpenCommandPalette | OpenProviderPicker | OpenAccountPicker | OpenModelPicker | OpenEffortPicker
  | FocusComposer | SubmitComposer | CancelTurn | ToggleHelp | Quit

datatype ToolCallState = Pending | Running | Completed | Cancelled | Failed

datatype ToolCallKind = Command | FileChange | Mcp | WebSearch | Image | Collaboration | Wait | Other

record ToolCall =
  call_kind :: ToolCallKind
  call_title :: str
  call_detail :: "str option"
  call_output :: "str option"
  call_state :: ToolCallState
  call_duration_ms :: "u64 option"

datatype ApprovalKind = Command | FileChange | Permission | Tool | Question

datatype ApprovalDecision = Approve | Deny

datatype ApprovalState = Pending | Sending | Approved | Denied

datatype ProviderEventKind = Notification | Request

datatype TurnOutcome = Completed | Failed | Interrupted | Unknown str

record Usage =
  input_tokens :: u64
  cached_input_tokens :: u64
  output_tokens :: u64
  reasoning_output_tokens :: u64
  total_tokens :: u64
  context_tokens :: u64
  context_window :: "u64 option"

datatype AgentEvent =
    TurnStarted SessionId TurnId
  | TurnCompleted SessionId TurnId TurnOutcome
  | UserMessage EventId SessionId TurnId str
  | AgentTextDelta EventId SessionId TurnId str
  | ReasoningSummaryDelta EventId SessionId TurnId str
  | ToolCallChanged EventId SessionId TurnId ToolCall
  | ApprovalRequested EventId SessionId TurnId str ApprovalKind
  | ApprovalResolved EventId SessionId ApprovalDecision
  | UsageChanged SessionId Usage
  | ProviderEvent SessionId ProviderEventKind str str
  | Warning SessionId str
  | Error SessionId str

subsection \<open>Sessions\<close>

datatype SessionStatus = Starting | Ready | Running | AwaitingApproval | Failed str | Stopped

record SessionState =
  session_state_id :: SessionId
  session_provider :: ProviderId
  session_account_profile_id :: AccountProfileId
  session_workspace :: str
  session_model :: "str option"
  session_effort :: "str option"
  session_status :: SessionStatus

definition SessionState_new ::
    "SessionId \<Rightarrow> ProviderId \<Rightarrow> AccountProfileId \<Rightarrow> str \<Rightarrow> SessionState" where
  "SessionState_new i p a w =
     \<lparr>session_state_id = i, session_provider = p, session_account_profile_id = a, session_workspace = w,
      session_model = None, session_effort = None, session_status = SessionStatus.Starting\<rparr>"

definition SessionState_mark_ready :: "SessionState \<Rightarrow> SessionState" where
  "SessionState_mark_ready s = s\<lparr>session_status := SessionStatus.Ready\<rparr>"

subsection \<open>Usage limits\<close>

record UsageLimitWindow =
  window_label :: str
  used_percent :: f64
  duration_minutes :: "u64 option"
  resets_at :: "int option"

record UsageLimit =
  limit_id :: "str option"
  limit_name :: str
  limit_model :: "str option"
  limit_windows :: "UsageLimitWindow list"

record 'v ProviderUsage =
  usage_provider :: ProviderId
  lifetime_tokens :: "u64 option"
  limits :: "UsageLimit list"
  extensions :: "str \<rightharpoonup> 'v"

definition ProviderUsage_unavailable :: "ProviderId \<Rightarrow> 'v ProviderUsage" where
  "ProviderUsage_unavailable p =
     \<lparr>usage_provider = p, lifetime_tokens = None, limits = [], extensions = Map.empty\<rparr>"

text \<open>
  The comparison of two windows, with \<open>true\<close> for \<open>Ordering::Greater\<close>; \<open>Iterator::max_by\<close> keeps
  the later of two elements unless the earlier one is greater.
\<close>

definition window_greater :: "UsageLimitWindow \<Rightarrow> UsageLimitWindow \<Rightarrow> bool" where
  "window_greater l r \<longleftrightarrow>
     (let dl = (case duration_minutes l of Some d \<Rightarrow> d | None \<Rightarrow> 0);
          dr = (case duration_minutes r of Some d \<Rightarrow> d | None \<Rightarrow> 0)
      in dr < dl \<or> dr = dl \<and> f64_total_key (used_percent r) < f64_total_key (used_percent l))"

fun max_by :: "('a \<Rightarrow> 'a \<Rightarrow> bool) \<Rightarrow> 'a list \<Rightarrow> 'a option" where
  "max_by gt [] = None"
| "max_by gt (x # xs) = Some (foldl (\<lambda>best y. if gt best y then best else y) x xs)"

definition longest_window :: "'v ProviderUsage \<Rightarrow> (UsageLimit \<times> UsageLimitWindow) option" where
  "longest_window u =
     max_by (\<lambda>(_, l) (_, r). window_greater l r)
       (concat (map (\<lambda>limit. map (\<lambda>w. (limit, w)) (limit_windows limit)) (limits u)))"

definition plural :: "int \<Rightarrow> string \<Rightarrow> str" where
  "plural value unit = show_int value @ lit '' '' @ lit unit @ (if value = 1 then [] else lit ''s'')"

definition format_countdown_parts :: "int \<Rightarrow> string \<Rightarrow> int \<Rightarrow> string \<Rightarrow> str" where
  "format_countdown_parts primary primary_unit secondary secondary_unit =
     (let p = plural primary primary_unit
      in if 0 < secondary then lit ''in '' @ p @ lit '' and '' @ plural secondary secondary_unit
         else lit ''in '' @ p)"

definition format_reset_countdown :: "int \<Rightarrow> int \<Rightarrow> str" where
  "format_reset_countdown at now =
     (let reset_seconds = (if 10000000000 \<le> \<bar>at\<bar> then tdiv at 1000 else at);
          remaining = i64_saturating_sub reset_seconds now
      in if remaining \<le> 0 then lit ''due now''
         else let days = tdiv remaining 86400;
                  hours = tdiv (tmod remaining 86400) 3600;
                  minutes = tdiv (tmod remaining 3600) 60
              in if 0 < days then format_countdown_parts days ''day'' hours ''hour''
                 else if 0 < hours then format_countdown_parts hours ''hour'' minutes ''minute''
                 else if 0 < minutes then lit ''in '' @ plural minutes ''minute''
                 else lit ''in less than 1 minute'')"

subsection \<open>Properties\<close>

text \<open>
  Every built-in provider is found by its own key and label, in any letter case and with any
  surrounding white space; and whatever parses is one of the four built-in providers.
\<close>

theorem provider_parse_round_trip:
  assumes "p \<in> {Codex, Grok, Gemini, Claude}"
    and "to_ascii_lowercase (trim s) = ProviderId_key p \<or> to_ascii_lowercase (trim s) = to_ascii_lowercase (ProviderId_label p)"
  shows "ProviderId_parse s = Some p \<and> ProviderId_parse t \<in> {None, Some Codex, Some Grok, Some Gemini, Some Claude}"
proof -
  have "ProviderId_parse s = Some p"
    using assms by (auto simp: ProviderId_parse_def to_ascii_lowercase_def)
  then show ?thesis
    by (simp add: ProviderId_parse_def Let_def)
qed

theorem provider_parse_round_trip_witness: "ProviderId_parse (lit '' GROK '') = Some Grok"
proof -
  have "to_ascii_lowercase (trim (lit '' GROK '')) = ProviderId_key Grok"
    by (simp add: str_simps)
  then show ?thesis
    using provider_parse_round_trip [of Grok] by simp
qed

definition window_rank :: "UsageLimitWindow \<Rightarrow> nat \<times> int" where
  "window_rank w = (unat (case duration_minutes w of Some d \<Rightarrow> d | None \<Rightarrow> 0), f64_total_key (used_percent w))"

definition rank_less :: "nat \<times> int \<Rightarrow> nat \<times> int \<Rightarrow> bool" where
  "rank_less a b \<longleftrightarrow> fst a < fst b \<or> fst a = fst b \<and> snd a < snd b"

lemma window_greater_rank: "window_greater l r \<longleftrightarrow> rank_less (window_rank r) (window_rank l)"
  by (auto simp: window_greater_def rank_less_def window_rank_def Let_def word_less_nat_alt
      word_unat_eq_iff)

lemma rank_less_trans: "\<not> rank_less a b \<Longrightarrow> \<not> rank_less b c \<Longrightarrow> \<not> rank_less a c"
  by (auto simp: rank_less_def)

lemma max_by_fold:
  fixes rank :: "'a \<Rightarrow> nat \<times> int"
  shows "let m = foldl (\<lambda>best y. if rank_less (rank y) (rank best) then best else y) x xs
    in m \<in> set (x # xs) \<and> (\<forall>y \<in> set (x # xs). \<not> rank_less (rank m) (rank y))"
proof (induction xs arbitrary: x)
  case Nil
  then show ?case by (simp add: rank_less_def)
next
  case (Cons y ys)
  define z where "z = (if rank_less (rank y) (rank x) then x else y)"
  define m where "m = foldl (\<lambda>best y. if rank_less (rank y) (rank best) then best else y) z ys"
  have IH: "m \<in> set (z # ys)" "\<forall>y \<in> set (z # ys). \<not> rank_less (rank m) (rank y)"
    using Cons.IH [of z] by (simp_all add: m_def Let_def)
  have "\<not> rank_less (rank z) (rank x)" and "\<not> rank_less (rank z) (rank y)"
    by (auto simp: z_def rank_less_def)
  then have "\<not> rank_less (rank m) (rank x)" and "\<not> rank_less (rank m) (rank y)"
    using IH(2) rank_less_trans [of "rank m" "rank z"] by simp_all
  moreover have "m \<in> set (x # y # ys)"
    using IH(1) by (auto simp: z_def split: if_splits)
  ultimately show ?case
    using IH(2) by (simp add: m_def z_def)
qed

text \<open>
  The window shown for a provider is the longest one. It is absent exactly when no limit has a
  window; otherwise it is a window of one of the limits, no window has a longer duration, and among
  those of the same duration none has a larger used percentage in the total order of binary64.
\<close>

theorem longest_window_maximal:
  fixes u :: "'v ProviderUsage"
  shows "case longest_window u of
     None \<Rightarrow> \<forall>limit \<in> set (limits u). limit_windows limit = []
   | Some (limit, w) \<Rightarrow> limit \<in> set (limits u) \<and> w \<in> set (limit_windows limit) \<and>
       (\<forall>limit' \<in> set (limits u). \<forall>w' \<in> set (limit_windows limit').
          \<not> rank_less (window_rank w) (window_rank w'))"
proof -
  let ?ps = "concat (map (\<lambda>limit. map (\<lambda>w. (limit, w)) (limit_windows limit)) (limits u))"
  have mem: "(limit, w) \<in> set ?ps \<longleftrightarrow> limit \<in> set (limits u) \<and> w \<in> set (limit_windows limit)" for limit w
    by auto
  show ?thesis
  proof (cases ?ps)
    case Nil
    then have "longest_window u = None"
      unfolding longest_window_def Nil by simp
    with Nil show ?thesis by auto
  next
    case (Cons x xs)
    define m where "m = foldl (\<lambda>best y. if rank_less (window_rank (snd y)) (window_rank (snd best)) then best else y) x xs"
    have "longest_window u = Some m"
      unfolding longest_window_def Cons by (simp add: m_def window_greater_rank case_prod_beta)
    moreover have "m \<in> set ?ps" and max: "\<forall>y \<in> set ?ps. \<not> rank_less (window_rank (snd m)) (window_rank (snd y))"
      using max_by_fold [of "\<lambda>p. window_rank (snd p)" x xs] Cons by (simp_all add: m_def Let_def)
    moreover obtain limit w where "m = (limit, w)" by fastforce
    moreover have "\<not> rank_less (window_rank w) (window_rank w')"
      if "limit' \<in> set (limits u)" "w' \<in> set (limit_windows limit')" for limit' w'
      using max mem that \<open>m = (limit, w)\<close> by fastforce
    ultimately show ?thesis
      using mem by auto
  qed
qed

theorem longest_window_maximal_witness:
  "let w = \<lparr>window_label = lit ''5h'', used_percent = 0, duration_minutes = Some 300, resets_at = None\<rparr>;
       u = (ProviderUsage_unavailable Codex :: nat ProviderUsage)\<lparr>limits :=
             [\<lparr>limit_id = None, limit_name = lit ''l'', limit_model = None, limit_windows = [w]\<rparr>]\<rparr>
   in \<exists>limit. longest_window u = Some (limit, w)"
proof -
  define w where "w = \<lparr>window_label = lit ''5h'', used_percent = 0, duration_minutes = Some 300, resets_at = None\<rparr>"
  define l where "l = \<lparr>limit_id = None, limit_name = lit ''l'', limit_model = None, limit_windows = [w]\<rparr>"
  have "limit_windows l = [w]" by (simp add: l_def)
  then show ?thesis
    using longest_window_maximal [of "(ProviderUsage_unavailable Codex :: nat ProviderUsage)\<lparr>limits := [l]\<rparr>"]
    unfolding Let_def w_def [symmetric] l_def [symmetric] by (auto split: option.splits)
qed

lemma floor_units:
  fixes a b r :: int
  assumes "0 < a" and "0 < b"
  shows "r div a * a + r mod a div b * b \<le> r" and "r < r div a * a + (r mod a div b + 1) * b"
    and "0 \<le> r mod a div b"
proof -
  define q x y z where "q = r div a * a" and "x = r mod a" and "y = r mod a div b * b" and "z = r mod a mod b"
  have "r = q + x" and "x = y + z"
    by (simp_all add: q_def x_def y_def z_def)
  moreover have "0 \<le> z" and "z < b"
    using assms by (simp_all add: z_def)
  moreover have "(r mod a div b + 1) * b = y + b"
    by (simp add: y_def distrib_right)
  ultimately show "r div a * a + r mod a div b * b \<le> r" "r < r div a * a + (r mod a div b + 1) * b"
    unfolding q_def [symmetric] y_def [symmetric] by linarith+
  show "0 \<le> r mod a div b"
    using assms by (simp add: pos_imp_zdiv_nonneg_iff)
qed

lemma floor_units_less:
  fixes a b n r :: int
  assumes "0 < b" and "a = n * b" and "0 < n"
  shows "r mod a div b < n"
proof -
  have "r mod a div b * b \<le> r mod a"
    using div_mult_mod_eq [of "r mod a" b] pos_mod_sign [OF assms(1), of "r mod a"] by linarith
  also have "\<dots> < n * b" using assms by simp
  finally show ?thesis using assms(1) by simp
qed

lemma countdown_floor:
  fixes r :: int
  assumes "0 < r"
  shows "tdiv r 86400 = r div 86400" and "tdiv (tmod r 86400) 3600 = r mod 86400 div 3600"
    and "tdiv (tmod r 3600) 60 = r mod 3600 div 60"
  using assms by (simp_all add: tdiv_nonneg tmod_nonneg)

text \<open>
  The countdown is right to its smallest unit. With \<open>r\<close> seconds left until the reset (a
  time stamp of ten billion or more is read as milliseconds), the text is \<open>due now\<close> exactly
  when none are left; otherwise the days and hours, hours and minutes or minutes it shows are
  the largest that do not exceed \<open>r\<close>, and a zero second part is not shown.
\<close>

theorem countdown_floor_units:
  assumes r: "r = i64_saturating_sub (if 10000000000 \<le> \<bar>at\<bar> then tdiv at 1000 else at) now"
  shows "if r \<le> 0 then format_reset_countdown at now = lit ''due now''
    else if 86400 \<le> r then
      \<exists>d h. 1 \<le> d \<and> 0 \<le> h \<and> h < 24 \<and> d * 86400 + h * 3600 \<le> r \<and> r < d * 86400 + (h + 1) * 3600 \<and>
        format_reset_countdown at now = lit ''in '' @ plural d ''day'' @ (if h = 0 then [] else lit '' and '' @ plural h ''hour'')
    else if 3600 \<le> r then
      \<exists>h m. 1 \<le> h \<and> 0 \<le> m \<and> m < 60 \<and> h * 3600 + m * 60 \<le> r \<and> r < h * 3600 + (m + 1) * 60 \<and>
        format_reset_countdown at now = lit ''in '' @ plural h ''hour'' @ (if m = 0 then [] else lit '' and '' @ plural m ''minute'')
    else if 60 \<le> r then
      \<exists>m. 1 \<le> m \<and> m * 60 \<le> r \<and> r < (m + 1) * 60 \<and> format_reset_countdown at now = lit ''in '' @ plural m ''minute''
    else format_reset_countdown at now = lit ''in less than 1 minute''"
proof (cases "r \<le> 0")
  case True
  then show ?thesis
    by (simp add: format_reset_countdown_def r [symmetric] Let_def)
next
  case False
  have eq: "format_reset_countdown at now =
      (if 0 < r div 86400 then format_countdown_parts (r div 86400) ''day'' (r mod 86400 div 3600) ''hour''
       else if 0 < r mod 86400 div 3600
         then format_countdown_parts (r mod 86400 div 3600) ''hour'' (r mod 3600 div 60) ''minute''
       else if 0 < r mod 3600 div 60 then lit ''in '' @ plural (r mod 3600 div 60) ''minute''
       else lit ''in less than 1 minute'')"
    using False by (simp add: format_reset_countdown_def r [symmetric] Let_def countdown_floor)
  define d h h' m where "d = r div 86400" and "h = r mod 86400 div 3600" and "h' = r div 3600"
    and "m = r mod 3600 div 60"
  note days = floor_units [of 86400 3600 r, folded d_def h_def]
  note hours = floor_units [of 3600 60 r, folded h'_def m_def]
  have h24: "h < 24"
    using floor_units_less [of 86400 3600 24 r] by (simp add: h_def)
  have m60: "m < 60"
    using floor_units_less [of 3600 60 60 r] by (simp add: m_def)
  have small: "d = 0 \<longleftrightarrow> r < 86400" "d = 0 \<Longrightarrow> h = h'" "h' = 0 \<longleftrightarrow> r < 3600" "h' = 0 \<Longrightarrow> m = r div 60"
      "0 \<le> d" "0 \<le> h'"
    using False
    by (auto simp: d_def h_def h'_def m_def div_eq_0_iff pos_imp_zdiv_nonneg_iff mod_pos_pos_trivial)
  note eq' = eq [folded d_def h_def m_def]
  consider "86400 \<le> r" | "3600 \<le> r" "r < 86400" | "60 \<le> r" "r < 3600" | "r < 60" by linarith
  then show ?thesis
  proof cases
    case 1
    then have "1 \<le> d" using small(1,5) by linarith
    then show ?thesis
      unfolding if_not_P [OF False] if_P [OF 1]
      by (intro exI [of _ d] exI [of _ h] conjI)
        (use days h24 in \<open>auto simp: eq' format_countdown_parts_def Let_def\<close>)
  next
    case 2
    then have "d = 0" and "h = h'" and "1 \<le> h'" and not: "\<not> 86400 \<le> r" using small by linarith+
    then show ?thesis
      unfolding if_not_P [OF False] if_not_P [OF not] if_P [OF 2(1)]
      by (intro exI [of _ h'] exI [of _ m] conjI)
        (use hours m60 in \<open>auto simp: eq' format_countdown_parts_def Let_def\<close>)
  next
    case 3
    then have "d = 0" and "h = 0" and "1 \<le> m" and "m * 60 \<le> r" and "r < (m + 1) * 60"
      and not: "\<not> 86400 \<le> r" "\<not> 3600 \<le> r"
      using small hours by auto
    then show ?thesis
      unfolding if_not_P [OF False] if_not_P [OF not(1)] if_not_P [OF not(2)] if_P [OF 3(1)]
      by (intro exI [of _ m] conjI) (auto simp: eq')
  next
    case 4
    then have "d = 0" and "h = 0" and "m = 0"
      using small False by auto
    with 4 False show ?thesis
      by (simp add: eq')
  qed
qed

theorem countdown_floor_units_witness:
  "format_reset_countdown 1700000000030 1700000000 = lit ''due now''"
  "format_reset_countdown 1700000030000 1700000000 = lit ''in less than 1 minute''"
proof -
  have "(0 :: int) = i64_saturating_sub (if 10000000000 \<le> \<bar>1700000000030 :: int\<bar> then tdiv 1700000000030 1000 else 1700000000030) 1700000000"
    by (simp add: i64_saturating_sub_def tdiv_def rust_num)
  from countdown_floor_units [OF this]
  show "format_reset_countdown 1700000000030 1700000000 = lit ''due now''" by simp
  have "(30 :: int) = i64_saturating_sub (if 10000000000 \<le> \<bar>1700000030000 :: int\<bar> then tdiv 1700000030000 1000 else 1700000030000) 1700000000"
    by (simp add: i64_saturating_sub_def tdiv_def rust_num)
  from countdown_floor_units [OF this]
  show "format_reset_countdown 1700000030000 1700000000 = lit ''in less than 1 minute''" by simp
qed

end
