(* ===== verification/Bot_Provider.thy ===== *)
theory Bot_Provider
  imports Bot_Core
begin

text \<open>
  Provider discovery, the extension contract and command ownership (\<^verbatim>\<open>bot-provider\<close>:
  \<^verbatim>\<open>catalog.rs\<close>, \<^verbatim>\<open>extensions.rs\<close>, \<^verbatim>\<open>ownership.rs\<close>). What the platform provides
  (the environment, path syntax, file metadata) is the record \<open>platform_env\<close>. The locale
  \<open>validated_wire\<close> is the contract of a type whose values are checked when they are
  deserialized; both versioned types are interpretations of it.
\<close>

subsection \<open>Catalog\<close>

datatype ProviderProtocol = CodexAppServer | AgentClientProtocol | PolicyGated

fun ProviderProtocol_label :: "ProviderProtocol \<Rightarrow> str" where
  "ProviderProtocol_label CodexAppServer = lit ''app-server''"
| "ProviderProtocol_label AgentClientProtocol = lit ''ACP''"
| "ProviderProtocol_label PolicyGated = lit ''policy gate''"

datatype SupportLevel = Ready | Next | Planned | Deferred

fun SupportLevel_label :: "SupportLevel \<Rightarrow> str" where
  "SupportLevel_label SupportLevel.Ready = lit ''ready''"
| "SupportLevel_label Next = lit ''next''"
| "SupportLevel_label Planned = lit ''planned''"
| "SupportLevel_label Deferred = lit ''deferred''"

record ProviderDescriptor =
  descriptor_id :: ProviderId
  executable :: str
  executable_path :: "str option"
  protocol :: ProviderProtocol
  support :: SupportLevel

definition ProviderDescriptor_is_installed :: "ProviderDescriptor \<Rightarrow> bool" where
  "ProviderDescriptor_is_installed d \<longleftrightarrow> executable_path d \<noteq> None"

text \<open>
  \<open>env_path\<close> is the variable \<open>PATH\<close>, \<open>split_paths\<close> and \<open>path_join\<close> the platform's path
  syntax, \<open>EXE_SUFFIX\<close> the suffix of executables; \<open>file_mode\<close> is the mode of a path's
  metadata on Unix (\<open>Some None\<close> when it cannot be read) and \<open>None\<close> on other platforms.
\<close>

record platform_env =
  env_path :: "str option"
  split_paths :: "str \<Rightarrow> str list"
  path_join :: "str \<Rightarrow> str \<Rightarrow> str"
  EXE_SUFFIX :: str
  is_file :: "str \<Rightarrow> bool"
  file_mode :: "(str \<Rightarrow> nat option) option"

definition executable_permissions :: "platform_env \<Rightarrow> str \<Rightarrow> bool" where
  "executable_permissions env path =
     (case file_mode env of
        Some mode \<Rightarrow> (case mode path of Some m \<Rightarrow> and m 73 \<noteq> 0 | None \<Rightarrow> False)
      | None \<Rightarrow> True)"

definition is_executable :: "platform_env \<Rightarrow> str \<Rightarrow> bool" where
  "is_executable env path = (if \<not> is_file env path then False else executable_permissions env path)"

definition ends_with :: "str \<Rightarrow> str \<Rightarrow> bool" where
  "ends_with s t \<longleftrightarrow> suffix t s"

definition executable_names :: "platform_env \<Rightarrow> str \<Rightarrow> str list" where
  "executable_names env name =
     (let sfx = EXE_SUFFIX env
      in if sfx = [] \<or> ends_with name sfx then [name] else [name, name @ sfx])"

definition find_executable_in :: "platform_env \<Rightarrow> str \<Rightarrow> str list \<Rightarrow> str option" where
  "find_executable_in env name paths =
     (let names = executable_names env name
      in find (is_executable env) (concat (map (\<lambda>path. map (path_join env path) names) paths)))"

definition find_executable :: "platform_env \<Rightarrow> str \<Rightarrow> str option" where
  "find_executable env name =
     (case env_path env of None \<Rightarrow> None | Some value \<Rightarrow> find_executable_in env name (split_paths env value))"

definition discover_providers :: "platform_env \<Rightarrow> ProviderDescriptor list" where
  "discover_providers env =
     map (\<lambda>(i, name, proto, level).
            \<lparr>descriptor_id = i, executable = name, executable_path = find_executable env name,
             protocol = proto, support = level\<rparr>)
       [(Grok, lit ''grok'', AgentClientProtocol, SupportLevel.Ready),
        (Codex, lit ''codex'', CodexAppServer, Next),
        (Gemini, lit ''gemini'', AgentClientProtocol, Planned),
        (Claude, lit ''claude'', PolicyGated, Deferred)]"

subsection \<open>Extension contract\<close>

definition EXTENSION_CONTRACT_VERSION :: u16 where
  "EXTENSION_CONTRACT_VERSION = 1"

datatype ExtensionCapability =
    Hooks | Plugins | PluginUpdates | Marketplace | Skills | Workflows | McpServers | McpMutations

record ExtensionContract =
  api_version :: u16
  capabilities :: "ExtensionCapability set"

datatype ExtensionContractError =
    UnsupportedVersion u16
  | MissingCapability ExtensionCapability ExtensionCapability

definition ExtensionContract_supports :: "ExtensionContract \<Rightarrow> ExtensionCapability \<Rightarrow> bool" where
  "ExtensionContract_supports c cap \<longleftrightarrow> cap \<in> capabilities c"

fun check_dependencies ::
    "ExtensionContract \<Rightarrow> (ExtensionCapability \<times> ExtensionCapability) list \<Rightarrow> ExtensionContractError + unit" where
  "check_dependencies c [] = Inr ()"
| "check_dependencies c ((cap, required) # rest) =
     (if ExtensionContract_supports c cap \<and> \<not> ExtensionContract_supports c required
      then Inl (MissingCapability cap required) else check_dependencies c rest)"

definition capability_dependencies :: "(ExtensionCapability \<times> ExtensionCapability) list" where
  "capability_dependencies = [(PluginUpdates, Plugins), (Marketplace, Plugins), (McpMutations, McpServers)]"

definition ExtensionContract_validate_dependencies :: "ExtensionContract \<Rightarrow> ExtensionContractError + unit" where
  "ExtensionContract_validate_dependencies c = check_dependencies c capability_dependencies"

definition ExtensionContract_new ::
    "u16 \<Rightarrow> ExtensionCapability set \<Rightarrow> ExtensionContractError + ExtensionContract" where
  "ExtensionContract_new version caps =
     (if version \<noteq> EXTENSION_CONTRACT_VERSION then Inl (UnsupportedVersion version)
      else let contract = \<lparr>api_version = version, capabilities = caps\<rparr>
           in case ExtensionContract_validate_dependencies contract of
                Inl e \<Rightarrow> Inl e
              | Inr _ \<Rightarrow> Inr contract)"

definition ExtensionContract_validate :: "ExtensionContract \<Rightarrow> ExtensionContractError + unit" where
  "ExtensionContract_validate c =
     (if api_version c \<noteq> EXTENSION_CONTRACT_VERSION then Inl (UnsupportedVersion (api_version c))
      else ExtensionContract_validate_dependencies c)"

text \<open>Deserialization after the wire struct has been read: the wire fields go through \<open>new\<close>.\<close>

type_synonym ExtensionContractWire = "u16 \<times> ExtensionCapability set"

definition ExtensionContract_deserialize ::
    "ExtensionContractWire \<Rightarrow> ExtensionContractError + ExtensionContract" where
  "ExtensionContract_deserialize wire = ExtensionContract_new (fst wire) (snd wire)"

fun extension_contract :: "ProviderId \<Rightarrow> ExtensionContract" where
  "extension_contract Grok =
     \<lparr>api_version = EXTENSION_CONTRACT_VERSION,
      capabilities = {Hooks, Plugins, PluginUpdates, Marketplace, Skills, Workflows, McpServers, McpMutations}\<rparr>"
| "extension_contract Codex =
     \<lparr>api_version = EXTENSION_CONTRACT_VERSION, capabilities = {Hooks, Plugins, Skills, McpServers}\<rparr>"
| "extension_contract Gemini = \<lparr>api_version = EXTENSION_CONTRACT_VERSION, capabilities = {}\<rparr>"
| "extension_contract Claude = \<lparr>api_version = EXTENSION_CONTRACT_VERSION, capabilities = {}\<rparr>"
| "extension_contract (Custom k) = \<lparr>api_version = EXTENSION_CONTRACT_VERSION, capabilities = {}\<rparr>"

subsection \<open>Command ownership\<close>

definition COMMAND_OWNERSHIP_VERSION :: u16 where
  "COMMAND_OWNERSHIP_VERSION = 1"

datatype CommandKind = Skill | Workflow

record CommandOwnership =
  ownership_version :: u16
  ownership_provider :: str
  ownership_owner :: str
  ownership_kind :: CommandKind

datatype CommandOwnershipError = UnsupportedVersion u16 | EmptyProvider | EmptyOwner

definition CommandOwnership_new ::
    "u16 \<Rightarrow> str \<Rightarrow> str \<Rightarrow> CommandKind \<Rightarrow> CommandOwnershipError + CommandOwnership" where
  "CommandOwnership_new version provider owner kind =
     (if version \<noteq> COMMAND_OWNERSHIP_VERSION then Inl (CommandOwnershipError.UnsupportedVersion version)
      else let provider = trim provider
           in if provider = [] then Inl EmptyProvider
              else let owner = trim owner
                   in if owner = [] then Inl EmptyOwner
                      else Inr \<lparr>ownership_version = version, ownership_provider = provider,
                                ownership_owner = owner, ownership_kind = kind\<rparr>)"

definition CommandOwnership_current ::
    "str \<Rightarrow> str \<Rightarrow> CommandKind \<Rightarrow> CommandOwnershipError + CommandOwnership" where
  "CommandOwnership_current provider owner kind =
     CommandOwnership_new COMMAND_OWNERSHIP_VERSION provider owner kind"

type_synonym CommandOwnershipWire = "u16 \<times> str \<times> str \<times> CommandKind"

definition CommandOwnership_deserialize ::
    "CommandOwnershipWire \<Rightarrow> CommandOwnershipError + CommandOwnership" where
  "CommandOwnership_deserialize wire =
     (case wire of (version, provider, owner, kind) \<Rightarrow> CommandOwnership_new version provider owner kind)"

subsection \<open>Checked deserialization\<close>

text \<open>
  \<open>deserialize\<close> builds only valid values, and a valid value, written out field by field
  (\<open>wire\<close>, what the derived \<open>Serialize\<close> does), is read back as itself.
\<close>

locale validated_wire =
  fixes deserialize :: "'w \<Rightarrow> 'e + 'a" and wire :: "'a \<Rightarrow> 'w" and valid :: "'a \<Rightarrow> bool"
  assumes valid_deserialize: "deserialize w = Inr a \<Longrightarrow> valid a"
    and deserialize_wire: "valid a \<Longrightarrow> deserialize (wire a) = Inr a"
begin

lemma reread: "deserialize w = Inr a \<Longrightarrow> deserialize (wire a) = Inr a"
  by (simp add: valid_deserialize deserialize_wire)

lemma accepted_iff: "deserialize (wire a) = Inr a \<longleftrightarrow> valid a"
  using valid_deserialize deserialize_wire by blast

end

definition contract_valid :: "ExtensionContract \<Rightarrow> bool" where
  "contract_valid c \<longleftrightarrow>
     api_version c = EXTENSION_CONTRACT_VERSION \<and>
     (PluginUpdates \<in> capabilities c \<or> Marketplace \<in> capabilities c \<longrightarrow> Plugins \<in> capabilities c) \<and>
     (McpMutations \<in> capabilities c \<longrightarrow> McpServers \<in> capabilities c)"

definition ownership_valid :: "CommandOwnership \<Rightarrow> bool" where
  "ownership_valid c \<longleftrightarrow>
     ownership_version c = COMMAND_OWNERSHIP_VERSION \<and>
     ownership_provider c \<noteq> [] \<and> trimmed (ownership_provider c) \<and>
     ownership_owner c \<noteq> [] \<and> trimmed (ownership_owner c)"

lemma validate_dependencies_iff:
  "ExtensionContract_validate_dependencies c = Inr () \<longleftrightarrow>
     (PluginUpdates \<in> capabilities c \<or> Marketplace \<in> capabilities c \<longrightarrow> Plugins \<in> capabilities c) \<and>
     (McpMutations \<in> capabilities c \<longrightarrow> McpServers \<in> capabilities c)"
  by (auto simp: ExtensionContract_validate_dependencies_def capability_dependencies_def
      ExtensionContract_supports_def)

lemma validate_iff: "ExtensionContract_validate c = Inr () \<longleftrightarrow> contract_valid c"
  by (simp add: ExtensionContract_validate_def contract_valid_def validate_dependencies_iff)

lemma contract_new_Inr_iff:
  "ExtensionContract_new v caps = Inr c \<longleftrightarrow> c = \<lparr>api_version = v, capabilities = caps\<rparr> \<and> contract_valid c"
proof -
  let ?c = "\<lparr>api_version = v, capabilities = caps\<rparr>"
  have "contract_valid ?c \<longleftrightarrow> v = EXTENSION_CONTRACT_VERSION \<and> ExtensionContract_validate_dependencies ?c = Inr ()"
    by (simp add: contract_valid_def validate_dependencies_iff)
  then show ?thesis
    by (auto simp: ExtensionContract_new_def Let_def split: sum.splits)
qed

interpretation contract_wire: validated_wire ExtensionContract_deserialize
    "\<lambda>c. (api_version c, capabilities c)" contract_valid
  by unfold_locales (auto simp: ExtensionContract_deserialize_def contract_new_Inr_iff)

interpretation ownership_wire: validated_wire CommandOwnership_deserialize
    "\<lambda>c. (ownership_version c, ownership_provider c, ownership_owner c, ownership_kind c)" ownership_valid
  by unfold_locales
    (auto simp: CommandOwnership_deserialize_def CommandOwnership_new_def ownership_valid_def Let_def
      split: prod.splits if_splits)

lemma ownership_new_Inr_iff:
  "CommandOwnership_new v provider owner kind = Inr k \<longleftrightarrow>
     k = \<lparr>ownership_version = v, ownership_provider = trim provider, ownership_owner = trim owner, ownership_kind = kind\<rparr> \<and>
     ownership_valid k"
  by (auto simp: CommandOwnership_new_def ownership_valid_def Let_def split: if_splits)

text \<open>
  C29: A versioned value is read from the wire exactly when it is valid. An extension contract is
  accepted, and kept as it is, just when it has the current version and every capability its
  capabilities depend on; \<open>validate\<close> accepts the same contracts, and the contract Bot ships for each
  provider is one of them. A command ownership is accepted, with its provider and owner trimmed, just
  when it has the current version and neither is empty then. So every valid value, written out, is
  read back as itself, and nothing that is not valid is read.
\<close>

theorem wire_validation:
  "(ExtensionContract_deserialize w = Inr c \<longleftrightarrow> w = (api_version c, capabilities c) \<and> contract_valid c) \<and>
   (ExtensionContract_validate c = Inr () \<longleftrightarrow> contract_valid c) \<and> contract_valid (extension_contract p) \<and>
   (CommandOwnership_deserialize (v, provider, owner, kind) = Inr k \<longleftrightarrow>
      k = \<lparr>ownership_version = v, ownership_provider = trim provider, ownership_owner = trim owner, ownership_kind = kind\<rparr> \<and>
      ownership_valid k) \<and>
   (ownership_valid k \<longrightarrow>
      CommandOwnership_deserialize (ownership_version k, ownership_provider k, ownership_owner k, ownership_kind k) = Inr k)"
proof (intro conjI impI)
  show "ExtensionContract_deserialize w = Inr c \<longleftrightarrow> w = (api_version c, capabilities c) \<and> contract_valid c"
    by (cases w) (auto simp: ExtensionContract_deserialize_def contract_new_Inr_iff)
  show "contract_valid (extension_contract p)"
    by (cases p) (simp_all add: contract_valid_def)
  show "CommandOwnership_deserialize (ownership_version k, ownership_provider k, ownership_owner k, ownership_kind k) = Inr k"
    if "ownership_valid k"
    using that by (rule ownership_wire.deserialize_wire)
qed (simp_all add: validate_iff CommandOwnership_deserialize_def ownership_new_Inr_iff)

theorem wire_validation_witness:
  "CommandOwnership_deserialize (1, lit ''grok'', lit ''me'', Workflow) =
     Inr \<lparr>ownership_version = 1, ownership_provider = lit ''grok'', ownership_owner = lit ''me'', ownership_kind = Workflow\<rparr> \<and>
   (\<nexists>c. ExtensionContract_deserialize (1, {Marketplace}) = Inr c)"
proof -
  let ?k = "\<lparr>ownership_version = 1, ownership_provider = lit ''grok'', ownership_owner = lit ''me'', ownership_kind = Workflow\<rparr>"
  have valid: "ownership_valid ?k"
    by (simp add: ownership_valid_def COMMAND_OWNERSHIP_VERSION_def trimmed_def str_simps)
  have invalid: "\<not> (1, {Marketplace}) = (api_version c, capabilities c) \<or> \<not> contract_valid c" for c
    by (auto simp: contract_valid_def dest!: sym [of "{Marketplace}"])
  show ?thesis
    using wire_validation [of "(1, {Marketplace})"] wire_validation [of _ _ _ _ _ _ _ ?k] valid invalid by simp
qed

subsection \<open>Discovery\<close>

text \<open>
  Discovery lists the four providers once each, in a fixed order, and reports a provider as
  installed exactly when some directory of \<open>PATH\<close> holds an executable file under one of its
  names; the path reported is the first such file in the order of the directories.
\<close>

theorem discovery_first_match:
  assumes d: "d \<in> set (discover_providers env)" and path: "env_path env = Some value"
    and cands: "cands = concat (map (\<lambda>path. map (path_join env path) (executable_names env (executable d))) (split_paths env value))"
  shows "map descriptor_id (discover_providers env) = [Grok, Codex, Gemini, Claude] \<and>
    (ProviderDescriptor_is_installed d \<longleftrightarrow> (\<exists>f \<in> set cands. is_executable env f)) \<and>
    (\<forall>f. executable_path d = Some f \<longrightarrow>
       (\<exists>i < length cands. f = cands ! i \<and> is_executable env f \<and> (\<forall>j < i. \<not> is_executable env (cands ! j))))"
proof -
  have ep: "executable_path d = find (is_executable env) cands"
    using d path by (auto simp: discover_providers_def find_executable_def find_executable_in_def cands)
  have "executable_path d = None \<longleftrightarrow> \<not> (\<exists>f \<in> set cands. is_executable env f)"
    unfolding ep by (auto simp: find_None_iff)
  then have "ProviderDescriptor_is_installed d \<longleftrightarrow> (\<exists>f \<in> set cands. is_executable env f)"
    by (simp add: ProviderDescriptor_is_installed_def)
  moreover have "\<exists>i < length cands. f = cands ! i \<and> is_executable env f \<and> (\<forall>j < i. \<not> is_executable env (cands ! j))"
    if "executable_path d = Some f" for f
    using that unfolding ep by (auto simp: find_Some_iff)
  ultimately show ?thesis
    by (simp add: discover_providers_def)
qed

definition example_env :: platform_env where
  "example_env =
     \<lparr>env_path = Some (lit ''/bin''), split_paths = split_char 58, path_join = (\<lambda>p n. p @ [47] @ n),
      EXE_SUFFIX = [], is_file = (\<lambda>p. p = lit ''/bin/grok''), file_mode = Some (\<lambda>_. Some 493)\<rparr>"

theorem discovery_first_match_witness:
  "ProviderDescriptor_is_installed (hd (discover_providers example_env))"
proof -
  let ?d = "hd (discover_providers example_env)"
  have d: "?d \<in> set (discover_providers example_env)" and name: "executable ?d = lit ''grok''"
    by (simp_all add: discover_providers_def)
  have path: "env_path example_env = Some (lit ''/bin'')"
    by (simp add: example_env_def)
  have "lit ''/bin/grok'' \<in> set (concat (map (\<lambda>path. map (path_join example_env path)
      (executable_names example_env (executable ?d))) (split_paths example_env (lit ''/bin''))))"
    unfolding name by (simp add: example_env_def executable_names_def)
  moreover have "is_executable example_env (lit ''/bin/grok'')"
    by (simp add: example_env_def is_executable_def executable_permissions_def)
  ultimately show ?thesis
    using discovery_first_match [OF d path refl] by blast
qed

end
