(* ===== verification/Codex_Diff.thy ===== *)
theory Codex_Diff
  imports Rust_Num Rust_Str
begin

text \<open>
  Unified diffs reported by Codex (\<^verbatim>\<open>bot-provider-codex/src/diff.rs\<close>): splitting a turn's diff
  into files, and reading the hunks of one file into the details the transcript shows.
\<close>

record CodexFileDiff =
  file_path :: str
  file_diff :: str

record CodexDiffDetail =
  old_string :: str
  old_line :: usize
  new_string :: str
  new_line :: usize
  context_before :: str
  context_after :: str
  line_prefix :: str

datatype LineKind = Context | Delete | Insert

record HunkLine =
  line_kind :: LineKind
  line_text :: str

type_synonym hunk = "usize \<times> usize \<times> HunkLine list"

subsection \<open>Hunks\<close>

definition join_text :: "HunkLine list \<Rightarrow> (LineKind \<Rightarrow> bool) \<Rightarrow> str" where
  "join_text ls incl = concat (map line_text (filter (\<lambda>l. incl (line_kind l)) ls))"

text \<open>\<open>Iterator::position\<close> and \<open>rposition\<close>.\<close>

fun position :: "('a \<Rightarrow> bool) \<Rightarrow> 'a list \<Rightarrow> nat option" where
  "position P [] = None"
| "position P (x # xs) = (if P x then Some 0 else map_option Suc (position P xs))"

definition rposition :: "('a \<Rightarrow> bool) \<Rightarrow> 'a list \<Rightarrow> nat option" where
  "rposition P xs = map_option (\<lambda>i. length xs - 1 - i) (position P (rev xs))"

definition finish_hunk :: "hunk \<Rightarrow> CodexDiffDetail option" where
  "finish_hunk h =
     (case h of (old_start, new_start, ls) \<Rightarrow>
        (case position (\<lambda>l. line_kind l \<noteq> Context) ls of
           None \<Rightarrow> None
         | Some first \<Rightarrow>
             (case rposition (\<lambda>l. line_kind l \<noteq> Context) ls of
                None \<Rightarrow> None
              | Some lst \<Rightarrow>
                  let before = join_text (take first ls) (\<lambda>_. True);
                      after = join_text (drop (lst + 1) ls) (\<lambda>_. True);
                      body = drop first (take (lst + 1) ls)
                  in Some \<lparr>old_string = join_text body (\<lambda>k. k \<noteq> Insert),
                           old_line = saturating_add old_start (word_of_nat first),
                           new_string = join_text body (\<lambda>k. k \<noteq> Delete),
                           new_line = saturating_add new_start (word_of_nat first),
                           context_before = before, context_after = after, line_prefix = []\<rparr>)))"

definition parse_range_start :: "str \<Rightarrow> usize option" where
  "parse_range_start value =
     map_option word_of_nat (parse_unsigned (2 ^ 64 - 1) (hd (split_char 44 value)))"

definition parse_hunk_header :: "str \<Rightarrow> (usize \<times> usize) option" where
  "parse_hunk_header line =
     (case strip_prefix line (lit ''@@ -'') of
        None \<Rightarrow> None
      | Some body \<Rightarrow>
          (case split_once body (lit '' +'') of
             None \<Rightarrow> None
           | Some (old, body) \<Rightarrow>
               (case split_once body (lit '' @@'') of
                  None \<Rightarrow> None
                | Some (new, _) \<Rightarrow>
                    (case parse_range_start old of
                       None \<Rightarrow> None
                     | Some o' \<Rightarrow> map_option (\<lambda>n. (o', n)) (parse_range_start new)))))"

text \<open>\<open>split_at_checked(1)\<close> fails on an empty line and inside a multi-byte character.\<close>

definition hunk_line :: "str \<Rightarrow> HunkLine option" where
  "hunk_line line =
     (case line of
        [] \<Rightarrow> None
      | c # txt' \<Rightarrow>
          if len_utf8 c \<noteq> 1 then None
          else if c = 32 then Some \<lparr>line_kind = Context, line_text = txt'\<rparr>
          else if c = 45 then Some \<lparr>line_kind = Delete, line_text = txt'\<rparr>
          else if c = 43 then Some \<lparr>line_kind = Insert, line_text = txt'\<rparr>
          else None)"

definition flush_hunk :: "CodexDiffDetail list \<Rightarrow> hunk option \<Rightarrow> CodexDiffDetail list" where
  "flush_hunk details current =
     (case Option.bind current finish_hunk of Some h \<Rightarrow> details @ [h] | None \<Rightarrow> details)"

definition parse_diff_line ::
    "CodexDiffDetail list \<times> hunk option \<Rightarrow> str \<Rightarrow> CodexDiffDetail list \<times> hunk option" where
  "parse_diff_line s line =
     (case s of (details, current) \<Rightarrow>
        (case parse_hunk_header line of
           Some (old, new) \<Rightarrow> (flush_hunk details current, Some (old, new, []))
         | None \<Rightarrow>
             (case current of
                None \<Rightarrow> (details, None)
              | Some (old, new, ls) \<Rightarrow>
                  (case hunk_line line of
                     None \<Rightarrow> (details, current)
                   | Some l \<Rightarrow> (details, Some (old, new, ls @ [l]))))))"

definition parse_unified_diff :: "str \<Rightarrow> CodexDiffDetail list" where
  "parse_unified_diff diff =
     (let (details, current) = foldl parse_diff_line ([], None) (split_inclusive_nl diff)
      in flush_hunk details current)"

subsection \<open>Files\<close>

fun find_map :: "('a \<Rightarrow> 'b option) \<Rightarrow> 'a list \<Rightarrow> 'b option" where
  "find_map f [] = None"
| "find_map f (x # xs) = (case f x of Some y \<Rightarrow> Some y | None \<Rightarrow> find_map f xs)"

definition header_path :: "str \<Rightarrow> str \<Rightarrow> str option" where
  "header_path diff prfx =
     (case find_map (\<lambda>line. strip_prefix line prfx) (lines diff) of
        None \<Rightarrow> None
      | Some value \<Rightarrow>
          if value = lit ''/dev/null'' then Some value
          else case (case strip_prefix value (lit ''a/'') of
                       Some v \<Rightarrow> Some v
                     | None \<Rightarrow> strip_prefix value (lit ''b/'')) of
                 None \<Rightarrow> None
               | Some v \<Rightarrow> if v \<noteq> [] then Some v else None)"

definition diff_path :: "str \<Rightarrow> str option" where
  "diff_path diff =
     (let new_path = header_path diff (lit ''+++ '')
      in if new_path \<noteq> Some (lit ''/dev/null'') then new_path
         else case header_path diff (lit ''--- '') of
                Some path \<Rightarrow> if path \<noteq> lit ''/dev/null'' then Some path else None
              | None \<Rightarrow> None)"

definition section_line :: "str list \<times> str \<Rightarrow> str \<Rightarrow> str list \<times> str" where
  "section_line s line =
     (case s of (sections, current) \<Rightarrow>
        (let (sections, current) =
               (if starts_with line (lit ''diff --git '') \<and> current \<noteq> [] then (sections @ [current], [])
                else (sections, current))
         in (sections, current @ line)))"

definition turn_sections :: "str \<Rightarrow> str list" where
  "turn_sections diff =
     (let (sections, current) = foldl section_line ([], []) (split_inclusive_nl diff)
      in if current \<noteq> [] then sections @ [current] else sections)"

definition split_turn_diff :: "str \<Rightarrow> CodexFileDiff list" where
  "split_turn_diff diff =
     List.map_filter (\<lambda>d. map_option (\<lambda>path. \<lparr>file_path = path, file_diff = d\<rparr>) (diff_path d)) (turn_sections diff)"

subsection \<open>A hunk keeps both sides\<close>

definition old_side :: "HunkLine list \<Rightarrow> str" where
  "old_side ls = join_text ls (\<lambda>k. k \<noteq> Insert)"

definition new_side :: "HunkLine list \<Rightarrow> str" where
  "new_side ls = join_text ls (\<lambda>k. k \<noteq> Delete)"

lemma join_text_append: "join_text (xs @ ys) P = join_text xs P @ join_text ys P"
  by (simp add: join_text_def)

lemma join_text_context:
  assumes "\<forall>l \<in> set ls. line_kind l = Context" and "P Context"
  shows "join_text ls P = join_text ls (\<lambda>_. True)"
proof -
  have "filter (\<lambda>l. P (line_kind l)) ls = filter (\<lambda>l. True) ls"
    using assms by (intro filter_cong) auto
  then show ?thesis by (simp add: join_text_def)
qed

lemma position_Some:
  "position P xs = Some i \<Longrightarrow> i < length xs \<and> P (xs ! i) \<and> (\<forall>x \<in> set (take i xs). \<not> P x)"
  by (induction xs arbitrary: i) (auto split: if_splits)

lemma position_None: "position P xs = None \<longleftrightarrow> (\<forall>x \<in> set xs. \<not> P x)"
  by (induction xs) auto

lemma rposition_Some:
  assumes "rposition P xs = Some j"
  shows "j < length xs \<and> P (xs ! j) \<and> (\<forall>x \<in> set (drop (j + 1) xs). \<not> P x)"
proof -
  obtain i where i: "position P (rev xs) = Some i" and j: "j = length xs - 1 - i"
    using assms by (auto simp: rposition_def)
  from position_Some [OF i] have "i < length xs" "P (xs ! j)" "\<forall>x \<in> set (take i (rev xs)). \<not> P x"
    by (auto simp: rev_nth j)
  moreover have "take i (rev xs) = rev (drop (j + 1) xs)"
    using \<open>i < length xs\<close> by (simp add: take_rev j Suc_diff_Suc)
  ultimately show ?thesis by (auto simp: j)
qed

lemma rposition_None: "rposition P xs = None \<longleftrightarrow> (\<forall>x \<in> set xs. \<not> P x)"
  by (simp add: rposition_def position_None)

lemma finish_hunk_None: "finish_hunk (o', n, ls) = None \<longleftrightarrow> (\<forall>l \<in> set ls. line_kind l = Context)"
proof
  assume "finish_hunk (o', n, ls) = None"
  then have "position (\<lambda>l. line_kind l \<noteq> Context) ls = None \<or> rposition (\<lambda>l. line_kind l \<noteq> Context) ls = None"
    by (auto simp: finish_hunk_def Let_def split: option.splits)
  then show "\<forall>l \<in> set ls. line_kind l = Context"
    by (auto simp: position_None rposition_None)
next
  assume "\<forall>l \<in> set ls. line_kind l = Context"
  then have "position (\<lambda>l. line_kind l \<noteq> Context) ls = None"
    by (simp add: position_None)
  then show "finish_hunk (o', n, ls) = None"
    by (simp add: finish_hunk_def)
qed

text \<open>
  A hunk's detail keeps both sides of the change. Whenever a hunk has a changed line, its
  detail splits the old text and the new text of the hunk into the same leading context, the
  changed part and the same trailing context, with nothing lost or added; the reported lines are
  the hunk's start lines advanced by the number of leading context lines. A hunk of context only has
  no detail.
\<close>

theorem finish_hunk_sides:
  "case finish_hunk (o', n, ls) of
     None \<Rightarrow> \<forall>l \<in> set ls. line_kind l = Context
   | Some d \<Rightarrow>
       context_before d @ old_string d @ context_after d = old_side ls \<and>
       context_before d @ new_string d @ context_after d = new_side ls \<and>
       (\<exists>i < length ls. line_kind (ls ! i) \<noteq> Context \<and> (\<forall>l \<in> set (take i ls). line_kind l = Context) \<and>
          context_before d = join_text (take i ls) (\<lambda>_. True) \<and>
          old_line d = saturating_add o' (word_of_nat i) \<and> new_line d = saturating_add n (word_of_nat i))"
proof (cases "finish_hunk (o', n, ls)")
  case None
  moreover from None have "\<forall>l \<in> set ls. line_kind l = Context"
    by (rule finish_hunk_None [THEN iffD1])
  ultimately show ?thesis by simp
next
  case (Some d)
  let ?P = "\<lambda>l. line_kind l \<noteq> Context"
  obtain i where i: "position ?P ls = Some i"
    using Some by (auto simp: finish_hunk_def split: option.splits)
  obtain j where j: "rposition ?P ls = Some j"
    using Some by (auto simp: finish_hunk_def Let_def split: option.splits)
  note pi = position_Some [OF i] and pj = rposition_Some [OF j]
  let ?pre = "take i ls" and ?body = "drop i (take (j + 1) ls)" and ?post = "drop (j + 1) ls"
  have d: "d = \<lparr>old_string = join_text ?body (\<lambda>k. k \<noteq> Insert), old_line = saturating_add o' (word_of_nat i),
      new_string = join_text ?body (\<lambda>k. k \<noteq> Delete), new_line = saturating_add n (word_of_nat i),
      context_before = join_text ?pre (\<lambda>_. True), context_after = join_text ?post (\<lambda>_. True), line_prefix = []\<rparr>"
    using Some i j by (simp add: finish_hunk_def Let_def)
  have "i \<le> j"
  proof (rule ccontr)
    assume "\<not> i \<le> j"
    then have "ls ! j \<in> set (take i ls)"
      using pi nth_mem [of j "take i ls"] by simp
    with pi pj show False by blast
  qed
  then have ls: "ls = ?pre @ ?body @ ?post"
    using append_take_drop_id [of "j + 1" ls] append_take_drop_id [of i "take (j + 1) ls"]
    by (simp add: min_def flip: append_assoc)
  have "join_text ?pre (\<lambda>k. k \<noteq> Insert) = join_text ?pre (\<lambda>_. True)"
    "join_text ?post (\<lambda>k. k \<noteq> Insert) = join_text ?post (\<lambda>_. True)"
    "join_text ?pre (\<lambda>k. k \<noteq> Delete) = join_text ?pre (\<lambda>_. True)"
    "join_text ?post (\<lambda>k. k \<noteq> Delete) = join_text ?post (\<lambda>_. True)"
    using pi pj by (auto intro!: join_text_context)
  moreover have "join_text ls P = join_text ?pre P @ join_text ?body P @ join_text ?post P" for P
    by (subst ls) (simp only: join_text_append)
  ultimately have "old_side ls = join_text ?pre (\<lambda>_. True) @ join_text ?body (\<lambda>k. k \<noteq> Insert) @ join_text ?post (\<lambda>_. True)"
    "new_side ls = join_text ?pre (\<lambda>_. True) @ join_text ?body (\<lambda>k. k \<noteq> Delete) @ join_text ?post (\<lambda>_. True)"
    by (simp_all only: old_side_def new_side_def)
  then show ?thesis
    using Some pi by (auto simp: d intro!: exI [of _ i])
qed


theorem finish_hunk_sides_witness:
  "let ls = [\<lparr>line_kind = Context, line_text = lit ''a''\<rparr>, \<lparr>line_kind = Insert, line_text = lit ''b''\<rparr>]
   in \<exists>d. finish_hunk (10, 10, ls) = Some d \<and> context_before d @ new_string d @ context_after d = lit ''ab'' \<and>
        context_before d @ old_string d @ context_after d = lit ''a''"
proof -
  let ?ls = "[\<lparr>line_kind = Context, line_text = lit ''a''\<rparr>, \<lparr>line_kind = Insert, line_text = lit ''b''\<rparr>]"
  have "finish_hunk (10, 10, ?ls) \<noteq> None"
    by (simp add: finish_hunk_None)
  then obtain d where d: "finish_hunk (10, 10, ?ls) = Some d" by blast
  have "old_side ?ls = lit ''a''" "new_side ?ls = lit ''ab''"
    by (simp_all add: old_side_def new_side_def join_text_def)
  with finish_hunk_sides [where o' = 10 and n = 10 and ls = ?ls] d show ?thesis
    by (auto simp: Let_def simp del: lit_Cons)
qed

subsection \<open>Lossless sections\<close>

lemma starts_with_iff: "starts_with s p \<longleftrightarrow> prefix p s"
  by (metis starts_with_def append_eq_conv_conj prefix_def take_is_prefix)

lemma section_line_simp:
  "section_line (secs, cur) l =
     (if starts_with l (lit ''diff --git '') \<and> cur \<noteq> [] then (secs @ [cur], l) else (secs, cur @ l))"
  by (simp add: section_line_def)

lemma section_line_fold:
  assumes "foldl section_line (secs, cur) ls = (secs', cur')"
  shows "concat secs' @ cur' = concat secs @ cur @ concat ls \<and>
    (\<exists>new. secs' @ [cur'] = secs @ new \<and> new \<noteq> [] \<and> prefix cur (hd new) \<and>
       (\<forall>x \<in> set (tl new). starts_with x (lit ''diff --git '')))"
  using assms
proof (induction ls arbitrary: secs cur)
  case Nil
  then show ?case by (auto intro!: exI [of _ "[cur]"])
next
  case (Cons l ls)
  show ?case
  proof (cases "starts_with l (lit ''diff --git '') \<and> cur \<noteq> []")
    case False
    with Cons.prems have "foldl section_line (secs, cur @ l) ls = (secs', cur')"
      by (simp add: section_line_simp del: lit_Cons split: if_splits)
    from Cons.IH [OF this] show ?thesis
      by (auto dest: append_prefixD)
  next
    case True
    with Cons.prems have "foldl section_line (secs @ [cur], l) ls = (secs', cur')"
      by (simp add: section_line_simp del: lit_Cons)
    from Cons.IH [OF this] obtain new where eq: "concat secs' @ cur' = concat (secs @ [cur]) @ l @ concat ls"
      and new: "secs' @ [cur'] = (secs @ [cur]) @ new" "new \<noteq> []" "prefix l (hd new)"
        "\<forall>x \<in> set (tl new). starts_with x (lit ''diff --git '')" by blast
    from new(2,3) True have "starts_with (hd new) (lit ''diff --git '')"
      by (auto simp: starts_with_iff simp del: lit_Cons intro: prefix_order.trans)
    with new have "\<forall>x \<in> set new. starts_with x (lit ''diff --git '')"
      by (cases new) auto
    with eq new show ?thesis
      by (intro conjI exI [of _ "cur # new"]) auto
  qed
qed

lemma section_line_fold_ne:
  assumes "foldl section_line (secs, cur) ls = (secs', cur')" and "[] \<notin> set secs"
  shows "[] \<notin> set secs'"
  using assms by (induction ls arbitrary: secs cur) (auto simp: section_line_simp simp del: lit_Cons split: if_splits)

text \<open>
  Splitting a turn's diff into files loses nothing. The sections put together are the diff; none
  is empty, every one after the first starts with a \<open>diff --git\<close> line, and the files reported are
  the sections that name a portable path, in order and with their whole text.
\<close>

theorem turn_sections_lossless:
  "concat (turn_sections d) = d \<and> [] \<notin> set (turn_sections d) \<and>
   (\<forall>s \<in> set (tl (turn_sections d)). starts_with s (lit ''diff --git '')) \<and>
   map file_diff (split_turn_diff d) = filter (\<lambda>s. diff_path s \<noteq> None) (turn_sections d) \<and>
   (\<forall>f \<in> set (split_turn_diff d). diff_path (file_diff f) = Some (file_path f))"
proof -
  obtain secs cur where f: "foldl section_line ([], []) (split_inclusive_nl d) = (secs, cur)"
    by (cases "foldl section_line ([], []) (split_inclusive_nl d)")
  note inv = section_line_fold [OF f]
  have ne: "[] \<notin> set secs" by (rule section_line_fold_ne [OF f]) simp
  have sec: "turn_sections d = (if cur \<noteq> [] then secs @ [cur] else secs)"
    by (simp add: turn_sections_def f)
  have tl: "\<forall>s \<in> set (tl (secs @ [cur])). starts_with s (lit ''diff --git '')"
    using inv by auto
  have "\<forall>s \<in> set (tl (turn_sections d)). starts_with s (lit ''diff --git '')"
    using tl by (cases secs) (auto simp: sec)
  moreover have "concat (turn_sections d) = d"
    using inv by (auto simp: sec)
  moreover have "map file_diff (split_turn_diff d) = filter (\<lambda>s. diff_path s \<noteq> None) (turn_sections d)"
    unfolding split_turn_diff_def List.map_filter_def map_map
    by (simp, rule map_idI) auto
  moreover have "\<forall>f \<in> set (split_turn_diff d). diff_path (file_diff f) = Some (file_path f)"
    by (auto simp: split_turn_diff_def List.map_filter_def)
  ultimately show ?thesis
    using ne by (auto simp: sec)
qed

theorem turn_sections_lossless_witness:
  "concat (turn_sections (lit ''diff --git a'' @ [10] @ lit ''diff --git b'')) = lit ''diff --git a'' @ [10] @ lit ''diff --git b''"
  using turn_sections_lossless by blast

subsection \<open>Rendering and parsing hunks\<close>

text \<open>The text of a hunk in a unified diff, as \<open>git\<close> prints it.\<close>

definition line_marker :: "LineKind \<Rightarrow> uchar" where
  "line_marker k = (case k of Context \<Rightarrow> 32 | Delete \<Rightarrow> 45 | Insert \<Rightarrow> 43)"

definition render_header :: "usize \<Rightarrow> nat \<Rightarrow> usize \<Rightarrow> nat \<Rightarrow> str \<Rightarrow> str" where
  "render_header o' oc n nc section =
     lit ''@@ -'' @ show_nat (unat o') @ 44 # show_nat oc @ lit '' +'' @ show_nat (unat n) @ 44 # show_nat nc
       @ lit '' @@'' @ section @ [10]"

definition render_line :: "HunkLine \<Rightarrow> str" where
  "render_line l = line_marker (line_kind l) # line_text l"

definition render_hunk :: "hunk \<Rightarrow> str" where
  "render_hunk h =
     (case h of (o', n, ls) \<Rightarrow>
        render_header o' (length (filter (\<lambda>l. line_kind l \<noteq> Insert) ls))
                      n (length (filter (\<lambda>l. line_kind l \<noteq> Delete) ls)) []
          @ concat (map render_line ls))"

definition whole_line :: "str \<Rightarrow> bool" where
  "whole_line s \<longleftrightarrow> s \<noteq> [] \<and> last s = 10 \<and> 10 \<notin> set (butlast s)"

lemma split_inclusive_nl_line: "10 \<notin> set w \<Longrightarrow> split_inclusive_nl (w @ 10 # s) = (w @ [10]) # split_inclusive_nl s"
  by (induction w) auto

lemma split_inclusive_nl_whole: "whole_line l \<Longrightarrow> split_inclusive_nl (l @ s) = l # split_inclusive_nl s"
  using split_inclusive_nl_line [of "butlast l" s]
  by (metis append_Cons append_assoc append_butlast_last_id append_Nil whole_line_def)

lemma split_inclusive_nl_concat: "\<forall>l \<in> set ls. whole_line l \<Longrightarrow> split_inclusive_nl (concat ls) = ls"
  by (induction ls) (simp_all add: split_inclusive_nl_whole)

lemma split_once_first:
  assumes "\<And>c. c \<in> set a \<Longrightarrow> c \<noteq> p0"
  shows "split_once (a @ (p0 # p) @ b) (p0 # p) = Some (a, b)"
  using assms
proof (induction a)
  case Nil
  then show ?case using strip_prefix_append [of "p0 # p" b] by simp
next
  case (Cons c a)
  then have "strip_prefix (c # a @ (p0 # p) @ b) (p0 # p) = None"
    by (auto simp: strip_prefix_None_iff)
  with Cons show ?case by simp
qed

lemma hd_split_char: "d \<notin> set s \<Longrightarrow> hd (split_char d (s @ d # t)) = s"
  by (induction s) (auto split: list.split simp: neq_Nil_conv dest: split_char_not_Nil [THEN notE])

lemma parse_range_start_show: "parse_range_start (show_nat (unat w) @ 44 # t) = Some (w :: usize)"
proof -
  have "unat w \<le> 2 ^ 64 - 1"
    using unsigned_less [of w] by (simp add: less_Suc_eq_le [symmetric])
  moreover have "44 \<notin> set (show_nat (unat w))"
    using show_nat_digit [of 44] by auto
  ultimately show ?thesis
    by (simp add: parse_range_start_def hd_split_char)
qed

lemma parse_render_header: "parse_hunk_header (render_header o' oc n nc sect) = Some (o', n)"
proof -
  define a where "a = show_nat (unat o') @ 44 # show_nat oc"
  define b where "b = show_nat (unat n) @ 44 # show_nat nc"
  have not32: "c \<noteq> 32" if "c \<in> set a \<or> c \<in> set b" for c
    using that show_nat_digit by (fastforce simp: a_def b_def)
  have sp: "lit '' +'' = 32 # lit ''+''" "lit '' @@'' = 32 # lit ''@@''" by (simp_all add: lit_def)
  have "split_once (a @ lit '' +'' @ b @ lit '' @@'' @ sect @ [10]) (lit '' +'') = Some (a, b @ lit '' @@'' @ sect @ [10])"
    unfolding sp by (rule split_once_first) (use not32 in auto)
  moreover have "split_once (b @ lit '' @@'' @ sect @ [10]) (lit '' @@'') = Some (b, sect @ [10])"
    unfolding sp by (rule split_once_first) (use not32 in auto)
  moreover have "strip_prefix (render_header o' oc n nc sect) (lit ''@@ -'') = Some (a @ lit '' +'' @ b @ lit '' @@'' @ sect @ [10])"
    by (simp add: strip_prefix_Some_iff render_header_def a_def b_def del: lit_Cons)
  ultimately show ?thesis
    by (simp add: parse_hunk_header_def a_def b_def parse_range_start_show del: lit_Cons)
qed

lemma parse_render_line:
  "parse_hunk_header (render_line l) = None \<and> hunk_line (render_line l) = Some l"
  by (cases l; cases "line_kind l")
    (auto simp: parse_hunk_header_def strip_prefix_def render_line_def line_marker_def hunk_line_def
      len_utf8_def)

lemma parse_hunk_lines:
  "foldl parse_diff_line (ds, Some (o', n, acc)) (map render_line ls) = (ds, Some (o', n, acc @ ls))"
  by (induction ls arbitrary: acc) (auto simp: parse_diff_line_def parse_render_line)

lemma parse_hunks:
  "(let (ds, cur) = foldl parse_diff_line (ds, cur)
       (concat (map (\<lambda>(o', n, ls). render_header o' (length (filter (\<lambda>l. line_kind l \<noteq> Insert) ls))
                      n (length (filter (\<lambda>l. line_kind l \<noteq> Delete) ls)) [] # map render_line ls) hs))
    in flush_hunk ds cur) = flush_hunk ds cur @ List.map_filter finish_hunk hs"
proof (induction hs arbitrary: ds cur)
  case Nil
  then show ?case by (simp add: List.map_filter_def)
next
  case (Cons h hs)
  obtain o' n ls where h: "h = (o', n, ls)" by (cases h)
  have "flush_hunk (flush_hunk ds cur) (Some h) @ List.map_filter finish_hunk hs =
      flush_hunk ds cur @ List.map_filter finish_hunk (h # hs)"
    by (auto simp: flush_hunk_def List.map_filter_def split: option.split)
  with Cons [of "flush_hunk ds cur" "Some h"] show ?case
    by (simp add: h parse_hunk_lines parse_diff_line_def [of "(ds, cur)"] parse_render_header)
qed

text \<open>
  The hunk reader inverts the unified format. Printing any sequence of hunks whose lines end in
  their only line feed, with any start lines, and parsing the text gives exactly the details of those
  hunks in order; hunks of context only are the ones left out.
\<close>

theorem parse_unified_diff_inverts:
  assumes "\<forall>(o', n, ls) \<in> set hs. \<forall>l \<in> set ls. whole_line (line_text l)"
  shows "parse_unified_diff (concat (map render_hunk hs)) = List.map_filter finish_hunk hs"
proof -
  let ?pieces = "concat (map (\<lambda>(o', n, ls). render_header o' (length (filter (\<lambda>l. line_kind l \<noteq> Insert) ls))
                      n (length (filter (\<lambda>l. line_kind l \<noteq> Delete) ls)) [] # map render_line ls) hs)"
  have line: "whole_line (render_line l)" if "whole_line (line_text l)" for l
    using that by (cases "line_kind l") (auto simp: whole_line_def render_line_def line_marker_def)
  have hdr: "whole_line (render_header a b c d [])" for a b c d
    using show_nat_digit [of 10] by (auto simp: whole_line_def render_header_def butlast_append)
  have "\<forall>l \<in> set ?pieces. whole_line l"
    using assms line hdr by fastforce
  then have "split_inclusive_nl (concat ?pieces) = ?pieces"
    by (rule split_inclusive_nl_concat)
  moreover have "concat (map render_hunk hs) = concat ?pieces"
    by (induction hs) (auto simp: render_hunk_def)
  ultimately show ?thesis
    using parse_hunks [of "[]" None hs] by (simp add: parse_unified_diff_def flush_hunk_def [of _ None])
qed

theorem parse_unified_diff_inverts_witness:
  "let hs = [(10, 10, [\<lparr>line_kind = Context, line_text = lit ''before'' @ [10]\<rparr>,
                       \<lparr>line_kind = Delete, line_text = lit ''old'' @ [10]\<rparr>,
                       \<lparr>line_kind = Insert, line_text = lit ''new'' @ [10]\<rparr>])]
   in parse_unified_diff (concat (map render_hunk hs)) =
      [\<lparr>old_string = lit ''old'' @ [10], old_line = 11, new_string = lit ''new'' @ [10], new_line = 11,
        context_before = lit ''before'' @ [10], context_after = [], line_prefix = []\<rparr>]"
proof -
  have "finish_hunk (10, 10, [\<lparr>line_kind = Context, line_text = lit ''before'' @ [10]\<rparr>,
                       \<lparr>line_kind = Delete, line_text = lit ''old'' @ [10]\<rparr>,
                       \<lparr>line_kind = Insert, line_text = lit ''new'' @ [10]\<rparr>]) =
     Some \<lparr>old_string = lit ''old'' @ [10], old_line = 11, new_string = lit ''new'' @ [10], new_line = 11,
        context_before = lit ''before'' @ [10], context_after = [], line_prefix = []\<rparr>"
    by (simp add: finish_hunk_def rposition_def join_text_def saturating_add_def)
  then show ?thesis
    unfolding Let_def
    by (subst parse_unified_diff_inverts) (auto simp: List.map_filter_def whole_line_def)
qed

end
