(* ===== verification/Codex_Message.thy ===== *)
theory Codex_Message
  imports Json_Ops
begin

text \<open>
  The JSON-lines message layer of the Codex provider (\<^verbatim>\<open>bot-provider-codex/src/message.rs\<close>).
  The conversions that \<open>serde\<close> derives for \<open>RequestId\<close> and \<open>RemoteError\<close> are generated code
  and are the fields of \<open>serde_codec\<close>; a \<open>Serialize\<close> argument is represented by the result of
  its \<open>serde_json::to_value\<close>. An error of \<open>serde_json\<close> is its message.
\<close>

subsection \<open>Data\<close>

datatype RequestId = Number int | String str

fun RequestId_display :: "RequestId \<Rightarrow> str" where
  "RequestId_display (Number n) = show_int n"
| "RequestId_display (String s) = s"

definition RequestId_from_u32 :: "32 word \<Rightarrow> RequestId" where
  "RequestId_from_u32 value = Number (uint value)"

record 'v RemoteError =
  error_code :: int
  error_message :: str
  error_data :: "'v option"

record 'v ServerResponse =
  response_id :: RequestId
  response_outcome :: "'v RemoteError + 'v"

record 'v ServerNotification =
  notification_method :: str
  notification_params :: 'v

record 'v ServerRequest =
  request_id :: RequestId
  request_method :: str
  request_params :: 'v

datatype 'v IncomingMessage =
    Response "'v ServerResponse"
  | Notification "'v ServerNotification"
  | Request "'v ServerRequest"

datatype ProtocolError =
    InvalidJson str
  | ExpectedObject
  | MissingField str
  | InvalidField str
  | InvalidResponse

fun ProtocolError_display :: "ProtocolError \<Rightarrow> str" where
  "ProtocolError_display (InvalidJson e) = lit ''Codex sent invalid JSON: '' @ e"
| "ProtocolError_display ExpectedObject = lit ''Codex sent a message that is not an object''"
| "ProtocolError_display (MissingField f) = lit ''Codex message is missing `'' @ f @ lit ''`''"
| "ProtocolError_display (InvalidField f) = lit ''Codex message has an invalid `'' @ f @ lit ''`''"
| "ProtocolError_display InvalidResponse =
     lit ''Codex response must contain exactly one of `result` or `error`''"

record 'v serde_codec =
  id_to_value :: "RequestId \<Rightarrow> str + 'v"
  id_from_value :: "'v \<Rightarrow> str + RequestId"
  error_to_value :: "'v RemoteError \<Rightarrow> str + 'v"
  error_from_value :: "'v \<Rightarrow> str + 'v RemoteError"

text \<open>\<open>?\<close> on a \<open>serde_json\<close> result: the error is converted and returned.\<close>

definition json_try :: "str + 'a \<Rightarrow> ('a \<Rightarrow> ProtocolError + 'b) \<Rightarrow> ProtocolError + 'b" where
  "json_try r f = (case r of Inl e \<Rightarrow> Inl (InvalidJson e) | Inr a \<Rightarrow> f a)"

definition try_result :: "'e + 'a \<Rightarrow> ('a \<Rightarrow> 'e + 'b) \<Rightarrow> 'e + 'b" where
  "try_result r f = (case r of Inl e \<Rightarrow> Inl e | Inr a \<Rightarrow> f a)"

lemma try_simps [simp]:
  "json_try (Inr a) f = f a" "json_try (Inl e) f = Inl (InvalidJson e)"
  "try_result (Inr a) g = g a" "try_result (Inl b) g = Inl b"
  by (simp_all add: json_try_def try_result_def)

subsection \<open>Encoding\<close>

definition encode_object :: "'v json \<Rightarrow> 'v json_map \<Rightarrow> ProtocolError + str" where
  "encode_object J object = json_try (json_to_string J (json_object J object)) (\<lambda>line. Inr (line @ [10]))"

definition encode_request ::
    "'v json \<Rightarrow> 'v serde_codec \<Rightarrow> RequestId \<Rightarrow> str \<Rightarrow> str + 'v \<Rightarrow> ProtocolError + str" where
  "encode_request J C i method params =
     json_try (id_to_value C i) (\<lambda>iv.
       let object = AList.update (lit ''id'') iv [];
           object = AList.update (lit ''method'') (json_string J method) object
       in json_try params (\<lambda>pv. encode_object J (AList.update (lit ''params'') pv object)))"

definition encode_notification :: "'v json \<Rightarrow> str \<Rightarrow> str + 'v \<Rightarrow> ProtocolError + str" where
  "encode_notification J method params =
     (let object = AList.update (lit ''method'') (json_string J method) []
      in json_try params (\<lambda>pv. encode_object J (AList.update (lit ''params'') pv object)))"

definition encode_response ::
    "'v json \<Rightarrow> 'v serde_codec \<Rightarrow> RequestId \<Rightarrow> str + 'v \<Rightarrow> ProtocolError + str" where
  "encode_response J C i result =
     json_try (id_to_value C i) (\<lambda>iv.
       let object = AList.update (lit ''id'') iv []
       in json_try result (\<lambda>rv. encode_object J (AList.update (lit ''result'') rv object)))"

definition encode_error_response ::
    "'v json \<Rightarrow> 'v serde_codec \<Rightarrow> RequestId \<Rightarrow> 'v RemoteError \<Rightarrow> ProtocolError + str" where
  "encode_error_response J C i err =
     json_try (id_to_value C i) (\<lambda>iv.
       let object = AList.update (lit ''id'') iv []
       in json_try (error_to_value C err) (\<lambda>ev. encode_object J (AList.update (lit ''error'') ev object)))"

subsection \<open>Decoding\<close>

definition parse_method :: "'v json \<Rightarrow> 'v \<Rightarrow> ProtocolError + str" where
  "parse_method J value =
     (case json_as_str J value of Some s \<Rightarrow> Inr s | None \<Rightarrow> Inl (InvalidField (lit ''method'')))"

definition parse_id :: "'v serde_codec \<Rightarrow> 'v \<Rightarrow> ProtocolError + RequestId" where
  "parse_id C value =
     (case id_from_value C value of Inl _ \<Rightarrow> Inl (InvalidField (lit ''id'')) | Inr i \<Rightarrow> Inr i)"

definition params_or_null :: "'v json \<Rightarrow> 'v json_map \<Rightarrow> 'v" where
  "params_or_null J object = (case map_of object (lit ''params'') of Some p \<Rightarrow> p | None \<Rightarrow> json_null J)"

definition decode_request ::
    "'v json \<Rightarrow> 'v serde_codec \<Rightarrow> 'v \<Rightarrow> 'v \<Rightarrow> 'v json_map \<Rightarrow> ProtocolError + 'v IncomingMessage" where
  "decode_request J C method i object =
     try_result (parse_id C i) (\<lambda>i. try_result (parse_method J method) (\<lambda>method.
       Inr (Request \<lparr>request_id = i, request_method = method, request_params = params_or_null J object\<rparr>)))"

definition decode_notification ::
    "'v json \<Rightarrow> 'v \<Rightarrow> 'v json_map \<Rightarrow> ProtocolError + 'v IncomingMessage" where
  "decode_notification J method object =
     try_result (parse_method J method) (\<lambda>method.
       Inr (Notification \<lparr>notification_method = method, notification_params = params_or_null J object\<rparr>))"

definition decode_response ::
    "'v serde_codec \<Rightarrow> 'v \<Rightarrow> 'v json_map \<Rightarrow> ProtocolError + 'v IncomingMessage" where
  "decode_response C i object =
     (let result = map_of object (lit ''result'');
          object = AList.delete (lit ''result'') object;
          err = map_of object (lit ''error'');
          outcome = (case (result, err) of
                       (Some r, None) \<Rightarrow> Inr (Inr r)
                     | (None, Some e) \<Rightarrow> json_try (error_from_value C e) (\<lambda>e. Inr (Inl e))
                     | _ \<Rightarrow> Inl InvalidResponse)
      in try_result outcome (\<lambda>outcome. try_result (parse_id C i) (\<lambda>i.
           Inr (Response \<lparr>response_id = i, response_outcome = outcome\<rparr>))))"

definition decode_object ::
    "'v json \<Rightarrow> 'v serde_codec \<Rightarrow> 'v json_map \<Rightarrow> ProtocolError + 'v IncomingMessage" where
  "decode_object J C object =
     (let method = map_of object (lit ''method'');
          object = AList.delete (lit ''method'') object;
          i = map_of object (lit ''id'');
          object = AList.delete (lit ''id'') object
      in case (method, i) of
           (Some method, Some i) \<Rightarrow> decode_request J C method i object
         | (Some method, None) \<Rightarrow> decode_notification J method object
         | (None, Some i) \<Rightarrow> decode_response C i object
         | (None, None) \<Rightarrow> Inl (MissingField (lit ''method or id'')))"

definition decode_line ::
    "'v json \<Rightarrow> 'v serde_codec \<Rightarrow> str \<Rightarrow> ProtocolError + 'v IncomingMessage" where
  "decode_line J C line =
     json_try (json_from_str J line) (\<lambda>value.
       case json_as_object J value of
         None \<Rightarrow> Inl ExpectedObject
       | Some object \<Rightarrow> decode_object J C object)"

subsection \<open>Round trips\<close>

text \<open>
  What the derived conversions promise: an id in the range of its type, and an error object whose
  data is not JSON \<open>null\<close> (which reads back as absent), survive the trip.
\<close>

fun id_in_range :: "RequestId \<Rightarrow> bool" where
  "id_in_range (Number n) \<longleftrightarrow> is_i64 n"
| "id_in_range (String s) \<longleftrightarrow> True"

definition codec_laws :: "'v json \<Rightarrow> 'v serde_codec \<Rightarrow> bool" where
  "codec_laws J C \<longleftrightarrow>
     (\<forall>i. id_in_range i \<longrightarrow> (\<exists>v. id_to_value C i = Inr v \<and> id_from_value C v = Inr i)) \<and>
     (\<forall>e. is_i64 (error_code e) \<and> error_data e \<noteq> Some (json_null J) \<longrightarrow>
        (\<exists>v. error_to_value C e = Inr v \<and> error_from_value C v = Inr e))"

definition one_line :: "str \<Rightarrow> bool" where
  "one_line line \<longleftrightarrow> line \<noteq> [] \<and> last line = 10 \<and> 10 \<notin> set (butlast line)"

lemma encode_decode_object:
  assumes "json_laws J"
  obtains line m' where "encode_object J object = Inr line" and "one_line line"
    and "map_of m' = map_of object" and "decode_line J C line = decode_object J C m'"
proof -
  obtain s where s: "json_to_string J (json_object J object) = Inr s" "10 \<notin> set s"
      "json_from_str J (s @ [10]) = Inr (json_object J object)"
    using json_lawsD(3) [OF assms] by blast
  obtain m' where m': "json_as_object J (json_object J object) = Some m'" "map_of m' = map_of object"
    using json_lawsD(2) [OF assms] by blast
  show thesis
    by (rule that [of "s @ [10]" m']) (simp_all add: s m' encode_object_def decode_line_def one_line_def)
qed

lemma codec_id: "codec_laws J C \<Longrightarrow> id_in_range i \<Longrightarrow> \<exists>v. id_to_value C i = Inr v \<and> id_from_value C v = Inr i"
  by (simp add: codec_laws_def)

lemma codec_error:
  "codec_laws J C \<Longrightarrow> is_i64 (error_code e) \<Longrightarrow> error_data e \<noteq> Some (json_null J) \<Longrightarrow>
     \<exists>v. error_to_value C e = Inr v \<and> error_from_value C v = Inr e"
  by (simp add: codec_laws_def)

lemmas decode_simps = decode_object_def decode_request_def decode_notification_def decode_response_def
  parse_id_def parse_method_def params_or_null_def delete_conv' update_conv' Let_def

lemma request_round_trip:
  assumes J: "json_laws J" and "codec_laws J C" and "id_in_range i"
  shows "\<exists>line. encode_request J C i method (Inr p) = Inr line \<and> one_line line \<and>
    decode_line J C line = Inr (Request \<lparr>request_id = i, request_method = method, request_params = p\<rparr>)"
proof -
  obtain iv where iv: "id_to_value C i = Inr iv" "id_from_value C iv = Inr i"
    using codec_id [OF assms(2,3)] by blast
  let ?o = "AList.update (lit ''params'') p (AList.update (lit ''method'') (json_string J method)
    (AList.update (lit ''id'') iv []))"
  obtain line m' where "encode_object J ?o = Inr line" "one_line line" "map_of m' = map_of ?o"
      "decode_line J C line = decode_object J C m'"
    by (rule encode_decode_object [OF J])
  then show ?thesis
    by (intro exI [of _ line]) (simp add: encode_request_def iv decode_simps json_lawsD(1) [OF J])
qed

lemma notification_round_trip:
  assumes J: "json_laws J"
  shows "\<exists>line. encode_notification J method (Inr p) = Inr line \<and> one_line line \<and>
    decode_line J C line = Inr (Notification \<lparr>notification_method = method, notification_params = p\<rparr>)"
proof -
  let ?o = "AList.update (lit ''params'') p (AList.update (lit ''method'') (json_string J method) [])"
  obtain line m' where "encode_object J ?o = Inr line" "one_line line" "map_of m' = map_of ?o"
      "decode_line J C line = decode_object J C m'"
    by (rule encode_decode_object [OF J])
  then show ?thesis
    by (intro exI [of _ line]) (simp add: encode_notification_def decode_simps json_lawsD(1) [OF J])
qed

lemma response_round_trip:
  assumes J: "json_laws J" and "codec_laws J C" and "id_in_range i"
  shows "\<exists>line. encode_response J C i (Inr r) = Inr line \<and> one_line line \<and>
    decode_line J C line = Inr (Response \<lparr>response_id = i, response_outcome = Inr r\<rparr>)"
proof -
  obtain iv where iv: "id_to_value C i = Inr iv" "id_from_value C iv = Inr i"
    using codec_id [OF assms(2,3)] by blast
  let ?o = "AList.update (lit ''result'') r (AList.update (lit ''id'') iv [])"
  obtain line m' where "encode_object J ?o = Inr line" "one_line line" "map_of m' = map_of ?o"
      "decode_line J C line = decode_object J C m'"
    by (rule encode_decode_object [OF J])
  then show ?thesis
    by (intro exI [of _ line]) (simp add: encode_response_def iv decode_simps)
qed

lemma error_round_trip:
  assumes J: "json_laws J" and "codec_laws J C" and "id_in_range i"
    and "is_i64 (error_code e)" and "error_data e \<noteq> Some (json_null J)"
  shows "\<exists>line. encode_error_response J C i e = Inr line \<and> one_line line \<and>
    decode_line J C line = Inr (Response \<lparr>response_id = i, response_outcome = Inl e\<rparr>)"
proof -
  obtain iv where iv: "id_to_value C i = Inr iv" "id_from_value C iv = Inr i"
    using codec_id [OF assms(2,3)] by blast
  obtain ev where ev: "error_to_value C e = Inr ev" "error_from_value C ev = Inr e"
    using codec_error [OF assms(2,4,5)] by blast
  let ?o = "AList.update (lit ''error'') ev (AList.update (lit ''id'') iv [])"
  obtain line m' where "encode_object J ?o = Inr line" "one_line line" "map_of m' = map_of ?o"
      "decode_line J C line = decode_object J C m'"
    by (rule encode_decode_object [OF J])
  then show ?thesis
    by (intro exI [of _ line]) (simp add: encode_error_response_def iv ev decode_simps)
qed

text \<open>
  The message layer is lossless and line-based. Requests, notifications, responses and error
  responses encode to exactly one line, terminated by its only line feed, and that line decodes to
  the message with the same id, method and payload; the four kinds are never confused.
\<close>

theorem message_round_trip:
  assumes "json_laws J" and "codec_laws J C" and "id_in_range i"
    and "is_i64 (error_code e)" and "error_data e \<noteq> Some (json_null J)"
  shows "(\<exists>line. encode_request J C i method (Inr p) = Inr line \<and> one_line line \<and>
      decode_line J C line = Inr (Request \<lparr>request_id = i, request_method = method, request_params = p\<rparr>)) \<and>
    (\<exists>line. encode_notification J method (Inr p) = Inr line \<and> one_line line \<and>
      decode_line J C line = Inr (Notification \<lparr>notification_method = method, notification_params = p\<rparr>)) \<and>
    (\<exists>line. encode_response J C i (Inr p) = Inr line \<and> one_line line \<and>
      decode_line J C line = Inr (Response \<lparr>response_id = i, response_outcome = Inr p\<rparr>)) \<and>
    (\<exists>line. encode_error_response J C i e = Inr line \<and> one_line line \<and>
      decode_line J C line = Inr (Response \<lparr>response_id = i, response_outcome = Inl e\<rparr>))"
  by (intro conjI request_round_trip notification_round_trip response_round_trip error_round_trip assms)

subsection \<open>An instance of the conversions\<close>

definition sample_codec :: "sample_value serde_codec" where
  "sample_codec =
     \<lparr>id_to_value = (\<lambda>i. Inr (case i of Number n \<Rightarrow> SInt n | String s \<Rightarrow> SStr s)),
      id_from_value = (\<lambda>v. case v of
          SInt n \<Rightarrow> if is_i64 n then Inr (Number n) else Inl (lit ''no variant'')
        | SStr s \<Rightarrow> Inr (String s)
        | _ \<Rightarrow> Inl (lit ''no variant'')),
      error_to_value = (\<lambda>e. Inr (SObj ([(lit ''code'', SInt (error_code e)), (lit ''message'', SStr (error_message e))] @
          (case error_data e of None \<Rightarrow> [] | Some d \<Rightarrow> [(lit ''data'', d)])))),
      error_from_value = (\<lambda>v. case v of
          SObj m \<Rightarrow>
            (case (map_of m (lit ''code''), map_of m (lit ''message'')) of
               (Some (SInt c), Some (SStr msg)) \<Rightarrow>
                 if is_i64 c
                 then Inr \<lparr>error_code = c, error_message = msg,
                           error_data = (case map_of m (lit ''data'') of Some SNull \<Rightarrow> None | d \<Rightarrow> d)\<rparr>
                 else Inl (lit ''code out of range'')
             | _ \<Rightarrow> Inl (lit ''missing field''))
        | _ \<Rightarrow> Inl (lit ''invalid type''))\<rparr>"

lemma sample_codec_laws: "codec_laws sample_json sample_codec"
proof -
  have ids: "\<exists>v. id_to_value sample_codec i = Inr v \<and> id_from_value sample_codec v = Inr i"
    if "id_in_range i" for i
    using that by (cases i) (simp_all add: sample_codec_def)
  have errs: "\<exists>v. error_to_value sample_codec e = Inr v \<and> error_from_value sample_codec v = Inr e"
    if e: "is_i64 (error_code e)" "error_data e \<noteq> Some SNull" for e
  proof -
    have "(case error_data e of None \<Rightarrow> None | Some SNull \<Rightarrow> None | Some d \<Rightarrow> Some d) = error_data e"
      using e(2) by (auto split: option.splits sample_value.splits)
    then show ?thesis
      using e by (cases "error_data e") (auto simp: sample_codec_def split: sample_value.splits)
  qed
  have "json_null sample_json = SNull"
    by (simp add: sample_json_def)
  then show ?thesis
    unfolding codec_laws_def using ids errs by simp
qed

theorem message_round_trip_witness:
  "\<exists>line. encode_request sample_json sample_codec (Number 4) (lit ''turn/start'') (Inr SNull) = Inr line \<and>
     one_line line \<and> decode_line sample_json sample_codec line =
       Inr (Request \<lparr>request_id = Number 4, request_method = lit ''turn/start'', request_params = SNull\<rparr>)"
proof -
  have "id_in_range (Number 4)"
    by (simp add: rust_num)
  moreover have "is_i64 (error_code \<lparr>error_code = 1, error_message = [], error_data = None\<rparr>)"
    by (simp add: rust_num)
  moreover have "error_data \<lparr>error_code = 1, error_message = [], error_data = None\<rparr> \<noteq> Some (json_null sample_json)"
    by simp
  ultimately show ?thesis
    using message_round_trip [OF sample_json_laws sample_codec_laws] by blast
qed

end
