(* ===== verification/Codex_Transport.thy ===== *)
theory Codex_Transport
  imports Codex_Message
begin

text \<open>
  The client side of the Codex app-server connection
  (\<^verbatim>\<open>bot-provider-codex/src/transport.rs\<close>): callers register a request under a fresh id, write
  it and wait on a one-shot channel; one reader task dispatches the lines it reads. The state is what
  the callers and the reader share; each function is the code between two suspension points, and
  \<open>client_step\<close> interleaves them. Results of operating-system calls are arguments. The typed
  result conversion of \<open>request\<close> is the argument \<open>D\<close>, by method. Process spawning, the
  startup and shutdown time-outs and the bounded buffer of the broadcast channel are not
  modelled; \<open>events\<close> is the sequence of events sent.
\<close>

subsection \<open>State\<close>

datatype CodexTransportError =
    Spawn str
  | MissingPipe str
  | Write str
  | Protocol ProtocolError
  | Remote int str
  | InvalidResult str str
  | RequestIdsExhausted
  | StartupTimeout
  | ConnectionClosed str

definition remote_error :: "'v RemoteError \<Rightarrow> CodexTransportError" where
  "remote_error e = Remote (error_code e) (error_message e)"

datatype 'v CodexEvent =
    Notification "'v ServerNotification"
  | Request "'v ServerRequest"
  | UnmatchedResponse "'v ServerResponse"
  | ConnectionClosed str

text \<open>A one-shot channel whose sender has been used or dropped, and the progress of a call.\<close>

datatype 'v oneshot = Sent "CodexTransportError + 'v" | Dropped

datatype 'r CallPhase = Registered | Waiting | Returned "CodexTransportError + 'r"

record 'r call =
  call_method :: str
  call_id :: RequestId
  call_phase :: "'r CallPhase"

record ('v, 'r) CodexClient =
  next_id :: int
  pending :: "RequestId \<rightharpoonup> nat"
  stdin_open :: bool
  written :: "str list"
  reader_failure :: "str option"
  channel :: "nat \<rightharpoonup> 'v oneshot"
  sent_events :: "'v CodexEvent list"
  calls :: "'r call list"

definition client_initial :: "('v, 'r) CodexClient" where
  "client_initial =
     \<lparr>next_id = 1, pending = Map.empty, stdin_open = True, written = [], reader_failure = None,
      channel = Map.empty, sent_events = [], calls = []\<rparr>"

subsection \<open>Callers\<close>

definition next_request_id ::
    "('v, 'r) CodexClient \<Rightarrow> (CodexTransportError + RequestId) \<times> ('v, 'r) CodexClient" where
  "next_request_id c =
     (case i64_checked_add (next_id c) 1 of
        None \<Rightarrow> (Inl RequestIdsExhausted, c)
      | Some n \<Rightarrow> (Inr (Number (next_id c)), c\<lparr>next_id := n\<rparr>))"

definition client_write ::
    "str \<Rightarrow> str + unit \<Rightarrow> ('v, 'r) CodexClient \<Rightarrow> (CodexTransportError + unit) \<times> ('v, 'r) CodexClient" where
  "client_write line io c =
     (if \<not> stdin_open c then (Inl (Write (lit ''Codex input is closed'')), c)
      else case io of
             Inl e \<Rightarrow> (Inl (Write e), c)
           | Inr _ \<Rightarrow> (Inr (), c\<lparr>written := written c @ [line]\<rparr>))"

text \<open>
  \<open>request\<close> up to the registration of its channel: the index of the new call and the line to
  write. Inserting under an id that is already present would drop the earlier sender.
\<close>

definition request_register ::
    "'v json \<Rightarrow> 'v serde_codec \<Rightarrow> str \<Rightarrow> str + 'v \<Rightarrow> ('v, 'r) CodexClient \<Rightarrow>
     (CodexTransportError + nat \<times> str) \<times> ('v, 'r) CodexClient" where
  "request_register J C method params c =
     (case next_request_id c of
        (Inl e, c1) \<Rightarrow> (Inl e, c1)
      | (Inr i, c1) \<Rightarrow>
          (case encode_request J C i method params of
             Inl e \<Rightarrow> (Inl (Protocol e), c1)
           | Inr line \<Rightarrow>
               let k = length (calls c1);
                   ch = (case pending c1 i of Some k' \<Rightarrow> (channel c1)(k' \<mapsto> Dropped) | None \<Rightarrow> channel c1)
               in (Inr (k, line),
                   c1\<lparr>pending := (pending c1)(i \<mapsto> k), channel := ch,
                      calls := calls c1 @ [\<lparr>call_method = method, call_id = i, call_phase = Registered\<rparr>]\<rparr>)))"

definition set_phase :: "nat \<Rightarrow> 'r CallPhase \<Rightarrow> ('v, 'r) CodexClient \<Rightarrow> ('v, 'r) CodexClient" where
  "set_phase k p c = c\<lparr>calls := (calls c)[k := (calls c ! k)\<lparr>call_phase := p\<rparr>]\<rparr>"

definition request_write :: "nat \<Rightarrow> str \<Rightarrow> str + unit \<Rightarrow> ('v, 'r) CodexClient \<Rightarrow> ('v, 'r) CodexClient" where
  "request_write k line io c =
     (case client_write line io c of
        (Inl e, c1) \<Rightarrow>
          set_phase k (Returned (Inl e)) (c1\<lparr>pending := (pending c1)(call_id (calls c1 ! k) := None)\<rparr>)
      | (Inr _, c1) \<Rightarrow> set_phase k Waiting c1)"

definition request_result :: "(str \<Rightarrow> 'v \<Rightarrow> str + 'r) \<Rightarrow> str \<Rightarrow> 'v oneshot \<Rightarrow> CodexTransportError + 'r" where
  "request_result D method ch =
     (case ch of
        Dropped \<Rightarrow>
          Inl (CodexTransportError.ConnectionClosed (lit ''Codex app-server closed before it returned a response''))
      | Sent (Inl e) \<Rightarrow> Inl e
      | Sent (Inr value) \<Rightarrow>
          (case D method value of Inl source \<Rightarrow> Inl (InvalidResult method source) | Inr r \<Rightarrow> Inr r))"

definition request_resume ::
    "(str \<Rightarrow> 'v \<Rightarrow> str + 'r) \<Rightarrow> nat \<Rightarrow> 'v oneshot \<Rightarrow> ('v, 'r) CodexClient \<Rightarrow> ('v, 'r) CodexClient" where
  "request_resume D k ch c = set_phase k (Returned (request_result D (call_method (calls c ! k)) ch)) c"

definition client_notify ::
    "'v json \<Rightarrow> str \<Rightarrow> str + 'v \<Rightarrow> str + unit \<Rightarrow> ('v, 'r) CodexClient \<Rightarrow>
     (CodexTransportError + unit) \<times> ('v, 'r) CodexClient" where
  "client_notify J method params io c =
     (case encode_notification J method params of
        Inl e \<Rightarrow> (Inl (Protocol e), c)
      | Inr line \<Rightarrow> client_write line io c)"

definition client_respond ::
    "'v json \<Rightarrow> 'v serde_codec \<Rightarrow> RequestId \<Rightarrow> str + 'v \<Rightarrow> str + unit \<Rightarrow> ('v, 'r) CodexClient \<Rightarrow>
     (CodexTransportError + unit) \<times> ('v, 'r) CodexClient" where
  "client_respond J C i result io c =
     (case encode_response J C i result of
        Inl e \<Rightarrow> (Inl (Protocol e), c)
      | Inr line \<Rightarrow> client_write line io c)"

definition client_respond_error ::
    "'v json \<Rightarrow> 'v serde_codec \<Rightarrow> RequestId \<Rightarrow> int \<Rightarrow> str \<Rightarrow> 'v option \<Rightarrow> str + unit \<Rightarrow> ('v, 'r) CodexClient \<Rightarrow>
     (CodexTransportError + unit) \<times> ('v, 'r) CodexClient" where
  "client_respond_error J C i code msg data io c =
     (case encode_error_response J C i \<lparr>error_code = code, error_message = msg, error_data = data\<rparr> of
        Inl e \<Rightarrow> (Inl (Protocol e), c)
      | Inr line \<Rightarrow> client_write line io c)"

definition client_close :: "('v, 'r) CodexClient \<Rightarrow> ('v, 'r) CodexClient" where
  "client_close c = (if reader_failure c \<noteq> None then c else c\<lparr>stdin_open := False\<rparr>)"

text \<open>The client's typed entry points: each is \<open>request\<close> with its own method name.\<close>

datatype AccountCall =
    Account | StartAccountLogin | CancelAccountLogin | LogoutAccount | AccountRateLimits | AccountUsage

fun account_call_method :: "AccountCall \<Rightarrow> str" where
  "account_call_method Account = lit ''account/read''"
| "account_call_method StartAccountLogin = lit ''account/login/start''"
| "account_call_method CancelAccountLogin = lit ''account/login/cancel''"
| "account_call_method LogoutAccount = lit ''account/logout''"
| "account_call_method AccountRateLimits = lit ''account/rateLimits/read''"
| "account_call_method AccountUsage = lit ''account/usage/read''"

datatype ServerCall =
    Models | McpServerStatuses | ReloadMcpServers | HooksList | PluginsList | InstallPlugin | UninstallPlugin
  | ReconcilePlugins | WriteConfigValue | SkillsList | WriteSkillConfig

fun server_call_method :: "ServerCall \<Rightarrow> str" where
  "server_call_method Models = lit ''model/list''"
| "server_call_method McpServerStatuses = lit ''mcpServerStatus/list''"
| "server_call_method ReloadMcpServers = lit ''config/mcpServer/reload''"
| "server_call_method HooksList = lit ''hooks/list''"
| "server_call_method PluginsList = lit ''plugin/list''"
| "server_call_method InstallPlugin = lit ''plugin/install''"
| "server_call_method UninstallPlugin = lit ''plugin/uninstall''"
| "server_call_method ReconcilePlugins = lit ''plugin/reconcile''"
| "server_call_method WriteConfigValue = lit ''config/value/write''"
| "server_call_method SkillsList = lit ''skills/list''"
| "server_call_method WriteSkillConfig = lit ''skills/config/write''"

datatype ThreadCall =
    StartThread | ListThreads | SearchThreads | ListThreadTurns | RevertThread | ResumeThread | CompactThread
  | SetThreadName | DeleteThread | ForkThread | StartTurn | SteerTurn | InterruptTurn | CleanBackgroundTerminals

fun thread_call_method :: "ThreadCall \<Rightarrow> str" where
  "thread_call_method StartThread = lit ''thread/start''"
| "thread_call_method ListThreads = lit ''thread/list''"
| "thread_call_method SearchThreads = lit ''thread/search''"
| "thread_call_method ListThreadTurns = lit ''thread/turns/list''"
| "thread_call_method RevertThread = lit ''thread/revert''"
| "thread_call_method ResumeThread = lit ''thread/resume''"
| "thread_call_method CompactThread = lit ''thread/compact/start''"
| "thread_call_method SetThreadName = lit ''thread/name/set''"
| "thread_call_method DeleteThread = lit ''thread/delete''"
| "thread_call_method ForkThread = lit ''thread/fork''"
| "thread_call_method StartTurn = lit ''turn/start''"
| "thread_call_method SteerTurn = lit ''turn/steer''"
| "thread_call_method InterruptTurn = lit ''turn/interrupt''"
| "thread_call_method CleanBackgroundTerminals = lit ''thread/backgroundTerminals/clean''"

datatype ClientCall = OnAccount AccountCall | OnServer ServerCall | OnThread ThreadCall

fun client_call_method :: "ClientCall \<Rightarrow> str" where
  "client_call_method (OnAccount a) = account_call_method a"
| "client_call_method (OnServer s) = server_call_method s"
| "client_call_method (OnThread t) = thread_call_method t"

definition client_call ::
    "'v json \<Rightarrow> 'v serde_codec \<Rightarrow> ClientCall \<Rightarrow> str + 'v \<Rightarrow> ('v, 'r) CodexClient \<Rightarrow>
     (CodexTransportError + nat \<times> str) \<times> ('v, 'r) CodexClient" where
  "client_call J C call params c = request_register J C (client_call_method call) params c"

lemma client_call_method_inject: "client_call_method a = client_call_method b \<Longrightarrow> a = b"
proof -
  assume eq: "client_call_method a = client_call_method b"
  show ?thesis
  proof (cases a; cases b)
    fix x y
    assume ab: "a = OnAccount x" "b = OnAccount y"
    with eq show ?thesis by (cases x; cases y) simp_all
  next
    fix x y
    assume ab: "a = OnServer x" "b = OnServer y"
    with eq show ?thesis by (cases x; cases y) simp_all
  next
    fix x y
    assume ab: "a = OnThread x" "b = OnThread y"
    with eq show ?thesis by (cases x; cases y) simp_all
  next
    fix x y
    assume ab: "a = OnAccount x" "b = OnServer y"
    with eq show ?thesis by (cases x; cases y) simp_all
  next
    fix x y
    assume ab: "a = OnAccount x" "b = OnThread y"
    with eq show ?thesis by (cases x; cases y) simp_all
  next
    fix x y
    assume ab: "a = OnServer x" "b = OnAccount y"
    with eq show ?thesis by (cases x; cases y) simp_all
  next
    fix x y
    assume ab: "a = OnServer x" "b = OnThread y"
    with eq show ?thesis by (cases x; cases y) simp_all
  next
    fix x y
    assume ab: "a = OnThread x" "b = OnAccount y"
    with eq show ?thesis by (cases x; cases y) simp_all
  next
    fix x y
    assume ab: "a = OnThread x" "b = OnServer y"
    with eq show ?thesis by (cases x; cases y) simp_all
  qed
qed

subsection \<open>The reader task\<close>

fun dispatch_message :: "'v IncomingMessage \<Rightarrow> ('v, 'r) CodexClient \<Rightarrow> ('v, 'r) CodexClient" where
  "dispatch_message (Response r) c =
     (case pending c (response_id r) of
        Some k \<Rightarrow>
          c\<lparr>pending := (pending c)(response_id r := None),
            channel := (channel c)(k \<mapsto> Sent (case response_outcome r of Inl e \<Rightarrow> Inl (remote_error e) | Inr v \<Rightarrow> Inr v))\<rparr>
      | None \<Rightarrow> c\<lparr>sent_events := sent_events c @ [UnmatchedResponse r]\<rparr>)"
| "dispatch_message (IncomingMessage.Notification n) c =
     c\<lparr>sent_events := sent_events c @ [CodexEvent.Notification n]\<rparr>"
| "dispatch_message (IncomingMessage.Request r) c =
     c\<lparr>sent_events := sent_events c @ [CodexEvent.Request r]\<rparr>"

definition reader_finish :: "str \<Rightarrow> ('v, 'r) CodexClient \<Rightarrow> ('v, 'r) CodexClient" where
  "reader_finish failure c =
     c\<lparr>sent_events := sent_events c @ [CodexEvent.ConnectionClosed failure],
       pending := Map.empty,
       channel := (\<lambda>k. if k \<in> ran (pending c)
                       then Some (Sent (Inl (CodexTransportError.ConnectionClosed failure))) else channel c k),
       reader_failure := Some failure\<rparr>"

datatype read_result = EndOfFile | ReadError str | Line str

fun read_one :: "'v json \<Rightarrow> 'v serde_codec \<Rightarrow> read_result \<Rightarrow> ('v, 'r) CodexClient \<Rightarrow> ('v, 'r) CodexClient" where
  "read_one J C EndOfFile c = reader_finish (lit ''Codex app-server closed its output'') c"
| "read_one J C (Line line) c =
     (case decode_line J C line of
        Inr msg \<Rightarrow> dispatch_message msg c
      | Inl e \<Rightarrow> reader_finish (ProtocolError_display e) c)"
| "read_one J C (ReadError e) c = reader_finish (lit ''Failed to read from Codex app-server: '' @ e) c"

subsection \<open>Interleavings\<close>

datatype client_label = Reads read_result | Internal

inductive client_step ::
    "'v json \<Rightarrow> 'v serde_codec \<Rightarrow> (str \<Rightarrow> 'v \<Rightarrow> str + 'r) \<Rightarrow>
     ('v, 'r) CodexClient \<Rightarrow> client_label \<Rightarrow> ('v, 'r) CodexClient \<Rightarrow> bool"
  for J :: "'v json" and C :: "'v serde_codec" and D :: "str \<Rightarrow> 'v \<Rightarrow> str + 'r" where
  register: "request_register J C method params c = (res, c') \<Longrightarrow> client_step J C D c Internal c'"
| writes: "k < length (calls c) \<Longrightarrow> call_phase (calls c ! k) = Registered \<Longrightarrow>
    client_step J C D c Internal (request_write k line io c)"
| resumes: "k < length (calls c) \<Longrightarrow> call_phase (calls c ! k) = Waiting \<Longrightarrow> channel c k = Some ch \<Longrightarrow>
    client_step J C D c Internal (request_resume D k ch c)"
| sends: "client_write line io c = (res, c') \<Longrightarrow> client_step J C D c Internal c'"
| closes: "client_step J C D c Internal (client_close c)"
| reads: "reader_failure c = None \<Longrightarrow> client_step J C D c (Reads r) (read_one J C r c)"

inductive client_run ::
    "'v json \<Rightarrow> 'v serde_codec \<Rightarrow> (str \<Rightarrow> 'v \<Rightarrow> str + 'r) \<Rightarrow>
     ('v, 'r) CodexClient \<Rightarrow> client_label list \<Rightarrow> ('v, 'r) CodexClient \<Rightarrow> bool"
  for J :: "'v json" and C :: "'v serde_codec" and D :: "str \<Rightarrow> 'v \<Rightarrow> str + 'r" where
  stop: "client_run J C D c [] c"
| more: "client_run J C D c ls c' \<Longrightarrow> client_step J C D c' l c'' \<Longrightarrow> client_run J C D c (ls @ [l]) c''"

subsection \<open>The invariant\<close>

definition ids_inv :: "('v, 'r) CodexClient \<Rightarrow> bool" where
  "ids_inv c \<longleftrightarrow>
     distinct (map call_id (calls c)) \<and>
     (\<forall>call \<in> set (calls c). \<exists>n. call_id call = Number n \<and> n < next_id c)"

definition pending_inv :: "('v, 'r) CodexClient \<Rightarrow> bool" where
  "pending_inv c \<longleftrightarrow>
     (\<forall>i k. pending c i = Some k \<longrightarrow> k < length (calls c) \<and> call_id (calls c ! k) = i \<and> channel c k = None) \<and>
     (\<forall>k < length (calls c). channel c k = None \<longrightarrow> (\<forall>r. call_phase (calls c ! k) \<noteq> Returned r) \<longrightarrow>
        pending c (call_id (calls c ! k)) = Some k) \<and>
     (\<forall>k ch. channel c k = Some ch \<longrightarrow> k < length (calls c) \<and> ch \<noteq> Dropped)"

definition client_inv :: "('v, 'r) CodexClient \<Rightarrow> bool" where
  "client_inv c \<longleftrightarrow> ids_inv c \<and> pending_inv c"

lemma set_phase_frame [simp]:
  "next_id (set_phase k p c) = next_id c" "pending (set_phase k p c) = pending c"
  "channel (set_phase k p c) = channel c" "reader_failure (set_phase k p c) = reader_failure c"
  "length (calls (set_phase k p c)) = length (calls c)"
  by (simp_all add: set_phase_def)

lemma set_phase_call:
  "k < length (calls c) \<Longrightarrow> j < length (calls c) \<Longrightarrow>
     calls (set_phase k p c) ! j = (if j = k then (calls c ! k)\<lparr>call_phase := p\<rparr> else calls c ! j)"
  by (simp add: set_phase_def)

lemma set_phase_ids [simp]: "map call_id (calls (set_phase k p c)) = map call_id (calls c)"
  by (cases "k < length (calls c)")
    (simp_all add: set_phase_def map_update list_update_same_conv list_update_beyond)

lemma ids_inv_iff:
  "ids_inv c \<longleftrightarrow> distinct (map call_id (calls c)) \<and>
     (\<forall>i \<in> set (map call_id (calls c)). \<exists>n. i = Number n \<and> n < next_id c)"
  by (auto simp: ids_inv_def)

lemma inv_initial: "client_inv client_initial"
  by (simp add: client_inv_def ids_inv_def pending_inv_def client_initial_def)

lemma pending_invI:
  assumes "\<And>i k. pending c i = Some k \<Longrightarrow> k < length (calls c) \<and> call_id (calls c ! k) = i \<and> channel c k = None"
    and "\<And>k. k < length (calls c) \<Longrightarrow> channel c k = None \<Longrightarrow> (\<And>r. call_phase (calls c ! k) \<noteq> Returned r) \<Longrightarrow>
           pending c (call_id (calls c ! k)) = Some k"
    and "\<And>k ch. channel c k = Some ch \<Longrightarrow> k < length (calls c) \<and> ch \<noteq> Dropped"
  shows "pending_inv c"
  unfolding pending_inv_def using assms by blast

lemma pending_invD:
  assumes "pending_inv c"
  shows "pending c i = Some k \<Longrightarrow> k < length (calls c) \<and> call_id (calls c ! k) = i \<and> channel c k = None"
    and "k < length (calls c) \<Longrightarrow> channel c k = None \<Longrightarrow> (\<And>r. call_phase (calls c ! k) \<noteq> Returned r) \<Longrightarrow>
           pending c (call_id (calls c ! k)) = Some k"
    and "channel c k = Some ch \<Longrightarrow> k < length (calls c) \<and> ch \<noteq> Dropped"
  using assms unfolding pending_inv_def by blast+

lemma client_invD: "client_inv c \<Longrightarrow> ids_inv c" "client_inv c \<Longrightarrow> pending_inv c"
  by (simp_all add: client_inv_def)

lemma call_id_inject:
  assumes "client_inv c" and "j < length (calls c)" and "k < length (calls c)"
    and "call_id (calls c ! j) = call_id (calls c ! k)"
  shows "j = k"
proof -
  have "distinct (map call_id (calls c))"
    using client_invD(1) [OF assms(1)] by (simp add: ids_inv_def)
  with assms(2-4) show ?thesis
    by (metis distinct_conv_nth length_map nth_map)
qed

lemma fresh_id:
  assumes "client_inv c"
  shows "pending c (Number (next_id c)) = None" and "Number (next_id c) \<notin> set (map call_id (calls c))"
proof -
  show no: "Number (next_id c) \<notin> set (map call_id (calls c))"
    using assms by (fastforce simp: client_inv_def ids_inv_iff)
  show "pending c (Number (next_id c)) = None"
  proof (rule ccontr)
    assume "pending c (Number (next_id c)) \<noteq> None"
    then obtain k where "pending c (Number (next_id c)) = Some k" by blast
    then have "k < length (calls c)" "call_id (calls c ! k) = Number (next_id c)"
      using pending_invD(1) [OF client_invD(2) [OF assms]] by blast+
    with no show False by (metis length_map nth_map nth_mem)
  qed
qed

text \<open>The two ways a registration ends, under the invariant.\<close>

lemma register_cases:
  assumes inv: "client_inv c" and reg: "request_register J C method params c = (res, c')"
  obtains (Rejected) e where "res = Inl e" and "c' = c \<or> c' = c\<lparr>next_id := next_id c + 1\<rparr>"
  | (Accepted) line where "res = Inr (length (calls c), line)"
      and "c' = c\<lparr>next_id := next_id c + 1, pending := (pending c)(Number (next_id c) \<mapsto> length (calls c)),
                  calls := calls c @ [\<lparr>call_method = method, call_id = Number (next_id c), call_phase = Registered\<rparr>]\<rparr>"
proof (cases "is_i64 (next_id c + 1)")
  case False
  with reg that(1) [of RequestIdsExhausted] show thesis
    by (simp add: request_register_def next_request_id_def i64_checked_add_def)
next
  case True
  have fresh: "pending (c\<lparr>next_id := next_id c + 1\<rparr>) (Number (next_id c)) = None"
    using fresh_id(1) [OF inv] by simp
  show thesis
  proof (cases "encode_request J C (Number (next_id c)) method params")
    case (Inl e)
    with True reg that(1) [of "Protocol e"] show thesis
      by (simp add: request_register_def next_request_id_def i64_checked_add_def)
  next
    case (Inr line)
    with True reg that(2) [of line] fresh show thesis
      by (simp add: request_register_def next_request_id_def i64_checked_add_def Let_def)
  qed
qed

lemma inv_register:
  assumes inv: "client_inv c" and reg: "request_register J C method params c = (res, c')"
  shows "client_inv c'"
  using inv reg
proof (cases rule: register_cases)
  case (Rejected e)
  have "ids_inv (c\<lparr>next_id := next_id c + 1\<rparr>)"
    using client_invD(1) [OF inv] by (fastforce simp: ids_inv_def)
  moreover have "pending_inv (c\<lparr>next_id := next_id c + 1\<rparr>) = pending_inv c"
    by (simp add: pending_inv_def)
  ultimately show ?thesis
    using Rejected(2) inv by (auto simp: client_inv_def)
next
  case (Accepted line)
  let ?n = "length (calls c)" and ?i = "Number (next_id c)"
  note P = pending_invD [OF client_invD(2) [OF inv]]
  have calls': "calls c' = calls c @ [\<lparr>call_method = method, call_id = ?i, call_phase = Registered\<rparr>]"
    and pending': "pending c' = (pending c)(?i \<mapsto> ?n)" and channel': "channel c' = channel c"
    and next': "next_id c' = next_id c + 1"
    by (simp_all add: Accepted(2))
  have no_channel: "channel c ?n = None"
    using P(3) [of ?n] by (cases "channel c ?n") auto
  have "ids_inv c'"
    using client_invD(1) [OF inv] fresh_id(2) [OF inv] by (fastforce simp: ids_inv_iff calls' next')
  moreover have "pending_inv c'"
  proof (rule pending_invI)
    fix j k
    assume "pending c' j = Some k"
    then show "k < length (calls c') \<and> call_id (calls c' ! k) = j \<and> channel c' k = None"
      using P(1) [of j k] no_channel by (cases "j = ?i") (auto simp: pending' calls' channel' nth_append)
  next
    fix k
    assume k: "k < length (calls c')" "channel c' k = None" "\<And>r. call_phase (calls c' ! k) \<noteq> Returned r"
    show "pending c' (call_id (calls c' ! k)) = Some k"
    proof (cases "k = ?n")
      case False
      then have k': "k < ?n" using k(1) by (simp add: calls')
      then have "call_id (calls c ! k) \<noteq> ?i"
        using fresh_id(2) [OF inv] by (metis length_map nth_map nth_mem)
      with k k' P(2) [of k] show ?thesis by (simp add: pending' calls' channel' nth_append)
    qed (simp add: pending' calls')
  next
    fix k ch
    assume "channel c' k = Some ch"
    then show "k < length (calls c') \<and> ch \<noteq> Dropped"
      using P(3) [of k ch] by (simp add: channel' calls')
  qed
  ultimately show ?thesis
    by (simp add: client_inv_def)
qed

lemma inv_set_phase:
  assumes inv: "client_inv c" and k: "k < length (calls c)"
    and ok: "channel c k \<noteq> None \<or> pending c (call_id (calls c ! k)) = Some k \<or> (\<exists>r. p = Returned r)"
  shows "client_inv (set_phase k p c)"
proof -
  note P = pending_invD [OF client_invD(2) [OF inv]]
  have same: "call_id (calls (set_phase k p c) ! j) = call_id (calls c ! j)" if "j < length (calls c)" for j
    using that k by (simp add: set_phase_call)
  have "pending_inv (set_phase k p c)"
  proof (rule pending_invI)
    fix i j
    assume "pending (set_phase k p c) i = Some j"
    then show "j < length (calls (set_phase k p c)) \<and> call_id (calls (set_phase k p c) ! j) = i \<and>
        channel (set_phase k p c) j = None"
      using P(1) [of i j] same by simp
  next
    fix j
    assume j: "j < length (calls (set_phase k p c))" "channel (set_phase k p c) j = None"
      "\<And>r. call_phase (calls (set_phase k p c) ! j) \<noteq> Returned r"
    then show "pending (set_phase k p c) (call_id (calls (set_phase k p c) ! j)) = Some j"
      using P(2) [of j] ok k same [of j] by (cases "j = k") (auto simp: set_phase_call)
  qed (use P(3) in simp)
  moreover have "ids_inv (set_phase k p c)"
    using client_invD(1) [OF inv] by (simp add: ids_inv_iff del: set_map)
  ultimately show ?thesis by (simp add: client_inv_def)
qed

lemma inv_unregister:
  assumes inv: "client_inv c" and k: "k < length (calls c)"
  shows "client_inv (set_phase k (Returned r) (c\<lparr>pending := (pending c)(call_id (calls c ! k) := None)\<rparr>))"
    (is "client_inv ?c")
proof -
  note P = pending_invD [OF client_invD(2) [OF inv]]
  have calls': "calls ?c ! j = (if j = k then (calls c ! k)\<lparr>call_phase := Returned r\<rparr> else calls c ! j)"
    if "j < length (calls c)" for j
    using that k set_phase_call [of k "c\<lparr>pending := (pending c)(call_id (calls c ! k) := None)\<rparr>" j] by simp
  have "pending_inv ?c"
  proof (rule pending_invI)
    fix i j
    assume "pending ?c i = Some j"
    then have "pending c i = Some j" by (simp split: if_splits)
    then show "j < length (calls ?c) \<and> call_id (calls ?c ! j) = i \<and> channel ?c j = None"
      using P(1) [of i j] calls' [of j] by (cases "j = k") simp_all
  next
    fix j
    assume "j < length (calls ?c)" and ch: "channel ?c j = None"
      and phase: "\<And>r. call_phase (calls ?c ! j) \<noteq> Returned r"
    then have j: "j < length (calls c)" by simp
    with phase [of r] have jk: "j \<noteq> k" using calls' [of j] by auto
    then have "call_id (calls c ! j) \<noteq> call_id (calls c ! k)"
      using call_id_inject [OF inv j k] by blast
    then show "pending ?c (call_id (calls ?c ! j)) = Some j"
      using P(2) [of j] j jk ch phase calls' [of j] by simp
  qed (use P(3) in simp)
  moreover have "ids_inv ?c"
    using client_invD(1) [OF inv] by (simp add: ids_inv_iff del: set_map)
  ultimately show ?thesis by (simp add: client_inv_def)
qed

lemma inv_update_other [simp]:
  "client_inv (c\<lparr>written := w\<rparr>) = client_inv c"
  "client_inv (c\<lparr>stdin_open := b\<rparr>) = client_inv c"
  "client_inv (c\<lparr>sent_events := es\<rparr>) = client_inv c"
  by (simp_all add: client_inv_def ids_inv_def pending_inv_def)

lemma inv_client_write: "client_write line io c = (res, c') \<Longrightarrow> client_inv c \<Longrightarrow> client_inv c'"
  by (auto simp: client_write_def split: if_splits sum.splits)

lemma inv_request_write:
  assumes inv: "client_inv c" and k: "k < length (calls c)" "call_phase (calls c ! k) = Registered"
  shows "client_inv (request_write k line io c)"
proof (cases "client_write line io c")
  case (Pair res c1)
  have c1: "calls c1 = calls c" "pending c1 = pending c" "channel c1 = channel c" "client_inv c1"
    using Pair inv by (auto simp: client_write_def split: if_splits sum.splits)
  show ?thesis
  proof (cases res)
    case (Inr u)
    have "channel c1 k \<noteq> None \<or> pending c1 (call_id (calls c1 ! k)) = Some k"
      using c1 k pending_invD(2) [OF client_invD(2) [OF inv], of k] by auto
    with Inr Pair c1 k show ?thesis
      by (auto simp: request_write_def intro!: inv_set_phase)
  next
    case (Inl e)
    with Pair c1 k inv_unregister [OF c1(4)] show ?thesis
      by (simp add: request_write_def)
  qed
qed

lemma inv_answer:
  assumes inv: "client_inv c" and p: "pending c i = Some k"
  shows "client_inv (c\<lparr>pending := (pending c)(i := None), channel := (channel c)(k \<mapsto> Sent r)\<rparr>)"
    (is "client_inv ?c")
proof -
  note P = pending_invD [OF client_invD(2) [OF inv]]
  have k: "k < length (calls c)" "call_id (calls c ! k) = i"
    using P(1) [OF p] by blast+
  have "pending_inv ?c"
  proof (rule pending_invI)
    fix i' j
    assume "pending ?c i' = Some j"
    then have "i' \<noteq> i" "pending c i' = Some j" by (simp_all split: if_splits)
    then show "j < length (calls ?c) \<and> call_id (calls ?c ! j) = i' \<and> channel ?c j = None"
      using P(1) [of i' j] k by auto
  next
    fix j
    assume j: "j < length (calls ?c)" "channel ?c j = None" "\<And>r. call_phase (calls ?c ! j) \<noteq> Returned r"
    then have "j \<noteq> k" by (auto split: if_splits)
    then have "call_id (calls c ! j) \<noteq> i"
      using call_id_inject [OF inv _ k(1), of j] j(1) k(2) by auto
    then show "pending ?c (call_id (calls ?c ! j)) = Some j"
      using P(2) [of j] j \<open>j \<noteq> k\<close> by simp
  next
    fix j ch
    assume "channel ?c j = Some ch"
    then show "j < length (calls ?c) \<and> ch \<noteq> Dropped"
      using P(3) [of j ch] k by (auto split: if_splits)
  qed
  moreover have "ids_inv ?c"
    using client_invD(1) [OF inv] by (simp add: ids_inv_def)
  ultimately show ?thesis by (simp add: client_inv_def)
qed

lemma inv_dispatch: "client_inv c \<Longrightarrow> client_inv (dispatch_message m c)"
  by (cases m) (simp_all add: inv_answer split: option.split)

lemma inv_reader_finish:
  assumes inv: "client_inv c"
  shows "client_inv (reader_finish f c)"
proof -
  note P = pending_invD [OF client_invD(2) [OF inv]]
  have "pending_inv (reader_finish f c)"
  proof (rule pending_invI)
    fix i k
    assume "pending (reader_finish f c) i = Some k"
    then show "k < length (calls (reader_finish f c)) \<and> call_id (calls (reader_finish f c) ! k) = i \<and>
        channel (reader_finish f c) k = None"
      by (simp add: reader_finish_def)
  next
    fix k
    assume k: "k < length (calls (reader_finish f c))" "channel (reader_finish f c) k = None"
      "\<And>r. call_phase (calls (reader_finish f c) ! k) \<noteq> Returned r"
    then have "k \<notin> ran (pending c)" "channel c k = None"
      by (simp_all add: reader_finish_def split: if_splits)
    moreover have "pending c (call_id (calls c ! k)) = Some k"
      using k \<open>channel c k = None\<close> by (intro P(2)) (simp_all add: reader_finish_def)
    ultimately show "pending (reader_finish f c) (call_id (calls (reader_finish f c) ! k)) = Some k"
      by (meson ranI)
  next
    fix k ch
    assume "channel (reader_finish f c) k = Some ch"
    then show "k < length (calls (reader_finish f c)) \<and> ch \<noteq> Dropped"
      using P(1) [of _ k] P(3) [of k ch] by (auto simp: reader_finish_def ran_def split: if_splits)
  qed
  moreover have "ids_inv (reader_finish f c)"
    using client_invD(1) [OF inv] by (simp add: ids_inv_def reader_finish_def)
  ultimately show ?thesis by (simp add: client_inv_def)
qed

lemma inv_read_one: "client_inv c \<Longrightarrow> client_inv (read_one J C r c)"
  by (cases r) (auto simp: inv_reader_finish inv_dispatch split: sum.split)

lemma inv_client_step:
  assumes "client_step J C D c l c'" and inv: "client_inv c"
  shows "client_inv c'"
  using assms(1)
proof (cases rule: client_step.cases)
  case (register meth prm res)
  then show ?thesis using inv inv_register by blast
next
  case (writes k line io)
  then show ?thesis using inv inv_request_write by blast
next
  case (resumes k ch)
  then show ?thesis using inv by (auto simp: request_resume_def intro!: inv_set_phase)
next
  case (sends line io res)
  then show ?thesis using inv inv_client_write by blast
next
  case closes
  then show ?thesis using inv by (simp add: client_close_def)
next
  case (reads r)
  then show ?thesis using inv inv_read_one by blast
qed

lemma inv_client_run: "client_run J C D c ls c' \<Longrightarrow> client_inv c \<Longrightarrow> client_inv c'"
  by (induction rule: client_run.induct) (blast intro: inv_client_step)+

subsection \<open>Answers belong to their requests\<close>

text \<open>The value a call has received was read in a response with the call's own id.\<close>

definition answered_by ::
    "'v json \<Rightarrow> 'v serde_codec \<Rightarrow> client_label list \<Rightarrow> RequestId \<Rightarrow> 'v \<Rightarrow> bool" where
  "answered_by J C ls i v \<longleftrightarrow>
     (\<exists>line r. Reads (Line line) \<in> set ls \<and> decode_line J C line = Inr (Response r) \<and>
        response_id r = i \<and> response_outcome r = Inr v)"

definition answers_inv ::
    "'v json \<Rightarrow> 'v serde_codec \<Rightarrow> (str \<Rightarrow> 'v \<Rightarrow> str + 'r) \<Rightarrow> client_label list \<Rightarrow> ('v, 'r) CodexClient \<Rightarrow> bool" where
  "answers_inv J C D ls c \<longleftrightarrow>
     (\<forall>k v. channel c k = Some (Sent (Inr v)) \<longrightarrow> answered_by J C ls (call_id (calls c ! k)) v) \<and>
     (\<forall>k < length (calls c). \<forall>r. call_phase (calls c ! k) = Returned (Inr r) \<longrightarrow>
        (\<exists>v. D (call_method (calls c ! k)) v = Inr r \<and> answered_by J C ls (call_id (calls c ! k)) v))"

lemma answered_by_mono: "answered_by J C ls i v \<Longrightarrow> set ls \<subseteq> set ls' \<Longrightarrow> answered_by J C ls' i v"
  by (auto simp: answered_by_def)

lemma answers_invI:
  assumes "\<And>k v. channel c k = Some (Sent (Inr v)) \<Longrightarrow> answered_by J C ls (call_id (calls c ! k)) v"
    and "\<And>k r. k < length (calls c) \<Longrightarrow> call_phase (calls c ! k) = Returned (Inr r) \<Longrightarrow>
           \<exists>v. D (call_method (calls c ! k)) v = Inr r \<and> answered_by J C ls (call_id (calls c ! k)) v"
  shows "answers_inv J C D ls c"
  using assms by (simp add: answers_inv_def)

lemma answers_mono: "answers_inv J C D ls c \<Longrightarrow> set ls \<subseteq> set ls' \<Longrightarrow> answers_inv J C D ls' c"
  unfolding answers_inv_def by (meson answered_by_mono)

lemma answers_set_phase:
  assumes "answers_inv J C D ls c" and k: "k < length (calls c)"
    and p: "\<And>r. p = Returned (Inr r) \<Longrightarrow>
      \<exists>v. D (call_method (calls c ! k)) v = Inr r \<and> answered_by J C ls (call_id (calls c ! k)) v"
    and fields: "channel c1 = channel c" "calls c1 = calls c"
    and inv: "pending_inv c"
  shows "answers_inv J C D ls (set_phase k p c1)"
proof (rule answers_invI)
  fix j v
  assume "channel (set_phase k p c1) j = Some (Sent (Inr v))"
  then have j: "channel c j = Some (Sent (Inr v))" by (simp add: fields)
  then have "j < length (calls c)" using pending_invD(3) [OF inv] by blast
  with j assms(1) k fields show "answered_by J C ls (call_id (calls (set_phase k p c1) ! j)) v"
    by (auto simp: answers_inv_def set_phase_call)
next
  fix j r
  assume "j < length (calls (set_phase k p c1))" "call_phase (calls (set_phase k p c1) ! j) = Returned (Inr r)"
  with assms(1) k p fields
  show "\<exists>v. D (call_method (calls (set_phase k p c1) ! j)) v = Inr r \<and>
      answered_by J C ls (call_id (calls (set_phase k p c1) ! j)) v"
    by (cases "j = k") (auto simp: answers_inv_def set_phase_call)
qed

lemma answers_same_calls:
  assumes "answers_inv J C D ls c" and "calls c' = calls c"
    and "\<And>k v. channel c' k = Some (Sent (Inr v)) \<Longrightarrow> channel c k = Some (Sent (Inr v))"
  shows "answers_inv J C D ls c'"
  using assms unfolding answers_inv_def by metis

lemma answers_register:
  assumes inv: "client_inv c" and ans: "answers_inv J C D ls c"
    and reg: "request_register J C method params c = (res, c')"
  shows "answers_inv J C D ls c'"
  using inv reg
proof (cases rule: register_cases)
  case (Rejected e)
  with ans show ?thesis by (auto intro: answers_same_calls)
next
  case (Accepted line)
  show ?thesis
  proof (rule answers_invI)
    fix k v
    assume "channel c' k = Some (Sent (Inr v))"
    then have k: "channel c k = Some (Sent (Inr v))" by (simp add: Accepted(2))
    then have "k < length (calls c)"
      using pending_invD(3) [OF client_invD(2) [OF inv]] by blast
    with k ans show "answered_by J C ls (call_id (calls c' ! k)) v"
      by (simp add: Accepted(2) answers_inv_def nth_append)
  next
    fix k r
    assume "k < length (calls c')" "call_phase (calls c' ! k) = Returned (Inr r)"
    with ans show "\<exists>v. D (call_method (calls c' ! k)) v = Inr r \<and> answered_by J C ls (call_id (calls c' ! k)) v"
      by (auto simp: Accepted(2) answers_inv_def nth_append less_Suc_eq split: if_splits)
  qed
qed

lemma answers_read:
  assumes inv: "client_inv c" and ans: "answers_inv J C D ls c" and r: "Reads r \<in> set ls"
  shows "answers_inv J C D ls (read_one J C r c)"
proof -
  have finish: "answers_inv J C D ls (reader_finish f c)" for f
    by (rule answers_same_calls [OF ans]) (auto simp: reader_finish_def split: if_splits)
  show ?thesis
  proof (cases r)
    case (Line line)
    show ?thesis
    proof (cases "decode_line J C line")
      case (Inr msg)
      show ?thesis
      proof (cases msg)
        case (Response resp)
        show ?thesis
        proof (cases "pending c (response_id resp)")
          case (Some k)
          have k: "k < length (calls c)" "call_id (calls c ! k) = response_id resp"
            using pending_invD(1) [OF client_invD(2) [OF inv] Some] by blast+
          have new: "answered_by J C ls (response_id resp) v" if "response_outcome resp = Inr v" for v
            using that r Line Inr Response by (auto simp: answered_by_def)
          have "answers_inv J C D ls (dispatch_message msg c)"
          proof (rule answers_invI)
            fix j v
            assume "channel (dispatch_message msg c) j = Some (Sent (Inr v))"
            with ans k new show "answered_by J C ls (call_id (calls (dispatch_message msg c) ! j)) v"
              by (auto simp: Response Some answers_inv_def split: if_splits sum.splits)
          next
            fix j x
            assume "j < length (calls (dispatch_message msg c))"
              "call_phase (calls (dispatch_message msg c) ! j) = Returned (Inr x)"
            with ans show "\<exists>v. D (call_method (calls (dispatch_message msg c) ! j)) v = Inr x \<and>
                answered_by J C ls (call_id (calls (dispatch_message msg c) ! j)) v"
              by (simp add: Response Some answers_inv_def)
          qed
          with Line Inr show ?thesis by simp
        qed (use ans Line Inr Response in \<open>auto intro: answers_same_calls\<close>)
      qed (use ans Line Inr in \<open>auto intro: answers_same_calls\<close>)
    qed (use Line finish in simp)
  qed (use finish in simp_all)
qed

lemma answers_step:
  assumes step: "client_step J C D c l c'" and inv: "client_inv c" and ans: "answers_inv J C D ls c"
  shows "answers_inv J C D (ls @ [l]) c'"
proof -
  have ans': "answers_inv J C D (ls @ [l]) c"
    using ans by (rule answers_mono) auto
  have pinv: "pending_inv c" by (rule client_invD(2) [OF inv])
  from step show ?thesis
  proof (cases rule: client_step.cases)
    case (register meth prm res)
    then show ?thesis using answers_register [OF inv ans'] by blast
  next
    case (writes k line io)
    obtain res c1 where w: "client_write line io c = (res, c1)" by fastforce
    then have c1: "channel c1 = channel c" "calls c1 = calls c"
      by (auto simp: client_write_def split: if_splits sum.splits)
    show ?thesis
      using writes w c1 ans' pinv
      by (cases res) (auto simp: request_write_def intro!: answers_set_phase)
  next
    case (resumes k ch)
    have "\<exists>v. D (call_method (calls c ! k)) v = Inr x \<and> answered_by J C (ls @ [l]) (call_id (calls c ! k)) v"
      if "request_result D (call_method (calls c ! k)) ch = Inr x" for x
      using that ans' resumes(5)
      by (auto simp: request_result_def answers_inv_def split: oneshot.splits sum.splits)
    with resumes ans' pinv show ?thesis
      by (auto simp: request_resume_def intro!: answers_set_phase)
  next
    case (sends line io res)
    then have "channel c' = channel c" "calls c' = calls c"
      by (auto simp: client_write_def split: if_splits sum.splits)
    with ans' show ?thesis by (auto intro: answers_same_calls)
  next
    case closes
    with ans' show ?thesis by (auto simp: client_close_def intro: answers_same_calls)
  next
    case (reads r)
    then show ?thesis using answers_read [OF inv ans', of r] by simp
  qed
qed

lemma answers_run:
  "client_run J C D c ls c' \<Longrightarrow> c = client_initial \<Longrightarrow> client_inv c' \<and> answers_inv J C D ls c'"
proof (induction rule: client_run.induct)
  case (stop c)
  have "answers_inv J C D [] client_initial"
    by (simp add: answers_inv_def client_initial_def)
  with stop show ?case by (simp add: inv_initial)
next
  case (more c ls c' l c'')
  then show ?case using answers_step inv_client_step by blast
qed

text \<open>
  C12: Every answer reaches the call it belongs to. In every interleaving of callers and the reader,
  no two calls have the same request id, and a call that returned a result got it from a response
  with its own id that the reader read and whose value its result type accepted.
\<close>

theorem codex_answers_correlated:
  assumes "client_run J C D client_initial ls c" and "k < length (calls c)"
    and "call_phase (calls c ! k) = Returned (Inr r)"
  shows "distinct (map call_id (calls c)) \<and>
    (\<exists>v. D (call_method (calls c ! k)) v = Inr r \<and> answered_by J C ls (call_id (calls c ! k)) v)"
proof -
  have inv: "client_inv c" and ans: "answers_inv J C D ls c"
    using answers_run [OF assms(1) refl] by blast+
  have "distinct (map call_id (calls c))"
    using client_invD(1) [OF inv] by (simp add: ids_inv_def)
  with ans assms(2,3) show ?thesis
    by (simp add: answers_inv_def)
qed

text \<open>
  C23: A lost connection releases every waiting caller with an error. When the reader stops, for
  whatever reason, no request stays registered, and the loss is announced once to the subscribers. Every
  call that has not returned and was not answered before is sent the error that the connection is closed,
  with the reason, and when it is waiting it can return that error at its next step; an answer that arrived before is kept.
\<close>

theorem reader_stop_releases_callers:
  assumes "client_run J C D client_initial ls c" and "reader_failure c = None"
    and stopped: "reader_failure (read_one J C r c) = Some failure"
  shows "pending (read_one J C r c) = Map.empty \<and> calls (read_one J C r c) = calls c \<and>
    sent_events (read_one J C r c) = sent_events c @ [CodexEvent.ConnectionClosed failure] \<and>
    (\<forall>k < length (calls c).
       (\<exists>res. call_phase (calls c ! k) = Returned res) \<or>
       (case channel c k of
          Some answer \<Rightarrow> channel (read_one J C r c) k = Some answer
        | None \<Rightarrow>
            channel (read_one J C r c) k = Some (Sent (Inl (CodexTransportError.ConnectionClosed failure))) \<and>
            (call_phase (calls c ! k) = Waiting \<longrightarrow>
              (\<exists>c'. client_step J C D (read_one J C r c) Internal c' \<and>
                 call_phase (calls c' ! k) = Returned (Inl (CodexTransportError.ConnectionClosed failure))))))"
proof -
  let ?c = "read_one J C r c"
  let ?error = "Sent (Inl (CodexTransportError.ConnectionClosed failure))"
  have inv: "client_inv c" using answers_run [OF assms(1) refl] by blast
  note P = pending_invD [OF client_invD(2) [OF inv]]
  have "reader_failure (dispatch_message m c) = None" for m
    using assms(2) by (cases m) (simp_all split: option.split)
  then have fin: "?c = reader_finish failure c"
    using stopped by (cases r) (auto simp: reader_finish_def split: sum.splits)
  have kept: "channel ?c k = Some answer" if "channel c k = Some answer" for k answer
    using that P(1) [of _ k] by (auto simp: fin reader_finish_def ran_def)
  have drained: "channel ?c k = Some ?error"
    if "k < length (calls c)" "channel c k = None" "\<nexists>res. call_phase (calls c ! k) = Returned res" for k
    using P(2) [OF that(1,2)] that(3) by (auto simp: fin reader_finish_def ran_def)
  have "\<exists>c'. client_step J C D ?c Internal c' \<and>
      call_phase (calls c' ! k) = Returned (Inl (CodexTransportError.ConnectionClosed failure))"
    if "k < length (calls c)" "channel ?c k = Some ?error" "call_phase (calls c ! k) = Waiting" for k
  proof (intro exI conjI)
    show "client_step J C D ?c Internal (request_resume D k ?error ?c)"
      using that by (intro client_step.resumes) (simp_all add: fin reader_finish_def)
    show "call_phase (calls (request_resume D k ?error ?c) ! k) =
        Returned (Inl (CodexTransportError.ConnectionClosed failure))"
      using that(1) by (simp add: request_resume_def set_phase_def request_result_def fin reader_finish_def)
  qed
  moreover have "pending ?c = Map.empty" "calls ?c = calls c"
      "sent_events ?c = sent_events c @ [CodexEvent.ConnectionClosed failure]"
    by (simp_all add: fin reader_finish_def)
  ultimately show ?thesis
    using kept drained by (simp split: option.split) blast
qed

subsection \<open>Requests made after the reader has stopped\<close>

lemma stranded_step:
  assumes step: "client_step J C D c l c'" and inv: "client_inv c"
    and k: "k < length (calls c)" and failed: "reader_failure c \<noteq> None"
    and wait: "call_phase (calls c ! k) = Waiting" and silent: "channel c k = None"
  shows "k < length (calls c') \<and> reader_failure c' \<noteq> None \<and> call_phase (calls c' ! k) = Waiting \<and> channel c' k = None"
  using step
proof (cases rule: client_step.cases)
  case (register meth prm res)
  from inv this(2) show ?thesis
    by (cases rule: register_cases) (use k failed wait silent in \<open>auto simp: nth_append\<close>)
next
  case (writes j line io)
  obtain res c1 where w: "client_write line io c = (res, c1)" by fastforce
  then have c1: "channel c1 = channel c" "calls c1 = calls c" "reader_failure c1 = reader_failure c"
    by (auto simp: client_write_def split: if_splits sum.splits)
  have "j \<noteq> k" using writes wait by auto
  then show ?thesis
    using writes w c1 k failed wait silent
    by (cases res) (auto simp: request_write_def set_phase_call)
next
  case (resumes j ch)
  then have "j \<noteq> k" using silent by auto
  then show ?thesis
    using resumes k failed wait silent by (auto simp: request_resume_def set_phase_call)
next
  case (sends line io res)
  then show ?thesis
    using k failed wait silent by (auto simp: client_write_def split: if_splits sum.splits)
next
  case closes
  then show ?thesis using k failed wait silent by (simp add: client_close_def)
next
  case (reads r)
  then show ?thesis using failed by simp
qed

text \<open>
  C24: A request written after the reader has stopped never returns. If the reader task has ended
  (for instance on a malformed line) while the process still accepts input, a call whose line was
  written successfully and that has not been answered waits in every continuation: neither the
  reader nor the closing of the connection can wake it, and \<open>request\<close> has no time-out of its own.
\<close>

theorem late_request_never_returns:
  assumes "client_inv c" and "k < length (calls c)" and "reader_failure c \<noteq> None"
    and "call_phase (calls c ! k) = Waiting" and "channel c k = None"
    and "client_run J C D c ls c'"
  shows "call_phase (calls c' ! k) = Waiting"
proof -
  have "client_run J C D c ls c' \<Longrightarrow> client_inv c \<Longrightarrow> k < length (calls c) \<Longrightarrow> reader_failure c \<noteq> None \<Longrightarrow>
      call_phase (calls c ! k) = Waiting \<Longrightarrow> channel c k = None \<Longrightarrow>
      client_inv c' \<and> k < length (calls c') \<and> reader_failure c' \<noteq> None \<and>
      call_phase (calls c' ! k) = Waiting \<and> channel c' k = None"
  proof (induction rule: client_run.induct)
    case (more c ls c' l c'')
    then show ?case
      using stranded_step [of J C D c' l c'' k] inv_client_step by blast
  qed simp
  with assms show ?thesis by blast
qed

text \<open>A client whose server closed its output, and a request made afterwards.\<close>

definition after_eof :: "(sample_value, unit) CodexClient" where
  "after_eof = read_one sample_json sample_codec EndOfFile client_initial"

definition sample_result :: "str \<Rightarrow> sample_value \<Rightarrow> str + unit" where
  "sample_result method v = Inr ()"

lemma after_eof_run:
  "client_run sample_json sample_codec sample_result client_initial [Reads EndOfFile] after_eof"
proof -
  have "client_run sample_json sample_codec sample_result client_initial ([] @ [Reads EndOfFile]) after_eof"
    unfolding after_eof_def
    by (intro client_run.more [OF client_run.stop] client_step.reads) (simp add: client_initial_def)
  then show ?thesis by simp
qed

lemma late_request_reachable:
  obtains c where "client_run sample_json sample_codec sample_result client_initial [Reads EndOfFile, Internal, Internal] c"
    and "length (calls c) = 1" and "reader_failure c \<noteq> None"
    and "call_phase (calls c ! 0) = Waiting" and "channel c 0 = None"
proof -
  define mth where "mth = lit ''model/list''"
  obtain line where line: "encode_request sample_json sample_codec (Number 1) mth (Inr SNull) = Inr line"
    using request_round_trip [OF sample_json_laws sample_codec_laws, of "Number 1"] by (auto simp: rust_num)
  define c1 where "c1 = snd (request_register sample_json sample_codec mth (Inr SNull) after_eof)"
  have c1: "calls c1 = [\<lparr>call_method = mth, call_id = Number 1, call_phase = Registered\<rparr>]"
      "channel c1 = Map.empty" "reader_failure c1 \<noteq> None" "stdin_open c1"
    by (simp_all add: c1_def request_register_def next_request_id_def after_eof_def reader_finish_def
        client_initial_def i64_checked_add_def rust_num line Let_def)
  define c2 where "c2 = request_write 0 line (Inr ()) c1"
  have "client_run sample_json sample_codec sample_result client_initial (([Reads EndOfFile] @ [Internal]) @ [Internal]) c2"
    unfolding c2_def
  proof (intro client_run.more [OF client_run.more [OF after_eof_run]])
    show "client_step sample_json sample_codec sample_result after_eof Internal c1"
      unfolding c1_def by (rule client_step.register [OF prod.collapse [symmetric]])
    show "client_step sample_json sample_codec sample_result c1 Internal (request_write 0 line (Inr ()) c1)"
      by (rule client_step.writes) (simp_all add: c1)
  qed
  moreover have "length (calls c2) = 1" "reader_failure c2 \<noteq> None" "call_phase (calls c2 ! 0) = Waiting"
      "channel c2 0 = None"
    using c1 by (simp_all add: c2_def request_write_def client_write_def set_phase_def)
  ultimately show thesis
    using that [of c2] by simp
qed

theorem late_request_never_returns_witness:
  "\<exists>c. client_run sample_json sample_codec sample_result client_initial [Reads EndOfFile, Internal, Internal] c \<and>
     \<not> (\<exists>ls c' res. client_run sample_json sample_codec sample_result c ls c' \<and>
          call_phase (calls c' ! 0) = Returned res)"
proof -
  obtain c where run: "client_run sample_json sample_codec sample_result client_initial [Reads EndOfFile, Internal, Internal] c"
    and c: "length (calls c) = 1" "reader_failure c \<noteq> None" "call_phase (calls c ! 0) = Waiting" "channel c 0 = None"
    by (rule late_request_reachable)
  have inv: "client_inv c"
    using answers_run [OF run refl] by blast
  have "call_phase (calls c' ! 0) = Waiting" if "client_run sample_json sample_codec sample_result c ls c'" for ls c'
    using late_request_never_returns [OF inv _ c(2,3,4) that] c(1) by simp
  with run show ?thesis
    by (metis CallPhase.distinct(5))
qed

text \<open>A call that has been written and waits.\<close>

lemma waiting_call_reachable:
  obtains c :: "(sample_value, unit) CodexClient" where
    "client_run sample_json sample_codec sample_result client_initial [Internal, Internal] c"
    and "calls c = [\<lparr>call_method = lit ''model/list'', call_id = Number 1, call_phase = Waiting\<rparr>]"
    and "pending c = [Number 1 \<mapsto> 0]" and "reader_failure c = None" and "channel c 0 = None"
proof -
  define mth where "mth = lit ''model/list''"
  obtain req where req: "encode_request sample_json sample_codec (Number 1) mth (Inr SNull) = Inr req"
    using request_round_trip [OF sample_json_laws sample_codec_laws, of "Number 1"] by (auto simp: rust_num)
  define c1 where "c1 = snd (request_register sample_json sample_codec mth (Inr SNull)
    (client_initial :: (sample_value, unit) CodexClient))"
  have c1: "calls c1 = [\<lparr>call_method = mth, call_id = Number 1, call_phase = Registered\<rparr>]"
      "pending c1 = [Number 1 \<mapsto> 0]" "reader_failure c1 = None" "stdin_open c1" "channel c1 = Map.empty"
    by (simp_all add: c1_def request_register_def next_request_id_def client_initial_def
        i64_checked_add_def rust_num req Let_def)
  define c2 where "c2 = request_write 0 req (Inr ()) c1"
  have 1: "client_step sample_json sample_codec sample_result client_initial Internal c1"
    unfolding c1_def by (rule client_step.register [OF prod.collapse [symmetric]])
  have 2: "client_step sample_json sample_codec sample_result c1 Internal c2"
    unfolding c2_def by (rule client_step.writes) (simp_all add: c1)
  have "client_run sample_json sample_codec sample_result client_initial (([] @ [Internal]) @ [Internal]) c2"
    by (intro client_run.more [OF _ 2] client_run.more [OF _ 1] client_run.stop)
  moreover have "calls c2 = [\<lparr>call_method = mth, call_id = Number 1, call_phase = Waiting\<rparr>]"
      "pending c2 = [Number 1 \<mapsto> 0]" "reader_failure c2 = None" "channel c2 0 = None"
    using c1 by (simp_all add: c2_def request_write_def client_write_def set_phase_def)
  ultimately show thesis using that [of c2] by (simp add: mth_def)
qed

theorem reader_stop_releases_callers_witness:
  "\<exists>c :: (sample_value, unit) CodexClient.
     client_run sample_json sample_codec sample_result client_initial [Internal, Internal] c \<and> pending c (Number 1) = Some 0 \<and>
     channel (read_one sample_json sample_codec EndOfFile c) 0 =
       Some (Sent (Inl (CodexTransportError.ConnectionClosed (lit ''Codex app-server closed its output''))))"
proof -
  obtain c :: "(sample_value, unit) CodexClient"
    where run: "client_run sample_json sample_codec sample_result client_initial [Internal, Internal] c"
    and c: "calls c = [\<lparr>call_method = lit ''model/list'', call_id = Number 1, call_phase = Waiting\<rparr>]"
      "pending c = [Number 1 \<mapsto> 0]" "reader_failure c = None" "channel c 0 = None"
    by (rule waiting_call_reachable)
  have "reader_failure (read_one sample_json sample_codec EndOfFile c) = Some (lit ''Codex app-server closed its output'')"
    by (simp add: reader_finish_def)
  from reader_stop_releases_callers [OF run c(3) this] c run show ?thesis by auto
qed

text \<open>A call that is answered with the value it asked for.\<close>

lemma answered_call_reachable:
  obtains line c where "client_run sample_json sample_codec sample_result client_initial
      [Internal, Internal, Reads (Line line), Internal] c"
    and "length (calls c) = 1" and "call_phase (calls c ! 0) = Returned (Inr ())"
proof -
  obtain line where line: "decode_line sample_json sample_codec line =
      Inr (Response \<lparr>response_id = Number 1, response_outcome = Inr SNull\<rparr>)"
    using response_round_trip [OF sample_json_laws sample_codec_laws, of "Number 1"] by (auto simp: rust_num)
  let ?run = "client_run sample_json sample_codec sample_result (client_initial :: (sample_value, unit) CodexClient)"
  let ?step = "client_step sample_json sample_codec sample_result"
  obtain c2 where run: "?run [Internal, Internal] c2"
    and c2: "calls c2 = [\<lparr>call_method = lit ''model/list'', call_id = Number 1, call_phase = Waiting\<rparr>]"
      "pending c2 = [Number 1 \<mapsto> 0]" "reader_failure c2 = None" "channel c2 0 = None"
    by (rule waiting_call_reachable)
  define c3 where "c3 = read_one sample_json sample_codec (Line line) c2"
  have c3: "calls c3 = calls c2" "channel c3 0 = Some (Sent (Inr SNull))"
    using c2 by (simp_all add: c3_def line)
  define c4 where "c4 = request_resume sample_result 0 (Sent (Inr SNull)) c3"
  have 3: "?step c2 (Reads (Line line)) c3"
    unfolding c3_def by (rule client_step.reads) (simp add: c2)
  have 4: "?step c3 Internal c4"
    unfolding c4_def by (rule client_step.resumes) (simp_all add: c3 c2)
  have "?run (([Internal, Internal] @ [Reads (Line line)]) @ [Internal]) c4"
    by (rule client_run.more [OF client_run.more [OF run 3] 4])
  moreover have "length (calls c4) = 1" "call_phase (calls c4 ! 0) = Returned (Inr ())"
    using c3 c2 by (simp_all add: c4_def request_resume_def set_phase_def request_result_def sample_result_def)
  ultimately show thesis
    using that [of line c4] by simp
qed

theorem codex_answers_correlated_witness:
  "\<exists>line c v. answered_by sample_json sample_codec [Internal, Internal, Reads (Line line), Internal]
     (call_id (calls (c :: (sample_value, unit) CodexClient) ! 0)) v"
proof -
  obtain line c where run: "client_run sample_json sample_codec sample_result client_initial
      [Internal, Internal, Reads (Line line), Internal] c"
    and c: "length (calls c) = 1" "call_phase (calls c ! 0) = Returned (Inr ())"
    by (rule answered_call_reachable)
  from codex_answers_correlated [OF run _ c(2)] c(1) show ?thesis
    by auto
qed

end
