(* ===== verification/Codex_Normalize.thy ===== *)
theory Codex_Normalize
  imports Bot_Core Codex_Transport
begin

text \<open>
  The translation of Codex notifications and requests into Bot's agent events
  (\<^verbatim>\<open>bot-provider-codex/src/normalize.rs\<close>). Parameters of a message are JSON values of the
  parameter type; a \<open>?\<close> on an option is a bind of the option monad, and a method that changes the
  normalizer returns it beside its result, also when the result is \<open>None\<close>.
\<close>

subsection \<open>Reading values\<close>

definition get_str :: "'v json \<Rightarrow> 'v \<Rightarrow> string \<Rightarrow> str option" where
  "get_str J v k = Option.bind (json_get J v (lit k)) (json_as_str J)"

definition get_u64 :: "'v json \<Rightarrow> 'v \<Rightarrow> string \<Rightarrow> u64 option" where
  "get_u64 J v k = Option.bind (json_get J v (lit k)) (json_as_u64 J)"

definition get_bool :: "'v json \<Rightarrow> 'v \<Rightarrow> string \<Rightarrow> bool option" where
  "get_bool J v k = Option.bind (json_get J v (lit k)) (json_as_bool J)"

definition get_array :: "'v json \<Rightarrow> 'v \<Rightarrow> string \<Rightarrow> 'v list option" where
  "get_array J v k = Option.bind (json_get J v (lit k)) (json_as_array J)"

definition opt_filter :: "('a \<Rightarrow> bool) \<Rightarrow> 'a option \<Rightarrow> 'a option" where
  "opt_filter P x = (case x of Some y \<Rightarrow> if P y then Some y else None | None \<Rightarrow> None)"

definition or_else :: "'a option \<Rightarrow> 'a option \<Rightarrow> 'a option" where
  "or_else x y = (case x of Some z \<Rightarrow> Some z | None \<Rightarrow> y)"

definition unwrap_or :: "'a option \<Rightarrow> 'a \<Rightarrow> 'a" where
  "unwrap_or x d = (case x of Some z \<Rightarrow> z | None \<Rightarrow> d)"

definition result_ok :: "'e + 'a \<Rightarrow> 'a option" where
  "result_ok r = (case r of Inr x \<Rightarrow> Some x | Inl _ \<Rightarrow> None)"

text \<open>The separator `` \<^verbatim>\<open>U+00B7\<close> '' between spaces.\<close>

definition MIDDLE_DOT :: str where
  "MIDDLE_DOT = [32, 183, 32]"

definition parse_turn_value :: "'v json \<Rightarrow> 'v \<Rightarrow> TurnId option" where
  "parse_turn_value J v = do { s \<leftarrow> json_as_str J v; result_ok (TurnId_new s) }"

definition parse_nested_turn_id :: "'v json \<Rightarrow> 'v \<Rightarrow> TurnId option" where
  "parse_nested_turn_id J params =
     do { turn \<leftarrow> json_get J params (lit ''turn''); i \<leftarrow> json_get J turn (lit ''id''); parse_turn_value J i }"

definition parse_turn_id :: "'v json \<Rightarrow> 'v \<Rightarrow> TurnId option" where
  "parse_turn_id J params = do { v \<leftarrow> json_get J params (lit ''turnId''); parse_turn_value J v }"

subsection \<open>Titles and details of tool calls\<close>

definition command_text :: "'v json \<Rightarrow> 'v \<Rightarrow> str option" where
  "command_text J value =
     do { command \<leftarrow> json_get J value (lit ''command'');
          case json_as_str J command of
            Some command \<Rightarrow> if trim command \<noteq> [] then Some command else None
          | None \<Rightarrow>
              do { parts \<leftarrow> json_as_array J command;
                   let command = join (lit '' '') (List.map_filter (json_as_str J) parts);
                   if trim command \<noteq> [] then Some command else None } }"

fun approval_title :: "'v json \<Rightarrow> ApprovalKind \<Rightarrow> 'v \<Rightarrow> str" where
  "approval_title J ApprovalKind.Command params = unwrap_or (command_text J params) (lit ''Run command'')"
| "approval_title J ApprovalKind.FileChange params = lit ''Apply file changes''"
| "approval_title J ApprovalKind.Permission params = lit ''Grant permissions''"
| "approval_title J ApprovalKind.Question params = lit ''Answer agent questions''"
| "approval_title J ApprovalKind.Tool params = lit ''Run tool''"

definition tool_state :: "'v json \<Rightarrow> 'v \<Rightarrow> ToolCallState \<Rightarrow> ToolCallState" where
  "tool_state J item fallback =
     (if get_bool J item ''success'' = Some False then ToolCallState.Failed
      else case get_str J item ''status'' of
             None \<Rightarrow> fallback
           | Some s \<Rightarrow>
               if s \<in> {lit ''inProgress'', lit ''pending''} then ToolCallState.Running
               else if s = lit ''completed'' then ToolCallState.Completed
               else if s \<in> {lit ''interrupted'', lit ''cancelled''} then ToolCallState.Cancelled
               else if s \<in> {lit ''failed'', lit ''declined'', lit ''error''} then ToolCallState.Failed
               else fallback)"

definition completed_tool_state :: "'v json \<Rightarrow> 'v \<Rightarrow> ToolCallState" where
  "completed_tool_state J params =
     (case json_get J params (lit ''item'') of
        None \<Rightarrow> ToolCallState.Completed
      | Some item \<Rightarrow> tool_state J item ToolCallState.Completed)"

definition qualified_tool_name :: "'v json \<Rightarrow> 'v \<Rightarrow> str option" where
  "qualified_tool_name J item =
     do { v \<leftarrow> or_else (json_get J item (lit ''tool'')) (json_get J item (lit ''name''));
          tool \<leftarrow> json_as_str J v;
          Some (case get_str J item ''namespace'' of
                  Some namespace \<Rightarrow> if namespace \<noteq> [] then namespace @ MIDDLE_DOT @ tool else tool
                | None \<Rightarrow> tool) }"

definition json_detail :: "'v json \<Rightarrow> 'v \<Rightarrow> str option" where
  "json_detail J value = opt_filter (\<lambda>s. s \<noteq> lit ''null'') (result_ok (json_to_string J value))"

definition media_output :: "'v json \<Rightarrow> string \<Rightarrow> 'v option \<Rightarrow> str" where
  "media_output J label value =
     (case opt_filter (\<lambda>url. \<not> starts_with url (lit ''data:'')) (Option.bind value (json_as_str J)) of
        Some url \<Rightarrow> lit label @ lit '': '' @ url
      | None \<Rightarrow> lit label)"

definition output_content_item :: "'v json \<Rightarrow> 'v \<Rightarrow> str option" where
  "output_content_item J item =
     do { t \<leftarrow> get_str J item ''type'';
          if t \<in> {lit ''inputText'', lit ''input_text''} then get_str J item ''text''
          else if t \<in> {lit ''inputImage'', lit ''input_image''}
            then Some (media_output J ''Image output''
                        (or_else (json_get J item (lit ''imageUrl'')) (json_get J item (lit ''image_url''))))
          else if t \<in> {lit ''inputAudio'', lit ''input_audio''}
            then Some (media_output J ''Audio output''
                        (or_else (json_get J item (lit ''audioUrl'')) (json_get J item (lit ''audio_url''))))
          else if t = lit ''encrypted_content'' then Some (lit ''Encrypted output'')
          else None }"

definition output_content :: "'v json \<Rightarrow> 'v \<Rightarrow> str option" where
  "output_content J value =
     (case opt_filter (\<lambda>t. t \<noteq> []) (json_as_str J value) of
        Some t \<Rightarrow> Some t
      | None \<Rightarrow>
          do { items \<leftarrow> json_as_array J value;
               let ls = List.map_filter (output_content_item J) items;
               if ls \<noteq> [] then Some (join [10] ls) else None })"

definition hook_prompt_output :: "'v json \<Rightarrow> 'v list \<Rightarrow> str option" where
  "hook_prompt_output J fragments =
     (let t = join [10] (filter (\<lambda>t. t \<noteq> []) (List.map_filter (\<lambda>f. get_str J f ''text'') fragments))
      in if t \<noteq> [] then Some t else None)"

definition file_change_title :: "'v json \<Rightarrow> 'v option \<Rightarrow> str" where
  "file_change_title J changes =
     (let count = (case Option.bind changes (json_as_array J) of Some cs \<Rightarrow> length cs | None \<Rightarrow> 0)
      in if count = 0 then lit ''Edit files''
         else if count = 1 then lit ''Edit 1 file''
         else lit ''Edit '' @ show_nat count @ lit '' files'')"

definition file_change_detail :: "'v json \<Rightarrow> 'v \<Rightarrow> str option" where
  "file_change_detail J changes =
     do { cs \<leftarrow> json_as_array J changes;
          let paths = take 3 (List.map_filter (\<lambda>c. get_str J c ''path'') cs);
          if paths \<noteq> [] then Some (join MIDDLE_DOT paths) else None }"

definition mcp_result_detail :: "'v json \<Rightarrow> 'v \<Rightarrow> str option" where
  "mcp_result_detail J item =
     opt_filter (\<lambda>s. s \<noteq> [])
       (or_else (do { e \<leftarrow> json_get J item (lit ''error''); get_str J e ''message'' })
                (do { r \<leftarrow> json_get J item (lit ''result'');
                      c \<leftarrow> json_get J r (lit ''structuredContent'');
                      get_str J c ''message'' }))"

definition collaboration_title :: "'v json \<Rightarrow> 'v \<Rightarrow> str" where
  "collaboration_title J item =
     (let tool = unwrap_or (or_else (get_str J item ''tool'') (get_str J item ''kind'')) (lit ''activity'')
      in if tool = lit ''spawnAgent'' then lit ''Spawn agent''
         else if tool \<in> {lit ''sendInput'', lit ''sendMessage'', lit ''followupTask''} then lit ''Message agent''
         else if tool = lit ''resumeAgent'' then lit ''Resume agent''
         else if tool = lit ''wait'' then lit ''Wait for agents''
         else if tool = lit ''closeAgent'' then lit ''Close agent''
         else if tool = lit ''interruptAgent'' then lit ''Interrupt agent''
         else if tool = lit ''listAgents'' then lit ''List agents''
         else lit ''Agent activity'')"

definition auto_review_subject :: "'v json \<Rightarrow> 'v option \<Rightarrow> str" where
  "auto_review_subject J action =
     (case Option.bind action (\<lambda>v. get_str J v ''type'') of
        None \<Rightarrow> lit ''an action''
      | Some t \<Rightarrow>
          if t = lit ''command'' then lit ''a command''
          else if t = lit ''execve'' then lit ''a program''
          else if t = lit ''writeStdin'' then lit ''terminal input''
          else if t = lit ''applyPatch'' then lit ''file changes''
          else if t = lit ''networkAccess'' then lit ''network access''
          else if t = lit ''mcpToolCall'' then lit ''an MCP tool''
          else if t = lit ''requestPermissions'' then lit ''permissions''
          else lit ''an action'')"

definition tool_call :: "'v json \<Rightarrow> 'v \<Rightarrow> ToolCallState \<Rightarrow> ToolCall option" where
  "tool_call J item fallback_state =
     do { kind \<leftarrow> get_str J item ''type'';
          let state = tool_state J item fallback_state;
          let duration_ms = get_u64 J item ''durationMs'';
          let output = opt_filter (\<lambda>s. s \<noteq> []) (get_str J item ''aggregatedOutput'');
          let mk = (\<lambda>k title detail out.
             Some \<lparr>call_kind = k, call_title = title, call_detail = detail, call_output = out,
                   call_state = state, call_duration_ms = duration_ms\<rparr>);
          if kind = lit ''commandExecution'' then
            let command = command_text J item
            in mk ToolCallKind.Command (unwrap_or command (lit ''Run command''))
                 (map_option (\<lambda>c. lit ''$ '' @ c) command) output
          else if kind = lit ''fileChange'' then
            mk ToolCallKind.FileChange (file_change_title J (json_get J item (lit ''changes'')))
              (Option.bind (json_get J item (lit ''changes'')) (file_change_detail J)) None
          else if kind = lit ''mcpToolCall'' then
            do { server \<leftarrow> get_str J item ''server'';
                 tool \<leftarrow> get_str J item ''tool'';
                 mk ToolCallKind.Mcp (lit ''Call '' @ server @ MIDDLE_DOT @ tool) (mcp_result_detail J item) None }
          else if kind = lit ''dynamicToolCall'' then
            do { name \<leftarrow> qualified_tool_name J item;
                 mk ToolCallKind.Other (lit ''Run '' @ name)
                   (Option.bind (json_get J item (lit ''arguments'')) (json_detail J))
                   (Option.bind (json_get J item (lit ''contentItems'')) (output_content J)) }
          else if kind = lit ''functionCallOutput'' then
            do { name \<leftarrow> qualified_tool_name J item;
                 mk ToolCallKind.Other (lit ''Receive output from '' @ name) None
                   (Option.bind (json_get J item (lit ''output'')) (output_content J)) }
          else if kind = lit ''hookPrompt'' then
            do { fragments \<leftarrow> get_array J item ''fragments'';
                 mk ToolCallKind.Other (lit ''Apply hook context'')
                   (Some (if length fragments = 1 then lit ''1 context fragment''
                          else show_nat (length fragments) @ lit '' context fragments''))
                   (hook_prompt_output J fragments) }
          else if kind = lit ''webSearch'' then
            mk ToolCallKind.WebSearch (lit ''Search the web'')
              (opt_filter (\<lambda>s. s \<noteq> []) (get_str J item ''query'')) None
          else if kind = lit ''imageGeneration'' then
            mk ToolCallKind.Image (lit ''Generate image'')
              (opt_filter (\<lambda>s. s \<noteq> []) (get_str J item ''revisedPrompt'')) None
          else if kind = lit ''imageView'' then
            mk ToolCallKind.Image (lit ''View image'') (get_str J item ''path'') None
          else if kind \<in> {lit ''collabAgentToolCall'', lit ''subAgentActivity''} then
            mk ToolCallKind.Collaboration (collaboration_title J item)
              (opt_filter (\<lambda>s. s \<noteq> []) (get_str J item ''prompt'')) None
          else if kind = lit ''sleep'' then
            mk ToolCallKind.Wait (lit ''Wait'')
              (map_option (\<lambda>d. show_nat (unat d) @ lit '' ms'') (get_u64 J item ''durationMs'')) None
          else if kind = lit ''enteredReviewMode'' then
            mk ToolCallKind.Other (lit ''Enter review mode'') (get_str J item ''review'') None
          else if kind = lit ''exitedReviewMode'' then
            mk ToolCallKind.Other (lit ''Finish review'') (get_str J item ''review'') None
          else if kind = lit ''contextCompaction'' then
            mk ToolCallKind.Other (lit ''Compact context'') None None
          else None }"

definition historical_tool_call :: "'v json \<Rightarrow> 'v \<Rightarrow> ToolCall option" where
  "historical_tool_call J item = tool_call J item ToolCallState.Completed"

subsection \<open>Bounded output\<close>

text \<open>\<open>str::is_char_boundary\<close> at a byte offset, and the text from a byte offset that is one.\<close>

fun is_char_boundary :: "str \<Rightarrow> nat \<Rightarrow> bool" where
  "is_char_boundary [] i \<longleftrightarrow> i = 0"
| "is_char_boundary (c # s) i \<longleftrightarrow> i = 0 \<or> len_utf8 c \<le> i \<and> is_char_boundary s (i - len_utf8 c)"

fun drop_bytes :: "str \<Rightarrow> nat \<Rightarrow> str" where
  "drop_bytes [] i = []"
| "drop_bytes (c # s) i = (if i = 0 then c # s else drop_bytes s (i - len_utf8 c))"

text \<open>
  The loop that moves the cut to a character boundary. The end of the string is a boundary, so the
  loop never runs past it; the second guard only makes the recursion total.
\<close>

function seek_boundary :: "str \<Rightarrow> nat \<Rightarrow> nat" where
  "seek_boundary s start =
     (if is_char_boundary s start \<or> str_len s < start then start else seek_boundary s (start + 1))"
  by pat_completeness auto
termination
  by (relation "measure (\<lambda>(s, start). str_len s + 1 - start)") auto

declare seek_boundary.simps [simp del]

definition append_tail :: "str option \<Rightarrow> str \<Rightarrow> nat \<Rightarrow> str option" where
  "append_tail output delta maximum =
     (let out = unwrap_or output [] @ delta
      in if str_len out \<le> maximum then Some out
         else Some (drop_bytes out (seek_boundary out (str_len out - maximum))))"


subsection \<open>The normalizer\<close>

record CodexEventNormalizer =
  norm_session :: SessionId
  next_event_id :: u64
  tool_calls :: "str \<rightharpoonup> ToolCall"

definition normalizer_new :: "SessionId \<Rightarrow> CodexEventNormalizer" where
  "normalizer_new sid = \<lparr>norm_session = sid, next_event_id = 1, tool_calls = Map.empty\<rparr>"

definition event_id :: "CodexEventNormalizer \<Rightarrow> EventId option \<times> CodexEventNormalizer" where
  "event_id n =
     (let sequence = next_event_id n
      in case checked_add (next_event_id n) 1 of
           None \<Rightarrow> (None, n)
         | Some m \<Rightarrow>
             (result_ok (EventId_new (SessionId_as_str (norm_session n) @ lit '':codex:'' @ show_nat (unat sequence))),
              n\<lparr>next_event_id := m\<rparr>))"

definition raw_item_event_id :: "CodexEventNormalizer \<Rightarrow> str \<Rightarrow> EventId option" where
  "raw_item_event_id n item_id =
     result_ok (EventId_new (SessionId_as_str (norm_session n) @ lit '':codex:item:'' @ item_id))"

definition item_event_id :: "'v json \<Rightarrow> CodexEventNormalizer \<Rightarrow> 'v \<Rightarrow> EventId option" where
  "item_event_id J n item = do { item_id \<leftarrow> get_str J item ''id''; raw_item_event_id n item_id }"

definition warning :: "CodexEventNormalizer \<Rightarrow> str \<Rightarrow> AgentEvent" where
  "warning n message = Warning (norm_session n) message"

definition provider_event :: "'v json \<Rightarrow> CodexEventNormalizer \<Rightarrow> ProviderEventKind \<Rightarrow> str \<Rightarrow> 'v \<Rightarrow> AgentEvent" where
  "provider_event J n kind name params =
     ProviderEvent (norm_session n) kind name
       (case json_to_string J params of Inr payload \<Rightarrow> payload | Inl e \<Rightarrow> e)"

definition turn_started :: "'v json \<Rightarrow> CodexEventNormalizer \<Rightarrow> 'v \<Rightarrow> AgentEvent option" where
  "turn_started J n params = do { t \<leftarrow> parse_nested_turn_id J params; Some (TurnStarted (norm_session n) t) }"

definition turn_completed :: "'v json \<Rightarrow> CodexEventNormalizer \<Rightarrow> 'v \<Rightarrow> AgentEvent option" where
  "turn_completed J n params =
     do { turn \<leftarrow> json_get J params (lit ''turn'');
          status \<leftarrow> get_str J turn ''status'';
          let outcome = (if status = lit ''completed'' then TurnOutcome.Completed
                         else if status = lit ''failed'' then TurnOutcome.Failed
                         else if status = lit ''interrupted'' then TurnOutcome.Interrupted
                         else TurnOutcome.Unknown status);
          i \<leftarrow> json_get J turn (lit ''id'');
          t \<leftarrow> parse_turn_value J i;
          Some (TurnCompleted (norm_session n) t outcome) }"

text \<open>A method that draws an event id before it reads anything else.\<close>

definition with_event_id ::
    "CodexEventNormalizer \<Rightarrow> (EventId \<Rightarrow> 'a option) \<Rightarrow> 'a option \<times> CodexEventNormalizer" where
  "with_event_id n f = (case event_id n of (i, n') \<Rightarrow> (Option.bind i f, n'))"

definition text_delta :: "'v json \<Rightarrow> CodexEventNormalizer \<Rightarrow> 'v \<Rightarrow> bool \<Rightarrow> AgentEvent option \<times> CodexEventNormalizer" where
  "text_delta J n params reasoning =
     with_event_id n (\<lambda>i.
       do { turn_id \<leftarrow> parse_turn_id J params;
            t \<leftarrow> get_str J params ''delta'';
            Some (if reasoning then ReasoningSummaryDelta i (norm_session n) turn_id t
                  else AgentTextDelta i (norm_session n) turn_id t) })"

definition reasoning_status :: "'v json \<Rightarrow> CodexEventNormalizer \<Rightarrow> 'v \<Rightarrow> str \<Rightarrow> AgentEvent option \<times> CodexEventNormalizer" where
  "reasoning_status J n params t =
     with_event_id n (\<lambda>i.
       do { turn_id \<leftarrow> parse_turn_id J params;
            Some (ReasoningSummaryDelta i (norm_session n) turn_id t) })"

definition summary_part_added :: "'v json \<Rightarrow> CodexEventNormalizer \<Rightarrow> 'v \<Rightarrow> AgentEvent option \<times> CodexEventNormalizer" where
  "summary_part_added J n params =
     (case get_u64 J params ''summaryIndex'' of
        None \<Rightarrow> (None, n)
      | Some i \<Rightarrow> if i = 0 then (None, n) else reasoning_status J n params [10, 10])"

definition auto_review_status :: "'v json \<Rightarrow> CodexEventNormalizer \<Rightarrow> 'v \<Rightarrow> bool \<Rightarrow> AgentEvent option \<times> CodexEventNormalizer" where
  "auto_review_status J n params completed =
     (let subject = auto_review_subject J (json_get J params (lit ''action''))
      in if completed
         then case do { review \<leftarrow> json_get J params (lit ''review''); get_str J review ''status'' } of
                None \<Rightarrow> (None, n)
              | Some status \<Rightarrow>
                  reasoning_status J n params
                    (lit ''Codex safety review for '' @ subject @ lit '': ''
                      @ (if status = lit ''timedOut'' then lit ''timed out''
                         else if status = lit ''inProgress'' then lit ''in progress'' else status)
                      @ lit ''.'' @ [10])
         else reasoning_status J n params (lit ''Codex is reviewing '' @ subject @ lit ''.'' @ [10]))"

definition model_safety_status :: "'v json \<Rightarrow> CodexEventNormalizer \<Rightarrow> 'v \<Rightarrow> AgentEvent option \<times> CodexEventNormalizer" where
  "model_safety_status J n params =
     (if get_bool J params ''showBufferingUi'' \<noteq> Some True then (None, n)
      else reasoning_status J n params (lit ''Codex is checking safe model routing.'' @ [10]))"

definition tool_changed ::
    "'v json \<Rightarrow> CodexEventNormalizer \<Rightarrow> 'v \<Rightarrow> ToolCallState \<Rightarrow> AgentEvent option \<times> CodexEventNormalizer" where
  "tool_changed J n params state =
     (case do { item \<leftarrow> json_get J params (lit ''item'');
                item_id \<leftarrow> get_str J item ''id'';
                call \<leftarrow> tool_call J item state;
                Some (item, item_id, call) } of
        None \<Rightarrow> (None, n)
      | Some (item, item_id, call) \<Rightarrow>
          let call = (case tool_calls n item_id of
                        None \<Rightarrow> call
                      | Some previous \<Rightarrow>
                          call\<lparr>call_detail := or_else (call_detail call) (call_detail previous),
                               call_output := or_else (call_output call) (call_output previous)\<rparr>);
              n' = n\<lparr>tool_calls := (tool_calls n)(item_id \<mapsto> call)\<rparr>
          in (do { i \<leftarrow> item_event_id J n' item;
                   turn_id \<leftarrow> parse_turn_id J params;
                   Some (ToolCallChanged i (norm_session n') turn_id call) }, n'))"

definition item_lifecycle ::
    "'v json \<Rightarrow> CodexEventNormalizer \<Rightarrow> str \<Rightarrow> 'v \<Rightarrow> ToolCallState \<Rightarrow> AgentEvent list \<times> CodexEventNormalizer" where
  "item_lifecycle J n meth params state =
     (case json_get J params (lit ''item'') of
        None \<Rightarrow> ([provider_event J n ProviderEventKind.Notification meth params], n)
      | Some item \<Rightarrow>
          if get_str J item ''type'' \<in> Some ` {lit ''userMessage'', lit ''agentMessage'', lit ''plan'', lit ''reasoning''}
          then ([], n)
          else case tool_changed J n params state of
                 (None, n') \<Rightarrow> ([provider_event J n' ProviderEventKind.Notification meth params], n')
               | (Some e, n') \<Rightarrow> ([e], n'))"

text \<open>The common end of the methods that change a stored call and report it.\<close>

definition report_call ::
    "'v json \<Rightarrow> CodexEventNormalizer \<Rightarrow> 'v \<Rightarrow> str \<Rightarrow> ToolCall \<Rightarrow> AgentEvent option \<times> CodexEventNormalizer" where
  "report_call J n params item_id call =
     (let n' = n\<lparr>tool_calls := (tool_calls n)(item_id \<mapsto> call)\<rparr>
      in (do { i \<leftarrow> raw_item_event_id n' item_id;
               turn_id \<leftarrow> parse_turn_id J params;
               Some (ToolCallChanged i (norm_session n') turn_id call) }, n'))"

definition tool_output :: "'v json \<Rightarrow> CodexEventNormalizer \<Rightarrow> 'v \<Rightarrow> AgentEvent option \<times> CodexEventNormalizer" where
  "tool_output J n params =
     (case do { item_id \<leftarrow> get_str J params ''itemId'';
                delta \<leftarrow> get_str J params ''delta'';
                call \<leftarrow> tool_calls n item_id;
                Some (item_id, delta, call) } of
        None \<Rightarrow> (None, n)
      | Some (item_id, delta, call) \<Rightarrow>
          report_call J n params item_id (call\<lparr>call_output := append_tail (call_output call) delta 32768\<rparr>))"

definition file_change_updated :: "'v json \<Rightarrow> CodexEventNormalizer \<Rightarrow> 'v \<Rightarrow> AgentEvent option \<times> CodexEventNormalizer" where
  "file_change_updated J n params =
     (case do { item_id \<leftarrow> get_str J params ''itemId'';
                changes \<leftarrow> json_get J params (lit ''changes'');
                call \<leftarrow> tool_calls n item_id;
                Some (item_id, changes, call) } of
        None \<Rightarrow> (None, n)
      | Some (item_id, changes, call) \<Rightarrow>
          report_call J n params item_id (call\<lparr>call_detail := file_change_detail J changes\<rparr>))"

definition terminal_interaction :: "'v json \<Rightarrow> CodexEventNormalizer \<Rightarrow> 'v \<Rightarrow> AgentEvent option \<times> CodexEventNormalizer" where
  "terminal_interaction J n params =
     (case do { item_id \<leftarrow> get_str J params ''itemId'';
                stdin \<leftarrow> get_str J params ''stdin'';
                call \<leftarrow> tool_calls n item_id;
                Some (item_id, stdin, call) } of
        None \<Rightarrow> (None, n)
      | Some (item_id, stdin, call) \<Rightarrow>
          let t = concat (map (\<lambda>line. lit ''> '' @ line @ [10]) (lines stdin))
          in report_call J n params item_id (call\<lparr>call_output := append_tail (call_output call) t 32768\<rparr>))"

definition tool_progress :: "'v json \<Rightarrow> CodexEventNormalizer \<Rightarrow> 'v \<Rightarrow> AgentEvent option \<times> CodexEventNormalizer" where
  "tool_progress J n params =
     (case do { item_id \<leftarrow> get_str J params ''itemId'';
                message \<leftarrow> get_str J params ''message'';
                call \<leftarrow> tool_calls n item_id;
                Some (item_id, trim message, call) } of
        None \<Rightarrow> (None, n)
      | Some (item_id, message, call) \<Rightarrow>
          report_call J n params item_id (if message \<noteq> [] then call\<lparr>call_detail := Some message\<rparr> else call))"

definition normalizer_message :: "'v json \<Rightarrow> CodexEventNormalizer \<Rightarrow> 'v \<Rightarrow> bool \<Rightarrow> AgentEvent option" where
  "normalizer_message J n params error' =
     do { message \<leftarrow>
            or_else (get_str J params ''message'')
              (or_else (do { e \<leftarrow> json_get J params (lit ''error''); get_str J e ''message'' })
                       (get_str J params ''summary''));
          let detail = opt_filter (\<lambda>d. trim d \<noteq> [])
            (or_else (get_str J params ''details'')
                     (do { e \<leftarrow> json_get J params (lit ''error''); get_str J e ''additionalDetails'' }));
          let message = (case detail of Some d \<Rightarrow> message @ lit '': '' @ d | None \<Rightarrow> message);
          Some (if error' \<and> get_bool J params ''willRetry'' = Some True
                then warning n (message @ lit '' Codex will retry.'')
                else if error' then Error (norm_session n) message
                else warning n message) }"

definition model_rerouted :: "'v json \<Rightarrow> CodexEventNormalizer \<Rightarrow> 'v \<Rightarrow> AgentEvent option" where
  "model_rerouted J n params =
     do { src \<leftarrow> get_str J params ''fromModel'';
          dst \<leftarrow> get_str J params ''toModel'';
          Some (warning n (lit ''Codex changed the model from '' @ src @ lit '' to '' @ dst @ lit ''.'')) }"

definition mcp_oauth_completed :: "'v json \<Rightarrow> CodexEventNormalizer \<Rightarrow> 'v \<Rightarrow> AgentEvent option" where
  "mcp_oauth_completed J n params =
     (if get_bool J params ''success'' \<noteq> Some False then None
      else let server = unwrap_or (get_str J params ''name'') (lit ''MCP server'');
               err = unwrap_or (opt_filter (\<lambda>v. trim v \<noteq> []) (get_str J params ''error'')) (lit ''Login failed'')
           in Some (warning n (server @ lit '': '' @ err)))"

text \<open>The reported total, or the saturating sum of input and output when it is absent.\<close>

definition total_or_sum :: "'v json \<Rightarrow> 'v \<Rightarrow> u64" where
  "total_or_sum J v =
     unwrap_or (get_u64 J v ''totalTokens'')
       (saturating_add (unwrap_or (get_u64 J v ''inputTokens'') 0) (unwrap_or (get_u64 J v ''outputTokens'') 0))"

definition usage_changed :: "'v json \<Rightarrow> CodexEventNormalizer \<Rightarrow> 'v \<Rightarrow> AgentEvent option" where
  "usage_changed J n params =
     do { usage \<leftarrow> json_get J params (lit ''tokenUsage'');
          total \<leftarrow> json_get J usage (lit ''total'');
          recent \<leftarrow> json_get J usage (lit ''last'');
          inp \<leftarrow> get_u64 J total ''inputTokens'';
          out \<leftarrow> get_u64 J total ''outputTokens'';
          Some (UsageChanged (norm_session n)
            \<lparr>input_tokens = inp,
             cached_input_tokens = unwrap_or (get_u64 J total ''cachedInputTokens'') 0,
             output_tokens = out,
             reasoning_output_tokens = unwrap_or (get_u64 J total ''reasoningOutputTokens'') 0,
             total_tokens = total_or_sum J total,
             context_tokens = total_or_sum J recent,
             context_window = get_u64 J usage ''modelContextWindow''\<rparr>) }"

text \<open>\<open>event.into_iter().collect()\<close> on an optional event, with and without a change of state.\<close>

definition collected :: "AgentEvent option \<times> CodexEventNormalizer \<Rightarrow> AgentEvent list \<times> CodexEventNormalizer" where
  "collected r = (case r of (e, n) \<Rightarrow> (case e of None \<Rightarrow> [] | Some x \<Rightarrow> [x], n))"

definition normalize_notification ::
    "'v json \<Rightarrow> CodexEventNormalizer \<Rightarrow> 'v ServerNotification \<Rightarrow> AgentEvent list \<times> CodexEventNormalizer" where
  "normalize_notification J n m =
     (let meth = notification_method m; params = notification_params m
      in if meth = lit ''turn/started'' then collected (turn_started J n params, n)
         else if meth = lit ''turn/completed'' then collected (turn_completed J n params, n)
         else if meth \<in> {lit ''item/agentMessage/delta'', lit ''item/plan/delta''}
           then collected (text_delta J n params False)
         else if meth = lit ''item/reasoning/textDelta'' then ([], n)
         else if meth = lit ''item/reasoning/summaryTextDelta'' then collected (text_delta J n params True)
         else if meth = lit ''item/reasoning/summaryPartAdded'' then collected (summary_part_added J n params)
         else if meth = lit ''item/autoApprovalReview/started'' then collected (auto_review_status J n params False)
         else if meth = lit ''item/autoApprovalReview/completed'' then collected (auto_review_status J n params True)
         else if meth = lit ''autoApprovalReview/strictReviewRequired''
           then collected (reasoning_status J n params (lit ''Codex started a strict safety review.'' @ [10]))
         else if meth = lit ''item/started'' then item_lifecycle J n meth params ToolCallState.Running
         else if meth = lit ''item/completed'' then item_lifecycle J n meth params (completed_tool_state J params)
         else if meth = lit ''item/commandExecution/outputDelta'' then collected (tool_output J n params)
         else if meth = lit ''item/commandExecution/terminalInteraction'' then collected (terminal_interaction J n params)
         else if meth = lit ''item/fileChange/outputDelta'' then collected (tool_output J n params)
         else if meth = lit ''item/fileChange/patchUpdated'' then collected (file_change_updated J n params)
         else if meth = lit ''item/mcpToolCall/progress'' then collected (tool_progress J n params)
         else if meth = lit ''thread/tokenUsage/updated'' then collected (usage_changed J n params, n)
         else if meth \<in> {lit ''warning'', lit ''guardianWarning'', lit ''configWarning'', lit ''deprecationNotice''}
           then collected (normalizer_message J n params False, n)
         else if meth = lit ''model/rerouted'' then collected (model_rerouted J n params, n)
         else if meth = lit ''model/safetyBuffering/updated'' then collected (model_safety_status J n params)
         else if meth = lit ''model/verification''
           then collected (reasoning_status J n params (lit ''Codex is verifying model access.'' @ [10]))
         else if meth = lit ''mcpServer/oauthLogin/completed'' then collected (mcp_oauth_completed J n params, n)
         else if meth = lit ''error'' then collected (normalizer_message J n params True, n)
         else ([provider_event J n ProviderEventKind.Notification meth params], n))"

definition normalize_request ::
    "'v json \<Rightarrow> CodexEventNormalizer \<Rightarrow> 'v ServerRequest \<Rightarrow> AgentEvent list \<times> CodexEventNormalizer" where
  "normalize_request J n r =
     (let meth = request_method r; params = request_params r
      in case (if meth = lit ''item/commandExecution/requestApproval'' then Some ApprovalKind.Command
               else if meth = lit ''item/fileChange/requestApproval'' then Some ApprovalKind.FileChange
               else if meth = lit ''item/permissions/requestApproval'' then Some ApprovalKind.Permission
               else if meth = lit ''item/tool/requestUserInput'' then Some ApprovalKind.Question
               else None) of
           None \<Rightarrow> ([provider_event J n ProviderEventKind.Request meth params], n)
         | Some kind \<Rightarrow>
             (case parse_turn_id J params of
                None \<Rightarrow> ([warning n (lit ''Codex sent an incomplete '' @ meth @ lit '' request.'')], n)
              | Some turn_id \<Rightarrow>
                  (case event_id n of
                     (None, n') \<Rightarrow> ([warning n' (lit ''The event ID sequence is exhausted.'')], n')
                   | (Some i, n') \<Rightarrow>
                       ([ApprovalRequested i (norm_session n') turn_id (approval_title J kind params) kind], n'))))"

definition normalize ::
    "'v json \<Rightarrow> CodexEventNormalizer \<Rightarrow> 'v CodexEvent \<Rightarrow> AgentEvent list \<times> CodexEventNormalizer" where
  "normalize J n e =
     (case e of
        CodexEvent.Notification m \<Rightarrow> normalize_notification J n m
      | CodexEvent.Request r \<Rightarrow> normalize_request J n r
      | UnmatchedResponse r \<Rightarrow>
          ([warning n (lit ''Codex returned a response for unknown request '' @ RequestId_display (response_id r) @ lit ''.'')], n)
      | ConnectionClosed message \<Rightarrow> ([Error (norm_session n) message], n))"


subsection \<open>Bounded output keeps the longest tail\<close>

lemma is_char_boundary_iff: "is_char_boundary s i \<longleftrightarrow> (\<exists>k \<le> length s. i = str_len (take k s))"
proof (induction s arbitrary: i)
  case (Cons c s)
  have "(\<exists>k \<le> length (c # s). i = str_len (take k (c # s))) \<longleftrightarrow>
      i = 0 \<or> (\<exists>k \<le> length s. i = len_utf8 c + str_len (take k s))"
    by (metis (no_types, lifting) Suc_le_mono bot_nat_0.extremum length_Cons not0_implies_Suc str_len_simps(1,2)
        take0 take_Suc_Cons)
  moreover have "(len_utf8 c \<le> i \<and> is_char_boundary s (i - len_utf8 c)) \<longleftrightarrow>
      (\<exists>k \<le> length s. i = len_utf8 c + str_len (take k s))"
    unfolding Cons.IH by (metis diff_add_inverse le_add1 le_add_diff_inverse)
  ultimately show ?case by simp
qed simp

lemma drop_bytes_take: "k \<le> length s \<Longrightarrow> drop_bytes s (str_len (take k s)) = drop k s"
proof (induction s arbitrary: k)
  case (Cons c s)
  then show ?case by (cases k) auto
qed simp

lemma seek_boundary_spec:
  assumes "start \<le> str_len s"
  shows "is_char_boundary s (seek_boundary s start) \<and> start \<le> seek_boundary s start \<and>
    (\<forall>i. start \<le> i \<longrightarrow> i < seek_boundary s start \<longrightarrow> \<not> is_char_boundary s i)"
  using assms
proof (induction s start rule: seek_boundary.induct)
  case (1 s start)
  have last: "is_char_boundary s (str_len s)"
    unfolding is_char_boundary_iff by (intro exI [of _ "length s"]) simp
  show ?case
  proof (cases "is_char_boundary s start")
    case True
    then have "seek_boundary s start = start" by (subst seek_boundary.simps) simp
    with True show ?thesis by simp
  next
    case False
    with last "1.prems" have lt: "start < str_len s" by (metis le_neq_implies_less)
    with False have step: "seek_boundary s start = seek_boundary s (start + 1)"
      by (subst seek_boundary.simps) simp
    from False lt "1.IH" have "is_char_boundary s (seek_boundary s (start + 1))"
      "start + 1 \<le> seek_boundary s (start + 1)"
      "\<forall>i. start + 1 \<le> i \<longrightarrow> i < seek_boundary s (start + 1) \<longrightarrow> \<not> is_char_boundary s i"
      by auto
    with False show ?thesis
      unfolding step by (metis Suc_eq_plus1 Suc_leD Suc_leI le_neq_implies_less)
  qed
qed

lemma next_boundary_near: "start \<le> str_len s \<Longrightarrow> \<exists>i. start \<le> i \<and> i < start + 4 \<and> is_char_boundary s i"
proof (induction s arbitrary: start)
  case (Cons c s)
  show ?case
  proof (cases "start \<le> len_utf8 c")
    case True
    have "is_char_boundary (c # s) (len_utf8 c)" by (cases s) simp_all
    moreover have "is_char_boundary (c # s) 0" by simp
    ultimately show ?thesis
      using True len_utf8_le4 [of c] by (cases "start = 0") (force, intro exI [of _ "len_utf8 c"], simp)
  next
    case False
    with Cons.prems Cons.IH [of "start - len_utf8 c"]
    obtain i where "start - len_utf8 c \<le> i" "i < start - len_utf8 c + 4" "is_char_boundary s i"
      by (auto simp: le_diff_conv add.commute)
    with False show ?thesis by (intro exI [of _ "i + len_utf8 c"]) auto
  qed
qed auto

lemma suffix_boundary:
  assumes "suffix t s"
  shows "is_char_boundary s (str_len s - str_len t) \<and> str_len t \<le> str_len s"
proof -
  obtain p where "s = p @ t" using assms by (auto simp: suffix_def)
  then show ?thesis
    by (auto simp: is_char_boundary_iff intro!: exI [of _ "length p"])
qed

text \<open>
  The output kept for a tool call is the longest possible tail. Appending a piece gives a tail
  of the old output and the piece that fits the bound, cut at a character boundary; everything is
  kept if it fits, otherwise at most three bytes of the bound stay unused and no longer tail fits.
\<close>

theorem append_tail_longest:
  "\<exists>t. append_tail out delta m = Some t \<and>
     suffix t (unwrap_or out [] @ delta) \<and> str_len t \<le> m \<and>
     (if str_len (unwrap_or out [] @ delta) \<le> m then t = unwrap_or out [] @ delta else m < str_len t + 4) \<and>
     \<not> (\<exists>u. suffix u (unwrap_or out [] @ delta) \<and> str_len u \<le> m \<and> str_len t < str_len u)"
proof (cases "str_len (unwrap_or out [] @ delta) \<le> m")
  case True
  then show ?thesis
    using suffix_boundary by (fastforce simp: append_tail_def)
next
  case False
  define w where "w = unwrap_or out [] @ delta"
  define i where "i = seek_boundary w (str_len w - m)"
  have spec: "is_char_boundary w i" "str_len w - m \<le> i"
    "\<And>j. str_len w - m \<le> j \<Longrightarrow> j < i \<Longrightarrow> \<not> is_char_boundary w j"
    using seek_boundary_spec [of "str_len w - m" w] by (auto simp: i_def)
  then obtain k where k: "k \<le> length w" "i = str_len (take k w)"
    by (auto simp: is_char_boundary_iff)
  have t: "append_tail out delta m = Some (drop k w)"
    using False k by (simp add: append_tail_def w_def [symmetric] i_def [symmetric] drop_bytes_take)
  have len: "str_len w = i + str_len (drop k w)"
    by (metis append_take_drop_id k(2) str_len_simps(3))
  have near: "i < str_len w - m + 4"
    using next_boundary_near [of "str_len w - m" w] spec(3) by (meson diff_le_self linorder_not_less order_less_le_trans)
  have "\<not> (\<exists>u. suffix u w \<and> str_len u \<le> m \<and> str_len (drop k w) < str_len u)"
  proof
    assume "\<exists>u. suffix u w \<and> str_len u \<le> m \<and> str_len (drop k w) < str_len u"
    then obtain u where u: "suffix u w" "str_len u \<le> m" "str_len (drop k w) < str_len u" by blast
    have "str_len w - m \<le> str_len w - str_len u" "str_len w - str_len u < i"
      using u suffix_boundary [OF u(1)] len by linarith+
    from spec(3) [OF this] suffix_boundary [OF u(1)] show False by blast
  qed
  moreover have "suffix (drop k w) w" by (rule suffix_drop)
  moreover have "str_len (drop k w) \<le> m" "m < str_len (drop k w) + 4"
    using len spec(2) near False by (simp_all add: w_def [symmetric])
  ultimately show ?thesis
    using t False by (auto simp: w_def [symmetric])
qed


subsection \<open>What one message may do\<close>

fun event_session :: "AgentEvent \<Rightarrow> SessionId" where
  "event_session (TurnStarted s _) = s"
| "event_session (TurnCompleted s _ _) = s"
| "event_session (UserMessage _ s _ _) = s"
| "event_session (AgentTextDelta _ s _ _) = s"
| "event_session (ReasoningSummaryDelta _ s _ _) = s"
| "event_session (ToolCallChanged _ s _ _) = s"
| "event_session (ApprovalRequested _ s _ _ _) = s"
| "event_session (ApprovalResolved _ s _) = s"
| "event_session (UsageChanged s _) = s"
| "event_session (ProviderEvent s _ _ _) = s"
| "event_session (Warning s _) = s"
| "event_session (Error s _) = s"

text \<open>The identifiers drawn from the sequence, and those named after an item.\<close>

fun sequence_id :: "AgentEvent \<Rightarrow> EventId option" where
  "sequence_id (AgentTextDelta i _ _ _) = Some i"
| "sequence_id (ReasoningSummaryDelta i _ _ _) = Some i"
| "sequence_id (ApprovalRequested i _ _ _ _) = Some i"
| "sequence_id _ = None"

fun item_id :: "AgentEvent \<Rightarrow> EventId option" where
  "item_id (ToolCallChanged i _ _ _) = Some i"
| "item_id _ = None"

definition numbered :: "SessionId \<Rightarrow> nat \<Rightarrow> EventId" where
  "numbered sid k = EventId (SessionId_as_str sid @ lit '':codex:'' @ show_nat k)"

definition item_named :: "SessionId \<Rightarrow> str \<Rightarrow> EventId" where
  "item_named sid x = EventId (SessionId_as_str sid @ lit '':codex:item:'' @ x)"

definition calls_kept :: "(str \<rightharpoonup> ToolCall) \<Rightarrow> (str \<rightharpoonup> ToolCall) \<Rightarrow> bool" where
  "calls_kept m m' \<longleftrightarrow>
     (\<forall>x c. m x = Some c \<longrightarrow> (\<exists>c'. m' x = Some c' \<and> (call_output c \<noteq> None \<longrightarrow> call_output c' \<noteq> None)))"

text \<open>
  The contract of every handler: at most one event, of the normalizer's session; an event with a
  sequence number uses the current one and moves the counter on; tool events carry an item's name;
  stored calls stay, with their output.
\<close>

definition handler_ok :: "CodexEventNormalizer \<Rightarrow> AgentEvent list \<times> CodexEventNormalizer \<Rightarrow> bool" where
  "handler_ok n r \<longleftrightarrow>
     (case r of (evs, n') \<Rightarrow>
        norm_session n' = norm_session n \<and> length evs \<le> 1 \<and>
        (\<forall>e \<in> set evs. event_session e = norm_session n \<and>
           (\<forall>i. item_id e = Some i \<longrightarrow> (\<exists>x. i = item_named (norm_session n) x)) \<and>
           (\<forall>i. sequence_id e = Some i \<longrightarrow> i = numbered (norm_session n) (unat (next_event_id n)) \<and>
                                           unat (next_event_id n') = Suc (unat (next_event_id n)))) \<and>
        unat (next_event_id n) \<le> unat (next_event_id n') \<and>
        calls_kept (tool_calls n) (tool_calls n'))"

named_theorems handlers "every handler satisfies the contract"

lemma calls_kept_refl [simp]: "calls_kept m m"
  by (auto simp: calls_kept_def)

lemma calls_kept_update:
  "(\<And>c'. m x = Some c' \<Longrightarrow> call_output c' \<noteq> None \<Longrightarrow> call_output c \<noteq> None) \<Longrightarrow> calls_kept m (m(x \<mapsto> c))"
  by (auto simp: calls_kept_def)

lemma handler_ok_pure:
  assumes "\<And>e. r = Some e \<Longrightarrow> event_session e = norm_session n \<and> sequence_id e = None \<and> item_id e = None"
  shows "handler_ok n (collected (r, n))"
  using assms by (cases r) (auto simp: handler_ok_def collected_def)

lemma handler_ok_single:
  "event_session e = norm_session n \<Longrightarrow> sequence_id e = None \<Longrightarrow> item_id e = None \<Longrightarrow> handler_ok n ([e], n)"
  by (simp add: handler_ok_def)

lemma not_blank: "\<exists>c \<in> set s. \<not> is_whitespace c \<Longrightarrow> trim s \<noteq> []"
  by (simp add: trim_eq_Nil_iff)

lemma event_id_cases:
  "event_id n = (None, n) \<and> unat (next_event_id n) = 2 ^ 64 - 1 \<or>
   (\<exists>n'. event_id n = (Some (numbered (norm_session n) (unat (next_event_id n))), n') \<and>
      norm_session n' = norm_session n \<and> tool_calls n' = tool_calls n \<and>
      unat (next_event_id n') = Suc (unat (next_event_id n)))"
proof (cases "unat (next_event_id n) + 1 < 2 ^ 64")
  case True
  have "trim (SessionId_as_str (norm_session n) @ lit '':codex:'' @ show_nat (unat (next_event_id n))) \<noteq> []"
    by (rule not_blank) (simp add: is_whitespace_def)
  moreover have "unat (next_event_id n + 1) = Suc (unat (next_event_id n))"
    using True by (simp add: unat_word_ariths)
  ultimately show ?thesis
    using True by (simp add: event_id_def checked_add_def EventId_new_def string_id_new_def result_ok_def
        numbered_def Let_def)
next
  case False
  then show ?thesis
    using unat_u64_less [of "next_event_id n"] unfolding event_id_def checked_add_def Let_def
    by (simp del: unat_u64_less)
qed

lemma handler_ok_with_event_id:
  assumes "\<And>i e. f i = Some e \<Longrightarrow> event_session e = norm_session n \<and> sequence_id e = Some i \<and> item_id e = None"
  shows "handler_ok n (collected (with_event_id n f))"
  using event_id_cases [of n]
proof (elim disjE exE conjE)
  fix n'
  assume n': "event_id n = (Some (numbered (norm_session n) (unat (next_event_id n))), n')"
    "norm_session n' = norm_session n" "tool_calls n' = tool_calls n"
    "unat (next_event_id n') = Suc (unat (next_event_id n))"
  then show ?thesis
    using assms [of "numbered (norm_session n) (unat (next_event_id n))"]
    by (cases "f (numbered (norm_session n) (unat (next_event_id n)))")
      (auto simp: with_event_id_def collected_def handler_ok_def)
next
  assume "event_id n = (None, n)"
  then show ?thesis by (simp add: with_event_id_def collected_def handler_ok_def)
qed

lemma raw_item_event_id_eq: "raw_item_event_id n x = Some (item_named (norm_session n) x)"
proof -
  have "trim (SessionId_as_str (norm_session n) @ lit '':codex:item:'' @ x) \<noteq> []"
    by (rule not_blank) (simp add: is_whitespace_def)
  then show ?thesis
    by (simp add: raw_item_event_id_def EventId_new_def string_id_new_def result_ok_def item_named_def)
qed

lemma handler_ok_report:
  assumes "\<And>c'. tool_calls n x = Some c' \<Longrightarrow> call_output c' \<noteq> None \<Longrightarrow> call_output c \<noteq> None"
  shows "handler_ok n (collected (report_call J n params x c))"
  using calls_kept_update [of "tool_calls n" x c] assms
  by (auto simp: report_call_def raw_item_event_id_eq handler_ok_def collected_def Let_def bind_eq_Some_conv
      split: option.split)

lemma append_tail_Some [simp]: "\<exists>t. append_tail out d m = Some t"
  by (simp add: append_tail_def Let_def)

lemma text_delta_ok [handlers]: "handler_ok n (collected (text_delta J n params b))"
  unfolding text_delta_def by (rule handler_ok_with_event_id) (auto simp: bind_eq_Some_conv)

lemma reasoning_status_ok [handlers]: "handler_ok n (collected (reasoning_status J n params t))"
  unfolding reasoning_status_def by (rule handler_ok_with_event_id) (auto simp: bind_eq_Some_conv)

lemma handler_ok_none [handlers]: "handler_ok n (collected (None, n))" "handler_ok n ([], n)"
  by (simp_all add: handler_ok_def collected_def)

lemma derived_status_ok [handlers]:
  "handler_ok n (collected (summary_part_added J n params))"
  "handler_ok n (collected (auto_review_status J n params b))"
  "handler_ok n (collected (model_safety_status J n params))"
  by (auto simp: summary_part_added_def auto_review_status_def model_safety_status_def handlers Let_def
      simp del: lit_Cons split: option.split)

lemma pure_handlers_ok [handlers]:
  "handler_ok n (collected (turn_started J n params, n))"
  "handler_ok n (collected (turn_completed J n params, n))"
  "handler_ok n (collected (usage_changed J n params, n))"
  "handler_ok n (collected (normalizer_message J n params b, n))"
  "handler_ok n (collected (model_rerouted J n params, n))"
  "handler_ok n (collected (mcp_oauth_completed J n params, n))"
  by (rule handler_ok_pure,
      auto simp: turn_started_def turn_completed_def usage_changed_def normalizer_message_def model_rerouted_def
        mcp_oauth_completed_def warning_def Let_def bind_eq_Some_conv simp del: lit_Cons split: if_splits)+

lemma provider_event_ok [handlers]: "handler_ok n ([provider_event J n k meth params], n)"
  by (rule handler_ok_single) (simp_all add: provider_event_def)

lemma warning_ok [handlers]: "handler_ok n ([warning n t], n)"
  by (rule handler_ok_single) (simp_all add: warning_def)

lemma stored_call_handlers_ok [handlers]:
  "handler_ok n (collected (tool_output J n params))"
  "handler_ok n (collected (terminal_interaction J n params))"
  "handler_ok n (collected (file_change_updated J n params))"
  "handler_ok n (collected (tool_progress J n params))"
  by (auto simp: tool_output_def terminal_interaction_def file_change_updated_def tool_progress_def handlers
      Let_def bind_eq_Some_conv simp del: lit_Cons split: option.split intro!: handler_ok_report)


lemma or_else_None [simp]: "or_else x y = None \<longleftrightarrow> x = None \<and> y = None"
  by (auto simp: or_else_def split: option.splits)

lemma tool_changed_ok [handlers]: "handler_ok n (collected (tool_changed J n params st))"
proof (cases "do { item \<leftarrow> json_get J params (lit ''item''); x \<leftarrow> get_str J item ''id'';
    call \<leftarrow> tool_call J item st; Some (item, x, call) }")
  case None
  then show ?thesis by (simp add: tool_changed_def handlers del: lit_Cons)
next
  case (Some r)
  obtain item x call where r: "r = (item, x, call)" by (cases r)
  define call' where "call' = (case tool_calls n x of None \<Rightarrow> call
    | Some previous \<Rightarrow> call\<lparr>call_detail := or_else (call_detail call) (call_detail previous),
                            call_output := or_else (call_output call) (call_output previous)\<rparr>)"
  have "get_str J item ''id'' = Some x"
    using Some by (auto simp: r bind_eq_Some_conv)
  then have "tool_changed J n params st = report_call J n params x call'"
    using Some by (simp add: r tool_changed_def report_call_def item_event_id_def call'_def Let_def del: lit_Cons)
  moreover have "handler_ok n (collected (report_call J n params x call'))"
    by (rule handler_ok_report) (auto simp: call'_def)
  ultimately show ?thesis by simp
qed

lemma item_lifecycle_ok [handlers]: "handler_ok n (item_lifecycle J n meth params st)"
proof -
  obtain e n' where r: "tool_changed J n params st = (e, n')" by (cases "tool_changed J n params st")
  have "handler_ok n (collected (e, n'))" using tool_changed_ok [of n J params st] by (simp add: r)
  then have "handler_ok n (case (e, n') of (None, n') \<Rightarrow> ([provider_event J n' k meth params], n') | (Some e, n') \<Rightarrow> ([e], n'))" for k
    by (cases e) (auto simp: handler_ok_def collected_def provider_event_def)
  then show ?thesis
    by (auto simp: item_lifecycle_def r handlers simp del: lit_Cons split: option.split)
qed

lemma handler_ok_if: "handler_ok n a \<Longrightarrow> handler_ok n b \<Longrightarrow> handler_ok n (if c then a else b)"
  by simp

lemma normalize_notification_ok: "handler_ok n (normalize_notification J n m)"
  unfolding normalize_notification_def Let_def by (intro handler_ok_if handlers)

lemma normalize_request_ok: "handler_ok n (normalize_request J n r)"
proof -
  have "handler_ok n (case event_id n of (None, n') \<Rightarrow> ([warning n' t], n')
      | (Some i, n') \<Rightarrow> ([ApprovalRequested i (norm_session n') turn title kind], n'))" for t turn title kind
    using event_id_cases [of n] warning_ok [of n t] by (auto simp: handler_ok_def)
  then show ?thesis
    by (auto simp: normalize_request_def Let_def handlers simp del: lit_Cons split: option.split)
qed

lemma normalize_ok: "handler_ok n (normalize J n e)"
  by (cases e) (auto simp: normalize_def normalize_notification_ok normalize_request_ok handlers
      simp del: lit_Cons intro: handler_ok_single)

subsection \<open>Whole streams\<close>

fun normalize_all ::
    "'v json \<Rightarrow> CodexEventNormalizer \<Rightarrow> 'v CodexEvent list \<Rightarrow> AgentEvent list \<times> CodexEventNormalizer" where
  "normalize_all J n [] = ([], n)"
| "normalize_all J n (e # es) =
     (case normalize J n e of (evs, n') \<Rightarrow>
        (case normalize_all J n' es of (evs', n'') \<Rightarrow> (evs @ evs', n'')))"

definition stream_ok :: "CodexEventNormalizer \<Rightarrow> AgentEvent list \<Rightarrow> CodexEventNormalizer \<Rightarrow> bool" where
  "stream_ok n evs n' \<longleftrightarrow>
     norm_session n' = norm_session n \<and> unat (next_event_id n) \<le> unat (next_event_id n') \<and>
     calls_kept (tool_calls n) (tool_calls n') \<and>
     set (map event_session evs) \<subseteq> {norm_session n} \<and>
     set (List.map_filter item_id evs) \<subseteq> range (item_named (norm_session n)) \<and>
     (\<exists>ks. List.map_filter sequence_id evs = map (numbered (norm_session n)) ks \<and> sorted_wrt (<) ks \<and>
        set ks \<subseteq> {unat (next_event_id n)..<unat (next_event_id n')})"

lemma handler_ok_stream:
  assumes "handler_ok n (evs, n')"
  shows "stream_ok n evs n'"
proof (cases evs)
  case Nil
  with assms show ?thesis by (auto simp: handler_ok_def stream_ok_def List.map_filter_def)
next
  case (Cons e rest)
  with assms have "evs = [e]" by (simp add: handler_ok_def)
  with assms show ?thesis
    by (cases "sequence_id e"; cases "item_id e")
      (auto simp: handler_ok_def stream_ok_def List.map_filter_def
        intro!: exI [of _ "[unat (next_event_id n)]"])
qed

lemma calls_kept_trans: "calls_kept a b \<Longrightarrow> calls_kept b c \<Longrightarrow> calls_kept a c"
  unfolding calls_kept_def by metis

lemma map_filter_append: "List.map_filter f (xs @ ys) = List.map_filter f xs @ List.map_filter f ys"
  by (simp add: List.map_filter_def)

lemma stream_ok_trans:
  assumes "stream_ok n evs n'" and "stream_ok n' evs' n''"
  shows "stream_ok n (evs @ evs') n''"
proof -
  obtain ks where ks: "List.map_filter sequence_id evs = map (numbered (norm_session n)) ks" "sorted_wrt (<) ks"
    "set ks \<subseteq> {unat (next_event_id n)..<unat (next_event_id n')}"
    using assms(1) by (auto simp: stream_ok_def)
  obtain ks' where ks': "List.map_filter sequence_id evs' = map (numbered (norm_session n)) ks'" "sorted_wrt (<) ks'"
    "set ks' \<subseteq> {unat (next_event_id n')..<unat (next_event_id n'')}"
    using assms by (auto simp: stream_ok_def)
  have "sorted_wrt (<) (ks @ ks')"
    using ks ks' by (fastforce simp: sorted_wrt_append)
  moreover have "set (ks @ ks') \<subseteq> {unat (next_event_id n)..<unat (next_event_id n'')}"
    using ks ks' assms by (fastforce simp: stream_ok_def)
  moreover have "List.map_filter sequence_id (evs @ evs') = map (numbered (norm_session n)) (ks @ ks')"
    by (simp add: map_filter_append ks ks')
  ultimately have "\<exists>ks. List.map_filter sequence_id (evs @ evs') = map (numbered (norm_session n)) ks \<and> sorted_wrt (<) ks \<and>
      set ks \<subseteq> {unat (next_event_id n)..<unat (next_event_id n'')}"
    by blast
  moreover have "calls_kept (tool_calls n) (tool_calls n'')"
    using assms by (auto simp: stream_ok_def intro: calls_kept_trans)
  ultimately show ?thesis
    using assms by (simp add: stream_ok_def map_filter_append image_Un)
qed

lemma normalize_all_ok: "normalize_all J n es = (evs, n') \<Longrightarrow> stream_ok n evs n' \<and> length evs \<le> length es"
proof (induction es arbitrary: n evs)
  case Nil
  then show ?case using handler_ok_stream [OF handler_ok_none(2)] by auto
next
  case (Cons e es)
  obtain evs1 n1 where 1: "normalize J n e = (evs1, n1)" by (cases "normalize J n e")
  obtain evs2 where 2: "normalize_all J n1 es = (evs2, n')" and evs: "evs = evs1 @ evs2"
    using Cons.prems 1 by (auto split: prod.splits)
  have "handler_ok n (evs1, n1)" using normalize_ok [of n J e] by (simp add: 1)
  then have "stream_ok n evs1 n1" "length evs1 \<le> 1"
    by (rule handler_ok_stream) (use \<open>handler_ok n (evs1, n1)\<close> in \<open>simp add: handler_ok_def\<close>)
  with Cons.IH [OF 2] show ?case
    by (auto simp: evs intro: stream_ok_trans)
qed

lemma numbered_inject [simp]: "numbered s k = numbered s k' \<longleftrightarrow> k = k'"
  by (simp add: numbered_def)

lemma numbered_not_item: "numbered s k \<noteq> item_named s x"
proof
  assume "numbered s k = item_named s x"
  then have "show_nat k = lit ''item:'' @ x"
    by (simp add: numbered_def item_named_def)
  then have "105 \<in> set (show_nat k)" by simp
  then show False
    by (auto simp: show_nat_def dest!: digits_of_less [rotated])
qed

lemma sorted_wrt_less_distinct: "sorted_wrt (<) ks \<Longrightarrow> distinct (ks :: nat list)"
  by (simp add: strict_sorted_iff)

text \<open>
  C21: Event identifiers are never reused. Over a whole stream of Codex events, whatever they contain,
  each input gives at most one event, every event belongs to the normalizer's session, the identifiers
  of text, reasoning and approval events are pairwise distinct, and none of them equals an
  identifier of a tool event.
\<close>

theorem normalizer_event_ids:
  "case normalize_all J (normalizer_new sid) es of (evs, n) \<Rightarrow>
     length evs \<le> length es \<and> set (map event_session evs) \<subseteq> {sid} \<and>
     distinct (List.map_filter sequence_id evs) \<and>
     set (List.map_filter sequence_id evs) \<inter> set (List.map_filter item_id evs) = {}"
proof -
  obtain evs n where r: "normalize_all J (normalizer_new sid) es = (evs, n)"
    by (cases "normalize_all J (normalizer_new sid) es")
  note ok = normalize_all_ok [OF r]
  then obtain ks where ks: "List.map_filter sequence_id evs = map (numbered sid) ks" "sorted_wrt (<) ks"
    by (auto simp: stream_ok_def normalizer_new_def)
  have "distinct (map (numbered sid) ks)"
    using ks(2) by (simp add: distinct_map inj_on_def sorted_wrt_less_distinct)
  moreover have "set (map (numbered sid) ks) \<inter> set (List.map_filter item_id evs) = {}"
    using ok numbered_not_item by (fastforce simp: stream_ok_def normalizer_new_def)
  moreover have "set (map event_session evs) \<subseteq> {sid}"
    using ok by (simp add: stream_ok_def normalizer_new_def)
  ultimately show ?thesis
    using ok by (simp add: r ks(1))
qed

text \<open>
  A tool call is never forgotten. Once a call is stored under an item, every later stream of
  Codex events leaves a call stored under that item, and a call that has output keeps output.
\<close>

theorem tool_calls_persist:
  assumes "tool_calls n x = Some c"
  shows "\<exists>c'. tool_calls (snd (normalize_all J n es)) x = Some c' \<and> (call_output c = None \<or> call_output c' \<noteq> None)"
proof -
  obtain evs n' where r: "normalize_all J n es = (evs, n')" by (cases "normalize_all J n es")
  then have "calls_kept (tool_calls n) (tool_calls n')"
    using normalize_all_ok [OF r] by (simp add: stream_ok_def)
  with assms show ?thesis
    unfolding calls_kept_def r snd_conv by meson
qed

theorem tool_calls_persist_witness:
  "let c = \<lparr>call_kind = ToolCallKind.Command, call_title = lit ''ls'', call_detail = None,
            call_output = Some (lit ''a''), call_state = ToolCallState.Running, call_duration_ms = None\<rparr>;
       n = (normalizer_new (SessionId (lit ''s'')))\<lparr>tool_calls := [lit ''x'' \<mapsto> c]\<rparr>;
       e = CodexEvent.Notification
             \<lparr>notification_method = lit ''item/commandExecution/outputDelta'',
              notification_params = SObj [(lit ''itemId'', SStr (lit ''x'')), (lit ''delta'', SStr (lit ''b''))]\<rparr>
   in \<exists>c'. tool_calls (snd (normalize_all sample_json n [e])) (lit ''x'') = Some c' \<and> call_output c' \<noteq> None"
proof -
  define c where "c = \<lparr>call_kind = ToolCallKind.Command, call_title = lit ''ls'', call_detail = None,
            call_output = Some (lit ''a''), call_state = ToolCallState.Running, call_duration_ms = None\<rparr>"
  have out: "call_output c = Some (lit ''a'')" by (simp add: c_def)
  show ?thesis
    unfolding Let_def c_def [symmetric]
    using out tool_calls_persist [of "(normalizer_new (SessionId (lit ''s'')))\<lparr>tool_calls := [lit ''x'' \<mapsto> c]\<rparr>"
        "lit ''x''" c sample_json]
    by (auto simp del: lit_Cons normalize_all.simps)
qed

text \<open>
  Requests of the server are never dropped. Every request gives exactly one event: an approval of
  the kind its method asks for when it names a turn and an identifier is left, a warning when it is an
  approval without one of them, and otherwise the unknown request itself, with its method and payload.
\<close>

theorem requests_surface:
  "\<exists>e n'. normalize J n (CodexEvent.Request r) = ([e], n') \<and>
     (case e of
        ApprovalRequested i s t title kind \<Rightarrow>
          s = norm_session n \<and> parse_turn_id J (request_params r) = Some t \<and> title = approval_title J kind (request_params r) \<and>
          (request_method r, kind) \<in>
            {(lit ''item/commandExecution/requestApproval'', ApprovalKind.Command),
             (lit ''item/fileChange/requestApproval'', ApprovalKind.FileChange),
             (lit ''item/permissions/requestApproval'', ApprovalKind.Permission),
             (lit ''item/tool/requestUserInput'', ApprovalKind.Question)}
      | Warning s _ \<Rightarrow>
          s = norm_session n \<and> (parse_turn_id J (request_params r) = None \<or> unat (next_event_id n) = 2 ^ 64 - 1) \<and>
          request_method r \<in> {lit ''item/commandExecution/requestApproval'', lit ''item/fileChange/requestApproval'',
            lit ''item/permissions/requestApproval'', lit ''item/tool/requestUserInput''}
      | ProviderEvent s k name payload \<Rightarrow>
          s = norm_session n \<and> k = ProviderEventKind.Request \<and> name = request_method r \<and>
          payload = (case json_to_string J (request_params r) of Inr p \<Rightarrow> p | Inl err \<Rightarrow> err) \<and>
          request_method r \<notin> {lit ''item/commandExecution/requestApproval'', lit ''item/fileChange/requestApproval'',
            lit ''item/permissions/requestApproval'', lit ''item/tool/requestUserInput''}
      | _ \<Rightarrow> False)"
  using event_id_cases [of n]
  by (auto simp: normalize_def normalize_request_def Let_def warning_def provider_event_def
      simp del: lit_Cons split: option.split)

end
