(* ===== verification/Rust_Utf8.thy ===== *)
theory Rust_Utf8
  imports Rust_Str
begin

text \<open>
  \<open>String::from_utf8\<close>: the shortest encodings of scalar values, one after another. Decoding the bytes of
  a string gives the string.
\<close>

definition utf8_width :: "nat \<Rightarrow> nat" where
  "utf8_width b = (if b < 128 then 1 else if b < 224 then 2 else if b < 240 then 3 else 4)"

definition utf8_scalar :: "nat list \<Rightarrow> nat" where
  "utf8_scalar bs =
     foldl (\<lambda>c b. c * 64 + (b - 128))
       (let b = hd bs in if b < 128 then b else if b < 224 then b - 192 else if b < 240 then b - 224 else b - 240)
       (tl bs)"

definition scalar_value :: "nat \<Rightarrow> bool" where
  "scalar_value c \<longleftrightarrow> c < 1114112 \<and> \<not> (55296 \<le> c \<and> c < 57344)"

fun utf8_decode :: "nat \<Rightarrow> nat list \<Rightarrow> str option" where
  "utf8_decode _ [] = Some []"
| "utf8_decode 0 (b # bs) = None"
| "utf8_decode (Suc n) (b # bs) =
     (let k = utf8_width b; c = utf8_scalar (take k (b # bs))
      in if utf8_char c = take k (b # bs) \<and> scalar_value c
         then map_option (\<lambda>s. c # s) (utf8_decode n (drop k (b # bs))) else None)"

definition from_utf8 :: "nat list \<Rightarrow> str option" where
  "from_utf8 bs = utf8_decode (length bs) bs"

lemma utf8_decode_ascii: "\<forall>b \<in> set bs. b < 128 \<Longrightarrow> length bs \<le> n \<Longrightarrow> utf8_decode n bs = Some bs"
proof (induction bs arbitrary: n)
  case (Cons b bs)
  then show ?case by (cases n) (auto simp: utf8_width_def utf8_scalar_def utf8_char_def scalar_value_def)
qed simp

lemma base64_digits: "(n :: nat) div 64 * 64 + n mod 64 = n"
  by (rule div_mult_mod_eq)

lemma utf8_scalar_char: "c < 1114112 \<Longrightarrow> utf8_scalar (utf8_char c) = c"
  using base64_digits [of c] base64_digits [of "c div 64"] base64_digits [of "c div 4096"]
  by (auto simp: utf8_scalar_def utf8_char_def Let_def div_mult2_eq [symmetric] less_mult_imp_div_less)

lemma utf8_width_char: "c < 1114112 \<Longrightarrow> utf8_width (hd (utf8_char c)) = length (utf8_char c)"
  by (auto simp: utf8_width_def utf8_char_def less_mult_imp_div_less)

lemma utf8_char_not_Nil [simp]: "utf8_char c \<noteq> []"
  by (simp add: utf8_char_def)

lemma utf8_decode_bytes:
  "list_all scalar_value s \<Longrightarrow> length (utf8_bytes s) \<le> n \<Longrightarrow> utf8_decode n (utf8_bytes s) = Some s"
proof (induction s arbitrary: n)
  case (Cons c s)
  obtain b bs where b: "utf8_char c = b # bs" by (cases "utf8_char c") simp_all
  obtain m where n: "n = Suc m" using Cons.prems b by (cases n) auto
  have c: "c < 1114112" using Cons.prems by (simp add: scalar_value_def)
  have k: "utf8_width b = length (b # bs)" using utf8_width_char [OF c] b by simp
  have "utf8_decode m (utf8_bytes s) = Some s" using Cons b n by simp
  then show ?case using Cons.prems b n k utf8_scalar_char [OF c] by (simp add: Let_def)
qed simp

lemma from_utf8_bytes: "list_all scalar_value s \<Longrightarrow> from_utf8 (utf8_bytes s) = Some s"
  by (simp add: from_utf8_def utf8_decode_bytes)

end
