(* ===== verification/Bot_Update.thy ===== *)
theory Bot_Update
  imports Rust_Num Rust_Utf8
begin

text \<open>
  The self-update of Bot (\<^verbatim>\<open>bot-update/src/lib.rs\<close>): choosing a release, downloading and
  verifying it, and replacing the installed program. The network, the hash function, the archive
  formats, semantic versions and the staged program's own behaviour come from outside the repository:
  they are the fields of \<open>update_env\<close>. The file system is a map from paths (component lists) to
  contents; \<open>fault\<close> decides which of its calls fail. A file owned by a live \<open>TempDir\<close> or
  \<open>NamedTempFile\<close> is in \<open>temp_paths\<close> and is deleted when the guards are dropped. File modes are
  not tracked.
\<close>

type_synonym path = "str list"
type_synonym bytes = "nat list"

subsection \<open>Data\<close>

definition DEFAULT_REPOSITORY :: str where "DEFAULT_REPOSITORY = lit ''woosal1337/bot''"
definition GITHUB_API :: str where "GITHUB_API = lit ''https://api.github.com''"
definition MAX_ARCHIVE_BYTES :: u64 where "MAX_ARCHIVE_BYTES = 512 * 1024 * 1024"
definition MAX_CHECKSUM_BYTES :: u64 where "MAX_CHECKSUM_BYTES = 1024 * 1024"

datatype UpdateMode = Check | Install

datatype 'ver UpdateOutcome =
    Current 'ver
  | LocalNewer 'ver 'ver
  | Available 'ver 'ver
  | Updated 'ver 'ver
  | Staged 'ver 'ver

datatype 'ver UpdateError =
    InvalidCurrentVersion str
  | InvalidReleaseVersion str
  | UnsupportedPlatform str
  | UnstableRelease
  | MissingAsset str
  | MissingAssetDigest str
  | AssetTooLarge str u64
  | AssetSizeMismatch str u64 u64
  | AssetDigestMismatch str
  | MissingChecksum str
  | ChecksumMismatch str
  | MissingBinary str
  | StagedVersionMismatch 'ver 'ver
  | UpdateLocked
  | Network str
  | Io str
  | Zip str
  | Json str
  | Persist str
  | PathPersist str
  | StagedBinary str
  | InvalidStagedVersion
  | WindowsHelper str

record ReleaseAsset =
  asset_name :: str
  asset_url :: str
  asset_size :: u64
  asset_digest :: "str option"

record ReleaseResponse =
  tag_name :: str
  draft :: bool
  prerelease :: bool
  assets :: "ReleaseAsset list"

datatype ArchiveFormat = TarGz | Zip

record Platform =
  platform_target :: str
  platform_format :: ArchiveFormat

record 'ver Release =
  release_version :: 'ver
  release_archive :: ReleaseAsset
  release_checksums :: ReleaseAsset

subsection \<open>The world\<close>

datatype io_call =
    CurrentExe | OpenLock path | TryLock path | MakeTempDir | CreateFile path | WriteChunk path nat
  | SyncFile path | ReadFile path | OpenArchive path | MakeStaged path | WriteStaged path | FlushStaged path
  | SetPermissions path | SyncStaged path | PersistStaged path path | SyncDirectory path | KeepStaged path
  | SpawnHelper path path

record tar_entry =
  tar_path :: "str + str"
  tar_is_file :: bool
  tar_contents :: "str + bytes"

record zip_entry =
  zip_is_file :: bool
  zip_contents :: "str + bytes"

record 'ver update_env =
  semver_parse :: "str \<Rightarrow> 'ver option"
  semver_less :: "'ver \<Rightarrow> 'ver \<Rightarrow> bool"
  semver_show :: "'ver \<Rightarrow> str"
  env_repository :: "str option"
  env_os :: str
  env_arch :: str
  http_client :: "str + unit"
  http_release :: "str \<Rightarrow> str + ReleaseResponse"
  http_stream :: "str \<Rightarrow> str + (str + bytes) list"
  sha256_hex :: "bytes \<Rightarrow> str"
  current_exe :: path
  temp_dir :: path
  staged_name :: str
  tar_entries :: "bytes \<Rightarrow> str + (str + tar_entry) list"
  zip_archive :: "bytes \<Rightarrow> str + (str \<Rightarrow> zip_entry option)"
  run_version :: "bytes \<Rightarrow> str + (bool \<times> bytes)"
  version_json :: "bytes \<Rightarrow> str + str"
  fault :: "io_call \<Rightarrow> str option"

record update_world =
  files :: "path \<rightharpoonup> bytes"
  temp_paths :: "path set"
  helper :: "(path \<times> path) option"

text \<open>A fallible operation on the world, and sequencing by \<open>?\<close>.\<close>

type_synonym ('ver, 'a) upd = "update_world \<Rightarrow> ('ver UpdateError + 'a) \<times> update_world"

definition return :: "'a \<Rightarrow> ('ver, 'a) upd" where
  "return x w = (Inr x, w)"

definition fail :: "'ver UpdateError \<Rightarrow> ('ver, 'a) upd" where
  "fail e w = (Inl e, w)"

definition andthen :: "('ver, 'a) upd \<Rightarrow> ('a \<Rightarrow> ('ver, 'b) upd) \<Rightarrow> ('ver, 'b) upd" where
  "andthen m f w = (case m w of (Inl e, w') \<Rightarrow> (Inl e, w') | (Inr x, w') \<Rightarrow> f x w')"

definition of_result :: "('e \<Rightarrow> 'ver UpdateError) \<Rightarrow> 'e + 'a \<Rightarrow> ('ver, 'a) upd" where
  "of_result err r = (case r of Inl e \<Rightarrow> fail (err e) | Inr x \<Rightarrow> return x)"

definition of_option :: "'ver UpdateError \<Rightarrow> 'a option \<Rightarrow> ('ver, 'a) upd" where
  "of_option err r = (case r of None \<Rightarrow> fail err | Some x \<Rightarrow> return x)"

definition io :: "'ver update_env \<Rightarrow> io_call \<Rightarrow> (str \<Rightarrow> 'ver UpdateError) \<Rightarrow>
    (update_world \<Rightarrow> update_world) \<Rightarrow> ('ver, unit) upd" where
  "io E call err eff w = (case fault E call of Some e \<Rightarrow> (Inl (err e), w) | None \<Rightarrow> (Inr (), eff w))"

definition set_file :: "path \<Rightarrow> bytes \<Rightarrow> update_world \<Rightarrow> update_world" where
  "set_file p b w = w\<lparr>files := (files w)(p \<mapsto> b)\<rparr>"

definition read_file :: "'ver update_env \<Rightarrow> io_call \<Rightarrow> path \<Rightarrow> ('ver, bytes) upd" where
  "read_file E call p w =
     (case fault E call of
        Some e \<Rightarrow> (Inl (Io e), w)
      | None \<Rightarrow> (case files w p of None \<Rightarrow> (Inl (Io (lit ''No such file or directory'')), w) | Some b \<Rightarrow> (Inr b, w)))"

text \<open>Dropping the guards of the temporary files.\<close>

definition drop_temps :: "update_world \<Rightarrow> update_world" where
  "drop_temps w = w\<lparr>files := (\<lambda>p. if p \<in> temp_paths w then None else files w p), temp_paths := {}\<rparr>"

subsection \<open>Platforms and versions\<close>

definition from_parts :: "str \<Rightarrow> str \<Rightarrow> 'ver UpdateError + Platform" where
  "from_parts os arch =
     (if arch \<notin> {lit ''x86_64'', lit ''aarch64''} then Inl (UnsupportedPlatform (os @ lit ''/'' @ arch))
      else if os = lit ''linux''
        then Inr \<lparr>platform_target = arch @ lit ''-'' @ lit ''unknown-linux-gnu'', platform_format = TarGz\<rparr>
      else if os = lit ''macos''
        then Inr \<lparr>platform_target = arch @ lit ''-'' @ lit ''apple-darwin'', platform_format = TarGz\<rparr>
      else if os = lit ''windows'' \<and> arch = lit ''x86_64''
        then Inr \<lparr>platform_target = arch @ lit ''-'' @ lit ''pc-windows-msvc'', platform_format = ArchiveFormat.Zip\<rparr>
      else Inl (UnsupportedPlatform (os @ lit ''/'' @ arch)))"

definition archive_name :: "Platform \<Rightarrow> str" where
  "archive_name p =
     lit ''bot-'' @ platform_target p @ lit ''.'' @
     (case platform_format p of TarGz \<Rightarrow> lit ''tar.gz'' | ArchiveFormat.Zip \<Rightarrow> lit ''zip'')"

definition binary_entry :: "Platform \<Rightarrow> str" where
  "binary_entry p =
     lit ''bot-'' @ platform_target p @ lit ''/bot'' @ (if platform_format p = ArchiveFormat.Zip then lit ''.exe'' else [])"

definition parse_version :: "'ver update_env \<Rightarrow> str \<Rightarrow> 'ver option" where
  "parse_version E value =
     (case split_whitespace (trim_start_matches 118 (trim value)) of
        [] \<Rightarrow> None
      | v # _ \<Rightarrow> semver_parse E v)"

fun UpdateOutcome_message :: "'ver update_env \<Rightarrow> 'ver UpdateOutcome \<Rightarrow> str" where
  "UpdateOutcome_message E (Current version) = lit ''Bot '' @ semver_show E version @ lit '' is current.''"
| "UpdateOutcome_message E (LocalNewer current latest) =
     lit ''Bot '' @ semver_show E current @ lit '' is newer than the latest published release, ''
       @ semver_show E latest @ lit ''. No update was installed.''"
| "UpdateOutcome_message E (Available current latest) =
     lit ''Bot '' @ semver_show E latest @ lit '' is available. You have '' @ semver_show E current
       @ lit ''. Run `bot update`.''"
| "UpdateOutcome_message E (Updated previous current) =
     lit ''Updated Bot from '' @ semver_show E previous @ lit '' to '' @ semver_show E current
       @ lit ''. Existing Bot sessions keep '' @ semver_show E previous @ lit '' until they restart.''"
| "UpdateOutcome_message E (Staged previous current) =
     lit ''Staged Bot '' @ semver_show E current @ lit '' over '' @ semver_show E previous
       @ lit ''. The update will finish after this command exits.''"

subsection \<open>Choosing a release\<close>

definition resolve_release ::
    "'ver update_env \<Rightarrow> ReleaseResponse \<Rightarrow> Platform \<Rightarrow> 'ver UpdateError + 'ver Release" where
  "resolve_release E response platform =
     (if draft response \<or> prerelease response then Inl UnstableRelease
      else case semver_parse E (trim_start_matches 118 (tag_name response)) of
        None \<Rightarrow> Inl (InvalidReleaseVersion (tag_name response))
      | Some version \<Rightarrow>
          (case List.find (\<lambda>a. asset_name a = archive_name platform) (assets response) of
             None \<Rightarrow> Inl (MissingAsset (archive_name platform))
           | Some archive \<Rightarrow>
               (case List.find (\<lambda>a. asset_name a = lit ''SHA256SUMS'') (assets response) of
                  None \<Rightarrow> Inl (MissingAsset (lit ''SHA256SUMS''))
                | Some checksums \<Rightarrow>
                    Inr \<lparr>release_version = version, release_archive = archive, release_checksums = checksums\<rparr>)))"

definition fetch_release ::
    "'ver update_env \<Rightarrow> str \<Rightarrow> Platform \<Rightarrow> 'ver UpdateError + 'ver Release" where
  "fetch_release E repository platform =
     (case http_release E (GITHUB_API @ lit ''/repos/'' @ repository @ lit ''/releases/latest'') of
        Inl e \<Rightarrow> Inl (Network e)
      | Inr response \<Rightarrow> resolve_release E response platform)"

subsection \<open>Download and verification\<close>

fun download_loop ::
    "'ver update_env \<Rightarrow> ReleaseAsset \<Rightarrow> path \<Rightarrow> u64 \<Rightarrow> nat \<Rightarrow> u64 \<Rightarrow> bytes \<Rightarrow> (str + bytes) list \<Rightarrow>
     ('ver, u64 \<times> bytes) upd" where
  "download_loop E asset dest maximum i sz hashed [] = return (sz, hashed)"
| "download_loop E asset dest maximum i sz hashed (Inl e # chunks) = fail (Network e)"
| "download_loop E asset dest maximum i sz hashed (Inr chunk # chunks) =
     (let sz' = saturating_add sz (word_of_nat (length chunk))
      in if maximum < sz' then fail (AssetTooLarge (asset_name asset) sz')
         else andthen (io E (WriteChunk dest i) Io (\<lambda>w. set_file dest (the (files w dest) @ chunk) w))
           (\<lambda>_. download_loop E asset dest maximum (Suc i) sz' (hashed @ chunk) chunks))"

definition download_asset ::
    "'ver update_env \<Rightarrow> ReleaseAsset \<Rightarrow> path \<Rightarrow> u64 \<Rightarrow> ('ver, str) upd" where
  "download_asset E asset dest maximum =
     (if maximum < asset_size asset then fail (AssetTooLarge (asset_name asset) (asset_size asset))
      else andthen (of_result Network (http_stream E (asset_url asset))) (\<lambda>chunks.
        andthen (io E (CreateFile dest) Io (set_file dest [])) (\<lambda>_.
        andthen (download_loop E asset dest maximum 0 0 [] chunks) (\<lambda>(sz, hashed).
        andthen (io E (SyncFile dest) Io id) (\<lambda>_.
          if sz \<noteq> asset_size asset then fail (AssetSizeMismatch (asset_name asset) (asset_size asset) sz)
          else return (sha256_hex E hashed))))))"

definition verify_api_digest :: "ReleaseAsset \<Rightarrow> str \<Rightarrow> 'ver UpdateError + unit" where
  "verify_api_digest asset actual =
     (case Option.bind (asset_digest asset) (\<lambda>d. strip_prefix d (lit ''sha256:'')) of
        None \<Rightarrow> Inl (MissingAssetDigest (asset_name asset))
      | Some expected \<Rightarrow>
          if \<not> eq_ignore_ascii_case expected actual then Inl (AssetDigestMismatch (asset_name asset)) else Inr ())"

definition checksum_line :: "str \<Rightarrow> str \<Rightarrow> str option" where
  "checksum_line name line =
     (case split_whitespace line of
        digest # file_name # rest \<Rightarrow>
          if trim_start_matches 42 file_name = name \<and> rest = [] then Some digest else None
      | _ \<Rightarrow> None)"

fun first_checksum :: "str \<Rightarrow> str list \<Rightarrow> str option" where
  "first_checksum name [] = None"
| "first_checksum name (l # ls) = (case checksum_line name l of Some d \<Rightarrow> Some d | None \<Rightarrow> first_checksum name ls)"

definition checksum_for :: "str \<Rightarrow> str \<Rightarrow> str option" where
  "checksum_for contents name = first_checksum name (lines contents)"

subsection \<open>Staging\<close>

text \<open>\<open>Path::components\<close>, with the root and a leading dot as components.\<close>

definition path_components :: "str \<Rightarrow> str list" where
  "path_components p =
     (if starts_with p (lit ''/'') then [lit ''/''] else []) @
     (case split_char 47 p of
        [] \<Rightarrow> []
      | c # cs \<Rightarrow> (if c = [] then [] else [c]) @ filter (\<lambda>c. c \<noteq> [] \<and> c \<noteq> lit ''.'') cs)"

fun find_tar_entry :: "str \<Rightarrow> (str + tar_entry) list \<Rightarrow> str + bytes option" where
  "find_tar_entry expected [] = Inr None"
| "find_tar_entry expected (Inl e # es) = Inl e"
| "find_tar_entry expected (Inr entry # es) =
     (case tar_path entry of
        Inl e \<Rightarrow> Inl e
      | Inr p \<Rightarrow>
          if path_components p = path_components expected \<and> tar_is_file entry
          then case tar_contents entry of Inl e \<Rightarrow> Inl e | Inr b \<Rightarrow> Inr (Some b)
          else find_tar_entry expected es)"

definition archive_binary ::
    "'ver update_env \<Rightarrow> Platform \<Rightarrow> bytes \<Rightarrow> str \<Rightarrow> 'ver UpdateError + bytes" where
  "archive_binary E platform archive name =
     (let expected = binary_entry platform; missing = MissingBinary (name @ lit '':'' @ expected)
      in case platform_format platform of
           TarGz \<Rightarrow>
             (case tar_entries E archive of
                Inl e \<Rightarrow> Inl (Io e)
              | Inr entries \<Rightarrow>
                  (case find_tar_entry expected entries of
                     Inl e \<Rightarrow> Inl (Io e)
                   | Inr None \<Rightarrow> Inl missing
                   | Inr (Some b) \<Rightarrow> Inr b))
         | ArchiveFormat.Zip \<Rightarrow>
             (case zip_archive E archive of
                Inl e \<Rightarrow> Inl (UpdateError.Zip e)
              | Inr by_name \<Rightarrow>
                  (case by_name expected of
                     None \<Rightarrow> Inl missing
                   | Some entry \<Rightarrow>
                       if \<not> zip_is_file entry then Inl (MissingBinary expected)
                       else case zip_contents entry of Inl e \<Rightarrow> Inl (Io e) | Inr b \<Rightarrow> Inr b)))"

definition extract_binary ::
    "'ver update_env \<Rightarrow> path \<Rightarrow> Platform \<Rightarrow> path \<Rightarrow> str \<Rightarrow> ('ver, unit) upd" where
  "extract_binary E archive_path platform dest name =
     andthen (read_file E (OpenArchive archive_path) archive_path) (\<lambda>archive.
     andthen (of_result id (archive_binary E platform archive name)) (\<lambda>binary.
       io E (WriteStaged dest) Io (set_file dest binary)))"

definition is_windows :: "'ver update_env \<Rightarrow> bool" where
  "is_windows E \<longleftrightarrow> env_os E = lit ''windows''"

definition set_executable :: "'ver update_env \<Rightarrow> path \<Rightarrow> ('ver, unit) upd" where
  "set_executable E p = (if is_windows E then return () else io E (SetPermissions p) Io id)"

definition binary_version :: "'ver update_env \<Rightarrow> bytes \<Rightarrow> 'ver UpdateError + 'ver" where
  "binary_version E binary =
     (case run_version E binary of
        Inl e \<Rightarrow> Inl (StagedBinary e)
      | Inr (success, stdout) \<Rightarrow>
          if \<not> success then Inl InvalidStagedVersion
          else case version_json E stdout of
                 Inl e \<Rightarrow> Inl (Json e)
               | Inr s \<Rightarrow> (case parse_version E s of None \<Rightarrow> Inl InvalidStagedVersion | Some v \<Rightarrow> Inr v))"

definition read_binary_version :: "'ver update_env \<Rightarrow> path \<Rightarrow> ('ver, 'ver) upd" where
  "read_binary_version E p w =
     (case files w p of
        None \<Rightarrow> (Inl (StagedBinary (lit ''No such file or directory'')), w)
      | Some b \<Rightarrow> (binary_version E b, w))"

text \<open>
  On Unix the staged file is renamed over the program; on Windows it is kept, and a helper process is
  started that moves it into place once this one has ended.
\<close>

definition apply_update ::
    "'ver update_env \<Rightarrow> path \<Rightarrow> path \<Rightarrow> 'ver \<Rightarrow> 'ver \<Rightarrow> ('ver, 'ver UpdateOutcome) upd" where
  "apply_update E staged executable previous current =
     (if \<not> is_windows E then
        andthen (io E (PersistStaged staged executable) PathPersist
                  (\<lambda>w. w\<lparr>files := (files w)(executable := files w staged, staged := None),
                          temp_paths := temp_paths w - {staged}\<rparr>)) (\<lambda>_.
        andthen (if executable = [] then return ()
                 else io E (SyncDirectory (butlast executable)) Io id) (\<lambda>_.
          return (Updated previous current)))
      else
        andthen (io E (KeepStaged staged) Persist (\<lambda>w. w\<lparr>temp_paths := temp_paths w - {staged}\<rparr>)) (\<lambda>_.
        andthen (io E (SpawnHelper executable staged) WindowsHelper (\<lambda>w. w\<lparr>helper := Some (executable, staged)\<rparr>)) (\<lambda>_.
          return (Staged previous current))))"

definition stage_release ::
    "'ver update_env \<Rightarrow> path \<Rightarrow> 'ver Release \<Rightarrow> Platform \<Rightarrow> ('ver, path) upd" where
  "stage_release E directory release platform =
     (let lock_path = directory @ [lit ''.bot-update.lock''];
          checksum_path = temp_dir E @ [lit ''SHA256SUMS''];
          archive_path = temp_dir E @ [asset_name (release_archive release)];
          staged = directory @ [staged_name E]
      in andthen (io E (OpenLock lock_path) Io
                   (\<lambda>w. set_file lock_path (case files w lock_path of Some b \<Rightarrow> b | None \<Rightarrow> []) w)) (\<lambda>_.
         andthen (io E (TryLock lock_path) (\<lambda>_. UpdateLocked) id) (\<lambda>_.
         andthen (io E MakeTempDir Io (\<lambda>w. w\<lparr>temp_paths := temp_paths w \<union> {checksum_path, archive_path}\<rparr>)) (\<lambda>_.
         andthen (download_asset E (release_checksums release) checksum_path MAX_CHECKSUM_BYTES) (\<lambda>checksum_digest.
         andthen (of_result id (verify_api_digest (release_checksums release) checksum_digest)) (\<lambda>_.
         andthen (download_asset E (release_archive release) archive_path MAX_ARCHIVE_BYTES) (\<lambda>archive_digest.
         andthen (of_result id (verify_api_digest (release_archive release) archive_digest)) (\<lambda>_.
         andthen (read_file E (ReadFile checksum_path) checksum_path) (\<lambda>checksum_bytes.
         andthen (of_option (Io (lit ''stream did not contain valid UTF-8'')) (from_utf8 checksum_bytes)) (\<lambda>checksum_text.
         andthen (of_option (MissingChecksum (asset_name (release_archive release)))
                   (checksum_for checksum_text (asset_name (release_archive release)))) (\<lambda>expected.
         if \<not> eq_ignore_ascii_case expected archive_digest
         then fail (ChecksumMismatch (asset_name (release_archive release)))
         else andthen (io E (MakeStaged staged) Io
                   (\<lambda>w. (set_file staged [] w)\<lparr>temp_paths := temp_paths w \<union> {staged}\<rparr>)) (\<lambda>_.
         andthen (extract_binary E archive_path platform staged (asset_name (release_archive release))) (\<lambda>_.
         andthen (io E (FlushStaged staged) Io id) (\<lambda>_.
         andthen (set_executable E staged) (\<lambda>_.
         andthen (io E (SyncStaged staged) Io id) (\<lambda>_.
         andthen (read_binary_version E staged) (\<lambda>staged_version.
         if staged_version \<noteq> release_version release
         then fail (StagedVersionMismatch (release_version release) staged_version)
         else return staged)))))))))))))))))"

definition install_release ::
    "'ver update_env \<Rightarrow> 'ver \<Rightarrow> 'ver Release \<Rightarrow> Platform \<Rightarrow> ('ver, 'ver UpdateOutcome) upd" where
  "install_release E previous release platform w =
     (case fault E CurrentExe of
        Some e \<Rightarrow> (Inl (Io e), w)
      | None \<Rightarrow>
          if current_exe E = [] then (Inl (Io (lit ''the executable has no parent directory'')), w)
          else let executable = current_exe E;
                   (r, w') = andthen (stage_release E (butlast executable) release platform) (\<lambda>staged.
                               apply_update E staged executable previous (release_version release)) w
               in (r, drop_temps w'))"

definition execute ::
    "'ver update_env \<Rightarrow> str \<Rightarrow> UpdateMode \<Rightarrow> ('ver, 'ver UpdateOutcome) upd" where
  "execute E current_version mode =
     andthen (of_option (InvalidCurrentVersion current_version) (parse_version E current_version)) (\<lambda>current.
     andthen (of_result id (from_parts (env_os E) (env_arch E))) (\<lambda>platform.
     andthen (of_result Network (http_client E)) (\<lambda>_.
     andthen (of_result id (fetch_release E (case env_repository E of Some r \<Rightarrow> r | None \<Rightarrow> DEFAULT_REPOSITORY) platform))
       (\<lambda>release.
       if current = release_version release then return (Current current)
       else if semver_less E (release_version release) current then return (LocalNewer current (release_version release))
       else if mode = Check then return (Available current (release_version release))
       else install_release E current release platform))))"


subsection \<open>Successful runs\<close>

named_theorems upd_inv "inversion of successful steps"

lemma andthen_Inr [upd_inv]:
  "andthen m f w = (Inr y, w') \<longleftrightarrow> (\<exists>x w1. m w = (Inr x, w1) \<and> f x w1 = (Inr y, w'))"
  by (auto simp: andthen_def split: prod.splits sum.splits)

lemma io_Inr [upd_inv]: "io E call err eff w = (Inr u, w') \<longleftrightarrow> fault E call = None \<and> w' = eff w"
  by (auto simp: io_def split: option.splits)

lemma pure_Inr [upd_inv]:
  "return x w = (Inr y, w') \<longleftrightarrow> y = x \<and> w' = w"
  "fail e w = (Inr y, w') \<longleftrightarrow> False"
  "of_result err r w = (Inr y, w') \<longleftrightarrow> r = Inr y \<and> w' = w"
  "of_option e r' w = (Inr y, w') \<longleftrightarrow> r' = Some y \<and> w' = w"
  by (auto simp: return_def fail_def of_result_def of_option_def split: sum.splits option.splits)

lemma read_file_Inr [upd_inv]: "read_file E call p w = (Inr b, w') \<longleftrightarrow> fault E call = None \<and> files w p = Some b \<and> w' = w"
  by (auto simp: read_file_def split: option.splits)

lemma read_binary_version_Inr [upd_inv]:
  "read_binary_version E p w = (Inr v, w') \<longleftrightarrow> (\<exists>b. files w p = Some b \<and> binary_version E b = Inr v) \<and> w' = w"
  by (auto simp: read_binary_version_def split: option.splits)

text \<open>What the model takes from the platform: a chunk's length fits an \<open>isize\<close>.\<close>

definition chunks_fit :: "'ver update_env \<Rightarrow> bool" where
  "chunks_fit E \<longleftrightarrow> (\<forall>url cs c. http_stream E url = Inr cs \<longrightarrow> Inr c \<in> set cs \<longrightarrow> length c < 2 ^ 63)"

lemma saturating_add_bounded:
  assumes "length c < 2 ^ 63" and "\<not> m < saturating_add s (word_of_nat (length c))" and "m < - 1"
  shows "unat (saturating_add s (word_of_nat (length c))) = unat s + length c"
proof -
  have len: "unat (word_of_nat (length c) :: u64) = length c"
    using assms(1) by (simp add: unat_of_nat)
  have "unat s + length c < 2 ^ 64"
    using assms(2,3) by (auto simp: saturating_add_def len split: if_splits)
  then show ?thesis
    by (simp add: saturating_add_def len unat_word_ariths)
qed

lemma download_loop_Inr:
  assumes "download_loop E asset dest m i s h cs w = (Inr (s', h'), w')"
    and "files w dest = Some b" and "\<forall>c. Inr c \<in> set cs \<longrightarrow> length c < 2 ^ 63" and "m < - 1" and "s \<le> m"
  shows "\<exists>bs. cs = map Inr bs \<and> h' = h @ concat bs \<and> unat s' = unat s + length (concat bs) \<and> s' \<le> m \<and>
    w' = w\<lparr>files := (files w)(dest \<mapsto> b @ concat bs)\<rparr>"
  using assms
proof (induction cs arbitrary: i s h w b)
  case Nil
  have "(files w)(dest \<mapsto> b) = files w"
    using Nil.prems(2) by (simp add: fun_upd_idem)
  then have "w = w\<lparr>files := (files w)(dest \<mapsto> b @ concat [])\<rparr>" by simp
  with Nil.prems show ?case
    by (intro exI [of _ "[]"] conjI) (simp_all add: upd_inv del: fun_upd_apply)
next
  case (Cons x cs)
  then obtain c where x: "x = Inr c" by (cases x) (auto simp: upd_inv)
  define s1 where "s1 = saturating_add s (word_of_nat (length c))"
  have le: "\<not> m < s1" and rest: "download_loop E asset dest m (Suc i) s1 (h @ c) cs (set_file dest (b @ c) w) = (Inr (s', h'), w')"
    using Cons.prems(1,2) by (auto simp: x s1_def [symmetric] Let_def upd_inv split: if_splits)
  have "unat s1 = unat s + length c"
    using Cons.prems(3,4) le unfolding s1_def by (intro saturating_add_bounded) (auto simp: x)
  moreover obtain bs where "cs = map Inr bs" "h' = (h @ c) @ concat bs" "unat s' = unat s1 + length (concat bs)" "s' \<le> m"
    "w' = (set_file dest (b @ c) w)\<lparr>files := (files (set_file dest (b @ c) w))(dest \<mapsto> (b @ c) @ concat bs)\<rparr>"
    using Cons.IH [OF rest, of "b @ c"] Cons.prems(3,4) le
    by (auto simp: set_file_def not_less fun_upd_same simp del: fun_upd_apply)
  ultimately show ?case
    by (intro exI [of _ "c # bs"] conjI) (simp_all add: x set_file_def del: fun_upd_apply)
qed

text \<open>An asset as the service streams it, in full.\<close>

definition streamed :: "'ver update_env \<Rightarrow> ReleaseAsset \<Rightarrow> bytes \<Rightarrow> bool" where
  "streamed E asset b \<longleftrightarrow>
     (\<exists>cs. http_stream E (asset_url asset) = Inr (map Inr cs) \<and> b = concat cs \<and> length b = unat (asset_size asset))"

lemma download_asset_Inr:
  assumes "download_asset E asset dest m w = (Inr d, w')" and "chunks_fit E" and "m < - 1"
  shows "\<exists>b. streamed E asset b \<and> d = sha256_hex E b \<and> length b \<le> unat m \<and>
    w' = w\<lparr>files := (files w)(dest \<mapsto> b)\<rparr>"
proof -
  from assms(1) obtain cs s h where cs: "http_stream E (asset_url asset) = Inr cs"
    and loop: "download_loop E asset dest m 0 0 [] cs (set_file dest [] w) = (Inr (s, h), w')"
    and d: "d = sha256_hex E h" and s: "s = asset_size asset"
    by (auto simp: download_asset_def upd_inv split: if_splits prod.splits)
  have "\<forall>c. Inr c \<in> set cs \<longrightarrow> length c < 2 ^ 63"
    using assms(2) cs unfolding chunks_fit_def by blast
  from download_loop_Inr [OF loop _ this assms(3), of "[]"]
  obtain bs where "cs = map Inr bs" "h = concat bs" "unat s = length (concat bs)" "s \<le> m"
    "w' = (set_file dest [] w)\<lparr>files := (files (set_file dest [] w))(dest \<mapsto> concat bs)\<rparr>"
    by (auto simp: set_file_def)
  then show ?thesis
    using cs s d by (intro exI [of _ "concat bs"]) (auto simp: streamed_def set_file_def word_le_nat_alt)
qed

text \<open>All the evidence an update rests on.\<close>

definition verified :: "'ver update_env \<Rightarrow> Platform \<Rightarrow> 'ver Release \<Rightarrow> bytes \<Rightarrow> bool" where
  "verified E platform release binary \<longleftrightarrow>
     (\<exists>archive sums contents expected.
        streamed E (release_archive release) archive \<and> streamed E (release_checksums release) sums \<and>
        length archive \<le> 512 * 1024 * 1024 \<and> length sums \<le> 1024 * 1024 \<and>
        (\<exists>d. asset_digest (release_archive release) = Some (lit ''sha256:'' @ d) \<and>
             eq_ignore_ascii_case d (sha256_hex E archive)) \<and>
        (\<exists>d. asset_digest (release_checksums release) = Some (lit ''sha256:'' @ d) \<and>
             eq_ignore_ascii_case d (sha256_hex E sums)) \<and>
        from_utf8 sums = Some contents \<and>
        checksum_for contents (asset_name (release_archive release)) = Some expected \<and>
        eq_ignore_ascii_case expected (sha256_hex E archive) \<and>
        archive_binary E platform archive (asset_name (release_archive release)) = Inr binary \<and>
        binary_version E binary = Inr (release_version release))"

lemma verify_api_digest_Inr:
  "verify_api_digest asset actual = Inr u \<longleftrightarrow>
     (\<exists>d. asset_digest asset = Some (lit ''sha256:'' @ d) \<and> eq_ignore_ascii_case d actual)"
  by (auto simp: verify_api_digest_def strip_prefix_Some_iff bind_eq_Some_conv bind_eq_None_conv
      simp del: lit_Cons split: option.splits if_splits)

lemma set_executable_Inr [upd_inv]: "set_executable E p w = (Inr u, w') \<Longrightarrow> w' = w"
  by (auto simp: set_executable_def upd_inv split: if_splits)


text \<open>
  The names the updater uses are apart: the temporary directory and the staged file are new, and the
  program is neither of them nor the lock file.
\<close>

definition names_apart :: "'ver update_env \<Rightarrow> bool" where
  "names_apart E \<longleftrightarrow>
     current_exe E \<noteq> [] \<and> temp_dir E \<noteq> butlast (current_exe E) \<and>
     last (current_exe E) \<notin> {lit ''.bot-update.lock'', staged_name E} \<and>
     staged_name E \<noteq> lit ''.bot-update.lock''"

lemma archive_name_not_sums: "archive_name p \<noteq> lit ''SHA256SUMS''"
  by (simp add: archive_name_def)

lemma resolve_release_Inr:
  assumes "resolve_release E response platform = Inr release"
  shows "\<not> draft response \<and> \<not> prerelease response \<and>
    semver_parse E (trim_start_matches 118 (tag_name response)) = Some (release_version release) \<and>
    asset_name (release_archive release) = archive_name platform \<and>
    asset_name (release_checksums release) = lit ''SHA256SUMS''"
  using assms by (auto simp: resolve_release_def find_Some_iff simp del: lit_Cons split: if_splits option.splits)

lemma stage_release_Inr:
  assumes "stage_release E dir release platform w = (Inr staged, w')"
    and "chunks_fit E" and "temp_dir E \<noteq> dir" and "asset_name (release_archive release) \<noteq> lit ''SHA256SUMS''"
  shows "staged = dir @ [staged_name E] \<and>
    (\<exists>binary. verified E platform release binary \<and> files w' staged = Some binary) \<and> staged \<in> temp_paths w'"
proof -
  let ?sums = "temp_dir E @ [lit ''SHA256SUMS'']" and ?arch = "temp_dir E @ [asset_name (release_archive release)]"
  let ?staged = "dir @ [staged_name E]"
  have max: "MAX_CHECKSUM_BYTES < - 1" "MAX_ARCHIVE_BYTES < - 1"
    "unat MAX_CHECKSUM_BYTES = 1024 * 1024" "unat MAX_ARCHIVE_BYTES = 512 * 1024 * 1024"
    by (simp_all add: MAX_CHECKSUM_BYTES_def MAX_ARCHIVE_BYTES_def word_less_nat_alt unsigned_minus_1_eq_mask mask_eq_exp_minus_1)
  from assms(1) obtain w1 w2 w3 d1 d2 sums contents expected archive binary where
    staged: "staged = ?staged"
    and dl1: "download_asset E (release_checksums release) ?sums MAX_CHECKSUM_BYTES w1 = (Inr d1, w2)"
    and v1: "verify_api_digest (release_checksums release) d1 = (Inr () :: 'a UpdateError + unit)"
    and dl2: "download_asset E (release_archive release) ?arch MAX_ARCHIVE_BYTES w2 = (Inr d2, w3)"
    and v2: "verify_api_digest (release_archive release) d2 = (Inr () :: 'a UpdateError + unit)"
    and sums: "files w3 ?sums = Some sums" "from_utf8 sums = Some contents"
      "checksum_for contents (asset_name (release_archive release)) = Some expected"
      "eq_ignore_ascii_case expected d2"
    and bin: "((files w3)(?staged \<mapsto> [])) ?arch = Some archive"
      "archive_binary E platform archive (asset_name (release_archive release)) = Inr binary"
      "files w' ?staged = Some binary" "?staged \<in> temp_paths w'" "binary_version E binary = Inr (release_version release)"
    unfolding stage_release_def Let_def extract_binary_def
    by (auto simp: upd_inv set_file_def fun_upd_same simp del: lit_Cons fun_upd_apply split: if_splits dest!: set_executable_Inr)
  from download_asset_Inr [OF dl1 assms(2) max(1)] obtain b1 where
    b1: "streamed E (release_checksums release) b1" "d1 = sha256_hex E b1" "length b1 \<le> 1024 * 1024"
      "w2 = w1\<lparr>files := (files w1)(?sums \<mapsto> b1)\<rparr>" by (auto simp: max)
  from download_asset_Inr [OF dl2 assms(2) max(2)] obtain b2 where
    b2: "streamed E (release_archive release) b2" "d2 = sha256_hex E b2" "length b2 \<le> 512 * 1024 * 1024"
      "w3 = w2\<lparr>files := (files w2)(?arch \<mapsto> b2)\<rparr>" by (auto simp: max)
  have "sums = b1" using sums(1) b1(4) b2(4) assms(4) by simp
  moreover have "archive = b2" using bin(1) b2(4) assms(3) by (simp split: if_splits)
  ultimately have "verified E platform release binary"
    using b1 b2 v1 v2 sums bin unfolding verified_def verify_api_digest_Inr by blast
  with staged bin(3,4) show ?thesis by blast
qed


subsection \<open>Frame conditions\<close>

text \<open>An operation that, whatever its result, changes only files of \<open>P\<close> and registers only such files as temporary.\<close>

definition only :: "path set \<Rightarrow> ('ver, 'a) upd \<Rightarrow> bool" where
  "only P m \<longleftrightarrow>
     (\<forall>w. let w' = snd (m w) in (\<forall>p. p \<notin> P \<longrightarrow> files w' p = files w p) \<and> helper w' = helper w \<and>
        temp_paths w \<subseteq> temp_paths w' \<and> temp_paths w' \<subseteq> temp_paths w \<union> P)"

named_theorems frames "operations that change only given files"

lemma only_snd:
  assumes "only P m" and "m w = (r, w')"
  shows "p \<notin> P \<Longrightarrow> files w' p = files w p" and "helper w' = helper w" and "temp_paths w \<subseteq> temp_paths w'"
    and "temp_paths w' \<subseteq> temp_paths w \<union> P"
  using spec [OF assms(1) [unfolded only_def], of w] by (simp_all add: Let_def assms(2))

lemma only_andthen [frames]:
  assumes "only P m" and "\<And>x. only P (f x)"
  shows "only P (andthen m f)"
  unfolding only_def
proof (intro allI)
  fix w
  obtain r w1 where m: "m w = (r, w1)" by (cases "m w")
  note 1 = only_snd [OF assms(1) m]
  show "let w' = snd (andthen m f w) in (\<forall>p. p \<notin> P \<longrightarrow> files w' p = files w p) \<and> helper w' = helper w \<and>
        temp_paths w \<subseteq> temp_paths w' \<and> temp_paths w' \<subseteq> temp_paths w \<union> P"
  proof (cases r)
    case (Inl e)
    then show ?thesis using 1 by (simp add: andthen_def m)
  next
    case (Inr x)
    then have "snd (andthen m f w) = snd (f x w1)" by (simp add: andthen_def m)
    then show ?thesis
      using 1 spec [OF assms(2) [of x, unfolded only_def], of w1] by (auto simp: Let_def)
  qed
qed

lemma only_pure [frames]:
  "only P (return x)" "only P (fail e)" "only P (of_result err r)" "only P (of_option e r')"
  "only P (read_file E call p)" "only P (read_binary_version E p)"
  by (auto simp: only_def return_def fail_def of_result_def of_option_def read_file_def read_binary_version_def
      split: sum.split option.split)

lemma only_if [frames]: "only P a \<Longrightarrow> only P b \<Longrightarrow> only P (if c then a else b)"
  by simp

lemma only_io_id [frames]: "only P (io E call err id)"
  by (auto simp: only_def io_def split: option.split)

lemma only_io_set [frames]: "p \<in> P \<Longrightarrow> only P (io E call err (\<lambda>w. set_file p (g w) w))"
  "p \<in> P \<Longrightarrow> only P (io E call err (set_file p b))"
  by (auto simp: only_def io_def set_file_def split: option.split)

lemma only_download_loop [frames]: "p \<in> P \<Longrightarrow> only P (download_loop E asset p m i s h cs)"
proof (induction cs arbitrary: i s h)
  case (Cons x cs)
  then show ?case by (cases x) (auto simp: Let_def intro!: frames)
qed (simp add: frames)

lemma only_download [frames]: "p \<in> P \<Longrightarrow> only P (download_asset E asset p m)"
  unfolding download_asset_def
  by (intro frames) (auto intro!: frames split: prod.split)

lemma only_stage:
  "only {dir @ [lit ''.bot-update.lock''], temp_dir E @ [lit ''SHA256SUMS''],
         temp_dir E @ [asset_name (release_archive release)], dir @ [staged_name E]}
     (stage_release E dir release platform)" (is "only ?P _")
proof -
  have tmp: "only ?P (io E MakeTempDir Io (\<lambda>w. w\<lparr>temp_paths := temp_paths w \<union>
      {temp_dir E @ [lit ''SHA256SUMS''], temp_dir E @ [asset_name (release_archive release)]}\<rparr>))"
    by (auto simp: only_def io_def split: option.split)
  have stg: "only ?P (io E call err (\<lambda>w. (set_file (dir @ [staged_name E]) [] w)
      \<lparr>temp_paths := temp_paths w \<union> {dir @ [staged_name E]}\<rparr>))" for call err
    by (auto simp: only_def io_def set_file_def split: option.split)
  have ext: "only ?P (extract_binary E a platform (dir @ [staged_name E]) nm)" for a nm
    unfolding extract_binary_def by (intro frames) simp
  have exe: "only ?P (set_executable E p)" for p
    unfolding set_executable_def by (intro frames)
  show ?thesis
    unfolding stage_release_def Let_def by (intro frames tmp stg ext exe) simp_all
qed


subsection \<open>What an update does\<close>

definition lock_path :: "'ver update_env \<Rightarrow> path" where
  "lock_path E = butlast (current_exe E) @ [lit ''.bot-update.lock'']"

definition staged_path :: "'ver update_env \<Rightarrow> path" where
  "staged_path E = butlast (current_exe E) @ [staged_name E]"

definition release_url :: "'ver update_env \<Rightarrow> str" where
  "release_url E =
     GITHUB_API @ lit ''/repos/'' @ (case env_repository E of Some r \<Rightarrow> r | None \<Rightarrow> DEFAULT_REPOSITORY)
       @ lit ''/releases/latest''"

text \<open>The release an installation is for: published, stable, for this platform and newer than the program.\<close>

definition newer_release :: "'ver update_env \<Rightarrow> str \<Rightarrow> Platform \<Rightarrow> 'ver Release \<Rightarrow> bool" where
  "newer_release E v platform release \<longleftrightarrow>
     (\<exists>current response.
        parse_version E v = Some current \<and> from_parts (env_os E) (env_arch E) = (Inr platform :: 'ver UpdateError + Platform) \<and>
        http_release E (release_url E) = Inr response \<and> \<not> draft response \<and> \<not> prerelease response \<and>
        resolve_release E response platform = Inr release \<and>
        current \<noteq> release_version release \<and> \<not> semver_less E (release_version release) current)"

lemma pure_cases:
  "of_result err r w = (case r of Inl e \<Rightarrow> (Inl (err e), w) | Inr x \<Rightarrow> (Inr x, w))"
  "of_option e r' w = (case r' of None \<Rightarrow> (Inl e, w) | Some x \<Rightarrow> (Inr x, w))"
  by (simp_all add: of_result_def of_option_def fail_def return_def split: sum.split option.split)

lemma execute_cases:
  "snd (execute E v mode w) = w \<and>
     (case fst (execute E v mode w) of
        Inr (Current c) \<Rightarrow> True | Inr (LocalNewer c l) \<Rightarrow> semver_less E l c | Inr (Available c l) \<Rightarrow> mode = Check
      | Inr _ \<Rightarrow> False | Inl _ \<Rightarrow> True) \<or>
   mode = Install \<and> (\<exists>current platform release. newer_release E v platform release \<and>
     parse_version E v = Some current \<and> execute E v mode w = install_release E current release platform w)"
proof (cases "parse_version E v")
  case None
  then show ?thesis by (simp add: execute_def andthen_def pure_cases)
next
  case (Some current)
  show ?thesis
  proof (cases "from_parts (env_os E) (env_arch E) :: 'a UpdateError + Platform")
    case (Inl e)
    with Some show ?thesis by (simp add: execute_def andthen_def pure_cases)
  next
    case (Inr platform)
    show ?thesis
    proof (cases "http_release E (release_url E)")
      case (Inl e)
      with Some Inr show ?thesis
        by (auto simp: execute_def andthen_def pure_cases fetch_release_def release_url_def
            simp del: lit_Cons split: sum.split)
    next
      case (Inr response)
      with Some \<open>from_parts (env_os E) (env_arch E) = Inr platform\<close> show ?thesis
        by (cases "resolve_release E response platform"; cases mode)
          (auto simp: execute_def andthen_def pure_cases fetch_release_def release_url_def return_def newer_release_def
            resolve_release_Inr simp del: lit_Cons split: sum.split)
    qed
  qed
qed


lemma names_apart_exe:
  assumes "names_apart E" and "asset_name (release_archive release) = archive_name platform"
  shows "current_exe E \<notin> {butlast (current_exe E) @ [lit ''.bot-update.lock''], temp_dir E @ [lit ''SHA256SUMS''],
         temp_dir E @ [asset_name (release_archive release)], butlast (current_exe E) @ [staged_name E]}"
proof -
  have "current_exe E = butlast (current_exe E) @ [last (current_exe E)]"
    using assms(1) by (simp add: names_apart_def)
  then have "current_exe E \<noteq> butlast (current_exe E) @ [x]" if "x \<noteq> last (current_exe E)" for x
    using that by (metis last_snoc)
  moreover have "current_exe E \<noteq> temp_dir E @ [x]" for x
    using assms(1) by (metis butlast_snoc names_apart_def)
  ultimately show ?thesis
    using assms(1) by (auto simp: names_apart_def simp del: lit_Cons)
qed

text \<open>What is left once the staged release has been applied, and the guards dropped.\<close>

lemma apply_update_cases:
  assumes "apply_update E staged exe prev cur w = (r, w')" and "staged \<noteq> exe"
    and "files w staged = Some b" and "staged \<in> temp_paths w"
  shows "\<exists>e. r = Inl e \<and> w' = w \<or>
    r = Inl e \<and> is_windows E \<and> w' = w\<lparr>temp_paths := temp_paths w - {staged}\<rparr> \<or>
    (if is_windows E
     then r = Inr (Staged prev cur) \<and> w' = w\<lparr>temp_paths := temp_paths w - {staged}, helper := Some (exe, staged)\<rparr>
     else (r = Inr (Updated prev cur) \<or> r = Inl e \<and> fault E (SyncDirectory (butlast exe)) \<noteq> None) \<and>
       w' = w\<lparr>files := (files w)(exe \<mapsto> b, staged := None), temp_paths := temp_paths w - {staged}\<rparr>)"
  using assms
  by (auto simp: apply_update_def andthen_def io_def return_def fun_upd_twist split: if_splits option.splits)

text \<open>
  The installation up to the drop of the temporary files: either nothing but temporary files and the
  lock changed, or a verified binary has taken the program's place (on Windows, has been handed over).
\<close>

lemma install_release_cases:
  assumes "install_release E prev release platform w = (r, w')" and "names_apart E" and "chunks_fit E"
    and name: "asset_name (release_archive release) = archive_name platform" and "temp_paths w = {}"
  shows "(\<exists>e. r = Inl e) \<and> files w' (current_exe E) = files w (current_exe E) \<and> helper w' = helper w \<or>
    (\<exists>binary. verified E platform release binary \<and>
      (if is_windows E
       then r = Inr (Staged prev (release_version release)) \<and> files w' (staged_path E) = Some binary \<and>
         files w' (current_exe E) = files w (current_exe E) \<and> helper w' = Some (current_exe E, staged_path E)
       else (r = Inr (Updated prev (release_version release)) \<or>
             (\<exists>e. r = Inl e) \<and> fault E (SyncDirectory (butlast (current_exe E))) \<noteq> None) \<and>
         files w' (current_exe E) = Some binary \<and> helper w' = helper w))"
proof (cases "fault E CurrentExe")
  case (Some e)
  with assms(1) show ?thesis by (auto simp: install_release_def)
next
  case None
  let ?exe = "current_exe E" and ?dir = "butlast (current_exe E)"
  have ne: "?exe \<noteq> []" using assms(2) by (simp add: names_apart_def)
  obtain r1 w1 where st: "stage_release E ?dir release platform w = (r1, w1)"
    by (cases "stage_release E ?dir release platform w")
  note keep = only_snd [OF only_stage st] and apart = names_apart_exe [OF assms(2) name]
  have exe1: "files w1 ?exe = files w ?exe" "?exe \<notin> temp_paths w1"
    using keep(1) [OF apart] keep(4) apart assms(5) by auto
  show ?thesis
  proof (cases r1)
    case (Inl e)
    then have "r = Inl e" "w' = drop_temps w1"
      using assms(1) None ne st by (auto simp: install_release_def andthen_def)
    then show ?thesis using exe1 keep(2) by (simp add: drop_temps_def)
  next
    case (Inr staged)
    have "temp_dir E \<noteq> ?dir" using assms(2) by (simp add: names_apart_def)
    moreover have "asset_name (release_archive release) \<noteq> lit ''SHA256SUMS''"
      unfolding name by (rule archive_name_not_sums)
    ultimately obtain b where staged: "staged = staged_path E" and b: "verified E platform release b"
      "files w1 staged = Some b" "staged \<in> temp_paths w1"
      using stage_release_Inr [OF st [unfolded Inr] assms(3)] by (auto simp: staged_path_def)
    obtain w2 where ap: "apply_update E staged ?exe prev (release_version release) w1 = (r, w2)" and w': "w' = drop_temps w2"
      using assms(1) None ne st Inr by (auto simp: install_release_def andthen_def split: prod.splits)
    have "staged \<noteq> ?exe" using apart by (auto simp: staged staged_path_def)
    from apply_update_cases [OF ap this b(2,3)] this exe1 keep(2) b show ?thesis
      by (auto simp: w' drop_temps_def staged split: if_splits)
  qed
qed

text \<open>
  C7: Only a verified release replaces the program. If running the updater changes the installed
  program, or hands a replacement to the Windows helper, then an installation was asked for, the
  latest release is published, stable, for this platform and newer than the running version, and
  the new program is the binary of an archive that was streamed in full within the size bound, whose
  SHA-256 digest matches both the release metadata and the equally verified \<open>SHA256SUMS\<close> file, and
  which reports the release's version when it is run.
\<close>

theorem update_installs_only_verified:
  assumes "execute E v mode w = (r, w')" and "names_apart E" and "chunks_fit E" and "temp_paths w = {}"
    and "files w' (current_exe E) \<noteq> files w (current_exe E) \<or> helper w' \<noteq> helper w"
  shows "mode = Install \<and>
    (\<exists>platform release binary. newer_release E v platform release \<and> verified E platform release binary \<and>
       (if is_windows E
        then files w' (current_exe E) = files w (current_exe E) \<and>
          helper w' = Some (current_exe E, staged_path E) \<and> files w' (staged_path E) = Some binary
        else files w' (current_exe E) = Some binary \<and> helper w' = helper w))"
proof -
  have "snd (execute E v mode w) \<noteq> w" using assms(1,5) by auto
  with execute_cases [of E v mode w] obtain current platform release where
    mode: "mode = Install" and rel: "newer_release E v platform release"
    and run: "install_release E current release platform w = (r, w')" using assms(1) by auto
  have "asset_name (release_archive release) = archive_name platform"
    using rel resolve_release_Inr by (auto simp: newer_release_def)
  from install_release_cases [OF run assms(2,3) this assms(4)] assms(5) mode rel show ?thesis
    by (auto split: if_splits)
qed

text \<open>
  C22: A failed update leaves the program alone. Without \<open>Install\<close> nothing changes at all. When the
  updater reports an error, the installed program is what it was and no helper was started; the one
  exception is an error of the final directory sync on Unix, after the verified replacement.
\<close>

theorem update_failure_keeps_program:
  assumes "execute E v mode w = (r, w')" and "names_apart E" and "chunks_fit E" and "temp_paths w = {}"
  shows "(mode = Check \<longrightarrow> w' = w \<and> (\<forall>p c. r \<noteq> Inr (Updated p c) \<and> r \<noteq> Inr (Staged p c))) \<and>
    (isl r \<longrightarrow> (files w' (current_exe E) = files w (current_exe E) \<and> helper w' = helper w) \<or>
       \<not> is_windows E \<and> fault E (SyncDirectory (butlast (current_exe E))) \<noteq> None)"
  using execute_cases [of E v mode w]
proof (elim disjE conjE exE)
  assume "snd (execute E v mode w) = w" "case fst (execute E v mode w) of
        Inr (Current c) \<Rightarrow> True | Inr (LocalNewer c l) \<Rightarrow> semver_less E l c | Inr (Available c l) \<Rightarrow> mode = Check
      | Inr _ \<Rightarrow> False | Inl _ \<Rightarrow> True"
  then show ?thesis using assms(1) by auto
next
  fix current platform release
  assume mode: "mode = Install" and rel: "newer_release E v platform release"
    and "execute E v mode w = install_release E current release platform w"
  then have run: "install_release E current release platform w = (r, w')" using assms(1) by simp
  have "asset_name (release_archive release) = archive_name platform"
    using rel resolve_release_Inr by (auto simp: newer_release_def)
  from install_release_cases [OF run assms(2,3) this assms(4)] mode show ?thesis
    by (auto split: if_splits)
qed


subsection \<open>An update that succeeds\<close>

text \<open>
  A release service with version 3 for Linux: versions are numbers, the digest of a file is the sum
  of its bytes in hexadecimal, and an archive holds one file with the archive's own contents.
\<close>

definition sample_archive :: ReleaseAsset where
  "sample_archive =
     \<lparr>asset_name = lit ''bot-x86_64-unknown-linux-gnu.tar.gz'', asset_url = lit ''a'', asset_size = 3,
      asset_digest = Some (lit ''sha256:6'')\<rparr>"

definition sample_sums :: bytes where
  "sample_sums = lit ''6  bot-x86_64-unknown-linux-gnu.tar.gz'' @ [10]"

definition sample_env :: "nat update_env" where
  "sample_env =
     \<lparr>semver_parse = parse_unsigned 100, semver_less = (<), semver_show = show_nat,
      env_repository = None, env_os = lit ''linux'', env_arch = lit ''x86_64'', http_client = Inr (),
      http_release = (\<lambda>_. Inr \<lparr>tag_name = lit ''v3'', draft = False, prerelease = False,
        assets = [sample_archive,
          \<lparr>asset_name = lit ''SHA256SUMS'', asset_url = lit ''s'', asset_size = 39,
           asset_digest = Some (lit ''sha256:'' @ show_hex (sum_list sample_sums))\<rparr>]\<rparr>),
      http_stream = (\<lambda>u. Inr [Inr (if u = lit ''a'' then [2, 2, 2] else sample_sums)]),
      sha256_hex = (\<lambda>b. show_hex (sum_list b)),
      current_exe = [lit ''bin'', lit ''bot''], temp_dir = [lit ''tmp''], staged_name = lit ''.tmp1'',
      tar_entries = (\<lambda>b. Inr [Inr \<lparr>tar_path = Inr (lit ''bot-x86_64-unknown-linux-gnu/bot''),
                                     tar_is_file = True, tar_contents = Inr b\<rparr>]),
      zip_archive = (\<lambda>_. Inl []), run_version = (\<lambda>b. Inr (True, b)), version_json = (\<lambda>_. Inr (lit ''3'')),
      fault = (\<lambda>_. None)\<rparr>"

definition sample_world :: update_world where
  "sample_world = \<lparr>files = [[lit ''bin'', lit ''bot''] \<mapsto> [0]], temp_paths = {}, helper = None\<rparr>"

lemma sample_env_ok: "names_apart sample_env \<and> chunks_fit sample_env \<and> temp_paths sample_world = {} \<and> \<not> is_windows sample_env"
  by (auto simp: names_apart_def chunks_fit_def sample_env_def sample_world_def sample_sums_def is_windows_def split: if_splits)


definition sample_platform :: Platform where
  "sample_platform = \<lparr>platform_target = lit ''x86_64-unknown-linux-gnu'', platform_format = TarGz\<rparr>"

definition sample_release :: "nat Release" where
  "sample_release =
     \<lparr>release_version = 3, release_archive = sample_archive,
      release_checksums = \<lparr>asset_name = lit ''SHA256SUMS'', asset_url = lit ''s'', asset_size = 39,
        asset_digest = Some (lit ''sha256:'' @ show_hex (sum_list sample_sums))\<rparr>\<rparr>"

lemma sample_choice:
  "parse_version sample_env (lit ''2'') = Some 2" "parse_version sample_env (lit ''3'') = Some 3"
  "from_parts (env_os sample_env) (env_arch sample_env) = (Inr sample_platform :: nat UpdateError + Platform)"
  "fetch_release sample_env rep sample_platform = Inr sample_release"
  by (simp_all add: parse_version_def str_simps sample_env_def parse_unsigned_def split_whitespace.simps is_digit_def
      value_of_def from_parts_def sample_platform_def fetch_release_def resolve_release_def archive_name_def
      sample_archive_def sample_release_def)

lemma sample_sums_read:
  "from_utf8 sample_sums = Some sample_sums"
  "checksum_for sample_sums (lit ''bot-x86_64-unknown-linux-gnu.tar.gz'') = Some (lit ''6'')"
  "length sample_sums = 39"
proof -
  show "from_utf8 sample_sums = Some sample_sums"
    unfolding from_utf8_def by (rule utf8_decode_ascii) (auto simp: sample_sums_def)
  show "checksum_for sample_sums (lit ''bot-x86_64-unknown-linux-gnu.tar.gz'') = Some (lit ''6'')"
    by (simp add: checksum_for_def lines_def sample_sums_def checksum_line_def strip_line_end_def
        split_whitespace.simps is_whitespace_def trim_start_matches_def)
qed (simp add: sample_sums_def)

lemma sample_downloads:
  "download_asset sample_env (release_archive sample_release) p MAX_ARCHIVE_BYTES w =
     (Inr (lit ''6''), w\<lparr>files := (files w)(p \<mapsto> [2, 2, 2])\<rparr>)"
  "download_asset sample_env (release_checksums sample_release) p MAX_CHECKSUM_BYTES w =
     (Inr (show_hex (sum_list sample_sums)), w\<lparr>files := (files w)(p \<mapsto> sample_sums)\<rparr>)"
proof -
  have "show_hex 6 = lit ''6''" by (simp add: show_hex_def digits_of.simps hex_digit_def)
  then show "download_asset sample_env (release_archive sample_release) p MAX_ARCHIVE_BYTES w =
     (Inr (lit ''6''), w\<lparr>files := (files w)(p \<mapsto> [2, 2, 2])\<rparr>)"
    by (simp add: download_asset_def andthen_def sample_release_def sample_archive_def MAX_ARCHIVE_BYTES_def of_result_def
        return_def io_def set_file_def sample_env_def saturating_add_def)
  show "download_asset sample_env (release_checksums sample_release) p MAX_CHECKSUM_BYTES w =
     (Inr (show_hex (sum_list sample_sums)), w\<lparr>files := (files w)(p \<mapsto> sample_sums)\<rparr>)"
    by (simp add: download_asset_def andthen_def sample_release_def MAX_CHECKSUM_BYTES_def of_result_def
        return_def io_def set_file_def sample_env_def saturating_add_def sample_sums_read(3))
qed

lemma sample_binary: "archive_binary sample_env sample_platform [2, 2, 2] nm = Inr [2, 2, 2]"
  by (simp add: archive_binary_def sample_env_def binary_entry_def path_components_def starts_with_def sample_platform_def)

lemma sample_digests:
  "verify_api_digest (release_archive sample_release) (lit ''6'') = Inr ()"
  "verify_api_digest (release_checksums sample_release) (show_hex (sum_list sample_sums)) = Inr ()"
  by (auto simp: verify_api_digest_Inr sample_release_def sample_archive_def)

lemma sample_version: "binary_version sample_env [2, 2, 2] = Inr 3"
proof -
  have "run_version sample_env [2, 2, 2] = Inr (True, [2, 2, 2])" "version_json sample_env b = Inr (lit ''3'')" for b
    by (simp_all add: sample_env_def)
  then show ?thesis by (simp add: binary_version_def sample_choice del: lit_Cons)
qed

lemma sample_names:
  "fault sample_env c = None" "current_exe sample_env = [lit ''bin'', lit ''bot'']" "temp_dir sample_env = [lit ''tmp'']"
  "staged_name sample_env = lit ''.tmp1''" "\<not> is_windows sample_env" "http_client sample_env = Inr ()"
  "semver_less sample_env 3 2 = False" "release_version sample_release = 3"
  "asset_name (release_archive sample_release) = lit ''bot-x86_64-unknown-linux-gnu.tar.gz''"
  by (simp_all add: sample_env_def sample_release_def sample_archive_def is_windows_def)

lemma sample_run:
  "files (snd (execute sample_env (lit ''2'') Install sample_world)) [lit ''bin'', lit ''bot''] = Some [2, 2, 2]"
  by (simp add: execute_def andthen_def pure_cases sample_choice sample_names install_release_def stage_release_def
      io_def set_file_def sample_downloads sample_digests read_file_def sample_sums_read extract_binary_def sample_binary
      set_executable_def read_binary_version_def sample_version return_def apply_update_def drop_temps_def Let_def sample_env_ok
      del: lit_Cons)

theorem update_installs_only_verified_witness:
  "\<exists>platform release binary. newer_release sample_env (lit ''2'') platform release \<and>
     verified sample_env platform release binary \<and>
     files (snd (execute sample_env (lit ''2'') Install sample_world)) (current_exe sample_env) = Some binary"
proof -
  have "files (snd (execute sample_env (lit ''2'') Install sample_world)) (current_exe sample_env) \<noteq>
      files sample_world (current_exe sample_env)"
    unfolding sample_names(2) sample_run by (simp add: sample_world_def)
  then show ?thesis
    using update_installs_only_verified [of sample_env "lit ''2''" Install sample_world
        "fst (execute sample_env (lit ''2'') Install sample_world)" "snd (execute sample_env (lit ''2'') Install sample_world)"]
      sample_env_ok by auto
qed

theorem update_failure_keeps_program_witness:
  "snd (execute sample_env (lit ''2'') Check sample_world) = sample_world"
  using update_failure_keeps_program [of sample_env "lit ''2''" Check sample_world
        "fst (execute sample_env (lit ''2'') Check sample_world)" "snd (execute sample_env (lit ''2'') Check sample_world)"]
      sample_env_ok by auto

end
