(* ===== verification/Compaction_Select.thy ===== *)
theory Compaction_Select
  imports Rust_Num Rust_Str
begin

text \<open>
  The items a conversation is compacted over (\<^verbatim>\<open>xai-grok-compaction/src/item.rs\<close>) and the choice
  of the split between what is summarised and what is kept (\<^verbatim>\<open>select.rs\<close>). The traits
  \<open>CompactionItem\<close> and \<open>CompactionItemBuilder\<close> are implemented outside the crate: they are a
  record of functions that the definitions take as an argument.
\<close>

subsection \<open>Items\<close>

datatype CompactionRole = System | Developer | User | Assistant | Tool

record CompactionFileRef =
  ref_id :: str
  ref_name :: str

record 't compaction_item =
  item_role :: "'t \<Rightarrow> CompactionRole"
  item_text :: "'t \<Rightarrow> str option"
  has_tool_requests :: "'t \<Rightarrow> bool"
  is_compaction_summary :: "'t \<Rightarrow> bool"
  attachment_refs :: "'t \<Rightarrow> CompactionFileRef list"
  compaction_summary_item :: "str \<Rightarrow> 't"
  strip_tool_content :: "'t \<Rightarrow> 't option"
  truncate_payload_for_compaction :: "'t \<Rightarrow> u32 \<Rightarrow> 't"

definition is_tool_result :: "'t compaction_item \<Rightarrow> 't \<Rightarrow> bool" where
  "is_tool_result I t \<longleftrightarrow> item_role I t = Tool"

record SplitPlan =
  split_idx :: nat
  tokens_to_compact :: u32

subsection \<open>The split\<close>

text \<open>The backward walk: \<open>i\<close> items are left to look at, the newer ones are kept.\<close>

fun split_search :: "u32 list \<Rightarrow> u32 \<Rightarrow> nat \<Rightarrow> u32 \<Rightarrow> nat" where
  "split_search counts target 0 kept = 0"
| "split_search counts target (Suc i) kept =
     (if target < saturating_add32 kept (counts ! i) then Suc i
      else split_search counts target i (saturating_add32 kept (counts ! i)))"

function snap_loop :: "'t compaction_item \<Rightarrow> 't list \<Rightarrow> nat \<Rightarrow> nat" where
  "snap_loop I items idx =
     (if idx < length items \<and> is_tool_result I (items ! idx) then snap_loop I items (idx + 1) else idx)"
  by pat_completeness auto
termination
  by (relation "measure (\<lambda>(I, items, idx). length items - idx)") auto

declare snap_loop.simps [simp del]

definition snap_to_safe_boundary :: "'t compaction_item \<Rightarrow> 't list \<Rightarrow> nat \<Rightarrow> nat" where
  "snap_to_safe_boundary I items candidate =
     (if length items \<le> candidate then length items
      else if \<not> is_tool_result I (items ! candidate) then candidate
      else snap_loop I items candidate)"

definition select_turns_to_compact ::
    "'t compaction_item \<Rightarrow> u32 list \<Rightarrow> 't list \<Rightarrow> u32 \<Rightarrow> u32 \<Rightarrow> SplitPlan option" where
  "select_turns_to_compact I counts items target min_compactable =
     (let total = length items
      in if total = 0 then None
         else let idx = split_search counts target total 0
              in if idx = 0 then None
                 else let safe = snap_to_safe_boundary I items idx
                      in if total \<le> safe then None
                         else let tokens = saturating_sum32 (take safe counts)
                              in if tokens < min_compactable then None
                                 else Some \<lparr>split_idx = safe, tokens_to_compact = tokens\<rparr>)"

subsection \<open>The split is the least safe one\<close>

text \<open>A position where the newer items fit the target and no tool result is cut off its request.\<close>

definition safe_split :: "'t compaction_item \<Rightarrow> u32 list \<Rightarrow> 't list \<Rightarrow> u32 \<Rightarrow> nat \<Rightarrow> bool" where
  "safe_split I counts items target i \<longleftrightarrow>
     i < length items \<and> saturating_sum32 (drop i counts) \<le> target \<and> \<not> is_tool_result I (items ! i)"

definition split_spec ::
    "'t compaction_item \<Rightarrow> u32 list \<Rightarrow> 't list \<Rightarrow> u32 \<Rightarrow> u32 \<Rightarrow> SplitPlan option" where
  "split_spec I counts items target min_compactable =
     (if saturating_sum32 counts \<le> target then None
      else case List.find (safe_split I counts items target) [0..<length items] of
             None \<Rightarrow> None
           | Some s \<Rightarrow>
               if saturating_sum32 (take s counts) < min_compactable then None
               else Some \<lparr>split_idx = s, tokens_to_compact = saturating_sum32 (take s counts)\<rparr>)"

lemma split_search_spec:
  assumes "i \<le> length counts" and "kept = saturating_sum32 (drop i counts)" and "kept \<le> target"
  shows "split_search counts target i kept \<le> i \<and>
    saturating_sum32 (drop (split_search counts target i kept) counts) \<le> target \<and>
    (\<forall>j < split_search counts target i kept. target < saturating_sum32 (drop j counts))"
  using assms
proof (induction i arbitrary: kept)
  case (Suc i)
  have step: "saturating_sum32 (drop i counts) = saturating_add32 kept (counts ! i)"
    using Suc.prems by (simp add: Cons_nth_drop_Suc [symmetric] saturating_sum32_Cons saturating_add32_commute)
  show ?case
  proof (cases "target < saturating_add32 kept (counts ! i)")
    case True
    have "target < saturating_sum32 (drop j counts)" if "j < Suc i" for j
    proof -
      have "drop j counts = take (i - j) (drop j counts) @ drop i counts"
        using that by (metis append_take_drop_id drop_drop le_add_diff_inverse2 less_Suc_eq_le)
      then have "saturating_sum32 (drop i counts) \<le> saturating_sum32 (drop j counts)"
        by (metis saturating_add32_le_mono(2) saturating_sum32_append)
      with True step show ?thesis by simp
    qed
    with True Suc.prems show ?thesis by simp
  next
    case False
    with Suc.IH [of "saturating_add32 kept (counts ! i)"] Suc.prems step show ?thesis
      by (auto simp: not_less)
  qed
qed simp

lemma snap_loop_spec:
  "idx \<le> snap_loop I items idx \<and> (\<forall>j. idx \<le> j \<longrightarrow> j < snap_loop I items idx \<longrightarrow> is_tool_result I (items ! j)) \<and>
   (snap_loop I items idx < length items \<longrightarrow> \<not> is_tool_result I (items ! snap_loop I items idx))"
proof (induction I items idx rule: snap_loop.induct)
  case (1 I items idx)
  show ?case
  proof (cases "idx < length items \<and> is_tool_result I (items ! idx)")
    case True
    then have step: "snap_loop I items idx = snap_loop I items (idx + 1)"
      by (subst snap_loop.simps) simp
    from "1.IH" True show ?thesis
      unfolding step by (metis Suc_eq_plus1 Suc_leD Suc_leI le_neq_implies_less)
  next
    case False
    then have "snap_loop I items idx = idx" by (subst snap_loop.simps) auto
    with False show ?thesis by auto
  qed
qed

lemma snap_spec:
  assumes "idx \<le> length items"
  shows "idx \<le> snap_to_safe_boundary I items idx \<and>
    (\<forall>j. idx \<le> j \<longrightarrow> j < snap_to_safe_boundary I items idx \<longrightarrow> is_tool_result I (items ! j)) \<and>
    (snap_to_safe_boundary I items idx < length items \<longrightarrow> \<not> is_tool_result I (items ! snap_to_safe_boundary I items idx))"
  using assms snap_loop_spec [of idx I items] by (auto simp: snap_to_safe_boundary_def)

lemma find_least:
  assumes "s < n" and "P s" and "\<And>j. j < s \<Longrightarrow> \<not> P j"
  shows "List.find P [0..<n] = Some s"
  unfolding find_Some_iff using assms by (intro exI [of _ s]) auto

lemma select_eq_spec:
  assumes "length counts = length items"
  shows "select_turns_to_compact I counts items target min_compactable = split_spec I counts items target min_compactable"
proof -
  define k where "k = split_search counts target (length items) 0"
  define s where "s = snap_to_safe_boundary I items k"
  have "k \<le> length items \<and> saturating_sum32 (drop k counts) \<le> target \<and>
      (\<forall>j < k. target < saturating_sum32 (drop j counts))"
    unfolding k_def using split_search_spec [of "length items" counts 0 target] assms by simp
  then have k: "k \<le> length items" "saturating_sum32 (drop k counts) \<le> target"
    "\<And>j. j < k \<Longrightarrow> target < saturating_sum32 (drop j counts)" by blast+
  have s: "k \<le> s" "\<And>j. k \<le> j \<Longrightarrow> j < s \<Longrightarrow> is_tool_result I (items ! j)"
    "s < length items \<Longrightarrow> \<not> is_tool_result I (items ! s)"
    using snap_spec [OF k(1), of I] by (auto simp: s_def)
  have fits: "k = 0 \<longleftrightarrow> saturating_sum32 counts \<le> target"
    using k(2) k(3) [of 0] by (cases "k = 0") auto
  have unsafe: "\<not> safe_split I counts items target j" if "j < s" for j
    using k(3) [of j] s(2) [of j] that by (cases "j < k") (auto simp: safe_split_def not_less)
  show ?thesis
  proof (cases "length items = 0 \<or> k = 0")
    case True
    then show ?thesis
      using fits assms by (auto simp: select_turns_to_compact_def split_spec_def Let_def k_def [symmetric])
  next
    case nonempty: False
    show ?thesis
    proof (cases "s < length items")
      case True
      have "drop s counts = drop (s - k) (drop k counts)"
        using s(1) by simp
      then have "saturating_sum32 (drop s counts) \<le> saturating_sum32 (drop k counts)"
        by (metis append_take_drop_id saturating_add32_le_mono(2) saturating_sum32_append)
      then have "safe_split I counts items target s"
        using True s(3) k(2) by (auto simp: safe_split_def)
      then have "List.find (safe_split I counts items target) [0..<length items] = Some s"
        by (rule find_least [OF True]) (rule unsafe)
      then show ?thesis
        using nonempty fits True
        by (simp add: select_turns_to_compact_def split_spec_def Let_def k_def [symmetric] s_def [symmetric])
    next
      case False
      then have "List.find (safe_split I counts items target) [0..<length items] = None"
        using unsafe by (auto simp: find_None_iff)
      then show ?thesis
        using nonempty fits False
        by (simp add: select_turns_to_compact_def split_spec_def Let_def k_def [symmetric] s_def [symmetric])
    qed
  qed
qed

text \<open>
  C13: The split between summary and tail is the least safe one. For every history with its token
  counts, the selection is absent exactly when everything fits the target, no safe position exists
  or too little would be summarised; otherwise it is the first position whose newer items fit the
  target and that does not start with a tool result, so no result is cut off from its request.
\<close>

theorem select_is_least_safe_split:
  assumes "length counts = length items"
  shows "select_turns_to_compact I counts items target min_compactable = split_spec I counts items target min_compactable"
  using assms by (rule select_eq_spec)

text \<open>A sample instance of the item interface: a role and a text.\<close>

definition sample_items :: "(CompactionRole \<times> str) compaction_item" where
  "sample_items =
     \<lparr>item_role = fst, item_text = (\<lambda>t. Some (snd t)), has_tool_requests = (\<lambda>_. False),
      is_compaction_summary = (\<lambda>t. fst t = Developer), attachment_refs = (\<lambda>_. []),
      compaction_summary_item = (\<lambda>s. (Developer, s)), strip_tool_content = Some,
      truncate_payload_for_compaction = (\<lambda>t n. (fst t, take (4 * unat n) (snd t)))\<rparr>"

theorem select_is_least_safe_split_witness:
  "select_turns_to_compact sample_items [10, 10, 10, 50, 50, 10]
     [(User, []), (Assistant, []), (Assistant, []), (Tool, []), (Tool, []), (Assistant, [])] 60 5 =
   Some \<lparr>split_idx = 5, tokens_to_compact = 130\<rparr>"
  by (subst select_is_least_safe_split)
    (simp_all add: split_spec_def safe_split_def is_tool_result_def sample_items_def saturating_sum32_def
      saturating_add32_def upt_rec)

lemma select_SomeD:
  assumes "select_turns_to_compact I counts items target m = Some plan" and "length counts = length items"
  shows "split_idx plan < length items \<and> saturating_sum32 (drop (split_idx plan) counts) \<le> target \<and>
    \<not> is_tool_result I (items ! split_idx plan)"
  using assms
  by (auto simp: select_eq_spec split_spec_def find_Some_iff safe_split_def split: if_splits option.splits)

end
