(* ===== verification/Rust_Search.thy ===== *)
theory Rust_Search
  imports Rust_Str "HOL-Library.Sublist"
begin

text \<open>
  Substring search as the standard library does it: \<open>str::find\<close> and \<open>str::rfind\<close> as splits at the
  first and at the last occurrence, \<open>str::contains\<close>, \<open>str::replace\<close>, \<open>str::matches\<close> and \<open>str::split\<close>
  by a pattern. The lemmas on occurrences across a concatenation carry the proofs on tagged text.
\<close>

definition contains :: "str \<Rightarrow> str \<Rightarrow> bool" where
  "contains s p \<longleftrightarrow> split_once s p \<noteq> None"

definition rsplit_once :: "str \<Rightarrow> str \<Rightarrow> (str \<times> str) option" where
  "rsplit_once s p = map_option (\<lambda>(a, b). (rev b, rev a)) (split_once (rev s) (rev p))"

lemma split_once_shorter: "split_once s p = Some (a, b) \<Longrightarrow> p \<noteq> [] \<Longrightarrow> length b < length s"
  by (drule split_once_append) simp

text \<open>The patterns of the program are not empty; the empty pattern is left alone here.\<close>

function replace_all :: "str \<Rightarrow> str \<Rightarrow> str \<Rightarrow> str" where
  "replace_all s p r =
     (if p = [] then s
      else case split_once s p of None \<Rightarrow> s | Some (a, b) \<Rightarrow> a @ r @ replace_all b p r)"
  by pat_completeness auto
termination
  by (relation "measure (\<lambda>(s, p, r). length s)") (auto simp: split_once_shorter)

function count_matches :: "str \<Rightarrow> str \<Rightarrow> nat" where
  "count_matches s p =
     (if p = [] then 0 else case split_once s p of None \<Rightarrow> 0 | Some (a, b) \<Rightarrow> Suc (count_matches b p))"
  by pat_completeness auto
termination
  by (relation "measure (\<lambda>(s, p). length s)") (auto simp: split_once_shorter)

function split_str :: "str \<Rightarrow> str \<Rightarrow> str list" where
  "split_str s p =
     (if p = [] then [s] else case split_once s p of None \<Rightarrow> [s] | Some (a, b) \<Rightarrow> a # split_str b p)"
  by pat_completeness auto
termination
  by (relation "measure (\<lambda>(s, p). length s)") (auto simp: split_once_shorter)

declare replace_all.simps [simp del] count_matches.simps [simp del] split_str.simps [simp del]

subsection \<open>Occurrences\<close>

lemma replace_all_none: "split_once s p = None \<Longrightarrow> replace_all s p r = s"
  by (simp add: replace_all.simps)

lemma split_once_None_iff: "split_once s p = None \<longleftrightarrow> \<not> sublist p s"
proof (induction s)
  case (Cons c s)
  show ?case
  proof (cases "strip_prefix (c # s) p")
    case None
    then have "\<not> prefix p (c # s)" by (simp add: strip_prefix_None_iff)
    with None Cons show ?thesis by (simp add: sublist_Cons_right)
  next
    case (Some r)
    then have "c # s = p @ r" by (simp add: strip_prefix_Some_iff)
    then have "sublist p (c # s)" by (simp add: prefix_imp_sublist)
    with Some show ?thesis by simp
  qed
qed simp

lemma contains_iff_sublist: "contains s p \<longleftrightarrow> sublist p s"
  by (simp add: contains_def split_once_None_iff)

lemma not_contains: "\<not> contains s p \<longleftrightarrow> split_once s p = None"
  unfolding contains_def by blast

lemma contains_code: "contains [] p \<longleftrightarrow> p = []" "contains (c # s) p \<longleftrightarrow> take (length p) (c # s) = p \<or> contains s p"
  by (auto simp: contains_def strip_prefix_def split: option.splits)

text \<open>Nothing before the first occurrence, not even one that overlaps it.\<close>

lemma split_once_no_earlier:
  assumes "split_once s p = Some (a, b)" and "p \<noteq> []"
  shows "\<not> sublist p (a @ butlast p)"
  using assms(1)
proof (induction s arbitrary: a b)
  case Nil
  with assms(2) show ?case by simp
next
  case (Cons c s)
  have short: "\<not> sublist p (butlast p)"
    using assms(2) sublist_length_le [of p "butlast p"] by (cases p) auto
  show ?case
  proof (cases "strip_prefix (c # s) p")
    case None
    then obtain a' where a: "a = c # a'" and s: "split_once s p = Some (a', b)"
      using Cons.prems by auto
    have eq: "c # s = (c # a' @ butlast p) @ last p # b"
      using split_once_append [OF s] assms(2) append_butlast_last_id [of p] by simp
    have "\<not> prefix p (c # a' @ butlast p)"
    proof
      assume "prefix p (c # a' @ butlast p)"
      then have "prefix p (c # s)" unfolding eq by (rule prefix_prefix)
      with None show False by (simp add: strip_prefix_None_iff)
    qed
    with Cons.IH [OF s] a show ?thesis by (simp add: sublist_Cons_right)
  qed (use Cons.prems short in simp)
qed

lemma split_once_at:
  assumes "\<not> sublist p (a @ butlast p)" and "p \<noteq> []"
  shows "split_once (a @ p @ b) p = Some (a, b)"
  using assms(1)
proof (induction a)
  case Nil
  obtain x p' where p: "p = x # p'" using assms(2) by (cases p) auto
  then have "strip_prefix (x # p' @ b) p = Some b"
    using strip_prefix_append [of p b] by simp
  with p show ?case by simp
next
  case (Cons c a)
  have "\<not> prefix p ((c # a) @ p @ b)"
  proof
    assume "prefix p ((c # a) @ p @ b)"
    then have "prefix p (((c # a) @ butlast p) @ last p # b)"
      using assms(2) by (metis append.assoc append_Cons append_Nil append_butlast_last_id)
    then have "prefix p ((c # a) @ butlast p)"
      by (rule prefix_length_prefix) (use assms(2) in \<open>auto simp: Suc_diff_le Suc_le_eq\<close>)
    with Cons.prems show False by (meson prefix_imp_sublist)
  qed
  then have "strip_prefix (c # a @ p @ b) p = None"
    by (simp add: strip_prefix_None_iff)
  moreover have "\<not> sublist p (a @ butlast p)"
    using Cons.prems by (simp add: sublist_Cons_right)
  ultimately show ?case using Cons.IH by simp
qed

text \<open>An occurrence cannot cross a character that only its own start could match.\<close>

lemma sublist_across:
  assumes "sublist q (a @ c # t)" and "c \<notin> set (tl q)"
  shows "sublist q a \<or> sublist q (c # t)"
  using assms(1)
proof (induction a)
  case (Cons x a)
  show ?case
  proof (cases "prefix q ((x # a) @ c # t)")
    case True
    show ?thesis
    proof (cases "length q \<le> length (x # a)")
      case True
      with \<open>prefix q _\<close> have "prefix q (x # a)"
        by (metis prefix_length_prefix prefixI)
      then show ?thesis by auto
    next
      case False
      from True obtain z where z: "x # a @ c # t = q @ z" by (auto simp: prefix_def)
      have "q ! Suc (length a) = (q @ z) ! Suc (length a)" using False by (simp add: nth_append)
      also have "\<dots> = c" unfolding z [symmetric] by (simp add: nth_append)
      finally have "tl q ! length a = c" using False by (cases q) auto
      moreover have "length a < length (tl q)" using False by simp
      ultimately have "c \<in> set (tl q)" by (metis nth_mem)
      with assms(2) show ?thesis by simp
    qed
  next
    case False
    with Cons show ?thesis by (auto simp: sublist_Cons_right)
  qed
qed simp

lemma sublist_skip: "sublist q (xs @ ys) \<Longrightarrow> q \<noteq> [] \<Longrightarrow> hd q \<notin> set xs \<Longrightarrow> sublist q ys"
proof (induction xs)
  case (Cons x xs)
  then have "\<not> prefix q ((x # xs) @ ys)" by (cases q) auto
  with Cons show ?case by (auto simp: sublist_Cons_right)
qed simp


lemma sublist_front: "sublist q a \<Longrightarrow> sublist q (a @ b)"
  and sublist_back: "sublist q b \<Longrightarrow> sublist q (a @ b)"
  unfolding sublist_def by (metis append.assoc)+

lemma trim_whitespace_append: "(\<And>c. c \<in> set w \<Longrightarrow> is_whitespace c) \<Longrightarrow> trim (w @ s) = trim s"
  by (simp add: trim_def trim_start_def)

subsection \<open>Replacement\<close>

text \<open>
  A tag is neutralised by a character behind its first one that no tag has: then the replacement
  brings no tag in, and the tag replaced is gone.
\<close>

lemma sublist_defused:
  assumes "sublist q (a @ (c # z # p') @ t)" and "q \<noteq> []" and "hd q = c" and "tl q \<noteq> []" and "c \<notin> set (tl q)"
    and "z \<notin> set q" and "c \<notin> set p'"
  shows "sublist q a \<or> sublist q t"
proof -
  have "sublist q a \<or> sublist q (c # z # p' @ t)"
    using sublist_across [of q a c "z # p' @ t"] assms by simp
  moreover have "\<not> prefix q (c # z # p' @ t)"
    using assms by (cases q; cases "tl q") auto
  moreover have "sublist q (z # p' @ t) \<Longrightarrow> sublist q t"
    using sublist_skip [of q "z # p'" t] assms hd_in_set [of q] by auto
  ultimately show ?thesis by (auto simp: sublist_Cons_right)
qed

lemma replace_all_keeps_out:
  assumes "\<not> sublist q s" and "q \<noteq> []" and "hd q = c" and "tl q \<noteq> []" and "c \<notin> set (tl q)"
    and "z \<notin> set q" and "c \<notin> set p'"
  shows "\<not> sublist q (replace_all s p (c # z # p'))"
  using assms(1)
proof (induction s p "c # z # p'" rule: replace_all.induct)
  case (1 s p)
  show ?case
  proof (cases "p = [] \<or> split_once s p = None")
    case False
    then obtain a b where ab: "split_once s p = Some (a, b)" and p: "p \<noteq> []" by auto
    have s: "s = a @ p @ b" by (rule split_once_append [OF ab])
    have "\<not> sublist q a" and "\<not> sublist q b"
      using "1.prems" by (auto simp: s intro: sublist_front sublist_back)
    then have "\<not> sublist q (a @ (c # z # p') @ replace_all b p (c # z # p'))"
      using "1.hyps" [OF p ab refl] sublist_defused [of q a c z p'] assms by blast
    with p ab show ?thesis by (simp add: replace_all.simps [of s])
  qed (use "1.prems" in \<open>auto simp: replace_all.simps [of s]\<close>)
qed

lemma replace_all_removes:
  assumes "p = c # p0" and "p0 \<noteq> []" and "c \<notin> set p0" and "z \<notin> set p" and "c \<notin> set p'"
  shows "\<not> sublist p (replace_all s p (c # z # p'))"
proof (induction "length s" arbitrary: s rule: less_induct)
  case less
  show ?case
  proof (cases "split_once s p")
    case None
    then show ?thesis by (simp add: replace_all_none flip: split_once_None_iff)
  next
    case (Some ab)
    then obtain a b where ab: "split_once s p = Some (a, b)" by (cases ab) auto
    have "\<not> sublist p a"
      using split_once_no_earlier [OF ab] assms(1) by (auto intro: sublist_front)
    moreover have "\<not> sublist p (replace_all b p (c # z # p'))"
      using less split_once_shorter [OF ab] assms(1) by simp
    ultimately have "\<not> sublist p (a @ (c # z # p') @ replace_all b p (c # z # p'))"
      using sublist_defused [of p a c z p'] assms by auto
    with ab assms(1) show ?thesis by (simp add: replace_all.simps [of s])
  qed
qed

text \<open>A replacement by characters that a tag does not have brings no tag in either.\<close>

lemma replace_all_foreign:
  assumes "\<not> sublist q s" and "q \<noteq> []" and "r \<noteq> []" and "set r \<inter> set q = {}"
  shows "\<not> sublist q (replace_all s p r)"
  using assms(1)
proof (induction "length s" arbitrary: s rule: less_induct)
  case less
  show ?case
  proof (cases "p = [] \<or> split_once s p = None")
    case False
    then obtain a b where ab: "split_once s p = Some (a, b)" and p: "p \<noteq> []" by auto
    have s: "s = a @ p @ b" by (rule split_once_append [OF ab])
    have ab': "\<not> sublist q a" "\<not> sublist q b"
      using less.prems by (auto simp: s intro: sublist_front sublist_back)
    obtain x r' where r: "r = x # r'" using assms(3) by (cases r) auto
    have hd: "hd q \<notin> set r" and tl: "x \<notin> set (tl q)"
      using assms(2,4) r by (cases q; auto)+
    have "sublist q (a @ r @ replace_all b p r) \<Longrightarrow> sublist q a \<or> sublist q (replace_all b p r)"
      using sublist_across [of q a x "r' @ replace_all b p r"] sublist_skip [of q r] hd tl assms(2) r by auto
    with less.hyps [of b] ab' split_once_shorter [OF ab p] p ab show ?thesis
      by (auto simp: replace_all.simps [of s])
  qed (use less.prems in \<open>auto simp: replace_all.simps [of s]\<close>)
qed

lemma replace_all_shorter:
  assumes "contains s p" and "length r < length p"
  shows "length (replace_all s p r) < length s"
  using assms(1)
proof (induction "length s" arbitrary: s rule: less_induct)
  case less
  have p: "p \<noteq> []" using assms(2) by auto
  obtain a b where ab: "split_once s p = Some (a, b)"
    using less.prems by (auto simp: contains_def)
  have "length (replace_all b p r) \<le> length b"
    using less.hyps [of b] split_once_shorter [OF ab p]
    by (cases "split_once b p") (auto simp: contains_def replace_all_none less_imp_le)
  moreover have "replace_all s p r = a @ r @ replace_all b p r"
    using ab p by (simp add: replace_all.simps [of s])
  moreover have "length s = length a + length p + length b"
    using split_once_append [OF ab] by simp
  ultimately show ?case using assms(2) by simp
qed

end
