(* ===== verification/Rust_Slice.thy ===== *)
theory Rust_Slice
  imports Rust_Search
begin

text \<open>
  Slices at byte offsets, suffixes and separators: \<open>&s[n..]\<close>, \<open>str::strip_suffix\<close>,
  \<open>str::ends_with\<close>, the last piece of \<open>str::rsplit\<close> and \<open>str::trim_end_matches\<close>. An ASCII byte
  found in the bytes of a string is a character of the string, so that slicing there cannot panic.
\<close>

fun slice_from :: "str \<Rightarrow> nat \<Rightarrow> str option" where
  "slice_from s 0 = Some s"
| "slice_from [] (Suc n) = None"
| "slice_from (c # s) (Suc n) = (if len_utf8 c \<le> Suc n then slice_from s (Suc n - len_utf8 c) else None)"

lemma slice_from_append [simp]: "slice_from (s @ t) (str_len s) = Some t"
proof (induction s)
  case (Cons c s)
  obtain n where n: "len_utf8 c + str_len s = Suc n"
    by (metis add_is_0 len_utf8_nonzero not0_implies_Suc)
  then have "Suc n - len_utf8 c = str_len s" "len_utf8 c \<le> Suc n" by simp_all
  with n Cons show ?case by simp
qed simp

lemma slice_from_append_ascii: "len_utf8 c = 1 \<Longrightarrow> slice_from (s @ c # t) (Suc (str_len s)) = Some t"
  using slice_from_append [of "s @ [c]" t] by simp

text \<open>
  The walk from a byte offset back to the nearest character boundary; offset 0 is one, so that it
  always ends at an offset where a slice does not panic.
\<close>

fun floor_boundary :: "str \<Rightarrow> nat \<Rightarrow> nat" where
  "floor_boundary s 0 = 0"
| "floor_boundary s (Suc n) = (if slice_to s (Suc n) \<noteq> None then Suc n else floor_boundary s n)"

lemma floor_boundary: "slice_to s (floor_boundary s n) \<noteq> None \<and> floor_boundary s n \<le> n"
  by (induction n) auto

lemma slice_to_floor_boundary:
  obtains p where "slice_to s (floor_boundary s n) = Some p" and "prefix p s" and "str_len p = floor_boundary s n"
    and "str_len p \<le> n"
  using floor_boundary [of s n] slice_to_Some by force

definition strip_suffix :: "str \<Rightarrow> str \<Rightarrow> str option" where
  "strip_suffix s p = map_option rev (strip_prefix (rev s) (rev p))"

lemma strip_suffix_Some_iff: "strip_suffix s p = Some r \<longleftrightarrow> s = r @ p"
proof -
  have "strip_suffix s p = Some r \<longleftrightarrow> strip_prefix (rev s) (rev p) = Some (rev r)"
    by (auto simp: strip_suffix_def)
  also have "\<dots> \<longleftrightarrow> s = r @ p"
    by (simp add: strip_prefix_Some_iff flip: rev_append)
  finally show ?thesis .
qed

definition str_ends_with :: "str \<Rightarrow> str \<Rightarrow> bool" where
  "str_ends_with s p \<longleftrightarrow> strip_suffix s p \<noteq> None"

lemma str_ends_with_iff: "str_ends_with s p \<longleftrightarrow> (\<exists>r. s = r @ p)"
  unfolding str_ends_with_def by (metis not_None_eq strip_suffix_Some_iff)

text \<open>\<open>s.rsplit(seps).next()\<close>: the text after the last separator, the whole text without one.\<close>

definition rsplit_first :: "uchar list \<Rightarrow> str \<Rightarrow> str" where
  "rsplit_first seps s = rev (takeWhile (\<lambda>c. c \<notin> set seps) (rev s))"

definition trim_end_matches :: "uchar \<Rightarrow> str \<Rightarrow> str" where
  "trim_end_matches c s = rev (dropWhile (\<lambda>x. x = c) (rev s))"

lemmas [str_simps] = strip_suffix_def str_ends_with_def rsplit_first_def trim_end_matches_def

subsection \<open>ASCII bytes are characters\<close>

lemma utf8_char_high: "128 \<le> c \<Longrightarrow> b \<in> set (utf8_char c) \<Longrightarrow> 128 \<le> b"
  by (auto simp: utf8_char_def split: if_splits)

lemma utf8_char_ascii [simp]: "c < 128 \<Longrightarrow> utf8_char c = [c]"
  by (simp add: utf8_char_def)

lemma len_utf8_ascii [simp]: "c < 128 \<Longrightarrow> len_utf8 c = Suc 0"
  by (simp add: len_utf8_def)

lemma length_utf8_char: "length (utf8_char c) = len_utf8 c"
  using length_utf8_bytes [of "[c]"] by simp

lemma utf8_bytes_nth_ascii:
  assumes "i < length (utf8_bytes s)" and "utf8_bytes s ! i < 128"
  shows "\<exists>a b. s = a @ utf8_bytes s ! i # b \<and> str_len a = i"
  using assms
proof (induction s arbitrary: i)
  case (Cons c s)
  show ?case
  proof (cases "i < len_utf8 c")
    case True
    then have nth: "utf8_bytes (c # s) ! i = utf8_char c ! i" and mem: "utf8_char c ! i \<in> set (utf8_char c)"
      by (simp_all add: nth_append length_utf8_char)
    then have "c < 128" using Cons.prems utf8_char_high [of c] by (metis not_le)
    with True show ?thesis by (auto intro: exI [of _ "[]"])
  next
    case False
    define j where "j = i - len_utf8 c"
    have nth: "utf8_bytes (c # s) ! i = utf8_bytes s ! j"
      using False by (simp add: j_def nth_append length_utf8_char)
    have "j < length (utf8_bytes s)" "utf8_bytes s ! j < 128"
      using Cons.prems False nth by (simp_all add: j_def length_utf8_char)
    then obtain a b where "s = a @ utf8_bytes s ! j # b" "str_len a = j"
      using Cons.IH by blast
    then have "c # s = (c # a) @ utf8_bytes (c # s) ! i # b" "str_len (c # a) = i"
      using nth False by (simp_all add: j_def)
    then show ?thesis by blast
  qed
qed simp

lemma utf8_bytes_nth_mid: "c < 128 \<Longrightarrow> utf8_bytes (a @ c # b) ! str_len a = c"
  by (simp add: nth_append length_utf8_bytes)

end
