(* ===== verification/Compaction_Fit.thy ===== *)
theory Compaction_Fit
  imports Compaction_Select Rust_Slice "HOL-Library.Sublist"
begin

text \<open>
  Fitting the summarizer's input to a token budget
  (\<^verbatim>\<open>xai-grok-compaction/src/intra_compaction/fit.rs\<close>): an ordered ladder that drops the oldest
  history, clips oversized tool results, drops the oldest steps and finally clips the newest item.
  The counter of an item's tokens is an argument. Counts of turns are \<open>u32\<close>, as in the source.
\<close>

datatype FitRung = Verbatim | HistoryTurnSelected | ToolTruncated | StepTurnsSelected | Emergency

definition FitRung_as_str :: "FitRung \<Rightarrow> str" where
  "FitRung_as_str r =
     (case r of
        Verbatim \<Rightarrow> lit ''verbatim''
      | HistoryTurnSelected \<Rightarrow> lit ''history_turn_selected''
      | ToolTruncated \<Rightarrow> lit ''tool_truncated''
      | StepTurnsSelected \<Rightarrow> lit ''step_turns_selected''
      | Emergency \<Rightarrow> lit ''emergency'')"

record 't FitPlan =
  llm_turns :: "'t list"
  tokens_raw :: u32
  tokens_fit :: u32
  fit_rung :: FitRung
  items_truncated :: u32
  history_turns_omitted :: u32
  step_turns_omitted :: u32

definition len32 :: "'a list \<Rightarrow> u32" where
  "len32 xs = word_of_nat (length xs)"

definition sum_tokens :: "('t \<Rightarrow> u32) \<Rightarrow> 't list \<Rightarrow> u32" where
  "sum_tokens counter turns = saturating_sum32 (map counter turns)"

definition token_counts :: "('t \<Rightarrow> u32) \<Rightarrow> 't list \<Rightarrow> u32 list" where
  "token_counts counter turns = map counter turns"

definition shrink_item_to_token_budget :: "'t compaction_item \<Rightarrow> 't \<Rightarrow> u32 \<Rightarrow> 't" where
  "shrink_item_to_token_budget I item max_tokens = truncate_payload_for_compaction I item max_tokens"

definition oversized_tool_result :: "'t compaction_item \<Rightarrow> ('t \<Rightarrow> u32) \<Rightarrow> u32 \<Rightarrow> 't \<Rightarrow> bool" where
  "oversized_tool_result I counter max_tokens t \<longleftrightarrow> is_tool_result I t \<and> max_tokens < counter t"

definition shrink_oversized_tool_results ::
    "'t compaction_item \<Rightarrow> 't list \<Rightarrow> ('t \<Rightarrow> u32) \<Rightarrow> u32 \<Rightarrow> 't list \<times> u32" where
  "shrink_oversized_tool_results I turns counter max_tokens =
     (map (\<lambda>t. if oversized_tool_result I counter max_tokens t
                then shrink_item_to_token_budget I t max_tokens else t) turns,
      len32 (filter (oversized_tool_result I counter max_tokens) turns))"

definition keep_recent_under_budget ::
    "'t compaction_item \<Rightarrow> 't list \<Rightarrow> u32 list \<Rightarrow> u32 \<Rightarrow> ('t list \<times> u32) option" where
  "keep_recent_under_budget I turns counts budget =
     (if turns = [] then Some ([], 0)
      else if budget = 0 then Some ([], len32 turns)
      else if saturating_sum32 counts \<le> budget then Some (turns, 0)
      else map_option (\<lambda>plan. (drop (split_idx plan) turns, word_of_nat (split_idx plan)))
             (select_turns_to_compact I counts turns budget 0))"

definition plan_ok ::
    "'t list \<Rightarrow> 't list \<Rightarrow> ('t \<Rightarrow> u32) \<Rightarrow> u32 \<Rightarrow> FitRung \<Rightarrow> u32 \<Rightarrow> u32 \<Rightarrow> u32 \<Rightarrow> 't FitPlan" where
  "plan_ok history steps counter raw rung truncated history_omitted step_omitted =
     \<lparr>llm_turns = history @ steps, tokens_raw = raw, tokens_fit = sum_tokens counter (history @ steps),
      fit_rung = rung, items_truncated = truncated, history_turns_omitted = history_omitted,
      step_turns_omitted = step_omitted\<rparr>"

text \<open>
  The drop of the oldest turns of one side while the other side takes \<open>other\<close> tokens: the second
  and the fourth stage of the ladder, on the history and on the steps.
\<close>

definition drop_oldest ::
    "'t compaction_item \<Rightarrow> 't list \<Rightarrow> u32 list \<Rightarrow> u32 \<Rightarrow> u32 \<Rightarrow> 't list \<times> u32 list \<times> u32" where
  "drop_oldest I turns counts other budget =
     (if other < budget
      then let side_budget = budget - other
           in if side_budget < saturating_sum32 counts
              then case keep_recent_under_budget I turns counts side_budget of
                     Some (keep, omitted) \<Rightarrow> (keep, drop (unat omitted) counts, omitted)
                   | None \<Rightarrow> ([], [], len32 turns)
              else (turns, counts, 0)
      else ([], [], len32 turns))"

definition emergency_source ::
    "'t list \<Rightarrow> 't list \<Rightarrow> 't list \<Rightarrow> 't list \<Rightarrow> u32 \<Rightarrow> u32 \<Rightarrow> 't list \<times> u32 \<times> u32" where
  "emergency_source history steps hist step hist_omitted step_omitted =
     (if hist @ step = []
      then (history @ steps,
            if steps = [] then (word_of_nat (length history - 1), 0)
            else (len32 history, word_of_nat (length steps - 1)))
      else if step = []
      then (hist @ step, saturating_add32 hist_omitted (word_of_nat (length hist - 1)), step_omitted)
      else (hist @ step, saturating_add32 hist_omitted (len32 hist),
            saturating_add32 step_omitted (word_of_nat (length step - 1))))"

definition emergency_plan ::
    "'t compaction_item \<Rightarrow> ('t \<Rightarrow> u32) \<Rightarrow> u32 \<Rightarrow> u32 \<Rightarrow> u32 \<Rightarrow> 't list \<times> u32 \<times> u32 \<Rightarrow> 't FitPlan" where
  "emergency_plan I counter budget raw truncated s =
     (case s of (source, history_omitted, step_omitted) \<Rightarrow>
        if source = []
        then \<lparr>llm_turns = [], tokens_raw = raw, tokens_fit = 0, fit_rung = Emergency, items_truncated = truncated,
              history_turns_omitted = history_omitted, step_turns_omitted = step_omitted\<rparr>
        else let newest = [shrink_item_to_token_budget I (last source) budget]
             in \<lparr>llm_turns = newest, tokens_raw = raw, tokens_fit = sum_tokens counter newest, fit_rung = Emergency,
                 items_truncated = saturating_add32 truncated 1, history_turns_omitted = history_omitted,
                 step_turns_omitted = step_omitted\<rparr>)"

definition over_budget :: "u32 list \<Rightarrow> u32 list \<Rightarrow> u32 \<Rightarrow> bool" where
  "over_budget hist_counts step_counts budget \<longleftrightarrow>
     budget < saturating_add32 (saturating_sum32 hist_counts) (saturating_sum32 step_counts)"

definition fit_turns_for_summarizer ::
    "'t compaction_item \<Rightarrow> 't list \<Rightarrow> 't list \<Rightarrow> ('t \<Rightarrow> u32) \<Rightarrow> u32 \<Rightarrow> 't FitPlan" where
  "fit_turns_for_summarizer I history steps counter budget =
     (let hist_counts = token_counts counter history;
          step_counts = token_counts counter steps;
          raw = saturating_add32 (saturating_sum32 hist_counts) (saturating_sum32 step_counts)
      in if budget = 0
         then \<lparr>llm_turns = [], tokens_raw = raw, tokens_fit = 0, fit_rung = Emergency, items_truncated = 0,
               history_turns_omitted = len32 history, step_turns_omitted = len32 steps\<rparr>
         else if raw \<le> budget then plan_ok history steps counter raw Verbatim 0 0 0
         else
           let (hist, hist_counts, hist_omitted) =
                 drop_oldest I history hist_counts (saturating_sum32 step_counts) budget
           in if \<not> over_budget hist_counts step_counts budget
              then plan_ok hist steps counter raw HistoryTurnSelected 0 hist_omitted 0
              else
                let (hist, n1) = shrink_oversized_tool_results I hist counter budget;
                    (step, n2) = shrink_oversized_tool_results I steps counter budget;
                    truncated = saturating_add32 n1 n2;
                    hist_counts = token_counts counter hist;
                    step_counts = token_counts counter step
                in if \<not> over_budget hist_counts step_counts budget
                   then plan_ok hist step counter raw ToolTruncated truncated hist_omitted 0
                   else
                     let (step, step_counts, step_omitted) =
                           drop_oldest I step step_counts (saturating_sum32 hist_counts) budget
                     in if \<not> over_budget hist_counts step_counts budget \<and> (hist \<noteq> [] \<or> step \<noteq> [])
                        then plan_ok hist step counter raw StepTurnsSelected truncated hist_omitted step_omitted
                        else emergency_plan I counter budget raw truncated
                               (emergency_source history steps hist step hist_omitted step_omitted))"

subsection \<open>Clipping one text\<close>

text \<open>The product with 4 cannot saturate: a \<open>u32\<close> times 4 is below \<open>2^64\<close>.\<close>

definition truncation_marker :: "nat \<Rightarrow> str" where
  "truncation_marker dropped =
     [10] @ lit ''[... truncated '' @ show_nat dropped @ lit '' bytes to fit the compaction window ...]''"

definition truncate_text_to_token_budget :: "str \<Rightarrow> u32 \<Rightarrow> str option" where
  "truncate_text_to_token_budget s max_tokens =
     (let max_bytes = unat max_tokens * 4
      in if str_len s \<le> max_bytes then Some s
         else let keep = max_bytes - 64;
                  cut = floor_boundary s (min keep (str_len s))
              in map_option (\<lambda>p. p @ truncation_marker (str_len s - cut)) (slice_to s cut))"

definition truncate_text_for_compaction :: "str \<Rightarrow> u32 \<Rightarrow> str option" where
  "truncate_text_for_compaction s max_tokens = truncate_text_to_token_budget s max_tokens"

text \<open>Clipping never panics; what it keeps is a prefix within the budget less the room for the marker.\<close>

lemma truncate_text_clips:
  assumes "unat max_tokens * 4 < str_len s"
  shows "\<exists>p. prefix p s \<and> str_len p \<le> unat max_tokens * 4 - 64 \<and>
    truncate_text_to_token_budget s max_tokens = Some (p @ truncation_marker (str_len s - str_len p))"
proof -
  let ?keep = "min (unat max_tokens * 4 - 64) (str_len s)"
  obtain p where "slice_to s (floor_boundary s ?keep) = Some p" "prefix p s"
    "str_len p = floor_boundary s ?keep" "str_len p \<le> ?keep"
    by (rule slice_to_floor_boundary)
  with assms show ?thesis
    by (intro exI [of _ p]) (simp add: truncate_text_to_token_budget_def Let_def)
qed

subsection \<open>Dropping the oldest turns\<close>

lemma unat_len32: "length xs < 2 ^ 32 \<Longrightarrow> unat (len32 xs) = length xs"
  by (simp add: len32_def unat_of_nat)

lemma unat_nat32: "n < 2 ^ 32 \<Longrightarrow> unat (word_of_nat n :: u32) = n"
  by (simp add: unat_of_nat)

text \<open>
  What is left of one side: a suffix with its counts, the number of the turns left out, and a first
  item that is no tool result unless nothing was left out.
\<close>

definition side_ok :: "'t compaction_item \<Rightarrow> 't list \<Rightarrow> 't list \<Rightarrow> u32 \<Rightarrow> bool" where
  "side_ok I turns kept omitted \<longleftrightarrow>
     kept = drop (unat omitted) turns \<and> unat omitted + length kept = length turns \<and>
     (omitted = 0 \<or> kept = [] \<or> \<not> is_tool_result I (hd kept))"

lemma keep_recent_ok:
  assumes "keep_recent_under_budget I turns counts budget = Some (kept, omitted)"
    and "length counts = length turns" and "length turns < 2 ^ 32"
  shows "side_ok I turns kept omitted \<and> saturating_sum32 (drop (unat omitted) counts) \<le> budget"
proof (cases "turns = [] \<or> budget = 0 \<or> saturating_sum32 counts \<le> budget")
  case True
  then show ?thesis
    using assms by (auto simp: keep_recent_under_budget_def side_ok_def unat_len32 split: if_splits)
next
  case False
  then obtain plan where p: "select_turns_to_compact I counts turns budget 0 = Some plan"
    and k: "kept = drop (split_idx plan) turns" "omitted = word_of_nat (split_idx plan)"
    using assms(1) by (auto simp: keep_recent_under_budget_def)
  note sel = select_SomeD [OF p assms(2)]
  then have "unat omitted = split_idx plan"
    using assms(3) by (simp add: k unat_nat32)
  with sel k show ?thesis
    by (auto simp: side_ok_def hd_drop_conv_nth)
qed

lemma drop_oldest_ok:
  assumes "drop_oldest I turns counts other budget = (kept, counts', omitted)"
    and "length counts = length turns" and "length turns < 2 ^ 32"
  shows "side_ok I turns kept omitted \<and> counts' = drop (unat omitted) counts"
proof (cases "other < budget \<and> budget - other < saturating_sum32 counts")
  case True
  show ?thesis
  proof (cases "keep_recent_under_budget I turns counts (budget - other)")
    case None
    with True assms show ?thesis
      by (auto simp: drop_oldest_def side_ok_def unat_len32)
  next
    case (Some r)
    with True assms keep_recent_ok [of I turns counts "budget - other"] show ?thesis
      by (cases r) (auto simp: drop_oldest_def)
  qed
next
  case False
  with assms show ?thesis
    by (auto simp: drop_oldest_def side_ok_def unat_len32 split: if_splits)
qed


lemma shrink_length [simp]: "length (fst (shrink_oversized_tool_results I turns counter n)) = length turns"
  by (simp add: shrink_oversized_tool_results_def)

lemma sum_tokens_append:
  "sum_tokens counter (xs @ ys) = saturating_add32 (sum_tokens counter xs) (sum_tokens counter ys)"
  by (simp add: sum_tokens_def saturating_sum32_append)

lemma fits_sum_tokens:
  "\<not> over_budget (token_counts counter xs) (token_counts counter ys) budget \<longleftrightarrow> sum_tokens counter (xs @ ys) \<le> budget"
  by (simp add: over_budget_def sum_tokens_def token_counts_def saturating_sum32_append not_less)

lemma drop_oldest_tokens:
  assumes "drop_oldest I turns (token_counts counter turns) other budget = (kept, counts', omitted)"
    and "length turns < 2 ^ 32"
  shows "side_ok I turns kept omitted \<and> counts' = token_counts counter kept"
  using drop_oldest_ok [OF assms(1) _ assms(2)] by (auto simp: token_counts_def side_ok_def drop_map)

subsection \<open>The ladder\<close>

text \<open>
  The plans the ladder can return: an empty one without a budget, one whose turns fit, and the last
  resort of the newest turn.
\<close>

inductive fit_outcome ::
    "'t compaction_item \<Rightarrow> 't list \<Rightarrow> 't list \<Rightarrow> ('t \<Rightarrow> u32) \<Rightarrow> u32 \<Rightarrow> 't FitPlan \<Rightarrow> bool"
  for I history steps counter budget where
  no_budget: "fit_outcome I history steps counter budget p"
    if "budget = 0" and "llm_turns p = []" and "fit_rung p = Emergency"
      and "history_turns_omitted p = len32 history" and "step_turns_omitted p = len32 steps"
| fitted: "fit_outcome I history steps counter budget (plan_ok h s counter raw rung truncated ho so)"
    if "rung \<noteq> Emergency" and "sum_tokens counter (h @ s) \<le> budget"
      and "unat ho + length h = length history" and "unat so + length s = length steps"
      and "h @ s \<noteq> [] \<or> steps = []" and "budget \<noteq> 0"
| emergency: "fit_outcome I history steps counter budget
      (emergency_plan I counter budget raw truncated (emergency_source history steps h s ho so))"
    if "unat ho + length h = length history" and "unat so + length s = length steps" and "budget \<noteq> 0"

lemma fit_outcome:
  assumes len: "length history + length steps < 2 ^ 32"
  shows "fit_outcome I history steps counter budget (fit_turns_for_summarizer I history steps counter budget)"
proof -
  let ?hc = "token_counts counter history" and ?sc = "token_counts counter steps"
  define raw where "raw = saturating_add32 (saturating_sum32 ?hc) (saturating_sum32 ?sc)"
  have raw: "raw = sum_tokens counter (history @ steps)"
    by (simp add: raw_def sum_tokens_def token_counts_def saturating_sum32_append)
  obtain h1 hc1 ho where d1: "drop_oldest I history ?hc (saturating_sum32 ?sc) budget = (h1, hc1, ho)"
    by (cases "drop_oldest I history ?hc (saturating_sum32 ?sc) budget")
  with len have h1: "unat ho + length h1 = length history" "hc1 = token_counts counter h1"
    using drop_oldest_tokens [OF d1] by (simp_all add: side_ok_def)
  obtain h2 n1 where s1: "shrink_oversized_tool_results I h1 counter budget = (h2, n1)"
    by (cases "shrink_oversized_tool_results I h1 counter budget")
  obtain s2 n2 where s2: "shrink_oversized_tool_results I steps counter budget = (s2, n2)"
    by (cases "shrink_oversized_tool_results I steps counter budget")
  have l2: "length h2 = length h1" "length s2 = length steps"
    using shrink_length [of I h1 counter budget] shrink_length [of I steps counter budget] s1 s2 by simp_all
  obtain s3 sc3 so where
    d3: "drop_oldest I s2 (token_counts counter s2) (saturating_sum32 (token_counts counter h2)) budget = (s3, sc3, so)"
    by (cases "drop_oldest I s2 (token_counts counter s2) (saturating_sum32 (token_counts counter h2)) budget")
  with len l2 have s3: "unat so + length s3 = length steps" "sc3 = token_counts counter s3"
    using drop_oldest_tokens [OF d3] by (simp_all add: side_ok_def)
  note fit = fit_turns_for_summarizer_def
    [of I history steps counter budget, unfolded Let_def d1 s1 s2 prod.case d3, folded raw_def]
  consider (zero) "budget = 0" | (verbatim) "budget \<noteq> 0" "raw \<le> budget"
    | (history) "budget \<noteq> 0" "\<not> raw \<le> budget" "\<not> over_budget hc1 ?sc budget"
    | (tools) "budget \<noteq> 0" "\<not> raw \<le> budget" "over_budget hc1 ?sc budget"
        "\<not> over_budget (token_counts counter h2) (token_counts counter s2) budget"
    | (steps) "budget \<noteq> 0" "\<not> raw \<le> budget" "over_budget hc1 ?sc budget"
        "over_budget (token_counts counter h2) (token_counts counter s2) budget"
        "\<not> over_budget (token_counts counter h2) sc3 budget" "h2 \<noteq> [] \<or> s3 \<noteq> []"
    | (last) "budget \<noteq> 0" "\<not> raw \<le> budget" "over_budget hc1 ?sc budget"
        "over_budget (token_counts counter h2) (token_counts counter s2) budget"
        "\<not> (\<not> over_budget (token_counts counter h2) sc3 budget \<and> (h2 \<noteq> [] \<or> s3 \<noteq> []))"
    by blast
  then show ?thesis
  proof cases
    case zero
    then show ?thesis by (intro fit_outcome.no_budget) (simp_all add: fit_turns_for_summarizer_def Let_def)
  next
    case verbatim
    then show ?thesis
      unfolding fit by (auto intro!: fit_outcome.fitted simp: raw)
  next
    case history
    then show ?thesis
      unfolding fit using h1 by (auto intro!: fit_outcome.fitted simp: fits_sum_tokens)
  next
    case tools
    then have "h2 @ s2 \<noteq> [] \<or> steps = []" using l2 by auto
    with tools show ?thesis
      unfolding fit using h1 l2 by (auto intro!: fit_outcome.fitted simp: fits_sum_tokens)
  next
    case steps
    then show ?thesis
      unfolding fit using h1 l2 s3 by (auto intro!: fit_outcome.fitted simp: fits_sum_tokens)
  next
    case last
    then show ?thesis
      unfolding fit using h1 l2 s3 by (auto intro!: fit_outcome.emergency)
  qed
qed


lemma unat_saturating_add32_small:
  "unat a + unat b < 2 ^ 32 \<Longrightarrow> unat (saturating_add32 a b) = unat a + unat b"
  by (simp add: unat_saturating_add32)

lemma emergency_accounting:
  assumes "unat ho + length h = length history" and "unat so + length s = length steps"
    and len: "length history + length steps < 2 ^ 32"
    and "emergency_source history steps h s ho so = (source, ho', so')"
  shows "unat ho' + unat so' + (if source = [] then 0 else 1) = length history + length steps"
proof (cases "h @ s = [] \<or> s = []")
  case True
  with assms show ?thesis
    by (auto simp: emergency_source_def unat_nat32 unat_len32 unat_saturating_add32_small neq_Nil_conv
        split: if_splits)
next
  case False
  then obtain t ts where "s = t # ts" by (cases s) auto
  with assms show ?thesis
    by (auto simp: emergency_source_def unat_nat32 unat_len32 unat_saturating_add32_small)
qed

lemma emergency_source_last:
  assumes "unat ho + length h = length history" and "unat so + length s = length steps"
  shows "fst (emergency_source history steps h s ho so) = [] \<longleftrightarrow> history @ steps = []"
  using assms by (auto simp: emergency_source_def split: if_splits)

lemma fit_outcome_accounting:
  assumes "fit_outcome I history steps counter budget p" and "length history + length steps < 2 ^ 32"
  shows "unat (history_turns_omitted p) + unat (step_turns_omitted p) + length (llm_turns p) =
    length history + length steps"
  using assms
proof (cases rule: fit_outcome.cases)
  case no_budget
  with assms(2) show ?thesis by (simp add: unat_len32)
next
  case fitted
  then show ?thesis by (simp add: plan_ok_def)
next
  case (emergency ho h so s raw truncated)
  obtain source ho' so' where e: "emergency_source history steps h s ho so = (source, ho', so')"
    by (cases "emergency_source history steps h s ho so")
  from emergency_accounting [OF emergency(2,3) assms(2) e] emergency(1) show ?thesis
    by (simp add: e emergency_plan_def Let_def split: if_splits)
qed

text \<open>
  C20: What the summarizer is given stays in its budget. Unless the ladder ends at its last resort,
  the tokens of the plan are at most the budget; the last resort hands over at most one turn. A loop
  that has step turns is never given an empty plan, whatever its history.
\<close>

theorem fit_within_budget:
  assumes "length history + length steps < 2 ^ 32"
  shows "let p = fit_turns_for_summarizer I history steps counter budget
         in (fit_rung p \<noteq> Emergency \<longrightarrow> tokens_fit p \<le> budget) \<and>
            (fit_rung p = Emergency \<longrightarrow> length (llm_turns p) \<le> 1) \<and>
            (budget \<noteq> 0 \<longrightarrow> steps \<noteq> [] \<longrightarrow> llm_turns p \<noteq> [])"
  using fit_outcome [OF assms, of I counter budget]
proof (cases rule: fit_outcome.cases)
  case (emergency ho h so s raw truncated)
  then show ?thesis
    using emergency_source_last [OF emergency(2,3)]
    by (auto simp: emergency_plan_def Let_def split: prod.splits)
qed (auto simp: plan_ok_def)

text \<open>
  No turn is lost from the accounts of a fit. The turns handed to the summarizer and the two
  counts of omitted turns add up to the turns there were, on every rung of the ladder.
\<close>

theorem fit_accounts_for_turns:
  assumes "length history + length steps < 2 ^ 32"
  shows "let p = fit_turns_for_summarizer I history steps counter budget
         in unat (history_turns_omitted p) + unat (step_turns_omitted p) + length (llm_turns p) =
            length history + length steps"
  using fit_outcome_accounting [OF fit_outcome [OF assms] assms] by (simp add: Let_def)

text \<open>
  C30: A conversation that has only history can be fitted to nothing. When the one turn there is
  exceeds the budget, the history rung leaves no turn, finds that nothing exceeds the budget and
  returns the empty plan: the last resort, which would keep the clipped turn, is never reached.
\<close>

theorem fit_lone_history_is_empty:
  assumes "budget \<noteq> 0" and "budget < counter t"
  shows "fit_rung (fit_turns_for_summarizer I [t] [] counter budget) = HistoryTurnSelected \<and>
    llm_turns (fit_turns_for_summarizer I [t] [] counter budget) = []"
proof -
  have "select_turns_to_compact I [counter t] [t] budget 0 = None"
    using assms(2) by (simp add: select_turns_to_compact_def snap_to_safe_boundary_def)
  with assms show ?thesis
    by (simp add: fit_turns_for_summarizer_def Let_def token_counts_def saturating_sum32_Cons drop_oldest_def
        keep_recent_under_budget_def over_budget_def plan_ok_def word_neq_0_conv not_le)
qed

definition sample_counter :: "CompactionRole \<times> str \<Rightarrow> u32" where
  "sample_counter t = len32 (snd t)"

theorem fit_within_budget_witness:
  "fit_rung (fit_turns_for_summarizer sample_items [(User, replicate 9 0)] [(Assistant, replicate 3 0)] sample_counter 5)
     = HistoryTurnSelected \<and>
   tokens_fit (fit_turns_for_summarizer sample_items [(User, replicate 9 0)] [(Assistant, replicate 3 0)] sample_counter 5) \<le> 5"
proof -
  have "fit_rung (fit_turns_for_summarizer sample_items [(User, replicate 9 0)] [(Assistant, replicate 3 0)] sample_counter 5)
     = HistoryTurnSelected"
    by (simp add: fit_turns_for_summarizer_def token_counts_def sample_counter_def len32_def saturating_sum32_Cons
        saturating_add32_def drop_oldest_def keep_recent_under_budget_def select_turns_to_compact_def
        snap_to_safe_boundary_def over_budget_def plan_ok_def)
  with fit_within_budget [of "[(User, replicate 9 0)]" "[(Assistant, replicate 3 0)]" sample_items sample_counter 5]
  show ?thesis by (simp add: Let_def)
qed

theorem fit_accounts_for_turns_witness:
  "let p = fit_turns_for_summarizer sample_items [(User, [])] [(Tool, []), (Assistant, [])] sample_counter 0
   in unat (history_turns_omitted p) + unat (step_turns_omitted p) + length (llm_turns p) = 3"
  using fit_accounts_for_turns [of "[(User, [])]" "[(Tool, []), (Assistant, [])]" sample_items sample_counter 0]
  by (simp add: Let_def)

theorem fit_lone_history_is_empty_witness:
  "llm_turns (fit_turns_for_summarizer sample_items [(User, replicate 9 0)] [] sample_counter 5) = []"
  using fit_lone_history_is_empty [of 5 sample_counter "(User, replicate 9 0)" sample_items]
  by (simp add: sample_counter_def len32_def)

end
