(* ===== verification/Compaction_History.thy ===== *)
theory Compaction_History
  imports Compaction_Select Rust_Search
begin

text \<open>
  What is kept of a history that is compacted again
  (\<^verbatim>\<open>xai-grok-compaction/src/history/\<close>): the filters, the block of the user's own queries that is
  carried from one summary to the following one, and the validation of a summary before it is stored.
\<close>

subsection \<open>Filters\<close>

definition keep_turn_for_basic_compaction :: "'t compaction_item \<Rightarrow> 't \<Rightarrow> bool" where
  "keep_turn_for_basic_compaction I t =
     (case item_role I t of System \<Rightarrow> False | Developer \<Rightarrow> is_compaction_summary I t | _ \<Rightarrow> True)"

definition filter_turns_for_basic :: "'t compaction_item \<Rightarrow> 't list \<Rightarrow> 't list" where
  "filter_turns_for_basic I turns = filter (keep_turn_for_basic_compaction I) turns"

definition filter_turns_for_inter_compaction :: "'t compaction_item \<Rightarrow> 't list \<Rightarrow> 't list" where
  "filter_turns_for_inter_compaction I turns =
     List.map_filter
       (\<lambda>turn. case item_role I turn of
          Tool \<Rightarrow> None
        | System \<Rightarrow> None
        | Developer \<Rightarrow> if is_compaction_summary I turn then Some turn else None
        | User \<Rightarrow> Some turn
        | Assistant \<Rightarrow> strip_tool_content I turn) turns"

subsection \<open>The block of user queries\<close>

definition start_tag :: str where "start_tag = lit ''<grok_user_queries>''"
definition end_tag :: str where "end_tag = lit ''</grok_user_queries>''"

definition push_rest :: "str \<Rightarrow> str \<Rightarrow> str" where
  "push_rest rest piece = (if piece = [] then rest else if rest = [] then piece else rest @ [10] @ piece)"

text \<open>The loop over the blocks: \<open>t\<close> is the text from the cursor on.\<close>

function split_blocks :: "str \<Rightarrow> str list \<Rightarrow> str \<Rightarrow> str list \<times> str" where
  "split_blocks t sections rest =
     (case split_once t start_tag of
        None \<Rightarrow> (sections, push_rest rest (trim t))
      | Some (before, after_start) \<Rightarrow>
          (case split_once (start_tag @ after_start) end_tag of
             None \<Rightarrow> (sections, push_rest rest (trim t))
           | Some (block, remaining) \<Rightarrow>
               split_blocks remaining (sections @ [block @ end_tag]) (push_rest rest (trim before))))"
  by pat_completeness auto
termination
proof (relation "measure (\<lambda>(t, sections, rest). length t)", goal_cases)
  case (2 t sections rest p before after_start q block remaining)
  then have "t = before @ start_tag @ after_start"
    and "start_tag @ after_start = block @ end_tag @ remaining"
    using split_once_append by blast+
  then show ?case by (simp add: end_tag_def)
qed simp

declare split_blocks.simps [simp del]

definition split_prior_compaction_text :: "str \<Rightarrow> str option \<times> str" where
  "split_prior_compaction_text txt0 =
     (let (user_sections, rest) = split_blocks txt0 [] []
      in if user_sections = [] then (None, txt0) else (Some (join [10] user_sections), rest))"

definition truncate_middle :: "str \<Rightarrow> nat \<Rightarrow> str option" where
  "truncate_middle msg max_chars =
     (let char_count = length msg
      in if char_count \<le> max_chars then None
         else let front_len = max_chars div 2;
                  back_len = max_chars - front_len
              in Some (take front_len msg @ lit ''...[truncated]...'' @ drop (char_count - back_len) msg))"

definition grok_file :: "CompactionFileRef \<Rightarrow> str" where
  "grok_file f = lit ''<grok_file id='' @ [34] @ ref_id f @ [34] @ lit '' name='' @ [34] @ ref_name f @ [34] @ lit '' />'' @ [10]"

definition grok_query :: "'t compaction_item \<Rightarrow> nat \<Rightarrow> 't \<Rightarrow> str option" where
  "grok_query I threshold turn =
     (if item_role I turn \<noteq> User then None
      else let msg = (case item_text I turn of Some s \<Rightarrow> s | None \<Rightarrow> []);
               attachments = attachment_refs I turn
           in if msg = [] \<and> attachments = [] then None
              else Some
                (lit ''<grok_query>'' @
                 (case truncate_middle msg threshold of Some truncated \<Rightarrow> truncated | None \<Rightarrow> msg) @
                 (if attachments \<noteq> [] then [10] @ concat (map grok_file attachments) else []) @
                 lit ''</grok_query>'' @ [10]))"

definition extract_user_queries_from_turns :: "'t compaction_item \<Rightarrow> 't list \<Rightarrow> u32 \<Rightarrow> str option" where
  "extract_user_queries_from_turns I turns user_truncate_chars =
     (let queries = List.map_filter (grok_query I (unat user_truncate_chars)) turns
      in if queries = [] then None
         else Some (start_tag @ [10] @ concat queries @ end_tag))"

record 't SeparatedHistoryTurns =
  turns_for_llm :: "'t list"
  prior_user_queries :: "str option"
  has_prior_compaction :: bool

definition separate_step ::
    "'t compaction_item \<Rightarrow> 't \<Rightarrow> 't SeparatedHistoryTurns \<Rightarrow> 't SeparatedHistoryTurns" where
  "separate_step I turn s =
     (if is_compaction_summary I turn
      then let content = (case item_text I turn of Some c \<Rightarrow> c | None \<Rightarrow> []);
               (user_section, rest) = split_prior_compaction_text content
           in s\<lparr>has_prior_compaction := True,
                prior_user_queries :=
                  (case user_section of
                     None \<Rightarrow> prior_user_queries s
                   | Some user_sec \<Rightarrow>
                       (case prior_user_queries s of
                          Some existing \<Rightarrow> Some (existing @ [10] @ user_sec)
                        | None \<Rightarrow> Some user_sec)),
                turns_for_llm :=
                  (if rest \<noteq> [] then turns_for_llm s @ [compaction_summary_item I rest] else turns_for_llm s)\<rparr>
      else s\<lparr>turns_for_llm := turns_for_llm s @ [turn]\<rparr>)"

definition separate_prior_user_queries :: "'t compaction_item \<Rightarrow> 't list \<Rightarrow> 't SeparatedHistoryTurns" where
  "separate_prior_user_queries I turns =
     fold (separate_step I) turns
       \<lparr>turns_for_llm = [], prior_user_queries = None, has_prior_compaction = False\<rparr>"

definition extract_prior_user_queries :: "'t compaction_item \<Rightarrow> 't list \<Rightarrow> str option" where
  "extract_prior_user_queries I turns = prior_user_queries (separate_prior_user_queries I turns)"

definition preamble_part :: "str option \<Rightarrow> str" where
  "preamble_part s = (case s of None \<Rightarrow> [] | Some p \<Rightarrow> p @ [10, 10])"

definition assemble_user_queries_preamble :: "str option \<Rightarrow> str option \<Rightarrow> str" where
  "assemble_user_queries_preamble prior current = preamble_part prior @ preamble_part current"

definition build_user_queries_preamble :: "'t compaction_item \<Rightarrow> 't list \<Rightarrow> str option \<Rightarrow> str" where
  "build_user_queries_preamble I turns current_user_queries =
     assemble_user_queries_preamble (extract_prior_user_queries I turns) current_user_queries"

definition wrap_chunk_analysis :: "nat \<Rightarrow> str \<Rightarrow> str" where
  "wrap_chunk_analysis index thinking =
     (let trimmed = trim thinking
      in if trimmed = [] then []
         else lit ''<chunk_analysis index='' @ [34] @ show_nat index @ [34] @ lit ''>'' @ [10] @ trimmed @ [10] @
              lit ''</chunk_analysis>'' @ [10, 10])"

subsection \<open>Validation\<close>

datatype CompactionStrategy = Basic | DivideAndConquer | FullReplace

definition CompactionStrategy_label :: "CompactionStrategy \<Rightarrow> str" where
  "CompactionStrategy_label s =
     (case s of
        Basic \<Rightarrow> lit ''basic''
      | DivideAndConquer \<Rightarrow> lit ''divide_and_conquer''
      | FullReplace \<Rightarrow> lit ''full_replace'')"

datatype CompactionValidationError = EmptyContent | UnbalancedChunkTags nat nat

definition validate_compaction_text ::
    "str \<Rightarrow> CompactionStrategy \<Rightarrow> CompactionValidationError + unit" where
  "validate_compaction_text text_content strategy =
     (if trim text_content = [] then Inl EmptyContent
      else if strategy = DivideAndConquer
      then let open_count = count_matches text_content (lit ''<chunk_summary'');
               close_count = count_matches text_content (lit ''</chunk_summary>'')
           in if open_count \<noteq> close_count then Inl (UnbalancedChunkTags open_count close_count) else Inr ()
      else Inr ())"


subsection \<open>The blocks survive\<close>

text \<open>A block: from the opening tag to the first closing tag behind it.\<close>

definition query_block :: "str \<Rightarrow> bool" where
  "query_block b \<longleftrightarrow> (\<exists>body. b = start_tag @ body @ end_tag \<and> \<not> sublist end_tag body)"

lemma tags_not_Nil [simp]: "start_tag \<noteq> []" "end_tag \<noteq> []"
  by (simp_all add: start_tag_def end_tag_def)

lemma tag_heads:
  "hd start_tag = 60" "hd end_tag = 60" "60 \<notin> set (tl start_tag)" "60 \<notin> set (tl end_tag)"
  "10 \<notin> set (tl end_tag)" "46 \<notin> set (tl end_tag)" "34 \<notin> set (tl end_tag)"
  by (simp_all add: start_tag_def end_tag_def)

lemma end_tag_not_in_start: "sublist end_tag (start_tag @ body) \<longleftrightarrow> sublist end_tag body"
  by (simp add: start_tag_def end_tag_def sublist_Cons_right)

lemma not_before_end_tag: "\<not> sublist end_tag a \<Longrightarrow> \<not> sublist end_tag (a @ butlast end_tag)"
proof
  assume a: "\<not> sublist end_tag a" and "sublist end_tag (a @ butlast end_tag)"
  moreover have "butlast end_tag = 60 # tl (butlast end_tag)"
    by (simp add: end_tag_def)
  ultimately have "sublist end_tag (butlast end_tag)"
    using sublist_across [of end_tag a 60 "tl (butlast end_tag)"] tag_heads by auto
  then show False
    by (auto dest!: sublist_length_le simp: end_tag_def)
qed

lemma split_at_end_tag:
  assumes "\<not> sublist end_tag body"
  shows "split_once (start_tag @ body @ end_tag @ t) end_tag = Some (start_tag @ body, t)"
  using split_once_at [OF not_before_end_tag, of "start_tag @ body" t] assms
  by (simp add: end_tag_not_in_start)

lemma split_at_start_tag:
  assumes "60 \<notin> set w"
  shows "split_once (w @ start_tag @ t) start_tag = Some (w, t)"
proof (rule split_once_at)
  show "\<not> sublist start_tag (w @ butlast start_tag)"
  proof
    assume "sublist start_tag (w @ butlast start_tag)"
    then have "sublist start_tag (butlast start_tag)"
      by (rule sublist_skip) (use assms tag_heads in auto)
    then show False
      by (auto dest!: sublist_length_le simp: start_tag_def)
  qed
qed simp

lemma newlines_trim: "set w \<subseteq> {10} \<Longrightarrow> trim w = []"
  by (auto simp: trim_eq_Nil_iff is_whitespace_def)

lemma split_blocks_block:
  assumes "query_block b" and "set w \<subseteq> {10}"
  shows "split_blocks (w @ b @ t) sections rest = split_blocks t (sections @ [b]) rest"
proof -
  obtain body where b: "b = start_tag @ body @ end_tag" and body: "\<not> sublist end_tag body"
    using assms(1) by (auto simp: query_block_def)
  have w: "60 \<notin> set w" using assms(2) by auto
  show ?thesis
    using split_at_start_tag [OF w, of "body @ end_tag @ t"] split_at_end_tag [OF body, of t] newlines_trim [OF assms(2)]
    by (subst split_blocks.simps) (simp add: b push_rest_def)
qed

lemma split_blocks_join:
  assumes "\<And>b. b \<in> set bs \<Longrightarrow> query_block b" and "set w \<subseteq> {10}"
  shows "split_blocks (w @ join [10] bs @ t) sections rest =
    (if bs = [] then split_blocks (w @ t) sections rest else split_blocks t (sections @ bs) rest)"
  using assms
proof (induction bs arbitrary: w sections)
  case (Cons b bs)
  show ?case
  proof (cases bs)
    case Nil
    with Cons.prems split_blocks_block [of b w t] show ?thesis by simp
  next
    case (Cons b' bs')
    with Cons.prems split_blocks_block [of b w "[10] @ join [10] bs @ t"] Cons.IH [of "[10]" "sections @ [b]"]
    show ?thesis by simp
  qed
qed simp

lemma split_blocks_rest:
  "\<not> sublist start_tag t \<Longrightarrow> split_blocks t sections rest = (sections, push_rest rest (trim t))"
  by (simp add: split_blocks.simps flip: split_once_None_iff)


lemma join_append:
  "xs \<noteq> [] \<Longrightarrow> ys \<noteq> [] \<Longrightarrow> join sep (xs @ ys) = join sep xs @ sep @ join sep ys"
proof (induction xs)
  case (Cons x xs)
  then show ?case by (cases xs; cases ys) auto
qed simp

lemma split_in_start:
  "split_once (start_tag @ t) end_tag = map_option (\<lambda>(a, b). (start_tag @ a, b)) (split_once t end_tag)"
  by (cases "split_once t end_tag") (simp_all add: start_tag_def end_tag_def strip_prefix_def split_beta)

lemma split_blocks_blocks:
  "(\<And>b. b \<in> set sections \<Longrightarrow> query_block b) \<Longrightarrow> b \<in> set (fst (split_blocks t sections rest)) \<Longrightarrow> query_block b"
proof (induction t sections rest arbitrary: b rule: split_blocks.induct)
  case (1 t sections rest)
  show ?case
  proof (cases "\<exists>before after_start block remaining. split_once t start_tag = Some (before, after_start) \<and>
      split_once (start_tag @ after_start) end_tag = Some (block, remaining)")
    case True
    then obtain before after_start block remaining where
      p: "split_once t start_tag = Some (before, after_start)" and
      q: "split_once (start_tag @ after_start) end_tag = Some (block, remaining)" by blast
    obtain body where body: "split_once after_start end_tag = Some (body, remaining)" "block = start_tag @ body"
      using q by (auto simp: split_in_start)
    have "query_block (block @ end_tag)"
      using split_once_no_earlier [OF body(1)] body(2)
      by (auto simp: query_block_def intro!: exI [of _ body] intro: sublist_front)
    with "1.IH" [OF p refl q refl] "1.prems" p q show ?thesis
      by (auto simp: split_blocks.simps [of t])
  next
    case False
    with "1.prems" show ?thesis
      by (subst (asm) split_blocks.simps) (auto split: option.splits)
  qed
qed

text \<open>What is carried from earlier summaries: nothing, or blocks joined by line feeds.\<close>

definition carried :: "str option \<Rightarrow> str list \<Rightarrow> bool" where
  "carried q bs \<longleftrightarrow> (\<forall>b \<in> set bs. query_block b) \<and> q = (if bs = [] then None else Some (join [10] bs))"

lemma split_prior_carried: "\<exists>bs. carried (fst (split_prior_compaction_text t)) bs"
  using split_blocks_blocks [of "[]" _ t "[]"]
  by (auto simp: split_prior_compaction_text_def carried_def Let_def split: prod.splits
      intro!: exI [of _ "fst (split_blocks t [] [])"])

lemma separate_step_carried:
  assumes "carried (prior_user_queries s) bs"
  shows "\<exists>bs. carried (prior_user_queries (separate_step I turn s)) bs"
proof (cases "is_compaction_summary I turn")
  case True
  define content where "content = (case item_text I turn of Some c \<Rightarrow> c | None \<Rightarrow> [])"
  obtain sec rest where sr: "split_prior_compaction_text content = (sec, rest)"
    by (cases "split_prior_compaction_text content")
  obtain cs where cs: "carried sec cs"
    using split_prior_carried [of content] sr by auto
  have "carried (prior_user_queries (separate_step I turn s)) (bs @ cs)"
    using assms cs True sr
    by (auto simp: separate_step_def carried_def content_def [symmetric] join_append split: if_splits)
  then show ?thesis ..
next
  case False
  with assms show ?thesis by (auto simp: separate_step_def)
qed

lemma prior_carried: "\<exists>bs. carried (extract_prior_user_queries I turns) bs"
proof -
  have "\<exists>bs. carried (prior_user_queries (fold (separate_step I) turns s)) bs"
    if "\<exists>bs. carried (prior_user_queries s) bs" for s
    using that
  proof (induction turns arbitrary: s)
    case (Cons t turns)
    then show ?case using separate_step_carried by fastforce
  qed simp
  then show ?thesis
    by (auto simp: extract_prior_user_queries_def separate_prior_user_queries_def carried_def)
qed


subsection \<open>The queries of the current turns\<close>

text \<open>A user turn whose text and attachments do not close the block.\<close>

definition closes_no_block :: "'t compaction_item \<Rightarrow> 't \<Rightarrow> bool" where
  "closes_no_block I t \<longleftrightarrow>
     \<not> contains (case item_text I t of Some s \<Rightarrow> s | None \<Rightarrow> []) end_tag \<and>
     list_all (\<lambda>f. \<not> contains (ref_id f) end_tag \<and> \<not> contains (ref_name f) end_tag) (attachment_refs I t)"

lemma end_tag_across:
  assumes "c \<in> {60, 10, 46, 34}"
  shows "sublist end_tag (a @ c # t) \<longleftrightarrow> sublist end_tag a \<or> sublist end_tag (c # t)"
  using sublist_across [of end_tag a c t] tag_heads assms by (auto intro: sublist_front sublist_back)

lemma end_tag_skip:
  "c \<noteq> 60 \<Longrightarrow> sublist end_tag (c # t) \<longleftrightarrow> sublist end_tag t"
  "d \<noteq> 47 \<Longrightarrow> sublist end_tag (60 # d # t) \<longleftrightarrow> sublist end_tag (d # t)"
  "sublist end_tag (60 # 47 # 103 # 114 # 111 # 107 # 95 # 113 # t) \<longleftrightarrow> sublist end_tag t"
  "sublist end_tag [] \<longleftrightarrow> False"
  by (auto simp: end_tag_def sublist_Cons_right)

lemmas end_tag_free = end_tag_across end_tag_skip

lemma truncate_middle_free:
  assumes "\<not> sublist end_tag msg" and "truncate_middle msg n = Some s"
  shows "\<not> sublist end_tag s"
proof -
  have "s = take (n div 2) msg @ lit ''...[truncated]...'' @ drop (length msg - (n - n div 2)) msg"
    using assms(2) by (simp add: truncate_middle_def Let_def split: if_splits)
  moreover have "\<not> sublist end_tag (take m msg)" "\<not> sublist end_tag (drop m msg)" for m
    using assms(1) sublist_front [of end_tag "take m msg" "drop m msg"] sublist_back [of end_tag "drop m msg" "take m msg"]
    by auto
  ultimately show ?thesis by (simp add: end_tag_free)
qed

lemma grok_files_free:
  assumes "list_all (\<lambda>f. \<not> contains (ref_id f) end_tag \<and> \<not> contains (ref_name f) end_tag) fs"
    and "\<not> sublist end_tag t"
  shows "\<not> sublist end_tag (concat (map grok_file fs) @ t)"
  using assms
  by (induction fs) (simp_all add: grok_file_def contains_iff_sublist end_tag_free)

lemma grok_query_free:
  assumes "grok_query I n turn = Some q" and "closes_no_block I turn" and "\<not> sublist end_tag t"
  shows "\<not> sublist end_tag (q @ t)"
proof -
  define msg where "msg = (case item_text I turn of Some s \<Rightarrow> s | None \<Rightarrow> [])"
  define shown where "shown = (case truncate_middle msg n of Some truncated \<Rightarrow> truncated | None \<Rightarrow> msg)"
  define fs where "fs = attachment_refs I turn"
  have q: "q = lit ''<grok_query>'' @ shown @ (if fs \<noteq> [] then [10] @ concat (map grok_file fs) else []) @
      lit ''</grok_query>'' @ [10]"
    using assms(1) unfolding grok_query_def Let_def msg_def [symmetric] shown_def [symmetric] fs_def [symmetric]
    by (simp split: if_splits)
  have "\<not> sublist end_tag msg" and fs: "list_all (\<lambda>f. \<not> contains (ref_id f) end_tag \<and> \<not> contains (ref_name f) end_tag) fs"
    using assms(2) by (simp_all add: closes_no_block_def msg_def fs_def contains_iff_sublist)
  then have "\<not> sublist end_tag shown"
    using truncate_middle_free [of msg n] by (auto simp: shown_def split: option.splits)
  moreover have "\<not> sublist end_tag (concat (map grok_file fs) @ lit ''</grok_query>'' @ [10] @ t)"
    using assms(3) by (intro grok_files_free [OF fs]) (simp add: end_tag_free)
  ultimately show ?thesis
    using assms(3) by (auto simp: q end_tag_free)
qed

lemma extract_carried:
  assumes "\<And>t. t \<in> set turns \<Longrightarrow> item_role I t = User \<Longrightarrow> closes_no_block I t"
    and "extract_user_queries_from_turns I turns n = Some q"
  shows "query_block q"
proof -
  have "\<not> sublist end_tag (concat (List.map_filter (grok_query I m) turns))" for m
    using assms(1)
  proof (induction turns)
    case (Cons t turns)
    show ?case
    proof (cases "grok_query I m t")
      case (Some q)
      then have "item_role I t = User" by (simp add: grok_query_def split: if_splits)
      with Cons Some grok_query_free [OF Some] show ?thesis by (simp add: map_filter_simps)
    qed (use Cons in \<open>simp add: map_filter_simps\<close>)
  qed (simp add: map_filter_simps end_tag_free)
  with assms(2) show ?thesis
    by (auto simp: extract_user_queries_from_turns_def query_block_def Let_def end_tag_skip split: if_splits
        intro!: exI [of _ "[10] @ concat (List.map_filter (grok_query I (unat n)) turns)"])
qed

text \<open>
  C18: The user's own words survive every later compaction. When the queries that earlier summaries
  carry and those of the current turns are put in front of a summary that does not open a block
  itself, taking the stored text apart again gives back the carried queries verbatim, the current
  ones after them, and the summary alone for the model: the block is never summarised and never
  nested.
\<close>

theorem user_queries_survive:
  assumes "\<And>t. t \<in> set turns \<Longrightarrow> item_role I t = User \<Longrightarrow> closes_no_block I t"
    and "\<not> contains summary start_tag"
  shows "split_prior_compaction_text
      (build_user_queries_preamble I turns (extract_user_queries_from_turns I turns n) @ summary) =
    (case (extract_prior_user_queries I turns, extract_user_queries_from_turns I turns n) of
       (None, None) \<Rightarrow> (None, summary)
     | (Some prior, None) \<Rightarrow> (Some prior, trim summary)
     | (None, Some current) \<Rightarrow> (Some current, trim summary)
     | (Some prior, Some current) \<Rightarrow> (Some (prior @ [10] @ current), trim summary))"
proof -
  obtain bs where bs: "carried (extract_prior_user_queries I turns) bs"
    using prior_carried by blast
  define cs where "cs = (case extract_user_queries_from_turns I turns n of None \<Rightarrow> [] | Some c \<Rightarrow> [c])"
  have blocks: "\<And>b. b \<in> set bs \<Longrightarrow> query_block b" "\<And>b. b \<in> set cs \<Longrightarrow> query_block b"
    using bs extract_carried [of turns I n] assms(1)
    by (auto simp: carried_def cs_def split: option.splits)
  have rest: "split_blocks (w @ summary) sections [] = (sections, trim summary)" if "set w \<subseteq> {10}" for w sections
  proof -
    have "60 \<notin> set w" using that by auto
    then have "\<not> sublist start_tag (w @ summary)"
      using sublist_skip [of start_tag w summary] assms(2) tag_heads(1) by (auto simp: contains_iff_sublist)
    moreover have "trim (w @ summary) = trim summary"
      using that by (intro trim_whitespace_append) (auto simp: is_whitespace_def)
    ultimately show ?thesis by (simp add: split_blocks_rest push_rest_def)
  qed
  show ?thesis
    using bs blocks split_blocks_join [of bs "[]"] split_blocks_join [of cs "[]"] split_blocks_join [of cs "[10,10]"] rest [of "[]"] rest [of "[10,10]"]
    by (auto simp: build_user_queries_preamble_def assemble_user_queries_preamble_def preamble_part_def carried_def cs_def
        split_prior_compaction_text_def join_append split: option.splits)
qed


theorem user_queries_survive_witness:
  "split_prior_compaction_text
     (build_user_queries_preamble sample_items [(User, lit ''hi'')]
        (extract_user_queries_from_turns sample_items [(User, lit ''hi'')] 100) @ lit ''done '') =
   (Some (start_tag @ [10] @ lit ''<grok_query>hi</grok_query>'' @ [10] @ end_tag), lit ''done'')"
proof -
  have current: "extract_user_queries_from_turns sample_items [(User, lit ''hi'')] 100 =
      Some (start_tag @ [10] @ lit ''<grok_query>hi</grok_query>'' @ [10] @ end_tag)"
    by (simp add: extract_user_queries_from_turns_def grok_query_def truncate_middle_def sample_items_def map_filter_simps)
  have prior: "extract_prior_user_queries sample_items [(User, lit ''hi'')] = None"
    by (simp add: extract_prior_user_queries_def separate_prior_user_queries_def separate_step_def sample_items_def)
  have "closes_no_block sample_items t" if "t \<in> set [(User, lit ''hi'')]" for t
    using that by (simp add: closes_no_block_def sample_items_def contains_def end_tag_def strip_prefix_def)
  moreover have "\<not> contains (lit ''done '') start_tag"
    by (simp add: contains_def start_tag_def strip_prefix_def)
  moreover have "trim (lit ''done '') = lit ''done''"
    by (simp add: str_simps)
  ultimately show ?thesis
    using user_queries_survive [of "[(User, lit ''hi'')]" sample_items "lit ''done ''" 100] current prior by simp
qed

text \<open>
  A user's text that holds the closing tag ends the block there: the rest of the query is handed to
  the model as if it were part of the earlier summary.
\<close>

theorem user_text_closes_block:
  "split_prior_compaction_text
     (build_user_queries_preamble sample_items [(User, lit ''a</grok_user_queries>b'')]
        (extract_user_queries_from_turns sample_items [(User, lit ''a</grok_user_queries>b'')] 100) @ lit ''done'') =
   (Some (start_tag @ [10] @ lit ''<grok_query>a</grok_user_queries>''),
    lit ''b</grok_query>'' @ [10] @ end_tag @ [10, 10] @ lit ''done'')"
proof -
  have current: "extract_user_queries_from_turns sample_items [(User, lit ''a</grok_user_queries>b'')] 100 =
      Some (start_tag @ ([10] @ lit ''<grok_query>a'') @ end_tag @ lit ''b</grok_query>'' @ [10] @ end_tag)"
    by (simp add: extract_user_queries_from_turns_def grok_query_def truncate_middle_def sample_items_def map_filter_simps
        end_tag_def)
  have prior: "extract_prior_user_queries sample_items [(User, lit ''a</grok_user_queries>b'')] = None"
    by (simp add: extract_prior_user_queries_def separate_prior_user_queries_def separate_step_def sample_items_def)
  let ?rest = "lit ''b</grok_query>'' @ [10] @ end_tag @ [10, 10] @ lit ''done''"
  let ?block = "start_tag @ ([10] @ lit ''<grok_query>a'') @ end_tag"
  have "query_block ?block"
    unfolding query_block_def by (intro exI [of _ "[10] @ lit ''<grok_query>a''"]) (simp add: end_tag_free)
  then have "split_blocks (?block @ ?rest) [] [] = split_blocks ?rest [?block] []"
    using split_blocks_block [of ?block "[]" ?rest "[]"] by simp
  also have "\<dots> = ([?block], trim ?rest)"
    by (simp add: split_blocks_rest push_rest_def start_tag_def end_tag_def sublist_Cons_right)
  also have "trim ?rest = ?rest" by (simp add: end_tag_def str_simps)
  finally show ?thesis
    using current prior
    by (simp add: split_prior_compaction_text_def build_user_queries_preamble_def assemble_user_queries_preamble_def
        preamble_part_def end_tag_def)
qed

end
