(* ===== verification/Compaction_Summary.thy ===== *)
theory Compaction_Summary
  imports Compaction_Select Rust_Search
begin

text \<open>
  The cleaning of the summary a model wrote
  (\<^verbatim>\<open>xai-grok-compaction/src/code_compaction/summary.rs\<close>), the prompt it was asked with
  (\<^verbatim>\<open>prompt.rs\<close>) and the history that is rebuilt from it (\<^verbatim>\<open>assemble.rs\<close>). Byte offsets into the
  text are splits at the tag they were found at.
\<close>

definition analysis_open :: str where "analysis_open = lit ''<analysis>''"
definition analysis_close :: str where "analysis_close = lit ''</analysis>''"
definition summary_open :: str where "summary_open = lit ''<summary>''"
definition summary_close :: str where "summary_close = lit ''</summary>''"

lemmas tag_defs = analysis_open_def analysis_close_def summary_open_def summary_close_def

subsection \<open>Scratchpads\<close>

text \<open>
  The text before the first \<^verbatim>\<open><analysis>\<close> decides whether it leads: no \<^verbatim>\<open><summary>\<close> stands before
  it, or nothing but whitespace stands between the two; without any \<^verbatim>\<open><summary>\<close>, nothing but
  whitespace stands before it.
\<close>

definition is_leading :: "str \<Rightarrow> str \<Rightarrow> bool" where
  "is_leading result before =
     (case split_once result summary_open of
        Some (outer, _) \<Rightarrow>
          length before < length outer \<or> trim (drop (length outer + length summary_open) before) = []
      | None \<Rightarrow> trim before = [])"

function strip_analysis :: "str \<Rightarrow> str" where
  "strip_analysis result =
     (case split_once result analysis_open of
        None \<Rightarrow> result
      | Some (before, after) \<Rightarrow>
          if \<not> is_leading result before then result
          else case split_once (analysis_open @ after) analysis_close of
                 Some (_, rest) \<Rightarrow> strip_analysis (before @ rest)
               | None \<Rightarrow>
                   (case split_once (analysis_open @ after) summary_open of
                      Some (_, rest) \<Rightarrow> before @ summary_open @ rest
                    | None \<Rightarrow> before))"
  by pat_completeness auto
termination
proof (relation "measure length", goal_cases)
  case (2 result p before after q dropped rest)
  then have "result = before @ analysis_open @ after"
    and "analysis_open @ after = dropped @ analysis_close @ rest"
    using split_once_append by blast+
  then show ?case by (simp add: analysis_close_def)
qed simp

declare strip_analysis.simps [simp del]

definition scratch_lead :: "uchar \<Rightarrow> bool" where
  "scratch_lead c \<longleftrightarrow> c \<in> {35, 42, 45, 62, 32, 9}"

definition strip_leading_scratchpad :: "str \<Rightarrow> str" where
  "strip_leading_scratchpad inner =
     (let s = trim inner;
          lead = dropWhile scratch_lead s;
          digit = (case lead of [] \<Rightarrow> False | c # _ \<Rightarrow> 48 \<le> c \<and> c \<le> 57);
          s = (if digit then s
               else case rsplit_once s analysis_close of Some (_, rest) \<Rightarrow> trim_start rest | None \<Rightarrow> s)
      in case strip_prefix s summary_open of Some rest \<Rightarrow> trim_start rest | None \<Rightarrow> s)"

definition unwrap_summary :: "str \<Rightarrow> str" where
  "unwrap_summary result =
     (case split_once result summary_open of
        None \<Rightarrow> result
      | Some (before, _) \<Rightarrow>
          (case rsplit_once result summary_close of
             None \<Rightarrow> result
           | Some (front, after) \<Rightarrow>
               if length before < length front
               then before @ lit ''Summary:'' @ [10] @
                    strip_leading_scratchpad (trim (drop (length before + length summary_open) front)) @ after
               else result))"

subsection \<open>Control tokens\<close>

definition ZWSP :: uchar where "ZWSP = 8203"

definition defuse :: "string \<Rightarrow> str \<Rightarrow> str" where
  "defuse token s = replace_all s (60 # lit token) (60 # ZWSP # lit token)"

definition neutralize_compaction_control_tokens :: "str \<Rightarrow> str" where
  "neutralize_compaction_control_tokens s =
     defuse ''summary_request>'' (defuse ''/summary_request>''
       (defuse ''analysis>'' (defuse ''/analysis>''
         (defuse ''summary>'' (defuse ''/summary>'' s)))))"

function collapse_blank_lines :: "str \<Rightarrow> str" where
  "collapse_blank_lines s =
     (if contains s [10, 10, 10] then collapse_blank_lines (replace_all s [10, 10, 10] [10, 10]) else s)"
  by pat_completeness auto
termination
  by (relation "measure length") (auto simp: replace_all_shorter)

declare collapse_blank_lines.simps [simp del]

definition format_compact_summary :: "str \<Rightarrow> str" where
  "format_compact_summary summary =
     trim (collapse_blank_lines (neutralize_compaction_control_tokens (unwrap_summary (strip_analysis summary))))"

definition MIN_SUMMARY_SEED_CHARS :: nat where
  "MIN_SUMMARY_SEED_CHARS = 500"

definition is_degenerate_summary :: "str \<Rightarrow> bool" where
  "is_degenerate_summary raw_summary \<longleftrightarrow> length (format_compact_summary raw_summary) < MIN_SUMMARY_SEED_CHARS"

definition format_compact_summary_content :: "str \<Rightarrow> str" where
  "format_compact_summary_content raw_summary =
     lit ''This session is being continued from a previous conversation that ran out of context. The summary below covers the earlier portion of the conversation.'' @
     [10, 10] @ format_compact_summary raw_summary"

definition wrap_user_query :: "str \<Rightarrow> str" where
  "wrap_user_query q = lit ''<user_query>'' @ [10] @ q @ [10] @ lit ''</user_query>''"

subsection \<open>The prompt\<close>

text \<open>The template is a file of the crate that is compiled in: an argument here.\<close>

definition build_summary_prompt :: "str \<Rightarrow> str option \<Rightarrow> str" where
  "build_summary_prompt template user_context =
     replace_all template (lit ''{user_context_section}'')
       (case user_context of
          Some ctx \<Rightarrow>
            [10, 10] @ lit ''**User-provided context for this compaction:**'' @ [10] @ ctx @ [10, 10] @
            lit ''Please incorporate this context into your summary, ensuring it is prominently addressed in the relevant sections.'' @
            [10, 10]
        | None \<Rightarrow> [])"

datatype SummaryPromptKind = Structured | SelfSummary

definition build_summary_prompt_kind :: "str \<Rightarrow> str \<Rightarrow> SummaryPromptKind \<Rightarrow> str option \<Rightarrow> str" where
  "build_summary_prompt_kind template self_summarization_prompt kind user_context =
     (case kind of
        Structured \<Rightarrow> build_summary_prompt template user_context
      | SelfSummary \<Rightarrow>
          (case user_context of
             Some ctx \<Rightarrow>
               self_summarization_prompt @ [10, 10] @ lit ''<user_provided_context>'' @ [10] @ ctx @ [10] @
               lit ''</user_provided_context>'' @ [10, 10] @
               lit ''Incorporate the user-provided context above into your summary.''
           | None \<Rightarrow> self_summarization_prompt))"

subsection \<open>The rebuilt history\<close>

record 't item_factory =
  new_user :: "str \<Rightarrow> 't"
  new_user_meta :: "str \<Rightarrow> 't"
  new_project_instructions :: "str \<Rightarrow> 't"
  new_system_reminder :: "str \<Rightarrow> 't"

record 't CompactedHistoryParts =
  system_message :: 't
  user_message_prefix :: str
  agents_md_reminder :: "str option"
  last_user_query :: "str option"
  recent_messages :: "'t list"
  compaction_summary :: str
  system_reminder :: "str option"
  transcript_hint :: "str option"

definition optional :: "('a \<Rightarrow> 'b) \<Rightarrow> 'a option \<Rightarrow> 'b list" where
  "optional f x = (case x of None \<Rightarrow> [] | Some y \<Rightarrow> [f y])"

definition assemble_compacted_history :: "'t item_factory \<Rightarrow> 't CompactedHistoryParts \<Rightarrow> 't list" where
  "assemble_compacted_history F parts =
     [system_message parts, new_user_meta F (user_message_prefix parts)] @
     optional (new_project_instructions F) (agents_md_reminder parts) @
     optional (\<lambda>q. new_user F (wrap_user_query q)) (last_user_query parts) @
     recent_messages parts @
     [new_user_meta F
        (format_compact_summary_content (compaction_summary parts) @
         (case transcript_hint parts of Some hint \<Rightarrow> hint | None \<Rightarrow> []))] @
     optional (new_system_reminder F) (system_reminder parts)"


subsection \<open>No control token is left\<close>

definition tame :: "string \<Rightarrow> bool" where
  "tame token \<longleftrightarrow> token \<noteq> [] \<and> 60 \<notin> set (lit token) \<and> ZWSP \<notin> set (lit token)"

definition free_of :: "string \<Rightarrow> str \<Rightarrow> bool" where
  "free_of token s \<longleftrightarrow> \<not> contains s (60 # lit token)"

lemma defuse_removes: "tame token \<Longrightarrow> free_of token (defuse token s)"
  unfolding free_of_def defuse_def contains_iff_sublist
  by (rule replace_all_removes [OF refl]) (auto simp: tame_def ZWSP_def lit_def)

lemma defuse_keeps: "tame token \<Longrightarrow> tame other \<Longrightarrow> free_of token s \<Longrightarrow> free_of token (defuse other s)"
  unfolding free_of_def defuse_def contains_iff_sublist
  by (rule replace_all_keeps_out) (auto simp: tame_def ZWSP_def lit_def)

lemma collapse_keeps:
  assumes "free_of token s" and "10 \<notin> set (lit token)"
  shows "free_of token (collapse_blank_lines s)"
  using assms(1)
proof (induction s rule: collapse_blank_lines.induct)
  case (1 s)
  show ?case
  proof (cases "contains s [10, 10, 10]")
    case True
    have "free_of token (replace_all s [10, 10, 10] [10, 10])"
      using "1.prems" unfolding free_of_def contains_iff_sublist
      by (rule replace_all_foreign) (use assms(2) in auto)
    with "1.IH" True show ?thesis by (simp add: collapse_blank_lines.simps [of s])
  qed (use "1.prems" in \<open>simp add: collapse_blank_lines.simps [of s]\<close>)
qed

lemma collapse_no_blank_lines: "\<not> contains (collapse_blank_lines s) [10, 10, 10]"
proof (induction s rule: collapse_blank_lines.induct)
  case (1 s)
  then show ?case
    by (cases "contains s [10, 10, 10]") (simp_all add: collapse_blank_lines.simps [of s])
qed

lemma trim_sublist: "sublist (trim s) s"
proof -
  have "suffix (trim_start s) s" by (simp add: trim_start_def suffix_dropWhile)
  moreover have "prefix (trim_end t) t" for t
  proof -
    have "suffix (dropWhile is_whitespace (rev t)) (rev t)" by (rule suffix_dropWhile)
    then show ?thesis by (simp add: trim_end_def suffix_to_prefix)
  qed
  ultimately show ?thesis
    unfolding trim_def by (meson prefix_imp_sublist suffix_imp_sublist sublist_order.order_trans)
qed

lemma contains_trim: "contains (trim s) p \<Longrightarrow> contains s p"
  unfolding contains_iff_sublist using trim_sublist by (meson sublist_order.order_trans)

definition control_tokens :: "string list" where
  "control_tokens =
     [''/summary>'', ''summary>'', ''/analysis>'', ''analysis>'', ''/summary_request>'', ''summary_request>'']"

lemma control_tokens_tame: "token \<in> set control_tokens \<Longrightarrow> tame token \<and> 10 \<notin> set (lit token)"
  by (auto simp: control_tokens_def tame_def ZWSP_def)

lemma neutralize_free:
  assumes "token \<in> set control_tokens"
  shows "free_of token (neutralize_compaction_control_tokens s)"
proof -
  have t: "tame t" if "t \<in> set control_tokens" for t
    using control_tokens_tame that by blast
  have tames: "tame ''/summary>''" "tame ''summary>''" "tame ''/analysis>''" "tame ''analysis>''"
    "tame ''/summary_request>''" "tame ''summary_request>''"
    using t by (simp_all add: control_tokens_def)
  from assms show ?thesis
    unfolding neutralize_compaction_control_tokens_def control_tokens_def
    by (auto simp: tames defuse_removes defuse_keeps)
qed

text \<open>
  C17: A cleaned summary cannot steer the following turn. Whatever a model wrote, the text that seeds
  the continued conversation holds none of the six tags of the summarization protocol and no run of
  three line feeds: no deletion or replacement on the way forms a tag again. The cleaning ends on
  every input.
\<close>

theorem summary_has_no_control_tokens:
  "list_all (\<lambda>token. \<not> contains (format_compact_summary raw) (60 # lit token)) control_tokens \<and>
   \<not> contains (format_compact_summary raw) [10, 10, 10]"
proof -
  let ?body = "collapse_blank_lines (neutralize_compaction_control_tokens (unwrap_summary (strip_analysis raw)))"
  have "\<not> contains (trim ?body) (60 # lit token)" if "token \<in> set control_tokens" for token
    using collapse_keeps [OF neutralize_free [OF that]] control_tokens_tame [OF that]
    by (auto simp: free_of_def dest: contains_trim)
  moreover have "\<not> contains (trim ?body) [10, 10, 10]"
    using collapse_no_blank_lines by (auto dest: contains_trim)
  ultimately show ?thesis
    by (simp add: format_compact_summary_def list_all_iff)
qed


subsection \<open>A well-formed answer is kept\<close>

lemma defuse_free: "free_of token s \<Longrightarrow> defuse token s = s"
  by (simp add: defuse_def free_of_def not_contains replace_all_none)

lemma neutralize_id:
  assumes "\<And>token. token \<in> set control_tokens \<Longrightarrow> free_of token s"
  shows "neutralize_compaction_control_tokens s = s"
  using assms by (simp add: neutralize_compaction_control_tokens_def control_tokens_def defuse_free)

lemma rsplit_once_end: "p \<noteq> [] \<Longrightarrow> rsplit_once (a @ p) p = Some (a, [])"
proof -
  assume "p \<noteq> []"
  then have "\<not> sublist (rev p) ([] @ butlast (rev p))"
    using sublist_length_le [of "rev p" "butlast (rev p)"] by (cases p) auto
  then show ?thesis
    using split_once_at [of "rev p" "[]" "rev a"] \<open>p \<noteq> []\<close> by (simp add: rsplit_once_def)
qed

lemma split_tag_once:
  assumes "p = 60 # p'" and "60 \<notin> set p'" and "\<not> sublist p a"
  shows "split_once (a @ p @ b) p = Some (a, b)"
proof (rule split_once_at)
  show "\<not> sublist p (a @ butlast p)"
  proof (cases "p' = []")
    case False
    then have b: "butlast p = 60 # butlast p'" using assms(1) by simp
    have "\<not> sublist p (butlast p)"
      using sublist_length_le [of p "butlast p"] assms(1) by auto
    with assms sublist_across [of p a 60 "butlast p'"] b show ?thesis by auto
  qed (use assms in simp)
qed (use assms in simp)

lemma strip_analysis_leading:
  assumes "\<not> contains scratch analysis_close" and "\<not> contains rest analysis_open"
  shows "strip_analysis (analysis_open @ scratch @ analysis_close @ rest) = rest"
proof -
  let ?all = "analysis_open @ scratch @ analysis_close @ rest"
  have open1: "split_once ?all analysis_open = Some ([], scratch @ analysis_close @ rest)"
    using split_tag_once [of analysis_open "lit ''analysis>''" "[]" "scratch @ analysis_close @ rest"]
    by (simp add: analysis_open_def)
  have "\<not> sublist analysis_close (analysis_open @ scratch)"
    using assms(1) by (simp add: contains_iff_sublist analysis_open_def analysis_close_def sublist_Cons_right)
  then have close1: "split_once ?all analysis_close = Some (analysis_open @ scratch, rest)"
    using split_tag_once [of analysis_close "lit ''/analysis>''" "analysis_open @ scratch" rest]
    by (simp add: analysis_close_def)
  have lead: "is_leading ?all []"
  proof (cases "split_once ?all summary_open")
    case (Some p)
    then obtain outer t where p: "split_once ?all summary_open = Some (outer, t)" by (cases p) auto
    have "outer \<noteq> []"
      using split_once_append [OF p] by (auto simp: analysis_open_def summary_open_def)
    with p show ?thesis by (simp add: is_leading_def)
  qed (simp add: is_leading_def str_simps)
  have "strip_analysis rest = rest"
    using assms(2) by (simp add: strip_analysis.simps not_contains)
  with open1 close1 lead show ?thesis
    by (simp add: strip_analysis.simps [of ?all])
qed

text \<open>
  A summary in the form that was asked for is kept word for word. An answer made of a scratchpad
  and a wrapped summary that starts with a numbered section, quotes no tag and has no run of blank
  lines is stored as the body alone behind its heading.
\<close>

theorem well_formed_summary_kept:
  assumes "\<not> contains scratch analysis_close" and "trimmed body" and "body = digit # body_tail" and "48 \<le> digit" and "digit \<le> 57"
    and "list_all (\<lambda>token. \<not> contains body (60 # lit token)) control_tokens" and "\<not> contains body [10, 10, 10]"
  shows "format_compact_summary
      (analysis_open @ scratch @ analysis_close @ [10] @ summary_open @ body @ summary_close) =
    lit ''Summary:'' @ [10] @ body"
proof -
  let ?rest = "[10] @ summary_open @ body @ summary_close" and ?kept = "lit ''Summary:'' @ [10] @ body"
  have free: "free_of token body" if "token \<in> set control_tokens" for token
    using assms(6) that by (simp add: list_all_iff free_of_def)
  have "\<not> sublist (60 # lit ''analysis>'') body"
    using free [of "''analysis>''"] by (simp add: control_tokens_def free_of_def contains_iff_sublist)
  then have "\<not> sublist analysis_open (body @ summary_close)"
    using sublist_across [of analysis_open body 60 "lit ''/summary>''"]
    by (auto simp: analysis_open_def summary_close_def sublist_Cons_right)
  then have "\<not> contains ?rest analysis_open"
    by (simp add: contains_iff_sublist analysis_open_def summary_open_def sublist_Cons_right)
  with assms(1) have strip: "strip_analysis (analysis_open @ scratch @ analysis_close @ ?rest) = ?rest"
    by (rule strip_analysis_leading)
  have unwrap: "unwrap_summary ?rest = [10] @ ?kept"
  proof -
    have "split_once ?rest summary_open = Some ([10], body @ summary_close)"
      using split_tag_once [of summary_open "lit ''summary>''" "[10]" "body @ summary_close"]
      by (simp add: summary_open_def sublist_Cons_right)
    moreover have "rsplit_once ?rest summary_close = Some ([10] @ summary_open @ body, [])"
      using rsplit_once_end [of summary_close "[10] @ summary_open @ body"] by (simp add: summary_close_def)
    moreover have "strip_leading_scratchpad body = body"
      using assms(2-5) by (simp add: strip_leading_scratchpad_def scratch_lead_def summary_open_def strip_prefix_def)
    ultimately show ?thesis using assms(2,3) by (simp add: unwrap_summary_def)
  qed
  have "free_of token ([10] @ ?kept)" if "token \<in> set control_tokens" for token
    using free [OF that] sublist_skip [of "60 # lit token" "[10] @ lit ''Summary:'' @ [10]" body]
    by (auto simp: free_of_def contains_iff_sublist)
  then have neutral: "neutralize_compaction_control_tokens ([10] @ ?kept) = [10] @ ?kept"
    by (rule neutralize_id)
  have "\<not> contains ([10] @ ?kept) [10, 10, 10]"
    using assms(3-5,7) by (auto simp: contains_iff_sublist sublist_Cons_right)
  then have collapse: "collapse_blank_lines ([10] @ ?kept) = [10] @ ?kept"
    by (simp add: collapse_blank_lines.simps)
  have "trimmed ?kept"
    using assms(2,3) by (auto simp: trimmed_def is_whitespace_def)
  then have "trim ([10] @ ?kept) = ?kept"
    using trim_whitespace_append [of "[10]" ?kept] by (simp add: is_whitespace_def)
  with strip unwrap neutral collapse show ?thesis
    by (simp add: format_compact_summary_def)
qed


theorem well_formed_summary_kept_witness:
  "format_compact_summary (lit ''<analysis>hm</analysis>'' @ [10] @ lit ''<summary>1. Fix it</summary>'') =
   lit ''Summary:'' @ [10] @ lit ''1. Fix it''"
  using well_formed_summary_kept [of "lit ''hm''" "lit ''1. Fix it''"]
  by (simp add: tag_defs control_tokens_def contains_iff_sublist sublist_Cons_right trimmed_def is_whitespace_def)

end
