(* ===== verification/Compaction_Sample.thy ===== *)
theory Compaction_Sample
  imports Compaction_Summary
begin

text \<open>
  Asking a model for a summary (\<^verbatim>\<open>xai-grok-compaction/src/\<close>: \<^verbatim>\<open>sampler.rs\<close>,
  \<^verbatim>\<open>code_compaction/failure.rs\<close>, \<^verbatim>\<open>sample.rs\<close>, \<^verbatim>\<open>observer.rs\<close> and \<^verbatim>\<open>compact.rs\<close>): the classification of
  failures and the bounded retry loop. The sampler is implemented outside the crate: it is a
  function on the state of the host. The observer is the list of what it was told. The pauses
  between attempts have no effect but time and are left out.
\<close>

subsection \<open>Samplers and their errors\<close>

record LlmCompactionOutput =
  response :: str
  thinking :: str

record CompactionPrompt =
  prompt_system :: str
  prompt_user :: str

datatype CompactionSampleError =
    Timeout u64 usize
  | Build str
  | Start str
  | EmptyResponse
  | ContextOverflow str
  | Other str

definition SAMPLER_BUILD_FAILED_PREFIX :: str where
  "SAMPLER_BUILD_FAILED_PREFIX = lit ''Compaction sampler build failed: ''"

definition SAMPLER_START_FAILED_PREFIX :: str where
  "SAMPLER_START_FAILED_PREFIX = lit ''Compaction sampler start failed: ''"

definition CompactionSampleError_to_string :: "CompactionSampleError \<Rightarrow> str" where
  "CompactionSampleError_to_string e =
     (case e of
        Timeout timeout_secs collected_bytes \<Rightarrow>
          lit ''Compaction sampling timed out after '' @ show_nat (unat timeout_secs) @ lit ''s (collected '' @
          show_nat (unat collected_bytes) @ lit '' bytes so far)''
      | Build msg \<Rightarrow> SAMPLER_BUILD_FAILED_PREFIX @ msg
      | Start msg \<Rightarrow> SAMPLER_START_FAILED_PREFIX @ msg
      | EmptyResponse \<Rightarrow> lit ''Compaction sampler returned no response channel content''
      | ContextOverflow msg \<Rightarrow> msg
      | Other err \<Rightarrow> err)"

definition is_deterministic :: "CompactionSampleError \<Rightarrow> bool" where
  "is_deterministic e =
     (case e of
        Timeout _ _ \<Rightarrow> False
      | EmptyResponse \<Rightarrow> False
      | Build _ \<Rightarrow> True
      | Start _ \<Rightarrow> True
      | ContextOverflow _ \<Rightarrow> True
      | Other msg \<Rightarrow>
          contains msg (lit ''Failed to build AgenticScheduler'') \<or>
          contains msg (lit ''Failed to start compaction sample''))"

definition is_context_overflow :: "CompactionSampleError \<Rightarrow> bool" where
  "is_context_overflow e = (case e of ContextOverflow _ \<Rightarrow> True | _ \<Rightarrow> False)"

type_synonym ('s, 't) sampler =
  "'s \<Rightarrow> 't list \<Rightarrow> CompactionPrompt \<Rightarrow> duration \<Rightarrow> (CompactionSampleError + LlmCompactionOutput) \<times> 's"

subsection \<open>Size overflows\<close>

definition is_anchored :: "str \<Rightarrow> str \<Rightarrow> bool" where
  "is_anchored m needle \<longleftrightarrow> list_ex (\<lambda>segment. starts_with segment needle) (split_str m (lit '': ''))"

definition has_size_slug :: "str \<Rightarrow> bool" where
  "has_size_slug m \<longleftrightarrow>
     list_ex (\<lambda>slug. is_anchored m slug)
       [lit ''context_length_exceeded'', lit ''exceed_context_size_error'', lit ''payload_too_large'']"

definition has_rendered_413_phrase :: "str \<Rightarrow> bool" where
  "has_rendered_413_phrase m \<longleftrightarrow>
     contains m (lit ''413 payload too large'') \<or> contains m (lit ''413 content too large'') \<or>
     contains m (lit ''413 request entity too large'')"

definition has_input_length_pair :: "str \<Rightarrow> bool" where
  "has_input_length_pair m \<longleftrightarrow>
     contains m (lit ''input length'') \<and> contains m (lit ''exceeds the maximum allowed length'')"

definition is_context_length_error :: "str \<Rightarrow> bool" where
  "is_context_length_error message =
     (let m = to_ascii_lowercase message
      in contains m (lit ''too long for this model'') \<or>
         contains m (lit ''prompt is too long'') \<or>
         contains m (lit ''maximum prompt length'') \<or>
         contains m (lit ''maximum context length'') \<or>
         contains m (lit ''maximum allowed number of bytes'') \<or>
         contains m (lit ''current message'') \<and> contains m (lit ''exceeds budget'') \<or>
         is_anchored m (lit ''request too large'') \<or>
         has_size_slug m \<or> has_rendered_413_phrase m \<or> has_input_length_pair m)"

subsection \<open>The retry loop\<close>

datatype FullReplaceAttemptOutcome =
    Success str
  | EmptyResponse bool
  | Degenerate str bool
  | Failure (failure_message: str) (failure_deterministic: bool) (failure_overflow: bool) (failure_will_retry: bool)

record SampledSummary =
  sampled_summary :: str
  sampled_attempts :: nat

datatype SampleRetryError =
    Empty nat
  | Failure str bool bool nat

text \<open>
  One attempt: what the observer is told, and the result when the loop stops there. \<open>will_retry\<close> says
  that attempts are left.
\<close>

definition classify_attempt ::
    "nat \<Rightarrow> bool \<Rightarrow> CompactionSampleError + LlmCompactionOutput \<Rightarrow>
     FullReplaceAttemptOutcome \<times> (SampleRetryError + SampledSummary) option" where
  "classify_attempt attempt will_retry reply =
     (case reply of
        Inr out \<Rightarrow>
          if trim (response out) \<noteq> []
          then if is_degenerate_summary (response out)
               then (Degenerate (response out) will_retry,
                     if \<not> will_retry then Some (Inl (Empty attempt)) else None)
               else (Success (response out),
                     Some (Inr \<lparr>sampled_summary = response out, sampled_attempts = attempt\<rparr>))
          else (FullReplaceAttemptOutcome.EmptyResponse will_retry,
                if \<not> will_retry then Some (Inl (Empty attempt)) else None)
      | Inl e \<Rightarrow>
          let message = CompactionSampleError_to_string e;
              context_overflow = (is_context_overflow e \<or> is_context_length_error message);
              deterministic = (is_deterministic e \<or> context_overflow);
              retrying = (will_retry \<and> \<not> deterministic)
          in (FullReplaceAttemptOutcome.Failure message deterministic context_overflow retrying,
              if deterministic then Some (Inl (SampleRetryError.Failure message True context_overflow attempt))
              else if \<not> will_retry then Some (Inl (SampleRetryError.Failure message False False attempt))
              else None))"

fun sample_attempts ::
    "('s \<Rightarrow> (CompactionSampleError + LlmCompactionOutput) \<times> 's) \<Rightarrow> nat \<Rightarrow> nat list \<Rightarrow> 's \<Rightarrow>
     (SampleRetryError + SampledSummary) \<times> 's \<times> (nat \<times> FullReplaceAttemptOutcome) list" where
  "sample_attempts call max_attempts [] s = (Inl (Empty max_attempts), s, [])"
| "sample_attempts call max_attempts (attempt # rest) s =
     (let (reply, s') = call s;
          (outcome, stop) = classify_attempt attempt (attempt < max_attempts) reply
      in case stop of
           Some r \<Rightarrow> (r, s', [(attempt, outcome)])
         | None \<Rightarrow> (let (r, s'', told) = sample_attempts call max_attempts rest s' in (r, s'', (attempt, outcome) # told)))"

definition sample_summary_with_retries ::
    "('s, 't) sampler \<Rightarrow> 't list \<Rightarrow> CompactionPrompt \<Rightarrow> u32 \<Rightarrow> duration \<Rightarrow> 's \<Rightarrow>
     (SampleRetryError + SampledSummary) \<times> 's \<times> (nat \<times> FullReplaceAttemptOutcome) list" where
  "sample_summary_with_retries sampler turns prompt max_attempts timeout s =
     (let n = max (unat max_attempts) 1
      in sample_attempts (\<lambda>s. sampler s turns prompt timeout) n [1..<Suc n] s)"

subsection \<open>The full-replace pass\<close>

record 't FullReplaceContext =
  ctx_system_message :: 't
  ctx_user_message_prefix :: str
  ctx_agents_md_reminder :: "str option"
  ctx_last_user_query :: "str option"
  ctx_recent_messages :: "'t list"
  ctx_system_reminder :: "str option"
  ctx_transcript_hint :: "str option"

datatype FullReplaceError =
    NothingToCompact
  | EmptyResponse
  | Sampler str bool bool

record 't FullReplaceOutput =
  output_history :: "'t list"
  output_summary :: str
  output_attempts :: nat

record FullReplaceSummary =
  replace_summary :: str
  replace_attempts :: nat

record FullReplaceConfig =
  config_max_attempts :: u32
  config_retry_delay_secs :: u64
  config_sampling_timeout_secs :: u64

definition FullReplaceConfig_default :: FullReplaceConfig where
  "FullReplaceConfig_default =
     \<lparr>config_max_attempts = 3, config_retry_delay_secs = 3, config_sampling_timeout_secs = 120\<rparr>"

datatype FullReplaceEvent = OnAttempt nat FullReplaceAttemptOutcome | OnSuccess nat nat | OnError nat

definition sample_full_replace_summary ::
    "('s, 't) sampler \<Rightarrow> str \<Rightarrow> 't list \<Rightarrow> str option \<Rightarrow> FullReplaceConfig \<Rightarrow> 's \<Rightarrow>
     (FullReplaceError + FullReplaceSummary) \<times> 's \<times> FullReplaceEvent list" where
  "sample_full_replace_summary sampler template llm_turns user_context config s =
     (if llm_turns = [] then (Inl NothingToCompact, s, [])
      else let prompt = \<lparr>prompt_system = [], prompt_user = build_summary_prompt template user_context\<rparr>;
               timeout = from_secs (unat (config_sampling_timeout_secs config));
               (r, s', told) =
                 sample_summary_with_retries sampler llm_turns prompt (config_max_attempts config) timeout s;
               attempts_told = map (\<lambda>(n, outcome). OnAttempt n outcome) told
           in case r of
                Inr ok \<Rightarrow>
                  (Inr \<lparr>replace_summary = sampled_summary ok, replace_attempts = sampled_attempts ok\<rparr>, s',
                   attempts_told @ [OnSuccess (sampled_attempts ok) (length (sampled_summary ok))])
              | Inl (Empty attempts) \<Rightarrow>
                  (Inl FullReplaceError.EmptyResponse, s', attempts_told @ [OnError attempts])
              | Inl (SampleRetryError.Failure message deterministic context_overflow attempts) \<Rightarrow>
                  (Inl (Sampler message deterministic context_overflow), s', attempts_told @ [OnError attempts]))"

definition apply_full_replace_compaction ::
    "'t item_factory \<Rightarrow> ('s, 't) sampler \<Rightarrow> str \<Rightarrow> 't list \<Rightarrow> str option \<Rightarrow> 't FullReplaceContext \<Rightarrow>
     FullReplaceConfig \<Rightarrow> 's \<Rightarrow> (FullReplaceError + 't FullReplaceOutput) \<times> 's \<times> FullReplaceEvent list" where
  "apply_full_replace_compaction F sampler template llm_turns user_context ctx config s =
     (case sample_full_replace_summary sampler template llm_turns user_context config s of
        (Inl e, s', told) \<Rightarrow> (Inl e, s', told)
      | (Inr ok, s', told) \<Rightarrow>
          let parts =
            \<lparr>system_message = ctx_system_message ctx, user_message_prefix = ctx_user_message_prefix ctx,
             agents_md_reminder = ctx_agents_md_reminder ctx, last_user_query = ctx_last_user_query ctx,
             recent_messages = ctx_recent_messages ctx, compaction_summary = replace_summary ok,
             system_reminder = ctx_system_reminder ctx, transcript_hint = ctx_transcript_hint ctx\<rparr>
          in (Inr \<lparr>output_history = assemble_compacted_history F parts, output_summary = replace_summary ok,
                   output_attempts = replace_attempts ok\<rparr>, s', told))"


subsection \<open>The discipline of the loop\<close>

definition outcome_will_retry :: "FullReplaceAttemptOutcome \<Rightarrow> bool" where
  "outcome_will_retry outcome =
     (case outcome of
        Success _ \<Rightarrow> False
      | FullReplaceAttemptOutcome.EmptyResponse w \<Rightarrow> w
      | Degenerate _ w \<Rightarrow> w
      | FullReplaceAttemptOutcome.Failure _ _ _ w \<Rightarrow> w)"

definition outcome_deterministic :: "FullReplaceAttemptOutcome \<Rightarrow> bool" where
  "outcome_deterministic outcome =
     (case outcome of FullReplaceAttemptOutcome.Failure _ d _ _ \<Rightarrow> d | _ \<Rightarrow> False)"

definition attempts_of :: "SampleRetryError + SampledSummary \<Rightarrow> nat" where
  "attempts_of r =
     (case r of
        Inr ok \<Rightarrow> sampled_attempts ok
      | Inl (Empty n) \<Rightarrow> n
      | Inl (SampleRetryError.Failure _ _ _ n) \<Rightarrow> n)"

text \<open>The result says what the final attempt was.\<close>

definition verdict_of :: "SampleRetryError + SampledSummary \<Rightarrow> FullReplaceAttemptOutcome \<Rightarrow> bool" where
  "verdict_of r outcome =
     (case r of
        Inr ok \<Rightarrow> outcome = Success (sampled_summary ok) \<and> \<not> is_degenerate_summary (sampled_summary ok)
      | Inl (Empty _) \<Rightarrow>
          (case outcome of
             FullReplaceAttemptOutcome.EmptyResponse w \<Rightarrow> \<not> w
           | Degenerate m w \<Rightarrow> \<not> w \<and> is_degenerate_summary m
           | _ \<Rightarrow> False)
      | Inl (SampleRetryError.Failure m d v _) \<Rightarrow> outcome = FullReplaceAttemptOutcome.Failure m d v False)"

lemmas attempt_defs = outcome_will_retry_def outcome_deterministic_def attempts_of_def verdict_of_def

lemma classify_stops:
  assumes "classify_attempt n w reply = (outcome, Some r)"
  shows "\<not> outcome_will_retry outcome \<and> attempts_of r = n \<and> verdict_of r outcome"
  using assms
  by (auto simp: classify_attempt_def Let_def attempt_defs split: sum.splits if_splits)

lemma classify_goes_on:
  assumes "classify_attempt n w reply = (outcome, None)"
  shows "w \<and> outcome_will_retry outcome \<and> \<not> outcome_deterministic outcome"
  using assms
  by (auto simp: classify_attempt_def Let_def attempt_defs split: sum.splits if_splits)

definition retry_run ::
    "('s \<Rightarrow> 'a \<times> 's) \<Rightarrow> nat \<Rightarrow> nat \<Rightarrow> 's \<Rightarrow>
     (SampleRetryError + SampledSummary) \<times> 's \<times> (nat \<times> FullReplaceAttemptOutcome) list \<Rightarrow> bool" where
  "retry_run call a n s out =
     (case out of (r, s', told) \<Rightarrow>
        told \<noteq> [] \<and> a + length told \<le> Suc n \<and> map fst told = [a..<a + length told] \<and>
        Suc (attempts_of r) = a + length told \<and> s' = ((\<lambda>s. snd (call s)) ^^ length told) s \<and>
        list_all (\<lambda>(_, outcome). outcome_will_retry outcome \<and> \<not> outcome_deterministic outcome) (butlast told) \<and>
        \<not> outcome_will_retry (snd (last told)) \<and> verdict_of r (snd (last told)))"

lemma sample_attempts_run:
  assumes "a \<le> n"
  shows "retry_run call a n s (sample_attempts call n [a..<Suc n] s)"
  using assms
proof (induction "n - a" arbitrary: a s)
  case 0
  then have "a = n" by simp
  moreover obtain reply s' where call: "call s = (reply, s')" by (cases "call s")
  moreover obtain outcome stop where c: "classify_attempt n False reply = (outcome, stop)"
    by (cases "classify_attempt n False reply")
  moreover obtain r where "stop = Some r"
    using classify_goes_on [of n False reply outcome] c by (cases stop) auto
  ultimately show ?case
    using classify_stops [of n False reply outcome] by (simp add: retry_run_def)
next
  case (Suc k)
  then have a: "a < n" by simp
  obtain reply s' where call: "call s = (reply, s')" by (cases "call s")
  obtain outcome stop where c: "classify_attempt a True reply = (outcome, stop)"
    by (cases "classify_attempt a True reply")
  have upt: "[a..<Suc n] = a # [Suc a..<Suc n]" using a by (simp add: upt_conv_Cons)
  show ?case
  proof (cases stop)
    case (Some r)
    with call c a classify_stops [of a True reply outcome r] show ?thesis
      by (simp add: upt retry_run_def upt_conv_Cons del: upt_Suc)
  next
    case None
    obtain r s'' told where rest: "sample_attempts call n [Suc a..<Suc n] s' = (r, s'', told)"
      by (cases "sample_attempts call n [Suc a..<Suc n] s'")
    have "retry_run call (Suc a) n s' (r, s'', told)"
      using Suc.hyps(1) [of "Suc a" s'] Suc.hyps(2) a rest by simp
    moreover have "((\<lambda>s. snd (call s)) ^^ Suc k) s = ((\<lambda>s. snd (call s)) ^^ k) s'" for k
      using call by (simp add: funpow_Suc_right del: funpow.simps)
    moreover have "[a..<Suc (a + k)] = a # [Suc a..<Suc (a + k)]" for k
      by (simp add: upt_conv_Cons)
    ultimately show ?thesis
      using None rest call c a classify_goes_on [of a True reply outcome]
      by (auto simp: upt retry_run_def simp del: upt_Suc funpow.simps)
  qed
qed

text \<open>
  C19: Asking for a summary is bounded and never insists on a hopeless request. The sampler is called
  at least once and at most \<open>max_attempts\<close> times, once per attempt reported, and the result carries
  that number. Every attempt but the final one was announced as retried and was no deterministic
  failure; the final one was not. A result is returned exactly for a summary that is not degenerate.
\<close>

theorem sampling_is_bounded:
  "case sample_summary_with_retries sampler turns prompt max_attempts timeout s of (r, s', told) \<Rightarrow>
     1 \<le> attempts_of r \<and> attempts_of r \<le> max (unat max_attempts) 1 \<and>
     map fst told = [1..<Suc (attempts_of r)] \<and>
     s' = ((\<lambda>s. snd (sampler s turns prompt timeout)) ^^ attempts_of r) s \<and>
     list_all (\<lambda>(_, outcome). outcome_will_retry outcome \<and> \<not> outcome_deterministic outcome) (butlast told) \<and>
     \<not> outcome_will_retry (snd (last told)) \<and> verdict_of r (snd (last told))"
  using sample_attempts_run [of 1 "max (unat max_attempts) 1" "\<lambda>s. sampler s turns prompt timeout" s]
  by (cases "sample_summary_with_retries sampler turns prompt max_attempts timeout s")
    (auto simp: sample_summary_with_retries_def retry_run_def Let_def Suc_le_eq simp del: upt_Suc)

end
