(* ===== verification/Compaction_Intra.thy ===== *)
theory Compaction_Intra
  imports Compaction_Fit Compaction_History Compaction_Sample Rust_Float
begin

text \<open>
  Compaction inside a running agent loop (\<^verbatim>\<open>xai-grok-compaction/src/intra_compaction/\<close>): the trigger,
  the four modes and the passes that select, sample, guard and commit. The stream processor, the
  sampler, the token counter and the clock are implemented outside the crate: the host is a record of
  functions on the parser's state and on the rest of the world. The observer is the list of its calls.
  A panic (\<open>unreachable!\<close>) is the result \<open>None\<close>.
\<close>

subsection \<open>Configuration and trigger\<close>

datatype IntraCompactionMode = FullReplace | StepsOnly | HistoryOnly | HistoryThenSteps

datatype IntraSummarizer = Shared | Legacy

record IntraCompactionConfig =
  enabled :: bool
  mode :: IntraCompactionMode
  trigger_threshold_percent :: u8
  min_steps_before_compact :: u32
  min_compactable_tokens :: u32
  max_reduction_ratio :: f64
  compaction_model_name :: "str option"
  sampling_timeout_secs :: u64
  max_attempts :: u32
  retry_delay_secs :: u64
  compaction_version :: str
  summarizer :: IntraSummarizer
  target_threshold_percent :: u8
  steps_trigger_ratio :: f64
  user_message_truncate_chars :: u32

definition DEFAULT_COMPACTION_MODEL_NAME :: str where
  "DEFAULT_COMPACTION_MODEL_NAME = lit ''grok-4.20''"

definition effective_compaction_model_name :: "IntraCompactionConfig \<Rightarrow> str" where
  "effective_compaction_model_name c =
     (case compaction_model_name c of
        Some s \<Rightarrow> if trim s \<noteq> [] then trim s else DEFAULT_COMPACTION_MODEL_NAME
      | None \<Rightarrow> DEFAULT_COMPACTION_MODEL_NAME)"

definition IntraCompactionConfig_default :: IntraCompactionConfig where
  "IntraCompactionConfig_default =
     \<lparr>enabled = False, mode = FullReplace, trigger_threshold_percent = 85, min_steps_before_compact = 3,
      min_compactable_tokens = 5000, max_reduction_ratio = f64_of_ratio 8 10,
      compaction_model_name = Some DEFAULT_COMPACTION_MODEL_NAME, sampling_timeout_secs = 120, max_attempts = 2,
      retry_delay_secs = 3, compaction_version = lit ''intra-v1'', summarizer = Shared, target_threshold_percent = 50,
      steps_trigger_ratio = f64_of_ratio 3 10, user_message_truncate_chars = 3000\<rparr>"

record IntraCompactionTrigger =
  last_prompt_tokens :: u32
  context_window :: u32
  trigger_percent :: u8
  trigger_step :: u32

text \<open>The products are computed in \<open>u64\<close>, where they cannot overflow, and cut to \<open>u32\<close>.\<close>

definition percent_of :: "u32 \<Rightarrow> u8 \<Rightarrow> u32" where
  "percent_of n percent = word_of_nat (unat n * unat percent div 100)"

definition should_compact ::
    "IntraCompactionConfig \<Rightarrow> u32 \<Rightarrow> u32 \<Rightarrow> u32 \<Rightarrow> IntraCompactionTrigger option" where
  "should_compact policy last_tokens window current_step =
     (if \<not> enabled policy then None
      else if window = 0 then None
      else if mode policy \<noteq> FullReplace \<and> current_step < min_steps_before_compact policy then None
      else if last_tokens \<le> percent_of window (trigger_threshold_percent policy) then None
      else Some \<lparr>last_prompt_tokens = last_tokens, context_window = window,
                 trigger_percent = word_of_nat (min (unat last_tokens * 100 div unat window) 100),
                 trigger_step = current_step\<rparr>)"

record IntraCompactionResult =
  tokens_before :: u32
  tokens_after :: u32
  turns_compacted :: u32
  elapsed :: duration
  result_summary :: str

datatype IntraCompactionError =
    NothingToCompact
  | Timeout
  | EmptyResponse
  | InsufficientReduction u32 u32
  | InvalidSplit nat nat
  | Unsupported
  | SamplerBuild str
  | SamplerStart str
  | SamplerStream str
  | ContextOverflow str
  | Apply str

definition error_status_label :: "IntraCompactionError \<Rightarrow> str" where
  "error_status_label err =
     (case err of
        NothingToCompact \<Rightarrow> lit ''nothing_to_compact''
      | Timeout \<Rightarrow> lit ''timeout''
      | EmptyResponse \<Rightarrow> lit ''empty_response''
      | InsufficientReduction _ _ \<Rightarrow> lit ''insufficient_reduction''
      | InvalidSplit _ _ \<Rightarrow> lit ''invalid_split''
      | Unsupported \<Rightarrow> lit ''unsupported''
      | SamplerBuild _ \<Rightarrow> lit ''sampler_build''
      | SamplerStart _ \<Rightarrow> lit ''sampler_start''
      | SamplerStream _ \<Rightarrow> lit ''sampler_stream''
      | ContextOverflow _ \<Rightarrow> lit ''context_overflow''
      | Apply _ \<Rightarrow> lit ''apply'')"

subsection \<open>The host\<close>

datatype CompactionTarget = Steps | History | FullReplace

definition CompactionTarget_label :: "CompactionTarget \<Rightarrow> str" where
  "CompactionTarget_label t =
     (case t of Steps \<Rightarrow> lit ''steps'' | History \<Rightarrow> lit ''history'' | FullReplace \<Rightarrow> lit ''full_replace'')"

datatype IntraEvent = on_error str | on_success CompactionTarget u32 u32 u32 duration

text \<open>
  \<open>'p\<close> is the state of the stream processor and \<open>'s\<close> the rest of the world, which sampling and time
  change.
\<close>

record ('t, 'p, 's) host =
  items :: "'t compaction_item"
  get_accumulated_turns :: "'p \<Rightarrow> 't list"
  get_history_turns :: "'p \<Rightarrow> 't list"
  replace_with_compaction ::
    "'p \<Rightarrow> 's \<Rightarrow> CompactionTarget \<Rightarrow> nat \<Rightarrow> 't \<Rightarrow> (IntraCompactionError + unit) \<times> 'p \<times> 's"
  sample_compaction :: "('s, 't) sampler"
  count_item_tokens :: "'t \<Rightarrow> u32"
  now :: "'s \<Rightarrow> instant"
  summary_template :: str
  steps_prompt :: CompactionPrompt
  history_prompt :: str

record ('p, 's) world =
  parser :: 'p
  outside :: 's
  observed :: "IntraEvent list"

type_synonym ('p, 's) intra_outcome =
  "(IntraCompactionError + IntraCompactionResult) option \<times> ('p, 's) world"

subsection \<open>Sampling\<close>

definition sample_shared_summary_with_retries ::
    "('t, 'p, 's) host \<Rightarrow> 't list \<Rightarrow> IntraCompactionConfig \<Rightarrow> 's \<Rightarrow> (IntraCompactionError + str) \<times> 's" where
  "sample_shared_summary_with_retries H turns policy s =
     (let prompt = \<lparr>prompt_system = [], prompt_user = build_summary_prompt (summary_template H) None\<rparr>;
          timeout = from_secs (unat (sampling_timeout_secs policy));
          (r, s', _) = sample_summary_with_retries (sample_compaction H) turns prompt (max_attempts policy) timeout s
      in (case r of
            Inr ok \<Rightarrow> Inr (format_compact_summary (sampled_summary ok))
          | Inl (Empty _) \<Rightarrow> Inl EmptyResponse
          | Inl (SampleRetryError.Failure message deterministic context_overflow _) \<Rightarrow>
              if context_overflow then Inl (ContextOverflow message)
              else if deterministic then Inl (SamplerBuild message)
              else Inl (SamplerStream message), s'))"

definition compaction_sample_error_to_intra :: "CompactionSampleError \<Rightarrow> IntraCompactionError" where
  "compaction_sample_error_to_intra err =
     (case err of
        CompactionSampleError.Timeout _ _ \<Rightarrow> Timeout
      | Build msg \<Rightarrow> SamplerBuild msg
      | Start msg \<Rightarrow> SamplerStart msg
      | CompactionSampleError.ContextOverflow msg \<Rightarrow> ContextOverflow msg
      | CompactionSampleError.EmptyResponse \<Rightarrow> EmptyResponse
      | Other msg \<Rightarrow>
          if contains msg (lit ''Failed to build'') then SamplerBuild msg
          else if contains msg (lit ''Failed to start'') then SamplerStart msg
          else if contains msg (lit ''no response channel content'') then EmptyResponse
          else SamplerStream msg)"

definition is_transient :: "IntraCompactionError \<Rightarrow> bool" where
  "is_transient err =
     (case err of
        Timeout \<Rightarrow> True | EmptyResponse \<Rightarrow> True | SamplerStream _ \<Rightarrow> True | SamplerStart _ \<Rightarrow> True | _ \<Rightarrow> False)"

fun legacy_attempts ::
    "('s \<Rightarrow> (CompactionSampleError + LlmCompactionOutput) \<times> 's) \<Rightarrow> nat \<Rightarrow> nat list \<Rightarrow>
     IntraCompactionError option \<Rightarrow> 's \<Rightarrow> (IntraCompactionError + str) \<times> 's" where
  "legacy_attempts call n [] last_err s =
     (Inl (case last_err of Some e \<Rightarrow> e | None \<Rightarrow> EmptyResponse), s)"
| "legacy_attempts call n (attempt # rest) last_err s =
     (case call s of
        (Inr out, s') \<Rightarrow> (Inr (response out), s')
      | (Inl e, s') \<Rightarrow>
          let intra_err = compaction_sample_error_to_intra e
          in if is_transient intra_err \<and> attempt < n
             then legacy_attempts call n rest (Some intra_err) s'
             else (Inl intra_err, s'))"

definition sample_compaction_with_retries ::
    "('t, 'p, 's) host \<Rightarrow> 't list \<Rightarrow> CompactionPrompt \<Rightarrow> duration \<Rightarrow> IntraCompactionConfig \<Rightarrow> 's \<Rightarrow>
     (IntraCompactionError + str) \<times> 's" where
  "sample_compaction_with_retries H turns prompt timeout policy s =
     (let n = max (unat (max_attempts policy)) 1
      in legacy_attempts (\<lambda>s. sample_compaction H s turns prompt timeout) n [1..<Suc n] None s)"

definition build_prompt_for_target :: "('t, 'p, 's) host \<Rightarrow> CompactionTarget \<Rightarrow> CompactionPrompt option" where
  "build_prompt_for_target H target =
     (case target of
        Steps \<Rightarrow> Some (steps_prompt H)
      | History \<Rightarrow> Some \<lparr>prompt_system = history_prompt H, prompt_user = history_prompt H\<rparr>
      | FullReplace \<Rightarrow> None)"

definition append_reminder_block :: "str \<Rightarrow> str option \<Rightarrow> str" where
  "append_reminder_block summary reminder =
     (case reminder of
        Some r \<Rightarrow> if trim r \<noteq> [] then summary @ [10, 10] @ r else summary
      | None \<Rightarrow> summary)"


subsection \<open>The passes\<close>

definition reduction_limit :: "u32 \<Rightarrow> IntraCompactionConfig \<Rightarrow> u32" where
  "reduction_limit before policy = f64_as_u32 (f64_mul (nat_as_f64 (unat before)) (max_reduction_ratio policy))"

text \<open>
  The last steps of a pass, shared by the two of them: count the summary, refuse it when it does not
  reduce enough, and commit it.
\<close>

definition commit_summary ::
    "('t, 'p, 's) host \<Rightarrow> IntraCompactionConfig \<Rightarrow> CompactionTarget \<Rightarrow> instant \<Rightarrow> u32 \<Rightarrow> nat \<Rightarrow> str \<Rightarrow>
     ('p, 's) world \<Rightarrow> ('p, 's) intra_outcome" where
  "commit_summary H policy target start before n_turns summary w =
     (let compaction_turn = compaction_summary_item (items H) summary;
          after = count_item_tokens H compaction_turn
      in if 0 < before \<and> reduction_limit before policy < after
         then (Some (Inl (InsufficientReduction before after)), w)
         else case replace_with_compaction H (parser w) (outside w) target n_turns compaction_turn of
                (Inl e, p, s) \<Rightarrow> (Some (Inl e), w\<lparr>parser := p, outside := s\<rparr>)
              | (Inr _, p, s) \<Rightarrow>
                  let took = saturating_duration_since (now H s) start
                  in (Some (Inr \<lparr>tokens_before = before, tokens_after = after, turns_compacted = word_of_nat n_turns,
                                 elapsed = took, result_summary = summary\<rparr>),
                      w\<lparr>parser := p, outside := s,
                        observed := observed w @ [on_success target before after (word_of_nat n_turns) took]\<rparr>))"

definition apply_full_replace_pass ::
    "('t, 'p, 's) host \<Rightarrow> IntraCompactionConfig \<Rightarrow> str option \<Rightarrow> u32 option \<Rightarrow> ('p, 's) world \<Rightarrow>
     ('p, 's) intra_outcome" where
  "apply_full_replace_pass H policy active_reminder summarizer_input_budget w =
     (let start = now H (outside w);
          history_turns = get_history_turns H (parser w);
          step_turns = get_accumulated_turns H (parser w);
          total_turns = length history_turns + length step_turns
      in if total_turns = 0 then (Some (Inl NothingToCompact), w)
         else let before = sum_list (map (count_item_tokens H) (history_turns @ step_turns))
              in if before < min_compactable_tokens policy then (Some (Inl NothingToCompact), w)
                 else let fitted =
                        (case summarizer_input_budget of
                           Some budget \<Rightarrow>
                             let plan = fit_turns_for_summarizer (items H) history_turns step_turns (count_item_tokens H) budget
                             in if llm_turns plan = [] \<or> tokens_fit plan = 0 then None else Some (llm_turns plan)
                         | None \<Rightarrow> Some (history_turns @ step_turns))
                      in case fitted of
                           None \<Rightarrow> (Some (Inl NothingToCompact), w)
                         | Some turns \<Rightarrow>
                             (case sample_shared_summary_with_retries H turns policy (outside w) of
                                (Inl e, s) \<Rightarrow> (Some (Inl e), w\<lparr>outside := s\<rparr>)
                              | (Inr summary, s) \<Rightarrow>
                                  commit_summary H policy CompactionTarget.FullReplace start before total_turns
                                    (append_reminder_block summary active_reminder) (w\<lparr>outside := s\<rparr>)))"

definition sample_for_target ::
    "('t, 'p, 's) host \<Rightarrow> IntraCompactionConfig \<Rightarrow> CompactionTarget \<Rightarrow> 't list \<Rightarrow> 's \<Rightarrow>
     (IntraCompactionError + str) option \<times> 's" where
  "sample_for_target H policy target turns s =
     (case summarizer policy of
        Legacy \<Rightarrow>
          (case build_prompt_for_target H target of
             None \<Rightarrow> (None, s)
           | Some prompt \<Rightarrow>
               let timeout = from_secs (unat (sampling_timeout_secs policy));
                   (r, s') = sample_compaction_with_retries H turns prompt timeout policy s
               in (Some r, s'))
      | Shared \<Rightarrow> (let (r, s') = sample_shared_summary_with_retries H turns policy s in (Some r, s')))"

definition final_summary ::
    "('t, 'p, 's) host \<Rightarrow> IntraCompactionConfig \<Rightarrow> CompactionTarget \<Rightarrow> 't list \<Rightarrow> str option \<Rightarrow> str \<Rightarrow> str" where
  "final_summary H policy target turns_to_compact prior summary =
     (case target of
        History \<Rightarrow>
          let current = extract_user_queries_from_turns (items H) turns_to_compact (user_message_truncate_chars policy);
              preamble = assemble_user_queries_preamble prior current
          in if preamble = [] then summary else preamble @ summary
      | _ \<Rightarrow> summary)"

definition compact_one_pass ::
    "('t, 'p, 's) host \<Rightarrow> IntraCompactionConfig \<Rightarrow> IntraCompactionTrigger \<Rightarrow> CompactionTarget \<Rightarrow>
     ('p, 's) world \<Rightarrow> ('p, 's) intra_outcome" where
  "compact_one_pass H policy trigger target w =
     (if target = CompactionTarget.FullReplace then (None, w)
      else let start = now H (outside w);
               source_turns = (case target of
                                 Steps \<Rightarrow> get_accumulated_turns H (parser w)
                               | _ \<Rightarrow> get_history_turns H (parser w))
           in if source_turns = [] then (Some (Inl NothingToCompact), w)
              else let counts = map (count_item_tokens H) source_turns;
                       target_tokens = percent_of (context_window trigger) (target_threshold_percent policy)
                   in case select_turns_to_compact (items H) counts source_turns target_tokens
                             (min_compactable_tokens policy) of
                        None \<Rightarrow> (Some (Inl NothingToCompact), w)
                      | Some plan \<Rightarrow>
                          let turns_to_compact = take (split_idx plan) source_turns;
                              separated = separate_prior_user_queries (items H) turns_to_compact;
                              (llm, prior) = (case target of
                                                History \<Rightarrow> (turns_for_llm separated, prior_user_queries separated)
                                              | _ \<Rightarrow> (turns_to_compact, None))
                          in case sample_for_target H policy target llm (outside w) of
                               (None, s) \<Rightarrow> (None, w\<lparr>outside := s\<rparr>)
                             | (Some (Inl e), s) \<Rightarrow> (Some (Inl e), w\<lparr>outside := s\<rparr>)
                             | (Some (Inr summary), s) \<Rightarrow>
                                 commit_summary H policy target start (tokens_to_compact plan) (split_idx plan)
                                   (final_summary H policy target turns_to_compact prior summary) (w\<lparr>outside := s\<rparr>))"

definition apply_steps_compaction ::
    "('t, 'p, 's) host \<Rightarrow> IntraCompactionConfig \<Rightarrow> IntraCompactionTrigger \<Rightarrow> ('p, 's) world \<Rightarrow> ('p, 's) intra_outcome" where
  "apply_steps_compaction H policy trigger w = compact_one_pass H policy trigger Steps w"

definition apply_history_compaction ::
    "('t, 'p, 's) host \<Rightarrow> IntraCompactionConfig \<Rightarrow> IntraCompactionTrigger \<Rightarrow> ('p, 's) world \<Rightarrow> ('p, 's) intra_outcome" where
  "apply_history_compaction H policy trigger w = compact_one_pass H policy trigger History w"

text \<open>The sums are over \<open>u64\<close>.\<close>

definition sum_u64 :: "('t \<Rightarrow> u32) \<Rightarrow> 't list \<Rightarrow> u64" where
  "sum_u64 counter turns = sum_list (map (\<lambda>t. ucast (counter t)) turns)"

definition should_compact_steps :: "('t, 'p, 's) host \<Rightarrow> IntraCompactionConfig \<Rightarrow> 'p \<Rightarrow> bool" where
  "should_compact_steps H policy p \<longleftrightarrow>
     f64_ceil_as_u64
       (f64_mul (nat_as_f64 (unat (sum_u64 (count_item_tokens H) (get_history_turns H p)))) (steps_trigger_ratio policy))
     < sum_u64 (count_item_tokens H) (get_accumulated_turns H p)"

definition join_results :: "IntraCompactionResult \<Rightarrow> IntraCompactionResult \<Rightarrow> IntraCompactionResult" where
  "join_results h s =
     \<lparr>tokens_before = saturating_add32 (tokens_before h) (tokens_before s),
      tokens_after = saturating_add32 (tokens_after h) (tokens_after s),
      turns_compacted = saturating_add32 (turns_compacted h) (turns_compacted s),
      elapsed = elapsed h + elapsed s,
      result_summary =
        (if result_summary h = [] then result_summary s
         else if result_summary s = [] then result_summary h
         else result_summary h @ [10, 10] @ result_summary s)\<rparr>"

definition apply_history_then_steps ::
    "('t, 'p, 's) host \<Rightarrow> IntraCompactionConfig \<Rightarrow> IntraCompactionTrigger \<Rightarrow> ('p, 's) world \<Rightarrow> ('p, 's) intra_outcome" where
  "apply_history_then_steps H policy trigger w =
     (case apply_history_compaction H policy trigger w of
        (None, w1) \<Rightarrow> (None, w1)
      | (Some r, w1) \<Rightarrow>
          let then_steps = (\<lambda>history_result.
                if \<not> should_compact_steps H policy (parser w1)
                then (Some (case history_result of Some h \<Rightarrow> Inr h | None \<Rightarrow> Inl NothingToCompact), w1)
                else case apply_steps_compaction H policy trigger w1 of
                       (None, w2) \<Rightarrow> (None, w2)
                     | (Some (Inr s), w2) \<Rightarrow>
                         (Some (Inr (case history_result of Some h \<Rightarrow> join_results h s | None \<Rightarrow> s)), w2)
                     | (Some (Inl e), w2) \<Rightarrow>
                         (Some (case history_result of
                                  Some h \<Rightarrow> if e = NothingToCompact then Inr h else Inl e
                                | None \<Rightarrow> Inl e), w2))
          in case r of
               Inr h \<Rightarrow> then_steps (Some h)
             | Inl e \<Rightarrow> if e = NothingToCompact then then_steps None else (Some (Inl e), w1))"

definition apply_intra_compaction ::
    "('t, 'p, 's) host \<Rightarrow> IntraCompactionConfig \<Rightarrow> IntraCompactionTrigger \<Rightarrow> str option \<Rightarrow> u32 option \<Rightarrow>
     ('p, 's) world \<Rightarrow> ('p, 's) intra_outcome" where
  "apply_intra_compaction H policy trigger active_reminder summarizer_input_budget w =
     (let (result, w') =
            (case mode policy of
               IntraCompactionMode.FullReplace \<Rightarrow>
                 apply_full_replace_pass H policy active_reminder summarizer_input_budget w
             | StepsOnly \<Rightarrow> apply_steps_compaction H policy trigger w
             | HistoryOnly \<Rightarrow> apply_history_compaction H policy trigger w
             | HistoryThenSteps \<Rightarrow> apply_history_then_steps H policy trigger w)
      in case result of
           Some (Inl e) \<Rightarrow> (result, w'\<lparr>observed := observed w' @ [on_error (error_status_label e)]\<rparr>)
         | _ \<Rightarrow> (result, w'))"


subsection \<open>What a pass does to the conversation\<close>

text \<open>The view of the conversation that a target names.\<close>

definition compaction_view :: "('t, 'p, 's) host \<Rightarrow> CompactionTarget \<Rightarrow> 'p \<Rightarrow> 't list" where
  "compaction_view H target p =
     (case target of
        Steps \<Rightarrow> get_accumulated_turns H p
      | History \<Rightarrow> get_history_turns H p
      | FullReplace \<Rightarrow> get_history_turns H p @ get_accumulated_turns H p)"

text \<open>
  A successful pass is one commit of the summary it reports: of turns that the view has, and the guard
  let it through. A commit may also be refused by the stream processor; only for \<open>InvalidSplit\<close> is it
  documented that nothing changed then, so that the state after it is left open.
\<close>

definition committed ::
    "('t, 'p, 's) host \<Rightarrow> IntraCompactionConfig \<Rightarrow> CompactionTarget \<Rightarrow> IntraCompactionResult \<Rightarrow> 'p \<Rightarrow> 'p \<Rightarrow> bool" where
  "committed H policy target r p p' \<longleftrightarrow>
     (\<exists>s s' n.
        replace_with_compaction H p s target n (compaction_summary_item (items H) (result_summary r)) = (Inr (), p', s') \<and>
        n \<le> length (compaction_view H target p) \<and> turns_compacted r = word_of_nat n) \<and>
     tokens_after r = count_item_tokens H (compaction_summary_item (items H) (result_summary r)) \<and>
     (tokens_before r = 0 \<or> tokens_after r \<le> reduction_limit (tokens_before r) policy)"

definition refused_commit :: "('t, 'p, 's) host \<Rightarrow> IntraCompactionError \<Rightarrow> 'p \<Rightarrow> 'p \<Rightarrow> bool" where
  "refused_commit H e p p' \<longleftrightarrow>
     (\<exists>s s' target n t. replace_with_compaction H p s target n t = (Inl e, p', s') \<and>
        n \<le> length (compaction_view H target p))"

definition pass_event :: "CompactionTarget \<Rightarrow> IntraCompactionResult \<Rightarrow> IntraEvent" where
  "pass_event target r = on_success target (tokens_before r) (tokens_after r) (turns_compacted r) (elapsed r)"

text \<open>Successful passes one after the other, with their targets.\<close>

inductive passes ::
    "('t, 'p, 's) host \<Rightarrow> IntraCompactionConfig \<Rightarrow> 'p \<Rightarrow> (CompactionTarget \<times> IntraCompactionResult) list \<Rightarrow> 'p \<Rightarrow> bool"
  for H policy where
  no_pass: "passes H policy p [] p"
| a_pass: "committed H policy target r p p' \<Longrightarrow> passes H policy p' rs p'' \<Longrightarrow> passes H policy p ((target, r) # rs) p''"

lemma one_pass: "committed H policy target r p p' \<Longrightarrow> passes H policy p [(target, r)] p'"
  by (rule passes.a_pass [OF _ passes.no_pass])

lemma two_passes:
  "committed H policy target r p p' \<Longrightarrow> committed H policy target' r' p' p'' \<Longrightarrow> passes H policy p [(target, r), (target', r')] p''"
  by (rule passes.a_pass [OF _ one_pass])

text \<open>The three endings of a pass.\<close>

inductive pass_ending ::
    "('t, 'p, 's) host \<Rightarrow> IntraCompactionConfig \<Rightarrow> CompactionTarget \<Rightarrow> ('p, 's) world \<Rightarrow> ('p, 's) intra_outcome \<Rightarrow> bool"
  for H policy target w where
  untouched: "pass_ending H policy target w (Some (Inl e), w')"
    if "parser w' = parser w" and "observed w' = observed w"
| refused: "pass_ending H policy target w (Some (Inl e), w')"
    if "refused_commit H e (parser w) (parser w')" and "observed w' = observed w"
| succeeded: "pass_ending H policy target w (Some (Inr r), w')"
    if "committed H policy target r (parser w) (parser w')" and "observed w' = observed w @ [pass_event target r]"

inductive_cases pass_endingE: "pass_ending H policy target w (result, w')"

lemma commit_summary_ending:
  assumes "n \<le> length (compaction_view H target (parser w))"
  shows "pass_ending H policy target w (commit_summary H policy target start before n summary (w\<lparr>outside := s\<rparr>))"
proof -
  let ?t = "compaction_summary_item (items H) summary"
  show ?thesis
  proof (cases "0 < before \<and> reduction_limit before policy < count_item_tokens H ?t")
    case True
    then show ?thesis by (auto simp: commit_summary_def Let_def intro!: pass_ending.untouched)
  next
    case False
    obtain r p s' where c: "replace_with_compaction H (parser w) s target n ?t = (r, p, s')"
      by (cases "replace_with_compaction H (parser w) s target n ?t")
    show ?thesis
    proof (cases r)
      case (Inl e)
      with c assms have "refused_commit H e (parser w) p" unfolding refused_commit_def by blast
      with Inl False c show ?thesis
        by (auto simp: commit_summary_def Let_def intro!: pass_ending.refused)
    next
      case (Inr u)
      let ?took = "saturating_duration_since (now H s') start"
      let ?r = "\<lparr>tokens_before = before, tokens_after = count_item_tokens H ?t, turns_compacted = word_of_nat n,
        elapsed = ?took, result_summary = summary\<rparr>"
      have "committed H policy target ?r (parser w) p"
        using Inr False c assms by (auto simp: committed_def word_neq_0_conv not_less)
      with Inr False c show ?thesis
        by (auto simp: commit_summary_def Let_def pass_event_def intro!: pass_ending.succeeded)
    qed
  qed
qed

lemma full_replace_ending:
  "pass_ending H policy CompactionTarget.FullReplace w (apply_full_replace_pass H policy reminder budget w)"
  by (auto simp: apply_full_replace_pass_def Let_def compaction_view_def commit_summary_ending pass_ending.untouched
      split: option.splits prod.splits sum.splits)

lemma sample_for_target_total: "target \<noteq> CompactionTarget.FullReplace \<Longrightarrow> fst (sample_for_target H policy target turns s) \<noteq> None"
  by (cases target)
    (auto simp: sample_for_target_def build_prompt_for_target_def Let_def split: IntraSummarizer.splits prod.splits)

lemma one_pass_ending:
  assumes "target \<noteq> CompactionTarget.FullReplace"
  shows "pass_ending H policy target w (compact_one_pass H policy trigger target w)"
proof -
  let ?turns = "compaction_view H target (parser w)"
  have view: "(case target of Steps \<Rightarrow> get_accumulated_turns H (parser w) | _ \<Rightarrow> get_history_turns H (parser w)) = ?turns"
    using assms by (cases target) (simp_all add: compaction_view_def)
  have ending: "pass_ending H policy target w
      (case sample_for_target H policy target turns (outside w) of
         (None, s) \<Rightarrow> (None, w\<lparr>outside := s\<rparr>)
       | (Some (Inl e), s) \<Rightarrow> (Some (Inl e), w\<lparr>outside := s\<rparr>)
       | (Some (Inr summary), s) \<Rightarrow>
           commit_summary H policy target start before n (final_summary H policy target kept prior summary) (w\<lparr>outside := s\<rparr>))"
    if "n \<le> length ?turns" for turns start before n kept prior
    using sample_for_target_total [OF assms, of H policy turns "outside w"] that
    by (auto simp: commit_summary_ending pass_ending.untouched split: option.splits prod.splits sum.splits)
  show ?thesis
  proof (cases "select_turns_to_compact (items H) (map (count_item_tokens H) ?turns) ?turns
      (percent_of (context_window trigger) (target_threshold_percent policy)) (min_compactable_tokens policy)")
    case None
    with assms show ?thesis by (auto simp: compact_one_pass_def Let_def view pass_ending.untouched)
  next
    case (Some plan)
    from select_SomeD [OF this] have "split_idx plan \<le> length ?turns" by simp
    with assms Some show ?thesis
      by (auto simp: compact_one_pass_def Let_def view ending pass_ending.untouched split: prod.split)
  qed
qed

lemma ending_total: "\<not> pass_ending H policy target w (None, w')"
  by (auto elim: pass_ending.cases)

subsection \<open>What a compaction reports\<close>

text \<open>
  A commit never reports that there is nothing to compact: that error is documented for empty views and
  for selections that find nothing, both before the commit.
\<close>

definition commits_name_their_errors :: "('t, 'p, 's) host \<Rightarrow> bool" where
  "commits_name_their_errors H \<longleftrightarrow>
     (\<forall>p s target n t p' s'. replace_with_compaction H p s target n t \<noteq> (Inl NothingToCompact, p', s'))"

text \<open>The passes a mode makes when it succeeds.\<close>

definition mode_targets :: "IntraCompactionMode \<Rightarrow> CompactionTarget list set" where
  "mode_targets m =
     (case m of
        IntraCompactionMode.FullReplace \<Rightarrow> {[CompactionTarget.FullReplace]}
      | StepsOnly \<Rightarrow> {[Steps]}
      | HistoryOnly \<Rightarrow> {[History]}
      | HistoryThenSteps \<Rightarrow> {[History], [Steps], [History, Steps]})"

definition joined_results :: "IntraCompactionResult list \<Rightarrow> IntraCompactionResult" where
  "joined_results rs = foldl join_results (hd rs) (tl rs)"

text \<open>What was committed when a result is reported: for a success everything it counts, for an error at most the history.\<close>

fun reports_commits ::
    "('t, 'p, 's) host \<Rightarrow> IntraCompactionConfig \<Rightarrow> ('p, 's) world \<Rightarrow> ('p, 's) intra_outcome \<Rightarrow> bool" where
  "reports_commits H policy w (None, w') \<longleftrightarrow> False"
| "reports_commits H policy w (Some (Inr r), w') \<longleftrightarrow>
     (\<exists>rs. passes H policy (parser w) rs (parser w') \<and> map fst rs \<in> mode_targets (mode policy) \<and>
       r = joined_results (map snd rs) \<and> observed w' = observed w @ map (\<lambda>(target, r). pass_event target r) rs)"
| "reports_commits H policy w (Some (Inl e), w') \<longleftrightarrow>
     (\<exists>rs p. passes H policy (parser w) rs p \<and>
       (rs = [] \<or> mode policy = HistoryThenSteps \<and> map fst rs = [History]) \<and>
       (parser w' = p \<or> refused_commit H e p (parser w')) \<and>
       observed w' = observed w @ map (\<lambda>(target, r). pass_event target r) rs)"

lemma reports_one_pass:
  assumes "pass_ending H policy target w outcome" and "[target] \<in> mode_targets (mode policy)"
  shows "reports_commits H policy w outcome"
  using assms(1)
proof (cases rule: pass_ending.cases)
  case (succeeded r)
  with assms(2) show ?thesis by (auto simp: joined_results_def intro!: exI [of _ "[(target, r)]"] one_pass)
qed (auto intro: passes.no_pass)

text \<open>A pass after the others: its commits follow theirs.\<close>

lemma reports_second_pass:
  assumes "mode policy = HistoryThenSteps" and "committed H policy History h (parser w) (parser w1)"
    and "observed w1 = observed w @ [pass_event History h]"
  shows "reports_commits H policy w (Some (Inr h), w1)"
    and "pass_ending H policy Steps w1 (Some (Inr s), w2) \<Longrightarrow> reports_commits H policy w (Some (Inr (join_results h s)), w2)"
    and "pass_ending H policy Steps w1 (Some (Inl e), w2) \<Longrightarrow> reports_commits H policy w (Some (Inl e), w2)"
proof -
  show "reports_commits H policy w (Some (Inr h), w1)"
    using assms by (auto simp: joined_results_def mode_targets_def intro!: exI [of _ "[(History, h)]"] one_pass)
  show "reports_commits H policy w (Some (Inr (join_results h s)), w2)" if "pass_ending H policy Steps w1 (Some (Inr s), w2)"
    using that assms
    by (auto elim!: pass_endingE simp: joined_results_def mode_targets_def
        intro!: exI [of _ "[(History, h), (Steps, s)]"] two_passes)
  show "reports_commits H policy w (Some (Inl e), w2)" if "pass_ending H policy Steps w1 (Some (Inl e), w2)"
    using that assms
    by (auto elim!: pass_endingE intro!: exI [of _ "[(History, h)]"] exI [of _ "parser w1"] one_pass)
qed

lemma ending_nothing:
  assumes "commits_name_their_errors H" and "pass_ending H policy target w (Some (Inl NothingToCompact), w')"
  shows "parser w' = parser w \<and> observed w' = observed w"
  using assms by (auto elim!: pass_endingE simp: commits_name_their_errors_def refused_commit_def)

lemma reports_history_then_steps:
  assumes H: "commits_name_their_errors H" and m: "mode policy = HistoryThenSteps"
  shows "reports_commits H policy w (apply_history_then_steps H policy trigger w)"
proof -
  obtain r1 w1 where h: "apply_history_compaction H policy trigger w = (r1, w1)"
    by (cases "apply_history_compaction H policy trigger w")
  obtain r2 w2 where s: "apply_steps_compaction H policy trigger w1 = (r2, w2)"
    by (cases "apply_steps_compaction H policy trigger w1")
  have p1: "pass_ending H policy History w (r1, w1)" and p2: "pass_ending H policy Steps w1 (r2, w2)"
    using one_pass_ending [of History H policy w trigger] one_pass_ending [of Steps H policy w1 trigger] h s
    by (simp_all add: apply_history_compaction_def apply_steps_compaction_def)
  obtain x1 x2 where x: "r1 = Some x1" "r2 = Some x2"
    using p1 p2 by (cases r1; cases r2) (simp_all add: ending_total)
  have one: "reports_commits H policy w (r1, w1)" by (rule reports_one_pass [OF p1]) (simp add: m mode_targets_def)
  show ?thesis
  proof (cases x1)
    case (Inr res)
    then have c: "committed H policy History res (parser w) (parser w1)" "observed w1 = observed w @ [pass_event History res]"
      using p1 x by (auto elim: pass_endingE)
    note second = reports_second_pass [OF m c]
    have "reports_commits H policy w (Some (Inr res), w2)" if "x2 = Inl NothingToCompact"
      using ending_nothing [OF H, of policy Steps w1 w2] p2 x that second(1) by simp
    with second p2 x Inr show ?thesis
      by (cases x2) (auto simp: apply_history_then_steps_def h s Let_def simp del: reports_commits.simps)
  next
    case (Inl e)
    have "reports_commits H policy w (r2, w2)" if "e = NothingToCompact"
    proof -
      have same: "parser w1 = parser w" "observed w1 = observed w"
        using ending_nothing [OF H, of policy History w w1] p1 x Inl that by simp_all
      have "reports_commits H policy w1 (r2, w2)" by (rule reports_one_pass [OF p2]) (simp add: m mode_targets_def)
      then show ?thesis using same by (cases x2) (simp_all add: x)
    qed
    with one Inl x show ?thesis
      by (cases x2) (auto simp: apply_history_then_steps_def h s Let_def simp del: reports_commits.simps)
  qed
qed

text \<open>
  C15: An intra-compaction never panics and its result tells what was committed to the conversation. A success
  made exactly the passes of its mode, in that order: one commit each, of the summary the result reports, of no more turns
  than the view has, and only because the summary was within the reduction ratio; with history before
  steps these are the history, the steps, or both with their results joined. An error committed nothing,
  or, with history before steps, the history pass only; beyond that the conversation differs at most by
  what a commit that itself reported this error left behind. The observer was told of exactly these
  passes, and then of the error. (It is assumed, as documented, that a commit does not report
  \<open>NothingToCompact\<close>.)
\<close>

theorem intra_outcome_is_honest:
  assumes "commits_name_their_errors H"
    and "apply_intra_compaction H policy trigger reminder budget w = (result, w')"
  shows "case result of
      None \<Rightarrow> False
    | Some (Inr r) \<Rightarrow>
        (\<exists>rs. passes H policy (parser w) rs (parser w') \<and> map fst rs \<in> mode_targets (mode policy) \<and>
          r = joined_results (map snd rs) \<and> observed w' = observed w @ map (\<lambda>(target, r). pass_event target r) rs)
    | Some (Inl e) \<Rightarrow>
        (\<exists>rs p. passes H policy (parser w) rs p \<and>
          (rs = [] \<or> mode policy = HistoryThenSteps \<and> map fst rs = [History]) \<and>
          (parser w' = p \<or> refused_commit H e p (parser w')) \<and>
          observed w' = observed w @ map (\<lambda>(target, r). pass_event target r) rs @ [on_error (error_status_label e)])"
proof -
  define outcome where "outcome =
     (case mode policy of
        IntraCompactionMode.FullReplace \<Rightarrow> apply_full_replace_pass H policy reminder budget w
      | StepsOnly \<Rightarrow> apply_steps_compaction H policy trigger w
      | HistoryOnly \<Rightarrow> apply_history_compaction H policy trigger w
      | HistoryThenSteps \<Rightarrow> apply_history_then_steps H policy trigger w)"
  obtain r w1 where out: "outcome = (r, w1)" by (cases outcome)
  have "reports_commits H policy w outcome"
    unfolding outcome_def apply_steps_compaction_def apply_history_compaction_def
    by (cases "mode policy")
      (simp_all add: mode_targets_def reports_one_pass [OF full_replace_ending] reports_one_pass [OF one_pass_ending]
        reports_history_then_steps [OF assms(1)] del: reports_commits.simps)
  then have reported: "reports_commits H policy w (r, w1)" unfolding out .
  have w': "(result, w') =
      (case r of Some (Inl e) \<Rightarrow> (r, w1\<lparr>observed := observed w1 @ [on_error (error_status_label e)]\<rparr>) | _ \<Rightarrow> (r, w1))"
    using assms(2) unfolding apply_intra_compaction_def outcome_def [symmetric] out by simp
  from reported w' show ?thesis by (auto split: option.splits sum.splits)
qed

text \<open>
  With history before steps an error does not mean that nothing happened: when the history pass
  succeeded and the steps pass that follows reports an error other than \<open>NothingToCompact\<close>, the call
  reports that error only, although the history has been committed and the conversation is the one the
  history pass left, up to what a commit of the steps that itself failed did to it.
\<close>

theorem history_commit_survives_error:
  assumes "mode policy = HistoryThenSteps"
    and "apply_history_compaction H policy trigger w = (Some (Inr h), w1)"
    and "should_compact_steps H policy (parser w1)"
    and "apply_steps_compaction H policy trigger w1 = (Some (Inl e), w2)" and "e \<noteq> NothingToCompact"
  shows "case apply_intra_compaction H policy trigger reminder budget w of
      (result, w') \<Rightarrow> result = Some (Inl e) \<and> committed H policy History h (parser w) (parser w1) \<and>
        (parser w' = parser w1 \<or> refused_commit H e (parser w1) (parser w'))"
proof -
  have "pass_ending H policy History w (Some (Inr h), w1)" and "pass_ending H policy Steps w1 (Some (Inl e), w2)"
    using one_pass_ending [of History H policy w trigger] one_pass_ending [of Steps H policy w1 trigger] assms(2,4)
    by (simp_all add: apply_history_compaction_def apply_steps_compaction_def)
  with assms show ?thesis
    by (auto simp: apply_intra_compaction_def apply_history_then_steps_def Let_def elim!: pass_endingE)
qed

subsection \<open>A concrete host\<close>

text \<open>
  A parser that keeps the two views as lists, a sampler that answers from a script, and a counter of
  one token per character.
\<close>

definition script_sampler ::
    "((CompactionSampleError + LlmCompactionOutput) list, CompactionRole \<times> str) sampler" where
  "script_sampler s turns prompt timeout =
     (case s of [] \<Rightarrow> (Inl (Other []), []) | reply # rest \<Rightarrow> (reply, rest))"

definition replace_in_lists ::
    "('t list \<times> 't list) \<Rightarrow> 's \<Rightarrow> CompactionTarget \<Rightarrow> nat \<Rightarrow> 't \<Rightarrow>
     (IntraCompactionError + unit) \<times> ('t list \<times> 't list) \<times> 's" where
  "replace_in_lists p s target n t =
     (case target of
        Steps \<Rightarrow>
          if length (snd p) < n then (Inl (InvalidSplit n (length (snd p))), p, s)
          else (Inr (), (fst p, t # drop n (snd p)), s)
      | History \<Rightarrow>
          if length (fst p) < n then (Inl (InvalidSplit n (length (fst p))), p, s)
          else (Inr (), (t # drop n (fst p), snd p), s)
      | FullReplace \<Rightarrow> (Inr (), ([t], []), s))"

definition sample_host ::
    "(CompactionRole \<times> str, (CompactionRole \<times> str) list \<times> (CompactionRole \<times> str) list,
      (CompactionSampleError + LlmCompactionOutput) list) host" where
  "sample_host =
     \<lparr>items = sample_items, get_accumulated_turns = snd, get_history_turns = fst,
      replace_with_compaction = replace_in_lists, sample_compaction = script_sampler,
      count_item_tokens = sample_counter, now = (\<lambda>_. 0), summary_template = [],
      steps_prompt = \<lparr>prompt_system = [], prompt_user = []\<rparr>, history_prompt = []\<rparr>"

lemma sample_host_names_errors: "commits_name_their_errors sample_host"
  unfolding commits_name_their_errors_def sample_host_def
  by (auto simp: replace_in_lists_def split: CompactionTarget.splits if_splits)

definition sample_policy :: IntraCompactionConfig where
  "sample_policy = IntraCompactionConfig_default
     \<lparr>mode := HistoryThenSteps, summarizer := Legacy, min_compactable_tokens := 0\<rparr>"

definition sample_trigger :: IntraCompactionTrigger where
  "sample_trigger = \<lparr>last_prompt_tokens = 9, context_window = 10, trigger_percent = 90, trigger_step = 5\<rparr>"

definition sample_turns :: "(CompactionRole \<times> str) list" where
  "sample_turns = [(Assistant, replicate 20 0), (Assistant, [0])]"

definition intra_world ::
    "((CompactionRole \<times> str) list \<times> (CompactionRole \<times> str) list,
      (CompactionSampleError + LlmCompactionOutput) list) world" where
  "intra_world =
     \<lparr>parser = (sample_turns, sample_turns),
      outside = [Inr \<lparr>response = lit ''ok'', thinking = []\<rparr>, Inl (Build (lit ''gone''))], observed = []\<rparr>"


lemmas f64_parts_eval = f64_parts_def f64_is_nan_def f64_is_inf_def f64_magnitude_def f64_negative_def f64_signed_def

lemma f64_ratios:
  "f64_of_ratio 8 10 = 4605380978949069210" "f64_of_ratio 3 10 = 4599075939470750515"
  "f64_of_ratio 20 1 = 4626322717216342016" "f64_of_ratio 3 1 = 4613937818241073152"
  by (simp_all add: f64_of_ratio_def bit_length.simps Let_def) (simp_all add: round_half_even_def Let_def)

lemma f64_product_20: "f64_mul 4626322717216342016 4605380978949069210 = 4625196817309499392"
  apply (simp add: f64_mul_def f64_parts_eval Let_def)
  apply (simp add: f64_of_ratio_def bit_length.simps Let_def)
  apply (simp add: round_half_even_def Let_def)
  done

lemma f64_product_3: "f64_mul 4613937818241073152 4599075939470750515 = 4606281698874543308"
  apply (simp add: f64_mul_def f64_parts_eval Let_def)
  apply (simp add: f64_of_ratio_def bit_length.simps Let_def)
  apply (simp add: round_half_even_def Let_def)
  done

lemma f64_casts: "f64_as_u32 4625196817309499392 = 16" "f64_ceil_as_u64 4606281698874543308 = 1"
  by (simp_all add: f64_as_u32_def f64_floor_nat_def f64_ceil_as_u64_def f64_ceil_nat_def f64_parts_eval Let_def)

lemma sample_ratios:
  "max_reduction_ratio sample_policy = 4605380978949069210" "steps_trigger_ratio sample_policy = 4599075939470750515"
  by (simp_all add: sample_policy_def IntraCompactionConfig_default_def f64_ratios)

lemma sample_reduction_limit: "reduction_limit 20 sample_policy = 16"
  unfolding reduction_limit_def nat_as_f64_def sample_ratios
  by (simp add: f64_ratios [simplified] f64_product_20 f64_casts)

lemma sample_plan:
  "select_turns_to_compact sample_items (map sample_counter sample_turns) sample_turns 5 0 =
   Some \<lparr>split_idx = 1, tokens_to_compact = 20\<rparr>"
  by (simp add: select_turns_to_compact_def sample_turns_def sample_counter_def len32_def saturating_add32_def
      snap_to_safe_boundary_def is_tool_result_def sample_items_def saturating_sum32_Cons)

lemma sample_percent: "percent_of (context_window sample_trigger) (target_threshold_percent sample_policy) = 5"
  by (simp add: percent_of_def sample_trigger_def sample_policy_def IntraCompactionConfig_default_def)

definition sample_committed :: "(CompactionRole \<times> str) list" where
  "sample_committed = [(Developer, lit ''ok''), (Assistant, [0])]"

lemma sample_host_sel:
  "items sample_host = sample_items" "get_accumulated_turns sample_host = snd" "get_history_turns sample_host = fst"
  "replace_with_compaction sample_host = replace_in_lists" "sample_compaction sample_host = script_sampler"
  "count_item_tokens sample_host = sample_counter" "now sample_host s = 0"
  by (simp_all add: sample_host_def)

lemma sample_policy_sel:
  "min_compactable_tokens sample_policy = 0" "summarizer sample_policy = Legacy" "mode sample_policy = HistoryThenSteps"
  "max_attempts sample_policy = 2"
  by (simp_all add: sample_policy_def IntraCompactionConfig_default_def)

lemma sample_for_target_script:
  assumes "target \<noteq> CompactionTarget.FullReplace"
  shows "sample_for_target sample_host sample_policy target turns (Inr out # rest) = (Some (Inr (response out)), rest)"
    and "sample_for_target sample_host sample_policy target turns (Inl (Build m) # rest) = (Some (Inl (SamplerBuild m)), rest)"
proof -
  obtain prompt where p: "build_prompt_for_target sample_host target = Some prompt"
    using assms by (cases target) (simp_all add: build_prompt_for_target_def)
  have n: "[1..<Suc (max (unat (max_attempts sample_policy)) 1)] = [1, 2]"
    by (simp add: sample_policy_sel upt_rec)
  show "sample_for_target sample_host sample_policy target turns (Inr out # rest) = (Some (Inr (response out)), rest)"
    and "sample_for_target sample_host sample_policy target turns (Inl (Build m) # rest) = (Some (Inl (SamplerBuild m)), rest)"
    unfolding sample_for_target_def sample_compaction_with_retries_def Let_def n
    by (simp_all add: p sample_policy_sel sample_host_sel script_sampler_def compaction_sample_error_to_intra_def is_transient_def)
qed

lemma sample_final_summary:
  "final_summary sample_host sample_policy History [(Assistant, replicate 20 0)] None summary = summary"
  by (simp add: final_summary_def sample_host_sel extract_user_queries_from_turns_def grok_query_def sample_items_def
      map_filter_simps assemble_user_queries_preamble_def preamble_part_def)

lemma sample_separated:
  "separate_prior_user_queries sample_items [(Assistant, replicate 20 0)] =
   \<lparr>turns_for_llm = [(Assistant, replicate 20 0)], prior_user_queries = None, has_prior_compaction = False\<rparr>"
  by (simp add: separate_prior_user_queries_def separate_step_def sample_items_def)

lemma sample_commit:
  assumes "parser w = (sample_turns, sample_turns)"
  shows "commit_summary sample_host sample_policy History 0 20 1 (lit ''ok'') w =
    (Some (Inr \<lparr>tokens_before = 20, tokens_after = 2, turns_compacted = 1, elapsed = 0, result_summary = lit ''ok''\<rparr>),
     w\<lparr>parser := (sample_committed, sample_turns), observed := observed w @ [on_success History 20 2 1 0]\<rparr>)"
proof -
  have "compaction_summary_item sample_items (lit ''ok'') = (Developer, lit ''ok'')"
    and "sample_counter (Developer, lit ''ok'') = 2"
    by (simp_all add: sample_items_def sample_counter_def len32_def)
  with assms show ?thesis
    unfolding commit_summary_def sample_host_sel Let_def sample_reduction_limit
    by (simp add: replace_in_lists_def sample_turns_def sample_committed_def saturating_duration_since_def)
qed

lemma sample_history_pass:
  "apply_history_compaction sample_host sample_policy sample_trigger intra_world =
   (Some (Inr \<lparr>tokens_before = 20, tokens_after = 2, turns_compacted = 1, elapsed = 0, result_summary = lit ''ok''\<rparr>),
    \<lparr>parser = (sample_committed, sample_turns), outside = [Inl (Build (lit ''gone''))],
     observed = [on_success History 20 2 1 0]\<rparr>)"
proof -
  have w: "parser intra_world = (sample_turns, sample_turns)" "observed intra_world = []"
    "outside intra_world = [Inr \<lparr>response = lit ''ok'', thinking = []\<rparr>, Inl (Build (lit ''gone''))]"
    by (simp_all add: intra_world_def)
  have t: "sample_turns \<noteq> []" "take 1 sample_turns = [(Assistant, replicate 20 0)]"
    by (simp_all add: sample_turns_def)
  have "compact_one_pass sample_host sample_policy sample_trigger History intra_world =
      commit_summary sample_host sample_policy History 0 20 1 (lit ''ok'')
        (intra_world\<lparr>outside := [Inl (Build (lit ''gone''))]\<rparr>)"
    unfolding compact_one_pass_def sample_percent sample_host_sel sample_policy_sel w
    using t by (simp add: sample_plan [simplified] sample_separated sample_for_target_script sample_final_summary)
  then show ?thesis
    by (simp add: apply_history_compaction_def sample_commit [simplified] w intra_world_def)
qed


lemma sample_steps_wanted: "should_compact_steps sample_host sample_policy (sample_committed, sample_turns)"
proof -
  have h: "sum_u64 sample_counter sample_committed = 3" and t: "sum_u64 sample_counter sample_turns = 21"
    by (simp_all add: sum_u64_def sample_counter_def sample_committed_def sample_turns_def len32_def)
  show ?thesis
    unfolding should_compact_steps_def sample_host_sel sample_ratios nat_as_f64_def fst_conv snd_conv h t
    by (simp add: f64_ratios [simplified] f64_product_3 f64_casts)
qed

lemma sample_steps_pass:
  assumes "parser w = (sample_committed, sample_turns)" and "outside w = [Inl (Build (lit ''gone''))]"
  shows "apply_steps_compaction sample_host sample_policy sample_trigger w =
    (Some (Inl (SamplerBuild (lit ''gone''))), w\<lparr>outside := []\<rparr>)"
proof -
  have "sample_turns \<noteq> []" by (simp add: sample_turns_def)
  then show ?thesis
    unfolding apply_steps_compaction_def compact_one_pass_def sample_percent sample_host_sel sample_policy_sel assms
    by (simp add: sample_plan [simplified] sample_for_target_script)
qed

lemma sample_intra_run:
  "apply_intra_compaction sample_host sample_policy sample_trigger None None intra_world =
   (Some (Inl (SamplerBuild (lit ''gone''))),
    \<lparr>parser = (sample_committed, sample_turns), outside = [],
     observed = [on_success History 20 2 1 0, on_error (lit ''sampler_build'')]\<rparr>)"
  by (simp add: apply_intra_compaction_def sample_policy_sel apply_history_then_steps_def sample_history_pass [simplified]
      sample_steps_wanted sample_steps_pass [simplified] error_status_label_def)

lemma sample_changes: "(sample_committed, sample_turns) \<noteq> parser intra_world"
  by (simp add: intra_world_def) (simp add: sample_committed_def sample_turns_def)

theorem history_commit_survives_error_witness:
  "\<exists>w'. apply_intra_compaction sample_host sample_policy sample_trigger None None intra_world =
      (Some (Inl (SamplerBuild (lit ''gone''))), w') \<and> parser w' \<noteq> parser intra_world"
proof -
  let ?w1 = "\<lparr>parser = (sample_committed, sample_turns), outside = [Inl (Build (lit ''gone''))],
     observed = [on_success History 20 2 1 0]\<rparr>"
  have steps: "apply_steps_compaction sample_host sample_policy sample_trigger ?w1 =
      (Some (Inl (SamplerBuild (lit ''gone''))), ?w1\<lparr>outside := []\<rparr>)"
    by (rule sample_steps_pass) simp_all
  have wanted: "should_compact_steps sample_host sample_policy (parser ?w1)" using sample_steps_wanted by simp
  from history_commit_survives_error [OF sample_policy_sel(3) sample_history_pass wanted steps, of None None]
  have "fst (apply_intra_compaction sample_host sample_policy sample_trigger None None intra_world) =
      Some (Inl (SamplerBuild (lit ''gone'')))"
    by (simp add: split_beta)
  then show ?thesis using sample_intra_run sample_changes by simp
qed

theorem intra_outcome_is_honest_witness:
  "\<exists>rs p. passes sample_host sample_policy (parser intra_world) rs p \<and> map fst rs = [History] \<and>
     ((sample_committed, sample_turns) = p \<or>
      refused_commit sample_host (SamplerBuild (lit ''gone'')) p (sample_committed, sample_turns))"
proof -
  have none: "\<not> refused_commit sample_host (SamplerBuild m) p p'" for m p p'
    by (auto simp: refused_commit_def sample_host_sel replace_in_lists_def split: CompactionTarget.splits if_splits)
  have nil: "p = parser intra_world" if "passes sample_host sample_policy (parser intra_world) [] p" for p
    using that by (auto elim: passes.cases)
  show ?thesis
    using intra_outcome_is_honest [OF sample_host_names_errors sample_intra_run] none nil sample_changes by auto
qed

subsection \<open>The trigger\<close>

text \<open>
  Compaction starts exactly when the policy asks for it. It is enabled, the window is not empty,
  the step is late enough unless the whole conversation is replaced, and the prompt is beyond its
  share of the window; for a share of at most 100 percent no cast loses a digit, and the percentage
  reported is the rounded-down one, at most 100.
\<close>

theorem should_compact_exactly:
  assumes "unat (trigger_threshold_percent policy) \<le> 100"
  shows "should_compact policy tokens window step =
    (if enabled policy \<and> window \<noteq> 0 \<and>
        (mode policy = IntraCompactionMode.FullReplace \<or> min_steps_before_compact policy \<le> step) \<and>
        unat window * unat (trigger_threshold_percent policy) div 100 < unat tokens
     then Some \<lparr>last_prompt_tokens = tokens, context_window = window,
                trigger_percent = word_of_nat (min (unat tokens * 100 div unat window) 100), trigger_step = step\<rparr>
     else None)"
proof -
  have "unat window * unat (trigger_threshold_percent policy) div 100 \<le> unat window"
    using assms mult_le_mono2 [OF assms, of "unat window"] by (simp add: div_le_mono [of _ "unat window * 100" 100, simplified])
  then have "unat window * unat (trigger_threshold_percent policy) div 100 < 2 ^ 32"
    using unat_u32_less [of window] by (simp del: unat_u32_less)
  then have "unat (percent_of window (trigger_threshold_percent policy)) =
      unat window * unat (trigger_threshold_percent policy) div 100"
    unfolding percent_of_def by (rule unat_nat32)
  then show ?thesis
    by (auto simp: should_compact_def word_le_nat_alt word_less_nat_alt not_le not_less)
qed

theorem should_compact_exactly_witness:
  "should_compact (IntraCompactionConfig_default\<lparr>enabled := True\<rparr>) 90000 100000 0 =
   Some \<lparr>last_prompt_tokens = 90000, context_window = 100000, trigger_percent = 90, trigger_step = 0\<rparr>"
  by (subst should_compact_exactly) (simp_all add: IntraCompactionConfig_default_def)

end
