(* ===== verification/Compaction_Inter.thy ===== *)
theory Compaction_Inter
  imports Compaction_History Compaction_Sample
begin

text \<open>
  Compaction between turns (\<^verbatim>\<open>xai-grok-compaction/src/inter_compaction/\<close>): the history is cut into
  chunks within a token limit, each chunk is summarised, and the summaries are put together behind
  the user's queries. The sampler and the clock are functions on the state of the host, the observer
  is the list of its calls. Log output is left out.
\<close>

record InterCompactionConfig =
  inter_compaction_model_name :: str
  inter_sampling_timeout_secs :: u64
  compaction_strategy :: CompactionStrategy
  dnc_chunk_token_limit :: u32
  user_message_compact_threshold :: u32

record ChunkedCompactionOutput =
  combined_text :: str
  analysis_text :: str

datatype InterEvent = on_recompaction str | on_chunk_sampled bool duration | on_chunk_count nat

definition UNBOUNDED_CHUNK_LIMIT :: u32 where
  "UNBOUNDED_CHUNK_LIMIT = - 1"

text \<open>The two prompts are one template of the crate, an argument here; building them cannot fail.\<close>

definition flush_chunk ::
    "('s, 't) sampler \<Rightarrow> ('s \<Rightarrow> instant) \<Rightarrow> str \<Rightarrow> InterCompactionConfig \<Rightarrow> 't list \<Rightarrow> 's \<Rightarrow>
     (CompactionSampleError + LlmCompactionOutput) \<times> 's \<times> InterEvent list" where
  "flush_chunk sampler now template config turns s =
     (let prompt = \<lparr>prompt_system = template, prompt_user = template\<rparr>;
          timeout = from_secs (unat (inter_sampling_timeout_secs config));
          (result, s') = sampler s turns prompt timeout
      in (result, s', [on_chunk_sampled (\<not> isl result) (saturating_duration_since (now s') (now s))]))"

text \<open>
  The loop over the turns: \<open>cur\<close> is the open chunk with its tokens, whose sum wraps. \<open>flush\<close> summarises
  a chunk; its error ends the pipeline.
\<close>

fun chunk_loop ::
    "('t list \<Rightarrow> 's \<Rightarrow> ('e + 'o) \<times> 's \<times> 'l list) \<Rightarrow> ('t \<Rightarrow> u32) \<Rightarrow> u32 \<Rightarrow> 't list \<Rightarrow> 't list \<Rightarrow> u32 \<Rightarrow> 's \<Rightarrow>
     ('e + 'o list) \<times> 's \<times> 'l list" where
  "chunk_loop flush counter limit [] cur tokens s =
     (if cur \<noteq> []
      then case flush cur s of
             (Inl e, s', told) \<Rightarrow> (Inl e, s', told)
           | (Inr out, s', told) \<Rightarrow> (Inr [out], s', told)
      else (Inr [], s, []))"
| "chunk_loop flush counter limit (turn # rest) cur tokens s =
     (if cur \<noteq> [] \<and> limit \<noteq> UNBOUNDED_CHUNK_LIMIT \<and> limit < saturating_add32 tokens (counter turn)
      then case flush cur s of
             (Inl e, s', told) \<Rightarrow> (Inl e, s', told)
           | (Inr out, s', told) \<Rightarrow>
               (case chunk_loop flush counter limit rest [turn] (counter turn) s' of
                  (Inl e, s'', told') \<Rightarrow> (Inl e, s'', told @ told')
                | (Inr outs, s'', told') \<Rightarrow> (Inr (out # outs), s'', told @ told'))
      else chunk_loop flush counter limit rest (cur @ [turn]) (tokens + counter turn) s)"

definition chunk_summary :: "nat \<Rightarrow> str \<Rightarrow> str" where
  "chunk_summary i summary =
     lit ''<chunk_summary index='' @ [34] @ show_nat i @ [34] @ lit ''>'' @ [10] @ summary @ [10] @
     lit ''</chunk_summary>'' @ [10, 10]"

definition sample_compaction_chunked ::
    "'t compaction_item \<Rightarrow> ('s, 't) sampler \<Rightarrow> ('s \<Rightarrow> instant) \<Rightarrow> ('t \<Rightarrow> u32) \<Rightarrow> str \<Rightarrow> 't list \<Rightarrow> str option \<Rightarrow>
     InterCompactionConfig \<Rightarrow> 's \<Rightarrow> (CompactionSampleError + ChunkedCompactionOutput) \<times> 's \<times> InterEvent list" where
  "sample_compaction_chunked I sampler now counter template turns current_user_queries config s =
     (if compaction_strategy config = FullReplace
      then (Inl (Build (lit ''full_replace must be routed through the event-proc compact_conversation helper'')), s, [])
      else let limit = (if compaction_strategy config = Basic then UNBOUNDED_CHUNK_LIMIT
                        else dnc_chunk_token_limit config);
               filtered = filter_turns_for_inter_compaction I turns
           in if filtered = [] then (Inl (Other (lit ''No turns remaining after filtering'')), s, [])
              else let separated = separate_prior_user_queries I filtered
                   in case chunk_loop (flush_chunk sampler now template config) counter limit
                             (turns_for_llm separated) [] 0 s of
                        (Inl e, s', told) \<Rightarrow> (Inl e, s', told)
                      | (Inr outs, s', told) \<Rightarrow>
                          let recompaction = (if has_prior_compaction separated
                                then [on_recompaction (CompactionStrategy_label (compaction_strategy config))] else []);
                              preamble = assemble_user_queries_preamble (prior_user_queries separated) current_user_queries
                          in (Inr \<lparr>combined_text =
                                     preamble @ concat (map (\<lambda>(i, out). chunk_summary i (response out)) (enumerate 0 outs)),
                                   analysis_text =
                                     concat (map (\<lambda>(i, out). wrap_chunk_analysis i (thinking out)) (enumerate 0 outs))\<rparr>,
                              s', told @ recompaction @ [on_chunk_count (length outs)]))"

subsection \<open>The chunks\<close>

text \<open>The reference: cut greedily before the first turn that would exceed the limit.\<close>

fun chunks :: "('t \<Rightarrow> u32) \<Rightarrow> u32 \<Rightarrow> 't list \<Rightarrow> 't list \<Rightarrow> 't list list" where
  "chunks counter limit cur [] = (if cur = [] then [] else [cur])"
| "chunks counter limit cur (turn # rest) =
     (if cur \<noteq> [] \<and> limit \<noteq> UNBOUNDED_CHUNK_LIMIT \<and> unat limit < sum_list (map (unat \<circ> counter) (cur @ [turn]))
      then cur # chunks counter limit [turn] rest
      else chunks counter limit (cur @ [turn]) rest)"

fun run_chunks ::
    "('t list \<Rightarrow> 's \<Rightarrow> ('e + 'o) \<times> 's \<times> 'l list) \<Rightarrow> 't list list \<Rightarrow> 's \<Rightarrow> ('e + 'o list) \<times> 's \<times> 'l list" where
  "run_chunks flush [] s = (Inr [], s, [])"
| "run_chunks flush (c # cs) s =
     (case flush c s of
        (Inl e, s', told) \<Rightarrow> (Inl e, s', told)
      | (Inr out, s', told) \<Rightarrow>
          (case run_chunks flush cs s' of
             (Inl e, s'', told') \<Rightarrow> (Inl e, s'', told @ told')
           | (Inr outs, s'', told') \<Rightarrow> (Inr (out # outs), s'', told @ told')))"

definition chunk_ok :: "('t \<Rightarrow> u32) \<Rightarrow> u32 \<Rightarrow> 't list \<Rightarrow> bool" where
  "chunk_ok counter limit c \<longleftrightarrow>
     c \<noteq> [] \<and> (length c = 1 \<or> limit = UNBOUNDED_CHUNK_LIMIT \<or> sum_list (map (unat \<circ> counter) c) \<le> unat limit)"

lemma chunks_concat: "concat (chunks counter limit cur turns) = cur @ turns"
  by (induction counter limit cur turns rule: chunks.induct) auto

lemma chunks_ok:
  "cur = [] \<or> chunk_ok counter limit cur \<Longrightarrow> list_all (chunk_ok counter limit) (chunks counter limit cur turns)"
proof (induction counter limit cur turns rule: chunks.induct)
  case (2 counter limit cur turn rest)
  have "chunk_ok counter limit [turn]" by (simp add: chunk_ok_def)
  moreover have "chunk_ok counter limit (cur @ [turn])"
    if "\<not> (cur \<noteq> [] \<and> limit \<noteq> UNBOUNDED_CHUNK_LIMIT \<and> unat limit < sum_list (map (unat \<circ> counter) (cur @ [turn])))"
    using that by (auto simp: chunk_ok_def)
  ultimately show ?case using 2 by auto
qed auto

text \<open>The sum the loop keeps is exact as long as it decides anything.\<close>

definition tokens_exact :: "('t \<Rightarrow> u32) \<Rightarrow> u32 \<Rightarrow> 't list \<Rightarrow> u32 \<Rightarrow> bool" where
  "tokens_exact counter limit cur tokens \<longleftrightarrow>
     limit = UNBOUNDED_CHUNK_LIMIT \<or> unat tokens = sum_list (map (unat \<circ> counter) cur)"

lemma below_unbounded: "limit \<noteq> UNBOUNDED_CHUNK_LIMIT \<Longrightarrow> unat limit < 2 ^ 32 - 1"
proof -
  assume "limit \<noteq> UNBOUNDED_CHUNK_LIMIT"
  moreover have "limit = UNBOUNDED_CHUNK_LIMIT" if "unat limit = 4294967295"
  proof -
    have "limit = word_of_nat (unat limit)" by simp
    also have "\<dots> = UNBOUNDED_CHUNK_LIMIT" unfolding that by (simp add: UNBOUNDED_CHUNK_LIMIT_def)
    finally show ?thesis .
  qed
  ultimately show ?thesis using unat_u32_le [of limit] by (auto simp: le_less)
qed

lemma tokens_exact_single: "tokens_exact counter limit [turn] (counter turn)"
  by (simp add: tokens_exact_def)

lemma tokens_exact_extend:
  assumes "tokens_exact counter limit cur tokens"
    and "\<not> (cur \<noteq> [] \<and> limit \<noteq> UNBOUNDED_CHUNK_LIMIT \<and> limit < saturating_add32 tokens (counter turn))"
  shows "tokens_exact counter limit (cur @ [turn]) (tokens + counter turn)"
proof (cases "limit = UNBOUNDED_CHUNK_LIMIT")
  case False
  have "unat tokens + unat (counter turn) < 2 ^ 32"
  proof (cases "cur = []")
    case True
    with assms(1) False have "unat tokens = 0" by (simp add: tokens_exact_def)
    then show ?thesis using unat_u32_less [of "counter turn"] by simp
  next
    case nonempty: False
    with assms(2) False below_unbounded [OF False] show ?thesis
      by (simp add: not_less word_le_nat_alt unat_saturating_add32)
  qed
  then have "unat (tokens + counter turn) = unat tokens + unat (counter turn)"
    by (simp add: unat_word_ariths)
  with assms(1) False show ?thesis by (simp add: tokens_exact_def)
qed (simp add: tokens_exact_def)

lemma chunk_loop_eq:
  assumes "tokens_exact counter limit cur tokens"
  shows "chunk_loop flush counter limit turns cur tokens s = run_chunks flush (chunks counter limit cur turns) s"
  using assms
proof (induction flush counter limit turns cur tokens s rule: chunk_loop.induct)
  case (1 flush counter limit cur tokens s)
  then show ?case by (auto split: prod.splits sum.splits)
next
  case (2 flush counter limit turn rest cur tokens s)
  have over: "limit < saturating_add32 tokens (counter turn) \<longleftrightarrow>
      unat limit < sum_list (map (unat \<circ> counter) (cur @ [turn]))" if "limit \<noteq> UNBOUNDED_CHUNK_LIMIT"
    using below_unbounded [OF that] 2 that
    by (simp add: word_less_nat_alt unat_saturating_add32 tokens_exact_def)
  let ?cut = "cur \<noteq> [] \<and> limit \<noteq> UNBOUNDED_CHUNK_LIMIT \<and> limit < saturating_add32 tokens (counter turn)"
  show ?case
  proof (cases ?cut)
    case True
    have "chunk_loop flush counter limit rest [turn] (counter turn) s' = run_chunks flush (chunks counter limit [turn] rest) s'"
      if "flush cur s = (Inr out, s', told)" for out s' told
      by (rule "2.IH"(1) [OF True that [symmetric] refl refl tokens_exact_single])
    with True over show ?thesis
      by (auto split: prod.splits sum.splits)
  next
    case False
    with "2.IH"(2) tokens_exact_extend [OF "2.prems"] over show ?thesis by auto
  qed
qed

text \<open>
  The chunks that are summarised are a partition of the history in order. The pipeline runs the
  summariser over the greedy chunks one after another, stops at the first error, and these chunks put
  together are the turns; none is empty, and each is within the limit unless it is a single turn or
  the limit is the unbounded one. The wrapping sum of the loop never decides wrongly.
\<close>

theorem chunks_partition_history:
  "chunk_loop flush counter limit turns [] 0 s = run_chunks flush (chunks counter limit [] turns) s \<and>
   concat (chunks counter limit [] turns) = turns \<and>
   list_all (chunk_ok counter limit) (chunks counter limit [] turns)"
  using chunk_loop_eq [of counter limit "[]" 0 flush turns s] chunks_concat [of counter limit "[]" turns]
    chunks_ok [of "[]" counter limit turns]
  by (simp add: tokens_exact_def)

end
