(* ===== verification/Compaction_Reminder.thy ===== *)
theory Compaction_Reminder
  imports Rust_Search Rust_Num
begin

text \<open>
  What a compacted conversation is reminded of (\<^verbatim>\<open>xai-grok-compaction/src/reminder.rs\<close>): the running
  commands, scheduled loops, workflows, todos and sub-agents, rendered into one block.
\<close>

record SubagentToolNames =
  tool_poll :: str
  tool_cancel :: str

datatype TodoStatus = Pending | InProgress | Completed | Cancelled

definition is_actionable :: "TodoStatus \<Rightarrow> bool" where
  "is_actionable s \<longleftrightarrow> s = Pending \<or> s = InProgress"

definition TodoStatus_tag :: "TodoStatus \<Rightarrow> str" where
  "TodoStatus_tag s =
     (case s of
        Pending \<Rightarrow> lit ''[pending]''
      | InProgress \<Rightarrow> lit ''[in_progress]''
      | Completed \<Rightarrow> lit ''[completed]''
      | Cancelled \<Rightarrow> lit ''[cancelled]'')"

record TodoItem =
  todo_id :: str
  todo_content :: str
  todo_status :: TodoStatus

record BackgroundTask =
  task_id :: str
  task_command :: str
  task_status :: str
  task_tool_name :: "str option"

record RunningSubagent =
  subagent_id :: str
  subagent_type :: "str option"
  subagent_description :: "str option"
  subagent_elapsed_secs :: u64

record ScheduledLoop =
  loop_task_id :: str
  loop_interval :: str
  loop_next_fire_at :: str
  loop_prompt :: str
  loop_recurring :: bool
  loop_durable :: bool

record WorkflowRun =
  run_name :: str
  run_id :: str
  run_status :: str
  run_objective :: "str option"
  run_current_phase :: "str option"
  run_agents_used :: u64
  run_agent_budget :: "u64 option"
  run_elapsed_secs :: u64

record ActiveAgentReminderState =
  running_commands :: "BackgroundTask list"
  todos :: "TodoItem list"
  running_subagents :: "RunningSubagent list"
  scheduled_loops :: "ScheduledLoop list"
  workflows :: "WorkflowRun list"
  workflow_tool :: "str option"

definition reminder_state_default :: ActiveAgentReminderState where
  "reminder_state_default =
     \<lparr>running_commands = [], todos = [], running_subagents = [], scheduled_loops = [], workflows = [], workflow_tool = None\<rparr>"

definition has_actionable_todos :: "ActiveAgentReminderState \<Rightarrow> bool" where
  "has_actionable_todos s \<longleftrightarrow> list_ex (\<lambda>t. is_actionable (todo_status t)) (todos s)"

definition reminder_is_empty :: "ActiveAgentReminderState \<Rightarrow> bool" where
  "reminder_is_empty s \<longleftrightarrow>
     running_commands s = [] \<and> running_subagents s = [] \<and> scheduled_loops s = [] \<and> workflows s = [] \<and>
     \<not> has_actionable_todos s"

subsection \<open>Lines\<close>

text \<open>34 is the quotation mark, 96 the backquote, 8212 the long dash.\<close>

definition quoted_id :: "str \<Rightarrow> str \<Rightarrow> str" where
  "quoted_id i command = lit ''- '' @ [34] @ i @ [34] @ lit '': '' @ [96] @ command @ [96] @ lit '' (''"

definition collapsed_ws :: "str \<Rightarrow> str" where
  "collapsed_ws s = join [32] (split_whitespace s)"

definition format_background_task_line :: "BackgroundTask \<Rightarrow> str" where
  "format_background_task_line t =
     quoted_id (task_id t) (task_command t) @ task_status t @
     (case task_tool_name t of Some tool \<Rightarrow> lit '', '' @ tool | None \<Rightarrow> []) @ lit '')''"

definition format_scheduled_loop_line :: "ScheduledLoop \<Rightarrow> str" where
  "format_scheduled_loop_line l =
     (let status = (if loop_recurring l then lit ''scheduler runs '' @ loop_interval l else lit ''scheduler one-shot'')
      in quoted_id (loop_task_id l) (collapsed_ws (loop_prompt l)) @ status @ lit '', next '' @ loop_next_fire_at l @ lit '')'')"

definition format_subagent_line :: "RunningSubagent \<Rightarrow> str" where
  "format_subagent_line s =
     (let kind = (case subagent_type s of Some k \<Rightarrow> k | None \<Rightarrow> lit ''subagent'');
          command = collapsed_ws (case subagent_description s of Some d \<Rightarrow> d | None \<Rightarrow> kind)
      in quoted_id (subagent_id s) command @ lit ''running for '' @ show_nat (unat (subagent_elapsed_secs s)) @
         lit ''s, '' @ kind @ lit '')'')"

definition format_workflow_line :: "WorkflowRun \<Rightarrow> str" where
  "format_workflow_line run =
     (let head = lit ''- Workflow '' @ [39] @ run_name run @ [39] @ lit '' (run id '' @ [96] @ run_id run @ [96] @
                 lit '') '' @ [8212] @ lit '' status: '' @ run_status run @
                 (case run_current_phase run of Some phase \<Rightarrow> lit '', phase: '' @ phase | None \<Rightarrow> []) @
                 lit '' (running for '' @ show_nat (unat (run_elapsed_secs run)) @ lit ''s)'';
          objective = (case run_objective run of
                         Some obj \<Rightarrow> if obj \<noteq> [] then [lit ''  Objective: '' @ collapsed_ws obj] else []
                       | None \<Rightarrow> []);
          agents = (case run_agent_budget run of
                      Some budget \<Rightarrow>
                        [lit ''  Agents: '' @ show_nat (unat (run_agents_used run)) @ lit '' of '' @
                         show_nat (unat budget) @ lit '' budget'']
                    | None \<Rightarrow>
                        if 0 < run_agents_used run then [lit ''  Agents: '' @ show_nat (unat (run_agents_used run))] else [])
      in join [10] (head # objective @ agents))"

subsection \<open>Sections\<close>

definition section_running_background ::
    "ActiveAgentReminderState \<Rightarrow> SubagentToolNames option \<Rightarrow> str option" where
  "section_running_background state subagent_tools =
     (let ls = map format_background_task_line (running_commands state) @
               map format_scheduled_loop_line (scheduled_loops state)
      in if ls = [] then None
         else Some (lit ''## Running Background Tasks'' @ [10] @ lit ''These tasks are still running:'' @ [10] @ join [10] ls))"

definition section_background_tasks :: "BackgroundTask list \<Rightarrow> str option" where
  "section_background_tasks tasks =
     section_running_background (reminder_state_default\<lparr>running_commands := tasks\<rparr>) None"

definition section_scheduled_loops :: "ScheduledLoop list \<Rightarrow> str option" where
  "section_scheduled_loops ls =
     section_running_background (reminder_state_default\<lparr>scheduled_loops := ls\<rparr>) None"

definition format_todo_line :: "TodoItem \<Rightarrow> str" where
  "format_todo_line t = lit ''- '' @ TodoStatus_tag (todo_status t) @ lit '' '' @ todo_id t @ lit '': '' @ todo_content t"

definition section_todo_list :: "TodoItem list \<Rightarrow> str option" where
  "section_todo_list ts =
     (let active = map format_todo_line (filter (\<lambda>t. is_actionable (todo_status t)) ts);
          completed = length (filter (\<lambda>t. todo_status t = Completed) ts);
          cancelled = length (filter (\<lambda>t. todo_status t = Cancelled) ts);
          trailer = (if completed = 0 \<and> cancelled = 0 then []
                     else if cancelled = 0 then [10] @ lit ''('' @ show_nat completed @ lit '' completed)''
                     else if completed = 0 then [10] @ lit ''('' @ show_nat cancelled @ lit '' cancelled)''
                     else [10] @ lit ''('' @ show_nat completed @ lit '' completed, '' @ show_nat cancelled @ lit '' cancelled)'')
      in if active = [] then None
         else Some
           (lit ''## TODO List'' @ [10] @
            lit ''This is your task list from before the conversation was compacted '' @ [8212] @
            lit '' it is still active. Keep working through the items below and update their status as you make progress:'' @
            [10] @ join [10] active @ trailer))"

definition section_running_subagents :: "RunningSubagent list \<Rightarrow> SubagentToolNames \<Rightarrow> str option" where
  "section_running_subagents subagents tools =
     (if subagents = [] then None
      else Some
        (lit ''## Running Subagents'' @ [10] @
         lit ''These subagents were launched before this compaction and are still running. Use '' @ [96] @ tool_poll tools @
         [96] @ lit '' with the subagent_id to check their status or retrieve results. Use '' @ [96] @ tool_cancel tools @
         [96] @ lit '' with the subagent_id to cancel a subagent.'' @ [10] @ join [10] (map format_subagent_line subagents)))"

definition section_workflows :: "WorkflowRun list \<Rightarrow> str option \<Rightarrow> str option" where
  "section_workflows runs tool =
     (if runs = [] then None
      else let hint = (case tool of
                         Some t \<Rightarrow> lit ''  Use '' @ [96] @ t @ [96] @ lit '' to inspect or resume a paused run. Keep run ids internal.''
                       | None \<Rightarrow> lit ''  Keep workflow run ids internal '' @ [8212] @ lit '' the user knows runs by display name.'')
           in Some (lit ''## Running Workflows'' @ [10] @ lit ''These workflows are currently running:'' @ [10] @
                    join [10] (map format_workflow_line runs @ [hint])))"

definition format_active_agent_sections ::
    "ActiveAgentReminderState \<Rightarrow> SubagentToolNames option \<Rightarrow> str list" where
  "format_active_agent_sections state subagent_tools =
     List.map_filter id
       [section_running_background state subagent_tools,
        section_workflows (workflows state) (workflow_tool state),
        section_todo_list (todos state),
        Option.bind subagent_tools (section_running_subagents (running_subagents state))]"

definition append_section :: "str \<Rightarrow> str \<Rightarrow> str" where
  "append_section body s =
     (if trim s = [] then body else if body \<noteq> [] then body @ [10, 10] @ s else body @ s)"

definition wrap_system_reminder :: "str list \<Rightarrow> str option" where
  "wrap_system_reminder sections =
     (let body = foldl append_section [] sections
      in if body = [] then None
         else Some (lit ''<system-reminder>'' @ [10] @ body @ [10] @ lit ''</system-reminder>''))"

definition format_active_agent_reminder ::
    "ActiveAgentReminderState \<Rightarrow> SubagentToolNames option \<Rightarrow> str option" where
  "format_active_agent_reminder state subagent_tools =
     wrap_system_reminder (format_active_agent_sections state subagent_tools)"


subsection \<open>Nothing that runs is forgotten\<close>

lemma sublist_join: "x \<in> set xs \<Longrightarrow> sublist x (join sep xs)"
proof (induction xs)
  case (Cons y xs)
  show ?case
  proof (cases xs)
    case Nil
    with Cons.prems show ?thesis by simp
  next
    case (Cons z zs)
    with Cons.prems Cons.IH show ?thesis
      by (auto intro: sublist_front sublist_back simp del: append_assoc simp flip: append_assoc)
  qed
qed simp

lemma sublist_ConsI: "sublist q t \<Longrightarrow> sublist q (c # t)"
  using sublist_back [of q t "[c]"] by simp

text \<open>A line of a section is found behind its heading and in front of its trailer.\<close>

lemma sublist_in_section:
  "sublist q t \<Longrightarrow> sublist q (lit c @ t)"
  "q \<in> set ls \<Longrightarrow> sublist q (join sep ls @ t)"
  "q \<in> set ls \<Longrightarrow> sublist q (join sep (ls @ [x]))"
  "sublist q t \<Longrightarrow> sublist q (tool_poll tools @ t)" "sublist q t \<Longrightarrow> sublist q (tool_cancel tools @ t)"
  by (auto intro: sublist_join sublist_front sublist_back)

definition blank :: "str \<Rightarrow> bool" where
  "blank s \<longleftrightarrow> trim s = []"

lemma heading_not_blank: "\<not> blank (35 # s)"
  by (simp add: blank_def trim_eq_Nil_iff is_whitespace_def)

lemma append_section_sublist: "sublist b (append_section b s)" "\<not> blank s \<Longrightarrow> sublist s (append_section b s)"
  by (auto simp: append_section_def blank_def intro: sublist_front sublist_back sublist_ConsI)

lemma sections_sublist:
  "sublist b (foldl append_section b ss)"
  "s \<in> set ss \<Longrightarrow> \<not> blank s \<Longrightarrow> sublist s (foldl append_section b ss)"
proof -
  show keep: "sublist b (foldl append_section b ss)" for b ss
  proof (induction ss arbitrary: b)
    case (Cons s ss)
    from append_section_sublist(1) [of b s] Cons.IH [of "append_section b s"] show ?case
      by (simp add: sublist_order.order_trans [of b "append_section b s"])
  qed simp
  show "s \<in> set ss \<Longrightarrow> \<not> blank s \<Longrightarrow> sublist s (foldl append_section b ss)"
  proof (induction ss arbitrary: b)
    case (Cons t ss)
    show ?case
    proof (cases "s = t")
      case True
      from append_section_sublist(2) [OF Cons.prems(2), of b] keep [of "append_section b s" ss] True show ?thesis
        by (simp add: sublist_order.order_trans [of s "append_section b s"])
    next
      case False
      with Cons show ?thesis by simp
    qed
  qed simp
qed

text \<open>The lines a state asks for.\<close>

definition reminder_lines :: "ActiveAgentReminderState \<Rightarrow> str list" where
  "reminder_lines state =
     map format_background_task_line (running_commands state) @
     map format_scheduled_loop_line (scheduled_loops state) @
     map format_workflow_line (workflows state) @
     map format_todo_line (filter (\<lambda>t. is_actionable (todo_status t)) (todos state)) @
     map format_subagent_line (running_subagents state)"

lemma section_not_blank:
  "section_running_background state tools = Some s \<Longrightarrow> \<not> blank s"
  "section_workflows runs tool = Some s \<Longrightarrow> \<not> blank s"
  "section_todo_list ts = Some s \<Longrightarrow> \<not> blank s"
  "section_running_subagents subagents names = Some s \<Longrightarrow> \<not> blank s"
  by (auto simp: section_running_background_def section_workflows_def section_todo_list_def section_running_subagents_def
      Let_def heading_not_blank split: if_splits)

lemma section_has_lines:
  "section_running_background state tools = Some s \<Longrightarrow>
     l \<in> set (map format_background_task_line (running_commands state) @
       map format_scheduled_loop_line (scheduled_loops state)) \<Longrightarrow> sublist l s"
  "section_workflows runs tool = Some s \<Longrightarrow> l \<in> set (map format_workflow_line runs) \<Longrightarrow> sublist l s"
  "section_todo_list ts = Some s \<Longrightarrow>
     l \<in> set (map format_todo_line (filter (\<lambda>t. is_actionable (todo_status t)) ts)) \<Longrightarrow> sublist l s"
  "section_running_subagents subagents names = Some s \<Longrightarrow> l \<in> set (map format_subagent_line subagents) \<Longrightarrow> sublist l s"
     apply (simp_all add: section_running_background_def section_workflows_def section_todo_list_def
      section_running_subagents_def Let_def del: lit_Cons set_map set_append map_eq_conv split: if_splits)
     apply (auto intro!: sublist_in_section sublist_ConsI intro: sublist_join simp del: lit_Cons set_map set_append)
  done


lemma sections_of:
  "s \<in> set (format_active_agent_sections state (Some tools)) \<longleftrightarrow>
     section_running_background state (Some tools) = Some s \<or>
     section_workflows (workflows state) (workflow_tool state) = Some s \<or>
     section_todo_list (todos state) = Some s \<or>
     section_running_subagents (running_subagents state) tools = Some s"
  by (auto simp: format_active_agent_sections_def map_filter_def)

lemma sections_present:
  "section_running_background state tools = None \<longleftrightarrow> running_commands state = [] \<and> scheduled_loops state = []"
  "section_workflows runs tool = None \<longleftrightarrow> runs = []"
  "section_todo_list ts = None \<longleftrightarrow> \<not> list_ex (\<lambda>t. is_actionable (todo_status t)) ts"
  "section_running_subagents subagents names = None \<longleftrightarrow> subagents = []"
  by (auto simp: section_running_background_def section_workflows_def section_todo_list_def section_running_subagents_def
      Let_def filter_empty_conv list_ex_iff)

lemma no_sections_iff:
  "format_active_agent_sections state (Some tools) = [] \<longleftrightarrow> reminder_is_empty state"
proof -
  have "format_active_agent_sections state (Some tools) = [] \<longleftrightarrow>
      (\<forall>s. s \<notin> set (format_active_agent_sections state (Some tools)))"
    by (metis all_not_in_conv set_empty)
  also have "\<dots> \<longleftrightarrow> reminder_is_empty state"
    unfolding sections_of reminder_is_empty_def has_actionable_todos_def
    using sections_present(1) [of state "Some tools"] sections_present(2) [of "workflows state" "workflow_tool state"]
      sections_present(3) [of "todos state"] sections_present(4) [of "running_subagents state" tools]
    by (metis not_None_eq option.distinct(1))
  finally show ?thesis .
qed

lemma line_in_section:
  assumes "l \<in> set (reminder_lines state)"
  shows "\<exists>s \<in> set (format_active_agent_sections state (Some tools)). \<not> blank s \<and> sublist l s"
proof -
  consider (background) "l \<in> set (map format_background_task_line (running_commands state) @
        map format_scheduled_loop_line (scheduled_loops state))"
    | (runs) "l \<in> set (map format_workflow_line (workflows state))"
    | (todo) "l \<in> set (map format_todo_line (filter (\<lambda>t. is_actionable (todo_status t)) (todos state)))"
    | (agents) "l \<in> set (map format_subagent_line (running_subagents state))"
    using assms by (auto simp: reminder_lines_def)
  then show ?thesis
  proof cases
    case background
    then obtain s where "section_running_background state (Some tools) = Some s"
      using sections_present(1) [of state "Some tools"] by (cases "section_running_background state (Some tools)") auto
    note sec = this
    from section_not_blank(1) [OF sec] section_has_lines(1) [OF sec background] sec show ?thesis
      by (intro bexI [of _ s]) (simp_all add: sections_of)
  next
    case runs
    then obtain s where "section_workflows (workflows state) (workflow_tool state) = Some s"
      using sections_present(2) [of "workflows state"] by (cases "section_workflows (workflows state) (workflow_tool state)") auto
    note sec = this
    from section_not_blank(2) [OF sec] section_has_lines(2) [OF sec runs] sec show ?thesis
      by (intro bexI [of _ s]) (simp_all add: sections_of)
  next
    case todo
    then obtain s where "section_todo_list (todos state) = Some s"
      using sections_present(3) [of "todos state"] by (cases "section_todo_list (todos state)") (auto simp: list_ex_iff)
    note sec = this
    from section_not_blank(3) [OF sec] section_has_lines(3) [OF sec todo] sec show ?thesis
      by (intro bexI [of _ s]) (simp_all add: sections_of)
  next
    case agents
    then obtain s where "section_running_subagents (running_subagents state) tools = Some s"
      using sections_present(4) [of "running_subagents state" tools]
      by (cases "section_running_subagents (running_subagents state) tools") auto
    note sec = this
    from section_not_blank(4) [OF sec] section_has_lines(4) [OF sec agents] sec show ?thesis
      by (intro bexI [of _ s]) (simp_all add: sections_of)
  qed
qed

text \<open>
  A compacted conversation is reminded of everything that still runs, and of nothing else. With
  the tool names known there is a reminder exactly when the state is not empty, and it holds the line
  of every command, loop, workflow, open todo and sub-agent word for word, ids included.
\<close>

theorem reminder_is_complete:
  "case format_active_agent_reminder state (Some tools) of
     None \<Rightarrow> reminder_is_empty state
   | Some reminder \<Rightarrow> \<not> reminder_is_empty state \<and> list_all (contains reminder) (reminder_lines state)"
proof -
  let ?ss = "format_active_agent_sections state (Some tools)"
  let ?body = "foldl append_section [] ?ss"
  have not_blank: "\<not> blank s" if "s \<in> set ?ss" for s
    using that section_not_blank unfolding sections_of by blast
  have "?body = [] \<longleftrightarrow> ?ss = []"
  proof
    assume "?body = []"
    then have "s \<notin> set ?ss" for s
      using sections_sublist(2) [of s ?ss "[]"] not_blank [of s] by (auto simp: blank_def)
    then show "?ss = []" by (metis all_not_in_conv set_empty)
  qed simp
  then have iff: "?body = [] \<longleftrightarrow> reminder_is_empty state" by (simp add: no_sections_iff)
  have "sublist l ?body" if "l \<in> set (reminder_lines state)" for l
    using line_in_section [OF that, of tools] sections_sublist(2) [of _ ?ss "[]"] sublist_order.order_trans by blast
  then have "contains (lit ''<system-reminder>'' @ [10] @ ?body @ [10] @ lit ''</system-reminder>'') l"
    if "l \<in> set (reminder_lines state)" for l
    using that unfolding contains_iff_sublist by (metis sublist_front sublist_back)
  with iff show ?thesis
    by (auto simp: format_active_agent_reminder_def wrap_system_reminder_def Let_def list_all_iff)
qed

end
