(* ===== verification/Permission_Rules.thy ===== *)
theory Permission_Rules
  imports Rust_Slice "HOL-Library.Monad_Syntax"
begin

text \<open>
  Permission rules: the vocabulary of \<^verbatim>\<open>permission/types.rs\<close> that the policy uses, and
  \<^verbatim>\<open>permission/rules.rs\<close>, which reads a rule such as \<open>Bash(git push:*)\<close> from a settings file. The
  parser looks for parentheses by bytes and slices there; it never panics, its three replacements
  equal one pass over the escapes, and an escaped pattern comes back as it was.
\<close>

subsection \<open>Vocabulary\<close>

datatype PatternMode = Glob | Domain

datatype RuleAction = Allow | Deny | Ask

datatype ToolFilter = Any | Bash | Edit | Read | Grep | Mcp | WebFetch | WebSearch | AgentMessage

datatype PromptPolicy = Ask | Deny | Auto | Allow

datatype Decision = Allow | Ask | FollowupMessage str | Reject str | PolicyDeny str | Cancelled

record PermissionRule =
  action :: RuleAction
  tool :: ToolFilter
  pattern :: "str option"
  pattern_mode :: PatternMode

record PermissionConfig =
  rules :: "PermissionRule list"
  prompt_policy :: PromptPolicy
  default_mode_configured :: bool

definition PermissionConfig_new :: "PermissionRule list \<Rightarrow> PermissionConfig" where
  "PermissionConfig_new rs = \<lparr>rules = rs, prompt_policy = PromptPolicy.Ask, default_mode_configured = False\<rparr>"

text \<open>\<open>'v\<close> is the type of \<open>serde_json\<close> values, which the policy carries and never inspects.\<close>

datatype 'v AccessKind =
    Read "str option"
  | Grep (path: "str option") (glob: "str option")
  | Edit str
  | Bash str
  | MCPTool (mcp_name: str) (mcp_input: 'v)
  | WebFetch str
  | WebSearch str
  | AgentMessage (subagent_id: str)

subsection \<open>Default modes\<close>

datatype DefaultPermissionMode =
  Default | AcceptEdits | Plan | Auto | DontAsk | BypassPermissions

definition DefaultPermissionMode_from_str :: "str \<Rightarrow> str + DefaultPermissionMode" where
  "DefaultPermissionMode_from_str s =
     (if s = lit ''default'' then Inr Default
      else if s = lit ''acceptEdits'' then Inr AcceptEdits
      else if s = lit ''plan'' then Inr Plan
      else if s = lit ''auto'' then Inr DefaultPermissionMode.Auto
      else if s = lit ''dontAsk'' then Inr DontAsk
      else if s = lit ''bypassPermissions'' then Inr BypassPermissions
      else Inl s)"

record DefaultModeEffects =
  effect_prompt_policy :: PromptPolicy
  accept_edits :: bool
  bypass_permissions :: bool

definition DefaultModeEffects_default :: DefaultModeEffects where
  "DefaultModeEffects_default =
     \<lparr>effect_prompt_policy = PromptPolicy.Ask, accept_edits = False, bypass_permissions = False\<rparr>"

fun DefaultPermissionMode_effects :: "DefaultPermissionMode \<Rightarrow> DefaultModeEffects" where
  "DefaultPermissionMode_effects AcceptEdits = DefaultModeEffects_default\<lparr>accept_edits := True\<rparr>"
| "DefaultPermissionMode_effects BypassPermissions = DefaultModeEffects_default\<lparr>bypass_permissions := True\<rparr>"
| "DefaultPermissionMode_effects Default = DefaultModeEffects_default"
| "DefaultPermissionMode_effects Plan = DefaultModeEffects_default"
| "DefaultPermissionMode_effects DontAsk =
     DefaultModeEffects_default\<lparr>effect_prompt_policy := PromptPolicy.Deny\<rparr>"
| "DefaultPermissionMode_effects DefaultPermissionMode.Auto =
     DefaultModeEffects_default\<lparr>effect_prompt_policy := PromptPolicy.Auto\<rparr>"

subsection \<open>The rule parser\<close>

datatype RuleParseError =
    UnsupportedToolPrefix str
  | UnknownToolPrefix str
  | MalformedRule str

fun RuleParseError_fmt :: "RuleParseError \<Rightarrow> str" where
  "RuleParseError_fmt (UnsupportedToolPrefix p) = lit ''unsupported tool prefix: '' @ p"
| "RuleParseError_fmt (UnknownToolPrefix p) = lit ''unknown tool prefix: '' @ p"
| "RuleParseError_fmt (MalformedRule d) = lit ''malformed rule: '' @ d"

definition tool_name_to_filter :: "str \<Rightarrow> ToolFilter option" where
  "tool_name_to_filter name =
     (if name = lit ''Bash'' then Some ToolFilter.Bash
      else if name = lit ''Read'' then Some ToolFilter.Read
      else if name = lit ''Edit'' \<or> name = lit ''Write'' then Some ToolFilter.Edit
      else if name = lit ''MCPTool'' then Some Mcp
      else if name = lit ''Grep'' \<or> name = lit ''Glob'' then Some ToolFilter.Grep
      else if name = lit ''WebFetch'' then Some ToolFilter.WebFetch
      else if name = lit ''WebSearch'' then Some ToolFilter.WebSearch
      else if name = lit ''AgentMessage'' \<or> name = lit ''SendSubagentMessage'' \<or> name = lit ''SendAgentMessage''
      then Some ToolFilter.AgentMessage
      else None)"

text \<open>The backslash is byte 92, the parentheses are 40 and 41.\<close>

fun backslashes_before :: "nat list \<Rightarrow> nat \<Rightarrow> nat" where
  "backslashes_before bytes 0 = 0"
| "backslashes_before bytes (Suc j) = (if bytes ! j = 92 then Suc (backslashes_before bytes j) else 0)"

definition is_unescaped :: "nat list \<Rightarrow> nat \<Rightarrow> bool" where
  "is_unescaped bytes pos \<longleftrightarrow> even (backslashes_before bytes pos)"

definition find_first_unescaped :: "str \<Rightarrow> nat \<Rightarrow> nat option" where
  "find_first_unescaped s target =
     (let bytes = utf8_bytes s
      in find (\<lambda>i. bytes ! i = target \<and> is_unescaped bytes i) [0..<length bytes])"

definition find_last_unescaped :: "str \<Rightarrow> nat \<Rightarrow> nat option" where
  "find_last_unescaped s target =
     (let bytes = utf8_bytes s
      in find (\<lambda>i. bytes ! i = target \<and> is_unescaped bytes i) (rev [0..<length bytes]))"

definition unescape_rule_content :: "str \<Rightarrow> str" where
  "unescape_rule_content s =
     (if \<not> contains s [92] then s
      else replace_all (replace_all (replace_all s [92, 40] [40]) [92, 41] [41]) [92, 92] [92])"

definition strip_domain_prefix :: "str \<Rightarrow> str \<times> PatternMode" where
  "strip_domain_prefix p =
     (case strip_prefix p (lit ''domain:'') of Some d \<Rightarrow> (d, Domain) | None \<Rightarrow> (p, Glob))"

definition strip_bash_colon_wildcard :: "str \<Rightarrow> str" where
  "strip_bash_colon_wildcard p = (case strip_suffix p (lit '':*'') of Some q \<Rightarrow> q | None \<Rightarrow> p)"

definition unsupported_tool :: "str \<Rightarrow> bool" where
  "unsupported_tool name \<longleftrightarrow>
     name = lit ''EnterWorktree'' \<or> name = lit ''NotebookEdit'' \<or> name = lit ''NotebookRead''"

text \<open>The rule with an opening parenthesis at a byte offset, and the rule without one.\<close>

definition parse_call_rule :: "str \<Rightarrow> RuleAction \<Rightarrow> nat \<Rightarrow> (RuleParseError + PermissionRule) option" where
  "parse_call_rule rule act open_paren =
     do {
       prefix \<leftarrow> slice_to rule open_paren;
       content_and_close \<leftarrow> slice_from rule (open_paren + 1);
       (case find_last_unescaped content_and_close 41 of
          None \<Rightarrow> Some (Inl (MalformedRule (lit ''missing closing parenthesis'')))
        | Some close_paren \<Rightarrow>
            do {
              inner \<leftarrow> slice_to content_and_close close_paren;
              let prefix_trimmed = trim prefix;
              let raw_content = trim inner;
              let pat = (if raw_content = [] \<or> raw_content = lit ''*'' then [] else unescape_rule_content raw_content);
              (case tool_name_to_filter prefix_trimmed of
                 None \<Rightarrow> Some (Inl (if unsupported_tool prefix_trimmed then UnsupportedToolPrefix prefix_trimmed
                                    else UnknownToolPrefix prefix_trimmed))
               | Some f \<Rightarrow>
                   (let pat = (if f = ToolFilter.Bash then strip_bash_colon_wildcard pat else pat);
                        (pat, mode) = strip_domain_prefix pat
                    in Some (Inr \<lparr>action = act, tool = f, pattern = (if pat = [] then None else Some pat),
                                  pattern_mode = mode\<rparr>)))
            })
     }"

definition parse_bare_rule :: "str \<Rightarrow> RuleAction \<Rightarrow> RuleParseError + PermissionRule" where
  "parse_bare_rule rule act =
     (if unsupported_tool rule then Inl (UnsupportedToolPrefix rule)
      else case tool_name_to_filter rule of
        Some f \<Rightarrow> Inr \<lparr>action = act, tool = f, pattern = None, pattern_mode = Glob\<rparr>
      | None \<Rightarrow>
          (case strip_prefix rule (lit ''mcp__'') of
             Some rest \<Rightarrow>
               if rest \<noteq> []
               then Inr \<lparr>action = act, tool = Mcp,
                         pattern = (if rest = lit ''*'' then None
                                    else if contains rest (lit ''__'') then Some rest
                                    else Some (rest @ lit ''__*'')),
                         pattern_mode = Glob\<rparr>
               else Inr \<lparr>action = act, tool = Any, pattern = Some rule, pattern_mode = Glob\<rparr>
           | None \<Rightarrow>
               Inr \<lparr>action = act, tool = Any, pattern = (if rule = [] then None else Some rule),
                    pattern_mode = Glob\<rparr>))"

definition parse_permission_rule :: "str \<Rightarrow> RuleAction \<Rightarrow> (RuleParseError + PermissionRule) option" where
  "parse_permission_rule input act =
     (let rule = trim input
      in case find_first_unescaped rule 40 of
           Some open_paren \<Rightarrow> parse_call_rule rule act open_paren
         | None \<Rightarrow> Some (parse_bare_rule rule act))"

subsection \<open>Unescaping in one pass\<close>

text \<open>
  The reference: a backslash before a parenthesis or a backslash is dropped, one escape at a time
  from the left. The code makes three replacements over the whole text instead. The two agree
  because they agree on every run of backslashes and on what follows it.
\<close>

definition special :: "uchar \<Rightarrow> bool" where
  "special c \<longleftrightarrow> c = 40 \<or> c = 41 \<or> c = 92"

fun unescape_once :: "str \<Rightarrow> str" where
  "unescape_once [] = []"
| "unescape_once [c] = [c]"
| "unescape_once (c # d # s) =
     (if c = 92 \<and> special d then d # unescape_once s else c # unescape_once (d # s))"

definition escape_rule_content :: "str \<Rightarrow> str" where
  "escape_rule_content s = concat (map (\<lambda>c. if special c then [92, c] else [c]) s)"

lemma escape_rule_content_simps [simp]:
  "escape_rule_content [] = []"
  "escape_rule_content (c # s) = (if special c then [92, c] else [c]) @ escape_rule_content s"
  "escape_rule_content (s @ t) = escape_rule_content s @ escape_rule_content t"
  by (simp_all add: escape_rule_content_def)

lemma unescape_once_skip: "c \<noteq> 92 \<Longrightarrow> unescape_once (c # s) = c # unescape_once s"
  by (cases s) simp_all

lemma unescape_once_escape: "unescape_once (escape_rule_content s) = s"
  by (induction s) (auto simp: special_def unescape_once_skip)

text \<open>A two-character replacement as a recursion over the text.\<close>

lemma replace_pair_Cons:
  assumes "a \<noteq> c \<or> s = [] \<or> hd s \<noteq> b"
  shows "replace_all (c # s) [a, b] r = c # replace_all s [a, b] r"
proof -
  have none: "strip_prefix (c # s) [a, b] = None"
    using assms by (cases s) (auto simp: strip_prefix_def)
  show ?thesis
  proof (cases "split_once s [a, b]")
    case None
    with none show ?thesis by (simp add: replace_all.simps [of "c # s"] replace_all_none)
  next
    case (Some p)
    with none show ?thesis
      by (cases p) (simp add: replace_all.simps [of "c # s"] replace_all.simps [of s])
  qed
qed

lemma replace_pair_hit: "replace_all (a # b # s) [a, b] r = r @ replace_all s [a, b] r"
  by (simp add: replace_all.simps [of "a # b # s"] strip_prefix_def)

lemma replace_pair_Nil [simp]: "replace_all [] [a, b] r = []"
  by (simp add: replace_all.simps)

lemma replace_pair_run:
  assumes "a \<noteq> b" and "w = [] \<or> hd w \<noteq> a \<and> hd w \<noteq> b"
  shows "replace_all (replicate n a @ w) [a, b] r = replicate n a @ replace_all w [a, b] r"
proof (induction n)
  case (Suc n)
  have "replicate n a @ w = [] \<or> hd (replicate n a @ w) \<noteq> b"
    using assms by (cases n) auto
  with Suc show ?case using assms(1) by (simp add: replace_pair_Cons)
qed simp

lemma replace_pair_run_hit:
  assumes "a \<noteq> b"
  shows "replace_all (replicate (Suc n) a @ b # w) [a, b] r = replicate n a @ r @ replace_all w [a, b] r"
proof (induction n)
  case 0
  then show ?case by (simp add: replace_pair_hit)
next
  case (Suc n)
  with assms show ?case by (simp add: replace_pair_Cons)
qed

lemma replace_double_run:
  assumes "w = [] \<or> hd w \<noteq> a"
  shows "replace_all (replicate n a @ w) [a, a] [a] = replicate ((n + 1) div 2) a @ replace_all w [a, a] [a]"
proof (induction n rule: induct_nat_012)
  case 1
  with assms show ?case by (simp add: replace_pair_Cons)
next
  case (ge2 n)
  then show ?case by (simp add: replace_pair_hit)
qed simp

lemma unescape_once_run:
  assumes "w = [] \<or> hd w \<noteq> 92"
  shows "unescape_once (replicate n 92 @ w) =
     replicate (if w \<noteq> [] \<and> special (hd w) then n div 2 else (n + 1) div 2) 92 @ unescape_once w"
proof (induction n rule: induct_nat_012)
  case 1
  with assms show ?case by (cases w) (auto simp: unescape_once_skip special_def)
next
  case (ge2 n)
  then show ?case by (auto simp: special_def)
qed simp

text \<open>The three replacements of the code.\<close>

definition unescape_passes :: "str \<Rightarrow> str" where
  "unescape_passes s = replace_all (replace_all (replace_all s [92, 40] [40]) [92, 41] [41]) [92, 92] [92]"

lemma unescape_passes_skip: "c \<noteq> 92 \<Longrightarrow> unescape_passes (c # s) = c # unescape_passes s"
  by (simp add: unescape_passes_def replace_pair_Cons)

lemma unescape_passes_run_end:
  "unescape_passes (replicate n 92) = replicate ((n + 1) div 2) 92"
  using replace_pair_run [of 92 40 "[]" n "[40]"] replace_pair_run [of 92 41 "[]" n "[41]"]
    replace_double_run [of "[]" 92 n]
  by (simp add: unescape_passes_def)

lemma unescape_passes_run:
  assumes "d \<noteq> 92"
  shows "unescape_passes (replicate n 92 @ d # u) =
     replicate (if special d then n div 2 else (n + 1) div 2) 92 @ d # unescape_passes u"
proof -
  consider (none) "n = 0" | (open_paren) m where "n = Suc m" "d = 40" | (close_paren) m where "n = Suc m" "d = 41"
    | (other) "\<not> special d"
    using assms by (cases n) (auto simp: special_def)
  then show ?thesis
  proof cases
    case none
    with assms show ?thesis by (simp add: unescape_passes_skip)
  next
    case open_paren
    then show ?thesis
      using replace_pair_run_hit [of 92 40 m u "[40]"]
        replace_pair_run [of 92 41 "40 # replace_all u [92, 40] [40]" m "[41]"]
      by (simp add: unescape_passes_def special_def replace_double_run replace_pair_Cons del: replicate_Suc)
  next
    case close_paren
    then show ?thesis
      using replace_pair_run [of 92 40 "41 # u" "Suc m" "[40]"]
        replace_pair_run_hit [of 92 41 m "replace_all u [92, 40] [40]" "[41]"]
      by (simp add: unescape_passes_def special_def replace_double_run replace_pair_Cons del: replicate_Suc)
  next
    case other
    with assms show ?thesis
      using replace_pair_run [of 92 40 "d # u" n "[40]"]
        replace_pair_run [of 92 41 "d # replace_all u [92, 40] [40]" n "[41]"]
      by (simp add: unescape_passes_def special_def replace_double_run replace_pair_Cons)
  qed
qed

lemma unescape_passes_eq: "unescape_passes s = unescape_once s"
proof (induction "length s" arbitrary: s rule: less_induct)
  case less
  define n where "n = length (takeWhile (\<lambda>c. c = 92) s)"
  define w where "w = dropWhile (\<lambda>c. c = 92) s"
  have s: "s = replicate n 92 @ w"
    unfolding n_def w_def by (metis (mono_tags, lifting) replicate_length_same set_takeWhileD takeWhile_dropWhile_id)
  have "w = [] \<or> hd w \<noteq> 92" using hd_dropWhile [of "\<lambda>c. c = 92" s] by (auto simp: w_def)
  then consider "w = []" | d u where "w = d # u" "d \<noteq> 92" by (cases w) auto
  then show ?case
  proof cases
    case 1
    then show ?thesis using unescape_once_run [of "[]" n] by (simp add: s unescape_passes_run_end)
  next
    case (2 d u)
    then have "unescape_passes u = unescape_once u" using less s by simp
    with 2 show ?thesis
      using unescape_once_run [of w n] by (simp add: s unescape_passes_run unescape_once_skip)
  qed
qed

lemma unescape_once_none: "92 \<notin> set s \<Longrightarrow> unescape_once s = s"
  by (induction s) (simp_all add: unescape_once_skip)

lemma contains_single: "contains s [c] \<longleftrightarrow> c \<in> set s"
  by (induction s) (auto simp: contains_code)

text \<open>
  The three replacements of the code remove the escapes of a rule's content exactly as one pass
  from the left does: they never unescape a character twice and never leave an escape behind.
\<close>

theorem unescape_is_one_pass: "unescape_rule_content s = unescape_once s"
  using unescape_passes_eq [of s]
  by (simp add: unescape_rule_content_def unescape_passes_def contains_single unescape_once_none)

subsection \<open>No slice panics\<close>

lemma find_first_unescaped_Some:
  assumes "find_first_unescaped s t = Some i" "t < 128"
  shows "\<exists>a b. s = a @ t # b \<and> str_len a = i"
proof -
  have "i < length (utf8_bytes s)" "utf8_bytes s ! i = t"
    using assms(1) by (auto simp: find_first_unescaped_def Let_def find_Some_iff)
  with assms(2) show ?thesis using utf8_bytes_nth_ascii [of i s] by simp
qed

lemma find_last_unescaped_Some:
  assumes "find_last_unescaped s t = Some i" "t < 128"
  shows "\<exists>a b. s = a @ t # b \<and> str_len a = i"
proof -
  obtain k where "k < length (utf8_bytes s)" "i = rev [0..<length (utf8_bytes s)] ! k" "utf8_bytes s ! i = t"
    using assms(1) by (auto simp: find_last_unescaped_def Let_def find_Some_iff)
  then have "i < length (utf8_bytes s)" "utf8_bytes s ! i = t" by (simp_all add: rev_nth)
  with assms(2) show ?thesis using utf8_bytes_nth_ascii [of i s] by simp
qed

text \<open>
  Reading a rule never panics: every byte offset at which the parser slices is a character
  boundary, whatever text the settings hold.
\<close>

theorem rule_parser_never_panics: "parse_permission_rule s act \<noteq> None"
proof (cases "find_first_unescaped (trim s) 40")
  case (Some i)
  then obtain a b where s: "trim s = a @ 40 # b" and i: "str_len a = i"
    using find_first_unescaped_Some by fastforce
  then have slices: "slice_to (trim s) i = Some a" "slice_from (trim s) (Suc i) = Some b"
    using slice_to_append [of a "40 # b"] slice_from_append_ascii [of 40 a b] by simp_all
  have "slice_to b j \<noteq> None" if "find_last_unescaped b 41 = Some j" for j
  proof -
    note j = that
    obtain a' b' where "b = a' @ 41 # b'" "str_len a' = j"
      using j find_last_unescaped_Some [of b 41 j] by auto
    then show ?thesis using slice_to_append [of a' "41 # b'"] by simp
  qed
  with Some slices show ?thesis
    by (auto simp: parse_permission_rule_def parse_call_rule_def Let_def split: option.splits prod.splits)
qed (simp add: parse_permission_rule_def Let_def)

subsection \<open>Escaped patterns come back\<close>

lemma utf8_bytes_ascii_mem: "c < 128 \<Longrightarrow> c \<in> set (utf8_bytes s) \<longleftrightarrow> c \<in> set s"
proof (induction s)
  case (Cons d s)
  then show ?case by (cases "d < 128") (use utf8_char_high [of d c] in auto)
qed simp

lemma backslashes_before_prefix: "n \<le> length xs \<Longrightarrow> backslashes_before (xs @ ys) n = backslashes_before xs n"
  by (induction n) (simp_all add: nth_append)

lemma backslashes_before_none: "92 \<notin> set xs \<Longrightarrow> n \<le> length xs \<Longrightarrow> backslashes_before xs n = 0"
  by (cases n) (auto simp: in_set_conv_nth)

lemma utf8_char_no_backslash: "c \<noteq> 92 \<Longrightarrow> 92 \<notin> set (utf8_char c)"
  using utf8_bytes_ascii_mem [of 92 "[c]"] by simp

lemma backslashes_before_char:
  assumes "c \<noteq> 92"
  shows "backslashes_before (xs @ utf8_char c) (length xs + length (utf8_char c)) = 0"
proof -
  obtain ys y where y: "utf8_char c = ys @ [y]"
    by (metis length_utf8_char len_utf8_nonzero list.size(3) rev_exhaust)
  then have "y \<noteq> 92" using utf8_char_no_backslash [OF assms] by auto
  with y show ?thesis by (simp add: nth_append)
qed

lemma escaped_backslashes_even:
  "even (backslashes_before (utf8_bytes (escape_rule_content s)) (length (utf8_bytes (escape_rule_content s))))"
proof (induction s rule: rev_induct)
  case (snoc c s)
  show ?case
  proof (cases "c = 92")
    case True
    with snoc show ?thesis by (simp add: special_def nth_append backslashes_before_prefix)
  next
    case False
    have "utf8_bytes (escape_rule_content (s @ [c])) =
        utf8_bytes (escape_rule_content s @ (if special c then [92] else [])) @ utf8_char c"
      by simp
    with False show ?thesis
      using backslashes_before_char [of c "utf8_bytes (escape_rule_content s @ (if special c then [92] else []))"]
      by (metis even_zero length_append)
  qed
qed simp

lemma find_last_unescaped_closing:
  "find_last_unescaped (escape_rule_content s @ [41]) 41 = Some (str_len (escape_rule_content s))"
proof -
  let ?e = "utf8_bytes (escape_rule_content s)"
  have "is_unescaped (?e @ [41]) (length ?e)"
    using escaped_backslashes_even [of s] by (simp add: is_unescaped_def backslashes_before_prefix)
  then show ?thesis
    by (simp add: find_last_unescaped_def Let_def length_utf8_bytes nth_append)
qed

lemma find_first_unescaped_opening:
  assumes "40 \<notin> set name" "92 \<notin> set name"
  shows "find_first_unescaped (name @ 40 # rest) 40 = Some (str_len name)"
proof -
  let ?n = "utf8_bytes name" and ?b = "utf8_bytes (name @ 40 # rest)"
  have "is_unescaped ?b (length ?n)"
    using assms utf8_bytes_ascii_mem [of 92 name]
    by (simp add: is_unescaped_def backslashes_before_prefix backslashes_before_none)
  moreover have "?b ! j \<noteq> 40" if "j < length ?n" for j
    using that assms utf8_bytes_ascii_mem [of 40 name] by (auto simp: nth_append in_set_conv_nth)
  ultimately show ?thesis
    by (auto simp: find_first_unescaped_def Let_def find_Some_iff length_utf8_bytes nth_append
        intro!: exI [of _ "str_len name"])
qed

lemma special_not_whitespace: "special c \<Longrightarrow> \<not> is_whitespace c"
  by (auto simp: special_def is_whitespace_def)

lemma hd_escape: "s \<noteq> [] \<Longrightarrow> hd (escape_rule_content s) = (if special (hd s) then 92 else hd s)"
  by (cases s) auto

lemma last_escape: "s \<noteq> [] \<Longrightarrow> last (escape_rule_content s) = last s"
  by (cases s rule: rev_cases) auto

lemma escape_eq_Nil [simp]: "escape_rule_content s = [] \<longleftrightarrow> s = []"
  by (cases s) auto

lemma trimmed_escape: "trimmed s \<Longrightarrow> trimmed (escape_rule_content s)"
  using special_not_whitespace [of 92]
  by (auto simp: trimmed_def hd_escape last_escape special_def split: if_splits)

lemma escape_eq_star: "escape_rule_content s = [42] \<longleftrightarrow> s = [42]"
proof
  assume e: "escape_rule_content s = [42]"
  then have "unescape_once (escape_rule_content s) = [42]" by simp
  then show "s = [42]" by (simp only: unescape_once_escape)
qed (simp add: special_def)

definition tool_names :: "str list" where
  "tool_names = map lit [''Bash'', ''Read'', ''Edit'', ''Write'', ''MCPTool'', ''Grep'', ''Glob'', ''WebFetch'',
     ''WebSearch'', ''AgentMessage'', ''SendSubagentMessage'', ''SendAgentMessage'']"

lemma tool_name_known: "tool_name_to_filter name = Some f \<Longrightarrow> name \<in> set tool_names"
  by (rule ccontr) (simp add: tool_name_to_filter_def tool_names_def)

lemma tool_names_letters: "list_all (list_all (\<lambda>c. 65 \<le> c \<and> c \<le> 122 \<and> c \<noteq> 92)) tool_names"
  by (simp add: tool_names_def)

lemma tool_name_chars:
  assumes "tool_name_to_filter name = Some f" "c \<in> set name"
  shows "65 \<le> c \<and> c \<le> 122 \<and> c \<noteq> 92"
  using tool_names_letters tool_name_known [OF assms(1)] assms(2) unfolding list_all_iff by blast

text \<open>What a content stands for, once the parentheses are gone and the escapes removed.\<close>

definition rule_of_content :: "ToolFilter \<Rightarrow> RuleAction \<Rightarrow> str \<Rightarrow> PermissionRule" where
  "rule_of_content f act content =
     (let p = (if content = lit ''*'' then [] else content);
          p = (if f = ToolFilter.Bash then strip_bash_colon_wildcard p else p);
          (p, mode) = strip_domain_prefix p
      in \<lparr>action = act, tool = f, pattern = (if p = [] then None else Some p), pattern_mode = mode\<rparr>)"

text \<open>
  A rule written as a tool's name, a parenthesis, the escaped pattern and a parenthesis is read
  back as a rule for that tool with exactly that pattern, whatever parentheses and backslashes the
  pattern has; only a trailing \<open>:*\<close> of a Bash pattern and a leading \<open>domain:\<close> have a meaning of their
  own, and an empty pattern or a lone star covers the whole tool.
\<close>

theorem escaped_rule_round_trip:
  assumes "tool_name_to_filter name = Some f" and "trimmed content"
  shows "parse_permission_rule (name @ lit ''('' @ escape_rule_content content @ lit '')'') act =
         Some (Inr (rule_of_content f act content))"
proof -
  let ?e = "escape_rule_content content" and ?s = "name @ 40 # escape_rule_content content @ [41]"
  have name: "40 \<notin> set name" "92 \<notin> set name" and ws: "\<And>c. c \<in> set name \<Longrightarrow> \<not> is_whitespace c"
    using tool_name_chars [OF assms(1), of 40] tool_name_chars [OF assms(1), of 92] tool_name_chars [OF assms(1)]
    by (auto simp: is_whitespace_def dest!: tool_name_chars [OF assms(1)])
  then have "trimmed name" by (simp add: trimmedI)
  have "name \<noteq> []" using assms(1) by (auto simp: tool_name_to_filter_def)
  then have "trimmed ?s" using ws by (auto simp: trimmed_def is_whitespace_def hd_append)
  have slices: "slice_to ?s (str_len name) = Some name" "slice_from ?s (Suc (str_len name)) = Some (?e @ [41])"
    "slice_to (?e @ [41]) (str_len ?e) = Some ?e"
    by (simp_all add: slice_to_append slice_from_append_ascii)
  have "unescape_rule_content ?e = content"
    using unescape_passes_eq [of ?e]
    by (simp add: unescape_rule_content_def unescape_passes_def contains_single unescape_once_none unescape_once_escape)
       (metis unescape_once_escape unescape_once_none)
  then show ?thesis
    using \<open>trimmed ?s\<close> \<open>trimmed name\<close> trimmed_escape [OF assms(2)] assms(1)
    by (simp add: parse_permission_rule_def parse_call_rule_def find_first_unescaped_opening [OF name] slices
        find_last_unescaped_closing rule_of_content_def escape_eq_star Let_def split: prod.splits)
qed

theorem escaped_rule_round_trip_witness:
  "parse_permission_rule (lit ''Bash('' @ escape_rule_content (lit ''echo (a)'') @ lit '')'') RuleAction.Deny =
     Some (Inr \<lparr>action = RuleAction.Deny, tool = ToolFilter.Bash, pattern = Some (lit ''echo (a)''), pattern_mode = Glob\<rparr>)"
proof -
  have "tool_name_to_filter (lit ''Bash'') = Some ToolFilter.Bash" by (simp add: tool_name_to_filter_def)
  moreover have "trimmed (lit ''echo (a)'')" by (simp add: trimmed_def is_whitespace_def)
  ultimately show ?thesis
    using escaped_rule_round_trip [of "lit ''Bash''" ToolFilter.Bash "lit ''echo (a)''" RuleAction.Deny]
    by (simp add: rule_of_content_def strip_bash_colon_wildcard_def strip_domain_prefix_def strip_suffix_def strip_prefix_def)
qed

end
