(* ===== verification/Shell_Words.thy ===== *)
theory Shell_Words
  imports Rust_Slice "HOL-Library.Monad_Syntax" "HOL-Library.Multiset"
begin

text \<open>
  The shell-command analysis behind the permission gates: \<^verbatim>\<open>permission/bash_command_splitting.rs\<close>
  (decomposing a script into plain commands, scanning \<open>env\<close>, peeling wrappers such as \<open>timeout\<close> and
  transparent prefixes such as \<open>command\<close>) and the recognition of \<open>sh -c\<close> of \<^verbatim>\<open>permission/policy.rs\<close>.
  The grammar of tree-sitter is outside the repository: its parse of a script is an argument, the
  tree it returns a datatype. A cursor over a slice of words is the list of words that remain.
\<close>

subsection \<open>Syntax trees and plain commands\<close>

datatype Node = Node (kind: str) (is_named: bool) (start_byte: nat) (end_byte: nat) (children: "Node list")

record Tree =
  root_node :: Node
  has_error :: bool

type_synonym shell_parser = "str \<Rightarrow> Tree option"

definition utf8_text :: "Node \<Rightarrow> str \<Rightarrow> str option" where
  "utf8_text n src = do { upto_end \<leftarrow> slice_to src (end_byte n); slice_from upto_end (start_byte n) }"

record PlainCommand =
  words :: "str list"
  span_start :: nat
  span_end :: nat

definition spans_whole_script :: "PlainCommand \<Rightarrow> str \<Rightarrow> bool" where
  "spans_whole_script c script =
     (case (slice_to script (span_start c), slice_from script (span_end c)) of
        (Some before, Some after) \<Rightarrow> trim before = [] \<and> trim after = []
      | _ \<Rightarrow> False)"

definition ALLOWED_KINDS :: "str list" where
  "ALLOWED_KINDS = map lit
     [''program'', ''list'', ''pipeline'', ''command'', ''command_name'', ''word'', ''string'', ''string_content'',
      ''raw_string'', ''number'', ''concatenation'', ''variable_assignment'', ''variable_name'',
      ''redirected_statement'', ''file_redirect'', ''file_descriptor'', ''comment'', ''heredoc_redirect'',
      ''heredoc_start'', ''heredoc_body'', ''heredoc_content'', ''heredoc_end'']"

text \<open>The double quote, character 34, is written as its number.\<close>

definition ALLOWED_PUNCT_TOKENS :: "str list" where
  "ALLOWED_PUNCT_TOKENS =
     [lit ''&&'', lit ''||'', lit '';'', lit ''|'', [34], [39], lit ''='', lit ''>'', lit ''>>'', lit ''<'',
      lit ''<<'', lit ''>&'', lit ''&>'', lit ''&>>'']"

definition node_allowed :: "Node \<Rightarrow> bool" where
  "node_allowed n \<longleftrightarrow>
     (if is_named n then kind n \<in> set ALLOWED_KINDS
      else \<not> (list_ex (\<lambda>c. c \<in> set (lit ''&;|'')) (kind n) \<and> kind n \<notin> set ALLOWED_PUNCT_TOKENS) \<and>
           (kind n \<in> set ALLOWED_PUNCT_TOKENS \<or> trim (kind n) = []))"

definition is_command_node :: "Node \<Rightarrow> bool" where
  "is_command_node n \<longleftrightarrow> is_named n \<and> kind n = lit ''command''"

text \<open>The walk with an explicit stack, top first: children are pushed in order, so the last is visited first.\<close>

lemma children_smaller: "sum_list (map size (rev (children n))) < size (n :: Node)"
  by (cases n) (simp add: size_list_conv_sum_list sum_list_addf rev_map flip: rev_map)

function walk_nodes :: "Node list \<Rightarrow> Node list \<Rightarrow> Node list option" where
  "walk_nodes [] command_nodes = Some command_nodes"
| "walk_nodes (n # stack) command_nodes =
     (if \<not> node_allowed n then None
      else walk_nodes (rev (children n) @ stack)
             (if is_command_node n then command_nodes @ [n] else command_nodes))"
  by pat_completeness auto
termination
  by (relation "measure (\<lambda>(stack, _). sum_list (map size stack))") (use children_smaller in auto)

text \<open>One named child of a command adds at most one word and widens the span.\<close>

definition add_word :: "str \<Rightarrow> Node \<Rightarrow> str list \<times> nat option \<times> nat option \<Rightarrow> str list \<times> nat option \<times> nat option" where
  "add_word w n acc =
     (case acc of (ws, st, en) \<Rightarrow>
        (ws @ [w], (case st of None \<Rightarrow> Some (start_byte n) | Some b \<Rightarrow> Some b), Some (end_byte n)))"

definition simple_string :: "Node \<Rightarrow> Node option" where
  "simple_string n =
     (case children n of
        [a, b, c] \<Rightarrow> if kind a = [34] \<and> kind b = lit ''string_content'' \<and> kind c = [34] then Some b else None
      | _ \<Rightarrow> None)"

definition named_children :: "Node \<Rightarrow> Node list" where
  "named_children n = filter is_named (children n)"

definition plain_child ::
  "str \<Rightarrow> Node \<Rightarrow> str list \<times> nat option \<times> nat option \<Rightarrow> (str list \<times> nat option \<times> nat option) option" where
  "plain_child src child acc =
     (if kind child = lit ''variable_assignment'' then Some acc
      else if kind child = lit ''command_name'' then
        (case named_children child of
           [] \<Rightarrow> None
         | word_node # _ \<Rightarrow>
             if kind word_node \<noteq> lit ''word'' then None
             else do { w \<leftarrow> utf8_text word_node src; Some (add_word w word_node acc) })
      else if kind child = lit ''word'' \<or> kind child = lit ''number'' then
        do { w \<leftarrow> utf8_text child src; Some (add_word w child acc) }
      else if kind child = lit ''string'' then
        do { content_node \<leftarrow> simple_string child; w \<leftarrow> utf8_text content_node src; Some (add_word w child acc) }
      else if kind child = lit ''raw_string'' then
        do {
          raw \<leftarrow> utf8_text child src;
          s \<leftarrow> strip_prefix raw [39];
          w \<leftarrow> strip_suffix s [39];
          Some (add_word w child acc)
        }
      else if kind child = lit ''concatenation'' then
        do { w \<leftarrow> utf8_text child src; Some (add_word w child acc) }
      else None)"

fun plain_children ::
  "str \<Rightarrow> Node list \<Rightarrow> str list \<times> nat option \<times> nat option \<Rightarrow> (str list \<times> nat option \<times> nat option) option" where
  "plain_children src [] acc = Some acc"
| "plain_children src (child # rest) acc = do { acc' \<leftarrow> plain_child src child acc; plain_children src rest acc' }"

definition parse_plain_command_from_node :: "Node \<Rightarrow> str \<Rightarrow> PlainCommand option" where
  "parse_plain_command_from_node cmd src =
     (if kind cmd \<noteq> lit ''command'' then None
      else do {
        (ws, st, en) \<leftarrow> plain_children src (named_children cmd) ([], None, None);
        Some \<lparr>words = ws,
              span_start = (case st of Some b \<Rightarrow> b | None \<Rightarrow> start_byte cmd),
              span_end = (case en of Some b \<Rightarrow> b | None \<Rightarrow> end_byte cmd)\<rparr>
      })"

fun parse_plain_commands :: "Node list \<Rightarrow> str \<Rightarrow> PlainCommand list option" where
  "parse_plain_commands [] src = Some []"
| "parse_plain_commands (n # ns) src =
     do { c \<leftarrow> parse_plain_command_from_node n src; cs \<leftarrow> parse_plain_commands ns src; Some (c # cs) }"

definition try_parse_word_only_commands_sequence :: "Tree \<Rightarrow> str \<Rightarrow> PlainCommand list option" where
  "try_parse_word_only_commands_sequence tree src =
     (if has_error tree then None
      else do {
        command_nodes \<leftarrow> walk_nodes [root_node tree] [];
        parse_plain_commands (sort_key start_byte command_nodes) src
      })"

definition all_commands_from_script :: "shell_parser \<Rightarrow> str \<Rightarrow> PlainCommand list option" where
  "all_commands_from_script try_parse_shell script =
     do { tree \<leftarrow> try_parse_shell script; try_parse_word_only_commands_sequence tree script }"

subsection \<open>Setup commands and \<open>env\<close>\<close>

definition word_in :: "str \<Rightarrow> string list \<Rightarrow> bool" where
  "word_in w ws \<longleftrightarrow> w \<in> set (map lit ws)"

definition basename :: "str \<Rightarrow> str" where
  "basename w = rsplit_first [47, 92] w"

definition is_setup_command :: "str list \<Rightarrow> bool" where
  "is_setup_command cmd =
     (case cmd of [] \<Rightarrow> True
      | w # _ \<Rightarrow> word_in w [''cd'', ''pushd'', ''popd'', ''export'', ''unset'', ''set'', ''sleep'', ''timeout''])"

definition is_ascii_alphabetic :: "nat \<Rightarrow> bool" where
  "is_ascii_alphabetic b \<longleftrightarrow> 65 \<le> b \<and> b \<le> 90 \<or> 97 \<le> b \<and> b \<le> 122"

definition is_env_assignment :: "str \<Rightarrow> bool" where
  "is_env_assignment tok =
     (case split_once tok (lit ''='') of
        None \<Rightarrow> False
      | Some (name, _) \<Rightarrow>
          (case utf8_bytes name of
             [] \<Rightarrow> False
           | b # bs \<Rightarrow> (is_ascii_alphabetic b \<or> b = 95) \<and>
               list_all (\<lambda>b. is_ascii_alphabetic b \<or> 48 \<le> b \<and> b \<le> 57 \<or> b = 95) (b # bs)))"

record EnvScan =
  chdir :: "str option"
  has_split_string :: bool
  options_uncertain :: bool
  split_string_script :: "str option"
  command_start :: nat

fun decode_spelling :: "uchar option \<Rightarrow> str \<Rightarrow> str option" where
  "decode_spelling q [] = (if q = None then Some [] else None)"
| "decode_spelling None (c # cs) =
     (if c = 39 \<or> c = 34 then decode_spelling (Some c) cs
      else if c = 92 then (case cs of [] \<Rightarrow> None | d # ds \<Rightarrow> map_option ((#) d) (decode_spelling None ds))
      else map_option ((#) c) (decode_spelling None cs))"
| "decode_spelling (Some opener) (c # cs) =
     (if opener = c then decode_spelling None cs
      else if opener = 34 \<and> c = 92 then
        (case cs of [] \<Rightarrow> None
         | d # ds \<Rightarrow>
             if d \<in> {36, 96, 34, 92, 10} then map_option ((#) d) (decode_spelling (Some opener) ds)
             else map_option (\<lambda>r. 92 # d # r) (decode_spelling (Some opener) ds))
      else map_option ((#) c) (decode_spelling (Some opener) cs))"

definition decode_shell_literal_spelling :: "str \<Rightarrow> str option" where
  "decode_shell_literal_spelling raw = decode_spelling None raw"

definition decode_env_option_token :: "str \<Rightarrow> str" where
  "decode_env_option_token raw =
     (if 39 \<notin> set raw \<and> 34 \<notin> set raw then raw
      else case decode_shell_literal_spelling raw of Some d \<Rightarrow> d | None \<Rightarrow> raw)"

definition is_high_confidence_env_s_payload :: "str \<Rightarrow> bool" where
  "is_high_confidence_env_s_payload s \<longleftrightarrow>
     s \<noteq> [] \<and> 0 \<notin> set s \<and> \<not> list_ex (\<lambda>c. c \<in> {39, 34, 92, 35, 96, 36, 10, 13}) s"

definition take_high_confidence_payload :: "str \<Rightarrow> str option" where
  "take_high_confidence_payload raw = (if is_high_confidence_env_s_payload raw then Some raw else None)"

datatype EnvShort =
    SplitStringNext
  | SplitStringGlued str
  | SplitStringDetect
  | NoArg
  | ArgNeedNext uchar
  | ArgGlued uchar
  | Uncertain

fun classify_env_cluster :: "str \<Rightarrow> EnvShort" where
  "classify_env_cluster [] = NoArg"
| "classify_env_cluster (c # cs) =
     (if c \<in> set (lit ''iv0'') then classify_env_cluster cs
      else if c = of_char (CHR ''S'') then SplitStringDetect
      else if c \<in> set (lit ''uCPa'') then (if cs \<noteq> [] then ArgGlued c else ArgNeedNext c)
      else Uncertain)"

definition classify_env_short :: "str \<Rightarrow> EnvShort" where
  "classify_env_short tok =
     (if \<not> starts_with tok (lit ''-'') \<or> starts_with tok (lit ''--'') \<or> tok = lit ''-'' then Uncertain
      else let body = tl tok
           in if body = [] then Uncertain
              else case strip_prefix body (lit ''S'') of
                     Some rest \<Rightarrow> (if rest = [] then SplitStringNext else SplitStringGlued rest)
                   | None \<Rightarrow> classify_env_cluster body)"

text \<open>What one token does to the scan: leave the loop before it, leave it after it, or pass one or two words.\<close>

datatype env_step = Break EnvScan | BreakAfter EnvScan | Pass1 EnvScan | Pass2 EnvScan

definition take_option_operand :: "str list \<Rightarrow> EnvScan \<Rightarrow> (str \<Rightarrow> EnvScan) \<Rightarrow> env_step" where
  "take_option_operand rest scan f =
     (case rest of v # _ \<Rightarrow> Pass2 (f v) | [] \<Rightarrow> Break (scan\<lparr>options_uncertain := True\<rparr>))"

definition split_string_next :: "str list \<Rightarrow> EnvScan \<Rightarrow> env_step" where
  "split_string_next rest scan =
     Break (scan\<lparr>has_split_string := True,
                 split_string_script := (case rest of raw # _ \<Rightarrow> take_high_confidence_payload raw
                                         | [] \<Rightarrow> split_string_script scan)\<rparr>)"

definition env_long_option :: "str \<Rightarrow> str list \<Rightarrow> EnvScan \<Rightarrow> env_step" where
  "env_long_option tok rest scan =
     (if tok = lit ''--chdir'' then take_option_operand rest scan (\<lambda>dir. scan\<lparr>chdir := Some dir\<rparr>)
      else case strip_prefix tok (lit ''--chdir='') of
        Some dir \<Rightarrow> Pass1 (scan\<lparr>chdir := Some dir\<rparr>)
      | None \<Rightarrow>
          if word_in tok [''--unset'', ''--path'', ''--argv0''] then take_option_operand rest scan (\<lambda>_. scan)
          else if starts_with tok (lit ''--unset='') \<or> starts_with tok (lit ''--path='') \<or> starts_with tok (lit ''--argv0='')
          then Pass1 scan
          else if word_in tok [''--ignore-environment'', ''--null'', ''--debug'', ''--version'', ''--help'']
          then Pass1 scan
          else if tok = lit ''--split-string'' then split_string_next rest scan
          else case strip_prefix tok (lit ''--split-string='') of
            Some payload \<Rightarrow>
              (let payload = (case strip_prefix (decode_env_option_token tok) (lit ''--split-string='') of
                                Some p \<Rightarrow> p | None \<Rightarrow> payload)
               in Break (scan\<lparr>has_split_string := True,
                              split_string_script := take_high_confidence_payload payload\<rparr>))
          | None \<Rightarrow> Break (scan\<lparr>options_uncertain := True\<rparr>))"

definition env_short_option :: "str \<Rightarrow> str list \<Rightarrow> EnvScan \<Rightarrow> env_step" where
  "env_short_option tok rest scan =
     (case classify_env_short (decode_env_option_token tok) of
        SplitStringNext \<Rightarrow> split_string_next rest scan
      | SplitStringGlued payload \<Rightarrow>
          Break (scan\<lparr>has_split_string := True, split_string_script := take_high_confidence_payload payload\<rparr>)
      | SplitStringDetect \<Rightarrow> Break (scan\<lparr>has_split_string := True\<rparr>)
      | NoArg \<Rightarrow> Pass1 scan
      | ArgNeedNext k \<Rightarrow>
          take_option_operand rest scan
            (\<lambda>operand. if k = of_char (CHR ''C'') then scan\<lparr>chdir := Some operand\<rparr> else scan)
      | ArgGlued k \<Rightarrow>
          Pass1 (if k = of_char (CHR ''C'')
                 then scan\<lparr>chdir := Some (case strip_prefix tok (lit ''-C'') of Some d \<Rightarrow> d | None \<Rightarrow> [])\<rparr>
                 else scan)
      | Uncertain \<Rightarrow> Break (scan\<lparr>options_uncertain := True\<rparr>))"

definition env_token :: "str \<Rightarrow> str list \<Rightarrow> EnvScan \<Rightarrow> env_step" where
  "env_token tok rest scan =
     (if tok = lit ''--'' then BreakAfter scan
      else if tok = lit ''-'' then Pass1 scan
      else if \<not> starts_with tok (lit ''-'') then (if is_env_assignment tok then Pass1 scan else Break scan)
      else if starts_with tok (lit ''--'') then env_long_option tok rest scan
      else env_short_option tok rest scan)"

function env_loop :: "str list \<Rightarrow> nat \<Rightarrow> EnvScan \<Rightarrow> EnvScan" where
  "env_loop [] i scan = scan\<lparr>command_start := i\<rparr>"
| "env_loop (tok # rest) i scan =
     (case env_token tok rest scan of
        Break s \<Rightarrow> s\<lparr>command_start := i\<rparr>
      | BreakAfter s \<Rightarrow> s\<lparr>command_start := i + 1\<rparr>
      | Pass1 s \<Rightarrow> env_loop rest (i + 1) s
      | Pass2 s \<Rightarrow> env_loop (tl rest) (i + 2) s)"
  by pat_completeness auto
termination
  by (relation "measure (\<lambda>(ws, _, _). length ws)") auto

definition env_scan :: "str list \<Rightarrow> EnvScan" where
  "env_scan cmd =
     env_loop (tl cmd) 1
       \<lparr>chdir = None, has_split_string = False, options_uncertain = False, split_string_script = None,
        command_start = 1\<rparr>"

definition head_is :: "string \<Rightarrow> str list \<Rightarrow> bool" where
  "head_is name ws = (case ws of [] \<Rightarrow> False | w # _ \<Rightarrow> basename w = lit name)"

definition env_split_string_script :: "str list \<Rightarrow> str option" where
  "env_split_string_script ws =
     (if \<not> head_is ''env'' ws then None
      else let scan = env_scan ws in if \<not> has_split_string scan then None else split_string_script scan)"

subsection \<open>Wrappers\<close>

text \<open>
  Options of a wrapper: a word of \<open>takes_value\<close> takes the next one with it. \<open>None\<close> is an index past
  the end of the words.
\<close>

fun skip_options :: "(str \<Rightarrow> bool) \<Rightarrow> str list \<Rightarrow> str list option" where
  "skip_options takes_value [] = Some []"
| "skip_options takes_value (w # ws) =
     (if \<not> starts_with w (lit ''-'') then Some (w # ws)
      else if takes_value w then (case ws of [] \<Rightarrow> None | _ # ws' \<Rightarrow> skip_options takes_value ws')
      else skip_options takes_value ws)"

definition skip_mandatory :: "str list option \<Rightarrow> str list option" where
  "skip_mandatory r = (case r of Some (_ # ws) \<Rightarrow> Some ws | _ \<Rightarrow> None)"

definition wrapper_inner :: "str list \<Rightarrow> str list option" where
  "wrapper_inner cmd =
     (let args = tl cmd in
      if head_is ''timeout'' cmd then
        skip_mandatory (skip_options (\<lambda>w. word_in w [''-k'', ''-s'', ''--kill-after'', ''--signal'']) args)
      else if head_is ''nice'' cmd then skip_options (\<lambda>w. word_in w [''-n'', ''--adjustment'']) args
      else if head_is ''ionice'' cmd then
        skip_options (\<lambda>w. word_in w [''-c'', ''-n'', ''-p'', ''-P'', ''-u'', ''--class'', ''--classdata'',
                                      ''--pid'', ''--pgid'', ''--uid'']) args
      else if head_is ''chrt'' cmd then skip_mandatory (skip_options (\<lambda>_. False) args)
      else if head_is ''stdbuf'' cmd then skip_options (\<lambda>w. word_in w [''-i'', ''-o'', ''-e'']) args
      else if head_is ''env'' cmd then
        (let scan = env_scan cmd
         in if has_split_string scan \<or> options_uncertain scan then None
            else if command_start scan \<le> length cmd then Some (drop (command_start scan) cmd) else None)
      else None)"

definition strip_wrapper_command :: "str list \<Rightarrow> str list option" where
  "strip_wrapper_command cmd =
     (case wrapper_inner cmd of Some inner \<Rightarrow> if inner = [] then None else Some inner | None \<Rightarrow> None)"

definition is_wrapper_command :: "str list \<Rightarrow> bool" where
  "is_wrapper_command ws \<longleftrightarrow>
     (case ws of [] \<Rightarrow> False
      | w # _ \<Rightarrow> word_in (basename w) [''timeout'', ''nice'', ''ionice'', ''chrt'', ''stdbuf'', ''env''])"

definition MAX_WRAPPER_DEPTH :: nat where
  "MAX_WRAPPER_DEPTH = 8"

definition MAX_INLINE_SHELL_DEPTH :: nat where
  "MAX_INLINE_SHELL_DEPTH = 8"

record Peel =
  peel_words :: "str list"
  has_chdir :: bool
  split_string_seen :: bool
  env_options_uncertain :: bool
  exhausted :: bool

definition note_env :: "Peel \<Rightarrow> Peel" where
  "note_env p =
     (if head_is ''env'' (peel_words p) then
        let scan = env_scan (peel_words p)
        in p\<lparr>has_chdir := has_chdir p \<or> chdir scan \<noteq> None,
             split_string_seen := split_string_seen p \<or> has_split_string scan,
             env_options_uncertain := env_options_uncertain p \<or> options_uncertain scan\<rparr>
      else p)"

fun peel_wrappers :: "nat \<Rightarrow> Peel \<Rightarrow> Peel" where
  "peel_wrappers 0 p =
     p\<lparr>exhausted := is_wrapper_command (peel_words p) \<and> strip_wrapper_command (peel_words p) \<noteq> None\<rparr>"
| "peel_wrappers (Suc n) p =
     (let q = note_env p
      in case strip_wrapper_command (peel_words q) of
           Some inner \<Rightarrow> peel_wrappers n (q\<lparr>peel_words := inner\<rparr>)
         | None \<Rightarrow> q\<lparr>exhausted := False\<rparr>)"

definition unwrap_wrappers_checked :: "str list \<Rightarrow> Peel" where
  "unwrap_wrappers_checked ws =
     peel_wrappers MAX_WRAPPER_DEPTH
       \<lparr>peel_words = ws, has_chdir = False, split_string_seen = False, env_options_uncertain = False,
        exhausted = False\<rparr>"

definition unwrap_wrappers :: "str list \<Rightarrow> str list" where
  "unwrap_wrappers ws = peel_words (unwrap_wrappers_checked ws)"

subsection \<open>Transparent prefixes\<close>

datatype TransparentStrip = NotPrefix | Peeled "str list" | Ambiguous

definition peeled_rest :: "str list \<Rightarrow> TransparentStrip" where
  "peeled_rest inner = (if inner = [] then NotPrefix else Peeled inner)"

fun strip_exec_prefix :: "str list \<Rightarrow> TransparentStrip" where
  "strip_exec_prefix [] = peeled_rest []"
| "strip_exec_prefix (tok # rest) =
     (if tok = lit ''--'' then peeled_rest rest
      else if tok = lit ''-'' \<or> \<not> starts_with tok (lit ''-'') then peeled_rest (tok # rest)
      else if word_in tok [''-c'', ''-l'', ''-cl'', ''-lc''] then strip_exec_prefix rest
      else if tok = lit ''-a'' then
        (case rest of v # rest' \<Rightarrow> if v \<noteq> [0] \<and> v \<noteq> [] then strip_exec_prefix rest' else Ambiguous | [] \<Rightarrow> Ambiguous)
      else case strip_prefix tok (lit ''-a'') of
        Some r \<Rightarrow> if r = [0] then Ambiguous else strip_exec_prefix rest
      | None \<Rightarrow>
          if \<not> starts_with tok (lit ''--'') \<and> list_all (\<lambda>c. c \<in> set (lit ''cl'')) (tl tok)
          then strip_exec_prefix rest
          else Ambiguous)"

fun strip_command_prefix :: "str list \<Rightarrow> TransparentStrip" where
  "strip_command_prefix [] = peeled_rest []"
| "strip_command_prefix (tok # rest) =
     (if tok = lit ''--'' then peeled_rest rest
      else if tok = lit ''-'' \<or> \<not> starts_with tok (lit ''-'') then peeled_rest (tok # rest)
      else if word_in tok [''-v'', ''-V'', ''--help'', ''--version''] \<or>
              \<not> starts_with tok (lit ''--'') \<and> list_ex (\<lambda>c. c \<in> set (lit ''vV'')) (tl tok)
      then NotPrefix
      else if tok = lit ''-p'' \<or> \<not> starts_with tok (lit ''--'') \<and> list_all (\<lambda>c. c \<in> set (lit ''p'')) (tl tok)
      then strip_command_prefix rest
      else Ambiguous)"

definition strip_builtin_prefix :: "str list \<Rightarrow> TransparentStrip" where
  "strip_builtin_prefix args =
     (case args of
        [] \<Rightarrow> NotPrefix
      | tok # _ \<Rightarrow> if starts_with tok (lit ''-'') \<and> tok \<noteq> lit ''-'' then Ambiguous else Peeled args)"

definition strip_transparent_prefix :: "str list \<Rightarrow> TransparentStrip" where
  "strip_transparent_prefix cmd =
     (case cmd of
        [] \<Rightarrow> NotPrefix
      | h # args \<Rightarrow>
          if h = [] \<or> h = [0] then NotPrefix
          else if basename h = lit ''exec'' then strip_exec_prefix args
          else if basename h = lit ''command'' then strip_command_prefix args
          else if basename h = lit ''builtin'' then strip_builtin_prefix args
          else NotPrefix)"

definition MAX_TRANSPARENT_PREFIX_DEPTH :: nat where
  "MAX_TRANSPARENT_PREFIX_DEPTH = 8"

definition MAX_NORMALIZE_ROUNDS :: nat where
  "MAX_NORMALIZE_ROUNDS = MAX_WRAPPER_DEPTH + MAX_TRANSPARENT_PREFIX_DEPTH"

text \<open>\<open>None\<close> is the ambiguous outcome.\<close>

fun peel_transparent :: "nat \<Rightarrow> str list \<Rightarrow> str list option" where
  "peel_transparent 0 ws = (case strip_transparent_prefix ws of NotPrefix \<Rightarrow> Some ws | _ \<Rightarrow> None)"
| "peel_transparent (Suc n) ws =
     (case strip_transparent_prefix ws of
        NotPrefix \<Rightarrow> Some ws
      | Peeled inner \<Rightarrow> peel_transparent n inner
      | Ambiguous \<Rightarrow> None)"

definition peel_transparent_prefixes :: "str list \<Rightarrow> str list option" where
  "peel_transparent_prefixes ws = peel_transparent MAX_TRANSPARENT_PREFIX_DEPTH ws"

record NormalizedCommandPeel = Peel +
  ambiguous :: bool

definition add_peel :: "NormalizedCommandPeel \<Rightarrow> Peel \<Rightarrow> NormalizedCommandPeel" where
  "add_peel p w =
     p\<lparr>peel_words := peel_words w,
       has_chdir := has_chdir p \<or> has_chdir w,
       split_string_seen := split_string_seen p \<or> split_string_seen w,
       env_options_uncertain := env_options_uncertain p \<or> env_options_uncertain w,
       exhausted := exhausted p \<or> exhausted w\<rparr>"

text \<open>
  Two slices of one array that end at its end and are equally long are the same slice, so the
  comparison of pointers in the code comes to a comparison of lengths.
\<close>

fun normalize_rounds :: "nat \<Rightarrow> NormalizedCommandPeel \<Rightarrow> NormalizedCommandPeel" where
  "normalize_rounds 0 p = p"
| "normalize_rounds (Suc n) p =
     (let q = add_peel p (unwrap_wrappers_checked (peel_words p))
      in if split_string_seen q \<or> env_options_uncertain q then q
         else case peel_transparent_prefixes (peel_words q) of
                None \<Rightarrow> q\<lparr>ambiguous := True\<rparr>
              | Some inner \<Rightarrow>
                  if length inner = length (peel_words p) then q\<lparr>peel_words := inner\<rparr>
                  else normalize_rounds n (q\<lparr>peel_words := inner\<rparr>))"

definition still_peelable :: "str list \<Rightarrow> bool" where
  "still_peelable ws \<longleftrightarrow>
     is_wrapper_command ws \<and> strip_wrapper_command ws \<noteq> None \<or> strip_transparent_prefix ws \<noteq> NotPrefix"

definition normalize_command_words :: "str list \<Rightarrow> NormalizedCommandPeel" where
  "normalize_command_words ws =
     (let p = normalize_rounds MAX_NORMALIZE_ROUNDS
                \<lparr>peel_words = ws, has_chdir = False, split_string_seen = False, env_options_uncertain = False,
                 exhausted = False, ambiguous = False\<rparr>
      in if \<not> ambiguous p \<and> \<not> split_string_seen p \<and> \<not> env_options_uncertain p \<and> still_peelable (peel_words p)
         then p\<lparr>exhausted := True\<rparr> else p)"

subsection \<open>Inline scripts\<close>

datatype ShellWord = Literal str | Untrusted

datatype InlineShellScript = NotInline | Literal nat | Untrusted | Unrecognized

definition is_potential_inline :: "InlineShellScript \<Rightarrow> bool" where
  "is_potential_inline s = (case s of InlineShellScript.Literal _ \<Rightarrow> True | InlineShellScript.Untrusted \<Rightarrow> True | _ \<Rightarrow> False)"

definition ambiguous_options :: "bool \<Rightarrow> InlineShellScript" where
  "ambiguous_options saw_c = (if saw_c then InlineShellScript.Untrusted else Unrecognized)"

definition finish_literal :: "bool \<Rightarrow> nat \<Rightarrow> InlineShellScript" where
  "finish_literal dynamic_head i = (if dynamic_head then InlineShellScript.Untrusted else InlineShellScript.Literal i)"

definition no_script :: "bool \<Rightarrow> InlineShellScript" where
  "no_script unrecognized = (if unrecognized then Unrecognized else NotInline)"

function dash_c_loop :: "bool \<Rightarrow> ShellWord list \<Rightarrow> nat \<Rightarrow> bool \<Rightarrow> bool \<Rightarrow> InlineShellScript" where
  "dash_c_loop dyn [] i saw_c unrecognized =
     (if saw_c then InlineShellScript.Untrusted else no_script unrecognized)"
| "dash_c_loop dyn (ShellWord.Untrusted # rest) i saw_c unrecognized = ambiguous_options saw_c"
| "dash_c_loop dyn (ShellWord.Literal word # rest) i saw_c unrecognized =
     (if word = lit ''--'' \<or> word = lit ''-'' then
        if \<not> saw_c then no_script unrecognized
        else (case rest of ShellWord.Literal _ # _ \<Rightarrow> finish_literal dyn (i + 1) | _ \<Rightarrow> InlineShellScript.Untrusted)
      else if \<not> starts_with word (lit ''-'') \<and> \<not> starts_with word (lit ''+'') then
        if saw_c then finish_literal dyn i else no_script unrecognized
      else if word = lit ''--init-file'' \<or> word = lit ''--rcfile'' then
        (case rest of ShellWord.Literal _ # rest' \<Rightarrow> dash_c_loop dyn rest' (i + 2) saw_c unrecognized
         | _ \<Rightarrow> ambiguous_options saw_c)
      else if starts_with word (lit ''--'') then
        if word_in word [''--noprofile'', ''--norc'', ''--posix''] then dash_c_loop dyn rest (i + 1) saw_c unrecognized
        else if saw_c then InlineShellScript.Untrusted
        else dash_c_loop dyn rest (i + 1) saw_c True
      else if word_in word [''-o'', ''+o'', ''-O'', ''+O''] then
        (case rest of
           ShellWord.Literal value # rest' \<Rightarrow>
             if \<not> starts_with value (lit ''-'') then dash_c_loop dyn rest' (i + 2) saw_c unrecognized
             else ambiguous_options saw_c
         | _ \<Rightarrow> ambiguous_options saw_c)
      else if starts_with word (lit ''-O'') \<and> str_len word > 2 then dash_c_loop dyn rest (i + 1) saw_c unrecognized
      else if (starts_with word (lit ''+O'') \<or> starts_with word (lit ''+o'')) \<and> str_len word > 2
      then dash_c_loop dyn rest (i + 1) saw_c unrecognized
      else if starts_with word (lit ''-o'') \<and> str_len word > 2 then ambiguous_options saw_c
      else if starts_with word (lit ''+'') then dash_c_loop dyn rest (i + 1) saw_c unrecognized
      else let flags = tl word
           in if of_char (CHR ''o'') \<in> set flags \<or> of_char (CHR ''O'') \<in> set flags then ambiguous_options saw_c
              else dash_c_loop dyn rest (i + 1) (saw_c \<or> of_char (CHR ''c'') \<in> set flags) unrecognized)"
  by pat_completeness auto
termination
  by (relation "measure (\<lambda>(_, ws, _, _, _). length ws)") auto

definition shell_dash_c_script :: "ShellWord list \<Rightarrow> InlineShellScript" where
  "shell_dash_c_script ws =
     (case ws of
        [] \<Rightarrow> NotInline
      | ShellWord.Untrusted # rest \<Rightarrow> dash_c_loop True rest 1 False False
      | ShellWord.Literal program # rest \<Rightarrow>
          if \<not> word_in (basename program) [''bash'', ''sh'', ''dash'', ''zsh'', ''ksh''] then NotInline
          else dash_c_loop False rest 1 False False)"

subsection \<open>The primary command\<close>

fun sh_split_loop :: "str \<Rightarrow> bool \<Rightarrow> bool \<Rightarrow> str \<Rightarrow> str list" where
  "sh_split_loop [] in_single in_double current = (if current = [] then [] else [current])"
| "sh_split_loop (c # cs) in_single in_double current =
     (if c = 39 \<and> \<not> in_double then sh_split_loop cs (\<not> in_single) in_double current
      else if c = 34 \<and> \<not> in_single then sh_split_loop cs in_single (\<not> in_double) current
      else if c = 92 then
        (case cs of [] \<Rightarrow> sh_split_loop [] in_single in_double current
         | d # ds \<Rightarrow> sh_split_loop ds in_single in_double (current @ [d]))
      else if is_whitespace c \<and> \<not> in_single \<and> \<not> in_double then
        (if current = [] then [] else [current]) @ sh_split_loop cs in_single in_double []
      else sh_split_loop cs in_single in_double (current @ [c]))"

definition sh_split_simple :: "str \<Rightarrow> str list" where
  "sh_split_simple s = sh_split_loop s False False []"

record BashCommandHighlights =
  hl_prefix :: "str list"
  highlighted_words :: "str list"
  hl_suffix :: "str list"

definition is_primary :: "PlainCommand \<Rightarrow> bool" where
  "is_primary c \<longleftrightarrow>
     (let peeled = unwrap_wrappers (words c) in \<not> (peeled = [] \<or> is_setup_command peeled))"

text \<open>The outer option is a panic of a slice at the span of the command.\<close>

definition primary_command_from_script :: "shell_parser \<Rightarrow> str \<Rightarrow> BashCommandHighlights option option" where
  "primary_command_from_script try_parse_shell script =
     (case all_commands_from_script try_parse_shell script of
        None \<Rightarrow> Some None
      | Some commands \<Rightarrow>
          (case find is_primary commands of
             None \<Rightarrow> Some None
           | Some c \<Rightarrow>
               do {
                 prefix_str \<leftarrow> slice_to script (span_start c);
                 suffix_str \<leftarrow> slice_from script (span_end c);
                 let peeled_off = length (words c) - length (unwrap_wrappers (words c));
                 Some (Some \<lparr>hl_prefix = sh_split_simple prefix_str @ take peeled_off (words c),
                             highlighted_words = drop peeled_off (words c),
                             hl_suffix = sh_split_simple suffix_str\<rparr>)
               }))"

subsection \<open>No command is hidden by the decomposition\<close>

text \<open>The nodes of a tree in the order in which the stack visits them.\<close>

fun subnodes :: "Node \<Rightarrow> Node list" where
  "subnodes (Node k b s e cs) = Node k b s e cs # concat (map subnodes (rev cs))"

lemma subnodes_children: "subnodes n = n # concat (map subnodes (rev (children n)))"
  by (cases n) simp

lemma walk_nodes_eq:
  "walk_nodes stack acc =
     (let ns = concat (map subnodes stack)
      in if list_all node_allowed ns then Some (acc @ filter is_command_node ns) else None)"
proof (induction stack acc rule: walk_nodes.induct)
  case (2 n stack acc)
  then show ?case by (simp add: subnodes_children [of n] Let_def)
qed simp

lemma parse_plain_commands_all2:
  "parse_plain_commands ns src = Some cs \<Longrightarrow> list_all2 (\<lambda>n c. parse_plain_command_from_node n src = Some c) ns cs"
  by (induction ns arbitrary: cs) (auto split: bind_splits)

text \<open>
  C32: When a script decomposes into plain commands, the parser reported no error, every node of its
  syntax tree is of an allowed kind, and the commands are exactly the command nodes of the tree in
  source order, one for each: a command inside a pipeline, a list or a redirection is never lost.
\<close>

theorem decomposition_is_complete:
  assumes "all_commands_from_script try_parse_shell script = Some cs"
  shows "\<exists>tree ns. try_parse_shell script = Some tree \<and> \<not> has_error tree \<and>
    (\<forall>n \<in> set (subnodes (root_node tree)). node_allowed n) \<and>
    mset ns = filter_mset is_command_node (mset (subnodes (root_node tree))) \<and> sorted (map start_byte ns) \<and>
    list_all2 (\<lambda>n c. parse_plain_command_from_node n script = Some c) ns cs"
proof -
  obtain tree where tree: "try_parse_shell script = Some tree"
    and cs: "try_parse_word_only_commands_sequence tree script = Some cs"
    using assms by (auto simp: all_commands_from_script_def split: bind_splits)
  let ?all = "subnodes (root_node tree)"
  have ok: "\<not> has_error tree" "list_all node_allowed ?all"
    and parsed: "parse_plain_commands (sort_key start_byte (filter is_command_node ?all)) script = Some cs"
    using cs by (auto simp: try_parse_word_only_commands_sequence_def walk_nodes_eq Let_def split: if_splits)
  show ?thesis
    using tree ok parse_plain_commands_all2 [OF parsed]
    by (intro exI [of _ tree] exI [of _ "sort_key start_byte (filter is_command_node ?all)"])
       (simp add: list_all_iff)
qed

definition sample_tree :: Tree where
  "sample_tree = \<lparr>root_node = Node (lit ''program'') True 0 2 [Node (lit ''command'') True 0 2
      [Node (lit ''command_name'') True 0 2 [Node (lit ''word'') True 0 2 []]]], has_error = False\<rparr>"

theorem decomposition_is_complete_witness:
  "\<exists>tree ns. (\<lambda>_. Some sample_tree) (lit ''ls'') = Some tree \<and> \<not> has_error tree \<and>
    mset ns = filter_mset is_command_node (mset (subnodes (root_node tree))) \<and>
    list_all2 (\<lambda>n c. parse_plain_command_from_node n (lit ''ls'') = Some c) ns
      [\<lparr>words = [lit ''ls''], span_start = 0, span_end = 2\<rparr>]"
proof -
  have "all_commands_from_script (\<lambda>_. Some sample_tree) (lit ''ls'') =
      Some [\<lparr>words = [lit ''ls''], span_start = 0, span_end = 2\<rparr>]"
    by code_simp
  from decomposition_is_complete [OF this] show ?thesis by blast
qed

subsection \<open>Peeling reaches a normal form\<close>

text \<open>One layer peeled off a command: a wrapper with its options, or a transparent prefix.\<close>

inductive peels :: "str list \<Rightarrow> str list \<Rightarrow> bool" where
  wrapper: "strip_wrapper_command ws = Some v \<Longrightarrow> peels ws v"
| transparent: "strip_transparent_prefix ws = Peeled v \<Longrightarrow> peels ws v"

inductive_simps peels_iff: "peels ws v"

lemma skip_options_suffix: "skip_options f ws = Some v \<Longrightarrow> suffix v ws"
  by (induction f ws rule: skip_options.induct) (auto split: if_splits list.splits intro: suffix_ConsI)

lemma skip_mandatory_suffix: "skip_mandatory r = Some v \<Longrightarrow> \<exists>w. r = Some w \<and> suffix v w"
  by (auto simp: skip_mandatory_def suffix_ConsI split: option.splits list.splits)

lemma env_loop_start: "i \<le> command_start (env_loop ws i scan)"
  by (induction ws i scan rule: env_loop.induct) (fastforce split: env_step.splits)+

lemma env_scan_start: "1 \<le> command_start (env_scan cmd)"
  unfolding env_scan_def by (rule env_loop_start)

lemma drop_suffix_tl: "1 \<le> n \<Longrightarrow> suffix (drop n (w # ws)) ws"
  by (cases n) (simp_all add: suffix_drop)

lemma wrapper_inner_suffix:
  assumes "wrapper_inner (w # ws) = Some v"
  shows "suffix v ws"
  using assms drop_suffix_tl [OF env_scan_start [of "w # ws"], of w ws]
  by (auto simp: wrapper_inner_def Let_def split: if_splits
      dest!: skip_mandatory_suffix dest: skip_options_suffix suffix_order.trans)

lemma wrapper_inner_head: "wrapper_inner ws = Some v \<Longrightarrow> is_wrapper_command ws"
  by (cases ws) (auto simp: wrapper_inner_def is_wrapper_command_def head_is_def word_in_def split: if_splits)

lemma strip_exec_suffix: "strip_exec_prefix ws = Peeled v \<Longrightarrow> v \<noteq> [] \<and> suffix v ws"
  by (induction ws rule: strip_exec_prefix.induct)
     (auto simp: peeled_rest_def split: if_splits list.splits option.splits intro: suffix_ConsI)

lemma strip_command_suffix: "strip_command_prefix ws = Peeled v \<Longrightarrow> v \<noteq> [] \<and> suffix v ws"
  by (induction ws rule: strip_command_prefix.induct) (auto simp: peeled_rest_def split: if_splits intro: suffix_ConsI)

lemma strip_wrapper_inner: "strip_wrapper_command ws = Some v \<Longrightarrow> wrapper_inner ws = Some v \<and> v \<noteq> []"
  by (auto simp: strip_wrapper_command_def split: option.splits if_splits)

lemma strip_wrapper_head: "strip_wrapper_command ws = Some v \<Longrightarrow> is_wrapper_command ws"
  using strip_wrapper_inner wrapper_inner_head by blast

lemma wrapper_not_transparent: "is_wrapper_command ws \<Longrightarrow> strip_transparent_prefix ws = NotPrefix"
  by (cases ws) (auto simp: is_wrapper_command_def strip_transparent_prefix_def word_in_def)

lemma strip_builtin_suffix: "strip_builtin_prefix ws = Peeled v \<Longrightarrow> v \<noteq> [] \<and> suffix v ws"
  by (auto simp: strip_builtin_prefix_def split: list.splits if_splits)

lemma strip_transparent_suffix:
  assumes "strip_transparent_prefix (w # ws) = Peeled v"
  shows "v \<noteq> [] \<and> suffix v ws"
proof -
  have "strip_exec_prefix ws = Peeled v \<or> strip_command_prefix ws = Peeled v \<or> strip_builtin_prefix ws = Peeled v"
    using assms by (simp add: strip_transparent_prefix_def split: if_split_asm)
  then show ?thesis using strip_exec_suffix strip_command_suffix strip_builtin_suffix by blast
qed

lemma peels_suffix:
  assumes "peels (w # ws) v"
  shows "v \<noteq> [] \<and> suffix v ws"
  using assms wrapper_inner_suffix [of w ws v] strip_wrapper_inner [of "w # ws" v] strip_transparent_suffix [of w ws v]
  by (auto simp: peels_iff)

lemma peels_Nil [simp]: "\<not> peels [] v"
  using strip_wrapper_head [of "[]" v] by (auto simp: peels_iff is_wrapper_command_def strip_transparent_prefix_def)

lemma peels_rtrancl_suffix: "peels\<^sup>*\<^sup>* ws v \<Longrightarrow> suffix v ws"
proof (induction rule: rtranclp_induct)
  case (step y z)
  then have "suffix z y" by (cases y) (auto dest: peels_suffix intro: suffix_ConsI)
  with step show ?case by (meson suffix_order.trans)
qed simp

lemma peels_deterministic: "peels ws v \<Longrightarrow> peels ws v' \<Longrightarrow> v = v'"
  using strip_wrapper_head [of ws] wrapper_not_transparent [of ws] by (auto simp: peels_iff)

lemma peel_wrappers_peels: "peels\<^sup>*\<^sup>* (peel_words p) (peel_words (peel_wrappers n p))"
proof (induction n arbitrary: p)
  case (Suc n)
  have same: "peel_words (note_env p) = peel_words p" by (simp add: note_env_def Let_def)
  show ?case
  proof (cases "strip_wrapper_command (peel_words p)")
    case (Some inner)
    then have "peels (peel_words p) inner" by (rule peels.wrapper)
    moreover have "peels\<^sup>*\<^sup>* inner (peel_words (peel_wrappers n ((note_env p)\<lparr>peel_words := inner\<rparr>)))"
      using Suc [of "(note_env p)\<lparr>peel_words := inner\<rparr>"] by simp
    ultimately show ?thesis using Some same by (simp add: Let_def converse_rtranclp_into_rtranclp)
  qed (simp add: same Let_def)
qed simp

lemma peel_transparent_peels: "peel_transparent n ws = Some v \<Longrightarrow> peels\<^sup>*\<^sup>* ws v"
  by (induction n ws rule: peel_transparent.induct)
     (auto split: TransparentStrip.splits intro: converse_rtranclp_into_rtranclp peels.transparent)

lemma unwrap_wrappers_peels: "peels\<^sup>*\<^sup>* ws (peel_words (unwrap_wrappers_checked ws))"
  using peel_wrappers_peels
    [of "\<lparr>peel_words = ws, has_chdir = False, split_string_seen = False, env_options_uncertain = False,
          exhausted = False\<rparr>" MAX_WRAPPER_DEPTH]
  by (simp add: unwrap_wrappers_checked_def)

lemma normalize_rounds_peels: "peels\<^sup>*\<^sup>* (peel_words p) (peel_words (normalize_rounds n p))"
proof (induction n arbitrary: p)
  case (Suc n)
  define q where "q = add_peel p (unwrap_wrappers_checked (peel_words p))"
  have q: "peels\<^sup>*\<^sup>* (peel_words p) (peel_words q)"
    using unwrap_wrappers_peels [of "peel_words p"] by (simp add: q_def add_peel_def)
  show ?case
  proof (cases "peel_transparent_prefixes (peel_words q)")
    case (Some inner)
    then have "peels\<^sup>*\<^sup>* (peel_words p) inner"
      using q peel_transparent_peels unfolding peel_transparent_prefixes_def by (meson rtranclp_trans)
    with Some q Suc [of "q\<lparr>peel_words := inner\<rparr>"] show ?thesis
      by (auto simp: Let_def simp flip: q_def intro: rtranclp_trans)
  qed (simp add: Let_def q flip: q_def)
qed simp

lemma normal_form_unique:
  "peels\<^sup>*\<^sup>* ws v \<Longrightarrow> \<nexists>u. peels v u \<Longrightarrow> peels\<^sup>*\<^sup>* ws w \<Longrightarrow> \<nexists>u. peels w u \<Longrightarrow> v = w"
proof (induction rule: converse_rtranclp_induct)
  case base
  then show ?case by (metis converse_rtranclpE)
next
  case (step y z)
  then show ?case by (metis converse_rtranclpE peels_deterministic)
qed

text \<open>The command was normalised without any reason to stop early.\<close>

definition cleanly_peeled :: "NormalizedCommandPeel \<Rightarrow> bool" where
  "cleanly_peeled p \<longleftrightarrow>
     \<not> exhausted p \<and> \<not> ambiguous p \<and> \<not> split_string_seen p \<and> \<not> env_options_uncertain p"

lemma normalize_command_words_peels: "peels\<^sup>*\<^sup>* ws (peel_words (normalize_command_words ws))"
  using normalize_rounds_peels
    [of "\<lparr>peel_words = ws, has_chdir = False, split_string_seen = False, env_options_uncertain = False,
          exhausted = False, ambiguous = False\<rparr>" MAX_NORMALIZE_ROUNDS]
  by (auto simp: normalize_command_words_def Let_def)

lemma normalize_command_words_suffix: "suffix (peel_words (normalize_command_words ws)) ws"
  using normalize_command_words_peels by (rule peels_rtrancl_suffix)

lemma suffix_same_length: "suffix v w \<Longrightarrow> length v = length w \<Longrightarrow> v = w"
  by (auto simp: suffix_def)

lemma cleanly_peeled_normal:
  assumes "cleanly_peeled (normalize_command_words ws)"
  shows "\<not> peels (peel_words (normalize_command_words ws)) v"
proof -
  have "\<not> still_peelable (peel_words (normalize_command_words ws))"
    using assms by (auto simp: cleanly_peeled_def normalize_command_words_def Let_def split: if_splits)
  then show ?thesis
    using strip_wrapper_head by (auto simp: still_peelable_def peels_iff)
qed

text \<open>
  C33: When a command is normalised without a warning, what is left is the one normal form of peeling:
  no wrapper and no transparent prefix can be taken off it any more, and every way of peeling the
  command to the end leaves exactly these words, which are a tail of the command.
\<close>

theorem normalize_is_the_normal_form:
  assumes "cleanly_peeled (normalize_command_words ws)"
  shows "(peels\<^sup>*\<^sup>* ws v \<and> (\<nexists>u. peels v u)) \<longleftrightarrow> v = peel_words (normalize_command_words ws)"
  using normalize_command_words_peels [of ws] cleanly_peeled_normal [OF assms] normal_form_unique [of ws] by blast

theorem normalize_is_the_normal_form_witness:
  "\<forall>v. (peels\<^sup>*\<^sup>* [lit ''timeout'', lit ''5'', lit ''command'', lit ''rm''] v \<and> (\<nexists>u. peels v u)) \<longleftrightarrow> v = [lit ''rm'']"
proof -
  let ?ws = "[lit ''timeout'', lit ''5'', lit ''command'', lit ''rm'']"
  have "cleanly_peeled (normalize_command_words ?ws)" "peel_words (normalize_command_words ?ws) = [lit ''rm'']"
    by code_simp+
  then show ?thesis using normalize_is_the_normal_form [of ?ws] by simp
qed

subsection \<open>The warning for packed scripts\<close>

text \<open>The words are an \<open>env\<close> that takes its command from a packed string.\<close>

definition packs_script :: "str list \<Rightarrow> bool" where
  "packs_script ws \<longleftrightarrow> head_is ''env'' ws \<and> has_split_string (env_scan ws)"

lemma peel_words_note_env [simp]: "peel_words (note_env p) = peel_words p"
  by (simp add: note_env_def Let_def)

lemma packs_script_not_stripped: "packs_script ws \<Longrightarrow> strip_wrapper_command ws = None"
  by (auto simp: packs_script_def strip_wrapper_command_def wrapper_inner_def head_is_def Let_def split: list.splits)

lemma unwrap_packed: "packs_script ws \<Longrightarrow> split_string_seen (unwrap_wrappers_checked ws)"
  using packs_script_not_stripped [of ws]
  by (simp add: unwrap_wrappers_checked_def MAX_WRAPPER_DEPTH_def eval_nat_numeral note_env_def packs_script_def Let_def)

lemma peel_transparent_suffix: "peel_transparent_prefixes ws = Some v \<Longrightarrow> suffix v ws"
  unfolding peel_transparent_prefixes_def by (rule peels_rtrancl_suffix [OF peel_transparent_peels])

lemma normalize_rounds_notes_packed:
  assumes "length (peel_words p) < n" "packs_script (peel_words (normalize_rounds n p))"
  shows "split_string_seen (normalize_rounds n p) \<or> env_options_uncertain (normalize_rounds n p) \<or> ambiguous (normalize_rounds n p)"
  using assms
proof (induction n arbitrary: p)
  case (Suc n)
  define u where "u = unwrap_wrappers_checked (peel_words p)"
  define q where "q = add_peel p u"
  have q: "peel_words q = peel_words u" by (simp add: q_def add_peel_def)
  have u: "suffix (peel_words u) (peel_words p)"
    unfolding u_def by (rule peels_rtrancl_suffix [OF unwrap_wrappers_peels])
  show ?case
  proof (cases "split_string_seen q \<or> env_options_uncertain q")
    case True
    then show ?thesis by (auto simp: Let_def simp flip: u_def q_def)
  next
    case False
    show ?thesis
    proof (cases "peel_transparent_prefixes (peel_words q)")
      case None
      with False show ?thesis by (simp add: Let_def flip: u_def q_def)
    next
      case (Some inner)
      have inner: "suffix inner (peel_words p)"
        using peel_transparent_suffix [OF Some] u q by (metis suffix_order.trans)
      show ?thesis
      proof (cases "length inner = length (peel_words p)")
        case True
        then have "inner = peel_words p" using inner suffix_same_length by blast
        moreover have "normalize_rounds (Suc n) p = q\<lparr>peel_words := inner\<rparr>"
          using False Some True by (simp add: Let_def flip: u_def q_def)
        ultimately have "split_string_seen u" using Suc.prems(2) unwrap_packed by (simp add: u_def)
        with False show ?thesis by (simp add: q_def add_peel_def)
      next
        case len: False
        have step: "normalize_rounds (Suc n) p = normalize_rounds n (q\<lparr>peel_words := inner\<rparr>)"
          using False Some len by (simp add: Let_def flip: u_def q_def)
        have "length inner < n" using len inner Suc.prems(1) suffix_length_le [OF inner] by linarith
        with Suc.IH [of "q\<lparr>peel_words := inner\<rparr>"] Suc.prems(2) step show ?thesis by simp
      qed
    qed
  qed
qed simp

text \<open>
  A command of at most fifteen words that comes down to an \<open>env\<close> with a packed script, however it is
  wrapped, is never normalised without a warning, so that the gates ask about it.
\<close>

theorem packed_script_is_noticed:
  assumes "length ws < MAX_NORMALIZE_ROUNDS" "packs_script (peel_words (normalize_command_words ws))"
  shows "\<not> cleanly_peeled (normalize_command_words ws)"
proof -
  let ?p = "\<lparr>peel_words = ws, has_chdir = False, split_string_seen = False, env_options_uncertain = False,
    exhausted = False, ambiguous = False\<rparr>"
  have "packs_script (peel_words (normalize_rounds MAX_NORMALIZE_ROUNDS ?p))"
    using assms(2) by (auto simp: normalize_command_words_def Let_def split: if_splits)
  then show ?thesis
    using normalize_rounds_notes_packed [of ?p MAX_NORMALIZE_ROUNDS] assms(1)
    by (auto simp: normalize_command_words_def cleanly_peeled_def Let_def split: if_splits)
qed

theorem packed_script_is_noticed_witness:
  "\<not> cleanly_peeled (normalize_command_words [lit ''nice'', lit ''env'', lit ''-S'', lit ''rm x''])"
proof -
  have "length [lit ''nice'', lit ''env'', lit ''-S'', lit ''rm x''] < MAX_NORMALIZE_ROUNDS"
    "packs_script (peel_words (normalize_command_words [lit ''nice'', lit ''env'', lit ''-S'', lit ''rm x'']))"
    by code_simp+
  then show ?thesis by (rule packed_script_is_noticed)
qed

text \<open>The rounds used up by pairs of a wrapper and a prefix, the last one by as many wrappers as it takes.\<close>

definition evasive_command :: "str \<Rightarrow> str list" where
  "evasive_command payload =
     concat (replicate 15 [lit ''nice'', lit ''command'']) @ replicate 8 (lit ''nice'') @ [lit ''env'', lit ''-S'', payload]"

definition fresh_peel :: "str list \<Rightarrow> NormalizedCommandPeel" where
  "fresh_peel ws =
     \<lparr>peel_words = ws, has_chdir = False, split_string_seen = False, env_options_uncertain = False,
      exhausted = False, ambiguous = False\<rparr>"

lemma strip_nice: "\<not> starts_with w (lit ''-'') \<Longrightarrow> strip_wrapper_command (lit ''nice'' # w # ws) = Some (w # ws)"
  by (simp add: strip_wrapper_command_def wrapper_inner_def head_is_def basename_def rsplit_first_def)

lemma strip_command: "strip_wrapper_command (lit ''command'' # ws) = None"
  by (simp add: strip_wrapper_command_def wrapper_inner_def head_is_def basename_def rsplit_first_def)

lemma strip_packed_env: "strip_wrapper_command [lit ''env'', lit ''-S'', payload] = None"
  and packs_script_env: "packs_script [lit ''env'', lit ''-S'', payload]"
proof -
  show "packs_script [lit ''env'', lit ''-S'', payload]"
    by (simp add: packs_script_def head_is_def basename_def rsplit_first_def env_scan_def env_token_def env_short_option_def
        classify_env_short_def decode_env_option_token_def split_string_next_def starts_with_def strip_prefix_def)
  then show "strip_wrapper_command [lit ''env'', lit ''-S'', payload] = None"
    by (rule packs_script_not_stripped)
qed

lemma note_env_other: "\<not> head_is ''env'' (peel_words p) \<Longrightarrow> note_env p = p"
  by (simp add: note_env_def)

lemma head_nice: "\<not> head_is ''env'' (lit ''nice'' # ws)" and head_command: "\<not> head_is ''env'' (lit ''command'' # ws)"
  by (simp_all add: head_is_def basename_def rsplit_first_def)

lemma peel_transparent_command:
  "peel_transparent_prefixes (lit ''command'' # lit ''nice'' # ws) = Some (lit ''nice'' # ws)"
  by (simp add: peel_transparent_prefixes_def MAX_TRANSPARENT_PREFIX_DEPTH_def eval_nat_numeral strip_transparent_prefix_def
      basename_def rsplit_first_def starts_with_def peeled_rest_def)

lemma normalize_round_pair:
  "normalize_rounds (Suc n) (fresh_peel (lit ''nice'' # lit ''command'' # lit ''nice'' # ws)) =
   normalize_rounds n (fresh_peel (lit ''nice'' # ws))"
proof -
  have plain: "\<not> starts_with (lit ''command'') (lit ''-'')" by (simp add: starts_with_def)
  have "unwrap_wrappers_checked (lit ''nice'' # lit ''command'' # lit ''nice'' # ws) =
      \<lparr>peel_words = lit ''command'' # lit ''nice'' # ws, has_chdir = False, split_string_seen = False,
       env_options_uncertain = False, exhausted = False\<rparr>"
    by (simp add: unwrap_wrappers_checked_def MAX_WRAPPER_DEPTH_def numeral_eq_Suc note_env_other head_nice head_command
        strip_nice [OF plain] strip_command Let_def del: lit_Cons)
  then show ?thesis
    by (simp add: fresh_peel_def add_peel_def peel_transparent_command Let_def del: lit_Cons)
qed

lemma normalize_round_pairs:
  "normalize_rounds (k + n) (fresh_peel (concat (replicate k [lit ''nice'', lit ''command'']) @ lit ''nice'' # ws)) =
   normalize_rounds n (fresh_peel (lit ''nice'' # ws))"
proof (induction k)
  case (Suc k)
  obtain vs where vs: "concat (replicate k [lit ''nice'', lit ''command'']) @ lit ''nice'' # ws = lit ''nice'' # vs"
    by (cases k) auto
  have "normalize_rounds (Suc k + n) (fresh_peel (concat (replicate (Suc k) [lit ''nice'', lit ''command'']) @ lit ''nice'' # ws)) =
      normalize_rounds (Suc (k + n)) (fresh_peel (lit ''nice'' # lit ''command'' # lit ''nice'' # vs))"
    using vs by (simp del: lit_Cons normalize_rounds.simps)
  then show ?case using Suc vs normalize_round_pair by simp
qed simp

lemma normalize_last_round:
  "normalize_rounds (Suc 0) (fresh_peel (replicate 8 (lit ''nice'') @ [lit ''env'', lit ''-S'', payload])) =
   fresh_peel [lit ''env'', lit ''-S'', payload]"
proof -
  have plain: "\<not> starts_with (lit ''nice'') (lit ''-'')" "\<not> starts_with (lit ''env'') (lit ''-'')"
    by (simp_all add: starts_with_def)
  have "unwrap_wrappers_checked (replicate 8 (lit ''nice'') @ [lit ''env'', lit ''-S'', payload]) =
      \<lparr>peel_words = [lit ''env'', lit ''-S'', payload], has_chdir = False, split_string_seen = False,
       env_options_uncertain = False, exhausted = False\<rparr>"
    by (simp add: unwrap_wrappers_checked_def MAX_WRAPPER_DEPTH_def numeral_eq_Suc note_env_other head_nice
        strip_nice [OF plain(1)] strip_nice [OF plain(2)] strip_packed_env Let_def del: lit_Cons)
  moreover have "peel_transparent_prefixes [lit ''env'', lit ''-S'', payload] = Some [lit ''env'', lit ''-S'', payload]"
    by (simp add: peel_transparent_prefixes_def MAX_TRANSPARENT_PREFIX_DEPTH_def eval_nat_numeral
        strip_transparent_prefix_def basename_def rsplit_first_def)
  ultimately show ?thesis by (simp add: fresh_peel_def add_peel_def Let_def del: lit_Cons)
qed

text \<open>
  C28: Without the bound the warning can be lost: after fifteen pairs of a wrapper and a prefix and eight
  more wrappers, the packed script of an \<open>env -S\<close>, whatever it is, is neither noted nor taken for an
  exhausted budget, so the floor that should make the gates ask is missing.
\<close>

theorem packed_script_can_evade:
  "cleanly_peeled (normalize_command_words (evasive_command payload)) \<and>
   packs_script (peel_words (normalize_command_words (evasive_command payload)))"
proof -
  have r: "replicate 8 (lit ''nice'') = lit ''nice'' # replicate 7 (lit ''nice'')"
    by (simp add: eval_nat_numeral del: lit_Cons)
  have words: "evasive_command payload = concat (replicate 15 [lit ''nice'', lit ''command'']) @
      lit ''nice'' # (replicate 7 (lit ''nice'') @ [lit ''env'', lit ''-S'', payload])"
    unfolding evasive_command_def r by simp
  have rounds: "MAX_NORMALIZE_ROUNDS = 15 + Suc 0"
    by (simp add: MAX_NORMALIZE_ROUNDS_def MAX_WRAPPER_DEPTH_def MAX_TRANSPARENT_PREFIX_DEPTH_def)
  have "normalize_rounds MAX_NORMALIZE_ROUNDS (fresh_peel (evasive_command payload)) =
      fresh_peel [lit ''env'', lit ''-S'', payload]"
    using normalize_last_round [of payload] unfolding words rounds normalize_round_pairs r append_Cons .
  moreover have "\<not> still_peelable [lit ''env'', lit ''-S'', payload]"
    using strip_packed_env [of payload]
    by (simp add: still_peelable_def strip_transparent_prefix_def basename_def rsplit_first_def)
  ultimately have "normalize_command_words (evasive_command payload) = fresh_peel [lit ''env'', lit ''-S'', payload]"
    unfolding normalize_command_words_def Let_def fresh_peel_def [symmetric] by (simp add: fresh_peel_def)
  then show ?thesis
    using packs_script_env by (simp add: cleanly_peeled_def fresh_peel_def)
qed

subsection \<open>Inline scripts are found\<close>

declare dash_c_loop.simps [simp del]

lemma finish_literal_iff: "finish_literal dyn j = InlineShellScript.Literal k \<longleftrightarrow> \<not> dyn \<and> j = k"
  by (simp add: finish_literal_def)

lemma ambiguous_options_not_literal [simp]: "ambiguous_options s \<noteq> InlineShellScript.Literal k"
  and no_script_not_literal [simp]: "no_script u \<noteq> InlineShellScript.Literal k"
  by (simp_all add: ambiguous_options_def no_script_def)

text \<open>The ways in which the loop can find a script: at this word, at the next one, or further on.\<close>

lemma dash_c_loop_Literal_cases:
  assumes "dash_c_loop dyn (ShellWord.Literal word # rest) i saw_c unrecognized = InlineShellScript.Literal k"
  shows "k = i \<or> k = Suc i \<and> rest \<noteq> [] \<or>
    (\<exists>s u. dash_c_loop dyn rest (Suc i) s u = InlineShellScript.Literal k) \<or>
    (\<exists>v rest' s u. rest = v # rest' \<and> dash_c_loop dyn rest' (Suc (Suc i)) s u = InlineShellScript.Literal k)"
  using assms unfolding dash_c_loop.simps(3)
  by (simp add: finish_literal_iff Let_def del: lit_Cons lit_Nil split: if_split_asm list.split_asm ShellWord.split_asm)
     blast+

lemma dash_c_loop_index:
  "dash_c_loop dyn ws i saw_c unrecognized = InlineShellScript.Literal k \<Longrightarrow> i \<le> k \<and> k < i + length ws"
proof (induction "length ws" arbitrary: ws i saw_c unrecognized rule: less_induct)
  case less
  show ?case
  proof (cases ws)
    case (Cons w rest)
    show ?thesis
    proof (cases w)
      case (Literal word)
      have tail1: "Suc i \<le> k \<and> k < Suc i + length rest"
        if "dash_c_loop dyn rest (Suc i) s u = InlineShellScript.Literal k" for s u
        using less.hyps [OF _ that] Cons by simp
      have tail2: "Suc (Suc i) \<le> k \<and> k < Suc (Suc i) + length rest'"
        if "rest = v # rest'" "dash_c_loop dyn rest' (Suc (Suc i)) s u = InlineShellScript.Literal k" for v rest' s u
        using less.hyps [OF _ that(2)] that(1) Cons by simp
      show ?thesis
        using dash_c_loop_Literal_cases [of dyn word rest i saw_c unrecognized k] less.prems Cons Literal tail1 tail2
        by fastforce
    qed (use less.prems Cons in \<open>simp add: dash_c_loop.simps\<close>)
  qed (use less.prems in \<open>simp add: dash_c_loop.simps split: if_splits\<close>)
qed

lemma shell_dash_c_script_index:
  "shell_dash_c_script ws = InlineShellScript.Literal k \<Longrightarrow> 0 < k \<and> k < length ws"
  by (auto simp: shell_dash_c_script_def split: list.splits ShellWord.splits if_splits dest!: dash_c_loop_index)

text \<open>A cluster of short options of a shell, without the options that take a value.\<close>

definition short_flags :: "str \<Rightarrow> bool" where
  "short_flags w \<longleftrightarrow>
     starts_with w (lit ''-'') \<and> \<not> starts_with w (lit ''--'') \<and> w \<noteq> lit ''-'' \<and>
     of_char (CHR ''o'') \<notin> set (tl w) \<and> of_char (CHR ''O'') \<notin> set (tl w)"

lemma short_flags_shape: "short_flags w \<Longrightarrow> \<exists>c cs. w = 45 # c # cs \<and> c \<noteq> 45 \<and> c \<noteq> 111 \<and> c \<noteq> 79 \<and> 111 \<notin> set cs \<and> 79 \<notin> set cs"
  by (cases w; cases "tl w") (auto simp: short_flags_def starts_with_def)

lemma dash_c_loop_flag:
  assumes "short_flags w"
  shows "dash_c_loop dyn (ShellWord.Literal w # rest) i saw_c unrecognized =
         dash_c_loop dyn rest (i + 1) (saw_c \<or> of_char (CHR ''c'') \<in> set (tl w)) unrecognized"
proof -
  obtain c cs where "w = 45 # c # cs" "c \<noteq> 45" "c \<noteq> 111" "c \<noteq> 79" "111 \<notin> set cs" "79 \<notin> set cs"
    using short_flags_shape [OF assms] by blast
  then show ?thesis unfolding dash_c_loop.simps(3) by (simp add: starts_with_def word_in_def)
qed

lemma dash_c_loop_flags:
  assumes "list_all short_flags flags"
  shows "dash_c_loop dyn (map ShellWord.Literal flags @ rest) i saw_c unrecognized =
         dash_c_loop dyn rest (i + length flags) (saw_c \<or> list_ex (\<lambda>w. of_char (CHR ''c'') \<in> set (tl w)) flags) unrecognized"
  using assms by (induction flags arbitrary: i saw_c) (simp_all add: dash_c_loop_flag disj_assoc)

text \<open>
  A shell started with clusters of short options of which one has a \<open>c\<close> is recognised with the word
  after them as its inline script, so that the gates look into the script; without such an option,
  that word is a script file and nothing is inline.
\<close>

theorem inline_script_is_recognised:
  assumes "word_in (basename program) [''bash'', ''sh'', ''dash'', ''zsh'', ''ksh'']"
    and "list_all short_flags flags"
    and "\<not> starts_with script (lit ''-'')" "\<not> starts_with script (lit ''+'')"
  shows "shell_dash_c_script (map ShellWord.Literal (program # flags @ script # args)) =
     (if list_ex (\<lambda>w. of_char (CHR ''c'') \<in> set (tl w)) flags
      then InlineShellScript.Literal (Suc (length flags)) else NotInline)"
proof -
  have "script \<noteq> [45]" "script \<noteq> [45, 45]" using assms(3) by (auto simp: starts_with_def)
  with assms(3, 4) have "dash_c_loop False (ShellWord.Literal script # map ShellWord.Literal args) (Suc (length flags)) s False =
      (if s then InlineShellScript.Literal (Suc (length flags)) else NotInline)" for s
    unfolding dash_c_loop.simps(3) by (simp add: finish_literal_def no_script_def)
  with assms(1, 2) show ?thesis
    by (simp add: shell_dash_c_script_def dash_c_loop_flags)
qed

theorem inline_script_is_recognised_witness:
  "shell_dash_c_script (map ShellWord.Literal [lit ''/bin/bash'', lit ''-xec'', lit ''rm'', lit ''a'']) =
     InlineShellScript.Literal 2"
proof -
  have "word_in (basename (lit ''/bin/bash'')) [''bash'', ''sh'', ''dash'', ''zsh'', ''ksh'']"
    "list_all short_flags [lit ''-xec'']" "\<not> starts_with (lit ''rm'') (lit ''-'')" "\<not> starts_with (lit ''rm'') (lit ''+'')"
    by (simp_all add: word_in_def basename_def rsplit_first_def short_flags_def starts_with_def)
  from inline_script_is_recognised [OF this, of "[lit ''a'']"] show ?thesis by simp
qed

end
