(* ===== verification/Lexical_Path.thy ===== *)
theory Lexical_Path
  imports Rust_Slice "HOL-Library.Monad_Syntax"
begin

text \<open>
  Paths as the permission policy sees them: the components of \<open>std::path::Path\<close> on Unix,
  \<open>normalize_lexically\<close> of \<^verbatim>\<open>xai-grok-paths\<close>, and the spellings of a path that a rule is matched with
  (\<open>path_match_forms\<close> of \<^verbatim>\<open>permission/policy.rs\<close>). A path is its text. The working directory of a
  session is absolute. Shown: a relative spelling exists exactly for a path inside the working directory,
  and a spelling keeps a parent segment only when backslashes hide it from the normalisation.
\<close>

subsection \<open>Components\<close>

datatype Component = RootDir | CurDir | ParentDir | Normal str

definition segment_component :: "str \<Rightarrow> Component" where
  "segment_component s = (if s = lit ''..'' then ParentDir else Normal s)"

text \<open>
  \<open>Path::components\<close>: repeated separators and inner dots disappear; a dot at the start of a relative
  path stays.
\<close>

definition segments :: "str \<Rightarrow> str list" where
  "segments s = filter (\<lambda>p. p \<noteq> []) (split_char 47 s)"

definition is_absolute :: "str \<Rightarrow> bool" where
  "is_absolute s \<longleftrightarrow> starts_with s (lit ''/'')"

definition components :: "str \<Rightarrow> Component list" where
  "components s =
     (let parts = segments s;
          body = map segment_component (filter (\<lambda>p. p \<noteq> lit ''.'') parts)
      in if is_absolute s then RootDir # body
         else case parts of p # _ \<Rightarrow> if p = lit ''.'' then CurDir # body else body | [] \<Rightarrow> [])"

fun component_str :: "Component \<Rightarrow> str" where
  "component_str RootDir = lit ''/''"
| "component_str CurDir = lit ''.''"
| "component_str ParentDir = lit ''..''"
| "component_str (Normal s) = s"

definition path_push :: "str \<Rightarrow> str \<Rightarrow> str" where
  "path_push buf p =
     (if is_absolute p then p
      else if buf \<noteq> [] \<and> last buf \<noteq> 47 then buf @ lit ''/'' @ p
      else buf @ p)"

definition path_collect :: "Component list \<Rightarrow> str" where
  "path_collect cs = foldl path_push [] (map component_str cs)"

text \<open>The rest after a prefix, by components; the parent and the file name.\<close>

definition path_strip_prefix :: "str \<Rightarrow> str \<Rightarrow> str option" where
  "path_strip_prefix p base =
     (let cs = components p; bs = components base
      in if take (length bs) cs = bs then Some (path_collect (drop (length bs) cs)) else None)"

definition path_parent :: "str \<Rightarrow> str option" where
  "path_parent p =
     (let cs = components p
      in if cs = [] \<or> last cs = RootDir then None else Some (path_collect (butlast cs)))"

definition path_file_name :: "str \<Rightarrow> str option" where
  "path_file_name p =
     (let cs = components p
      in if cs = [] then None else case last cs of Normal s \<Rightarrow> Some s | _ \<Rightarrow> None)"

subsection \<open>Lexical normalisation\<close>

text \<open>The vector of components is kept with its end first.\<close>

fun normalize_step :: "Component list \<Rightarrow> Component \<Rightarrow> Component list" where
  "normalize_step stack CurDir = stack"
| "normalize_step stack ParentDir =
     (case stack of Normal _ # rest \<Rightarrow> rest | RootDir # _ \<Rightarrow> stack | _ \<Rightarrow> ParentDir # stack)"
| "normalize_step stack c = c # stack"

definition normalize_components :: "Component list \<Rightarrow> Component list" where
  "normalize_components cs = rev (foldl normalize_step [] cs)"

definition normalize_lexically :: "str \<Rightarrow> str" where
  "normalize_lexically p =
     (let cs = normalize_components (components p) in if cs = [] then lit ''.'' else path_collect cs)"

subsection \<open>Spellings matched by a rule\<close>

definition path_match_string :: "str \<Rightarrow> str" where
  "path_match_string p = map (\<lambda>c. if c = 92 then 47 else c) p"

definition is_tilde_path :: "str \<Rightarrow> bool" where
  "is_tilde_path p =
     (case components p of Normal first # _ \<Rightarrow> starts_with first (lit ''~'') | _ \<Rightarrow> False)"

definition path_has_parent_dir :: "str \<Rightarrow> bool" where
  "path_has_parent_dir p \<longleftrightarrow> ParentDir \<in> set (components p)"

definition join_cwd :: "str \<Rightarrow> str option \<Rightarrow> str" where
  "join_cwd p cwd = (case cwd of Some d \<Rightarrow> if \<not> is_absolute p then path_push d p else p | None \<Rightarrow> p)"

definition absolute_normalized_path :: "str \<Rightarrow> str option \<Rightarrow> str" where
  "absolute_normalized_path p cwd =
     (if is_tilde_path p then p else normalize_lexically (join_cwd p cwd))"

definition path_match_forms :: "str \<Rightarrow> str option \<Rightarrow> str list" where
  "path_match_forms p cwd =
     (let abs_path = absolute_normalized_path p cwd; first = path_match_string abs_path
      in case cwd of
           Some d \<Rightarrow>
             (case path_strip_prefix abs_path (normalize_lexically d) of
                None \<Rightarrow> [first]
              | Some rel \<Rightarrow>
                  (let rel_s = path_match_string rel
                   in if rel_s = [] \<or> rel_s = lit ''.'' then [first, lit ''.'', lit ''./'']
                      else [first, lit ''./'' @ rel_s, rel_s]))
         | None \<Rightarrow>
             if \<not> is_absolute abs_path \<and> \<not> path_has_parent_dir abs_path \<and> \<not> is_tilde_path abs_path
             then if first \<noteq> lit ''.'' \<and> first \<noteq> [] then [first, lit ''./'' @ first] else [first]
             else [first])"

definition raw_absolute_tool_path :: "str \<Rightarrow> str option \<Rightarrow> str option" where
  "raw_absolute_tool_path p cwd =
     (if is_tilde_path p then None
      else let joined = join_cwd p cwd
           in if is_absolute joined then Some (path_match_string joined) else None)"

subsection \<open>Text and components\<close>

text \<open>A segment that \<open>components\<close> keeps as it is.\<close>

definition plain_segment :: "str \<Rightarrow> bool" where
  "plain_segment s \<longleftrightarrow> s \<noteq> [] \<and> 47 \<notin> set s \<and> s \<noteq> lit ''.'' \<and> s \<noteq> lit ''..''"

declare split_char_no_sep [simp]

lemma split_char_pieces: "p \<in> set (split_char d s) \<Longrightarrow> d \<notin> set p \<and> set p \<subseteq> set s"
proof (induction s arbitrary: p)
  case (Cons c s)
  then show ?case by (fastforce split: if_splits list.splits)
qed simp

lemma segments_join:
  assumes "\<And>n. n \<in> set ns \<Longrightarrow> plain_segment n"
  shows "segments (join [47] ns) = ns"
proof (cases "ns = []")
  case False
  then have "split_char 47 (join [47] ns) = ns" using assms by (intro split_char_join) (auto simp: plain_segment_def)
  with assms show ?thesis by (simp add: segments_def plain_segment_def)
qed (simp add: segments_def)

lemma segments_slash [simp]: "segments (47 # s) = segments s"
  by (simp add: segments_def)

lemma segments_plain: "p \<in> set (segments s) \<Longrightarrow> p \<noteq> [] \<and> 47 \<notin> set p \<and> set p \<subseteq> set s"
  using split_char_pieces by (auto simp: segments_def)

lemma is_absolute_Cons [simp]: "is_absolute (c # s) \<longleftrightarrow> c = 47"
  and is_absolute_Nil [simp]: "\<not> is_absolute []"
  by (simp_all add: is_absolute_def starts_with_def)

lemma map_segment_plain: "(\<And>n. n \<in> set ns \<Longrightarrow> plain_segment n) \<Longrightarrow> map segment_component ns = map Normal ns"
  by (simp add: segment_component_def plain_segment_def)

lemma filter_dot_plain: "(\<And>n. n \<in> set ns \<Longrightarrow> plain_segment n) \<Longrightarrow> filter (\<lambda>p. p \<noteq> [46]) ns = ns"
  by (simp add: plain_segment_def)

lemma hd_join: "ns \<noteq> [] \<Longrightarrow> hd ns \<noteq> [] \<Longrightarrow> join d ns \<noteq> [] \<and> hd (join d ns) = hd (hd ns)"
  by (induction ns rule: induct_list012) auto

lemma components_absolute:
  assumes "\<And>n. n \<in> set ns \<Longrightarrow> plain_segment n"
  shows "components (47 # join [47] ns) = RootDir # map Normal ns"
  using assms by (simp add: components_def segments_join map_segment_plain filter_dot_plain)

lemma relative_join:
  assumes "\<And>n. n \<in> set ns \<Longrightarrow> plain_segment n"
  shows "\<not> is_absolute (join [47] ns)"
proof (cases ns)
  case (Cons n ms)
  with assms have "n \<noteq> []" "47 \<notin> set n" by (auto simp: plain_segment_def)
  with Cons show ?thesis
    using hd_join [of ns "[47]"] by (cases n) (auto simp: is_absolute_def starts_with_def take_Suc neq_Nil_conv)
qed simp

lemma components_relative:
  assumes "\<And>n. n \<in> set ns \<Longrightarrow> plain_segment n"
  shows "components (join [47] ns) = map Normal ns"
proof -
  have "\<not> is_absolute (join [47] ns)" and "segments (join [47] ns) = ns"
    using assms relative_join [of ns] segments_join [of ns] by blast+
  moreover have "map segment_component (filter (\<lambda>p. p \<noteq> [46]) ns) = map Normal ns"
    using assms by (simp add: map_segment_plain filter_dot_plain)
  moreover have "[46] \<notin> set ns" using assms by (auto simp: plain_segment_def)
  ultimately show ?thesis by (auto simp: components_def Let_def split: list.split)
qed

lemma push_plain: "plain_segment n \<Longrightarrow> buf \<noteq> [] \<Longrightarrow> last buf \<noteq> 47 \<Longrightarrow> path_push buf n = buf @ 47 # n"
  by (cases n) (auto simp: path_push_def plain_segment_def)

lemma push_plain_fresh: "plain_segment n \<Longrightarrow> buf = [] \<or> last buf = 47 \<Longrightarrow> path_push buf n = buf @ n"
  by (cases n) (auto simp: path_push_def plain_segment_def)

lemma plain_last: "plain_segment n \<Longrightarrow> n \<noteq> [] \<and> last n \<noteq> 47"
  using last_in_set by (fastforce simp: plain_segment_def)

lemma foldl_push_plain:
  assumes "\<And>n. n \<in> set ns \<Longrightarrow> plain_segment n" "buf \<noteq> []" "last buf \<noteq> 47"
  shows "foldl path_push buf ns = buf @ concat (map ((#) 47) ns)"
  using assms
proof (induction ns arbitrary: buf)
  case (Cons n ns)
  then have "foldl path_push (buf @ 47 # n) ns = (buf @ 47 # n) @ concat (map ((#) 47) ns)"
    using plain_last [of n] by (intro Cons.IH) auto
  with Cons.prems show ?case by (simp add: push_plain)
qed simp

lemma join_concat: "ns \<noteq> [] \<Longrightarrow> join [47] ns = hd ns @ concat (map ((#) 47) (tl ns))"
proof -
  have "(@) [47] = (#) (47 :: nat)" by (simp add: fun_eq_iff)
  then show "ns \<noteq> [] \<Longrightarrow> ?thesis" by (cases ns) (simp_all add: join_def)
qed

lemma foldl_push_fresh:
  assumes "\<And>n. n \<in> set ns \<Longrightarrow> plain_segment n" "buf = [] \<or> last buf = 47"
  shows "foldl path_push buf ns = buf @ join [47] ns"
proof (cases ns)
  case (Cons n ms)
  with assms plain_last [of n] have "foldl path_push (buf @ n) ms = (buf @ n) @ concat (map ((#) 47) ms)"
    by (intro foldl_push_plain) auto
  with assms Cons show ?thesis by (simp add: push_plain_fresh join_concat)
qed simp

lemma map_Normal_inject [simp]: "map Normal ms = map Normal ns \<longleftrightarrow> ms = ns"
  by (simp add: inj_map_eq_map inj_def)

lemma map_component_str_Normal [simp]: "map (component_str \<circ> Normal) ns = ns"
  by (induction ns) simp_all

lemma path_collect_relative:
  "(\<And>n. n \<in> set ns \<Longrightarrow> plain_segment n) \<Longrightarrow> path_collect (map Normal ns) = join [47] ns"
  by (simp add: path_collect_def foldl_push_fresh)

lemma path_collect_absolute:
  "(\<And>n. n \<in> set ns \<Longrightarrow> plain_segment n) \<Longrightarrow> path_collect (RootDir # map Normal ns) = 47 # join [47] ns"
  using foldl_push_fresh [of ns "[47]"] by (simp add: path_collect_def path_push_def)

subsection \<open>Normalisation leaves plain segments\<close>

lemma foldl_normalize_absolute:
  assumes "RootDir \<notin> set cs" "\<And>n. Normal n \<in> set cs \<Longrightarrow> Q n" "\<And>n. n \<in> set ms \<Longrightarrow> Q n"
  shows "\<exists>ns. foldl normalize_step (map Normal ms @ [RootDir]) cs = map Normal ns @ [RootDir] \<and>
              (\<forall>n \<in> set ns. Q n)"
  using assms
proof (induction cs arbitrary: ms)
  case (Cons c cs)
  show ?case
  proof (cases c)
    case RootDir
    with Cons.prems show ?thesis by simp
  next
    case CurDir
    with Cons show ?thesis by simp
  next
    case ParentDir
    have "\<exists>ks. normalize_step (map Normal ms @ [RootDir]) c = map Normal ks @ [RootDir] \<and> set ks \<subseteq> set ms"
      using ParentDir by (cases ms) (auto intro: exI [of _ "[]"])
    then obtain ks where "normalize_step (map Normal ms @ [RootDir]) c = map Normal ks @ [RootDir]" "set ks \<subseteq> set ms"
      by blast
    with Cons.IH [of ks] Cons.prems show ?thesis by auto
  next
    case (Normal n)
    with Cons.IH [of "n # ms"] Cons.prems show ?thesis by auto
  qed
qed auto

text \<open>What normalising \<open>p\<close> keeps: segments of \<open>p\<close> that are plain.\<close>

definition plain_segments_of :: "str \<Rightarrow> str list \<Rightarrow> bool" where
  "plain_segments_of p ns \<longleftrightarrow> (\<forall>n \<in> set ns. plain_segment n \<and> set n \<subseteq> set p)"

lemma plain_segments_ofD: "plain_segments_of p ns \<Longrightarrow> n \<in> set ns \<Longrightarrow> plain_segment n"
  by (simp add: plain_segments_of_def)

lemma components_absolute_shape:
  assumes "is_absolute p"
  shows "\<exists>cs. components p = RootDir # cs \<and> RootDir \<notin> set cs \<and>
              (\<forall>n. Normal n \<in> set cs \<longrightarrow> plain_segment n \<and> set n \<subseteq> set p)"
proof -
  let ?cs = "map segment_component (filter (\<lambda>p. p \<noteq> [46]) (segments p))"
  have "plain_segment n \<and> set n \<subseteq> set p" if "Normal n \<in> set ?cs" for n
    using that segments_plain [of n p] by (auto simp: segment_component_def plain_segment_def split: if_splits)
  moreover have "RootDir \<notin> set ?cs" by (auto simp: segment_component_def)
  ultimately show ?thesis using assms by (auto simp: components_def Let_def)
qed

lemma normalize_absolute:
  assumes "is_absolute p"
  obtains ns where "normalize_lexically p = 47 # join [47] ns"
    "components (normalize_lexically p) = RootDir # map Normal ns" "plain_segments_of p ns"
    "normalize_components (components p) = RootDir # map Normal ns"
proof -
  obtain cs where cs: "components p = RootDir # cs" "RootDir \<notin> set cs"
    "\<And>n. Normal n \<in> set cs \<Longrightarrow> plain_segment n \<and> set n \<subseteq> set p"
    using components_absolute_shape [OF assms] by blast
  then obtain ns where "foldl normalize_step [RootDir] cs = map Normal ns @ [RootDir]"
    "\<forall>n \<in> set ns. plain_segment n \<and> set n \<subseteq> set p"
    using foldl_normalize_absolute [of cs "\<lambda>n. plain_segment n \<and> set n \<subseteq> set p" "[]"] by auto
  with cs have "normalize_components (components p) = RootDir # map Normal (rev ns)" "plain_segments_of p (rev ns)"
    by (simp_all add: normalize_components_def rev_map plain_segments_of_def)
  then obtain ks where ks: "normalize_components (components p) = RootDir # map Normal ks" "plain_segments_of p ks"
    by blast
  then have "normalize_lexically p = 47 # join [47] ks"
    by (simp add: normalize_lexically_def path_collect_absolute plain_segments_ofD)
  with ks that [of ks] show ?thesis by (simp add: components_absolute plain_segments_ofD)
qed

subsection \<open>Spellings\<close>

lemma path_match_string_id: "92 \<notin> set s \<Longrightarrow> path_match_string s = s"
  by (auto simp: path_match_string_def intro!: map_idI)

lemma join_no_backslash: "(\<And>n. n \<in> set ns \<Longrightarrow> 92 \<notin> set n) \<Longrightarrow> 92 \<notin> set (join [47] ns)"
  by (induction ns rule: induct_list012) auto

lemma join_cwd_absolute: "is_absolute cwd \<Longrightarrow> is_absolute (join_cwd p (Some cwd))"
  by (cases cwd) (auto simp: join_cwd_def path_push_def)

lemma join_cwd_chars: "set (join_cwd p (Some cwd)) \<subseteq> set cwd \<union> set p \<union> {47}"
  by (auto simp: join_cwd_def path_push_def)

lemma join_eq_Nil: "(\<And>n. n \<in> set ns \<Longrightarrow> plain_segment n) \<Longrightarrow> join [47] ns = [] \<longleftrightarrow> ns = []"
  by (cases ns) (auto simp: join_concat plain_segment_def)

lemma join_eq_dot: "(\<And>n. n \<in> set ns \<Longrightarrow> plain_segment n) \<Longrightarrow> join [47] ns \<noteq> [46]"
  using segments_join [of ns] by (force simp: plain_segment_def segments_def)

lemma components_dot [simp]: "components [46] = [CurDir]" "components [46, 47] = [CurDir]"
  by (simp_all add: components_def segments_def)

lemma components_dot_slash:
  assumes "\<And>n. n \<in> set ns \<Longrightarrow> plain_segment n"
  shows "components (46 # 47 # join [47] ns) = CurDir # map Normal ns"
proof -
  have "segments (46 # 47 # join [47] ns) = [46] # segments (join [47] ns)" by (simp add: segments_def)
  with assms show ?thesis by (simp add: components_def segments_join map_segment_plain filter_dot_plain)
qed

lemma path_match_string_eq [simp]:
  "path_match_string s = [] \<longleftrightarrow> s = []" "path_match_string s = [46] \<longleftrightarrow> s = [46]"
  by (auto simp: path_match_string_def map_eq_Cons_conv intro: exI [of _ 46] split: if_splits)

lemma path_match_string_absolute [simp]: "is_absolute (path_match_string (47 # s))"
  by (simp add: path_match_string_def is_absolute_def starts_with_def)

text \<open>
  The spellings in terms of the segments of the path and of the working directory: a path inside has
  three, a path outside one, and a tilde path only its own text.
\<close>

lemma path_match_forms_inside:
  assumes "components abs_path = RootDir # map Normal (ds @ rs)"
    and "components (normalize_lexically cwd) = RootDir # map Normal ds"
    and "\<And>n. n \<in> set rs \<Longrightarrow> plain_segment n"
    and "absolute_normalized_path p (Some cwd) = abs_path"
  shows "path_match_forms p (Some cwd) =
    path_match_string abs_path #
    (let rel_s = path_match_string (join [47] rs) in if rs = [] then [[46], [46, 47]] else [46 # 47 # rel_s, rel_s])"
proof -
  have "path_strip_prefix abs_path (normalize_lexically cwd) = Some (join [47] rs)"
    using assms by (simp add: path_strip_prefix_def path_collect_relative)
  with assms show ?thesis
    by (simp add: path_match_forms_def Let_def join_eq_Nil join_eq_dot)
qed

lemma path_match_forms_outside:
  assumes "components abs_path = RootDir # map Normal ns" "\<nexists>rs. ns = ds @ rs"
    and "components (normalize_lexically cwd) = RootDir # map Normal ds"
    and "absolute_normalized_path p (Some cwd) = abs_path"
  shows "path_match_forms p (Some cwd) = [path_match_string abs_path]"
proof -
  have "take (length ds) ns \<noteq> ds" using assms(2) by (metis append_take_drop_id)
  then have "take (length ds) (map Normal ns) \<noteq> map Normal ds"
    by (simp add: take_map)
  with assms show ?thesis
    by (simp add: path_match_forms_def path_strip_prefix_def Let_def)
qed

lemma path_match_forms_tilde:
  assumes "is_absolute cwd" "is_tilde_path p"
  shows "path_match_forms p (Some cwd) = [path_match_string p]"
proof -
  obtain ds where "components (normalize_lexically cwd) = RootDir # map Normal ds"
    using normalize_absolute [OF assms(1)] by blast
  moreover obtain n cs where "components p = Normal n # cs"
    using assms(2) by (auto simp: is_tilde_path_def split: list.splits Component.splits)
  ultimately show ?thesis
    using assms(2) by (simp add: path_match_forms_def absolute_normalized_path_def path_strip_prefix_def Let_def)
qed

text \<open>A path that is not a tilde path: its segments after normalisation and those of the working directory.\<close>

lemma path_segments:
  assumes "is_absolute cwd"
  obtains ns ds where
    "normalize_lexically (join_cwd p (Some cwd)) = 47 # join [47] ns"
    "components (normalize_lexically (join_cwd p (Some cwd))) = RootDir # map Normal ns"
    "plain_segments_of (join_cwd p (Some cwd)) ns"
    "components (normalize_lexically cwd) = RootDir # map Normal ds"
    "(\<exists>rest. components (normalize_lexically (join_cwd p (Some cwd))) = components (normalize_lexically cwd) @ rest) \<longleftrightarrow>
       (\<exists>rs. ns = ds @ rs)"
proof -
  let ?j = "join_cwd p (Some cwd)"
  obtain ns where ns: "normalize_lexically ?j = 47 # join [47] ns"
    "components (normalize_lexically ?j) = RootDir # map Normal ns" "plain_segments_of ?j ns"
    using normalize_absolute [OF join_cwd_absolute [OF assms]] by blast
  obtain ds where ds: "components (normalize_lexically cwd) = RootDir # map Normal ds"
    using normalize_absolute [OF assms] by blast
  have "\<exists>rs. ns = ds @ rs" if rest: "map Normal ns = map Normal ds @ rest" for rest
  proof -
    obtain us vs where "ns = us @ vs" "map Normal ds = map Normal us" using rest by (auto simp: map_eq_append_conv)
    then show ?thesis by simp
  qed
  then have "(\<exists>rest. map Normal ns = map Normal ds @ rest) \<longleftrightarrow> (\<exists>rs. ns = ds @ rs)" by auto
  then show ?thesis using that [of ns ds] ns ds by simp
qed

text \<open>Without a backslash the text of a spelling has the components of the path.\<close>

lemma spellings_have_no_parent:
  assumes cwd: "is_absolute cwd" and p: "\<not> is_tilde_path p" and bs: "92 \<notin> set p" "92 \<notin> set cwd"
    and f: "f \<in> set (path_match_forms p (Some cwd))"
  shows "ParentDir \<notin> set (components f)"
proof -
  let ?j = "join_cwd p (Some cwd)"
  have abs_path: "absolute_normalized_path p (Some cwd) = normalize_lexically ?j"
    using p by (simp add: absolute_normalized_path_def)
  from cwd show ?thesis
  proof (cases rule: path_segments [of cwd p])
    case (1 ns ds)
    have "92 \<notin> set ?j" using bs join_cwd_chars [of p cwd] by force
    then have plain: "plain_segment n \<and> 92 \<notin> set n" if "n \<in> set ns" for n
      using that 1(3) by (meson plain_segments_of_def subsetD)
    have first: "path_match_string (normalize_lexically ?j) = 47 # join [47] ns"
      using plain join_no_backslash [of ns] by (auto simp: 1(1) intro!: path_match_string_id)
    show ?thesis
    proof (cases "\<exists>rs. ns = ds @ rs")
      case True
      then obtain rs where rs: "ns = ds @ rs" by blast
      have plain_rs: "plain_segment n" if "n \<in> set rs" for n using that plain rs by simp
      have rel: "path_match_string (join [47] rs) = join [47] rs"
        using plain join_no_backslash [of rs] by (auto simp: rs intro!: path_match_string_id)
      have forms: "path_match_forms p (Some cwd) =
          (47 # join [47] ns) # (if rs = [] then [[46], [46, 47]] else [46 # 47 # join [47] rs, join [47] rs])"
        using path_match_forms_inside [of "normalize_lexically ?j" ds rs cwd p] 1(2,4) abs_path plain_rs rs first rel
        by (simp add: Let_def)
      show ?thesis using f 1(1,2) plain_rs by (auto simp: forms components_relative components_dot_slash split: if_splits)
    next
      case False
      then show ?thesis using f path_match_forms_outside [OF 1(2) False 1(4) abs_path] first 1(1,2) by auto
    qed
  qed
qed

text \<open>
  C8: With an absolute working directory, a path that starts with a tilde is offered to the rules only
  as it is written. Any other path is offered under a relative spelling exactly when, after its parent
  segments are resolved, it lies inside the working directory; this holds with backslashes too. And
  when neither the path nor the working directory has a backslash, no spelling of it keeps a parent
  segment. So a rule such as \<open>Read(./**)\<close> cannot be escaped with \<open>../\<close>, and it covers every path
  inside. (A backslash becomes a slash only after the parent segments are resolved:
  \<open>backslash_keeps_a_parent\<close> below is the spelling with a parent segment that this leaves.)
\<close>

theorem relative_spellings_stay_inside:
  assumes cwd: "is_absolute cwd"
  shows "(is_tilde_path p \<longrightarrow> path_match_forms p (Some cwd) = [path_match_string p]) \<and>
         (\<not> is_tilde_path p \<longrightarrow>
           ((\<exists>f \<in> set (path_match_forms p (Some cwd)). \<not> is_absolute f) \<longleftrightarrow>
            (\<exists>rest. components (normalize_lexically (join_cwd p (Some cwd))) = components (normalize_lexically cwd) @ rest))) \<and>
         (\<not> is_tilde_path p \<and> 92 \<notin> set p \<and> 92 \<notin> set cwd \<longrightarrow>
           (\<forall>f \<in> set (path_match_forms p (Some cwd)). ParentDir \<notin> set (components f)))"
proof (intro conjI impI)
  assume p: "\<not> is_tilde_path p"
  then have abs_path: "absolute_normalized_path p (Some cwd) = normalize_lexically (join_cwd p (Some cwd))"
    by (simp add: absolute_normalized_path_def)
  from cwd show "(\<exists>f \<in> set (path_match_forms p (Some cwd)). \<not> is_absolute f) \<longleftrightarrow>
      (\<exists>rest. components (normalize_lexically (join_cwd p (Some cwd))) = components (normalize_lexically cwd) @ rest)"
  proof (cases rule: path_segments [of cwd p])
    case (1 ns ds)
    show ?thesis
    proof (cases "\<exists>rs. ns = ds @ rs")
      case True
      then obtain rs where rs: "ns = ds @ rs" by blast
      have "plain_segment n" if "n \<in> set rs" for n using that 1(3) rs by (simp add: plain_segments_of_def)
      then have "path_match_forms p (Some cwd) = path_match_string (normalize_lexically (join_cwd p (Some cwd))) #
          (let rel_s = path_match_string (join [47] rs) in if rs = [] then [[46], [46, 47]] else [46 # 47 # rel_s, rel_s])"
        using path_match_forms_inside [of _ ds rs cwd p] 1(2,4) abs_path rs by simp
      then show ?thesis using True 1(5) by (simp add: Let_def is_absolute_def starts_with_def)
    next
      case False
      then show ?thesis using path_match_forms_outside [OF 1(2) False 1(4) abs_path] 1(1,5) by simp
    qed
  qed
qed (use assms in \<open>auto simp: path_match_forms_tilde dest: spellings_have_no_parent\<close>)

theorem relative_spellings_stay_inside_witness:
  "path_match_forms (lit ''src/../../x'') (Some (lit ''/w'')) = [lit ''/x''] \<and>
   \<not> (\<exists>rest. components (normalize_lexically (join_cwd (lit ''src/../../x'') (Some (lit ''/w'')))) =
           components (normalize_lexically (lit ''/w'')) @ rest) \<and>
   path_match_forms (lit ''~/../x'') (Some (lit ''/w'')) = [lit ''~/../x'']"
proof -
  let ?p = "lit ''src/../../x''" and ?t = "lit ''~/../x''" and ?d = "lit ''/w''"
  have hyps: "is_absolute ?d" "\<not> is_tilde_path ?p" "is_tilde_path ?t"
    by (simp_all add: is_tilde_path_def components_def segments_def segment_component_def starts_with_def is_absolute_def)
  have "path_match_forms ?p (Some ?d) = [lit ''/x'']"
    by (simp add: path_match_forms_def absolute_normalized_path_def normalize_lexically_def normalize_components_def
        join_cwd_def path_push_def path_collect_def path_strip_prefix_def is_tilde_path_def components_def segments_def
        segment_component_def path_match_string_def starts_with_def is_absolute_def)
  moreover have "path_match_string ?t = ?t" by (simp add: path_match_string_def)
  ultimately show ?thesis
    using relative_spellings_stay_inside [OF hyps(1), of ?p] relative_spellings_stay_inside [OF hyps(1), of ?t] hyps(2,3)
    by (simp add: is_absolute_def starts_with_def)
qed

text \<open>
  The comment of \<open>path_match_forms\<close> says that no spelling keeps a parent segment. One does when the
  parent segment is written with backslashes: on Unix they are part of the name while the path is
  normalised, and become slashes in the spelling.
\<close>

lemma split_char_glue: "split_char d (u @ d # v) = split_char d u @ split_char d v"
  by (induction u) (auto split: list.split)

lemma segments_glue: "segments (u @ 47 # v) = segments u @ segments v"
  by (simp add: segments_def split_char_glue)

lemma components_push_plain:
  assumes "is_absolute cwd" "plain_segment n"
  shows "components (path_push cwd n) = components cwd @ [Normal n]"
proof -
  have n: "segments n = [n]" "segment_component n = Normal n" "n \<noteq> [46]" "\<not> is_absolute n"
    using assms(2) by (cases n; auto simp: segments_def segment_component_def plain_segment_def)+
  have "is_absolute (path_push cwd n)" using assms(1) n(4) by (cases cwd) (auto simp: path_push_def)
  moreover have "segments (path_push cwd n) = segments cwd @ [n]"
  proof (cases "cwd \<noteq> [] \<and> last cwd \<noteq> 47")
    case False
    with assms(1) obtain u where "cwd = u @ [47]" by (cases cwd rule: rev_cases) auto
    then show ?thesis using n segments_glue [of u n] segments_glue [of u "[]"]
      by (simp add: path_push_def segments_def)
  qed (use n segments_glue [of cwd n] in \<open>simp add: path_push_def\<close>)
  ultimately show ?thesis using assms(1) n by (simp add: components_def Let_def)
qed

lemma normalize_push_plain:
  assumes "is_absolute cwd" "plain_segment n"
  obtains ds where "components (normalize_lexically (path_push cwd n)) = RootDir # map Normal (ds @ [n])"
    "components (normalize_lexically cwd) = RootDir # map Normal ds"
proof -
  obtain ds where ds: "components (normalize_lexically cwd) = RootDir # map Normal ds" "plain_segments_of cwd ds"
    "normalize_components (components cwd) = RootDir # map Normal ds"
    using normalize_absolute [OF assms(1)] by metis
  have "normalize_components (components (path_push cwd n)) = RootDir # map Normal (ds @ [n])"
    using ds(3) by (simp add: components_push_plain [OF assms] normalize_components_def)
  then have "normalize_lexically (path_push cwd n) = 47 # join [47] (ds @ [n])"
    using ds(2) assms(2) path_collect_absolute [of "ds @ [n]"]
    by (auto simp: normalize_lexically_def plain_segments_of_def Let_def)
  then have "components (normalize_lexically (path_push cwd n)) = RootDir # map Normal (ds @ [n])"
    using ds(2) assms(2) components_absolute [of "ds @ [n]"] by (auto simp: plain_segments_of_def)
  with ds that show ?thesis by blast
qed

lemma backslash_keeps_a_parent:
  assumes cwd: "is_absolute cwd" and a: "plain_segment a" "92 \<notin> set a" "hd a \<noteq> 126"
    and b: "47 \<notin> set b" "92 \<notin> set b"
  shows "a @ [47, 46, 46, 47] @ b \<in> set (path_match_forms (a @ [92, 46, 46, 92] @ b) (Some cwd)) \<and>
         ParentDir \<in> set (components (a @ [47, 46, 46, 47] @ b))"
proof
  let ?p = "a @ [92, 46, 46, 92] @ b"
  have ne: "a \<noteq> []" "a \<noteq> [46]" "47 \<notin> set a" using a by (auto simp: plain_segment_def)
  have plain: "plain_segment ?p" using ne b by (auto simp: plain_segment_def append_eq_Cons_conv)
  have "\<not> is_absolute ?p" using ne by (cases a) auto
  moreover have "\<not> is_tilde_path ?p"
    using ne a components_relative [of "[?p]"] plain
    by (cases a) (auto simp: is_tilde_path_def starts_with_def)
  ultimately have abs_path: "absolute_normalized_path ?p (Some cwd) = normalize_lexically (path_push cwd ?p)"
    by (simp add: absolute_normalized_path_def join_cwd_def)
  have str: "path_match_string ?p = a @ [47, 46, 46, 47] @ b"
    using a b by (auto simp: path_match_string_def intro!: map_idI)
  from cwd plain show "a @ [47, 46, 46, 47] @ b \<in> set (path_match_forms ?p (Some cwd))"
  proof (cases rule: normalize_push_plain [of cwd ?p])
    case (1 ds)
    then show ?thesis using path_match_forms_inside [OF 1(1) 1(2) _ abs_path] plain str by (simp add: Let_def)
  qed
  have "a @ [47, 46, 46, 47] @ b = a @ 47 # ([46, 46] @ 47 # b)" by simp
  then have "segments (a @ [47, 46, 46, 47] @ b) = segments a @ segments [46, 46] @ segments b"
    by (simp only: segments_glue)
  moreover have "segments a = [a]" "segments [46, 46] = [[46, 46 :: nat]]" using ne by (auto simp: segments_def)
  moreover have "\<not> is_absolute (a @ [47, 46, 46, 47] @ b)" using ne by (cases a) auto
  ultimately show "ParentDir \<in> set (components (a @ [47, 46, 46, 47] @ b))"
    using ne by (auto simp: components_def Let_def segment_component_def)
qed

end
