(* ===== verification/Workflow_Value.thy ===== *)
theory Workflow_Value
  imports Rust_Num Rust_Str "HOL-Library.Multiset" "HOL-Library.List_Lexorder"
begin

text \<open>
  The JSON values of workflows, from \<^verbatim>\<open>xai-workflow/src/journal.rs\<close>: the canonical form and the
  request hash. The constructors are those of \<^verbatim>\<open>serde_json::Value\<close> that the code matches on; its
  \<^verbatim>\<open>Map\<close> is the list of its entries in iteration order and its numbers are a type parameter.
  Printing a value and the SHA-256 function are outside the repository, so they are fields of a
  record that the hash takes as an argument. Keys compare as Rust's strings do: by bytes of UTF-8,
  which is the order of scalar values.
\<close>

datatype 'n jvalue =
    VNull
  | VBool bool
  | VNumber 'n
  | VString str
  | VArray "'n jvalue list"
  | VObject "(str \<times> 'n jvalue) list"

definition value_get :: "'n jvalue \<Rightarrow> str \<Rightarrow> 'n jvalue option" where
  "value_get v k = (case v of VObject m \<Rightarrow> map_of m k | _ \<Rightarrow> None)"

definition value_as_str :: "'n jvalue \<Rightarrow> str option" where
  "value_as_str v = (case v of VString s \<Rightarrow> Some s | _ \<Rightarrow> None)"

definition value_as_object :: "'n jvalue \<Rightarrow> (str \<times> 'n jvalue) list option" where
  "value_as_object v = (case v of VObject m \<Rightarrow> Some m | _ \<Rightarrow> None)"

lemma value_get_simps [simp]:
  "value_get (VObject m) k = map_of m k" "value_get VNull k = None" "value_get (VString s) k = None"
  "value_get (VBool b) k = None" "value_get (VNumber n) k = None" "value_get (VArray vs) k = None"
  by (simp_all add: value_get_def)

lemma value_as_simps [simp]:
  "value_as_str (VString s) = Some s" "value_as_object (VObject m) = Some m"
  by (simp_all add: value_as_str_def value_as_object_def)

subsection \<open>The canonical form\<close>

function canonical_json :: "'n jvalue \<Rightarrow> 'n jvalue" where
  "canonical_json (VObject m) = VObject (map (\<lambda>(k, v). (k, canonical_json v)) (sort_key fst m))"
| "canonical_json (VArray items) = VArray (map canonical_json items)"
| "canonical_json VNull = VNull"
| "canonical_json (VBool b) = VBool b"
| "canonical_json (VNumber n) = VNumber n"
| "canonical_json (VString s) = VString s"
  by pat_completeness auto
termination
proof (relation "measure size")
  fix m :: "(str \<times> 'n jvalue) list" and kv k v
  assume "kv \<in> set (sort_key fst m)" and "(k, v) = kv"
  then have "size v < size_list (\<lambda>(k, v). size v) m + Suc 0"
    using size_list_estimation' [of kv m "size v" "\<lambda>(k, v). size v"] by (auto simp: less_Suc_eq_le)
  moreover have "size_list (\<lambda>(k, v). size v) m \<le> size_list (size_prod (\<lambda>_. 0) size) m"
    by (induction m) auto
  ultimately show "(v, VObject m) \<in> measure size" by simp
qed (auto simp: less_Suc_eq_le size_list_estimation')

text \<open>Equality of JSON values up to the order of the entries of objects, at any depth.\<close>

inductive reordered :: "'n jvalue \<Rightarrow> 'n jvalue \<Rightarrow> bool" where
  reordered_refl: "reordered v v"
| reordered_array: "list_all2 reordered vs ws \<Longrightarrow> reordered (VArray vs) (VArray ws)"
| reordered_object:
    "mset m = mset m' \<Longrightarrow> mset n = mset n' \<Longrightarrow> list_all2 (rel_prod (=) reordered) m' n' \<Longrightarrow>
     reordered (VObject m) (VObject n)"

text \<open>A \<^verbatim>\<open>Map\<close> has no key twice.\<close>

fun unique_keys :: "'n jvalue \<Rightarrow> bool" where
  "unique_keys (VObject m) \<longleftrightarrow> distinct (map fst m) \<and> list_all (\<lambda>(k, v). unique_keys v) m"
| "unique_keys (VArray vs) \<longleftrightarrow> list_all unique_keys vs"
| "unique_keys _ \<longleftrightarrow> True"

lemma insort_key_map: "insort_key f (g x) (map g xs) = map g (insort_key (\<lambda>a. f (g a)) x xs)"
  by (induction xs) auto

lemma sort_key_map: "sort_key f (map g xs) = map g (sort_key (\<lambda>a. f (g a)) xs)"
  by (induction xs) (simp_all add: insort_key_map)

lemma sort_key_unique:
  assumes "mset xs = mset ys" and "distinct (map f xs)"
  shows "sort_key f xs = sort_key f ys"
  using assms by (intro sort_key_inj_key_eq) (auto simp: distinct_map)

lemma canonical_object:
  fixes m :: "(str \<times> 'n jvalue) list"
  shows "canonical_json (VObject m) = VObject (sort_key fst (map (\<lambda>(k, v). (k, canonical_json v)) m))"
proof -
  have "(\<lambda>a :: str \<times> 'n jvalue. fst (case a of (k, v) \<Rightarrow> (k, canonical_json v))) = fst" by auto
  then show ?thesis by (simp add: sort_key_map)
qed

lemma reordered_canonical:
  "reordered v w \<Longrightarrow> unique_keys v \<Longrightarrow> unique_keys w \<Longrightarrow> canonical_json v = canonical_json w"
proof (induction rule: reordered.induct)
  case (reordered_array vs ws)
  then show ?case by (auto simp: list_all2_conv_all_nth list_all_length intro: nth_equalityI)
next
  case (reordered_object m m' n n')
  let ?c = "\<lambda>(k, v). (k, canonical_json v)"
  have keys: "unique_keys v" if "(k, v) \<in> set m' \<or> (k, v) \<in> set n'" for k v
    using that reordered_object.prems mset_eq_setD [OF reordered_object.hyps(1)]
      mset_eq_setD [OF reordered_object.hyps(2)] by (auto simp: list_all_iff)
  have "map ?c m' = map ?c n'"
  proof (rule nth_equalityI)
    show "length (map ?c m') = length (map ?c n')"
      using reordered_object.IH by (simp add: list_all2_conv_all_nth)
    fix i assume i: "i < length (map ?c m')"
    obtain k v k' w where kv: "m' ! i = (k, v)" "n' ! i = (k', w)" by fastforce
    have "(k, v) \<in> set m'" and "(k', w) \<in> set n'"
      using i kv reordered_object.IH nth_mem [of i m'] nth_mem [of i n']
      by (auto dest: list_all2_lengthD)
    then have "k = k' \<and> canonical_json v = canonical_json w"
      using i kv reordered_object.IH keys by (fastforce simp: list_all2_conv_all_nth rel_prod_sel)
    then show "map ?c m' ! i = map ?c n' ! i"
      using i kv reordered_object.IH by (auto dest: list_all2_lengthD)
  qed
  moreover have "sort_key fst (map ?c m) = sort_key fst (map ?c m')"
    using reordered_object.hyps(1) reordered_object.prems(1)
    by (intro sort_key_unique) (auto simp: comp_def case_prod_beta)
  moreover have "sort_key fst (map ?c n) = sort_key fst (map ?c n')"
    using reordered_object.hyps(2) reordered_object.prems(2)
    by (intro sort_key_unique) (auto simp: comp_def case_prod_beta)
  ultimately show ?case by (simp only: canonical_object)
qed simp

lemma canonical_reordered: "canonical_json v = canonical_json w \<Longrightarrow> reordered v w"
proof (induction v arbitrary: w)
  case (VArray vs)
  obtain ws where w: "w = VArray ws" and eq: "map canonical_json vs = map canonical_json ws"
    using VArray.prems by (cases w) simp_all
  have "list_all2 reordered vs ws"
    using VArray.IH eq by (auto simp: list_all2_conv_all_nth dest: map_eq_imp_length_eq)
      (metis length_map nth_map nth_mem)
  then show ?case by (simp add: w reordered_array)
next
  case (VObject m)
  let ?c = "\<lambda>(k, v). (k, canonical_json v)"
  obtain n where w: "w = VObject n" and eq: "map ?c (sort_key fst m) = map ?c (sort_key fst n)"
    using VObject.prems by (cases w) simp_all
  have "list_all2 (rel_prod (=) reordered) (sort_key fst m) (sort_key fst n)"
  proof (rule list_all2_all_nthI)
    show len: "length (sort_key fst m) = length (sort_key fst n)"
      using eq by (rule map_eq_imp_length_eq)
    fix i assume i: "i < length (sort_key fst m)"
    obtain k v k' w where kv: "sort_key fst m ! i = (k, v)" "sort_key fst n ! i = (k', w)" by fastforce
    have "?c (k, v) = ?c (k', w)"
      using arg_cong [OF eq, of "\<lambda>xs. xs ! i"] i len kv by simp
    moreover have "(k, v) \<in> set m"
      using nth_mem [OF i] by (simp add: kv)
    ultimately show "rel_prod (=) reordered (sort_key fst m ! i) (sort_key fst n ! i)"
      using VObject.IH [of "(k, v)" v w] by (simp add: kv)
  qed
  then show ?case
    unfolding w by (intro reordered_object [where m' = "sort_key fst m" and n' = "sort_key fst n"]) simp_all
next
  case (VNull w) then show ?case by (cases w) (auto intro: reordered_refl)
next
  case (VBool b w) then show ?case by (cases w) (auto intro: reordered_refl)
next
  case (VNumber n w) then show ?case by (cases w) (auto intro: reordered_refl)
next
  case (VString s w) then show ?case by (cases w) (auto intro: reordered_refl)
qed

text \<open>
  The canonical form decides equality of JSON values up to the order of object entries: two
  values whose objects have no key twice have the same canonical form exactly when one is the other
  with entries of objects, at any depth, in another order.
\<close>

theorem canonical_form_decides:
  assumes "unique_keys v" and "unique_keys w"
  shows "canonical_json v = canonical_json w \<longleftrightarrow> reordered v w"
  using assms reordered_canonical canonical_reordered by blast

theorem canonical_form_decides_witness:
  "canonical_json (VObject [(lit ''b'', VNull :: nat jvalue), (lit ''a'', VBool True)]) =
   canonical_json (VObject [(lit ''a'', VBool True), (lit ''b'', VNull)]) \<longleftrightarrow>
   reordered (VObject [(lit ''b'', VNull :: nat jvalue), (lit ''a'', VBool True)])
     (VObject [(lit ''a'', VBool True), (lit ''b'', VNull)])"
  by (rule canonical_form_decides) simp_all

subsection \<open>The request hash\<close>

record 'n hash_env =
  sha256 :: "nat list \<Rightarrow> nat list"
  value_to_string :: "'n jvalue \<Rightarrow> str"

definition hex_byte :: "nat \<Rightarrow> str" where
  "hex_byte b = [hex_digit (b div 16), hex_digit (b mod 16)]"

definition request_hash :: "'n hash_env \<Rightarrow> str \<Rightarrow> 'n jvalue \<Rightarrow> str" where
  "request_hash H kind payload =
     concat (map hex_byte
       (take 16 (sha256 H (utf8_bytes kind @ [0] @ utf8_bytes (value_to_string H (canonical_json payload))))))"

lemma request_hash_reordered:
  "reordered v w \<Longrightarrow> unique_keys v \<Longrightarrow> unique_keys w \<Longrightarrow> request_hash H kind v = request_hash H kind w"
  by (simp add: request_hash_def reordered_canonical)

end
