(* ===== verification/Workflow_Journal.thy ===== *)
theory Workflow_Journal
  imports Workflow_Value Rust_Search
begin

text \<open>
  The journal of a workflow run, \<^verbatim>\<open>xai-workflow/src/journal.rs\<close>: one line of JSON per host call whose
  result the script saw, appended and synced before the script goes on, and read back when the run
  is resumed. The state is the \<open>journal\<close> record of the source and the file at its path, \<open>disk\<close>. Every
  call of the operating system takes its outcome as an argument (\<open>io_result\<close> for writes, with the
  number of bytes that reached the file before a failure, and \<open>journal_reads\<close> for the three calls
  that read it), so failures and torn writes are inputs of the model. Printing and parsing an entry
  belongs to \<^verbatim>\<open>serde_json\<close>: it is the parameter \<open>entry_codec\<close>, and \<open>codec_ok\<close> states what the code
  relies on for one entry.
\<close>

subsection \<open>Data\<close>

record 'n journal_entry =
  entry_seq :: u64
  entry_kind :: str
  entry_req_hash :: str
  entry_result :: "'n jvalue"
  entry_at_ms :: u64

datatype io_kind = KindNotFound | KindInvalidData | KindOther

datatype io_error = IoError io_kind str

datatype journal_error =
    JournalIo io_error
  | JournalParse nat str
  | UnsafeRestore u64 str
  | JournalFull u64 u64
  | JournalSequence nat u64 u64
  | JournalDivergence u64 str

record 'n journal =
  j_entries :: "'n journal_entry list"
  j_path :: "str option"
  j_bytes :: u64
  j_last_line_start :: "u64 option"

definition MAX_HOST_CALLS :: u64 where
  "MAX_HOST_CALLS = 10000"

definition MAX_JOURNAL_BYTES :: u64 where
  "MAX_JOURNAL_BYTES = 64 * 1024 * 1024"

definition MAX_JOURNAL_ENTRIES :: nat where
  "MAX_JOURNAL_ENTRIES = 10000"

definition HOST_ERROR_KEY :: str where
  "HOST_ERROR_KEY = lit ''__xai_workflow_host_error''"

text \<open>The text of an error, which becomes the text of the run's failure.\<close>

fun io_error_to_string :: "io_error \<Rightarrow> str" where
  "io_error_to_string (IoError k s) = s"

fun journal_error_to_string :: "journal_error \<Rightarrow> str" where
  "journal_error_to_string (JournalIo e) = lit ''journal io: '' @ io_error_to_string e"
| "journal_error_to_string (JournalParse line e) =
     lit ''journal parse at line '' @ show_nat line @ lit '': '' @ e"
| "journal_error_to_string (UnsafeRestore limit reason) =
     lit ''journal restore rejected (limit '' @ show_nat (unat limit) @ lit ''): '' @ reason"
| "journal_error_to_string (JournalFull seq limit) =
     lit ''journal full: appending seq '' @ show_nat (unat seq) @ lit '' would exceed the '' @
     show_nat (unat limit) @
     lit ''-byte cap that restore enforces, which would strand the run unresumable''"
| "journal_error_to_string (JournalSequence index expected actual) =
     lit ''journal is not dense at entry '' @ show_nat index @ lit '': expected sequence '' @
     show_nat (unat expected) @ lit '', found '' @ show_nat (unat actual)"
| "journal_error_to_string (JournalDivergence seq kind) =
     lit ''replay divergence at seq '' @ show_nat (unat seq) @ lit '' ('' @ kind @
     lit ''): the script issued a different call than the recorded run '' @ [8212] @
     lit '' the workflow script is nondeterministic or was edited mid-run''"

subsection \<open>The file\<close>

datatype node = RegularFile "nat list" | Symlink | OtherNode

type_synonym disk = "node option"

datatype io_result = IoOk | IoFails io_error nat

record metadata =
  md_is_symlink :: bool
  md_is_file :: bool
  md_len :: u64

record journal_reads =
  lstat :: "io_error + metadata"
  opened :: "io_error + metadata"
  read_content :: "io_error + nat list"

definition read_journal_bounded :: "str \<Rightarrow> journal_reads \<Rightarrow> io_error + nat list" where
  "read_journal_bounded path R =
     (let too_long = IoError KindInvalidData
            (lit ''journal exceeds '' @ show_nat (unat MAX_JOURNAL_BYTES) @ lit '' bytes'')
      in case lstat R of
           Inl e \<Rightarrow> Inl e
         | Inr md \<Rightarrow>
             if md_is_symlink md \<or> \<not> md_is_file md
             then Inl (IoError KindInvalidData (lit ''journal is not a regular file: '' @ path))
             else if md_len md > MAX_JOURNAL_BYTES then Inl too_long
             else case opened R of
                 Inl e \<Rightarrow> Inl e
               | Inr om \<Rightarrow>
                   if \<not> md_is_file om \<or> md_len om > MAX_JOURNAL_BYTES
                   then Inl (IoError KindInvalidData (lit ''journal changed during open''))
                   else case read_content R of
                       Inl e \<Rightarrow> Inl e
                     | Inr all \<Rightarrow>
                         let content = take (unat (saturating_add MAX_JOURNAL_BYTES 1)) all
                         in if of_nat (length content) > MAX_JOURNAL_BYTES then Inl too_long
                            else Inr content)"

text \<open>What the three calls see of a file that does not change meanwhile.\<close>

definition quiet_reads :: "disk \<Rightarrow> journal_reads" where
  "quiet_reads d =
     (case d of
        None \<Rightarrow>
          let e = Inl (IoError KindNotFound (lit ''No such file or directory (os error 2)''))
          in \<lparr>lstat = e, opened = e, read_content = Inl (IoError KindNotFound [])\<rparr>
      | Some nd \<Rightarrow>
          let content = (case nd of RegularFile b \<Rightarrow> b | _ \<Rightarrow> []);
              md = Inr \<lparr>md_is_symlink = (nd = Symlink),
                        md_is_file = (case nd of RegularFile b \<Rightarrow> True | _ \<Rightarrow> False),
                        md_len = of_nat (length content)\<rparr>
          in \<lparr>lstat = md, opened = md, read_content = Inr content\<rparr>)"

definition set_len :: "nat \<Rightarrow> disk \<Rightarrow> disk" where
  "set_len n d =
     (case d of
        Some (RegularFile b) \<Rightarrow> Some (RegularFile (take n b @ replicate (n - length b) 0))
      | _ \<Rightarrow> d)"

definition append_bytes :: "nat list \<Rightarrow> disk \<Rightarrow> disk" where
  "append_bytes bs d = (case d of Some (RegularFile b) \<Rightarrow> Some (RegularFile (b @ bs)) | _ \<Rightarrow> d)"

definition truncate_tail :: "io_result \<Rightarrow> nat \<Rightarrow> disk \<Rightarrow> io_error option \<times> disk" where
  "truncate_tail io n d =
     (case io of
        IoOk \<Rightarrow> (None, set_len n d)
      | IoFails e k \<Rightarrow> (Some e, if k = 0 then d else set_len n d))"

definition terminate_line :: "io_result \<Rightarrow> disk \<Rightarrow> io_error option \<times> disk" where
  "terminate_line io d =
     (case io of
        IoOk \<Rightarrow> (None, append_bytes [10] d)
      | IoFails e k \<Rightarrow> (Some e, append_bytes (take k [10]) d))"

text \<open>
  \<^verbatim>\<open>append_line\<close> creates the parent directory and the file, writes and syncs: a failure before the file
  exists leaves it missing (\<open>k = 0\<close> on a missing file), a later one leaves some bytes of the line.
\<close>

definition append_line :: "io_result \<Rightarrow> nat list \<Rightarrow> disk \<Rightarrow> io_error option \<times> disk" where
  "append_line io line d =
     (let created = (case d of None \<Rightarrow> Some (RegularFile []) | Some nd \<Rightarrow> Some nd)
      in case io of
           IoOk \<Rightarrow> (None, append_bytes line created)
         | IoFails e k \<Rightarrow> (Some e, if k = 0 then d else append_bytes (take k line) created))"

subsection \<open>Operations\<close>

record 'n entry_codec =
  entry_to_string :: "'n journal_entry \<Rightarrow> str + str"
  entry_from_slice :: "nat list \<Rightarrow> str + 'n journal_entry"

definition new_journal :: "str option \<Rightarrow> 'n journal" where
  "new_journal path = \<lparr>j_entries = [], j_path = path, j_bytes = 0, j_last_line_start = None\<rparr>"

definition validate_sequence :: "'n journal_entry list \<Rightarrow> 'n journal_entry \<Rightarrow> journal_error option" where
  "validate_sequence entries e =
     (let expected = of_nat (length entries)
      in if entry_seq e \<noteq> expected then Some (JournalSequence (length entries) expected (entry_seq e)) else None)"

definition is_ascii_whitespace :: "nat \<Rightarrow> bool" where
  "is_ascii_whitespace b \<longleftrightarrow> b \<in> {32, 9, 10, 12, 13}"

definition push_entry ::
  "'n journal_entry list \<Rightarrow> 'n journal_entry \<Rightarrow> journal_error + 'n journal_entry list" where
  "push_entry entries e =
     (if length entries \<ge> MAX_JOURNAL_ENTRIES
      then Inl (UnsafeRestore (of_nat MAX_JOURNAL_ENTRIES) (lit ''too many journal entries''))
      else case validate_sequence entries e of Some err \<Rightarrow> Inl err | None \<Rightarrow> Inr (entries @ [e]))"

lemma dropWhile_shorter: "dropWhile P xs = y # ys \<Longrightarrow> length ys < length xs"
  using length_dropWhile_le [of P xs] by simp

text \<open>The last part of the file, which has no line feed.\<close>

definition load_tail ::
  "'n entry_codec \<Rightarrow> io_result \<Rightarrow> disk \<Rightarrow> nat list \<Rightarrow> nat \<Rightarrow> u64 \<Rightarrow> 'n journal_entry list \<Rightarrow> u64 option \<Rightarrow>
   (journal_error + 'n journal_entry list \<times> u64 \<times> u64 option) \<times> disk" where
  "load_tail C io d tail offset bytes entries lls =
     (let drop_tail =
            (case truncate_tail io offset d of
               (Some e, d') \<Rightarrow> (Inl (JournalIo e), d')
             | (None, d') \<Rightarrow> (Inr (entries, of_nat offset, lls), d'))
      in if list_all is_ascii_whitespace tail then drop_tail
         else case entry_from_slice C tail of
             Inl _ \<Rightarrow> drop_tail
           | Inr e \<Rightarrow>
               (case push_entry entries e of
                  Inl err \<Rightarrow> (Inl err, d)
                | Inr entries' \<Rightarrow>
                    (case terminate_line io d of
                       (Some err, d') \<Rightarrow> (Inl (JournalIo err), d')
                     | (None, d') \<Rightarrow> (Inr (entries', saturating_add bytes 1, Some (of_nat offset)), d'))))"

function load_loop ::
  "'n entry_codec \<Rightarrow> io_result \<Rightarrow> disk \<Rightarrow> nat list \<Rightarrow> nat \<Rightarrow> nat \<Rightarrow> u64 \<Rightarrow> 'n journal_entry list \<Rightarrow> u64 option \<Rightarrow>
   (journal_error + 'n journal_entry list \<times> u64 \<times> u64 option) \<times> disk" where
  "load_loop C io d rest offset line_number bytes entries lls =
     (if rest = [] then (Inr (entries, bytes, lls), d)
      else case dropWhile (\<lambda>b. b \<noteq> 10) rest of
          [] \<Rightarrow> load_tail C io d rest offset bytes entries lls
        | _ # rest' \<Rightarrow>
            let line = takeWhile (\<lambda>b. b \<noteq> 10) rest;
                offset' = offset + length line + 1
            in if list_all is_ascii_whitespace line
               then load_loop C io d rest' offset' (Suc line_number) bytes entries lls
               else case entry_from_slice C line of
                   Inl err \<Rightarrow> (Inl (JournalParse (Suc line_number) err), d)
                 | Inr e \<Rightarrow>
                     (case push_entry entries e of
                        Inl err \<Rightarrow> (Inl err, d)
                      | Inr entries' \<Rightarrow>
                          load_loop C io d rest' offset' (Suc line_number) bytes entries' (Some (of_nat offset))))"
  by pat_completeness auto
termination
  by (relation "measure (\<lambda>(C, io, d, rest, offset, line_number, bytes, entries, lls). length rest)")
    (simp_all add: dropWhile_shorter)

declare load_loop.simps [simp del]

definition load_journal ::
  "'n entry_codec \<Rightarrow> journal_reads \<Rightarrow> io_result \<Rightarrow> str \<Rightarrow> disk \<Rightarrow> (journal_error + 'n journal) \<times> disk" where
  "load_journal C R io path d =
     (let go = (\<lambda>content.
            case load_loop C io d content 0 0 (of_nat (length content)) [] None of
              (Inl e, d') \<Rightarrow> (Inl e, d')
            | (Inr (entries, bytes, lls), d') \<Rightarrow>
                (Inr \<lparr>j_entries = entries, j_path = Some path, j_bytes = bytes, j_last_line_start = lls\<rparr>, d'))
      in case read_journal_bounded path R of
           Inr content \<Rightarrow> go content
         | Inl (IoError KindNotFound msg) \<Rightarrow> go []
         | Inl (IoError KindInvalidData msg) \<Rightarrow> (Inl (UnsafeRestore MAX_JOURNAL_BYTES msg), d)
         | Inl e \<Rightarrow> (Inl (JournalIo e), d))"

definition agent_reservation_count :: "'n journal \<Rightarrow> u64" where
  "agent_reservation_count j =
     of_nat (length (filter (\<lambda>e. entry_kind e = lit ''spawn_agent'') (j_entries j)))"

definition covers :: "'n journal \<Rightarrow> u64 \<Rightarrow> bool" where
  "covers j seq \<longleftrightarrow> unat seq < length (j_entries j)"

definition replay :: "'n journal \<Rightarrow> u64 \<Rightarrow> str \<Rightarrow> str \<Rightarrow> journal_error + 'n jvalue option" where
  "replay j seq kind req_hash =
     (if unat seq < length (j_entries j)
      then let e = j_entries j ! unat seq
           in if entry_seq e \<noteq> seq \<or> entry_kind e \<noteq> kind \<or> entry_req_hash e \<noteq> req_hash
              then Inl (JournalDivergence seq kind)
              else Inr (Some (entry_result e))
      else Inr None)"

text \<open>
  \<open>now\<close> is the clock's reading in milliseconds, already 0 where the clock is before the epoch. On an
  error the journal is as it was; the file may hold part of the line.
\<close>

definition record_entry ::
  "'n entry_codec \<Rightarrow> io_result \<Rightarrow> u64 \<Rightarrow> 'n journal \<Rightarrow> disk \<Rightarrow> u64 \<Rightarrow> str \<Rightarrow> str \<Rightarrow> 'n jvalue \<Rightarrow>
   journal_error option \<times> 'n journal \<times> disk" where
  "record_entry C io now j d seq kind req_hash result =
     (let e = \<lparr>entry_seq = seq, entry_kind = kind, entry_req_hash = req_hash, entry_result = result, entry_at_ms = now\<rparr>
      in case validate_sequence (j_entries j) e of
           Some err \<Rightarrow> (Some err, j, d)
         | None \<Rightarrow>
             (case entry_to_string C e of
                Inl msg \<Rightarrow> (Some (JournalIo (IoError KindOther msg)), j, d)
              | Inr s \<Rightarrow>
                  let line = s @ [10]; len = of_nat (str_len line)
                  in if saturating_add (j_bytes j) len > MAX_JOURNAL_BYTES
                     then (Some (JournalFull seq MAX_JOURNAL_BYTES), j, d)
                     else case (if j_path j = None then (None, d) else append_line io (utf8_bytes line) d) of
                         (Some err, d') \<Rightarrow> (Some (JournalIo err), j, d')
                       | (None, d') \<Rightarrow>
                           (None,
                            j\<lparr>j_last_line_start := Some (j_bytes j),
                              j_bytes := saturating_add (j_bytes j) len,
                              j_entries := j_entries j @ [e]\<rparr>,
                            d')))"

definition prune_trailing_host_error ::
  "io_result \<Rightarrow> 'n journal \<Rightarrow> disk \<Rightarrow> str \<Rightarrow> (journal_error + bool) \<times> 'n journal \<times> disk" where
  "prune_trailing_host_error io j d failure_detail =
     (if j_entries j = [] then (Inr False, j, d)
      else case Option.bind (value_get (entry_result (List.last (j_entries j))) HOST_ERROR_KEY) value_as_str of
          None \<Rightarrow> (Inr False, j, d)
        | Some message \<Rightarrow>
            if message = [] \<or> \<not> contains failure_detail message then (Inr False, j, d)
            else case j_last_line_start j of
                None \<Rightarrow>
                  (Inl (JournalIo (IoError KindOther
                     (lit ''journal cannot locate the trailing entry's byte offset''))), j, d)
              | Some new_len \<Rightarrow>
                  (case (if j_path j = None then (None, d) else truncate_tail io (unat new_len) d) of
                     (Some err, d') \<Rightarrow> (Inl (JournalIo err), j, d')
                   | (None, d') \<Rightarrow>
                       (Inr True,
                        j\<lparr>j_entries := butlast (j_entries j), j_bytes := new_len, j_last_line_start := None\<rparr>,
                        d')))"

subsection \<open>What the file holds\<close>

definition entry_line :: "'n entry_codec \<Rightarrow> 'n journal_entry \<Rightarrow> nat list" where
  "entry_line C e = (case entry_to_string C e of Inl _ \<Rightarrow> [] | Inr s \<Rightarrow> utf8_bytes s)"

definition journal_text :: "'n entry_codec \<Rightarrow> 'n journal_entry list \<Rightarrow> nat list" where
  "journal_text C es = concat (map (\<lambda>e. entry_line C e @ [10]) es)"

text \<open>
  What the code relies on of \<^verbatim>\<open>serde_json\<close> for an entry: it prints to one line that is not blank and
  parses back to it, and no proper prefix of the line parses, a JSON object being complete only at
  its closing brace. The line is a Rust string, so its length fits an \<^verbatim>\<open>isize\<close>.
\<close>

definition codec_ok :: "'n entry_codec \<Rightarrow> 'n journal_entry \<Rightarrow> bool" where
  "codec_ok C e \<longleftrightarrow>
     \<not> isl (entry_to_string C e) \<and> length (entry_line C e) < 2 ^ 63 \<and> 10 \<notin> set (entry_line C e) \<and>
     \<not> list_all is_ascii_whitespace (entry_line C e) \<and>
     entry_from_slice C (entry_line C e) = Inr e \<and>
     list_all (\<lambda>n. isl (entry_from_slice C (take n (entry_line C e)))) [0..<length (entry_line C e)]"

fun dense_from :: "nat \<Rightarrow> 'n journal_entry list \<Rightarrow> bool" where
  "dense_from n [] \<longleftrightarrow> True"
| "dense_from n (e # es) \<longleftrightarrow> entry_seq e = of_nat n \<and> dense_from (Suc n) es"

text \<open>How many of the entries are complete in the first \<open>k\<close> bytes; a last line feed may be missing.\<close>

fun durable :: "'n entry_codec \<Rightarrow> 'n journal_entry list \<Rightarrow> nat \<Rightarrow> nat" where
  "durable C [] k = 0"
| "durable C (e # es) k =
     (let l = length (entry_line C e) in if k < l then 0 else Suc (durable C es (k - Suc l)))"

lemma journal_text_simps [simp]:
  "journal_text C [] = []"
  "journal_text C (e # es) = entry_line C e @ 10 # journal_text C es"
  "journal_text C (es @ fs) = journal_text C es @ journal_text C fs"
  by (simp_all add: journal_text_def)

lemma length_journal_text: "length es \<le> length (journal_text C es)"
  by (induction es) auto

lemma dense_from_append [simp]: "dense_from n (es @ fs) \<longleftrightarrow> dense_from n es \<and> dense_from (n + length es) fs"
  by (induction es arbitrary: n) simp_all

lemma dense_from_nth: "dense_from n es \<Longrightarrow> i < length es \<Longrightarrow> entry_seq (es ! i) = of_nat (n + i)"
  by (induction es arbitrary: n i) (auto simp: nth_Cons split: nat.split)

lemma dense_from_take: "dense_from n es \<Longrightarrow> dense_from n (take m es)"
  by (metis append_take_drop_id dense_from_append)

lemma durable_le: "durable C es k \<le> length es"
  by (induction es arbitrary: k) (auto simp: Let_def)

lemma not_isl_iff: "\<not> isl x \<longleftrightarrow> (\<exists>s. x = Inr s)"
  by (cases x) simp_all

lemma codec_okD:
  assumes "codec_ok C e"
  shows "10 \<notin> set (entry_line C e)" and "\<not> list_all is_ascii_whitespace (entry_line C e)"
    and "entry_from_slice C (entry_line C e) = Inr e" and "entry_line C e \<noteq> []"
    and "k < length (entry_line C e) \<Longrightarrow> \<exists>err. entry_from_slice C (take k (entry_line C e)) = Inl err"
    and "\<exists>s. entry_to_string C e = Inr s" and "length (entry_line C e) < 2 ^ 63"
  using assms unfolding codec_ok_def
  by (auto simp: list_all_iff not_isl_iff isl_def [of "entry_from_slice _ _"] elim!: ballE [where x = k])

lemma durable_0: "list_all (codec_ok C) es \<Longrightarrow> durable C es 0 = 0"
  by (cases es) (auto dest: codec_okD(4))

lemma durable_all: "length (journal_text C es) \<le> Suc k \<Longrightarrow> durable C es k = length es"
proof (induction es arbitrary: k)
  case (Cons e es)
  then have "length (journal_text C es) \<le> Suc (k - Suc (length (entry_line C e)))" by auto
  with Cons show ?case by (auto simp: Let_def)
qed simp

lemma durable_iff:
  "list_all (codec_ok C) es \<Longrightarrow> i < length es \<Longrightarrow>
   i < durable C es k \<longleftrightarrow> length (journal_text C (take i es)) + length (entry_line C (es ! i)) \<le> k"
proof (induction es arbitrary: i k)
  case (Cons e es)
  show ?case
  proof (cases i)
    case (Suc i')
    obtain n where pos: "length (entry_line C (es ! i')) = Suc n"
      using Cons.prems Suc codec_okD(4) [of C "es ! i'"] by (auto simp: list_all_iff dest!: spec [of _ "es ! i'"] simp: neq_Nil_conv)
    have "i' < durable C es (k - Suc (length (entry_line C e))) \<longleftrightarrow>
        length (journal_text C (take i' es)) + length (entry_line C (es ! i')) \<le> k - Suc (length (entry_line C e))"
      using Cons.prems Suc by (intro Cons.IH) simp_all
    then show ?thesis using Suc pos by (auto simp: Let_def)
  qed (simp add: Let_def)
qed simp

lemma durable_ge:
  assumes "list_all (codec_ok C) es" and "i \<le> length es" and "length (journal_text C (take i es)) \<le> Suc k"
  shows "i \<le> durable C es k"
proof (cases i)
  case (Suc i')
  then show ?thesis
    using assms durable_iff [of C es i' k] by (simp add: take_Suc_conv_app_nth)
qed simp

lemma durable_text_le:
  "list_all (codec_ok C) es \<Longrightarrow> length (journal_text C (take (durable C es k) es)) \<le> Suc k"
proof (cases "durable C es k")
  case (Suc m)
  assume ok: "list_all (codec_ok C) es"
  have m: "m < length es" using Suc durable_le [of C es k] by simp
  have "length (journal_text C (take m es)) + length (entry_line C (es ! m)) \<le> k"
    using durable_iff [OF ok m, of k] Suc by simp
  then show ?thesis using m by (simp add: Suc take_Suc_conv_app_nth)
qed simp

subsection \<open>Reading back\<close>

lemma no_newline: "10 \<notin> set l \<Longrightarrow> dropWhile (\<lambda>b. b \<noteq> (10 :: nat)) l = []"
  by (induction l) auto

lemma split_at_newline:
  "10 \<notin> set l \<Longrightarrow> dropWhile (\<lambda>b. b \<noteq> (10 :: nat)) (l @ 10 # r) = 10 # r"
  "10 \<notin> set l \<Longrightarrow> takeWhile (\<lambda>b. b \<noteq> (10 :: nat)) (l @ 10 # r) = l"
  by (induction l) auto

lemma push_entry_next:
  "length entries < MAX_JOURNAL_ENTRIES \<Longrightarrow> entry_seq e = of_nat (length entries) \<Longrightarrow>
   push_entry entries e = Inr (entries @ [e])"
  by (simp add: push_entry_def validate_sequence_def)

lemma load_loop_line:
  assumes "codec_ok C e" and "entry_seq e = of_nat (length pre)" and "length pre < MAX_JOURNAL_ENTRIES"
  shows "load_loop C io d (entry_line C e @ 10 # r) off ln bytes pre lls =
         load_loop C io d r (off + length (entry_line C e) + 1) (Suc ln) bytes (pre @ [e]) (Some (of_nat off))"
  by (subst load_loop.simps)
    (use assms in \<open>simp add: split_at_newline codec_okD push_entry_next Let_def\<close>)

lemma load_loop_whole_tail:
  assumes "codec_ok C e" and "entry_seq e = of_nat (length pre)" and "length pre < MAX_JOURNAL_ENTRIES"
  shows "load_loop C IoOk (Some (RegularFile b)) (entry_line C e) off ln bytes pre lls =
         (Inr (pre @ [e], saturating_add bytes 1, Some (of_nat off)), Some (RegularFile (b @ [10])))"
  by (subst load_loop.simps)
    (use assms in \<open>simp add: no_newline load_tail_def codec_okD push_entry_next terminate_line_def append_bytes_def Let_def\<close>)

lemma load_loop_torn_tail:
  assumes "codec_ok C e" and "0 < k" and "k < length (entry_line C e)"
  shows "load_loop C IoOk (Some (RegularFile (b @ take k (entry_line C e)))) (take k (entry_line C e))
           (length b) ln bytes pre lls =
         (Inr (pre, of_nat (length b), lls), Some (RegularFile b))"
proof -
  obtain err where err: "entry_from_slice C (take k (entry_line C e)) = Inl err"
    using codec_okD(5) [OF assms(1,3)] by blast
  have "10 \<notin> set (take k (entry_line C e))"
    using codec_okD(1) [OF assms(1)] by (auto dest: in_set_takeD)
  then have no: "dropWhile (\<lambda>b. b \<noteq> 10) (take k (entry_line C e)) = []" by (rule no_newline)
  have ne: "take k (entry_line C e) \<noteq> []" using assms by auto
  show ?thesis
    by (subst load_loop.simps, subst no, subst if_not_P [OF ne])
      (simp add: load_tail_def err truncate_tail_def set_len_def Let_def)
qed

lemma saturating_add_of_nat:
  "a + b < 2 ^ 64 \<Longrightarrow> saturating_add (of_nat a) (of_nat b) = of_nat (a + b)"
  by (intro word_unat_eq_iff [THEN iffD2]) (simp add: unat_saturating_add unat_of_nat flip: of_nat_add)

text \<open>The loop on the first \<open>k\<close> bytes of a file of good entries.\<close>

lemma load_loop_prefix:
  assumes "list_all (codec_ok C) es" and "dense_from (length pre) es"
    and "length pre + length es \<le> MAX_JOURNAL_ENTRIES"
    and "length front + length (journal_text C es) < 2 ^ 64"
  shows "load_loop C IoOk (Some (RegularFile (front @ take k (journal_text C es)))) (take k (journal_text C es))
           (length front) ln (of_nat (length front + length (take k (journal_text C es)))) pre lls =
         (let m = durable C es k
          in (Inr (pre @ take m es, of_nat (length front + length (journal_text C (take m es))),
                   if m = 0 then lls else Some (of_nat (length front + length (journal_text C (take (m - 1) es))))),
              Some (RegularFile (front @ journal_text C (take m es)))))"
  using assms
proof (induction es arbitrary: pre front k ln lls)
  case Nil
  then show ?case by (subst load_loop.simps) simp
next
  case (Cons e es)
  let ?L = "entry_line C e" and ?l = "length (entry_line C e)"
  have e: "codec_ok C e" "entry_seq e = of_nat (length pre)" "length pre < MAX_JOURNAL_ENTRIES"
    using Cons.prems by auto
  have l: "0 < ?l" using codec_okD(4) [OF e(1)] by simp
  consider "k = 0" | "0 < k" "k < ?l" | "k = ?l" | "?l < k" by linarith
  then show ?case
  proof cases
    case 1
    then show ?thesis using l by (subst load_loop.simps) simp
  next
    case 2
    then show ?thesis using load_loop_torn_tail [OF e(1) 2] by (simp add: Let_def)
  next
    case 3
    have "durable C es 0 = 0" using Cons.prems by (intro durable_0) simp
    moreover have "saturating_add (of_nat (length front + ?l)) 1 = of_nat (length front + ?l + 1)"
      using saturating_add_of_nat [of "length front + ?l" 1] Cons.prems by simp
    ultimately show ?thesis
      using 3 l by (simp add: Let_def load_loop_whole_tail [OF e] add.commute add.left_commute)
  next
    case 4
    let ?k = "k - Suc ?l" and ?front = "front @ ?L @ [10]"
    have take_k: "take k (journal_text C (e # es)) = ?L @ 10 # take ?k (journal_text C es)"
      using 4 by (simp add: take_Cons' )
    have IH: "load_loop C IoOk (Some (RegularFile (?front @ take ?k (journal_text C es)))) (take ?k (journal_text C es))
           (length ?front) (Suc ln) (of_nat (length ?front + length (take ?k (journal_text C es)))) (pre @ [e]) (Some (of_nat (length front))) =
         (let m = durable C es ?k
          in (Inr ((pre @ [e]) @ take m es, of_nat (length ?front + length (journal_text C (take m es))),
                   if m = 0 then Some (of_nat (length front)) else Some (of_nat (length ?front + length (journal_text C (take (m - 1) es))))),
              Some (RegularFile (?front @ journal_text C (take m es)))))"
      using Cons.prems by (intro Cons.IH) simp_all
    show ?thesis
      unfolding take_k load_loop_line [OF e]
      using IH 4 by (auto simp: Let_def add.assoc take_Cons' split: if_splits)
  qed
qed

subsection \<open>The invariant and what keeps it\<close>

definition journal_ok :: "'n entry_codec \<Rightarrow> 'n journal \<Rightarrow> disk \<Rightarrow> bool" where
  "journal_ok C j d \<longleftrightarrow>
     list_all (codec_ok C) (j_entries j) \<and> dense_from 0 (j_entries j) \<and>
     j_bytes j = of_nat (length (journal_text C (j_entries j))) \<and>
     length (journal_text C (j_entries j)) \<le> unat MAX_JOURNAL_BYTES \<and>
     (case j_last_line_start j of
        None \<Rightarrow> True
      | Some p \<Rightarrow> j_entries j \<noteq> [] \<and> p = of_nat (length (journal_text C (butlast (j_entries j))))) \<and>
     (j_path j = None \<or> d = Some (RegularFile (journal_text C (j_entries j))) \<or> j_entries j = [] \<and> d = None)"

lemma max_bytes [simp]: "unat MAX_JOURNAL_BYTES = 67108864" "MAX_JOURNAL_BYTES = 67108864"
  by (simp_all add: MAX_JOURNAL_BYTES_def)

lemma journal_ok_new: "journal_ok C (new_journal path) None"
  by (simp add: journal_ok_def new_journal_def)

lemma journal_text_take_le: "length (journal_text C (take m es)) \<le> length (journal_text C es)"
  by (metis append_take_drop_id journal_text_simps(3) length_append le_add1)

lemma read_quiet:
  "length b \<le> 67108864 \<Longrightarrow> read_journal_bounded path (quiet_reads (Some (RegularFile b))) = Inr b"
  by (simp add: read_journal_bounded_def quiet_reads_def Let_def word_less_nat_alt unat_of_nat
      saturating_add_def word_le_nat_alt)

lemma load_prefix:
  assumes "list_all (codec_ok C) es" and "dense_from 0 es" and "length es \<le> MAX_JOURNAL_ENTRIES"
    and "length (journal_text C es) \<le> 67108864"
  shows "\<exists>j'. load_journal C (quiet_reads (Some (RegularFile (take k (journal_text C es))))) IoOk path
                (Some (RegularFile (take k (journal_text C es)))) =
              (Inr j', Some (RegularFile (journal_text C (take (durable C es k) es)))) \<and>
            j_path j' = Some path \<and> j_entries j' = take (durable C es k) es \<and>
            journal_ok C j' (Some (RegularFile (journal_text C (take (durable C es k) es))))"
proof -
  let ?m = "durable C es k"
  have "length ([] :: nat list) + length (journal_text C es) < 2 ^ 64" using assms by simp
  from load_loop_prefix [of C es "[]" "[]" k 0 None, OF assms(1) _ _ this] assms
  have loop: "load_loop C IoOk (Some (RegularFile (take k (journal_text C es)))) (take k (journal_text C es)) 0 0
      (of_nat (length (take k (journal_text C es)))) [] None =
      (Inr (take ?m es, of_nat (length (journal_text C (take ?m es))),
        if ?m = 0 then None else Some (of_nat (length (journal_text C (take (?m - 1) es))))),
       Some (RegularFile (journal_text C (take ?m es))))"
    by (simp add: Let_def)
  have "butlast (take ?m es) = take (?m - 1) es"
    using durable_le [of C es k] by (simp add: butlast_take)
  moreover have "list_all (codec_ok C) (take ?m es)"
    using assms(1) by (auto simp: list_all_iff dest: in_set_takeD)
  moreover have "length (journal_text C (take ?m es)) \<le> 67108864"
    using journal_text_take_le [of C ?m es] assms(4) by simp
  moreover have "?m \<noteq> 0 \<Longrightarrow> es \<noteq> []" by auto
  ultimately show ?thesis
    using assms(2,4) loop
    by (simp add: load_journal_def read_quiet journal_ok_def dense_from_take)
qed

text \<open>Recording, with the sizes as numbers: the branches of \<open>record_entry\<close> under the invariant.\<close>

lemma record_entry_eq:
  assumes ok: "journal_ok C j d"
    and e: "e = \<lparr>entry_seq = seq, entry_kind = kind, entry_req_hash = h, entry_result = v, entry_at_ms = now\<rparr>"
    and codec: "codec_ok C e"
  shows "record_entry C io now j d seq kind h v =
    (if seq \<noteq> of_nat (length (j_entries j))
     then (Some (JournalSequence (length (j_entries j)) (of_nat (length (j_entries j))) seq), j, d)
     else if 67108864 < length (journal_text C (j_entries j @ [e])) then (Some (JournalFull seq 67108864), j, d)
     else case (if j_path j = None then (None, d) else append_line io (entry_line C e @ [10]) d) of
         (Some err, d') \<Rightarrow> (Some (JournalIo err), j, d')
       | (None, d') \<Rightarrow>
           (None, j\<lparr>j_last_line_start := Some (j_bytes j),
                    j_bytes := of_nat (length (journal_text C (j_entries j @ [e]))),
                    j_entries := j_entries j @ [e]\<rparr>, d'))"
proof -
  let ?n = "length (journal_text C (j_entries j))" and ?l = "Suc (length (entry_line C e))"
  obtain s where s: "entry_to_string C e = Inr s" using codec_okD(6) [OF codec] by blast
  have line: "utf8_bytes (s @ [10]) = entry_line C e @ [10]"
    by (simp add: entry_line_def s utf8_char_def)
  have len: "str_len (s @ [10]) = ?l"
    unfolding length_utf8_bytes [symmetric] line by simp
  have small: "?n + ?l < 2 ^ 64"
    using ok codec_okD(7) [OF codec] by (simp add: journal_ok_def)
  have sum: "saturating_add (j_bytes j) (of_nat ?l) = of_nat (?n + ?l)"
    using ok saturating_add_of_nat [OF small] by (simp add: journal_ok_def)
  have full: "MAX_JOURNAL_BYTES < (of_nat (?n + ?l) :: u64) \<longleftrightarrow> 67108864 < ?n + ?l"
    unfolding word_less_nat_alt using small by (simp only: unat_of_nat max_bytes) simp
  have seq: "entry_seq e = seq" by (simp add: e)
  have total: "length (journal_text C (j_entries j @ [e])) = ?n + ?l" by simp
  show ?thesis
    unfolding record_entry_def Let_def e [symmetric] s sum.case line len sum full total
      validate_sequence_def seq by (simp only: if_distrib [where f = "case_option _ _"] option.case max_bytes)
qed

lemma append_line_ok:
  "d = Some (RegularFile b) \<or> b = [] \<and> d = None \<Longrightarrow>
   append_line io line d =
     (case io of
        IoOk \<Rightarrow> (None, Some (RegularFile (b @ line)))
      | IoFails err k \<Rightarrow> (Some err, if k = 0 then d else Some (RegularFile (b @ take k line))))"
  by (auto simp: append_line_def append_bytes_def split: io_result.split)

lemma record_ok:
  assumes "journal_ok C j d" and "codec_ok C e"
    and "e = \<lparr>entry_seq = seq, entry_kind = kind, entry_req_hash = h, entry_result = v, entry_at_ms = now\<rparr>"
    and "record_entry C io now j d seq kind h v = (None, j', d')"
  shows "journal_ok C j' d'" and "j_entries j' = j_entries j @ [e]" and "j_path j' = j_path j"
    and "seq = of_nat (length (j_entries j))"
proof -
  note rec = assms(4) [unfolded record_entry_eq [OF assms(1,3,2)]]
  show "j_entries j' = j_entries j @ [e]" and "j_path j' = j_path j" and "seq = of_nat (length (j_entries j))"
    using rec by (auto split: if_splits option.splits prod.splits)
  have "d = Some (RegularFile (journal_text C (j_entries j))) \<or> journal_text C (j_entries j) = [] \<and> d = None"
    if "j_path j \<noteq> None"
    using assms(1) that by (auto simp: journal_ok_def)
  note app = append_line_ok [OF this]
  show "journal_ok C j' d'"
    using rec assms(1-3)
    by (cases "j_path j"; cases io) (auto simp: journal_ok_def app split: if_splits option.splits prod.splits)
qed

lemma record_failed:
  assumes "journal_ok C j d" and "codec_ok C e"
    and "e = \<lparr>entry_seq = seq, entry_kind = kind, entry_req_hash = h, entry_result = v, entry_at_ms = now\<rparr>"
    and "record_entry C io now j d seq kind h v = (Some err, j', d')"
  shows "j' = j" and "d' = d \<or> (\<exists>k. d' = Some (RegularFile (journal_text C (j_entries j) @ take k (entry_line C e @ [10]))) \<and>
      length (journal_text C (j_entries j @ [e])) \<le> 67108864 \<and> seq = of_nat (length (j_entries j)))"
proof -
  note rec = assms(4) [unfolded record_entry_eq [OF assms(1,3,2)]]
  show "j' = j" using rec by (auto split: if_splits option.splits prod.splits)
  have "d = Some (RegularFile (journal_text C (j_entries j))) \<or> journal_text C (j_entries j) = [] \<and> d = None"
    if "j_path j \<noteq> None"
    using assms(1) that by (auto simp: journal_ok_def)
  note app = append_line_ok [OF this]
  show "d' = d \<or> (\<exists>k. d' = Some (RegularFile (journal_text C (j_entries j) @ take k (entry_line C e @ [10]))) \<and>
      length (journal_text C (j_entries j @ [e])) \<le> 67108864 \<and> seq = of_nat (length (j_entries j)))"
    using rec by (cases "j_path j"; cases io) (auto simp: app not_less split: if_splits option.splits prod.splits)
qed

lemma prune_ok:
  assumes "journal_ok C j d" and "prune_trailing_host_error IoOk j d detail = (r, j', d')"
  shows "journal_ok C j' d'"
    and "j_entries j' = (if r = Inr True then butlast (j_entries j) else j_entries j)"
proof -
  show "j_entries j' = (if r = Inr True then butlast (j_entries j) else j_entries j)"
    using assms(2) by (auto simp: prune_trailing_host_error_def split: if_splits option.splits prod.splits)
  show "journal_ok C j' d'"
  proof (cases "r = Inr True")
    case True
    obtain p where p: "j_last_line_start j = Some p" and j': "j' = j\<lparr>j_entries := butlast (j_entries j), j_bytes := p, j_last_line_start := None\<rparr>"
      and d': "d' = (if j_path j = None then d else set_len (unat p) d)"
      using assms(2) True
      by (auto simp: prune_trailing_host_error_def truncate_tail_def split: if_splits option.splits)
    obtain es e where es: "j_entries j = es @ [e]"
      using assms(1) p by (cases "j_entries j" rule: rev_cases) (auto simp: journal_ok_def)
    then have "unat p = length (journal_text C es)"
      using assms(1) p by (auto simp: journal_ok_def unat_of_nat)
    then show ?thesis
      using assms(1) p es by (auto simp: journal_ok_def j' d' set_len_def)
  next
    case False
    then have "j' = j \<and> d' = d"
      using assms(2)
      by (auto simp: prune_trailing_host_error_def truncate_tail_def split: if_splits option.splits)
    then show ?thesis using assms(1) by simp
  qed
qed

subsection \<open>Properties\<close>

text \<open>A codec that knows one entry, for concrete instances.\<close>

definition one_entry_codec :: "'n journal_entry \<Rightarrow> 'n entry_codec" where
  "one_entry_codec e =
     \<lparr>entry_to_string = (\<lambda>e'. if e' = e then Inr (lit ''{}'') else Inl []),
      entry_from_slice = (\<lambda>bs. if bs = lit ''{}'' then Inr e else Inl [])\<rparr>"

lemma one_entry_line [simp]: "entry_line (one_entry_codec e) e = [123, 125]"
  by (simp add: entry_line_def one_entry_codec_def utf8_char_def)

lemma one_entry_codec_ok: "codec_ok (one_entry_codec e) e"
proof -
  have "[0..<2] = [0, 1 :: nat]" by (simp add: upt_rec)
  then show ?thesis
    by (simp add: codec_ok_def is_ascii_whitespace_def) (simp add: one_entry_codec_def)
qed

lemma load_missing:
  "load_journal C (quiet_reads None) IoOk path None = (Inr (new_journal (Some path)), None)"
  by (simp add: load_journal_def read_journal_bounded_def quiet_reads_def load_loop.simps new_journal_def Let_def)

text \<open>
  C5: A crash loses only the torn end of the journal. Whatever number of bytes of a sound journal's
  file is left, it loads; the entries are those whose text is complete in these bytes, in order; and
  the journal with the repaired file is sound again, so records go on behind them.
\<close>

theorem crash_keeps_a_prefix:
  assumes "journal_ok C j (Some (RegularFile b))" and "j_path j \<noteq> None"
    and "length (j_entries j) \<le> MAX_JOURNAL_ENTRIES"
  shows "\<exists>m j' d'. load_journal C (quiet_reads (Some (RegularFile (take k b)))) IoOk path (Some (RegularFile (take k b))) =
      (Inr j', d') \<and>
    j_entries j' = take m (j_entries j) \<and> journal_ok C j' d' \<and>
    (\<forall>i < length (j_entries j).
       i < m \<longleftrightarrow> length (journal_text C (take i (j_entries j))) + length (entry_line C (j_entries j ! i)) \<le> k)"
proof -
  have b: "b = journal_text C (j_entries j)" using assms(1,2) by (auto simp: journal_ok_def)
  have es: "list_all (codec_ok C) (j_entries j)" "dense_from 0 (j_entries j)" "length b \<le> 67108864"
    using assms(1) by (simp_all add: journal_ok_def b)
  obtain j' where "load_journal C (quiet_reads (Some (RegularFile (take k b)))) IoOk path (Some (RegularFile (take k b))) =
      (Inr j', Some (RegularFile (journal_text C (take (durable C (j_entries j) k) (j_entries j)))))"
    "j_entries j' = take (durable C (j_entries j) k) (j_entries j)"
    "journal_ok C j' (Some (RegularFile (journal_text C (take (durable C (j_entries j) k) (j_entries j)))))"
    using load_prefix [of C "j_entries j" k path, folded b, OF es(1,2) assms(3) es(3)] by blast
  then show ?thesis using durable_iff [OF es(1)] by blast
qed

definition sample_entry :: "nat journal_entry" where
  "sample_entry = \<lparr>entry_seq = 0, entry_kind = lit ''budget'', entry_req_hash = [], entry_result = VNull, entry_at_ms = 7\<rparr>"

definition journal_of :: "'n journal_entry \<Rightarrow> 'n journal" where
  "journal_of e = \<lparr>j_entries = [e], j_path = Some (lit ''/j''), j_bytes = 3, j_last_line_start = Some 0\<rparr>"

lemma journal_of_ok:
  "entry_seq e = 0 \<Longrightarrow> journal_ok (one_entry_codec e) (journal_of e) (Some (RegularFile [123, 125, 10]))"
  using one_entry_codec_ok [of e] by (simp add: journal_ok_def journal_of_def)

theorem crash_keeps_a_prefix_witness:
  "\<exists>m j' d'. load_journal (one_entry_codec sample_entry) (quiet_reads (Some (RegularFile (take 1 [123, 125, 10])))) IoOk
      (lit ''/j'') (Some (RegularFile (take 1 [123, 125, 10]))) = (Inr j', d') \<and>
    j_entries j' = take m (j_entries (journal_of sample_entry)) \<and> journal_ok (one_entry_codec sample_entry) j' d' \<and>
    (\<forall>i < length (j_entries (journal_of sample_entry)).
       i < m \<longleftrightarrow> length (journal_text (one_entry_codec sample_entry) (take i (j_entries (journal_of sample_entry)))) +
                length (entry_line (one_entry_codec sample_entry) (j_entries (journal_of sample_entry) ! i)) \<le> 1)"
  by (rule crash_keeps_a_prefix [OF journal_of_ok])
    (simp_all add: journal_of_def MAX_JOURNAL_ENTRIES_def, simp add: sample_entry_def)

text \<open>
  C6: Recording is atomic. Whatever the outcome of the append, success or a failure after any number of
  bytes, loading the file afterwards gives the old entries or the old ones with the new one behind; after
  a success it gives the new one, and after a failure the journal in memory is unchanged.
\<close>

theorem recording_is_atomic:
  assumes ok: "journal_ok C j d" and path: "j_path j = Some path" and codec: "codec_ok C e"
    and e: "e = \<lparr>entry_seq = seq, entry_kind = kind, entry_req_hash = h, entry_result = v, entry_at_ms = now\<rparr>"
    and len: "length (j_entries j) < MAX_JOURNAL_ENTRIES"
    and rec: "record_entry C io now j d seq kind h v = (err, j', d')"
  shows "\<exists>j2 d2. load_journal C (quiet_reads d') IoOk path d' = (Inr j2, d2) \<and> journal_ok C j2 d2 \<and>
    (if err = None then j_entries j' = j_entries j @ [e] \<and> j_entries j2 = j_entries j @ [e]
     else j' = j \<and> (j_entries j2 = j_entries j \<or> j_entries j2 = j_entries j @ [e]))"
proof -
  have es: "list_all (codec_ok C) (j_entries j)" "dense_from 0 (j_entries j)"
    "length (journal_text C (j_entries j)) \<le> 67108864"
    using ok by (simp_all add: journal_ok_def)
  have whole: "\<exists>j2 d2. load_journal C (quiet_reads (Some (RegularFile (journal_text C fs)))) IoOk path
      (Some (RegularFile (journal_text C fs))) = (Inr j2, d2) \<and> journal_ok C j2 d2 \<and> j_entries j2 = fs"
    if "list_all (codec_ok C) fs" "dense_from 0 fs" "length fs \<le> MAX_JOURNAL_ENTRIES" "length (journal_text C fs) \<le> 67108864" for fs
    using load_prefix [OF that, of "length (journal_text C fs)" path] durable_all [of C fs "length (journal_text C fs)"] by auto
  show ?thesis
  proof (cases err)
    case None
    note r = record_ok [OF ok codec e rec [unfolded None]]
    have "journal_ok C j' d'" "j_path j' = Some path" "j_entries j' = j_entries j @ [e]" using r path by simp_all
    then show ?thesis
      using whole [of "j_entries j'"] len None by (auto simp: journal_ok_def)
  next
    case (Some x)
    note r = record_failed [OF ok codec e rec [unfolded Some]]
    from r(2) show ?thesis
    proof
      assume "d' = d"
      moreover have "d = Some (RegularFile (journal_text C (j_entries j))) \<or> j_entries j = [] \<and> d = None"
        using ok path by (auto simp: journal_ok_def)
      moreover have "journal_ok C (new_journal (Some path)) None" "j_entries (new_journal (Some path)) = []"
        by (simp_all add: journal_ok_new) (simp add: new_journal_def)
      ultimately show ?thesis
        using whole [OF es(1,2) _ es(3)] len r(1) Some load_missing [of C path] by auto
    next
      assume "\<exists>k. d' = Some (RegularFile (journal_text C (j_entries j) @ take k (entry_line C e @ [10]))) \<and>
        length (journal_text C (j_entries j @ [e])) \<le> 67108864 \<and> seq = of_nat (length (j_entries j))"
      then obtain k where d': "d' = Some (RegularFile (journal_text C (j_entries j) @ take k (entry_line C e @ [10])))"
        and small: "length (journal_text C (j_entries j @ [e])) \<le> 67108864" and seq: "seq = of_nat (length (j_entries j))"
        by blast
      let ?n = "length (journal_text C (j_entries j)) + k" and ?fs = "j_entries j @ [e]"
      have torn: "journal_text C (j_entries j) @ take k (entry_line C e @ [10]) = take ?n (journal_text C ?fs)" by simp
      have fs: "list_all (codec_ok C) ?fs" "dense_from 0 ?fs" "length ?fs \<le> MAX_JOURNAL_ENTRIES"
        using es codec len seq by (simp_all add: e)
      have "length (j_entries j) \<le> durable C ?fs ?n"
        using durable_ge [OF fs(1), of "length (j_entries j)" ?n] by simp
      then have "take (durable C ?fs ?n) ?fs = j_entries j \<or> take (durable C ?fs ?n) ?fs = ?fs"
        using durable_le [of C ?fs ?n] by (cases "durable C ?fs ?n = length (j_entries j)") auto
      then show ?thesis
        using load_prefix [OF fs small, of ?n path] r(1) Some unfolding d' torn by auto
    qed
  qed
qed

theorem recording_is_atomic_witness:
  "\<exists>j2 d2. load_journal (one_entry_codec sample_entry) (quiet_reads (Some (RegularFile [123]))) IoOk (lit ''/j'')
      (Some (RegularFile [123])) = (Inr j2, d2) \<and> journal_ok (one_entry_codec sample_entry) j2 d2 \<and>
    (j_entries j2 = [] \<or> j_entries j2 = [sample_entry])"
proof -
  have "record_entry (one_entry_codec sample_entry) (IoFails (IoError KindOther []) 1) 7 (new_journal (Some (lit ''/j''))) None
      0 (lit ''budget'') [] VNull = (Some (JournalIo (IoError KindOther [])), new_journal (Some (lit ''/j'')), Some (RegularFile [123]))"
    by (subst record_entry_eq [OF journal_ok_new sample_entry_def one_entry_codec_ok])
      (simp add: new_journal_def append_line_def append_bytes_def)
  from recording_is_atomic [OF journal_ok_new _ one_entry_codec_ok sample_entry_def _ this] show ?thesis
    by (simp add: new_journal_def MAX_JOURNAL_ENTRIES_def)
qed

text \<open>
  C35: Taking back a failed call. Over a sound journal the trailing entry is removed exactly when it is
  the failure of a host call whose text is not empty and occurs in the reason the run failed with, and
  the journal still knows where its line begins; then the entry is gone from journal and file, both
  are sound, and the call is live again. Otherwise nothing changes.
\<close>

theorem prune_reopens_the_failed_call:
  assumes ok: "journal_ok C j d" and prune: "prune_trailing_host_error IoOk j d detail = (r, j', d')"
  shows "journal_ok C j' d' \<and>
    (r = Inr True \<longleftrightarrow> (\<exists>es e message. j_entries j = es @ [e] \<and>
       value_get (entry_result e) HOST_ERROR_KEY = Some (VString message) \<and> message \<noteq> [] \<and>
       contains detail message \<and> j_last_line_start j \<noteq> None)) \<and>
    (if r = Inr True
     then j_entries j' = butlast (j_entries j) \<and>
          (\<forall>kind h. replay j' (of_nat (length (j_entries j'))) kind h = Inr None)
     else j' = j \<and> d' = d)"
proof (intro conjI)
  show "journal_ok C j' d'" by (rule prune_ok [OF ok prune])
  have str: "value_as_str w = Some m \<longleftrightarrow> w = VString m" for w :: "'a jvalue" and m
    by (cases w) (auto simp: value_as_str_def)
  show "r = Inr True \<longleftrightarrow> (\<exists>es e message. j_entries j = es @ [e] \<and>
       value_get (entry_result e) HOST_ERROR_KEY = Some (VString message) \<and> message \<noteq> [] \<and>
       contains detail message \<and> j_last_line_start j \<noteq> None)"
    using prune
    by (cases "j_entries j" rule: rev_cases)
      (auto simp: prune_trailing_host_error_def truncate_tail_def str bind_eq_Some_conv
        split: if_splits option.splits)
  have "length (j_entries j') \<le> 67108864"
    using \<open>journal_ok C j' d'\<close> length_journal_text [of "j_entries j'" C] by (simp add: journal_ok_def)
  then have "unat (of_nat (length (j_entries j')) :: u64) = length (j_entries j')" by (simp add: unat_of_nat)
  then show "if r = Inr True
     then j_entries j' = butlast (j_entries j) \<and>
          (\<forall>kind h. replay j' (of_nat (length (j_entries j'))) kind h = Inr None)
     else j' = j \<and> d' = d"
    using prune prune_ok(2) [OF ok prune]
    by (auto simp: replay_def prune_trailing_host_error_def truncate_tail_def split: if_splits option.splits)
qed

theorem prune_reopens_the_failed_call_witness:
  "\<exists>e j' d'. prune_trailing_host_error IoOk (journal_of (e :: nat journal_entry)) (Some (RegularFile [123, 125, 10]))
       (lit ''agent failed: no quota'') = (Inr True, j', d') \<and>
     journal_ok (one_entry_codec e) j' d' \<and> j_entries j' = []"
proof -
  let ?e = "sample_entry\<lparr>entry_result := VObject [(HOST_ERROR_KEY, VString (lit ''no quota''))]\<rparr>"
  obtain r j' d' where p: "prune_trailing_host_error IoOk (journal_of ?e) (Some (RegularFile [123, 125, 10]))
      (lit ''agent failed: no quota'') = (r, j', d')" by (metis prod_cases3)
  moreover have "contains (lit ''agent failed: no quota'') (lit ''no quota'')" and "lit ''no quota'' \<noteq> []"
    by (simp_all add: contains_code)
  ultimately have "r = Inr True"
    by (auto simp: prune_trailing_host_error_def journal_of_def truncate_tail_def simp del: lit_Cons)
  moreover have "entry_seq ?e = 0" by (simp add: sample_entry_def)
  ultimately show ?thesis
    using prune_reopens_the_failed_call [OF journal_of_ok p] p by (auto simp: journal_of_def)
qed

end
