(* ===== verification/Workflow_Engine.thy ===== *)
theory Workflow_Engine
  imports Workflow_Journal
begin

text \<open>
  The engine of workflow runs, \<^verbatim>\<open>xai-workflow/src/engine.rs\<close> with the types of \<^verbatim>\<open>host.rs\<close>, \<^verbatim>\<open>run.rs\<close> and
  \<^verbatim>\<open>lib.rs\<close>: every function a script may call, each replaying its recorded result or asking the host
  and recording the answer. The interpreter (\<^verbatim>\<open>rhai\<close>) is outside the repository: a script is a
  function from the results it has seen to its next action, which is what the engine aims at by
  disabling clocks and evaluation of strings, and conversions of values are parameters. The host is
  reached by a channel: \<open>host\<close> is its answer to the \<open>n\<close>-th request of the run, so a theorem for all
  \<open>host\<close> holds for all behaviours of the host.
\<close>

subsection \<open>Pause kinds, outcomes, errors\<close>

datatype pause_kind = PauseUser | PauseBackOff | PauseNoProgress | PauseVerification | PauseInfra

definition pause_kind_from_str :: "str \<Rightarrow> str + pause_kind" where
  "pause_kind_from_str s =
     (if s = lit ''user'' then Inr PauseUser
      else if s = lit ''back_off'' \<or> s = lit ''backoff'' then Inr PauseBackOff
      else if s = lit ''no_progress'' then Inr PauseNoProgress
      else if s = lit ''verification'' \<or> s = lit ''blocked'' then Inr PauseVerification
      else if s = lit ''infra'' then Inr PauseInfra
      else Inl (lit ''unknown pause kind: '' @ s))"

datatype 'n workflow_outcome =
    OutcomeCompleted "'n jvalue"
  | OutcomePaused pause_kind str
  | OutcomeBudgetExceeded str
  | OutcomeCancelled
  | OutcomeFailed str

datatype 'n control_token =
    TokenComplete "'n jvalue"
  | TokenPause pause_kind str
  | TokenBudget str
  | TokenCancelled
  | TokenFatal str

text \<open>
  The constructors of \<^verbatim>\<open>EvalAltResult\<close> that the code builds or inspects; all others are \<open>ErrorOther\<close>. A
  termination carries a \<^verbatim>\<open>Dynamic\<close>, which is a control token or not.
\<close>

datatype 'n eval_error =
    ErrorTerminated "'n control_token option"
  | ErrorInFunctionCall "'n eval_error"
  | ErrorInModule "'n eval_error"
  | ErrorRuntime str
  | ErrorTooManyOperations
  | ErrorOther str

definition terminated :: "'n control_token \<Rightarrow> 'n eval_error" where
  "terminated t = ErrorTerminated (Some t)"

abbreviation fatal :: "str \<Rightarrow> 'n eval_error" where
  "fatal s \<equiv> terminated (TokenFatal s)"

fun find_control_token :: "'n eval_error \<Rightarrow> 'n control_token option" where
  "find_control_token (ErrorTerminated t) = t"
| "find_control_token (ErrorInFunctionCall e) = find_control_token e"
| "find_control_token (ErrorInModule e) = find_control_token e"
| "find_control_token _ = None"

definition with_rhai_hint :: "str \<Rightarrow> str" where
  "with_rhai_hint msg =
     (let add = (\<lambda>hint. msg @ [10] @ lit ''hint: '' @ hint)
      in if contains msg (lit ''Expression exceeds maximum complexity'')
         then add (lit ''a single expression nests too deep '' @ [8212] @
                lit '' usually one long chained `+` string concatenation. Split it into multiple `+=` statements.'')
         else if contains msg (lit ''reserved keyword'')
         then add (lit ''Rhai reserves identifiers it doesn't use '' @ [8212] @
                lit '' `shared`, `sync`, `async`, `await`, `spawn`, `go`, `thread`, `new`, `match`, `case`, `default`, `void`, `null`, `nil`, `exit`, `static`, `var` '' @
                [8212] @ lit '' rename the variable (`shared` '' @ [8594] @ lit '' `has_shared`).'')
         else if contains msg (lit ''getter is not registered for type 'char'' @ [39])
         then add (lit ''indexing a string yields a `char`, so field access on it fails '' @ [8212] @
                lit '' you likely indexed a string you expected to be an array (e.g. unparsed JSON in an agent output). Check with `type_of(x)`; slice strings with `s.sub_string(start, len)`.'')
         else msg)"

subsection \<open>The host\<close>

record 'n agent_opts =
  opt_prompt :: str
  opt_label :: "str option"
  opt_model :: "str option"
  opt_effort :: "str option"
  opt_max_output_tokens :: "u64 option"
  opt_agent_type :: "str option"
  opt_capability_mode :: "str option"
  opt_isolation_worktree :: bool
  opt_fork_context :: bool
  opt_resume_from :: "str option"
  opt_output_schema :: "'n jvalue option"
  opt_phase :: "str option"

definition default_agent_opts :: "'n agent_opts" where
  "default_agent_opts =
     \<lparr>opt_prompt = [], opt_label = None, opt_model = None, opt_effort = None, opt_max_output_tokens = None,
      opt_agent_type = None, opt_capability_mode = None, opt_isolation_worktree = False,
      opt_fork_context = False, opt_resume_from = None, opt_output_schema = None, opt_phase = None\<rparr>"

record 'n agent_result =
  res_agent_id :: str
  res_success :: bool
  res_output :: "'n jvalue"
  res_cancelled :: bool
  res_tokens_used :: u64
  res_duration_ms :: u64

record budget_state =
  bud_total :: "u64 option"
  bud_spent :: u64
  bud_reserved :: u64
  bud_remaining :: "u64 option"

datatype host_error =
    AgentCallQuotaExceeded u64 u64
  | HostBudgetExceeded
  | HostCancelled
  | HostUnsupported str
  | HostFailed str

datatype 'n host_request =
    ReserveAgentCalls u64
  | ReleaseAgentCalls u64
  | SpawnAgent "'n agent_opts"
  | PhaseRequest str bool
  | LogRequest str bool
  | TelemetryRequest str "'n jvalue" bool
  | BudgetQuery
  | RenderTemplate str "'n jvalue"
  | WriteScratchFile str str
  | ReadScratchFile str
  | GitDiffSince str

definition request_kind :: "'n host_request \<Rightarrow> str" where
  "request_kind r =
     (case r of
        ReserveAgentCalls _ \<Rightarrow> lit ''reserve_agent_calls''
      | ReleaseAgentCalls _ \<Rightarrow> lit ''release_agent_calls''
      | SpawnAgent _ \<Rightarrow> lit ''spawn_agent''
      | PhaseRequest _ _ \<Rightarrow> lit ''phase''
      | LogRequest _ _ \<Rightarrow> lit ''log''
      | TelemetryRequest _ _ _ \<Rightarrow> lit ''telemetry''
      | BudgetQuery \<Rightarrow> lit ''budget''
      | RenderTemplate _ _ \<Rightarrow> lit ''render_template''
      | WriteScratchFile _ _ \<Rightarrow> lit ''write_scratch_file''
      | ReadScratchFile _ \<Rightarrow> lit ''read_scratch_file''
      | GitDiffSince _ \<Rightarrow> lit ''git_diff_since'')"

text \<open>A reply: the channel may be closed, the sender dropped, or an answer of the request's type.\<close>

datatype 'n host_value =
    UnitReply
  | AgentReply "'n agent_result"
  | BudgetReply budget_state
  | TextReply str

datatype 'n host_reply = ChannelClosed | ReplyDropped | Replied "host_error + 'n host_value"

datatype 'd call_result = UnitResult | DynResult 'd | ArrayResult "'d list" | TextResult str

record ('n, 'd) wf_env =
  wf_hash :: "'n hash_env"
  wf_codec :: "'n entry_codec"
  num_u64 :: "u64 \<Rightarrow> 'n"
  host :: "nat \<Rightarrow> 'n host_request \<Rightarrow> 'n host_reply"
  append_io :: "nat \<Rightarrow> io_result"
  clock :: "nat \<Rightarrow> u64"
  to_dynamic :: "'n jvalue \<Rightarrow> str + 'd"
  from_dynamic :: "'d \<Rightarrow> str + 'n jvalue"
  opts_from_value :: "'n jvalue \<Rightarrow> str + 'n agent_opts"
  value_json :: "'n jvalue \<Rightarrow> str + str"

text \<open>Serialised structs: the fields in order, \<^verbatim>\<open>effort\<close> skipped when it is \<^verbatim>\<open>None\<close>.\<close>

definition opt_value :: "('a \<Rightarrow> 'n jvalue) \<Rightarrow> 'a option \<Rightarrow> 'n jvalue" where
  "opt_value f x = (case x of None \<Rightarrow> VNull | Some a \<Rightarrow> f a)"

definition opts_to_value :: "(u64 \<Rightarrow> 'n) \<Rightarrow> 'n agent_opts \<Rightarrow> 'n jvalue" where
  "opts_to_value num o' =
     VObject ([(lit ''prompt'', VString (opt_prompt o')),
               (lit ''label'', opt_value VString (opt_label o')),
               (lit ''model'', opt_value VString (opt_model o'))] @
              (case opt_effort o' of None \<Rightarrow> [] | Some e \<Rightarrow> [(lit ''effort'', VString e)]) @
              [(lit ''max_output_tokens'', opt_value (VNumber \<circ> num) (opt_max_output_tokens o')),
               (lit ''agent_type'', opt_value VString (opt_agent_type o')),
               (lit ''capability_mode'', opt_value VString (opt_capability_mode o')),
               (lit ''isolation_worktree'', VBool (opt_isolation_worktree o')),
               (lit ''fork_context'', VBool (opt_fork_context o')),
               (lit ''resume_from'', opt_value VString (opt_resume_from o')),
               (lit ''output_schema'', opt_value id (opt_output_schema o')),
               (lit ''phase'', opt_value VString (opt_phase o'))])"

definition agent_to_value :: "(u64 \<Rightarrow> 'n) \<Rightarrow> 'n agent_result \<Rightarrow> 'n jvalue" where
  "agent_to_value num r =
     VObject [(lit ''agent_id'', VString (res_agent_id r)),
              (lit ''success'', VBool (res_success r)),
              (lit ''output'', res_output r),
              (lit ''cancelled'', VBool (res_cancelled r)),
              (lit ''tokens_used'', VNumber (num (res_tokens_used r))),
              (lit ''duration_ms'', VNumber (num (res_duration_ms r)))]"

definition budget_to_value :: "(u64 \<Rightarrow> 'n) \<Rightarrow> budget_state \<Rightarrow> 'n jvalue" where
  "budget_to_value num b =
     VObject [(lit ''total'', opt_value (VNumber \<circ> num) (bud_total b)),
              (lit ''spent'', VNumber (num (bud_spent b))),
              (lit ''reserved'', VNumber (num (bud_reserved b))),
              (lit ''remaining'', opt_value (VNumber \<circ> num) (bud_remaining b))]"

text \<open>The \<^verbatim>\<open>to_result\<close> closures of the calls: the type of the answer decides which one applies.\<close>

definition reply_to_value :: "(u64 \<Rightarrow> 'n) \<Rightarrow> 'n host_value \<Rightarrow> 'n jvalue" where
  "reply_to_value num v =
     (case v of
        UnitReply \<Rightarrow> VNull
      | AgentReply r \<Rightarrow> agent_to_value num r
      | BudgetReply b \<Rightarrow> budget_to_value num b
      | TextReply s \<Rightarrow> VString s)"

subsection \<open>The context of a run\<close>

record 'n ctx =
  ctx_sent :: "'n host_request list"
  ctx_journal :: "'n journal"
  ctx_seq :: u64
  ctx_disk :: disk
  ctx_appends :: nat

definition replaying :: "'n ctx \<Rightarrow> bool" where
  "replaying c = covers (ctx_journal c) (ctx_seq c)"

definition reserve_seqs :: "nat \<Rightarrow> 'n ctx \<Rightarrow> 'n eval_error + u64 \<times> 'n ctx" where
  "reserve_seqs n c =
     (case checked_add (ctx_seq c) (of_nat n) of
        None \<Rightarrow> Inl (fatal (lit ''workflow host-call count overflowed''))
      | Some e \<Rightarrow>
          if e > MAX_HOST_CALLS
          then Inl (fatal (lit ''workflow exceeded the maximum of '' @ show_nat (unat MAX_HOST_CALLS) @
                           lit '' result-bearing host calls''))
          else Inr (ctx_seq c, c\<lparr>ctx_seq := e\<rparr>))"

definition next_seq :: "'n ctx \<Rightarrow> 'n eval_error + u64 \<times> 'n ctx" where
  "next_seq c = reserve_seqs 1 c"

definition journal_fatal :: "journal_error \<Rightarrow> 'n eval_error" where
  "journal_fatal e = fatal (journal_error_to_string e)"

definition ctx_record ::
  "('n, 'd) wf_env \<Rightarrow> 'n ctx \<Rightarrow> u64 \<Rightarrow> str \<Rightarrow> str \<Rightarrow> 'n jvalue \<Rightarrow> 'n eval_error option \<times> 'n ctx" where
  "ctx_record E c seq kind hash v =
     (case record_entry (wf_codec E) (append_io E (ctx_appends c)) (clock E (ctx_appends c))
             (ctx_journal c) (ctx_disk c) seq kind hash v of
        (err, j, d) \<Rightarrow>
          (map_option journal_fatal err, c\<lparr>ctx_journal := j, ctx_disk := d, ctx_appends := Suc (ctx_appends c)\<rparr>))"

definition send_request :: "('n, 'd) wf_env \<Rightarrow> 'n ctx \<Rightarrow> 'n host_request \<Rightarrow> 'n host_reply \<times> 'n ctx" where
  "send_request E c r =
     (case host E (length (ctx_sent c)) r of
        ChannelClosed \<Rightarrow> (ChannelClosed, c)
      | reply \<Rightarrow> (reply, c\<lparr>ctx_sent := ctx_sent c @ [r]\<rparr>))"

subsection \<open>Calls that carry a result\<close>

abbreviation spawn_agent_kind :: str where
  "spawn_agent_kind \<equiv> lit ''spawn_agent''"

text \<open>Journals from before the \<^verbatim>\<open>effort\<close> field hashed the payload without it.\<close>

definition replay_spawn_agent ::
  "'n hash_env \<Rightarrow> 'n journal \<Rightarrow> u64 \<Rightarrow> 'n jvalue \<Rightarrow> str \<Rightarrow> journal_error + 'n jvalue option" where
  "replay_spawn_agent H j seq payload hash =
     (let normal = replay j seq spawn_agent_kind hash;
          legacy =
            (case value_as_object payload of
               None \<Rightarrow> normal
             | Some m \<Rightarrow>
                 if map_of m (lit ''effort'') = None then normal
                 else replay j seq spawn_agent_kind
                        (request_hash H spawn_agent_kind
                          (VObject (filter (\<lambda>(k, v). k \<noteq> lit ''effort'') m))))
      in case normal of
           Inr (Some _) \<Rightarrow> normal
         | Inr None \<Rightarrow> legacy
         | Inl (JournalDivergence _ _) \<Rightarrow> legacy
         | Inl _ \<Rightarrow> normal)"

definition host_error_sentinel :: "str \<Rightarrow> 'n jvalue" where
  "host_error_sentinel message = VObject [(HOST_ERROR_KEY, VString message)]"

definition replay_host_error :: "'n jvalue \<Rightarrow> 'n eval_error option" where
  "replay_host_error recorded = map_option ErrorRuntime (Option.bind (value_get recorded HOST_ERROR_KEY) value_as_str)"

definition replay_any ::
  "'n hash_env \<Rightarrow> 'n journal \<Rightarrow> u64 \<Rightarrow> str \<Rightarrow> 'n jvalue \<Rightarrow> str \<Rightarrow> journal_error + 'n jvalue option" where
  "replay_any H j seq kind payload hash =
     (if kind = spawn_agent_kind then replay_spawn_agent H j seq payload hash else replay j seq kind hash)"

definition live_call ::
  "('n, 'd) wf_env \<Rightarrow> 'n ctx \<Rightarrow> u64 \<Rightarrow> str \<Rightarrow> str \<Rightarrow> 'n host_request \<Rightarrow> ('n eval_error + 'n jvalue) \<times> 'n ctx" where
  "live_call E c seq kind hash req =
     (case send_request E c req of
        (ChannelClosed, c') \<Rightarrow> (Inl (fatal (lit ''workflow host channel closed'')), c')
      | (ReplyDropped, c') \<Rightarrow> (Inl (fatal (lit ''workflow host dropped reply'')), c')
      | (Replied (Inl (AgentCallQuotaExceeded requested maximum)), c') \<Rightarrow>
          (Inl (ErrorRuntime (lit ''workflow agent-call quota exceeded: requested '' @ show_nat (unat requested) @
                              lit '', maximum '' @ show_nat (unat maximum))), c')
      | (Replied (Inl HostBudgetExceeded), c') \<Rightarrow>
          (Inl (terminated (TokenBudget (lit ''workflow agent budget exceeded''))), c')
      | (Replied (Inl HostCancelled), c') \<Rightarrow> (Inl (terminated TokenCancelled), c')
      | (Replied (Inl (HostUnsupported msg)), c') \<Rightarrow>
          (case ctx_record E c' seq kind hash (host_error_sentinel msg) of
             (Some err, c'') \<Rightarrow> (Inl err, c'')
           | (None, c'') \<Rightarrow> (Inl (ErrorRuntime msg), c''))
      | (Replied (Inl (HostFailed msg)), c') \<Rightarrow>
          (case ctx_record E c' seq kind hash (host_error_sentinel msg) of
             (Some err, c'') \<Rightarrow> (Inl err, c'')
           | (None, c'') \<Rightarrow> (Inl (ErrorRuntime msg), c''))
      | (Replied (Inr r), c') \<Rightarrow>
          (let v = reply_to_value (num_u64 E) r
           in case ctx_record E c' seq kind hash v of
                (Some err, c'') \<Rightarrow> (Inl err, c'')
              | (None, c'') \<Rightarrow> (Inr v, c'')))"

definition host_call ::
  "('n, 'd) wf_env \<Rightarrow> 'n ctx \<Rightarrow> str \<Rightarrow> 'n jvalue \<Rightarrow> 'n host_request \<Rightarrow> ('n eval_error + 'n jvalue) \<times> 'n ctx" where
  "host_call E c kind payload req =
     (let hash = request_hash (wf_hash E) kind payload
      in case next_seq c of
           Inl err \<Rightarrow> (Inl err, c)
         | Inr (seq, c') \<Rightarrow>
             (case replay_any (wf_hash E) (ctx_journal c') seq kind payload hash of
                Inr (Some recorded) \<Rightarrow>
                  (case replay_host_error recorded of
                     Some err \<Rightarrow> (Inl err, c')
                   | None \<Rightarrow> (Inr recorded, c'))
              | Inl e \<Rightarrow> (Inl (journal_fatal e), c')
              | Inr None \<Rightarrow> live_call E c' seq kind hash req))"

text \<open>The budget of agent calls is reserved before live agents start and given back when they end unrecorded.\<close>

definition reserve_agent_calls :: "('n, 'd) wf_env \<Rightarrow> 'n ctx \<Rightarrow> nat \<Rightarrow> 'n eval_error option \<times> 'n ctx" where
  "reserve_agent_calls E c n =
     (if n = 0 then (None, c)
      else case send_request E c (ReserveAgentCalls (of_nat n)) of
          (ChannelClosed, c') \<Rightarrow> (Some (fatal (lit ''workflow host channel closed'')), c')
        | (ReplyDropped, c') \<Rightarrow> (Some (fatal (lit ''workflow host dropped reply'')), c')
        | (Replied (Inr _), c') \<Rightarrow> (None, c')
        | (Replied (Inl (AgentCallQuotaExceeded requested maximum)), c') \<Rightarrow>
            (Some (terminated (TokenBudget (lit ''workflow agent budget exceeded: requested '' @
                     show_nat (unat requested) @ lit '', maximum '' @ show_nat (unat maximum)))), c')
        | (Replied (Inl HostCancelled), c') \<Rightarrow> (Some (terminated TokenCancelled), c')
        | (Replied (Inl HostBudgetExceeded), c') \<Rightarrow>
            (Some (terminated (TokenBudget (lit ''workflow agent budget exceeded''))), c')
        | (Replied (Inl (HostUnsupported message)), c') \<Rightarrow> (Some (ErrorRuntime message), c')
        | (Replied (Inl (HostFailed message)), c') \<Rightarrow> (Some (ErrorRuntime message), c'))"

definition release_agent_calls :: "('n, 'd) wf_env \<Rightarrow> 'n ctx \<Rightarrow> nat \<Rightarrow> 'n ctx" where
  "release_agent_calls E c n = (if n = 0 then c else snd (send_request E c (ReleaseAgentCalls (of_nat n))))"

definition is_resumable_unjournaled_terminal :: "'n eval_error \<Rightarrow> bool" where
  "is_resumable_unjournaled_terminal err \<longleftrightarrow>
     (case find_control_token err of
        Some TokenCancelled \<Rightarrow> True
      | Some (TokenBudget _) \<Rightarrow> True
      | _ \<Rightarrow> False)"

definition value_to_dynamic :: "('n, 'd) wf_env \<Rightarrow> 'n jvalue \<Rightarrow> 'n eval_error + 'd" where
  "value_to_dynamic E v =
     (case to_dynamic E v of Inr d \<Rightarrow> Inr d | Inl e \<Rightarrow> Inl (ErrorRuntime (lit ''host result conversion: '' @ e)))"

definition dynamic_to_value :: "('n, 'd) wf_env \<Rightarrow> 'd \<Rightarrow> 'n jvalue" where
  "dynamic_to_value E d = (case from_dynamic E d of Inr v \<Rightarrow> v | Inl _ \<Rightarrow> VNull)"

definition map_to_value :: "('n, 'd) wf_env \<Rightarrow> 'd \<Rightarrow> 'n eval_error + 'n jvalue" where
  "map_to_value E m =
     (case from_dynamic E m of Inr v \<Rightarrow> Inr v | Inl e \<Rightarrow> Inl (ErrorRuntime (lit ''invalid options map: '' @ e)))"

definition spawn_agent_call ::
  "('n, 'd) wf_env \<Rightarrow> 'n ctx \<Rightarrow> 'n agent_opts \<Rightarrow> ('n eval_error + 'd) \<times> 'n ctx" where
  "spawn_agent_call E c opts =
     (let payload = opts_to_value (num_u64 E) opts;
          hash = request_hash (wf_hash E) spawn_agent_kind payload
      in case replay_spawn_agent (wf_hash E) (ctx_journal c) (ctx_seq c) payload hash of
           Inl e \<Rightarrow> (Inl (journal_fatal e), c)
         | Inr r \<Rightarrow>
             let is_live = (r = None)
             in case (if is_live then reserve_agent_calls E c 1 else (None, c)) of
                  (Some err, c') \<Rightarrow> (Inl err, c')
                | (None, c') \<Rightarrow>
                    (case host_call E c' spawn_agent_kind payload (SpawnAgent opts) of
                       (Inr v, c'') \<Rightarrow> (value_to_dynamic E v, c'')
                     | (Inl err, c'') \<Rightarrow>
                         (Inl err,
                          if is_live \<and> is_resumable_unjournaled_terminal err then release_agent_calls E c'' 1 else c'')))"

definition agent_opts_from_map :: "('n, 'd) wf_env \<Rightarrow> str option \<Rightarrow> 'd \<Rightarrow> 'n eval_error + 'n agent_opts" where
  "agent_opts_from_map E prompt m =
     (case map_to_value E m of
        Inl e \<Rightarrow> Inl e
      | Inr v \<Rightarrow>
          (case opts_from_value E v of
             Inl e \<Rightarrow> Inl (ErrorRuntime (lit ''invalid agent options: '' @ e))
           | Inr opts \<Rightarrow>
               let opts' = (case prompt of None \<Rightarrow> opts | Some p \<Rightarrow> opts\<lparr>opt_prompt := p\<rparr>)
               in if trim (opt_prompt opts') = [] then Inl (ErrorRuntime (lit ''agent prompt must not be empty''))
                  else Inr opts'))"

subsection \<open>Parallel agents\<close>

definition MAX_PARALLEL :: nat where
  "MAX_PARALLEL = 1024"

definition HOST_TERMINAL_KEY :: str where
  "HOST_TERMINAL_KEY = lit ''__xai_workflow_parallel_terminal''"

abbreviation TERMINAL_BUDGET :: str where "TERMINAL_BUDGET \<equiv> lit ''budget_exceeded''"
abbreviation TERMINAL_CANCELLED :: str where "TERMINAL_CANCELLED \<equiv> lit ''cancelled''"
abbreviation TERMINAL_DROPPED_REPLY :: str where "TERMINAL_DROPPED_REPLY \<equiv> lit ''dropped_reply''"

definition host_terminal_sentinel :: "str \<Rightarrow> 'n jvalue" where
  "host_terminal_sentinel kind = VObject [(HOST_TERMINAL_KEY, VString kind)]"

definition host_terminal_error :: "str \<Rightarrow> 'n eval_error" where
  "host_terminal_error kind =
     (if kind = TERMINAL_BUDGET then terminated (TokenBudget (lit ''workflow agent budget exceeded''))
      else if kind = TERMINAL_CANCELLED then terminated TokenCancelled
      else if kind = TERMINAL_DROPPED_REPLY then fatal (lit ''workflow host dropped reply'')
      else fatal (lit ''workflow journal contains an unknown terminal marker''))"

definition is_host_terminal_sentinel :: "'n jvalue \<Rightarrow> bool" where
  "is_host_terminal_sentinel recorded \<longleftrightarrow> value_get recorded HOST_TERMINAL_KEY \<noteq> None"

type_synonym 'n agent_request = "'n agent_opts \<times> 'n jvalue \<times> str"

text \<open>The items of the array; \<open>None\<close> is an item that is not a map.\<close>

fun parse_items :: "('n, 'd) wf_env \<Rightarrow> 'd option list \<Rightarrow> 'n eval_error + 'n agent_opts list" where
  "parse_items E [] = Inr []"
| "parse_items E (None # items) = Inl (ErrorRuntime (lit ''parallel() items must be option maps''))"
| "parse_items E (Some m # items) =
     (case agent_opts_from_map E None m of
        Inl e \<Rightarrow> Inl e
      | Inr opts \<Rightarrow> (case parse_items E items of Inl e \<Rightarrow> Inl e | Inr os \<Rightarrow> Inr (opts # os)))"

definition agent_request_of :: "('n, 'd) wf_env \<Rightarrow> 'n agent_opts \<Rightarrow> 'n agent_request" where
  "agent_request_of E opts =
     (let payload = opts_to_value (num_u64 E) opts in (opts, payload, request_hash (wf_hash E) spawn_agent_kind payload))"

fun count_live :: "'n hash_env \<Rightarrow> 'n journal \<Rightarrow> u64 \<Rightarrow> 'n agent_request list \<Rightarrow> 'n eval_error + nat" where
  "count_live H j seq [] = Inr 0"
| "count_live H j seq ((opts, payload, hash) # rs) =
     (case replay_spawn_agent H j seq payload hash of
        Inl e \<Rightarrow> Inl (journal_fatal e)
      | Inr r \<Rightarrow>
          (case checked_add seq 1 of
             None \<Rightarrow> Inl (fatal (lit ''workflow host-call count overflowed''))
           | Some seq' \<Rightarrow>
               (case count_live H j seq' rs of
                  Inl e \<Rightarrow> Inl e
                | Inr n \<Rightarrow> Inr ((if r = None then 1 else 0) + n))))"

datatype 'n pending_agent =
    Replayed "'n jvalue"
  | Live u64 str "(host_error + 'n host_value) option"

text \<open>
  Requests are sent one after the other; a live one is pending with the answer its receiver will see,
  \<open>None\<close> for a dropped sender. On an error the pending receivers are drained, which changes nothing here.
\<close>

fun issue_agents ::
  "('n, 'd) wf_env \<Rightarrow> 'n ctx \<Rightarrow> 'n agent_request list \<Rightarrow> ('n eval_error + 'n pending_agent list) \<times> 'n ctx" where
  "issue_agents E c [] = (Inr [], c)"
| "issue_agents E c ((opts, payload, hash) # rs) =
     (case next_seq c of
        Inl err \<Rightarrow> (Inl err, c)
      | Inr (seq, c1) \<Rightarrow>
          let go = (\<lambda>p c2. case issue_agents E c2 rs of
                       (Inl e, c3) \<Rightarrow> (Inl e, c3)
                     | (Inr ps, c3) \<Rightarrow> (Inr (p # ps), c3))
          in (case replay_spawn_agent (wf_hash E) (ctx_journal c1) seq payload hash of
                Inr (Some v) \<Rightarrow> go (Replayed v) c1
              | Inl e \<Rightarrow> (Inl (journal_fatal e), c1)
              | Inr None \<Rightarrow>
                  (case send_request E c1 (SpawnAgent opts) of
                     (ChannelClosed, c2) \<Rightarrow> (Inl (fatal (lit ''workflow host channel closed'')), c2)
                   | (ReplyDropped, c2) \<Rightarrow> go (Live seq hash None) c2
                   | (Replied r, c2) \<Rightarrow> go (Live seq hash (Some r)) c2)))"

record 'n parallel_state =
  par_resolved :: "((u64 \<times> str) option \<times> 'n jvalue) list"
  par_terminal_kind :: "str option"
  par_terminal_error :: "'n eval_error option"
  par_resumable :: bool

definition get_or_insert :: "'a option \<Rightarrow> 'a \<Rightarrow> 'a option" where
  "get_or_insert x a = (case x of None \<Rightarrow> Some a | Some b \<Rightarrow> Some b)"

definition resolve_replayed :: "'n parallel_state \<Rightarrow> 'n jvalue \<Rightarrow> 'n parallel_state" where
  "resolve_replayed s v =
     (if is_host_terminal_sentinel v
      then let kind = (case Option.bind (value_get v HOST_TERMINAL_KEY) value_as_str of
                         None \<Rightarrow> lit ''unknown'' | Some k \<Rightarrow> k)
           in s\<lparr>par_terminal_kind := get_or_insert (par_terminal_kind s) kind,
                par_resumable := par_resumable s \<or> kind = TERMINAL_BUDGET \<or> kind = TERMINAL_CANCELLED\<rparr>
      else case replay_host_error v of
          Some err \<Rightarrow> s\<lparr>par_terminal_error := get_or_insert (par_terminal_error s) err\<rparr>
        | None \<Rightarrow> s\<lparr>par_resolved := par_resolved s @ [(None, v)]\<rparr>)"

definition resolve_live ::
  "('n, 'd) wf_env \<Rightarrow> 'n parallel_state \<Rightarrow> u64 \<Rightarrow> str \<Rightarrow> (host_error + 'n host_value) option \<Rightarrow> 'n parallel_state" where
  "resolve_live E s seq hash r =
     (let push = (\<lambda>s' v. s'\<lparr>par_resolved := par_resolved s' @ [(Some (seq, hash), v)]\<rparr>)
      in case r of
           Some (Inr res) \<Rightarrow> push s (reply_to_value (num_u64 E) res)
         | Some (Inl HostBudgetExceeded) \<Rightarrow>
             push (s\<lparr>par_terminal_kind := get_or_insert (par_terminal_kind s) TERMINAL_BUDGET, par_resumable := True\<rparr>)
               (host_terminal_sentinel TERMINAL_BUDGET)
         | Some (Inl HostCancelled) \<Rightarrow>
             push (s\<lparr>par_terminal_kind := get_or_insert (par_terminal_kind s) TERMINAL_CANCELLED, par_resumable := True\<rparr>)
               (host_terminal_sentinel TERMINAL_CANCELLED)
         | None \<Rightarrow>
             push (s\<lparr>par_terminal_kind := get_or_insert (par_terminal_kind s) TERMINAL_DROPPED_REPLY\<rparr>)
               (host_terminal_sentinel TERMINAL_DROPPED_REPLY)
         | Some (Inl _) \<Rightarrow> push s VNull)"

fun resolve_pending :: "('n, 'd) wf_env \<Rightarrow> 'n parallel_state \<Rightarrow> 'n pending_agent list \<Rightarrow> 'n parallel_state" where
  "resolve_pending E s [] = s"
| "resolve_pending E s (Replayed v # ps) = resolve_pending E (resolve_replayed s v) ps"
| "resolve_pending E s (Live seq hash r # ps) = resolve_pending E (resolve_live E s seq hash r) ps"

fun record_resolved ::
  "('n, 'd) wf_env \<Rightarrow> 'n ctx \<Rightarrow> ((u64 \<times> str) option \<times> 'n jvalue) list \<Rightarrow> 'n eval_error option \<times> 'n ctx" where
  "record_resolved E c [] = (None, c)"
| "record_resolved E c ((None, v) # rs) = record_resolved E c rs"
| "record_resolved E c ((Some (seq, hash), v) # rs) =
     (case ctx_record E c seq spawn_agent_kind hash v of
        (Some err, c') \<Rightarrow> (Some err, c')
      | (None, c') \<Rightarrow> record_resolved E c' rs)"

fun values_to_dynamic :: "('n, 'd) wf_env \<Rightarrow> 'n jvalue list \<Rightarrow> 'n eval_error + 'd list" where
  "values_to_dynamic E [] = Inr []"
| "values_to_dynamic E (v # vs) =
     (case value_to_dynamic E v of
        Inl e \<Rightarrow> Inl e
      | Inr d \<Rightarrow> (case values_to_dynamic E vs of Inl e \<Rightarrow> Inl e | Inr ds \<Rightarrow> Inr (d # ds)))"

definition finish_parallel ::
  "('n, 'd) wf_env \<Rightarrow> 'n ctx \<Rightarrow> nat \<Rightarrow> 'n parallel_state \<Rightarrow> ('n eval_error + 'd list) \<times> 'n ctx" where
  "finish_parallel E c live s =
     (case (if par_resumable s then (None, release_agent_calls E c live) else record_resolved E c (par_resolved s)) of
        (rec_err, c') \<Rightarrow>
          (case par_terminal_kind s of
             Some kind \<Rightarrow> (Inl (host_terminal_error kind), c')
           | None \<Rightarrow>
               (case (case rec_err of None \<Rightarrow> par_terminal_error s | Some e \<Rightarrow> get_or_insert (par_terminal_error s) e) of
                  Some err \<Rightarrow> (Inl err, c')
                | None \<Rightarrow> (values_to_dynamic E (map snd (par_resolved s)), c'))))"

definition parallel_call ::
  "('n, 'd) wf_env \<Rightarrow> 'n ctx \<Rightarrow> 'd option list \<Rightarrow> ('n eval_error + 'd list) \<times> 'n ctx" where
  "parallel_call E c items =
     (if length items > MAX_PARALLEL
      then (Inl (ErrorRuntime (lit ''parallel() accepts at most '' @ show_nat MAX_PARALLEL @
                  lit '' items per call (got '' @ show_nat (length items) @ lit '')'')), c)
      else case parse_items E items of
          Inl e \<Rightarrow> (Inl e, c)
        | Inr opts_list \<Rightarrow>
            let requests = map (agent_request_of E) opts_list
            in case count_live (wf_hash E) (ctx_journal c) (ctx_seq c) requests of
                 Inl e \<Rightarrow> (Inl e, c)
               | Inr live \<Rightarrow>
                   (case reserve_agent_calls E c live of
                      (Some err, c1) \<Rightarrow> (Inl err, c1)
                    | (None, c1) \<Rightarrow>
                        (case issue_agents E c1 requests of
                           (Inl err, c2) \<Rightarrow> (Inl err, c2)
                         | (Inr pending, c2) \<Rightarrow>
                             finish_parallel E c2 live
                               (resolve_pending E
                                  \<lparr>par_resolved = [], par_terminal_kind = None, par_terminal_error = None,
                                   par_resumable = False\<rparr> pending))))"

subsection \<open>The other functions of a script\<close>

definition host_emit :: "('n, 'd) wf_env \<Rightarrow> 'n ctx \<Rightarrow> (bool \<Rightarrow> 'n host_request) \<Rightarrow> 'n ctx" where
  "host_emit E c build = snd (send_request E c (build (replaying c)))"

definition await_user :: "('n, 'd) wf_env \<Rightarrow> 'n ctx \<Rightarrow> str \<Rightarrow> str \<Rightarrow> ('n eval_error + unit) \<times> 'n ctx" where
  "await_user E c kind message =
     (case pause_kind_from_str kind of
        Inl e \<Rightarrow> (Inl (ErrorRuntime e), c)
      | Inr parsed \<Rightarrow>
          let payload = VObject [(lit ''kind'', VString kind), (lit ''message'', VString message)];
              hash = request_hash (wf_hash E) (lit ''await_user'') payload
          in case next_seq c of
               Inl err \<Rightarrow> (Inl err, c)
             | Inr (seq, c') \<Rightarrow>
                 (case replay (ctx_journal c') seq (lit ''await_user'') hash of
                    Inr (Some _) \<Rightarrow> (Inr (), c')
                  | Inl e \<Rightarrow> (Inl (journal_fatal e), c')
                  | Inr None \<Rightarrow>
                      (case ctx_record E c' seq (lit ''await_user'') hash VNull of
                         (Some err, c'') \<Rightarrow> (Inl err, c'')
                       | (None, c'') \<Rightarrow> (Inl (terminated (TokenPause parsed message)), c''))))"

datatype 'd host_fn =
    FnAgent str
  | FnAgentOpts str 'd
  | FnParallel "'d option list"
  | FnPhase str
  | FnLog str
  | FnPrint str
  | FnDebug str
  | FnTelemetry str 'd
  | FnComplete 'd
  | FnCompleteUnit
  | FnPause str str
  | FnAwaitUser str str
  | FnBudget
  | FnRenderTemplate str 'd
  | FnWriteScratchFile str str
  | FnReadScratchFile str
  | FnGitDiffSince str
  | FnFingerprint str
  | FnJsonEncode 'd
  | FnTimestamp
  | FnSleep
  | FnExit

text \<open>A host call whose value goes back to the script.\<close>

definition dyn_host_call ::
  "('n, 'd) wf_env \<Rightarrow> 'n ctx \<Rightarrow> str \<Rightarrow> 'n jvalue \<Rightarrow> 'n host_request \<Rightarrow> ('n eval_error + 'd call_result) \<times> 'n ctx" where
  "dyn_host_call E c kind payload req =
     (case host_call E c kind payload req of
        (Inl e, c') \<Rightarrow> (Inl e, c')
      | (Inr v, c') \<Rightarrow> (map_sum id DynResult (value_to_dynamic E v), c'))"

fun call_host_fn ::
  "('n, 'd) wf_env \<Rightarrow> 'n ctx \<Rightarrow> 'd host_fn \<Rightarrow> ('n eval_error + 'd call_result) \<times> 'n ctx" where
  "call_host_fn E c (FnAgent prompt) =
     map_prod (map_sum id DynResult) id (spawn_agent_call E c (default_agent_opts\<lparr>opt_prompt := prompt\<rparr>))"
| "call_host_fn E c (FnAgentOpts prompt m) =
     (case agent_opts_from_map E (Some prompt) m of
        Inl e \<Rightarrow> (Inl e, c)
      | Inr opts \<Rightarrow> map_prod (map_sum id DynResult) id (spawn_agent_call E c opts))"
| "call_host_fn E c (FnParallel items) = map_prod (map_sum id ArrayResult) id (parallel_call E c items)"
| "call_host_fn E c (FnPhase title) = (Inr UnitResult, host_emit E c (PhaseRequest title))"
| "call_host_fn E c (FnLog message) = (Inr UnitResult, host_emit E c (LogRequest message))"
| "call_host_fn E c (FnPrint message) = (Inr UnitResult, host_emit E c (LogRequest message))"
| "call_host_fn E c (FnDebug message) = (Inr UnitResult, host_emit E c (LogRequest message))"
| "call_host_fn E c (FnTelemetry name m) =
     (case map_to_value E m of
        Inl e \<Rightarrow> (Inl e, c)
      | Inr v \<Rightarrow> (Inr UnitResult, host_emit E c (TelemetryRequest name v)))"
| "call_host_fn E c (FnComplete d) = (Inl (terminated (TokenComplete (dynamic_to_value E d))), c)"
| "call_host_fn E c FnCompleteUnit = (Inl (terminated (TokenComplete VNull)), c)"
| "call_host_fn E c (FnPause kind message) =
     (case pause_kind_from_str kind of
        Inl e \<Rightarrow> (Inl (ErrorRuntime e), c)
      | Inr k \<Rightarrow> (Inl (terminated (TokenPause k message)), c))"
| "call_host_fn E c (FnAwaitUser kind message) = map_prod (map_sum id (\<lambda>_. UnitResult)) id (await_user E c kind message)"
| "call_host_fn E c FnBudget = dyn_host_call E c (lit ''budget'') VNull BudgetQuery"
| "call_host_fn E c (FnRenderTemplate name vars) =
     (case map_to_value E vars of
        Inl e \<Rightarrow> (Inl e, c)
      | Inr v \<Rightarrow>
          dyn_host_call E c (lit ''render_template'') (VObject [(lit ''name'', VString name), (lit ''vars'', v)])
            (RenderTemplate name v))"
| "call_host_fn E c (FnWriteScratchFile name content) =
     dyn_host_call E c (lit ''write_scratch_file'')
       (VObject [(lit ''name'', VString name), (lit ''content'', VString content)]) (WriteScratchFile name content)"
| "call_host_fn E c (FnReadScratchFile name) =
     dyn_host_call E c (lit ''read_scratch_file'') (VObject [(lit ''name'', VString name)]) (ReadScratchFile name)"
| "call_host_fn E c (FnGitDiffSince commit) =
     dyn_host_call E c (lit ''git_diff_since'') (VObject [(lit ''commit'', VString commit)]) (GitDiffSince commit)"
| "call_host_fn E c (FnFingerprint s) =
     (Inr (TextResult (request_hash (wf_hash E) (lit ''fingerprint'') (VString s))), c)"
| "call_host_fn E c (FnJsonEncode d) =
     (case value_json E (dynamic_to_value E d) of
        Inl e \<Rightarrow> (Inl (ErrorRuntime (lit ''json encoding failed: '' @ e)), c)
      | Inr s \<Rightarrow> (Inr (TextResult s), c))"
| "call_host_fn E c FnTimestamp =
     (Inl (ErrorRuntime (lit ''timestamp() is unavailable: workflow scripts must be deterministic (wall-clock time breaks resume). Pass timestamps in via `args` instead.'')), c)"
| "call_host_fn E c FnSleep =
     (Inl (ErrorRuntime (lit ''sleep() is unavailable in workflow scripts '' @ [8212] @
                         lit '' host calls already block until their work finishes.'')), c)"
| "call_host_fn E c FnExit =
     (Inl (ErrorRuntime (lit ''exit() is unavailable '' @ [8212] @
                         lit '' end a workflow with complete(value) or pause(kind, msg).'')), c)"

subsection \<open>A run\<close>

datatype ('n, 'd) action = Call "'d host_fn" | Return 'd | Raise "'n eval_error"

type_synonym ('n, 'd) script = "('n eval_error + 'd call_result) list \<Rightarrow> ('n, 'd) action"

definition outcome_from_error :: "('n eval_error \<Rightarrow> str) \<Rightarrow> 'n eval_error \<Rightarrow> 'n workflow_outcome" where
  "outcome_from_error show_error err =
     (case find_control_token err of
        Some (TokenComplete v) \<Rightarrow> OutcomeCompleted v
      | Some (TokenPause k m) \<Rightarrow> OutcomePaused k m
      | Some (TokenBudget m) \<Rightarrow> OutcomeBudgetExceeded m
      | Some TokenCancelled \<Rightarrow> OutcomeCancelled
      | Some (TokenFatal e) \<Rightarrow> OutcomeFailed e
      | None \<Rightarrow> OutcomeFailed (with_rhai_hint (show_error err)))"

text \<open>
  One action of the script. A call that terminates ends the run, since a script cannot catch it; any
  other result, errors included, is handed to the script. \<open>Inl\<close> is the end of the run.
\<close>

definition script_step ::
  "('n, 'd) wf_env \<Rightarrow> ('n eval_error \<Rightarrow> str) \<Rightarrow> ('n, 'd) script \<Rightarrow>
   'n ctx \<times> ('n eval_error + 'd call_result) list \<Rightarrow>
   ('n workflow_outcome \<times> 'n ctx) + ('n ctx \<times> ('n eval_error + 'd call_result) list)" where
  "script_step E show_error script s =
     (case s of (c, hist) \<Rightarrow>
        (case script hist of
           Return d \<Rightarrow> Inl (OutcomeCompleted (dynamic_to_value E d), c)
         | Raise e \<Rightarrow> Inl (outcome_from_error show_error e, c)
         | Call f \<Rightarrow>
             (case call_host_fn E c f of
                (Inl (ErrorTerminated t), c') \<Rightarrow> Inl (outcome_from_error show_error (ErrorTerminated t), c')
              | (r, c') \<Rightarrow> Inr (c', hist @ [r]))))"

text \<open>
  The evaluation: \<open>fuel\<close> is what is left of the operations (each action costs at least one), \<open>cancel\<close>
  whether the token is cancelled at the engine's check before the action.
\<close>

fun eval_script ::
  "('n, 'd) wf_env \<Rightarrow> ('n eval_error \<Rightarrow> str) \<Rightarrow> (nat \<Rightarrow> bool) \<Rightarrow> ('n, 'd) script \<Rightarrow> nat \<Rightarrow>
   'n ctx \<times> ('n eval_error + 'd call_result) list \<Rightarrow> 'n workflow_outcome \<times> 'n ctx" where
  "eval_script E show_error cancel script 0 s = (outcome_from_error show_error ErrorTooManyOperations, fst s)"
| "eval_script E show_error cancel script (Suc fuel) s =
     (if cancel fuel then (outcome_from_error show_error (terminated TokenCancelled), fst s)
      else case script_step E show_error script s of
          Inl r \<Rightarrow> r
        | Inr s' \<Rightarrow> eval_script E show_error cancel script fuel s')"

record ('n, 'd) run_params =
  run_compile :: "str \<Rightarrow> str + ('d \<Rightarrow> ('n, 'd) script)"
  run_show_error :: "'n eval_error \<Rightarrow> str"
  run_cancel :: "nat \<Rightarrow> bool"
  run_max_ops :: u64

definition init_ctx :: "'n journal \<Rightarrow> disk \<Rightarrow> 'n ctx" where
  "init_ctx j d = \<lparr>ctx_sent = [], ctx_journal = j, ctx_seq = 0, ctx_disk = d, ctx_appends = 0\<rparr>"

definition run_workflow ::
  "('n, 'd) wf_env \<Rightarrow> ('n, 'd) run_params \<Rightarrow> str \<Rightarrow> 'n jvalue \<Rightarrow> 'n journal \<Rightarrow> disk \<Rightarrow> 'n workflow_outcome \<times> 'n ctx" where
  "run_workflow E P script args j d =
     (case run_compile P script of
        Inl e \<Rightarrow> (OutcomeFailed (lit ''script failed to compile: '' @ e), init_ctx j d)
      | Inr ast \<Rightarrow>
          (case to_dynamic E args of
             Inl e \<Rightarrow> (OutcomeFailed (lit ''invalid workflow args: '' @ e), init_ctx j d)
           | Inr a \<Rightarrow> eval_script E (run_show_error P) (run_cancel P) (ast a) (unat (run_max_ops P)) (init_ctx j d, [])))"

end
