(* ===== verification/Workflow_Replay.thy ===== *)
theory Workflow_Replay
  imports Workflow_Engine
begin

text \<open>
  Replay of workflow calls: every call of a script that returned in one run returns the same over
  the recorded journal, without asking the host. The lemmas follow the calls of \<open>Workflow_Engine\<close>, from
  the entry a replay looks at to the parallel call; \<open>call_host_fn_replayable\<close> collects them.
\<close>

declare lit_Cons [simp del]

subsection \<open>Growing a journal\<close>

text \<open>The journal and its file after further successful records.\<close>

inductive grows :: "'n entry_codec \<Rightarrow> 'n journal \<times> disk \<Rightarrow> 'n journal \<times> disk \<Rightarrow> bool" for C where
  grows_refl: "grows C s s"
| grows_record: "grows C s (j, d) \<Longrightarrow> record_entry C io now j d seq kind h v = (None, j', d') \<Longrightarrow> grows C s (j', d')"

abbreviation ctx_store :: "'n ctx \<Rightarrow> 'n journal \<times> disk" where
  "ctx_store c \<equiv> (ctx_journal c, ctx_disk c)"

lemma grows_trans: "grows C s' s'' \<Longrightarrow> grows C s s' \<Longrightarrow> grows C s s''"
  by (induction rule: grows.induct) (auto intro: grows_record)

lemma record_entry_None:
  assumes "record_entry C io now j d seq kind h v = (None, j', d')"
  shows "j_entries j' = j_entries j @ [\<lparr>entry_seq = seq, entry_kind = kind, entry_req_hash = h, entry_result = v, entry_at_ms = now\<rparr>]"
    and "seq = of_nat (length (j_entries j))"
  using assms by (auto simp: record_entry_def validate_sequence_def Let_def
      split: if_splits option.splits sum.splits prod.splits)

lemma grows_dense: "grows C s s' \<Longrightarrow> dense_from 0 (j_entries (fst s)) \<Longrightarrow> dense_from 0 (j_entries (fst s'))"
proof (induction rule: grows.induct)
  case (grows_record s j d io now seq kind h v j' d')
  then show ?case using record_entry_None [OF grows_record.hyps(2)] by simp
qed simp

lemma grows_prefix: "grows C s s' \<Longrightarrow> prefix (j_entries (fst s)) (j_entries (fst s'))"
proof (induction rule: grows.induct)
  case (grows_record s j d io now seq kind h v j' d')
  then show ?case using record_entry_None [OF grows_record.hyps(2)] by (simp add: prefix_def) force
qed simp

lemma grows_ok:
  "grows C s s' \<Longrightarrow> journal_ok C (fst s) (snd s) \<Longrightarrow> list_all (codec_ok C) (j_entries (fst s')) \<Longrightarrow>
   journal_ok C (fst s') (snd s') \<and> j_path (fst s') = j_path (fst s)"
proof (induction rule: grows.induct)
  case (grows_record s j d io now seq kind h v j' d')
  note rec = grows_record.hyps(2)
  have "codec_ok C \<lparr>entry_seq = seq, entry_kind = kind, entry_req_hash = h, entry_result = v, entry_at_ms = now\<rparr>"
    and "list_all (codec_ok C) (j_entries j)"
    using grows_record.prems(2) by (simp_all add: record_entry_None [OF rec])
  then show ?case
    using grows_record record_ok [OF _ _ refl rec] by simp
qed simp

lemma ctx_record_None:
  assumes "ctx_record E c seq kind h v = (None, c')"
  shows "grows (wf_codec E) (ctx_store c) (ctx_store c')" and "ctx_seq c' = ctx_seq c" and "ctx_sent c' = ctx_sent c"
    and "seq = of_nat (length (j_entries (ctx_journal c)))"
    and "\<exists>t. j_entries (ctx_journal c') = j_entries (ctx_journal c) @
           [\<lparr>entry_seq = seq, entry_kind = kind, entry_req_hash = h, entry_result = v, entry_at_ms = t\<rparr>]"
  using assms
  by (auto simp: ctx_record_def record_entry_None split: prod.splits intro: grows.intros)

lemma ctx_record_Some: "ctx_record E c seq kind h v = (Some err, c') \<Longrightarrow> \<exists>msg. err = fatal msg"
  by (auto simp: ctx_record_def journal_fatal_def split: prod.splits)

subsection \<open>Replay looks at one entry\<close>

definition entry_at :: "'n journal \<Rightarrow> u64 \<Rightarrow> 'n journal_entry option" where
  "entry_at j seq = (if unat seq < length (j_entries j) then Some (j_entries j ! unat seq) else None)"

lemma replay_entry_at:
  "replay j seq kind h =
     (case entry_at j seq of
        None \<Rightarrow> Inr None
      | Some e \<Rightarrow>
          if entry_seq e \<noteq> seq \<or> entry_kind e \<noteq> kind \<or> entry_req_hash e \<noteq> h
          then Inl (JournalDivergence seq kind) else Inr (Some (entry_result e)))"
  by (simp add: replay_def entry_at_def Let_def)

lemma replay_cong: "entry_at j seq = entry_at j' seq \<Longrightarrow> replay j seq = replay j' seq"
  by (intro ext) (simp add: replay_entry_at)

lemma replay_spawn_agent_cong:
  assumes "entry_at j seq = entry_at j' seq"
  shows "replay_spawn_agent H j seq = replay_spawn_agent H j' seq"
  unfolding fun_eq_iff replay_spawn_agent_def replay_cong [OF assms] by simp

lemma replay_any_cong:
  assumes "entry_at j seq = entry_at j' seq"
  shows "replay_any H j seq = replay_any H j' seq"
  unfolding fun_eq_iff replay_any_def replay_cong [OF assms] replay_spawn_agent_cong [OF assms] by simp

lemma replay_None_iff: "replay j seq kind h = Inr None \<longleftrightarrow> entry_at j seq = None"
  by (simp add: replay_entry_at split: option.split)

lemma replay_spawn_agent_None_iff: "replay_spawn_agent H j seq p h = Inr None \<longleftrightarrow> entry_at j seq = None"
  by (auto simp: replay_spawn_agent_def replay_None_iff Let_def replay_entry_at
      split: option.split sum.splits)

lemma replay_any_None_iff: "replay_any H j seq k p h = Inr None \<longleftrightarrow> entry_at j seq = None"
  by (simp add: replay_any_def replay_None_iff replay_spawn_agent_None_iff)

lemma replay_any_normal: "replay j seq k h = Inr (Some v) \<Longrightarrow> replay_any H j seq k p h = Inr (Some v)"
  by (cases "k = spawn_agent_kind") (auto simp: replay_any_def replay_spawn_agent_def Let_def)

lemma entry_at_prefix:
  "prefix (j_entries j) (j_entries j') \<Longrightarrow> entry_at j seq \<noteq> None \<Longrightarrow> entry_at j' seq = entry_at j seq"
  by (auto simp: entry_at_def prefix_def nth_append split: if_splits)

text \<open>The two journals agree on the calls up to \<open>n\<close>.\<close>

definition agree :: "nat \<Rightarrow> 'n journal \<Rightarrow> 'n journal \<Rightarrow> bool" where
  "agree n j j' \<longleftrightarrow> n \<le> length (j_entries j) \<and> n \<le> length (j_entries j') \<and> take n (j_entries j) = take n (j_entries j')"

lemma agree_entry_at: "agree n j j' \<Longrightarrow> unat seq < n \<Longrightarrow> entry_at j' seq = entry_at j seq"
  by (auto simp: agree_def entry_at_def) (metis nth_take)

lemma agree_mono: "agree n j j' \<Longrightarrow> m \<le> n \<Longrightarrow> agree m j j'"
  by (auto simp: agree_def) (metis min.absorb_iff1 take_take)

subsection \<open>Sequence numbers\<close>

lemma next_seq_Inr:
  assumes "next_seq c = Inr (seq, c')"
  shows "seq = ctx_seq c" and "c' = c\<lparr>ctx_seq := ctx_seq c + 1\<rparr>" and "unat (ctx_seq c + 1) = Suc (unat (ctx_seq c))"
    and "unat (ctx_seq c) < 10000"
proof -
  have *: "checked_add (ctx_seq c) 1 = Some (ctx_seq c + 1)" "\<not> ctx_seq c + 1 > MAX_HOST_CALLS"
    "seq = ctx_seq c" "c' = c\<lparr>ctx_seq := ctx_seq c + 1\<rparr>"
    using assms by (auto simp: next_seq_def reserve_seqs_def checked_add_Some_iff split: option.splits if_splits)
  show "seq = ctx_seq c" and "c' = c\<lparr>ctx_seq := ctx_seq c + 1\<rparr>" by fact+
  show "unat (ctx_seq c + 1) = Suc (unat (ctx_seq c))" using *(1) by (simp add: checked_add_Some_iff)
  then show "unat (ctx_seq c) < 10000"
    using *(2) by (simp add: MAX_HOST_CALLS_def word_less_nat_alt)
qed

lemma next_seq_Inl: "next_seq c = Inl err \<Longrightarrow> \<exists>msg. err = fatal msg"
  by (auto simp: next_seq_def reserve_seqs_def split: option.splits if_splits)

lemma next_seq_same:
  "next_seq c = Inr (seq, c') \<Longrightarrow> ctx_seq d = ctx_seq c \<Longrightarrow> next_seq d = Inr (seq, d\<lparr>ctx_seq := ctx_seq c + 1\<rparr>)"
  by (auto simp: next_seq_def reserve_seqs_def checked_add_Some_iff split: option.splits if_splits)

subsection \<open>What is assumed of the host, and what replaying means\<close>

text \<open>
  The host reports a quota only when agent calls are reserved, as \<^verbatim>\<open>host_service.rs\<close> does. The second
  part excludes that a reservation fails otherwise: such a failure is an error the script can catch and
  that leaves no entry (the last section of \<open>Workflow_Resume\<close> shows what happens then).
\<close>

definition faithful_host :: "('n, 'd) wf_env \<Rightarrow> bool" where
  "faithful_host E \<longleftrightarrow>
     (\<forall>n r q m. host E n r = Replied (Inl (AgentCallQuotaExceeded q m)) \<longrightarrow> (\<exists>k. r = ReserveAgentCalls k)) \<and>
     (\<forall>n k msg. host E n (ReserveAgentCalls k) \<noteq> Replied (Inl (HostFailed msg)) \<and>
                host E n (ReserveAgentCalls k) \<noteq> Replied (Inl (HostUnsupported msg)))"

text \<open>Two environments that run the same program; host, disk and clock may differ.\<close>

definition same_program :: "('n, 'd) wf_env \<Rightarrow> ('n, 'd) wf_env \<Rightarrow> bool" where
  "same_program E E' \<longleftrightarrow>
     wf_hash E = wf_hash E' \<and> wf_codec E = wf_codec E' \<and> num_u64 E = num_u64 E' \<and> to_dynamic E = to_dynamic E' \<and>
     from_dynamic E = from_dynamic E' \<and> opts_from_value E = opts_from_value E' \<and> value_json E = value_json E'"

definition is_terminated :: "'n eval_error + 'a \<Rightarrow> bool" where
  "is_terminated r \<longleftrightarrow> (case r of Inl (ErrorTerminated _) \<Rightarrow> True | _ \<Rightarrow> False)"

definition is_emit :: "'n host_request \<Rightarrow> bool" where
  "is_emit r \<longleftrightarrow> (case r of PhaseRequest _ _ \<Rightarrow> True | LogRequest _ _ \<Rightarrow> True | TelemetryRequest _ _ _ \<Rightarrow> True | _ \<Rightarrow> False)"

text \<open>
  A call that returned \<open>r\<close> only added entries, began with no number without an entry, and returns \<open>r\<close>
  again over any journal with the same entries, whatever the host, sending it notifications only.
\<close>

definition replayable ::
  "(('n, 'd) wf_env \<Rightarrow> 'n ctx \<Rightarrow> ('n eval_error + 'a) \<times> 'n ctx) \<Rightarrow> ('n, 'd) wf_env \<Rightarrow> 'n ctx \<Rightarrow>
   'n eval_error + 'a \<Rightarrow> 'n ctx \<Rightarrow> bool" where
  "replayable F E c r c' \<longleftrightarrow>
     grows (wf_codec E) (ctx_store c) (ctx_store c') \<and> unat (ctx_seq c) \<le> unat (ctx_seq c') \<and>
     unat (ctx_seq c) \<le> length (j_entries (ctx_journal c)) \<and>
     (\<forall>E2 c2. same_program E E2 \<longrightarrow> ctx_seq c2 = ctx_seq c \<longrightarrow>
        agree (unat (ctx_seq c')) (ctx_journal c') (ctx_journal c2) \<longrightarrow>
        (\<exists>c2' xs. F E2 c2 = (r, c2') \<and> ctx_store c2' = ctx_store c2 \<and> ctx_seq c2' = ctx_seq c' \<and>
           ctx_sent c2' = ctx_sent c2 @ xs \<and> list_all is_emit xs))"

lemma is_terminated_simps [simp]:
  "is_terminated (Inl (ErrorTerminated t))" "is_terminated (Inl (terminated k))"
  "\<not> is_terminated (Inr a)" "\<not> is_terminated (Inl (ErrorRuntime m))"
  by (simp_all add: is_terminated_def terminated_def)

lemma is_terminated_map [simp]: "is_terminated (map_sum id f r) \<longleftrightarrow> is_terminated r"
  by (cases r) (simp_all add: is_terminated_def)

lemma send_request_ctx:
  assumes "send_request E c req = (reply, c')"
  shows "ctx_store c' = ctx_store c" and "ctx_seq c' = ctx_seq c"
    and "reply = host E (length (ctx_sent c)) req"
    and "\<exists>xs. ctx_sent c' = ctx_sent c @ xs \<and> set xs \<subseteq> {req}"
  using assms by (auto simp: send_request_def split: host_reply.splits)

lemma replayable_pure:
  assumes "\<And>E2 c2. same_program E E2 \<Longrightarrow> F E2 c2 = (r, c2)" and "unat (ctx_seq c) \<le> length (j_entries (ctx_journal c))"
  shows "replayable F E c r c"
  using assms by (auto simp: replayable_def intro: grows_refl)

lemma replayable_map:
  assumes "replayable F E c r c'" and "\<And>E2 x. same_program E E2 \<Longrightarrow> g E2 x = g E x"
  shows "replayable (\<lambda>E c. map_prod (g E) id (F E c)) E c (g E r) c'"
  using assms unfolding replayable_def by (fastforce simp: map_prod_def)

subsection \<open>Calls to the host\<close>

lemma reply_not_sentinel [simp]:
  "replay_host_error (reply_to_value num v) = None" "\<not> is_host_terminal_sentinel (reply_to_value num v)"
  by (simp_all add: replay_host_error_def is_host_terminal_sentinel_def reply_to_value_def agent_to_value_def
      budget_to_value_def HOST_ERROR_KEY_def HOST_TERMINAL_KEY_def split: host_value.split)

lemma replay_host_error_sentinel [simp]: "replay_host_error (host_error_sentinel m) = Some (ErrorRuntime m)"
  by (simp add: replay_host_error_def host_error_sentinel_def)

text \<open>What a recorded value gives back to the script.\<close>

definition replayed_result :: "'n jvalue \<Rightarrow> 'n eval_error + 'n jvalue" where
  "replayed_result v = (case replay_host_error v of Some err \<Rightarrow> Inl err | None \<Rightarrow> Inr v)"

lemma live_call_recorded:
  assumes "live_call E c seq kind h req = (r, c')" and "\<not> is_terminated r" and "faithful_host E"
    and "\<And>k. req \<noteq> ReserveAgentCalls k"
  shows "\<exists>e. grows (wf_codec E) (ctx_store c) (ctx_store c') \<and> ctx_seq c' = ctx_seq c \<and>
      seq = of_nat (length (j_entries (ctx_journal c))) \<and>
      j_entries (ctx_journal c') = j_entries (ctx_journal c) @ [e] \<and>
      entry_seq e = seq \<and> entry_kind e = kind \<and> entry_req_hash e = h \<and> r = replayed_result (entry_result e)"
proof -
  obtain reply c1 where send: "send_request E c req = (reply, c1)" by fastforce
  note c1 = send_request_ctx [OF send]
  have fin: ?thesis if "ctx_record E c1 seq kind h v = (None, c')" and "r = replayed_result v" for v
    using ctx_record_None [OF that(1)] c1 that(2) by auto
  have recd: "\<exists>c''. ctx_record E c1 seq kind h v = (None, c'') \<and> (r', c'') = (r, c')"
    if "(case ctx_record E c1 seq kind h v of (Some err, c'') \<Rightarrow> (Inl err, c'') | (None, c'') \<Rightarrow> (r', c'')) = (r, c')" for v r'
    using that assms(2) by (auto split: prod.splits option.splits dest!: ctx_record_Some)
  have quota: "reply \<noteq> Replied (Inl (AgentCallQuotaExceeded q m))" for q m
    using assms(3,4) unfolding c1(3) faithful_host_def by blast
  consider (ok) res where "reply = Replied (Inr res)"
    | (err) msg where "reply = Replied (Inl (HostFailed msg)) \<or> reply = Replied (Inl (HostUnsupported msg))"
  proof (cases reply)
    case (Replied x)
    show thesis
    proof (cases x)
      case (Inl e)
      then show thesis using assms(1,2) send quota that Replied by (cases e) (auto simp: live_call_def)
    qed (use that Replied in blast)
  qed (use assms(1,2) send in \<open>auto simp: live_call_def\<close>)
  then show ?thesis
  proof cases
    case ok
    then have "ctx_record E c1 seq kind h (reply_to_value (num_u64 E) res) = (None, c')"
      and "r = Inr (reply_to_value (num_u64 E) res)"
      using assms(1) send recd [where v = "reply_to_value (num_u64 E) res" and r' = "Inr (reply_to_value (num_u64 E) res)"]
      by (auto simp: live_call_def Let_def)
    then show ?thesis by (intro fin) (auto simp: replayed_result_def)
  next
    case err
    then have "ctx_record E c1 seq kind h (host_error_sentinel msg) = (None, c')" and "r = Inl (ErrorRuntime msg)"
      using assms(1) send recd [where v = "host_error_sentinel msg" and r' = "Inl (ErrorRuntime msg)"]
      by (auto simp: live_call_def)
    then show ?thesis by (intro fin) (auto simp: replayed_result_def)
  qed
qed

lemma entry_at_None_iff: "entry_at j seq = None \<longleftrightarrow> length (j_entries j) \<le> unat seq"
  by (auto simp: entry_at_def)

lemma replay_any_covered: "replay_any H j seq k p h = Inr (Some v) \<Longrightarrow> entry_at j seq \<noteq> None"
  using replay_any_None_iff [of H j seq k p h] by auto

text \<open>Calls that take one number: it is enough to look at the entry with that number.\<close>

lemma replayable_one:
  assumes seq: "next_seq c = Inr (seq, c1)" and grow: "grows (wf_codec E) (ctx_store c) (ctx_store c')"
    and c': "ctx_seq c' = ctx_seq c + 1" and ok: "unat (ctx_seq c) \<le> length (j_entries (ctx_journal c))"
    and F: "\<And>E2 c2. same_program E E2 \<Longrightarrow> next_seq c2 = Inr (ctx_seq c, c2\<lparr>ctx_seq := ctx_seq c + 1\<rparr>) \<Longrightarrow>
        entry_at (ctx_journal c2) (ctx_seq c) = entry_at (ctx_journal c') (ctx_seq c) \<Longrightarrow> ctx_seq c2 = ctx_seq c \<Longrightarrow>
        F E2 c2 = (r, c2\<lparr>ctx_seq := ctx_seq c + 1\<rparr>)"
  shows "replayable F E c r c'"
  unfolding replayable_def
proof (intro conjI allI impI)
  note s = next_seq_Inr [OF seq]
  show "unat (ctx_seq c) \<le> unat (ctx_seq c')" using c' s by simp
  fix E2 and c2 :: "'a ctx"
  assume prog: "same_program E E2" and c2: "ctx_seq c2 = ctx_seq c"
    and agree: "agree (unat (ctx_seq c')) (ctx_journal c') (ctx_journal c2)"
  have "entry_at (ctx_journal c2) (ctx_seq c) = entry_at (ctx_journal c') (ctx_seq c)"
    by (rule agree_entry_at [OF agree]) (use c' s in simp)
  then have "F E2 c2 = (r, c2\<lparr>ctx_seq := ctx_seq c + 1\<rparr>)"
    using next_seq_same [OF seq c2] s(1) by (intro F prog c2) simp_all
  then show "\<exists>c2' xs. F E2 c2 = (r, c2') \<and> ctx_store c2' = ctx_store c2 \<and>
      ctx_seq c2' = ctx_seq c' \<and> ctx_sent c2' = ctx_sent c2 @ xs \<and> list_all is_emit xs"
    using c' by auto
qed (rule grow ok)+

lemma host_call_recorded:
  assumes "host_call E c kind payload req = (r, c')" and "\<not> is_terminated r" and "faithful_host E"
    and "\<And>k. req \<noteq> ReserveAgentCalls k" and "unat (ctx_seq c') \<le> length (j_entries (ctx_journal c'))"
  shows "\<exists>v. unat (ctx_seq c) \<le> length (j_entries (ctx_journal c)) \<and>
      grows (wf_codec E) (ctx_store c) (ctx_store c') \<and> ctx_seq c' = ctx_seq c + 1 \<and>
      (\<exists>seq c1. next_seq c = Inr (seq, c1)) \<and> r = replayed_result v \<and>
      replay_any (wf_hash E) (ctx_journal c') (ctx_seq c) kind payload (request_hash (wf_hash E) kind payload) = Inr (Some v)"
proof -
  let ?h = "request_hash (wf_hash E) kind payload"
  obtain seq c1 where seq: "next_seq c = Inr (seq, c1)"
    using assms(1,2) by (auto simp: host_call_def Let_def split: sum.splits dest: next_seq_Inl)
  note s = next_seq_Inr [OF seq]
  show ?thesis
  proof (cases "replay_any (wf_hash E) (ctx_journal c) (ctx_seq c) kind payload ?h")
    case (Inl e)
    then show ?thesis using assms(1,2) seq s by (auto simp: host_call_def journal_fatal_def)
  next
    case (Inr v)
    show ?thesis
    proof (cases v)
      case None
      then have live: "live_call E c1 seq kind ?h req = (r, c')"
        using assms(1) Inr seq s by (simp add: host_call_def)
      obtain e where e: "grows (wf_codec E) (ctx_store c1) (ctx_store c')" "ctx_seq c' = ctx_seq c1"
        "j_entries (ctx_journal c') = j_entries (ctx_journal c1) @ [e]" "entry_seq e = seq" "entry_kind e = kind"
        "entry_req_hash e = ?h" "r = replayed_result (entry_result e)"
        using live_call_recorded [OF live assms(2-4)] by blast
      have n: "unat (ctx_seq c) = length (j_entries (ctx_journal c))"
        using Inr None assms(5) e s by (simp add: replay_any_None_iff entry_at_None_iff)
      from e have "replay (ctx_journal c') (ctx_seq c) kind ?h = Inr (Some (entry_result e))"
        using n s by (simp add: replay_entry_at entry_at_def)
      then show ?thesis
        using e n s seq by (intro exI [of _ "entry_result e"] conjI replay_any_normal) auto
    next
      case (Some v')
      then have "c' = c1" "r = replayed_result v'"
        using assms(1) Inr seq s by (auto simp: host_call_def replayed_result_def split: option.splits)
      moreover have "unat (ctx_seq c) \<le> length (j_entries (ctx_journal c))"
        using replay_any_covered Inr Some by (fastforce simp: entry_at_None_iff)
      ultimately show ?thesis using s Inr Some seq by (intro exI [of _ v']) (auto intro: grows_refl)
    qed
  qed
qed

lemma host_call_replays:
  "next_seq c = Inr (seq, c1) \<Longrightarrow>
   replay_any (wf_hash E) (ctx_journal c) seq kind payload (request_hash (wf_hash E) kind payload) = Inr (Some v) \<Longrightarrow>
   host_call E c kind payload req = (replayed_result v, c1)"
  using next_seq_Inr [of c seq c1]
  by (auto simp: host_call_def replayed_result_def Let_def split: option.split)

lemma host_call_replayable:
  assumes "host_call E c kind payload req = (r, c')" and "\<not> is_terminated r" and "faithful_host E"
    and "\<And>k. req \<noteq> ReserveAgentCalls k" and "unat (ctx_seq c') \<le> length (j_entries (ctx_journal c'))"
  shows "replayable (\<lambda>E c. host_call E c kind payload req) E c r c'"
proof -
  obtain v seq c1 where *: "grows (wf_codec E) (ctx_store c) (ctx_store c')" "ctx_seq c' = ctx_seq c + 1"
    "next_seq c = Inr (seq, c1)" "r = replayed_result v"
    "replay_any (wf_hash E) (ctx_journal c') (ctx_seq c) kind payload (request_hash (wf_hash E) kind payload) = Inr (Some v)"
    "unat (ctx_seq c) \<le> length (j_entries (ctx_journal c))"
    using host_call_recorded [OF assms] by blast
  show ?thesis
  proof (rule replayable_one [OF *(3,1,2,6)])
    fix E2 and c2 :: "'a ctx"
    assume prog: "same_program E E2" and c2: "next_seq c2 = Inr (ctx_seq c, c2\<lparr>ctx_seq := ctx_seq c + 1\<rparr>)"
      and eq: "entry_at (ctx_journal c2) (ctx_seq c) = entry_at (ctx_journal c') (ctx_seq c)"
    show "host_call E2 c2 kind payload req = (r, c2\<lparr>ctx_seq := ctx_seq c + 1\<rparr>)"
      unfolding *(4) using prog *(5) replay_any_cong [OF eq, of "wf_hash E"]
      by (intro host_call_replays [OF c2]) (simp add: same_program_def)
  qed
qed

lemma await_user_replayable:
  assumes "await_user E c kind message = (r, c')" and "\<not> is_terminated r"
    and "unat (ctx_seq c') \<le> length (j_entries (ctx_journal c'))"
  shows "replayable (\<lambda>E c. await_user E c kind message) E c r c'"
proof (cases "pause_kind_from_str kind")
  case (Inl e)
  then show ?thesis using assms by (auto simp: await_user_def intro!: replayable_pure)
next
  case (Inr k)
  let ?h = "request_hash (wf_hash E) (lit ''await_user'') (VObject [(lit ''kind'', VString kind), (lit ''message'', VString message)])"
  obtain seq c1 where seq: "next_seq c = Inr (seq, c1)"
    using assms(1,2) Inr by (auto simp: await_user_def Let_def split: sum.splits dest: next_seq_Inl)
  note s = next_seq_Inr [OF seq]
  obtain v where v: "replay (ctx_journal c) (ctx_seq c) (lit ''await_user'') ?h = Inr (Some v)" and r: "r = Inr ()" "c' = c1"
    using assms(1,2) Inr seq s
    by (auto simp: await_user_def journal_fatal_def Let_def split: sum.splits option.splits prod.splits dest!: ctx_record_Some)
  show ?thesis
  proof (rule replayable_one [OF seq])
    show "unat (ctx_seq c) \<le> length (j_entries (ctx_journal c))"
      using v replay_None_iff [of "ctx_journal c" "ctx_seq c" "lit ''await_user''" ?h]
      by (auto simp: entry_at_None_iff)
    fix E2 and c2 :: "'a ctx"
    assume prog: "same_program E E2" and c2: "next_seq c2 = Inr (ctx_seq c, c2\<lparr>ctx_seq := ctx_seq c + 1\<rparr>)"
      and eq: "entry_at (ctx_journal c2) (ctx_seq c) = entry_at (ctx_journal c') (ctx_seq c)"
    have "replay (ctx_journal c2) (ctx_seq c) (lit ''await_user'') ?h = Inr (Some v)"
      unfolding replay_cong [OF eq] using v r s by simp
    with prog c2 Inr show "await_user E2 c2 kind message = (r, c2\<lparr>ctx_seq := ctx_seq c + 1\<rparr>)"
      by (simp add: await_user_def same_program_def r Let_def)
  qed (use r s in \<open>auto intro: grows_refl\<close>)
qed

lemma reserve_agent_calls_None:
  assumes "reserve_agent_calls E c n = (None, c')"
  shows "ctx_store c' = ctx_store c" and "ctx_seq c' = ctx_seq c"
proof -
  have "ctx_store c' = ctx_store c \<and> ctx_seq c' = ctx_seq c"
  proof (cases "n = 0")
    case False
    obtain reply c1 where send: "send_request E c (ReserveAgentCalls (of_nat n)) = (reply, c1)" by fastforce
    have "c' = c1"
      using assms False send
      by (auto simp: reserve_agent_calls_def split: host_reply.splits sum.splits host_error.splits)
    then show ?thesis using send_request_ctx [OF send] by simp
  qed (use assms in \<open>simp add: reserve_agent_calls_def\<close>)
  then show "ctx_store c' = ctx_store c" and "ctx_seq c' = ctx_seq c" by simp_all
qed

lemma reserve_agent_calls_Some:
  assumes "reserve_agent_calls E c n = (Some err, c')" and "faithful_host E"
  shows "is_terminated (Inl err)"
proof (cases "n = 0")
  case False
  obtain reply c1 where send: "send_request E c (ReserveAgentCalls (of_nat n)) = (reply, c1)" by fastforce
  have "reply \<noteq> Replied (Inl (HostFailed m))" and "reply \<noteq> Replied (Inl (HostUnsupported m))" for m
    using send_request_ctx(3) [OF send] assms(2) by (simp_all add: faithful_host_def)
  then show ?thesis
    using assms(1) False send
    by (auto simp: reserve_agent_calls_def split: host_reply.splits sum.splits host_error.splits)
qed (use assms(1) in \<open>simp add: reserve_agent_calls_def\<close>)

lemma release_agent_calls_ctx:
  "ctx_store (release_agent_calls E c n) = ctx_store c" "ctx_seq (release_agent_calls E c n) = ctx_seq c"
  by (cases "send_request E c (ReleaseAgentCalls (of_nat n))",
      auto simp: release_agent_calls_def dest: send_request_ctx)+

text \<open>One agent: the reservation comes before the number is taken, so it does not matter to a replay.\<close>

lemma replayed_result_runtime: "replayed_result v = Inl e \<Longrightarrow> \<exists>m. e = ErrorRuntime m"
  by (auto simp: replayed_result_def replay_host_error_def split: option.splits)

lemma spawn_agent_call_replayable:
  assumes call: "spawn_agent_call E c opts = (r, c')" and nt: "\<not> is_terminated r" and host: "faithful_host E"
    and seq: "unat (ctx_seq c') \<le> length (j_entries (ctx_journal c'))"
  shows "replayable (\<lambda>E c. spawn_agent_call E c opts) E c r c'"
proof -
  let ?p = "opts_to_value (num_u64 E) opts"
  let ?h = "request_hash (wf_hash E) spawn_agent_kind ?p"
  let ?res = "if replay_spawn_agent (wf_hash E) (ctx_journal c) (ctx_seq c) ?p ?h = Inr None
      then reserve_agent_calls E c 1 else (None, c)"
  obtain v where v: "replay_spawn_agent (wf_hash E) (ctx_journal c) (ctx_seq c) ?p ?h = Inr v"
    using call nt by (auto simp: spawn_agent_call_def Let_def journal_fatal_def split: sum.splits)
  obtain o1 c1 where res: "?res = (o1, c1)" by fastforce
  have "o1 = None"
    using call nt v res reserve_agent_calls_Some [OF _ host, of c 1]
    by (cases o1) (auto simp: spawn_agent_call_def Let_def split: if_splits)
  then have store: "ctx_store c1 = ctx_store c" "ctx_seq c1 = ctx_seq c"
    using res reserve_agent_calls_None by (auto split: if_splits)
  obtain r1 c2 where hc: "host_call E c1 spawn_agent_kind ?p (SpawnAgent opts) = (r1, c2)" by fastforce
  have r: "r = (case r1 of Inl e \<Rightarrow> Inl e | Inr w \<Rightarrow> value_to_dynamic E w)"
    using call v res \<open>o1 = None\<close> hc by (auto simp: spawn_agent_call_def Let_def split: sum.splits)
  have nt1: "\<not> is_terminated r1"
    using nt r by (cases r1) (auto simp: is_terminated_def)
  have "ctx_store c' = ctx_store c2" "ctx_seq c' = ctx_seq c2"
    using call v res \<open>o1 = None\<close> hc release_agent_calls_ctx [of E c2 1]
    by (auto simp: spawn_agent_call_def Let_def split: sum.splits if_splits)
  then have ok2: "unat (ctx_seq c2) \<le> length (j_entries (ctx_journal c2))" using seq by simp
  obtain w n c3 where *: "grows (wf_codec E) (ctx_store c1) (ctx_store c2)" "ctx_seq c2 = ctx_seq c1 + 1"
    "next_seq c1 = Inr (n, c3)" "r1 = replayed_result w"
    "replay_any (wf_hash E) (ctx_journal c2) (ctx_seq c1) spawn_agent_kind ?p ?h = Inr (Some w)"
    "unat (ctx_seq c1) \<le> length (j_entries (ctx_journal c1))"
    using host_call_recorded [OF hc nt1 host _ ok2] by auto
  have c': "c' = c2"
    using call v res \<open>o1 = None\<close> hc * replayed_result_runtime [of w]
    by (auto simp: spawn_agent_call_def Let_def is_resumable_unjournaled_terminal_def split: sum.splits)
  show ?thesis
    unfolding c'
  proof (rule replayable_one [of c])
    show "next_seq c = Inr (ctx_seq c, c\<lparr>ctx_seq := ctx_seq c1 + 1\<rparr>)"
      using next_seq_same [OF *(3), of c] next_seq_Inr(1) [OF *(3)] store by simp
    fix E2 and c4 :: "'a ctx"
    assume prog: "same_program E E2" and c4: "next_seq c4 = Inr (ctx_seq c, c4\<lparr>ctx_seq := ctx_seq c + 1\<rparr>)"
      "ctx_seq c4 = ctx_seq c"
      and eq: "entry_at (ctx_journal c4) (ctx_seq c) = entry_at (ctx_journal c2) (ctx_seq c)"
    have rep: "replay_any (wf_hash E) (ctx_journal c4) (ctx_seq c) spawn_agent_kind ?p ?h = Inr (Some w)"
      unfolding replay_any_cong [OF eq] using *(5) store by simp
    moreover have "host_call E2 c4 spawn_agent_kind ?p (SpawnAgent opts) = (r1, c4\<lparr>ctx_seq := ctx_seq c + 1\<rparr>)"
      unfolding *(4) using prog rep by (intro host_call_replays [OF c4(1)]) (simp add: same_program_def)
    ultimately show "spawn_agent_call E2 c4 opts = (r, c4\<lparr>ctx_seq := ctx_seq c + 1\<rparr>)"
      using prog c4(2)
      by (auto simp: spawn_agent_call_def r replay_any_def same_program_def Let_def value_to_dynamic_def split: sum.splits)
  qed (use * store in auto)
qed

subsection \<open>Parallel agents\<close>

text \<open>The value recorded for an answer, and whether the answer ends the call.\<close>

definition live_value :: "('n, 'd) wf_env \<Rightarrow> (host_error + 'n host_value) option \<Rightarrow> 'n jvalue" where
  "live_value E r =
     (case r of
        Some (Inr res) \<Rightarrow> reply_to_value (num_u64 E) res
      | Some (Inl HostBudgetExceeded) \<Rightarrow> host_terminal_sentinel TERMINAL_BUDGET
      | Some (Inl HostCancelled) \<Rightarrow> host_terminal_sentinel TERMINAL_CANCELLED
      | None \<Rightarrow> host_terminal_sentinel TERMINAL_DROPPED_REPLY
      | Some (Inl _) \<Rightarrow> VNull)"

definition ends_call :: "(host_error + 'n host_value) option \<Rightarrow> bool" where
  "ends_call r \<longleftrightarrow> r \<in> {None, Some (Inl HostBudgetExceeded), Some (Inl HostCancelled)}"

fun pending_value :: "('n, 'd) wf_env \<Rightarrow> 'n pending_agent \<Rightarrow> 'n jvalue" where
  "pending_value E (Replayed v) = v"
| "pending_value E (Live seq h r) = live_value E r"

lemma live_value_plain:
  "\<not> ends_call r \<Longrightarrow> replay_host_error (live_value E r) = None \<and> \<not> is_host_terminal_sentinel (live_value E r)"
  by (auto simp: ends_call_def live_value_def replay_host_error_def [of VNull] is_host_terminal_sentinel_def [of VNull]
      split: option.splits sum.splits host_error.splits)

lemma resolve_live_plain:
  "\<not> ends_call r \<Longrightarrow>
   resolve_live E s seq h r = s\<lparr>par_resolved := par_resolved s @ [(Some (seq, h), live_value E r)]\<rparr>"
  by (auto simp: ends_call_def resolve_live_def live_value_def Let_def split: option.splits sum.splits host_error.splits)

lemma resolve_live_ends: "ends_call r \<Longrightarrow> par_terminal_kind (resolve_live E s seq h r) \<noteq> None"
  by (auto simp: ends_call_def resolve_live_def get_or_insert_def Let_def split: option.splits)

lemma resolve_keeps_kind:
  "par_terminal_kind s \<noteq> None \<Longrightarrow> par_terminal_kind (resolve_pending E s ps) \<noteq> None"
proof (induction E s ps rule: resolve_pending.induct)
  case (2 E s v ps)
  have "par_terminal_kind (resolve_replayed s v) \<noteq> None"
    using 2 by (auto simp: resolve_replayed_def get_or_insert_def Let_def split: option.split)
  then show ?case using 2 by simp
next
  case (3 E s seq h r ps)
  have "par_terminal_kind (resolve_live E s seq h r) \<noteq> None"
    using 3 by (auto simp: resolve_live_def get_or_insert_def Let_def split: option.split sum.split host_error.split)
  then show ?case using 3 by simp
qed simp

text \<open>A call that no answer ends resolves the same from the recorded values.\<close>

definition untagged :: "'n parallel_state \<Rightarrow> 'n parallel_state" where
  "untagged s = s\<lparr>par_resolved := map (\<lambda>(t, v). (None, v)) (par_resolved s)\<rparr>"

lemma resolve_untagged:
  "par_terminal_kind (resolve_pending E s ps) = None \<Longrightarrow>
   resolve_pending E2 (untagged s) (map (Replayed \<circ> pending_value E) ps) = untagged (resolve_pending E s ps) \<and>
   par_resumable (resolve_pending E s ps) = par_resumable s \<and>
   set (par_resolved s) \<subseteq> set (par_resolved (resolve_pending E s ps)) \<and>
   (\<forall>seq h r. Live seq h r \<in> set ps \<longrightarrow> (Some (seq, h), live_value E r) \<in> set (par_resolved (resolve_pending E s ps)))"
proof (induction E s ps rule: resolve_pending.induct)
  case (2 E s v ps)
  have "\<not> is_host_terminal_sentinel v"
    using 2(2) resolve_keeps_kind [of "resolve_replayed s v" E ps]
    by (auto simp: resolve_replayed_def get_or_insert_def Let_def split: option.splits)
  then have "resolve_replayed (untagged s) v = untagged (resolve_replayed s v)"
    and "par_resumable (resolve_replayed s v) = par_resumable s"
    and "set (par_resolved s) \<subseteq> set (par_resolved (resolve_replayed s v))"
    by (auto simp: resolve_replayed_def untagged_def split: option.split)
  then show ?case using 2 by auto
next
  case (3 E s seq h r ps)
  have r: "\<not> ends_call r"
    using 3(2) resolve_keeps_kind [of "resolve_live E s seq h r" E ps] resolve_live_ends [of r E s seq h] by auto
  have "resolve_replayed (untagged s) (live_value E r) = untagged (resolve_live E s seq h r)"
    using live_value_plain [OF r, of E] by (simp add: resolve_replayed_def untagged_def resolve_live_plain [OF r])
  then show ?case using 3 by (auto simp: resolve_live_plain [OF r])
qed simp

subsubsection \<open>Issuing\<close>

lemma replay_spawn_covered: "replay_spawn_agent H j s p h = Inr (Some v) \<Longrightarrow> entry_at j s \<noteq> None"
  using replay_spawn_agent_None_iff [of H j s p h] by auto

lemma next_seq_ok: "unat (ctx_seq c) < 10000 \<Longrightarrow> next_seq c = Inr (ctx_seq c, c\<lparr>ctx_seq := ctx_seq c + 1\<rparr>)"
proof -
  assume *: "unat (ctx_seq c) < 10000"
  then have "unat (ctx_seq c + 1) = Suc (unat (ctx_seq c))"
    by (simp add: unat_word_ariths)
  then show ?thesis
    using * by (simp add: next_seq_def reserve_seqs_def MAX_HOST_CALLS_def word_less_nat_alt
        checked_add_Some_iff [THEN iffD2, OF conjI, OF refl])
qed

fun issued :: "'n hash_env \<Rightarrow> 'n journal \<Rightarrow> u64 \<Rightarrow> 'n agent_request list \<Rightarrow> 'n pending_agent list \<Rightarrow> bool" where
  "issued H j s [] [] \<longleftrightarrow> True"
| "issued H j s ((opts, p, h) # rs) (q # qs) \<longleftrightarrow>
     (case q of
        Replayed v \<Rightarrow> replay_spawn_agent H j s p h = Inr (Some v)
      | Live s' h' r \<Rightarrow> s' = s \<and> h' = h \<and> entry_at j s = None) \<and>
     issued H j (s + 1) rs qs"
| "issued H j s _ _ \<longleftrightarrow> False"

fun all_replay :: "'n hash_env \<Rightarrow> 'n journal \<Rightarrow> u64 \<Rightarrow> 'n agent_request list \<Rightarrow> 'n jvalue list \<Rightarrow> bool" where
  "all_replay H j s [] [] \<longleftrightarrow> True"
| "all_replay H j s ((opts, p, h) # rs) (v # vs) \<longleftrightarrow>
     replay_spawn_agent H j s p h = Inr (Some v) \<and> all_replay H j (s + 1) rs vs"
| "all_replay H j s _ _ \<longleftrightarrow> False"

lemma issue_agents_Inl: "issue_agents E c rs = (Inl err, c') \<Longrightarrow> \<exists>msg. err = fatal msg"
proof (induction E c rs arbitrary: c' rule: issue_agents.induct)
  case (2 E c opts p h rs)
  then show ?case
    by (fastforce simp: Let_def journal_fatal_def split: sum.splits option.splits prod.splits host_reply.splits
        dest: next_seq_Inl)
qed simp

lemma issue_agents_Inr:
  assumes "issue_agents E c rs = (Inr ps, c')"
  shows "issued (wf_hash E) (ctx_journal c) (ctx_seq c) rs ps \<and> ctx_store c' = ctx_store c \<and>
    unat (ctx_seq c') = unat (ctx_seq c) + length rs \<and> (rs \<noteq> [] \<longrightarrow> unat (ctx_seq c') \<le> 10000)"
  using assms
proof (induction rs arbitrary: c ps)
  case (Cons rq rs)
  obtain opts p h where rq: "rq = (opts, p, h)" by (cases rq)
  obtain s c1 where s: "next_seq c = Inr (s, c1)"
    using Cons.prems by (auto simp: rq split: sum.splits)
  note n = next_seq_Inr [OF s]
  have step: ?case
    if "issue_agents E d rs = (Inr qs, c')" and "ps = q # qs" and "ctx_store d = ctx_store c1" and "ctx_seq d = ctx_seq c1"
      and "case q of Replayed v \<Rightarrow> replay_spawn_agent (wf_hash E) (ctx_journal c) (ctx_seq c) p h = Inr (Some v)
        | Live s' h' r \<Rightarrow> s' = ctx_seq c \<and> h' = h \<and> entry_at (ctx_journal c) (ctx_seq c) = None" for q qs d
    using Cons.IH [OF that(1)] that(2-) n by (cases "rs = []") (auto simp: rq)
  consider (rep) v where "replay_spawn_agent (wf_hash E) (ctx_journal c) (ctx_seq c) p h = Inr (Some v)"
    | (live) "replay_spawn_agent (wf_hash E) (ctx_journal c) (ctx_seq c) p h = Inr None"
    using Cons.prems s n by (auto simp: rq Let_def split: sum.splits option.splits)
  then show ?case
  proof cases
    case rep
    then obtain qs where "issue_agents E c1 rs = (Inr qs, c')" "ps = Replayed v # qs"
      using Cons.prems s n by (auto simp: rq Let_def split: sum.splits prod.splits)
    then show ?thesis using rep by (intro step [where d = c1 and q = "Replayed v"]) auto
  next
    case live
    obtain reply c2 where send: "send_request E c1 (SpawnAgent opts) = (reply, c2)" by fastforce
    obtain qs r where "issue_agents E c2 rs = (Inr qs, c')" "ps = Live (ctx_seq c) h r # qs"
      using Cons.prems s n live send by (auto simp: rq Let_def split: sum.splits prod.splits host_reply.splits)
    moreover have "entry_at (ctx_journal c) (ctx_seq c) = None" using live by (simp add: replay_spawn_agent_None_iff)
    ultimately show ?thesis
      using send_request_ctx [OF send] by (intro step [where d = c2 and q = "Live (ctx_seq c) h r"]) auto
  qed
qed simp

lemma all_replay_count:
  "all_replay H j s rs vs \<Longrightarrow> unat s + length rs \<le> 10000 \<Longrightarrow> count_live H j s rs = Inr 0"
proof (induction H j s rs vs rule: all_replay.induct)
  case (2 H j s opts p h rs v vs)
  have "unat (s + 1) = Suc (unat s)" using 2(3) by (simp add: unat_word_ariths)
  then show ?case
    using 2 by (simp add: checked_add_Some_iff [THEN iffD2, OF conjI, OF refl])
qed simp_all

lemma all_replay_issue:
  "all_replay (wf_hash E) (ctx_journal c) (ctx_seq c) rs vs \<Longrightarrow> unat (ctx_seq c) + length rs \<le> 10000 \<Longrightarrow>
   issue_agents E c rs = (Inr (map Replayed vs), c\<lparr>ctx_seq := ctx_seq c + of_nat (length rs)\<rparr>)"
proof (induction rs arbitrary: c vs)
  case Nil
  then show ?case by (cases vs) auto
next
  case (Cons rq rs)
  obtain opts p h where rq: "rq = (opts, p, h)" by (cases rq)
  obtain v vs' where vs: "vs = v # vs'" using Cons.prems by (cases vs) (auto simp: rq)
  have u: "unat (ctx_seq c + 1) = Suc (unat (ctx_seq c))" using Cons.prems by (simp add: unat_word_ariths)
  let ?c = "c\<lparr>ctx_seq := ctx_seq c + 1\<rparr>"
  have "issue_agents E ?c rs = (Inr (map Replayed vs'), ?c\<lparr>ctx_seq := ctx_seq ?c + of_nat (length rs)\<rparr>)"
    using Cons.prems u by (intro Cons.IH) (simp_all add: rq vs)
  then show ?case
    using Cons.prems u by (simp add: rq vs next_seq_ok add.assoc)
qed

lemma all_replay_agree:
  "all_replay H j s rs vs \<Longrightarrow> agree n j j' \<Longrightarrow> unat s + length rs \<le> n \<Longrightarrow> unat s + length rs \<le> 10000 \<Longrightarrow>
   all_replay H j' s rs vs"
proof (induction H j s rs vs rule: all_replay.induct)
  case (2 H j s opts p h rs v vs)
  have u: "unat (s + 1) = Suc (unat s)" using 2 by (simp add: unat_word_ariths)
  have "entry_at j' s = entry_at j s" using 2 by (intro agree_entry_at) auto
  then show ?case using 2 u replay_spawn_agent_cong [of j' s j H] by auto
qed simp_all

lemma issued_all_replay:
  "issued H j s rs ps \<Longrightarrow> prefix (j_entries j) (j_entries j') \<Longrightarrow>
   (\<And>seq h r. Live seq h r \<in> set ps \<Longrightarrow> replay j' seq spawn_agent_kind h = Inr (Some (live_value E r))) \<Longrightarrow>
   all_replay H j' s rs (map (pending_value E) ps)"
proof (induction H j s rs ps rule: issued.induct)
  case (2 H j s opts p h rs q qs)
  have "all_replay H j' (s + 1) rs (map (pending_value E) qs)"
    using 2 by (intro 2(1)) auto
  moreover have "replay_spawn_agent H j' s p h = Inr (Some (pending_value E q))"
  proof (cases q)
    case (Replayed v)
    then have rep: "replay_spawn_agent H j s p h = Inr (Some v)" using 2 by simp
    then have "entry_at j s \<noteq> None" by (rule replay_spawn_covered)
    then have "entry_at j' s = entry_at j s" using 2(3) by (intro entry_at_prefix)
    then show ?thesis using rep replay_spawn_agent_cong [of j' s j H] Replayed by simp
  next
    case (Live s' h' r)
    then have "replay j' s spawn_agent_kind h = Inr (Some (live_value E r))" using 2(2,4) by auto
    then show ?thesis using replay_any_normal [of j' s spawn_agent_kind h _ H p] Live by (simp add: replay_any_def)
  qed
  ultimately show ?case by simp
qed simp_all

lemma all_replay_length:
  "all_replay H j s rs vs \<Longrightarrow> rs \<noteq> [] \<Longrightarrow> unat s + length rs \<le> 10000 \<Longrightarrow> unat s + length rs \<le> length (j_entries j)"
proof (induction H j s rs vs rule: all_replay.induct)
  case (2 H j s opts p h rs v vs)
  have u: "unat (s + 1) = Suc (unat s)" using 2 by (simp add: unat_word_ariths)
  have "entry_at j s \<noteq> None" using 2(2) by (auto dest: replay_spawn_covered)
  then show ?case using 2 u by (cases "rs = []") (auto simp: entry_at_None_iff)
qed simp_all

subsubsection \<open>Recording\<close>

text \<open>The live numbers of a list of resolved values, in order.\<close>

definition live_seqs :: "((u64 \<times> str) option \<times> 'n jvalue) list \<Rightarrow> nat list" where
  "live_seqs rs = map (\<lambda>(t, v). unat (fst (the t))) (filter (\<lambda>(t, v). t \<noteq> None) rs)"

lemma live_seqs_simps [simp]:
  "live_seqs [] = []" "live_seqs ((None, v) # rs) = live_seqs rs"
  "live_seqs ((Some (seq, h), v) # rs) = unat seq # live_seqs rs" "live_seqs (rs @ qs) = live_seqs rs @ live_seqs qs"
  by (simp_all add: live_seqs_def)

lemma record_resolved_None:
  assumes "record_resolved E c rs = (None, c')" and "\<And>n. n \<in> set (live_seqs rs) \<Longrightarrow> length (j_entries (ctx_journal c)) \<le> n"
    and "sorted_wrt (<) (live_seqs rs)"
  shows "grows (wf_codec E) (ctx_store c) (ctx_store c') \<and> ctx_seq c' = ctx_seq c \<and>
    (\<forall>seq h v. (Some (seq, h), v) \<in> set rs \<longrightarrow> replay (ctx_journal c') seq spawn_agent_kind h = Inr (Some v)) \<and>
    (live_seqs rs \<noteq> [] \<longrightarrow> hd (live_seqs rs) = length (j_entries (ctx_journal c)))"
  using assms
proof (induction E c rs rule: record_resolved.induct)
  case (3 E c seq h v rs)
  obtain c1 where c1: "ctx_record E c seq spawn_agent_kind h v = (None, c1)" and rest: "record_resolved E c1 rs = (None, c')"
    using 3(2) by (auto split: prod.splits option.splits)
  note r = ctx_record_None [OF c1]
  have len: "length (j_entries (ctx_journal c)) \<le> unat seq" using 3(3) by simp
  have n: "unat seq = length (j_entries (ctx_journal c))"
  proof -
    have "length (j_entries (ctx_journal c)) < 2 ^ 64" by (rule le_less_trans [OF len]) simp
    then show ?thesis using r(4) by (simp add: unat_of_nat)
  qed
  have IH: "grows (wf_codec E) (ctx_store c1) (ctx_store c') \<and> ctx_seq c' = ctx_seq c1 \<and>
    (\<forall>seq h v. (Some (seq, h), v) \<in> set rs \<longrightarrow> replay (ctx_journal c') seq spawn_agent_kind h = Inr (Some v)) \<and>
    (live_seqs rs \<noteq> [] \<longrightarrow> hd (live_seqs rs) = length (j_entries (ctx_journal c1)))"
  proof (rule 3(1) [OF c1 [symmetric] refl rest])
    fix m assume "m \<in> set (live_seqs rs)"
    then show "length (j_entries (ctx_journal c1)) \<le> m" using 3(4) n r(5) by auto
  next
    show "sorted_wrt (<) (live_seqs rs)" using 3(4) by simp
  qed
  obtain t where t: "j_entries (ctx_journal c1) = j_entries (ctx_journal c) @
      [\<lparr>entry_seq = seq, entry_kind = spawn_agent_kind, entry_req_hash = h, entry_result = v, entry_at_ms = t\<rparr>]"
    using r(5) by blast
  have "entry_at (ctx_journal c') seq = entry_at (ctx_journal c1) seq"
    using IH grows_prefix [of "wf_codec E" "ctx_store c1" "ctx_store c'"] n t
    by (intro entry_at_prefix) (auto simp: entry_at_None_iff)
  then have "replay (ctx_journal c') seq spawn_agent_kind h = Inr (Some v)"
    using n t by (simp add: replay_entry_at entry_at_def)
  then show ?case using IH r n by (auto intro: grows_trans)
qed (auto intro: grows_refl)

lemma record_resolved_Some:
  assumes "record_resolved E c rs = (Some err, c')" and "\<And>n. n \<in> set (live_seqs rs) \<Longrightarrow> length (j_entries (ctx_journal c)) \<le> n"
    and "sorted_wrt (<) (live_seqs rs)"
  shows "\<exists>n \<in> set (live_seqs rs). length (j_entries (ctx_journal c')) \<le> n"
  using assms
proof (induction E c rs rule: record_resolved.induct)
  case (3 E c seq h v rs)
  show ?case
  proof (cases "ctx_record E c seq spawn_agent_kind h v")
    case (Pair o1 c1)
    show ?thesis
    proof (cases o1)
      case None
      have c1: "ctx_record E c seq spawn_agent_kind h v = (None, c1)" using Pair None by simp
      note r = ctx_record_None [OF c1]
      have "length (j_entries (ctx_journal c)) < 2 ^ 64"
        by (rule le_less_trans [OF 3(3) [of "unat seq"]]) simp_all
      then have n: "unat seq = length (j_entries (ctx_journal c))" using r(4) by (simp add: unat_of_nat)
      have "\<exists>n \<in> set (live_seqs rs). length (j_entries (ctx_journal c')) \<le> n"
      proof (rule 3(1) [OF Pair [symmetric] None])
        show "record_resolved E c1 rs = (Some err, c')" using 3(2) c1 by simp
        fix m assume "m \<in> set (live_seqs rs)"
        then show "length (j_entries (ctx_journal c1)) \<le> m" using 3(4) n r(5) by auto
      next
        show "sorted_wrt (<) (live_seqs rs)" using 3(4) by simp
      qed
      then show ?thesis by auto
    next
      case (Some e)
      then have "c' = c1" using 3(2) Pair by simp
      moreover have "ctx_journal c1 = ctx_journal c"
        using Pair Some by (auto simp: ctx_record_def record_entry_def Let_def split: prod.splits option.splits sum.splits if_splits)
      ultimately show ?thesis using 3(3) by auto
    qed
  qed
qed auto

lemma ctx_record_seq: "ctx_record E c seq kind h v = (o', c') \<Longrightarrow> ctx_seq c' = ctx_seq c"
  by (auto simp: ctx_record_def split: prod.splits)

lemma record_resolved_seq: "record_resolved E c rs = (o', c') \<Longrightarrow> ctx_seq c' = ctx_seq c"
  by (induction E c rs rule: record_resolved.induct)
    (auto split: prod.splits option.splits dest: ctx_record_seq)

lemma record_resolved_untagged: "record_resolved E c (map (\<lambda>(t, v). (None, v)) rs) = (None, c)"
  by (induction rs) auto

definition pending_seqs :: "'n pending_agent list \<Rightarrow> nat list" where
  "pending_seqs ps = concat (map (\<lambda>p. case p of Live s h r \<Rightarrow> [unat s] | Replayed v \<Rightarrow> []) ps)"

lemma pending_seqs_simps [simp]:
  "pending_seqs [] = []" "pending_seqs (Replayed v # ps) = pending_seqs ps"
  "pending_seqs (Live s h r # ps) = unat s # pending_seqs ps"
  by (simp_all add: pending_seqs_def)

lemma issued_seqs:
  "issued H j s rs ps \<Longrightarrow> unat s + length rs \<le> 10000 \<Longrightarrow>
   sorted_wrt (<) (pending_seqs ps) \<and>
   (\<forall>n \<in> set (pending_seqs ps). length (j_entries j) \<le> n \<and> unat s \<le> n \<and> n < unat s + length rs)"
proof (induction H j s rs ps rule: issued.induct)
  case (2 H j s opts p h rs q qs)
  have "unat (s + 1) = Suc (unat s)" using 2 by (simp add: unat_word_ariths)
  then show ?case
    using 2 by (cases q) (fastforce simp: entry_at_None_iff)+
qed simp_all

lemma resolve_live_seqs:
  "live_seqs (par_resolved (resolve_pending E s ps)) = live_seqs (par_resolved s) @ pending_seqs ps"
proof (induction E s ps rule: resolve_pending.induct)
  case (2 E s v ps)
  have "live_seqs (par_resolved (resolve_replayed s v)) = live_seqs (par_resolved s)"
    by (auto simp: resolve_replayed_def Let_def split: option.split)
  then show ?case using 2 by simp
next
  case (3 E s seq h r ps)
  have "live_seqs (par_resolved (resolve_live E s seq h r)) = live_seqs (par_resolved s) @ [unat seq]"
    by (auto simp: resolve_live_def Let_def split: option.split sum.split host_error.split)
  then show ?case using 3 by simp
qed simp

lemma same_program_conv:
  assumes "same_program E E2"
  shows "map_to_value E2 = map_to_value E" and "value_to_dynamic E2 = value_to_dynamic E"
    and "dynamic_to_value E2 = dynamic_to_value E" and "agent_opts_from_map E2 = agent_opts_from_map E"
    and "agent_request_of E2 = agent_request_of E"
proof -
  have eqs: "wf_hash E2 = wf_hash E" "num_u64 E2 = num_u64 E" "to_dynamic E2 = to_dynamic E"
    "from_dynamic E2 = from_dynamic E" "opts_from_value E2 = opts_from_value E"
    using assms by (simp_all add: same_program_def)
  show "map_to_value E2 = map_to_value E" and "value_to_dynamic E2 = value_to_dynamic E"
    and "dynamic_to_value E2 = dynamic_to_value E" and "agent_opts_from_map E2 = agent_opts_from_map E"
    and "agent_request_of E2 = agent_request_of E"
    unfolding fun_eq_iff map_to_value_def value_to_dynamic_def dynamic_to_value_def agent_opts_from_map_def
      agent_request_of_def eqs by simp_all
qed

lemma same_program_lists:
  assumes "same_program E E2"
  shows "parse_items E2 items = parse_items E items" and "values_to_dynamic E2 vs = values_to_dynamic E vs"
proof -
  show "parse_items E2 items = parse_items E items"
  proof (induction items)
    case (Cons item items)
    then show ?case by (cases item) (simp_all add: same_program_conv [OF assms] split: sum.split)
  qed simp
  show "values_to_dynamic E2 vs = values_to_dynamic E vs"
    by (induction vs) (simp_all add: same_program_conv [OF assms] split: sum.split)
qed

lemma host_terminal_error_terminated [simp]: "is_terminated (Inl (host_terminal_error kind))"
  by (simp add: host_terminal_error_def)

lemma count_live_Inl: "count_live H j s rs = Inl e \<Longrightarrow> is_terminated (Inl e)"
  by (induction H j s rs rule: count_live.induct)
    (auto simp: journal_fatal_def split: sum.splits option.splits)

abbreviation par_start :: "'n parallel_state" where
  "par_start \<equiv> \<lparr>par_resolved = [], par_terminal_kind = None, par_terminal_error = None, par_resumable = False\<rparr>"


text \<open>What a parallel call that returned went through.\<close>

lemma parallel_parts:
  assumes call: "parallel_call E c items = (r, c')" and nt: "\<not> is_terminated r" and host: "faithful_host E"
    and items: "length items \<le> MAX_PARALLEL" "parse_items E items = Inr os"
  shows "\<exists>c1 c2 ps o'. issue_agents E c1 (map (agent_request_of E) os) = (Inr ps, c2) \<and>
      ctx_store c1 = ctx_store c \<and> ctx_seq c1 = ctx_seq c \<and>
      par_terminal_kind (resolve_pending E par_start ps) = None \<and>
      record_resolved E c2 (par_resolved (resolve_pending E par_start ps)) = (o', c') \<and>
      (o' = None \<longrightarrow>
        r = (case par_terminal_error (resolve_pending E par_start ps) of
               Some err \<Rightarrow> Inl err
             | None \<Rightarrow> values_to_dynamic E (map snd (par_resolved (resolve_pending E par_start ps)))))"
proof -
  let ?rs = "map (agent_request_of E) os"
  obtain live where live: "count_live (wf_hash E) (ctx_journal c) (ctx_seq c) ?rs = Inr live"
    using call nt items count_live_Inl by (fastforce simp: parallel_call_def Let_def split: sum.splits)
  obtain o1 c1 where res: "reserve_agent_calls E c live = (o1, c1)" by fastforce
  have "o1 = None"
    using call nt items live res reserve_agent_calls_Some [OF _ host, of c live]
    by (cases o1) (auto simp: parallel_call_def Let_def)
  obtain p c2 where iss: "issue_agents E c1 ?rs = (p, c2)" by fastforce
  obtain ps where p: "p = Inr ps"
    using call nt items live res \<open>o1 = None\<close> iss issue_agents_Inl [of E c1 ?rs _ c2]
    by (cases p) (auto simp: parallel_call_def Let_def)
  let ?S = "resolve_pending E par_start ps"
  have fin: "finish_parallel E c2 live ?S = (r, c')"
    using call items live res \<open>o1 = None\<close> iss p by (simp add: parallel_call_def)
  have kind: "par_terminal_kind ?S = None"
    using fin nt by (auto simp: finish_parallel_def split: prod.splits option.splits)
  have "\<not> par_resumable ?S" using resolve_untagged [OF kind, of E] by simp
  moreover obtain o' c3 where rec: "record_resolved E c2 (par_resolved ?S) = (o', c3)" by fastforce
  ultimately have "c3 = c'" and "o' = None \<longrightarrow> r = (case par_terminal_error ?S of
      Some err \<Rightarrow> Inl err | None \<Rightarrow> values_to_dynamic E (map snd (par_resolved ?S)))"
    using fin kind by (auto simp: finish_parallel_def split: option.splits)
  then show ?thesis
    using rec kind iss p reserve_agent_calls_None [OF res [unfolded \<open>o1 = None\<close>]]
    by (intro exI [of _ c1] exI [of _ c2] exI [of _ ps] exI [of _ o']) simp
qed

lemma parallel_replays:
  assumes prog: "same_program E E2" and items: "length items \<le> MAX_PARALLEL" "parse_items E items = Inr os"
    and rep: "all_replay (wf_hash E) (ctx_journal c) (ctx_seq c) (map (agent_request_of E) os) (map (pending_value E) ps)"
    and len: "unat (ctx_seq c) + length os \<le> 10000"
    and kind: "par_terminal_kind (resolve_pending E par_start ps) = None"
  shows "parallel_call E2 c items =
    (case par_terminal_error (resolve_pending E par_start ps) of
       Some err \<Rightarrow> Inl err
     | None \<Rightarrow> values_to_dynamic E (map snd (par_resolved (resolve_pending E par_start ps))),
     c\<lparr>ctx_seq := ctx_seq c + of_nat (length os)\<rparr>)"
proof -
  let ?rs = "map (agent_request_of E) os" and ?S = "resolve_pending E par_start ps"
  have H: "wf_hash E2 = wf_hash E" using prog by (simp add: same_program_def)
  have cnt: "count_live (wf_hash E) (ctx_journal c) (ctx_seq c) ?rs = Inr 0"
    using rep len by (intro all_replay_count) simp_all
  have iss: "issue_agents E2 c ?rs = (Inr (map Replayed (map (pending_value E) ps)), c\<lparr>ctx_seq := ctx_seq c + of_nat (length ?rs)\<rparr>)"
    using rep len H by (intro all_replay_issue) simp_all
  have start: "untagged par_start = (par_start :: 'a parallel_state)" by (simp add: untagged_def)
  have S: "resolve_pending E2 par_start (map Replayed (map (pending_value E) ps)) = untagged ?S"
    using resolve_untagged [OF kind, of E2] by (simp add: start comp_def)
  have "\<not> par_resumable ?S" using resolve_untagged [OF kind, of E] by simp
  then have "finish_parallel E2 d 0 (untagged ?S) =
      (case par_terminal_error ?S of Some err \<Rightarrow> Inl err | None \<Rightarrow> values_to_dynamic E (map snd (par_resolved ?S)), d)" for d
    using kind same_program_lists [OF prog]
    by (auto simp: finish_parallel_def untagged_def record_resolved_untagged comp_def case_prod_beta split: option.split)
  then show ?thesis
    using items same_program_lists [OF prog] same_program_conv [OF prog] H cnt iss S
    by (simp add: parallel_call_def reserve_agent_calls_def)
qed

lemma parallel_call_replayable:
  assumes call: "parallel_call E c items = (r, c')" and nt: "\<not> is_terminated r" and host: "faithful_host E"
    and ok: "unat (ctx_seq c') \<le> length (j_entries (ctx_journal c'))"
  shows "replayable (\<lambda>E c. parallel_call E c items) E c r c'"
proof (cases "length items \<le> MAX_PARALLEL \<and> (\<exists>os. parse_items E items = Inr os)")
  case False
  have c': "c' = c" using call False by (auto simp: parallel_call_def split: sum.splits if_splits)
  show ?thesis
    unfolding c'
  proof (rule replayable_pure)
    fix E2 and d :: "'a ctx"
    assume "same_program E E2"
    from same_program_lists(1) [OF this, of items] show "parallel_call E2 d items = (r, d)"
      using call False by (auto simp: parallel_call_def split: sum.splits if_splits)
  qed (use ok c' in simp)
next
  case True
  then obtain os where items: "length items \<le> MAX_PARALLEL" "parse_items E items = Inr os" by blast
  let ?rs = "map (agent_request_of E) os"
  obtain c1 c2 ps o' where iss: "issue_agents E c1 ?rs = (Inr ps, c2)" and c1: "ctx_store c1 = ctx_store c" "ctx_seq c1 = ctx_seq c"
    and kind: "par_terminal_kind (resolve_pending E par_start ps) = None"
    and rec: "record_resolved E c2 (par_resolved (resolve_pending E par_start ps)) = (o', c')"
    and r: "o' = None \<longrightarrow> r = (case par_terminal_error (resolve_pending E par_start ps) of
               Some err \<Rightarrow> Inl err
             | None \<Rightarrow> values_to_dynamic E (map snd (par_resolved (resolve_pending E par_start ps))))"
    using parallel_parts [OF call nt host items] by blast
  let ?S = "resolve_pending E par_start ps"
  have i: "issued (wf_hash E) (ctx_journal c) (ctx_seq c) ?rs ps" "ctx_store c2 = ctx_store c"
    "unat (ctx_seq c2) = unat (ctx_seq c) + length os" "os \<noteq> [] \<longrightarrow> unat (ctx_seq c2) \<le> 10000"
    using issue_agents_Inr [OF iss] c1 by auto
  have seq: "ctx_seq c' = ctx_seq c2" using record_resolved_seq [OF rec] .
  have seqs: "live_seqs (par_resolved ?S) = pending_seqs ps" by (simp add: resolve_live_seqs)
  show ?thesis
  proof (cases "os = []")
    case True
    then have "ps = []" using i(1) by (cases ps) auto
    then have "o' = None" and "c' = c2" and store: "ctx_store c' = ctx_store c" "ctx_seq c' = ctx_seq c"
      using rec i True by (auto intro: word_unat_eq_iff [THEN iffD2])
    show ?thesis
      unfolding replayable_def
    proof (intro conjI allI impI)
      fix E2 and d :: "'a ctx"
      assume "same_program E E2"
      from same_program_lists(1) [OF this, of items] have "parallel_call E2 d items = (r, d)"
        using items True \<open>ps = []\<close> r \<open>o' = None\<close>
        by (auto simp: parallel_call_def finish_parallel_def reserve_agent_calls_def)
      moreover assume "ctx_seq d = ctx_seq c"
      ultimately show "\<exists>c2' xs. parallel_call E2 d items = (r, c2') \<and> ctx_store c2' = ctx_store d \<and>
          ctx_seq c2' = ctx_seq c' \<and> ctx_sent c2' = ctx_sent d @ xs \<and> list_all is_emit xs"
        using store by auto
    qed (use store ok in \<open>auto intro: grows_refl\<close>)
  next
    case False
    then have len: "unat (ctx_seq c) + length ?rs \<le> 10000" using i by simp
    note p = issued_seqs [OF i(1) len]
    have low: "length (j_entries (ctx_journal c2)) \<le> n" if "n \<in> set (live_seqs (par_resolved ?S))" for n
      using that p i(2) by (auto simp: seqs)
    have srt: "sorted_wrt (<) (live_seqs (par_resolved ?S))" using p by (simp add: seqs)
    have "o' = None"
    proof (cases o')
      case (Some err)
      then show ?thesis
        using record_resolved_Some [OF rec [unfolded Some] low srt] ok seq i(3) p by (fastforce simp: seqs)
    qed
    note rr = record_resolved_None [OF rec [unfolded this] low srt]
    have "prefix (j_entries (ctx_journal c)) (j_entries (ctx_journal c'))"
      using grows_prefix [of "wf_codec E" "ctx_store c2" "ctx_store c'"] rr i(2) by auto
    then have rep: "all_replay (wf_hash E) (ctx_journal c') (ctx_seq c) ?rs (map (pending_value E) ps)"
      using rr resolve_untagged [OF kind, of E] by (intro issued_all_replay [OF i(1)]) auto
    have start: "unat (ctx_seq c) \<le> length (j_entries (ctx_journal c))"
    proof (cases "pending_seqs ps")
      case Nil
      obtain q qs opts os' where "ps = q # qs" "os = opts # os'"
        using False i(1) by (cases ps; cases os) (auto simp: agent_request_of_def Let_def)
      moreover obtain v where "q = Replayed v" using Nil calculation by (cases q) auto
      ultimately have "entry_at (ctx_journal c) (ctx_seq c) \<noteq> None"
        using i(1) by (auto simp: agent_request_of_def Let_def dest: replay_spawn_covered)
      then show ?thesis by (simp add: entry_at_None_iff)
    next
      case (Cons n ns)
      then show ?thesis using rr p i(2) by (auto simp: seqs)
    qed
    have c': "unat (ctx_seq c') = unat (ctx_seq c) + length os" using i(3) seq by simp
    show ?thesis
      unfolding replayable_def
    proof (intro conjI allI impI)
      show "grows (wf_codec E) (ctx_store c) (ctx_store c')" using rr i(2) by simp
      fix E2 and d :: "'a ctx"
      assume prog: "same_program E E2" and d: "ctx_seq d = ctx_seq c"
        and agree: "agree (unat (ctx_seq c')) (ctx_journal c') (ctx_journal d)"
      have "all_replay (wf_hash E) (ctx_journal d) (ctx_seq d) ?rs (map (pending_value E) ps)"
        unfolding d using len c' by (intro all_replay_agree [OF rep agree]) simp_all
      then have "parallel_call E2 d items = (r, d\<lparr>ctx_seq := ctx_seq d + of_nat (length os)\<rparr>)"
        using parallel_replays [OF prog items _ _ kind, of d] len d r \<open>o' = None\<close> by simp
      moreover have "ctx_seq c' = ctx_seq c + of_nat (length os)"
        using c' len by (intro word_unat_eq_iff [THEN iffD2]) (simp add: unat_word_ariths unat_of_nat)
      ultimately show "\<exists>c2' xs. parallel_call E2 d items = (r, c2') \<and> ctx_store c2' = ctx_store d \<and>
          ctx_seq c2' = ctx_seq c' \<and> ctx_sent c2' = ctx_sent d @ xs \<and> list_all is_emit xs"
        using d by auto
    qed (use start c' in auto)
  qed
qed

subsection \<open>Every function of a script\<close>

lemma emit_replayable:
  assumes "unat (ctx_seq c) \<le> length (j_entries (ctx_journal c))" and "\<And>b. is_emit (build b)"
  shows "replayable (\<lambda>E c. (Inr UnitResult, host_emit E c build)) E c (Inr UnitResult) (host_emit E c build)"
proof -
  have e: "ctx_store (host_emit E c build) = ctx_store c \<and> ctx_seq (host_emit E c build) = ctx_seq c \<and>
      (\<exists>xs. ctx_sent (host_emit E c build) = ctx_sent c @ xs \<and> list_all is_emit xs)" for E :: "('a, 'b) wf_env" and c
  proof -
    obtain reply d where s: "send_request E c (build (replaying c)) = (reply, d)" by fastforce
    show ?thesis
      using send_request_ctx [OF s] assms(2) by (fastforce simp: host_emit_def s list_all_iff)
  qed
  show ?thesis
    unfolding replayable_def
  proof (intro conjI allI impI)
    fix E2 :: "('a, 'b) wf_env" and d :: "'a ctx" assume "ctx_seq d = ctx_seq c"
    then show "\<exists>c2' xs. (Inr UnitResult, host_emit E2 d build) = (Inr UnitResult, c2') \<and> ctx_store c2' = ctx_store d \<and>
        ctx_seq c2' = ctx_seq (host_emit E c build) \<and> ctx_sent c2' = ctx_sent d @ xs \<and> list_all is_emit xs"
      using e [of E2 d] e [of E c] by auto
  qed (use e [of E c] assms(1) in \<open>auto intro: grows_refl\<close>)
qed

lemma host_emit_ctx [simp]:
  "ctx_journal (host_emit E c build) = ctx_journal c" "ctx_seq (host_emit E c build) = ctx_seq c"
  using send_request_ctx [of E c "build (replaying c)"]
  by (cases "send_request E c (build (replaying c))"; simp add: host_emit_def)+

lemma dyn_host_call_replayable:
  assumes call: "dyn_host_call E c kind payload req = (r, c')" and nt: "\<not> is_terminated r" and host: "faithful_host E"
    and req: "\<And>k. req \<noteq> ReserveAgentCalls k" and ok: "unat (ctx_seq c') \<le> length (j_entries (ctx_journal c'))"
  shows "replayable (\<lambda>E c. dyn_host_call E c kind payload req) E c r c'"
proof -
  let ?g = "\<lambda>E r. case r of Inl e \<Rightarrow> Inl e | Inr v \<Rightarrow> map_sum id DynResult (value_to_dynamic E v)"
  have g: "dyn_host_call E c kind payload req = map_prod (?g E) id (host_call E c kind payload req)" for E :: "('a, 'b) wf_env" and c
    by (auto simp: dyn_host_call_def map_prod_def split: prod.split sum.split)
  obtain r0 where hc: "host_call E c kind payload req = (r0, c')" and r: "r = ?g E r0"
    using call by (cases "host_call E c kind payload req") (auto simp: g)
  have "\<not> is_terminated r0" using nt r by (cases r0) (auto simp: is_terminated_def)
  then have "replayable (\<lambda>E c. map_prod (?g E) id (host_call E c kind payload req)) E c (?g E r0) c'"
    by (intro replayable_map host_call_replayable [OF hc _ host req ok]) (simp_all add: same_program_conv split: sum.split)
  then show ?thesis unfolding g r .
qed

lemma replayable_mapped:
  assumes "map_prod (map_sum id f) id (F E c) = (r, c')"
    and "\<And>r0. F E c = (r0, c') \<Longrightarrow> r = map_sum id f r0 \<Longrightarrow> replayable F E c r0 c'"
  shows "replayable (\<lambda>E c. map_prod (map_sum id f) id (F E c)) E c r c'"
proof -
  obtain r0 where "F E c = (r0, c')" and r: "r = map_sum id f r0"
    using assms(1) by (cases "F E c") auto
  with assms(2) have "replayable F E c r0 c'" by blast
  then show ?thesis unfolding r by (rule replayable_map) simp
qed

lemma replayable_cong:
  assumes "\<And>E2 d. same_program E E2 \<Longrightarrow> F E2 d = G E2 d" and "replayable G E c r c'"
  shows "replayable F E c r c'"
  using assms(2) unfolding replayable_def by (simp add: assms(1) cong: imp_cong)

lemma call_host_fn_replayable:
  assumes call: "call_host_fn E c f = (r, c')" and nt: "\<not> is_terminated r" and host: "faithful_host E"
    and ok: "unat (ctx_seq c') \<le> length (j_entries (ctx_journal c'))"
  shows "replayable (\<lambda>E c. call_host_fn E c f) E c r c'"
proof (cases f)
  case (FnAgent prompt)
  then show ?thesis
    using call nt host ok by (auto intro!: replayable_mapped spawn_agent_call_replayable)
next
  case (FnAgentOpts prompt m)
  show ?thesis
  proof (cases "agent_opts_from_map E (Some prompt) m")
    case (Inl e)
    then show ?thesis
      using call ok FnAgentOpts same_program_conv(4) [of E] by (auto intro!: replayable_pure)
  next
    case (Inr opts)
    have "replayable (\<lambda>E c. map_prod (map_sum id DynResult) id (spawn_agent_call E c opts)) E c r c'"
      using call nt host ok Inr FnAgentOpts by (auto intro!: replayable_mapped spawn_agent_call_replayable)
    then show ?thesis
      by (rule replayable_cong [rotated]) (simp add: FnAgentOpts Inr same_program_conv(4) [of E])
  qed
next
  case (FnParallel items)
  then show ?thesis
    using call nt host ok by (auto intro!: replayable_mapped parallel_call_replayable)
next
  case (FnAwaitUser kind message)
  then show ?thesis
    using call nt ok by (auto intro!: replayable_mapped await_user_replayable)
next
  case (FnRenderTemplate name vars)
  show ?thesis
  proof (cases "map_to_value E vars")
    case (Inl e)
    then show ?thesis
      using call ok FnRenderTemplate same_program_conv(1) [of E] by (auto intro!: replayable_pure)
  next
    case (Inr v)
    have "replayable (\<lambda>E c. dyn_host_call E c (lit ''render_template'')
        (VObject [(lit ''name'', VString name), (lit ''vars'', v)]) (RenderTemplate name v)) E c r c'"
      using call nt host ok Inr FnRenderTemplate by (intro dyn_host_call_replayable) auto
    then show ?thesis
      by (rule replayable_cong [rotated]) (simp add: FnRenderTemplate Inr same_program_conv(1) [of E])
  qed
next
  case (FnTelemetry name m)
  show ?thesis
  proof (cases "map_to_value E m")
    case (Inl e)
    then show ?thesis
      using call ok FnTelemetry same_program_conv(1) [of E] by (auto intro!: replayable_pure)
  next
    case (Inr v)
    then have rc: "r = Inr UnitResult" "c' = host_emit E c (TelemetryRequest name v)"
      using call FnTelemetry by auto
    have "replayable (\<lambda>E c. (Inr UnitResult, host_emit E c (TelemetryRequest name v))) E c r c'"
      unfolding rc using ok rc host_emit_ctx by (intro emit_replayable) (simp_all add: is_emit_def)
    then show ?thesis
      by (rule replayable_cong [rotated]) (simp add: FnTelemetry Inr same_program_conv(1) [of E])
  qed
next
  case (FnPhase title)
  then show ?thesis using call ok host_emit_ctx by (auto intro!: emit_replayable simp: is_emit_def)
next
  case (FnLog message)
  then show ?thesis using call ok host_emit_ctx by (auto intro!: emit_replayable simp: is_emit_def)
next
  case (FnPrint message)
  then show ?thesis using call ok host_emit_ctx by (auto intro!: emit_replayable simp: is_emit_def)
next
  case (FnDebug message)
  then show ?thesis using call ok host_emit_ctx by (auto intro!: emit_replayable simp: is_emit_def)
next
  case (FnPause kind message)
  then show ?thesis
    using call nt ok by (cases "pause_kind_from_str kind") (auto intro!: replayable_pure)
next
  case FnBudget
  then show ?thesis using call nt host ok by (auto intro!: dyn_host_call_replayable)
next
  case (FnWriteScratchFile name content)
  then show ?thesis using call nt host ok by (auto intro!: dyn_host_call_replayable)
next
  case (FnReadScratchFile name)
  then show ?thesis using call nt host ok by (auto intro!: dyn_host_call_replayable)
next
  case (FnGitDiffSince commit)
  then show ?thesis using call nt host ok by (auto intro!: dyn_host_call_replayable)
next
  case (FnFingerprint s)
  then show ?thesis using call ok by (auto intro!: replayable_pure simp: same_program_def)
next
  case (FnJsonEncode d)
  have c': "c' = c" using call FnJsonEncode by (auto split: sum.splits)
  show ?thesis
    unfolding c'
  proof (rule replayable_pure)
    fix E2 and c2 :: "'a ctx" assume prog: "same_program E E2"
    then have "value_json E2 = value_json E" by (simp add: same_program_def)
    then show "call_host_fn E2 c2 f = (r, c2)"
      using call FnJsonEncode same_program_conv(3) [OF prog] by (auto split: sum.splits)
  qed (use ok c' in simp)
qed (use call nt ok in \<open>auto intro!: replayable_pure\<close>)

end
