(* ===== verification/Workflow_Resume.thy ===== *)
theory Workflow_Resume
  imports Workflow_Replay
begin

text \<open>
  Runs of workflow scripts and their resumption: a run over the journal that a crash left makes the
  recorded actions again, with the recorded results, and goes on from there. The last section shows
  the one kind of error that breaks this.
\<close>

subsection \<open>Runs\<close>

fun script_steps ::
  "('n, 'd) wf_env \<Rightarrow> ('n eval_error \<Rightarrow> str) \<Rightarrow> ('n, 'd) script \<Rightarrow> nat \<Rightarrow>
   'n ctx \<times> ('n eval_error + 'd call_result) list \<Rightarrow>
   ('n ctx \<times> ('n eval_error + 'd call_result) list) option" where
  "script_steps E sh script 0 s = Some s"
| "script_steps E sh script (Suc n) s =
     (case script_steps E sh script n s of
        None \<Rightarrow> None
      | Some s' \<Rightarrow> (case script_step E sh script s' of Inl _ \<Rightarrow> None | Inr s'' \<Rightarrow> Some s''))"

text \<open>The evaluation of a run goes through the states of its steps.\<close>

lemma eval_after_steps:
  "script_steps E sh script n s = Some s' \<Longrightarrow>
   eval_script E sh (\<lambda>_. False) script (n + fuel) s = eval_script E sh (\<lambda>_. False) script fuel s'"
proof (induction n arbitrary: s' fuel)
  case (Suc n)
  then obtain s1 where s1: "script_steps E sh script n s = Some s1" and "script_step E sh script s1 = Inr s'"
    by (auto split: option.splits sum.splits)
  then show ?case using Suc.IH [OF s1, of "Suc fuel"] by simp
qed simp

lemma script_step_Inr:
  assumes "script_step E sh script (c, hist) = Inr (c', hist')"
  shows "\<exists>f r. script hist = Call f \<and> call_host_fn E c f = (r, c') \<and> \<not> is_terminated r \<and> hist' = hist @ [r]"
  using assms by (auto simp: script_step_def is_terminated_def split: action.splits prod.splits sum.splits eval_error.splits)

lemma script_step_Call:
  assumes "script hist = Call f" and "call_host_fn E c f = (r, c')" and "\<not> is_terminated r"
  shows "script_step E sh script (c, hist) = Inr (c', hist @ [r])"
  using assms by (auto simp: script_step_def is_terminated_def split: sum.splits eval_error.splits)

lemma steps_replay:
  assumes host: "faithful_host E1" and prog: "same_program E1 E2"
  shows "script_steps E1 sh script n (init_ctx j d, []) = Some (c1, hist) \<Longrightarrow>
    unat (ctx_seq c1) \<le> length (j_entries (ctx_journal c1)) \<Longrightarrow> agree (unat (ctx_seq c1)) (ctx_journal c1) j2 \<Longrightarrow>
    grows (wf_codec E1) (j, d) (ctx_store c1) \<and>
    (\<exists>c2. script_steps E2 sh script n (init_ctx j2 d2, []) = Some (c2, hist) \<and> ctx_store c2 = (j2, d2) \<and>
       ctx_seq c2 = ctx_seq c1 \<and> list_all is_emit (ctx_sent c2))"
proof (induction n arbitrary: c1 hist)
  case 0
  then show ?case by (auto simp: init_ctx_def intro: grows_refl)
next
  case (Suc n)
  obtain c hist0 where s0: "script_steps E1 sh script n (init_ctx j d, []) = Some (c, hist0)"
    and step: "script_step E1 sh script (c, hist0) = Inr (c1, hist)"
    using Suc.prems(1) by (auto split: option.splits sum.splits)
  obtain f r where f: "script hist0 = Call f" "call_host_fn E1 c f = (r, c1)" "\<not> is_terminated r" "hist = hist0 @ [r]"
    using script_step_Inr [OF step] by blast
  note rep = call_host_fn_replayable [OF f(2,3) host Suc.prems(2), unfolded replayable_def]
  have grow: "grows (wf_codec E1) (ctx_store c) (ctx_store c1)" and le: "unat (ctx_seq c) \<le> unat (ctx_seq c1)"
    and ok: "unat (ctx_seq c) \<le> length (j_entries (ctx_journal c))"
    using rep by auto
  have "take (unat (ctx_seq c)) (j_entries (ctx_journal c)) = take (unat (ctx_seq c)) (j_entries (ctx_journal c1))"
    using grows_prefix [OF grow] ok by (auto simp: prefix_def)
  then have "agree (unat (ctx_seq c)) (ctx_journal c) j2"
    using agree_mono [OF Suc.prems(3) le] ok by (simp add: agree_def)
  from Suc.IH [OF s0 ok this] obtain c2 where g: "grows (wf_codec E1) (j, d) (ctx_store c)"
    and c2: "script_steps E2 sh script n (init_ctx j2 d2, []) = Some (c2, hist0)" "ctx_store c2 = (j2, d2)"
      "ctx_seq c2 = ctx_seq c" "list_all is_emit (ctx_sent c2)"
    by blast
  obtain c3 xs where c3: "call_host_fn E2 c2 f = (r, c3)" "ctx_store c3 = ctx_store c2" "ctx_seq c3 = ctx_seq c1"
    "ctx_sent c3 = ctx_sent c2 @ xs" "list_all is_emit xs"
    using rep [THEN conjunct2, THEN conjunct2, THEN conjunct2, rule_format, of E2 c2] prog c2 Suc.prems(3) by auto
  have "script_steps E2 sh script (Suc n) (init_ctx j2 d2, []) = Some (c3, hist)"
    using c2(1) script_step_Call [where script = script and hist = hist0, OF f(1) c3(1) f(3)] f(4) by simp
  then show ?case
    using grows_trans [OF grow g] c3 c2 by auto
qed

text \<open>
  C2: A run that was cut off resumes where the file left it. Let a script have made \<open>n\<close> actions of a run
  that started from a sound journal, let the run have recorded more before the machine stopped with
  only the first \<open>k\<close> bytes of the journal on disk, and let these hold the entries of the \<open>n\<close> actions.
  Then the journal loads, the loaded journal is sound, and a run of the same program over it, with any
  host, disk and clock, makes the same \<open>n\<close> actions with the same results, records nothing, sends the
  host nothing but notifications, and goes on from there.
\<close>

theorem resume_after_crash:
  assumes "faithful_host E1" and "same_program E1 E2"
    and "journal_ok (wf_codec E1) j d" and "j_path j = Some path"
    and "script_steps E1 sh script n (init_ctx j d, []) = Some (cn, hist)"
    and "unat (ctx_seq cn) \<le> length (j_entries (ctx_journal cn))"
    and "grows (wf_codec E1) (ctx_store cn) (jx, Some (RegularFile b))"
    and "list_all (codec_ok (wf_codec E1)) (j_entries jx)" and "length (j_entries jx) \<le> MAX_JOURNAL_ENTRIES"
    and "length (journal_text (wf_codec E1) (take (unat (ctx_seq cn)) (j_entries jx))) \<le> Suc k"
  shows "\<exists>j2 d2 c2.
    load_journal (wf_codec E1) (quiet_reads (Some (RegularFile (take k b)))) IoOk path (Some (RegularFile (take k b))) =
      (Inr j2, d2) \<and>
    journal_ok (wf_codec E1) j2 d2 \<and> j_path j2 = Some path \<and>
    script_steps E2 sh script n (init_ctx j2 d2, []) = Some (c2, hist) \<and>
    ctx_store c2 = (j2, d2) \<and> ctx_seq c2 = ctx_seq cn \<and> list_all is_emit (ctx_sent c2) \<and>
    (\<forall>fuel. eval_script E2 sh (\<lambda>_. False) script (n + fuel) (init_ctx j2 d2, []) =
            eval_script E2 sh (\<lambda>_. False) script fuel (c2, hist))"
proof -
  let ?C = "wf_codec E1" and ?s = "unat (ctx_seq cn)"
  let ?d2 = "Some (RegularFile (journal_text ?C (take (durable ?C (j_entries jx) k) (j_entries jx))))"
  have "agree ?s (ctx_journal cn) (ctx_journal cn)" using assms(6) by (simp add: agree_def)
  from steps_replay [OF assms(1,2,5,6) this] have "grows ?C (j, d) (jx, Some (RegularFile b))"
    using grows_trans [OF assms(7)] by blast
  from grows_ok [OF this] have ok: "journal_ok ?C jx (Some (RegularFile b))" "j_path jx = Some path"
    using assms(3,4,8) by auto
  then have b: "b = journal_text ?C (j_entries jx)" by (simp add: journal_ok_def)
  have dense: "dense_from 0 (j_entries jx)" and small: "length b \<le> 67108864"
    using ok(1) b by (simp_all add: journal_ok_def)
  obtain j2 where load: "load_journal ?C (quiet_reads (Some (RegularFile (take k b)))) IoOk path
        (Some (RegularFile (take k b))) = (Inr j2, ?d2)"
    and j2: "j_path j2 = Some path" "j_entries j2 = take (durable ?C (j_entries jx) k) (j_entries jx)" "journal_ok ?C j2 ?d2"
    using load_prefix [of ?C "j_entries jx" k path, folded b, OF assms(8) dense assms(9) small] by blast
  have pre: "prefix (j_entries (ctx_journal cn)) (j_entries jx)" using grows_prefix [OF assms(7)] by simp
  then have "?s \<le> length (j_entries jx)" using assms(6) prefix_length_le le_trans by blast
  then have "?s \<le> durable ?C (j_entries jx) k" using assms(8,10) by (intro durable_ge) auto
  then have "agree ?s (ctx_journal cn) j2"
    using assms(6) pre durable_le [of ?C "j_entries jx" k] by (auto simp: agree_def j2 prefix_def min_def)
  from steps_replay [OF assms(1,2,5,6) this, of ?d2] show ?thesis
    using load j2 eval_after_steps by blast
qed

text \<open>A small instance: one scratch file is read, and the host is gone when the run is resumed.\<close>

definition read_entry :: "nat journal_entry" where
  "read_entry = \<lparr>entry_seq = 0, entry_kind = lit ''read_scratch_file'', entry_req_hash = [],
     entry_result = VString [], entry_at_ms = 7\<rparr>"

definition sample_env :: "(nat, unit) wf_env" where
  "sample_env =
     \<lparr>wf_hash = \<lparr>sha256 = (\<lambda>_. []), value_to_string = (\<lambda>_. [])\<rparr>, wf_codec = one_entry_codec read_entry,
      num_u64 = unat, host = (\<lambda>_ _. Replied (Inr (TextReply []))), append_io = (\<lambda>_. IoOk), clock = (\<lambda>_. 7),
      to_dynamic = (\<lambda>_. Inr ()), from_dynamic = (\<lambda>_. Inr VNull), opts_from_value = (\<lambda>_. Inr default_agent_opts),
      value_json = (\<lambda>_. Inr [])\<rparr>"

definition sample_script :: "(nat, unit) script" where
  "sample_script hist = (if hist = [] then Call (FnReadScratchFile (lit ''a'')) else Return ())"

definition sample_ctx :: "nat ctx" where
  "sample_ctx =
     \<lparr>ctx_sent = [ReadScratchFile (lit ''a'')], ctx_journal = journal_of read_entry, ctx_seq = 1,
      ctx_disk = Some (RegularFile [123, 125, 10]), ctx_appends = 1\<rparr>"

lemma sample_record:
  "record_entry (one_entry_codec read_entry) IoOk 7 (new_journal (Some (lit ''/j''))) None 0 (lit ''read_scratch_file'') []
     (VString []) = (None, journal_of read_entry, Some (RegularFile [123, 125, 10]))"
  by (subst record_entry_eq [OF journal_ok_new read_entry_def one_entry_codec_ok])
    (simp add: new_journal_def append_line_def append_bytes_def journal_of_def)

lemma sample_call:
  "call_host_fn sample_env (init_ctx (new_journal (Some (lit ''/j''))) None) (FnReadScratchFile (lit ''a'')) =
     (Inr (DynResult ()), sample_ctx)"
proof -
  let ?j = "new_journal (Some (lit ''/j'')) :: nat journal"
  have "next_seq (init_ctx ?j None) = Inr (0, (init_ctx ?j None)\<lparr>ctx_seq := 1\<rparr>)"
    by (subst next_seq_ok) (simp_all add: init_ctx_def)
  moreover have "replay_any H ?j 0 k p h = Inr None" for H k p h
    by (simp add: replay_any_None_iff entry_at_def new_journal_def)
  ultimately show ?thesis
    using sample_record
    by (simp add: dyn_host_call_def host_call_def live_call_def send_request_def ctx_record_def request_hash_def
        value_to_dynamic_def reply_to_value_def sample_env_def init_ctx_def sample_ctx_def Let_def)
qed

theorem resume_after_crash_witness:
  "\<exists>j2 d2 c2.
    load_journal (wf_codec sample_env) (quiet_reads (Some (RegularFile (take 2 [123, 125, 10])))) IoOk (lit ''/j'')
      (Some (RegularFile (take 2 [123, 125, 10]))) = (Inr j2, d2) \<and>
    journal_ok (wf_codec sample_env) j2 d2 \<and> j_path j2 = Some (lit ''/j'') \<and>
    script_steps (sample_env\<lparr>host := \<lambda>_ _. ChannelClosed\<rparr>) (\<lambda>_. []) sample_script 1 (init_ctx j2 d2, []) =
      Some (c2, [Inr (DynResult ())]) \<and>
    ctx_store c2 = (j2, d2) \<and> ctx_seq c2 = ctx_seq sample_ctx \<and> list_all is_emit (ctx_sent c2) \<and>
    (\<forall>fuel. eval_script (sample_env\<lparr>host := \<lambda>_ _. ChannelClosed\<rparr>) (\<lambda>_. []) (\<lambda>_. False) sample_script (1 + fuel)
              (init_ctx j2 d2, []) =
            eval_script (sample_env\<lparr>host := \<lambda>_ _. ChannelClosed\<rparr>) (\<lambda>_. []) (\<lambda>_. False) sample_script fuel
              (c2, [Inr (DynResult ())]))"
proof (rule resume_after_crash [where jx = "journal_of read_entry" and cn = sample_ctx])
  show "faithful_host sample_env" by (simp add: faithful_host_def sample_env_def)
  show "same_program sample_env (sample_env\<lparr>host := \<lambda>_ _. ChannelClosed\<rparr>)" by (simp add: same_program_def)
  show "journal_ok (wf_codec sample_env) (new_journal (Some (lit ''/j''))) None" by (rule journal_ok_new)
  show "j_path (new_journal (Some (lit ''/j''))) = Some (lit ''/j'')" by (simp add: new_journal_def)
  show "script_steps sample_env (\<lambda>_. []) sample_script 1 (init_ctx (new_journal (Some (lit ''/j''))) None, []) =
      Some (sample_ctx, [Inr (DynResult ())])"
    using script_step_Call [of sample_script "[]", OF _ sample_call, of "\<lambda>_. []"]
    by (simp add: sample_script_def)
  show "unat (ctx_seq sample_ctx) \<le> length (j_entries (ctx_journal sample_ctx))"
    by (simp add: sample_ctx_def journal_of_def)
  show "grows (wf_codec sample_env) (ctx_store sample_ctx) (journal_of read_entry, Some (RegularFile [123, 125, 10]))"
    by (simp add: sample_ctx_def grows_refl)
  show "list_all (codec_ok (wf_codec sample_env)) (j_entries (journal_of read_entry))"
    using one_entry_codec_ok [of read_entry] by (simp add: sample_env_def journal_of_def)
  show "length (j_entries (journal_of read_entry)) \<le> MAX_JOURNAL_ENTRIES"
    by (simp add: journal_of_def MAX_JOURNAL_ENTRIES_def)
  show "length (journal_text (wf_codec sample_env) (take (unat (ctx_seq sample_ctx)) (j_entries (journal_of read_entry)))) \<le> Suc 2"
    by (simp add: sample_env_def sample_ctx_def journal_of_def)
qed

subsection \<open>An error that is caught but not recorded\<close>

text \<open>
  A script that starts an agent, catches the error if that fails and asks for the budget instead.
\<close>

definition fallback_script :: "str \<Rightarrow> 'd \<Rightarrow> ('n, 'd) script" where
  "fallback_script prompt d hist =
     (case hist of
        [] \<Rightarrow> Call (FnAgent prompt)
      | [Inl _] \<Rightarrow> Call FnBudget
      | _ \<Rightarrow> Return d)"

lemma fallback_agent_fails:
  assumes "host E 0 (ReserveAgentCalls 1) = Replied (Inl (HostFailed msg))"
  shows "call_host_fn E (init_ctx (new_journal None) None) (FnAgent prompt) =
    (Inl (ErrorRuntime msg), (init_ctx (new_journal None) None)\<lparr>ctx_sent := [ReserveAgentCalls 1]\<rparr>)"
proof -
  have "replay_spawn_agent H (new_journal None) 0 p h = Inr None" for H :: "'a hash_env" and p h
    by (simp add: replay_spawn_agent_None_iff entry_at_def new_journal_def)
  then show ?thesis
    using assms by (simp add: spawn_agent_call_def reserve_agent_calls_def send_request_def init_ctx_def Let_def)
qed

lemma fallback_budget:
  assumes "host E 1 BudgetQuery = Replied (Inr (BudgetReply budget))"
    and e: "e = \<lparr>entry_seq = 0, entry_kind = lit ''budget'',
           entry_req_hash = request_hash (wf_hash E) (lit ''budget'') VNull,
           entry_result = budget_to_value (num_u64 E) budget, entry_at_ms = clock E 0\<rparr>"
    and "entry_to_string (wf_codec E) e = Inr s" and "str_len s < 1000"
    and "to_dynamic E (budget_to_value (num_u64 E) budget) = Inr d'"
  shows "\<exists>c. call_host_fn E ((init_ctx (new_journal None) None)\<lparr>ctx_sent := [ReserveAgentCalls 1]\<rparr>) FnBudget =
      (Inr (DynResult d'), c) \<and> j_entries (ctx_journal c) = [e]"
proof -
  let ?j = "new_journal None :: 'a journal"
  let ?c = "(init_ctx ?j None)\<lparr>ctx_sent := [ReserveAgentCalls 1]\<rparr>"
  have n: "next_seq ?c = Inr (0, ?c\<lparr>ctx_seq := 1\<rparr>)"
    by (subst next_seq_ok) (simp_all add: init_ctx_def)
  have live: "replay_any H ?j 0 k p h = Inr None" for H k p h
    by (simp add: replay_any_None_iff entry_at_def new_journal_def)
  have small: "\<not> MAX_JOURNAL_BYTES < saturating_add 0 (of_nat (str_len (s @ [10])))"
  proof -
    have "str_len (s @ [10]) = Suc (str_len s)" by (simp add: len_utf8_def)
    then show ?thesis
      using assms(4) by (simp only: word_less_nat_alt unat_saturating_add unat_of_nat) simp
  qed
  have r: "\<exists>j'. record_entry (wf_codec E) io (clock E 0) ?j None 0 (lit ''budget'')
      (request_hash (wf_hash E) (lit ''budget'') VNull) (budget_to_value (num_u64 E) budget) = (None, j', None) \<and> j_entries j' = [e]" for io
    unfolding record_entry_def Let_def e [symmetric] assms(3)
    using small by (simp add: validate_sequence_def new_journal_def e del: max_bytes)
  obtain j' where "record_entry (wf_codec E) (append_io E 0) (clock E 0) ?j None 0 (lit ''budget'')
      (request_hash (wf_hash E) (lit ''budget'') VNull) (budget_to_value (num_u64 E) budget) = (None, j', None)" and "j_entries j' = [e]"
    using r by blast
  then show ?thesis
    using assms(1,5) n live
    by (simp add: dyn_host_call_def host_call_def live_call_def send_request_def ctx_record_def init_ctx_def
        value_to_dynamic_def reply_to_value_def Let_def)
qed

lemma fallback_diverges:
  assumes "j_entries j = [e]" and "entry_kind e = lit ''budget''"
  shows "call_host_fn E (init_ctx j d) (FnAgent prompt) =
    (Inl (fatal (journal_error_to_string (JournalDivergence 0 spawn_agent_kind))), init_ctx j d)"
proof -
  let ?p = "opts_to_value (num_u64 E) (default_agent_opts\<lparr>opt_prompt := prompt\<rparr>)"
  obtain m where "value_as_object ?p = Some m" and "map_of m (lit ''effort'') = None"
    by (simp add: opts_to_value_def default_agent_opts_def)
  moreover have "replay j 0 spawn_agent_kind h = Inl (JournalDivergence 0 spawn_agent_kind)" for h
    using assms by (simp add: replay_def)
  ultimately have "replay_spawn_agent H j 0 ?p h = Inl (JournalDivergence 0 spawn_agent_kind)" for H h
    by (simp add: replay_spawn_agent_def)
  then show ?thesis
    by (simp add: spawn_agent_call_def init_ctx_def journal_fatal_def Let_def)
qed

text \<open>
  C34: A reservation of agent calls that fails leaves no entry, though the script can catch the error:
  \<open>reserve_agent_calls\<close> turns \<^verbatim>\<open>HostError::Failed\<close>, which the host sends when it cannot persist the
  reservation, into a runtime error. A script that falls back to another call completes, but its
  recorded call then has the number of the agent call: every resumption of the run fails with a
  replay divergence, with any host.
\<close>

theorem caught_reservation_failure_diverges:
  assumes "host E 0 (ReserveAgentCalls 1) = Replied (Inl (HostFailed msg))"
    and "host E 1 BudgetQuery = Replied (Inr (BudgetReply budget))"
    and "entry_to_string (wf_codec E) \<lparr>entry_seq = 0, entry_kind = lit ''budget'',
           entry_req_hash = request_hash (wf_hash E) (lit ''budget'') VNull,
           entry_result = budget_to_value (num_u64 E) budget, entry_at_ms = clock E 0\<rparr> = Inr s"
    and "str_len s < 1000" and "to_dynamic E (budget_to_value (num_u64 E) budget) = Inr d'"
  shows "\<exists>c. eval_script E sh (\<lambda>_. False) (fallback_script prompt d) 3 (init_ctx (new_journal None) None, []) =
        (OutcomeCompleted (dynamic_to_value E d), c) \<and>
      (\<forall>E2 fuel. fst (eval_script E2 sh (\<lambda>_. False) (fallback_script prompt d) (Suc fuel) (init_ctx (ctx_journal c) None, [])) =
        OutcomeFailed (journal_error_to_string (JournalDivergence 0 spawn_agent_kind)))"
proof -
  let ?c0 = "init_ctx (new_journal None) None :: 'a ctx"
  let ?c1 = "?c0\<lparr>ctx_sent := [ReserveAgentCalls 1]\<rparr>"
  obtain c where c: "call_host_fn E ?c1 FnBudget = (Inr (DynResult d'), c)"
    and e: "\<exists>e. j_entries (ctx_journal c) = [e] \<and> entry_kind e = lit ''budget''"
    using fallback_budget [OF assms(2) refl assms(3-5)] by auto
  have s1: "script_step E sh (fallback_script prompt d) (?c0, []) = Inr (?c1, [Inl (ErrorRuntime msg)])"
    using fallback_agent_fails [OF assms(1)] by (simp add: script_step_def fallback_script_def)
  have s2: "script_step E sh (fallback_script prompt d) (?c1, [Inl (ErrorRuntime msg)]) =
      Inr (c, [Inl (ErrorRuntime msg), Inr (DynResult d')])"
    using c by (simp add: script_step_def fallback_script_def)
  have s3: "script_step E sh (fallback_script prompt d) (c, [Inl (ErrorRuntime msg), Inr (DynResult d')]) =
      Inl (OutcomeCompleted (dynamic_to_value E d), c)"
    by (simp add: script_step_def fallback_script_def)
  have first: "eval_script E sh (\<lambda>_. False) (fallback_script prompt d) 3 (?c0, []) = (OutcomeCompleted (dynamic_to_value E d), c)"
    by (simp add: numeral_3_eq_3 s1 s2 s3)
  have "fst (eval_script E2 sh (\<lambda>_. False) (fallback_script prompt d) (Suc fuel) (init_ctx (ctx_journal c) None, [])) =
      OutcomeFailed (journal_error_to_string (JournalDivergence 0 spawn_agent_kind))" for E2 fuel
    using e fallback_diverges [of "ctx_journal c" _ E2 None prompt]
    by (auto simp: script_step_def fallback_script_def terminated_def outcome_from_error_def)
  then show ?thesis using first by blast
qed

definition broke_env :: "(nat, unit) wf_env" where
  "broke_env = sample_env\<lparr>
     wf_codec := \<lparr>entry_to_string = (\<lambda>_. Inr []), entry_from_slice = (\<lambda>_. Inl [])\<rparr>,
     host := (\<lambda>_ r. case r of
         ReserveAgentCalls _ \<Rightarrow> Replied (Inl (HostFailed (lit ''not persisted'')))
       | _ \<Rightarrow> Replied (Inr (BudgetReply \<lparr>bud_total = None, bud_spent = 0, bud_reserved = 0, bud_remaining = None\<rparr>)))\<rparr>"

theorem caught_reservation_failure_diverges_witness:
  "\<exists>c. eval_script broke_env (\<lambda>_. []) (\<lambda>_. False) (fallback_script (lit ''p'') ()) 3 (init_ctx (new_journal None) None, []) =
        (OutcomeCompleted (dynamic_to_value broke_env ()), c) \<and>
      (\<forall>E2 fuel. fst (eval_script E2 (\<lambda>_. []) (\<lambda>_. False) (fallback_script (lit ''p'') ()) (Suc fuel) (init_ctx (ctx_journal c) None, [])) =
        OutcomeFailed (journal_error_to_string (JournalDivergence 0 spawn_agent_kind)))"
  by (rule caught_reservation_failure_diverges
      [where s = "[]" and d' = "()" and msg = "lit ''not persisted''" and
        budget = "\<lparr>bud_total = None, bud_spent = 0, bud_reserved = 0, bud_remaining = None\<rparr>"])
    (simp_all add: broke_env_def sample_env_def)

end
