(* ===== verification/Workflow_Meta.thy ===== *)
theory Workflow_Meta
  imports Workflow_Engine
begin

text \<open>
  The metadata a workflow script opens with, \<^verbatim>\<open>xai-workflow/src/meta.rs\<close>: the scan that finds the
  declaration, the probe that reads it, and its validation. The interpreter that compiles and runs
  the script is outside the repository, and so are its conversion of a map into the metadata and the
  \<^verbatim>\<open>{:?}\<close> form of a string, which follows tables of the Unicode standard: they are the fields of
  \<open>meta_env\<close>.
\<close>

declare lit_Cons [simp del]

definition MAX_WORKFLOW_NAME_LEN :: nat where "MAX_WORKFLOW_NAME_LEN = 64"
definition MAX_WORKFLOW_DESCRIPTION_LEN :: nat where "MAX_WORKFLOW_DESCRIPTION_LEN = 1024"
definition MAX_WORKFLOW_WHEN_TO_USE_LEN :: nat where "MAX_WORKFLOW_WHEN_TO_USE_LEN = 2048"
definition MAX_WORKFLOW_PHASES :: nat where "MAX_WORKFLOW_PHASES = 64"
definition MAX_PHASE_TITLE_LEN :: nat where "MAX_PHASE_TITLE_LEN = 128"
definition MAX_PHASE_DETAIL_LEN :: nat where "MAX_PHASE_DETAIL_LEN = 1024"

lemmas meta_limits = MAX_WORKFLOW_NAME_LEN_def MAX_WORKFLOW_DESCRIPTION_LEN_def MAX_WORKFLOW_WHEN_TO_USE_LEN_def
  MAX_WORKFLOW_PHASES_def MAX_PHASE_TITLE_LEN_def MAX_PHASE_DETAIL_LEN_def

record phase_meta =
  phase_title :: str
  phase_detail :: "str option"

record workflow_meta =
  meta_name :: str
  meta_description :: str
  meta_when_to_use :: "str option"
  meta_phases :: "phase_meta list"

datatype meta_error =
    MetaParse str
  | MetaNotFirst
  | MetaInvalidShape str
  | MetaMissingField str
  | MetaInvalidName
  | MetaStringTooLong str nat nat
  | MetaTooManyPhases nat nat

record 'm meta_env =
  compile_script :: "str \<Rightarrow> str + unit"
  eval_meta :: "str \<Rightarrow> 'm option"
  meta_from_dynamic :: "'m \<Rightarrow> str + workflow_meta"
  debug_str :: "str \<Rightarrow> str"

subsection \<open>Validation\<close>

definition validate_len :: "str \<Rightarrow> str \<Rightarrow> nat \<Rightarrow> meta_error + unit" where
  "validate_len field v max_len =
     (if max_len < str_len v then Inl (MetaStringTooLong field max_len (str_len v)) else Inr ())"

definition is_name_byte :: "nat \<Rightarrow> bool" where
  "is_name_byte b \<longleftrightarrow> 97 \<le> b \<and> b \<le> 122 \<or> 48 \<le> b \<and> b \<le> 57"

definition valid_workflow_name :: "str \<Rightarrow> bool" where
  "valid_workflow_name nm =
     (let bytes = utf8_bytes nm
      in bytes \<noteq> [] \<and> is_name_byte (hd bytes) \<and> is_name_byte (List.last bytes) \<and>
         list_all (\<lambda>b. is_name_byte b \<or> b = 45) bytes \<and>
         \<not> list_ex (\<lambda>(a, b). a = 45 \<and> b = 45) (zip bytes (tl bytes)))"

text \<open>The first failure of a sequence of checks.\<close>

primrec first_failure :: "('e + unit) list \<Rightarrow> 'e + unit" where
  "first_failure [] = Inr ()"
| "first_failure (r # rs) = (case r of Inl e \<Rightarrow> Inl e | Inr _ \<Rightarrow> first_failure rs)"

fun validate_phases :: "'m meta_env \<Rightarrow> str set \<Rightarrow> nat \<Rightarrow> phase_meta list \<Rightarrow> meta_error + unit" where
  "validate_phases E titles index [] = Inr ()"
| "validate_phases E titles index (phase # phases) =
     (let field = (\<lambda>f. lit ''meta.phases['' @ show_nat index @ lit ''].'' @ f)
      in if trim (phase_title phase) = [] then Inl (MetaMissingField (lit ''meta.phases[].title''))
         else if phase_title phase \<in> titles
         then Inl (MetaInvalidShape (lit ''duplicate meta.phases[].title: '' @ debug_str E (phase_title phase)))
         else case first_failure
                [validate_len (field (lit ''title'')) (phase_title phase) MAX_PHASE_TITLE_LEN,
                 case phase_detail phase of None \<Rightarrow> Inr ()
                 | Some detail \<Rightarrow> validate_len (field (lit ''detail'')) detail MAX_PHASE_DETAIL_LEN] of
              Inl e \<Rightarrow> Inl e
            | Inr _ \<Rightarrow> validate_phases E (insert (phase_title phase) titles) (index + 1) phases)"

definition validate_meta :: "'m meta_env \<Rightarrow> workflow_meta \<Rightarrow> meta_error + unit" where
  "validate_meta E m =
     first_failure
       [if trim (meta_name m) = [] then Inl (MetaMissingField (lit ''meta.name'')) else Inr (),
        validate_len (lit ''meta.name'') (meta_name m) MAX_WORKFLOW_NAME_LEN,
        if \<not> valid_workflow_name (meta_name m) then Inl MetaInvalidName else Inr (),
        if trim (meta_description m) = [] then Inl (MetaMissingField (lit ''meta.description'')) else Inr (),
        validate_len (lit ''meta.description'') (meta_description m) MAX_WORKFLOW_DESCRIPTION_LEN,
        case meta_when_to_use m of None \<Rightarrow> Inr ()
        | Some w \<Rightarrow> validate_len (lit ''meta.when_to_use'') w MAX_WORKFLOW_WHEN_TO_USE_LEN,
        if MAX_WORKFLOW_PHASES < length (meta_phases m)
        then Inl (MetaTooManyPhases MAX_WORKFLOW_PHASES (length (meta_phases m))) else Inr (),
        validate_phases E {} 0 (meta_phases m)]"

subsection \<open>The declaration comes first\<close>

lemma split_once_length: "split_once s p = Some (a, b) \<Longrightarrow> length b \<le> length s - length p"
  by (auto dest: split_once_append)

text \<open>The loop over whitespace and comments; \<open>None\<close> where a block comment does not end.\<close>

function skip_trivia :: "str \<Rightarrow> str option" where
  "skip_trivia script =
     (let rest = trim_start script
      in case strip_prefix rest (lit ''//'') of
           Some after \<Rightarrow> skip_trivia (case split_once after [10] of Some (_, r) \<Rightarrow> r | None \<Rightarrow> [])
         | None \<Rightarrow>
             (case strip_prefix rest (lit ''/*'') of
                Some after \<Rightarrow>
                  (case split_once after (lit ''*/'') of Some (_, r) \<Rightarrow> skip_trivia r | None \<Rightarrow> None)
              | None \<Rightarrow> Some rest))"
  by pat_completeness auto

lemma trim_start_length: "length (trim_start s) \<le> length s"
  by (simp add: trim_start_def length_dropWhile_le)

lemma strip_prefix_shorter:
  assumes "strip_prefix (trim_start s) p = Some after" and "p \<noteq> []" and "length r \<le> length after"
  shows "length r < length s"
proof -
  have "trim_start s = p @ after" using assms(1) by (simp add: strip_prefix_Some_iff)
  then have "length p + length after \<le> length s" using trim_start_length [of s] by simp
  then show ?thesis using assms(2,3) by (cases p) auto
qed

lemma lit_comment [simp]: "lit ''//'' \<noteq> []" "lit ''/*'' \<noteq> []"
  by (simp_all add: lit_Cons)

termination skip_trivia
proof (relation "measure length")
  fix script rest after
  assume "rest = trim_start script" "strip_prefix rest (lit ''//'') = Some after"
  moreover have "length (case split_once after [10] of Some (_, r) \<Rightarrow> r | None \<Rightarrow> []) \<le> length after"
    by (auto split: option.splits dest: split_once_length)
  ultimately show "((case split_once after [10] of Some (_, r) \<Rightarrow> r | None \<Rightarrow> []), script) \<in> measure length"
    using strip_prefix_shorter [of script "lit ''//''" after] by simp
next
  fix script rest after x a r
  assume "rest = trim_start script" "strip_prefix rest (lit ''/*'') = Some after"
    "split_once after (lit ''*/'') = Some x" "(a, r) = x"
  then show "(r, script) \<in> measure length"
    by (auto dest!: split_once_length intro!: strip_prefix_shorter [of script "lit ''/*''"])
qed simp

declare skip_trivia.simps [simp del]

definition first_statement_is_meta :: "str \<Rightarrow> bool" where
  "first_statement_is_meta script =
     (case skip_trivia script of
        None \<Rightarrow> False
      | Some rest \<Rightarrow> starts_with rest (lit ''let meta'') \<or> starts_with rest (lit ''const meta''))"

definition extract_meta :: "'m meta_env \<Rightarrow> str \<Rightarrow> meta_error + workflow_meta" where
  "extract_meta E script =
     (if \<not> first_statement_is_meta script then Inl MetaNotFirst
      else case compile_script E script of
          Inl e \<Rightarrow> Inl (MetaParse (with_rhai_hint e))
        | Inr _ \<Rightarrow>
            (case eval_meta E script of
               None \<Rightarrow> Inl MetaNotFirst
             | Some d \<Rightarrow>
                 (case meta_from_dynamic E d of
                    Inl e \<Rightarrow> Inl (MetaInvalidShape e)
                  | Inr m \<Rightarrow> (case validate_meta E m of Inl e \<Rightarrow> Inl e | Inr _ \<Rightarrow> Inr m))))"

subsection \<open>Names are words joined by hyphens\<close>

text \<open>The grammar of names: words of letters and digits, one hyphen between two of them.\<close>

definition is_name_word :: "str \<Rightarrow> bool" where
  "is_name_word w \<longleftrightarrow> w \<noteq> [] \<and> list_all is_name_byte w"

fun name_chars :: "str \<Rightarrow> bool" where
  "name_chars [] \<longleftrightarrow> False"
| "name_chars [c] \<longleftrightarrow> is_name_byte c"
| "name_chars (c # d # s) \<longleftrightarrow> is_name_byte c \<and> (if d = 45 then name_chars s else name_chars (d # s))"

lemma is_name_byte_45 [simp]: "\<not> is_name_byte 45"
  by (simp add: is_name_byte_def)

lemma name_chars_iff:
  "name_chars s \<longleftrightarrow> s \<noteq> [] \<and> is_name_byte (hd s) \<and> is_name_byte (List.last s) \<and>
     list_all (\<lambda>b. is_name_byte b \<or> b = 45) s \<and> \<not> list_ex (\<lambda>(a, b). a = 45 \<and> b = 45) (zip s (tl s))"
proof (induction s rule: name_chars.induct)
  case (3 c d s)
  then show ?case by (cases s) auto
qed auto

lemma valid_workflow_name_chars: "valid_workflow_name s \<longleftrightarrow> name_chars s"
proof
  assume "valid_workflow_name s"
  then have *: "list_all (\<lambda>b. is_name_byte b \<or> b = 45) (utf8_bytes s)" and "name_chars (utf8_bytes s)"
    by (auto simp: valid_workflow_name_def Let_def name_chars_iff)
  moreover have "utf8_bytes s = s"
    using * by (intro utf8_bytes_all_ascii) (auto simp: list_all_iff is_name_byte_def)
  ultimately show "name_chars s" by simp
next
  assume chars: "name_chars s"
  then have "utf8_bytes s = s"
    by (intro utf8_bytes_ascii) (auto simp: name_chars_iff list_all_iff is_name_byte_def)
  with chars show "valid_workflow_name s"
    by (simp add: valid_workflow_name_def Let_def name_chars_iff)
qed

lemma name_chars_hd: "name_chars (c # s) \<Longrightarrow> is_name_byte c"
  by (cases s) auto

lemma name_chars_word: "w \<noteq> [] \<Longrightarrow> list_all is_name_byte w \<Longrightarrow> name_chars w"
  by (induction w rule: name_chars.induct) auto

lemma name_chars_join: "ws \<noteq> [] \<Longrightarrow> list_all is_name_word ws \<Longrightarrow> name_chars (join [45] ws)"
proof (induction ws rule: list_nonempty_induct)
  case (single w)
  then show ?case by (simp add: is_name_word_def name_chars_word)
next
  case (cons w ws)
  have "w \<noteq> []" "list_all is_name_byte w" "name_chars (join [45] ws)"
    using cons by (simp_all add: is_name_word_def)
  then have "name_chars (w @ 45 # join [45] ws)"
  proof (induction w rule: list_nonempty_induct)
    case (cons c w)
    then have "name_chars (w @ 45 # join [45] ws)" "is_name_byte c" by simp_all
    with cons(1) show ?case by (cases w) (auto dest: name_chars_hd)
  qed simp
  with cons(1) show ?case by (cases ws) simp_all
qed

lemma name_chars_words: "name_chars s \<Longrightarrow> \<exists>ws. ws \<noteq> [] \<and> list_all is_name_word ws \<and> s = join [45] ws"
proof (induction s rule: name_chars.induct)
  case (2 c)
  then show ?case by (intro exI [of _ "[[c]]"]) (simp add: is_name_word_def)
next
  case (3 c d s)
  show ?case
  proof (cases "d = 45")
    case True
    with 3 obtain w ws where "list_all is_name_word (w # ws)" "s = join [45] (w # ws)"
      by (auto simp: neq_Nil_conv)
    with True 3(3) show ?thesis
      by (intro exI [of _ "[c] # w # ws"]) (simp add: is_name_word_def [of "[c]"])
  next
    case False
    with 3 obtain w ws where "list_all is_name_word (w # ws)" "d # s = join [45] (w # ws)"
      by (auto simp: neq_Nil_conv)
    with False name_chars_hd [OF 3(3)] show ?thesis
      by (intro exI [of _ "(c # w) # ws"]) (cases ws; auto simp: is_name_word_def [of w] is_name_word_def [of "c # w"] split: if_splits)
  qed
qed simp

text \<open>
  A workflow name is accepted exactly when it is one or more non-empty words of lower-case
  ASCII letters and digits joined by single hyphens, which is what the error message says.
\<close>

theorem valid_name_grammar:
  "valid_workflow_name s \<longleftrightarrow> (\<exists>ws. ws \<noteq> [] \<and> list_all is_name_word ws \<and> s = join (lit ''-'') ws)"
  using name_chars_join name_chars_words by (auto simp: valid_workflow_name_chars lit_Cons)

subsection \<open>What validation accepts\<close>

lemma validate_len_ok [simp]: "validate_len field v n = Inr u \<longleftrightarrow> str_len v \<le> n"
  by (auto simp: validate_len_def)

lemma validate_len_error [simp]: "validate_len field v n = Inl e \<longleftrightarrow> n < str_len v \<and> e = MetaStringTooLong field n (str_len v)"
  by (auto simp: validate_len_def)

definition phase_fits :: "phase_meta \<Rightarrow> bool" where
  "phase_fits p \<longleftrightarrow> trim (phase_title p) \<noteq> [] \<and> str_len (phase_title p) \<le> MAX_PHASE_TITLE_LEN \<and>
     pred_option (\<lambda>d. str_len d \<le> MAX_PHASE_DETAIL_LEN) (phase_detail p)"

lemma first_failure_ok: "first_failure rs = Inr u \<longleftrightarrow> (\<forall>r \<in> set rs. r = Inr ())"
  by (induction rs) (auto split: sum.splits)

declare first_failure.simps(2) [simp del]

lemma validate_phases_ok:
  "validate_phases E titles i ps = Inr u \<longleftrightarrow>
     list_all phase_fits ps \<and> distinct (map phase_title ps) \<and> titles \<inter> phase_title ` set ps = {}"
proof (induction E titles i ps rule: validate_phases.induct)
  case (2 E titles i p ps)
  show ?case
    using 2 by (auto simp: Let_def first_failure.simps phase_fits_def split: option.splits sum.splits if_splits)
qed simp

lemma blank_name_invalid: "trim s = [] \<Longrightarrow> \<not> valid_workflow_name s"
proof
  assume blank: "trim s = []" and "valid_workflow_name s"
  then have "s \<noteq> []" "is_name_byte (hd s)" "is_name_byte (List.last s)"
    by (auto simp: valid_workflow_name_chars name_chars_iff)
  then have "trimmed s" by (auto simp: trimmed_def is_name_byte_def is_whitespace_def)
  with blank \<open>s \<noteq> []\<close> show False by simp
qed

text \<open>
  Metadata passes validation exactly when its name is a valid name of at most 64 bytes, its
  description is not blank, every text is within its limit, there are at most 64 phases and their
  titles are not blank and pairwise different.
\<close>

theorem validate_meta_accepts:
  "validate_meta E m = Inr () \<longleftrightarrow>
     valid_workflow_name (meta_name m) \<and> str_len (meta_name m) \<le> 64 \<and>
     trim (meta_description m) \<noteq> [] \<and> str_len (meta_description m) \<le> 1024 \<and>
     pred_option (\<lambda>w. str_len w \<le> 2048) (meta_when_to_use m) \<and>
     length (meta_phases m) \<le> 64 \<and> distinct (map phase_title (meta_phases m)) \<and>
     list_all (\<lambda>p. trim (phase_title p) \<noteq> [] \<and> str_len (phase_title p) \<le> 128 \<and>
       pred_option (\<lambda>d. str_len d \<le> 1024) (phase_detail p)) (meta_phases m)"
  using blank_name_invalid [of "meta_name m"]
  by (auto simp: validate_meta_def first_failure_ok validate_phases_ok meta_limits phase_fits_def list_all_iff
      split: option.splits if_splits)

end
