(* ===== verification/Workflow_Tracker.thy ===== *)
theory Workflow_Tracker
  imports Workflow_Meta Rust_Slice
begin

text \<open>
  The runs of a session, \<^verbatim>\<open>session/workflow/tracker.rs\<close> of \<^verbatim>\<open>xai-grok-shell\<close>: status, agent budget,
  history, agent rows and what has been reported of each run. A method that looks up a run and
  changes it is a function on \<open>tracked_run\<close> applied by \<open>with_run\<close>. A reading of the wall clock, as
  text, and of the monotonic clock is an argument of the operation that makes it. A hash set is a
  set, a hash map a map.
\<close>

declare lit_Cons [simp del]

subsection \<open>Status\<close>

datatype run_status =
    StActive | StUserPaused | StBackOffPaused | StNoProgressPaused | StInfraPaused | StBlocked
  | StBudgetLimited | StInterrupted | StComplete | StFailed | StCancelled

fun status_as_ref :: "run_status \<Rightarrow> str" where
  "status_as_ref StActive = lit ''active''"
| "status_as_ref StUserPaused = lit ''user_paused''"
| "status_as_ref StBackOffPaused = lit ''back_off_paused''"
| "status_as_ref StNoProgressPaused = lit ''no_progress_paused''"
| "status_as_ref StInfraPaused = lit ''infra_paused''"
| "status_as_ref StBlocked = lit ''blocked''"
| "status_as_ref StBudgetLimited = lit ''budget_limited''"
| "status_as_ref StInterrupted = lit ''interrupted''"
| "status_as_ref StComplete = lit ''complete''"
| "status_as_ref StFailed = lit ''failed''"
| "status_as_ref StCancelled = lit ''cancelled''"

definition is_terminal :: "run_status \<Rightarrow> bool" where
  "is_terminal s \<longleftrightarrow> s \<in> {StInterrupted, StComplete, StFailed, StCancelled}"

definition is_completion_reportable :: "run_status \<Rightarrow> bool" where
  "is_completion_reportable s \<longleftrightarrow> is_terminal s \<or> s = StBudgetLimited"

definition is_paused :: "run_status \<Rightarrow> bool" where
  "is_paused s \<longleftrightarrow>
     s \<in> {StUserPaused, StBackOffPaused, StNoProgressPaused, StInfraPaused, StBlocked, StBudgetLimited}"

definition is_resumable :: "run_status \<Rightarrow> bool" where
  "is_resumable s \<longleftrightarrow> is_paused s \<or> s = StFailed \<or> s = StCancelled"

datatype workflow_control = ControlPause | ControlStop

fun accepts :: "run_status \<Rightarrow> workflow_control \<Rightarrow> bool" where
  "accepts s ControlPause \<longleftrightarrow> s = StActive"
| "accepts s ControlStop \<longleftrightarrow> \<not> is_completion_reportable s"

fun from_pause :: "pause_kind \<Rightarrow> run_status" where
  "from_pause PauseUser = StUserPaused"
| "from_pause PauseBackOff = StBackOffPaused"
| "from_pause PauseNoProgress = StNoProgressPaused"
| "from_pause PauseVerification = StBlocked"
| "from_pause PauseInfra = StInfraPaused"

fun pause_kind_as_ref :: "pause_kind \<Rightarrow> str" where
  "pause_kind_as_ref PauseUser = lit ''user''"
| "pause_kind_as_ref PauseBackOff = lit ''back_off''"
| "pause_kind_as_ref PauseNoProgress = lit ''no_progress''"
| "pause_kind_as_ref PauseVerification = lit ''verification''"
| "pause_kind_as_ref PauseInfra = lit ''infra''"

fun outcome_kind :: "'n workflow_outcome \<Rightarrow> str" where
  "outcome_kind (OutcomeCompleted _) = lit ''completed''"
| "outcome_kind (OutcomePaused _ _) = lit ''paused''"
| "outcome_kind (OutcomeBudgetExceeded _) = lit ''budget_exceeded''"
| "outcome_kind OutcomeCancelled = lit ''cancelled''"
| "outcome_kind (OutcomeFailed _) = lit ''failed''"

subsection \<open>The state of a run\<close>

record history_entry =
  hist_event :: str
  hist_detail :: "str option"
  hist_at :: str

record token_lease =
  lease_id :: str
  lease_grant :: u64

record agent_row =
  row_agent_id :: str
  row_label :: str
  row_phase :: "str option"
  row_model :: "str option"
  row_state :: str
  row_tokens_used :: u64
  row_duration_ms :: u64

record run_state =
  st_run_id :: str
  st_revision :: u64
  st_name :: str
  st_objective :: str
  st_status :: run_status
  st_phases :: "phase_meta list"
  st_current_phase :: "str option"
  st_agent_budget :: "u64 option"
  st_agents_used :: u64
  st_token_leases :: "token_lease list"
  st_agent_usage_incomplete :: bool
  st_elapsed_ms_floor :: u64
  st_pause_message :: "str option"
  st_history :: "history_entry list"
  st_journal_path :: "str option"
  st_result_summary :: "str option"
  st_agents :: "agent_row list"

record tracked_run =
  tr_state :: run_state
  tr_active_since :: "instant option"
  tr_execution_epoch :: u64

record tracker =
  tk_runs :: "tracked_run list"
  tk_reported :: "str set"
  tk_terminal_at_restore :: "str set"
  tk_status_reported :: "str \<rightharpoonup> u64"

definition default_tracker :: tracker where
  "default_tracker = \<lparr>tk_runs = [], tk_reported = {}, tk_terminal_at_restore = {}, tk_status_reported = Map.empty\<rparr>"

definition WORKFLOW_HISTORY_MAX :: nat where "WORKFLOW_HISTORY_MAX = 64"
definition WORKFLOW_PAUSE_MESSAGE_MAX_BYTES :: nat where "WORKFLOW_PAUSE_MESSAGE_MAX_BYTES = 4 * 1024"
definition WORKFLOW_AGENT_ROWS_MAX :: nat where "WORKFLOW_AGENT_ROWS_MAX = 256"
definition MAX_AGENT_BUDGET :: u64 where "MAX_AGENT_BUDGET = 1024"
definition MAX_SUMMARY :: nat where "MAX_SUMMARY = 16 * 1024"

abbreviation run_id :: "tracked_run \<Rightarrow> str" where "run_id r \<equiv> st_run_id (tr_state r)"
abbreviation run_name :: "tracked_run \<Rightarrow> str" where "run_name r \<equiv> st_name (tr_state r)"
abbreviation run_status :: "tracked_run \<Rightarrow> run_status" where "run_status r \<equiv> st_status (tr_state r)"
abbreviation run_revision :: "tracked_run \<Rightarrow> u64" where "run_revision r \<equiv> st_revision (tr_state r)"

definition advance_revision :: "run_state \<Rightarrow> run_state" where
  "advance_revision s = s\<lparr>st_revision := saturating_add (st_revision s) 1\<rparr>"

definition record_event :: "str \<Rightarrow> str \<Rightarrow> str option \<Rightarrow> run_state \<Rightarrow> run_state" where
  "record_event at event detail s =
     (let s = advance_revision s;
          history = st_history s @ [\<lparr>hist_event = event, hist_detail = detail, hist_at = at\<rparr>];
          excess = (if WORKFLOW_HISTORY_MAX < length history then length history - WORKFLOW_HISTORY_MAX else 0)
      in s\<lparr>st_history := drop excess history\<rparr>)"

text \<open>\<^verbatim>\<open>truncate_str\<close> slices at a boundary, so that the slice is there; \<open>None\<close> would be a panic.\<close>

definition truncate_str :: "str \<Rightarrow> nat \<Rightarrow> str option" where
  "truncate_str s max_bytes = (if str_len s \<le> max_bytes then Some s else slice_to s (floor_boundary s max_bytes))"

definition capped_pause_message :: "str \<Rightarrow> str" where
  "capped_pause_message message = the (truncate_str message WORKFLOW_PAUSE_MESSAGE_MAX_BYTES)"

definition live_elapsed_ms :: "instant \<Rightarrow> tracked_run \<Rightarrow> u64" where
  "live_elapsed_ms now r =
     saturating_add (st_elapsed_ms_floor (tr_state r))
       (case tr_active_since r of None \<Rightarrow> 0 | Some since \<Rightarrow> as_millis_u64 (saturating_duration_since now since))"

definition fold_elapsed :: "instant \<Rightarrow> tracked_run \<Rightarrow> tracked_run" where
  "fold_elapsed now r =
     (if tr_active_since r = None then r
      else r\<lparr>tr_state := (tr_state r)\<lparr>st_elapsed_ms_floor := live_elapsed_ms now r\<rparr>, tr_active_since := None\<rparr>)"

subsection \<open>Looking a run up\<close>

definition run_mut :: "tracker \<Rightarrow> str \<Rightarrow> tracked_run option" where
  "run_mut t key = find (\<lambda>r. run_id r = key) (tk_runs t)"

primrec update_first :: "('a \<Rightarrow> bool) \<Rightarrow> ('a \<Rightarrow> 'a) \<Rightarrow> 'a list \<Rightarrow> 'a list" where
  "update_first P f [] = []"
| "update_first P f (x # xs) = (if P x then f x # xs else x # update_first P f xs)"

definition with_run :: "str \<Rightarrow> (tracked_run \<Rightarrow> tracked_run) \<Rightarrow> tracker \<Rightarrow> tracker" where
  "with_run key f t = t\<lparr>tk_runs := update_first (\<lambda>r. run_id r = key) f (tk_runs t)\<rparr>"

text \<open>The state after a change, which most methods return.\<close>

definition changed_run :: "str \<Rightarrow> (tracked_run \<Rightarrow> tracked_run) \<Rightarrow> tracker \<Rightarrow> run_state option \<times> tracker" where
  "changed_run key f t = (map_option (\<lambda>r. tr_state (f r)) (run_mut t key), with_run key f t)"

abbreviation on_state :: "(run_state \<Rightarrow> run_state) \<Rightarrow> tracked_run \<Rightarrow> tracked_run" where
  "on_state f r \<equiv> r\<lparr>tr_state := f (tr_state r)\<rparr>"

definition find_run_id :: "tracker \<Rightarrow> str \<Rightarrow> str option" where
  "find_run_id t key = map_option run_id (find (\<lambda>r. run_id r = key \<or> run_name r = key) (tk_runs t))"

definition get_run :: "tracker \<Rightarrow> str \<Rightarrow> run_state option" where
  "get_run t key = map_option tr_state (run_mut t key)"

definition list_runs :: "tracker \<Rightarrow> run_state list" where
  "list_runs t = map tr_state (tk_runs t)"

definition execution_epoch :: "tracker \<Rightarrow> str \<Rightarrow> u64 option" where
  "execution_epoch t key = map_option tr_execution_epoch (run_mut t key)"

definition elapsed_ms :: "instant \<Rightarrow> tracker \<Rightarrow> str \<Rightarrow> u64" where
  "elapsed_ms now t key = (case run_mut t key of None \<Rightarrow> 0 | Some r \<Rightarrow> live_elapsed_ms now r)"

definition remaining_agents :: "tracker \<Rightarrow> str \<Rightarrow> u64 option option" where
  "remaining_agents t key =
     map_option (\<lambda>r. map_option (\<lambda>limit. saturating_sub limit (st_agents_used (tr_state r)))
       (st_agent_budget (tr_state r))) (run_mut t key)"

subsection \<open>Starting and resuming\<close>

definition name_taken :: "tracked_run list \<Rightarrow> str \<Rightarrow> bool" where
  "name_taken runs candidate \<longleftrightarrow> list_ex (\<lambda>r. run_name r = candidate) runs"

definition numbered_name :: "str \<Rightarrow> nat \<Rightarrow> str" where
  "numbered_name nm n = nm @ lit ''-'' @ show_nat n"

text \<open>
  The search for a free number. It ends within as many steps as there are runs, long before the
  counter of 32 bits could overflow.
\<close>

function free_name :: "tracked_run list \<Rightarrow> str \<Rightarrow> nat \<Rightarrow> str" where
  "free_name runs nm n =
     (if name_taken runs (numbered_name nm n) then free_name runs nm (n + 1) else numbered_name nm n)"
  by pat_completeness auto

lemma numbered_name_inject [simp]: "numbered_name nm m = numbered_name nm n \<longleftrightarrow> m = n"
  by (simp add: numbered_name_def)

definition taken_from :: "tracked_run list \<Rightarrow> str \<Rightarrow> nat \<Rightarrow> nat set" where
  "taken_from runs nm n = {m. n \<le> m \<and> name_taken runs (numbered_name nm m)}"

lemma finite_taken: "finite (taken_from runs nm n)"
proof -
  have "numbered_name nm ` taken_from runs nm n \<subseteq> run_name ` set runs"
    by (auto simp: taken_from_def name_taken_def list_ex_iff intro: rev_image_eqI)
  then have "finite (numbered_name nm ` taken_from runs nm n)"
    by (rule finite_subset) simp
  then show ?thesis by (rule finite_imageD) (simp add: inj_on_def)
qed

lemma taken_shrinks:
  assumes "name_taken runs (numbered_name nm n)"
  shows "card (taken_from runs nm (n + 1)) < card (taken_from runs nm n)"
proof (rule psubset_card_mono [OF finite_taken])
  have "n \<in> taken_from runs nm n - taken_from runs nm (n + 1)" using assms by (simp add: taken_from_def)
  moreover have "taken_from runs nm (n + 1) \<subseteq> taken_from runs nm n" by (auto simp: taken_from_def)
  ultimately show "taken_from runs nm (n + 1) \<subset> taken_from runs nm n" by blast
qed

termination free_name
  by (relation "measure (\<lambda>(runs, nm, n). card (taken_from runs nm n))") (simp_all add: taken_shrinks [simplified])

declare free_name.simps [simp del]

definition unique_name :: "tracked_run list \<Rightarrow> str \<Rightarrow> str" where
  "unique_name runs nm = (if \<not> name_taken runs nm then nm else free_name runs nm 2)"

definition start_run ::
  "str \<Rightarrow> instant \<Rightarrow> str \<Rightarrow> str \<Rightarrow> str \<Rightarrow> phase_meta list \<Rightarrow> u64 option \<Rightarrow> str option \<Rightarrow> tracker \<Rightarrow>
   run_state \<times> tracker" where
  "start_run at now key nm objective phases agent_budget journal_path t =
     (let state = record_event at (lit ''workflow_started'') None
            \<lparr>st_run_id = key, st_revision = 0, st_name = unique_name (tk_runs t) nm, st_objective = objective,
             st_status = StActive, st_phases = phases, st_current_phase = None, st_agent_budget = agent_budget,
             st_agents_used = 0, st_token_leases = [], st_agent_usage_incomplete = False,
             st_elapsed_ms_floor = 0, st_pause_message = None, st_history = [], st_journal_path = journal_path,
             st_result_summary = None, st_agents = []\<rparr>
      in (state, t\<lparr>tk_runs := tk_runs t @ [\<lparr>tr_state = state, tr_active_since = Some now, tr_execution_epoch = 0\<rparr>]\<rparr>))"

definition cancel_running :: "agent_row \<Rightarrow> agent_row" where
  "cancel_running a = (if row_state a = lit ''running'' then a\<lparr>row_state := lit ''cancelled''\<rparr> else a)"

definition candidate_budget :: "u64 option \<Rightarrow> run_state \<Rightarrow> u64 option" where
  "candidate_budget new_budget s =
     (case new_budget of
        Some raised \<Rightarrow> Some (max raised (case st_agent_budget s of None \<Rightarrow> 0 | Some b \<Rightarrow> b))
      | None \<Rightarrow> st_agent_budget s)"

definition may_resume :: "u64 option \<Rightarrow> run_state \<Rightarrow> bool" where
  "may_resume new_budget s =
     (let raised = (case new_budget of None \<Rightarrow> False
                    | Some b \<Rightarrow> (case st_agent_budget s of None \<Rightarrow> 0 | Some old \<Rightarrow> old) < b)
      in is_resumable (st_status s) \<and>
         \<not> (st_status s = StBudgetLimited \<and>
            (\<not> raised \<or> (case candidate_budget new_budget s of None \<Rightarrow> False | Some limit \<Rightarrow> limit \<le> st_agents_used s))))"

definition resume_tracked :: "str \<Rightarrow> instant \<Rightarrow> u64 option \<Rightarrow> tracked_run \<Rightarrow> tracked_run" where
  "resume_tracked at now new_budget r =
     (let s = tr_state r;
          s = (case candidate_budget new_budget s of None \<Rightarrow> s | Some b \<Rightarrow> s\<lparr>st_agent_budget := Some b\<rparr>);
          s = s\<lparr>st_status := StActive, st_pause_message := None, st_result_summary := None,
                st_agents := map cancel_running (st_agents s)\<rparr>
      in \<lparr>tr_state = record_event at (lit ''workflow_resumed'') None s, tr_active_since = Some now,
          tr_execution_epoch = tr_execution_epoch r + 1\<rparr>)"

definition resume_run ::
  "str \<Rightarrow> instant \<Rightarrow> str \<Rightarrow> u64 option \<Rightarrow> tracker \<Rightarrow> run_state option \<times> tracker" where
  "resume_run at now key new_budget t =
     (case run_mut t key of
        None \<Rightarrow> (None, t)
      | Some r \<Rightarrow>
          if \<not> may_resume new_budget (tr_state r) then (None, t)
          else let (s, t) = changed_run key (resume_tracked at now new_budget) t
               in (s, t\<lparr>tk_reported := tk_reported t - {key}, tk_terminal_at_restore := tk_terminal_at_restore t - {key}\<rparr>))"

subsection \<open>Changes of one run\<close>

definition phase_tracked :: "str \<Rightarrow> str \<Rightarrow> tracked_run \<Rightarrow> tracked_run" where
  "phase_tracked at title =
     on_state (\<lambda>s. if st_current_phase s \<noteq> Some title
       then record_event at (lit ''phase_entered'') (Some title) (s\<lparr>st_current_phase := Some title\<rparr>) else s)"

definition set_phase :: "str \<Rightarrow> str \<Rightarrow> str \<Rightarrow> tracker \<Rightarrow> run_state option \<times> tracker" where
  "set_phase at key title t = changed_run key (phase_tracked at title) t"

definition used_tracked :: "u64 \<Rightarrow> tracked_run \<Rightarrow> tracked_run" where
  "used_tracked used = on_state (\<lambda>s. advance_revision (s\<lparr>st_agents_used := used\<rparr>))"

definition reserve_agents :: "str \<Rightarrow> u64 \<Rightarrow> tracker \<Rightarrow> (u64 \<times> u64 + run_state) \<times> tracker" where
  "reserve_agents key n t =
     (case run_mut t key of
        None \<Rightarrow> (Inl (n, 0), t)
      | Some r \<Rightarrow>
          (let requested = saturating_add (st_agents_used (tr_state r)) n;
               granted = (Inr (tr_state (used_tracked requested r)), with_run key (used_tracked requested) t)
           in case st_agent_budget (tr_state r) of
                None \<Rightarrow> granted
              | Some limit \<Rightarrow> if limit < requested then (Inl (requested, limit), t) else granted))"

definition release_tracked :: "u64 \<Rightarrow> tracked_run \<Rightarrow> tracked_run" where
  "release_tracked n r = used_tracked (saturating_sub (st_agents_used (tr_state r)) n) r"

definition release_agents :: "str \<Rightarrow> u64 \<Rightarrow> tracker \<Rightarrow> run_state option \<times> tracker" where
  "release_agents key n t = changed_run key (release_tracked n) t"

definition reconcile_tracked :: "u64 \<Rightarrow> tracked_run \<Rightarrow> tracked_run" where
  "reconcile_tracked used r = (if st_agents_used (tr_state r) \<noteq> used then used_tracked used r else r)"

definition reconcile_agents_used :: "str \<Rightarrow> u64 \<Rightarrow> tracker \<Rightarrow> run_state option \<times> tracker" where
  "reconcile_agents_used key used t = changed_run key (reconcile_tracked used) t"

text \<open>Case mapping and the class of letters and digits follow tables of the Unicode standard.\<close>

record label_env =
  label_lowercase :: "str \<Rightarrow> str"
  is_alphanumeric :: "uchar \<Rightarrow> bool"

definition default_label_for :: "label_env \<Rightarrow> agent_row list \<Rightarrow> str option \<Rightarrow> str" where
  "default_label_for E agents phase =
     (let ordinal = length (filter (\<lambda>a. row_phase a = phase) agents) + 1
      in case phase of
           Some p \<Rightarrow>
             join (lit ''-'') (filter (\<lambda>s. s \<noteq> [])
               (split_char 45 (map (\<lambda>c. if is_alphanumeric E c then c else 45) (label_lowercase E p))))
             @ lit ''-'' @ show_nat ordinal
         | None \<Rightarrow> lit ''agent-'' @ show_nat ordinal)"

definition started_row :: "label_env \<Rightarrow> run_state \<Rightarrow> agent_row \<Rightarrow> agent_row" where
  "started_row E s row =
     (let row = (if row_phase row = None then row\<lparr>row_phase := st_current_phase s\<rparr> else row)
      in if row_label row = [] then row\<lparr>row_label := default_label_for E (st_agents s) (row_phase row)\<rparr> else row)"

primrec remove_first :: "('a \<Rightarrow> bool) \<Rightarrow> 'a list \<Rightarrow> 'a list" where
  "remove_first P [] = []"
| "remove_first P (x # xs) = (if P x then xs else x # remove_first P xs)"

definition agent_started_tracked :: "label_env \<Rightarrow> agent_row \<Rightarrow> tracked_run \<Rightarrow> tracked_run" where
  "agent_started_tracked E row =
     on_state (\<lambda>s. let agents = st_agents s @ [started_row E s row]
       in (advance_revision s)\<lparr>st_agents :=
            if WORKFLOW_AGENT_ROWS_MAX < length agents
            then remove_first (\<lambda>a. row_state a \<noteq> lit ''running'') agents else agents\<rparr>)"

definition agent_started :: "label_env \<Rightarrow> str \<Rightarrow> agent_row \<Rightarrow> tracker \<Rightarrow> str \<times> tracker" where
  "agent_started E key row t =
     (case run_mut t key of
        None \<Rightarrow> (if row_label row = [] then lit ''agent'' else row_label row, t)
      | Some r \<Rightarrow> (row_label (started_row E (tr_state r) row), with_run key (agent_started_tracked E row) t))"

definition change_row :: "str \<Rightarrow> (agent_row \<Rightarrow> agent_row) \<Rightarrow> tracked_run \<Rightarrow> tracked_run" where
  "change_row agent_id f =
     on_state (\<lambda>s. if list_ex (\<lambda>a. row_agent_id a = agent_id) (st_agents s)
       then advance_revision (s\<lparr>st_agents := update_first (\<lambda>a. row_agent_id a = agent_id) f (st_agents s)\<rparr>) else s)"

definition rebind_agent_id :: "str \<Rightarrow> str \<Rightarrow> str \<Rightarrow> tracker \<Rightarrow> tracker" where
  "rebind_agent_id key agent_id new_agent_id t =
     with_run key (change_row agent_id (\<lambda>a. a\<lparr>row_agent_id := new_agent_id\<rparr>)) t"

definition agent_finished :: "str \<Rightarrow> str \<Rightarrow> str \<Rightarrow> u64 \<Rightarrow> u64 \<Rightarrow> tracker \<Rightarrow> tracker" where
  "agent_finished key agent_id state tokens_used duration_ms t =
     with_run key (change_row agent_id
       (\<lambda>a. a\<lparr>row_state := state, row_tokens_used := tokens_used, row_duration_ms := duration_ms\<rparr>)) t"

definition log_tracked :: "str \<Rightarrow> str \<Rightarrow> tracked_run \<Rightarrow> tracked_run" where
  "log_tracked at message = on_state (record_event at (lit ''log'') (Some message))"

definition log_message :: "str \<Rightarrow> str \<Rightarrow> str \<Rightarrow> tracker \<Rightarrow> run_state option \<times> tracker" where
  "log_message at key message t = changed_run key (log_tracked at message) t"

definition pause_tracked :: "str \<Rightarrow> instant \<Rightarrow> str option \<Rightarrow> tracked_run \<Rightarrow> tracked_run" where
  "pause_tracked at now message r =
     (if run_status r \<noteq> StActive then r
      else on_state (\<lambda>s. record_event at (lit ''workflow_paused'') (Some (lit ''user''))
             (s\<lparr>st_status := StUserPaused, st_pause_message := map_option capped_pause_message message\<rparr>))
           (fold_elapsed now r))"

definition pause_user :: "str \<Rightarrow> instant \<Rightarrow> str \<Rightarrow> str option \<Rightarrow> tracker \<Rightarrow> run_state option \<times> tracker" where
  "pause_user at now key message t = changed_run key (pause_tracked at now message) t"

definition interrupt_tracked :: "str \<Rightarrow> instant \<Rightarrow> str \<Rightarrow> tracked_run \<Rightarrow> tracked_run" where
  "interrupt_tracked at now message r =
     (let message = capped_pause_message message
      in on_state (\<lambda>s. record_event at (lit ''workflow_interrupted'') (Some message)
           (s\<lparr>st_status := StInterrupted, st_pause_message := Some message, st_result_summary := None\<rparr>))
         (fold_elapsed now r))"

definition interrupt_run :: "str \<Rightarrow> instant \<Rightarrow> str \<Rightarrow> str \<Rightarrow> tracker \<Rightarrow> run_state option \<times> tracker" where
  "interrupt_run at now key message t = changed_run key (interrupt_tracked at now message) t"

subsection \<open>The outcome of a run\<close>

definition summarize_result :: "('n jvalue \<Rightarrow> str) \<Rightarrow> 'n jvalue \<Rightarrow> str" where
  "summarize_result show_value result =
     (let body = (case result of
           VString s \<Rightarrow> s
         | VNull \<Rightarrow> lit ''done''
         | VObject _ \<Rightarrow>
             (case (Option.bind (value_get result (lit ''report'')) value_as_str,
                    Option.bind (value_get result (lit ''path'')) value_as_str) of
                (Some report, Some path) \<Rightarrow> report @ [10, 10] @ lit ''_Full report: '' @ path @ lit ''_''
              | (Some report, None) \<Rightarrow> report
              | _ \<Rightarrow> show_value result)
         | _ \<Rightarrow> show_value result)
      in if MAX_SUMMARY < str_len body
         then the (slice_to body (floor_boundary body MAX_SUMMARY)) @ [8230] else body)"

definition outcome_ignored :: "run_status \<Rightarrow> bool" where
  "outcome_ignored s \<longleftrightarrow> s \<in> {StInterrupted, StFailed, StCancelled}"

definition budget_hint :: "u64 \<Rightarrow> str" where
  "budget_hint used =
     (if MAX_AGENT_BUDGET \<le> used
      then lit ''finished work is kept, but this run reached the maximum agent budget and cannot be resumed; start a new run''
      else lit ''finished work is kept; resume the run with a higher absolute agent budget to continue'')"

fun outcome_state :: "('n jvalue \<Rightarrow> str) \<Rightarrow> str \<Rightarrow> 'n workflow_outcome \<Rightarrow> run_state \<Rightarrow> run_state" where
  "outcome_state show_value at (OutcomeCompleted result) s =
     record_event at (lit ''workflow_completed'') None
       (s\<lparr>st_status := StComplete, st_result_summary := Some (summarize_result show_value result)\<rparr>)"
| "outcome_state show_value at (OutcomePaused kind message) s =
     record_event at (lit ''workflow_paused'') (Some (pause_kind_as_ref kind))
       (s\<lparr>st_status := from_pause kind, st_pause_message := Some (capped_pause_message message)\<rparr>)"
| "outcome_state show_value at (OutcomeBudgetExceeded message) s =
     record_event at (lit ''workflow_budget_limited'') None
       (s\<lparr>st_status := StBudgetLimited,
         st_pause_message := Some (capped_pause_message (message @ lit '' '' @ [8212] @ lit '' '' @ budget_hint (st_agents_used s)))\<rparr>)"
| "outcome_state show_value at OutcomeCancelled s =
     record_event at (lit ''workflow_cancelled'') None (s\<lparr>st_status := StCancelled\<rparr>)"
| "outcome_state show_value at (OutcomeFailed error) s =
     record_event at (lit ''workflow_failed'') (Some (capped_pause_message error))
       (s\<lparr>st_status := StFailed, st_pause_message := Some (capped_pause_message error)\<rparr>)"

definition outcome_tracked ::
  "('n jvalue \<Rightarrow> str) \<Rightarrow> str \<Rightarrow> instant \<Rightarrow> 'n workflow_outcome \<Rightarrow> tracked_run \<Rightarrow> tracked_run" where
  "outcome_tracked show_value at now outcome r =
     on_state (\<lambda>s. if outcome_ignored (st_status s)
       then record_event at (lit ''workflow_outcome_ignored'')
              (Some (lit ''ignored '' @ outcome_kind outcome @ lit '' while status is '' @ status_as_ref (st_status s))) s
       else outcome_state show_value at outcome s) (fold_elapsed now r)"

definition apply_outcome ::
  "('n jvalue \<Rightarrow> str) \<Rightarrow> str \<Rightarrow> instant \<Rightarrow> str \<Rightarrow> 'n workflow_outcome \<Rightarrow> tracker \<Rightarrow> run_state option \<times> tracker" where
  "apply_outcome show_value at now key outcome t = changed_run key (outcome_tracked show_value at now outcome) t"

definition clear_run :: "str \<Rightarrow> instant \<Rightarrow> str \<Rightarrow> tracker \<Rightarrow> run_state option \<times> tracker" where
  "clear_run at now key t =
     (case run_mut t key of
        None \<Rightarrow> (None, t)
      | Some r \<Rightarrow>
          (Some (record_event at (lit ''workflow_cleared'') None (tr_state (fold_elapsed now r))),
           t\<lparr>tk_runs := remove_first (\<lambda>r. run_id r = key) (tk_runs t)\<rparr>))"

subsection \<open>Restoring a session\<close>

definition charge_leases :: "str \<Rightarrow> run_state \<Rightarrow> run_state" where
  "charge_leases at s =
     (if st_token_leases s = [] then s
      else let charge = foldl (\<lambda>sum lease. saturating_add sum (lease_grant lease)) 0 (st_token_leases s)
           in record_event at (lit ''workflow_budget_accounting_incomplete'')
                (Some (lit ''unresolved reservations charged on restore''))
                (s\<lparr>st_token_leases := [], st_agents_used := saturating_add (st_agents_used s) charge,
                  st_agent_usage_incomplete := True\<rparr>))"

definition interrupt_restored :: "str \<Rightarrow> run_state \<Rightarrow> run_state" where
  "interrupt_restored at s =
     (if st_status s = StActive
      then record_event at (lit ''workflow_interrupted'') (Some (lit ''restored_without_stable_operation_identity''))
             (s\<lparr>st_status := StInterrupted,
               st_pause_message := Some (lit ''the session ended while this workflow was active; start a new run'')\<rparr>)
      else s)"

definition cancel_ghosts :: "run_state \<Rightarrow> run_state" where
  "cancel_ghosts s =
     (let s' = s\<lparr>st_agents := map cancel_running (st_agents s)\<rparr>
      in if list_ex (\<lambda>a. row_state a = lit ''running'') (st_agents s) then advance_revision s' else s')"

definition restore_state :: "str \<times> str \<Rightarrow> run_state \<Rightarrow> tracked_run" where
  "restore_state ats s =
     \<lparr>tr_state = cancel_ghosts (interrupt_restored (snd ats) (charge_leases (fst ats) s)),
      tr_active_since = None, tr_execution_epoch = 0\<rparr>"

text \<open>\<open>ats\<close> gives the two readings of the wall clock for the run at an index.\<close>

definition from_snapshot :: "(nat \<Rightarrow> str \<times> str) \<Rightarrow> run_state list \<Rightarrow> tracker" where
  "from_snapshot ats snapshots =
     (let runs = map (\<lambda>(i, s). restore_state (ats i) s) (List.enumerate 0 snapshots)
      in \<lparr>tk_runs = runs, tk_reported = {},
          tk_terminal_at_restore = set (map run_id (filter (\<lambda>r. is_completion_reportable (run_status r)) runs)),
          tk_status_reported = Map.empty\<rparr>)"

subsection \<open>Reports\<close>

definition mark_completion_reported :: "str \<Rightarrow> tracker \<Rightarrow> tracker" where
  "mark_completion_reported key t = t\<lparr>tk_reported := insert key (tk_reported t)\<rparr>"

definition is_unreported_completion :: "tracker \<Rightarrow> str \<Rightarrow> u64 \<Rightarrow> bool" where
  "is_unreported_completion t key revision \<longleftrightarrow>
     list_ex (\<lambda>r. run_id r = key \<and> run_revision r = revision \<and> is_completion_reportable (run_status r) \<and>
       key \<notin> tk_reported t) (tk_runs t)"

definition unreported :: "tracker \<Rightarrow> tracked_run list" where
  "unreported t =
     filter (\<lambda>r. \<not> (\<not> is_completion_reportable (run_status r) \<or> run_id r \<in> tk_reported t)) (tk_runs t)"

definition take_unreported_terminal_runs :: "tracker \<Rightarrow> (run_state list \<times> run_state list) \<times> tracker" where
  "take_unreported_terminal_runs t =
     (let restored = map tr_state (filter (\<lambda>r. run_id r \<in> tk_terminal_at_restore t) (unreported t));
          fresh = map tr_state (filter (\<lambda>r. run_id r \<notin> tk_terminal_at_restore t) (unreported t))
      in ((restored, fresh),
          t\<lparr>tk_reported := tk_reported t \<union> set (map st_run_id (restored @ fresh))\<rparr>))"

definition live_runs :: "tracker \<Rightarrow> tracked_run list" where
  "live_runs t = filter (\<lambda>r. \<not> is_completion_reportable (run_status r)) (tk_runs t)"

text \<open>\<open>now\<close> gives the reading of the clock for the live run at an index.\<close>

definition take_status_report :: "(nat \<Rightarrow> instant) \<Rightarrow> tracker \<Rightarrow> run_state list \<times> tracker" where
  "take_status_report now t =
     (let live = live_runs t
      in if \<not> list_ex (\<lambda>r. tk_status_reported t (run_id r) \<noteq> Some (run_revision r)) live then ([], t)
         else let report = map (\<lambda>(i, r). (tr_state r)\<lparr>st_elapsed_ms_floor := live_elapsed_ms (now i) r\<rparr>)
                             (List.enumerate 0 live);
                  current_ids = set (map run_id (tk_runs t));
                  kept = (\<lambda>key. if key \<in> current_ids then tk_status_reported t key else None)
              in (report, t\<lparr>tk_status_reported :=
                    foldl (\<lambda>m s. m(st_run_id s \<mapsto> st_revision s)) kept report\<rparr>))"

end
