(* ===== verification/Tracker_Laws.thy ===== *)
theory Tracker_Laws
  imports Workflow_Tracker
begin

text \<open>
  What the operations of the tracker keep. The locale \<open>run_change\<close> is the contract of a method that
  changes one run; every such method is an interpretation of it, so that the invariant of the
  tracker, the use of revisions as a change detector and the state machine of a run are proved once.
  The calls of a session are the datatype \<open>tracker_call\<close>, performed one after another.
\<close>

subsection \<open>Revisions\<close>

definition revision_moved :: "u64 \<Rightarrow> u64 \<Rightarrow> bool" where
  "revision_moved a b \<longleftrightarrow> a < b \<or> a = - 1 \<and> b = - 1"

lemma u64_max_iff: "(a :: u64) = - 1 \<longleftrightarrow> unat a = 18446744073709551615"
proof -
  have "unat (- 1 :: u64) = 18446744073709551615" by (simp add: unsigned_minus_1_eq_mask mask_eq_exp_minus_1)
  then show ?thesis by (metis word_unat_eq_iff)
qed

lemma u64_below_max: "(a :: u64) \<noteq> - 1 \<Longrightarrow> unat a < 18446744073709551615"
  using unat_u64_less [of a] unfolding u64_max_iff by linarith

lemma revision_moved_succ [simp]: "revision_moved a (saturating_add a 1)"
proof (cases "a = - 1")
  case True
  then show ?thesis by (simp add: revision_moved_def u64_max_iff unat_saturating_add)
next
  case False
  then show ?thesis
    using u64_below_max [OF False] by (simp add: revision_moved_def word_less_nat_alt unat_saturating_add)
qed

lemma revision_moved_trans: "revision_moved a b \<Longrightarrow> revision_moved b c \<Longrightarrow> revision_moved a c"
  by (auto simp: revision_moved_def)

lemma advance_revision_simps [simp]:
  "st_run_id (advance_revision s) = st_run_id s" "st_name (advance_revision s) = st_name s"
  "st_status (advance_revision s) = st_status s" "st_history (advance_revision s) = st_history s"
  "st_agents (advance_revision s) = st_agents s"
  "st_agents_used (advance_revision s) = st_agents_used s" "st_agent_budget (advance_revision s) = st_agent_budget s"
  "st_revision (advance_revision s) = saturating_add (st_revision s) 1"
  by (simp_all add: advance_revision_def)

lemma record_event_simps [simp]:
  "st_run_id (record_event at e d s) = st_run_id s" "st_name (record_event at e d s) = st_name s"
  "st_status (record_event at e d s) = st_status s"
  "st_agents_used (record_event at e d s) = st_agents_used s" "st_agent_budget (record_event at e d s) = st_agent_budget s"
  "st_agents (record_event at e d s) = st_agents s"
  "st_pause_message (record_event at e d s) = st_pause_message s"
  "st_revision (record_event at e d s) = saturating_add (st_revision s) 1"
  by (simp_all add: record_event_def Let_def advance_revision_def)

lemma record_event_history [simp]: "length (st_history (record_event at e d s)) \<le> WORKFLOW_HISTORY_MAX"
  by (auto simp: record_event_def Let_def)

lemma fold_elapsed_simps [simp]:
  "run_id (fold_elapsed now r) = run_id r" "run_name (fold_elapsed now r) = run_name r"
  "run_status (fold_elapsed now r) = run_status r" "run_revision (fold_elapsed now r) = run_revision r"
  "st_history (tr_state (fold_elapsed now r)) = st_history (tr_state r)"
  "st_agents_used (tr_state (fold_elapsed now r)) = st_agents_used (tr_state r)"
  "st_agent_budget (tr_state (fold_elapsed now r)) = st_agent_budget (tr_state r)"
  "tr_active_since (fold_elapsed now r) = None"
  by (simp_all add: fold_elapsed_def)

subsection \<open>The contract of a change\<close>

text \<open>The clock of a run goes exactly while the run is active, and its history is bounded.\<close>

definition run_ok :: "tracked_run \<Rightarrow> bool" where
  "run_ok r \<longleftrightarrow> (tr_active_since r = None \<longleftrightarrow> run_status r \<noteq> StActive) \<and>
     length (st_history (tr_state r)) \<le> WORKFLOW_HISTORY_MAX"

definition may_follow :: "run_status \<Rightarrow> run_status \<Rightarrow> bool" where
  "may_follow a b \<longleftrightarrow> a = b \<or> b = StInterrupted \<or> a \<notin> {StInterrupted, StFailed, StCancelled} \<and> b \<noteq> StActive"

text \<open>One run before and after a call.\<close>

definition evolves :: "tracked_run \<Rightarrow> tracked_run \<Rightarrow> bool" where
  "evolves r r' \<longleftrightarrow> run_id r' = run_id r \<and> run_name r' = run_name r \<and>
     (r' = r \<or> revision_moved (run_revision r) (run_revision r'))"

lemma evolves_refl [simp]: "evolves r r"
  by (simp add: evolves_def)

lemma evolves_trans: "evolves r r' \<Longrightarrow> evolves r' r'' \<Longrightarrow> evolves r r''"
  by (auto simp: evolves_def intro: revision_moved_trans)

lemma may_follow_refl [simp]: "may_follow s s"
  by (simp add: may_follow_def)

definition tracker_ok :: "tracker \<Rightarrow> bool" where
  "tracker_ok t \<longleftrightarrow> distinct (map run_id (tk_runs t)) \<and> distinct (map run_name (tk_runs t)) \<and> list_all run_ok (tk_runs t)"

lemma map_update_first: "(\<And>x. g (f x) = g x) \<Longrightarrow> map g (update_first P f xs) = map g xs"
  by (induction xs) auto

lemma list_all_update_first: "(\<And>x. Q x \<Longrightarrow> Q (f x)) \<Longrightarrow> list_all Q xs \<Longrightarrow> list_all Q (update_first P f xs)"
  by (induction xs) auto

lemma find_update_first:
  assumes "\<And>x. k (f x) = k x"
  shows "find (\<lambda>x. k x = a) (update_first (\<lambda>x. k x = b) f xs) =
    (if a = b then map_option f (find (\<lambda>x. k x = a) xs) else find (\<lambda>x. k x = a) xs)"
  using assms by (induction xs) auto

lemma update_first_absent: "find P xs = None \<Longrightarrow> update_first P f xs = xs"
  by (induction xs) (auto split: if_splits)

lemma update_first_cong: "find P xs = Some x \<Longrightarrow> f x = g x \<Longrightarrow> update_first P f xs = update_first P g xs"
  by (induction xs) (auto split: if_splits)

locale run_change =
  fixes f :: "tracked_run \<Rightarrow> tracked_run"
  assumes same_id: "run_id (f r) = run_id r"
    and same_name: "run_name (f r) = run_name r"
    and moved: "f r = r \<or> revision_moved (run_revision r) (run_revision (f r))"
    and keeps_ok: "run_ok r \<Longrightarrow> run_ok (f r)"

locale status_change = run_change +
  assumes follows: "may_follow (run_status r) (run_status (f r))"

context run_change
begin

lemma run_mut_with_run: "run_mut (with_run key f t) k = (if k = key then map_option f (run_mut t k) else run_mut t k)"
  unfolding run_mut_def with_run_def by (simp add: find_update_first same_id)

lemma with_run_ok: "tracker_ok t \<Longrightarrow> tracker_ok (with_run key f t)"
  by (simp add: tracker_ok_def with_run_def map_update_first same_id same_name list_all_update_first keeps_ok)

lemma with_run_evolves: "run_mut t k = Some r \<Longrightarrow> run_mut (with_run key f t) k = Some r' \<Longrightarrow> evolves r r'"
  using moved [of r] same_id [of r] same_name [of r] by (auto simp: run_mut_with_run evolves_def split: if_splits)

end

context status_change
begin

lemma with_run_follows:
  "run_mut t k = Some r \<Longrightarrow> run_mut (with_run key f t) k = Some r' \<Longrightarrow> may_follow (run_status r) (run_status r')"
  using follows [of r] by (auto simp: run_mut_with_run split: if_splits)

end

subsection \<open>Every change of a run meets the contract\<close>

lemmas change_defs = run_ok_def may_follow_def

definition reserve_tracked :: "u64 \<Rightarrow> tracked_run \<Rightarrow> tracked_run" where
  "reserve_tracked n r =
     (let requested = saturating_add (st_agents_used (tr_state r)) n
      in case st_agent_budget (tr_state r) of
           None \<Rightarrow> used_tracked requested r
         | Some limit \<Rightarrow> if limit < requested then r else used_tracked requested r)"

definition resume_if :: "str \<Rightarrow> instant \<Rightarrow> u64 option \<Rightarrow> tracked_run \<Rightarrow> tracked_run" where
  "resume_if at now new_budget r =
     (if may_resume new_budget (tr_state r) then resume_tracked at now new_budget r else r)"

lemma used_tracked_simps [simp]:
  "run_id (used_tracked n r) = run_id r" "run_name (used_tracked n r) = run_name r"
  "run_status (used_tracked n r) = run_status r" "run_revision (used_tracked n r) = saturating_add (run_revision r) 1"
  "st_history (tr_state (used_tracked n r)) = st_history (tr_state r)"
  "st_agents_used (tr_state (used_tracked n r)) = n"
  "st_agent_budget (tr_state (used_tracked n r)) = st_agent_budget (tr_state r)"
  "tr_active_since (used_tracked n r) = tr_active_since r"
  by (simp_all add: used_tracked_def)

interpretation phase: status_change "phase_tracked at title" for at title
  by unfold_locales (auto simp: phase_tracked_def change_defs)

interpretation reserve: status_change "reserve_tracked n" for n
  by unfold_locales (auto simp: reserve_tracked_def Let_def change_defs split: option.splits)

interpretation release: status_change "release_tracked n" for n
  by unfold_locales (auto simp: release_tracked_def change_defs)

interpretation reconcile: status_change "reconcile_tracked n" for n
  by unfold_locales (auto simp: reconcile_tracked_def change_defs)

interpretation started: status_change "agent_started_tracked E row" for E row
  by unfold_locales (auto simp: agent_started_tracked_def Let_def change_defs)

interpretation row: status_change "change_row agent_id g" for agent_id g
  by unfold_locales (auto simp: change_row_def change_defs)

interpretation log: status_change "log_tracked at message" for at message
  by unfold_locales (auto simp: log_tracked_def change_defs)

interpretation pause: status_change "pause_tracked at now message" for at now message
  by unfold_locales (auto simp: pause_tracked_def change_defs)

interpretation interrupt: status_change "interrupt_tracked at now message" for at now message
  by unfold_locales (auto simp: interrupt_tracked_def Let_def change_defs)

lemma from_pause_not_active [simp]: "from_pause k \<noteq> StActive"
  by (cases k) simp_all

lemma outcome_state_simps [simp]:
  "st_run_id (outcome_state show_value at out s) = st_run_id s" "st_name (outcome_state show_value at out s) = st_name s"
  "st_revision (outcome_state show_value at out s) = saturating_add (st_revision s) 1"
  "length (st_history (outcome_state show_value at out s)) \<le> WORKFLOW_HISTORY_MAX"
  "st_agents_used (outcome_state show_value at out s) = st_agents_used s"
  "st_agent_budget (outcome_state show_value at out s) = st_agent_budget s"
  "st_status (outcome_state show_value at out s) \<noteq> StActive"
  by (cases out; simp)+

interpretation outcome: status_change "outcome_tracked show_value at now out" for show_value at now out
  by unfold_locales (auto simp: outcome_tracked_def change_defs outcome_ignored_def)

interpretation resume: run_change "resume_if at now new_budget" for at now new_budget
  by unfold_locales (auto simp: resume_if_def resume_tracked_def Let_def run_ok_def split: option.splits)

subsection \<open>The calls of a session\<close>

datatype 'n tracker_call =
    StartRun str instant str str str "phase_meta list" "u64 option" "str option"
  | ResumeRun str instant str "u64 option"
  | SetPhase str str str
  | ReserveAgents str u64
  | ReleaseAgents str u64
  | ReconcileAgentsUsed str u64
  | AgentStarted label_env str agent_row
  | RebindAgentId str str str
  | AgentFinished str str str u64 u64
  | LogMessage str str str
  | PauseUserRun str instant str "str option"
  | InterruptRun str instant str str
  | ApplyOutcome str instant str "'n workflow_outcome"
  | ClearRun str instant str
  | MarkCompletionReported str
  | TakeUnreportedTerminalRuns
  | TakeStatusReport "nat \<Rightarrow> instant"

fun perform :: "('n jvalue \<Rightarrow> str) \<Rightarrow> 'n tracker_call \<Rightarrow> tracker \<Rightarrow> tracker" where
  "perform show_value (StartRun at now key nm objective phases budget path) t =
     snd (start_run at now key nm objective phases budget path t)"
| "perform show_value (ResumeRun at now key budget) t = snd (resume_run at now key budget t)"
| "perform show_value (SetPhase at key title) t = snd (set_phase at key title t)"
| "perform show_value (ReserveAgents key n) t = snd (reserve_agents key n t)"
| "perform show_value (ReleaseAgents key n) t = snd (release_agents key n t)"
| "perform show_value (ReconcileAgentsUsed key n) t = snd (reconcile_agents_used key n t)"
| "perform show_value (AgentStarted E key row) t = snd (agent_started E key row t)"
| "perform show_value (RebindAgentId key agent new_agent) t = rebind_agent_id key agent new_agent t"
| "perform show_value (AgentFinished key agent state tokens ms) t = agent_finished key agent state tokens ms t"
| "perform show_value (LogMessage at key message) t = snd (log_message at key message t)"
| "perform show_value (PauseUserRun at now key message) t = snd (pause_user at now key message t)"
| "perform show_value (InterruptRun at now key message) t = snd (interrupt_run at now key message t)"
| "perform show_value (ApplyOutcome at now key out) t = snd (apply_outcome show_value at now key out t)"
| "perform show_value (ClearRun at now key) t = snd (clear_run at now key t)"
| "perform show_value (MarkCompletionReported key) t = mark_completion_reported key t"
| "perform show_value TakeUnreportedTerminalRuns t = snd (take_unreported_terminal_runs t)"
| "perform show_value (TakeStatusReport now) t = snd (take_status_report now t)"

lemma with_run_cong: "run_mut t key = Some r \<Longrightarrow> f r = g r \<Longrightarrow> with_run key f t = with_run key g t"
  using update_first_cong [of "\<lambda>r. run_id r = key" "tk_runs t" r f g] by (simp add: with_run_def run_mut_def)

lemma with_run_absent: "run_mut t key = None \<Longrightarrow> with_run key f t = t"
  by (simp add: with_run_def run_mut_def update_first_absent)

lemma update_first_id: "update_first P (\<lambda>r. r) xs = xs"
  by (induction xs) auto

lemma with_run_same: "run_mut t key = Some r \<Longrightarrow> f r = r \<Longrightarrow> with_run key f t = t"
  using update_first_cong [of "\<lambda>r. run_id r = key" "tk_runs t" r f "\<lambda>r. r"]
  by (simp add: with_run_def run_mut_def update_first_id)

lemma snd_changed_run [simp]: "snd (changed_run key f t) = with_run key f t"
  by (simp add: changed_run_def)

lemma snd_reserve_agents: "snd (reserve_agents key n t) = with_run key (reserve_tracked n) t"
proof (cases "run_mut t key")
  case (Some r)
  let ?requested = "saturating_add (st_agents_used (tr_state r)) n"
  show ?thesis
  proof (cases "\<exists>limit. st_agent_budget (tr_state r) = Some limit \<and> limit < ?requested")
    case True
    then have "reserve_tracked n r = r" "snd (reserve_agents key n t) = t"
      by (auto simp: reserve_agents_def reserve_tracked_def Some)
    then show ?thesis by (simp add: with_run_same [OF Some])
  next
    case False
    then have "used_tracked ?requested r = reserve_tracked n r"
      "snd (reserve_agents key n t) = with_run key (used_tracked ?requested) t"
      by (auto simp: reserve_agents_def reserve_tracked_def Let_def Some split: option.splits)
    then show ?thesis by (simp add: with_run_cong [OF Some, of "used_tracked ?requested" "reserve_tracked n"])
  qed
qed (simp add: reserve_agents_def with_run_absent)

lemma snd_agent_started: "snd (agent_started E key row t) = with_run key (agent_started_tracked E row) t"
  by (simp add: agent_started_def with_run_absent split: option.splits)

lemma tk_runs_resume_run: "tk_runs (snd (resume_run at now key budget t)) = tk_runs (with_run key (resume_if at now budget) t)"
proof (cases "run_mut t key")
  case (Some r)
  then show ?thesis
    using with_run_cong [OF Some, of "resume_tracked at now budget" "resume_if at now budget"] with_run_same [OF Some, of "resume_if at now budget"]
    by (simp add: resume_run_def resume_if_def Let_def split_beta)
qed (simp add: resume_run_def with_run_absent)

lemma tk_runs_reports [simp]:
  "tk_runs (mark_completion_reported key t) = tk_runs t"
  "tk_runs (snd (take_unreported_terminal_runs t)) = tk_runs t"
  "tk_runs (snd (take_status_report nows t)) = tk_runs t"
  by (simp_all add: mark_completion_reported_def take_unreported_terminal_runs_def take_status_report_def Let_def)

text \<open>
  A call is a change of one run, a resumption, the start or the removal of a run, or a report that
  leaves the runs alone.
\<close>

lemma perform_cases:
  obtains (change) key f where "tk_runs (perform show_value c t) = tk_runs (with_run key f t)" "status_change f"
  | (resume) at now key budget where "c = ResumeRun at now key budget"
      "tk_runs (perform show_value c t) = tk_runs (with_run key (resume_if at now budget) t)"
  | (start) at now key nm objective phases budget path where "c = StartRun at now key nm objective phases budget path"
  | (clear) at now key where "c = ClearRun at now key"
  | (report) "tk_runs (perform show_value c t) = tk_runs t"
proof (cases c)
  case (ResumeRun at now key budget)
  then show ?thesis by (intro resume) (simp_all add: tk_runs_resume_run)
next
  case (SetPhase at key title)
  then show ?thesis by (intro change [of key "phase_tracked at title"] phase.status_change_axioms) (simp add: set_phase_def)
next
  case (ReserveAgents key n)
  then show ?thesis by (intro change [of key "reserve_tracked n"] reserve.status_change_axioms) (simp add: snd_reserve_agents)
next
  case (ReleaseAgents key n)
  then show ?thesis by (intro change [of key "release_tracked n"] release.status_change_axioms) (simp add: release_agents_def)
next
  case (ReconcileAgentsUsed key n)
  then show ?thesis
    by (intro change [of key "reconcile_tracked n"] reconcile.status_change_axioms) (simp add: reconcile_agents_used_def)
next
  case (AgentStarted E key r)
  then show ?thesis
    by (intro change [of key "agent_started_tracked E r"] started.status_change_axioms) (simp add: snd_agent_started)
next
  case (RebindAgentId key agent new_agent)
  then show ?thesis by (intro change [OF _ row.status_change_axioms]) (simp add: rebind_agent_id_def)
next
  case (AgentFinished key agent state tokens ms)
  then show ?thesis by (intro change [OF _ row.status_change_axioms]) (simp add: agent_finished_def)
next
  case (LogMessage at key message)
  then show ?thesis by (intro change [of key "log_tracked at message"] log.status_change_axioms) (simp add: log_message_def)
next
  case (PauseUserRun at now key message)
  then show ?thesis
    by (intro change [of key "pause_tracked at now message"] pause.status_change_axioms) (simp add: pause_user_def)
next
  case (InterruptRun at now key message)
  then show ?thesis
    by (intro change [of key "interrupt_tracked at now message"] interrupt.status_change_axioms) (simp add: interrupt_run_def)
next
  case (ApplyOutcome at now key out)
  then show ?thesis
    by (intro change [of key "outcome_tracked show_value at now out"] outcome.status_change_axioms) (simp add: apply_outcome_def)
qed (auto intro: start clear report)

subsection \<open>The invariant of the tracker\<close>

text \<open>The identifier of a new run is new: it is a fresh UUID.\<close>

fun fresh_call :: "'n tracker_call \<Rightarrow> tracker \<Rightarrow> bool" where
  "fresh_call (StartRun at now key nm objective phases budget path) t \<longleftrightarrow>
     key \<notin> set (map run_id (tk_runs t)) \<and> tk_status_reported t key = None"
| "fresh_call _ t \<longleftrightarrow> True"

lemma unique_name_free: "\<not> name_taken runs (unique_name runs nm)"
proof -
  have "\<not> name_taken runs (free_name runs nm n)" for n
  proof (induction runs nm n rule: free_name.induct)
    case (1 runs nm n)
    then show ?case by (cases "name_taken runs (numbered_name nm n)") (simp_all add: free_name.simps [of runs nm n])
  qed
  then show ?thesis by (simp add: unique_name_def)
qed

lemma started_run:
  fixes t :: tracker
  obtains r where "tk_runs (snd (start_run at now key nm objective phases budget path t)) = tk_runs t @ [r]"
    "run_id r = key" "run_name r = unique_name (tk_runs t) nm" "run_status r = StActive" "run_ok r"
    "st_agents_used (tr_state r) = 0" "st_agent_budget (tr_state r) = budget" "run_revision r = 1"
  by (simp add: start_run_def Let_def run_ok_def saturating_add_def)

lemma set_remove_first: "set (remove_first P xs) \<subseteq> set xs"
  by (induction xs) auto

lemma distinct_map_remove_first: "distinct (map g xs) \<Longrightarrow> distinct (map g (remove_first P xs))"
  using set_remove_first by (induction xs) (auto, fastforce)

lemma tk_runs_clear_run: "tk_runs (snd (clear_run at now key t)) = remove_first (\<lambda>r. run_id r = key) (tk_runs t)"
proof (cases "run_mut t key")
  case None
  then have "remove_first (\<lambda>r. run_id r = key) xs = xs" if "find (\<lambda>r. run_id r = key) xs = None" for xs
    using that by (induction xs) (auto split: if_splits)
  with None show ?thesis by (simp add: clear_run_def run_mut_def)
qed (simp add: clear_run_def)

lemma find_remove_first:
  "distinct (map k xs) \<Longrightarrow> find (\<lambda>x. k x = a) (remove_first (\<lambda>x. k x = b) xs) = (if a = b then None else find (\<lambda>x. k x = a) xs)"
  by (induction xs) (auto simp: find_None_iff image_iff)

lemma perform_ok: "tracker_ok t \<Longrightarrow> fresh_call c t \<Longrightarrow> tracker_ok (perform show_value c t)"
proof (cases show_value c t rule: perform_cases)
  case (change key f)
  assume "tracker_ok t"
  then show ?thesis
    using change run_change.with_run_ok [OF status_change.axioms(1) [OF change(2)]] by (simp add: tracker_ok_def)
next
  case (resume at now key budget)
  assume "tracker_ok t"
  then show ?thesis using resume(2) resume.with_run_ok [of t key at now budget] by (simp add: tracker_ok_def)
next
  case (start at now key nm objective phases budget path)
  assume "tracker_ok t" "fresh_call c t"
  moreover obtain r where "tk_runs (perform show_value c t) = tk_runs t @ [r]"
    "run_id r = key" "run_name r = unique_name (tk_runs t) nm" "run_ok r"
    unfolding start by (simp) (rule started_run)
  moreover have "unique_name (tk_runs t) nm \<notin> run_name ` set (tk_runs t)"
    using unique_name_free [of "tk_runs t" nm] by (auto simp: name_taken_def list_ex_iff)
  ultimately show ?thesis by (simp add: tracker_ok_def start)
next
  case (clear at now key)
  assume "tracker_ok t"
  then show ?thesis
    using set_remove_first [of "\<lambda>r. run_id r = key" "tk_runs t"]
    by (auto simp: tracker_ok_def clear tk_runs_clear_run distinct_map_remove_first list_all_iff)
next
  case report
  assume "tracker_ok t"
  then show ?thesis by (simp add: tracker_ok_def report)
qed

lemma find_append: "find P (xs @ ys) = (case find P xs of None \<Rightarrow> find P ys | Some x \<Rightarrow> Some x)"
  by (induction xs) auto

text \<open>What one call does to one run.\<close>

lemma run_mut_cong: "tk_runs t = tk_runs t' \<Longrightarrow> run_mut t k = run_mut t' k"
  by (simp add: run_mut_def)

lemma perform_run:
  assumes "tracker_ok t" and "fresh_call c t"
    and r: "run_mut t k = Some r" and r': "run_mut (perform show_value c t) k = Some r'"
  shows "evolves r r' \<and> (may_follow (run_status r) (run_status r') \<or>
      (\<exists>at now budget. c = ResumeRun at now k budget \<and> may_resume budget (tr_state r) \<and> r' = resume_tracked at now budget r))"
proof (cases show_value c t rule: perform_cases)
  case (change key f)
  have "run_mut (with_run key f t) k = Some r'" using r' by (simp add: run_mut_cong [OF change(1), symmetric])
  then show ?thesis
    using r run_change.with_run_evolves [OF status_change.axioms(1) [OF change(2)]]
      status_change.with_run_follows [OF change(2)] by blast
next
  case (resume at now key budget)
  have *: "run_mut (with_run key (resume_if at now budget) t) k = Some r'"
    using r' by (simp add: run_mut_cong [OF resume(2), symmetric])
  then have "r' = r \<or> k = key \<and> may_resume budget (tr_state r) \<and> r' = resume_tracked at now budget r"
    using r by (auto simp: resume.run_mut_with_run resume_if_def split: if_splits)
  with resume.with_run_evolves [OF r *] show ?thesis by (auto simp: resume(1))
next
  case (start at now key nm objective phases budget path)
  obtain new where "tk_runs (perform show_value c t) = tk_runs t @ [new]"
    unfolding start by simp (rule started_run)
  then have "r' = r" using r r' by (simp add: run_mut_def find_append)
  then show ?thesis by simp
next
  case (clear at now key)
  then have "r' = r"
    using assms(1) r r' by (auto simp: run_mut_def tk_runs_clear_run tracker_ok_def find_remove_first split: if_splits)
  then show ?thesis by simp
next
  case report
  then show ?thesis using r r' by (simp add: run_mut_cong [OF report])
qed

subsection \<open>Sequences of calls\<close>

primrec perform_all :: "('n jvalue \<Rightarrow> str) \<Rightarrow> 'n tracker_call list \<Rightarrow> tracker \<Rightarrow> tracker" where
  "perform_all show_value [] t = t"
| "perform_all show_value (c # cs) t = perform_all show_value cs (perform show_value c t)"

primrec fresh_calls :: "('n jvalue \<Rightarrow> str) \<Rightarrow> 'n tracker_call list \<Rightarrow> tracker \<Rightarrow> bool" where
  "fresh_calls show_value [] t \<longleftrightarrow> True"
| "fresh_calls show_value (c # cs) t \<longleftrightarrow> fresh_call c t \<and> fresh_calls show_value cs (perform show_value c t)"

lemma perform_all_append [simp]:
  "perform_all show_value (cs @ ds) t = perform_all show_value ds (perform_all show_value cs t)"
  by (induction cs arbitrary: t) simp_all

lemma fresh_calls_append [simp]:
  "fresh_calls show_value (cs @ ds) t \<longleftrightarrow> fresh_calls show_value cs t \<and> fresh_calls show_value ds (perform_all show_value cs t)"
  by (induction cs arbitrary: t) simp_all

text \<open>A session starts empty or from the snapshots of an earlier one, whose runs had distinct names.\<close>

definition snapshots_ok :: "run_state list \<Rightarrow> bool" where
  "snapshots_ok ss \<longleftrightarrow> distinct (map st_run_id ss) \<and> distinct (map st_name ss) \<and>
     list_all (\<lambda>s. length (st_history s) \<le> WORKFLOW_HISTORY_MAX) ss"

inductive reachable :: "('n jvalue \<Rightarrow> str) \<Rightarrow> tracker \<Rightarrow> bool" for show_value where
  fresh_session: "reachable show_value default_tracker"
| restored_session: "snapshots_ok ss \<Longrightarrow> reachable show_value (from_snapshot ats ss)"
| next_call: "reachable show_value t \<Longrightarrow> fresh_call c t \<Longrightarrow> reachable show_value (perform show_value c t)"

lemma restore_state_simps [simp]:
  "run_id (restore_state a s) = st_run_id s" "run_name (restore_state a s) = st_name s"
  "run_status (restore_state a s) = (if st_status s = StActive then StInterrupted else st_status s)"
  "length (st_history s) \<le> WORKFLOW_HISTORY_MAX \<Longrightarrow> run_ok (restore_state a s)"
  by (simp_all add: restore_state_def cancel_ghosts_def interrupt_restored_def charge_leases_def run_ok_def Let_def)

lemma map_enumerate_snd: "(\<And>i x. g (f i x) = h x) \<Longrightarrow> map g (map (\<lambda>(i, x). f i x) (List.enumerate n xs)) = map h xs"
  by (induction xs arbitrary: n) auto

lemma from_snapshot_ok: "snapshots_ok ss \<Longrightarrow> tracker_ok (from_snapshot ats ss)"
proof -
  assume ok: "snapshots_ok ss"
  let ?runs = "map (\<lambda>(i, s). restore_state (ats i) s) (List.enumerate 0 ss)"
  have "map run_id ?runs = map st_run_id ss" "map run_name ?runs = map st_name ss"
    by (rule map_enumerate_snd; simp)+
  moreover have "list_all run_ok ?runs"
    using ok by (auto simp: snapshots_ok_def list_all_iff dest!: in_set_enumerate_eq [THEN iffD1])
  ultimately show ?thesis
    using ok by (simp add: tracker_ok_def from_snapshot_def Let_def snapshots_ok_def)
qed

lemma default_tracker_ok [simp]: "tracker_ok default_tracker"
  by (simp add: tracker_ok_def default_tracker_def)

lemma reachable_ok: "reachable show_value t \<Longrightarrow> tracker_ok t"
  by (induction rule: reachable.induct)
    (simp_all add: from_snapshot_ok perform_ok)

lemma reachable_all: "reachable show_value t \<Longrightarrow> fresh_calls show_value cs t \<Longrightarrow> reachable show_value (perform_all show_value cs t)"
  by (induction cs arbitrary: t) (auto intro: next_call)

text \<open>A tracker with one run, for concrete instances.\<close>

definition sample_run :: tracked_run where
  "sample_run = \<lparr>tr_state =
      \<lparr>st_run_id = lit ''wf_1'', st_revision = 1, st_name = lit ''goal'', st_objective = [], st_status = StActive,
       st_phases = [], st_current_phase = None, st_agent_budget = Some 3, st_agents_used = 0, st_token_leases = [],
       st_agent_usage_incomplete = False, st_elapsed_ms_floor = 0, st_pause_message = None,
       st_history = [\<lparr>hist_event = lit ''workflow_started'', hist_detail = None, hist_at = lit ''t0''\<rparr>],
       st_journal_path = None, st_result_summary = None, st_agents = []\<rparr>,
     tr_active_since = Some 0, tr_execution_epoch = 0\<rparr>"

definition sample_start :: "'n tracker_call" where
  "sample_start = StartRun (lit ''t0'') 0 (lit ''wf_1'') (lit ''goal'') [] [] (Some 3) None"

definition one_run :: tracker where
  "one_run = default_tracker\<lparr>tk_runs := [sample_run]\<rparr>"

lemma perform_sample_start: "perform show_value sample_start default_tracker = one_run"
  by (simp add: sample_start_def one_run_def sample_run_def start_run_def default_tracker_def record_event_def Let_def
      advance_revision_def unique_name_def name_taken_def saturating_add_def WORKFLOW_HISTORY_MAX_def)

lemma one_run_reachable: "reachable show_value one_run"
proof -
  have "fresh_call sample_start default_tracker" by (simp add: sample_start_def default_tracker_def)
  from reachable.next_call [OF reachable.fresh_session this, of show_value] show ?thesis
    by (simp add: perform_sample_start)
qed

lemma one_run_simps [simp]:
  "tk_runs one_run = [sample_run]" "tk_reported one_run = {}" "tk_terminal_at_restore one_run = {}"
  "tk_status_reported one_run = Map.empty" "run_mut one_run (lit ''wf_1'') = Some sample_run"
  by (simp_all add: one_run_def default_tracker_def run_mut_def sample_run_def)

lemma sample_run_simps [simp]:
  "run_id sample_run = lit ''wf_1''" "run_status sample_run = StActive" "run_revision sample_run = 1"
  "st_agent_budget (tr_state sample_run) = Some 3" "st_agents_used (tr_state sample_run) = 0"
  "tr_execution_epoch sample_run = 0"
  by (simp_all add: sample_run_def)

text \<open>
  In every reachable tracker run names and identifiers are unique, the clock of a run goes exactly
  while the run is active, and no history is longer than its bound.
\<close>

theorem tracker_stays_consistent:
  assumes "reachable show_value t"
  shows "distinct (map run_id (tk_runs t)) \<and> distinct (map run_name (tk_runs t)) \<and>
    (\<forall>r \<in> set (tk_runs t). (tr_active_since r \<noteq> None \<longleftrightarrow> run_status r = StActive) \<and> length (st_history (tr_state r)) \<le> 64)"
  using reachable_ok [OF assms] by (auto simp: tracker_ok_def run_ok_def list_all_iff WORKFLOW_HISTORY_MAX_def)

theorem tracker_stays_consistent_witness: "distinct (map run_id (tk_runs one_run)) \<and> tk_runs one_run \<noteq> []"
  using tracker_stays_consistent [OF one_run_reachable] by simp

subsection \<open>The state machine of a run\<close>

text \<open>
  The status of a run changes only along the edges of its state machine. Nothing leaves
  \<open>Interrupted\<close>; a failed or cancelled run leaves its status only by being resumed or interrupted; and a
  run becomes active only by a resumption that its status and budget allow.
\<close>

theorem run_status_machine:
  assumes "reachable show_value t" and "fresh_call c t"
    and "run_mut t k = Some r" and "run_mut (perform show_value c t) k = Some r'"
    and "run_status r' \<noteq> run_status r"
  shows "run_status r \<noteq> StInterrupted \<and>
    (run_status r \<in> {StFailed, StCancelled} \<longrightarrow> run_status r' \<in> {StInterrupted, StActive}) \<and>
    (run_status r' = StActive \<longrightarrow>
      (\<exists>at now budget. c = ResumeRun at now k budget \<and> may_resume budget (tr_state r)))"
proof -
  have "may_follow (run_status r) (run_status r') \<or>
      (\<exists>at now budget. c = ResumeRun at now k budget \<and> may_resume budget (tr_state r) \<and> r' = resume_tracked at now budget r)"
    using perform_run [OF reachable_ok [OF assms(1)] assms(2-4)] by blast
  then show ?thesis
  proof
    assume "may_follow (run_status r) (run_status r')"
    then show ?thesis using assms(5) by (auto simp: may_follow_def)
  next
    assume "\<exists>at now budget. c = ResumeRun at now k budget \<and> may_resume budget (tr_state r) \<and> r' = resume_tracked at now budget r"
    moreover have "run_status (resume_tracked at now budget r) = StActive" for at now budget
      by (simp add: resume_tracked_def Let_def split: option.splits)
    moreover have "may_resume budget (tr_state r) \<Longrightarrow> run_status r \<noteq> StInterrupted" for budget
      by (auto simp: may_resume_def Let_def is_resumable_def is_paused_def)
    ultimately show ?thesis by auto
  qed
qed

subsection \<open>Revisions detect changes\<close>

lemma perform_new:
  assumes "tracker_ok t" and none: "run_mut t k = None" and some: "run_mut (perform show_value c t) k = Some r"
  obtains at now nm objective phases budget path where "c = StartRun at now k nm objective phases budget path"
proof (cases show_value c t rule: perform_cases)
  case (change key f)
  then show thesis
    using none some run_change.run_mut_with_run [OF status_change.axioms(1) [OF change(2)], of key t k]
    by (simp add: run_mut_cong [OF change(1)] split: if_splits)
next
  case (resume at now key budget)
  then have "run_mut (with_run key (resume_if at now budget) t) k = Some r"
    using some by (simp add: run_mut_cong [OF resume(2), symmetric])
  then show thesis using none by (simp add: resume.run_mut_with_run split: if_splits)
next
  case (start at now key nm objective phases budget path)
  obtain new where "tk_runs (perform show_value c t) = tk_runs t @ [new]" "run_id new = key"
    unfolding start by simp (rule started_run)
  then have "key = k" using none some by (simp add: run_mut_def find_append split: if_splits)
  with start that show thesis by simp
next
  case (clear at now key)
  then show thesis
    using assms by (simp add: run_mut_def tk_runs_clear_run tracker_ok_def find_remove_first split: if_splits)
next
  case report
  then show thesis using none some by (simp add: run_mut_cong [OF report])
qed

lemmas perform_defs = start_run_def resume_run_def set_phase_def release_agents_def reconcile_agents_used_def
  rebind_agent_id_def agent_finished_def log_message_def pause_user_def interrupt_run_def apply_outcome_def
  clear_run_def mark_completion_reported_def take_unreported_terminal_runs_def snd_reserve_agents snd_agent_started

lemma with_run_rest [simp]:
  "tk_status_reported (with_run key f t) = tk_status_reported t" "tk_reported (with_run key f t) = tk_reported t"
  "tk_terminal_at_restore (with_run key f t) = tk_terminal_at_restore t"
  by (simp_all add: with_run_def)

lemma perform_status_reported:
  "\<forall>now. c \<noteq> TakeStatusReport now \<Longrightarrow> tk_status_reported (perform show_value c t) = tk_status_reported t"
  by (cases c) (simp_all add: perform_defs Let_def split_beta split: option.splits)

definition reported_behind :: "tracker \<Rightarrow> bool" where
  "reported_behind t \<longleftrightarrow>
     (\<forall>k r v. run_mut t k = Some r \<longrightarrow> tk_status_reported t k = Some v \<longrightarrow> v \<le> run_revision r)"

lemma foldl_update_Some:
  "foldl (\<lambda>m s. m(i s \<mapsto> v s)) m ss k = Some x \<Longrightarrow> (\<exists>s \<in> set ss. i s = k \<and> v s = x) \<or> m k = Some x"
proof (induction ss arbitrary: m)
  case (Cons s ss)
  then show ?case using Cons.IH [of "m(i s \<mapsto> v s)"] by (auto split: if_splits)
qed simp

lemma run_mut_Some: "run_mut t k = Some r \<Longrightarrow> r \<in> set (tk_runs t) \<and> run_id r = k"
  by (auto simp: run_mut_def find_Some_iff)

lemma run_mut_iff: "tracker_ok t \<Longrightarrow> run_mut t k = Some r \<longleftrightarrow> r \<in> set (tk_runs t) \<and> run_id r = k"
proof
  assume "tracker_ok t" and r: "r \<in> set (tk_runs t) \<and> run_id r = k"
  then obtain r' where r': "run_mut t k = Some r'"
    by (cases "run_mut t k") (auto simp: run_mut_def find_None_iff)
  then have "r' \<in> set (tk_runs t)" "run_id r' = k" using run_mut_Some by blast+
  with r \<open>tracker_ok t\<close> have "r' = r" by (auto simp: tracker_ok_def distinct_map inj_on_def)
  with r' show "run_mut t k = Some r" by simp
qed (rule run_mut_Some)

lemma status_report_revision:
  assumes "tracker_ok t" and "run_mut t k = Some r" and "tk_status_reported (snd (take_status_report nows t)) k = Some v"
  shows "v = run_revision r \<or> tk_status_reported t k = Some v"
proof -
  let ?row = "\<lambda>(i, r). (tr_state r)\<lparr>st_elapsed_ms_floor := live_elapsed_ms (nows i) r\<rparr>"
  have reported: "\<exists>r \<in> set (tk_runs t). st_run_id s = run_id r \<and> st_revision s = run_revision r"
    if s: "s \<in> set (map ?row (List.enumerate 0 (live_runs t)))" for s
  proof -
    obtain i where "i < length (live_runs t)" "s = ?row (i, live_runs t ! i)"
      using s by (auto simp: in_set_enumerate_eq)
    moreover from this have "live_runs t ! i \<in> set (tk_runs t)"
      using nth_mem [of i "live_runs t"] by (auto simp: live_runs_def)
    ultimately show ?thesis by auto
  qed
  have "\<exists>r' \<in> set (tk_runs t). run_id r' = k \<and> run_revision r' = v" if "tk_status_reported t k \<noteq> Some v"
    using assms(3) that
    by (auto simp: take_status_report_def Let_def simp del: set_map split: if_splits dest!: foldl_update_Some reported)
  then show ?thesis
    using assms(1,2) by (auto simp: run_mut_iff tracker_ok_def distinct_map inj_on_def)
qed

lemma evolves_revision: "evolves r r' \<Longrightarrow> run_revision r \<le> run_revision r'"
  by (auto simp: evolves_def revision_moved_def)

lemma perform_reported_behind:
  assumes "tracker_ok t" and "fresh_call c t" and behind: "reported_behind t"
  shows "reported_behind (perform show_value c t)"
  unfolding reported_behind_def
proof (intro allI impI)
  fix k r' v
  assume r': "run_mut (perform show_value c t) k = Some r'" and v: "tk_status_reported (perform show_value c t) k = Some v"
  show "v \<le> run_revision r'"
  proof (cases "\<exists>nows. c = TakeStatusReport nows")
    case True
    then obtain nows where c: "c = TakeStatusReport nows" by blast
    then have run: "run_mut t k = Some r'" using r' by (simp add: run_mut_cong [OF tk_runs_reports(3)])
    show ?thesis
      using status_report_revision [OF assms(1) run, of nows v] v behind run by (auto simp: c reported_behind_def)
  next
    case False
    then have v: "tk_status_reported t k = Some v" using v perform_status_reported by metis
    show ?thesis
    proof (cases "run_mut t k")
      case None
      then show ?thesis using perform_new [OF assms(1) None r'] assms(2) v by fastforce
    next
      case (Some r)
      then have "evolves r r'" using perform_run [OF assms(1,2) Some r'] by blast
      then show ?thesis using behind Some v evolves_revision by (fastforce simp: reported_behind_def)
    qed
  qed
qed

lemma reachable_reported_behind: "reachable show_value t \<Longrightarrow> reported_behind t"
proof (induction rule: reachable.induct)
  case (next_call t c)
  then show ?case by (intro perform_reported_behind reachable_ok)
qed (simp_all add: reported_behind_def default_tracker_def from_snapshot_def Let_def)

text \<open>
  A call that changes anything of a run moves its revision forward, and one that changes nothing
  leaves it, as long as the counter has not reached its maximum: comparing revisions is enough to
  tell whether a run has changed.
\<close>

theorem revision_detects_change:
  assumes "reachable show_value t" and "fresh_call c t"
    and "run_mut t k = Some r" and "run_mut (perform show_value c t) k = Some r'" and "run_revision r \<noteq> - 1"
  shows "(run_revision r' = run_revision r \<longleftrightarrow> r' = r) \<and> run_revision r \<le> run_revision r'"
  using perform_run [OF reachable_ok [OF assms(1)] assms(2-4)] assms(5)
  by (auto simp: evolves_def revision_moved_def)

text \<open>Runs that a status report has covered are followed back to the tracker it left behind.\<close>

lemma status_reported_kept:
  "\<forall>now. TakeStatusReport now \<notin> set cs \<Longrightarrow> tk_status_reported (perform_all show_value cs t) = tk_status_reported t"
proof (induction cs arbitrary: t)
  case (Cons c cs)
  then have "\<forall>now. c \<noteq> TakeStatusReport now" by auto
  with Cons show ?case by (simp add: perform_status_reported)
qed simp

lemma follow_back:
  assumes "reachable show_value t" and "fresh_calls show_value cs t" and "\<forall>now. TakeStatusReport now \<notin> set cs"
    and "run_mut (perform_all show_value cs t) k = Some r'" and "tk_status_reported t k = Some v"
  shows "\<exists>r. run_mut t k = Some r \<and> evolves r r'"
  using assms
proof (induction cs arbitrary: t)
  case (Cons c cs)
  let ?t = "perform show_value c t"
  have ok: "tracker_ok t" and fresh: "fresh_call c t" using Cons.prems(1,2) by (simp_all add: reachable_ok)
  have "tk_status_reported ?t = tk_status_reported t"
    using Cons.prems(3) by (intro perform_status_reported) auto
  then obtain r where r: "run_mut ?t k = Some r" "evolves r r'"
    using Cons.IH [of ?t] Cons.prems next_call [OF Cons.prems(1) fresh] by auto
  show ?case
  proof (cases "run_mut t k")
    case None
    then show ?thesis using perform_new [OF ok None r(1)] fresh Cons.prems(5) by fastforce
  next
    case (Some q)
    then have "evolves q r" using perform_run [OF ok fresh Some r(1)] by simp
    with Some r(2) show ?thesis by (blast intro: evolves_trans)
  qed
qed auto

text \<open>
  C3: When a status report comes back empty, no live run has changed since the previous report: each is
  exactly as that report left it, whatever calls came in between (up to a run whose revision counter
  is at its maximum).
\<close>

theorem quiet_report_means_unchanged:
  assumes "reachable show_value t" and "take_status_report nows t = (report, t1)"
    and "fresh_calls show_value cs t1" and "\<forall>now. TakeStatusReport now \<notin> set cs"
    and "t2 = perform_all show_value cs t1" and "take_status_report nows' t2 = ([], t3)"
    and "r \<in> set (live_runs t2)" and "run_revision r \<noteq> - 1"
  shows "r \<in> set (live_runs t1)"
proof -
  have t1: "reachable show_value t1" using next_call [OF assms(1), of "TakeStatusReport nows"] assms(2) by simp
  have t2: "reachable show_value t2" unfolding assms(5) by (rule reachable_all [OF t1 assms(3)])
  have r: "run_mut t2 (run_id r) = Some r"
    using assms(7) by (simp add: run_mut_iff [OF reachable_ok [OF t2]] live_runs_def)
  have "length report = length (live_runs t2)" if "list_ex (\<lambda>r. tk_status_reported t2 (run_id r) \<noteq> Some (run_revision r)) (live_runs t2)"
    and "take_status_report nows' t2 = (report, t')" for report t'
    using that by (auto simp: take_status_report_def Let_def)
  then have "tk_status_reported t2 (run_id r) = Some (run_revision r)"
    using assms(6,7) by (fastforce simp: list_ex_iff)
  then have v: "tk_status_reported t1 (run_id r) = Some (run_revision r)"
    using status_reported_kept [OF assms(4), of show_value t1] by (simp add: assms(5))
  then obtain q where q: "run_mut t1 (run_id r) = Some q" "evolves q r"
    using follow_back [OF t1 assms(3,4) r [unfolded assms(5)]] by blast
  have "run_revision r \<le> run_revision q"
    using reachable_reported_behind [OF t1] q(1) v by (simp add: reported_behind_def)
  with q(2) assms(8) have "q = r" by (auto simp: evolves_def revision_moved_def)
  with run_mut_Some [OF q(1)] assms(7) show ?thesis by (simp add: live_runs_def)
qed

theorem quiet_report_means_unchanged_witness:
  "\<exists>report t1. take_status_report (\<lambda>_. 0) one_run = (report, t1) \<and> report \<noteq> [] \<and>
     fst (take_status_report (\<lambda>_. 5) (perform_all (\<lambda>_ :: nat jvalue. []) [MarkCompletionReported []] t1)) = [] \<and>
     sample_run \<in> set (live_runs t1)"
proof -
  let ?cs = "[MarkCompletionReported []] :: nat tracker_call list"
  obtain report t1 where t1: "take_status_report (\<lambda>_. 0) one_run = (report, t1)" by fastforce
  then have runs: "tk_runs t1 = [sample_run]" and v: "tk_status_reported t1 (lit ''wf_1'') = Some 1" and "report \<noteq> []"
    by (auto simp: take_status_report_def Let_def live_runs_def is_completion_reportable_def is_terminal_def)
  let ?t2 = "perform_all (\<lambda>_. []) ?cs t1"
  have t2: "take_status_report (\<lambda>_. 5) ?t2 = ([], ?t2)" and live: "sample_run \<in> set (live_runs ?t2)"
    using runs v
    by (simp_all add: take_status_report_def Let_def live_runs_def is_completion_reportable_def is_terminal_def
        mark_completion_reported_def)
  have "sample_run \<in> set (live_runs t1)"
    by (rule quiet_report_means_unchanged [OF one_run_reachable t1 _ _ refl t2 live]) simp_all
  with t1 t2 \<open>report \<noteq> []\<close> show ?thesis by auto
qed

subsection \<open>Interruptions and completions over a session\<close>

fun starts :: "str \<Rightarrow> 'n tracker_call \<Rightarrow> bool" where
  "starts k (StartRun at now key nm objective phases budget path) \<longleftrightarrow> key = k"
| "starts k _ \<longleftrightarrow> False"

fun resumes :: "str \<Rightarrow> 'n tracker_call \<Rightarrow> bool" where
  "resumes k (ResumeRun at now key budget) \<longleftrightarrow> key = k"
| "resumes k _ \<longleftrightarrow> False"

lemma gone_stays_gone:
  assumes "tracker_ok t" and "fresh_calls show_value cs t" and "list_all (\<lambda>c. \<not> starts k c) cs" and "run_mut t k = None"
  shows "run_mut (perform_all show_value cs t) k = None"
  using assms
proof (induction cs arbitrary: t)
  case (Cons c cs)
  have "run_mut (perform show_value c t) k = None"
  proof (rule ccontr)
    assume "run_mut (perform show_value c t) k \<noteq> None"
    then obtain r where "run_mut (perform show_value c t) k = Some r" by blast
    from perform_new [OF Cons.prems(1,4) this] Cons.prems(3) show False by fastforce
  qed
  with Cons show ?case by (simp add: perform_ok)
qed simp

text \<open>
  C36: An interrupted run stays interrupted: whatever calls follow, late outcomes, resumptions and pauses
  of that run included, it is still interrupted as long as the tracker knows it.
\<close>

theorem interrupted_is_final:
  assumes "tracker_ok t" and "fresh_calls show_value cs t" and "list_all (\<lambda>c. \<not> starts k c) cs"
    and "run_mut t k = Some r" and "run_status r = StInterrupted"
    and "run_mut (perform_all show_value cs t) k = Some r'"
  shows "run_status r' = StInterrupted"
  using assms
proof (induction cs arbitrary: t r)
  case (Cons c cs)
  let ?t = "perform show_value c t"
  have ok: "tracker_ok ?t" using Cons.prems by (simp add: perform_ok)
  show ?case
  proof (cases "run_mut ?t k")
    case None
    then show ?thesis using gone_stays_gone [OF ok _ _ None, of show_value cs] Cons.prems by simp
  next
    case (Some q)
    have "run_status q = StInterrupted"
      using perform_run [OF Cons.prems(1) _ Cons.prems(4) Some] Cons.prems(2,5)
      by (auto simp: may_follow_def may_resume_def Let_def is_resumable_def is_paused_def)
    with Some ok show ?thesis using Cons.IH [of ?t q] Cons.prems by simp
  qed
qed simp

theorem interrupted_is_final_witness:
  "map_option run_status (run_mut (perform_all (\<lambda>_ :: nat jvalue. [])
     [ResumeRun [] 2 (lit ''wf_1'') (Some 9), ApplyOutcome [] 3 (lit ''wf_1'') OutcomeCancelled]
     (snd (interrupt_run [] 1 (lit ''wf_1'') [] one_run))) (lit ''wf_1'')) = Some StInterrupted"
proof -
  let ?k = "lit ''wf_1''"
  let ?cs = "[ResumeRun [] 2 ?k (Some 9), ApplyOutcome [] 3 ?k OutcomeCancelled] :: nat tracker_call list"
  let ?t = "snd (interrupt_run [] 1 ?k [] one_run)"
  let ?t2 = "perform_all (\<lambda>_. []) ?cs ?t"
  have ok: "tracker_ok ?t"
    using reachable_ok [OF one_run_reachable] by (simp add: interrupt_run_def interrupt.with_run_ok)
  have r: "run_mut ?t ?k = Some (interrupt_tracked [] 1 [] sample_run)"
    by (simp add: interrupt_run_def interrupt.run_mut_with_run)
  have "run_mut ?t2 ?k \<noteq> None"
    using resume.run_mut_with_run [of ?k "[]" 2 "Some 9" ?t ?k] r
    by (simp add: apply_outcome_def outcome.run_mut_with_run run_mut_cong [OF tk_runs_resume_run])
  then obtain r' where r': "run_mut ?t2 ?k = Some r'" by blast
  have "run_status r' = StInterrupted"
    by (rule interrupted_is_final [OF ok _ _ r _ r']) (simp_all add: interrupt_tracked_def Let_def)
  with r' show ?thesis by simp
qed

lemma perform_reported:
  "\<not> resumes k c \<Longrightarrow> k \<in> tk_reported t \<Longrightarrow> k \<in> tk_reported (perform show_value c t)"
  by (cases c) (auto simp: perform_defs Let_def split_beta take_status_report_def split: option.splits)

lemma reported_kept:
  "list_all (\<lambda>c. \<not> resumes k c) cs \<Longrightarrow> k \<in> tk_reported t \<Longrightarrow> k \<in> tk_reported (perform_all show_value cs t)"
  by (induction cs arbitrary: t) (auto simp: perform_reported)

text \<open>
  C37: The report of completions contains every run that has ended and was not reported before, in the
  part for restored runs exactly when it had ended before the session was restored; and no run in it
  is reported a second time unless it was resumed in between.
\<close>

theorem completions_reported_once:
  assumes "take_unreported_terminal_runs t = ((restored, fresh), t1)"
  shows "set restored = {tr_state r | r. r \<in> set (tk_runs t) \<and> is_completion_reportable (run_status r) \<and>
      run_id r \<notin> tk_reported t \<and> run_id r \<in> tk_terminal_at_restore t} \<and>
    set fresh = {tr_state r | r. r \<in> set (tk_runs t) \<and> is_completion_reportable (run_status r) \<and>
      run_id r \<notin> tk_reported t \<and> run_id r \<notin> tk_terminal_at_restore t} \<and>
    (\<forall>s \<in> set (restored @ fresh). \<forall>cs. list_all (\<lambda>c. \<not> resumes (st_run_id s) c) cs \<longrightarrow>
      (\<forall>s' \<in> set (fst (fst (take_unreported_terminal_runs (perform_all show_value cs t1))) @
                   snd (fst (take_unreported_terminal_runs (perform_all show_value cs t1)))).
         st_run_id s' \<noteq> st_run_id s))"
proof (intro conjI ballI allI impI)
  show "set restored = {tr_state r | r. r \<in> set (tk_runs t) \<and> is_completion_reportable (run_status r) \<and>
      run_id r \<notin> tk_reported t \<and> run_id r \<in> tk_terminal_at_restore t}"
    using assms by (auto simp: take_unreported_terminal_runs_def Let_def unreported_def)
  show "set fresh = {tr_state r | r. r \<in> set (tk_runs t) \<and> is_completion_reportable (run_status r) \<and>
      run_id r \<notin> tk_reported t \<and> run_id r \<notin> tk_terminal_at_restore t}"
    using assms by (auto simp: take_unreported_terminal_runs_def Let_def unreported_def)
  fix s cs s'
  assume s: "s \<in> set (restored @ fresh)" and "list_all (\<lambda>c. \<not> resumes (st_run_id s) c) cs"
    and s': "s' \<in> set (fst (fst (take_unreported_terminal_runs (perform_all show_value cs t1))) @
                   snd (fst (take_unreported_terminal_runs (perform_all show_value cs t1))))"
  moreover have "st_run_id s \<in> tk_reported t1"
    using assms s by (auto simp: take_unreported_terminal_runs_def Let_def)
  ultimately have "st_run_id s \<in> tk_reported (perform_all show_value cs t1)" by (simp add: reported_kept)
  with s' show "st_run_id s' \<noteq> st_run_id s"
    by (auto simp: take_unreported_terminal_runs_def Let_def unreported_def)
qed

theorem completions_reported_once_witness:
  "\<exists>s t1. take_unreported_terminal_runs (snd (interrupt_run [] 1 (lit ''wf_1'') [] one_run)) = (([], [s]), t1) \<and>
     fst (take_unreported_terminal_runs t1) = ([], [])"
proof -
  let ?t = "snd (interrupt_run [] 1 (lit ''wf_1'') [] one_run)"
  let ?r = "interrupt_tracked [] 1 [] sample_run"
  have runs: "tk_runs ?t = [?r]" "tk_reported ?t = {}" "tk_terminal_at_restore ?t = {}"
    by (simp_all add: interrupt_run_def with_run_def)
  have status: "run_status ?r = StInterrupted" by (simp add: interrupt_tracked_def Let_def)
  obtain t1 where t1: "take_unreported_terminal_runs ?t = (([], [tr_state ?r]), t1)"
    using runs status
    by (simp add: take_unreported_terminal_runs_def unreported_def Let_def is_completion_reportable_def is_terminal_def)
  have "tk_runs t1 = [?r]" using t1 runs tk_runs_reports(2) [of ?t] by simp
  moreover have "\<forall>s' \<in> set (fst (fst (take_unreported_terminal_runs (perform_all (\<lambda>_ :: nat jvalue. []) [] t1))) @
      snd (fst (take_unreported_terminal_runs (perform_all (\<lambda>_ :: nat jvalue. []) [] t1)))). st_run_id s' \<noteq> run_id ?r"
    using completions_reported_once [OF t1, of "\<lambda>_ :: nat jvalue. []", THEN conjunct2, THEN conjunct2,
        THEN bspec [of _ _ "tr_state ?r"], THEN spec [of _ "[]"]] by simp
  moreover have "unreported t1 = [] \<or> unreported t1 = [?r]"
    unfolding unreported_def \<open>tk_runs t1 = [?r]\<close> by simp
  ultimately have "unreported t1 = []"
    by (cases "run_id ?r \<in> tk_terminal_at_restore t1") (auto simp: take_unreported_terminal_runs_def Let_def)
  then have "fst (take_unreported_terminal_runs t1) = ([], [])"
    by (simp add: take_unreported_terminal_runs_def Let_def)
  with t1 show ?thesis by blast
qed

end
