(* ===== verification/Tracker_Budget.thy ===== *)
theory Tracker_Budget
  imports Tracker_Laws
begin

text \<open>
  The agent budget of a run, the names of runs and the bounds of recorded messages: what the
  operations of the tracker guarantee beyond its invariant.
\<close>

declare lit_Cons [simp del]

subsection \<open>The agent budget\<close>

text \<open>
  A run has a budget, and what it uses is within that budget, or \<open>counted\<close>: a number that did not come
  from a reservation of this session, because the run was restored with it or its journal showed it.
\<close>

definition within_budget :: "(str \<Rightarrow> u64 \<Rightarrow> bool) \<Rightarrow> tracked_run \<Rightarrow> bool" where
  "within_budget counted r \<longleftrightarrow>
     (\<exists>limit. st_agent_budget (tr_state r) = Some limit \<and>
       (st_agents_used (tr_state r) \<le> limit \<or> (\<exists>used. counted (run_id r) used \<and> st_agents_used (tr_state r) \<le> used)))"

text \<open>The calls that start a run without a budget; the manager always gives one.\<close>

fun starts_unbudgeted :: "'n tracker_call \<Rightarrow> bool" where
  "starts_unbudgeted (StartRun at now key nm objective phases budget path) \<longleftrightarrow> budget = None"
| "starts_unbudgeted _ \<longleftrightarrow> False"

definition counted_by :: "tracker \<Rightarrow> 'n tracker_call list \<Rightarrow> str \<Rightarrow> u64 \<Rightarrow> bool" where
  "counted_by t cs key used \<longleftrightarrow>
     (\<exists>r \<in> set (tk_runs t). run_id r = key \<and> st_agents_used (tr_state r) = used) \<or> ReconcileAgentsUsed key used \<in> set cs"

lemma within_budgetI:
  "st_agent_budget (tr_state r') = st_agent_budget (tr_state r) \<Longrightarrow> run_id r' = run_id r \<Longrightarrow>
   st_agents_used (tr_state r') \<le> st_agents_used (tr_state r) \<Longrightarrow> within_budget counted r \<Longrightarrow> within_budget counted r'"
  unfolding within_budget_def by (auto intro: order_trans)

lemma saturating_sub_le: "saturating_sub a b \<le> a"
  by (simp add: word_le_nat_alt unat_saturating_sub)

lemma within_changes:
  assumes "within_budget counted r"
  shows "within_budget counted (phase_tracked at title r)" "within_budget counted (reserve_tracked n r)"
    "within_budget counted (release_tracked n r)" "within_budget counted (agent_started_tracked E row r)"
    "within_budget counted (change_row agent g r)" "within_budget counted (log_tracked at message r)"
    "within_budget counted (pause_tracked at now msg r)" "within_budget counted (interrupt_tracked at now message r)"
    "within_budget counted (outcome_tracked show_value at now out r)" "within_budget counted (resume_if at now new_budget r)"
proof -
  show "within_budget counted (reserve_tracked n r)"
    using assms by (auto simp: reserve_tracked_def Let_def within_budget_def not_less used_tracked_def split: option.splits)
  show "within_budget counted (resume_if at now new_budget r)"
    using assms
    by (auto simp: resume_if_def resume_tracked_def Let_def candidate_budget_def within_budget_def le_max_iff_disj
        split: option.splits)
qed (rule within_budgetI [OF _ _ _ assms];
  simp add: phase_tracked_def agent_started_tracked_def Let_def change_row_def log_tracked_def pause_tracked_def
    interrupt_tracked_def outcome_tracked_def release_tracked_def used_tracked_def saturating_sub_le)+

lemma within_reconcile: "counted (run_id r) used \<Longrightarrow> within_budget counted r \<Longrightarrow> within_budget counted (reconcile_tracked used r)"
  by (auto simp: within_budget_def reconcile_tracked_def used_tracked_def)

lemma list_all_update_find:
  "list_all Q xs \<Longrightarrow> (\<And>x. P x \<Longrightarrow> Q x \<Longrightarrow> Q (f x)) \<Longrightarrow> list_all Q (update_first P f xs)"
  by (induction xs) (auto split: if_splits)

lemma perform_within:
  assumes "list_all (within_budget counted) (tk_runs t)" and "\<not> starts_unbudgeted c"
    and "\<And>key used. c = ReconcileAgentsUsed key used \<Longrightarrow> counted key used"
  shows "list_all (within_budget counted) (tk_runs (perform show_value c t))"
proof -
  have upd: "list_all (within_budget counted) (tk_runs (with_run key f t))"
    if "\<And>r. within_budget counted r \<Longrightarrow> within_budget counted (f r)" for key f
    unfolding with_run_def using that assms(1) by (simp add: list_all_update_first)
  show ?thesis
  proof (cases c)
    case (StartRun at now key nm objective phases budget path)
    obtain r where "tk_runs (perform show_value c t) = tk_runs t @ [r]"
      "st_agents_used (tr_state r) = 0" "st_agent_budget (tr_state r) = budget"
      unfolding StartRun by simp (rule started_run)
    with assms(1,2) StartRun show ?thesis by (auto simp: within_budget_def)
  next
    case (ReconcileAgentsUsed key used)
    have "list_all (within_budget counted) (update_first (\<lambda>r. run_id r = key) (reconcile_tracked used) (tk_runs t))"
      using assms(1,3) ReconcileAgentsUsed by (intro list_all_update_find) (auto intro: within_reconcile)
    then show ?thesis by (simp add: ReconcileAgentsUsed reconcile_agents_used_def with_run_def)
  next
    case (ClearRun at now key)
    then show ?thesis
      using assms(1) set_remove_first [of "\<lambda>r. run_id r = key" "tk_runs t"]
      by (auto simp: tk_runs_clear_run list_all_iff)
  qed (use assms(1) in \<open>simp_all add: tk_runs_resume_run set_phase_def release_agents_def rebind_agent_id_def
      agent_finished_def log_message_def pause_user_def interrupt_run_def apply_outcome_def snd_reserve_agents
      snd_agent_started upd within_changes\<close>)
qed

lemma perform_all_within:
  assumes "list_all (within_budget counted) (tk_runs t)" and "\<forall>c \<in> set cs. \<not> starts_unbudgeted c"
    and "\<And>key used. ReconcileAgentsUsed key used \<in> set cs \<Longrightarrow> counted key used"
  shows "list_all (within_budget counted) (tk_runs (perform_all show_value cs t))"
  using assms by (induction cs arbitrary: t) (simp_all add: perform_within)

text \<open>
  C11: Take any tracker whose runs have a budget, fresh or restored, and any calls, except starting a run without a
  budget. Then every run has a budget afterwards, and it uses no more agents than that budget, or no
  more than it was restored with, or no more than a count that \<open>reconcile_agents_used\<close> took from its
  journal: reservations beyond the budget are refused, releases only lower the count, and a resumption
  never lowers a budget. So a session takes no run over its budget by reservations, not even one that
  came over it.
\<close>

theorem agents_stay_within_budget:
  assumes "\<forall>r \<in> set (tk_runs t). st_agent_budget (tr_state r) \<noteq> None" and "\<forall>c \<in> set cs. \<not> starts_unbudgeted c"
    and "r \<in> set (tk_runs (perform_all show_value cs t))"
  shows "\<exists>limit. st_agent_budget (tr_state r) = Some limit \<and>
    (st_agents_used (tr_state r) \<le> limit \<or>
     (\<exists>before \<in> set (tk_runs t). run_id before = run_id r \<and> st_agents_used (tr_state r) \<le> st_agents_used (tr_state before)) \<or>
     (\<exists>used. ReconcileAgentsUsed (run_id r) used \<in> set cs \<and> st_agents_used (tr_state r) \<le> used))"
proof -
  have "list_all (within_budget (counted_by t cs)) (tk_runs (perform_all show_value cs t))"
  proof (rule perform_all_within)
    show "list_all (within_budget (counted_by t cs)) (tk_runs t)"
      using assms(1) by (fastforce simp: list_all_iff within_budget_def counted_by_def)
  qed (use assms(2) in \<open>simp_all add: counted_by_def\<close>)
  with assms(3) have "within_budget (counted_by t cs) r" by (simp add: list_all_iff)
  then show ?thesis by (auto simp: within_budget_def counted_by_def)
qed

text \<open>A restored run with a budget of three agents that uses two: a reservation of four leaves it as it is.\<close>

definition restored_run :: tracked_run where
  "restored_run = sample_run\<lparr>tr_state := (tr_state sample_run)\<lparr>st_agents_used := 2\<rparr>\<rparr>"

theorem agents_stay_within_budget_witness:
  "perform (\<lambda>_ :: nat jvalue. []) (ReserveAgents (lit ''wf_1'') 4) (one_run\<lparr>tk_runs := [restored_run]\<rparr>) =
     one_run\<lparr>tk_runs := [restored_run]\<rparr> \<and>
   (\<exists>limit. st_agent_budget (tr_state restored_run) = Some limit \<and> st_agents_used (tr_state restored_run) \<le> max limit 2)"
proof -
  let ?t = "one_run\<lparr>tk_runs := [restored_run]\<rparr>"
  let ?cs = "[ReserveAgents (lit ''wf_1'') 4] :: nat tracker_call list"
  have "run_mut ?t (lit ''wf_1'') = Some restored_run"
    by (simp add: run_mut_def restored_run_def)
  then have refused: "perform (\<lambda>_. []) (ReserveAgents (lit ''wf_1'') 4 :: nat tracker_call) ?t = ?t"
    by (simp add: reserve_agents_def Let_def saturating_add_def restored_run_def)
  then have "restored_run \<in> set (tk_runs (perform_all (\<lambda>_. []) ?cs ?t))" by simp
  moreover have "\<forall>r \<in> set (tk_runs ?t). st_agent_budget (tr_state r) \<noteq> None" by (simp add: restored_run_def)
  moreover have "\<forall>c \<in> set ?cs. \<not> starts_unbudgeted c" by simp
  ultimately have "\<exists>limit. st_agent_budget (tr_state restored_run) = Some limit \<and>
      st_agents_used (tr_state restored_run) \<le> max limit 2"
    using agents_stay_within_budget [of ?t ?cs restored_run "\<lambda>_. []"] by (auto simp: restored_run_def le_max_iff_disj)
  with refused show ?thesis by blast
qed

text \<open>
  A reservation under a budget below the maximum of the counter is granted exactly when the agents
  used and requested fit, then adds them without loss; otherwise it reports the sum, capped, with the
  limit and changes nothing.
\<close>

theorem reserve_agents_exact:
  assumes "run_mut t key = Some r" and "st_agent_budget (tr_state r) = Some limit" and "limit \<noteq> - 1"
  shows "if unat (st_agents_used (tr_state r)) + unat n \<le> unat limit
    then \<exists>s. reserve_agents key n t = (Inr s, with_run key (reserve_tracked n) t) \<and>
      unat (st_agents_used s) = unat (st_agents_used (tr_state r)) + unat n
    else reserve_agents key n t = (Inl (saturating_add (st_agents_used (tr_state r)) n, limit), t)"
proof -
  let ?sum = "saturating_add (st_agents_used (tr_state r)) n"
  have iff: "limit < ?sum \<longleftrightarrow> unat limit < unat (st_agents_used (tr_state r)) + unat n"
    using u64_below_max [OF assms(3)] by (auto simp: word_less_nat_alt unat_saturating_add)
  have eq: "with_run key (used_tracked ?sum) t = with_run key (reserve_tracked n) t" if "\<not> limit < ?sum"
    by (rule with_run_cong [OF assms(1)]) (use that assms(2) in \<open>simp add: reserve_tracked_def\<close>)
  show ?thesis
  proof (cases "unat (st_agents_used (tr_state r)) + unat n \<le> unat limit")
    case True
    moreover from this have "unat ?sum = unat (st_agents_used (tr_state r)) + unat n"
      using u64_below_max [OF assms(3)] by (simp add: unat_saturating_add)
    ultimately show ?thesis
      using assms(1,2) iff eq by (simp add: reserve_agents_def Let_def)
  next
    case False
    then show ?thesis using assms(1,2) iff by (simp add: reserve_agents_def Let_def)
  qed
qed

text \<open>
  A run that exhausted its budget is resumed exactly by a budget above both the old budget and the
  agents already used; it is then active under the new budget, and every earlier agent still counts.
\<close>

theorem budget_limited_resume:
  assumes "run_mut t key = Some r" and "run_status r = StBudgetLimited" and "st_agent_budget (tr_state r) = Some old"
  shows "if \<exists>b. new_budget = Some b \<and> old < b \<and> st_agents_used (tr_state r) < b
    then \<exists>s t'. resume_run at now key new_budget t = (Some s, t') \<and>
      st_status s = StActive \<and> st_agent_budget s = new_budget \<and> st_agents_used s = st_agents_used (tr_state r)
    else resume_run at now key new_budget t = (None, t)"
proof -
  have "may_resume new_budget (tr_state r) \<longleftrightarrow> (\<exists>b. new_budget = Some b \<and> old < b \<and> st_agents_used (tr_state r) < b)"
    using assms(2,3)
    by (auto simp: may_resume_def Let_def is_resumable_def is_paused_def candidate_budget_def not_le max_def split: option.splits)
  moreover have "st_status (tr_state (resume_tracked at now (Some b) r)) = StActive"
    "old < b \<Longrightarrow> st_agent_budget (tr_state (resume_tracked at now (Some b) r)) = Some b"
    "st_agents_used (tr_state (resume_tracked at now (Some b) r)) = st_agents_used (tr_state r)" for b
    using assms(3) by (auto simp: resume_tracked_def Let_def candidate_budget_def max_def)
  ultimately show ?thesis
    using assms(1) by (auto simp: resume_run_def changed_run_def)
qed

subsection \<open>Names of runs\<close>

lemma name_chars_append: "name_chars s \<Longrightarrow> name_chars u \<Longrightarrow> name_chars (s @ 45 # u)"
proof (induction s rule: name_chars.induct)
  case (3 c d s)
  then show ?case by (cases s) (auto split: if_splits)
qed simp_all

lemma numbered_name_valid: "valid_workflow_name nm \<Longrightarrow> valid_workflow_name (numbered_name nm n)"
proof -
  have "name_chars (show_nat n)"
    by (rule name_chars_word) (auto simp: show_nat_def list_all_iff is_name_byte_def dest!: digits_of_less [rotated])
  then show "valid_workflow_name nm \<Longrightarrow> ?thesis"
    by (simp add: valid_workflow_name_chars numbered_name_def lit_Cons name_chars_append)
qed

lemma free_name_numbered: "\<exists>m. free_name runs nm n = numbered_name nm m"
proof (induction runs nm n rule: free_name.induct)
  case (1 runs nm n)
  then show ?case by (cases "name_taken runs (numbered_name nm n)") (auto simp: free_name.simps [of runs nm n])
qed

text \<open>
  A new run always gets a name that no other run of the session has: the requested one when it is
  free, otherwise one with a number, found after finitely many steps, which is a valid workflow name
  again when the requested name was valid.
\<close>

theorem new_run_name_is_free:
  assumes "start_run at now key nm objective phases budget path t = (s, t')"
  shows "st_name s \<notin> run_name ` set (tk_runs t) \<and>
    (nm \<notin> run_name ` set (tk_runs t) \<longrightarrow> st_name s = nm) \<and>
    (valid_workflow_name nm \<longrightarrow> valid_workflow_name (st_name s))"
proof -
  have s: "st_name s = unique_name (tk_runs t) nm" using assms by (auto simp: start_run_def Let_def)
  moreover have taken: "name_taken (tk_runs t) x \<longleftrightarrow> x \<in> run_name ` set (tk_runs t)" for x
    by (auto simp: name_taken_def list_ex_iff)
  moreover have "valid_workflow_name (unique_name (tk_runs t) nm)" if "valid_workflow_name nm"
    using free_name_numbered [of "tk_runs t" nm 2] that by (auto simp: unique_name_def numbered_name_valid)
  ultimately show ?thesis using unique_name_free [of "tk_runs t" nm] by (auto simp: unique_name_def)
qed

lemma find_run_id_by_name:
  assumes "tracker_ok t" and "r \<in> set (tk_runs t)" and "run_name r \<notin> run_id ` set (tk_runs t)"
  shows "find_run_id t (run_name r) = Some (run_id r)"
proof -
  have "find (\<lambda>q. run_id q = run_name r \<or> run_name q = run_name r) (tk_runs t) \<noteq> None"
    using assms(2) by (auto simp: find_None_iff)
  then obtain q where q: "find (\<lambda>q. run_id q = run_name r \<or> run_name q = run_name r) (tk_runs t) = Some q" by blast
  then have in_runs: "q \<in> set (tk_runs t)" and "run_id q = run_name r \<or> run_name q = run_name r"
    by (auto simp: find_Some_iff)
  then have "run_name q = run_name r" using assms(3) by force
  moreover have "inj_on run_name (set (tk_runs t))" using assms(1) by (simp add: tracker_ok_def distinct_map)
  ultimately have "q = r" using in_runs assms(2) by (blast dest: inj_onD)
  with q show ?thesis by (simp add: find_run_id_def)
qed

subsection \<open>Bounded messages\<close>

lemma truncate_str_prefix:
  obtains p where "truncate_str s n = Some p" and "prefix p s" and "str_len p \<le> n" and "str_len s \<le> n \<Longrightarrow> p = s"
proof (cases "str_len s \<le> n")
  case True
  then show thesis using that [of s] by (simp add: truncate_str_def)
next
  case False
  obtain p where "slice_to s (floor_boundary s n) = Some p" "prefix p s" "str_len p \<le> n"
    by (rule slice_to_floor_boundary)
  with False show thesis using that [of p] by (simp add: truncate_str_def)
qed

lemma capped_pause_message: "prefix (capped_pause_message s) s \<and> str_len (capped_pause_message s) \<le> 4096"
  by (rule truncate_str_prefix [of s 4096]) (simp add: capped_pause_message_def WORKFLOW_PAUSE_MESSAGE_MAX_BYTES_def)

text \<open>
  The summary kept of a result is never longer than 16 KiB and the ellipsis, and is the text of the
  result itself when that fits.
\<close>

theorem summary_is_bounded: "str_len (summarize_result show_value result) \<le> 16 * 1024 + 3"
proof -
  have "str_len (the (slice_to body (floor_boundary body MAX_SUMMARY))) \<le> 16 * 1024" for body
    by (rule slice_to_floor_boundary [of body MAX_SUMMARY]) (simp add: MAX_SUMMARY_def)
  then show ?thesis by (simp add: summarize_result_def Let_def MAX_SUMMARY_def len_utf8_def trans_le_add1)
qed

end
