(* ===== verification/Workflow_Store.thy ===== *)
theory Workflow_Store
  imports Tracker_Budget
begin

text \<open>
  The sources and manifests of workflow runs, \<^verbatim>\<open>session/workflow/store.rs\<close> of \<^verbatim>\<open>xai-grok-shell\<close>: what a
  run was launched with, what is written of its state, and what a session restores. The map behind
  the mutex is a field of the store. The result of a file operation and of sending to the persistence
  task is an argument: \<open>None\<close> when it succeeds, else its error. The kinds of error that the code only
  shows are \<open>KindOther\<close>.
\<close>

declare lit_Cons [simp del]

definition WORKFLOW_RUN_MANIFEST_VERSION :: u8 where "WORKFLOW_RUN_MANIFEST_VERSION = 4"

record run_manifest =
  mf_version :: u8
  mf_state :: run_state
  mf_script_revision :: u32

record 'n restored_run =
  rr_manifest :: run_manifest
  rr_script :: str
  rr_args :: "'n jvalue"
  rr_effort :: "str option"

record 'n run_source =
  src_script :: str
  src_args :: "'n jvalue"
  src_effort :: "str option"
  src_revision :: u32

record 'n run_store =
  store_session_dir :: "str option"
  store_sources :: "str \<rightharpoonup> 'n run_source"

definition new_store :: "str option \<Rightarrow> 'n run_store" where
  "new_store dir = \<lparr>store_session_dir = dir, store_sources = Map.empty\<rparr>"

definition is_run_id_byte :: "nat \<Rightarrow> bool" where
  "is_run_id_byte b \<longleftrightarrow>
     48 \<le> b \<and> b \<le> 57 \<or> 65 \<le> b \<and> b \<le> 90 \<or> 97 \<le> b \<and> b \<le> 122 \<or> b = 95 \<or> b = 45"

definition validate_run_id :: "str \<Rightarrow> io_error option" where
  "validate_run_id key =
     (if key = [] \<or> \<not> list_all is_run_id_byte (utf8_bytes key)
      then Some (IoError KindOther (lit ''invalid workflow run id'')) else None)"

definition store_register ::
  "io_error option \<Rightarrow> str \<Rightarrow> str \<Rightarrow> 'n jvalue \<Rightarrow> str option \<Rightarrow> 'n run_store \<Rightarrow> io_error option \<times> 'n run_store" where
  "store_register io key script args effort st =
     (case validate_run_id key of
        Some e \<Rightarrow> (Some e, st)
      | None \<Rightarrow>
          if store_sources st key \<noteq> None
          then (Some (IoError KindOther (lit ''workflow source already registered: '' @ key)), st)
          else case (if store_session_dir st = None then None else io) of
              Some e \<Rightarrow> (Some e, st)
            | None \<Rightarrow>
                (None, st\<lparr>store_sources := (store_sources st)(key \<mapsto>
                   \<lparr>src_script = script, src_args = args, src_effort = effort, src_revision = 0\<rparr>)\<rparr>))"

definition manifest_for :: "'n run_store \<Rightarrow> run_state \<Rightarrow> run_manifest option" where
  "manifest_for st s =
     map_option (\<lambda>src. \<lparr>mf_version = WORKFLOW_RUN_MANIFEST_VERSION, mf_state = s, mf_script_revision = src_revision src\<rparr>)
       (store_sources st (st_run_id s))"

definition no_source :: io_error where
  "no_source = IoError KindNotFound (lit ''workflow state has no registered resume source'')"

definition persist_now :: "io_error option \<Rightarrow> run_state \<Rightarrow> 'n run_store \<Rightarrow> io_error option" where
  "persist_now io s st =
     (case manifest_for st s of
        None \<Rightarrow> Some no_source
      | Some manifest \<Rightarrow> if store_session_dir st = None then None else io)"

text \<open>\<open>persist_ack\<close> sends the manifest and waits; \<open>io\<close> is the answer of the persistence task, or its absence.\<close>

definition persist_ack :: "io_error option \<Rightarrow> run_state \<Rightarrow> 'n run_store \<Rightarrow> io_error option" where
  "persist_ack io s st = (case manifest_for st s of None \<Rightarrow> Some no_source | Some manifest \<Rightarrow> io)"

definition store_remove :: "str \<Rightarrow> 'n run_store \<Rightarrow> 'n run_store" where
  "store_remove key st = st\<lparr>store_sources := (store_sources st)(key := None)\<rparr>"

definition script_for :: "'n run_store \<Rightarrow> str \<Rightarrow> str option" where
  "script_for st key = map_option src_script (store_sources st key)"

definition args_for :: "'n run_store \<Rightarrow> str \<Rightarrow> 'n jvalue option" where
  "args_for st key = map_option src_args (store_sources st key)"

definition effort_for :: "'n run_store \<Rightarrow> str \<Rightarrow> str option" where
  "effort_for st key = Option.bind (store_sources st key) src_effort"

subsection \<open>Restoring\<close>

definition first_at :: "'n restored_run \<Rightarrow> str" where
  "first_at run = (case st_history (mf_state (rr_manifest run)) of [] \<Rightarrow> [] | h # _ \<Rightarrow> hist_at h)"

definition settle_restored :: "run_manifest \<Rightarrow> run_state" where
  "settle_restored m =
     (let s = mf_state m
      in if mf_version m < WORKFLOW_RUN_MANIFEST_VERSION \<or> st_agent_budget s = None
         then s\<lparr>st_status := StInterrupted,
                st_pause_message := Some (lit ''this workflow predates agent-count accounting and cannot be resumed; start a new run''),
                st_agent_budget := None, st_agents_used := 0, st_token_leases := [], st_agent_usage_incomplete := True\<rparr>
         else s)"

definition from_restored :: "str option \<Rightarrow> 'n restored_run list \<Rightarrow> 'n run_store \<times> run_state list" where
  "from_restored dir restored =
     (let sorted = sort_key first_at restored
      in (foldl (\<lambda>st run. st\<lparr>store_sources := (store_sources st)(st_run_id (mf_state (rr_manifest run)) \<mapsto>
             \<lparr>src_script = rr_script run, src_args = rr_args run, src_effort = rr_effort run,
              src_revision = mf_script_revision (rr_manifest run)\<rparr>)\<rparr>) (new_store dir) sorted,
          map (\<lambda>run. settle_restored (rr_manifest run)) sorted))"

subsection \<open>Properties\<close>

lemma restore_state_budget:
  "st_agent_budget (tr_state (restore_state a s)) = st_agent_budget s"
  "a' \<in> set (st_agents (tr_state (restore_state a s))) \<Longrightarrow> row_state a' \<noteq> lit ''running''"
  by (auto simp: restore_state_def cancel_ghosts_def interrupt_restored_def charge_leases_def Let_def cancel_running_def lit_Cons
      split: if_splits)

lemma in_from_snapshot: "r \<in> set (tk_runs (from_snapshot ats ss)) \<Longrightarrow> \<exists>a. \<exists>s \<in> set ss. r = restore_state a s"
  by (auto simp: from_snapshot_def Let_def in_set_enumerate_eq simp del: split_paired_Ex) (metis nth_mem)

text \<open>
  Restoring a session settles every run: none is active, none shows a running agent, and a run
  left without an agent budget, as one written by an older version is, is interrupted and can never be
  resumed.
\<close>

theorem restored_runs_are_settled:
  assumes "r \<in> set (tk_runs (from_snapshot ats (snd (from_restored dir restored))))"
  shows "run_status r \<noteq> StActive \<and> (\<forall>a \<in> set (st_agents (tr_state r)). row_state a \<noteq> lit ''running'') \<and>
    (st_agent_budget (tr_state r) = None \<longrightarrow> run_status r = StInterrupted) \<and>
    (run_status r = StInterrupted \<longrightarrow> \<not> may_resume new_budget (tr_state r))"
proof -
  obtain a m where r: "r = restore_state a (settle_restored m)"
    using in_from_snapshot [OF assms] by (auto simp: from_restored_def Let_def)
  then show ?thesis
    using restore_state_budget(2) [of _ a "settle_restored m"]
    by (auto simp: restore_state_budget(1) settle_restored_def Let_def may_resume_def is_resumable_def is_paused_def)
qed

end
