(* ===== verification/Workflow_Manager.thy ===== *)
theory Workflow_Manager
  imports Workflow_Store "HOL-Library.AList"
begin

text \<open>
  The manager of a session's workflow runs, \<^verbatim>\<open>session/workflow/manager.rs\<close> of \<^verbatim>\<open>xai-grok-shell\<close>:
  admission and launch, pausing and stopping, and what the watcher of a run does when the engine has
  ended. An episode of a run, with its cancellation token, pause flag and completion channel, is a
  number; the flags shared with its watcher are the sets of episodes they are set for. \<open>finished\<close> tells
  for which episodes the completion channel has been signalled or closed. Between the check of
  \<open>control_run\<close> and its operation the lock of the tracker is free, so that the watcher may act:
  \<open>meanwhile\<close> is what it does then. Notifications, telemetry and the spawning of tasks are left out.
\<close>

declare lit_Cons [simp del]

definition WORKFLOW_MAX_ACTIVE_RUNS_PER_SESSION :: nat where "WORKFLOW_MAX_ACTIVE_RUNS_PER_SESSION = 4"
definition WORKFLOW_DEFAULT_AGENT_BUDGET :: u64 where "WORKFLOW_DEFAULT_AGENT_BUDGET = 128"

record 'n launch_spec =
  spec_objective :: str
  spec_args :: "'n jvalue"
  spec_agent_budget :: "u64 option"
  spec_effort :: "str option"
  spec_resume_run_id :: "str option"

record resolved_workflow =
  rw_meta :: workflow_meta
  rw_script :: str

datatype launch_error =
    LaunchUnknownRun str
  | LaunchJournal str
  | LaunchStore str
  | LaunchNotResumable str
  | LaunchBudgetNotRaised u64 u64
  | LaunchTooManyActiveRuns

datatype control_error =
    ControlUnknownRun str
  | ControlNotApplicable str run_status workflow_control

record 'n manager =
  mg_tracker :: tracker
  mg_store :: "'n run_store"
  mg_active :: "(str \<times> nat) list"
  mg_retiring :: "(str \<times> nat) list"
  mg_cancelled :: "nat set"
  mg_pause_intent :: "nat set"
  mg_child_cancels :: "str list"
  mg_next_episode :: nat

definition run_is_terminal :: "tracker \<Rightarrow> str \<Rightarrow> bool" where
  "run_is_terminal t key = (case get_run t key of None \<Rightarrow> False | Some s \<Rightarrow> is_terminal (st_status s))"

subsection \<open>Pausing and stopping\<close>

definition reap_terminal_runs :: "(nat \<Rightarrow> bool) \<Rightarrow> 'n manager \<Rightarrow> 'n manager" where
  "reap_terminal_runs finished m =
     (let terminal = filter (\<lambda>(key, _). run_is_terminal (mg_tracker m) key) (mg_active m)
      in m\<lparr>mg_active := filter (\<lambda>(key, _). \<not> run_is_terminal (mg_tracker m) key) (mg_active m),
           mg_retiring := filter (\<lambda>(_, episode). \<not> finished episode) (mg_retiring m @ terminal)\<rparr>)"

definition retire :: "str \<Rightarrow> nat \<Rightarrow> 'n manager \<Rightarrow> 'n manager" where
  "retire key episode m =
     m\<lparr>mg_active := AList.delete key (mg_active m), mg_retiring := mg_retiring m @ [(key, episode)]\<rparr>"

definition reap_if_terminal :: "str \<Rightarrow> 'n manager \<Rightarrow> bool \<times> 'n manager" where
  "reap_if_terminal key m =
     (if run_is_terminal (mg_tracker m) key
      then (True, case map_of (mg_active m) key of None \<Rightarrow> m | Some episode \<Rightarrow> retire key episode m)
      else (False, m))"

definition cancel_children_for_run :: "str \<Rightarrow> 'n manager \<Rightarrow> 'n manager" where
  "cancel_children_for_run key m = m\<lparr>mg_child_cancels := mg_child_cancels m @ [key]\<rparr>"

definition pause_run :: "str \<Rightarrow> instant \<Rightarrow> str \<Rightarrow> 'n manager \<Rightarrow> bool \<times> 'n manager" where
  "pause_run at now key m0 =
     (case reap_if_terminal key m0 of
        (True, m) \<Rightarrow> (False, m)
      | (False, m) \<Rightarrow>
          (case map_of (mg_active m) key of
             None \<Rightarrow> (False, m)
           | Some episode \<Rightarrow>
               let m = retire key episode (cancel_children_for_run key
                     (m\<lparr>mg_pause_intent := insert episode (mg_pause_intent m), mg_cancelled := insert episode (mg_cancelled m)\<rparr>))
               in (True,
                   if get_run (mg_tracker m) key \<noteq> None \<and> \<not> run_is_terminal (mg_tracker m) key
                   then m\<lparr>mg_tracker := snd (pause_user at now key None (mg_tracker m))\<rparr> else m)))"

text \<open>A run that the tracker knows and that has not ended takes the outcome of a cancellation.\<close>

definition apply_cancelled :: "('n jvalue \<Rightarrow> str) \<Rightarrow> str \<Rightarrow> instant \<Rightarrow> str \<Rightarrow> 'n manager \<Rightarrow> run_state option \<times> 'n manager" where
  "apply_cancelled show_value at now key m =
     (if get_run (mg_tracker m) key \<noteq> None \<and> \<not> run_is_terminal (mg_tracker m) key
      then let (s, t) = apply_outcome show_value at now key OutcomeCancelled (mg_tracker m) in (s, m\<lparr>mg_tracker := t\<rparr>)
      else (None, m))"

definition cancel_run :: "('n jvalue \<Rightarrow> str) \<Rightarrow> str \<Rightarrow> instant \<Rightarrow> str \<Rightarrow> 'n manager \<Rightarrow> bool \<times> 'n manager" where
  "cancel_run show_value at now key m0 =
     (case reap_if_terminal key m0 of
        (True, m) \<Rightarrow> (False, m)
      | (False, m) \<Rightarrow>
          (case map_of (mg_active m) key of
             Some episode \<Rightarrow>
               (True, snd (apply_cancelled show_value at now key (retire key episode (cancel_children_for_run key
                  (m\<lparr>mg_cancelled := insert episode (mg_cancelled m)\<rparr>)))))
           | None \<Rightarrow>
               (case apply_cancelled show_value at now key (cancel_children_for_run key m) of
                  (s, m) \<Rightarrow> (s \<noteq> None, m))))"

definition control_run ::
  "('n jvalue \<Rightarrow> str) \<Rightarrow> str \<Rightarrow> instant \<Rightarrow> (tracker \<Rightarrow> tracker) \<Rightarrow> str \<Rightarrow> workflow_control \<Rightarrow> 'n manager \<Rightarrow>
   (control_error + run_state) \<times> 'n manager" where
  "control_run show_value at now meanwhile key control m =
     (case Option.bind (find_run_id (mg_tracker m) key) (get_run (mg_tracker m)) of
        None \<Rightarrow> (Inl (ControlUnknownRun key), m)
      | Some run \<Rightarrow>
          if \<not> accepts (st_status run) control
          then (Inl (ControlNotApplicable (st_name run) (st_status run) control), m)
          else let m = m\<lparr>mg_tracker := meanwhile (mg_tracker m)\<rparr>;
                   (applied, m') = (case control of
                       ControlPause \<Rightarrow> pause_run at now (st_run_id run) m
                     | ControlStop \<Rightarrow> cancel_run show_value at now (st_run_id run) m)
               in if applied then (Inr run, m')
                  else (Inl (ControlNotApplicable (st_name run)
                          (case get_run (mg_tracker m') (st_run_id run) of None \<Rightarrow> st_status run | Some s \<Rightarrow> st_status s)
                          control), m'))"

text \<open>
  Shutting down: every episode is cancelled and awaited up to a deadline; \<open>in_time\<close> tells which ones end
  before it. From the first that does not, all are given up and their runs interrupted, unless ended or paused.
\<close>

definition give_up :: "(str \<Rightarrow> str) \<Rightarrow> (str \<Rightarrow> instant) \<Rightarrow> tracker \<Rightarrow> str \<Rightarrow> tracker" where
  "give_up at now t key =
     (if case get_run t key of None \<Rightarrow> False | Some s \<Rightarrow> is_terminal (st_status s) \<or> is_paused (st_status s) then t
      else snd (interrupt_run (at key) (now key) key
        (lit ''session shutdown timed out before workflow cleanup completed; the run cannot resume'') t))"

definition cancel_all_and_drain ::
  "(str \<Rightarrow> str) \<Rightarrow> (str \<Rightarrow> instant) \<Rightarrow> (nat \<Rightarrow> bool) \<Rightarrow> 'n manager \<Rightarrow> (str list + unit) \<times> 'n manager" where
  "cancel_all_and_drain at now in_time m =
     (let timed_out = map fst (dropWhile (\<lambda>(_, episode). in_time episode) (mg_active m @ mg_retiring m));
          m' = m\<lparr>mg_active := [], mg_retiring := [], mg_cancelled := mg_cancelled m \<union> snd ` set (mg_active m),
                 mg_child_cancels := mg_child_cancels m @ map fst (mg_active m)\<rparr>
      in if timed_out = [] then (Inr (), m')
         else (Inl timed_out, m'\<lparr>mg_tracker := foldl (give_up at now) (mg_tracker m) timed_out\<rparr>))"

subsection \<open>The watcher\<close>

definition is_cancelled_or_paused :: "'n workflow_outcome \<Rightarrow> bool" where
  "is_cancelled_or_paused out = (case out of OutcomeCancelled \<Rightarrow> True | OutcomePaused _ _ \<Rightarrow> True | _ \<Rightarrow> False)"

definition watcher_update ::
  "('n jvalue \<Rightarrow> str) \<Rightarrow> str \<Rightarrow> instant \<Rightarrow> str \<Rightarrow> u64 \<Rightarrow> bool \<Rightarrow> bool \<Rightarrow> 'n workflow_outcome \<Rightarrow> tracker \<Rightarrow>
   (bool \<times> run_state option) \<times> tracker" where
  "watcher_update show_value at now key epoch drain_failed pause_intent out t =
     (if execution_epoch t key \<noteq> Some epoch then ((False, None), t)
      else case
          (if drain_failed
           then interrupt_run at now key (lit ''workflow cleanup timed out or could not be acknowledged; start a new run'') t
           else if pause_intent \<and> is_cancelled_or_paused out then pause_user at now key None t
           else apply_outcome show_value at now key out t) of
        (s, t') \<Rightarrow> ((True, s), t'))"

text \<open>
  What follows the update: the state is written and acknowledged; when that fails the run is
  interrupted and written again; a run that has ended is announced to the session by its revision.
\<close>

definition watcher_settle ::
  "str \<Rightarrow> instant \<Rightarrow> str \<Rightarrow> io_error option \<Rightarrow> io_error option \<Rightarrow> 'n run_store \<Rightarrow> run_state \<Rightarrow> 'n workflow_outcome \<Rightarrow> tracker \<Rightarrow>
   'n workflow_outcome \<times> (str \<times> u64) option \<times> tracker" where
  "watcher_settle at now key io io' st s out t =
     (let announce = (\<lambda>s. if is_completion_reportable (st_status s) then Some (key, st_revision s) else None)
      in case persist_ack io s st of
           None \<Rightarrow> (out, announce s, t)
         | Some e \<Rightarrow>
             (case interrupt_run at now key
                (lit ''workflow terminal state could not be persisted: '' @ io_error_to_string e @ lit ''; start a new run'') t of
                (s', t') \<Rightarrow>
                  let s'' = (case s' of None \<Rightarrow> s | Some x \<Rightarrow> x);
                      failed = OutcomeFailed (lit ''workflow terminal state could not be persisted: '' @ io_error_to_string e @
                                 lit ''; run is interrupted'')
                  in (failed, if persist_ack io' s'' st = None then announce s'' else None, t')))"

subsection \<open>Launching\<close>

definition path_join :: "str \<Rightarrow> str \<Rightarrow> str" where
  "path_join d rel = (if d = [] \<or> List.last d = 47 then d @ rel else d @ [47] @ rel)"

definition journal_rel :: "str \<Rightarrow> str" where
  "journal_rel key = lit ''workflows/'' @ key @ lit ''/journal.jsonl''"

record 'n launch_io =
  li_at :: str
  li_now :: instant
  li_codec :: "'n entry_codec"
  li_reads :: journal_reads
  li_load :: io_result
  li_prune :: io_result
  li_register :: "io_error option"
  li_persist :: "io_error option"
  li_uuid :: str

text \<open>The journal of a run to be resumed: loaded from its file, and of a failed run without its failure.\<close>

definition resume_journal :: "'n launch_io \<Rightarrow> str option \<Rightarrow> run_state \<Rightarrow> disk \<Rightarrow> (launch_error + 'n journal) \<times> disk" where
  "resume_journal L dir s d =
     (let loaded = (case (st_journal_path s, dir) of
            (Some relative, Some session_dir) \<Rightarrow>
              if relative \<noteq> journal_rel (st_run_id s)
              then (Inl (LaunchJournal (lit ''persisted journal path does not match its workflow run'')), d)
              else (case load_journal (li_codec L) (li_reads L) (li_load L) (path_join session_dir relative) d of
                      (Inl e, d') \<Rightarrow> (Inl (LaunchJournal (journal_error_to_string e)), d')
                    | (Inr j, d') \<Rightarrow> (Inr j, d'))
          | _ \<Rightarrow> (Inr (new_journal None), d))
      in case loaded of
           (Inl e, d') \<Rightarrow> (Inl e, d')
         | (Inr j, d') \<Rightarrow>
             if st_status s \<noteq> StFailed then (Inr j, d')
             else (case prune_trailing_host_error (li_prune L) j d'
                          (case st_pause_message s of None \<Rightarrow> [] | Some msg \<Rightarrow> msg) of
                     (Inl e, j', d'') \<Rightarrow> (Inl (LaunchJournal (journal_error_to_string e)), d'')
                   | (Inr _, j', d'') \<Rightarrow> (Inr j', d'')))"

definition resume_launch ::
  "'n launch_io \<Rightarrow> str \<Rightarrow> 'n launch_spec \<Rightarrow> 'n run_store \<Rightarrow> tracker \<Rightarrow> disk \<Rightarrow>
   (launch_error + (str \<times> 'n journal \<times> run_state)) \<times> tracker \<times> disk" where
  "resume_launch L key spec st t d =
     (case get_run t key of
        None \<Rightarrow> (Inl (LaunchUnknownRun key), t, d)
      | Some existing \<Rightarrow>
          if \<not> is_resumable (st_status existing)
          then (Inl (LaunchNotResumable (status_as_ref (st_status existing))), t, d)
          else if st_status existing = StBudgetLimited \<and> MAX_AGENT_BUDGET \<le> st_agents_used existing
          then (Inl (LaunchNotResumable (lit ''maximum agent budget reached; start a new run'')), t, d)
          else case args_for st key of
              None \<Rightarrow> (Inl (LaunchStore (lit ''immutable launch args are missing'')), t, d)
            | Some original_args \<Rightarrow>
                if original_args \<noteq> spec_args spec
                then (Inl (LaunchStore (lit ''workflow launch args are immutable across resume'')), t, d)
                else (case script_for st key of
                        None \<Rightarrow> (Inl (LaunchStore (lit ''immutable workflow script is missing'')), t, d)
                      | Some script \<Rightarrow>
                          (case resume_journal L (store_session_dir st) existing d of
                             (Inl e, d') \<Rightarrow> (Inl e, t, d')
                           | (Inr j, d') \<Rightarrow>
                               (case resume_run (li_at L) (li_now L) key (spec_agent_budget spec)
                                       (snd (reconcile_agents_used key (agent_reservation_count j) t)) of
                                  (Some s, t') \<Rightarrow> (Inr (script, j, s), t', d')
                                | (None, t') \<Rightarrow>
                                    (Inl (if st_status existing = StBudgetLimited
                                          then LaunchBudgetNotRaised (st_agents_used existing)
                                                 (case st_agent_budget existing of None \<Rightarrow> 0 | Some b \<Rightarrow> b)
                                          else LaunchNotResumable (status_as_ref (st_status existing))), t', d')))))"

record 'n launched =
  la_run_id :: str
  la_episode :: nat
  la_epoch :: u64
  la_script :: str
  la_args :: "'n jvalue"
  la_effort :: "str option"
  la_journal :: "'n journal"

text \<open>The state is written before the run becomes active; when that fails nothing is left running.\<close>

definition admit ::
  "'n launch_io \<Rightarrow> bool \<Rightarrow> str \<Rightarrow> str \<Rightarrow> 'n jvalue \<Rightarrow> str option \<Rightarrow> 'n journal \<Rightarrow> run_state \<Rightarrow> 'n manager \<Rightarrow>
   (launch_error + 'n launched) \<times> 'n manager" where
  "admit L resuming key script args effort j s m =
     (case persist_now (li_persist L) s (mg_store m) of
        Some e \<Rightarrow>
          (Inl (LaunchStore (io_error_to_string e)),
           if resuming
           then m\<lparr>mg_tracker := snd (interrupt_run (li_at L) (li_now L) key
                    (lit ''workflow state persistence failed before resume; start a new run'') (mg_tracker m))\<rparr>
           else m\<lparr>mg_tracker := snd (clear_run (li_at L) (li_now L) key (mg_tracker m)),
                  mg_store := store_remove key (mg_store m)\<rparr>)
      | None \<Rightarrow>
          (Inr \<lparr>la_run_id = key, la_episode = mg_next_episode m,
                la_epoch = (case execution_epoch (mg_tracker m) key of None \<Rightarrow> 0 | Some e \<Rightarrow> e),
                la_script = script, la_args = args, la_effort = effort, la_journal = j\<rparr>,
           m\<lparr>mg_active := AList.update key (mg_next_episode m) (mg_active m),
             mg_next_episode := mg_next_episode m + 1\<rparr>))"

definition launch ::
  "'n launch_io \<Rightarrow> (nat \<Rightarrow> bool) \<Rightarrow> resolved_workflow \<Rightarrow> 'n launch_spec \<Rightarrow> 'n manager \<Rightarrow> disk \<Rightarrow>
   (launch_error + 'n launched) \<times> 'n manager \<times> disk" where
  "launch L finished resolved spec m0 d =
     (let m = reap_terminal_runs finished m0
      in if WORKFLOW_MAX_ACTIVE_RUNS_PER_SESSION \<le> length (mg_active m) + length (mg_retiring m)
         then (Inl LaunchTooManyActiveRuns, m, d)
         else case spec_resume_run_id spec of
             Some key \<Rightarrow>
               (case resume_launch L key spec (mg_store m) (mg_tracker m) d of
                  (Inl e, t, d') \<Rightarrow> (Inl e, m\<lparr>mg_tracker := t\<rparr>, d')
                | (Inr (script, j, s), t, d') \<Rightarrow>
                    (case admit L True key script (spec_args spec) (effort_for (mg_store m) key) j s
                            (m\<lparr>mg_tracker := t\<rparr>) of
                       (r, m') \<Rightarrow> (r, m', d')))
           | None \<Rightarrow>
               (let key = lit ''wf_'' @ li_uuid L;
                    budget = (case spec_agent_budget spec of None \<Rightarrow> WORKFLOW_DEFAULT_AGENT_BUDGET | Some b \<Rightarrow> b)
                in case store_register (li_register L) key (rw_script resolved) (spec_args spec) (spec_effort spec) (mg_store m) of
                     (Some e, st) \<Rightarrow> (Inl (LaunchStore (io_error_to_string e)), m\<lparr>mg_store := st\<rparr>, d)
                   | (None, st) \<Rightarrow>
                       (case start_run (li_at L) (li_now L) key (meta_name (rw_meta resolved)) (spec_objective spec)
                               (meta_phases (rw_meta resolved)) (Some budget)
                               (if store_session_dir st = None then None else Some (journal_rel key)) (mg_tracker m) of
                          (s, t) \<Rightarrow>
                            (case admit L False key (rw_script resolved) (spec_args spec) (spec_effort spec)
                                    (new_journal (map_option (\<lambda>dir. path_join dir (journal_rel key)) (store_session_dir st))) s
                                    (m\<lparr>mg_store := st, mg_tracker := t\<rparr>) of
                               (r, m') \<Rightarrow> (r, m', d)))))"

subsection \<open>A watcher of an earlier episode\<close>

lemma run_mut_pause_user: "run_mut (snd (pause_user at now key msg t)) key = map_option (pause_tracked at now msg) (run_mut t key)"
  by (simp add: pause_user_def pause.run_mut_with_run)

lemma run_mut_apply_outcome:
  "run_mut (snd (apply_outcome show_value at now key out t)) key = map_option (outcome_tracked show_value at now out) (run_mut t key)"
  by (simp add: apply_outcome_def outcome.run_mut_with_run)

lemma run_mut_resume_run:
  "run_mut (snd (resume_run at now key budget t)) key = map_option (resume_if at now budget) (run_mut t key)"
  using resume.run_mut_with_run [of key at now budget t key] by (simp add: run_mut_cong [OF tk_runs_resume_run])

text \<open>
  The watcher of an episode that has been superseded does nothing: once a run has been resumed, the
  update of an earlier watcher, whatever its outcome, leaves the tracker as it is.
\<close>

theorem superseded_watcher_is_harmless:
  assumes "execution_epoch t key = Some epoch" and "resume_run at now key budget t = (Some s, t')"
  shows "watcher_update show_value at' now' key epoch drain_failed pause_intent out t' = ((False, None), t')"
proof -
  obtain r where r: "run_mut t key = Some r" "tr_execution_epoch r = epoch"
    using assms(1) by (auto simp: execution_epoch_def)
  then have "may_resume budget (tr_state r)"
    using assms(2) by (auto simp: resume_run_def split: if_splits)
  then have "run_mut t' key = Some (resume_tracked at now budget r)"
    using run_mut_resume_run [of at now key budget t] assms(2) r(1) by (simp add: resume_if_def)
  moreover have "tr_execution_epoch (resume_tracked at now budget r) = epoch + 1"
    using r(2) by (simp add: resume_tracked_def Let_def)
  moreover have "epoch + 1 \<noteq> epoch" by simp
  ultimately show ?thesis by (simp add: watcher_update_def execution_epoch_def)
qed

subsection \<open>The user's decision stands\<close>

lemma pause_tracked_status: "run_status r = StActive \<Longrightarrow> run_status (pause_tracked at now msg r) = StUserPaused"
  by (simp add: pause_tracked_def)

lemma outcome_tracked_ignored:
  "run_status r \<in> {StInterrupted, StFailed, StCancelled} \<Longrightarrow> run_status (outcome_tracked show_value at now out r) = run_status r"
  by (auto simp: outcome_tracked_def outcome_ignored_def)

lemma outcome_tracked_cancelled:
  "run_status r \<notin> {StInterrupted, StFailed, StCancelled} \<Longrightarrow> run_status (outcome_tracked show_value at now OutcomeCancelled r) = StCancelled"
  by (auto simp: outcome_tracked_def outcome_ignored_def)

definition decided_status :: "workflow_control \<Rightarrow> run_status" where
  "decided_status control = (case control of ControlPause \<Rightarrow> StUserPaused | ControlStop \<Rightarrow> StCancelled)"

lemma get_run_mut: "get_run t key = Some s \<longleftrightarrow> (\<exists>r. run_mut t key = Some r \<and> s = tr_state r)"
  by (auto simp: get_run_def)

lemma rest_simps [simp]:
  "mg_tracker (retire key e m) = mg_tracker m" "mg_tracker (cancel_children_for_run key m) = mg_tracker m"
  "mg_active (cancel_children_for_run key m) = mg_active m"
  by (simp_all add: retire_def cancel_children_for_run_def)

lemma run_is_terminal_iff: "run_is_terminal t key \<longleftrightarrow> (\<exists>r. run_mut t key = Some r \<and> is_terminal (run_status r))"
  by (auto simp: run_is_terminal_def get_run_def split: option.splits)

lemma pause_run_decides:
  assumes "run_mut (mg_tracker m) key = Some r" and "run_status r = StActive" and "pause_run at now key m = (True, m')"
  shows "map_option run_status (run_mut (mg_tracker m') key) = Some StUserPaused"
proof -
  have "\<not> run_is_terminal (mg_tracker m) key" using assms(1,2) by (simp add: run_is_terminal_iff is_terminal_def)
  then have "mg_tracker m' = snd (pause_user at now key None (mg_tracker m))"
    using assms by (auto simp: pause_run_def reap_if_terminal_def Let_def get_run_def split: option.splits)
  then show ?thesis using assms(1,2) by (simp add: run_mut_pause_user pause_tracked_status)
qed

lemma cancel_run_decides:
  assumes "run_mut (mg_tracker m) key = Some r" and "\<not> is_terminal (run_status r)" and "cancel_run show_value at now key m = (ok, m')"
  shows "map_option run_status (run_mut (mg_tracker m') key) = Some StCancelled"
proof -
  have "\<not> run_is_terminal (mg_tracker m) key" using assms(1,2) by (simp add: run_is_terminal_iff)
  then have "mg_tracker m' = snd (apply_outcome show_value at now key OutcomeCancelled (mg_tracker m))"
    using assms
    by (auto simp: cancel_run_def reap_if_terminal_def apply_cancelled_def get_run_def split_beta Let_def split: option.splits)
  then show ?thesis
    using assms(1,2) by (simp add: run_mut_apply_outcome outcome_tracked_cancelled is_terminal_def)
qed

lemma pause_run_intent:
  assumes "pause_run at now key m = (True, m')"
  shows "\<exists>episode. map_of (mg_active m) key = Some episode \<and> episode \<in> mg_pause_intent m'"
  using assms
  by (auto simp: pause_run_def reap_if_terminal_def Let_def retire_def cancel_children_for_run_def split: option.splits if_splits)

lemma control_run_decides:
  assumes "control_run show_value at now meanwhile key control m = (Inr run, m')"
    and "get_run (meanwhile (mg_tracker m)) (st_run_id run) = Some s" and "accepts (st_status s) control"
  shows "map_option run_status (run_mut (mg_tracker m') (st_run_id run)) = Some (decided_status control)"
    and "control = ControlPause \<Longrightarrow> \<exists>episode. map_of (mg_active m) (st_run_id run) = Some episode \<and> episode \<in> mg_pause_intent m'"
proof -
  let ?m = "m\<lparr>mg_tracker := meanwhile (mg_tracker m)\<rparr>"
  obtain r where r: "run_mut (mg_tracker ?m) (st_run_id run) = Some r" "accepts (run_status r) control"
    using assms(2,3) by (auto simp: get_run_mut)
  have paused: "pause_run at now (st_run_id run) ?m = (True, m')" if "control = ControlPause"
    using assms(1) that by (auto simp: control_run_def Let_def split: option.splits if_splits prod.splits)
  show "\<exists>episode. map_of (mg_active m) (st_run_id run) = Some episode \<and> episode \<in> mg_pause_intent m'"
    if "control = ControlPause"
    using pause_run_intent [OF paused [OF that]] by simp
  show "map_option run_status (run_mut (mg_tracker m') (st_run_id run)) = Some (decided_status control)"
  proof (cases control)
    case ControlPause
    with pause_run_decides [OF r(1) _ paused] r(2) show ?thesis by (simp add: decided_status_def)
  next
    case ControlStop
    then obtain ok where "cancel_run show_value at now (st_run_id run) ?m = (ok, m')"
      using assms(1) by (auto simp: control_run_def Let_def split: option.splits if_splits prod.splits)
    from cancel_run_decides [OF r(1) _ this] show ?thesis
      using r(2) ControlStop by (simp add: decided_status_def is_completion_reportable_def)
  qed
qed

text \<open>
  The status that the ending of an episode leaves, by what the user decided and what the engine ended
  with: a stop stands, a pause stands against a cancellation or a pause of the engine, and a run that
  was completed, failed or spent its budget before it saw the cancellation keeps that result.
\<close>

definition outcome_status :: "'n workflow_outcome \<Rightarrow> run_status" where
  "outcome_status out =
     (case out of
        OutcomeCompleted _ \<Rightarrow> StComplete
      | OutcomePaused kind _ \<Rightarrow> from_pause kind
      | OutcomeBudgetExceeded _ \<Rightarrow> StBudgetLimited
      | OutcomeCancelled \<Rightarrow> StCancelled
      | OutcomeFailed _ \<Rightarrow> StFailed)"

definition status_after :: "workflow_control \<Rightarrow> 'n workflow_outcome \<Rightarrow> run_status" where
  "status_after control out =
     (if control = ControlStop \<or> is_cancelled_or_paused out then decided_status control else outcome_status out)"

lemma outcome_tracked_status:
  "\<not> outcome_ignored (run_status r) \<Longrightarrow> run_status (outcome_tracked show_value at now out r) = outcome_status out"
  by (cases out) (simp_all add: outcome_tracked_def outcome_status_def)

lemma interrupt_tracked_status: "run_status (interrupt_tracked at now msg r) = StInterrupted"
  by (simp add: interrupt_tracked_def Let_def)

lemma run_mut_interrupt_run:
  "run_mut (snd (interrupt_run at now key msg t)) k = (if k = key then map_option (interrupt_tracked at now msg) (run_mut t k) else run_mut t k)"
  by (simp add: interrupt_run_def interrupt.run_mut_with_run)

lemma run_mut_watcher_update:
  "run_mut (snd (watcher_update show_value at now key epoch drain_failed intent out t)) key =
     (if execution_epoch t key \<noteq> Some epoch then run_mut t key
      else map_option
        (if drain_failed
         then interrupt_tracked at now (lit ''workflow cleanup timed out or could not be acknowledged; start a new run'')
         else if intent \<and> is_cancelled_or_paused out then pause_tracked at now None
         else outcome_tracked show_value at now out) (run_mut t key))"
  by (simp add: watcher_update_def split_beta run_mut_interrupt_run run_mut_pause_user run_mut_apply_outcome)

text \<open>
  C9: After a pause or a stop was applied to a run that still accepted it when the operation took the
  lock, whatever else happened to the tracker since the check, the watcher of the run's episode reads the
  pause flag of that episode and leaves the run as follows, whatever the engine ended with. A stopped run stays
  cancelled. A paused run stays paused by the user when the engine ends cancelled or paused; it takes the
  outcome when the engine ends completed, failed or out of budget. When the cleanup did not finish the
  run is interrupted, and a watcher of another epoch changes nothing.
\<close>

theorem control_survives_the_watcher:
  assumes "control_run show_value at now meanwhile key control m = (Inr run, m')"
    and "get_run (meanwhile (mg_tracker m)) (st_run_id run) = Some s" and "accepts (st_status s) control"
    and "control = ControlPause \<Longrightarrow> map_of (mg_active m) (st_run_id run) = Some episode"
    and "watcher_update show_value at' now' (st_run_id run) epoch drain_failed (episode \<in> mg_pause_intent m') out (mg_tracker m') =
      (res, t')"
  shows "map_option st_status (get_run t' (st_run_id run)) =
    Some (if execution_epoch (mg_tracker m') (st_run_id run) \<noteq> Some epoch then decided_status control
          else if drain_failed then StInterrupted
          else status_after control out)"
proof -
  obtain r where r: "run_mut (mg_tracker m') (st_run_id run) = Some r" "run_status r = decided_status control"
    using control_run_decides(1) [OF assms(1-3)] by auto
  let ?pauses = "episode \<in> mg_pause_intent m' \<and> is_cancelled_or_paused out"
  have intent: "episode \<in> mg_pause_intent m'" if "control = ControlPause"
    using control_run_decides(2) [OF assms(1-3) that] assms(4) [OF that] by simp
  have "run_status (pause_tracked at' now' None r) = run_status r"
    using r(2) by (cases control) (auto simp: pause_tracked_def decided_status_def)
  moreover have "run_status (outcome_tracked show_value at' now' out r) = status_after control out" if "\<not> ?pauses"
  proof (cases control)
    case ControlStop
    then show ?thesis using r(2) by (simp add: outcome_tracked_ignored status_after_def decided_status_def)
  next
    case ControlPause
    then have "\<not> is_cancelled_or_paused out" using intent that by simp
    then show ?thesis
      using r(2) ControlPause by (simp add: outcome_tracked_status status_after_def decided_status_def outcome_ignored_def)
  qed
  moreover have "run_mut t' (st_run_id run) = run_mut (snd (res, t')) (st_run_id run)" by simp
  ultimately show ?thesis
    using r unfolding assms(5) [symmetric]
    by (auto simp: run_mut_watcher_update get_run_def interrupt_tracked_status status_after_def)
qed

text \<open>A manager with one run in one episode.\<close>

definition one_run_manager :: "nat manager" where
  "one_run_manager =
     \<lparr>mg_tracker = one_run, mg_store = new_store None, mg_active = [(lit ''wf_1'', 0)], mg_retiring = [], mg_cancelled = {},
      mg_pause_intent = {}, mg_child_cancels = [], mg_next_episode = 1\<rparr>"

theorem control_survives_the_watcher_witness:
  "\<exists>m' res t'. control_run (\<lambda>_. []) [] 1 id (lit ''goal'') ControlPause one_run_manager = (Inr (tr_state sample_run), m') \<and>
     watcher_update (\<lambda>_. []) [] 2 (lit ''wf_1'') 0 False (0 \<in> mg_pause_intent m') (OutcomeCancelled :: nat workflow_outcome)
       (mg_tracker m') = (res, t') \<and>
     map_option st_status (get_run t' (lit ''wf_1'')) = Some StUserPaused"
proof -
  have found: "find_run_id one_run (lit ''goal'') = Some (lit ''wf_1'')"
    by (simp add: find_run_id_def) (simp add: sample_run_def lit_Cons)
  obtain m' where m': "control_run (\<lambda>_. []) [] 1 id (lit ''goal'') ControlPause one_run_manager = (Inr (tr_state sample_run), m')"
    by (simp add: control_run_def one_run_manager_def found get_run_def is_completion_reportable_def is_terminal_def
        pause_run_def reap_if_terminal_def run_is_terminal_def)
  obtain res t' where t': "watcher_update (\<lambda>_. []) [] 2 (lit ''wf_1'') 0 False (0 \<in> mg_pause_intent m')
      (OutcomeCancelled :: nat workflow_outcome) (mg_tracker m') = (res, t')"
    by fastforce
  have known: "get_run (id (mg_tracker one_run_manager)) (st_run_id (tr_state sample_run)) = Some (tr_state sample_run)"
    and accepted: "accepts (run_status sample_run) ControlPause"
    and active: "map_of (mg_active one_run_manager) (st_run_id (tr_state sample_run)) = Some 0"
    by (simp_all add: one_run_manager_def get_run_def)
  have "map_option st_status (get_run t' (lit ''wf_1'')) = Some StUserPaused"
    using control_survives_the_watcher [OF m' known accepted active, of "[]" 2 0 False OutcomeCancelled res t'] t'
    by (simp add: decided_status_def status_after_def is_cancelled_or_paused_def split: if_splits)
  with m' t' show ?thesis by blast
qed

subsection \<open>Shutting down\<close>

definition settled :: "tracker \<Rightarrow> str \<Rightarrow> bool" where
  "settled t key = (case get_run t key of None \<Rightarrow> True | Some s \<Rightarrow> st_status s \<noteq> StActive)"

lemma settled_give_up: "settled (give_up at now t key) key" "settled t k \<Longrightarrow> settled (give_up at now t key) k"
  by (auto simp: settled_def give_up_def get_run_def run_mut_interrupt_run interrupt_tracked_def Let_def is_terminal_def
      is_paused_def split: option.splits)

lemma settled_foldl: "k \<in> set keys \<or> settled t k \<Longrightarrow> settled (foldl (give_up at now) t keys) k"
  by (induction keys arbitrary: t) (auto simp: settled_give_up)

text \<open>
  A shutdown that times out names the runs it gave up on and leaves none of them active; no episode is left behind.
\<close>

theorem shutdown_leaves_nothing_active:
  assumes "cancel_all_and_drain at now in_time m = (Inl timed_out, m')"
  shows "mg_active m' = [] \<and> mg_retiring m' = [] \<and> (\<forall>key \<in> set timed_out. settled (mg_tracker m') key) \<and>
    (\<forall>(key, episode) \<in> set (mg_active m @ mg_retiring m). in_time episode \<or> key \<in> set timed_out)"
proof -
  let ?pending = "mg_active m @ mg_retiring m"
  let ?late = "dropWhile (\<lambda>(_, episode). in_time episode) ?pending"
  have late: "timed_out = map fst ?late" and m': "mg_active m' = []" "mg_retiring m' = []"
    "mg_tracker m' = foldl (give_up at now) (mg_tracker m) timed_out"
    using assms unfolding cancel_all_and_drain_def Let_def by (auto split: if_split_asm)
  have "x \<in> set xs \<Longrightarrow> \<not> P x \<Longrightarrow> x \<in> set (dropWhile P xs)" for x :: "str \<times> nat" and P xs
    by (induction xs) auto
  from this [of _ ?pending "\<lambda>(_, episode). in_time episode"]
  have "in_time e \<or> key \<in> set timed_out" if "(key, e) \<in> set ?pending" for key e
    unfolding late using that by force
  moreover have "settled (mg_tracker m') key" if "key \<in> set timed_out" for key
    unfolding m' using that by (simp add: settled_foldl)
  ultimately show ?thesis using m'(1,2) by blast
qed

subsection \<open>Resuming a run\<close>

lemma resume_launch_granted:
  assumes "resume_launch L key spec st t d = (Inr (script, j, s), t', d')"
  shows "args_for st key = Some (spec_args spec)" and "script_for st key = Some script"
    and "resume_run (li_at L) (li_now L) key (spec_agent_budget spec)
      (snd (reconcile_agents_used key (agent_reservation_count j) t)) = (Some s, t')"
  using assms
  by (auto simp: resume_launch_def split: option.splits if_splits sum.splits prod.splits)

lemma resumed_tracker:
  assumes "resume_run at now key budget (snd (reconcile_agents_used key n t)) = (Some s, t')" and "run_mut t key = Some r"
  shows "run_mut t' key = Some (resume_tracked at now budget (reconcile_tracked n r))"
proof -
  let ?t = "snd (reconcile_agents_used key n t)"
  have "run_mut ?t key = Some (reconcile_tracked n r)"
    using assms(2) by (simp add: reconcile_agents_used_def reconcile.run_mut_with_run)
  moreover from this have "may_resume budget (tr_state (reconcile_tracked n r))"
    using assms(1) by (auto simp: resume_run_def split: if_splits)
  ultimately show ?thesis
    using run_mut_resume_run [of at now key budget ?t] assms(1) by (simp add: resume_if_def)
qed

lemma resumed_run:
  "run_status (resume_tracked at now budget (reconcile_tracked n r)) = StActive"
  "st_agents_used (tr_state (resume_tracked at now budget (reconcile_tracked n r))) = n"
  "tr_execution_epoch (resume_tracked at now budget (reconcile_tracked n r)) = tr_execution_epoch r + 1"
  by (auto simp: resume_tracked_def Let_def reconcile_tracked_def used_tracked_def split: option.splits)

lemma launch_resumes:
  assumes "launch L finished resolved spec m d = (Inr la, m', d')" and "spec_resume_run_id spec = Some key"
  obtains script j s t where "resume_launch L key spec (mg_store m) (mg_tracker m) d = (Inr (script, j, s), t, d')"
    and "mg_tracker m' = t" and "map_of (mg_active m') key = Some (la_episode la)"
    and "la_run_id la = key" and "la_script la = script" and "la_args la = spec_args spec" and "la_journal la = j"
    and "la_effort la = effort_for (mg_store m) key"
    and "la_epoch la = (case execution_epoch t key of None \<Rightarrow> 0 | Some e \<Rightarrow> e)"
proof -
  have same: "mg_store (reap_terminal_runs finished m) = mg_store m" "mg_tracker (reap_terminal_runs finished m) = mg_tracker m"
    by (simp_all add: reap_terminal_runs_def Let_def)
  obtain x t where x: "resume_launch L key spec (mg_store m) (mg_tracker m) d = (x, t, d')"
    using assms by (auto simp: launch_def Let_def same split: if_splits sum.splits prod.splits)
  then obtain script j s where "x = Inr (script, j, s)"
    using assms by (cases x) (auto simp: launch_def Let_def same split: if_splits)
  with x assms show thesis
    by (intro that [of script j s t])
      (auto simp: launch_def Let_def same admit_def update_conv' split: if_splits prod.splits option.splits)
qed

text \<open>
  C38: A resumption that is granted runs the script, the arguments and the effort the run was registered with, under
  the next epoch, and counts exactly the agent calls its journal records.
\<close>

theorem resume_runs_what_was_registered:
  assumes "launch L finished resolved spec m d = (Inr la, m', d')" and "spec_resume_run_id spec = Some key"
    and "execution_epoch (mg_tracker m) key = Some epoch"
  shows "la_run_id la = key \<and> script_for (mg_store m) key = Some (la_script la) \<and>
    args_for (mg_store m) key = Some (la_args la) \<and> la_effort la = effort_for (mg_store m) key \<and> la_epoch la = epoch + 1 \<and>
    map_of (mg_active m') key = Some (la_episode la) \<and>
    (\<exists>s. get_run (mg_tracker m') key = Some s \<and> st_status s = StActive \<and>
      st_agents_used s = agent_reservation_count (la_journal la))"
proof -
  obtain r where r: "run_mut (mg_tracker m) key = Some r" "tr_execution_epoch r = epoch"
    using assms(3) by (auto simp: execution_epoch_def)
  obtain script j s t where l: "resume_launch L key spec (mg_store m) (mg_tracker m) d = (Inr (script, j, s), t, d')"
    and la: "mg_tracker m' = t" "map_of (mg_active m') key = Some (la_episode la)" "la_run_id la = key"
      "la_script la = script" "la_args la = spec_args spec" "la_journal la = j" "la_effort la = effort_for (mg_store m) key"
      "la_epoch la = (case execution_epoch t key of None \<Rightarrow> 0 | Some e \<Rightarrow> e)"
    by (rule launch_resumes [OF assms(1,2)])
  have "run_mut t key = Some (resume_tracked (li_at L) (li_now L) (spec_agent_budget spec)
      (reconcile_tracked (agent_reservation_count j) r))"
    by (rule resumed_tracker [OF resume_launch_granted(3) [OF l] r(1)])
  then show ?thesis
    using resume_launch_granted(1,2) [OF l] la r(2) by (simp add: execution_epoch_def get_run_def resumed_run)
qed

definition paused_manager :: "nat manager" where
  "paused_manager = one_run_manager\<lparr>mg_tracker := snd (pause_user [] 1 (lit ''wf_1'') None one_run), mg_active := [],
     mg_store := (new_store None)\<lparr>store_sources := [lit ''wf_1'' \<mapsto>
       \<lparr>src_script = lit ''let meta'', src_args = VNull, src_effort = None, src_revision = 0\<rparr>]\<rparr>\<rparr>"

definition sample_launch_io :: "nat launch_io" where
  "sample_launch_io = \<lparr>li_at = [], li_now = 2, li_codec = one_entry_codec sample_entry, li_reads = quiet_reads None,
     li_load = IoOk, li_prune = IoOk, li_register = None, li_persist = None, li_uuid = lit ''u''\<rparr>"

definition resume_spec :: "nat launch_spec" where
  "resume_spec = \<lparr>spec_objective = [], spec_args = VNull, spec_agent_budget = None, spec_effort = None,
     spec_resume_run_id = Some (lit ''wf_1'')\<rparr>"

definition sample_resolved :: resolved_workflow where
  "sample_resolved = \<lparr>rw_meta = \<lparr>meta_name = lit ''goal'', meta_description = lit ''d'', meta_when_to_use = None, meta_phases = []\<rparr>,
     rw_script = lit ''let meta''\<rparr>"

lemma resume_journal_memory: "st_status s \<noteq> StFailed \<Longrightarrow> resume_journal L None s d = (Inr (new_journal None), d)"
  by (simp add: resume_journal_def split: option.splits)

theorem resume_runs_what_was_registered_witness:
  "\<exists>la m' d'. launch sample_launch_io (\<lambda>_. False) sample_resolved resume_spec paused_manager None = (Inr la, m', d') \<and>
     la_script la = lit ''let meta'' \<and> la_epoch la = 1"
proof -
  let ?k = "lit ''wf_1''"
  let ?r = "pause_tracked [] 1 None sample_run"
  let ?t = "mg_tracker paused_manager"
  have run: "run_mut ?t ?k = Some ?r" by (simp add: paused_manager_def run_mut_pause_user)
  have status: "run_status ?r = StUserPaused" by (rule pause_tracked_status) simp
  have "st_agents_used (tr_state ?r) = 0" by (simp add: pause_tracked_def)
  then have "with_run ?k (reconcile_tracked 0) ?t = ?t"
    by (intro with_run_same [OF run]) (simp add: reconcile_tracked_def)
  moreover have "agent_reservation_count (new_journal None :: nat journal) = 0"
    by (simp add: agent_reservation_count_def new_journal_def)
  moreover have "may_resume None (tr_state ?r)"
    by (simp add: may_resume_def Let_def status is_resumable_def is_paused_def)
  moreover have "get_run ?t ?k = Some (tr_state ?r)" by (simp add: get_run_def run)
  ultimately have launch: "\<exists>s t. resume_launch sample_launch_io ?k resume_spec (mg_store paused_manager) ?t None =
      (Inr (lit ''let meta'', new_journal None, s), t, None) \<and> st_run_id s = ?k"
    using run status
    by (simp add: resume_launch_def resume_spec_def paused_manager_def new_store_def args_for_def script_for_def
        resume_journal_memory is_resumable_def is_paused_def reconcile_agents_used_def resume_run_def changed_run_def
        resume_tracked_def Let_def candidate_budget_def pause.same_id split: option.splits)
  have "\<exists>la m'. launch sample_launch_io (\<lambda>_. False) sample_resolved resume_spec paused_manager None = (Inr la, m', None)"
    using launch
    by (auto simp: launch_def Let_def reap_terminal_runs_def WORKFLOW_MAX_ACTIVE_RUNS_PER_SESSION_def admit_def persist_now_def
        manifest_for_def paused_manager_def one_run_manager_def new_store_def resume_spec_def)
  then obtain la m' where l: "launch sample_launch_io (\<lambda>_. False) sample_resolved resume_spec paused_manager None = (Inr la, m', None)"
    by blast
  have "execution_epoch ?t ?k = Some 0" by (simp add: execution_epoch_def run pause_tracked_def fold_elapsed_def)
  from resume_runs_what_was_registered [OF l _ this] l show ?thesis
    by (auto simp: resume_spec_def script_for_def paused_manager_def)
qed

subsection \<open>Slots\<close>

text \<open>
  C39: A run whose budget is spent keeps its slot. Four such runs block the session: every further launch
  is refused as if four runs were active, the resumption of one of them with a raised budget included,
  and neither pausing nor stopping applies to them, so that no operation frees a slot.
\<close>

theorem spent_budgets_block_the_session:
  assumes "length (mg_active m) = 4"
    and "\<forall>(key, e) \<in> set (mg_active m). map_option st_status (get_run (mg_tracker m) key) = Some StBudgetLimited"
  shows "fst (launch L finished resolved spec m d) = Inl LaunchTooManyActiveRuns \<and>
    mg_active (fst (snd (launch L finished resolved spec m d))) = mg_active m \<and>
    (\<forall>name key control. find_run_id (mg_tracker m) name = Some key \<longrightarrow> key \<in> fst ` set (mg_active m) \<longrightarrow>
      (\<exists>nm. control_run show_value at now meanwhile name control m =
        (Inl (ControlNotApplicable nm StBudgetLimited control), m)))"
proof -
  have "\<not> run_is_terminal (mg_tracker m) key" if "(key, e) \<in> set (mg_active m)" for key e
    using assms(2) that by (auto simp: run_is_terminal_def is_terminal_def split: option.splits)
  then have "mg_active (reap_terminal_runs finished m) = mg_active m"
    by (auto simp: reap_terminal_runs_def Let_def filter_id_conv)
  moreover from this have "launch L finished resolved spec m d = (Inl LaunchTooManyActiveRuns, reap_terminal_runs finished m, d)"
    using assms(1) by (simp add: launch_def Let_def WORKFLOW_MAX_ACTIVE_RUNS_PER_SESSION_def)
  moreover have "\<exists>nm. control_run show_value at now meanwhile name control m =
        (Inl (ControlNotApplicable nm StBudgetLimited control), m)"
    if named: "find_run_id (mg_tracker m) name = Some key" and slot: "key \<in> fst ` set (mg_active m)" for name key control
  proof -
    obtain s where "get_run (mg_tracker m) key = Some s" "st_status s = StBudgetLimited"
      using assms(2) slot by fastforce
    moreover have "\<not> accepts StBudgetLimited control"
      by (cases control) (simp_all add: is_completion_reportable_def)
    ultimately show ?thesis using named by (auto simp: control_run_def)
  qed
  ultimately show ?thesis by auto
qed

definition spent_run :: "str \<Rightarrow> tracked_run" where
  "spent_run key = sample_run\<lparr>tr_state := (tr_state sample_run)\<lparr>st_run_id := key, st_name := key, st_status := StBudgetLimited\<rparr>\<rparr>"

definition spent_manager :: "nat manager" where
  "spent_manager =
     one_run_manager\<lparr>mg_tracker := one_run\<lparr>tk_runs := map spent_run [lit ''a'', lit ''b'', lit ''c'', lit ''d'']\<rparr>,
       mg_active := [(lit ''a'', 0), (lit ''b'', 1), (lit ''c'', 2), (lit ''d'', 3)]\<rparr>"

theorem spent_budgets_block_the_session_witness:
  "(\<forall>L finished resolved spec d. fst (launch L finished resolved spec spent_manager d) = Inl LaunchTooManyActiveRuns) \<and>
   (\<exists>nm. control_run (\<lambda>_. []) [] 1 id (lit ''c'') ControlStop spent_manager =
      (Inl (ControlNotApplicable nm StBudgetLimited ControlStop), spent_manager))"
proof -
  have four: "length (mg_active spent_manager) = 4" by (simp add: spent_manager_def)
  have spent: "\<forall>(key, e) \<in> set (mg_active spent_manager).
      map_option st_status (get_run (mg_tracker spent_manager) key) = Some StBudgetLimited"
    by (simp add: spent_manager_def get_run_def run_mut_def spent_run_def lit_Cons)
  have found: "find_run_id (mg_tracker spent_manager) (lit ''c'') = Some (lit ''c'')"
    by (simp add: spent_manager_def find_run_id_def spent_run_def lit_Cons)
  have slot: "lit ''c'' \<in> fst ` set (mg_active spent_manager)" by (simp add: spent_manager_def)
  note blocked = spent_budgets_block_the_session [OF four spent]
  show ?thesis
    using blocked [THEN conjunct1] blocked [of _ _ _ _ _ "\<lambda>_. []" "[]" 1 id, THEN conjunct2, THEN conjunct2] found slot by blast
qed

text \<open>
  C40: A failure whose text is longer than the 4096 bytes that a run keeps of it is never taken back: the
  journal of the failed run is left with the failure in it, so that every resumption replays it.
\<close>

theorem long_failure_is_never_pruned:
  assumes "j_entries j = es @ [e]" and "value_get (entry_result e) HOST_ERROR_KEY = Some (VString message)"
    and "4096 < str_len message" and "\<not> outcome_ignored (run_status r)"
  shows "let s = tr_state (outcome_tracked show_value at now (OutcomeFailed error) r)
    in st_status s = StFailed \<and>
       prune_trailing_host_error io j d (case st_pause_message s of None \<Rightarrow> [] | Some msg \<Rightarrow> msg) = (Inr False, j, d)"
proof -
  let ?s = "tr_state (outcome_tracked show_value at now (OutcomeFailed error) r)"
  have s: "st_status ?s = StFailed" "st_pause_message ?s = Some (capped_pause_message error)"
    using assms(4) by (simp_all add: outcome_tracked_def)
  have "\<not> contains (capped_pause_message error) message"
  proof
    assume "contains (capped_pause_message error) message"
    then have "str_len message \<le> str_len (capped_pause_message error)"
      by (auto simp: contains_iff_sublist sublist_def)
    then show False using assms(3) capped_pause_message [of error] by simp
  qed
  then show ?thesis
    using assms(1,2) s by (simp add: prune_trailing_host_error_def)
qed

theorem long_failure_is_never_pruned_witness:
  "let message = replicate 5000 97;
       s = tr_state (outcome_tracked (\<lambda>_ :: nat jvalue. []) [] 1 (OutcomeFailed message) sample_run)
   in st_status s = StFailed \<and>
      fst (prune_trailing_host_error IoOk
        (new_journal None\<lparr>j_entries := [sample_entry\<lparr>entry_result := VObject [(HOST_ERROR_KEY, VString message)]\<rparr>]\<rparr>) None
        (case st_pause_message s of None \<Rightarrow> [] | Some msg \<Rightarrow> msg)) = Inr False"
proof -
  let ?message = "replicate 5000 (97 :: nat)"
  let ?e = "sample_entry\<lparr>entry_result := VObject [(HOST_ERROR_KEY, VString ?message)]\<rparr> :: nat journal_entry"
  have "str_len (replicate n (97 :: nat)) = n" for n by (induction n) (simp_all add: len_utf8_def)
  then have long: "4096 < str_len ?message" by simp
  have "\<not> outcome_ignored (run_status sample_run)" by (simp add: outcome_ignored_def)
  then show ?thesis
    using long_failure_is_never_pruned [of "new_journal None\<lparr>j_entries := [?e]\<rparr>" "[]" ?e ?message sample_run
        "\<lambda>_ :: nat jvalue. []" "[]" 1 ?message IoOk None] long
    by (simp add: Let_def)
qed

end
