(* ===== verification/Token_Estimate.thy ===== *)
theory Token_Estimate
  imports Rust_Float Rust_Str
begin

text \<open>
  The arithmetic of context windows, \<^verbatim>\<open>xai-token-estimation/src/lib.rs\<close>: estimates from lengths, shares
  of a window as percentages, and the thresholds at which a conversation is compacted. Percentages
  as \<open>f64\<close> are computed on bit patterns.
\<close>

definition saturating_mul :: "u64 \<Rightarrow> u64 \<Rightarrow> u64" where
  "saturating_mul a b = (if unat a * unat b < 2 ^ 64 then a * b else - 1)"

definition BYTES_PER_TOKEN :: u64 where "BYTES_PER_TOKEN = 4"
definition IMAGE_TOKEN_ESTIMATE :: u64 where "IMAGE_TOKEN_ESTIMATE = 765"

definition estimate_tokens :: "str \<Rightarrow> u64" where
  "estimate_tokens s = word_of_nat (str_len s) div BYTES_PER_TOKEN"

definition estimate_chars :: "u64 \<Rightarrow> u64" where
  "estimate_chars tokens = saturating_mul tokens BYTES_PER_TOKEN"

definition estimate_image_tokens :: "u64 \<Rightarrow> u64" where
  "estimate_image_tokens image_count = saturating_mul image_count IMAGE_TOKEN_ESTIMATE"

subsection \<open>Percentages\<close>

text \<open>Division, minimum and rounding (halves away from zero) of finite values that are not negative.\<close>

definition f64_div_finite :: "f64 \<Rightarrow> f64 \<Rightarrow> f64" where
  "f64_div_finite x y =
     (let (m, d) = f64_parts x; (n, e) = f64_parts y
      in if e \<le> d then f64_of_ratio (m * 2 ^ nat (d - e)) n else f64_of_ratio m (n * 2 ^ nat (e - d)))"

definition f64_min :: "f64 \<Rightarrow> f64 \<Rightarrow> f64" where
  "f64_min x y = (if f64_ge y x then x else y)"

definition f64_round_nat :: "f64 \<Rightarrow> nat" where
  "f64_round_nat x =
     (let (m, e) = f64_parts x
      in if 0 \<le> e then m * 2 ^ nat e else (2 * m + 2 ^ nat (- e)) div (2 * 2 ^ nat (- e)))"

definition f64_hundred :: f64 where "f64_hundred = word_of_nat (1029 * 2 ^ 52 + 9 * 2 ^ 48)"

definition usage_percentage :: "u64 \<Rightarrow> u64 \<Rightarrow> f64" where
  "usage_percentage used window =
     (if window = 0 then 0
      else f64_min (f64_mul (f64_div_finite (nat_as_f64 (unat used)) (nat_as_f64 (unat window))) f64_hundred) f64_hundred)"

definition usage_percentage_u8 :: "u64 \<Rightarrow> u64 \<Rightarrow> u8" where
  "usage_percentage_u8 used window = word_of_nat (min (f64_round_nat (usage_percentage used window)) 255)"

definition usage_percentage_truncated_u8 :: "u64 \<Rightarrow> u64 \<Rightarrow> u8" where
  "usage_percentage_truncated_u8 used window =
     (if window = 0 then 0 else word_of_nat (min (unat (saturating_mul used 100 div window)) 100))"

definition free_tokens :: "u64 \<Rightarrow> u64 \<Rightarrow> u64" where
  "free_tokens window used = saturating_sub window used"

subsection \<open>Thresholds\<close>

definition exceeds_threshold :: "u64 \<Rightarrow> u64 \<Rightarrow> u8 \<Rightarrow> bool" where
  "exceeds_threshold used context_window threshold_percent =
     (if context_window = 0 then False
      else saturating_mul context_window (ucast threshold_percent) \<le> saturating_mul used 100)"

definition exceeds_threshold_with_headroom :: "u64 \<Rightarrow> u64 \<Rightarrow> u8 \<Rightarrow> u64 \<Rightarrow> bool" where
  "exceeds_threshold_with_headroom used context_window threshold_percent headroom =
     (if context_window = 0 then False
      else saturating_sub (saturating_mul context_window (ucast threshold_percent)) (saturating_mul headroom 100)
           \<le> saturating_mul used 100)"

subsection \<open>Properties\<close>

lemma unat_saturating_mul: "unat (saturating_mul a b) = min (unat a * unat b) (2 ^ 64 - 1)"
proof (cases "unat a * unat b < 2 ^ 64")
  case True
  then show ?thesis by (simp add: saturating_mul_def unat_word_ariths)
next
  case False
  then show ?thesis by (simp add: saturating_mul_def unsigned_minus_1_eq_mask mask_eq_exp_minus_1)
qed

lemma unat_threshold: "unat (ucast (p :: u8) :: u64) = unat p"
proof -
  have "unat p < 2 ^ 8" using unsigned_less [of p, where ?'a = nat] by simp
  also have "\<dots> \<le> 2 ^ 64" by simp
  finally show ?thesis by (simp only: unsigned_ucast_eq take_bit_nat_eq_self_iff) simp
qed

lemma unat_scaled: "unat a * 100 < 2 ^ 64 \<Longrightarrow> unat (saturating_mul a 100) = unat a * 100"
proof -
  have "unat (100 :: u64) = 100" by simp
  then show "unat a * 100 < 2 ^ 64 \<Longrightarrow> ?thesis" by (simp add: unat_saturating_mul)
qed

text \<open>
  Where no product overflows, the gate compares the exact share of the window with the threshold,
  and headroom lowers the threshold by exactly the tokens it names.
\<close>

theorem threshold_is_exact:
  assumes "context_window \<noteq> 0" and "unat used * 100 < 2 ^ 64" and "unat context_window * unat p < 2 ^ 64"
    and "unat headroom * 100 < 2 ^ 64"
  shows "(exceeds_threshold used context_window p \<longleftrightarrow> unat context_window * unat p \<le> unat used * 100) \<and>
    (exceeds_threshold_with_headroom used context_window p headroom \<longleftrightarrow>
       unat context_window * unat p \<le> (unat used + unat headroom) * 100)"
proof -
  have "unat (saturating_mul context_window (ucast p)) = unat context_window * unat p"
    using assms(3) by (simp add: unat_saturating_mul unat_threshold)
  with assms(1) unat_scaled [OF assms(2)] unat_scaled [OF assms(4)] show ?thesis
    unfolding exceeds_threshold_def exceeds_threshold_with_headroom_def word_le_nat_alt unat_saturating_sub by auto
qed

lemma round_below: "m \<le> 100 * 2 ^ k \<Longrightarrow> (2 * m + 2 ^ k) div (2 * 2 ^ k) \<le> (100 :: nat)"
proof -
  assume "m \<le> 100 * 2 ^ k"
  moreover have "(0 :: nat) < 2 ^ k" by simp
  ultimately have "2 * m + 2 ^ k < 101 * (2 * 2 ^ k)" by linarith
  then have "(2 * m + 2 ^ k) div (2 * 2 ^ k) < 101" by (rule less_mult_imp_div_less)
  then show ?thesis by simp
qed

lemma round_parts: "f64_parts x = (m, - int k) \<Longrightarrow> 0 < k \<Longrightarrow> m \<le> 100 * 2 ^ k \<Longrightarrow> f64_round_nat x \<le> 100"
  by (simp add: f64_round_nat_def round_below)

lemma f64_round_below_hundred:
  assumes "f64_magnitude x \<le> 1029 * 2 ^ 52 + 9 * 2 ^ 48"
  shows "f64_round_nat x \<le> 100"
proof -
  define b where "b = f64_magnitude x div 2 ^ 52"
  define f where "f = f64_magnitude x mod 2 ^ 52"
  have M: "f64_magnitude x = b * 2 ^ 52 + f" by (simp add: b_def f_def)
  have f: "f < 2 ^ 52" by (simp add: f_def)
  have b: "b \<le> 1029" using assms f unfolding M by simp
  have parts: "f64_parts x = (if b = 0 then (f, - 1074) else (2 ^ 52 + f, int b - 1075))"
    by (simp only: f64_parts_def Let_def b_def f_def)
  show ?thesis
  proof (cases "b = 0")
    case True
    then have "f64_parts x = (f, - int 1074)" by (simp add: parts)
    moreover have "f \<le> 100 * 2 ^ 1074"
      using f power_increasing [of 52 1074 "2 :: nat"] by simp
    ultimately show ?thesis using round_parts [of x f 1074] by simp
  next
    case False
    have "2 ^ 52 + f \<le> 100 * 2 ^ (1075 - b)"
    proof (cases "b = 1029")
      case True
      then show ?thesis using assms unfolding M by simp
    next
      case False
      then have "(2 :: nat) ^ 47 \<le> 2 ^ (1075 - b)" using b by (intro power_increasing) simp_all
      then show ?thesis using f by simp
    qed
    moreover have "f64_parts x = (2 ^ 52 + f, - int (1075 - b))" "0 < 1075 - b"
      using False b by (simp_all add: parts of_nat_diff)
    ultimately show ?thesis using round_parts by blast
  qed
qed

lemma f64_of_ratio_positive: "\<not> f64_negative (f64_of_ratio n d)"
proof -
  have "unat (word_of_nat (min bits (2047 * 2 ^ 52)) :: u64) = min bits (2047 * 2 ^ 52)" for bits
    by (simp add: unat_of_nat)
  then show ?thesis by (simp add: f64_negative_def f64_of_ratio_def Let_def)
qed

lemma f64_special_positive: "\<not> f64_negative f64_nan" "\<not> f64_negative f64_inf"
  by (simp_all add: f64_negative_def f64_nan_def f64_inf_def unat_of_nat)

lemma f64_mul_positive: "\<not> f64_negative x \<Longrightarrow> \<not> f64_negative y \<Longrightarrow> \<not> f64_negative (f64_mul x y)"
  by (simp add: f64_mul_def Let_def f64_signed_def f64_of_ratio_positive f64_special_positive split: prod.splits)

lemma f64_hundred_bits: "f64_magnitude f64_hundred = 1029 * 2 ^ 52 + 9 * 2 ^ 48" "\<not> f64_negative f64_hundred"
  by (simp_all add: f64_magnitude_def f64_negative_def f64_hundred_def unat_of_nat)

text \<open>A percentage is never above 100, truncated or rounded, whatever the counters.\<close>

theorem percentages_are_bounded:
  "unat (usage_percentage_u8 used window) \<le> 100 \<and> unat (usage_percentage_truncated_u8 used window) \<le> 100"
proof
  let ?x = "f64_mul (f64_div_finite (nat_as_f64 (unat used)) (nat_as_f64 (unat window))) f64_hundred"
  have "\<not> f64_negative (f64_div_finite y z)" for y z
    by (simp add: f64_div_finite_def f64_of_ratio_positive split: prod.splits)
  then have "\<not> f64_negative ?x" by (intro f64_mul_positive f64_hundred_bits)
  then have "f64_magnitude (f64_min ?x f64_hundred) \<le> 1029 * 2 ^ 52 + 9 * 2 ^ 48"
    by (auto simp: f64_min_def f64_ge_def f64_key_def f64_hundred_bits)
  moreover have "f64_magnitude 0 \<le> 1029 * 2 ^ 52 + 9 * 2 ^ 48" by (simp add: f64_magnitude_def)
  ultimately have "f64_round_nat (usage_percentage used window) \<le> 100"
    unfolding usage_percentage_def by (auto intro: f64_round_below_hundred)
  then show "unat (usage_percentage_u8 used window) \<le> 100"
    by (simp add: usage_percentage_u8_def unat_of_nat)
  show "unat (usage_percentage_truncated_u8 used window) \<le> 100"
    by (simp add: usage_percentage_truncated_u8_def unat_of_nat)
qed

end
