(* ===== verification/Hunk_Patch.thy ===== *)
theory Hunk_Patch
  imports Hunk_Diff
begin

text \<open>
  What accepting and rejecting hunks means for the text. A list of changes is a list of pieces: lines both
  sides share and edits that exchange some lines for others. A text in which some edits are made and the
  others are not is a \<open>mix\<close> of the two sides. The hunks of \<open>compute_hunks\<close> are the edits with their
  positions, and \<open>patch_lines\<close> over any of them, from the last to the first, leads from one mix to the other.
\<close>

subsection \<open>Pieces\<close>

datatype piece = Same str | Edit "str list" "str list"

fun add_old :: "str \<Rightarrow> piece list \<Rightarrow> piece list" where
  "add_old v (Edit os ns # ps) = Edit (v # os) ns # ps"
| "add_old v ps = Edit [v] [] # ps"

fun add_new :: "str \<Rightarrow> piece list \<Rightarrow> piece list" where
  "add_new v (Edit os ns # ps) = Edit os (v # ns) # ps"
| "add_new v ps = Edit [] [v] # ps"

fun pieces :: "change list \<Rightarrow> piece list" where
  "pieces [] = []"
| "pieces ((Equal, v) # cs) = Same v # pieces cs"
| "pieces ((Delete, v) # cs) = add_old v (pieces cs)"
| "pieces ((Insert, v) # cs) = add_new v (pieces cs)"

fun separate :: "piece list \<Rightarrow> bool" where
  "separate [] = True"
| "separate (Same v # ps) = separate ps"
| "separate (Edit os ns # ps) = ((case ps of Edit _ _ # _ \<Rightarrow> False | _ \<Rightarrow> True) \<and> separate ps)"

lemma separate_add: "separate ps \<Longrightarrow> separate (add_old v ps)" "separate ps \<Longrightarrow> separate (add_new v ps)"
  by (cases ps rule: separate.cases; simp)+

lemma separate_pieces [simp]: "separate (pieces cs)"
  by (induction cs rule: pieces.induct) (auto simp: separate_add)

text \<open>The mix: an edit is made where its mark is set.\<close>

fun mix :: "bool list \<Rightarrow> piece list \<Rightarrow> str list" where
  "mix bs [] = []"
| "mix bs (Same v # ps) = v # mix bs ps"
| "mix (b # bs) (Edit os ns # ps) = (if b then ns else os) @ mix bs ps"
| "mix [] (Edit os ns # ps) = os @ mix [] ps"

fun edits :: "piece list \<Rightarrow> nat" where
  "edits [] = 0"
| "edits (Same v # ps) = edits ps"
| "edits (Edit os ns # ps) = Suc (edits ps)"

fun before_side :: "piece list \<Rightarrow> str list" where
  "before_side [] = []"
| "before_side (Same v # ps) = v # before_side ps"
| "before_side (Edit os ns # ps) = os @ before_side ps"

fun after_side :: "piece list \<Rightarrow> str list" where
  "after_side [] = []"
| "after_side (Same v # ps) = v # after_side ps"
| "after_side (Edit os ns # ps) = ns @ after_side ps"

fun flip_piece :: "piece \<Rightarrow> piece" where
  "flip_piece (Same v) = Same v"
| "flip_piece (Edit os ns) = Edit ns os"

abbreviation flipped :: "piece list \<Rightarrow> piece list" where
  "flipped ps \<equiv> map flip_piece ps"

lemma before_side_flipped [simp]: "before_side (flipped ps) = after_side ps"
  by (induction ps rule: before_side.induct) simp_all

lemma edits_flipped [simp]: "edits (flipped ps) = edits ps"
  by (induction ps rule: edits.induct) simp_all

lemma mix_flipped: "length bs = edits ps \<Longrightarrow> mix bs (flipped ps) = mix (map Not bs) ps"
  by (induction bs ps rule: mix.induct) simp_all

lemma mix_replicate:
  "mix (replicate (edits ps) False) ps = before_side ps"
  "mix (replicate (edits ps) True) ps = after_side ps"
  by (induction ps rule: edits.induct) simp_all

lemma mix_keeps: "Same v \<in> set ps \<Longrightarrow> v \<in> set (mix bs ps)"
  by (induction bs ps rule: mix.induct) auto

text \<open>The two sides of the changes, as the diff promises them.\<close>

definition old_values :: "change list \<Rightarrow> str list" where
  "old_values cs = map snd (filter (\<lambda>c. fst c \<noteq> Insert) cs)"

definition new_values :: "change list \<Rightarrow> str list" where
  "new_values cs = map snd (filter (\<lambda>c. fst c \<noteq> Delete) cs)"

lemma sides_add [simp]:
  "before_side (add_old v ps) = v # before_side ps" "after_side (add_old v ps) = after_side ps"
  "before_side (add_new v ps) = before_side ps" "after_side (add_new v ps) = v # after_side ps"
  by (cases ps rule: before_side.cases; simp)+

lemma sides_pieces: "before_side (pieces cs) = old_values cs" "after_side (pieces cs) = new_values cs"
  by (induction cs rule: pieces.induct) (simp_all add: old_values_def new_values_def)

subsection \<open>The loop finds the edits\<close>

fun place :: "nat \<Rightarrow> nat \<Rightarrow> piece list \<Rightarrow> HunkBuilder list" where
  "place i j [] = []"
| "place i j (Same v # ps) = place (i + 1) (j + 1) ps"
| "place i j (Edit os ns # ps) =
     \<lparr>b_old_start = i, b_new_start = j, b_old_lines = os, b_new_lines = ns\<rparr>
       # place (i + length os) (j + length ns) ps"

lemma length_place [simp]: "length (place i j ps) = edits ps"
  by (induction i j ps rule: place.induct) simp_all

fun grow :: "HunkBuilder \<Rightarrow> piece list \<Rightarrow> HunkBuilder list" where
  "grow b (Edit os ns # ps) =
     b\<lparr>b_old_lines := b_old_lines b @ os, b_new_lines := b_new_lines b @ ns\<rparr>
       # place (b_old_start b + length (b_old_lines b @ os)) (b_new_start b + length (b_new_lines b @ ns)) ps"
| "grow b ps = b # place (b_old_start b + length (b_old_lines b)) (b_new_start b + length (b_new_lines b)) ps"

lemma grow_add:
  "grow (add_old_line v b) ps = grow b (add_old v ps)"
  "grow (add_new_line v b) ps = grow b (add_new v ps)"
  by (cases ps rule: before_side.cases; simp add: add_old_line_def add_new_line_def)+

lemma grow_new:
  "grow (builder_new i j) (add_old v ps) = place i j (add_old v ps)"
  "grow (builder_new i j) (add_new v ps) = place i j (add_new v ps)"
  by (cases ps rule: before_side.cases; simp add: builder_new_def)+

definition builds :: "'z diff_env_scheme \<Rightarrow> nat \<Rightarrow> str \<Rightarrow> HunkSource \<Rightarrow> nat \<Rightarrow> HunkBuilder list \<Rightarrow> Hunk list" where
  "builds E t path src k bs = map (\<lambda>(i, b). build E t path src i b) (enumerate k bs)"

lemma builds_Cons [simp]: "builds E t path src k (b # bs) = build E t path src k b # builds E t path src (Suc k) bs"
  and builds_Nil [simp]: "builds E t path src k [] = []"
  by (simp_all add: builds_def)

definition open_builders :: "diff_state \<Rightarrow> piece list \<Rightarrow> HunkBuilder list" where
  "open_builders s ps = (case ds_open s of None \<Rightarrow> place (ds_old s) (ds_new s) ps | Some b \<Rightarrow> grow b ps)"

definition in_step :: "diff_state \<Rightarrow> bool" where
  "in_step s \<longleftrightarrow> (\<forall>b. ds_open s = Some b \<longrightarrow>
     ds_old s = b_old_start b + length (b_old_lines b) \<and> ds_new s = b_new_start b + length (b_new_lines b))"

lemma in_step_change: "in_step s \<Longrightarrow> in_step (change_step E t path src c s)"
  by (cases "(E, t, path, src, c, s)" rule: change_step.cases)
    (auto simp: in_step_def flush_open_def open_or_new_def builder_new_def add_old_line_def add_new_line_def Let_def
      split: option.splits)

lemma change_step_builders:
  assumes "in_step s"
  shows "ds_hunks (change_step E t path src c s)
           @ builds E t path src (length (ds_hunks (change_step E t path src c s)))
               (open_builders (change_step E t path src c s) (pieces cs))
         = ds_hunks s @ builds E t path src (length (ds_hunks s)) (open_builders s (pieces (c # cs)))"
  using assms
  by (cases "(E, t, path, src, c, s)" rule: change_step.cases)
    (auto simp: in_step_def flush_open_def open_or_new_def open_builders_def grow_add grow_new Let_def
      split: option.splits)

lemma flush_open_builders:
  "ds_hunks (flush_open E t path src s)
     = ds_hunks s @ builds E t path src (length (ds_hunks s)) (open_builders s [])"
  by (simp add: flush_open_def open_builders_def split: option.split)

lemma change_loop:
  "in_step s \<Longrightarrow>
   ds_hunks (flush_open E t path src (fold (change_step E t path src) cs s))
     = ds_hunks s @ builds E t path src (length (ds_hunks s)) (open_builders s (pieces cs))"
proof (induction cs arbitrary: s)
  case Nil
  then show ?case by (simp add: flush_open_builders)
next
  case (Cons c cs)
  show ?case
    using Cons.IH [OF in_step_change [OF Cons.prems, of E t path src c]]
      change_step_builders [OF Cons.prems, of E t path src c cs] by simp
qed

definition diffable_pair :: "'z diff_env_scheme \<Rightarrow> nat \<Rightarrow> str \<Rightarrow> str \<Rightarrow> bool" where
  "diffable_pair E t b c \<longleftrightarrow>
     b \<noteq> c \<and> str_len b \<le> MAX_DIFF_FILE_SIZE \<and> str_len c \<le> MAX_DIFF_FILE_SIZE \<and> \<not> timed_out E t"

lemma compute_hunks_eq:
  "compute_hunks E t path b c src =
     (if diffable_pair E t b c then builds E t path src 0 (place 1 1 (pieces (diff_lines E b c))) else [])"
  by (auto simp: compute_hunks_def diffable_pair_def change_loop in_step_def open_builders_def)

subsection \<open>Order of the hunks\<close>

lemma place_bounds:
  "x \<in> set (place i j ps) \<Longrightarrow> i \<le> b_old_start x \<and> j \<le> b_new_start x"
  by (induction i j ps rule: place.induct) force+

lemma place_sorted:
  "separate ps \<Longrightarrow> sorted_wrt (\<lambda>a b. b_old_start a < b_old_start b \<and> b_new_start a < b_new_start b) (place i j ps)"
proof (induction i j ps rule: place.induct)
  case (3 i j os ns ps)
  have "i < b_old_start x \<and> j < b_new_start x" if x: "x \<in> set (place (i + length os) (j + length ns) ps)" for x
  proof (cases ps)
    case Nil
    with x show ?thesis by simp
  next
    case (Cons p qs)
    then obtain v where "p = Same v" using 3 by (cases p) auto
    with x Cons show ?thesis using place_bounds [of x "i + length os + 1" "j + length ns + 1" qs] by simp
  qed
  with 3 show ?case by simp
qed simp_all

lemma sort_reverse:
  fixes f :: "'a \<Rightarrow> nat"
  assumes "sorted_wrt (\<lambda>a b. f a < f b) xs"
  shows "sort_key (\<lambda>x. - int (f x)) xs = rev xs"
proof (rule properties_for_sort_key)
  have once: "filter (\<lambda>x. - int (f k) = - int (f x)) ys = [k]" if "k \<in> set xs" "ys = xs \<or> ys = rev xs" for k ys
  proof -
    have "filter (\<lambda>x. f k = f x) xs = [k]"
      using that(1) assms by (induction xs) (force simp: filter_empty_conv)+
    then show ?thesis using that(2) by (auto simp flip: rev_filter)
  qed
  show "filter (\<lambda>x. - int (f k) = - int (f x)) (rev xs) = filter (\<lambda>x. - int (f k) = - int (f x)) xs"
    if "k \<in> set (rev xs)" for k using once [of k xs] once [of k "rev xs"] that by simp
  show "sorted (map (\<lambda>x. - int (f x)) (rev xs))"
    using assms by (induction xs) (auto simp: sorted_append less_imp_le)
qed simp

subsection \<open>Lines of a text\<close>

definition full_line :: "str \<Rightarrow> bool" where
  "full_line v \<longleftrightarrow> v \<noteq> [] \<and> last v = 10 \<and> 10 \<notin> set (butlast v) \<and> 13 \<notin> set v"

lemma full_lineE:
  assumes "full_line v"
  obtains l where "v = l @ [10]" and "10 \<notin> set l" and "13 \<notin> set l"
  using assms unfolding full_line_def by (metis append_butlast_last_id in_set_butlastD)

lemma hunk_split_line: "10 \<notin> set l \<Longrightarrow> split_inclusive_nl (l @ 10 # s) = (l @ [10]) # split_inclusive_nl s"
  by (induction l) auto

lemma split_concat_lines: "list_all full_line vs \<Longrightarrow> split_inclusive_nl (concat vs) = vs"
  by (induction vs) (auto elim!: full_lineE simp: hunk_split_line)

lemma lines_concat: "list_all full_line vs \<Longrightarrow> lines (concat vs) = map strip_line_end vs"
  by (simp add: lines_def split_concat_lines)

lemma strip_full_line [simp]:
  assumes "10 \<notin> set l" and "13 \<notin> set l"
  shows "strip_line_end (l @ [10]) = l"
proof -
  have "\<not> (l \<noteq> [] \<and> last l = 13)" using assms(2) last_in_set [of l] by metis
  then show ?thesis by (auto simp: strip_line_end_def Let_def)
qed

lemma join_lines:
  "list_all full_line vs \<Longrightarrow> vs \<noteq> [] \<Longrightarrow> join [10] (map strip_line_end vs) @ [10] = concat vs"
proof (induction vs)
  case (Cons v vs)
  then show ?case by (cases vs) (auto elim!: full_lineE)
qed simp

lemma join_lines_empty:
  assumes "list_all full_line vs" and "v \<in> set vs" and "v \<noteq> [10]"
  shows "join [10] (map strip_line_end vs) \<noteq> []"
proof
  assume "join [10] (map strip_line_end vs) = []"
  moreover have "vs \<noteq> []" using assms(2) by auto
  ultimately have "concat vs = [10]" using join_lines [OF assms(1)] by simp
  then have "split_inclusive_nl (concat vs) = [[10]]" by simp
  with assms show False by (simp add: split_concat_lines)
qed

lemma ends_with_concat:
  "list_all full_line vs \<Longrightarrow> vs \<noteq> [] \<Longrightarrow> str_ends_with (concat vs) [10]"
  by (metis join_lines str_ends_with_iff)

text \<open>
  \<open>patch_lines\<close> exchanges lines of a text with line feeds, as long as a line that is not blank stays.
\<close>

lemma patch_lines_full:
  assumes full: "list_all full_line (pre @ os @ post)" "list_all full_line ns"
    and kept: "v \<in> set pre \<union> set post" "v \<noteq> [10]"
  shows "patch_lines (concat (pre @ os @ post)) (Suc (length pre)) (length os) (concat ns) = concat (pre @ ns @ post)"
proof -
  have ne: "pre @ os @ post \<noteq> []" "pre @ ns @ post \<noteq> []" using kept by auto
  have all: "list_all full_line (pre @ ns @ post)" using full by simp
  have out: "join [10] (map strip_line_end (pre @ ns @ post)) \<noteq> []"
    by (rule join_lines_empty [OF all]) (use kept in auto)
  have result: "take (min (length pre) (length (pre @ os @ post))) (map strip_line_end (pre @ os @ post))
      @ (if concat ns \<noteq> [] then lines (concat ns) else [])
      @ drop (min (length pre + length os) (length (pre @ os @ post))) (map strip_line_end (pre @ os @ post))
    = map strip_line_end (pre @ ns @ post)"
  proof -
    have "ns = []" if "concat ns = []" using full(2) that by (cases ns) (auto simp: full_line_def)
    then have "(if concat ns \<noteq> [] then lines (concat ns) else []) = map strip_line_end ns"
      using full(2) by (auto simp: lines_concat)
    then show ?thesis by simp
  qed
  show ?thesis
    using result out ends_with_concat [OF full(1) ne(1)] join_lines [OF all ne(2)]
    unfolding patch_lines_def Let_def lines_concat [OF full(1)] by simp
qed

subsection \<open>From one mix to another\<close>

type_synonym splice = "nat \<times> nat \<times> str list"

fun spots :: "nat \<Rightarrow> piece list \<Rightarrow> splice list" where
  "spots i [] = []"
| "spots i (Same v # ps) = spots (i + 1) ps"
| "spots i (Edit os ns # ps) = (i, length os, ns) # spots (i + length os) ps"

definition splice_text :: "splice \<Rightarrow> str \<Rightarrow> str" where
  "splice_text = (\<lambda>(i, n, ns) s. patch_lines s i n (concat ns))"

fun select :: "bool list \<Rightarrow> 'a list \<Rightarrow> 'a list" where
  "select (b # bs) (x # xs) = (if b then x # select bs xs else select bs xs)"
| "select _ _ = []"

lemma select_filter: "select (map P xs) xs = filter P xs"
  by (induction xs) simp_all

lemma select_map: "select bs (map f xs) = map f (select bs xs)"
  by (induction bs xs rule: select.induct) simp_all

lemma length_spots [simp]: "length (spots i ps) = edits ps"
  by (induction i ps rule: spots.induct) simp_all

fun full_piece :: "piece \<Rightarrow> bool" where
  "full_piece (Same v) = full_line v"
| "full_piece (Edit os ns) = (list_all full_line os \<and> list_all full_line ns)"

lemma full_mix: "list_all full_piece ps \<Longrightarrow> list_all full_line (mix bs ps)"
  by (induction bs ps rule: mix.induct) auto

theorem patch_selected:
  assumes "list_all full_piece ps" and "list_all full_line pre" and "length bs = edits ps"
    and "v \<noteq> [10]" and "v \<in> set pre \<or> Same v \<in> set ps"
  shows "fold splice_text (rev (select bs (spots (Suc (length pre)) ps))) (concat (pre @ before_side ps))
           = concat (pre @ mix bs ps)"
  using assms
proof (induction ps arbitrary: pre bs rule: edits.induct)
  case (2 w ps)
  then show ?case using "2.IH" [of "pre @ [w]" bs] by auto
next
  case (3 os ns ps)
  then obtain b bs' where bs: "bs = b # bs'" by (cases bs) auto
  have IH: "fold splice_text (rev (select bs' (spots (Suc (length pre) + length os) ps))) (concat (pre @ os @ before_side ps))
      = concat (pre @ os @ mix bs' ps)"
    using "3.IH" [of "pre @ os" bs'] 3 bs by auto
  have "splice_text (Suc (length pre), length os, ns) (concat (pre @ os @ mix bs' ps)) = concat (pre @ ns @ mix bs' ps)"
    unfolding splice_text_def prod.case
    by (rule patch_lines_full) (use 3 full_mix [of ps bs'] mix_keeps [of v ps bs'] in auto)
  with IH bs show ?case by simp
qed simp

end
