(* ===== verification/Hunk_Tracker.thy ===== *)
theory Hunk_Tracker
  imports Hunk_Diff Rust_Utf8 Lexical_Path "HOL-Library.AList"
begin

text \<open>
  The state of the hunk tracker actor (\<^verbatim>\<open>actor/state.rs\<close>, \<^verbatim>\<open>actor/mod.rs\<close>), the classification of file
  contents (\<^verbatim>\<open>actor/file_utils.rs\<close>), the recomputation of the hunks of a file with the events it sends
  (\<^verbatim>\<open>actor/hunks.rs\<close>), the handlers of writes, file changes and deletions (\<^verbatim>\<open>actor/mutations.rs\<close>) and the
  queries (\<^verbatim>\<open>actor/queries.rs\<close>).

  The map of tracked files is the list of its entries in the order in which the hash map runs through them;
  the event channel is the list of the events sent. The file system is a map from paths to nodes, kept in the
  state since rejecting a hunk writes to it. Parameters are what the operating system and \<^verbatim>\<open>gix\<close> answer:
  reads that fail or are short, failing writes and what they leave behind, the content at \<open>HEAD\<close>, the
  status of the work tree and the state of the repository. Each may depend on the number of outside calls so far, \<open>ticks\<close>.
\<close>

declare lit_Cons [simp del]

subsection \<open>File contents\<close>

datatype FileContentState =
    Missing
  | Binary "nat option"
  | TooLarge nat
  | LfsPointer nat
  | Symlink
  | Full str

fun content_str :: "FileContentState \<Rightarrow> str option" where
  "content_str (Full s) = Some s"
| "content_str _ = None"

fun is_diffable :: "FileContentState \<Rightarrow> bool" where
  "is_diffable (Full _) = True"
| "is_diffable _ = False"

fun byte_len :: "FileContentState \<Rightarrow> nat option" where
  "byte_len Missing = Some 0"
| "byte_len (Binary n) = n"
| "byte_len (TooLarge n) = Some n"
| "byte_len (LfsPointer n) = Some n"
| "byte_len Symlink = None"
| "byte_len (Full s) = Some (str_len s)"

definition MAX_TRACKED_TEXT_BYTES :: nat where
  "MAX_TRACKED_TEXT_BYTES = 1024 * 1024"

definition LFS_POINTER_PREFIX :: "nat list" where
  "LFS_POINTER_PREFIX = utf8_bytes (lit ''version https://git-lfs.github.com/spec/v1'') @ [10]"

definition is_lfs_pointer :: "nat list \<Rightarrow> bool" where
  "is_lfs_pointer bs \<longleftrightarrow> length bs < 1024 \<and> starts_with bs LFS_POINTER_PREFIX"

definition is_binary :: "nat list \<Rightarrow> bool" where
  "is_binary bs \<longleftrightarrow> 0 \<in> set (take (min (length bs) 8000) bs)"

definition classify_bytes :: "nat list \<Rightarrow> FileContentState" where
  "classify_bytes bs =
     (if length bs > MAX_TRACKED_TEXT_BYTES then TooLarge (length bs)
      else if is_lfs_pointer bs then LfsPointer (length bs)
      else if is_binary bs then Binary (Some (length bs))
      else case from_utf8 bs of Some s \<Rightarrow> Full s | None \<Rightarrow> Binary (Some (length bs)))"

definition classify_string :: "str \<Rightarrow> FileContentState" where
  "classify_string s =
     (if str_len s > MAX_TRACKED_TEXT_BYTES then TooLarge (str_len s)
      else if is_lfs_pointer (utf8_bytes s) then LfsPointer (str_len s)
      else if is_binary (utf8_bytes s) then Binary (Some (str_len s))
      else Full s)"

subsection \<open>The file system\<close>

datatype fs_node = FileNode "nat list" | LinkNode | DirNode nat

type_synonym fs = "str \<Rightarrow> fs_node option"

record RepoSyncState =
  head_oid :: "str option"
  index_mtime :: "nat option"

record tracker_env = diff_env +
  first_read :: "nat \<Rightarrow> str \<Rightarrow> nat option"
  rest_read :: "nat \<Rightarrow> str \<Rightarrow> bool"
  link_exists :: "str \<Rightarrow> bool"
  link_is_dir :: "str \<Rightarrow> bool"
  write_fails :: "nat \<Rightarrow> str \<Rightarrow> (str \<times> fs_node option) option"
  remove_fails :: "nat \<Rightarrow> str \<Rightarrow> str option"
  read_baseline :: "nat \<Rightarrow> str \<Rightarrow> FileContentState"
  read_baselines_batch :: "nat \<Rightarrow> str list \<Rightarrow> str \<Rightarrow> FileContentState option"
  git_status :: "nat \<Rightarrow> str list option \<Rightarrow> (str \<times> bool) list option"
  read_sync_state :: "nat \<Rightarrow> RepoSyncState option"
  parallel_read :: "nat \<Rightarrow> str \<Rightarrow> bool"

fun read_file_bounded :: "'z tracker_env_scheme \<Rightarrow> nat \<Rightarrow> fs \<Rightarrow> str \<Rightarrow> FileContentState" where
  "read_file_bounded E t d path =
     (case d path of
        None \<Rightarrow> Missing
      | Some LinkNode \<Rightarrow> Symlink
      | Some (DirNode n) \<Rightarrow> if n > MAX_TRACKED_TEXT_BYTES then TooLarge n else Missing
      | Some (FileNode bs) \<Rightarrow>
          let len = length bs; prefix_size = min 8000 len
          in if len > MAX_TRACKED_TEXT_BYTES then TooLarge len
             else case first_read E t path of
               None \<Rightarrow> Missing
             | Some n \<Rightarrow>
                 let prefix_buf = take (min n prefix_size) bs
                 in if is_lfs_pointer prefix_buf then LfsPointer len
                    else if is_binary prefix_buf then Binary (Some len)
                    else if len > prefix_size \<and> \<not> rest_read E t path then Missing
                    else case from_utf8 (if len > prefix_size then bs else prefix_buf) of
                           Some s \<Rightarrow> Full s
                         | None \<Rightarrow> Binary (Some len))"

definition path_exists :: "'z tracker_env_scheme \<Rightarrow> fs \<Rightarrow> str \<Rightarrow> bool" where
  "path_exists E d path = (case d path of None \<Rightarrow> False | Some LinkNode \<Rightarrow> link_exists E path | Some _ \<Rightarrow> True)"

definition path_is_dir :: "'z tracker_env_scheme \<Rightarrow> fs \<Rightarrow> str \<Rightarrow> bool" where
  "path_is_dir E d path =
     (case d path of Some (DirNode _) \<Rightarrow> True | Some LinkNode \<Rightarrow> link_is_dir E path | _ \<Rightarrow> False)"

subsection \<open>The state of the actor\<close>

record FileHunkState =
  baseline :: FileContentState
  current_content :: FileContentState
  hunks :: "Hunk list"
  is_agent_file :: bool
  baseline_accepted :: bool

datatype HunkRemovalReason = Accepted | Rejected | Superseded

datatype HunkEvent =
    HunkAdded str Hunk
  | HunkRemoved str str HunkRemovalReason
  | HunkMoved str str HunkLineInfo
  | HunkContentChanged str Hunk HunkSource nat nat
  | FileAdded str bool
  | FileRemoved str
  | BaselineUpdated str

datatype TrackingMode = AgentOnly | AllDirty

record SessionStats =
  accepted_hunks :: usize
  rejected_hunks :: usize
  accepted_lines_added :: usize
  accepted_lines_removed :: usize
  rejected_lines_added :: usize
  rejected_lines_removed :: usize

definition stats_default :: SessionStats where
  "stats_default =
     \<lparr>accepted_hunks = 0, rejected_hunks = 0, accepted_lines_added = 0, accepted_lines_removed = 0,
      rejected_lines_added = 0, rejected_lines_removed = 0\<rparr>"

record HunkTracker =
  working_dir :: str
  file_states :: "(str \<times> FileHunkState) list"
  turn_index :: "nat \<Rightarrow> str set option"
  git_dirty_cache :: "str list"
  git_staged_cache :: "str list"
  repo_sync_state :: RepoSyncState
  mode :: TrackingMode
  session_stats :: SessionStats
  events :: "HunkEvent list"
  disk :: fs
  ticks :: nat

definition tracker_new :: "str \<Rightarrow> TrackingMode \<Rightarrow> fs \<Rightarrow> HunkTracker" where
  "tracker_new dir m d =
     \<lparr>working_dir = dir, file_states = [], turn_index = (\<lambda>_. None), git_dirty_cache = [], git_staged_cache = [],
      repo_sync_state = \<lparr>head_oid = None, index_mtime = None\<rparr>, mode = m, session_stats = stats_default, events = [], disk = d, ticks = 0\<rparr>"

definition tracked :: "HunkTracker \<Rightarrow> str \<Rightarrow> FileHunkState option" where
  "tracked a path = map_of (file_states a) path"

definition put_file :: "str \<Rightarrow> FileHunkState \<Rightarrow> HunkTracker \<Rightarrow> HunkTracker" where
  "put_file path st a = a\<lparr>file_states := AList.update path st (file_states a)\<rparr>"

definition forget_file :: "str \<Rightarrow> HunkTracker \<Rightarrow> HunkTracker" where
  "forget_file path a = a\<lparr>file_states := AList.delete path (file_states a)\<rparr>"

definition send_events :: "HunkEvent list \<Rightarrow> HunkTracker \<Rightarrow> HunkTracker" where
  "send_events es a = a\<lparr>events := events a @ es\<rparr>"

definition next_tick :: "HunkTracker \<Rightarrow> HunkTracker" where
  "next_tick a = a\<lparr>ticks := ticks a + 1\<rparr>"

definition index_remove :: "str \<Rightarrow> HunkSource \<Rightarrow> (nat \<Rightarrow> str set option) \<Rightarrow> nat \<Rightarrow> str set option" where
  "index_remove hid src ti =
     (case prompt_index src of
        Some p \<Rightarrow> (case ti p of Some ids \<Rightarrow> ti(p \<mapsto> ids - {hid}) | None \<Rightarrow> ti)
      | None \<Rightarrow> ti)"

definition index_insert :: "str \<Rightarrow> HunkSource \<Rightarrow> (nat \<Rightarrow> str set option) \<Rightarrow> nat \<Rightarrow> str set option" where
  "index_insert hid src ti =
     (case prompt_index src of
        Some p \<Rightarrow> ti(p \<mapsto> insert hid (case ti p of Some ids \<Rightarrow> ids | None \<Rightarrow> {}))
      | None \<Rightarrow> ti)"

definition remove_from_turn_index :: "str \<Rightarrow> HunkSource \<Rightarrow> HunkTracker \<Rightarrow> HunkTracker" where
  "remove_from_turn_index hid src a = a\<lparr>turn_index := index_remove hid src (turn_index a)\<rparr>"

subsection \<open>Recomputing the hunks of a file\<close>

fun diff_states :: "'z tracker_env_scheme \<Rightarrow> nat \<Rightarrow> str \<Rightarrow> FileContentState \<Rightarrow> FileContentState \<Rightarrow> HunkSource \<Rightarrow> Hunk list" where
  "diff_states E t path (Full b) (Full c) src = compute_hunks E t path b c src"
| "diff_states E t path (Full b) Missing src =
     (if b = [] then [] else [file_deleted E t path b src])"
| "diff_states E t path Missing (Full c) src =
     (if c = [] then [] else [file_created E t path c src])"
| "diff_states E t path _ _ src = []"

fun inherit_hunks :: "Hunk list \<Rightarrow> str set \<Rightarrow> Hunk list \<Rightarrow> Hunk list" where
  "inherit_hunks olds claimed [] = []"
| "inherit_hunks olds claimed (h # hs) =
     (case find_matching_old_hunk h olds of
        None \<Rightarrow> h # inherit_hunks olds claimed hs
      | Some m \<Rightarrow>
          if hunk_id m \<in> claimed then h # inherit_hunks olds claimed hs
          else h\<lparr>hunk_id := hunk_id m,
                 source := (if is_external (source h) \<and> is_agent_edit (source m) then source m else source h)\<rparr>
               # inherit_hunks olds (insert (hunk_id m) claimed) hs)"

definition removed_events :: "str \<Rightarrow> Hunk list \<Rightarrow> Hunk list \<Rightarrow> HunkEvent list" where
  "removed_events path olds news =
     map (\<lambda>h. HunkRemoved path (hunk_id h) Superseded)
       (filter (\<lambda>h. \<not> list_ex (\<lambda>n. hunks_overlap h n \<or> hunks_match_content h n) news) olds)"

definition changed_event :: "str \<Rightarrow> Hunk list \<Rightarrow> HunkSource \<Rightarrow> Hunk \<Rightarrow> HunkEvent list" where
  "changed_event path olds trigger n =
     (case find (\<lambda>h. hunks_match_content h n) olds of
        Some h \<Rightarrow> if hunk_moved h n then [HunkMoved path (hunk_id h) (line_info n)] else []
      | None \<Rightarrow>
          if \<not> list_ex (\<lambda>h. hunks_overlap h n) olds then [HunkAdded path n]
          else let prev = (case find (\<lambda>h. hunk_id h = hunk_id n) olds of
                             Some h \<Rightarrow> Some h
                           | None \<Rightarrow> find (\<lambda>h. hunks_overlap h n) olds);
                   counts = (case prev of
                               Some h \<Rightarrow> (new_count (line_info h), old_count (line_info h))
                             | None \<Rightarrow> (0, 0))
               in [HunkContentChanged path n trigger (fst counts) (snd counts)])"

definition emit_hunk_diff_events :: "str \<Rightarrow> Hunk list \<Rightarrow> Hunk list \<Rightarrow> HunkSource \<Rightarrow> HunkEvent list" where
  "emit_hunk_diff_events path olds news trigger =
     removed_events path olds news @ concat (map (changed_event path olds trigger) news)"

definition recompute_hunks ::
  "'z tracker_env_scheme \<Rightarrow> str \<Rightarrow> FileContentState option \<Rightarrow> HunkSource \<Rightarrow> HunkTracker \<Rightarrow> HunkTracker" where
  "recompute_hunks E path new_current src a =
     (case tracked a path of
        None \<Rightarrow> a
      | Some st \<Rightarrow>
          let olds = hunks st;
              cur = (case new_current of Some c \<Rightarrow> c | None \<Rightarrow> Missing);
              news = inherit_hunks olds {} (diff_states E (ticks a) path (baseline st) cur src);
              ti = fold (\<lambda>h. index_remove (hunk_id h) (source h)) olds (turn_index a);
              ti' = fold (\<lambda>h. index_insert (hunk_id h) (source h)) news ti
          in next_tick (send_events (emit_hunk_diff_events path olds news src)
               ((put_file path (st\<lparr>current_content := cur, hunks := news\<rparr>) a)\<lparr>turn_index := ti'\<rparr>)))"

subsection \<open>Writes and file changes\<close>

definition strip_single_trailing_newline :: "str \<Rightarrow> str" where
  "strip_single_trailing_newline s =
     (case strip_suffix s [13, 10] of
        Some r \<Rightarrow> r
      | None \<Rightarrow> (case strip_suffix s [10] of Some r \<Rightarrow> r | None \<Rightarrow> s))"

definition new_file_state :: "FileContentState \<Rightarrow> FileContentState \<Rightarrow> bool \<Rightarrow> FileHunkState" where
  "new_file_state b c agent =
     \<lparr>baseline = b, current_content = c, hunks = [], is_agent_file = agent, baseline_accepted = False\<rparr>"

definition record_agent_write ::
  "'z tracker_env_scheme \<Rightarrow> str \<Rightarrow> str \<Rightarrow> nat \<Rightarrow> str option \<Rightarrow> HunkTracker \<Rightarrow> HunkTracker" where
  "record_agent_write E path content prompt previous a =
     (let cur = classify_string content; head = read_baseline E (ticks a) path
      in if \<not> is_diffable cur then
           (case tracked a path of
              None \<Rightarrow>
                send_events [FileAdded path True]
                  (put_file path
                    (new_file_state (case previous of Some p \<Rightarrow> classify_string p | None \<Rightarrow> head) cur True) (next_tick a))
            | Some st \<Rightarrow> put_file path (st\<lparr>is_agent_file := True, current_content := cur, hunks := []\<rparr>) a)
         else
           let a' = (case tracked a path of
                       None \<Rightarrow>
                         send_events [FileAdded path True]
                           (put_file path
                             (new_file_state
                               (if head = Missing
                                then (case previous of Some p \<Rightarrow> classify_string p | None \<Rightarrow> Missing) else head)
                               cur True) (next_tick a))
                     | Some st \<Rightarrow> put_file path (st\<lparr>is_agent_file := True\<rparr>) a)
           in recompute_hunks E path (Some cur) (AgentEdit prompt) a')"

definition relative_to_dir :: "HunkTracker \<Rightarrow> str \<Rightarrow> str" where
  "relative_to_dir a path = (case path_strip_prefix path (working_dir a) of Some r \<Rightarrow> r | None \<Rightarrow> path)"

definition in_dirty_cache :: "HunkTracker \<Rightarrow> str \<Rightarrow> bool" where
  "in_dirty_cache a path \<longleftrightarrow> relative_to_dir a path \<in> set (git_dirty_cache a)"

definition ignored_path :: "'z tracker_env_scheme \<Rightarrow> HunkTracker \<Rightarrow> str \<Rightarrow> FileContentState \<Rightarrow> bool" where
  "ignored_path E a path b \<longleftrightarrow>
     mode a = AllDirty \<and> b = Missing \<and> \<not> path_is_dir E (disk a) path \<and> \<not> in_dirty_cache a path"

fun content_matches_head :: "HunkTracker \<Rightarrow> str \<Rightarrow> FileContentState \<Rightarrow> FileContentState \<Rightarrow> bool" where
  "content_matches_head a path (Full c) (Full h) =
     (strip_single_trailing_newline c = strip_single_trailing_newline h)"
| "content_matches_head a path Missing Missing = True"
| "content_matches_head a path (Binary _) (Binary _) = True"
| "content_matches_head a path (TooLarge _) (TooLarge _) = True"
| "content_matches_head a path (LfsPointer _) (LfsPointer _) = True"
| "content_matches_head a path Symlink Symlink = True"
| "content_matches_head a path Symlink (Full _) = (\<not> in_dirty_cache a path)"
| "content_matches_head a path (Full _) Symlink = (\<not> in_dirty_cache a path)"
| "content_matches_head a path _ _ = False"

definition track_new_path ::
  "'z tracker_env_scheme \<Rightarrow> str \<Rightarrow> FileContentState \<Rightarrow> FileContentState \<Rightarrow> HunkTracker \<Rightarrow> HunkTracker" where
  "track_new_path E path head cur a =
     (if \<not> is_diffable cur then
        let b = (if mode a = AllDirty then head else Missing)
        in if ignored_path E a path b then a
           else let a' = send_events [FileAdded path False] (put_file path (new_file_state b cur False) a)
                in if is_diffable b then recompute_hunks E path None External a' else a'
      else if ignored_path E a path head then a
      else recompute_hunks E path (Some cur) External
             (send_events [FileAdded path False] (put_file path (new_file_state head Missing False) a)))"

definition edit_source :: "FileHunkState \<Rightarrow> HunkSource" where
  "edit_source st = (if is_agent_file st then ExternalEditOnAgentFile else External)"

definition process_file_change ::
  "'z tracker_env_scheme \<Rightarrow> str \<Rightarrow> FileContentState option \<Rightarrow> HunkTracker \<Rightarrow> HunkTracker" where
  "process_file_change E path preloaded a =
     (let cur = read_file_bounded E (ticks a) (disk a) path;
          head = (case preloaded of Some b \<Rightarrow> b | None \<Rightarrow> read_baseline E (ticks a) path)
      in case tracked a path of
           None \<Rightarrow> if mode a = AgentOnly then a else track_new_path E path head cur (next_tick a)
         | Some st \<Rightarrow>
             if baseline_accepted st \<and> content_matches_head a path cur head
             then put_file path
                    (st\<lparr>baseline := head, current_content := head, baseline_accepted := False, hunks := []\<rparr>) (next_tick a)
             else recompute_hunks E path (Some cur) (edit_source st) (next_tick a))"

definition handle_file_change :: "'z tracker_env_scheme \<Rightarrow> str \<Rightarrow> HunkTracker \<Rightarrow> HunkTracker" where
  "handle_file_change E path a = process_file_change E path None a"

definition handle_file_deleted :: "'z tracker_env_scheme \<Rightarrow> str \<Rightarrow> HunkTracker \<Rightarrow> HunkTracker" where
  "handle_file_deleted E path a =
     (case tracked a path of
        None \<Rightarrow>
          if mode a = AgentOnly \<or> path_exists E (disk a) path then a
          else let head = read_baseline E (ticks a) path
               in if head = Missing then next_tick a
                  else recompute_hunks E path None External
                         (send_events [FileAdded path False]
                           (put_file path (new_file_state head Missing False) (next_tick a)))
      | Some st \<Rightarrow>
          if path_exists E (disk a) path then handle_file_change E path a
          else recompute_hunks E path None (edit_source st) a)"

definition drop_hunks :: "str \<Rightarrow> Hunk list \<Rightarrow> HunkTracker \<Rightarrow> HunkTracker" where
  "drop_hunks path hs a =
     send_events (map (\<lambda>h. HunkRemoved path (hunk_id h) Superseded) hs)
       (a\<lparr>turn_index := fold (\<lambda>h. index_remove (hunk_id h) (source h)) hs (turn_index a)\<rparr>)"

definition reset_baseline :: "str \<Rightarrow> HunkTracker \<Rightarrow> HunkTracker" where
  "reset_baseline path a =
     (case tracked a path of
        None \<Rightarrow> a
      | Some st \<Rightarrow>
          send_events [BaselineUpdated path]
            (drop_hunks path (hunks st)
              (put_file path
                (st\<lparr>baseline := current_content st, baseline_accepted := False, hunks := []\<rparr>) a)))"

definition handle_file_changes_batch :: "'z tracker_env_scheme \<Rightarrow> str list \<Rightarrow> HunkTracker \<Rightarrow> HunkTracker" where
  "handle_file_changes_batch E paths a =
     (let needs_baseline = (\<lambda>p. case tracked a p of None \<Rightarrow> mode a = AllDirty | Some st \<Rightarrow> baseline_accepted st);
          baseline_paths = filter needs_baseline paths;
          baselines = (if baseline_paths = [] then (\<lambda>_. None)
                       else (\<lambda>p. if p \<in> set baseline_paths then read_baselines_batch E (ticks a) baseline_paths p else None))
      in if paths = [] then a
         else snd (fold (\<lambda>p (m, b). (m(p := None), process_file_change E p (m p) b)) paths (baselines, next_tick a)))"

text \<open>
  \<open>refresh_git_dirty_cache\<close>: the scan, of the whole work tree or of the given paths, gives the paths below the
  working directory with their staged mark. It gives nothing, and the caches stay, when it is known already that there is
  no repository or the task failed; a first discovery or a status that fails gives the empty list. In the mode for all
  dirty files the untracked ones are loaded.
\<close>

definition refresh_git_dirty_cache :: "'z tracker_env_scheme \<Rightarrow> str list option \<Rightarrow> HunkTracker \<Rightarrow> HunkTracker" where
  "refresh_git_dirty_cache E scope a =
     (case git_status E (ticks a) scope of
        None \<Rightarrow> next_tick a
      | Some items \<Rightarrow>
          let dirty = remdups (map fst items);
              fresh = filter (\<lambda>rel. tracked a (path_push (working_dir a) rel) = None) dirty;
              a' = (next_tick a)\<lparr>git_dirty_cache := dirty, git_staged_cache := remdups (map fst (filter snd items))\<rparr>
          in if mode a = AllDirty
             then fold (\<lambda>rel a. handle_file_change E (path_push (working_dir a) rel) a) fresh a'
             else a')"

definition drop_file :: "str \<Rightarrow> HunkTracker \<Rightarrow> HunkTracker" where
  "drop_file path a =
     (case tracked a path of
        None \<Rightarrow> a
      | Some st \<Rightarrow> send_events [FileRemoved path] (drop_hunks path (hunks st) (forget_file path a)))"

definition set_mode :: "'z tracker_env_scheme \<Rightarrow> TrackingMode \<Rightarrow> HunkTracker \<Rightarrow> HunkTracker" where
  "set_mode E m a =
     (let a' = a\<lparr>mode := m\<rparr>
      in if mode a = AgentOnly \<and> m = AllDirty then refresh_git_dirty_cache E None a'
         else if mode a = AllDirty \<and> m = AgentOnly
         then fold drop_file (map fst (filter (\<lambda>(_, st). \<not> is_agent_file st) (file_states a))) a'
         else a')"

subsection \<open>Queries\<close>

definition get_all_hunks :: "HunkTracker \<Rightarrow> Hunk list" where
  "get_all_hunks a = concat (map (hunks \<circ> snd) (file_states a))"

definition get_hunks_for_path :: "HunkTracker \<Rightarrow> str \<Rightarrow> Hunk list" where
  "get_hunks_for_path a path = (case tracked a path of Some st \<Rightarrow> hunks st | None \<Rightarrow> [])"

datatype HunkSourceFilter = AgentHunks | ExternalHunks

definition get_hunks_by_source :: "HunkTracker \<Rightarrow> HunkSourceFilter \<Rightarrow> Hunk list" where
  "get_hunks_by_source a f =
     filter (\<lambda>h. case f of AgentHunks \<Rightarrow> is_agent_edit (source h) | ExternalHunks \<Rightarrow> is_external (source h))
       (get_all_hunks a)"

definition get_hunk :: "HunkTracker \<Rightarrow> str \<Rightarrow> Hunk option" where
  "get_hunk a hid = find (\<lambda>h. hunk_id h = hid) (get_all_hunks a)"

definition get_hunks_for_turn :: "HunkTracker \<Rightarrow> nat \<Rightarrow> Hunk set" where
  "get_hunks_for_turn a p =
     (case turn_index a p of
        None \<Rightarrow> {}
      | Some ids \<Rightarrow> Option.these (get_hunk a ` ids))"

definition get_all_tracked_paths :: "HunkTracker \<Rightarrow> str list" where
  "get_all_tracked_paths a = map fst (file_states a)"

end
