(* ===== verification/Hunk_Actions.thy ===== *)
theory Hunk_Actions
  imports Hunk_Tracker
begin

text \<open>
  Accepting and rejecting hunks (\<^verbatim>\<open>actor/actions.rs\<close>): one hunk, all hunks of a file, of a turn, or of the
  tracker. Accepting changes the baseline, rejecting writes the file. An operation returns its result, with
  the error of the file system on the left, beside the new state. The files of a batch are taken in the order
  of the map of tracked files.
\<close>

datatype HunkAction = Accept | Reject

datatype HunkActionError =
    HunkNotFound str
  | WriteError str str
  | DeleteError str str
  | ReadError str str

definition count_word :: "nat \<Rightarrow> usize" where
  "count_word n = of_nat n"

definition update_session_stats :: "HunkLineInfo \<Rightarrow> bool \<Rightarrow> HunkTracker \<Rightarrow> HunkTracker" where
  "update_session_stats i accepted a =
     (let s = session_stats a
      in a\<lparr>session_stats :=
           (if accepted
            then s\<lparr>accepted_hunks := saturating_add (accepted_hunks s) 1,
                   accepted_lines_added := saturating_add (accepted_lines_added s) (count_word (new_count i)),
                   accepted_lines_removed := saturating_add (accepted_lines_removed s) (count_word (old_count i))\<rparr>
            else s\<lparr>rejected_hunks := saturating_add (rejected_hunks s) 1,
                   rejected_lines_added := saturating_add (rejected_lines_added s) (count_word (new_count i)),
                   rejected_lines_removed := saturating_add (rejected_lines_removed s) (count_word (old_count i))\<rparr>)\<rparr>)"

subsection \<open>Files\<close>

text \<open>
  A directory can be neither written nor removed, and only what is there can be removed. A write to a symbolic link
  goes to the file it points to, which is not followed; removing one removes the link.
\<close>

definition write_error :: "'z tracker_env_scheme \<Rightarrow> HunkTracker \<Rightarrow> str \<Rightarrow> (str \<times> fs_node option) option" where
  "write_error E a path =
     (case write_fails E (ticks a) path of
        Some failure \<Rightarrow> Some failure
      | None \<Rightarrow>
          (case disk a path of
             Some (DirNode n) \<Rightarrow> Some (lit ''Is a directory (os error 21)'', Some (DirNode n))
           | _ \<Rightarrow> None))"

definition remove_error :: "'z tracker_env_scheme \<Rightarrow> HunkTracker \<Rightarrow> str \<Rightarrow> str option" where
  "remove_error E a path =
     (case remove_fails E (ticks a) path of
        Some e \<Rightarrow> Some e
      | None \<Rightarrow>
          (case disk a path of
             None \<Rightarrow> Some (lit ''No such file or directory (os error 2)'')
           | Some (DirNode _) \<Rightarrow> Some (lit ''Is a directory (os error 21)'')
           | _ \<Rightarrow> None))"

definition written :: "fs_node option \<Rightarrow> str \<Rightarrow> fs_node" where
  "written node content = (if node = Some LinkNode then LinkNode else FileNode (utf8_bytes content))"

definition write_file :: "'z tracker_env_scheme \<Rightarrow> str \<Rightarrow> str \<Rightarrow> HunkTracker \<Rightarrow> (HunkActionError + unit) \<times> HunkTracker" where
  "write_file E path content a =
     (case write_error E a path of
        None \<Rightarrow> (Inr (), next_tick (a\<lparr>disk := (disk a)(path := Some (written (disk a path) content))\<rparr>))
      | Some (e, left) \<Rightarrow> (Inl (WriteError path e), next_tick (a\<lparr>disk := (disk a)(path := left)\<rparr>)))"

definition remove_file :: "'z tracker_env_scheme \<Rightarrow> str \<Rightarrow> HunkTracker \<Rightarrow> (HunkActionError + unit) \<times> HunkTracker" where
  "remove_file E path a =
     (case remove_error E a path of
        None \<Rightarrow> (Inr (), next_tick (a\<lparr>disk := (disk a)(path := None)\<rparr>))
      | Some e \<Rightarrow> (Inl (DeleteError path e), next_tick a))"

subsection \<open>One hunk\<close>

definition retain_other :: "str list \<Rightarrow> Hunk list \<Rightarrow> Hunk list" where
  "retain_other ids hs = filter (\<lambda>h. hunk_id h \<notin> set ids) hs"

definition accept_patch :: "Hunk \<Rightarrow> str \<Rightarrow> str" where
  "accept_patch h b = patch_lines b (old_start (line_info h)) (old_count (line_info h)) (new_text h)"

definition reject_patch :: "Hunk \<Rightarrow> str \<Rightarrow> str" where
  "reject_patch h c =
     patch_lines c (new_start (line_info h)) (new_count (line_info h))
       (case old_text h of Some s \<Rightarrow> s | None \<Rightarrow> [])"

fun patch_state :: "(str \<Rightarrow> str) \<Rightarrow> FileContentState \<Rightarrow> FileContentState" where
  "patch_state f (Full s) = Full (f s)"
| "patch_state f st = st"

definition remaining_source :: "str \<Rightarrow> HunkTracker \<Rightarrow> HunkSource" where
  "remaining_source path a =
     (case tracked a path of
        Some st \<Rightarrow> (case hunks st of h # _ \<Rightarrow> source h | [] \<Rightarrow> External)
      | None \<Rightarrow> External)"

definition accept_hunk :: "'z tracker_env_scheme \<Rightarrow> str \<Rightarrow> Hunk \<Rightarrow> HunkTracker \<Rightarrow> HunkTracker" where
  "accept_hunk E path h a =
     (case tracked a path of
        None \<Rightarrow> a
      | Some st \<Rightarrow>
          let sent = [HunkRemoved path (hunk_id h) Accepted, BaselineUpdated path];
              rest = retain_other [hunk_id h] (hunks st)
          in if baseline st = Missing
             then send_events sent
                    (put_file path (st\<lparr>baseline := current_content st, baseline_accepted := True, hunks := rest\<rparr>) a)
             else let a' = send_events sent
                        (put_file path
                          (st\<lparr>baseline := patch_state (accept_patch h) (baseline st), baseline_accepted := True,
                              hunks := rest\<rparr>) a)
                  in recompute_hunks E path (Some (current_content st)) (remaining_source path a') a')"

datatype RejectAction = RestoreDeleted str | DeleteCreated | RevertChange str | NoOp

fun reject_action :: "(str \<Rightarrow> str) \<Rightarrow> FileContentState \<Rightarrow> FileContentState \<Rightarrow> RejectAction" where
  "reject_action f (Full b) Missing = RestoreDeleted b"
| "reject_action f Missing (Full c) = DeleteCreated"
| "reject_action f _ (Full c) = RevertChange (f c)"
| "reject_action f _ _ = NoOp"

definition rejected_file :: "str \<Rightarrow> FileContentState \<Rightarrow> Hunk list \<Rightarrow> HunkTracker \<Rightarrow> HunkTracker" where
  "rejected_file path cur hs a =
     (case tracked a path of
        None \<Rightarrow> a
      | Some st \<Rightarrow>
          send_events (map (\<lambda>h. HunkRemoved path (hunk_id h) Rejected) hs)
            (put_file path (st\<lparr>current_content := cur, hunks := retain_other (map hunk_id hs) (hunks st)\<rparr>) a))"

definition reject_hunk ::
  "'z tracker_env_scheme \<Rightarrow> str \<Rightarrow> Hunk \<Rightarrow> HunkTracker \<Rightarrow> (HunkActionError + unit) \<times> HunkTracker" where
  "reject_hunk E path h a =
     (case tracked a path of
        None \<Rightarrow> (Inr (), a)
      | Some st \<Rightarrow>
          (case reject_action (reject_patch h) (baseline st) (current_content st) of
             RestoreDeleted b \<Rightarrow>
               (case write_file E path b a of
                  (Inl e, a') \<Rightarrow> (Inl e, a')
                | (Inr _, a') \<Rightarrow> (Inr (), rejected_file path (Full b) [h] a'))
           | DeleteCreated \<Rightarrow>
               (case remove_file E path a of
                  (Inl e, a') \<Rightarrow> (Inl e, a')
                | (Inr _, a') \<Rightarrow> (Inr (), rejected_file path Missing [h] a'))
           | RevertChange patched \<Rightarrow>
               (case write_file E path patched a of
                  (Inl e, a') \<Rightarrow> (Inl e, a')
                | (Inr _, a') \<Rightarrow>
                    let a'' = rejected_file path (Full patched) [h] a'
                    in (Inr (), recompute_hunks E path (Some (Full patched)) (remaining_source path a'') a''))
           | NoOp \<Rightarrow> (Inr (), a)))"

fun find_hunk_file :: "str \<Rightarrow> (str \<times> FileHunkState) list \<Rightarrow> (str \<times> Hunk) option" where
  "find_hunk_file hid [] = None"
| "find_hunk_file hid ((path, st) # fs) =
     (case find (\<lambda>h. hunk_id h = hid) (hunks st) of
        Some h \<Rightarrow> Some (path, h)
      | None \<Rightarrow> find_hunk_file hid fs)"

definition apply_hunk_action ::
  "'z tracker_env_scheme \<Rightarrow> str \<Rightarrow> HunkAction \<Rightarrow> HunkTracker \<Rightarrow> (HunkActionError + unit) \<times> HunkTracker" where
  "apply_hunk_action E hid action a =
     (case find_hunk_file hid (file_states a) of
        None \<Rightarrow> (Inl (HunkNotFound hid), a)
      | Some (path, h) \<Rightarrow>
          let a' = remove_from_turn_index hid (source h) (update_session_stats (line_info h) (action = Accept) a)
          in case action of
               Accept \<Rightarrow> (Inr (), accept_hunk E path h a')
             | Reject \<Rightarrow> reject_hunk E path h a')"

subsection \<open>Many hunks\<close>

definition accept_hunks_batch :: "'z tracker_env_scheme \<Rightarrow> str \<Rightarrow> Hunk list \<Rightarrow> HunkTracker \<Rightarrow> HunkTracker" where
  "accept_hunks_batch E path hs a =
     (if hs = [] then a
      else case tracked a path of
        None \<Rightarrow> a
      | Some st \<Rightarrow>
          let sent = map (\<lambda>h. HunkRemoved path (hunk_id h) Accepted) hs @ [BaselineUpdated path];
              rest = retain_other (map hunk_id hs) (hunks st)
          in if baseline st = Missing
             then send_events sent
                    (put_file path (st\<lparr>baseline := current_content st, baseline_accepted := True, hunks := rest\<rparr>) a)
             else let sorted_hunks = sort_key (\<lambda>h. - int (old_start (line_info h))) hs;
                      a' = send_events sent
                        (put_file path
                          (st\<lparr>baseline := fold (\<lambda>h. patch_state (accept_patch h)) sorted_hunks (baseline st),
                              baseline_accepted := True, hunks := rest\<rparr>) a)
                  in recompute_hunks E path (Some (current_content st)) (remaining_source path a') a')"

definition reject_hunks_batch ::
  "'z tracker_env_scheme \<Rightarrow> str \<Rightarrow> Hunk list \<Rightarrow> HunkTracker \<Rightarrow> (HunkActionError + unit) \<times> HunkTracker" where
  "reject_hunks_batch E path hs a =
     (if hs = [] then (Inr (), a)
      else case tracked a path of
        None \<Rightarrow> (Inr (), a)
      | Some st \<Rightarrow>
          let revert = fold reject_patch (sort_key (\<lambda>h. - int (new_start (line_info h))) hs)
          in case reject_action revert (baseline st) (current_content st) of
               RestoreDeleted b \<Rightarrow>
                 (case write_file E path b a of
                    (Inl e, a') \<Rightarrow> (Inl e, a')
                  | (Inr _, a') \<Rightarrow> (Inr (), rejected_file path (baseline st) hs a'))
             | DeleteCreated \<Rightarrow>
                 (case remove_file E path a of
                    (Inl e, a') \<Rightarrow> (Inl e, a')
                  | (Inr _, a') \<Rightarrow> (Inr (), rejected_file path Missing hs a'))
             | RevertChange current \<Rightarrow>
                 (case write_file E path current a of
                    (Inl e, a') \<Rightarrow> (Inl e, a')
                  | (Inr _, a') \<Rightarrow>
                      let a'' = rejected_file path (Full current) hs a'
                      in (Inr (), recompute_hunks E path (Some (Full current)) (remaining_source path a'') a''))
             | NoOp \<Rightarrow> (Inr (), a))"

definition count_hunk :: "HunkAction \<Rightarrow> Hunk \<Rightarrow> HunkTracker \<Rightarrow> HunkTracker" where
  "count_hunk action h a =
     remove_from_turn_index (hunk_id h) (source h) (update_session_stats (line_info h) (action = Accept) a)"

fun apply_action_batch ::
  "'z tracker_env_scheme \<Rightarrow> (str \<times> Hunk list) list \<Rightarrow> HunkAction \<Rightarrow> HunkTracker
     \<Rightarrow> (HunkActionError + str list) \<times> HunkTracker" where
  "apply_action_batch E [] action a = (Inr [], a)"
| "apply_action_batch E ((path, hs) # fs) action a =
     (let a1 = fold (count_hunk action) hs a;
          (r, a2) = (case action of
                       Accept \<Rightarrow> (Inr (), accept_hunks_batch E path hs a1)
                     | Reject \<Rightarrow> reject_hunks_batch E path hs a1)
      in case r of
           Inl e \<Rightarrow> (Inl e, a2)
         | Inr _ \<Rightarrow>
             (case apply_action_batch E fs action a2 of
                (Inl e, a3) \<Rightarrow> (Inl e, a3)
              | (Inr ids, a3) \<Rightarrow> (Inr (map hunk_id hs @ ids), a3)))"

definition apply_file_action ::
  "'z tracker_env_scheme \<Rightarrow> str \<Rightarrow> HunkAction \<Rightarrow> HunkTracker \<Rightarrow> (HunkActionError + str list) \<times> HunkTracker" where
  "apply_file_action E path action a =
     (case tracked a path of
        None \<Rightarrow> (Inr [], a)
      | Some st \<Rightarrow> if hunks st = [] then (Inr [], a) else apply_action_batch E [(path, hunks st)] action a)"

definition apply_all_action ::
  "'z tracker_env_scheme \<Rightarrow> HunkAction \<Rightarrow> HunkTracker \<Rightarrow> (HunkActionError + str list) \<times> HunkTracker" where
  "apply_all_action E action a =
     apply_action_batch E
       (map (\<lambda>(path, st). (path, hunks st)) (filter (\<lambda>(_, st). hunks st \<noteq> []) (file_states a))) action a"

definition turn_hunks :: "nat \<Rightarrow> FileHunkState \<Rightarrow> Hunk list" where
  "turn_hunks p st = filter (\<lambda>h. prompt_index (source h) = Some p) (hunks st)"

definition apply_turn_action ::
  "'z tracker_env_scheme \<Rightarrow> nat \<Rightarrow> HunkAction \<Rightarrow> HunkTracker \<Rightarrow> (HunkActionError + str list) \<times> HunkTracker" where
  "apply_turn_action E p action a =
     apply_action_batch E
       (map (\<lambda>(path, st). (path, turn_hunks p st)) (filter (\<lambda>(_, st). turn_hunks p st \<noteq> []) (file_states a))) action a"

end
