(* ===== verification/Hunk_Refresh.thy ===== *)
theory Hunk_Refresh
  imports Hunk_Actions
begin

text \<open>
  The rest of the hunk tracker: the refresh of all baselines after the repository moved
  (\<open>refresh_all_baselines_except\<close>), the commands of the actor and the merging of queued notifications
  (\<^verbatim>\<open>actor/mod.rs\<close>), snapshots and their paths, the move of the working directory, the views of a file and the
  summary of a session (\<^verbatim>\<open>actor/queries.rs\<close>, \<^verbatim>\<open>types.rs\<close>).
\<close>

declare lit_Cons [simp del]

subsection \<open>Refresh\<close>

fun is_clean :: "'z tracker_env_scheme \<Rightarrow> HunkTracker \<Rightarrow> str \<Rightarrow> FileContentState \<Rightarrow> FileContentState \<Rightarrow> bool" where
  "is_clean E a path (Full b) (Full c) = (strip_single_trailing_newline b = strip_single_trailing_newline c)"
| "is_clean E a path (Binary _) (Binary _) = (\<not> in_dirty_cache a path)"
| "is_clean E a path (TooLarge _) (TooLarge _) = (\<not> in_dirty_cache a path)"
| "is_clean E a path Symlink Symlink = (\<not> in_dirty_cache a path)"
| "is_clean E a path (LfsPointer _) _ = (\<not> in_dirty_cache a path)"
| "is_clean E a path _ (LfsPointer _) = (\<not> in_dirty_cache a path)"
| "is_clean E a path Symlink (Full _) = (\<not> in_dirty_cache a path)"
| "is_clean E a path (Full _) Symlink = (\<not> in_dirty_cache a path)"
| "is_clean E a path Missing Missing = (\<not> path_exists E (disk a) path)"
| "is_clean E a path Missing _ = (\<not> in_dirty_cache a path)"
| "is_clean E a path _ _ = False"

definition refresh_file ::
  "'z tracker_env_scheme \<Rightarrow> (str \<Rightarrow> FileContentState) \<Rightarrow> (str \<Rightarrow> FileContentState) \<Rightarrow> str \<Rightarrow> HunkTracker \<Rightarrow> HunkTracker" where
  "refresh_file E baselines currents path a =
     (case tracked a path of
        None \<Rightarrow> a
      | Some old \<Rightarrow>
          let st = old\<lparr>baseline := baselines path, current_content := currents path, baseline_accepted := False\<rparr>;
              a1 = put_file path st a
          in if is_clean E a path (baseline st) (current_content st) \<and> \<not> is_agent_file st
             then send_events [FileRemoved path] (drop_hunks path (hunks st) (forget_file path a1))
             else if is_clean E a path (baseline st) (current_content st)
             then send_events [BaselineUpdated path] (drop_hunks path (hunks st) (put_file path (st\<lparr>hunks := []\<rparr>) a1))
             else send_events [BaselineUpdated path]
                    (recompute_hunks E path (Some (current_content st)) (edit_source st) a1))"

definition refresh_scope :: "HunkTracker \<Rightarrow> str list option" where
  "refresh_scope a =
     (case mode a of
        AllDirty \<Rightarrow> None
      | AgentOnly \<Rightarrow> Some (List.map_filter (\<lambda>(p, _). path_strip_prefix p (working_dir a)) (file_states a)))"

definition refresh_caches :: "'z tracker_env_scheme \<Rightarrow> HunkTracker \<Rightarrow> HunkTracker" where
  "refresh_caches E a =
     (if refresh_scope a = Some [] then a\<lparr>git_dirty_cache := [], git_staged_cache := []\<rparr>
      else refresh_git_dirty_cache E (refresh_scope a) a)"

definition or_missing :: "FileContentState option \<Rightarrow> FileContentState" where
  "or_missing s = (case s of Some c \<Rightarrow> c | None \<Rightarrow> Missing)"

definition refresh_files :: "'z tracker_env_scheme \<Rightarrow> str list \<Rightarrow> HunkTracker \<Rightarrow> HunkTracker" where
  "refresh_files E skip a =
     (let paths = filter (\<lambda>p. p \<notin> set skip) (map fst (file_states a));
          t = ticks a;
          baselines = (\<lambda>p. or_missing (read_baselines_batch E t paths p));
          currents = (\<lambda>p. if parallel_read E t p then read_file_bounded E t (disk a) p else Missing)
      in fold (refresh_file E baselines currents) paths (next_tick a))"

definition refresh_all_baselines_except :: "'z tracker_env_scheme \<Rightarrow> str list \<Rightarrow> HunkTracker \<Rightarrow> HunkTracker" where
  "refresh_all_baselines_except E skip a =
     (if mode a = AgentOnly \<and> file_states a = [] then a
      else case read_sync_state E (ticks a) of
        Some s \<Rightarrow>
          if s = repo_sync_state a then next_tick a
          else refresh_files E skip (refresh_caches E ((next_tick a)\<lparr>repo_sync_state := s\<rparr>))
      | None \<Rightarrow> refresh_files E skip (refresh_caches E (next_tick a)))"

definition refresh_all_baselines :: "'z tracker_env_scheme \<Rightarrow> HunkTracker \<Rightarrow> HunkTracker" where
  "refresh_all_baselines E a = refresh_all_baselines_except E [] a"

subsection \<open>Commands\<close>

text \<open>
  The commands that change the state, and writes to the disk by others between them. Queries leave the state alone;
  the move of the working directory and the restoring of a snapshot are below.
\<close>

datatype hunk_call =
    RecordAgentWrite str str nat "str option"
  | FileChange str
  | FileDeletion str
  | ResetBaseline str
  | SetMode TrackingMode
  | RefreshDirty
  | RefreshAll
  | ActHunk str HunkAction
  | ActFile str HunkAction
  | ActAll HunkAction
  | ActTurn nat HunkAction
  | ResetStats
  | DiskChange fs

fun run_call :: "'z tracker_env_scheme \<Rightarrow> hunk_call \<Rightarrow> HunkTracker \<Rightarrow> HunkTracker" where
  "run_call E (RecordAgentWrite path content p prev) a = record_agent_write E path content p prev a"
| "run_call E (FileChange path) a = handle_file_change E path a"
| "run_call E (FileDeletion path) a = handle_file_deleted E path a"
| "run_call E (ResetBaseline path) a = reset_baseline path a"
| "run_call E (SetMode m) a = set_mode E m a"
| "run_call E RefreshDirty a = refresh_git_dirty_cache E None a"
| "run_call E RefreshAll a = refresh_all_baselines E a"
| "run_call E (ActHunk hid act) a = snd (apply_hunk_action E hid act a)"
| "run_call E (ActFile path act) a = snd (apply_file_action E path act a)"
| "run_call E (ActAll act) a = snd (apply_all_action E act a)"
| "run_call E (ActTurn p act) a = snd (apply_turn_action E p act a)"
| "run_call E ResetStats a = a\<lparr>session_stats := stats_default\<rparr>"
| "run_call E (DiskChange d) a = a\<lparr>disk := d\<rparr>"

subsection \<open>Merged notifications\<close>

datatype CoalescedPathAction = Changed | Deleted | DeletedThenChanged

datatype HunkCommand =
    HandleFileChange str
  | HandleFileDeleted str
  | RefreshAllBaselines
  | RefreshGitDirtyCache
  | OtherCommand hunk_call

record CoalescedBatch =
  file_actions :: "(str \<times> CoalescedPathAction) list"
  refresh_all :: bool
  refresh_dirty :: bool
  other_commands :: "hunk_call list"
  command_count :: nat

definition batch_new :: CoalescedBatch where
  "batch_new = \<lparr>file_actions = [], refresh_all = False, refresh_dirty = False, other_commands = [], command_count = 0\<rparr>"

fun batch_entry :: "HunkCommand \<Rightarrow> CoalescedBatch \<Rightarrow> CoalescedBatch" where
  "batch_entry (HandleFileChange path) b =
     b\<lparr>file_actions := AList.update path
         (case map_of (file_actions b) path of
            None \<Rightarrow> Changed
          | Some Deleted \<Rightarrow> DeletedThenChanged
          | Some act \<Rightarrow> act) (file_actions b)\<rparr>"
| "batch_entry (HandleFileDeleted path) b = b\<lparr>file_actions := AList.update path Deleted (file_actions b)\<rparr>"
| "batch_entry RefreshAllBaselines b = b\<lparr>refresh_all := True\<rparr>"
| "batch_entry RefreshGitDirtyCache b = b\<lparr>refresh_dirty := True\<rparr>"
| "batch_entry (OtherCommand c) b = b\<lparr>other_commands := other_commands b @ [c]\<rparr>"

definition batch_add :: "HunkCommand \<Rightarrow> CoalescedBatch \<Rightarrow> CoalescedBatch" where
  "batch_add cmd b = batch_entry cmd (b\<lparr>command_count := command_count b + 1\<rparr>)"

definition drain_and_coalesce :: "HunkCommand \<Rightarrow> HunkCommand list \<Rightarrow> CoalescedBatch" where
  "drain_and_coalesce first queued = fold batch_add queued (batch_add first batch_new)"

fun is_coalescable :: "HunkCommand \<Rightarrow> bool" where
  "is_coalescable (OtherCommand _) = False"
| "is_coalescable _ = True"

fun before_refresh :: "'z tracker_env_scheme \<Rightarrow> str \<times> CoalescedPathAction \<Rightarrow> str list \<times> HunkTracker \<Rightarrow> str list \<times> HunkTracker" where
  "before_refresh E (path, Deleted) (processed, a) =
     (processed, if tracked a path \<noteq> None then handle_file_deleted E path a else a)"
| "before_refresh E (path, _) (processed, a) =
     (if tracked a path = None then (path # processed, handle_file_change E path a) else (processed, a))"

definition handle_coalesced_batch :: "'z tracker_env_scheme \<Rightarrow> CoalescedBatch \<Rightarrow> HunkTracker \<Rightarrow> HunkTracker" where
  "handle_coalesced_batch E b a =
     (let a1 = (if refresh_dirty b \<and> \<not> refresh_all b then refresh_git_dirty_cache E None a else a);
          a2 = (if refresh_all b
                then (case fold (before_refresh E) (file_actions b) ([], a1) of
                        (processed, c) \<Rightarrow> refresh_all_baselines_except E processed c)
                else let gone = map fst (filter (\<lambda>(_, act). act = Deleted) (file_actions b));
                         changed = map fst (filter (\<lambda>(_, act). act \<noteq> Deleted) (file_actions b))
                     in handle_file_changes_batch E changed (fold (handle_file_deleted E) gone a1))
      in fold (run_call E) (other_commands b) a2)"

text \<open>The start of the actor, and one turn of its loop.\<close>

definition actor_start :: "'z tracker_env_scheme \<Rightarrow> HunkTracker \<Rightarrow> HunkTracker" where
  "actor_start E a = (if mode a = AllDirty then refresh_git_dirty_cache E None a else a)"

fun handle_command :: "'z tracker_env_scheme \<Rightarrow> HunkCommand \<Rightarrow> HunkTracker \<Rightarrow> HunkTracker" where
  "handle_command E (HandleFileChange path) a = run_call E (FileChange path) a"
| "handle_command E (HandleFileDeleted path) a = run_call E (FileDeletion path) a"
| "handle_command E RefreshAllBaselines a = run_call E RefreshAll a"
| "handle_command E RefreshGitDirtyCache a = run_call E RefreshDirty a"
| "handle_command E (OtherCommand c) a = run_call E c a"

definition actor_turn :: "'z tracker_env_scheme \<Rightarrow> HunkCommand \<Rightarrow> HunkCommand list \<Rightarrow> HunkTracker \<Rightarrow> HunkCommand list \<times> HunkTracker" where
  "actor_turn E cmd queued a =
     (if is_coalescable cmd then ([], handle_coalesced_batch E (drain_and_coalesce cmd queued) a)
      else (queued, handle_command E cmd a))"

subsection \<open>Snapshots\<close>

record HunkTrackerSnapshot =
  snap_files :: "(str \<times> FileHunkState) list"
  snap_turns :: "nat \<Rightarrow> str set option"
  snap_stats :: SessionStats

definition take_snapshot :: "HunkTracker \<Rightarrow> HunkTrackerSnapshot" where
  "take_snapshot a = \<lparr>snap_files = file_states a, snap_turns = turn_index a, snap_stats = session_stats a\<rparr>"

definition restore_snapshot :: "HunkTrackerSnapshot \<Rightarrow> HunkTracker \<Rightarrow> HunkTracker" where
  "restore_snapshot s a =
     a\<lparr>file_states := snap_files s, turn_index := snap_turns s, session_stats := snap_stats s\<rparr>"

text \<open>The part of the state that belongs to one turn.\<close>

record HunkTurnDelta =
  delta_prompt :: nat
  delta_files :: "(str \<times> FileHunkState) list"
  delta_ids :: "str set"

definition take_turn_delta :: "HunkTracker \<Rightarrow> nat \<Rightarrow> HunkTurnDelta" where
  "take_turn_delta a p =
     (let ids = (case turn_index a p of Some s \<Rightarrow> s | None \<Rightarrow> {})
      in \<lparr>delta_prompt = p,
          delta_files = filter (\<lambda>(_, st). list_ex (\<lambda>h. hunk_id h \<in> ids) (hunks st)) (file_states a),
          delta_ids = ids\<rparr>)"

definition rewrite_single_path :: "str \<Rightarrow> str \<Rightarrow> str \<Rightarrow> str \<Rightarrow> str option" where
  "rewrite_single_path path old_cwd canonical_old new_cwd =
     map_option (path_push new_cwd)
       (case path_strip_prefix path canonical_old of
          Some rel \<Rightarrow> Some rel
        | None \<Rightarrow> path_strip_prefix path old_cwd)"

definition rekey_state :: "str \<Rightarrow> FileHunkState \<Rightarrow> FileHunkState" where
  "rekey_state path st = st\<lparr>hunks := map (\<lambda>h. h\<lparr>hunk_path := path\<rparr>) (hunks st)\<rparr>"

definition rewrite_paths :: "str \<Rightarrow> str \<Rightarrow> str \<Rightarrow> HunkTrackerSnapshot \<Rightarrow> HunkTrackerSnapshot" where
  "rewrite_paths old_cwd canonical_old new_cwd s =
     s\<lparr>snap_files :=
        fold (\<lambda>(path, st) fs.
                let target = (case rewrite_single_path path old_cwd canonical_old new_cwd of Some p \<Rightarrow> p | None \<Rightarrow> path)
                in AList.update target (rekey_state target st) fs) (snap_files s) []\<rparr>"

subsection \<open>The move of the working directory\<close>

definition path_starts_with :: "str \<Rightarrow> str \<Rightarrow> bool" where
  "path_starts_with path base \<longleftrightarrow> path_strip_prefix path base \<noteq> None"

definition rebase_path :: "str \<Rightarrow> str \<Rightarrow> str \<Rightarrow> str" where
  "rebase_path old new_cwd path =
     (if path_starts_with path new_cwd then path
      else case rewrite_single_path path old old new_cwd of Some p \<Rightarrow> p | None \<Rightarrow> path)"

definition rekey_insert :: "str \<Rightarrow> str \<Rightarrow> str \<times> FileHunkState \<Rightarrow> (str \<times> FileHunkState) list \<Rightarrow> (str \<times> FileHunkState) list" where
  "rekey_insert old new_cwd = (\<lambda>(path, st) fs.
     let p = rebase_path old new_cwd path
     in AList.update p (rekey_state p st) fs)"

definition rekey_merge :: "str \<Rightarrow> str \<Rightarrow> str \<times> FileHunkState \<Rightarrow> (str \<times> FileHunkState) list \<Rightarrow> (str \<times> FileHunkState) list" where
  "rekey_merge old new_cwd = (\<lambda>(path, st) fs.
     let p = rebase_path old new_cwd path; st' = rekey_state p st
     in case map_of fs p of
          None \<Rightarrow> AList.update p st' fs
        | Some dest \<Rightarrow>
            AList.update p
              (dest\<lparr>hunks := hunks dest @ hunks st', is_agent_file := is_agent_file dest \<or> is_agent_file st',
                    baseline_accepted := baseline_accepted dest \<or> baseline_accepted st'\<rparr>) fs)"

definition rekey_paths_for_working_dir :: "str \<Rightarrow> HunkTracker \<Rightarrow> HunkTracker" where
  "rekey_paths_for_working_dir new_cwd a =
     (if new_cwd = working_dir a then a
      else let old = working_dir a;
               already = filter (\<lambda>(path, _). path_starts_with path new_cwd) (file_states a);
               rewritten = filter (\<lambda>(path, _). \<not> path_starts_with path new_cwd) (file_states a)
           in a\<lparr>file_states := fold (rekey_merge old new_cwd) rewritten (fold (rekey_insert old new_cwd) already []),
                git_dirty_cache := remdups (map (rebase_path old new_cwd) (git_dirty_cache a)),
                git_staged_cache := remdups (map (rebase_path old new_cwd) (git_staged_cache a))\<rparr>)"

definition set_working_dir :: "str \<Rightarrow> HunkTracker \<Rightarrow> HunkTracker" where
  "set_working_dir new_cwd a =
     (rekey_paths_for_working_dir new_cwd a)
       \<lparr>working_dir := new_cwd, repo_sync_state := \<lparr>head_oid = None, index_mtime = None\<rparr>\<rparr>"

subsection \<open>Views\<close>

datatype FileContentStatus = StatusMissing | StatusBinary | StatusTooLarge | StatusLfsPointer | StatusSymlink | StatusFull

record FileContentView =
  status :: FileContentStatus
  view_len :: "nat option"
  view_content :: "str option"

fun from_content_state :: "FileContentState \<Rightarrow> FileContentView" where
  "from_content_state Missing = \<lparr>status = StatusMissing, view_len = None, view_content = None\<rparr>"
| "from_content_state (Binary n) = \<lparr>status = StatusBinary, view_len = n, view_content = None\<rparr>"
| "from_content_state (TooLarge n) = \<lparr>status = StatusTooLarge, view_len = Some n, view_content = None\<rparr>"
| "from_content_state (LfsPointer n) = \<lparr>status = StatusLfsPointer, view_len = Some n, view_content = None\<rparr>"
| "from_content_state Symlink = \<lparr>status = StatusSymlink, view_len = None, view_content = None\<rparr>"
| "from_content_state (Full s) = \<lparr>status = StatusFull, view_len = Some (str_len s), view_content = Some s\<rparr>"

record FileContentEntry =
  entry_path :: str
  entry_baseline :: FileContentView
  entry_current :: FileContentView
  entry_agent :: bool
  entry_staged :: bool

definition get_all_file_contents :: "HunkTracker \<Rightarrow> FileContentEntry list" where
  "get_all_file_contents a =
     map (\<lambda>(path, st).
            \<lparr>entry_path = path, entry_baseline = from_content_state (baseline st),
             entry_current = from_content_state (current_content st), entry_agent = is_agent_file st,
             entry_staged = relative_to_dir a path \<in> set (git_staged_cache a)\<rparr>) (file_states a)"

definition get_staged_files :: "HunkTracker \<Rightarrow> str list" where
  "get_staged_files a = map (path_push (working_dir a)) (git_staged_cache a)"

text \<open>The patch of a hunk; \<open>None\<close> outside when printing it panics.\<close>

definition patched_hunk :: "FileHunkState \<Rightarrow> Hunk \<Rightarrow> Hunk option" where
  "patched_hunk st h =
     (let put = map_option (\<lambda>p. h\<lparr>hunk_patch := Some p\<rparr>)
      in case (content_str (baseline st), content_str (current_content st)) of
           (Some b, Some c) \<Rightarrow> put (generate_hunk_patch b c h)
         | (None, Some c) \<Rightarrow> put (generate_hunk_patch [] c h)
         | (Some b, None) \<Rightarrow> put (generate_hunk_patch b [] h)
         | (None, None) \<Rightarrow> Some (h\<lparr>hunk_patch := None\<rparr>))"

record FileHunkData =
  data_hunks :: "Hunk list"
  data_baseline :: FileContentView
  data_current :: FileContentView

definition get_file_hunk_data :: "HunkTracker \<Rightarrow> str \<Rightarrow> FileHunkData option" where
  "get_file_hunk_data a path =
     (case tracked a path of
        None \<Rightarrow> Some \<lparr>data_hunks = [], data_baseline = from_content_state Missing, data_current = from_content_state Missing\<rparr>
      | Some st \<Rightarrow>
          (let hs = map (patched_hunk st) (hunks st)
           in if None \<in> set hs then None
              else Some \<lparr>data_hunks = map the hs, data_baseline = from_content_state (baseline st),
                         data_current = from_content_state (current_content st)\<rparr>))"

subsection \<open>Summary of a session\<close>

record TurnSummary =
  turn_prompt :: nat
  turn_files :: "str list"
  pending :: "Hunk list"
  lines_added :: nat
  lines_removed :: nat

record SessionSummary =
  summary_stats :: SessionStats
  turns :: "TurnSummary list"
  files_modified :: nat
  files_with_pending :: nat
  pending_hunks :: nat
  pending_lines_added :: nat
  pending_lines_removed :: nat
  unattributed_pending :: nat

definition hunks_of_turn :: "HunkTracker \<Rightarrow> nat \<Rightarrow> Hunk list" where
  "hunks_of_turn a p = concat (map (\<lambda>(_, st). turn_hunks p st) (file_states a))"

definition turn_summary :: "HunkTracker \<Rightarrow> nat \<Rightarrow> TurnSummary" where
  "turn_summary a p =
     (let hs = hunks_of_turn a p
      in \<lparr>turn_prompt = p, turn_files = map fst (filter (\<lambda>(_, st). turn_hunks p st \<noteq> []) (file_states a)), pending = hs,
          lines_added = sum_list (map (\<lambda>h. new_count (line_info h)) hs),
          lines_removed = sum_list (map (\<lambda>h. old_count (line_info h)) hs)\<rparr>)"

definition agent_prompts :: "HunkTracker \<Rightarrow> nat list" where
  "agent_prompts a = sort (remdups (List.map_filter (\<lambda>h. prompt_index (source h)) (get_all_hunks a)))"

definition compute_session_summary :: "HunkTracker \<Rightarrow> SessionSummary" where
  "compute_session_summary a =
     (let ts = map (turn_summary a) (agent_prompts a);
          agent_files = length (filter (\<lambda>(_, st). list_ex (\<lambda>h. prompt_index (source h) \<noteq> None) (hunks st)) (file_states a))
      in \<lparr>summary_stats = session_stats a, turns = ts, files_modified = agent_files, files_with_pending = agent_files,
          pending_hunks = sum_list (map (\<lambda>t. length (pending t)) ts),
          pending_lines_added = sum_list (map lines_added ts),
          pending_lines_removed = sum_list (map lines_removed ts),
          unattributed_pending = length (filter (\<lambda>h. prompt_index (source h) = None) (get_all_hunks a))\<rparr>)"

end
