(* ===== verification/Hunk_Laws.thy ===== *)
theory Hunk_Laws
  imports Hunk_Patch Hunk_Refresh
begin

text \<open>
  Laws of the hunk tracker. Every state the actor can reach shows, for each file, the diff of its baseline
  and its current content, and no two hunks have the same identifier. The invariant is kept by each operation
  on a file; a locale lifts such an invariant to batches of files and to every call of the actor.
\<close>

subsection \<open>State updates\<close>

named_theorems tracker_simps "how the parts of the tracker change under its updates"

lemma tracked_put_file [tracker_simps]: "tracked (put_file p st a) = (tracked a)(p \<mapsto> st)"
  by (auto simp: tracked_def put_file_def update_conv')

lemma tracked_forget [tracker_simps]: "tracked (forget_file p a) = (tracked a)(p := None)"
  by (rule ext) (simp add: tracked_def forget_file_def delete_conv')

lemma tracked_others [tracker_simps]:
  "tracked (send_events es a) = tracked a" "tracked (next_tick a) = tracked a"
  "tracked (a\<lparr>turn_index := ti\<rparr>) = tracked a" "tracked (a\<lparr>disk := d\<rparr>) = tracked a"
  "tracked (remove_from_turn_index hid src a) = tracked a" "tracked (update_session_stats i acc a) = tracked a"
  "tracked (a\<lparr>mode := m\<rparr>) = tracked a"
  by (simp_all add: tracked_def send_events_def next_tick_def remove_from_turn_index_def update_session_stats_def Let_def
      fun_eq_iff)

lemma ticks_updates [tracker_simps]:
  "ticks (put_file p st a) = ticks a" "ticks (forget_file p a) = ticks a" "ticks (send_events es a) = ticks a"
  "ticks (next_tick a) = Suc (ticks a)" "ticks (remove_from_turn_index hid src a) = ticks a"
  "ticks (update_session_stats i acc a) = ticks a"
  by (simp_all add: put_file_def forget_file_def send_events_def next_tick_def remove_from_turn_index_def
      update_session_stats_def Let_def)

lemma disk_updates [tracker_simps]:
  "disk (put_file p st a) = disk a" "disk (forget_file p a) = disk a" "disk (send_events es a) = disk a"
  "disk (next_tick a) = disk a" "disk (remove_from_turn_index hid src a) = disk a"
  "disk (update_session_stats i acc a) = disk a"
  by (simp_all add: put_file_def forget_file_def send_events_def next_tick_def remove_from_turn_index_def
      update_session_stats_def Let_def)

definition keyed :: "HunkTracker \<Rightarrow> bool" where
  "keyed a \<longleftrightarrow> distinct (map fst (file_states a))"

lemma keyed_updates [tracker_simps]:
  "keyed a \<Longrightarrow> keyed (put_file p st a)" "keyed a \<Longrightarrow> keyed (forget_file p a)"
  "keyed (send_events es a) = keyed a" "keyed (next_tick a) = keyed a"
  "keyed (a\<lparr>turn_index := ti\<rparr>) = keyed a" "keyed (a\<lparr>disk := d\<rparr>) = keyed a"
  "keyed (remove_from_turn_index hid src a) = keyed a" "keyed (update_session_stats i acc a) = keyed a"
  "keyed (a\<lparr>mode := m\<rparr>) = keyed a"
  by (simp_all add: keyed_def put_file_def forget_file_def send_events_def next_tick_def remove_from_turn_index_def
      update_session_stats_def Let_def distinct_update distinct_delete)

lemma keyed_tracked: "keyed a \<Longrightarrow> (p, st) \<in> set (file_states a) \<longleftrightarrow> tracked a p = Some st"
  by (simp add: keyed_def tracked_def)

lemma map_fst_selection: "map fst (map (\<lambda>(p, st). (p, f st)) fs) = map fst fs"
  by (induction fs) auto

lemma keyed_selection: "keyed a \<Longrightarrow> distinct (map fst (map (\<lambda>(p, st). (p, f st)) (filter P (file_states a))))"
  unfolding map_fst_selection keyed_def by (rule distinct_map_filter)

subsection \<open>Recomputed files\<close>

definition current_of :: "FileContentState option \<Rightarrow> FileContentState" where
  "current_of c = (case c of Some s \<Rightarrow> s | None \<Rightarrow> Missing)"

definition recomputed :: "'z tracker_env_scheme \<Rightarrow> nat \<Rightarrow> str \<Rightarrow> FileContentState option \<Rightarrow> HunkSource \<Rightarrow> FileHunkState \<Rightarrow> FileHunkState" where
  "recomputed E t path c src st =
     st\<lparr>current_content := current_of c,
        hunks := inherit_hunks (hunks st) {} (diff_states E t path (baseline st) (current_of c) src)\<rparr>"

lemma recompute_tracked [tracker_simps]:
  "tracked (recompute_hunks E path c src a) =
     (case tracked a path of
        None \<Rightarrow> tracked a
      | Some st \<Rightarrow> (tracked a)(path \<mapsto> recomputed E (ticks a) path c src st))"
  by (simp add: recompute_hunks_def recomputed_def current_of_def tracker_simps Let_def split: option.split)

lemma recompute_frame [tracker_simps]:
  "disk (recompute_hunks E path c src a) = disk a"
  "ticks (recompute_hunks E path c src a) = (if tracked a path = None then ticks a else Suc (ticks a))"
  "keyed a \<Longrightarrow> keyed (recompute_hunks E path c src a)"
  by (simp_all add: recompute_hunks_def tracker_simps Let_def split: option.split)

definition hunk_shape :: "Hunk \<Rightarrow> HunkLineInfo \<times> str option \<times> str" where
  "hunk_shape h = (line_info h, old_text h, new_text h)"

lemma inherit_shape [simp]: "map hunk_shape (inherit_hunks olds cl hs) = map hunk_shape hs"
  and inherit_path [simp]: "map hunk_path (inherit_hunks olds cl hs) = map hunk_path hs"
  by (induction olds cl hs rule: inherit_hunks.induct) (auto simp: hunk_shape_def split: option.splits)

text \<open>
  The hunks of a file are those of a diff of its two contents. A file may also show none: the diff timed out, or
  a refresh found it clean but for a final line feed.
\<close>

definition in_sync :: "'z tracker_env_scheme \<Rightarrow> str \<Rightarrow> FileHunkState \<Rightarrow> bool" where
  "in_sync E path st \<longleftrightarrow> hunks st = [] \<or>
     (\<exists>t src. map hunk_shape (hunks st) = map hunk_shape (diff_states E t path (baseline st) (current_content st) src))"

lemma recomputed_contents [tracker_simps]:
  "baseline (recomputed E t path c src st) = baseline st"
  "current_content (recomputed E t path c src st) = current_of c"
  "current_of (Some x) = x" "current_of None = Missing"
  by (simp_all add: recomputed_def current_of_def)

lemma in_sync_recomputed: "in_sync E path (recomputed E t path c src st)"
  by (auto simp: in_sync_def recomputed_def)

lemma diff_states_same: "diff_states E t path s s src = []"
  by (cases s) (simp_all add: compute_hunks_def)

lemma in_sync_empty: "hunks st = [] \<Longrightarrow> in_sync E path st"
  by (simp add: in_sync_def)

lemma in_sync_whole:
  assumes "in_sync E path st" and "baseline st = Missing \<or> current_content st = Missing"
  shows "length (hunks st) \<le> 1"
proof (cases "hunks st = []")
  case False
  then obtain t src where "map hunk_shape (hunks st) = map hunk_shape (diff_states E t path (baseline st) (current_content st) src)"
    using assms(1) unfolding in_sync_def by blast
  then have "length (hunks st) = length (diff_states E t path (baseline st) (current_content st) src)"
    by (metis length_map)
  with assms(2) show ?thesis by (cases "baseline st"; cases "current_content st") auto
qed simp

subsection \<open>Files stay in step\<close>

definition synced :: "'z tracker_env_scheme \<Rightarrow> HunkTracker \<Rightarrow> bool" where
  "synced E a \<longleftrightarrow> (\<forall>p st. tracked a p = Some st \<longrightarrow> in_sync E p st)"

lemma synced_updates [tracker_simps]:
  "synced E (send_events es a) = synced E a" "synced E (next_tick a) = synced E a"
  "synced E (a\<lparr>turn_index := ti\<rparr>) = synced E a" "synced E (a\<lparr>disk := d\<rparr>) = synced E a"
  "synced E (remove_from_turn_index hid src a) = synced E a" "synced E (update_session_stats i acc a) = synced E a"
  "synced E (a\<lparr>mode := m\<rparr>) = synced E a"
  by (simp_all add: synced_def tracker_simps)

lemma synced_put: "synced E a \<Longrightarrow> in_sync E p st \<Longrightarrow> synced E (put_file p st a)"
  by (simp add: synced_def tracker_simps)

lemma synced_forget: "synced E a \<Longrightarrow> synced E (forget_file p a)"
  by (simp add: synced_def tracker_simps)

text \<open>One file may be out of step until its hunks are recomputed.\<close>

definition synced_but :: "'z tracker_env_scheme \<Rightarrow> str \<Rightarrow> HunkTracker \<Rightarrow> bool" where
  "synced_but E p a \<longleftrightarrow> (\<forall>q st. q \<noteq> p \<longrightarrow> tracked a q = Some st \<longrightarrow> in_sync E q st)"

lemma synced_but_updates [tracker_simps]:
  "synced_but E p (send_events es a) = synced_but E p a" "synced_but E p (next_tick a) = synced_but E p a"
  "synced_but E p (put_file p st a) = synced_but E p a" "synced_but E p (a\<lparr>disk := d\<rparr>) = synced_but E p a"
  by (auto simp: synced_but_def tracker_simps)

lemma synced_imp_but [tracker_simps]: "synced E a \<Longrightarrow> synced_but E p a"
  by (simp add: synced_def synced_but_def)

lemma synced_recompute: "synced_but E p a \<Longrightarrow> synced E (recompute_hunks E p c src a)"
  by (cases "tracked a p")
    (auto simp: synced_def synced_but_def tracker_simps in_sync_recomputed split: if_splits, metis option.distinct(1))

lemmas synced_intros = synced_put synced_forget synced_recompute

lemma synced_record_agent_write: "synced E a \<Longrightarrow> synced E (record_agent_write E path content p prev a)"
  by (auto simp: record_agent_write_def Let_def tracker_simps new_file_state_def
      intro!: synced_intros in_sync_empty split: option.split)

lemma synced_track_new_path: "synced E a \<Longrightarrow> synced E (track_new_path E path head cur a)"
  by (auto simp: track_new_path_def Let_def tracker_simps new_file_state_def
      intro!: synced_intros in_sync_empty)

lemma synced_process_file_change: "synced E a \<Longrightarrow> synced E (process_file_change E path pre a)"
  by (auto simp: process_file_change_def Let_def tracker_simps synced_track_new_path
      intro!: synced_intros in_sync_empty split: option.split)

lemma synced_handle_file_deleted: "synced E a \<Longrightarrow> synced E (handle_file_deleted E path a)"
  by (auto simp: handle_file_deleted_def handle_file_change_def Let_def tracker_simps synced_process_file_change
      intro!: synced_intros split: option.split)

lemma synced_drop_hunks [tracker_simps]: "synced E (drop_hunks path hs a) = synced E a"
  by (simp add: drop_hunks_def tracker_simps)

lemma synced_reset_baseline: "synced E a \<Longrightarrow> synced E (reset_baseline path a)"
  by (auto simp: reset_baseline_def tracker_simps intro!: synced_intros in_sync_empty split: option.split)

lemma synced_fold: "(\<And>x a. synced E a \<Longrightarrow> synced E (f x a)) \<Longrightarrow> synced E a \<Longrightarrow> synced E (fold f xs a)"
  by (induction xs arbitrary: a) auto

lemma synced_changes_batch: "synced E a \<Longrightarrow> synced E (handle_file_changes_batch E paths a)"
proof -
  have "synced E (snd (fold (\<lambda>p (m, b). (m(p := None), process_file_change E p (m p) b)) ps (m, b)))" if "synced E b" for ps m b
    using that by (induction ps arbitrary: m b) (simp_all add: synced_process_file_change)
  then show "synced E a \<Longrightarrow> synced E (handle_file_changes_batch E paths a)"
    by (simp add: handle_file_changes_batch_def Let_def tracker_simps)
qed

lemma synced_refresh: "synced E a \<Longrightarrow> synced E (refresh_git_dirty_cache E scope a)"
proof -
  assume a: "synced E a"
  have caches: "synced E (b\<lparr>git_dirty_cache := d, git_staged_cache := s\<rparr>) = synced E b" for b d s
    by (simp add: synced_def tracked_def)
  show ?thesis
    using a by (auto simp: refresh_git_dirty_cache_def Let_def caches tracker_simps handle_file_change_def
        synced_process_file_change intro!: synced_fold split: option.split)
qed

lemma synced_set_mode: "synced E a \<Longrightarrow> synced E (set_mode E m a)"
proof -
  have "synced E (drop_file p b)" if "synced E b" for p b
    using that by (auto simp: drop_file_def tracker_simps intro: synced_forget split: option.split)
  then show "synced E a \<Longrightarrow> synced E (set_mode E m a)"
    by (auto simp: set_mode_def Let_def tracker_simps synced_refresh intro!: synced_fold)
qed

lemma synced_refresh_file: "synced E a \<Longrightarrow> synced E (refresh_file E bs cs path a)"
proof -
  assume a: "synced E a"
  have "synced E (forget_file path (put_file path st a))" for st
    using a by (auto simp: synced_def tracker_simps)
  moreover have "synced E (put_file path st' (put_file path st a))" if "hunks st' = []" for st st'
    using a that by (auto simp: synced_def tracker_simps in_sync_empty)
  ultimately show ?thesis using a
    by (auto simp: refresh_file_def Let_def tracker_simps intro!: synced_recompute split: option.split)
qed

lemma synced_sync_state: "tracked (a\<lparr>repo_sync_state := s\<rparr>) = tracked a" "tracked (a\<lparr>git_dirty_cache := d, git_staged_cache := e\<rparr>) = tracked a"
  by (simp_all add: tracked_def fun_eq_iff)

lemma synced_refresh_all: "synced E a \<Longrightarrow> synced E (refresh_all_baselines_except E skip a)"
proof -
  have files: "synced E (refresh_files E skip b)" if "synced E b" for b
    using that by (auto simp: refresh_files_def Let_def tracker_simps synced_refresh_file intro!: synced_fold)
  have caches: "synced E (refresh_caches E b)" if "synced E b" for b
    using that by (simp add: refresh_caches_def synced_refresh) (simp add: synced_def synced_sync_state)
  have sync: "synced E (b\<lparr>repo_sync_state := s\<rparr>) = synced E b" for b s
    by (simp add: synced_def synced_sync_state)
  show "synced E a \<Longrightarrow> synced E (refresh_all_baselines_except E skip a)"
    by (simp add: refresh_all_baselines_except_def files caches sync tracker_simps split: option.split)
qed

text \<open>Accepting and rejecting hunks of the file.\<close>

definition own_hunks :: "HunkTracker \<Rightarrow> str \<Rightarrow> Hunk list \<Rightarrow> bool" where
  "own_hunks a path hs \<longleftrightarrow> hs \<noteq> [] \<and> (\<forall>st. tracked a path = Some st \<longrightarrow> set hs \<subseteq> set (hunks st))"

lemma retain_other_whole:
  assumes "length hs \<le> 1" and "xs \<noteq> []" and "set xs \<subseteq> set hs"
  shows "retain_other (map hunk_id xs) hs = []"
proof -
  obtain h where "hs = [h]" using assms by (cases hs; cases "tl hs"; cases xs) auto
  with assms show ?thesis by (cases xs) (auto simp: retain_other_def)
qed

lemma synced_accept_batch:
  assumes "synced E a" and "own_hunks a path hs"
  shows "synced E (accept_hunks_batch E path hs a)"
proof (cases "tracked a path")
  case (Some st)
  have "retain_other (map hunk_id hs) (hunks st) = []" if "baseline st = Missing"
    using assms Some that in_sync_whole [of E path st] unfolding own_hunks_def synced_def
    by (intro retain_other_whole) auto
  with assms Some show ?thesis
    by (auto simp: accept_hunks_batch_def Let_def tracker_simps intro!: synced_intros in_sync_empty)
qed (use assms in \<open>simp add: accept_hunks_batch_def\<close>)

lemma accept_hunk_batch: "accept_hunk E path h a = accept_hunks_batch E path [h] a"
  by (simp add: accept_hunk_def accept_hunks_batch_def Let_def split: option.split)

lemma reject_hunk_batch: "reject_hunk E path h a = reject_hunks_batch E path [h] a"
  by (cases "tracked a path"; cases "baseline (the (tracked a path))"; cases "current_content (the (tracked a path))")
    (auto simp: reject_hunk_def reject_hunks_batch_def Let_def split: prod.split sum.split)

lemma write_file_frame [tracker_simps]:
  "tracked (snd (write_file E path s a)) = tracked a" "synced E' (snd (write_file E path s a)) = synced E' a"
  "synced_but E' p (snd (write_file E path s a)) = synced_but E' p a"
  "keyed (snd (write_file E path s a)) = keyed a" "ticks (snd (write_file E path s a)) = Suc (ticks a)"
  by (auto simp: write_file_def tracker_simps split: option.split)

lemma remove_file_frame [tracker_simps]:
  "tracked (snd (remove_file E path a)) = tracked a" "synced E' (snd (remove_file E path a)) = synced E' a"
  "synced_but E' p (snd (remove_file E path a)) = synced_but E' p a"
  "keyed (snd (remove_file E path a)) = keyed a" "ticks (snd (remove_file E path a)) = Suc (ticks a)"
  by (auto simp: remove_file_def tracker_simps split: option.split)

lemma tracked_rejected_file [tracker_simps]:
  "tracked (rejected_file path cur hs a) =
     (case tracked a path of
        None \<Rightarrow> tracked a
      | Some st \<Rightarrow> (tracked a)(path \<mapsto> st\<lparr>current_content := cur, hunks := retain_other (map hunk_id hs) (hunks st)\<rparr>))"
  by (simp add: rejected_file_def tracker_simps split: option.split)

lemma rejected_file_frame [tracker_simps]:
  "ticks (rejected_file path cur hs a) = ticks a" "disk (rejected_file path cur hs a) = disk a"
  "keyed a \<Longrightarrow> keyed (rejected_file path cur hs a)"
  "synced_but E path (rejected_file path cur hs a) = synced_but E path a"
  by (auto simp: rejected_file_def tracker_simps split: option.split)

lemma synced_rejected_whole:
  assumes "synced E a" and "own_hunks a path hs" and "tracked a path = Some st"
    and "baseline st = Missing \<or> current_content st = Missing"
  shows "synced E (rejected_file path (baseline st) hs a)"
proof -
  have "retain_other (map hunk_id hs) (hunks st) = []"
    using assms in_sync_whole [of E path st] unfolding own_hunks_def synced_def
    by (intro retain_other_whole) auto
  with assms show ?thesis
    by (auto simp: rejected_file_def tracker_simps intro!: synced_intros in_sync_empty)
qed

lemma reject_action_cases:
  assumes "reject_action f b c = r"
  obtains (restore) s where "r = RestoreDeleted s" and "b = Full s" and "c = Missing"
  | (delete) s where "r = DeleteCreated" and "b = Missing" and "c = Full s"
  | (revert) s where "r = RevertChange (f s)" and "b \<noteq> Missing" and "c = Full s"
  | (noop) "r = NoOp" and "\<not> is_diffable c"
  using assms by (cases "(f, b, c)" rule: reject_action.cases) auto

text \<open>What a batch of rejections does: nothing, a failed call, or a changed file whose hunks are recomputed if it is an edit.\<close>

lemma reject_batch_cases:
  assumes "reject_hunks_batch E path hs a = (r, a')"
  obtains (same) "r = Inr ()" and "a' = a"
  | (failed) e where "r = Inl e" and "tracked a' = tracked a" and "keyed a' = keyed a" and "ticks a' = Suc (ticks a)"
  | (whole) st b where "r = Inr ()" and "tracked a path = Some st" and "baseline st = Missing \<or> current_content st = Missing"
      and "a' = rejected_file path (baseline st) hs b" and "tracked b = tracked a" and "keyed b = keyed a"
      and "ticks b = Suc (ticks a)"
  | (edit) st s b where "r = Inr ()" and "tracked a path = Some st" and "current_content st = Full s" and "baseline st \<noteq> Missing"
      and "b = rejected_file path
        (Full (fold reject_patch (sort_key (\<lambda>h. - int (new_start (line_info h))) hs) s)) hs
        (snd (write_file E path (fold reject_patch (sort_key (\<lambda>h. - int (new_start (line_info h))) hs) s) a))"
      and "a' = recompute_hunks E path
        (Some (Full (fold reject_patch (sort_key (\<lambda>h. - int (new_start (line_info h))) hs) s)))
        (remaining_source path b) b"
      and "write_error E a path = None"
proof (cases "hs = [] \<or> tracked a path = None")
  case True
  then have "reject_hunks_batch E path hs a = (Inr (), a)" by (auto simp: reject_hunks_batch_def)
  with assms same show ?thesis by simp
next
  case False
  then obtain st where st: "tracked a path = Some st" and hs: "hs \<noteq> []" by auto
  let ?f = "fold reject_patch (sort_key (\<lambda>h. - int (new_start (line_info h))) hs)"
  obtain x where x: "reject_action ?f (baseline st) (current_content st) = x" by simp
  then show ?thesis
  proof (cases rule: reject_action_cases)
    case (restore s)
    then have "(r, a') = (case write_error E a path of
        None \<Rightarrow> (Inr (), rejected_file path (baseline st) hs (snd (write_file E path s a)))
      | Some (e, _) \<Rightarrow> (Inl (WriteError path e), snd (write_file E path s a)))"
      using st hs assms x by (auto simp: reject_hunks_batch_def write_file_def Let_def split: option.split)
    then show ?thesis
      using failed whole [OF _ st _ _ write_file_frame(1,4,5), of E path s] restore(3) write_file_frame(1,4,5) [of E path s a]
      by (auto split: option.splits)
  next
    case (delete s)
    then have "(r, a') = (case remove_error E a path of
        None \<Rightarrow> (Inr (), rejected_file path (baseline st) hs (snd (remove_file E path a)))
      | Some e \<Rightarrow> (Inl (DeleteError path e), snd (remove_file E path a)))"
      using st hs assms x by (auto simp: reject_hunks_batch_def remove_file_def Let_def split: option.split)
    then show ?thesis
      using failed whole [OF _ st _ _ remove_file_frame(1,4,5), of E path] delete(2) remove_file_frame(1,4,5) [of E path a]
      by (auto split: option.splits)
  next
    case (revert s)
    let ?b = "rejected_file path (Full (?f s)) hs (snd (write_file E path (?f s) a))"
    from revert have "(r, a') = (case write_error E a path of
        None \<Rightarrow> (Inr (), recompute_hunks E path (Some (Full (?f s))) (remaining_source path ?b) ?b)
      | Some (e, _) \<Rightarrow> (Inl (WriteError path e), snd (write_file E path (?f s) a)))"
      using st hs assms x by (auto simp: reject_hunks_batch_def write_file_def Let_def split: option.split)
    then show ?thesis
      using failed edit [OF _ st revert(3,2) refl] write_file_frame(1,4,5) [of E path "?f s" a]
      by (auto split: option.splits)
  next
    case noop
    then have "reject_hunks_batch E path hs a = (Inr (), a)"
      using st hs x by (auto simp: reject_hunks_batch_def Let_def)
    with assms same show ?thesis by simp
  qed
qed

lemma synced_cong: "tracked b = tracked a \<Longrightarrow> synced E b = synced E a"
  by (simp add: synced_def)

lemma own_hunks_cong: "tracked b = tracked a \<Longrightarrow> own_hunks b path hs = own_hunks a path hs"
  by (simp add: own_hunks_def)

lemma synced_reject_batch:
  assumes "synced E a" and "own_hunks a path hs"
  shows "synced E (snd (reject_hunks_batch E path hs a))"
proof -
  obtain r a' where ra: "reject_hunks_batch E path hs a = (r, a')" by fastforce
  from ra show ?thesis
  proof (cases rule: reject_batch_cases)
    case same
    with assms ra show ?thesis by simp
  next
    case (failed e)
    then show ?thesis using assms ra synced_cong [of a' a E] by simp
  next
    case (whole st b)
    have "synced E b" "own_hunks b path hs" "tracked b path = Some st"
      using assms whole synced_cong [of b a E] own_hunks_cong [of b a] by simp_all
    with ra whole show ?thesis by (simp add: synced_rejected_whole)
  next
    case (edit st s b)
    with ra assms show ?thesis by (auto simp: tracker_simps intro!: synced_recompute)
  qed
qed

subsection \<open>Identifiers\<close>

definition fresh_ids :: "'z tracker_env_scheme \<Rightarrow> bool" where
  "fresh_ids E \<longleftrightarrow> inj (\<lambda>(t, i). new_id E t i)"

lemma fresh_idsD: "fresh_ids E \<Longrightarrow> new_id E t i = new_id E t' i' \<longleftrightarrow> t = t' \<and> i = i'"
  unfolding fresh_ids_def inj_def by auto

definition ids_at :: "HunkTracker \<Rightarrow> str \<Rightarrow> str set" where
  "ids_at a p = (case tracked a p of None \<Rightarrow> {} | Some st \<Rightarrow> hunk_id ` set (hunks st))"

definition minted :: "'z tracker_env_scheme \<Rightarrow> nat \<Rightarrow> str set" where
  "minted E t = {new_id E t' i | t' i. t' < t}"

definition ids_ok :: "'z tracker_env_scheme \<Rightarrow> HunkTracker \<Rightarrow> bool" where
  "ids_ok E a \<longleftrightarrow>
     keyed a \<and> (\<forall>p st. tracked a p = Some st \<longrightarrow> distinct (map hunk_id (hunks st)))
     \<and> (\<forall>p. ids_at a p \<subseteq> minted E (ticks a)) \<and> (\<forall>p q. p \<noteq> q \<longrightarrow> ids_at a p \<inter> ids_at a q = {})"

lemma minted_mono: "t \<le> t' \<Longrightarrow> minted E t \<subseteq> minted E t'"
  by (auto simp: minted_def)

lemma ids_ok_cong:
  "ids_ok E a \<Longrightarrow> tracked b = tracked a \<Longrightarrow> keyed b = keyed a \<Longrightarrow> ticks a \<le> ticks b \<Longrightarrow> ids_ok E b"
  using minted_mono [of "ticks a" "ticks b" E] by (fastforce simp: ids_ok_def ids_at_def)

lemma ids_at_upd: "tracked b = (tracked a)(p \<mapsto> st) \<Longrightarrow> ids_at b = (ids_at a)(p := hunk_id ` set (hunks st))"
  by (rule ext) (simp add: ids_at_def)

text \<open>A file keeps its identifiers, loses some, or gets new ones.\<close>

lemma ids_ok_change:
  assumes ok: "ids_ok E a" and fresh: "fresh_ids E" and tracked: "tracked b = (tracked a)(p \<mapsto> st)"
    and keyed: "keyed b" and ticks: "ticks a \<le> ticks b" and dist: "distinct (map hunk_id (hunks st))"
    and ids: "hunk_id ` set (hunks st) \<subseteq> ids_at a p \<union> (minted E (ticks b) - minted E (ticks a))"
  shows "ids_ok E b"
proof -
  note at = ids_at_upd [OF tracked]
  have old: "ids_at a q \<subseteq> minted E (ticks a)" and apart: "q \<noteq> q' \<Longrightarrow> ids_at a q \<inter> ids_at a q' = {}" for q q'
    using ok by (auto simp: ids_ok_def)
  have "ids_at b q \<subseteq> minted E (ticks b)" for q
    using at old [of q] ids old [of p] minted_mono [OF ticks, of E] by auto
  moreover have "ids_at b p \<inter> ids_at b q = {}" if "q \<noteq> p" for q
    using at ids that old [of q] apart [of p q] by auto
  then have "ids_at b q \<inter> ids_at b q' = {}" if "q \<noteq> q'" for q q'
    using that at apart [of q q'] by (cases "q = p"; cases "q' = p") auto
  moreover have "distinct (map hunk_id (hunks st'))" if "tracked b q = Some st'" for q st'
    using that ok dist unfolding tracked ids_ok_def by (cases "q = p") auto
  ultimately show ?thesis using keyed by (auto simp: ids_ok_def)
qed

lemma ids_ok_put:
  assumes "ids_ok E a" and "fresh_ids E" and "distinct (map hunk_id (hunks st))" and "hunk_id ` set (hunks st) \<subseteq> ids_at a p"
  shows "ids_ok E (put_file p st a)"
  by (rule ids_ok_change [OF assms(1,2), of _ p st]) (use assms in \<open>auto simp: tracker_simps ids_ok_def\<close>)

lemma ids_ok_forget: "ids_ok E a \<Longrightarrow> ids_ok E (forget_file p a)"
proof -
  have "ids_at (forget_file p a) = (ids_at a)(p := {})"
    by (rule ext) (simp add: ids_at_def tracker_simps)
  then show "ids_ok E a \<Longrightarrow> ids_ok E (forget_file p a)"
    by (auto simp: ids_ok_def tracker_simps)
qed

lemma ids_ok_updates [tracker_simps]:
  "ids_ok E (send_events es a) = ids_ok E a" "ids_ok E a \<Longrightarrow> ids_ok E (next_tick a)"
  "ids_ok E (a\<lparr>turn_index := ti\<rparr>) = ids_ok E a" "ids_ok E (a\<lparr>disk := d\<rparr>) = ids_ok E a"
  "ids_ok E (remove_from_turn_index hid src a) = ids_ok E a" "ids_ok E (update_session_stats i acc a) = ids_ok E a"
  "ids_ok E (a\<lparr>mode := m\<rparr>) = ids_ok E a"
  by (auto elim!: ids_ok_cong simp: tracker_simps)

lemma inherit_ids:
  "hunk_id ` set (inherit_hunks olds cl hs) \<subseteq> hunk_id ` set hs \<union> (hunk_id ` set olds - cl)"
proof (induction olds cl hs rule: inherit_hunks.induct)
  case (2 olds cl h hs)
  then show ?case
    by (cases "find_matching_old_hunk h olds") (auto dest!: find_matching_old_hunk_mem)
qed simp

lemma inherit_distinct:
  assumes "distinct (map hunk_id hs)" and "hunk_id ` set hs \<inter> hunk_id ` set olds = {}"
  shows "distinct (map hunk_id (inherit_hunks olds cl hs))"
  using assms
proof (induction olds cl hs rule: inherit_hunks.induct)
  case (2 olds cl h hs)
  show ?case
  proof (cases "find_matching_old_hunk h olds")
    case None
    with 2 inherit_ids [of olds cl hs] show ?thesis by auto
  next
    case (Some m)
    have "hunk_id m \<in> hunk_id ` set olds" using Some by (auto dest: find_matching_old_hunk_mem)
    then have "hunk_id m \<notin> hunk_id ` set (inherit_hunks olds (insert (hunk_id m) cl) hs)"
      using 2(5) inherit_ids [of olds "insert (hunk_id m) cl" hs] by (simp del: insert_iff) blast
    with 2 Some inherit_ids [of olds cl hs] show ?thesis by auto
  qed
qed simp

lemma builds_ids: "map hunk_id (builds E t path src k bs) = map (new_id E t) [k..<k + length bs]"
proof (induction bs arbitrary: k)
  case (Cons b bs)
  have "[k..<k + length (b # bs)] = k # [Suc k..<Suc k + length bs]" using upt_conv_Cons [of k "k + length (b # bs)"] by simp
  with Cons show ?case by (simp add: build_def)
qed simp

lemma diff_states_ids: "\<exists>n. map hunk_id (diff_states E t path b c src) = map (new_id E t) [0..<n]"
proof (cases "(E, t, path, b, c, src)" rule: diff_states.cases)
  case (1 E' t' path' b' c' src')
  then show ?thesis
    using builds_ids [of E t path src 0 "place 1 1 (pieces (diff_lines E b' c'))"]
    by (auto simp: compute_hunks_eq intro: exI [of _ 0])
qed (auto simp: file_deleted_def file_created_def intro: exI [of _ 0] exI [of _ 1])

lemma ids_ok_recompute:
  assumes ok: "ids_ok E a" and fresh: "fresh_ids E"
  shows "ids_ok E (recompute_hunks E path c src a)"
proof (cases "tracked a path")
  case None
  then show ?thesis using ok by (simp add: recompute_hunks_def)
next
  case (Some st)
  let ?raw = "diff_states E (ticks a) path (baseline st) (current_of c) src"
  obtain n where raw: "map hunk_id ?raw = map (new_id E (ticks a)) [0..<n]"
    using diff_states_ids [of E "ticks a" path "baseline st" "current_of c" src] by blast
  have new: "hunk_id ` set ?raw \<subseteq> minted E (Suc (ticks a)) - minted E (ticks a)"
    using arg_cong [OF raw, of set] fresh_idsD [OF fresh] by (auto simp: minted_def)
  have "distinct (map hunk_id ?raw)"
    unfolding raw using fresh_idsD [OF fresh] by (simp add: distinct_map inj_on_def)
  moreover have at: "ids_at a path = hunk_id ` set (hunks st)" using Some by (simp add: ids_at_def)
  then have apart: "hunk_id ` set ?raw \<inter> hunk_id ` set (hunks st) = {}"
    using new ok unfolding ids_ok_def by blast
  ultimately have "distinct (map hunk_id (inherit_hunks (hunks st) {} ?raw))" by (rule inherit_distinct)
  moreover have "hunk_id ` set (inherit_hunks (hunks st) {} ?raw) \<subseteq> ids_at a path \<union> (minted E (Suc (ticks a)) - minted E (ticks a))"
    using inherit_ids [of "hunks st" "{}" ?raw] new at by auto
  ultimately show ?thesis
    using ok fresh Some
    by (intro ids_ok_change [OF ok fresh, of _ path "recomputed E (ticks a) path c src st"])
      (auto simp: tracker_simps recomputed_def ids_ok_def)
qed

lemma ids_at_updates [tracker_simps]:
  "ids_at (next_tick a) = ids_at a" "ids_at (send_events es a) = ids_at a"
  by (simp_all add: ids_at_def tracker_simps fun_eq_iff)

lemma ids_ok_sub:
  assumes "ids_ok E a" and "fresh_ids E" and "tracked a p = Some st" and "hunks st' = filter P (hunks st)"
  shows "ids_ok E (put_file p st' a)"
  by (rule ids_ok_put) (use assms in \<open>auto simp: ids_ok_def ids_at_def distinct_map_filter\<close>)

lemma ids_ok_same:
  assumes "ids_ok E a" and "fresh_ids E" and "tracked a p = Some st" and "hunks st' = hunks st"
  shows "ids_ok E (put_file p st' a)"
  by (rule ids_ok_sub [where P = "\<lambda>_. True", OF assms(1-3)]) (simp add: assms(4))

lemma ids_ok_retain:
  assumes "ids_ok E a" and "fresh_ids E" and "tracked a p = Some st" and "hunks st' = retain_other ids (hunks st)"
  shows "ids_ok E (put_file p st' a)"
  by (rule ids_ok_sub [OF assms(1-3)]) (simp add: assms(4) retain_other_def)

lemma ids_ok_clear: "ids_ok E a \<Longrightarrow> fresh_ids E \<Longrightarrow> hunks st = [] \<Longrightarrow> ids_ok E (put_file p st a)"
  by (rule ids_ok_put) simp_all

lemmas ids_ok_intros = ids_ok_recompute ids_ok_clear

lemma ids_ok_record_agent_write:
  assumes "ids_ok E a" and "fresh_ids E"
  shows "ids_ok E (record_agent_write E path content p prev a)"
proof (cases "tracked a path")
  case None
  with assms show ?thesis
    by (auto simp: record_agent_write_def Let_def tracker_simps new_file_state_def intro!: ids_ok_intros split: option.split)
next
  case (Some st)
  have "ids_ok E (put_file path (st\<lparr>is_agent_file := True\<rparr>) a)"
    by (rule ids_ok_same [OF assms Some]) simp
  with assms Some show ?thesis
    by (auto simp: record_agent_write_def Let_def intro!: ids_ok_intros)
qed

lemma ids_ok_track_new_path: "ids_ok E a \<Longrightarrow> fresh_ids E \<Longrightarrow> ids_ok E (track_new_path E path head cur a)"
  by (auto simp: track_new_path_def Let_def tracker_simps new_file_state_def intro!: ids_ok_intros)

lemma ids_ok_process_file_change: "ids_ok E a \<Longrightarrow> fresh_ids E \<Longrightarrow> ids_ok E (process_file_change E path pre a)"
  by (auto simp: process_file_change_def Let_def tracker_simps ids_ok_track_new_path
      intro!: ids_ok_intros split: option.split)

lemma ids_ok_handle_file_deleted: "ids_ok E a \<Longrightarrow> fresh_ids E \<Longrightarrow> ids_ok E (handle_file_deleted E path a)"
  by (auto simp: handle_file_deleted_def handle_file_change_def Let_def tracker_simps ids_ok_process_file_change
      new_file_state_def intro!: ids_ok_intros split: option.split)

lemma ids_ok_drop_hunks [tracker_simps]: "ids_ok E (drop_hunks path hs a) = ids_ok E a"
  by (simp add: drop_hunks_def tracker_simps)

lemma ids_ok_reset_baseline: "ids_ok E a \<Longrightarrow> fresh_ids E \<Longrightarrow> ids_ok E (reset_baseline path a)"
  by (auto simp: reset_baseline_def tracker_simps intro!: ids_ok_intros split: option.split)

lemma ids_ok_fold: "(\<And>x a. ids_ok E a \<Longrightarrow> ids_ok E (f x a)) \<Longrightarrow> ids_ok E a \<Longrightarrow> ids_ok E (fold f xs a)"
  by (induction xs arbitrary: a) auto

lemma ids_ok_changes_batch: "ids_ok E a \<Longrightarrow> fresh_ids E \<Longrightarrow> ids_ok E (handle_file_changes_batch E paths a)"
proof -
  have "ids_ok E (snd (fold (\<lambda>p (m, b). (m(p := None), process_file_change E p (m p) b)) ps (m, b)))"
    if "ids_ok E b" "fresh_ids E" for ps m b
    using that by (induction ps arbitrary: m b) (simp_all add: ids_ok_process_file_change)
  then show "ids_ok E a \<Longrightarrow> fresh_ids E \<Longrightarrow> ids_ok E (handle_file_changes_batch E paths a)"
    by (simp add: handle_file_changes_batch_def Let_def tracker_simps)
qed

lemma ids_ok_refresh: "ids_ok E a \<Longrightarrow> fresh_ids E \<Longrightarrow> ids_ok E (refresh_git_dirty_cache E scope a)"
proof -
  assume a: "ids_ok E a" "fresh_ids E"
  have caches: "ids_ok E (b\<lparr>git_dirty_cache := d, git_staged_cache := s\<rparr>)" if "ids_ok E b" for b d s
    by (rule ids_ok_cong [OF that]) (simp_all add: tracked_def keyed_def fun_eq_iff)
  show ?thesis
    using a by (auto simp: refresh_git_dirty_cache_def Let_def caches tracker_simps handle_file_change_def
        ids_ok_process_file_change intro!: ids_ok_fold split: option.split)
qed

lemma ids_ok_set_mode: "ids_ok E a \<Longrightarrow> fresh_ids E \<Longrightarrow> ids_ok E (set_mode E m a)"
proof -
  have "ids_ok E (drop_file p b)" if "ids_ok E b" for p b
    using that by (auto simp: drop_file_def tracker_simps intro: ids_ok_forget split: option.split)
  then show "ids_ok E a \<Longrightarrow> fresh_ids E \<Longrightarrow> ids_ok E (set_mode E m a)"
    by (auto simp: set_mode_def Let_def tracker_simps ids_ok_refresh intro!: ids_ok_fold)
qed

lemma ids_ok_refresh_file: "ids_ok E a \<Longrightarrow> fresh_ids E \<Longrightarrow> ids_ok E (refresh_file E bs cs path a)"
proof (cases "tracked a path")
  case (Some old)
  assume a: "ids_ok E a" "fresh_ids E"
  let ?a1 = "put_file path (old\<lparr>baseline := bs path, current_content := cs path, baseline_accepted := False\<rparr>) a"
  have "ids_ok E ?a1" by (rule ids_ok_same [OF a Some]) simp
  with a Some show ?thesis
    by (auto simp: refresh_file_def Let_def tracker_simps intro!: ids_ok_intros ids_ok_forget)
qed (simp add: refresh_file_def)

lemma ids_ok_refresh_all: "ids_ok E a \<Longrightarrow> fresh_ids E \<Longrightarrow> ids_ok E (refresh_all_baselines_except E skip a)"
proof -
  assume a: "ids_ok E a" "fresh_ids E"
  have files: "ids_ok E (refresh_files E skip b)" if "ids_ok E b" for b
    using that a(2) by (auto simp: refresh_files_def Let_def tracker_simps ids_ok_refresh_file intro!: ids_ok_fold)
  have sync: "ids_ok E (b\<lparr>repo_sync_state := s\<rparr>)" "ids_ok E (b\<lparr>git_dirty_cache := d, git_staged_cache := e\<rparr>)"
    if "ids_ok E b" for b s d e
    by (rule ids_ok_cong [OF that]; simp add: synced_sync_state keyed_def)+
  have caches: "ids_ok E (refresh_caches E b)" if "ids_ok E b" for b
    using that a(2) sync by (simp add: refresh_caches_def ids_ok_refresh)
  show ?thesis
    using a by (simp add: refresh_all_baselines_except_def files caches sync tracker_simps split: option.split)
qed

lemma ids_ok_accept_batch: "ids_ok E a \<Longrightarrow> fresh_ids E \<Longrightarrow> ids_ok E (accept_hunks_batch E path hs a)"
  by (cases "tracked a path")
    (auto simp: accept_hunks_batch_def Let_def tracker_simps intro!: ids_ok_recompute ids_ok_retain)

lemma ids_ok_rejected_file: "ids_ok E a \<Longrightarrow> fresh_ids E \<Longrightarrow> ids_ok E (rejected_file path cur hs a)"
  by (cases "tracked a path") (auto simp: rejected_file_def tracker_simps intro!: ids_ok_retain)

lemma ids_ok_reject_batch:
  assumes "ids_ok E a" and "fresh_ids E"
  shows "ids_ok E (snd (reject_hunks_batch E path hs a))"
proof -
  obtain r a' where ra: "reject_hunks_batch E path hs a = (r, a')" by fastforce
  from ra show ?thesis
  proof (cases rule: reject_batch_cases)
    case same
    with assms ra show ?thesis by simp
  next
    case (failed e)
    then show ?thesis using ra ids_ok_cong [OF assms(1), of a'] by simp
  next
    case (whole st b)
    have "ids_ok E b" using whole ids_ok_cong [OF assms(1), of b] by simp
    with ra whole assms show ?thesis by (simp add: ids_ok_rejected_file)
  next
    case (edit st s b)
    have "ids_ok E (snd (write_file E path t a))" for t
      by (rule ids_ok_cong [OF assms(1)]) (simp_all add: tracker_simps)
    with ra edit assms show ?thesis by (auto intro!: ids_ok_recompute ids_ok_rejected_file)
  qed
qed

subsection \<open>All operations\<close>

text \<open>A batch changes no other file.\<close>

lemma recompute_other: "q \<noteq> path \<Longrightarrow> tracked (recompute_hunks E path c src a) q = tracked a q"
  by (simp add: tracker_simps split: option.split)

lemma accept_batch_other:
  "q \<noteq> path \<Longrightarrow> tracked (accept_hunks_batch E path hs a) q = tracked a q"
  "disk (accept_hunks_batch E path hs a) = disk a"
  by (simp_all add: accept_hunks_batch_def Let_def recompute_other tracker_simps split: option.split)

lemma reject_batch_other:
  assumes "q \<noteq> path"
  shows "tracked (snd (reject_hunks_batch E path hs a)) q = tracked a q"
    and "disk (snd (reject_hunks_batch E path hs a)) q = disk a q"
  using assms
  by (auto simp: reject_hunks_batch_def Let_def recompute_other tracker_simps write_file_def remove_file_def
      split: option.split RejectAction.split)

lemma count_hunk_frame [tracker_simps]:
  "tracked (count_hunk act h a) = tracked a" "disk (count_hunk act h a) = disk a"
  "keyed (count_hunk act h a) = keyed a" "ticks (count_hunk act h a) = ticks a"
  by (simp_all add: count_hunk_def tracker_simps)

lemma count_hunks_frame [tracker_simps]:
  "tracked (fold (count_hunk act) hs a) = tracked a" "disk (fold (count_hunk act) hs a) = disk a"
  "keyed (fold (count_hunk act) hs a) = keyed a" "ticks (fold (count_hunk act) hs a) = ticks a"
  by (induction hs arbitrary: a) (simp_all add: tracker_simps)

definition batch_step :: "'z tracker_env_scheme \<Rightarrow> HunkAction \<Rightarrow> str \<Rightarrow> Hunk list \<Rightarrow> HunkTracker \<Rightarrow> (HunkActionError + unit) \<times> HunkTracker" where
  "batch_step E act path hs a =
     (case act of
        Accept \<Rightarrow> (Inr (), accept_hunks_batch E path hs (fold (count_hunk act) hs a))
      | Reject \<Rightarrow> reject_hunks_batch E path hs (fold (count_hunk act) hs a))"

lemma batch_step_other:
  assumes "q \<noteq> path"
  shows "tracked (snd (batch_step E act path hs a)) q = tracked a q" and "disk (snd (batch_step E act path hs a)) q = disk a q"
  using assms
  by (simp_all add: batch_step_def accept_batch_other reject_batch_other tracker_simps split: HunkAction.split)

lemma apply_action_batch_step:
  "apply_action_batch E ((path, hs) # fs) act a =
     (case batch_step E act path hs a of
        (Inl e, a') \<Rightarrow> (Inl e, a')
      | (Inr _, a') \<Rightarrow>
          (case apply_action_batch E fs act a' of
             (Inl e, a'') \<Rightarrow> (Inl e, a'')
           | (Inr ids, a'') \<Rightarrow> (Inr (map hunk_id hs @ ids), a'')))"
  by (cases act) (auto simp: batch_step_def Let_def split: prod.split sum.split)

lemma apply_action_batch_other:
  "q \<notin> fst ` set fs \<Longrightarrow> tracked (snd (apply_action_batch E fs act a)) q = tracked a q"
  "q \<notin> fst ` set fs \<Longrightarrow> disk (snd (apply_action_batch E fs act a)) q = disk a q"
proof (induction fs arbitrary: a)
  case (Cons f fs)
  obtain path hs where f: "f = (path, hs)" by fastforce
  { case 1
    then show ?case using f Cons.IH(1) [of "snd (batch_step E act path hs a)"] batch_step_other(1) [of q path E act hs a]
      by (auto simp: apply_action_batch_step simp del: apply_action_batch.simps split: prod.split sum.split)
  next
    case 2
    then show ?case using f Cons.IH(2) [of "snd (batch_step E act path hs a)"] batch_step_other(2) [of q path E act hs a]
      by (auto simp: apply_action_batch_step simp del: apply_action_batch.simps split: prod.split sum.split) }
qed simp_all

text \<open>
  The states of the actor: from its start, by single commands and by merged batches, in any order, with writes to the
  disk by others in between.
\<close>

inductive tracker_reachable :: "'z tracker_env_scheme \<Rightarrow> HunkTracker \<Rightarrow> bool" for E where
  start: "tracker_reachable E (tracker_new dir m d)"
| call: "tracker_reachable E a \<Longrightarrow> tracker_reachable E (run_call E c a)"
| batch: "tracker_reachable E a \<Longrightarrow> tracker_reachable E (handle_coalesced_batch E b a)"

text \<open>An invariant of the operations on single files is one of the actor.\<close>

locale tracker_law =
  fixes E :: "'z tracker_env_scheme" and I :: "HunkTracker \<Rightarrow> bool"
  assumes keyed: "I a \<Longrightarrow> keyed a"
    and frame: "I a \<Longrightarrow> tracked b = tracked a \<Longrightarrow> keyed b = keyed a \<Longrightarrow> ticks a \<le> ticks b \<Longrightarrow> I b"
    and writes: "I a \<Longrightarrow> I (record_agent_write E path content p prev a)"
    and changes: "I a \<Longrightarrow> I (process_file_change E path pre a)"
    and deleted: "I a \<Longrightarrow> I (handle_file_deleted E path a)"
    and reset: "I a \<Longrightarrow> I (reset_baseline path a)"
    and changes_batch: "I a \<Longrightarrow> I (handle_file_changes_batch E paths a)"
    and refresh: "I a \<Longrightarrow> I (refresh_git_dirty_cache E scope a)"
    and refresh_every: "I a \<Longrightarrow> I (refresh_all_baselines_except E skip a)"
    and switch: "I a \<Longrightarrow> I (set_mode E m a)"
    and accept: "I a \<Longrightarrow> own_hunks a path hs \<Longrightarrow> I (accept_hunks_batch E path hs a)"
    and reject: "I a \<Longrightarrow> own_hunks a path hs \<Longrightarrow> I (snd (reject_hunks_batch E path hs a))"
begin

lemma step: "I a \<Longrightarrow> own_hunks a path hs \<Longrightarrow> I (snd (batch_step E act path hs a))"
proof -
  assume a: "I a" and own: "own_hunks a path hs"
  let ?b = "fold (count_hunk act) hs a"
  have "I ?b" by (rule frame [OF a]) (simp_all add: tracker_simps)
  moreover have "own_hunks ?b path hs" using own own_hunks_cong [of ?b a] by (simp add: tracker_simps)
  ultimately show ?thesis using accept reject by (cases act) (simp_all add: batch_step_def)
qed

lemma batch:
  "I a \<Longrightarrow> distinct (map fst fs) \<Longrightarrow> (\<And>path hs. (path, hs) \<in> set fs \<Longrightarrow> own_hunks a path hs)
     \<Longrightarrow> I (snd (apply_action_batch E fs act a))"
proof (induction fs arbitrary: a)
  case (Cons f fs)
  obtain path hs where f: "f = (path, hs)" by fastforce
  let ?b = "snd (batch_step E act path hs a)"
  have b: "I ?b" using Cons.prems f by (intro step) auto
  have "own_hunks ?b q gs" if "(q, gs) \<in> set fs" for q gs
  proof -
    have "q \<noteq> path" using that Cons.prems(2) f by (auto simp: image_iff)
    then show ?thesis using Cons.prems(3) [of q gs] that batch_step_other(1) [of q path E act hs a]
      by (simp add: own_hunks_def)
  qed
  then have "I (snd (apply_action_batch E fs act ?b))" using Cons.IH b Cons.prems(2) by simp
  with b f show ?case
    by (auto simp: apply_action_batch_step simp del: apply_action_batch.simps split: prod.split sum.split)
qed simp

lemma act_files:
  assumes "I a" and sub: "\<And>st. set (f st) \<subseteq> set (hunks st)"
  shows "I (snd (apply_action_batch E (map (\<lambda>(path, st). (path, f st)) (filter (\<lambda>(_, st). f st \<noteq> []) (file_states a))) act a))"
proof (rule batch [OF assms(1)])
  have k: "keyed a" by (rule keyed [OF assms(1)])
  show "distinct (map fst (map (\<lambda>(path, st). (path, f st)) (filter (\<lambda>(_, st). f st \<noteq> []) (file_states a))))"
    by (rule keyed_selection [OF k])
  show "own_hunks a path hs"
    if "(path, hs) \<in> set (map (\<lambda>(path, st). (path, f st)) (filter (\<lambda>(_, st). f st \<noteq> []) (file_states a)))" for path hs
    using that keyed_tracked [OF k] by (auto simp: own_hunks_def dest: subsetD [OF sub])
qed

lemma act_hunk: "I a \<Longrightarrow> I (snd (apply_hunk_action E hid act a))"
proof -
  assume a: "I a"
  have found: "(path, h) = (p, g) \<longrightarrow> hunk_id h = hid \<and> (\<exists>st. (path, st) \<in> set fs \<and> h \<in> set (hunks st))"
    if "find_hunk_file hid fs = Some (p, g)" for fs path h p g
    using that by (induction hid fs rule: find_hunk_file.induct) (auto simp: find_Some_iff split: option.splits)
  show ?thesis
  proof (cases "find_hunk_file hid (file_states a)")
    case (Some ph)
    obtain path h where ph: "ph = (path, h)" by fastforce
    with Some found [of "file_states a" path h path h] obtain st
      where h: "hunk_id h = hid" "(path, st) \<in> set (file_states a)" "h \<in> set (hunks st)" by blast
    then have "own_hunks a path [h]" using keyed_tracked [OF keyed [OF a]] by (simp add: own_hunks_def)
    from step [OF a this, of act] show ?thesis
      using Some ph h by (cases act)
        (simp_all add: apply_hunk_action_def batch_step_def accept_hunk_batch reject_hunk_batch count_hunk_def Let_def)
  qed (use a in \<open>simp add: apply_hunk_action_def\<close>)
qed

lemma run: "I a \<Longrightarrow> I (run_call E c a)"
proof (cases c)
  case (ActFile path act)
  assume a: "I a"
  show ?thesis
    using a ActFile batch [OF a, of "[(path, hs)]" for hs]
    by (auto simp: apply_file_action_def own_hunks_def simp del: apply_action_batch.simps split: option.split)
next
  case (ActAll act)
  assume "I a"
  then show ?thesis using ActAll act_files [of a hunks act] by (simp add: apply_all_action_def)
next
  case (ActTurn p act)
  assume "I a"
  then show ?thesis
    using ActTurn act_files [of a "turn_hunks p" act]
    by (auto simp: apply_turn_action_def turn_hunks_def)
next
  case ResetStats
  assume a: "I a"
  show ?thesis unfolding ResetStats by (simp, rule frame [OF a]) (simp_all add: tracked_def keyed_def fun_eq_iff)
next
  case (DiskChange d)
  assume a: "I a"
  show ?thesis unfolding DiskChange by (simp, rule frame [OF a]) (simp_all add: tracker_simps)
qed (simp_all add: handle_file_change_def writes changes deleted reset refresh refresh_every refresh_all_baselines_def
    switch act_hunk)

lemma lift_fold: "(\<And>x a. I a \<Longrightarrow> I (f x a)) \<Longrightarrow> I a \<Longrightarrow> I (fold f xs a)"
  by (induction xs arbitrary: a) auto

lemma notifications: "I a \<Longrightarrow> I (snd (fold (before_refresh E) acts (processed, a)))"
proof (induction acts arbitrary: processed a)
  case (Cons x acts)
  obtain q b where "before_refresh E x (processed, a) = (q, b)" by fastforce
  moreover from this have "I b"
    using Cons.prems changes deleted
    by (cases "(E, x, processed, a)" rule: before_refresh.cases) (auto simp: handle_file_change_def split: if_splits)
  ultimately show ?case using Cons.IH by simp
qed simp

lemma coalesced: "I a \<Longrightarrow> I (handle_coalesced_batch E b a)"
proof -
  assume a: "I a"
  let ?a1 = "if refresh_dirty b \<and> \<not> refresh_all b then refresh_git_dirty_cache E None a else a"
  have a1: "I ?a1" using a refresh by simp
  have "I (case fold (before_refresh E) (file_actions b) ([], ?a1) of (p, c) \<Rightarrow> refresh_all_baselines_except E p c)"
    using notifications [OF a1, of "file_actions b" "[]"] refresh_every
    by (cases "fold (before_refresh E) (file_actions b) ([], ?a1)") simp
  moreover have "I (handle_file_changes_batch E ps (fold (handle_file_deleted E) gone ?a1))" for ps gone
    by (intro changes_batch lift_fold a1 deleted)
  ultimately show ?thesis
    unfolding handle_coalesced_batch_def Let_def by (intro lift_fold run) auto
qed

end

definition hunks_ok :: "'z tracker_env_scheme \<Rightarrow> HunkTracker \<Rightarrow> bool" where
  "hunks_ok E a \<longleftrightarrow> fresh_ids E \<and> synced E a \<and> ids_ok E a"

lemmas tracker_intros =
  synced_record_agent_write ids_ok_record_agent_write synced_process_file_change ids_ok_process_file_change
  synced_handle_file_deleted ids_ok_handle_file_deleted synced_reset_baseline ids_ok_reset_baseline
  synced_refresh ids_ok_refresh synced_set_mode ids_ok_set_mode synced_changes_batch ids_ok_changes_batch
  synced_refresh_all ids_ok_refresh_all
  synced_accept_batch ids_ok_accept_batch synced_reject_batch ids_ok_reject_batch

interpretation review: tracker_law E "hunks_ok E" for E :: "'z tracker_env_scheme"
proof unfold_locales
  fix a b assume "hunks_ok E a" "tracked b = tracked a" "keyed b = keyed a" "ticks a \<le> ticks b"
  then show "hunks_ok E b" using synced_cong [of b a E] ids_ok_cong [of E a b] by (simp add: hunks_ok_def)
next
  fix a assume "hunks_ok E a"
  then show "keyed a" by (simp add: hunks_ok_def ids_ok_def)
qed (simp_all add: hunks_ok_def tracker_intros)

lemma reachable_hunks_ok:
  assumes "tracker_reachable E a" and "fresh_ids E"
  shows "hunks_ok E a"
  using assms(1)
proof induction
  case (start dir m d)
  show ?case using assms(2)
    by (auto simp: hunks_ok_def synced_def ids_ok_def tracker_new_def tracked_def keyed_def ids_at_def)
next
  case (call a c)
  then show ?case by (simp add: review.run)
next
  case (batch a b)
  then show ?case by (simp add: review.coalesced)
qed

end
