(* ===== verification/Hunk_Review.thy ===== *)
theory Hunk_Review
  imports Hunk_Laws
begin

text \<open>
  What a review of hunks does. In every state the actor can reach, accepting or rejecting some hunks of a file
  exchanges exactly their lines, if both texts end their lines with line feeds and share a line that is not
  blank. Accepting all hunks of a file or rejecting all of them leaves none. Then the cases the code gets wrong: texts
  without a final line feed, texts with carriage returns, and failing writes.
\<close>

subsection \<open>Texts with line feeds\<close>

definition lf_text :: "str \<Rightarrow> bool" where
  "lf_text s \<longleftrightarrow> 13 \<notin> set s \<and> (s = [] \<or> last s = 10)"

text \<open>What the diff promises: the old and the new lines in order, each with its line feed.\<close>

definition line_changes :: "str \<Rightarrow> str \<Rightarrow> change list \<Rightarrow> bool" where
  "line_changes b c cs \<longleftrightarrow> old_values cs = split_inclusive_nl b \<and> new_values cs = split_inclusive_nl c"

definition shares_line :: "change list \<Rightarrow> bool" where
  "shares_line cs \<longleftrightarrow> list_ex (\<lambda>(tag, v). tag = Equal \<and> v \<noteq> [10]) cs"

definition plain_edit :: "'z diff_env_scheme \<Rightarrow> str \<Rightarrow> str \<Rightarrow> bool" where
  "plain_edit E b c \<longleftrightarrow>
     lf_text b \<and> lf_text c \<and> line_changes b c (diff_lines E b c) \<and> shares_line (diff_lines E b c)"

lemma lf_split_full: "lf_text s \<Longrightarrow> list_all full_line (split_inclusive_nl s)"
proof (induction s)
  case (Cons x s)
  have "s = [] \<Longrightarrow> x = 10" "lf_text s" using Cons.prems by (auto simp: lf_text_def split: if_splits)
  moreover have "x \<noteq> 13" using Cons.prems by (simp add: lf_text_def)
  ultimately show ?case using Cons.IH
    by (cases "split_inclusive_nl s") (auto simp: full_line_def)
qed simp

lemma full_piece_add:
  "full_line v \<Longrightarrow> list_all full_piece ps \<Longrightarrow> list_all full_piece (add_old v ps)"
  "full_line v \<Longrightarrow> list_all full_piece ps \<Longrightarrow> list_all full_piece (add_new v ps)"
  by (cases ps rule: before_side.cases; simp)+

lemma full_pieces:
  "list_all full_line (old_values cs) \<Longrightarrow> list_all full_line (new_values cs) \<Longrightarrow> list_all full_piece (pieces cs)"
  by (induction cs rule: pieces.induct) (auto simp: old_values_def new_values_def full_piece_add)

lemma Same_add: "Same v \<in> set (add_old w ps) \<longleftrightarrow> Same v \<in> set ps" "Same v \<in> set (add_new w ps) \<longleftrightarrow> Same v \<in> set ps"
  by (cases ps rule: before_side.cases; simp)+

lemma Same_pieces: "Same v \<in> set (pieces cs) \<longleftrightarrow> (Equal, v) \<in> set cs"
  by (induction cs rule: pieces.induct) (auto simp: Same_add)

lemma plain_editE:
  assumes "plain_edit E b c"
  obtains v where "list_all full_piece (pieces (diff_lines E b c))" and "v \<noteq> [10]" and "Same v \<in> set (pieces (diff_lines E b c))"
    and "concat (before_side (pieces (diff_lines E b c))) = b" and "concat (after_side (pieces (diff_lines E b c))) = c"
proof -
  let ?cs = "diff_lines E b c"
  have vals: "old_values ?cs = split_inclusive_nl b" "new_values ?cs = split_inclusive_nl c"
    and lf: "lf_text b" "lf_text c" using assms by (simp_all add: plain_edit_def line_changes_def)
  have full: "list_all full_piece (pieces ?cs)"
    by (rule full_pieces) (simp_all add: vals lf lf_split_full)
  obtain v where "(Equal, v) \<in> set ?cs" "v \<noteq> [10]"
    using assms by (auto simp: plain_edit_def shares_line_def list_ex_iff)
  with full vals show thesis by (intro that) (simp_all add: sides_pieces Same_pieces)
qed

subsection \<open>Hunks as edits\<close>

lemma join_Nil_concat: "join [] ws = concat ws"
  by (induction ws) (auto simp: join_def split: list.splits)

lemma accept_spots:
  "map accept_patch (builds E t path src k (place i j ps)) = map splice_text (spots i ps)"
  by (induction i j ps arbitrary: k rule: place.induct)
    (auto simp: accept_patch_def build_def splice_text_def join_Nil_concat)

lemma reject_spots:
  "map reject_patch (builds E t path src k (place i j ps)) = map splice_text (spots j (flipped ps))"
  by (induction i j ps arbitrary: k rule: place.induct)
    (auto simp: reject_patch_def build_def splice_text_def join_Nil_concat)

lemma builds_starts:
  "map (\<lambda>h. old_start (line_info h)) (builds E t path src k bs) = map b_old_start bs"
  "map (\<lambda>h. new_start (line_info h)) (builds E t path src k bs) = map b_new_start bs"
  by (induction bs arbitrary: k) (simp_all add: build_def)

lemma map_shape_cong:
  assumes "map hunk_shape hs = map hunk_shape gs" and "\<And>h g. hunk_shape h = hunk_shape g \<Longrightarrow> f h = f g"
  shows "map f hs = map f gs"
  using assms(1)
proof (induction hs arbitrary: gs)
  case (Cons h hs)
  then obtain g gs' where "gs = g # gs'" "hunk_shape h = hunk_shape g" "map hunk_shape hs = map hunk_shape gs'" by auto
  with Cons.IH [of gs'] assms(2) [of h g] show ?case by simp
qed simp

lemma patch_shape:
  "hunk_shape h = hunk_shape g \<Longrightarrow> accept_patch h = accept_patch g"
  "hunk_shape h = hunk_shape g \<Longrightarrow> reject_patch h = reject_patch g"
  "hunk_shape h = hunk_shape g \<Longrightarrow> line_info h = line_info g"
  by (auto simp: hunk_shape_def accept_patch_def reject_patch_def fun_eq_iff)

lemma fold_via_map: "fold f xs = fold (\<lambda>g. g) (map f xs)"
  by (induction xs) simp_all

lemma fold_patch_state: "fold (\<lambda>h. patch_state (f h)) xs (Full s) = Full (fold f xs s)"
  by (induction xs arbitrary: s) simp_all

lemma fold_selected:
  assumes "map f hs = map g ys"
  shows "fold f (rev (filter P hs)) = fold g (rev (select (map P hs) ys))"
proof -
  have "fold f (rev (filter P hs)) = fold (\<lambda>g. g) (rev (select (map P hs) (map f hs)))"
    by (subst fold_via_map) (simp add: rev_map select_map select_filter)
  also have "\<dots> = fold g (rev (select (map P hs) ys))"
    unfolding assms by (subst (2) fold_via_map) (simp add: rev_map select_map)
  finally show ?thesis .
qed

lemma sort_filtered:
  assumes "map (\<lambda>h. f (line_info h)) hs = map g bs" and "sorted_wrt (\<lambda>x y. g x < g y) bs"
  shows "sort_key (\<lambda>h. - int (f (line_info h))) (filter P hs) = rev (filter P hs)"
proof (rule sort_reverse)
  have "sorted_wrt (<) (map (\<lambda>h. f (line_info h)) hs)" unfolding assms(1) using assms(2) by (simp add: sorted_wrt_map)
  then show "sorted_wrt (\<lambda>a b. f (line_info a) < f (line_info b)) (filter P hs)"
    by (simp add: sorted_wrt_map sorted_wrt_filter)
qed

lemma synced_text:
  assumes "in_sync E path st" and "baseline st = Full b" and "current_content st = Full c" and "hunks st \<noteq> []"
  obtains t src where "map hunk_shape (hunks st) = map hunk_shape (builds E t path src 0 (place 1 1 (pieces (diff_lines E b c))))"
    and "diffable_pair E t b c"
proof -
  obtain t src where s: "map hunk_shape (hunks st) = map hunk_shape (compute_hunks E t path b c src)"
    using assms unfolding in_sync_def by fastforce
  with assms(4) have "compute_hunks E t path b c src \<noteq> []" by auto
  with s that show ?thesis by (simp add: compute_hunks_eq split: if_splits)
qed

text \<open>Patching with some hunks of a file.\<close>

lemma selected_patches:
  assumes sync: "in_sync E path st" and b: "baseline st = Full b" and c: "current_content st = Full c"
    and ne: "hunks st \<noteq> []" and plain: "plain_edit E b c"
  defines "ps \<equiv> pieces (diff_lines E b c)"
  shows "fold accept_patch (sort_key (\<lambda>h. - int (old_start (line_info h))) (filter P (hunks st))) b
           = concat (mix (map P (hunks st)) ps)"
    and "fold reject_patch (sort_key (\<lambda>h. - int (new_start (line_info h))) (filter P (hunks st))) c
           = concat (mix (map (\<lambda>h. \<not> P h) (hunks st)) ps)"
    and "length (hunks st) = edits ps"
proof -
  obtain t src where shape: "map hunk_shape (hunks st) = map hunk_shape (builds E t path src 0 (place 1 1 ps))"
    using synced_text [OF sync b c ne] unfolding ps_def by blast
  obtain v where full: "list_all full_piece ps" and v: "v \<noteq> [10]" "Same v \<in> set ps"
    and sides: "concat (before_side ps) = b" "concat (after_side ps) = c"
    using plain_editE [OF plain] unfolding ps_def by blast
  have sorted: "sorted_wrt (\<lambda>x y. b_old_start x < b_old_start y) (place 1 1 ps)"
    "sorted_wrt (\<lambda>x y. b_new_start x < b_new_start y) (place 1 1 ps)"
    using place_sorted [of ps 1 1] by (auto simp: ps_def elim: sorted_wrt_mono_rel [rotated])
  have len: "length (hunks st) = edits ps"
    using arg_cong [OF shape, of length] by (simp add: builds_def)
  then show "length (hunks st) = edits ps" .
  have fullf: "list_all full_piece (flipped ps)" and vf: "Same v \<in> set (flipped ps)"
    using full v by (force simp: list_all_iff elim: full_piece.elims, force)
  have starts: "map (\<lambda>h. old_start (line_info h)) (hunks st) = map b_old_start (place 1 1 ps)"
    "map (\<lambda>h. new_start (line_info h)) (hunks st) = map b_new_start (place 1 1 ps)"
    unfolding builds_starts [where E = E and t = t and path = path and src = src and k = 0, symmetric]
    by (rule map_shape_cong [OF shape], simp add: hunk_shape_def)+
  have "fold accept_patch (rev (filter P (hunks st))) b = concat (mix (map P (hunks st)) ps)"
    using fold_selected [OF trans [OF map_shape_cong [OF shape patch_shape(1)] accept_spots], of P]
      patch_selected [of ps "[]" "map P (hunks st)" v] full v len sides by simp
  then show "fold accept_patch (sort_key (\<lambda>h. - int (old_start (line_info h))) (filter P (hunks st))) b
      = concat (mix (map P (hunks st)) ps)"
    by (simp add: sort_filtered [OF starts(1) sorted(1)])
  have "fold reject_patch (rev (filter P (hunks st))) c = concat (mix (map P (hunks st)) (flipped ps))"
    using fold_selected [OF trans [OF map_shape_cong [OF shape patch_shape(2)] reject_spots], of P]
      patch_selected [of "flipped ps" "[]" "map P (hunks st)" v] fullf vf v len sides by simp
  then show "fold reject_patch (sort_key (\<lambda>h. - int (new_start (line_info h))) (filter P (hunks st))) c
      = concat (mix (map (\<lambda>h. \<not> P h) (hunks st)) ps)"
    using len mix_flipped [of "map P (hunks st)" ps] by (simp add: sort_filtered [OF starts(2) sorted(2)] comp_def)
qed

subsection \<open>Accepting and rejecting\<close>

text \<open>
  A file system that works: no call fails for reasons of its own, and the path is a regular file, or is absent where the
  baseline is to be written back.
\<close>

definition io_works :: "'z tracker_env_scheme \<Rightarrow> bool" where
  "io_works E \<longleftrightarrow> (\<forall>t path. write_fails E t path = None \<and> remove_fails E t path = None)"

definition file_in_place :: "HunkTracker \<Rightarrow> str \<Rightarrow> bool" where
  "file_in_place a path =
     (case disk a path of
        Some (FileNode _) \<Rightarrow> True
      | None \<Rightarrow> (case tracked a path of Some st \<Rightarrow> baseline st \<noteq> Missing | None \<Rightarrow> True)
      | _ \<Rightarrow> False)"

lemma file_in_place_cong:
  "tracked b path = tracked a path \<Longrightarrow> disk b path = disk a path \<Longrightarrow> file_in_place b path = file_in_place a path"
  by (simp add: file_in_place_def cong: option.case_cong)

lemma write_error_cong: "ticks b = ticks a \<Longrightarrow> disk b path = disk a path \<Longrightarrow> write_error E b path = write_error E a path"
  by (simp add: write_error_def cong: option.case_cong)

lemma write_works:
  assumes "io_works E" and "file_in_place a path"
  shows "write_file E path s a = (Inr (), next_tick (a\<lparr>disk := (disk a)(path \<mapsto> FileNode (utf8_bytes s))\<rparr>))"
  using assms
  by (auto simp: write_file_def write_error_def written_def io_works_def file_in_place_def split: option.splits fs_node.splits)

lemma remove_works:
  assumes "io_works E" and "file_in_place a path" and "tracked a path = Some st" and "baseline st = Missing"
  shows "remove_file E path a = (Inr (), next_tick (a\<lparr>disk := (disk a)(path := None)\<rparr>))"
  using assms
  by (auto simp: remove_file_def remove_error_def io_works_def file_in_place_def split: option.splits fs_node.splits)

lemma reject_action_deletes: "reject_action f b c = DeleteCreated \<Longrightarrow> b = Missing"
  by (cases "(f, b, c)" rule: reject_action.cases) auto

lemma batch_step_works:
  assumes "io_works E" and "file_in_place a path"
  shows "\<exists>b. batch_step E act path hs a = (Inr (), b)"
proof (cases act)
  case Reject
  let ?a = "fold (count_hunk act) hs a"
  have place: "file_in_place ?a path" using assms(2) by (subst file_in_place_cong [of _ path a]) (simp_all add: tracker_simps)
  show ?thesis
    using Reject write_works [OF assms(1) place] remove_works [OF assms(1) place]
    by (auto simp: batch_step_def reject_hunks_batch_def Let_def tracker_simps dest: reject_action_deletes
        split: option.split RejectAction.split)
qed (simp add: batch_step_def)

text \<open>Each file of a batch is changed by its own step.\<close>

lemma batch_member:
  assumes "io_works E" and "distinct (map fst fs)" and "(path, hs) \<in> set fs"
    and "\<And>q. q \<in> fst ` set fs \<Longrightarrow> file_in_place a q"
  shows "\<exists>a1. tracked a1 path = tracked a path \<and> disk a1 path = disk a path
           \<and> tracked (snd (apply_action_batch E fs act a)) path = tracked (snd (batch_step E act path hs a1)) path
           \<and> disk (snd (apply_action_batch E fs act a)) path = disk (snd (batch_step E act path hs a1)) path"
  using assms(2-4)
proof (induction fs arbitrary: a)
  case (Cons f fs)
  obtain q gs where f: "f = (q, gs)" by fastforce
  obtain b where b: "batch_step E act q gs a = (Inr (), b)"
    using batch_step_works [OF assms(1) Cons.prems(3) [of q]] f by auto
  have other: "tracked b p = tracked a p" "disk b p = disk a p" if "p \<noteq> q" for p
    using batch_step_other [OF that, of E act gs a] b by simp_all
  have run: "snd (apply_action_batch E (f # fs) act a) = snd (apply_action_batch E fs act b)"
    using f b by (simp add: apply_action_batch_step del: apply_action_batch.simps split: prod.split sum.split)
  show ?case
  proof (cases "path = q")
    case True
    then have "hs = gs" "path \<notin> fst ` set fs" using Cons.prems f by (auto simp: rev_image_eqI)
    then show ?thesis
      unfolding run using True b apply_action_batch_other [of path fs E act b] by (intro exI [of _ a]) simp
  next
    case False
    have "file_in_place b p" if "p \<in> fst ` set fs" for p
    proof -
      have "p \<noteq> q" using that Cons.prems(1) f by auto
      from file_in_place_cong [OF other [OF this]] show ?thesis using Cons.prems(3) that f by simp
    qed
    then show ?thesis unfolding run using Cons.IH [of b] Cons.prems(1,2) f False other [OF False] by simp
  qed
qed simp

lemma batch_step_edit:
  assumes "tracked a path = Some st" and "baseline st = Full b" and "current_content st = Full c" and "io_works E" and "hs \<noteq> []"
    and "file_in_place a path"
  shows "\<exists>t src st0.
    tracked (snd (batch_step E action path hs a)) path = Some (recomputed E t path
      (Some (case action of Accept \<Rightarrow> Full c
             | Reject \<Rightarrow> Full (fold reject_patch (sort_key (\<lambda>h. - int (new_start (line_info h))) hs) c))) src st0)
    \<and> baseline st0 = (case action of
        Accept \<Rightarrow> Full (fold accept_patch (sort_key (\<lambda>h. - int (old_start (line_info h))) hs) b)
      | Reject \<Rightarrow> Full b)"
proof (cases action)
  case Accept
  then show ?thesis using assms
    by (simp add: batch_step_def accept_hunks_batch_def tracker_simps fold_patch_state Let_def, intro exI conjI, simp, simp)
next
  case Reject
  have "file_in_place (fold (count_hunk Reject) hs a) path" using assms(6) by (subst file_in_place_cong [of _ path a]) (simp_all add: tracker_simps)
  with Reject assms show ?thesis
    by (simp add: batch_step_def reject_hunks_batch_def write_works tracker_simps Let_def, intro exI conjI, simp, simp)
qed

lemma reject_selected:
  assumes st: "tracked a path = Some st" and b: "baseline st = Full b" and c: "current_content st = Full c"
    and io: "io_works E" and place: "file_in_place a path" and sel: "filter P (hunks st) \<noteq> []"
    and sync: "in_sync E path st" and plain: "plain_edit E b c"
  defines "s \<equiv> concat (mix (map (\<lambda>h. \<not> P h) (hunks st)) (pieces (diff_lines E b c)))"
    and "a' \<equiv> snd (batch_step E Reject path (filter P (hunks st)) a)"
  shows "disk a' path = Some (FileNode (utf8_bytes s))"
    and "\<exists>st'. tracked a' path = Some st' \<and> baseline st' = Full b \<and> current_content st' = Full s \<and> in_sync E path st'"
proof -
  have ne: "hunks st \<noteq> []" using sel by auto
  note patch = selected_patches(2) [OF sync b c ne plain, of P, folded s_def]
  have place': "file_in_place (fold (count_hunk Reject) (filter P (hunks st)) a) path"
    using place by (subst file_in_place_cong [of _ path a]) (simp_all add: tracker_simps)
  have "a' = recompute_hunks E path (Some (Full s))
      (remaining_source path (rejected_file path (Full s) (filter P (hunks st))
        (snd (write_file E path s (fold (count_hunk Reject) (filter P (hunks st)) a)))))
      (rejected_file path (Full s) (filter P (hunks st))
        (snd (write_file E path s (fold (count_hunk Reject) (filter P (hunks st)) a))))"
    using st b c sel io
    by (simp add: a'_def batch_step_def reject_hunks_batch_def tracker_simps patch write_works [OF io place'] Let_def)
  then show "disk a' path = Some (FileNode (utf8_bytes s))"
    and "\<exists>st'. tracked a' path = Some st' \<and> baseline st' = Full b \<and> current_content st' = Full s \<and> in_sync E path st'"
    using st b io in_sync_recomputed [of E path]
    by (simp_all add: tracker_simps, simp_all add: write_works [OF io place'] tracker_simps)
qed

lemma accept_selected:
  assumes st: "tracked a path = Some st" and b: "baseline st = Full b" and c: "current_content st = Full c"
    and sel: "filter P (hunks st) \<noteq> []"
    and sync: "in_sync E path st" and plain: "plain_edit E b c"
  defines "s \<equiv> concat (mix (map P (hunks st)) (pieces (diff_lines E b c)))"
    and "a' \<equiv> snd (batch_step E Accept path (filter P (hunks st)) a)"
  shows "disk a' = disk a"
    and "\<exists>st'. tracked a' path = Some st' \<and> baseline st' = Full s \<and> current_content st' = Full c \<and> in_sync E path st'"
proof -
  have ne: "hunks st \<noteq> []" using sel by auto
  note patch = selected_patches(1) [OF sync b c ne plain, of P, folded s_def]
  show "disk a' = disk a"
    by (simp add: a'_def batch_step_def accept_batch_other tracker_simps)
  show "\<exists>st'. tracked a' path = Some st' \<and> baseline st' = Full s \<and> current_content st' = Full c \<and> in_sync E path st'"
    using st b c sel in_sync_recomputed [of E path]
    by (simp add: a'_def batch_step_def accept_hunks_batch_def tracker_simps Let_def fold_patch_state patch)
qed

lemma settled: "in_sync E path st \<Longrightarrow> baseline st = current_content st \<Longrightarrow> hunks st = []"
  by (auto simp: in_sync_def diff_states_same)

text \<open>
  In every state the tracker reaches by commands and merged batches, with identifiers that are never handed out
  twice: the hunks a tracked file shows are those of a diff between its baseline and its current content, and no
  two hunks, in whichever files, have the same identifier.
\<close>

theorem hunks_are_the_diff:
  assumes "tracker_reachable E a" and "fresh_ids E"
  shows "(\<forall>path st. tracked a path = Some st \<longrightarrow> hunks st = [] \<or>
            (\<exists>t src. map hunk_shape (hunks st)
               = map hunk_shape (diff_states E t path (baseline st) (current_content st) src)))
         \<and> distinct (map hunk_id (get_all_hunks a))"
proof
  have ok: "synced E a" "ids_ok E a" using reachable_hunks_ok [OF assms] by (simp_all add: hunks_ok_def)
  then show "\<forall>path st. tracked a path = Some st \<longrightarrow> hunks st = [] \<or>
      (\<exists>t src. map hunk_shape (hunks st)
         = map hunk_shape (diff_states E t path (baseline st) (current_content st) src))"
    by (simp add: synced_def in_sync_def)
  have member: "(p, st) \<in> set (file_states a) \<Longrightarrow> tracked a p = Some st" for p st
    using ok(2) keyed_tracked [of a p st] by (simp add: ids_ok_def)
  have apart: "hunk_id ` set (hunks st) \<inter> hunk_id ` set (hunks st') = {}"
    if "(p, st) \<in> set (file_states a)" "(q, st') \<in> set (file_states a)" "p \<noteq> q" for p q st st'
    using ok(2) that member unfolding ids_ok_def ids_at_def by (metis option.simps(5))
  have "distinct (map hunk_id (concat (map (hunks \<circ> snd) fs)))"
    if "set fs \<subseteq> set (file_states a)" "distinct (map fst fs)" for fs
    using that
  proof (induction fs)
    case (Cons f fs)
    obtain p st where f: "f = (p, st)" by fastforce
    have other: "hunk_id ` set (hunks st) \<inter> hunk_id ` set (hunks st') = {}" if "(q, st') \<in> set fs" for q st'
    proof (rule apart [of p st q st'])
      show "p \<noteq> q" using Cons.prems(2) that f by force
    qed (use Cons.prems that f in auto)
    have "hunk_id ` set (hunks st) \<inter> hunk_id ` set (concat (map (hunks \<circ> snd) fs)) = {}"
    proof (rule equals0I)
      fix x assume x: "x \<in> hunk_id ` set (hunks st) \<inter> hunk_id ` set (concat (map (hunks \<circ> snd) fs))"
      then obtain q st' where "(q, st') \<in> set fs" "x \<in> hunk_id ` set (hunks st')" by auto
      with other x show False by blast
    qed
    moreover have "distinct (map hunk_id (hunks st))"
      using ok(2) member [of p st] Cons.prems f by (simp add: ids_ok_def)
    moreover have "distinct (map hunk_id (concat (map (hunks \<circ> snd) fs)))" using Cons by (simp add: comp_def)
    ultimately show ?case using f by (simp add: comp_def)
  qed simp
  then show "distinct (map hunk_id (get_all_hunks a))"
    using ok(2) by (simp add: get_all_hunks_def ids_ok_def keyed_def)
qed

lemma turn_batch_other:
  assumes "keyed a" and "\<And>st. tracked a q = Some st \<Longrightarrow> turn_hunks p st = []"
  shows "tracked (snd (apply_turn_action E p action a)) q = tracked a q" and "disk (snd (apply_turn_action E p action a)) q = disk a q"
proof -
  let ?fs = "map (\<lambda>(path, st). (path, turn_hunks p st)) (filter (\<lambda>(_, st). turn_hunks p st \<noteq> []) (file_states a))"
  have "q \<notin> fst ` set ?fs" using assms keyed_tracked [OF assms(1)] by fastforce
  from apply_action_batch_other [OF this]
  show "tracked (snd (apply_turn_action E p action a)) q = tracked a q"
    and "disk (snd (apply_turn_action E p action a)) q = disk a q" by (simp_all add: apply_turn_action_def)
qed

text \<open>
  C31: Rejecting a turn, with a file system that works and the tracked files in place: a file with hunks of the turn,
  whose baseline and content end their lines with line feeds and share a line that is not blank, is written with exactly the
  hunks of the turn undone and every other hunk kept, and its baseline does not change. A file without hunks of the turn is
  not touched, on the disk and in the tracker.
\<close>

theorem turn_reject_undoes_the_turn:
  assumes "tracker_reachable E a" and "fresh_ids E" and "io_works E"
    and "\<forall>q. tracked a q \<noteq> None \<longrightarrow> file_in_place a q"
  shows "(\<forall>path st b c. tracked a path = Some st \<longrightarrow> baseline st = Full b \<longrightarrow> current_content st = Full c
            \<longrightarrow> turn_hunks p st \<noteq> [] \<longrightarrow> plain_edit E b c \<longrightarrow>
            (let kept = map (\<lambda>h. prompt_index (source h) \<noteq> Some p) (hunks st);
                 s = concat (mix kept (pieces (diff_lines E b c)))
             in disk (snd (apply_turn_action E p Reject a)) path = Some (FileNode (utf8_bytes s))
                \<and> (\<exists>st'. tracked (snd (apply_turn_action E p Reject a)) path = Some st'
                     \<and> baseline st' = Full b \<and> current_content st' = Full s)))
         \<and> (\<forall>path. (\<forall>st. tracked a path = Some st \<longrightarrow> turn_hunks p st = [])
              \<longrightarrow> disk (snd (apply_turn_action E p Reject a)) path = disk a path
                \<and> tracked (snd (apply_turn_action E p Reject a)) path = tracked a path)"
proof (intro conjI allI impI, goal_cases)
  case (1 path st b c)
  have ok: "synced E a" "keyed a" using reachable_hunks_ok [OF assms(1,2)] by (simp_all add: hunks_ok_def ids_ok_def)
  let ?fs = "map (\<lambda>(path, st). (path, turn_hunks p st)) (filter (\<lambda>(_, st). turn_hunks p st \<noteq> []) (file_states a))"
  have dist: "distinct (map fst ?fs)" by (rule keyed_selection [OF ok(2)])
  have "(path, turn_hunks p st) \<in> set ?fs" using 1 keyed_tracked [OF ok(2)] by force
  moreover have "file_in_place a q" if "q \<in> fst ` set ?fs" for q
    using that assms(4) keyed_tracked [OF ok(2)] by fastforce
  ultimately obtain a1
    where a1: "tracked a1 path = tracked a path" "disk a1 path = disk a path"
      "tracked (snd (apply_action_batch E ?fs Reject a)) path = tracked (snd (batch_step E Reject path (turn_hunks p st) a1)) path"
      "disk (snd (apply_action_batch E ?fs Reject a)) path = disk (snd (batch_step E Reject path (turn_hunks p st) a1)) path"
    using batch_member [OF assms(3) dist, of path "turn_hunks p st" a Reject] by blast
  have sync: "in_sync E path st" using ok(1) 1 by (simp add: synced_def)
  have "file_in_place a1 path" using file_in_place_cong [OF a1(1,2)] assms(4) 1 by simp
  then show ?case
    using reject_selected [OF _ 1(2,3) assms(3) _ _ sync 1(5), of a1 "\<lambda>h. prompt_index (source h) = Some p"] a1 1
    by (auto simp: apply_turn_action_def turn_hunks_def Let_def)
next
  case (2 path)
  have "keyed a" using reachable_hunks_ok [OF assms(1,2)] by (simp add: hunks_ok_def ids_ok_def)
  with 2 show ?case using turn_batch_other(2) [of a path p E Reject] by simp
next
  case (3 path)
  have "keyed a" using reachable_hunks_ok [OF assms(1,2)] by (simp add: hunks_ok_def ids_ok_def)
  with 3 show ?case using turn_batch_other(1) [of a path p E Reject] by simp
qed

text \<open>
  Accepting all hunks of a file makes its content the baseline, and rejecting them all writes the
  baseline back; afterwards the file has no hunks. The file has hunks, its texts end their lines with line feeds and share
  a line that is not blank, and the file system works.
\<close>

theorem file_review_settles:
  assumes "tracker_reachable E a" and "fresh_ids E" and "io_works E"
    and "tracked a path = Some st" and "baseline st = Full b" and "current_content st = Full c"
    and "hunks st \<noteq> []" and "plain_edit E b c" and "file_in_place a path"
  shows "let a' = snd (apply_file_action E path action a); s = (case action of Accept \<Rightarrow> c | Reject \<Rightarrow> b)
         in \<exists>st'. tracked a' path = Some st' \<and> baseline st' = Full s \<and> current_content st' = Full s \<and> hunks st' = []
              \<and> (action = Accept \<longrightarrow> disk a' path = disk a path)
              \<and> (action = Reject \<longrightarrow> disk a' path = Some (FileNode (utf8_bytes b)))"
proof -
  have sync: "in_sync E path st"
    using reachable_hunks_ok [OF assms(1,2)] assms(4) by (simp add: hunks_ok_def synced_def)
  let ?ps = "pieces (diff_lines E b c)"
  obtain v where sides: "concat (before_side ?ps) = b" "concat (after_side ?ps) = c" using plain_editE [OF assms(8)] by blast
  have len: "length (hunks st) = edits ?ps" using selected_patches(3) [OF sync assms(5-8)] .
  have marks: "map (\<lambda>_. x) (hunks st) = replicate (edits ?ps) x" for x :: bool
    using len by (simp add: map_replicate_const)
  obtain b' where step: "batch_step E action path (hunks st) a = (Inr (), b')"
    using batch_step_works [OF assms(3,9)] by blast
  have run: "snd (apply_file_action E path action a) = b'"
    using assms(4,7) step by (simp add: apply_file_action_def apply_action_batch_step del: apply_action_batch.simps(2))
  show ?thesis
  proof (cases action)
    case Accept
    show ?thesis
      using accept_selected [OF assms(4-6) _ sync assms(8), of "\<lambda>_. True"] assms(7) step run Accept sides
        settled [of E path] by (auto simp: marks mix_replicate Let_def)
  next
    case Reject
    show ?thesis
      using reject_selected [OF assms(4-6,3,9) _ sync assms(8), of "\<lambda>_. True"] assms(7) step run Reject sides
        settled [of E path] by (auto simp: marks mix_replicate Let_def)
  qed
qed

subsection \<open>Texts without a final line feed\<close>

lemma split_no_nl: "l \<noteq> [] \<Longrightarrow> 10 \<notin> set l \<Longrightarrow> split_inclusive_nl l = [l]"
proof (induction l)
  case (Cons x l)
  then show ?case by (cases "l = []") auto
qed simp

lemma split_open_line: "list_all full_line vs \<Longrightarrow> l \<noteq> [] \<Longrightarrow> 10 \<notin> set l \<Longrightarrow> split_inclusive_nl (concat vs @ l) = vs @ [l]"
proof (induction vs)
  case (Cons v vs)
  then show ?case by (auto elim!: full_lineE simp: hunk_split_line)
qed (simp add: split_no_nl)

lemma join_open_line: "list_all full_line vs \<Longrightarrow> join [10] (map strip_line_end vs @ [l]) = concat vs @ l"
proof (induction vs)
  case (Cons v vs)
  then show ?case by (cases vs) (auto elim!: full_lineE)
qed simp

definition open_end :: "str list \<Rightarrow> str \<Rightarrow> bool" where
  "open_end vs l \<longleftrightarrow> list_all full_line vs \<and> l \<noteq> [] \<and> 10 \<notin> set l \<and> 13 \<notin> set l"

lemma open_end_patches:
  assumes "open_end vs l"
  shows "patch_lines (concat vs @ l) (Suc (length vs)) 1 (l @ [10]) = concat vs @ l"
    and "patch_lines (concat vs @ l @ [10]) (Suc (length vs)) 1 l = concat vs @ l @ [10]"
proof -
  have vs: "list_all full_line vs" and l: "l \<noteq> []" "10 \<notin> set l" "13 \<notin> set l" using assms by (simp_all add: open_end_def)
  have full: "full_line (l @ [10])" using l by (simp add: full_line_def)
  have "last l \<noteq> 10" using l(1,2) last_in_set by metis
  then have strip: "strip_line_end l = l" by (simp add: strip_line_end_def)
  have ls: "lines (concat vs @ l) = map strip_line_end vs @ [l]" "lines l = [l]"
    using split_open_line [OF vs l(1,2)] split_open_line [of "[]" l] l strip by (simp_all add: lines_def)
  have lf: "lines (concat vs @ l @ [10]) = map strip_line_end vs @ [l]" "lines (l @ [10]) = [l]"
    using lines_concat [of "vs @ [l @ [10]]"] lines_concat [of "[l @ [10]]"] vs full l by simp_all
  have "\<not> str_ends_with (concat vs @ l) [10]"
    unfolding str_ends_with_iff using l by (metis append_is_Nil_conv last_appendR last_in_set last_snoc)
  then show "patch_lines (concat vs @ l) (Suc (length vs)) 1 (l @ [10]) = concat vs @ l"
    using ls lf join_open_line [OF vs, of l] by (simp add: patch_lines_def)
  have "str_ends_with (concat vs @ l @ [10]) [10]" unfolding str_ends_with_iff by (metis append_assoc)
  then show "patch_lines (concat vs @ l @ [10]) (Suc (length vs)) 1 l = concat vs @ l @ [10]"
    using ls lf join_open_line [OF vs, of l] l by (simp add: patch_lines_def)
qed

lemma pieces_open_end: "pieces (map (Pair Equal) vs @ [(Delete, l), (Insert, r)]) = map Same vs @ [Edit [l] [r]]"
  by (induction vs) simp_all

lemma place_Same: "place i j (map Same vs @ ps) = place (i + length vs) (j + length vs) ps"
  by (induction vs arbitrary: i j) simp_all

text \<open>
  A final line feed is neither accepted nor rejected. When the current text is the baseline with a
  line feed added at its end, and the diff reports the last line as changed, accepting or rejecting the hunks of the file answers
  with their identifiers as handled, but both texts stay as they are, and without a timeout the same hunk is there again.
\<close>

theorem final_newline_is_never_reviewed:
  assumes "tracker_reachable E a" and "fresh_ids E" and "io_works E" and "\<forall>t. \<not> timed_out E t"
    and "tracked a path = Some st" and "baseline st = Full (concat vs @ l)" and "current_content st = Full (concat vs @ l @ [10])"
    and "hunks st \<noteq> []" and "open_end vs l"
    and "diff_lines E (concat vs @ l) (concat vs @ l @ [10]) = map (Pair Equal) vs @ [(Delete, l), (Insert, l @ [10])]"
    and "file_in_place a path"
  shows "fst (apply_file_action E path action a) = Inr (map hunk_id (hunks st))
         \<and> (\<exists>st'. tracked (snd (apply_file_action E path action a)) path = Some st'
              \<and> baseline st' = baseline st \<and> current_content st' = current_content st
              \<and> map hunk_shape (hunks st') = map hunk_shape (hunks st))"
proof -
  have sync: "in_sync E path st"
    using reachable_hunks_ok [OF assms(1,2)] assms(5) by (simp add: hunks_ok_def synced_def)
  obtain t src where shape: "map hunk_shape (hunks st) = map hunk_shape (builds E t path src 0
      (place 1 1 (pieces (diff_lines E (concat vs @ l) (concat vs @ l @ [10])))))"
    and pair: "diffable_pair E t (concat vs @ l) (concat vs @ l @ [10])"
    using synced_text [OF sync assms(6,7,8)] by blast
  from shape obtain h where h: "hunks st = [h]"
    and hs: "hunk_shape h = hunk_shape (build E t path src 0
      \<lparr>b_old_start = Suc (length vs), b_new_start = Suc (length vs), b_old_lines = [l], b_new_lines = [l @ [10]]\<rparr>)"
    unfolding assms(10) pieces_open_end place_Same by auto
  note patches = open_end_patches [OF assms(9)]
  have accept: "accept_patch h (concat vs @ l) = concat vs @ l"
    and reject: "reject_patch h (concat vs @ l @ [10]) = concat vs @ l @ [10]"
    using hs patches by (simp_all add: hunk_shape_def accept_patch_def reject_patch_def build_def)
  obtain b' where step: "batch_step E action path (hunks st) a = (Inr (), b')"
    using batch_step_works [OF assms(3,11)] by blast
  have run: "apply_file_action E path action a = (Inr (map hunk_id (hunks st)), b')"
    using assms(5,8) step by (simp add: apply_file_action_def apply_action_batch_step del: apply_action_batch.simps(2))
  obtain t' src' st0 where b': "tracked b' path = Some (recomputed E t' path (Some (current_content st)) src' st0)"
    and st0: "baseline st0 = baseline st"
    using batch_step_edit [OF assms(5-7,3), of "hunks st" action] step h assms(6,7,11) accept reject
    by (auto split: HunkAction.splits)
  have "map hunk_shape (hunks (recomputed E t' path (Some (current_content st)) src' st0))
      = map hunk_shape (builds E t' path src' 0 (place 1 1 (pieces (diff_lines E (concat vs @ l) (concat vs @ l @ [10])))))"
    using assms(4,6,7) st0 pair by (simp add: recomputed_def current_of_def compute_hunks_eq diffable_pair_def)
  also have "\<dots> = map hunk_shape (hunks st)"
    unfolding shape assms(10) pieces_open_end place_Same by (simp add: hunk_shape_def build_def)
  finally show ?thesis using run b' st0 by (simp add: tracker_simps)
qed

subsection \<open>Texts with carriage returns\<close>

definition crlf_text :: "str \<Rightarrow> bool" where
  "crlf_text s \<longleftrightarrow> list_all (\<lambda>v. str_ends_with v [13, 10] \<and> 13 \<notin> set (butlast (butlast v))) (split_inclusive_nl s)"

lemma crlf_lines: "crlf_text s \<Longrightarrow> l \<in> set (lines s) \<Longrightarrow> 13 \<notin> set l"
  by (auto simp: crlf_text_def list_all_iff lines_def str_ends_with_iff strip_line_end_def butlast_append)

lemma set_join: "set (join sep ws) \<subseteq> set sep \<union> \<Union> (set ` set ws)"
  by (induction ws) (auto simp: join_def split: list.splits)

lemma patch_drops_cr:
  assumes "crlf_text c" and "crlf_text ins"
  shows "13 \<notin> set (patch_lines c i n ins)"
proof -
  define ls where "ls = take (min (i - 1) (length (lines c))) (lines c)
    @ (if ins \<noteq> [] then lines ins else []) @ drop (min (i - 1 + n) (length (lines c))) (lines c)"
  have "set ls \<subseteq> set (lines c) \<union> set (lines ins)"
    using set_take_subset [of _ "lines c"] set_drop_subset [of _ "lines c"] by (auto simp: ls_def)
  then have "13 \<notin> set (join [10] ls)"
    using set_join [of "[10]" ls] crlf_lines [OF assms(1)] crlf_lines [OF assms(2)] by fastforce
  then show ?thesis unfolding patch_lines_def Let_def ls_def [symmetric] by simp
qed

lemma find_hunk_fileD:
  "find_hunk_file hid fs = Some (path, h) \<Longrightarrow> hunk_id h = hid \<and> (\<exists>st. (path, st) \<in> set fs \<and> h \<in> set (hunks st))"
  by (induction hid fs rule: find_hunk_file.induct) (auto simp: find_Some_iff split: option.splits)

text \<open>
  Rejecting one hunk of a file whose lines end with a carriage return and a line feed writes a file without any
  carriage return: every line of the file changes, not only those of the hunk.
\<close>

theorem reject_rewrites_line_ends:
  assumes "io_works E" and "find_hunk_file hid (file_states a) = Some (path, h)" and "tracked a path = Some st"
    and "baseline st = Full b" and "current_content st = Full c" and "crlf_text c"
    and "crlf_text (case old_text h of Some s \<Rightarrow> s | None \<Rightarrow> [])" and "file_in_place a path"
  shows "\<exists>s. disk (snd (apply_hunk_action E hid Reject a)) path = Some (FileNode (utf8_bytes s)) \<and> 13 \<notin> set s"
proof -
  have "disk (snd (apply_hunk_action E hid Reject a)) path = Some (FileNode (utf8_bytes (reject_patch h c)))"
  proof -
    let ?a = "remove_from_turn_index hid (source h) (update_session_stats (line_info h) False a)"
    have "file_in_place ?a path" using assms(8) by (subst file_in_place_cong [of _ path a]) (simp_all add: tracker_simps)
    from write_works [OF assms(1) this] show ?thesis
      using assms(2-5) by (simp add: apply_hunk_action_def reject_hunk_def tracker_simps Let_def)
  qed
  moreover have "13 \<notin> set (reject_patch h c)"
    unfolding reject_patch_def by (rule patch_drops_cr [OF assms(6,7)])
  ultimately show ?thesis by blast
qed

subsection \<open>Failing writes\<close>

text \<open>
  A rejection whose write fails is counted. The answer is the error and every tracked file is as before,
  the hunk included; but the number of rejected hunks has grown, and the hunk is gone from the index of its turn, so that
  asking for the hunks of the turn leaves it out.
\<close>

theorem failed_rejection_is_counted:
  assumes "find_hunk_file hid (file_states a) = Some (path, h)" and "tracked a path = Some st"
    and "baseline st = Full b" and "current_content st = Full c" and "write_error E a path = Some (e, left)"
    and "prompt_index (source h) = Some p" and "get_hunk a hid = Some h"
  shows "let (r, a') = apply_hunk_action E hid Reject a
         in r = Inl (WriteError path e) \<and> tracked a' = tracked a \<and> get_hunk a' hid = Some h
            \<and> rejected_hunks (session_stats a') = saturating_add (rejected_hunks (session_stats a)) 1
            \<and> h \<notin> get_hunks_for_turn a' p"
proof -
  let ?a = "remove_from_turn_index hid (source h) (update_session_stats (line_info h) False a)"
  have run: "apply_hunk_action E hid Reject a = (Inl (WriteError path e), next_tick (?a\<lparr>disk := (disk a)(path := left)\<rparr>))"
  proof -
    have "write_error E ?a path = Some (e, left)"
      using assms(5) write_error_cong [of ?a a path E] by (simp add: tracker_simps)
    then show ?thesis
      using assms(1-4) by (simp add: apply_hunk_action_def reject_hunk_def tracker_simps write_file_def Let_def)
  qed
  have files: "file_states (next_tick (?a\<lparr>disk := d\<rparr>)) = file_states a"
    and turns: "turn_index (next_tick (?a\<lparr>disk := d\<rparr>)) = index_remove hid (source h) (turn_index a)" for d
    by (simp_all add: next_tick_def remove_from_turn_index_def update_session_stats_def Let_def)
  have hunk: "get_hunk (next_tick (?a\<lparr>disk := d\<rparr>)) = get_hunk a" for d
    by (simp add: get_hunk_def get_all_hunks_def files fun_eq_iff)
  have id: "hunk_id g = i" if "get_hunk a i = Some g" for g i
    using that by (auto simp: get_hunk_def find_Some_iff)
  have "h \<notin> get_hunks_for_turn (next_tick (?a\<lparr>disk := d\<rparr>)) p" for d
    using assms(6) id [of _ h] id [OF assms(7)]
    by (auto simp: get_hunks_for_turn_def turns hunk index_remove_def Option.these_def split: option.splits)
  then show ?thesis
    using run hunk assms(7)
    by (simp add: tracker_simps) (simp add: next_tick_def remove_from_turn_index_def update_session_stats_def Let_def)
qed

subsection \<open>Attribution\<close>

lemma inherit_agent_source:
  "(\<And>h. h \<in> set hs \<Longrightarrow> source h = AgentEdit p) \<Longrightarrow> g \<in> set (inherit_hunks olds cl hs) \<Longrightarrow> source g = AgentEdit p"
  by (induction olds cl hs rule: inherit_hunks.induct) (auto split: option.splits if_splits)

lemma diff_states_source: "h \<in> set (diff_states E t path b c src) \<Longrightarrow> source h = src"
proof (cases "(E, t, path, b, c, src)" rule: diff_states.cases)
  case (1 E' t' path' b' c' src')
  moreover have "source g = src" if "g \<in> set (builds E t path src k bs)" for g k bs
    using that by (auto simp: builds_def build_def)
  moreover assume "h \<in> set (diff_states E t path b c src)"
  ultimately show ?thesis by (auto simp: compute_hunks_eq split: if_splits)
qed (auto simp: file_deleted_def file_created_def split: if_splits)

text \<open>
  A write of the agent takes over every hunk of the file: all of them are attributed to the turn of the write
  afterwards, those that an earlier turn or the user made and the write left alone included.
\<close>

theorem agent_write_takes_the_file:
  assumes "tracked (record_agent_write E path content p prev a) path = Some st"
  shows "\<forall>h \<in> set (hunks st). source h = AgentEdit p"
proof
  fix h assume h: "h \<in> set (hunks st)"
  have "is_diffable (classify_string content)"
    using assms h by (auto simp: record_agent_write_def Let_def tracker_simps new_file_state_def split: option.splits if_splits)
  then obtain t st0 where "st = recomputed E t path (Some (classify_string content)) (AgentEdit p) st0"
    using assms by (auto simp: record_agent_write_def Let_def tracker_simps split: option.splits)
  with h show "source h = AgentEdit p"
    by (auto simp: recomputed_def intro: inherit_agent_source dest: diff_states_source)
qed

subsection \<open>Reading files back\<close>

lemma bounded_read_classifies:
  assumes "d path = Some (FileNode bs)" and "first_read E t path = Some n" and "min 8000 (length bs) \<le> n" and "rest_read E t path"
  shows "read_file_bounded E t d path = classify_bytes bs"
proof -
  let ?pre = "take (min 8000 (length bs)) bs"
  have "is_binary ?pre = is_binary bs" by (auto simp: is_binary_def min_def)
  moreover have "is_lfs_pointer ?pre = is_lfs_pointer bs" by (cases "length bs \<le> 8000") (simp_all add: is_lfs_pointer_def)
  moreover have "min n (min 8000 (length bs)) = min 8000 (length bs)" using assms(3) by simp
  moreover have "(if length bs > min 8000 (length bs) then bs else ?pre) = bs" by simp
  ultimately show ?thesis
    using assms(1,2,4) by (simp add: classify_bytes_def Let_def del: take_all_iff)
qed

lemma classify_text: "list_all scalar_value s \<Longrightarrow> classify_bytes (utf8_bytes s) = classify_string s"
  by (simp add: classify_bytes_def classify_string_def length_utf8_bytes from_utf8_bytes)

lemma written_text_reads_back:
  assumes "write_error E a path = None" and "disk a path \<noteq> Some LinkNode" and "list_all scalar_value s"
    and "first_read E t path = Some 8000" and "rest_read E t path"
  shows "read_file_bounded E t (disk (snd (write_file E path s a))) path = classify_string s"
proof -
  have "disk (snd (write_file E path s a)) path = Some (FileNode (utf8_bytes s))"
    using assms(1,2) by (simp add: write_file_def written_def tracker_simps)
  from bounded_read_classifies [of "disk (snd (write_file E path s a))", OF this assms(4)] show ?thesis
    using assms(3,5) by (simp add: classify_text)
qed

subsection \<open>Merged notifications\<close>

fun about_path :: "str \<Rightarrow> HunkCommand \<Rightarrow> bool" where
  "about_path path (HandleFileChange q) = (q = path)"
| "about_path path (HandleFileDeleted q) = (q = path)"
| "about_path path _ = False"

lemma coalesced_action:
  "map_of (file_actions (fold batch_add cmds batch_new)) path =
     (let ns = filter (about_path path) cmds
      in if ns = [] then None
         else if last ns = HandleFileDeleted path then Some Deleted
         else if HandleFileDeleted path \<in> set ns then Some DeletedThenChanged
         else Some Changed)"
proof (induction cmds rule: rev_induct)
  case (snoc c cmds)
  let ?ns = "filter (about_path path) cmds"
  have "HandleFileDeleted path \<in> set cmds \<longleftrightarrow> HandleFileDeleted path \<in> set ?ns" by simp
  moreover have "?ns \<noteq> [] \<Longrightarrow> last ?ns = HandleFileDeleted path \<Longrightarrow> HandleFileDeleted path \<in> set ?ns"
    by (metis last_in_set)
  ultimately show ?case
    using snoc by (cases c) (auto simp: batch_add_def Let_def update_conv' simp del: set_filter split: if_splits)
qed (simp add: batch_new_def)

lemma coalesced_others:
  "other_commands (fold batch_add cmds b) = other_commands b @ List.map_filter (\<lambda>c. case c of OtherCommand x \<Rightarrow> Some x | _ \<Rightarrow> None) cmds"
proof (induction cmds arbitrary: b)
  case (Cons c cmds)
  then show ?case by (cases c) (simp_all add: batch_add_def map_filter_simps)
qed (simp add: map_filter_simps)

subsection \<open>Patches for the view of a file\<close>

lemma place_ends:
  "x \<in> set (place i j ps) \<Longrightarrow>
   b_old_start x + length (b_old_lines x) \<le> i + length (before_side ps) \<and>
   b_new_start x + length (b_new_lines x) \<le> j + length (after_side ps)"
  by (induction i j ps rule: place.induct) force+

lemma patch_defined:
  assumes "old_start (line_info h) - 1 + old_count (line_info h) \<le> length (lines b)"
    and "new_start (line_info h) - 1 + new_count (line_info h) \<le> length (lines c)"
  shows "generate_hunk_patch b c h \<noteq> None"
  using assms by (auto simp: generate_hunk_patch_def Let_def CONTEXT_LINES_def)

lemma builds_patch_defined:
  assumes "h \<in> set (builds E t path src k (place 1 1 (pieces cs)))" and "line_changes b c cs"
  shows "old_start (line_info h) - 1 + old_count (line_info h) \<le> length (lines b)
    \<and> new_start (line_info h) - 1 + new_count (line_info h) \<le> length (lines c)"
proof -
  obtain i x where h: "h = build E t path src i x" and "(i, x) \<in> set (enumerate k (place 1 1 (pieces cs)))"
    using assms(1) by (auto simp: builds_def)
  then have x: "x \<in> set (place 1 1 (pieces cs))" by (auto simp: in_set_enumerate_eq)
  have "length (lines b) = length (before_side (pieces cs))" "length (lines c) = length (after_side (pieces cs))"
    using assms(2) by (simp_all add: line_changes_def sides_pieces lines_def)
  then show ?thesis using place_ends [OF x] place_bounds [OF x] by (auto simp: h build_def)
qed

text \<open>
  The view of a file never panics: its hunks lie within the lines of both texts, when the lines the diff counts are
  the lines the printer counts.
\<close>

theorem file_view_is_defined:
  assumes "tracker_reachable E a" and "fresh_ids E" and st: "tracked a path = Some st"
    and law: "\<And>b c. baseline st = Full b \<Longrightarrow> current_content st = Full c \<Longrightarrow> line_changes b c (diff_lines E b c)"
  shows "get_file_hunk_data a path \<noteq> None"
proof -
  have "in_sync E path st" using reachable_hunks_ok [OF assms(1,2)] st by (simp add: hunks_ok_def synced_def)
  then consider "hunks st = []" | t src where
    "map hunk_shape (hunks st) = map hunk_shape (diff_states E t path (baseline st) (current_content st) src)"
    unfolding in_sync_def by blast
  then have "patched_hunk st h \<noteq> None" if h: "h \<in> set (hunks st)" for h
  proof cases
    case 2
    have "hunk_shape h \<in> set (map hunk_shape (diff_states E t path (baseline st) (current_content st) src))"
      unfolding 2 [symmetric] using h by simp
    then obtain g where g: "g \<in> set (diff_states E t path (baseline st) (current_content st) src)"
      and info: "line_info h = line_info g" by (auto simp: hunk_shape_def)
    have ne: "max (length (lines s)) 1 = length (lines s)" "max 1 (length (lines s)) = length (lines s)" if "s \<noteq> []" for s
      using that by (cases "lines s"; simp add: lines_def)+
    from g show ?thesis
    proof (cases "(E, t, path, baseline st, current_content st, src)" rule: diff_states.cases)
      case (1 E' t' path' b c src')
      then have "g \<in> set (builds E t path src 0 (place 1 1 (pieces (diff_lines E b c))))"
        using g by (auto simp: compute_hunks_eq split: if_splits)
      from builds_patch_defined [OF this law] 1 info show ?thesis
        using patch_defined [of h b c] by (auto simp: patched_hunk_def Let_def)
    next
      case (2 E' t' path' b src')
      then have "b \<noteq> []" and i: "line_info h = \<lparr>old_start = 1, old_count = length (lines b), new_start = 0, new_count = 0\<rparr>"
        using g info ne [of b] by (auto simp: file_deleted_def split: if_splits)
      with patch_defined [of h b "[]"] 2 show ?thesis by (auto simp: patched_hunk_def Let_def)
    next
      case (3 E' t' path' c src')
      then have "c \<noteq> []" and i: "line_info h = \<lparr>old_start = 0, old_count = 0, new_start = 1, new_count = length (lines c)\<rparr>"
        using g info ne [of c] by (auto simp: file_created_def split: if_splits)
      with patch_defined [of h "[]" c] 3 show ?thesis by (auto simp: patched_hunk_def Let_def)
    qed auto
  qed (use h in simp)
  then show ?thesis using st by (force simp: get_file_hunk_data_def Let_def)
qed

subsection \<open>Summary and remount\<close>

text \<open>Every hunk is counted once: with its turn, or as not attributed.\<close>

lemma sum_by_key:
  "distinct ks \<Longrightarrow> (\<And>x y. x \<in> set xs \<Longrightarrow> f x = Some y \<Longrightarrow> y \<in> set ks) \<Longrightarrow>
   (\<Sum>k \<leftarrow> ks. length (filter (\<lambda>x. f x = Some k) xs)) = length (filter (\<lambda>x. f x \<noteq> None) xs)"
proof (induction xs)
  case (Cons x xs)
  have IH: "(\<Sum>k \<leftarrow> ks. length (filter (\<lambda>x. f x = Some k) xs)) = length (filter (\<lambda>x. f x \<noteq> None) xs)"
    using Cons.prems by (intro Cons.IH) auto
  show ?case
  proof (cases "f x")
    case (Some y)
    have y: "y \<in> set ks" using Cons.prems(2) Some by auto
    have "(\<Sum>k \<leftarrow> ks. length (filter (\<lambda>x. f x = Some k) (x # xs)))
        = (\<Sum>k \<leftarrow> ks. (if k = y then 1 else 0) + length (filter (\<lambda>x. f x = Some k) xs))"
      using Some by (intro arg_cong [where f = sum_list] map_cong) auto
    also have "\<dots> = (\<Sum>k \<leftarrow> ks. if k = y then 1 else 0) + (\<Sum>k \<leftarrow> ks. length (filter (\<lambda>x. f x = Some k) xs))"
      by (simp add: sum_list_addf)
    also have "(\<Sum>k \<leftarrow> ks. if k = y then 1 else 0) = (1 :: nat)"
      using Cons.prems(1) y by (simp add: sum_list_distinct_conv_sum_set)
    finally show ?thesis using IH Some by simp
  qed (use IH in simp)
qed simp

lemma summary_counts_every_hunk:
  "pending_hunks (compute_session_summary a) + unattributed_pending (compute_session_summary a) = length (get_all_hunks a)"
proof -
  let ?f = "\<lambda>h. prompt_index (source h)"
  have turn: "hunks_of_turn a p = filter (\<lambda>h. ?f h = Some p) (get_all_hunks a)" for p
    by (simp add: hunks_of_turn_def get_all_hunks_def turn_hunks_def filter_concat comp_def case_prod_unfold)
  have "(\<Sum>k \<leftarrow> agent_prompts a. length (filter (\<lambda>h. ?f h = Some k) (get_all_hunks a)))
      = length (filter (\<lambda>h. ?f h \<noteq> None) (get_all_hunks a))"
    by (rule sum_by_key) (force simp: agent_prompts_def map_filter_def)+
  then show ?thesis
    using sum_length_filter_compl [of "\<lambda>h. ?f h \<noteq> None" "get_all_hunks a"]
    by (simp add: compute_session_summary_def turn_summary_def turn Let_def comp_def)
qed

text \<open>
  Two files that meet at one path when the working directory moves: the hunks of both are listed for one of the texts.
\<close>

lemma remount_merges_hunks:
  assumes "file_states a = [(p, dest), (q, st)]" and "new \<noteq> working_dir a" and "path_starts_with p new"
    and "\<not> path_starts_with q new" and "rebase_path (working_dir a) new q = p"
  shows "\<exists>st'. tracked (set_working_dir new a) p = Some st'
    \<and> baseline st' = baseline dest \<and> current_content st' = current_content dest
    \<and> map hunk_shape (hunks st') = map hunk_shape (hunks dest @ hunks st)"
proof -
  have "rebase_path (working_dir a) new p = p" using assms(3) by (simp add: rebase_path_def)
  then show ?thesis
    using assms
    by (simp add: tracked_def set_working_dir_def rekey_paths_for_working_dir_def rekey_insert_def rekey_merge_def Let_def
        rekey_state_def hunk_shape_def comp_def)
qed

subsection \<open>A sample session\<close>

text \<open>
  A diff that compares the lines at the same positions, and a session in which the agent changes the first of
  three lines, the user the last one.
\<close>

fun zip_diff :: "str list \<Rightarrow> str list \<Rightarrow> change list" where
  "zip_diff (x # xs) (y # ys) =
     (if x = y then (Equal, x) # zip_diff xs ys else (Delete, x) # (Insert, y) # zip_diff xs ys)"
| "zip_diff xs ys = map (Pair Delete) xs @ map (Pair Insert) ys"

definition hunk_env :: tracker_env where
  "hunk_env =
     \<lparr>diff_lines = (\<lambda>b c. zip_diff (split_inclusive_nl b) (split_inclusive_nl c)), timed_out = (\<lambda>_. False),
      new_id = (\<lambda>t i. [t, i]), utc_now = (\<lambda>t i. 0), first_read = (\<lambda>_ _. Some 8000), rest_read = (\<lambda>_ _. True),
      link_exists = (\<lambda>_. False), link_is_dir = (\<lambda>_. False), write_fails = (\<lambda>_ _. None), remove_fails = (\<lambda>_ _. None),
      read_baseline = (\<lambda>_ _. Full [120, 10, 121, 10, 122, 10]), read_baselines_batch = (\<lambda>_ _ _. None),
      git_status = (\<lambda>_ _. None), read_sync_state = (\<lambda>_. None), parallel_read = (\<lambda>_ _. True)\<rparr>"

definition sample_path :: str where
  "sample_path = [47, 102]"

definition sample_session :: HunkTracker where
  "sample_session =
     run_call hunk_env (FileChange sample_path)
       (run_call hunk_env (DiskChange [sample_path \<mapsto> FileNode [88, 10, 121, 10, 90, 10]])
         (run_call hunk_env (RecordAgentWrite sample_path [88, 10, 121, 10, 122, 10] 0 None)
           (tracker_new [47] AgentOnly (\<lambda>_. None))))"

lemma hunk_env_laws: "fresh_ids hunk_env" "io_works hunk_env"
  by (auto simp: fresh_ids_def io_works_def hunk_env_def inj_def)

lemma hunk_env_sel: "diff_lines hunk_env b c = zip_diff (split_inclusive_nl b) (split_inclusive_nl c)"
  by (simp add: hunk_env_def)

lemma sample_reachable: "tracker_reachable hunk_env sample_session"
  unfolding sample_session_def by (intro tracker_reachable.intros)

lemma tracked_disk_change [tracker_simps]: "tracked (tracker_new dir m d) = (\<lambda>_. None)" "ticks (tracker_new dir m d) = 0"
  by (simp_all add: tracker_new_def tracked_def fun_eq_iff)

lemmas sample_simps =
  hunk_env_def sample_path_def record_agent_write_def handle_file_change_def process_file_change_def
  classify_string_def classify_bytes_def MAX_TRACKED_TEXT_BYTES_def is_lfs_pointer_def LFS_POINTER_PREFIX_def is_binary_def
  starts_with_def lit_Cons utf8_char_def len_utf8_def new_file_state_def recomputed_def
  compute_hunks_eq diffable_pair_def MAX_DIFF_FILE_SIZE_def build_def join_def
  find_matching_old_hunk_def hunks_match_content_def hunks_overlap_def calculate_overlap_size_def abs_diff_def
  edit_source_def from_utf8_def utf8_width_def utf8_scalar_def scalar_value_def

definition sample_file :: FileHunkState where
  "sample_file =
     \<lparr>baseline = Full [120, 10, 121, 10, 122, 10], current_content = Full [88, 10, 121, 10, 90, 10],
      hunks =
        [\<lparr>hunk_id = [1, 0], hunk_path = [47, 102],
          line_info = \<lparr>old_start = 1, old_count = 1, new_start = 1, new_count = 1\<rparr>, source = AgentEdit 0,
          old_text = Some [120, 10], new_text = [88, 10], hunk_patch = None, created_at = 0, selected = False\<rparr>,
         \<lparr>hunk_id = [3, 1], hunk_path = [47, 102],
          line_info = \<lparr>old_start = 3, old_count = 1, new_start = 3, new_count = 1\<rparr>, source = ExternalEditOnAgentFile,
          old_text = Some [122, 10], new_text = [90, 10], hunk_patch = None, created_at = 0, selected = False\<rparr>],
      is_agent_file = True, baseline_accepted = False\<rparr>"

lemma sample_tracked: "tracked sample_session sample_path = Some sample_file"
  by (simp add: sample_session_def sample_file_def sample_simps tracker_simps Let_def)

lemma sample_plain: "plain_edit hunk_env [120, 10, 121, 10, 122, 10] [88, 10, 121, 10, 90, 10]"
  by (simp add: plain_edit_def lf_text_def line_changes_def shares_line_def hunk_env_def old_values_def new_values_def)

lemma sample_in_place: "\<forall>q. tracked sample_session q \<noteq> None \<longrightarrow> file_in_place sample_session q"
proof -
  have "disk sample_session sample_path = Some (FileNode [88, 10, 121, 10, 90, 10])"
    by (simp add: sample_session_def sample_simps tracker_simps Let_def)
  moreover have "q = sample_path" if "tracked sample_session q = Some st" for q st
    using that by (simp add: sample_session_def sample_simps tracker_simps Let_def split: if_splits)
  moreover from calculation(1) have "file_in_place sample_session sample_path" by (simp add: file_in_place_def)
  ultimately show ?thesis by blast
qed

theorem hunks_are_the_diff_witness:
  "(\<exists>t src. map hunk_shape (hunks sample_file)
      = map hunk_shape (diff_states hunk_env t sample_path (baseline sample_file) (current_content sample_file) src))
   \<and> length (hunks sample_file) = 2 \<and> distinct (map hunk_id (get_all_hunks sample_session))"
proof -
  have "length (hunks sample_file) = 2" by (simp add: sample_file_def)
  then show ?thesis
    using hunks_are_the_diff [OF sample_reachable hunk_env_laws(1)] sample_tracked by fastforce
qed

theorem turn_reject_undoes_the_turn_witness:
  "disk (snd (apply_turn_action hunk_env 0 Reject sample_session)) sample_path
     = Some (FileNode [120, 10, 121, 10, 90, 10])"
proof -
  have "turn_hunks 0 sample_file \<noteq> []" by (simp add: turn_hunks_def sample_file_def)
  then show ?thesis
    using turn_reject_undoes_the_turn [OF sample_reachable hunk_env_laws sample_in_place, of 0] sample_tracked sample_plain
    by (fastforce simp: Let_def sample_file_def utf8_char_def hunk_env_sel)
qed

theorem file_review_settles_witness:
  "(\<exists>st. tracked (snd (apply_file_action hunk_env sample_path Accept sample_session)) sample_path = Some st
      \<and> baseline st = Full [88, 10, 121, 10, 90, 10] \<and> hunks st = [])
   \<and> disk (snd (apply_file_action hunk_env sample_path Reject sample_session)) sample_path
        = Some (FileNode [120, 10, 121, 10, 122, 10])"
proof -
  have "hunks sample_file \<noteq> []" by (simp add: sample_file_def)
  note review = file_review_settles [OF sample_reachable hunk_env_laws sample_tracked _ _ this sample_plain]
    and place = sample_in_place
  show ?thesis
    using review [of Accept] review [of Reject] place sample_tracked by (auto simp: Let_def sample_file_def utf8_char_def)
qed

text \<open>A file without a final line feed, and one with carriage returns.\<close>

definition one_write :: "tracker_env \<Rightarrow> str \<Rightarrow> HunkTracker" where
  "one_write E content = run_call E (RecordAgentWrite sample_path content 0 None) (tracker_new [47] AgentOnly (\<lambda>_. None))"

definition env_with :: "str \<Rightarrow> (str \<times> fs_node option) option \<Rightarrow> tracker_env" where
  "env_with head failure = hunk_env\<lparr>read_baseline := (\<lambda>_ _. Full head), write_fails := (\<lambda>_ _. failure)\<rparr>"

lemma one_write_reachable: "tracker_reachable E (one_write E content)"
  unfolding one_write_def by (intro tracker_reachable.intros)

lemma env_with_laws: "fresh_ids (env_with head failure)" "io_works (env_with head None)" "\<not> timed_out (env_with head failure) t"
  by (auto simp: fresh_ids_def io_works_def env_with_def hunk_env_def inj_def)

lemma one_write_files:
  "classify_string content = Full content \<Longrightarrow>
   file_states (one_write (env_with head failure) content) =
     [(sample_path, \<lparr>baseline = Full head, current_content = Full content,
        hunks = inherit_hunks [] {} (compute_hunks (env_with head failure) 1 sample_path head content (AgentEdit 0)),
        is_agent_file = True, baseline_accepted = False\<rparr>)]"
  by (simp add: one_write_def env_with_def record_agent_write_def hunk_env_def new_file_state_def recompute_hunks_def
      tracked_def tracker_new_def put_file_def next_tick_def send_events_def Let_def)

lemma one_write_place:
  "classify_string content = Full content \<Longrightarrow> file_in_place (one_write (env_with head failure) content) sample_path"
  by (simp add: file_in_place_def one_write_def env_with_def record_agent_write_def hunk_env_def new_file_state_def
      recompute_hunks_def tracked_def tracker_new_def put_file_def next_tick_def send_events_def Let_def)

lemma env_with_sel:
  "diff_lines (env_with head f) b c = zip_diff (split_inclusive_nl b) (split_inclusive_nl c)"
  "timed_out (env_with head f) t = False" "new_id (env_with head f) t i = [t, i]" "utc_now (env_with head f) t i = 0"
  by (simp_all add: env_with_def hunk_env_def)

lemmas edge_simps = one_write_files env_with_sel compute_hunks_eq diffable_pair_def MAX_DIFF_FILE_SIZE_def
  build_def join_def find_matching_old_hunk_def len_utf8_def

lemma short_text: "classify_string [120, 10] = Full [120, 10]" "classify_string [88, 13, 10, 121, 13, 10] = Full [88, 13, 10, 121, 13, 10]"
  by (simp_all add: classify_string_def MAX_TRACKED_TEXT_BYTES_def is_lfs_pointer_def LFS_POINTER_PREFIX_def is_binary_def
      starts_with_def lit_Cons utf8_char_def len_utf8_def)

theorem final_newline_is_never_reviewed_witness:
  "\<exists>st. tracked (snd (apply_file_action (env_with [120] None) sample_path Accept (one_write (env_with [120] None) [120, 10]))) sample_path
     = Some st \<and> baseline st = Full [120] \<and> current_content st = Full [120, 10] \<and> hunks st \<noteq> []"
proof -
  let ?E = "env_with [120] None" and ?a = "one_write (env_with [120] None) [120, 10]"
  obtain st where st: "tracked ?a sample_path = Some st" "baseline st = Full (concat [] @ [120])"
    "current_content st = Full (concat [] @ [120] @ [10])" "hunks st \<noteq> []"
    by (simp add: tracked_def short_text edge_simps)
  have "diff_lines ?E (concat [] @ [120]) (concat [] @ [120] @ [10]) = map (Pair Equal) [] @ [(Delete, [120]), (Insert, [120] @ [10])]"
    by (simp add: env_with_def hunk_env_def)
  from final_newline_is_never_reviewed [OF one_write_reachable env_with_laws(1,2) _ st _ this, of Accept] st show ?thesis
    using one_write_place [OF short_text(1)] by (fastforce simp: env_with_laws open_end_def)
qed

theorem reject_rewrites_line_ends_witness:
  "let E = env_with [120, 13, 10, 121, 13, 10] None; a = one_write E [88, 13, 10, 121, 13, 10]
   in \<exists>s. disk (snd (apply_hunk_action E [1, 0] Reject a)) sample_path = Some (FileNode (utf8_bytes s)) \<and> 13 \<notin> set s"
proof -
  let ?E = "env_with [120, 13, 10, 121, 13, 10] None" and ?c = "[88, 13, 10, 121, 13, 10]"
  obtain st h where "find_hunk_file [1, 0] (file_states (one_write ?E ?c)) = Some (sample_path, h)"
    and "tracked (one_write ?E ?c) sample_path = Some st" and "baseline st = Full [120, 13, 10, 121, 13, 10]"
    and "current_content st = Full ?c" and "old_text h = Some [120, 13, 10]"
    by (simp add: tracked_def short_text edge_simps)
  moreover have "crlf_text ?c" "crlf_text [120, 13, 10]"
    by (simp_all add: crlf_text_def str_ends_with_def strip_suffix_def strip_prefix_def)
  ultimately show ?thesis
    using reject_rewrites_line_ends [OF env_with_laws(2)] one_write_place [OF short_text(2)] by (fastforce simp: Let_def)
qed

theorem failed_rejection_is_counted_witness:
  "let E = env_with [120] (Some ([], None)); a = one_write E [120, 10]; a' = snd (apply_hunk_action E [1, 0] Reject a)
   in rejected_hunks (session_stats a') = 1 \<and> tracked a' = tracked a \<and> get_hunk a' [1, 0] \<noteq> None"
proof -
  let ?E = "env_with [120] (Some ([], None))" and ?a = "one_write (env_with [120] (Some ([], None))) [120, 10]"
  obtain st h where "find_hunk_file [1, 0] (file_states ?a) = Some (sample_path, h)"
    and "tracked ?a sample_path = Some st" and "baseline st = Full [120]" and "current_content st = Full [120, 10]"
    and "prompt_index (source h) = Some 0" and "get_hunk ?a [1, 0] = Some h"
    by (simp add: tracked_def get_hunk_def get_all_hunks_def short_text edge_simps)
  moreover have "write_error ?E ?a sample_path = Some ([], None)" by (simp add: write_error_def env_with_def)
  moreover have "rejected_hunks (session_stats ?a) = 0"
    by (simp add: one_write_def env_with_def record_agent_write_def hunk_env_def recompute_hunks_def
      tracked_def tracker_new_def put_file_def next_tick_def send_events_def stats_default_def Let_def)
  ultimately show ?thesis
    using failed_rejection_is_counted [of "[1, 0]" ?a sample_path _ _ _ _ ?E "[]" None 0]
    by (fastforce simp: Let_def saturating_add_def split: prod.splits)
qed

theorem agent_write_takes_the_file_witness:
  "\<exists>st. tracked (record_agent_write hunk_env sample_path [88, 10, 121, 10, 91, 10] 1 None sample_session) sample_path = Some st
     \<and> length (hunks st) = 2 \<and> (\<forall>h \<in> set (hunks st). source h = AgentEdit 1)"
proof -
  let ?a = "record_agent_write hunk_env sample_path [88, 10, 121, 10, 91, 10] 1 None sample_session"
  obtain st where st: "tracked ?a sample_path = Some st" "length (hunks st) = 2"
    using sample_tracked by (simp add: sample_file_def sample_simps tracker_simps Let_def)
  with agent_write_takes_the_file [OF st(1)] show ?thesis by blast
qed

end
