(* ===== verification/Spec2Isabelle.thy ===== *)
theory Spec2Isabelle
  imports
    Breaker_Config Retry_Policy Delivery_Lifecycle Agent_Identity Interjection Prompt_Queue
    Bot_Provider Codex_Diff Codex_Normalize Bot_Update Compaction_Intra
    Compaction_Inter Compaction_Reminder Permission_Policy Workflow_Resume
    Workflow_Manager Token_Estimate Hunk_Review
begin

text \<open>
  A verification of the core logic of Bot, a coding agent for the terminal. The program is a Rust
  workspace: \<^verbatim>\<open>crates/bot-*\<close> are Bot's own crates, \<^verbatim>\<open>crates/common\<close> holds libraries that its
  runtime shares, and \<^verbatim>\<open>crates/codegen\<close> the terminal user interface, the tools and the session
  shell. This development models the crates whose behaviour is decided by pure logic and explicit
  state: what a message, a prompt, a request, an update and a summary go through.

  \<^bold>\<open>Parts and theories.\<close>

  \<^item> \<^bold>\<open>Vocabulary.\<close> \<open>Rust_Num\<close> (machine integers as words, saturating and checked operations,
    durations, binary64 bit patterns), \<open>Rust_Float\<close> (rounding, products and casts of binary64),
    \<open>Rust_Str\<close> (strings as lists of scalar values, UTF-8, trimming, splitting, slices, numbers as
    text), \<open>Rust_Utf8\<close> (decoding of bytes) and \<open>Rust_Search\<close> (find, replace, and the lemmas on
    occurrences across a concatenation).
    \<open>Json_Ops\<close> is the interface to \<open>serde_json\<close>, with the laws the code relies on.

  \<^item> \<^bold>\<open>Circuit breaker\<close> (\<^verbatim>\<open>common/xai-circuit-breaker\<close>). \<open>Sliding_Window\<close> models \<^verbatim>\<open>window.rs\<close>,
    \<open>Circuit_Breaker\<close> the three-state machine of \<^verbatim>\<open>breaker.rs\<close> and the registry, \<open>Breaker_Config\<close> the
    knobs from the environment, \<open>Retry_Policy\<close> the classification of responses. Shown: when it
    trips, cools down, admits probes and closes; that probes cannot block it forever; that its
    invariant holds on every run and the observer's calls replay its state.

  \<^item> \<^bold>\<open>Message delivery\<close> (\<^verbatim>\<open>common/xai-message-delivery-core\<close>). \<open>Delivery_Lifecycle\<close> models the slots
    of turn-bound messages and runs of their operations, \<open>Agent_Identity\<close> the addresses and identity
    tokens. Shown: conservation, at-most-once delivery, isolation of turns, round trips and
    separation of the tokens.

  \<^item> \<^bold>\<open>Prompts\<close> (\<^verbatim>\<open>common/xai-interjection-core\<close>, \<^verbatim>\<open>codegen/xai-prompt-queue\<close>). \<open>Interjection\<close> models
    the event queue and the framing of drained entries, \<open>Prompt_Queue\<close> the merging of queued
    prompts.

  \<^item> \<^bold>\<open>Providers\<close> (\<^verbatim>\<open>bot-core\<close>, \<^verbatim>\<open>bot-provider\<close>, \<^verbatim>\<open>bot-provider-codex\<close>). \<open>Bot_Core\<close> is the vocabulary of
    identifiers, events and limits, \<open>Bot_Provider\<close> discovery and contracts, \<open>Codex_Message\<close> the
    JSON lines, \<open>Codex_Transport\<close> the shared connection as an interleaving of atomic steps,
    \<open>Codex_Diff\<close> the unified diffs and \<open>Codex_Normalize\<close> the translation of every notification into
    agent events. Shown: answers reach the caller that asked, ids are unique, a closing connection
    releases the callers that wait (and one that comes too late is never released), messages and
    diffs round trip, event ids stay distinct.

  \<^item> \<^bold>\<open>Self-update\<close> (\<^verbatim>\<open>bot-update\<close>). \<open>Bot_Update\<close> models the release choice, downloads, digests, archives
    and the replacement of the program over a world of files. Shown: only a verified newer release
    is installed, and a failed update leaves the program as it was.

  \<^item> \<^bold>\<open>Compaction\<close> (\<^verbatim>\<open>common/xai-grok-compaction\<close>). \<open>Compaction_Select\<close> chooses the split of the
    history, \<open>Compaction_Fit\<close> fits the summarizer's input to a budget, \<open>Compaction_History\<close> carries the
    user's queries through chained summaries, \<open>Compaction_Summary\<close> cleans a model's answer and rebuilds
    the history, \<open>Compaction_Sample\<close> is the bounded retry loop, \<open>Compaction_Intra\<close> the passes inside an
    agent loop, \<open>Compaction_Inter\<close> the chunked pipeline between turns and \<open>Compaction_Reminder\<close> the
    reminder of what still runs; \<open>Token_Estimate\<close> (\<^verbatim>\<open>codegen/xai-token-estimation\<close>) has the arithmetic of
    context windows. Shown: the split equals its specification (the least safe
    position), the fitted input stays in its budget and accounts for every turn, queries come back
    verbatim, no protocol tag survives cleaning, sampling is bounded and never repeats a hopeless
    request, the result of a compaction tells which passes were committed (an error may follow a committed
    history, \<open>history_commit_survives_error\<close>), chunks partition the history, the reminder is
    complete, thresholds are exact and percentages bounded.

  \<^item> \<^bold>\<open>Permissions\<close> (\<^verbatim>\<open>codegen/xai-grok-workspace/src/permission\<close>). \<open>Permission_Rules\<close> reads rules from
    settings, \<open>Shell_Words\<close> decomposes scripts and peels wrappers off commands, \<open>Lexical_Path\<close> gives the
    spellings of a path, \<open>Permission_Policy\<close> decides. \<open>Rust_Slice\<close> adds byte offsets to the vocabulary.
    Shown: rules round trip; the decomposition misses no command and peeling reaches the one normal
    form; deny comes before ask before allow in any order of the rules; a denied command is rejected
    wherever a script runs it, an allowed script is allowed in every part, and the gate is silent exactly on
    scripts that the analysis read completely and found clean; paths cannot escape the
    working directory and symbolic links only make a decision stricter. One loss of a warning is proved
    (\<open>packed_script_can_evade\<close>), and one spelling that keeps a parent segment (\<open>backslash_keeps_a_parent\<close>).

  \<^item> \<^bold>\<open>Workflows\<close> (\<^verbatim>\<open>codegen/xai-workflow\<close>). \<open>Workflow_Value\<close> has JSON values, their canonical form
    and request hashes, \<open>Workflow_Journal\<close> the journal and its file with torn writes, \<open>Workflow_Engine\<close>
    every function of a script with replay, parallel agents and outcomes; \<open>Workflow_Replay\<close> proves that
    each call replays, \<open>Workflow_Resume\<close> composes runs, crashes and resumption. Shown: the canonical form
    decides equality up to key order; a file cut at any byte loads to the complete entries and is sound
    again; recording is atomic; a resumed run repeats the recorded results without the host and goes
    on; and the one error a script can catch that is not recorded makes its run unresumable.

  \<^item> \<^bold>\<open>Runs of workflows\<close> (\<^verbatim>\<open>codegen/xai-workflow/src/meta.rs\<close>, \<^verbatim>\<open>codegen/xai-grok-shell/src/session/workflow\<close>).
    \<open>Workflow_Meta\<close> validates the declaration of a script, \<open>Workflow_Tracker\<close> keeps the runs of a session,
    \<open>Tracker_Laws\<close> and \<open>Tracker_Budget\<close> prove what its calls keep, \<open>Workflow_Store\<close> has the sources and
    manifests of runs, and \<open>Workflow_Manager\<close> launches, resumes, pauses, stops and watches them over
    tracker, store and journal. Shown: names are a grammar and stay unique; revisions detect every
    change, so that an empty report means that nothing changed; statuses move only along their
    machine and an interruption is final; completions are reported once; no reservation takes a run over
    its budget; a user's stop outlives every outcome of the engine and a pause its cancellation; a
    resumption runs what was registered. Two
    faults are proved: spent runs hold their slots for ever (\<open>spent_budgets_block_the_session\<close>), and a long
    failure is replayed by every resumption (\<open>long_failure_is_never_pruned\<close>).

  \<^item> \<^bold>\<open>Review of edits\<close> (\<^verbatim>\<open>codegen/xai-hunk-tracker\<close>). \<open>Hunk_Diff\<close> models hunks, their computation from a line
    diff and the patching of texts, \<open>Hunk_Tracker\<close> the state of the actor, the classification of contents and the
    handlers of writes and file changes, \<open>Hunk_Actions\<close> accepting and rejecting, \<open>Hunk_Refresh\<close> the refresh after a move of the
    repository, commands, merged batches, snapshots, the move of the working directory and the views. \<open>Hunk_Patch\<close> relates a diff to the
    texts that arise when some of its hunks are applied, \<open>Hunk_Laws\<close> proves the invariant of the actor, \<open>Hunk_Review\<close> what a
    review does. The diff, the clock, the identifiers, the operating system and \<^verbatim>\<open>gix\<close> are arguments. Shown: in every state the hunks of a file are
    those of a diff of its two contents and have distinct identifiers; rejecting a turn undoes exactly its hunks; accepting or rejecting a
    file settles it; a file reads back as written; merged notifications end as the last one says. Faults are proved: a final line feed is never
    reviewed, line ends are rewritten, a failed rejection is counted, and a write of the agent takes over the hunks of others.

  \<^bold>\<open>How the code corresponds.\<close> A struct is a record, an enum a datatype with the source's
  constructors, a method a definition named after it (\<open>Type_method\<close> where the bare name is taken). A
  method with \<open>&mut self\<close> returns the new state; a fallible one returns a sum with the error on the
  left; a panic is \<open>None\<close>. \<open>u32\<close>, \<open>u64\<close> and \<open>usize\<close> are words and wrap as release builds do, lengths
  are natural numbers. Code outside the repository and traits implemented outside a crate are
  arguments: records of functions with their documented laws as named predicates, each satisfied by
  a concrete instance of this development. Asynchronous code is modelled at its await points where
  tasks share state (\<open>Codex_Transport\<close>), and as a sequence of calls where they do not.

  \<^bold>\<open>Interfaces.\<close> The locales \<open>sample_window\<close>, \<open>retry_classifier\<close>, \<open>opaque_token\<close>, \<open>event_queue\<close> and
  \<open>validated_wire\<close> state what a client relies on, \<open>run_change\<close> and its extension \<open>status_change\<close> what every
  method that changes a workflow run keeps, \<open>tracker_law\<close> what makes a property of single files an invariant of the hunk
  tracker, with interpretations on the code's own definitions.

  \<^bold>\<open>Loops and bounds.\<close> Every loop is a total function: by structural recursion over what it consumes,
  or with a measure (the text or list left, the names still taken). Fuel appears only in the decoder of UTF-8 bytes and in
  the scaling of binary64 quotients, where the length of the input and 64 doublings suffice; the
  budgets of the permission analysis (8 wrappers, 8 prefixes, 16 rounds, 8 nested scripts, 40 links) and
  the operations of a workflow run (\<open>max_ops\<close>) are the code's own. Bounds
  such as \<open>2^32\<close> turns are hypotheses where a cast to \<open>u32\<close> would lose digits.

  \<^bold>\<open>Not modelled.\<close> The terminal interface, rendering and markdown crates (presentation), the shell
  session actors, workspace daemon, MCP servers and terminals (operating-system effects), telemetry
  and logging (no effect on results), authentication and network clients (remote services), worktree
  and file-system crates, generated protocol code and build scripts. The manager and prompter
  around the permission policy, the computer-hub crates and the chat state are
  left out for their size, as are the host service that runs the agents of a workflow and the bytes of its
  manifests. Of the modelled crates, log output, serde derives, metrics and pauses are left
  out; concurrent calls of one circuit breaker are modelled one caller at a time.
\<close>

end
